(* ===== verification/Prelude.thy ===== *)
theory Prelude
  imports Main
begin

text \<open>
  Shared vocabulary of the development: the result type of every fallible operation, the
  lemmas on results, on association lists and on tables kept as lists of rows, and the
  \<^verbatim>\<open>named_theorems\<close> collections the component theories fill.

  A Python function that may raise is a function into \<open>exn + 'a\<close>: \<open>Inl e\<close> for a raised
  exception, \<open>Inr v\<close> for a returned value.
\<close>

named_theorems outcome_simps \<open>inversion of results: when a fallible operation returns or raises\<close>
named_theorems table_simps \<open>rewriting of table updates and queries\<close>

section \<open>Results\<close>

definition bind_result :: "'e + 'a \<Rightarrow> ('a \<Rightarrow> 'e + 'b) \<Rightarrow> 'e + 'b" where
  "bind_result r f = (case r of Inl e \<Rightarrow> Inl e | Inr x \<Rightarrow> f x)"

lemma bind_result_Inr [simp]: "bind_result (Inr x) f = f x"
  by (simp add: bind_result_def)

lemma bind_result_Inl [simp]: "bind_result (Inl e) f = Inl e"
  by (simp add: bind_result_def)

lemma bind_result_eq_Inr [outcome_simps]:
  "bind_result r f = Inr y \<longleftrightarrow> (\<exists>x. r = Inr x \<and> f x = Inr y)"
  by (cases r) auto

lemma bind_result_eq_Inl [outcome_simps]:
  "bind_result r f = Inl e \<longleftrightarrow> r = Inl e \<or> (\<exists>x. r = Inr x \<and> f x = Inl e)"
  by (cases r) auto

definition is_ok :: "'e + 'a \<Rightarrow> bool" where
  "is_ok r = (case r of Inl _ \<Rightarrow> False | Inr _ \<Rightarrow> True)"

lemma is_ok_simps [simp]: "is_ok (Inr x)" "\<not> is_ok (Inl e)"
  by (simp_all add: is_ok_def)

lemma is_ok_iff: "is_ok r \<longleftrightarrow> (\<exists>x. r = Inr x)"
  by (cases r) auto

text \<open>\<open>raise_if c e\<close> is the statement \<^verbatim>\<open>if c: raise e\<close>.\<close>

definition raise_if :: "bool \<Rightarrow> 'e \<Rightarrow> 'e + unit" where
  "raise_if c e = (if c then Inl e else Inr ())"

lemma raise_if_simps [simp]:
  "raise_if True e = Inl e"
  "raise_if False e = Inr ()"
  by (simp_all add: raise_if_def)

lemma raise_if_Inr [outcome_simps]: "raise_if c e = Inr u \<longleftrightarrow> \<not> c"
  by (simp add: raise_if_def)

lemma raise_if_Inl [outcome_simps]: "raise_if c e = Inl e' \<longleftrightarrow> c \<and> e' = e"
  by (auto simp: raise_if_def)

text \<open>A list comprehension whose element expression may raise stops at the first exception.\<close>

primrec map_result :: "('a \<Rightarrow> 'e + 'b) \<Rightarrow> 'a list \<Rightarrow> 'e + 'b list" where
  "map_result f [] = Inr []"
| "map_result f (x # xs) =
     bind_result (f x) (\<lambda>y. bind_result (map_result f xs) (\<lambda>ys. Inr (y # ys)))"

lemma map_result_Inr_map:
  "(\<And>x. x \<in> set xs \<Longrightarrow> f x = Inr (g x)) \<Longrightarrow> map_result f xs = Inr (map g xs)"
  by (induction xs) simp_all

lemma map_result_length: "map_result f xs = Inr ys \<Longrightarrow> length ys = length xs"
  by (induction xs arbitrary: ys) (auto simp: outcome_simps)

lemma map_result_all2:
  "map_result f xs = Inr ys \<longleftrightarrow> list_all2 (\<lambda>x y. f x = Inr y) xs ys"
proof (induction xs arbitrary: ys)
  case Nil
  then show ?case by auto
next
  case (Cons x xs)
  then show ?case by (cases ys) (auto simp: outcome_simps)
qed

lemma list_all2_source: "list_all2 P xs ys \<Longrightarrow> y \<in> set ys \<Longrightarrow> \<exists>x \<in> set xs. P x y"
  by (induction rule: list_all2_induct) auto

section \<open>Tables: SQL rows as a list\<close>

text \<open>
  A table is the list of its rows in insertion order.  \<open>update_rows p f t\<close> is
  \<^verbatim>\<open>UPDATE t SET f WHERE p\<close>, \<open>count_rows p t\<close> its \<^verbatim>\<open>cursor.rowcount\<close>, \<open>find_row p t\<close>
  is \<^verbatim>\<open>SELECT ... WHERE p\<close> followed by \<^verbatim>\<open>fetchone()\<close>.
\<close>

definition update_rows :: "('r \<Rightarrow> bool) \<Rightarrow> ('r \<Rightarrow> 'r) \<Rightarrow> 'r list \<Rightarrow> 'r list" where
  "update_rows p f t = map (\<lambda>r. if p r then f r else r) t"

definition count_rows :: "('r \<Rightarrow> bool) \<Rightarrow> 'r list \<Rightarrow> nat" where
  "count_rows p t = length (filter p t)"

definition find_row :: "('r \<Rightarrow> bool) \<Rightarrow> 'r list \<Rightarrow> 'r option" where
  "find_row p t = List.find p t"

lemma update_rows_Nil [table_simps, simp]: "update_rows p f [] = []"
  by (simp add: update_rows_def)

lemma update_rows_Cons [table_simps]:
  "update_rows p f (r # t) = (if p r then f r else r) # update_rows p f t"
  by (simp add: update_rows_def)

lemma length_update_rows [simp]: "length (update_rows p f t) = length t"
  by (simp add: update_rows_def)

lemma set_update_rows: "set (update_rows p f t) = (\<lambda>r. if p r then f r else r) ` set t"
  by (simp add: update_rows_def)

lemma update_rows_none [table_simps]: "\<forall>r \<in> set t. \<not> p r \<Longrightarrow> update_rows p f t = t"
  by (simp add: update_rows_def map_idI)

lemma map_update_rows:
  "(\<And>r. p r \<Longrightarrow> k (f r) = k r) \<Longrightarrow> map k (update_rows p f t) = map k t"
  by (simp add: update_rows_def)

lemma update_rows_idem:
  assumes "\<And>r. p r \<Longrightarrow> \<not> p (f r)"
  shows "update_rows p f (update_rows p f t) = update_rows p f t"
  using assms by (induction t) (auto simp: update_rows_Cons)

lemma count_rows_after_update:
  assumes "\<And>r. p r \<Longrightarrow> \<not> p (f r)"
  shows "count_rows p (update_rows p f t) = 0"
  using assms by (induction t) (auto simp: update_rows_Cons count_rows_def)

lemma count_rows_0 [table_simps]: "count_rows p t = 0 \<longleftrightarrow> (\<forall>r \<in> set t. \<not> p r)"
  by (auto simp: count_rows_def filter_empty_conv)

lemma count_rows_key_le_1:
  assumes "distinct (map k t)"
  shows "count_rows (\<lambda>r. k r = x \<and> p r) t \<le> 1"
  using assms
proof (induction t)
  case Nil
  then show ?case by (simp add: count_rows_def)
next
  case (Cons r t)
  show ?case
  proof (cases "k r = x")
    case True
    with Cons.prems have "\<forall>r' \<in> set t. k r' \<noteq> x" by (auto simp: image_iff)
    then have "filter (\<lambda>r. k r = x \<and> p r) t = []" by (simp add: filter_empty_conv)
    then show ?thesis by (simp add: count_rows_def)
  next
    case False
    with Cons show ?thesis by (simp add: count_rows_def)
  qed
qed

lemma find_row_None [table_simps]: "find_row p t = None \<longleftrightarrow> (\<forall>r \<in> set t. \<not> p r)"
  by (auto simp: find_row_def find_None_iff)

lemma find_row_SomeD: "find_row p t = Some r \<Longrightarrow> r \<in> set t \<and> p r"
  by (auto simp: find_row_def find_Some_iff in_set_conv_nth)

lemma find_row_unique:
  assumes "distinct (map k t)" and "r \<in> set t" and "k r = x"
  shows "find_row (\<lambda>r. k r = x) t = Some r"
  using assms by (induction t) (auto simp: find_row_def)

lemma distinct_key_inj:
  "distinct (map k t) \<Longrightarrow> r \<in> set t \<Longrightarrow> r' \<in> set t \<Longrightarrow> k r = k r' \<Longrightarrow> r = r'"
  by (auto simp: distinct_map dest: inj_onD)

lemma find_row_update_rows:
  assumes "\<And>r. k (f r) = k r"
  shows "find_row (\<lambda>r. k r = x) (update_rows p f t)
       = map_option (\<lambda>r. if p r then f r else r) (find_row (\<lambda>r. k r = x) t)"
  using assms by (induction t) (auto simp: find_row_def update_rows_Cons)

lemma find_row_snoc:
  "find_row p (t @ [r]) = (case find_row p t of Some x \<Rightarrow> Some x | None \<Rightarrow> if p r then Some r else None)"
  by (induction t) (auto simp: find_row_def)

section \<open>Dictionaries in insertion order\<close>

text \<open>
  A Python \<^verbatim>\<open>dict\<close> that is only read by key is a map; one whose iteration order is
  observed is an association list with distinct keys.  \<open>dict_put\<close> is \<^verbatim>\<open>d[k] = v\<close> (an
  existing key keeps its place), \<open>dict_del\<close> is \<^verbatim>\<open>d.pop(k, None)\<close>.
\<close>

fun dict_put :: "'k \<Rightarrow> 'v \<Rightarrow> ('k \<times> 'v) list \<Rightarrow> ('k \<times> 'v) list" where
  "dict_put k v [] = [(k, v)]"
| "dict_put k v ((k', v') # d) = (if k = k' then (k, v) # d else (k', v') # dict_put k v d)"

definition dict_del :: "'k \<Rightarrow> ('k \<times> 'v) list \<Rightarrow> ('k \<times> 'v) list" where
  "dict_del k d = filter (\<lambda>kv. fst kv \<noteq> k) d"

lemma map_of_dict_put [simp]: "map_of (dict_put k v d) = (map_of d)(k \<mapsto> v)"
  by (induction k v d rule: dict_put.induct) (auto simp: fun_eq_iff)

lemma map_of_dict_del [simp]: "map_of (dict_del k d) = (map_of d)(k := None)"
  by (induction d) (auto simp: dict_del_def fun_eq_iff)

lemma fst_set_dict_put: "fst ` set (dict_put k v d) = insert k (fst ` set d)"
  by (induction k v d rule: dict_put.induct) auto

lemma distinct_dict_put: "distinct (map fst d) \<Longrightarrow> distinct (map fst (dict_put k v d))"
  by (induction k v d rule: dict_put.induct) (auto simp: fst_set_dict_put)

end
