(* ===== verification/Errors.thy ===== *)
theory Errors
  imports Prelude
begin

text \<open>
  The exception values of the model.  Each error class hierarchy of the Agent is one
  datatype with a constructor per class, in the order its module declares them; \<open>exn\<close> joins
  them with the exceptions of Python and its standard library that the code meets.  Messages
  are left out: the code never branches on one (it does branch on the \<open>reason\<close> code of a
  rejected frame, snapshot or configuration, which those constructors carry).
\<close>

section \<open>persistence/errors.py\<close>

datatype repository_error =
    IdentityAlreadyExistsError
  | InvalidIdentityStateError
  | InvalidConfigCacheStateError
  | DetectionEventAlreadyExistsError
  | InvalidDetectionEventStateError
  | SnapshotOutboxAlreadyExistsError
  | SnapshotOutboxAlertConflictError

section \<open>detection/errors.py\<close>

datatype detection_error =
    DetectionIngestHandlerAlreadyRunningError
  | DetectionRuntimeDirectoryMissingError
  | DetectionSocketPathConflictError
  | DetectionDeviceIdentityUnavailableError
  | DetectionClassLabelsUnavailableError

section \<open>activation/errors.py\<close>

text \<open>
  The first six constructors are the client errors (\<open>ActivationClientError\<close>), the rest the
  service errors (\<open>ActivationServiceError\<close>).
\<close>

datatype activation_error =
    ActivationTimeoutError
  | ActivationTransportError
  | ActivationRejectedError int "string option"
  | ActivationServerError int
  | InvalidActivationResponseError
  | ActivationKeyMissingError
  | ActivationKeyFileError
  | DeviceIdentityMismatchError
  | ActivationOutcomeAmbiguousError
  | ActivationPersistenceError
  | ActivationKeyCleanupError

section \<open>Errors of the runtime and of the credential-validation loop\<close>

datatype validation_loop_error =
    DeviceIdentityUnavailableError
  | CredentialLockPersistenceError

datatype operational_state_error =
    OperationalComponentsLockedError
  | OperationalComponentStartError string
  | OperationalComponentShutdownError "string list"
  | ReactivationNotPersistedError
  | UnknownValidationLoopResultError

section \<open>All exceptions\<close>

datatype exn =
    ValueError
  | TypeError
  | OverflowError
  | UnicodeDecodeError
  | UnicodeEncodeError
  | JSONDecodeError
  | IncompleteReadError
  | AssertionError
  | OSError
  | FileNotFoundError
  | SqliteError
  | SqliteIntegrityError string
  | CancelledError
  | OtherException string
  | RepositoryExn repository_error
  | DetectionExn detection_error
  | ActivationExn activation_error
  | ValidationLoopExn validation_loop_error
  | OperationalExn operational_state_error
  | FrameRejected string
  | SnapshotValidationError string
  | ConfigurationValidationError string
  | AgentStartupError
  | DeepStreamAlreadyRunningError
  | UnsupportedSchemaVersionError
  | InvalidSchemaStateError
  | BridgeConfigurationError

text \<open>
  The \<^verbatim>\<open>except\<close> clauses of the code name base classes; these predicates are the subclass
  tests.  \<^verbatim>\<open>asyncio.CancelledError\<close> is a \<^verbatim>\<open>BaseException\<close>, not an \<^verbatim>\<open>Exception\<close>.
\<close>

fun is_exception :: "exn \<Rightarrow> bool" where
  "is_exception CancelledError = False"
| "is_exception _ = True"

fun is_repository_error :: "exn \<Rightarrow> bool" where
  "is_repository_error (RepositoryExn _) = True"
| "is_repository_error _ = False"

fun is_sqlite_error :: "exn \<Rightarrow> bool" where
  "is_sqlite_error SqliteError = True"
| "is_sqlite_error (SqliteIntegrityError _) = True"
| "is_sqlite_error _ = False"

fun is_value_error :: "exn \<Rightarrow> bool" where
  "is_value_error ValueError = True"
| "is_value_error UnicodeDecodeError = True"
| "is_value_error UnicodeEncodeError = True"
| "is_value_error JSONDecodeError = True"
| "is_value_error _ = False"

fun is_os_error :: "exn \<Rightarrow> bool" where
  "is_os_error OSError = True"
| "is_os_error FileNotFoundError = True"
| "is_os_error _ = False"

end
