(* ===== verification/PyFloat.thy ===== *)
theory PyFloat
  imports Errors Complex_Main
begin

text \<open>
  Python floats: IEEE-754 binary64 with round-to-nearest, ties to even.  A finite float is
  the rational it denotes (the sign of zero is not observed by the code); every arithmetic
  operation rounds its exact result with \<open>rnd\<close> and overflows to an infinity beyond the largest
  finite double.  The conversion of an \<^verbatim>\<open>int\<close> raises \<^verbatim>\<open>OverflowError\<close> instead, as Python's
  does.  The definitions compute; the lemmas give the facts the components use: \<open>rnd\<close> is
  monotone, fixes the integers up to \<open>2 ^ 53\<close> and the powers of two, and rounds back to an
  integer \<open>W \<le> 2 ^ 52\<close> whatever is within half a unit in the last place above it.
\<close>

section \<open>Powers of two and binary exponents\<close>

definition pow2 :: "int \<Rightarrow> rat" where
  "pow2 k = (if 0 \<le> k then 2 ^ nat k else 1 / 2 ^ nat (- k))"

lemma pow2_powi: "pow2 k = 2 powi k"
  by (simp add: pow2_def power_int_def inverse_eq_divide power_one_over)

lemma pow2_pos [simp]: "0 < pow2 k"
  by (simp add: pow2_powi)

lemma pow2_nonneg [simp]: "0 \<le> pow2 k"
  by (simp add: less_imp_le)

lemma pow2_neq0 [simp]: "pow2 k \<noteq> 0"
  using pow2_pos [of k] by linarith

lemma pow2_add: "pow2 (a + b) = pow2 a * pow2 b"
  by (simp add: pow2_powi power_int_add)

lemma pow2_diff: "pow2 (a - b) = pow2 a / pow2 b"
  by (simp add: pow2_powi power_int_diff)

lemma pow2_1: "pow2 (k + 1) = 2 * pow2 k"
  by (simp add: pow2_powi power_int_add)

lemma pow2_strict_mono: "a < b \<Longrightarrow> pow2 a < pow2 b"
  by (simp add: pow2_powi power_int_strict_increasing)

lemma pow2_less [simp]: "pow2 a < pow2 b \<longleftrightarrow> a < b"
  using pow2_strict_mono [of a b] pow2_strict_mono [of b a] by (cases a b rule: linorder_cases) auto

lemma pow2_le [simp]: "pow2 a \<le> pow2 b \<longleftrightarrow> a \<le> b"
  by (simp add: linorder_not_less [symmetric])

lemma pow2_nat: "pow2 (int n) = 2 ^ n"
  by (simp add: pow2_def)

fun bit_length :: "nat \<Rightarrow> nat" where
  "bit_length n = (if n = 0 then 0 else Suc (bit_length (n div 2)))"

declare bit_length.simps [simp del]

lemma bit_length_bounds: "0 < n \<Longrightarrow> 2 ^ (bit_length n - 1) \<le> n \<and> n < 2 ^ bit_length n \<and> 0 < bit_length n"
proof (induction n rule: bit_length.induct)
  case (1 n)
  show ?case
  proof (cases "n div 2 = 0")
    case True
    with "1.prems" have "n = 1" by simp
    moreover have "bit_length 1 = 1"
      using bit_length.simps [of 1] bit_length.simps [of 0] by simp
    ultimately show ?thesis by simp
  next
    case False
    let ?m = "n div 2"
    have IH: "2 ^ (bit_length ?m - 1) \<le> ?m" "?m < 2 ^ bit_length ?m" "0 < bit_length ?m"
      using "1.IH" "1.prems" False by auto
    have bl: "bit_length n = Suc (bit_length ?m)"
      using "1.prems" by (simp add: bit_length.simps [of n])
    obtain j where j: "bit_length ?m = Suc j" using IH(3) gr0_implies_Suc by blast
    have "2 * 2 ^ j \<le> 2 * ?m" "?m + 1 \<le> 2 * 2 ^ j" using IH(1,2) j by auto
    then have "2 ^ bit_length ?m \<le> n" "n < 2 ^ Suc (bit_length ?m)" using j by auto
    then show ?thesis using bl by simp
  qed
qed

text \<open>\<open>exponent x\<close> is the \<open>k\<close> with \<open>2 ^ k \<le> x < 2 ^ (k + 1)\<close>, for \<open>x > 0\<close>.\<close>

definition exponent :: "rat \<Rightarrow> int" where
  "exponent x =
     (let (p, q) = quotient_of x;
          k = int (bit_length (nat p)) - int (bit_length (nat q))
      in if pow2 k \<le> x then k else k - 1)"

lemma exponent_bounds:
  assumes "0 < x"
  shows "pow2 (exponent x) \<le> x \<and> x < pow2 (exponent x + 1)"
proof -
  obtain p q where pq: "quotient_of x = (p, q)" by (cases "quotient_of x")
  have q: "0 < q" using quotient_of_denom_pos [OF pq] .
  have x: "x = of_int p / of_int q" using quotient_of_div [OF pq] .
  have p: "0 < p" using assms x q by (auto simp: zero_less_divide_iff)
  define a b where "a = bit_length (nat p)" and "b = bit_length (nat q)"
  have A: "2 ^ (a - 1) \<le> nat p" "nat p < 2 ^ a" "0 < a"
    using bit_length_bounds [of "nat p"] p by (auto simp: a_def)
  have B: "2 ^ (b - 1) \<le> nat q" "nat q < 2 ^ b" "0 < b"
    using bit_length_bounds [of "nat q"] q by (auto simp: b_def)
  have pr: "(of_int p :: rat) = of_nat (nat p)"
    by (rule sym, rule of_nat_nat) (rule less_imp_le [OF p])
  have qr: "(of_int q :: rat) = of_nat (nat q)"
    by (rule sym, rule of_nat_nat) (rule less_imp_le [OF q])
  have P: "pow2 (int a - 1) \<le> of_int p" "of_int p < pow2 (int a)"
  proof -
    have "int a - 1 = int (a - 1)" using A(3) by simp
    then have "pow2 (int a - 1) = of_nat (2 ^ (a - 1))" by (simp only: pow2_nat of_nat_power of_nat_numeral)
    also have "\<dots> \<le> of_nat (nat p)" using A(1) by (simp only: of_nat_le_iff)
    finally show "pow2 (int a - 1) \<le> of_int p" by (simp only: pr)
    have "(of_nat (nat p) :: rat) < of_nat (2 ^ a)" using A(2) by (simp only: of_nat_less_iff)
    also have "\<dots> = pow2 (int a)" by (simp only: pow2_nat of_nat_power of_nat_numeral)
    finally show "of_int p < pow2 (int a)" by (simp only: pr)
  qed
  have Q: "pow2 (int b - 1) \<le> of_int q" "of_int q < pow2 (int b)"
  proof -
    have "int b - 1 = int (b - 1)" using B(3) by simp
    then have "pow2 (int b - 1) = of_nat (2 ^ (b - 1))" by (simp only: pow2_nat of_nat_power of_nat_numeral)
    also have "\<dots> \<le> of_nat (nat q)" using B(1) by (simp only: of_nat_le_iff)
    finally show "pow2 (int b - 1) \<le> of_int q" by (simp only: qr)
    have "(of_nat (nat q) :: rat) < of_nat (2 ^ b)" using B(2) by (simp only: of_nat_less_iff)
    also have "\<dots> = pow2 (int b)" by (simp only: pow2_nat of_nat_power of_nat_numeral)
    finally show "of_int q < pow2 (int b)" by (simp only: qr)
  qed
  have qp: "(0 :: rat) < of_int q" using q by simp
  define k where "k = int a - int b"
  have "pow2 (k - 1) < x"
  proof -
    have "pow2 (k - 1) * of_int q < pow2 (k - 1) * pow2 (int b)"
      using Q(2) by simp
    also have "\<dots> = pow2 (int a - 1)" by (simp add: pow2_add [symmetric] k_def)
    also have "\<dots> \<le> of_int p" by (rule P(1))
    finally show ?thesis using qp by (simp add: x less_divide_eq)
  qed
  moreover have "x < pow2 (k + 1)"
  proof -
    have "of_int p < pow2 (int a)" by (rule P(2))
    also have "pow2 (int a) = pow2 (k + 1) * pow2 (int b - 1)" by (simp add: pow2_add [symmetric] k_def)
    also have "\<dots> \<le> pow2 (k + 1) * of_int q" using Q(1) by simp
    finally show ?thesis using qp by (simp add: x divide_less_eq)
  qed
  moreover have "exponent x = (if pow2 k \<le> x then k else k - 1)"
    by (simp add: exponent_def pq k_def a_def b_def)
  ultimately show ?thesis by auto
qed

lemma exponent_unique:
  assumes "0 < x" and "pow2 k \<le> x" and "x < pow2 (k + 1)"
  shows "exponent x = k"
proof -
  have e: "pow2 (exponent x) \<le> x" "x < pow2 (exponent x + 1)"
    using exponent_bounds [OF assms(1)] by auto
  have "pow2 k < pow2 (exponent x + 1)" using assms(2) e(2) by linarith
  moreover have "pow2 (exponent x) < pow2 (k + 1)" using assms(3) e(1) by linarith
  ultimately show ?thesis by simp
qed

lemma exponent_mono:
  assumes "0 < x" and "x \<le> y"
  shows "exponent x \<le> exponent y"
proof -
  have "pow2 (exponent x) < pow2 (exponent y + 1)"
    using exponent_bounds [OF assms(1)] exponent_bounds [of y] assms by linarith
  then show ?thesis by simp
qed

section \<open>Rounding\<close>

definition round_half_even :: "rat \<Rightarrow> int" where
  "round_half_even x =
     (let f = \<lfloor>x\<rfloor>; d = x - of_int f
      in if d < 1 / 2 then f else if 1 / 2 < d then f + 1 else if even f then f else f + 1)"

lemma round_half_even_of_int [simp]: "round_half_even (of_int n) = n"
  by (simp add: round_half_even_def)

lemma round_half_even_bounds:
  "of_int \<lfloor>x\<rfloor> \<le> (of_int (round_half_even x) :: rat) \<and> round_half_even x \<le> \<lfloor>x\<rfloor> + 1"
  by (simp add: round_half_even_def Let_def)

lemma round_half_even_mono:
  assumes "x \<le> y"
  shows "round_half_even x \<le> round_half_even y"
proof -
  have fl: "\<lfloor>x\<rfloor> \<le> \<lfloor>y\<rfloor>" using assms by (rule floor_mono)
  show ?thesis
  proof (cases "\<lfloor>x\<rfloor> = \<lfloor>y\<rfloor>")
    case True
    then show ?thesis using assms by (simp add: round_half_even_def Let_def)
  next
    case False
    with fl have "\<lfloor>x\<rfloor> + 1 \<le> \<lfloor>y\<rfloor>" by simp
    moreover have "round_half_even x \<le> \<lfloor>x\<rfloor> + 1" by (simp add: round_half_even_bounds)
    moreover have "\<lfloor>y\<rfloor> \<le> round_half_even y"
      using round_half_even_bounds [of y] by simp
    ultimately show ?thesis by linarith
  qed
qed

lemma round_half_even_near:
  "\<bar>of_int (round_half_even x) - x\<bar> \<le> 1 / 2"
proof -
  have "of_int \<lfloor>x\<rfloor> \<le> x" "x < of_int \<lfloor>x\<rfloor> + 1" by linarith+
  then show ?thesis by (auto simp: round_half_even_def Let_def abs_le_iff)
qed

text \<open>The unit in the last place of the binade of \<open>x\<close>; below \<open>2 ^ -1022\<close> the spacing is constant.\<close>

definition quantum :: "rat \<Rightarrow> rat" where
  "quantum x = pow2 (max (exponent x) (- 1022) - 52)"

definition rnd_pos :: "rat \<Rightarrow> rat" where
  "rnd_pos x = of_int (round_half_even (x / quantum x)) * quantum x"

definition rnd :: "rat \<Rightarrow> rat" where
  "rnd x = (if x = 0 then 0 else if 0 < x then rnd_pos x else - rnd_pos (- x))"

lemma quantum_pos [simp]: "0 < quantum x"
  by (simp add: quantum_def)

lemma quantum_neq0 [simp]: "quantum x \<noteq> 0"
  by (simp add: quantum_def)

lemma rnd_0 [simp]: "rnd 0 = 0"
  by (simp add: rnd_def)

lemma rnd_pos_grid:
  assumes "0 < x" and "x = of_int m * quantum x"
  shows "rnd_pos x = x"
proof -
  have "x / quantum x = of_int m" using assms(2) by (metis nonzero_mult_div_cancel_right quantum_neq0)
  then show ?thesis using assms(2) by (simp add: rnd_pos_def)
qed

lemma rnd_pos_ge0: "0 < x \<Longrightarrow> 0 \<le> rnd_pos x"
proof -
  assume "0 < x"
  then have "0 \<le> \<lfloor>x / quantum x\<rfloor>" by (simp add: less_imp_le)
  moreover have "\<lfloor>x / quantum x\<rfloor> \<le> round_half_even (x / quantum x)"
    using round_half_even_bounds [of "x / quantum x"] by simp
  ultimately have "0 \<le> round_half_even (x / quantum x)" by linarith
  then show ?thesis by (simp add: rnd_pos_def less_imp_le)
qed

lemma rnd_pos_le_bound:
  assumes "0 < x" and "max (exponent x) (- 1022) = e"
  shows "rnd_pos x \<le> pow2 (e + 1)"
proof -
  have q: "quantum x = pow2 (e - 52)" using assms(2) by (simp add: quantum_def)
  have "x < pow2 (exponent x + 1)" using exponent_bounds [OF assms(1)] by simp
  also have "\<dots> \<le> pow2 (e + 1)" using assms(2) by simp
  finally have "x / quantum x \<le> pow2 (e + 1) / pow2 (e - 52)"
    by (simp add: q divide_right_mono less_imp_le)
  also have "\<dots> = pow2 53" by (simp add: pow2_diff [symmetric])
  also have "\<dots> = of_int (2 ^ 53)" by (simp add: pow2_def)
  finally have "round_half_even (x / quantum x) \<le> round_half_even (of_int (2 ^ 53))"
    by (rule round_half_even_mono)
  then have "round_half_even (x / quantum x) \<le> 2 ^ 53" by (simp only: round_half_even_of_int)
  then have "(of_int (round_half_even (x / quantum x)) :: rat) \<le> of_int (2 ^ 53)"
    by (simp only: of_int_le_iff)
  then have "rnd_pos x \<le> of_int (2 ^ 53) * pow2 (e - 52)"
    by (simp add: rnd_pos_def q mult_right_mono)
  also have "of_int (2 ^ 53) * pow2 (e - 52) = pow2 53 * pow2 (e - 52)" by (simp add: pow2_def)
  also have "\<dots> = pow2 (e + 1)" by (simp add: pow2_add [symmetric] add.commute)
  finally show ?thesis .
qed

lemma rnd_pos_ge_bound:
  assumes "0 < x" and "exponent x = e" and "- 1022 \<le> e"
  shows "pow2 e \<le> rnd_pos x"
proof -
  have q: "quantum x = pow2 (e - 52)" using assms(2,3) by (simp add: quantum_def max_def)
  have "(of_int (2 ^ 52) :: rat) = pow2 52" by (simp add: pow2_def)
  also have "\<dots> = pow2 e / pow2 (e - 52)" by (simp add: pow2_diff [symmetric])
  also have "\<dots> \<le> x / quantum x"
    using exponent_bounds [OF assms(1)] assms(2) by (simp add: q divide_right_mono)
  finally have "round_half_even (of_int (2 ^ 52)) \<le> round_half_even (x / quantum x)"
    by (rule round_half_even_mono)
  then have "2 ^ 52 \<le> round_half_even (x / quantum x)" by (simp only: round_half_even_of_int)
  then have "(of_int (2 ^ 52) :: rat) \<le> of_int (round_half_even (x / quantum x))"
    by (simp only: of_int_le_iff)
  then have "pow2 52 * pow2 (e - 52) \<le> rnd_pos x"
    by (simp add: rnd_pos_def q mult_right_mono pow2_def)
  then show ?thesis by (simp add: pow2_add [symmetric])
qed

lemma rnd_pos_mono:
  assumes "0 < x" and "x \<le> y"
  shows "rnd_pos x \<le> rnd_pos y"
proof -
  define ex ey where "ex = max (exponent x) (- 1022)" and "ey = max (exponent y) (- 1022)"
  have y: "0 < y" using assms by linarith
  have le: "ex \<le> ey" using exponent_mono [OF assms] by (simp add: ex_def ey_def)
  show ?thesis
  proof (cases "ex = ey")
    case True
    then have q: "quantum x = quantum y" by (simp add: quantum_def ex_def ey_def)
    have "x / quantum y \<le> y / quantum y" using assms(2) by (simp add: divide_right_mono less_imp_le)
    then have "round_half_even (x / quantum x) \<le> round_half_even (y / quantum y)"
      using q by (simp add: round_half_even_mono)
    then show ?thesis by (simp add: rnd_pos_def q mult_right_mono less_imp_le)
  next
    case False
    with le have lt: "ex + 1 \<le> ey" by simp
    then have eq: "exponent y = ey" "- 1022 \<le> ey" by (auto simp: ex_def ey_def max_def split: if_splits)
    have "rnd_pos x \<le> pow2 (ex + 1)" using rnd_pos_le_bound [OF assms(1)] ex_def by simp
    also have "\<dots> \<le> pow2 ey" using lt by simp
    also have "\<dots> \<le> rnd_pos y" using rnd_pos_ge_bound [OF y eq] .
    finally show ?thesis .
  qed
qed

theorem rnd_mono: "x \<le> y \<Longrightarrow> rnd x \<le> rnd y"
  using rnd_pos_mono [of x y] rnd_pos_mono [of "- y" "- x"] rnd_pos_ge0 [of y] rnd_pos_ge0 [of "- x"]
  unfolding rnd_def by (cases "0 < x"; cases "0 < y"; cases "x = 0"; cases "y = 0") simp_all

lemma rnd_ge0: "0 \<le> x \<Longrightarrow> 0 \<le> rnd x"
  using rnd_mono [of 0 x] by simp

text \<open>The finite doubles: the fixed points of rounding.\<close>

definition is_double :: "rat \<Rightarrow> bool" where
  "is_double x \<longleftrightarrow> rnd x = x"

lemma is_double_0 [simp]: "is_double 0"
  by (simp add: is_double_def)

lemma rnd_minus: "rnd (- x) = - rnd x"
  by (simp add: rnd_def)

lemma is_double_minus [simp]: "is_double (- x) = is_double x"
  by (simp add: is_double_def rnd_minus)

lemma is_double_grid:
  assumes "0 < m" and "m < 2 ^ 53" and "- 1074 \<le> e"
  shows "is_double (of_int m * pow2 e)"
proof -
  let ?x = "of_int m * pow2 e"
  have pos: "0 < ?x" using assms(1) by simp
  have "?x < pow2 53 * pow2 e"
  proof -
    have "(of_int m :: rat) < of_int (2 ^ 53)" using assms(2) by (simp only: of_int_less_iff)
    also have "(of_int (2 ^ 53) :: rat) = pow2 53" by (simp add: pow2_def)
    finally show ?thesis by (rule mult_strict_right_mono) simp
  qed
  then have lt: "?x < pow2 (53 + e)" by (simp add: pow2_add)
  have "pow2 (exponent ?x) < pow2 (53 + e)" using exponent_bounds [OF pos] lt by linarith
  then have "exponent ?x \<le> e + 52" by simp
  then have "max (exponent ?x) (- 1022) - 52 \<le> e" using assms(3) by simp
  then obtain n where n: "e = (max (exponent ?x) (- 1022) - 52) + int n"
    using zle_iff_zadd by blast
  have "pow2 e = pow2 (int n) * quantum ?x"
    using n by (metis add.commute pow2_add quantum_def)
  then have "?x = of_int (m * 2 ^ n) * quantum ?x"
    by (simp add: pow2_nat)
  then have "rnd_pos ?x = ?x" by (rule rnd_pos_grid [OF pos])
  then show ?thesis using pos by (simp add: is_double_def rnd_def)
qed

lemma is_double_pow2: "- 1074 \<le> e \<Longrightarrow> is_double (pow2 e)"
  using is_double_grid [of 1 e] by simp

lemma is_double_int:
  assumes "\<bar>n\<bar> \<le> 2 ^ 53"
  shows "is_double (of_int n)"
proof -
  have pos: "is_double (of_int m)" if "0 < m" "m \<le> 2 ^ 53" for m
  proof (cases "m = 2 ^ 53")
    case True
    then have "(of_int m :: rat) = pow2 53" by (simp add: pow2_def)
    then show ?thesis using is_double_pow2 [of 53] by simp
  next
    case False
    then show ?thesis using is_double_grid [of m 0] that by (simp add: pow2_def)
  qed
  show ?thesis
  proof (cases "0 < n")
    case True
    then show ?thesis using pos assms by simp
  next
    case False
    then show ?thesis using pos [of "- n"] assms by (cases "n = 0") simp_all
  qed
qed

lemma rnd_int: "\<bar>n\<bar> \<le> 2 ^ 53 \<Longrightarrow> rnd (of_int n) = of_int n"
  using is_double_int [of n] by (simp add: is_double_def)


lemma rnd_pos_form:
  assumes "0 < x"
  obtains m where "rnd_pos x = of_int m * quantum x" "0 \<le> m" "m \<le> 2 ^ 53"
proof -
  let ?m = "round_half_even (x / quantum x)"
  have "0 \<le> of_int ?m * quantum x" using rnd_pos_ge0 [OF assms] by (simp add: rnd_pos_def)
  then have m0: "0 \<le> ?m" using quantum_pos [of x] by (simp add: zero_le_mult_iff not_le)
  let ?e = "max (exponent x) (- 1022)"
  have "of_int ?m * pow2 (?e - 52) \<le> pow2 (?e + 1)"
    using rnd_pos_le_bound [OF assms refl] by (simp add: rnd_pos_def quantum_def)
  also have "pow2 (?e + 1) = pow2 53 * pow2 (?e - 52)" by (simp add: pow2_add [symmetric] add.commute)
  finally have "(of_int ?m :: rat) \<le> pow2 53" by simp
  also have "pow2 53 = of_int (2 ^ 53)" by (simp add: pow2_def)
  finally have "?m \<le> 2 ^ 53" by (simp only: of_int_le_iff)
  with m0 show ?thesis using that rnd_pos_def by blast
qed

lemma is_double_rnd [simp]: "is_double (rnd x)"
proof -
  have pos: "is_double (rnd_pos y)" if "0 < y" for y
  proof -
    obtain m where m: "rnd_pos y = of_int m * quantum y" "0 \<le> m" "m \<le> 2 ^ 53"
      using rnd_pos_form [OF \<open>0 < y\<close>] .
    let ?e = "max (exponent y) (- 1022) - 52"
    consider "m = 0" | "m = 2 ^ 53" | "0 < m" "m < 2 ^ 53" using m by force
    then show ?thesis
    proof cases
      case 1
      then show ?thesis using m by simp
    next
      case 2
      then have "rnd_pos y = pow2 53 * pow2 ?e" using m by (simp add: pow2_def quantum_def)
      then have "rnd_pos y = pow2 (53 + ?e)" using pow2_add [of 53 ?e] by simp
      then show ?thesis by (simp add: is_double_pow2)
    next
      case 3
      then show ?thesis using is_double_grid [of m ?e] m by (simp add: quantum_def)
    qed
  qed
  show ?thesis by (simp add: rnd_def pos)
qed

text \<open>
  The exact sum of a double and an integer can only be pushed above the integer by a rounding
  tie, and for integers up to \<open>2 ^ 52\<close> the tie goes back down: their significand is even.
\<close>

lemma int_on_even_grid:
  assumes "0 < n" and "n \<le> 2 ^ 52"
  obtains N where "of_int n = of_int N * quantum (of_int n)" "even N"
    "- 1022 \<le> exponent (of_int n)" "N < 2 ^ 53"
proof -
  let ?k = "exponent (of_int n)"
  have pos: "(0 :: rat) < of_int n" using assms(1) by simp
  have b: "pow2 ?k \<le> of_int n" "of_int n < pow2 (?k + 1)" using exponent_bounds [OF pos] by auto
  have "pow2 0 < pow2 (?k + 1)" using b(2) assms(1) by (simp add: pow2_def [of 0])
  then have k0: "0 \<le> ?k" by simp
  have "(of_int n :: rat) \<le> of_int (2 ^ 52)" using assms(2) by (simp only: of_int_le_iff)
  then have "pow2 ?k \<le> pow2 52" using b(1) by (simp add: pow2_def [of 52])
  then have k52: "?k \<le> 52" by simp
  have q: "quantum (of_int n) = pow2 (?k - 52)" using k0 by (simp add: quantum_def)
  define N where "N = n * 2 ^ nat (52 - ?k)"
  have "pow2 (52 - ?k) * pow2 (?k - 52) = pow2 0" by (simp add: pow2_add [symmetric])
  then have "pow2 (52 - ?k) * pow2 (?k - 52) = 1" by (simp add: pow2_def [of 0])
  moreover have "pow2 (52 - ?k) = of_int (2 ^ nat (52 - ?k))" using k52 by (simp add: pow2_def)
  ultimately have eq: "of_int n = of_int N * quantum (of_int n)" by (simp add: N_def q mult.assoc)
  have "even N"
  proof (cases "?k = 52")
    case True
    then have "(of_int (2 ^ 52) :: rat) \<le> of_int n" using b(1) by (simp add: pow2_def [of 52])
    then have "2 ^ 52 \<le> n" by (simp only: of_int_le_iff)
    then have "n = 2 ^ 52" using assms(2) by simp
    then show ?thesis by (simp add: N_def)
  next
    case False
    then have "0 < nat (52 - ?k)" using k52 by simp
    then show ?thesis by (simp add: N_def)
  qed
  moreover have "N < 2 ^ 53"
  proof -
    have "of_int N * pow2 (?k - 52) < pow2 (?k + 1)" using eq b(2) q by simp
    also have "pow2 (?k + 1) = pow2 53 * pow2 (?k - 52)" by (simp add: pow2_add [symmetric] add.commute)
    finally have "(of_int N :: rat) < pow2 53" by simp
    also have "pow2 53 = of_int (2 ^ 53)" by (simp add: pow2_def)
    finally show ?thesis by (simp only: of_int_less_iff)
  qed
  ultimately show ?thesis using that eq k0 by simp
qed

lemma round_half_even_tie_even:
  assumes "even N" and "0 \<le> d" and "d \<le> 1 / 2"
  shows "round_half_even (of_int N + d) = N"
proof -
  have "\<lfloor>of_int N + d\<rfloor> = N" using assms(2,3) by (intro floor_unique) auto
  then show ?thesis using assms by (auto simp: round_half_even_def Let_def)
qed

lemma rnd_int_half_quantum:
  assumes "0 < n" and "n \<le> 2 ^ 52"
  shows "rnd (of_int n + quantum (of_int n) / 2) = of_int n"
proof -
  let ?W = "of_int n :: rat" and ?q = "quantum (of_int n)"
  let ?x = "?W + ?q / 2"
  obtain N where N: "?W = of_int N * ?q" "even N" "- 1022 \<le> exponent ?W" "N < 2 ^ 53"
    using int_on_even_grid [OF assms] .
  have W: "0 < ?W" using assms(1) by simp
  have x: "0 < ?x" using W quantum_pos [of ?W] by linarith
  let ?k = "exponent ?W"
  have q: "?q = pow2 (?k - 52)" using N(3) by (simp add: quantum_def)
  have "of_int N \<le> (of_int (2 ^ 53 - 1) :: rat)" using N(4) by (simp only: of_int_le_iff)
  then have "of_int N * ?q \<le> of_int (2 ^ 53 - 1) * ?q" by (rule mult_right_mono) (simp add: less_imp_le)
  then have "?W \<le> (pow2 53 - 1) * ?q" using N(1) by (simp add: pow2_def [of 53])
  also have "\<dots> = pow2 (?k + 1) - ?q" by (simp add: q left_diff_distrib pow2_add [symmetric] add.commute)
  finally have "?x < pow2 (?k + 1)" using quantum_pos [of ?W] by linarith
  moreover have "pow2 ?k \<le> ?x"
  proof -
    have "pow2 ?k \<le> ?W" using exponent_bounds [OF W] by simp
    then show ?thesis using quantum_pos [of ?W] by linarith
  qed
  ultimately have "exponent ?x = ?k" by (intro exponent_unique [OF x])
  then have qx: "quantum ?x = ?q" by (simp add: quantum_def)
  have "?x / ?q = of_int N + 1 / 2"
    using N(1) by (metis add_divide_distrib divide_divide_eq_left' mult.commute
        nonzero_mult_div_cancel_right quantum_neq0 nonzero_divide_eq_eq divide_self_if)
  then have "round_half_even (?x / ?q) = N"
    using round_half_even_tie_even [OF N(2), of "1 / 2"] by simp
  then show ?thesis using x N(1) qx by (simp add: rnd_def rnd_pos_def)
qed

lemma quantum_mono: "0 < x \<Longrightarrow> x \<le> y \<Longrightarrow> quantum x \<le> quantum y"
  using exponent_mono [of x y] by (auto simp: quantum_def)

lemma rnd_near: "0 < x \<Longrightarrow> \<bar>rnd x - x\<bar> \<le> quantum x / 2"
proof -
  assume x: "0 < x"
  have "\<bar>of_int (round_half_even (x / quantum x)) - x / quantum x\<bar> * quantum x \<le> 1 / 2 * quantum x"
    by (intro mult_right_mono round_half_even_near) (simp add: less_imp_le)
  then have "\<bar>(of_int (round_half_even (x / quantum x)) - x / quantum x) * quantum x\<bar> \<le> quantum x / 2"
    using quantum_pos [of x] by (simp add: abs_mult abs_of_pos)
  then show ?thesis using x by (simp add: rnd_def rnd_pos_def left_diff_distrib)
qed

theorem rnd_clamp:
  assumes "0 \<le> l" and "l \<le> of_int n" and "0 < n" and "n \<le> 2 ^ 52"
  shows "rnd (l + rnd (of_int n - l)) \<le> of_int n"
proof (cases "of_int n - l = 0")
  case True
  then show ?thesis using rnd_int [of n] assms(3,4) by simp
next
  case False
  then have pos: "0 < of_int n - l" using assms(2) by simp
  have "rnd (of_int n - l) - (of_int n - l) \<le> quantum (of_int n - l) / 2"
    using rnd_near [OF pos] by linarith
  also have "\<dots> \<le> quantum (of_int n) / 2"
    using quantum_mono [OF pos, of "of_int n"] assms(1) by simp
  finally have "l + rnd (of_int n - l) \<le> of_int n + quantum (of_int n) / 2" by linarith
  then have "rnd (l + rnd (of_int n - l)) \<le> rnd (of_int n + quantum (of_int n) / 2)"
    by (rule rnd_mono)
  then show ?thesis using rnd_int_half_quantum [OF assms(3,4)] by simp
qed


section \<open>The float type\<close>

datatype pyfloat = Fin rat | PInf | NInf | NaN

definition max_double :: rat where
  "max_double = of_int (2 ^ 53 - 1) * pow2 971"

definition fl_round :: "rat \<Rightarrow> pyfloat" where
  "fl_round x =
     (let r = rnd x
      in if max_double < r then PInf else if r < - max_double then NInf else Fin r)"

fun fl_neg :: "pyfloat \<Rightarrow> pyfloat" where
  "fl_neg (Fin a) = Fin (- a)"
| "fl_neg PInf = NInf"
| "fl_neg NInf = PInf"
| "fl_neg NaN = NaN"

fun fl_add :: "pyfloat \<Rightarrow> pyfloat \<Rightarrow> pyfloat" where
  "fl_add (Fin a) (Fin b) = fl_round (a + b)"
| "fl_add NaN _ = NaN"
| "fl_add _ NaN = NaN"
| "fl_add PInf NInf = NaN"
| "fl_add NInf PInf = NaN"
| "fl_add (Fin _) y = y"
| "fl_add x _ = x"

definition fl_sub :: "pyfloat \<Rightarrow> pyfloat \<Rightarrow> pyfloat" where
  "fl_sub x y = fl_add x (fl_neg y)"

fun fl_sign :: "pyfloat \<Rightarrow> rat" where
  "fl_sign (Fin a) = sgn a"
| "fl_sign PInf = 1"
| "fl_sign NInf = - 1"
| "fl_sign NaN = 0"

fun fl_mul :: "pyfloat \<Rightarrow> pyfloat \<Rightarrow> pyfloat" where
  "fl_mul (Fin a) (Fin b) = fl_round (a * b)"
| "fl_mul NaN _ = NaN"
| "fl_mul _ NaN = NaN"
| "fl_mul x y =
     (let s = fl_sign x * fl_sign y in if s = 0 then NaN else if 0 < s then PInf else NInf)"

fun fl_less :: "pyfloat \<Rightarrow> pyfloat \<Rightarrow> bool" where
  "fl_less (Fin a) (Fin b) = (a < b)"
| "fl_less NaN _ = False"
| "fl_less _ NaN = False"
| "fl_less NInf y = (y \<noteq> NInf)"
| "fl_less PInf _ = False"
| "fl_less (Fin _) y = (y = PInf)"

fun fl_le :: "pyfloat \<Rightarrow> pyfloat \<Rightarrow> bool" where
  "fl_le NaN _ = False"
| "fl_le _ NaN = False"
| "fl_le x y = (fl_less x y \<or> x = y)"

text \<open>
  Python compares a float with an int exactly, by value: the int is not rounded.  So an int
  operand of a comparison is written \<open>fl_exact n\<close>.
\<close>

definition fl_exact :: "int \<Rightarrow> pyfloat" where
  "fl_exact n = Fin (of_int n)"

text \<open>\<^verbatim>\<open>float(n)\<close>, and the conversion of an int operand of \<open>+\<close>, \<open>-\<close>, \<open>*\<close> with a float.\<close>

definition float_of_int :: "int \<Rightarrow> exn + pyfloat" where
  "float_of_int n =
     (case fl_round (of_int n) of Fin r \<Rightarrow> Inr (Fin r) | _ \<Rightarrow> Inl OverflowError)"

fun fl_isfinite :: "pyfloat \<Rightarrow> bool" where
  "fl_isfinite (Fin _) = True"
| "fl_isfinite _ = False"

text \<open>\<^verbatim>\<open>math.ceil\<close>, and the two-argument \<^verbatim>\<open>min\<close>/\<^verbatim>\<open>max\<close>, which keep the first operand unless the second
  is strictly smaller/larger.\<close>

fun fl_ceil :: "pyfloat \<Rightarrow> exn + int" where
  "fl_ceil (Fin a) = Inr \<lceil>a\<rceil>"
| "fl_ceil NaN = Inl ValueError"
| "fl_ceil _ = Inl OverflowError"

definition fl_min :: "pyfloat \<Rightarrow> pyfloat \<Rightarrow> pyfloat" where
  "fl_min x y = (if fl_less y x then y else x)"

text \<open>A value of the type denotes a float when its rational is a double in range.\<close>

fun fl_ok :: "pyfloat \<Rightarrow> bool" where
  "fl_ok (Fin a) = (is_double a \<and> \<bar>a\<bar> \<le> max_double)"
| "fl_ok _ = True"

lemma max_double_pos: "0 < max_double"
  by (simp add: max_double_def)

lemma fl_round_ok [simp]: "fl_ok (fl_round x)"
  by (simp add: fl_round_def Let_def abs_le_iff)

lemma fl_neg_ok [simp]: "fl_ok x \<Longrightarrow> fl_ok (fl_neg x)"
  by (cases x) simp_all

lemma fl_add_ok [simp]: "fl_ok x \<Longrightarrow> fl_ok y \<Longrightarrow> fl_ok (fl_add x y)"
  by (cases "(x, y)" rule: fl_add.cases) simp_all

lemma fl_sub_ok [simp]: "fl_ok x \<Longrightarrow> fl_ok y \<Longrightarrow> fl_ok (fl_sub x y)"
  by (simp add: fl_sub_def)

lemma float_of_int_Inr:
  "float_of_int n = Inr x \<longleftrightarrow> x = fl_round (of_int n) \<and> fl_isfinite (fl_round (of_int n))"
  by (cases "fl_round (of_int n)") (auto simp: float_of_int_def)

lemma float_of_int_ok: "float_of_int n = Inr x \<Longrightarrow> fl_ok x \<and> fl_isfinite x"
  by (simp add: float_of_int_Inr)

lemma float_of_int_Inl: "float_of_int n = Inl e \<Longrightarrow> e = OverflowError"
  by (auto simp: float_of_int_def split: pyfloat.splits)

lemma fl_isfinite_iff: "fl_isfinite x \<longleftrightarrow> (\<exists>a. x = Fin a)"
  by (cases x) simp_all

lemma fl_min_ok [simp]: "fl_ok x \<Longrightarrow> fl_ok y \<Longrightarrow> fl_ok (fl_min x y)"
  by (simp add: fl_min_def)

lemma fl_min_Fin [simp]: "fl_min (Fin a) (Fin b) = Fin (min a b)"
  by (simp add: fl_min_def min_def)

lemma fl_round_Fin_iff: "fl_round x = Fin r \<longleftrightarrow> r = rnd x \<and> \<bar>rnd x\<bar> \<le> max_double"
  using max_double_pos by (auto simp: fl_round_def Let_def abs_le_iff)

lemma fl_round_double:
  assumes "is_double x" and "\<bar>x\<bar> \<le> max_double"
  shows "fl_round x = Fin x"
  using assms by (simp add: fl_round_Fin_iff is_double_def)

lemma int_in_range: "\<bar>n\<bar> \<le> 2 ^ 53 \<Longrightarrow> \<bar>of_int n :: rat\<bar> \<le> max_double"
proof -
  assume n: "\<bar>n\<bar> \<le> 2 ^ 53"
  have "\<bar>of_int n :: rat\<bar> = of_int \<bar>n\<bar>" by simp
  also have "\<dots> \<le> of_int (2 ^ 53)" using n by (simp only: of_int_le_iff)
  also have "\<dots> = pow2 53" by (simp add: pow2_def)
  also have "\<dots> \<le> pow2 971" by simp
  also have "\<dots> \<le> max_double" by (simp add: max_double_def)
  finally show ?thesis .
qed

lemma float_of_int_small: "\<bar>n\<bar> \<le> 2 ^ 53 \<Longrightarrow> float_of_int n = Inr (Fin (of_int n))"
  using is_double_int [of n] int_in_range [of n]
  by (simp add: float_of_int_def fl_round_double)

lemma fl_round_int: "x = of_int n \<Longrightarrow> \<bar>n\<bar> \<le> 2 ^ 53 \<Longrightarrow> fl_round x = Fin x"
  using is_double_int [of n] int_in_range [of n] by (simp add: fl_round_double)

lemma float_of_int_pow2:
  "float_of_int (2 ^ n) = (if n < 1024 then Inr (Fin (2 ^ n)) else Inl OverflowError)"
proof -
  have p: "(of_int (2 ^ n) :: rat) = pow2 (int n)" by (simp add: pow2_nat)
  have d: "is_double (pow2 (int n))" by (rule is_double_pow2) simp
  have r: "rnd (of_int (2 ^ n)) = pow2 (int n)" using d p by (simp add: is_double_def)
  show ?thesis
  proof (cases "n < 1024")
    case True
    then have "pow2 (int n) \<le> pow2 1023" by simp
    also have "\<dots> = pow2 52 * pow2 971" by (simp add: pow2_add [symmetric])
    also have "\<dots> \<le> max_double" by (simp add: max_double_def pow2_def [of 52])
    finally have "\<bar>pow2 (int n)\<bar> \<le> max_double" by simp
    then have "fl_round (of_int (2 ^ n)) = Fin (pow2 (int n))" using r by (simp add: fl_round_Fin_iff)
    then show ?thesis using True by (simp add: float_of_int_def pow2_nat)
  next
    case False
    have "max_double < pow2 53 * pow2 971" by (simp add: max_double_def pow2_def [of 53])
    also have "\<dots> = pow2 1024" by (simp add: pow2_add [symmetric])
    also have "\<dots> \<le> pow2 (int n)" using False by simp
    finally have "max_double < rnd (of_int (2 ^ n))" using r by simp
    then show ?thesis using False by (simp add: float_of_int_def fl_round_def Let_def)
  qed
qed

text \<open>A double of at least \<open>2 ^ 52\<close> is an integer.\<close>

lemma double_big_int:
  assumes "is_double x" and "2 ^ 52 \<le> x"
  obtains n where "x = of_int n"
proof -
  have pos: "0 < x" using assms(2) by (rule less_le_trans [rotated]) simp
  have "pow2 52 \<le> x" using assms(2) by (simp add: pow2_def)
  also have "x < pow2 (exponent x + 1)" using exponent_bounds [OF pos] by simp
  finally have "52 \<le> exponent x" by simp
  then obtain k where "max (exponent x) (- 1022) - 52 = int k"
    by (metis diff_ge_0_iff_ge max.coboundedI1 nonneg_int_cases)
  then have "quantum x = 2 ^ k" unfolding quantum_def by (simp only: pow2_nat)
  moreover have "x = of_int (round_half_even (x / quantum x)) * quantum x"
    using assms(1) pos by (simp add: is_double_def rnd_def rnd_pos_def)
  ultimately have "x = of_int (round_half_even (x / quantum x) * 2 ^ k)" by simp
  then show ?thesis using that by blast
qed

text \<open>So the ceiling of a double in range converts back to a float exactly.\<close>

lemma float_of_ceiling:
  assumes "is_double x" and "0 \<le> x" and "x \<le> max_double"
  shows "float_of_int (max 1 \<lceil>x\<rceil>) = Inr (Fin (of_int (max 1 \<lceil>x\<rceil>)))"
proof (cases "2 ^ 52 \<le> x")
  case True
  then obtain n where n: "x = of_int n" using double_big_int [OF assms(1)] by blast
  have "(1 :: rat) \<le> 2 ^ 52" by simp
  with True n have "1 \<le> n" by (metis of_int_1_le_iff order_trans)
  with n assms show ?thesis by (simp add: float_of_int_def fl_round_double max_absorb2)
next
  case False
  then have "x \<le> of_int (2 ^ 52)" by simp
  then have "\<lceil>x\<rceil> \<le> 2 ^ 52" by (rule ceiling_le)
  moreover have "0 \<le> \<lceil>x\<rceil>" using assms(2) by (simp add: le_ceiling_iff)
  ultimately show ?thesis by (intro float_of_int_small) (simp add: abs_le_iff)
qed

end
