(* ===== verification/PyData.thy ===== *)
theory PyData
  imports PyFloat "HOL-Library.Word" "HOL-Library.Char_ord" "HOL-Library.List_Lexorder"
begin

text \<open>
  The values of Python's standard library the Agent works with: \<^verbatim>\<open>bytes\<close> and big-endian
  integers, \<^verbatim>\<open>uuid.UUID\<close> with its text form, timezone-aware datetimes, and the documents
  \<^verbatim>\<open>json.loads\<close> returns.  Text is a HOL string (code points up to 255).
\<close>

section \<open>bytes and int.to_bytes / int.from_bytes\<close>

type_synonym bytes = "8 word list"

fun be_bytes :: "nat \<Rightarrow> nat \<Rightarrow> bytes" where
  "be_bytes 0 n = []"
| "be_bytes (Suc k) n = be_bytes k (n div 256) @ [of_nat n]"

definition from_bytes :: "bytes \<Rightarrow> nat" where
  "from_bytes bs = foldl (\<lambda>acc b. acc * 256 + unat b) 0 bs"

definition to_bytes :: "nat \<Rightarrow> nat \<Rightarrow> exn + bytes" where
  "to_bytes k n = (if n < 256 ^ k then Inr (be_bytes k n) else Inl OverflowError)"

lemma length_be_bytes [simp]: "length (be_bytes k n) = k"
  by (induction k arbitrary: n) simp_all

lemma to_bytes_length: "to_bytes k n = Inr bs \<Longrightarrow> length bs = k"
  by (auto simp: to_bytes_def split: if_splits)

lemma from_bytes_be_bytes: "n < 256 ^ k \<Longrightarrow> from_bytes (be_bytes k n) = n"
proof (induction k arbitrary: n)
  case 0
  then show ?case by (simp add: from_bytes_def)
next
  case (Suc k)
  then have "n div 256 < 256 ^ k" by (simp add: div_less_iff_less_mult mult.commute)
  then have "from_bytes (be_bytes k (n div 256)) = n div 256" by (rule Suc.IH)
  then show ?case by (simp add: from_bytes_def unat_of_nat)
qed

lemma from_to_bytes: "to_bytes k n = Inr bs \<Longrightarrow> from_bytes bs = n"
  by (auto simp: to_bytes_def from_bytes_be_bytes split: if_splits)

lemma from_bytes_snoc: "from_bytes (bs @ [b]) = from_bytes bs * 256 + unat b"
  by (simp add: from_bytes_def)

lemma from_bytes_less: "from_bytes bs < 256 ^ length bs"
proof (induction bs rule: rev_induct)
  case Nil
  then show ?case by (simp add: from_bytes_def)
next
  case (snoc b bs)
  have "unat b < 2 ^ LENGTH(8)" by (rule unsigned_less)
  then have "unat b < 256" by simp
  with snoc show ?case by (simp add: from_bytes_snoc)
qed

section \<open>UUID\<close>

type_synonym uuid = "128 word"

definition hex_char :: "nat \<Rightarrow> char" where
  "hex_char d = ''0123456789abcdef'' ! (d mod 16)"

fun hex_fixed :: "nat \<Rightarrow> nat \<Rightarrow> string" where
  "hex_fixed 0 n = []"
| "hex_fixed (Suc k) n = hex_fixed k (n div 16) @ [hex_char n]"

text \<open>\<^verbatim>\<open>str(u)\<close>: 32 lower-case hex digits in the groups 8-4-4-4-12.\<close>

definition str_uuid :: "uuid \<Rightarrow> string" where
  "str_uuid u =
     (let h = hex_fixed 32 (unat u)
      in take 8 h @ ''-'' @ take 4 (drop 8 h) @ ''-'' @ take 4 (drop 12 h) @ ''-''
         @ take 4 (drop 16 h) @ ''-'' @ drop 20 h)"

text \<open>
  \<^verbatim>\<open>UUID(s)\<close>: the prefixes \<^verbatim>\<open>urn:\<close> and \<^verbatim>\<open>uuid:\<close> and surrounding braces are dropped, then all
  hyphens; exactly 32 characters must remain and \<^verbatim>\<open>int(s, 16)\<close> must accept them (Python's
  integer syntax: surrounding white space, a sign, an optional \<^verbatim>\<open>0x\<close>, single underscores
  between digits), with a non-negative result.
\<close>

fun starts_with :: "'a list \<Rightarrow> 'a list \<Rightarrow> bool" where
  "starts_with [] xs = True"
| "starts_with (p # ps) [] = False"
| "starts_with (p # ps) (x # xs) = (p = x \<and> starts_with ps xs)"

function (sequential) remove_all :: "'a list \<Rightarrow> 'a list \<Rightarrow> 'a list" where
  "remove_all pat [] = []"
| "remove_all pat (x # xs) =
     (if pat \<noteq> [] \<and> starts_with pat (x # xs) then remove_all pat (drop (length pat) (x # xs))
      else x # remove_all pat xs)"
  by pat_completeness auto
termination by (relation "measure (\<lambda>(pat, xs). length xs)") auto

definition strip_by :: "('a \<Rightarrow> bool) \<Rightarrow> 'a list \<Rightarrow> 'a list" where
  "strip_by p xs = rev (dropWhile p (rev (dropWhile p xs)))"

definition is_space :: "char \<Rightarrow> bool" where
  "is_space c \<longleftrightarrow> of_char c \<in> {9, 10, 11, 12, 13, 28, 29, 30, 31, 32, 133, 160 :: nat}"

text \<open>\<open>blank s\<close> is \<^verbatim>\<open>not s.strip()\<close>.\<close>

definition blank :: "string \<Rightarrow> bool" where
  "blank s \<longleftrightarrow> strip_by is_space s = []"

definition hex_value :: "char \<Rightarrow> nat option" where
  "hex_value c =
     (let n = of_char c :: nat
      in if 48 \<le> n \<and> n \<le> 57 then Some (n - 48)
         else if 97 \<le> n \<and> n \<le> 102 then Some (n - 87)
         else if 65 \<le> n \<and> n \<le> 70 then Some (n - 55) else None)"

fun hex_digits :: "string \<Rightarrow> nat \<Rightarrow> nat option" where
  "hex_digits [] acc = Some acc"
| "hex_digits (c # cs) acc =
     (if c = CHR ''_''
      then (case cs of [] \<Rightarrow> None
            | d # ds \<Rightarrow> (case hex_value d of None \<Rightarrow> None | Some v \<Rightarrow> hex_digits ds (acc * 16 + v)))
      else (case hex_value c of None \<Rightarrow> None | Some v \<Rightarrow> hex_digits cs (acc * 16 + v)))"

fun hex_body :: "string \<Rightarrow> nat option" where
  "hex_body [] = None"
| "hex_body (c # cs) =
     (if c = CHR ''_'' then None
      else (case hex_value c of None \<Rightarrow> None | Some v \<Rightarrow> hex_digits cs v))"

fun hex_unprefix :: "string \<Rightarrow> string" where
  "hex_unprefix (a # b # cs) =
     (if a = CHR ''0'' \<and> (b = CHR ''x'' \<or> b = CHR ''X'')
      then (case cs of c # ds \<Rightarrow> if c = CHR ''_'' then ds else cs | [] \<Rightarrow> []) else a # b # cs)"
| "hex_unprefix cs = cs"

definition int_base16 :: "string \<Rightarrow> int option" where
  "int_base16 s =
     (case strip_by is_space s of
        [] \<Rightarrow> None
      | c # cs \<Rightarrow>
          if c = CHR ''-'' then map_option (\<lambda>n. - int n) (hex_body (hex_unprefix cs))
          else if c = CHR ''+'' then map_option int (hex_body (hex_unprefix cs))
          else map_option int (hex_body (hex_unprefix (c # cs))))"

definition parse_uuid :: "string \<Rightarrow> exn + uuid" where
  "parse_uuid s =
     (let h = filter (\<lambda>c. c \<noteq> CHR ''-'')
                (strip_by (\<lambda>c. c = CHR ''{'' \<or> c = CHR ''}'')
                   (remove_all ''uuid:'' (remove_all ''urn:'' s)))
      in if length h \<noteq> 32 then Inl ValueError
         else case int_base16 h of
                None \<Rightarrow> Inl ValueError
              | Some n \<Rightarrow> if 0 \<le> n \<and> n < 2 ^ 128 then Inr (word_of_int n) else Inl ValueError)"

subsection \<open>The text form parses back\<close>

definition is_hex_digit :: "char \<Rightarrow> bool" where
  "is_hex_digit c \<longleftrightarrow> c \<in> set ''0123456789abcdef''"

lemma is_hex_digit_hex_char [simp]: "is_hex_digit (hex_char d)"
proof -
  have "d mod 16 < length ''0123456789abcdef''" by simp
  then show ?thesis unfolding hex_char_def is_hex_digit_def by (rule nth_mem)
qed

lemma hex_value_table: "\<forall>d \<in> set [0..<16]. hex_value (''0123456789abcdef'' ! d) = Some d"
  by code_simp

lemma hex_value_hex_char [simp]: "hex_value (hex_char d) = Some (d mod 16)"
proof -
  have "d mod 16 \<in> set [0..<16]" by simp
  then show ?thesis using hex_value_table unfolding hex_char_def by blast
qed

lemma is_hex_digit_neq:
  assumes "is_hex_digit c"
  shows "c \<noteq> CHR ''_''" "c \<noteq> CHR ''-''" "c \<noteq> CHR ''+''" "c \<noteq> CHR ''u''" "c \<noteq> CHR ''x''"
    "c \<noteq> CHR ''X''" "c \<noteq> CHR ''{''" "c \<noteq> CHR ''}''" "\<not> is_space c"
  using assms by (auto simp: is_hex_digit_def is_space_def)

lemma length_hex_fixed [simp]: "length (hex_fixed k n) = k"
  by (induction k arbitrary: n) simp_all

lemma hex_fixed_digits: "c \<in> set (hex_fixed k n) \<Longrightarrow> is_hex_digit c"
  by (induction k arbitrary: n) auto

lemma hex_digits_append:
  "\<forall>c \<in> set xs. is_hex_digit c \<Longrightarrow>
   hex_digits (xs @ ys) acc = Option.bind (hex_digits xs acc) (hex_digits ys)"
proof (induction xs arbitrary: acc)
  case Nil
  then show ?case by simp
next
  case (Cons c xs)
  then show ?case by (auto simp: is_hex_digit_neq split: option.splits)
qed

lemma hex_digits_fixed: "hex_digits (hex_fixed k n) acc = Some (acc * 16 ^ k + n mod 16 ^ k)"
proof (induction k arbitrary: n acc)
  case 0
  then show ?case by simp
next
  case (Suc k)
  have "\<forall>c \<in> set (hex_fixed k (n div 16)). is_hex_digit c" by (simp add: hex_fixed_digits)
  then have "hex_digits (hex_fixed (Suc k) n) acc
      = Some ((acc * 16 ^ k + (n div 16) mod 16 ^ k) * 16 + n mod 16)"
    by (simp add: hex_digits_append Suc.IH is_hex_digit_neq)
  also have "(acc * 16 ^ k + (n div 16) mod 16 ^ k) * 16 + n mod 16
      = acc * 16 ^ Suc k + n mod 16 ^ Suc k"
    by (simp add: mod_mult2_eq algebra_simps)
  finally show ?case .
qed

lemma hex_body_fixed:
  assumes "0 < k" and "n < 16 ^ k"
  shows "hex_body (hex_unprefix (hex_fixed k n)) = Some n"
proof -
  obtain c cs where cc: "hex_fixed k n = c # cs"
    using assms(1) by (metis length_0_conv length_hex_fixed less_irrefl list.exhaust)
  have hd: "is_hex_digit x" if "x \<in> set (c # cs)" for x
    using hex_fixed_digits [of x k n] cc that by simp
  then have un: "hex_unprefix (c # cs) = c # cs"
    by (cases cs) (auto simp: is_hex_digit_neq)
  have "hex_digits (c # cs) 0 = Some n"
    using hex_digits_fixed [of k n 0] assms(2) cc by simp
  then have "hex_body (c # cs) = Some n"
    using hd [of c] by (auto simp: is_hex_digit_neq split: option.splits)
  then show ?thesis using un cc by simp
qed

lemma dropWhile_none: "\<forall>x \<in> set xs. \<not> p x \<Longrightarrow> dropWhile p xs = xs"
  by (cases xs) simp_all

lemma strip_by_none: "\<forall>x \<in> set xs. \<not> p x \<Longrightarrow> strip_by p xs = xs"
  by (simp add: strip_by_def dropWhile_none)

lemma starts_with_hd: "starts_with (p # ps) xs \<Longrightarrow> p \<in> set xs"
  by (cases xs) auto

lemma remove_all_none: "p \<notin> set xs \<Longrightarrow> remove_all (p # ps) xs = xs"
  by (induction xs) auto

theorem parse_str_uuid: "parse_uuid (str_uuid u) = Inr u"
proof -
  let ?h = "hex_fixed 32 (unat u)"
  let ?p = "\<lambda>c. c \<noteq> CHR ''-''"
  have digits: "is_hex_digit c" if "c \<in> set ?h" for c using hex_fixed_digits that .
  have sub: "set (take n ?h) \<subseteq> set ?h" "set (drop n ?h) \<subseteq> set ?h"
    "set (take m (drop n ?h)) \<subseteq> set ?h" for m n
    using set_take_subset [of n ?h] set_drop_subset [of n ?h]
      set_take_subset [of m "drop n ?h"] by auto
  have chars: "is_hex_digit c \<or> c = CHR ''-''" if "c \<in> set (str_uuid u)" for c
    using that digits by (auto simp: str_uuid_def Let_def dest!: in_set_takeD in_set_dropD)
  have u_free: "CHR ''u'' \<notin> set (str_uuid u)"
    using chars [of "CHR ''u''"] by (auto simp: is_hex_digit_def)
  have rm: "remove_all ''uuid:'' (remove_all ''urn:'' (str_uuid u)) = str_uuid u"
    using u_free by (simp add: remove_all_none)
  have st: "strip_by (\<lambda>c. c = CHR ''{'' \<or> c = CHR ''}'') (str_uuid u) = str_uuid u"
    by (rule strip_by_none) (use chars in \<open>auto simp: is_hex_digit_def\<close>)
  have keep: "filter ?p xs = xs" if "set xs \<subseteq> set ?h" for xs
    using that digits by (auto simp: filter_id_conv is_hex_digit_def)
  have "filter ?p (str_uuid u)
      = take 8 ?h @ take 4 (drop 8 ?h) @ take 4 (drop 12 ?h) @ take 4 (drop 16 ?h) @ drop 20 ?h"
    by (simp add: str_uuid_def Let_def keep sub)
  also have "\<dots> = ?h"
    using append_take_drop_id [of 8 ?h] append_take_drop_id [of 4 "drop 8 ?h"]
      append_take_drop_id [of 4 "drop 12 ?h"] append_take_drop_id [of 4 "drop 16 ?h"]
    by simp
  finally have fl: "filter ?p (str_uuid u) = ?h" .
  have lt: "unat u < 2 ^ LENGTH(128)" by (rule unsigned_less)
  then have bound: "unat u < 16 ^ 32" by simp
  obtain c cs where cc: "?h = c # cs"
    by (metis length_0_conv length_hex_fixed list.exhaust zero_neq_numeral)
  have "c \<noteq> CHR ''-''" "c \<noteq> CHR ''+''" using digits [of c] cc by (auto simp: is_hex_digit_def)
  moreover have "strip_by is_space ?h = ?h"
    by (rule strip_by_none) (use digits in \<open>auto simp: is_hex_digit_neq\<close>)
  ultimately have "int_base16 ?h = Some (int (unat u))"
    using hex_body_fixed [of 32 "unat u"] bound cc by (simp add: int_base16_def)
  moreover have "uint u < 2 ^ LENGTH(128)" by (rule unsigned_less)
  ultimately show ?thesis
    unfolding parse_uuid_def Let_def rm st fl by simp
qed

lemma str_uuid_inj: "str_uuid u = str_uuid v \<longleftrightarrow> u = v"
  by (metis parse_str_uuid sum.inject(2))

lemma inj_str_uuid: "inj str_uuid"
  by (simp add: inj_def str_uuid_inj)

section \<open>datetime\<close>

text \<open>
  A \<^verbatim>\<open>datetime\<close> is the instant it names, in microseconds, with or without a time zone.  The
  time zone of an aware value is observed by the code only through \<^verbatim>\<open>astimezone(utc)\<close>, so the
  instant determines it.
\<close>

datatype datetime = Naive int | Aware int

fun has_tz :: "datetime \<Rightarrow> bool" where
  "has_tz (Aware _) = True"
| "has_tz (Naive _) = False"

section \<open>JSON documents\<close>

text \<open>
  What \<^verbatim>\<open>json.loads\<close> returns: an object is a \<^verbatim>\<open>dict\<close> with distinct keys; \<^verbatim>\<open>NaN\<close> and the infinities
  are accepted by Python's decoder, so a number may be any float.
\<close>

datatype json =
    JNull
  | JBool bool
  | JInt int
  | JFloat pyfloat
  | JStr string
  | JArr "json list"
  | JObj "(string \<times> json) list"

type_synonym json_obj = "(string \<times> json) list"

abbreviation jget :: "json_obj \<Rightarrow> string \<Rightarrow> json option" where
  "jget d k \<equiv> map_of d k"

text \<open>\<^verbatim>\<open>d.get(k)\<close>, whose default is \<^verbatim>\<open>None\<close>.\<close>

definition jget_none :: "json_obj \<Rightarrow> string \<Rightarrow> json" where
  "jget_none d k = (case jget d k of None \<Rightarrow> JNull | Some v \<Rightarrow> v)"

text \<open>\<^verbatim>\<open>isinstance(v, dict)\<close>, \<^verbatim>\<open>list\<close> and \<^verbatim>\<open>str\<close>, with the value when it is one.\<close>

definition as_obj :: "json \<Rightarrow> json_obj option" where
  "as_obj v = (case v of JObj d \<Rightarrow> Some d | _ \<Rightarrow> None)"

definition as_arr :: "json \<Rightarrow> json list option" where
  "as_arr v = (case v of JArr xs \<Rightarrow> Some xs | _ \<Rightarrow> None)"

definition as_str :: "json \<Rightarrow> string option" where
  "as_str v = (case v of JStr s \<Rightarrow> Some s | _ \<Rightarrow> None)"

lemma as_Some [simp]:
  "as_obj v = Some d \<longleftrightarrow> v = JObj d" "as_arr v = Some xs \<longleftrightarrow> v = JArr xs" "as_str v = Some s \<longleftrightarrow> v = JStr s"
  by (cases v; simp add: as_obj_def as_arr_def as_str_def)+

lemma as_simps [simp]: "as_obj (JObj d) = Some d" "as_arr (JArr xs) = Some xs" "as_str (JStr s) = Some s"
  by simp_all

text \<open>\<^verbatim>\<open>v == n\<close> for an int \<open>n\<close>: Python equates \<^verbatim>\<open>True\<close> with 1 and a float with the int of its value.\<close>

fun py_eq_int :: "json \<Rightarrow> int \<Rightarrow> bool" where
  "py_eq_int (JInt m) n = (m = n)"
| "py_eq_int (JBool b) n = ((if b then 1 else 0) = n)"
| "py_eq_int (JFloat x) n = (x = fl_exact n)"
| "py_eq_int _ n = False"

fun hashable :: "json \<Rightarrow> bool" where
  "hashable (JArr _) = False"
| "hashable (JObj _) = False"
| "hashable _ = True"


text \<open>
  JSON text, as far as the code can tell two texts apart: \<open>JsonText v\<close> is a text that decodes to
  the document \<open>v\<close> (what \<^verbatim>\<open>json.dumps(v)\<close> produces), \<open>NotJson s\<close> one the decoder rejects.
\<close>

datatype json_text = JsonText json | NotJson string

definition json_dumps :: "json \<Rightarrow> json_text" where
  "json_dumps v = JsonText v"

fun json_loads :: "json_text \<Rightarrow> exn + json" where
  "json_loads (JsonText v) = Inr v"
| "json_loads (NotJson _) = Inl JSONDecodeError"

lemma json_loads_dumps [simp]: "json_loads (json_dumps v) = Inr v"
  by (simp add: json_dumps_def)

section \<open>Files\<close>

text \<open>The file system as far as the agent sees it: the content of each path, if there is a file.\<close>

type_synonym files = "string \<Rightarrow> bytes option"

text \<open>\<^verbatim>\<open>bool(v)\<close>\<close>

fun truthy :: "json \<Rightarrow> bool" where
  "truthy JNull = False"
| "truthy (JBool b) = b"
| "truthy (JInt n) = (n \<noteq> 0)"
| "truthy (JFloat x) = (x \<noteq> Fin 0)"
| "truthy (JStr s) = (s \<noteq> [])"
| "truthy (JArr xs) = (xs \<noteq> [])"
| "truthy (JObj d) = (d \<noteq> [])"

end
