(* ===== verification/Models.thy ===== *)
theory Models
  imports PyData
begin

text \<open>
  \<^verbatim>\<open>persistence/models.py\<close>: the ISO-8601 text of a stored timestamp, the operational state and
  the device identity with its state/secret invariant.

  A stored timestamp column holds text.  \<open>IsoUtc n\<close> is the text \<^verbatim>\<open>datetime.isoformat()\<close> gives
  for the instant \<open>n\<close> in UTC; since that text has a fixed layout (and \<^verbatim>\<open>+\<close> sorts before \<^verbatim>\<open>.\<close>
  when the microseconds are absent), SQLite's text order on it is the order of the instants.
  \<open>IsoNaive\<close> is an ISO text without an offset, \<open>NotIso\<close> any text \<^verbatim>\<open>fromisoformat\<close> rejects.
\<close>

section \<open>Timestamps\<close>

datatype iso_text = IsoUtc int | IsoNaive int | NotIso string

fun to_iso_utc :: "datetime \<Rightarrow> exn + iso_text" where
  "to_iso_utc (Naive _) = Inl ValueError"
| "to_iso_utc (Aware n) = Inr (IsoUtc n)"

fun parse_iso_utc :: "iso_text \<Rightarrow> exn + datetime" where
  "parse_iso_utc (IsoUtc n) = Inr (Aware n)"
| "parse_iso_utc (IsoNaive _) = Inl ValueError"
| "parse_iso_utc (NotIso _) = Inl ValueError"

fun_cases to_iso_utc_InrE: "to_iso_utc d = Inr t"
fun_cases parse_iso_utc_InrE: "parse_iso_utc t = Inr d"

lemma to_iso_utc_Inr [outcome_simps]: "to_iso_utc d = Inr t \<longleftrightarrow> (\<exists>n. d = Aware n \<and> t = IsoUtc n)"
  by (cases d) auto

lemma to_iso_utc_Inl [outcome_simps]: "to_iso_utc d = Inl e \<longleftrightarrow> \<not> has_tz d \<and> e = ValueError"
  by (cases d) auto

lemma parse_iso_utc_Inr [outcome_simps]: "parse_iso_utc t = Inr d \<longleftrightarrow> (\<exists>n. t = IsoUtc n \<and> d = Aware n)"
  by (cases t) auto

lemma parse_to_iso_utc: "to_iso_utc d = Inr t \<Longrightarrow> parse_iso_utc t = Inr d"
  by (auto simp: outcome_simps)

text \<open>The order of the column's texts, needed by \<^verbatim>\<open>ORDER BY\<close>.\<close>

fun iso_key :: "iso_text \<Rightarrow> nat \<times> int \<times> string" where
  "iso_key (IsoUtc n) = (0, n, [])"
| "iso_key (IsoNaive n) = (1, n, [])"
| "iso_key (NotIso s) = (2, 0, s)"

definition iso_less_eq :: "iso_text \<Rightarrow> iso_text \<Rightarrow> bool" where
  "iso_less_eq a b =
     (let (i, n, s) = iso_key a; (j, m, t) = iso_key b
      in i < j \<or> (i = j \<and> (n < m \<or> (n = m \<and> s \<le> t))))"

lemma iso_key_inj: "iso_key a = iso_key b \<Longrightarrow> a = b"
  by (cases a; cases b) auto

instantiation iso_text :: linorder
begin

definition less_eq_iso_text_def: "a \<le> b \<longleftrightarrow> iso_less_eq a b"

definition less_iso_text_def: "a < b \<longleftrightarrow> iso_less_eq a b \<and> \<not> iso_less_eq b a" for a b :: iso_text

instance
proof
  fix a b c :: iso_text
  show "a < b \<longleftrightarrow> a \<le> b \<and> \<not> b \<le> a" by (simp add: less_eq_iso_text_def less_iso_text_def)
  show "a \<le> a" by (cases a) (simp_all add: less_eq_iso_text_def iso_less_eq_def)
  show "a \<le> b \<Longrightarrow> b \<le> c \<Longrightarrow> a \<le> c"
    by (cases a; cases b; cases c) (auto simp: less_eq_iso_text_def iso_less_eq_def)
  show "a \<le> b \<Longrightarrow> b \<le> a \<Longrightarrow> a = b"
    by (cases a; cases b) (auto simp: less_eq_iso_text_def iso_less_eq_def)
  show "a \<le> b \<or> b \<le> a"
    by (cases a; cases b) (auto simp: less_eq_iso_text_def iso_less_eq_def)
qed

end

lemma IsoUtc_le [simp]: "IsoUtc m \<le> IsoUtc n \<longleftrightarrow> m \<le> n"
  by (auto simp: less_eq_iso_text_def iso_less_eq_def)

section \<open>The device identity\<close>

datatype operational_state = OPERATIONAL | REACTIVATION_REQUIRED

fun operational_state_value :: "operational_state \<Rightarrow> string" where
  "operational_state_value OPERATIONAL = ''Operational''"
| "operational_state_value REACTIVATION_REQUIRED = ''ReactivationRequired''"

definition parse_operational_state :: "string \<Rightarrow> exn + operational_state" where
  "parse_operational_state s =
     (if s = ''Operational'' then Inr OPERATIONAL
      else if s = ''ReactivationRequired'' then Inr REACTIVATION_REQUIRED
      else Inl ValueError)"

record device_identity =
  di_device_id :: string
  di_shared_secret :: "string option"
  di_activated_at :: datetime
  di_last_activated_at :: datetime
  di_operational_state :: operational_state

text \<open>The constructor with its \<^verbatim>\<open>__post_init__\<close> checks.\<close>

definition mk_device_identity ::
  "string \<Rightarrow> string option \<Rightarrow> datetime \<Rightarrow> datetime \<Rightarrow> operational_state \<Rightarrow> exn + device_identity" where
  "mk_device_identity dev secret act latest st =
     (if st = OPERATIONAL \<and> secret = None then Inl ValueError
      else if st = REACTIVATION_REQUIRED \<and> secret \<noteq> None then Inl ValueError
      else Inr \<lparr>di_device_id = dev, di_shared_secret = secret, di_activated_at = act,
                di_last_activated_at = latest, di_operational_state = st\<rparr>)"

definition can_authenticate :: "device_identity \<Rightarrow> bool" where
  "can_authenticate i \<longleftrightarrow> di_operational_state i = OPERATIONAL \<and> di_shared_secret i \<noteq> None"

definition identity_ok :: "device_identity \<Rightarrow> bool" where
  "identity_ok i \<longleftrightarrow> (di_operational_state i = OPERATIONAL \<longleftrightarrow> di_shared_secret i \<noteq> None)"

lemma mk_device_identity_Inr [outcome_simps]:
  "mk_device_identity dev secret act latest st = Inr i \<longleftrightarrow>
     (st = OPERATIONAL \<longleftrightarrow> secret \<noteq> None) \<and>
     i = \<lparr>di_device_id = dev, di_shared_secret = secret, di_activated_at = act,
          di_last_activated_at = latest, di_operational_state = st\<rparr>"
  by (cases st) (auto simp: mk_device_identity_def)

lemma mk_device_identity_ok: "mk_device_identity dev secret act latest st = Inr i \<Longrightarrow> identity_ok i"
  by (auto simp: outcome_simps identity_ok_def)

lemma mk_device_identity_Inl: "mk_device_identity dev secret act latest st = Inl e \<Longrightarrow> e = ValueError"
  by (auto simp: mk_device_identity_def split: if_splits)

lemma can_authenticate_iff_operational:
  "identity_ok i \<Longrightarrow> can_authenticate i \<longleftrightarrow> di_operational_state i = OPERATIONAL"
  by (auto simp: can_authenticate_def identity_ok_def)

record cached_configuration =
  cc_config_json :: json_text
  cc_updated_at :: datetime

end
