(* ===== verification/Database.thy ===== *)
theory Database
  imports Models
begin

text \<open>
  \<^verbatim>\<open>persistence/database.py\<close>: connection-per-operation and explicit transactions.

  An operation on the store is a function from the stored tables to an outcome and the tables
  after it.  What SQLite and the file system do to one call is the \<open>fault\<close> argument: \<open>None\<close> when
  every statement of the call goes through, \<open>Some e\<close> when opening the connection, one of the
  statements or the commit raises \<open>e\<close>.  A fault at any point leaves the tables as they were: the
  body runs between \<^verbatim>\<open>BEGIN\<close> and \<^verbatim>\<open>COMMIT\<close>, and every exception inside is followed by \<^verbatim>\<open>ROLLBACK\<close>.
\<close>

type_synonym fault = "exn option"

definition transaction :: "fault \<Rightarrow> ('s \<Rightarrow> exn + 'a \<times> 's) \<Rightarrow> 's \<Rightarrow> (exn + 'a) \<times> 's" where
  "transaction fault body s =
     (case fault of
        Some e \<Rightarrow> (Inl e, s)
      | None \<Rightarrow> (case body s of Inl e \<Rightarrow> (Inl e, s) | Inr (a, s') \<Rightarrow> (Inr a, s')))"

text \<open>A read-only call: open, \<^verbatim>\<open>SELECT\<close>, close.\<close>

definition read_only :: "fault \<Rightarrow> ('s \<Rightarrow> exn + 'a) \<Rightarrow> 's \<Rightarrow> exn + 'a" where
  "read_only fault query s = (case fault of Some e \<Rightarrow> Inl e | None \<Rightarrow> query s)"

lemma transaction_fault [simp]: "transaction (Some e) body s = (Inl e, s)"
  by (simp add: transaction_def)

lemma read_only_simps [simp]:
  "read_only (Some e) q s = Inl e"
  "read_only None q s = q s"
  by (simp_all add: read_only_def)

text \<open>Atomicity: an operation that raises changed nothing; one that returns ran its whole body.\<close>

theorem transaction_atomic:
  "transaction fault body s = (r, s') \<Longrightarrow>
     (case r of Inl _ \<Rightarrow> s' = s | Inr a \<Rightarrow> fault = None \<and> body s = Inr (a, s'))"
  by (auto simp: transaction_def split: option.splits sum.splits prod.splits)

lemma transaction_Inr [outcome_simps]:
  "transaction fault body s = (Inr a, s') \<longleftrightarrow> fault = None \<and> body s = Inr (a, s')"
  by (auto simp: transaction_def split: option.splits sum.splits)

lemma transaction_Inl [outcome_simps]:
  "transaction fault body s = (Inl e, s') \<longleftrightarrow>
     s' = s \<and> (fault = Some e \<or> (fault = None \<and> body s = Inl e))"
  by (auto simp: transaction_def split: option.splits sum.splits)

lemma transaction_preserves:
  assumes "P s" and "\<And>a s'. body s = Inr (a, s') \<Longrightarrow> P s'"
  shows "P (snd (transaction fault body s))"
  using assms by (auto simp: transaction_def split: option.splits sum.splits prod.splits)

end
