(* ===== verification/IdentityStore.thy ===== *)
theory IdentityStore
  imports Database
begin

text \<open>
  \<^verbatim>\<open>persistence/device_identity_repository.py\<close> and \<^verbatim>\<open>persistence/config_cache_repository.py\<close>:
  the singleton rows of the device identity and of the cached configuration.  A table is the
  list of its rows; the schema's \<^verbatim>\<open>SingletonGuard\<close> key allows one, and \<open>load\<close> reports more as an
  invalid state.
\<close>

section \<open>DeviceIdentity\<close>

record identity_row =
  ir_device_id :: string
  ir_protected_secret :: "string option"
  ir_activated_at :: iso_text
  ir_last_activated_at :: iso_text
  ir_operational_state :: string

type_synonym identity_table = "identity_row list"

text \<open>The table-level \<^verbatim>\<open>CHECK\<close> of the version-2 schema, and the singleton key.\<close>

definition identity_row_check :: "identity_row \<Rightarrow> bool" where
  "identity_row_check r \<longleftrightarrow>
     (ir_operational_state r = ''Operational'' \<and> ir_protected_secret r \<noteq> None)
     \<or> (ir_operational_state r = ''ReactivationRequired'' \<and> ir_protected_secret r = None)"

definition row_to_identity :: "identity_row \<Rightarrow> exn + device_identity" where
  "row_to_identity row =
     (case (parse_iso_utc (ir_activated_at row), parse_iso_utc (ir_last_activated_at row)) of
        (Inr act, Inr latest) \<Rightarrow>
          (case bind_result (parse_operational_state (ir_operational_state row))
                  (\<lambda>st. mk_device_identity (ir_device_id row) (ir_protected_secret row) act latest st) of
             Inl _ \<Rightarrow> Inl (RepositoryExn InvalidIdentityStateError)
           | Inr i \<Rightarrow> Inr i)
      | _ \<Rightarrow> Inl (RepositoryExn InvalidIdentityStateError))"

definition load_rows :: "identity_table \<Rightarrow> exn + device_identity option" where
  "load_rows rows =
     (case rows of
        [] \<Rightarrow> Inr None
      | [row] \<Rightarrow> bind_result (row_to_identity row) (\<lambda>i. Inr (Some i))
      | _ \<Rightarrow> Inl (RepositoryExn InvalidIdentityStateError))"

definition load_identity :: "fault \<Rightarrow> identity_table \<Rightarrow> exn + device_identity option" where
  "load_identity fault t = read_only fault load_rows t"

definition store_identity ::
  "fault \<Rightarrow> device_identity \<Rightarrow> identity_table \<Rightarrow> (exn + unit) \<times> identity_table" where
  "store_identity fault i t =
     (case (to_iso_utc (di_activated_at i), to_iso_utc (di_last_activated_at i)) of
        (Inl e, _) \<Rightarrow> (Inl e, t)
      | (Inr act, Inl e) \<Rightarrow> (Inl e, t)
      | (Inr act, Inr latest) \<Rightarrow>
          transaction fault
            (\<lambda>t. if t \<noteq> [] then Inl (RepositoryExn IdentityAlreadyExistsError)
                 else Inr ((), [\<lparr>ir_device_id = di_device_id i,
                                ir_protected_secret = di_shared_secret i,
                                ir_activated_at = act, ir_last_activated_at = latest,
                                ir_operational_state =
                                  operational_state_value (di_operational_state i)\<rparr>]))
            t)"

text \<open>Both \<^verbatim>\<open>UPDATE\<close>s address the singleton row; any other row count is an invalid state.\<close>

definition replace_shared_secret ::
  "fault \<Rightarrow> string \<Rightarrow> datetime \<Rightarrow> identity_table \<Rightarrow> (exn + unit) \<times> identity_table" where
  "replace_shared_secret fault secret when t =
     (case to_iso_utc when of
        Inl e \<Rightarrow> (Inl e, t)
      | Inr upd \<Rightarrow>
          transaction fault
            (\<lambda>t. if length t \<noteq> 1 then Inl (RepositoryExn InvalidIdentityStateError)
                 else Inr ((), map (\<lambda>r. r\<lparr>ir_protected_secret := Some secret,
                                          ir_last_activated_at := upd,
                                          ir_operational_state := ''Operational''\<rparr>) t))
            t)"

definition mark_reactivation_required ::
  "fault \<Rightarrow> identity_table \<Rightarrow> (exn + unit) \<times> identity_table" where
  "mark_reactivation_required fault t =
     transaction fault
       (\<lambda>t. if length t \<noteq> 1 then Inl (RepositoryExn InvalidIdentityStateError)
            else Inr ((), map (\<lambda>r. r\<lparr>ir_protected_secret := None,
                                     ir_operational_state := ''ReactivationRequired''\<rparr>) t))
       t"

subsection \<open>The stored identity\<close>

definition identity_row_wf :: "identity_row \<Rightarrow> bool" where
  "identity_row_wf r \<longleftrightarrow> identity_row_check r
     \<and> (\<exists>n. ir_activated_at r = IsoUtc n) \<and> (\<exists>n. ir_last_activated_at r = IsoUtc n)"

definition identity_table_wf :: "identity_table \<Rightarrow> bool" where
  "identity_table_wf t \<longleftrightarrow> length t \<le> 1 \<and> (\<forall>r \<in> set t. identity_row_wf r)"

lemma parse_operational_state_value [simp]:
  "parse_operational_state (operational_state_value st) = Inr st"
  by (cases st) (simp_all add: parse_operational_state_def)

lemma row_to_identity_wf:
  assumes "identity_row_wf r"
  obtains i where "row_to_identity r = Inr i" "identity_ok i"
    "di_device_id i = ir_device_id r" "di_shared_secret i = ir_protected_secret r"
    "operational_state_value (di_operational_state i) = ir_operational_state r"
    "parse_iso_utc (ir_activated_at r) = Inr (di_activated_at i)"
    "parse_iso_utc (ir_last_activated_at r) = Inr (di_last_activated_at i)"
proof -
  obtain a b where ab: "ir_activated_at r = IsoUtc a" "ir_last_activated_at r = IsoUtc b"
    using assms by (auto simp: identity_row_wf_def)
  define st where "st = (if ir_protected_secret r = None then REACTIVATION_REQUIRED else OPERATIONAL)"
  have st: "parse_operational_state (ir_operational_state r) = Inr st"
    and sv: "operational_state_value st = ir_operational_state r"
    using assms
    by (auto simp: identity_row_wf_def identity_row_check_def parse_operational_state_def st_def)
  let ?i = "\<lparr>di_device_id = ir_device_id r, di_shared_secret = ir_protected_secret r,
             di_activated_at = Aware a, di_last_activated_at = Aware b,
             di_operational_state = st\<rparr>"
  have mk: "mk_device_identity (ir_device_id r) (ir_protected_secret r) (Aware a) (Aware b) st = Inr ?i"
    by (auto simp: outcome_simps st_def)
  show ?thesis
    by (rule that [of ?i])
       (use ab st mk sv in \<open>auto simp: row_to_identity_def identity_ok_def st_def\<close>)
qed

lemma load_identity_ok: "load_identity fault t = Inr (Some i) \<Longrightarrow> identity_ok i"
  by (auto simp: load_identity_def read_only_def load_rows_def row_to_identity_def outcome_simps
        identity_ok_def parse_operational_state_def mk_device_identity_def
        split: option.splits list.splits sum.splits if_splits)

lemma load_identity_singleton:
  "load_identity None [r] = bind_result (row_to_identity r) (\<lambda>i. Inr (Some i))"
  by (simp add: load_identity_def load_rows_def)

text \<open>Every operation keeps the table well-formed, whatever fault hits it.\<close>

lemma store_identity_wf:
  assumes "identity_table_wf t" and "identity_ok i"
  shows "identity_table_wf (snd (store_identity fault i t))"
proof (cases "(to_iso_utc (di_activated_at i), to_iso_utc (di_last_activated_at i))")
  case (Pair x y)
  show ?thesis
  proof (cases x)
    case (Inl e)
    with Pair assms show ?thesis by (cases y) (auto simp: store_identity_def)
  next
    case X: (Inr a)
    show ?thesis
    proof (cases y)
      case (Inl e)
      with Pair X assms show ?thesis by (simp add: store_identity_def)
    next
      case Y: (Inr b)
      have ab: "\<exists>n. a = IsoUtc n" "\<exists>n. b = IsoUtc n" using Pair X Y by (auto simp: outcome_simps)
      show ?thesis
        unfolding store_identity_def Pair X Y prod.case sum.case
        using assms ab
        by (intro transaction_preserves [where P = identity_table_wf];
            cases "di_operational_state i")
           (auto simp: identity_table_wf_def identity_row_wf_def identity_row_check_def
              identity_ok_def split: if_splits)
    qed
  qed
qed

lemma replace_shared_secret_wf:
  assumes "identity_table_wf t"
  shows "identity_table_wf (snd (replace_shared_secret fault secret when t))"
proof (cases "to_iso_utc when")
  case (Inl e)
  with assms show ?thesis by (simp add: replace_shared_secret_def)
next
  case (Inr upd)
  then obtain n where "upd = IsoUtc n" by (auto simp: outcome_simps)
  with assms show ?thesis
    unfolding replace_shared_secret_def Inr sum.case
    by (intro transaction_preserves [where P = identity_table_wf])
       (auto simp: identity_table_wf_def identity_row_wf_def identity_row_check_def split: if_splits)
qed

lemma mark_reactivation_required_wf:
  assumes "identity_table_wf t"
  shows "identity_table_wf (snd (mark_reactivation_required fault t))"
  using assms unfolding mark_reactivation_required_def
  by (intro transaction_preserves [where P = identity_table_wf])
     (auto simp: identity_table_wf_def identity_row_wf_def identity_row_check_def split: if_splits)

subsection \<open>The interface the activation and validation components use\<close>

text \<open>
  \<open>identity_store\<close> is what the rest of the Agent relies on: the three writers change only what
  they name, never the device id, and a failed write leaves the stored identity alone.
\<close>

locale identity_store =
  fixes wf :: "'t \<Rightarrow> bool"
    and load :: "fault \<Rightarrow> 't \<Rightarrow> exn + device_identity option"
    and store :: "fault \<Rightarrow> device_identity \<Rightarrow> 't \<Rightarrow> (exn + unit) \<times> 't"
    and replace :: "fault \<Rightarrow> string \<Rightarrow> datetime \<Rightarrow> 't \<Rightarrow> (exn + unit) \<times> 't"
    and lock :: "fault \<Rightarrow> 't \<Rightarrow> (exn + unit) \<times> 't"
  assumes load_total: "wf t \<Longrightarrow> \<exists>i. load None t = Inr i"
    and load_ok: "load f t = Inr (Some i) \<Longrightarrow> identity_ok i"
    and store_wf: "wf t \<Longrightarrow> identity_ok i \<Longrightarrow> wf (snd (store f i t))"
    and replace_wf: "wf t \<Longrightarrow> wf (snd (replace f s w t))"
    and lock_wf: "wf t \<Longrightarrow> wf (snd (lock f t))"
    and store_fails: "store f i t = (Inl e, t') \<Longrightarrow> t' = t"
    and replace_fails: "replace f s w t = (Inl e, t') \<Longrightarrow> t' = t"
    and lock_fails: "lock f t = (Inl e, t') \<Longrightarrow> t' = t"
    and store_done: "store f i t = (Inr (), t') \<Longrightarrow> identity_ok i \<Longrightarrow> load None t' = Inr (Some i)"
    and store_fresh: "store f i t = (Inr (), t') \<Longrightarrow> load None t = Inr None"
    and replace_done:
      "wf t \<Longrightarrow> load None t = Inr (Some i) \<Longrightarrow> replace f s w t = (Inr (), t') \<Longrightarrow>
       load None t' = Inr (Some (i\<lparr>di_shared_secret := Some s, di_last_activated_at := w,
                                   di_operational_state := OPERATIONAL\<rparr>))"
    and lock_done:
      "wf t \<Longrightarrow> load None t = Inr (Some i) \<Longrightarrow> lock f t = (Inr (), t') \<Longrightarrow>
       load None t' = Inr (Some (i\<lparr>di_shared_secret := None,
                                   di_operational_state := REACTIVATION_REQUIRED\<rparr>))"
    and lock_needs_row: "wf t \<Longrightarrow> load None t = Inr None \<Longrightarrow> lock f t = (Inr (), t') \<Longrightarrow> False"
begin

text \<open>A lock is visible to the next reader, and only a replacement of the secret clears it.\<close>

lemma lock_then_load:
  assumes "wf t" and "lock f t = (Inr (), t')"
  shows "\<exists>i. load None t' = Inr (Some i) \<and> \<not> can_authenticate i"
proof -
  obtain x where x: "load None t = Inr x" using load_total [OF assms(1)] by blast
  show ?thesis
  proof (cases x)
    case None
    with x assms lock_needs_row show ?thesis by blast
  next
    case (Some i)
    with x lock_done [OF assms(1) _ assms(2)] show ?thesis by (auto simp: can_authenticate_def)
  qed
qed

lemma device_id_permanent:
  assumes "wf t" and "load None t = Inr (Some i)"
    and "t' \<in> {snd (store f j t), snd (replace f s w t), snd (lock f t)}"
  shows "\<exists>i'. load None t' = Inr (Some i') \<and> di_device_id i' = di_device_id i"
proof -
  consider "t' = snd (store f j t)" | "t' = snd (replace f s w t)" | "t' = snd (lock f t)"
    using assms(3) by blast
  then show ?thesis
  proof cases
    case 1
    obtain r u where r: "store f j t = (r, u)" by (cases "store f j t")
    show ?thesis
    proof (cases r)
      case (Inl e)
      then have "u = t" using r store_fails [of f j t e u] by simp
      then show ?thesis using r 1 assms(2) by simp
    next
      case (Inr a)
      then have "load None t = Inr None" using r store_fresh [of f j t u] by simp
      then show ?thesis using assms(2) by simp
    qed
  next
    case 2
    obtain r u where r: "replace f s w t = (r, u)" by (cases "replace f s w t")
    then show ?thesis
      using 2 assms(1,2) replace_fails [of f s w t _ u] replace_done [OF assms(1,2), of f s w u]
      by (cases r) auto
  next
    case 3
    obtain r u where r: "lock f t = (r, u)" by (cases "lock f t")
    then show ?thesis
      using 3 assms(1,2) lock_fails [of f t _ u] lock_done [OF assms(1,2), of f u]
      by (cases r) auto
  qed
qed

end

lemma identity_table_cases:
  assumes "identity_table_wf t"
  obtains "t = []" | r where "t = [r]" "identity_row_wf r"
  using assms by (cases t) (auto simp: identity_table_wf_def)

interpretation sqlite_identity: identity_store identity_table_wf load_identity store_identity
  replace_shared_secret mark_reactivation_required
proof (unfold_locales, goal_cases)
  case (1 t)
  then show ?case
    by (cases rule: identity_table_cases)
       (auto simp: load_identity_def load_rows_def elim: row_to_identity_wf)
next
  case (2 f t i)
  then show ?case by (rule load_identity_ok)
next
  case (3 t i f)
  then show ?case by (rule store_identity_wf)
next
  case (4 t f s w)
  then show ?case by (rule replace_shared_secret_wf)
next
  case (5 t f)
  then show ?case by (rule mark_reactivation_required_wf)
next
  case (6 f i t e t')
  then show ?case by (auto simp: store_identity_def outcome_simps split: sum.splits)
next
  case (7 f s w t e t')
  then show ?case by (auto simp: replace_shared_secret_def outcome_simps split: sum.splits)
next
  case (8 f t e t')
  then show ?case by (auto simp: mark_reactivation_required_def outcome_simps)
next
  case (9 f i t t')
  then obtain a b where "di_activated_at i = Aware a" "di_last_activated_at i = Aware b"
    by (auto simp: store_identity_def outcome_simps split: sum.splits)
  with 9 show ?case
    by (cases "di_operational_state i")
       (auto simp: store_identity_def outcome_simps load_identity_def load_rows_def
          row_to_identity_def mk_device_identity_def identity_ok_def parse_operational_state_def
          split: if_splits)
next
  case (10 f i t t')
  then show ?case
    by (auto simp: store_identity_def outcome_simps load_identity_def load_rows_def
          split: sum.splits if_splits)
next
  case (11 t i f s w t')
  then obtain n where w: "w = Aware n" by (auto simp: replace_shared_secret_def outcome_simps split: sum.splits)
  from 11(1) show ?case
  proof (cases rule: identity_table_cases)
    case 1
    with 11 show ?thesis by (simp add: load_identity_def load_rows_def)
  next
    case (2 r)
    from 2(2) obtain j where j: "row_to_identity r = Inr j"
      "parse_iso_utc (ir_activated_at r) = Inr (di_activated_at j)"
      "di_device_id j = ir_device_id r"
      by (rule row_to_identity_wf)
    then have "j = i" using 11(2) 2 by (simp add: load_identity_singleton)
    with j 11(3) 2 w show ?thesis
      by (auto simp: replace_shared_secret_def outcome_simps load_identity_singleton
            row_to_identity_def parse_operational_state_def mk_device_identity_def)
  qed
next
  case (12 t i f t')
  from 12(1) show ?case
  proof (cases rule: identity_table_cases)
    case 1
    with 12 show ?thesis by (simp add: load_identity_def load_rows_def)
  next
    case (2 r)
    from 2(2) obtain j where j: "row_to_identity r = Inr j"
      "parse_iso_utc (ir_activated_at r) = Inr (di_activated_at j)"
      "parse_iso_utc (ir_last_activated_at r) = Inr (di_last_activated_at j)"
      "di_device_id j = ir_device_id r"
      by (rule row_to_identity_wf)
    then have "j = i" using 12(2) 2 by (simp add: load_identity_singleton)
    with j 12(3) 2 show ?thesis
      by (auto simp: mark_reactivation_required_def outcome_simps load_identity_singleton
            row_to_identity_def parse_operational_state_def mk_device_identity_def)
  qed
next
  case (13 t f t')
  from 13(1) show ?case
  proof (cases rule: identity_table_cases)
    case 1
    with 13 show ?thesis by (simp add: mark_reactivation_required_def outcome_simps)
  next
    case (2 r)
    with 13 show ?thesis
      by (auto simp: load_identity_singleton outcome_simps)
  qed
qed

section \<open>ConfigCache\<close>

record cache_row =
  cr_config_json :: json_text
  cr_updated_at :: iso_text

type_synonym cache_table = "cache_row list"

definition load_cache_rows :: "cache_table \<Rightarrow> exn + cached_configuration option" where
  "load_cache_rows rows =
     (case rows of
        [] \<Rightarrow> Inr None
      | [row] \<Rightarrow>
          (case parse_iso_utc (cr_updated_at row) of
             Inl _ \<Rightarrow> Inl (RepositoryExn InvalidConfigCacheStateError)
           | Inr upd \<Rightarrow> Inr (Some \<lparr>cc_config_json = cr_config_json row, cc_updated_at = upd\<rparr>))
      | _ \<Rightarrow> Inl (RepositoryExn InvalidConfigCacheStateError))"

definition load_cache :: "fault \<Rightarrow> cache_table \<Rightarrow> exn + cached_configuration option" where
  "load_cache fault t = read_only fault load_cache_rows t"

text \<open>
  The parameters of the upsert are built inside the open transaction, so a timestamp without a
  zone raises there and is rolled back.
\<close>

definition save_cache ::
  "fault \<Rightarrow> json_text \<Rightarrow> datetime \<Rightarrow> cache_table \<Rightarrow> (exn + unit) \<times> cache_table" where
  "save_cache fault doc when t =
     transaction fault
       (\<lambda>t. bind_result (to_iso_utc when)
              (\<lambda>upd. Inr ((), [\<lparr>cr_config_json = doc, cr_updated_at = upd\<rparr>])))
       t"

lemma save_then_load_cache:
  "save_cache f doc when t = (Inr (), t') \<Longrightarrow>
   load_cache None t' = Inr (Some \<lparr>cc_config_json = doc, cc_updated_at = when\<rparr>)"
  by (auto simp: save_cache_def outcome_simps load_cache_def load_cache_rows_def)

lemma save_cache_fails: "save_cache f doc when t = (Inl e, t') \<Longrightarrow> t' = t"
  by (auto simp: save_cache_def outcome_simps)

section \<open>Properties\<close>

text \<open>
  A reactivation lock takes effect: once \<^verbatim>\<open>mark_reactivation_required\<close> has returned, the next
  load succeeds with an identity that cannot authenticate and whose secret is gone, and the same
  device id as before.
\<close>

theorem reactivation_lock_holds:
  assumes "identity_table_wf t" and "mark_reactivation_required f t = (Inr (), t')"
  shows "\<exists>i. load_identity None t' = Inr (Some i) \<and> \<not> can_authenticate i \<and> di_shared_secret i = None
    \<and> map ir_device_id t' = map ir_device_id t"
proof -
  obtain i where i: "load_identity None t' = Inr (Some i)" "\<not> can_authenticate i"
    using sqlite_identity.lock_then_load [OF assms] by blast
  have t': "map ir_device_id t' = map ir_device_id t" "\<forall>r \<in> set t'. ir_protected_secret r = None" "length t' = 1"
    using assms(2) by (auto simp: mark_reactivation_required_def outcome_simps split: if_split_asm)
  then obtain r where r: "t' = [r]" by (cases t') auto
  have "identity_table_wf t'" using mark_reactivation_required_wf [OF assms(1), of f] assms(2) by simp
  then have "identity_row_wf r" using r by (simp add: identity_table_wf_def)
  then obtain j where "row_to_identity r = Inr j" "di_shared_secret j = ir_protected_secret r"
    by (rule row_to_identity_wf)
  with i(1) r t'(2) have "di_shared_secret i = None" by (simp add: load_identity_singleton)
  with i t' show ?thesis by blast
qed

definition demo_identity_row :: identity_row where
  "demo_identity_row = \<lparr>ir_device_id = ''dev'', ir_protected_secret = Some ''s'', ir_activated_at = IsoUtc 1,
     ir_last_activated_at = IsoUtc 1, ir_operational_state = ''Operational''\<rparr>"

lemma demo_identity_wf: "identity_table_wf [demo_identity_row]"
  by (simp add: identity_table_wf_def identity_row_wf_def identity_row_check_def demo_identity_row_def)

theorem reactivation_lock_holds_witness:
  "\<exists>t' i. mark_reactivation_required None [demo_identity_row] = (Inr (), t')
     \<and> load_identity None t' = Inr (Some i) \<and> \<not> can_authenticate i"
proof -
  obtain t' where t': "mark_reactivation_required None [demo_identity_row] = (Inr (), t')"
    by (simp add: mark_reactivation_required_def transaction_def)
  from reactivation_lock_holds [OF demo_identity_wf t'] t' show ?thesis by blast
qed

text \<open>
  The device id never changes: from a stored identity no call of the repository, with whatever
  arguments and faults, makes a later load return another device id or none.
\<close>

theorem device_id_never_changes:
  assumes "identity_table_wf t" and "load_identity None t = Inr (Some i)"
    and "t' \<in> {snd (store_identity f j t), snd (replace_shared_secret f s when t), snd (mark_reactivation_required f t)}"
  shows "\<exists>i'. load_identity None t' = Inr (Some i') \<and> di_device_id i' = di_device_id i"
  by (rule sqlite_identity.device_id_permanent [OF assms])

theorem device_id_never_changes_witness:
  "\<exists>i'. load_identity None (snd (replace_shared_secret None ''new'' (Aware 9) [demo_identity_row])) = Inr (Some i')
     \<and> di_device_id i' = ''dev''"
proof -
  obtain i where i: "load_identity None [demo_identity_row] = Inr (Some i)" "di_device_id i = ''dev''"
    by (simp add: load_identity_def load_rows_def row_to_identity_def parse_operational_state_def
        mk_device_identity_def demo_identity_row_def)
  from device_id_never_changes [OF demo_identity_wf i(1),
      of "snd (replace_shared_secret None ''new'' (Aware 9) [demo_identity_row])" None undefined "''new''" "Aware 9"] i(2)
  show ?thesis by simp
qed

end
