(* ===== verification/OperationalGate.thy ===== *)
theory OperationalGate
  imports IdentityStore
begin

text \<open>
  \<^verbatim>\<open>runtime/operational_components.py\<close> and \<^verbatim>\<open>runtime/operational_state_coordinator.py\<close>: the one gate
  through which operational components are started and stopped.

  A component is its safe name and its two operations on the world the components share; \<open>'i\<close> is what
  one call of the gate meets.  Components are told apart by their position in the registered list.
  The lock of the coordinator makes every operation below atomic.
\<close>

record ('i, 'w) component =
  cp_name :: string
  cp_start :: "'i \<Rightarrow> 'w \<Rightarrow> (exn + unit) \<times> 'w"
  cp_stop :: "'i \<Rightarrow> 'w \<Rightarrow> (exn + unit) \<times> 'w"

text \<open>
  \<open>gt_running\<close> is in start order.  \<open>gt_abandoned\<close> records what the code only logs: the components
  whose stop failed while a failed start was rolled back.
\<close>

record 'w gate =
  gt_state :: operational_state
  gt_running :: "nat list"
  gt_abandoned :: "nat list"
  gt_world :: 'w

text \<open>\<^verbatim>\<open>from_identity\<close>\<close>

definition gate_from_identity :: "device_identity option \<Rightarrow> 'w \<Rightarrow> exn + 'w gate" where
  "gate_from_identity identity w =
     (case identity of
        None \<Rightarrow> Inl ValueError
      | Some i \<Rightarrow> Inr \<lparr>gt_state = di_operational_state i, gt_running = [], gt_abandoned = [], gt_world = w\<rparr>)"

definition can_run_operational_components :: "'w gate \<Rightarrow> bool" where
  "can_run_operational_components g \<longleftrightarrow> gt_state g = OPERATIONAL"

text \<open>\<^verbatim>\<open>_rollback_started\<close> goes through its argument in the order given (the caller reverses it).\<close>

fun rollback_started :: "('i, 'w) component list \<Rightarrow> 'i \<Rightarrow> nat list \<Rightarrow> 'w gate \<Rightarrow> (exn + unit) \<times> 'w gate" where
  "rollback_started comps i [] g = (Inr (), g)"
| "rollback_started comps i (k # ks) g =
     (case cp_stop (comps ! k) i (gt_world g) of
        (Inl e, w) \<Rightarrow>
          if \<not> is_exception e then (Inl e, g\<lparr>gt_world := w\<rparr>)
          else rollback_started comps i ks
                 (g\<lparr>gt_world := w, gt_abandoned := k # gt_abandoned g, gt_running := remove1 k (gt_running g)\<rparr>)
      | (Inr _, w) \<Rightarrow>
          rollback_started comps i ks (g\<lparr>gt_world := w, gt_running := remove1 k (gt_running g)\<rparr>))"

fun start_pending :: "('i, 'w) component list \<Rightarrow> 'i \<Rightarrow> nat list \<Rightarrow> nat list \<Rightarrow> 'w gate \<Rightarrow> (exn + unit) \<times> 'w gate" where
  "start_pending comps i [] started g = (Inr (), g)"
| "start_pending comps i (k # ks) started g =
     (case cp_start (comps ! k) i (gt_world g) of
        (Inl e, w) \<Rightarrow>
          if \<not> is_exception e then (Inl e, g\<lparr>gt_world := w\<rparr>)
          else (case rollback_started comps i started (g\<lparr>gt_world := w\<rparr>) of
                  (Inl e', g) \<Rightarrow> (Inl e', g)
                | (Inr _, g) \<Rightarrow> (Inl (OperationalExn (OperationalComponentStartError (cp_name (comps ! k)))), g))
      | (Inr _, w) \<Rightarrow>
          start_pending comps i ks (k # started) (g\<lparr>gt_world := w, gt_running := gt_running g @ [k]\<rparr>))"

definition start_operational_components :: "('i, 'w) component list \<Rightarrow> 'i \<Rightarrow> 'w gate \<Rightarrow> (exn + unit) \<times> 'w gate" where
  "start_operational_components comps i g =
     (if gt_state g \<noteq> OPERATIONAL then (Inl (OperationalExn OperationalComponentsLockedError), g)
      else start_pending comps i (filter (\<lambda>k. k \<notin> set (gt_running g)) [0..<length comps]) [] g)"

fun stop_running :: "('i, 'w) component list \<Rightarrow> 'i \<Rightarrow> nat list \<Rightarrow> string list \<Rightarrow> 'w gate \<Rightarrow> (exn + string list) \<times> 'w gate" where
  "stop_running comps i [] failures g = (Inr failures, g)"
| "stop_running comps i (k # ks) failures g =
     (case cp_stop (comps ! k) i (gt_world g) of
        (Inl e, w) \<Rightarrow>
          if \<not> is_exception e then (Inl e, g\<lparr>gt_world := w\<rparr>)
          else stop_running comps i ks (failures @ [cp_name (comps ! k)]) (g\<lparr>gt_world := w\<rparr>)
      | (Inr _, w) \<Rightarrow>
          stop_running comps i ks failures (g\<lparr>gt_world := w, gt_running := remove1 k (gt_running g)\<rparr>))"

definition enter_reactivation_required :: "('i, 'w) component list \<Rightarrow> 'i \<Rightarrow> 'w gate \<Rightarrow> (exn + unit) \<times> 'w gate" where
  "enter_reactivation_required comps i g =
     (case stop_running comps i (rev (gt_running g)) [] (g\<lparr>gt_state := REACTIVATION_REQUIRED\<rparr>) of
        (Inl e, g) \<Rightarrow> (Inl e, g)
      | (Inr failures, g) \<Rightarrow>
          (if failures = [] then Inr () else Inl (OperationalExn (OperationalComponentShutdownError failures)), g))"

text \<open>\<open>loaded\<close> is what the repository returns to the call.\<close>

definition mark_operational_after_reactivation :: "exn + device_identity option \<Rightarrow> 'w gate \<Rightarrow> (exn + unit) \<times> 'w gate" where
  "mark_operational_after_reactivation loaded g =
     (case loaded of
        Inl e \<Rightarrow> (Inl (if is_repository_error e \<or> is_sqlite_error e
                      then OperationalExn ReactivationNotPersistedError else e), g)
      | Inr None \<Rightarrow> (Inl (OperationalExn ReactivationNotPersistedError), g)
      | Inr (Some i) \<Rightarrow>
          if di_operational_state i \<noteq> OPERATIONAL \<or> \<not> can_authenticate i
          then (Inl (OperationalExn ReactivationNotPersistedError), g)
          else (Inr (), g\<lparr>gt_state := OPERATIONAL\<rparr>))"

text \<open>The one exit reason the loop has locks; any other value would raise.\<close>

definition handle_validation_loop_result :: "('i, 'w) component list \<Rightarrow> 'i \<Rightarrow> bool \<Rightarrow> 'w gate \<Rightarrow> (exn + unit) \<times> 'w gate" where
  "handle_validation_loop_result comps i reactivation_required g =
     (if reactivation_required then enter_reactivation_required comps i g
      else (Inl (OperationalExn UnknownValidationLoopResultError), g))"

lemma rollback_started_state: "gt_state (snd (rollback_started comps i ks g)) = gt_state g"
  by (induction ks arbitrary: g) (simp_all split: sum.split prod.split)

lemma start_pending_state: "gt_state (snd (start_pending comps i ks started g)) = gt_state g"
proof (induction ks arbitrary: started g)
  case (Cons k ks)
  have "gt_state h = gt_state g"
    if "rollback_started comps i started (g\<lparr>gt_world := w\<rparr>) = (r, h)" for r h w
    using rollback_started_state [of comps i started "g\<lparr>gt_world := w\<rparr>"] that by simp
  with Cons show ?case by (auto split: sum.split prod.split)
qed simp

lemma start_state: "gt_state (snd (start_operational_components comps i g)) = gt_state g"
  by (simp add: start_operational_components_def start_pending_state)

lemma stop_running_state: "gt_state (snd (stop_running comps i ks fs g)) = gt_state g"
  by (induction ks arbitrary: fs g) (simp_all split: sum.split prod.split)

lemma lock_state: "gt_state (snd (enter_reactivation_required comps i g)) = REACTIVATION_REQUIRED"
  using stop_running_state [of comps i "rev (gt_running g)" "[]" "g\<lparr>gt_state := REACTIVATION_REQUIRED\<rparr>"]
  by (auto simp: enter_reactivation_required_def split: sum.split prod.split)

section \<open>The calls of one start\<close>

text \<open>\<open>started_by\<close>: the world after the starts of the components, when all of them return; \<open>stop_each\<close>: after their stops.\<close>

fun started_by :: "('i, 'w) component list \<Rightarrow> 'i \<Rightarrow> nat list \<Rightarrow> 'w \<Rightarrow> 'w option" where
  "started_by comps i [] w = Some w"
| "started_by comps i (k # ks) w =
     (case cp_start (comps ! k) i w of (Inr _, w) \<Rightarrow> started_by comps i ks w | (Inl _, _) \<Rightarrow> None)"

fun stop_each :: "('i, 'w) component list \<Rightarrow> 'i \<Rightarrow> nat list \<Rightarrow> 'w \<Rightarrow> 'w" where
  "stop_each comps i [] w = w"
| "stop_each comps i (k # ks) w = stop_each comps i ks (snd (cp_stop (comps ! k) i w))"

lemma rollback_started_world:
  "rollback_started comps i ks g = (Inr u, g') \<Longrightarrow> gt_world g' = stop_each comps i ks (gt_world g)"
  by (induction ks arbitrary: g) (auto split: sum.split_asm prod.split_asm if_split_asm)

lemma rollback_started_raises: "rollback_started comps i ks g = (Inl e, g') \<Longrightarrow> \<not> is_exception e"
  by (induction ks arbitrary: g) (auto split: sum.split_asm prod.split_asm if_split_asm)

text \<open>
  A start of the components \<open>ks\<close> calls the start of each in turn.  Either all return, and each was added to the
  running ones; or one raises, and then those started before it are stopped in the reverse order.
\<close>

lemma start_pending_calls:
  assumes "start_pending comps i ks started g = (r, g')"
  shows "case r of
      Inr _ \<Rightarrow> started_by comps i ks (gt_world g) = Some (gt_world g') \<and> gt_running g' = gt_running g @ ks
    | Inl e \<Rightarrow> is_exception e \<longrightarrow> (\<exists>us k vs w x w'. ks = us @ k # vs \<and> started_by comps i us (gt_world g) = Some w
        \<and> cp_start (comps ! k) i w = (Inl x, w') \<and> gt_world g' = stop_each comps i (rev us @ started) w'
        \<and> e = OperationalExn (OperationalComponentStartError (cp_name (comps ! k))))"
  using assms
proof (induction ks arbitrary: started g)
  case (Cons k ks)
  obtain q w where q: "cp_start (comps ! k) i (gt_world g) = (q, w)" by (cases "cp_start (comps ! k) i (gt_world g)")
  show ?case
  proof (cases q)
    case (Inr u)
    with Cons.prems q have "start_pending comps i ks (k # started) (g\<lparr>gt_world := w, gt_running := gt_running g @ [k]\<rparr>) = (r, g')"
      by simp
    from Cons.IH [OF this] show ?thesis
    proof (cases r)
      case (Inl e)
      show ?thesis
      proof (simp only: Inl sum.case, rule impI)
        assume "is_exception e"
        with Cons.IH [OF \<open>start_pending comps i ks (k # started) _ = (r, g')\<close>] Inl obtain us k' vs v x v' where
          e: "ks = us @ k' # vs" "started_by comps i us w = Some v" "cp_start (comps ! k') i v = (Inl x, v')"
          "gt_world g' = stop_each comps i (rev us @ k # started) v'"
          "e = OperationalExn (OperationalComponentStartError (cp_name (comps ! k')))" by auto
        then show "\<exists>us k' vs w x w'. k # ks = us @ k' # vs \<and> started_by comps i us (gt_world g) = Some w
            \<and> cp_start (comps ! k') i w = (Inl x, w') \<and> gt_world g' = stop_each comps i (rev us @ started) w'
            \<and> e = OperationalExn (OperationalComponentStartError (cp_name (comps ! k')))"
          using q \<open>q = Inr u\<close> by (intro exI [of _ "k # us"] exI [of _ k'] exI [of _ vs] exI [of _ v] exI [of _ x] exI [of _ v']) simp
      qed
    qed (use q Inr in simp)
  next
    case (Inl x)
    show ?thesis
    proof (cases "is_exception x")
      case False
      with Cons.prems q Inl show ?thesis by auto
    next
      case True
      obtain y h where y: "rollback_started comps i started (g\<lparr>gt_world := w\<rparr>) = (y, h)"
        by (cases "rollback_started comps i started (g\<lparr>gt_world := w\<rparr>)")
      show ?thesis
      proof (cases y)
        case (Inl e)
        with Cons.prems q \<open>q = Inl x\<close> True y rollback_started_raises [of comps i started _ e h] show ?thesis by auto
      next
        case (Inr u)
        then have "r = Inl (OperationalExn (OperationalComponentStartError (cp_name (comps ! k))))" "g' = h"
          using Cons.prems q \<open>q = Inl x\<close> True y by simp_all
        with rollback_started_world [OF y [unfolded Inr]] q \<open>q = Inl x\<close> show ?thesis
          by (auto intro!: exI [of _ "[]"])
      qed
    qed
  qed
qed auto

section \<open>What the gate relies on, and what it guarantees\<close>

text \<open>
  The steps of a run: a start, a lock or an unlock of the gate, and work of the components themselves,
  which may make a component idle but never active.
\<close>

inductive gate_step :: "('i, 'w) component list \<Rightarrow> (nat \<Rightarrow> 'w \<Rightarrow> bool) \<Rightarrow> 'w gate \<Rightarrow> 'w gate \<Rightarrow> bool"
  for comps active where
  start: "start_operational_components comps i g = (r, g') \<Longrightarrow> gate_step comps active g g'"
| lock: "enter_reactivation_required comps i g = (r, g') \<Longrightarrow> gate_step comps active g g'"
| unlock: "mark_operational_after_reactivation loaded g = (r, g') \<Longrightarrow> gate_step comps active g g'"
| work: "(\<And>k. k < length comps \<Longrightarrow> active k w \<Longrightarrow> active k (gt_world g)) \<Longrightarrow>
    gate_step comps active g (g\<lparr>gt_world := w\<rparr>)"

text \<open>
  The contract of a component: \<open>active k\<close> is the fact in the world that component \<open>k\<close> operates.  Only
  its own operations change it; a start that raises leaves an idle component idle; a stop that
  returns leaves it idle.  \<open>ok\<close> restricts what the calls may meet.
\<close>

locale gated_components =
  fixes comps :: "('i, 'w) component list"
    and active :: "nat \<Rightarrow> 'w \<Rightarrow> bool"
    and ok :: "'i \<Rightarrow> bool"
  assumes start_frame: "ok i \<Longrightarrow> k < length comps \<Longrightarrow> j < length comps \<Longrightarrow> j \<noteq> k \<Longrightarrow>
        cp_start (comps ! k) i w = (r, w') \<Longrightarrow> active j w' = active j w"
    and stop_frame: "ok i \<Longrightarrow> k < length comps \<Longrightarrow> j < length comps \<Longrightarrow> j \<noteq> k \<Longrightarrow>
        cp_stop (comps ! k) i w = (r, w') \<Longrightarrow> active j w' = active j w"
    and start_failed: "ok i \<Longrightarrow> k < length comps \<Longrightarrow> cp_start (comps ! k) i w = (Inl e, w') \<Longrightarrow> \<not> active k w \<Longrightarrow> \<not> active k w'"
    and stop_failed: "ok i \<Longrightarrow> k < length comps \<Longrightarrow> cp_stop (comps ! k) i w = (Inl e, w') \<Longrightarrow> \<not> active k w \<Longrightarrow> \<not> active k w'"
    and stop_done: "ok i \<Longrightarrow> k < length comps \<Longrightarrow> cp_stop (comps ! k) i w = (Inr u, w') \<Longrightarrow> \<not> active k w'"
begin

definition tracked :: "'w gate \<Rightarrow> bool" where
  "tracked g \<longleftrightarrow> distinct (gt_running g) \<and> set (gt_running g) \<subseteq> {..<length comps}
     \<and> (\<forall>k < length comps. active k (gt_world g) \<longrightarrow> k \<in> set (gt_running g) \<or> k \<in> set (gt_abandoned g))"

lemma tracked_less_active:
  "tracked g \<Longrightarrow> (\<And>j. j < length comps \<Longrightarrow> active j w \<Longrightarrow> active j (gt_world g)) \<Longrightarrow> tracked (g\<lparr>gt_world := w\<rparr>)"
  by (auto simp: tracked_def)

lemma tracked_remove:
  assumes "tracked g" and "\<not> active k (gt_world g) \<or> k \<in> set (gt_abandoned g)"
  shows "tracked (g\<lparr>gt_running := remove1 k (gt_running g)\<rparr>)"
  using assms set_remove1_subset [of k "gt_running g"] by (auto simp: tracked_def)

text \<open>A stop of one component, as the tracking sees it.\<close>

lemma stop_less_active:
  assumes "ok i" and "k < length comps" and "cp_stop (comps ! k) i w = (r, w')" and "j < length comps" and "active j w'"
  shows "active j w \<and> (r = Inr () \<longrightarrow> j \<noteq> k)"
proof (cases "j = k")
  case True
  with assms stop_failed [OF assms(1,2), of w _ w'] stop_done [OF assms(1,2), of w _ w'] show ?thesis
    by (cases r) auto
next
  case False
  with assms stop_frame [OF assms(1,2,4) False assms(3)] show ?thesis by simp
qed

lemma rollback_tracked:
  assumes "ok i" and "tracked g" and "set ks \<subseteq> {..<length comps}" and "rollback_started comps i ks g = (r, g')"
  shows "tracked g' \<and> gt_state g' = gt_state g \<and> (r = Inr () \<longrightarrow> set (gt_running g') = set (gt_running g) - set ks)"
  using assms(2-)
proof (induction ks arbitrary: g)
  case Nil
  then show ?case by auto
next
  case (Cons k ks)
  obtain q w where q: "cp_stop (comps ! k) i (gt_world g) = (q, w)" by (cases "cp_stop (comps ! k) i (gt_world g)")
  have k: "k < length comps" "set ks \<subseteq> {..<length comps}" using Cons.prems(2) by auto
  note less = stop_less_active [OF assms(1) k(1) q]
  have t: "tracked (g\<lparr>gt_world := w\<rparr>)" using Cons.prems(1) less by (intro tracked_less_active) blast+
  have dist: "distinct (gt_running g)" using Cons.prems(1) by (simp add: tracked_def)
  show ?case
  proof (cases q)
    case (Inl e)
    show ?thesis
    proof (cases "is_exception e")
      case False
      with Cons.prems(3) q Inl have "g' = g\<lparr>gt_world := w\<rparr>" "r = Inl e" by simp_all
      with t show ?thesis by simp
    next
      case True
      let ?g = "g\<lparr>gt_world := w, gt_abandoned := k # gt_abandoned g, gt_running := remove1 k (gt_running g)\<rparr>"
      have "tracked (g\<lparr>gt_world := w, gt_abandoned := k # gt_abandoned g\<rparr>)" using t by (auto simp: tracked_def)
      from tracked_remove [OF this, of k] have "tracked ?g" by simp
      moreover have "rollback_started comps i ks ?g = (r, g')" using Cons.prems(3) q Inl True by simp
      ultimately show ?thesis using Cons.IH [OF _ k(2)] dist by fastforce
    qed
  next
    case (Inr u)
    let ?g = "g\<lparr>gt_world := w, gt_running := remove1 k (gt_running g)\<rparr>"
    have "\<not> active k w" using less [OF k(1)] Inr by auto
    then have "tracked ?g" using tracked_remove [OF t, of k] by simp
    moreover have "rollback_started comps i ks ?g = (r, g')" using Cons.prems(3) q Inr by simp
    ultimately show ?thesis using Cons.IH [OF _ k(2)] dist by fastforce
  qed
qed

lemma start_pending_tracked:
  assumes "ok i" and "tracked g" and "set ks \<subseteq> {..<length comps}" and "distinct ks" and "set ks \<inter> set (gt_running g) = {}"
    and "set started \<subseteq> set (gt_running g)" and "start_pending comps i ks started g = (r, g')"
  shows "tracked g' \<and> gt_state g' = gt_state g
    \<and> (case r of Inr _ \<Rightarrow> set (gt_running g') = set (gt_running g) \<union> set ks
       | Inl e \<Rightarrow> is_exception e \<longrightarrow> set (gt_running g') = set (gt_running g) - set started)"
  using assms(2-)
proof (induction ks arbitrary: g started)
  case Nil
  then show ?case by auto
next
  case (Cons k ks)
  obtain q w where q: "cp_start (comps ! k) i (gt_world g) = (q, w)" by (cases "cp_start (comps ! k) i (gt_world g)")
  have k: "k < length comps" "set ks \<subseteq> {..<length comps}" "k \<notin> set (gt_running g)" "k \<notin> set ks"
    using Cons.prems by auto
  have frame: "active j w = active j (gt_world g)" if "j < length comps" "j \<noteq> k" for j
    using start_frame [OF assms(1) k(1) that q] .
  show ?case
  proof (cases q)
    case (Inl e)
    have "active j (gt_world g)" if "j < length comps" "active j w" for j
      using that frame [of j] start_failed [OF assms(1) k(1), of "gt_world g" e w] q Inl by (cases "j = k") auto
    then have t: "tracked (g\<lparr>gt_world := w\<rparr>)" using Cons.prems(1) by (intro tracked_less_active)
    show ?thesis
    proof (cases "is_exception e")
      case False
      with Cons.prems(6) q Inl t show ?thesis by auto
    next
      case True
      obtain y g2 where y: "rollback_started comps i started (g\<lparr>gt_world := w\<rparr>) = (y, g2)"
        by (cases "rollback_started comps i started (g\<lparr>gt_world := w\<rparr>)")
      have st: "set started \<subseteq> {..<length comps}" using Cons.prems(1,5) by (auto simp: tracked_def)
      note rb = rollback_tracked [OF assms(1) t st y]
      show ?thesis
      proof (cases y)
        case (Inl e')
        then have "\<not> is_exception e'" using y rollback_started_raises [of comps i started] by simp
        with Cons.prems(6) q \<open>q = Inl e\<close> True y Inl rb show ?thesis by auto
      next
        case (Inr u)
        with Cons.prems(6) q \<open>q = Inl e\<close> True y rb show ?thesis by auto
      qed
    qed
  next
    case (Inr u)
    let ?g = "g\<lparr>gt_world := w, gt_running := gt_running g @ [k]\<rparr>"
    have "tracked ?g" using Cons.prems(1) frame k by (auto simp: tracked_def)
    moreover have "start_pending comps i ks (k # started) ?g = (r, g')" using Cons.prems(6) q Inr by simp
    moreover have "distinct ks" "set ks \<inter> set (gt_running ?g) = {}" "set (k # started) \<subseteq> set (gt_running ?g)"
      using Cons.prems k by auto
    ultimately have ih: "tracked g' \<and> gt_state g' = gt_state ?g
      \<and> (case r of Inr _ \<Rightarrow> set (gt_running g') = set (gt_running ?g) \<union> set ks
         | Inl e \<Rightarrow> is_exception e \<longrightarrow> set (gt_running g') = set (gt_running ?g) - set (k # started))"
      using Cons.IH [of ?g "k # started"] k(2) by blast
    then show ?thesis using k(3) by (cases r) auto
  qed
qed

lemma stop_running_tracked:
  assumes "ok i" and "tracked g" and "set ks \<subseteq> {..<length comps}" and "stop_running comps i ks failures g = (r, g')"
  shows "tracked g' \<and> gt_state g' = gt_state g
    \<and> (\<forall>fs. r = Inr fs \<longrightarrow> length failures \<le> length fs
         \<and> (length fs = length failures \<longrightarrow> set (gt_running g') = set (gt_running g) - set ks))"
  using assms(2-)
proof (induction ks arbitrary: g failures)
  case Nil
  then show ?case by auto
next
  case (Cons k ks)
  obtain q w where q: "cp_stop (comps ! k) i (gt_world g) = (q, w)" by (cases "cp_stop (comps ! k) i (gt_world g)")
  have k: "k < length comps" "set ks \<subseteq> {..<length comps}" using Cons.prems(2) by auto
  note less = stop_less_active [OF assms(1) k(1) q]
  have t: "tracked (g\<lparr>gt_world := w\<rparr>)" using Cons.prems(1) less by (intro tracked_less_active) blast+
  have dist: "distinct (gt_running g)" using Cons.prems(1) by (simp add: tracked_def)
  show ?case
  proof (cases q)
    case (Inl e)
    show ?thesis
    proof (cases "is_exception e")
      case False
      with Cons.prems(3) q Inl t show ?thesis by auto
    next
      case True
      with Cons.prems(3) q Inl
      have "stop_running comps i ks (failures @ [cp_name (comps ! k)]) (g\<lparr>gt_world := w\<rparr>) = (r, g')" by simp
      from Cons.IH [OF t k(2) this] show ?thesis by auto
    qed
  next
    case (Inr u)
    let ?g = "g\<lparr>gt_world := w, gt_running := remove1 k (gt_running g)\<rparr>"
    have "\<not> active k w" using less [OF k(1)] Inr by auto
    then have "tracked ?g" using tracked_remove [OF t, of k] by simp
    moreover have "stop_running comps i ks failures ?g = (r, g')" using Cons.prems(3) q Inr by simp
    ultimately have "tracked g' \<and> gt_state g' = gt_state ?g \<and> (\<forall>fs. r = Inr fs \<longrightarrow> length failures \<le> length fs
         \<and> (length fs = length failures \<longrightarrow> set (gt_running g') = set (gt_running ?g) - set ks))"
      using Cons.IH [OF _ k(2)] by blast
    with dist show ?thesis by auto
  qed
qed

text \<open>Locking: whatever happens the state is locked, and when it returns nothing that is tracked runs.\<close>

lemma lock_stops_all:
  assumes "ok i" and "tracked g" and "enter_reactivation_required comps i g = (r, g')"
  shows "tracked g' \<and> gt_state g' = REACTIVATION_REQUIRED
    \<and> (r = Inr () \<longrightarrow> gt_running g' = []
         \<and> (\<forall>k < length comps. active k (gt_world g') \<longrightarrow> k \<in> set (gt_abandoned g')))"
proof -
  let ?g = "g\<lparr>gt_state := REACTIVATION_REQUIRED\<rparr>"
  have t: "tracked ?g" "set (rev (gt_running g)) \<subseteq> {..<length comps}" using assms(2) by (auto simp: tracked_def)
  obtain q h where q: "stop_running comps i (rev (gt_running g)) [] ?g = (q, h)"
    by (cases "stop_running comps i (rev (gt_running g)) [] ?g")
  note s = stop_running_tracked [OF assms(1) t q]
  have "g' = h" and r: "r = Inr () \<longrightarrow> q = Inr []"
    using assms(3) q by (auto simp: enter_reactivation_required_def split: sum.split_asm if_split_asm)
  have "gt_running h = []" if "q = Inr []" using s that by simp
  with s r \<open>g' = h\<close> show ?thesis by (auto simp: tracked_def)
qed

text \<open>Starting: all or nothing, unless it is cancelled; and never while locked.\<close>

lemma start_all_or_nothing:
  assumes "ok i" and "tracked g" and "start_operational_components comps i g = (r, g')"
  shows "tracked g' \<and> gt_state g' = gt_state g
    \<and> (case r of Inr _ \<Rightarrow> gt_state g = OPERATIONAL \<and> set (gt_running g') = {..<length comps}
       | Inl e \<Rightarrow> is_exception e \<longrightarrow> set (gt_running g') = set (gt_running g))
    \<and> (gt_state g \<noteq> OPERATIONAL \<longrightarrow> r = Inl (OperationalExn OperationalComponentsLockedError) \<and> g' = g)"
proof (cases "gt_state g = OPERATIONAL")
  case False
  with assms show ?thesis by (auto simp: start_operational_components_def)
next
  case True
  let ?ks = "filter (\<lambda>k. k \<notin> set (gt_running g)) [0..<length comps]"
  have "start_pending comps i ?ks [] g = (r, g')" using assms(3) True by (simp add: start_operational_components_def)
  from start_pending_tracked [OF assms(1,2) _ _ _ _ this]
  have "tracked g' \<and> gt_state g' = gt_state g
    \<and> (case r of Inr _ \<Rightarrow> set (gt_running g') = set (gt_running g) \<union> set ?ks
       | Inl e \<Rightarrow> is_exception e \<longrightarrow> set (gt_running g') = set (gt_running g) - set [])" by auto
  moreover have "set (gt_running g) \<union> set ?ks = {..<length comps}" using assms(2) by (auto simp: tracked_def)
  ultimately show ?thesis using True by (cases r) auto
qed

lemma unlock_tracked:
  "tracked g \<Longrightarrow> mark_operational_after_reactivation loaded g = (r, g') \<Longrightarrow> tracked g'"
  by (auto simp: mark_operational_after_reactivation_def tracked_def split: sum.split_asm option.split_asm if_split_asm)

lemma steps_tracked:
  assumes "(gate_step comps active)\<^sup>*\<^sup>* g g'" and "\<And>i. ok i" and "tracked g"
  shows "tracked g'"
  using assms(1)
proof (induction rule: rtranclp_induct)
  case base
  show ?case by (rule assms(3))
next
  case (step x y)
  from step.hyps(2) show ?case
  proof cases
    case (start i r)
    then show ?thesis using start_all_or_nothing [OF assms(2) step.IH] by blast
  next
    case (lock i r)
    then show ?thesis using lock_stops_all [OF assms(2) step.IH] by blast
  next
    case (unlock loaded r)
    then show ?thesis using unlock_tracked [OF step.IH] by blast
  next
    case (work w)
    then show ?thesis using tracked_less_active [OF step.IH] by blast
  qed
qed

lemma new_gate_tracked:
  "gt_running g = [] \<Longrightarrow> (\<And>k. k < length comps \<Longrightarrow> \<not> active k (gt_world g)) \<Longrightarrow> tracked g"
  by (auto simp: tracked_def)

end

end
