(* ===== verification/Protocol.thy ===== *)
theory Protocol
  imports PyData
begin

text \<open>
  \<^verbatim>\<open>detection/protocol.py\<close>: the wire format of the socket between the Agent and the DeepStream
  Bridge.  A frame is one kind byte, a four-byte big-endian length and that many body bytes; the
  body of a snapshot frame is a two-byte length, the event id in UTF-8 and the JPEG bytes.

  Text that comes off the wire is a list of code points, since UTF-8 reaches beyond the 256
  characters of a HOL string.
\<close>

section \<open>UTF-8\<close>

type_synonym utext = "nat list"

definition text_of_string :: "string \<Rightarrow> utext" where
  "text_of_string s = map of_char s"

definition utf8_char :: "nat \<Rightarrow> exn + bytes" where
  "utf8_char c =
     (if c < 128 then Inr [of_nat c]
      else if c < 2048 then Inr [of_nat (192 + c div 64), of_nat (128 + c mod 64)]
      else if c < 65536 then
        (if 55296 \<le> c \<and> c < 57344 then Inl UnicodeEncodeError
         else Inr [of_nat (224 + c div 4096), of_nat (128 + c div 64 mod 64), of_nat (128 + c mod 64)])
      else if c < 1114112 then
        Inr [of_nat (240 + c div 262144), of_nat (128 + c div 4096 mod 64),
             of_nat (128 + c div 64 mod 64), of_nat (128 + c mod 64)]
      else Inl UnicodeEncodeError)"

definition utf8_encode :: "utext \<Rightarrow> exn + bytes" where
  "utf8_encode t = bind_result (map_result utf8_char t) (\<lambda>bs. Inr (concat bs))"

text \<open>
  The strict decoder: continuation bytes are 80..BF, and over-long forms, surrogates and values
  above 10FFFF are rejected.
\<close>

definition cont :: "8 word \<Rightarrow> bool" where
  "cont b \<longleftrightarrow> 128 \<le> unat b \<and> unat b < 192"

definition utf8_next :: "bytes \<Rightarrow> (nat \<times> bytes) option" where
  "utf8_next bs =
     (case bs of
        [] \<Rightarrow> None
      | a # r1 \<Rightarrow>
          if unat a < 128 then Some (unat a, r1)
          else (case r1 of
             [] \<Rightarrow> None
           | b # r2 \<Rightarrow>
               if \<not> cont b then None
               else if 194 \<le> unat a \<and> unat a < 224 then
                 Some ((unat a - 192) * 64 + (unat b - 128), r2)
               else (case r2 of
                  [] \<Rightarrow> None
                | c # r3 \<Rightarrow>
                    if \<not> cont c then None
                    else if 224 \<le> unat a \<and> unat a < 240 then
                      (let v = (unat a - 224) * 4096 + (unat b - 128) * 64 + (unat c - 128)
                       in if v < 2048 \<or> (55296 \<le> v \<and> v < 57344) then None else Some (v, r3))
                    else (case r3 of
                       [] \<Rightarrow> None
                     | d # r4 \<Rightarrow>
                         if cont d \<and> 240 \<le> unat a \<and> unat a < 245 then
                           (let v = (unat a - 240) * 262144 + (unat b - 128) * 4096
                                  + (unat c - 128) * 64 + (unat d - 128)
                            in if v < 65536 \<or> 1114112 \<le> v then None else Some (v, r4))
                         else None))))"

lemma utf8_next_shorter: "utf8_next bs = Some (c, r) \<Longrightarrow> length r < length bs"
  by (auto simp: utf8_next_def Let_def split: list.splits if_splits)

function utf8_decode :: "bytes \<Rightarrow> exn + utext" where
  "utf8_decode bs =
     (if bs = [] then Inr []
      else case utf8_next bs of
             None \<Rightarrow> Inl UnicodeDecodeError
           | Some (c, r) \<Rightarrow> bind_result (utf8_decode r) (\<lambda>t. Inr (c # t)))"
  by pat_completeness auto
termination
  by (relation "measure length") (auto simp: utf8_next_shorter)

declare utf8_decode.simps [simp del]

lemma utf8_decode_Nil [simp]: "utf8_decode [] = Inr []"
  by (simp add: utf8_decode.simps)

lemma utf8_decode_Inl: "utf8_decode bs = Inl e \<Longrightarrow> e = UnicodeDecodeError"
proof (induction bs rule: utf8_decode.induct)
  case (1 bs)
  then show ?case
    by (subst (asm) (2) utf8_decode.simps) (auto simp: outcome_simps split: if_splits option.splits)
qed

lemma unat_byte [simp]: "n < 256 \<Longrightarrow> unat (word_of_nat n :: 8 word) = n"
  by (simp add: unat_of_nat)

lemma cont_byte [simp]: "n < 64 \<Longrightarrow> cont (word_of_nat (128 + n))"
  unfolding cont_def by (subst (1 2) unat_byte) simp_all

lemma unat_cont_byte [simp]: "n < 64 \<Longrightarrow> unat (word_of_nat (128 + n) :: 8 word) = 128 + n"
  by (rule unat_byte) simp

lemma base64_2: "n = n div 64 * 64 + n mod (64 :: nat)"
  by simp

lemma base64_3: "n = n div 4096 * 4096 + n div 64 mod 64 * 64 + n mod (64 :: nat)"
proof -
  define m where "m = n div 64"
  have "n div 4096 = m div 64" by (simp add: m_def div_mult2_eq [symmetric])
  moreover have "n = m * 64 + n mod 64" unfolding m_def by (rule base64_2)
  moreover have "m = m div 64 * 64 + m mod 64" by (rule base64_2)
  ultimately show ?thesis unfolding m_def [symmetric] by linarith
qed

lemma base64_4:
  "n = n div 262144 * 262144 + n div 4096 mod 64 * 4096 + n div 64 mod 64 * 64 + n mod (64 :: nat)"
proof -
  define m where "m = n div 4096"
  have "n div 262144 = m div 64" by (simp add: m_def div_mult2_eq [symmetric])
  moreover have "n = m * 4096 + n div 64 mod 64 * 64 + n mod 64" unfolding m_def by (rule base64_3)
  moreover have "m = m div 64 * 64 + m mod 64" by (rule base64_2)
  ultimately show ?thesis unfolding m_def [symmetric] by linarith
qed

lemma utf8_next_char:
  assumes "utf8_char c = Inr bs"
  shows "utf8_next (bs @ r) = Some (c, r)"
proof -
  consider "c < 128" | "128 \<le> c" "c < 2048" | "2048 \<le> c" "c < 65536" | "65536 \<le> c"
    by linarith
  then show ?thesis
  proof cases
    case 1
    with assms show ?thesis by (auto simp: utf8_char_def utf8_next_def)
  next
    case 2
    then have "c div 64 < 32" "2 \<le> c div 64" by (simp_all add: div_less_iff_less_mult less_eq_div_iff_mult_less_eq)
    then have u: "unat (word_of_nat (192 + c div 64) :: 8 word) = 192 + c div 64"
      by (intro unat_byte) simp
    with 2 assms \<open>c div 64 < 32\<close> \<open>2 \<le> c div 64\<close> show ?thesis
      by (auto simp: utf8_char_def utf8_next_def simp del: of_nat_add)
  next
    case 3
    then have d: "c div 4096 < 16" by (simp add: div_less_iff_less_mult)
    then have u: "unat (word_of_nat (224 + c div 4096) :: 8 word) = 224 + c div 4096"
      by (intro unat_byte) simp
    have v: "c div 4096 * 4096 + c div 64 mod 64 * 64 + c mod 64 = c" by (rule base64_3 [symmetric])
    from 3 assms u v d show ?thesis
      by (auto simp: utf8_char_def utf8_next_def Let_def simp del: of_nat_add split: if_splits)
  next
    case 4
    then have lt: "c < 1114112" using assms by (auto simp: utf8_char_def split: if_splits)
    then have d: "c div 262144 < 5" by (simp add: div_less_iff_less_mult)
    then have u: "unat (word_of_nat (240 + c div 262144) :: 8 word) = 240 + c div 262144"
      by (intro unat_byte) simp
    have v: "c div 262144 * 262144 + c div 4096 mod 64 * 4096 + c div 64 mod 64 * 64 + c mod 64 = c"
      by (rule base64_4 [symmetric])
    from 4 assms u v d lt show ?thesis
      by (auto simp: utf8_char_def utf8_next_def Let_def simp del: of_nat_add)
  qed
qed

lemma utf8_char_nonempty: "utf8_char c = Inr bs \<Longrightarrow> bs \<noteq> []"
  by (auto simp: utf8_char_def split: if_splits)

lemma utf8_decode_encode: "utf8_encode t = Inr bs \<Longrightarrow> utf8_decode bs = Inr t"
proof (induction t arbitrary: bs)
  case Nil
  then show ?case by (simp add: utf8_encode_def)
next
  case (Cons c t)
  then obtain b bs' where b: "utf8_char c = Inr b" and bs': "utf8_encode t = Inr bs'"
    and eq: "bs = b @ bs'"
    by (auto simp: utf8_encode_def outcome_simps)
  have "b @ bs' \<noteq> []" using utf8_char_nonempty [OF b] by simp
  with Cons.IH [OF bs'] utf8_next_char [OF b, of bs'] show ?case
    by (subst utf8_decode.simps) (simp add: eq)
qed

section \<open>Frames\<close>

definition FRAME_LENGTH_PREFIX_BYTES :: nat where "FRAME_LENGTH_PREFIX_BYTES = 4"
definition FRAME_KIND_PREFIX_BYTES :: nat where "FRAME_KIND_PREFIX_BYTES = 1"
definition FRAME_KIND_DETECTION :: nat where "FRAME_KIND_DETECTION = 1"
definition FRAME_KIND_SNAPSHOT :: nat where "FRAME_KIND_SNAPSHOT = 2"
definition FRAME_KIND_ACKNOWLEDGEMENT :: nat where "FRAME_KIND_ACKNOWLEDGEMENT = 3"
definition FRAME_HEADER_BYTES :: nat where
  "FRAME_HEADER_BYTES = FRAME_KIND_PREFIX_BYTES + FRAME_LENGTH_PREFIX_BYTES"
definition MAX_FRAME_BYTES :: nat where "MAX_FRAME_BYTES = 65536"
definition MAX_SNAPSHOT_FRAME_BYTES :: nat where
  "MAX_SNAPSHOT_FRAME_BYTES = 5 * 1024 * 1024 + 4096"
definition SNAPSHOT_EVENT_ID_LENGTH_PREFIX_BYTES :: nat where
  "SNAPSHOT_EVENT_ID_LENGTH_PREFIX_BYTES = 2"
definition SUPPORTED_SCHEMA_VERSIONS :: "int list" where "SUPPORTED_SCHEMA_VERSIONS = [1, 2]"
definition SNAPSHOT_PROTOCOL_SCHEMA_VERSION :: int where "SNAPSHOT_PROTOCOL_SCHEMA_VERSION = 2"

lemmas frame_constants = FRAME_LENGTH_PREFIX_BYTES_def FRAME_KIND_PREFIX_BYTES_def
  FRAME_KIND_DETECTION_def FRAME_KIND_SNAPSHOT_def FRAME_KIND_ACKNOWLEDGEMENT_def
  FRAME_HEADER_BYTES_def SNAPSHOT_EVENT_ID_LENGTH_PREFIX_BYTES_def

definition encode_frame :: "bytes \<Rightarrow> nat \<Rightarrow> exn + bytes" where
  "encode_frame payload kind =
     bind_result (to_bytes FRAME_KIND_PREFIX_BYTES kind) (\<lambda>k.
     bind_result (to_bytes FRAME_LENGTH_PREFIX_BYTES (length payload)) (\<lambda>l.
     Inr (k @ l @ payload)))"

definition decode_frame_header :: "bytes \<Rightarrow> nat \<times> nat" where
  "decode_frame_header header =
     (from_bytes (take FRAME_KIND_PREFIX_BYTES header), from_bytes (drop FRAME_KIND_PREFIX_BYTES header))"

definition encode_snapshot_message :: "utext \<Rightarrow> bytes \<Rightarrow> exn + bytes" where
  "encode_snapshot_message event_id jpeg =
     bind_result (utf8_encode event_id) (\<lambda>eid.
     bind_result (to_bytes SNAPSHOT_EVENT_ID_LENGTH_PREFIX_BYTES (length eid)) (\<lambda>l.
     encode_frame (l @ eid @ jpeg) FRAME_KIND_SNAPSHOT))"

definition decode_snapshot_message :: "bytes \<Rightarrow> exn + utext \<times> bytes" where
  "decode_snapshot_message body =
     (let n = from_bytes (take SNAPSHOT_EVENT_ID_LENGTH_PREFIX_BYTES body);
          rest = drop SNAPSHOT_EVENT_ID_LENGTH_PREFIX_BYTES body
      in bind_result (utf8_decode (take n rest)) (\<lambda>event_id. Inr (event_id, drop n rest)))"

lemma encode_frame_Inr [outcome_simps]:
  "encode_frame payload kind = Inr f \<longleftrightarrow>
     kind < 256 \<and> length payload < 2 ^ 32 \<and>
     f = be_bytes 1 kind @ be_bytes 4 (length payload) @ payload"
  by (auto simp: encode_frame_def outcome_simps to_bytes_def frame_constants)

lemma decode_snapshot_message_Inl: "decode_snapshot_message b = Inl e \<Longrightarrow> e = UnicodeDecodeError"
  by (auto simp: decode_snapshot_message_def Let_def outcome_simps dest: utf8_decode_Inl)

lemma frame_header_length: "encode_frame payload kind = Inr f \<Longrightarrow> length f = FRAME_HEADER_BYTES + length payload"
  by (simp add: outcome_simps frame_constants)

lemma frame_split:
  assumes "encode_frame payload kind = Inr f"
  shows "decode_frame_header (take FRAME_HEADER_BYTES f) = (kind, length payload)"
    and "drop FRAME_HEADER_BYTES f = payload"
  using assms
  by (auto simp: outcome_simps frame_constants decode_frame_header_def from_bytes_be_bytes
        simp del: be_bytes.simps)

lemma snapshot_message_split:
  assumes "encode_snapshot_message event_id jpeg = Inr f"
  shows "decode_snapshot_message (drop FRAME_HEADER_BYTES f) = Inr (event_id, jpeg)"
    and "fst (decode_frame_header (take FRAME_HEADER_BYTES f)) = FRAME_KIND_SNAPSHOT"
proof -
  obtain eid where eid: "utf8_encode event_id = Inr eid" "length eid < 65536"
    and f: "encode_frame (be_bytes 2 (length eid) @ eid @ jpeg) FRAME_KIND_SNAPSHOT = Inr f"
    using assms
    by (auto simp: encode_snapshot_message_def outcome_simps to_bytes_def frame_constants
          split: if_splits simp del: be_bytes.simps)
  have "from_bytes (be_bytes 2 (length eid)) = length eid"
    by (rule from_bytes_be_bytes) (simp add: eid)
  then show "decode_snapshot_message (drop FRAME_HEADER_BYTES f) = Inr (event_id, jpeg)"
    using utf8_decode_encode [OF eid(1)]
    unfolding frame_split(2) [OF f]
    by (simp add: decode_snapshot_message_def frame_constants del: be_bytes.simps)
  show "fst (decode_frame_header (take FRAME_HEADER_BYTES f)) = FRAME_KIND_SNAPSHOT"
    by (simp add: frame_split(1) [OF f])
qed

end
