(* ===== verification/Wire.thy ===== *)
theory Wire
  imports Protocol
begin

text \<open>
  The receiving side of a connection in \<^verbatim>\<open>detection/ingest_handler.py\<close>: \<^verbatim>\<open>_read_frame\<close>,
  \<^verbatim>\<open>_parse_detection_body\<close>, \<^verbatim>\<open>_read_message\<close> and \<^verbatim>\<open>_handle_connection\<close>.  A connection is the bytes the
  client sends until it closes; \<^verbatim>\<open>json.loads\<close> is the argument \<open>loads\<close>.
\<close>

section \<open>Reading\<close>

text \<open>\<^verbatim>\<open>readexactly(n)\<close>: \<open>n\<close> bytes and the rest of the stream, or the partial bytes at its end.\<close>

definition readexactly :: "nat \<Rightarrow> bytes \<Rightarrow> bytes + bytes \<times> bytes" where
  "readexactly n stream = (if n \<le> length stream then Inr (take n stream, drop n stream) else Inl stream)"

definition read_frame :: "nat \<Rightarrow> bool \<Rightarrow> bytes \<Rightarrow> exn + ((nat \<times> bytes) \<times> bytes) option" where
  "read_frame max_bytes allow_clean_eof stream =
     (case readexactly FRAME_HEADER_BYTES stream of
        Inl partial \<Rightarrow> if allow_clean_eof \<and> partial = [] then Inr None else Inl IncompleteReadError
      | Inr (header, rest) \<Rightarrow>
          (let (kind, n) = decode_frame_header header
           in if n \<le> 0 then Inl (FrameRejected ''zero_length_frame'')
              else if n > max_bytes then Inl (FrameRejected ''oversized_frame'')
              else (case readexactly n rest of
                      Inl _ \<Rightarrow> Inl (FrameRejected ''incomplete_payload'')
                    | Inr (body, rest') \<Rightarrow> Inr (Some ((kind, body), rest')))))"

definition schema_version_of :: "json_obj \<Rightarrow> json" where
  "schema_version_of p =
     (case jget p ''schema_version'' of Some v \<Rightarrow> v | None \<Rightarrow> jget_none p ''schemaVersion'')"

text \<open>\<^verbatim>\<open>v in SUPPORTED_SCHEMA_VERSIONS\<close>, a \<^verbatim>\<open>frozenset\<close>: an unhashable value raises.\<close>

definition supported_version :: "json \<Rightarrow> exn + bool" where
  "supported_version v =
     (if \<not> hashable v then Inl TypeError else Inr (list_ex (py_eq_int v) SUPPORTED_SCHEMA_VERSIONS))"

definition parse_detection_body :: "(utext \<Rightarrow> exn + json) \<Rightarrow> bytes \<Rightarrow> exn + json_obj" where
  "parse_detection_body loads body =
     (case utf8_decode body of
        Inl _ \<Rightarrow> Inl (FrameRejected ''invalid_utf8'')
      | Inr content \<Rightarrow>
          (case loads content of
             Inl e \<Rightarrow> Inl (if e = JSONDecodeError then FrameRejected ''invalid_json'' else e)
           | Inr parsed \<Rightarrow>
               (case as_obj parsed of
                  None \<Rightarrow> Inl (FrameRejected ''invalid_json_shape'')
                | Some p \<Rightarrow>
                    bind_result (supported_version (schema_version_of p)) (\<lambda>ok.
                      if ok then Inr p else Inl (FrameRejected ''unsupported_schema_version'')))))"

definition read_message ::
  "(utext \<Rightarrow> exn + json) \<Rightarrow> bytes \<Rightarrow> exn + (json_obj \<times> bytes) option" where
  "read_message loads stream =
     bind_result (read_frame MAX_FRAME_BYTES True stream) (\<lambda>frame.
     case frame of
       None \<Rightarrow> Inr None
     | Some ((kind, body), rest) \<Rightarrow>
         if kind \<noteq> FRAME_KIND_DETECTION then Inl (FrameRejected ''unexpected_frame_kind'')
         else bind_result (parse_detection_body loads body) (\<lambda>p. Inr (Some (p, rest))))"

section \<open>A connection\<close>

text \<open>
  The items a connection queues: a detection keeps the connection it came from, for the
  acknowledgement; a snapshot is its event id and the JPEG bytes.
\<close>

datatype queue_item = DetectionItem json_obj nat | SnapshotItem utext bytes

text \<open>
  How a connection ends: the client closed between two messages or inside a header, the protocol
  was violated (with the logged reason), or an exception left \<^verbatim>\<open>_handle_connection\<close>.
\<close>

datatype close_reason = CleanEof | Disconnected | Rejected string | Crashed exn

definition rejection :: "exn \<Rightarrow> close_reason" where
  "rejection e = (case e of FrameRejected reason \<Rightarrow> Rejected reason
                  | IncompleteReadError \<Rightarrow> Disconnected | _ \<Rightarrow> Crashed e)"

text \<open>One turn of the loop: an item to enqueue and the rest of the stream, or the end.\<close>

definition next_item :: "(utext \<Rightarrow> exn + json) \<Rightarrow> nat \<Rightarrow> bytes \<Rightarrow> close_reason + queue_item \<times> bytes" where
  "next_item loads conn stream =
     (case read_frame MAX_SNAPSHOT_FRAME_BYTES True stream of
        Inl e \<Rightarrow> Inl (rejection e)
      | Inr None \<Rightarrow> Inl CleanEof
      | Inr (Some ((kind, body), rest)) \<Rightarrow>
          if kind = FRAME_KIND_SNAPSHOT
          then (case decode_snapshot_message body of
                  Inl _ \<Rightarrow> Inl (Rejected ''malformed_snapshot_frame'')
                | Inr (event_id, data) \<Rightarrow> Inr (SnapshotItem event_id data, rest))
          else if kind \<noteq> FRAME_KIND_DETECTION then Inl (Rejected ''unexpected_frame_kind'')
          else if length body > MAX_FRAME_BYTES then Inl (Rejected ''oversized_frame'')
          else (case parse_detection_body loads body of
                  Inl e \<Rightarrow> Inl (rejection e)
                | Inr p \<Rightarrow> Inr (DetectionItem p conn, rest)))"

lemma read_frame_shorter:
  "read_frame m b stream = Inr (Some (f, rest)) \<Longrightarrow> length rest < length stream"
  by (auto simp: read_frame_def readexactly_def Let_def frame_constants split: if_split_asm prod.split_asm)

lemma next_item_shorter: "next_item loads conn stream = Inr (item, rest) \<Longrightarrow> length rest < length stream"
  by (auto simp: next_item_def dest: read_frame_shorter
      split: sum.split_asm option.split_asm prod.split_asm if_split_asm)

function handle_connection :: "(utext \<Rightarrow> exn + json) \<Rightarrow> nat \<Rightarrow> bytes \<Rightarrow> queue_item list \<times> close_reason" where
  "handle_connection loads conn stream =
     (case next_item loads conn stream of
        Inl reason \<Rightarrow> ([], reason)
      | Inr (item, rest) \<Rightarrow>
          (let (items, reason) = handle_connection loads conn rest in (item # items, reason)))"
  by pat_completeness auto
termination
  by (relation "measure (\<lambda>(loads, conn, stream). length stream)") (auto dest: next_item_shorter)

declare handle_connection.simps [simp del]

section \<open>What the receiver makes of what was sent\<close>

text \<open>
  A message of the Bridge and its frame, as \<^verbatim>\<open>encode_frame\<close> and \<^verbatim>\<open>encode_snapshot_message\<close> build it:
  a detection is the UTF-8 encoding of a JSON text.
\<close>

datatype message = DetectionText utext | Snapshot utext bytes

fun encode_message :: "message \<Rightarrow> exn + bytes" where
  "encode_message (DetectionText content) =
     bind_result (utf8_encode content) (\<lambda>body. encode_frame body FRAME_KIND_DETECTION)"
| "encode_message (Snapshot event_id jpeg) = encode_snapshot_message event_id jpeg"

text \<open>What the receiver accepts, and the item it makes of it.\<close>

definition accepted_payload :: "(utext \<Rightarrow> exn + json) \<Rightarrow> utext \<Rightarrow> json_obj option" where
  "accepted_payload loads content =
     (case loads content of
        Inr (JObj p) \<Rightarrow> if supported_version (schema_version_of p) = Inr True then Some p else None
      | _ \<Rightarrow> None)"

fun item_of :: "(utext \<Rightarrow> exn + json) \<Rightarrow> nat \<Rightarrow> message \<Rightarrow> queue_item option" where
  "item_of loads conn (DetectionText content) =
     map_option (\<lambda>p. DetectionItem p conn) (accepted_payload loads content)"
| "item_of loads conn (Snapshot event_id jpeg) = Some (SnapshotItem event_id jpeg)"

definition frame_fits :: "message \<Rightarrow> bytes \<Rightarrow> bool" where
  "frame_fits m frame \<longleftrightarrow> FRAME_HEADER_BYTES < length frame
     \<and> length frame \<le> FRAME_HEADER_BYTES
         + (case m of DetectionText _ \<Rightarrow> MAX_FRAME_BYTES | Snapshot _ _ \<Rightarrow> MAX_SNAPSHOT_FRAME_BYTES)"

lemma read_frame_encoded:
  assumes "encode_frame body kind = Inr f" and "body \<noteq> []" and "length body \<le> m"
  shows "read_frame m b (f @ rest) = Inr (Some ((kind, body), rest))"
proof -
  have l: "length f = FRAME_HEADER_BYTES + length body" by (rule frame_header_length [OF assms(1)])
  have "readexactly FRAME_HEADER_BYTES (f @ rest) = Inr (take FRAME_HEADER_BYTES f, body @ rest)"
    using l frame_split(2) [OF assms(1)] by (simp add: readexactly_def)
  then show ?thesis
    using assms(2,3) frame_split(1) [OF assms(1)] by (simp add: read_frame_def readexactly_def)
qed

lemma max_frame_le: "MAX_FRAME_BYTES \<le> MAX_SNAPSHOT_FRAME_BYTES"
  by (simp add: MAX_FRAME_BYTES_def MAX_SNAPSHOT_FRAME_BYTES_def)

lemma next_item_message:
  assumes "encode_message m = Inr f" and "frame_fits m f" and "item_of loads conn m = Some item"
  shows "next_item loads conn (f @ rest) = Inr (item, rest)"
proof (cases m)
  case (DetectionText content)
  with assms(1) obtain body where body: "utf8_encode content = Inr body"
    and f: "encode_frame body FRAME_KIND_DETECTION = Inr f" by (auto simp: bind_result_eq_Inr)
  have fits: "body \<noteq> []" "length body \<le> MAX_FRAME_BYTES"
    using assms(2) DetectionText frame_header_length [OF f] by (auto simp: frame_fits_def)
  obtain p where p: "loads content = Inr (JObj p)" "supported_version (schema_version_of p) = Inr True"
    "item = DetectionItem p conn"
    using assms(3) DetectionText by (auto simp: accepted_payload_def split: sum.split_asm json.split_asm if_split_asm)
  have "read_frame MAX_SNAPSHOT_FRAME_BYTES True (f @ rest) = Inr (Some ((FRAME_KIND_DETECTION, body), rest))"
    using fits max_frame_le by (intro read_frame_encoded [OF f]) simp_all
  moreover have "parse_detection_body loads body = Inr p"
    using utf8_decode_encode [OF body] p by (simp add: parse_detection_body_def)
  ultimately show ?thesis
    using fits p(3) by (simp add: next_item_def FRAME_KIND_DETECTION_def FRAME_KIND_SNAPSHOT_def)
next
  case (Snapshot event_id jpeg)
  with assms(1) have e: "encode_snapshot_message event_id jpeg = Inr f" by simp
  then obtain body where f: "encode_frame body FRAME_KIND_SNAPSHOT = Inr f"
    by (auto simp: encode_snapshot_message_def bind_result_eq_Inr)
  have fits: "body \<noteq> []" "length body \<le> MAX_SNAPSHOT_FRAME_BYTES"
    using assms(2) Snapshot frame_header_length [OF f] by (auto simp: frame_fits_def)
  have "read_frame MAX_SNAPSHOT_FRAME_BYTES True (f @ rest) = Inr (Some ((FRAME_KIND_SNAPSHOT, body), rest))"
    using fits by (intro read_frame_encoded [OF f]) simp_all
  moreover have "decode_snapshot_message body = Inr (event_id, jpeg)"
    using snapshot_message_split(1) [OF e] frame_split(2) [OF f] by simp
  ultimately show ?thesis
    using assms(3) Snapshot by (simp add: next_item_def)
qed

text \<open>
  C34.  The wire protocol is transparent: when the Bridge sends messages whose frames respect the
  size limits and whose JSON the handler accepts, the connection queues exactly those messages,
  in the order they were sent, each with its payload unchanged, and ends with a clean end of
  file.  Framing, the two size limits, the snapshot sub-header and UTF-8 all come in here.
\<close>

theorem connection_delivers_messages:
  assumes "list_all2 (\<lambda>m f. encode_message m = Inr f \<and> frame_fits m f) msgs frames"
    and "map (item_of loads conn) msgs = map Some items"
  shows "handle_connection loads conn (concat frames) = (items, CleanEof)"
  using assms
proof (induction msgs frames arbitrary: items rule: list_all2_induct)
  case Nil
  have "next_item loads conn [] = Inl CleanEof"
    by (simp add: next_item_def read_frame_def readexactly_def frame_constants)
  then show ?case using Nil by (simp add: handle_connection.simps)
next
  case (Cons m ms f fs)
  then obtain item items' where items: "items = item # items'" "item_of loads conn m = Some item"
    "map (item_of loads conn) ms = map Some items'" by (cases items) auto
  have "next_item loads conn (f @ concat fs) = Inr (item, concat fs)"
    using Cons.hyps(1) items(2) by (intro next_item_message) simp_all
  moreover have "handle_connection loads conn (concat fs) = (items', CleanEof)"
    by (rule Cons.IH [OF items(3)])
  ultimately show ?case using items(1) by (simp add: handle_connection.simps [of _ _ "f @ concat fs"])
qed

definition demo_loads :: "utext \<Rightarrow> exn + json" where
  "demo_loads content =
     (if content = [50] then Inr (JObj [(''schema_version'', JInt 2)])
      else if content = [51] then Inr (JObj [(''schema_version'', JArr [])]) else Inl JSONDecodeError)"

lemma demo_utf8: "utf8_encode [50] = Inr [50]" "utf8_encode [51] = Inr [51]" "utf8_encode [97] = Inr [97]"
  by code_simp+

lemma demo_be_bytes:
  "be_bytes (Suc 0) (Suc 0) = [1]" "be_bytes (Suc 0) 2 = [2]" "be_bytes 4 (Suc 0) = [0, 0, 0, 1]"
  "be_bytes 4 (Suc (Suc (Suc (Suc 0)))) = [0, 0, 0, 4]" "be_bytes 2 (Suc 0) = [0, 1]"
  by code_simp+

lemma demo_frames:
  "encode_message (DetectionText [50]) = Inr [1, 0, 0, 0, 1, 50]"
  "encode_message (DetectionText [51]) = Inr [1, 0, 0, 0, 1, 51]"
  "encode_message (Snapshot [97] [255]) = Inr [2, 0, 0, 0, 4, 0, 1, 97, 255]"
  by (simp_all add: demo_utf8 demo_be_bytes encode_frame_Inr frame_constants encode_snapshot_message_def to_bytes_def
      del: be_bytes.simps)

lemma demo_frames_fit:
  "frame_fits (DetectionText [50]) [1, 0, 0, 0, 1, 50]"
  "frame_fits (DetectionText [51]) [1, 0, 0, 0, 1, 51]"
  "frame_fits (Snapshot [97] [255]) [2, 0, 0, 0, 4, 0, 1, 97, 255]"
  by (simp_all add: frame_fits_def frame_constants MAX_FRAME_BYTES_def MAX_SNAPSHOT_FRAME_BYTES_def)

theorem connection_delivers_messages_witness:
  "handle_connection demo_loads 7 (concat [[1, 0, 0, 0, 1, 50], [2, 0, 0, 0, 4, 0, 1, 97, 255]])
   = ([DetectionItem [(''schema_version'', JInt 2)] 7, SnapshotItem [97] [255]], CleanEof)"
proof (rule connection_delivers_messages)
  show "list_all2 (\<lambda>m f. encode_message m = Inr f \<and> frame_fits m f)
      [DetectionText [50], Snapshot [97] [255]] [[1, 0, 0, 0, 1, 50], [2, 0, 0, 0, 4, 0, 1, 97, 255]]"
    using demo_frames demo_frames_fit by simp
  show "map (item_of demo_loads 7) [DetectionText [50], Snapshot [97] [255]]
      = map Some [DetectionItem [(''schema_version'', JInt 2)] 7, SnapshotItem [97] [255]]"
    by (simp add: demo_loads_def accepted_payload_def supported_version_def schema_version_of_def
        SUPPORTED_SCHEMA_VERSIONS_def)
qed

text \<open>
  Not every malformed message is rejected: a JSON object whose schema version is a list or an
  object makes the membership test raise \<^verbatim>\<open>TypeError\<close>, which no handler of the connection catches,
  so the connection task ends with that exception instead of the logged protocol rejection.
\<close>

theorem unhashable_version_crashes_connection:
  assumes "utf8_encode content = Inr body" and "encode_frame body FRAME_KIND_DETECTION = Inr frame"
    and "frame_fits (DetectionText content) frame"
    and "loads content = Inr (JObj p)" and "\<not> hashable (schema_version_of p)"
  shows "handle_connection loads conn (frame @ rest) = ([], Crashed TypeError)"
proof -
  have fits: "body \<noteq> []" "length body \<le> MAX_FRAME_BYTES"
    using assms(3) frame_header_length [OF assms(2)] by (auto simp: frame_fits_def)
  have "read_frame MAX_SNAPSHOT_FRAME_BYTES True (frame @ rest) = Inr (Some ((FRAME_KIND_DETECTION, body), rest))"
    using fits max_frame_le by (intro read_frame_encoded [OF assms(2)]) simp_all
  moreover have "parse_detection_body loads body = Inl TypeError"
    using utf8_decode_encode [OF assms(1)] assms(4,5)
    by (simp add: parse_detection_body_def supported_version_def)
  ultimately have "next_item loads conn (frame @ rest) = Inl (Crashed TypeError)"
    using fits by (simp add: next_item_def rejection_def FRAME_KIND_DETECTION_def FRAME_KIND_SNAPSHOT_def)
  then show ?thesis by (simp add: handle_connection.simps)
qed

theorem unhashable_version_crashes_connection_witness:
  "handle_connection demo_loads 7 ([1, 0, 0, 0, 1, 51] @ [9, 9]) = ([], Crashed TypeError)"
proof (rule unhashable_version_crashes_connection [where content = "[51]" and body = "[51]"])
  show utf8: "utf8_encode [51] = Inr [51]" by code_simp
  show "encode_frame [51] FRAME_KIND_DETECTION = Inr [1, 0, 0, 0, 1, 51]"
    using demo_frames(2) utf8 by simp
  show "frame_fits (DetectionText [51]) [1, 0, 0, 0, 1, 51]" by (rule demo_frames_fit(2))
  show "demo_loads [51] = Inr (JObj [(''schema_version'', JArr [])])" by (simp add: demo_loads_def)
  show "\<not> hashable (schema_version_of [(''schema_version'', JArr [])])" by (simp add: schema_version_of_def)
qed

end
