(* ===== verification/Cooldown.thy ===== *)
theory Cooldown
  imports PyData
begin

text \<open>
  \<^verbatim>\<open>detection/cooldown.py\<close>: duplicate suppression keyed by device, camera and class.  The clock
  reading a call takes is its argument \<open>now\<close>; the state is the dictionary of the last accepted
  times.  \<open>cooldown_policy\<close> is what the ingest handler relies on.
\<close>

datatype cooldown_decision = ACCEPT | SUPPRESS

type_synonym cooldown_key = "string \<times> string \<times> string"

text \<open>\<open>identity_key\<close> is \<^verbatim>\<open>_Identity(...).key()\<close>: a blank component is a \<^verbatim>\<open>ValueError\<close>.\<close>

definition identity_key :: "string \<Rightarrow> string \<Rightarrow> string \<Rightarrow> exn + cooldown_key" where
  "identity_key device_id camera_id class_name =
     (if blank device_id \<or> blank camera_id \<or> blank class_name then Inl ValueError
      else Inr (device_id, camera_id, class_name))"

record tracker =
  ct_cooldown_seconds :: pyfloat
  ct_last_accepted_at :: "cooldown_key \<Rightarrow> pyfloat option"

definition mk_tracker :: "pyfloat \<Rightarrow> exn + tracker" where
  "mk_tracker cooldown_seconds =
     (if fl_less cooldown_seconds (Fin 0) then Inl ValueError
      else Inr \<lparr>ct_cooldown_seconds = cooldown_seconds, ct_last_accepted_at = (\<lambda>_. None)\<rparr>)"

definition decide :: "tracker \<Rightarrow> pyfloat \<Rightarrow> string \<Rightarrow> string \<Rightarrow> string \<Rightarrow> exn + cooldown_decision" where
  "decide t now device_id camera_id class_name =
     bind_result (identity_key device_id camera_id class_name) (\<lambda>key.
       Inr (case ct_last_accepted_at t key of
              Some last_accepted \<Rightarrow>
                if fl_less (fl_sub now last_accepted) (ct_cooldown_seconds t) then SUPPRESS else ACCEPT
            | None \<Rightarrow> ACCEPT))"

definition commit :: "tracker \<Rightarrow> pyfloat \<Rightarrow> string \<Rightarrow> string \<Rightarrow> string \<Rightarrow> exn + tracker" where
  "commit t now device_id camera_id class_name =
     bind_result (identity_key device_id camera_id class_name) (\<lambda>key.
       Inr (t\<lparr>ct_last_accepted_at := (ct_last_accepted_at t)(key \<mapsto> now)\<rparr>))"

text \<open>\<open>evaluate\<close> reads the clock twice when it accepts, once for each of the two steps.\<close>

definition evaluate ::
  "tracker \<Rightarrow> pyfloat \<Rightarrow> pyfloat \<Rightarrow> string \<Rightarrow> string \<Rightarrow> string \<Rightarrow> exn + cooldown_decision \<times> tracker" where
  "evaluate t now now' device_id camera_id class_name =
     bind_result (decide t now device_id camera_id class_name) (\<lambda>d.
       if d = ACCEPT
       then bind_result (commit t now' device_id camera_id class_name) (\<lambda>t'. Inr (d, t'))
       else Inr (d, t))"

text \<open>
  One detection of a sequence: the clock readings of its decision and of its commit, and its key.
  \<open>accepted_by\<close> runs a sequence through an evaluation step and collects what it accepts.
\<close>

type_synonym 'k timed = "pyfloat \<times> pyfloat \<times> 'k"

primrec accepted_by :: "('t \<Rightarrow> 'x \<Rightarrow> exn + cooldown_decision \<times> 't) \<Rightarrow> 't \<Rightarrow> 'x list \<Rightarrow> exn + 'x list" where
  "accepted_by step t [] = Inr []"
| "accepted_by step t (x # xs) =
     bind_result (step t x) (\<lambda>(d, t').
     bind_result (accepted_by step t' xs) (\<lambda>ys. Inr (if d = ACCEPT then x # ys else ys)))"

definition evaluate_timed :: "tracker \<Rightarrow> cooldown_key timed \<Rightarrow> exn + cooldown_decision \<times> tracker" where
  "evaluate_timed t x =
     (case x of (now, now', dev, cam, cls) \<Rightarrow> evaluate t now now' dev cam cls)"

section \<open>The contract\<close>

text \<open>
  \<open>since t k\<close> is the start of the open window of a key.  An evaluation only looks at the window
  of its own key; only an acceptance moves that window, and to the time of the commit.
\<close>

locale cooldown_policy =
  fixes eval :: "'t \<Rightarrow> 'k timed \<Rightarrow> exn + cooldown_decision \<times> 't"
    and since :: "'t \<Rightarrow> 'k \<Rightarrow> pyfloat option"
    and window :: "'t \<Rightarrow> pyfloat"
  assumes accept_law: "eval t (now, now', k) = Inr (ACCEPT, t') \<Longrightarrow>
      since t' = (since t)(k \<mapsto> now') \<and> window t' = window t \<and>
      (\<forall>s. since t k = Some s \<longrightarrow> \<not> fl_less (fl_sub now s) (window t))"
    and suppress_law: "eval t (now, now', k) = Inr (SUPPRESS, t') \<Longrightarrow>
      t' = t \<and> (\<exists>s. since t k = Some s \<and> fl_less (fl_sub now s) (window t))"
begin

definition spaced :: "pyfloat \<Rightarrow> 'k timed \<Rightarrow> 'k timed \<Rightarrow> bool" where
  "spaced w x y \<longleftrightarrow> \<not> fl_less (fl_sub (fst y) (fst (snd x))) w"

lemma accepted_spaced:
  assumes "accepted_by eval t xs = Inr ys"
  shows "successively (spaced (window t)) (filter (\<lambda>x. snd (snd x) = k) ys) \<and>
    (\<forall>s z zs. since t k = Some s \<longrightarrow> filter (\<lambda>x. snd (snd x) = k) ys = z # zs \<longrightarrow>
       \<not> fl_less (fl_sub (fst z) s) (window t))"
  using assms
proof (induction xs arbitrary: t ys)
  case Nil
  then show ?case by simp
next
  case (Cons x xs)
  obtain now now' k' where x: "x = (now, now', k')" by (cases x)
  from Cons.prems obtain d t' ys' where step: "eval t x = Inr (d, t')"
    and rest: "accepted_by eval t' xs = Inr ys'"
    and ys: "ys = (if d = ACCEPT then x # ys' else ys')"
    by (auto simp: outcome_simps)
  note IH = Cons.IH [OF rest]
  show ?case
  proof (cases d)
    case SUPPRESS
    with step x suppress_law have "t' = t" by blast
    with IH ys SUPPRESS show ?thesis by simp
  next
    case ACCEPT
    with step x accept_law have a: "since t' = (since t)(k' \<mapsto> now')" "window t' = window t"
      "\<forall>s. since t k' = Some s \<longrightarrow> \<not> fl_less (fl_sub now s) (window t)" by blast+
    show ?thesis
    proof (cases "k' = k")
      case False
      with IH ys ACCEPT x a show ?thesis by simp
    next
      case True
      have "successively (spaced (window t)) (x # filter (\<lambda>x. snd (snd x) = k) ys')"
        using IH a True x by (auto simp: successively_Cons spaced_def neq_Nil_conv)
      with ys ACCEPT x True a show ?thesis by simp
    qed
  qed
qed

end

interpretation tracker_policy: cooldown_policy evaluate_timed ct_last_accepted_at ct_cooldown_seconds
proof (unfold_locales, goal_cases)
  case (1 t now now' k t')
  then show ?case
    by (cases k) (auto simp: evaluate_timed_def evaluate_def decide_def commit_def identity_key_def
        outcome_simps split: option.splits if_splits)
next
  case (2 t now now' k t')
  then show ?case
    by (cases k) (auto simp: evaluate_timed_def evaluate_def decide_def commit_def identity_key_def
        outcome_simps split: option.splits if_splits)
qed

section \<open>Facts the ingest handler uses\<close>

lemma decide_Inl: "decide t now d c n = Inl e \<Longrightarrow> e = ValueError"
  by (auto simp: decide_def identity_key_def outcome_simps split: if_splits)

lemma decide_commit:
  "decide t now d c n = Inr x \<Longrightarrow>
   commit t now' d c n = Inr (t\<lparr>ct_last_accepted_at := (ct_last_accepted_at t)((d, c, n) \<mapsto> now')\<rparr>)"
  by (auto simp: decide_def commit_def identity_key_def outcome_simps split: if_splits)

lemma commit_then_decide:
  assumes "commit t now' d c n = Inr t'"
  shows "decide t' now d c n =
    Inr (if fl_less (fl_sub now now') (ct_cooldown_seconds t) then SUPPRESS else ACCEPT)"
  using assms by (auto simp: decide_def commit_def identity_key_def outcome_simps split: if_splits)

text \<open>
  C30.  Two accepted detections of one identity are never closer than the cooldown: over any
  sequence of calls of \<^verbatim>\<open>evaluate\<close>, whatever is suppressed in between, the decision time of an
  accepted detection is at least \<^verbatim>\<open>cooldown_seconds\<close> after the commit of the previous accepted
  detection with the same (device, camera, class).
\<close>

theorem cooldown_spacing:
  assumes "accepted_by evaluate_timed t xs = Inr ys"
  shows "successively (\<lambda>x y. \<not> fl_less (fl_sub (fst y) (fst (snd x))) (ct_cooldown_seconds t))
           (filter (\<lambda>x. snd (snd x) = key) ys)"
  using tracker_policy.accepted_spaced [OF assms, of key]
  by (simp add: tracker_policy.spaced_def [abs_def])

definition demo_tracker :: tracker where
  "demo_tracker = \<lparr>ct_cooldown_seconds = Fin 5, ct_last_accepted_at = (\<lambda>_. None)\<rparr>"

lemma fl_sub_small: "\<bar>m\<bar> \<le> 2 ^ 53 \<Longrightarrow> a - b = of_int m \<Longrightarrow> fl_sub (Fin a) (Fin b) = Fin (a - b)"
  using fl_round_int [of "a - b" m] by (simp add: fl_sub_def)

lemma demo_run:
  "accepted_by evaluate_timed demo_tracker
     [(Fin 1, Fin 1, ''d'', ''c'', ''gun''), (Fin 3, Fin 3, ''d'', ''c'', ''gun''),
      (Fin 7, Fin 7, ''d'', ''c'', ''gun'')]
   = Inr [(Fin 1, Fin 1, ''d'', ''c'', ''gun''), (Fin 7, Fin 7, ''d'', ''c'', ''gun'')]"
proof -
  have b: "blank ''d'' = False" "blank ''c'' = False" "blank ''gun'' = False" by code_simp+
  have f: "fl_sub (Fin 3) (Fin 1) = Fin 2" "fl_sub (Fin 7) (Fin 1) = Fin 6"
    using fl_sub_small [of 2 3 1] fl_sub_small [of 6 7 1] by simp_all
  show ?thesis
    by (simp add: evaluate_timed_def evaluate_def decide_def commit_def identity_key_def b f
        demo_tracker_def)
qed

theorem cooldown_spacing_witness:
  "successively (\<lambda>x y. \<not> fl_less (fl_sub (fst y) (fst (snd x))) (ct_cooldown_seconds demo_tracker))
     (filter (\<lambda>x. snd (snd x) = (''d'', ''c'', ''gun''))
        [(Fin 1, Fin 1, ''d'', ''c'', ''gun''), (Fin 7, Fin 7, ''d'', ''c'', ''gun'')])"
  by (rule cooldown_spacing [OF demo_run])

end
