(* ===== verification/DetectionModel.thy ===== *)
theory DetectionModel
  imports PyData
begin

text \<open>
  \<^verbatim>\<open>detection/models.py\<close>, \<^verbatim>\<open>detection/class_labels.py\<close> and \<^verbatim>\<open>detection/profile_preflight.py\<close>:
  the detection event with the checks of its constructor, and the label file of the model profile.
\<close>

section \<open>DetectionEvent\<close>

record detection_event =
  de_event_id :: uuid
  de_device_id :: string
  de_camera_id :: string
  de_source_id :: int
  de_class_id :: int
  de_class_name :: string
  de_confidence :: pyfloat
  de_frame_number :: int
  de_detected_at_utc :: datetime
  de_frame_width :: int
  de_frame_height :: int
  de_bbox_left :: pyfloat
  de_bbox_top :: pyfloat
  de_bbox_width :: pyfloat
  de_bbox_height :: pyfloat
  de_created_at_utc :: "datetime option"

text \<open>
  \<^verbatim>\<open>__post_init__\<close>: the checks in their order.  A comparison with NaN is false, so the checks on
  the box let NaN through; the confidence check does not.
\<close>

definition check_detection_event :: "detection_event \<Rightarrow> exn + unit" where
  "check_detection_event e =
     bind_result (raise_if (\<not> has_tz (de_detected_at_utc e)) ValueError) (\<lambda>_.
     bind_result (raise_if (case de_created_at_utc e of Some c \<Rightarrow> \<not> has_tz c | None \<Rightarrow> False) ValueError) (\<lambda>_.
     bind_result (raise_if (\<not> (fl_le (Fin 0) (de_confidence e) \<and> fl_le (de_confidence e) (Fin 1))) ValueError) (\<lambda>_.
     bind_result (raise_if (de_source_id e < 0) ValueError) (\<lambda>_.
     bind_result (raise_if (de_frame_number e < 0) ValueError) (\<lambda>_.
     bind_result (raise_if (de_frame_width e \<le> 0 \<or> de_frame_height e \<le> 0) ValueError) (\<lambda>_.
     bind_result (raise_if (\<exists>v \<in> set [de_bbox_left e, de_bbox_top e, de_bbox_width e, de_bbox_height e].
                              fl_less v (Fin 0)) ValueError) (\<lambda>_.
     bind_result (raise_if (fl_less (fl_exact (de_frame_width e))
                              (fl_add (de_bbox_left e) (de_bbox_width e))) ValueError) (\<lambda>_.
     raise_if (fl_less (fl_exact (de_frame_height e))
                 (fl_add (de_bbox_top e) (de_bbox_height e))) ValueError))))))))"

definition mk_detection_event :: "detection_event \<Rightarrow> exn + detection_event" where
  "mk_detection_event e = bind_result (check_detection_event e) (\<lambda>_. Inr e)"

text \<open>What the constructor guarantees of the instances that exist.\<close>

definition detection_event_ok :: "detection_event \<Rightarrow> bool" where
  "detection_event_ok e \<longleftrightarrow>
     has_tz (de_detected_at_utc e)
     \<and> (case de_created_at_utc e of None \<Rightarrow> True | Some c \<Rightarrow> has_tz c)
     \<and> fl_le (Fin 0) (de_confidence e) \<and> fl_le (de_confidence e) (Fin 1)
     \<and> 0 \<le> de_source_id e \<and> 0 \<le> de_frame_number e
     \<and> 0 < de_frame_width e \<and> 0 < de_frame_height e
     \<and> \<not> fl_less (de_bbox_left e) (Fin 0) \<and> \<not> fl_less (de_bbox_top e) (Fin 0)
     \<and> \<not> fl_less (de_bbox_width e) (Fin 0) \<and> \<not> fl_less (de_bbox_height e) (Fin 0)
     \<and> \<not> fl_less (fl_exact (de_frame_width e)) (fl_add (de_bbox_left e) (de_bbox_width e))
     \<and> \<not> fl_less (fl_exact (de_frame_height e)) (fl_add (de_bbox_top e) (de_bbox_height e))"

lemma mk_detection_event_Inr [outcome_simps]:
  "mk_detection_event e = Inr e' \<longleftrightarrow> e' = e \<and> detection_event_ok e"
  by (auto simp: mk_detection_event_def check_detection_event_def detection_event_ok_def
      outcome_simps split: option.splits)

lemma mk_detection_event_Inl: "mk_detection_event e = Inl x \<Longrightarrow> x = ValueError"
  by (auto simp: mk_detection_event_def check_detection_event_def outcome_simps)

lemma mk_detection_event_cases: "mk_detection_event e = (if detection_event_ok e then Inr e else Inl ValueError)"
proof (cases "mk_detection_event e")
  case (Inl x)
  then have "\<not> detection_event_ok e" using mk_detection_event_Inr [of e e] by auto
  with Inl show ?thesis using mk_detection_event_Inl [of e x] by simp
next
  case (Inr y)
  then show ?thesis by (simp add: outcome_simps)
qed

section \<open>class_labels.py\<close>

text \<open>
  \<^verbatim>\<open>str.splitlines()\<close> with its line boundaries in this character range.  \<^verbatim>\<open>read_text\<close> has already
  turned CR and CR LF into LF (universal newlines), which \<open>universal_newlines\<close> does.
\<close>

fun universal_newlines :: "string \<Rightarrow> string" where
  "universal_newlines [] = []"
| "universal_newlines (c # cs) =
     (if c = CHR 0x0D
      then (case cs of d # ds \<Rightarrow> if d = CHR 0x0A then CHR 0x0A # universal_newlines ds
                                else CHR 0x0A # universal_newlines cs
                     | [] \<Rightarrow> [CHR 0x0A])
      else c # universal_newlines cs)"

definition is_line_boundary :: "char \<Rightarrow> bool" where
  "is_line_boundary c \<longleftrightarrow> of_char c \<in> {10, 11, 12, 13, 28, 29, 30, 133 :: nat}"

fun split_lines :: "string \<Rightarrow> string \<Rightarrow> string list" where
  "split_lines acc [] = (if acc = [] then [] else [rev acc])"
| "split_lines acc (c # cs) =
     (if is_line_boundary c then rev acc # split_lines [] cs else split_lines (c # acc) cs)"

definition splitlines :: "string \<Rightarrow> string list" where
  "splitlines s = split_lines [] s"

definition blank_line :: "string \<Rightarrow> bool" where
  "blank_line s \<longleftrightarrow> strip_by is_space s = []"

text \<open>\<^verbatim>\<open>while lines and not lines[-1].strip(): lines.pop()\<close>\<close>

fun drop_trailing_blank :: "string list \<Rightarrow> string list" where
  "drop_trailing_blank [] = []"
| "drop_trailing_blank (l # ls) =
     (case drop_trailing_blank ls of
        [] \<Rightarrow> if blank_line l then [] else [l]
      | r \<Rightarrow> l # r)"

text \<open>
  \<open>load_class_names\<close> takes what reading the file gives: its decoded text, or the exception.
  \<open>enumerate_from\<close> is \<^verbatim>\<open>dict(enumerate(lines))\<close>.
\<close>

fun enumerate_from :: "int \<Rightarrow> 'a list \<Rightarrow> (int \<times> 'a) list" where
  "enumerate_from i [] = []"
| "enumerate_from i (x # xs) = (i, x) # enumerate_from (i + 1) xs"

definition load_class_names :: "exn + string \<Rightarrow> exn + (int \<times> string) list" where
  "load_class_names content =
     (case content of
        Inl e \<Rightarrow> Inl (if is_os_error e then DetectionExn DetectionClassLabelsUnavailableError else e)
      | Inr t \<Rightarrow>
          (case drop_trailing_blank (splitlines (universal_newlines t)) of
             [] \<Rightarrow> Inl (DetectionExn DetectionClassLabelsUnavailableError)
           | lines \<Rightarrow> Inr (enumerate_from 0 lines)))"

lemma enumerate_from_lookup:
  "map_of (enumerate_from i xs) k =
     (if i \<le> k \<and> nat (k - i) < length xs then Some (xs ! nat (k - i)) else None)"
proof (induction xs arbitrary: i)
  case Nil
  then show ?case by simp
next
  case (Cons x xs)
  consider "k = i" | "i < k" | "k < i" by linarith
  then show ?case
  proof cases
    case 2
    then have "nat (k - i) = Suc (nat (k - (i + 1)))" by simp
    with Cons.IH [of "i + 1"] 2 show ?thesis by auto
  qed (use Cons.IH [of "i + 1"] in auto)
qed

lemma drop_trailing_blank_prefix: "\<exists>zs. xs = drop_trailing_blank xs @ zs \<and> list_all blank_line zs"
proof (induction xs)
  case Nil
  then show ?case by simp
next
  case (Cons l ls)
  then obtain zs where zs: "ls = drop_trailing_blank ls @ zs" "list_all blank_line zs" by blast
  show ?case
  proof (cases "drop_trailing_blank ls")
    case Nil
    with zs have "list_all blank_line ls" by simp
    with Nil show ?thesis by simp
  next
    case (Cons m ms)
    with zs show ?thesis by simp
  qed
qed

lemma drop_trailing_blank_last:
  "drop_trailing_blank xs \<noteq> [] \<Longrightarrow> \<not> blank_line (last (drop_trailing_blank xs))"
  by (induction xs) (auto split: list.splits if_splits)

text \<open>
  Class ids are line positions: the labels that \<^verbatim>\<open>load_class_names\<close> returns are the lines of
  the file, each under its own zero-based position, blank lines inside the file keeping theirs;
  only blank lines at the end are missing, and the last label is not blank.
\<close>

theorem class_ids_are_line_positions:
  assumes "load_class_names (Inr content) = Inr names"
  shows "\<exists>labels blanks.
    splitlines (universal_newlines content) = labels @ blanks \<and> list_all blank_line blanks
    \<and> labels \<noteq> [] \<and> \<not> blank_line (last labels)
    \<and> (\<forall>k. map_of names k = (if 0 \<le> k \<and> nat k < length labels then Some (labels ! nat k) else None))"
proof -
  define ls where "ls = splitlines (universal_newlines content)"
  define labels where "labels = drop_trailing_blank ls"
  have ne: "labels \<noteq> []" and names: "names = enumerate_from 0 labels"
    using assms by (auto simp: load_class_names_def labels_def ls_def split: list.splits)
  obtain zs where zs: "ls = labels @ zs" "list_all blank_line zs"
    using drop_trailing_blank_prefix [of ls] by (auto simp: labels_def)
  have "\<not> blank_line (last labels)"
    unfolding labels_def by (rule drop_trailing_blank_last) (use ne in \<open>simp add: labels_def\<close>)
  with ne zs names show ?thesis
    unfolding ls_def [symmetric]
    by (intro exI [of _ labels] exI [of _ zs]) (simp add: enumerate_from_lookup)
qed

lemma demo_labels:
  "load_class_names (Inr (''gun'' @ [CHR 0x0A] @ [CHR 0x0A] @ ''knife'' @ [CHR 0x0A] @ [CHR 0x0A]))
   = Inr [(0, ''gun''), (1, []), (2, ''knife'')]"
  by code_simp

theorem class_ids_are_line_positions_witness:
  "\<exists>labels blanks.
    splitlines (universal_newlines (''gun'' @ [CHR 0x0A] @ [CHR 0x0A] @ ''knife'' @ [CHR 0x0A] @ [CHR 0x0A]))
      = labels @ blanks \<and> list_all blank_line blanks \<and> labels \<noteq> [] \<and> \<not> blank_line (last labels)
    \<and> (\<forall>k. map_of [(0, ''gun''), (1, []), (2, ''knife'')] k =
            (if 0 \<le> k \<and> nat k < length labels then Some (labels ! nat k) else None))"
  by (rule class_ids_are_line_positions [OF demo_labels])

section \<open>profile_preflight.py\<close>

text \<open>
  The file-system facts the preflight reads of the profile: the kinds of the four paths and what
  reading the two text files gives.  A problem is named by its check.
\<close>

record profile_files =
  pf_directory :: bool
  pf_infer_config :: bool
  pf_infer_config_read :: "exn + string"
  pf_labels :: bool
  pf_labels_read :: "exn + string"
  pf_engine :: bool

record preflight_result =
  pr_problems :: "string list"
  pr_class_count :: "nat option"
  pr_duplicate_labels :: "string list"

definition duplicate_names :: "string list \<Rightarrow> string list" where
  "duplicate_names names =
     sort (remdups (filter (\<lambda>n. n \<noteq> [] \<and> 1 < length (filter (\<lambda>m. m = n) names)) names))"

definition run_profile_preflight :: "profile_files \<Rightarrow> exn + preflight_result" where
  "run_profile_preflight p =
     (if \<not> pf_directory p
      then Inr \<lparr>pr_problems = [''profile_directory''], pr_class_count = None, pr_duplicate_labels = []\<rparr>
      else
        bind_result
          (if \<not> pf_infer_config p then Inr [''infer_config'']
           else case pf_infer_config_read p of
                  Inr _ \<Rightarrow> Inr []
                | Inl e \<Rightarrow> if is_os_error e then Inr [''infer_config''] else Inl e) (\<lambda>p1.
        bind_result
          (if \<not> pf_labels p then Inr ([''labels_file''], None, [])
           else case load_class_names (pf_labels_read p) of
                  Inr names \<Rightarrow> Inr ([], Some (length names), duplicate_names (map snd names))
                | Inl e \<Rightarrow> if e = DetectionExn DetectionClassLabelsUnavailableError
                          then Inr ([''labels_file''], None, []) else Inl e) (\<lambda>(p2, count, dups).
        Inr \<lparr>pr_problems = p1 @ p2 @ (if pf_engine p then [] else [''engine_file'']),
             pr_class_count = count, pr_duplicate_labels = dups\<rparr>)))"

definition preflight_passed :: "preflight_result \<Rightarrow> bool" where
  "preflight_passed r \<longleftrightarrow> pr_problems r = []"

text \<open>A passed preflight means the labels the Agent will load at start can be loaded.\<close>

lemma preflight_passed_labels:
  assumes "run_profile_preflight p = Inr r" and "preflight_passed r"
  shows "pf_engine p" and "pf_infer_config p"
    and "\<exists>names. load_class_names (pf_labels_read p) = Inr names \<and> pr_class_count r = Some (length names)"
  using assms
  by (auto simp: run_profile_preflight_def preflight_passed_def outcome_simps
      split: if_splits sum.splits)

end
