(* ===== verification/Validation.thy ===== *)
theory Validation
  imports DetectionModel
begin

text \<open>
  \<^verbatim>\<open>detection/validation.py\<close>: from a decoded wire payload to a detection event or a rejection.
  The clock reading and the fresh event id are arguments.  Arithmetic on the box is Python's
  float arithmetic (\<open>PyFloat\<close>), with the conversions of int operands that may raise.
\<close>

datatype rejection_reason =
    MALFORMED_FIELD
  | NON_FINITE_VALUE
  | NEGATIVE_VALUE
  | UNKNOWN_CLASS
  | CONFIDENCE_OUT_OF_RANGE
  | CONFIDENCE_BELOW_THRESHOLD
  | UNRESOLVED_CAMERA_SOURCE

fun reason_value :: "rejection_reason \<Rightarrow> string" where
  "reason_value MALFORMED_FIELD = ''malformed_field''"
| "reason_value NON_FINITE_VALUE = ''non_finite_value''"
| "reason_value NEGATIVE_VALUE = ''negative_value''"
| "reason_value UNKNOWN_CLASS = ''unknown_class''"
| "reason_value CONFIDENCE_OUT_OF_RANGE = ''confidence_out_of_range''"
| "reason_value CONFIDENCE_BELOW_THRESHOLD = ''confidence_below_threshold''"
| "reason_value UNRESOLVED_CAMERA_SOURCE = ''unresolved_camera_source''"

record detection_rejection =
  dr_reason :: rejection_reason
  dr_field :: "string option"

section \<open>Normalisation of a version-2 message\<close>

definition copy_key :: "json_obj \<Rightarrow> string \<times> string \<Rightarrow> json_obj \<Rightarrow> json_obj" where
  "copy_key payload ks d =
     (case jget payload (fst ks) of Some v \<Rightarrow> dict_put (snd ks) v d | None \<Rightarrow> d)"

definition put_unless_none :: "string \<times> json \<Rightarrow> json_obj \<Rightarrow> json_obj" where
  "put_unless_none kv d = (if snd kv = JNull then d else dict_put (fst kv) (snd kv) d)"

definition normalize_v2_payload :: "json_obj \<Rightarrow> json_obj" where
  "normalize_v2_payload payload =
     (let bbox = (case jget_none payload ''boundingBox'' of JObj d \<Rightarrow> d | _ \<Rightarrow> []);
          d1 = fold (copy_key payload)
                 [(''classId'', ''class_id''), (''sourceId'', ''source_id''),
                  (''frameNumber'', ''frame_number'')] payload
      in fold put_unless_none
           [(''bbox_left'', jget_none bbox ''left''), (''bbox_top'', jget_none bbox ''top''),
            (''bbox_width'', jget_none bbox ''width''), (''bbox_height'', jget_none bbox ''height'')] d1)"

section \<open>validate_detection\<close>

text \<open>How the body stops early: with an exception, or by returning a rejection.\<close>

datatype stop = Raised exn | Rejected detection_rejection

definition reject :: "rejection_reason \<Rightarrow> string \<Rightarrow> stop" where
  "reject r f = Rejected \<lparr>dr_reason = r, dr_field = Some f\<rparr>"

definition raising :: "exn + 'a \<Rightarrow> stop + 'a" where
  "raising r = (case r of Inl e \<Rightarrow> Inl (Raised e) | Inr x \<Rightarrow> Inr x)"

definition int_field :: "json_obj \<Rightarrow> string \<Rightarrow> stop + int" where
  "int_field payload f =
     (case jget_none payload f of JInt n \<Rightarrow> Inr n | _ \<Rightarrow> Inl (reject MALFORMED_FIELD f))"

definition optional_int_field :: "json_obj \<Rightarrow> string \<Rightarrow> stop + int option" where
  "optional_int_field payload f =
     (case jget payload f of
        None \<Rightarrow> Inr None
      | Some _ \<Rightarrow> bind_result (int_field payload f) (\<lambda>n. Inr (Some n)))"

definition float_field :: "json_obj \<Rightarrow> string \<Rightarrow> stop + pyfloat" where
  "float_field payload f =
     bind_result
       (case jget_none payload f of
          JInt n \<Rightarrow> raising (float_of_int n)
        | JFloat x \<Rightarrow> Inr x
        | _ \<Rightarrow> Inl (reject MALFORMED_FIELD f))
       (\<lambda>x. if fl_isfinite x then Inr x else Inl (reject NON_FINITE_VALUE f))"

text \<open>
  \<open>derived_dim\<close> is \<^verbatim>\<open>max(1, math.ceil(start + extent))\<close>, used when the message names no frame
  size; \<open>clamp_axis\<close> clamps one axis of the box to the frame.
\<close>

definition derived_dim :: "int option \<Rightarrow> pyfloat \<Rightarrow> pyfloat \<Rightarrow> exn + int" where
  "derived_dim side start extent =
     (case side of
        Some n \<Rightarrow> Inr n
      | None \<Rightarrow> bind_result (fl_ceil (fl_add start extent)) (\<lambda>n. Inr (max 1 n)))"

definition clamp_start :: "int \<Rightarrow> pyfloat \<Rightarrow> exn + pyfloat" where
  "clamp_start side start = bind_result (float_of_int side) (\<lambda>d. Inr (fl_min start d))"

definition clamp_extent :: "int \<Rightarrow> pyfloat \<Rightarrow> pyfloat \<Rightarrow> exn + pyfloat" where
  "clamp_extent side start extent =
     bind_result (float_of_int side) (\<lambda>d. Inr (fl_min extent (fl_sub d start)))"

definition reject_if :: "bool \<Rightarrow> rejection_reason \<Rightarrow> string \<Rightarrow> stop + unit" where
  "reject_if c r f = raise_if c (reject r f)"

definition validate_body ::
  "json_obj \<Rightarrow> string \<Rightarrow> string \<Rightarrow> (int \<Rightarrow> string option) \<Rightarrow> pyfloat \<Rightarrow> datetime \<Rightarrow> uuid \<Rightarrow> stop + detection_event"
where
  "validate_body payload device_id camera_id class_names min_confidence now fresh =
     bind_result (raise_if (\<not> has_tz now) (Raised ValueError)) (\<lambda>_.
     bind_result (int_field payload ''class_id'') (\<lambda>class_id.
     bind_result (int_field payload ''source_id'') (\<lambda>source_id.
     bind_result (int_field payload ''frame_number'') (\<lambda>frame_number.
     bind_result (optional_int_field payload ''frame_width'') (\<lambda>fw.
     bind_result (optional_int_field payload ''frame_height'') (\<lambda>fh.
     bind_result (float_field payload ''confidence'') (\<lambda>confidence.
     bind_result (float_field payload ''bbox_left'') (\<lambda>left.
     bind_result (float_field payload ''bbox_top'') (\<lambda>top.
     bind_result (float_field payload ''bbox_width'') (\<lambda>width.
     bind_result (float_field payload ''bbox_height'') (\<lambda>height.
     bind_result (reject_if (source_id < 0) NEGATIVE_VALUE ''source_id'') (\<lambda>_.
     bind_result (reject_if (frame_number < 0) NEGATIVE_VALUE ''frame_number'') (\<lambda>_.
     bind_result (reject_if (case fw of Some w \<Rightarrow> w \<le> 0 | None \<Rightarrow> False) NEGATIVE_VALUE ''frame_width'') (\<lambda>_.
     bind_result (reject_if (case fh of Some h \<Rightarrow> h \<le> 0 | None \<Rightarrow> False) NEGATIVE_VALUE ''frame_height'') (\<lambda>_.
     bind_result (reject_if (\<not> (fl_le (Fin 0) confidence \<and> fl_le confidence (Fin 1)))
                    CONFIDENCE_OUT_OF_RANGE ''confidence'') (\<lambda>_.
     bind_result (reject_if (fl_less confidence min_confidence)
                    CONFIDENCE_BELOW_THRESHOLD ''confidence'') (\<lambda>_.
     bind_result (reject_if (fl_less left (Fin 0)) NEGATIVE_VALUE ''bbox_left'') (\<lambda>_.
     bind_result (reject_if (fl_less top (Fin 0)) NEGATIVE_VALUE ''bbox_top'') (\<lambda>_.
     bind_result (reject_if (fl_less width (Fin 0)) NEGATIVE_VALUE ''bbox_width'') (\<lambda>_.
     bind_result (reject_if (fl_less height (Fin 0)) NEGATIVE_VALUE ''bbox_height'') (\<lambda>_.
     bind_result (case class_names class_id of
                    None \<Rightarrow> Inl (reject UNKNOWN_CLASS ''class_id'') | Some n \<Rightarrow> Inr n) (\<lambda>class_name.
     raising (
       bind_result (derived_dim fw left width) (\<lambda>frame_width.
       bind_result (derived_dim fh top height) (\<lambda>frame_height.
       bind_result (clamp_start frame_width left) (\<lambda>left'.
       bind_result (clamp_start frame_height top) (\<lambda>top'.
       bind_result (clamp_extent frame_width left' width) (\<lambda>width'.
       bind_result (clamp_extent frame_height top' height) (\<lambda>height'.
       mk_detection_event
         \<lparr>de_event_id = fresh, de_device_id = device_id, de_camera_id = camera_id,
          de_source_id = source_id, de_class_id = class_id, de_class_name = class_name,
          de_confidence = confidence, de_frame_number = frame_number, de_detected_at_utc = now,
          de_frame_width = frame_width, de_frame_height = frame_height, de_bbox_left = left',
          de_bbox_top = top', de_bbox_width = width', de_bbox_height = height',
          de_created_at_utc = None\<rparr>)))))))))))))))))))))))))))))"

definition validate_detection ::
  "json_obj \<Rightarrow> string \<Rightarrow> string \<Rightarrow> (int \<Rightarrow> string option) \<Rightarrow> pyfloat \<Rightarrow> datetime \<Rightarrow> uuid
   \<Rightarrow> exn + (detection_rejection + detection_event)"
where
  "validate_detection payload device_id camera_id class_names min_confidence now fresh =
     (case validate_body payload device_id camera_id class_names min_confidence now fresh of
        Inl (Raised e) \<Rightarrow> Inl e
      | Inl (Rejected r) \<Rightarrow> Inr (Inl r)
      | Inr e \<Rightarrow> Inr (Inr e))"

section \<open>Lemmas\<close>

lemma raising_Inr [outcome_simps]: "raising r = Inr x \<longleftrightarrow> r = Inr x"
  by (cases r) (auto simp: raising_def)

lemma raising_Inl [outcome_simps]: "raising r = Inl s \<longleftrightarrow> (\<exists>e. r = Inl e \<and> s = Raised e)"
  by (cases r) (auto simp: raising_def)

lemma reject_if_Inr [outcome_simps]: "reject_if c r f = Inr u \<longleftrightarrow> \<not> c"
  by (simp add: reject_if_def outcome_simps)

lemma reject_if_Inl [outcome_simps]: "reject_if c r f = Inl s \<longleftrightarrow> c \<and> s = reject r f"
  by (simp add: reject_if_def outcome_simps)

lemma reject_not_raised [simp]: "reject r f \<noteq> Raised e" "Raised e \<noteq> reject r f"
  by (simp_all add: reject_def)

lemma int_field_Inr [outcome_simps]: "int_field p f = Inr n \<longleftrightarrow> jget p f = Some (JInt n)"
  by (auto simp: int_field_def jget_none_def split: option.splits json.splits)

lemma int_field_raised [simp]: "int_field p f \<noteq> Inl (Raised e)"
  by (auto simp: int_field_def split: json.splits)

lemma optional_int_field_Inr [outcome_simps]:
  "optional_int_field p f = Inr d \<longleftrightarrow>
     (case d of None \<Rightarrow> jget p f = None | Some n \<Rightarrow> jget p f = Some (JInt n))"
  by (auto simp: optional_int_field_def outcome_simps split: option.splits)

lemma optional_int_field_raised [simp]: "optional_int_field p f \<noteq> Inl (Raised e)"
  by (auto simp: optional_int_field_def outcome_simps split: option.splits)

text \<open>The value a numeric field has after \<^verbatim>\<open>float(...)\<close>.\<close>

definition float_value :: "json \<Rightarrow> pyfloat option" where
  "float_value v = (case v of JFloat x \<Rightarrow> Some x
                    | JInt n \<Rightarrow> (case float_of_int n of Inr x \<Rightarrow> Some x | Inl _ \<Rightarrow> None)
                    | _ \<Rightarrow> None)"

lemma float_field_Inr:
  "float_field p f = Inr x \<longleftrightarrow>
     fl_isfinite x \<and> (\<exists>v. jget p f = Some v \<and> float_value v = Some x)"
  by (auto simp: float_field_def jget_none_def outcome_simps float_value_def
      split: option.splits json.splits sum.splits)

lemma float_field_raised:
  "float_field p f = Inl (Raised e) \<longleftrightarrow> (\<exists>n. jget p f = Some (JInt n) \<and> float_of_int n = Inl e)"
  by (auto simp: float_field_def jget_none_def outcome_simps split: option.splits json.splits if_splits)

lemma float_field_finite: "float_field p f = Inr x \<Longrightarrow> fl_isfinite x"
  by (simp add: float_field_Inr)

subsection \<open>One axis of the box\<close>

text \<open>
  \<open>axis_fine side a b\<close> says when the float arithmetic of one axis cannot go wrong: a given frame
  size is at most \<open>2 ^ 52\<close>, or it is absent and the far edge of the box is a finite float.
\<close>

definition axis_fine :: "int option \<Rightarrow> pyfloat \<Rightarrow> pyfloat \<Rightarrow> bool" where
  "axis_fine side start extent =
     (case side of Some n \<Rightarrow> 0 < n \<and> n \<le> 2 ^ 52 | None \<Rightarrow> fl_isfinite (fl_add start extent))"

lemma axis_given:
  assumes n: "0 < n" "n \<le> 2 ^ 52" and a: "0 \<le> a" "is_double a" and b: "0 \<le> b"
  shows "clamp_start n (Fin a) = Inr (Fin (min a (of_int n)))"
    and "clamp_extent n (Fin (min a (of_int n))) (Fin b)
         = Inr (Fin (min b (rnd (of_int n - min a (of_int n)))))"
    and "0 \<le> min b (rnd (of_int n - min a (of_int n)))"
    and "\<not> fl_less (fl_exact n) (fl_add (Fin (min a (of_int n)))
            (Fin (min b (rnd (of_int n - min a (of_int n))))))"
proof -
  let ?l = "min a (of_int n)"
  have fl: "float_of_int n = Inr (Fin (of_int n))" by (rule float_of_int_small) (use n in simp)
  then show "clamp_start n (Fin a) = Inr (Fin ?l)" by (simp add: clamp_start_def)
  have l: "0 \<le> ?l" "?l \<le> of_int n" using a n by simp_all
  have r: "0 \<le> rnd (of_int n - ?l)" using l by (intro rnd_ge0) simp
  have range: "\<bar>rnd x\<bar> \<le> max_double" if "0 \<le> x" "x \<le> of_int n" for x
  proof -
    have "rnd x \<le> rnd (of_int n)" using that by (intro rnd_mono)
    also have "\<dots> = of_int n" using n by (intro rnd_int) simp
    finally show ?thesis using rnd_ge0 [OF that(1)] int_in_range [of n] n by simp
  qed
  have "fl_round (of_int n - ?l) = Fin (rnd (of_int n - ?l))"
    using range [of "of_int n - ?l"] l by (simp add: fl_round_Fin_iff)
  then have "fl_sub (Fin (of_int n)) (Fin ?l) = Fin (rnd (of_int n - ?l))"
    by (simp add: fl_sub_def)
  with fl show "clamp_extent n (Fin ?l) (Fin b) = Inr (Fin (min b (rnd (of_int n - ?l))))"
    by (simp add: clamp_extent_def)
  show "0 \<le> min b (rnd (of_int n - ?l))" using b r by simp
  have "rnd (?l + min b (rnd (of_int n - ?l))) \<le> rnd (?l + rnd (of_int n - ?l))"
    by (rule rnd_mono) simp
  also have "\<dots> \<le> of_int n" by (rule rnd_clamp) (use l n in simp_all)
  finally have up: "rnd (?l + min b (rnd (of_int n - ?l))) \<le> of_int n" .
  have lo: "0 \<le> rnd (?l + min b (rnd (of_int n - ?l)))" using l b r by (intro rnd_ge0) simp
  have "fl_round (?l + min b (rnd (of_int n - ?l))) = Fin (rnd (?l + min b (rnd (of_int n - ?l))))"
    using up lo int_in_range [of n] n by (simp add: fl_round_Fin_iff)
  with up show "\<not> fl_less (fl_exact n) (fl_add (Fin ?l) (Fin (min b (rnd (of_int n - ?l)))))"
    by (simp add: fl_exact_def)
qed

lemma axis_derived:
  assumes a: "0 \<le> a" "is_double a" "a \<le> max_double" and b: "0 \<le> b"
    and fin: "fl_isfinite (fl_add (Fin a) (Fin b))"
  obtains n where "derived_dim None (Fin a) (Fin b) = Inr n" "0 < n"
    "clamp_start n (Fin a) = Inr (Fin a)"
    "\<exists>b'. clamp_extent n (Fin a) (Fin b) = Inr (Fin b') \<and> 0 \<le> b' \<and> b' \<le> b \<and>
          \<not> fl_less (fl_exact n) (fl_add (Fin a) (Fin b'))"
proof -
  let ?s = "rnd (a + b)"
  from fin obtain t where "fl_round (a + b) = Fin t" by (auto simp: fl_isfinite_iff)
  then have sum: "fl_add (Fin a) (Fin b) = Fin ?s" and top: "\<bar>?s\<bar> \<le> max_double"
    by (auto simp: fl_round_Fin_iff)
  have s0: "0 \<le> ?s" using a b by (intro rnd_ge0) simp
  have as: "a \<le> ?s" using rnd_mono [of a "a + b"] a b by (simp add: is_double_def)
  define n where "n = max 1 \<lceil>?s\<rceil>"
  have sn: "?s \<le> of_int n" unfolding n_def by (simp add: le_max_iff_disj of_int_max)
  have fl: "float_of_int n = Inr (Fin (of_int n))"
    unfolding n_def by (rule float_of_ceiling) (use s0 top in simp_all)
  have "is_double (of_int n)" and nmax: "of_int n \<le> max_double"
    using float_of_int_ok [OF fl] by (auto simp: abs_le_iff)
  then have rn: "rnd (of_int n) = of_int n" by (simp add: is_double_def)
  have an: "a \<le> of_int n" using as sn by linarith
  have round: "fl_round x = Fin (rnd x)" if "0 \<le> x" "x \<le> of_int n" for x
    using rnd_mono [OF that(2)] rnd_ge0 [OF that(1)] rn nmax by (simp add: fl_round_Fin_iff)
  let ?b = "min b (rnd (of_int n - a))"
  have b0: "0 \<le> ?b" using b an rnd_ge0 [of "of_int n - a"] by simp
  have ext: "clamp_extent n (Fin a) (Fin b) = Inr (Fin ?b)"
    using fl round [of "of_int n - a"] a an by (simp add: clamp_extent_def fl_sub_def)
  have le: "rnd (a + ?b) \<le> of_int n" using rnd_mono [of "a + ?b" "a + b"] sn by simp
  have "fl_add (Fin a) (Fin ?b) = Fin (rnd (a + ?b))"
    using le nmax rnd_ge0 [of "a + ?b"] a b0 by (simp add: fl_round_Fin_iff)
  with le have "\<not> fl_less (fl_exact n) (fl_add (Fin a) (Fin ?b))" by (simp add: fl_exact_def)
  moreover have "derived_dim None (Fin a) (Fin b) = Inr n" using sum by (simp add: derived_dim_def n_def)
  moreover have "clamp_start n (Fin a) = Inr (Fin a)" using fl an by (simp add: clamp_start_def min_absorb1)
  moreover have "0 < n" by (simp add: n_def)
  ultimately show ?thesis using that ext b0 by (metis min.cobounded1)
qed

text \<open>Both cases in one: a fine axis yields a frame size and a clamped start and extent inside it.\<close>

lemma axis_total:
  assumes a: "fl_isfinite start" "fl_ok start" "\<not> fl_less start (Fin 0)"
    and b: "fl_isfinite extent" "\<not> fl_less extent (Fin 0)"
    and fine: "axis_fine side start extent"
  obtains n s x where "derived_dim side start extent = Inr n" "0 < n" "clamp_start n start = Inr s"
    "clamp_extent n s extent = Inr x" "\<not> fl_less s (Fin 0)" "\<not> fl_less x (Fin 0)"
    "\<not> fl_less (fl_exact n) (fl_add s x)"
proof -
  obtain u v where u: "start = Fin u" "0 \<le> u" "is_double u" "u \<le> max_double"
    and v: "extent = Fin v" "0 \<le> v"
    using a b by (auto simp: fl_isfinite_iff abs_le_iff)
  show ?thesis
  proof (cases side)
    case None
    with fine u v have "fl_isfinite (fl_add (Fin u) (Fin v))" by (simp add: axis_fine_def)
    then obtain n b' where "derived_dim None (Fin u) (Fin v) = Inr n" "0 < n"
      "clamp_start n (Fin u) = Inr (Fin u)" "clamp_extent n (Fin u) (Fin v) = Inr (Fin b')"
      "0 \<le> b'" "\<not> fl_less (fl_exact n) (fl_add (Fin u) (Fin b'))"
      using axis_derived [OF u(2-4) v(2)] by blast
    then show ?thesis using that [of n "Fin u" "Fin b'"] u v None by simp
  next
    case (Some n)
    with fine have n: "0 < n" "n \<le> 2 ^ 52" by (simp_all add: axis_fine_def)
    note ax = axis_given [OF n u(2,3) v(2)]
    show ?thesis
      by (rule that [of n "Fin (min u (of_int n))" "Fin (min v (rnd (of_int n - min u (of_int n))))"])
         (use ax n u v Some in \<open>simp_all add: derived_dim_def\<close>)
  qed
qed

subsection \<open>What a payload may hold\<close>

text \<open>
  \<open>wire_floats p\<close>: every float of the decoded document is one (a representation invariant of the
  model's floats).  \<open>convertible p\<close>: the integers in the float fields convert.  \<open>edges_fine p\<close>:
  the frame sizes are at most \<open>2 ^ 52\<close>, and where one is absent the box has a finite far edge.
\<close>

definition float_fields :: "string list" where
  "float_fields = [''confidence'', ''bbox_left'', ''bbox_top'', ''bbox_width'', ''bbox_height'']"

definition wire_floats :: "json_obj \<Rightarrow> bool" where
  "wire_floats p \<longleftrightarrow> list_all (\<lambda>kv. case snd kv of JFloat x \<Rightarrow> fl_ok x | _ \<Rightarrow> True) p"

definition convertible :: "json_obj \<Rightarrow> bool" where
  "convertible p \<longleftrightarrow>
     list_all (\<lambda>f. case jget p f of Some (JInt n) \<Rightarrow> is_ok (float_of_int n) | _ \<Rightarrow> True) float_fields"

definition edge_fine :: "json_obj \<Rightarrow> string \<Rightarrow> string \<Rightarrow> string \<Rightarrow> bool" where
  "edge_fine p side start extent =
     (case jget p side of
        Some (JInt n) \<Rightarrow> n \<le> 2 ^ 52
      | Some _ \<Rightarrow> True
      | None \<Rightarrow> (case (Option.bind (jget p start) float_value, Option.bind (jget p extent) float_value) of
                  (Some a, Some b) \<Rightarrow> fl_isfinite (fl_add a b)
                | _ \<Rightarrow> True))"

definition edges_fine :: "json_obj \<Rightarrow> bool" where
  "edges_fine p \<longleftrightarrow> edge_fine p ''frame_width'' ''bbox_left'' ''bbox_width''
     \<and> edge_fine p ''frame_height'' ''bbox_top'' ''bbox_height''"

lemma wire_floats_field:
  assumes "wire_floats p" and "float_field p f = Inr x"
  shows "fl_ok x"
proof -
  obtain v where v: "jget p f = Some v" "float_value v = Some x"
    using assms(2) by (auto simp: float_field_Inr)
  then have "(f, v) \<in> set p" by (simp add: map_of_SomeD)
  with assms(1) v(2) show ?thesis
    by (cases v) (auto simp: wire_floats_def list_all_iff float_value_def
        dest: float_of_int_ok split: sum.splits)
qed

lemma convertible_field:
  assumes "convertible p" and "f \<in> set float_fields"
  shows "float_field p f \<noteq> Inl (Raised e)"
  using assms by (auto simp: convertible_def list_all_iff float_field_raised is_ok_def
      split: option.splits json.splits sum.splits)

lemma edge_fine_axis:
  assumes "edge_fine p side start extent" and "optional_int_field p side = Inr d"
    and "\<not> (case d of Some w \<Rightarrow> w \<le> 0 | None \<Rightarrow> False)"
    and "float_field p start = Inr a" and "float_field p extent = Inr b"
  shows "axis_fine d a b"
  using assms
  by (auto simp: edge_fine_def axis_fine_def outcome_simps float_field_Inr split: option.splits)

subsection \<open>Computations that do not raise\<close>

definition no_raise :: "stop + 'a \<Rightarrow> bool" where
  "no_raise r \<longleftrightarrow> (\<forall>e. r \<noteq> Inl (Raised e))"

lemma no_raise_bind:
  "no_raise r \<Longrightarrow> (\<And>x. r = Inr x \<Longrightarrow> no_raise (f x)) \<Longrightarrow> no_raise (bind_result r f)"
  by (auto simp: no_raise_def outcome_simps)

lemma no_raise_fields:
  "no_raise (int_field p f)" "no_raise (optional_int_field p f)" "no_raise (reject_if c r f)"
  "no_raise (case names k of None \<Rightarrow> Inl (reject r f) | Some n \<Rightarrow> Inr n)"
  by (auto simp: no_raise_def outcome_simps split: option.splits)

lemma no_raise_float: "convertible p \<Longrightarrow> f \<in> set float_fields \<Longrightarrow> no_raise (float_field p f)"
  using convertible_field by (auto simp: no_raise_def)

lemma no_raise_raising: "is_ok r \<Longrightarrow> no_raise (raising r)"
  by (auto simp: no_raise_def outcome_simps is_ok_iff)

lemma validate_body_no_raise:
  assumes "has_tz now" and "wire_floats p" and "convertible p" and "edges_fine p"
  shows "no_raise (validate_body p dev cam names minc now fresh)"
  unfolding validate_body_def
proof (intro no_raise_bind no_raise_fields no_raise_float [OF assms(3)] no_raise_raising, goal_cases)
  case 1
  then show ?case using assms(1) by (simp add: no_raise_def outcome_simps)
next
  case (7 _ class_id source_id frame_number fw fh confidence left top width height _ _ _ _ _ _ _ _ _ _ class_name)
  have wf: "axis_fine fw left width"
    by (rule edge_fine_axis [of p "''frame_width''" "''bbox_left''" "''bbox_width''"])
       (use 7 assms(4) in \<open>simp_all add: edges_fine_def outcome_simps\<close>)
  have hf: "axis_fine fh top height"
    by (rule edge_fine_axis [of p "''frame_height''" "''bbox_top''" "''bbox_height''"])
       (use 7 assms(4) in \<open>simp_all add: edges_fine_def outcome_simps\<close>)
  note fin = 7(8,9,10,11)[THEN float_field_finite]
  note ok = 7(8,9)[THEN wire_floats_field [OF assms(2)]]
  note pos = 7(18,19,20,21)[unfolded reject_if_Inr]
  obtain n s x where n: "derived_dim fw left width = Inr n" "0 < n" "clamp_start n left = Inr s"
    "clamp_extent n s width = Inr x" "\<not> fl_less s (Fin 0)" "\<not> fl_less x (Fin 0)"
    "\<not> fl_less (fl_exact n) (fl_add s x)"
    using axis_total [OF fin(1) ok(1) pos(1) fin(3) pos(3) wf] .
  obtain m t y where m: "derived_dim fh top height = Inr m" "0 < m" "clamp_start m top = Inr t"
    "clamp_extent m t height = Inr y" "\<not> fl_less t (Fin 0)" "\<not> fl_less y (Fin 0)"
    "\<not> fl_less (fl_exact m) (fl_add t y)"
    using axis_total [OF fin(2) ok(2) pos(2) fin(4) pos(4) hf] .
  show ?case
    using n m 7(12,13,16) assms(1)
    by (simp add: mk_detection_event_cases detection_event_ok_def reject_if_Inr not_less)
qed (simp_all add: float_fields_def)

subsection \<open>Inversion of a validated detection\<close>

lemma validate_detection_event:
  "validate_detection p dev cam names minc now fresh = Inr (Inr e) \<longleftrightarrow>
   validate_body p dev cam names minc now fresh = Inr e"
  by (auto simp: validate_detection_def split: sum.splits stop.splits)

lemma validate_detection_raises:
  "validate_detection p dev cam names minc now fresh = Inl x \<longleftrightarrow>
   validate_body p dev cam names minc now fresh = Inl (Raised x)"
  by (auto simp: validate_detection_def split: sum.splits stop.splits)

lemma validate_body_source:
  assumes "validate_body p dev cam names minc now fresh = Inr e"
  shows "detection_event_ok e" and "de_event_id e = fresh" and "de_device_id e = dev"
    and "de_camera_id e = cam" and "de_detected_at_utc e = now" and "de_created_at_utc e = None"
    and "names (de_class_id e) = Some (de_class_name e)"
    and "jget p ''class_id'' = Some (JInt (de_class_id e))"
    and "jget p ''source_id'' = Some (JInt (de_source_id e))"
    and "jget p ''frame_number'' = Some (JInt (de_frame_number e))"
    and "float_field p ''confidence'' = Inr (de_confidence e)"
    and "\<not> fl_less (de_confidence e) minc"
  using assms by (auto simp: validate_body_def outcome_simps split: option.splits)

text \<open>The payload is read only through ten keys.\<close>

definition wire_keys :: "string list" where
  "wire_keys = [''class_id'', ''source_id'', ''frame_number'', ''frame_width'', ''frame_height'',
                ''confidence'', ''bbox_left'', ''bbox_top'', ''bbox_width'', ''bbox_height'']"

lemma validate_keys_cong:
  assumes "\<And>k. k \<in> set wire_keys \<Longrightarrow> jget p k = jget q k"
  shows "validate_detection p dev cam names minc now fresh
       = validate_detection q dev cam names minc now fresh"
proof -
  have i: "int_field p k = int_field q k" "optional_int_field p k = optional_int_field q k"
    "float_field p k = float_field q k" if "k \<in> set wire_keys" for k
    using assms [OF that]
    by (simp_all add: int_field_def optional_int_field_def float_field_def jget_none_def
        split: option.splits)
  show ?thesis
    unfolding validate_detection_def validate_body_def
    by (simp add: i wire_keys_def)
qed

lemma jget_copy_key:
  "jget (copy_key p ks d) k = (if k = snd ks \<and> jget p (fst ks) \<noteq> None then jget p (fst ks) else jget d k)"
  by (auto simp: copy_key_def split: option.splits)

lemma jget_put_unless_none:
  "jget (put_unless_none kv d) k = (if k = fst kv \<and> snd kv \<noteq> JNull then Some (snd kv) else jget d k)"
  by (auto simp: put_unless_none_def)

section \<open>Properties\<close>

text \<open>
  \<^verbatim>\<open>validate_detection\<close> never raises on the payloads the Bridge can send: whatever fields are
  missing, of the wrong type, negative, infinite or NaN, the result is an event or a rejection, as
  long as the integers given for float fields convert to a float, the frame sizes are at most
  \<open>2 ^ 52\<close> and, where a frame size is left out, the far edge of the box is a finite float.  The
  clamped box then always passes the re-check of the constructor, in spite of rounding.
\<close>

theorem validate_never_raises:
  assumes "has_tz now" and "wire_floats p" and "convertible p" and "edges_fine p"
  shows "\<exists>r. validate_detection p dev cam names minc now fresh = Inr r"
  using validate_body_no_raise [OF assms, of dev cam names minc fresh]
  by (auto simp: validate_detection_def no_raise_def split: sum.splits stop.splits)

definition demo_payload :: json_obj where
  "demo_payload =
     [(''class_id'', JInt 0), (''source_id'', JInt 1), (''frame_number'', JInt 42),
      (''frame_width'', JInt 1920), (''frame_height'', JInt 1080), (''confidence'', JInt 1),
      (''bbox_left'', JInt 1900), (''bbox_top'', JInt 10), (''bbox_width'', JInt 100),
      (''bbox_height'', JInt 20)]"

lemma float_of_int_demo:
  "float_of_int 1920 = Inr (Fin 1920)" "float_of_int 1080 = Inr (Fin 1080)"
  "float_of_int 1900 = Inr (Fin 1900)" "float_of_int 100 = Inr (Fin 100)"
  "float_of_int 20 = Inr (Fin 20)" "float_of_int 10 = Inr (Fin 10)" "float_of_int 1 = Inr (Fin 1)"
  using float_of_int_small [of 1920] float_of_int_small [of 1080] float_of_int_small [of 1900]
    float_of_int_small [of 100] float_of_int_small [of 20] float_of_int_small [of 10]
    float_of_int_small [of 1] by simp_all

theorem validate_never_raises_witness:
  "\<exists>r. validate_detection demo_payload ''dev'' ''cam'' (\<lambda>_. Some ''gun'') (Fin 0) (Aware 7) 5 = Inr r"
  by (rule validate_never_raises)
     (simp_all add: demo_payload_def wire_floats_def convertible_def edges_fine_def edge_fine_def
        float_fields_def float_of_int_demo)

definition overflow_payload :: "nat \<Rightarrow> json_obj" where
  "overflow_payload n =
     [(''class_id'', JInt 0), (''source_id'', JInt 1), (''frame_number'', JInt 42),
      (''confidence'', JInt (2 ^ n))]"

text \<open>
  Outside those bounds the documented "never raises for malformed payload content" fails: an
  integer too large for a float in a float field makes \<^verbatim>\<open>float(value)\<close> raise \<^verbatim>\<open>OverflowError\<close>,
  which \<^verbatim>\<open>validate_detection\<close> lets escape, for every label map and threshold.
\<close>

theorem validate_overflow_escapes:
  "validate_detection (overflow_payload (1024 + k)) dev cam names minc (Aware t) fresh = Inl OverflowError"
proof -
  have "float_of_int (2 ^ (1024 + k)) = Inl OverflowError" by (simp only: float_of_int_pow2) simp
  then have "float_field (overflow_payload (1024 + k)) ''confidence'' = Inl (Raised OverflowError)"
    by (simp add: float_field_raised overflow_payload_def del: power_add)
  moreover have "int_field (overflow_payload (1024 + k)) ''class_id'' = Inr 0"
    "int_field (overflow_payload (1024 + k)) ''source_id'' = Inr 1"
    "int_field (overflow_payload (1024 + k)) ''frame_number'' = Inr 42"
    "optional_int_field (overflow_payload (1024 + k)) ''frame_width'' = Inr None"
    "optional_int_field (overflow_payload (1024 + k)) ''frame_height'' = Inr None"
    by (simp_all add: overflow_payload_def outcome_simps)
  ultimately show ?thesis
    by (simp add: validate_detection_raises validate_body_def)
qed

text \<open>
  C39.  A validated detection is trustworthy: it satisfies every invariant of \<^verbatim>\<open>DetectionEvent\<close> (a
  probability in [0, 1], non-negative ids, the box inside the frame), its confidence reaches the
  threshold, its class name is the label of its class id, and its event id, device id, camera id
  and detection time are the ones the Agent supplied, whatever the payload claims.
\<close>

theorem validated_event_trustworthy:
  assumes "validate_detection p dev cam names minc now fresh = Inr (Inr e)"
  shows "detection_event_ok e \<and> \<not> fl_less (de_confidence e) minc
    \<and> names (de_class_id e) = Some (de_class_name e)
    \<and> jget p ''class_id'' = Some (JInt (de_class_id e))
    \<and> (de_event_id e, de_device_id e, de_camera_id e, de_detected_at_utc e) = (fresh, dev, cam, now)"
  using assms[unfolded validate_detection_event] validate_body_source by simp

lemma demo_validates_as:
  "validate_detection demo_payload ''dev'' ''cam'' (\<lambda>_. Some cls) (Fin 0) (Aware 7) 5
   = Inr (Inr \<lparr>de_event_id = 5, de_device_id = ''dev'', de_camera_id = ''cam'', de_source_id = 1,
       de_class_id = 0, de_class_name = cls, de_confidence = Fin 1, de_frame_number = 42,
       de_detected_at_utc = Aware 7, de_frame_width = 1920, de_frame_height = 1080,
       de_bbox_left = Fin 1900, de_bbox_top = Fin 10, de_bbox_width = Fin 20, de_bbox_height = Fin 20,
       de_created_at_utc = None\<rparr>)"
proof -
  have f: "float_field demo_payload ''confidence'' = Inr (Fin 1)"
    "float_field demo_payload ''bbox_left'' = Inr (Fin 1900)"
    "float_field demo_payload ''bbox_top'' = Inr (Fin 10)"
    "float_field demo_payload ''bbox_width'' = Inr (Fin 100)"
    "float_field demo_payload ''bbox_height'' = Inr (Fin 20)"
    by (simp_all add: demo_payload_def float_field_Inr float_value_def float_of_int_demo)
  have i: "int_field demo_payload ''class_id'' = Inr 0" "int_field demo_payload ''source_id'' = Inr 1"
    "int_field demo_payload ''frame_number'' = Inr 42"
    "optional_int_field demo_payload ''frame_width'' = Inr (Some 1920)"
    "optional_int_field demo_payload ''frame_height'' = Inr (Some 1080)"
    by (simp_all add: demo_payload_def outcome_simps)
  have r: "fl_round 20 = Fin 20" "fl_round 1070 = Fin 1070" "fl_round 1920 = Fin 1920" "fl_round 30 = Fin 30"
    using fl_round_int [of 20 20] fl_round_int [of 1070 1070] fl_round_int [of 1920 1920]
      fl_round_int [of 30 30] by simp_all
  show ?thesis
    by (simp add: validate_detection_event validate_body_def f i reject_if_def derived_dim_def
        clamp_start_def clamp_extent_def float_of_int_demo fl_sub_def r raising_def
        mk_detection_event_cases detection_event_ok_def fl_exact_def)
qed

theorem validated_event_trustworthy_witness:
  "detection_event_ok \<lparr>de_event_id = 5, de_device_id = ''dev'', de_camera_id = ''cam'', de_source_id = 1,
       de_class_id = 0, de_class_name = ''gun'', de_confidence = Fin 1, de_frame_number = 42,
       de_detected_at_utc = Aware 7, de_frame_width = 1920, de_frame_height = 1080,
       de_bbox_left = Fin 1900, de_bbox_top = Fin 10, de_bbox_width = Fin 20, de_bbox_height = Fin 20,
       de_created_at_utc = None\<rparr>"
  using validated_event_trustworthy [OF demo_validates_as] by blast

text \<open>
  A version-2 message means what the flat version-1 message with the same values means: with
  its camelCase ids and nested \<^verbatim>\<open>boundingBox\<close> normalised, it validates to exactly the same outcome,
  for every value of the fields (well-typed or not).
\<close>

theorem v2_message_equals_v1:
  assumes "jget p ''boundingBox'' = Some (JObj [(''left'', l), (''top'', t), (''width'', w), (''height'', h)])"
    and "jget p ''classId'' = Some c" and "jget p ''sourceId'' = Some s"
    and "jget p ''frameNumber'' = Some f" and "jget p ''confidence'' = Some x"
    and "jget p ''frame_width'' = None" and "jget p ''frame_height'' = None"
    and "JNull \<notin> {l, t, w, h}"
  shows "validate_detection (normalize_v2_payload p) dev cam names minc now fresh
    = validate_detection
        [(''class_id'', c), (''source_id'', s), (''frame_number'', f), (''confidence'', x),
         (''bbox_left'', l), (''bbox_top'', t), (''bbox_width'', w), (''bbox_height'', h)]
        dev cam names minc now fresh"
  by (rule validate_keys_cong)
     (use assms in \<open>auto simp: wire_keys_def normalize_v2_payload_def jget_none_def jget_copy_key
        jget_put_unless_none\<close>)

definition demo_v2 :: json_obj where
  "demo_v2 =
     [(''schemaVersion'', JInt 2), (''messageId'', JStr ''m''), (''classId'', JInt 0),
      (''sourceId'', JInt 1), (''frameNumber'', JInt 42), (''confidence'', JInt 1),
      (''boundingBox'', JObj [(''left'', JInt 1), (''top'', JInt 2), (''width'', JInt 3), (''height'', JInt 4)])]"

theorem v2_message_equals_v1_witness:
  "validate_detection (normalize_v2_payload demo_v2) ''dev'' ''cam'' (\<lambda>_. Some ''gun'') (Fin 0) (Aware 7) 5
    = validate_detection
        [(''class_id'', JInt 0), (''source_id'', JInt 1), (''frame_number'', JInt 42),
         (''confidence'', JInt 1), (''bbox_left'', JInt 1), (''bbox_top'', JInt 2),
         (''bbox_width'', JInt 3), (''bbox_height'', JInt 4)]
        ''dev'' ''cam'' (\<lambda>_. Some ''gun'') (Fin 0) (Aware 7) 5"
  by (rule v2_message_equals_v1) (simp_all add: demo_v2_def)

end
