(* ===== verification/EventStore.thy ===== *)
theory EventStore
  imports Database DetectionModel "HOL-Library.Product_Lexorder" "HOL-Library.Sublist"
begin

text \<open>
  \<^verbatim>\<open>persistence/detection_event_repository.py\<close>: the DetectionEvent table and the outbox
  operations on it.  A row keeps its EventId as the text \<^verbatim>\<open>str(event_id)\<close>, as the database does.
\<close>

datatype delivery_status = DS_PENDING | DS_DELIVERED | DS_SUPPRESSED_BY_QUOTA

record event_row =
  er_event_id :: string
  er_event :: detection_event
  er_detected_at_utc :: iso_text
  er_delivery_status :: delivery_status
  er_delivered_at_utc :: "iso_text option"
  er_finalized_at_utc :: "iso_text option"
  er_created_at_utc :: iso_text

text \<open>
  \<open>er_event\<close> carries the columns that are stored as they are (device, camera, class, numbers and
  the box); its event id and timestamps are not read back from it but from the text columns.
\<close>

type_synonym event_table = "event_row list"

text \<open>
  Binding a parameter: an int outside 64 bits raises \<^verbatim>\<open>OverflowError\<close>; a NaN is stored as NULL,
  which the \<^verbatim>\<open>NOT NULL\<close> columns refuse.
\<close>

definition sqlite_int :: "int \<Rightarrow> bool" where
  "sqlite_int n \<longleftrightarrow> - (2 ^ 63) \<le> n \<and> n < 2 ^ 63"

definition bind_columns :: "detection_event \<Rightarrow> exn + unit" where
  "bind_columns e =
     bind_result
       (raise_if (\<not> list_all sqlite_int [de_source_id e, de_class_id e, de_frame_number e,
                                         de_frame_width e, de_frame_height e]) OverflowError) (\<lambda>_.
     raise_if (\<exists>x \<in> set [de_confidence e, de_bbox_left e, de_bbox_top e, de_bbox_width e, de_bbox_height e].
                 x = NaN)
       (SqliteIntegrityError ''NOT NULL constraint failed''))"

text \<open>
  The \<^verbatim>\<open>IntegrityError\<close> of the primary key, which a concurrent writer can still cause after the
  pre-check, is the one error of the statement that is translated.
\<close>

definition translate_duplicate :: "string \<Rightarrow> exn \<Rightarrow> exn \<Rightarrow> exn" where
  "translate_duplicate violation dup e =
     (case e of SqliteIntegrityError m \<Rightarrow> if sublist violation m then dup else e | _ \<Rightarrow> e)"

definition EVENT_ID_UNIQUENESS_VIOLATION :: string where
  "EVENT_ID_UNIQUENESS_VIOLATION = ''DetectionEvent.EventId''"

definition new_event_row :: "iso_text \<Rightarrow> iso_text \<Rightarrow> detection_event \<Rightarrow> event_row" where
  "new_event_row det created e =
     \<lparr>er_event_id = str_uuid (de_event_id e), er_event = e, er_detected_at_utc = det,
      er_delivery_status = DS_PENDING, er_delivered_at_utc = None, er_finalized_at_utc = None,
      er_created_at_utc = created\<rparr>"

definition insert_event ::
  "fault \<Rightarrow> datetime \<Rightarrow> detection_event \<Rightarrow> event_table \<Rightarrow> (exn + unit) \<times> event_table" where
  "insert_event fault clock e t =
     (if \<not> has_tz clock then (Inl ValueError, t)
      else transaction
        (map_option (translate_duplicate EVENT_ID_UNIQUENESS_VIOLATION
                       (RepositoryExn DetectionEventAlreadyExistsError)) fault)
        (\<lambda>t. if find_row (\<lambda>r. er_event_id r = str_uuid (de_event_id e)) t \<noteq> None
             then Inl (RepositoryExn DetectionEventAlreadyExistsError)
             else bind_result (to_iso_utc (de_detected_at_utc e)) (\<lambda>det.
                  bind_result (to_iso_utc clock) (\<lambda>created.
                  bind_result (bind_columns e) (\<lambda>_.
                  Inr ((), t @ [new_event_row det created e])))))
        t)"

text \<open>\<open>with_created\<close> says whether the query selected CreatedAtUtc.\<close>

definition row_to_event :: "bool \<Rightarrow> event_row \<Rightarrow> exn + detection_event" where
  "row_to_event with_created row =
     (case parse_uuid (er_event_id row) of
        Inl _ \<Rightarrow> Inl (RepositoryExn InvalidDetectionEventStateError)
      | Inr event_id \<Rightarrow>
        (case parse_iso_utc (er_detected_at_utc row) of
           Inl _ \<Rightarrow> Inl (RepositoryExn InvalidDetectionEventStateError)
         | Inr det \<Rightarrow>
           (case (if with_created then bind_result (parse_iso_utc (er_created_at_utc row)) (\<lambda>c. Inr (Some c))
                  else Inr None) of
              Inl _ \<Rightarrow> Inl (RepositoryExn InvalidDetectionEventStateError)
            | Inr created \<Rightarrow>
              (case mk_detection_event ((er_event row)\<lparr>de_event_id := event_id,
                        de_detected_at_utc := det, de_created_at_utc := created\<rparr>) of
                 Inl _ \<Rightarrow> Inl (RepositoryExn InvalidDetectionEventStateError)
               | Inr e \<Rightarrow> Inr e))))"

text \<open>\<^verbatim>\<open>ORDER BY CreatedAtUtc DESC LIMIT ?\<close>; rows of equal time in the order of the table.\<close>

definition list_recent :: "fault \<Rightarrow> int \<Rightarrow> event_table \<Rightarrow> exn + detection_event list" where
  "list_recent fault limit t =
     (if limit \<le> 0 then Inl ValueError
      else read_only fault
        (\<lambda>t. map_result (row_to_event False)
               (take (nat limit) (rev (sort_key er_created_at_utc (rev t))))) t)"

definition is_pending :: "event_row \<Rightarrow> bool" where
  "is_pending r \<longleftrightarrow> er_delivery_status r = DS_PENDING"

definition pending_order :: "event_row \<Rightarrow> iso_text \<times> string" where
  "pending_order r = (er_detected_at_utc r, er_event_id r)"

definition select_pending :: "nat \<Rightarrow> event_table \<Rightarrow> event_row list" where
  "select_pending limit t = take limit (sort_key pending_order (filter is_pending t))"

definition list_pending :: "fault \<Rightarrow> int \<Rightarrow> event_table \<Rightarrow> exn + detection_event list" where
  "list_pending fault limit t =
     (if limit \<le> 0 then Inl ValueError
      else read_only fault (\<lambda>t. map_result (row_to_event True) (select_pending (nat limit) t)) t)"

text \<open>\<^verbatim>\<open>WHERE EventId IN (...) AND DeliveryStatus = 'pending'\<close>\<close>

definition pending_in :: "uuid list \<Rightarrow> event_row \<Rightarrow> bool" where
  "pending_in ids r \<longleftrightarrow> er_event_id r \<in> str_uuid ` set ids \<and> is_pending r"

definition mark_delivered_many ::
  "fault \<Rightarrow> uuid list \<Rightarrow> datetime \<Rightarrow> event_table \<Rightarrow> (exn + nat) \<times> event_table" where
  "mark_delivered_many fault ids when t =
     (case to_iso_utc when of
        Inl e \<Rightarrow> (Inl e, t)
      | Inr w \<Rightarrow>
          if ids = [] then (Inr 0, t)
          else transaction fault
            (\<lambda>t. Inr (count_rows (pending_in ids) t,
                      update_rows (pending_in ids)
                        (\<lambda>r. r\<lparr>er_delivery_status := DS_DELIVERED, er_delivered_at_utc := Some w\<rparr>) t))
            t)"

definition mark_suppressed_by_quota_many ::
  "fault \<Rightarrow> uuid list \<Rightarrow> datetime \<Rightarrow> event_table \<Rightarrow> (exn + nat) \<times> event_table" where
  "mark_suppressed_by_quota_many fault ids when t =
     (case to_iso_utc when of
        Inl e \<Rightarrow> (Inl e, t)
      | Inr w \<Rightarrow>
          if ids = [] then (Inr 0, t)
          else transaction fault
            (\<lambda>t. Inr (count_rows (pending_in ids) t,
                      update_rows (pending_in ids)
                        (\<lambda>r. r\<lparr>er_delivery_status := DS_SUPPRESSED_BY_QUOTA,
                                er_finalized_at_utc := Some w\<rparr>) t))
            t)"

section \<open>Well-formed tables\<close>

text \<open>
  The primary key, the shape every insert gives a row, and the link between the status and the
  two timestamps.
\<close>

definition event_row_wf :: "event_row \<Rightarrow> bool" where
  "event_row_wf r \<longleftrightarrow>
     er_event_id r = str_uuid (de_event_id (er_event r))
     \<and> detection_event_ok (er_event r)
     \<and> to_iso_utc (de_detected_at_utc (er_event r)) = Inr (er_detected_at_utc r)
     \<and> (\<exists>n. er_created_at_utc r = IsoUtc n)
     \<and> (er_delivered_at_utc r \<noteq> None \<longleftrightarrow> er_delivery_status r = DS_DELIVERED)
     \<and> (er_finalized_at_utc r \<noteq> None \<longleftrightarrow> er_delivery_status r = DS_SUPPRESSED_BY_QUOTA)"

definition event_table_wf :: "event_table \<Rightarrow> bool" where
  "event_table_wf t \<longleftrightarrow> distinct (map er_event_id t) \<and> list_all event_row_wf t"

lemma new_event_row_id [simp]: "er_event_id (new_event_row d c e) = str_uuid (de_event_id e)"
  by (simp add: new_event_row_def)

lemma insert_event_Inr:
  "insert_event fault clock e t = (Inr u, t') \<longleftrightarrow>
     fault = None \<and> (\<forall>r \<in> set t. er_event_id r \<noteq> str_uuid (de_event_id e)) \<and> bind_columns e = Inr ()
     \<and> (\<exists>n m. clock = Aware n \<and> de_detected_at_utc e = Aware m
              \<and> t' = t @ [new_event_row (IsoUtc m) (IsoUtc n) e])"
  by (cases clock) (auto simp: insert_event_def outcome_simps find_row_None
      split: if_splits)

lemma insert_event_fails: "insert_event fault clock e t = (Inl x, t') \<Longrightarrow> t' = t"
  by (auto simp: insert_event_def outcome_simps split: if_splits)

lemma new_event_row_wf:
  "detection_event_ok e \<Longrightarrow> de_detected_at_utc e = Aware m \<Longrightarrow>
   event_row_wf (new_event_row (IsoUtc m) (IsoUtc n) e)"
  by (simp add: event_row_wf_def new_event_row_def)

lemma insert_event_wf:
  assumes "event_table_wf t" and "detection_event_ok e"
  shows "event_table_wf (snd (insert_event fault clock e t))"
proof (cases "insert_event fault clock e t")
  case (Pair r t')
  show ?thesis
  proof (cases r)
    case (Inl x)
    with Pair assms insert_event_fails show ?thesis by (metis snd_conv)
  next
    case (Inr u)
    obtain n m where "de_detected_at_utc e = Aware m" "t' = t @ [new_event_row (IsoUtc m) (IsoUtc n) e]"
      and "\<forall>r \<in> set t. er_event_id r \<noteq> str_uuid (de_event_id e)"
      using Pair unfolding Inr insert_event_Inr by blast
    with assms show ?thesis
      unfolding Pair
      by (auto simp: event_table_wf_def new_event_row_wf)
  qed
qed

lemma update_rows_wf:
  assumes "event_table_wf t"
    and "\<And>r. p r \<Longrightarrow> event_row_wf r \<Longrightarrow> event_row_wf (f r)"
    and "\<And>r. er_event_id (f r) = er_event_id r"
  shows "event_table_wf (update_rows p f t)"
  using assms
  by (auto simp: event_table_wf_def list_all_iff set_update_rows map_update_rows)

lemma mark_update_wf:
  assumes "event_table_wf t"
  shows "event_table_wf (update_rows (pending_in ids)
           (\<lambda>r. r\<lparr>er_delivery_status := DS_DELIVERED, er_delivered_at_utc := Some w\<rparr>) t)"
    and "event_table_wf (update_rows (pending_in ids)
           (\<lambda>r. r\<lparr>er_delivery_status := DS_SUPPRESSED_BY_QUOTA, er_finalized_at_utc := Some w\<rparr>) t)"
  by (rule update_rows_wf [OF assms]; simp add: event_row_wf_def pending_in_def is_pending_def)+

lemma mark_delivered_many_wf:
  assumes "event_table_wf t"
  shows "event_table_wf (snd (mark_delivered_many fault ids when t))"
proof (cases "to_iso_utc when")
  case (Inl e)
  with assms show ?thesis by (simp add: mark_delivered_many_def)
next
  case (Inr w)
  show ?thesis
    unfolding mark_delivered_many_def Inr sum.case
    using assms mark_update_wf(1)
    by (auto intro: transaction_preserves [where P = event_table_wf])
qed

lemma mark_suppressed_by_quota_many_wf:
  assumes "event_table_wf t"
  shows "event_table_wf (snd (mark_suppressed_by_quota_many fault ids when t))"
proof (cases "to_iso_utc when")
  case (Inl e)
  with assms show ?thesis by (simp add: mark_suppressed_by_quota_many_def)
next
  case (Inr w)
  show ?thesis
    unfolding mark_suppressed_by_quota_many_def Inr sum.case
    using assms mark_update_wf(2)
    by (auto intro: transaction_preserves [where P = event_table_wf])
qed

section \<open>Reading\<close>

text \<open>What a stored row reads back as: the inserted event, with the creation time filled in.\<close>

definition stored_event :: "event_row \<Rightarrow> detection_event" where
  "stored_event r =
     (er_event r)\<lparr>de_created_at_utc :=
        (case er_created_at_utc r of IsoUtc n \<Rightarrow> Some (Aware n) | _ \<Rightarrow> None)\<rparr>"

lemma detection_event_ok_created:
  "detection_event_ok e \<Longrightarrow> detection_event_ok (e\<lparr>de_created_at_utc := Some (Aware n)\<rparr>)"
  by (simp add: detection_event_ok_def)

lemma row_to_event_wf:
  assumes "event_row_wf r"
  shows "row_to_event True r = Inr (stored_event r)"
proof -
  obtain n where n: "er_created_at_utc r = IsoUtc n" using assms by (auto simp: event_row_wf_def)
  obtain m where m: "de_detected_at_utc (er_event r) = Aware m" "er_detected_at_utc r = IsoUtc m"
    using assms by (auto simp: event_row_wf_def outcome_simps)
  have "(er_event r)\<lparr>de_event_id := de_event_id (er_event r), de_detected_at_utc := Aware m,
      de_created_at_utc := Some (Aware n)\<rparr> = stored_event r"
    using n m by (cases "er_event r") (simp add: stored_event_def)
  moreover have "detection_event_ok (stored_event r)"
    using assms n by (simp add: stored_event_def event_row_wf_def detection_event_ok_created)
  ultimately show ?thesis
    using assms n m by (simp add: row_to_event_def event_row_wf_def parse_str_uuid
        mk_detection_event_cases)
qed

lemma list_pending_wf:
  assumes "event_table_wf t" and "0 < limit"
  shows "list_pending None limit t = Inr (map stored_event (select_pending (nat limit) t))"
proof -
  have "event_row_wf r" if "r \<in> set (select_pending (nat limit) t)" for r
    using that assms(1)
    by (auto simp: select_pending_def event_table_wf_def list_all_iff dest!: in_set_takeD)
  then show ?thesis
    using assms(2) by (simp add: list_pending_def map_result_Inr_map row_to_event_wf)
qed

lemma stored_event_id [simp]: "de_event_id (stored_event r) = de_event_id (er_event r)"
  by (simp add: stored_event_def)

lemma select_pending_subset: "set (select_pending n t) \<subseteq> {r \<in> set t. is_pending r}"
  by (auto simp: select_pending_def dest!: in_set_takeD)

lemma select_pending_sorted: "sorted (map pending_order (select_pending n t))"
  by (simp add: select_pending_def take_map [symmetric] sorted_wrt_take)

lemma select_pending_all: "count_rows is_pending t \<le> n \<Longrightarrow> set (select_pending n t) = {r \<in> set t. is_pending r}"
  by (simp add: select_pending_def count_rows_def)

section \<open>The abstract outbox\<close>

text \<open>
  What a client may know of the table: the status of each event id.  The three writers refine
  updates of this map.
\<close>

definition event_status :: "event_table \<Rightarrow> uuid \<Rightarrow> delivery_status option" where
  "event_status t u = map_option er_delivery_status (find_row (\<lambda>r. er_event_id r = str_uuid u) t)"

definition finalize :: "delivery_status \<Rightarrow> uuid list \<Rightarrow> (uuid \<Rightarrow> delivery_status option) \<Rightarrow> uuid \<Rightarrow> delivery_status option" where
  "finalize s ids m = (\<lambda>u. if u \<in> set ids \<and> m u = Some DS_PENDING then Some s else m u)"

lemma event_status_insert:
  assumes "insert_event fault clock e t = (Inr u, t')"
  shows "event_status t (de_event_id e) = None \<and> event_status t' = (event_status t)(de_event_id e \<mapsto> DS_PENDING)"
proof -
  obtain n m where t': "t' = t @ [new_event_row (IsoUtc m) (IsoUtc n) e]"
    and "\<forall>r \<in> set t. er_event_id r \<noteq> str_uuid (de_event_id e)"
    using assms unfolding insert_event_Inr by blast
  then have none: "find_row (\<lambda>r. er_event_id r = str_uuid (de_event_id e)) t = None"
    by (simp add: find_row_None)
  then show ?thesis
    by (auto simp: t' event_status_def find_row_snoc new_event_row_def str_uuid_inj fun_eq_iff
        split: option.splits)
qed

lemma event_status_update:
  assumes "\<And>r. er_event_id (f r) = er_event_id r" and "\<And>r. er_delivery_status (f r) = s"
  shows "event_status (update_rows (pending_in ids) f t) = finalize s ids (event_status t)"
proof
  fix u
  have eq: "find_row (\<lambda>r. er_event_id r = str_uuid u) (update_rows (pending_in ids) f t)
      = map_option (\<lambda>r. if pending_in ids r then f r else r) (find_row (\<lambda>r. er_event_id r = str_uuid u) t)"
    by (rule find_row_update_rows) (rule assms(1))
  show "event_status (update_rows (pending_in ids) f t) u = finalize s ids (event_status t) u"
  proof (cases "find_row (\<lambda>r. er_event_id r = str_uuid u) t")
    case None
    then show ?thesis by (simp add: event_status_def finalize_def eq)
  next
    case (Some r)
    then have "er_event_id r = str_uuid u" by (auto dest: find_row_SomeD)
    then have "pending_in ids r \<longleftrightarrow> u \<in> set ids \<and> er_delivery_status r = DS_PENDING"
      by (simp add: pending_in_def is_pending_def inj_image_mem_iff [OF inj_str_uuid])
    then show ?thesis
      unfolding event_status_def finalize_def eq Some using assms(2) by simp
  qed
qed

lemma finalize_Nil [simp]: "finalize s [] m = m"
  by (simp add: finalize_def)

lemma event_status_mark:
  "mark_delivered_many fault ids when t = (Inr n, t') \<Longrightarrow>
     event_status t' = finalize DS_DELIVERED ids (event_status t)"
  "mark_suppressed_by_quota_many fault ids when t = (Inr n, t') \<Longrightarrow>
     event_status t' = finalize DS_SUPPRESSED_BY_QUOTA ids (event_status t)"
  by (auto simp: mark_delivered_many_def mark_suppressed_by_quota_many_def outcome_simps
      event_status_update split: sum.splits if_splits)

lemma mark_fails:
  "mark_delivered_many fault ids when t = (Inl e, t') \<Longrightarrow> t' = t"
  "mark_suppressed_by_quota_many fault ids when t = (Inl e, t') \<Longrightarrow> t' = t"
  by (auto simp: mark_delivered_many_def mark_suppressed_by_quota_many_def outcome_simps
      split: sum.splits if_splits)

lemma wf_row_status:
  assumes "event_table_wf t" and "r \<in> set t"
  shows "event_status t (de_event_id (er_event r)) = Some (er_delivery_status r)"
proof -
  have "er_event_id r = str_uuid (de_event_id (er_event r))"
    using assms by (auto simp: event_table_wf_def list_all_iff event_row_wf_def)
  with assms have "find_row (\<lambda>x. er_event_id x = str_uuid (de_event_id (er_event r))) t = Some r"
    by (intro find_row_unique) (auto simp: event_table_wf_def)
  then show ?thesis by (simp add: event_status_def)
qed

locale event_outbox =
  fixes wf :: "'t \<Rightarrow> bool"
    and status :: "'t \<Rightarrow> uuid \<Rightarrow> delivery_status option"
    and listing :: "fault \<Rightarrow> int \<Rightarrow> 't \<Rightarrow> exn + detection_event list"
    and add :: "fault \<Rightarrow> datetime \<Rightarrow> detection_event \<Rightarrow> 't \<Rightarrow> (exn + unit) \<times> 't"
    and deliver :: "fault \<Rightarrow> uuid list \<Rightarrow> datetime \<Rightarrow> 't \<Rightarrow> (exn + nat) \<times> 't"
    and suppress :: "fault \<Rightarrow> uuid list \<Rightarrow> datetime \<Rightarrow> 't \<Rightarrow> (exn + nat) \<times> 't"
  assumes add_wf: "wf t \<Longrightarrow> detection_event_ok e \<Longrightarrow> wf (snd (add f c e t))"
    and deliver_wf: "wf t \<Longrightarrow> wf (snd (deliver f ids w t))"
    and suppress_wf: "wf t \<Longrightarrow> wf (snd (suppress f ids w t))"
    and add_fails: "add f c e t = (Inl x, t') \<Longrightarrow> t' = t"
    and deliver_fails: "deliver f ids w t = (Inl x, t') \<Longrightarrow> t' = t"
    and suppress_fails: "suppress f ids w t = (Inl x, t') \<Longrightarrow> t' = t"
    and add_done: "add f c e t = (Inr (), t') \<Longrightarrow>
      status t (de_event_id e) = None \<and> status t' = (status t)(de_event_id e \<mapsto> DS_PENDING)"
    and deliver_done: "deliver f ids w t = (Inr n, t') \<Longrightarrow> status t' = finalize DS_DELIVERED ids (status t)"
    and suppress_done:
      "suppress f ids w t = (Inr n, t') \<Longrightarrow> status t' = finalize DS_SUPPRESSED_BY_QUOTA ids (status t)"
    and listing_pending:
      "wf t \<Longrightarrow> listing f n t = Inr es \<Longrightarrow> e \<in> set es \<Longrightarrow> status t (de_event_id e) = Some DS_PENDING"
    and listing_distinct: "wf t \<Longrightarrow> listing f n t = Inr es \<Longrightarrow> distinct (map de_event_id es)"
begin

lemma add_status:
  "status (snd (add f c e t)) u =
     (if is_ok (fst (add f c e t)) \<and> u = de_event_id e then Some DS_PENDING else status t u)"
proof (cases "add f c e t")
  case (Pair r t')
  then show ?thesis using add_fails [of f c e t _ t'] add_done [of f c e t t'] by (cases r) auto
qed

lemma deliver_status:
  "status (snd (deliver f ids w t)) =
     (if is_ok (fst (deliver f ids w t)) then finalize DS_DELIVERED ids (status t) else status t)"
proof (cases "deliver f ids w t")
  case (Pair r t')
  then show ?thesis using deliver_fails [of f ids w t _ t'] deliver_done [of f ids w t _ t'] by (cases r) auto
qed

lemma suppress_status:
  "status (snd (suppress f ids w t)) =
     (if is_ok (fst (suppress f ids w t)) then finalize DS_SUPPRESSED_BY_QUOTA ids (status t) else status t)"
proof (cases "suppress f ids w t")
  case (Pair r t')
  then show ?thesis using suppress_fails [of f ids w t _ t'] suppress_done [of f ids w t _ t'] by (cases r) auto
qed

text \<open>No writer takes an event out of the table, or out of a terminal status.\<close>

lemma terminal_stays:
  assumes "status t u = Some s" and "s \<noteq> DS_PENDING"
  shows "status (snd (add f c e t)) u = Some s"
    and "status (snd (deliver f ids w t)) u = Some s"
    and "status (snd (suppress f ids w t)) u = Some s"
proof -
  show "status (snd (add f c e t)) u = Some s"
  proof (cases "add f c e t")
    case (Pair r t')
    then show ?thesis
      using assms add_fails [of f c e t _ t'] add_done [of f c e t t'] by (cases r) auto
  qed
qed (use assms in \<open>auto simp: deliver_status suppress_status finalize_def\<close>)

end

interpretation sqlite_outbox: event_outbox event_table_wf event_status list_pending insert_event
  mark_delivered_many mark_suppressed_by_quota_many
proof (unfold_locales, goal_cases)
  case (1 t e f c)
  then show ?case by (rule insert_event_wf)
next
  case (2 t f ids w)
  then show ?case by (rule mark_delivered_many_wf)
next
  case (3 t f ids w)
  then show ?case by (rule mark_suppressed_by_quota_many_wf)
next
  case (4 f c e t x t')
  then show ?case by (rule insert_event_fails)
next
  case (5 f ids w t x t')
  then show ?case by (rule mark_fails(1))
next
  case (6 f ids w t x t')
  then show ?case by (rule mark_fails(2))
next
  case (7 f c e t t')
  then show ?case by (rule event_status_insert)
next
  case (8 f ids w t n t')
  then show ?case by (rule event_status_mark(1))
next
  case (9 f ids w t n t')
  then show ?case by (rule event_status_mark(2))
next
  case (10 t f n es e)
  then have "f = None" "0 < n" by (auto simp: list_pending_def read_only_def split: if_splits option.splits)
  with 10 list_pending_wf have "es = map stored_event (select_pending (nat n) t)" by simp
  with 10(3) obtain r where "r \<in> set t" "is_pending r" "e = stored_event r"
    using select_pending_subset [of "nat n" t] by auto
  with 10(1) show ?case using wf_row_status by (simp add: is_pending_def)
next
  case (11 t f n es)
  then have "f = None" "0 < n" by (auto simp: list_pending_def read_only_def split: if_splits option.splits)
  with 11 list_pending_wf have es: "es = map stored_event (select_pending (nat n) t)" by simp
  have sub: "set (select_pending (nat n) t) \<subseteq> set t" using select_pending_subset by blast
  have "distinct (map er_event_id (filter is_pending t))"
    using 11(1) by (simp add: event_table_wf_def distinct_map_filter)
  then have "distinct (map er_event_id (sort_key pending_order (filter is_pending t)))"
    by (simp add: distinct_map)
  then have d: "distinct (map er_event_id (select_pending (nat n) t))"
    by (simp add: select_pending_def take_map [symmetric])
  have "er_event_id r = str_uuid (de_event_id (er_event r))" if "r \<in> set (select_pending (nat n) t)" for r
    using 11(1) sub that by (auto simp: event_table_wf_def list_all_iff event_row_wf_def)
  then have "map er_event_id (select_pending (nat n) t)
      = map str_uuid (map (de_event_id \<circ> er_event) (select_pending (nat n) t))" by simp
  with d have "distinct (map (de_event_id \<circ> er_event) (select_pending (nat n) t))"
    by (metis distinct_map)
  then show ?case unfolding es by (simp add: comp_def)
qed

section \<open>Properties\<close>

text \<open>
  A terminal event stays as it is: once an event is delivered, or suppressed by the quota,
  no later insert and no later mark, whatever ids they name and whatever fault hits them, changes
  its status or removes it.
\<close>

theorem terminal_status_permanent:
  assumes "event_status t u = Some s" and "s \<noteq> DS_PENDING"
  shows "event_status (snd (insert_event f clock e t)) u = Some s
    \<and> event_status (snd (mark_delivered_many f ids when t)) u = Some s
    \<and> event_status (snd (mark_suppressed_by_quota_many f ids when t)) u = Some s"
  using sqlite_outbox.terminal_stays [OF assms] by simp

definition demo_event :: detection_event where
  "demo_event = \<lparr>de_event_id = 5, de_device_id = ''dev'', de_camera_id = ''cam'', de_source_id = 1,
       de_class_id = 0, de_class_name = ''gun'', de_confidence = Fin 1, de_frame_number = 42,
       de_detected_at_utc = Aware 7, de_frame_width = 1920, de_frame_height = 1080,
       de_bbox_left = Fin 1900, de_bbox_top = Fin 10, de_bbox_width = Fin 20, de_bbox_height = Fin 20,
       de_created_at_utc = None\<rparr>"

definition demo_row :: "delivery_status \<Rightarrow> event_row" where
  "demo_row s = (new_event_row (IsoUtc 7) (IsoUtc 9) demo_event)\<lparr>er_delivery_status := s\<rparr>"

theorem terminal_status_permanent_witness:
  "event_status (snd (mark_suppressed_by_quota_many None [5] (Aware 1) [demo_row DS_DELIVERED])) 5
   = Some DS_DELIVERED"
  by (rule terminal_status_permanent [THEN conjunct2, THEN conjunct2, of _ 5 DS_DELIVERED])
     (simp_all add: event_status_def find_row_def demo_row_def new_event_row_def demo_event_def)

text \<open>
  The outbox is drained oldest first and misses nothing: on a well-formed table
  \<^verbatim>\<open>list_pending(limit)\<close> succeeds, returns only pending events, in the order of their detection
  time and then their id, at most \<open>limit\<close> of them, and every pending event when the limit covers
  them all.
\<close>

theorem list_pending_oldest_first:
  assumes "event_table_wf t" and "0 < limit"
  shows "\<exists>rows. list_pending None limit t = Inr (map stored_event rows)
    \<and> sorted (map pending_order rows) \<and> length rows \<le> nat limit
    \<and> set rows \<subseteq> {r \<in> set t. is_pending r}
    \<and> (count_rows is_pending t \<le> nat limit \<longrightarrow> set rows = {r \<in> set t. is_pending r})"
  using list_pending_wf [OF assms] select_pending_sorted [of "nat limit" t]
    select_pending_subset [of "nat limit" t] select_pending_all [of t "nat limit"]
  by (intro exI [of _ "select_pending (nat limit) t"]) (auto simp: select_pending_def)

lemma demo_event_ok: "detection_event_ok demo_event"
proof -
  have "fl_round 1920 = Fin 1920" "fl_round 30 = Fin 30"
    using fl_round_int [of 1920 1920] fl_round_int [of 30 30] by simp_all
  then show ?thesis by (simp add: detection_event_ok_def demo_event_def fl_exact_def)
qed

lemma demo_row_wf: "event_table_wf [demo_row DS_PENDING]"
  using demo_event_ok
  by (simp add: event_table_wf_def event_row_wf_def demo_row_def new_event_row_def)
     (simp add: demo_event_def)

theorem list_pending_oldest_first_witness:
  "\<exists>rows. list_pending None 3 [demo_row DS_PENDING] = Inr (map stored_event rows)
     \<and> set rows = {r \<in> set [demo_row DS_PENDING]. is_pending r}"
  using list_pending_oldest_first [OF demo_row_wf, of 3] by (auto simp: count_rows_def)

text \<open>
  Insert then read: an inserted event is read back by \<^verbatim>\<open>list_pending\<close> exactly as it was, with
  the repository's clock as its creation time; a second insert of the same id is refused as a
  duplicate and leaves the table as it is.
\<close>

theorem insert_then_list_pending:
  assumes "event_table_wf t" and "detection_event_ok e"
    and "insert_event None clock e t = (Inr (), t')"
    and "int (count_rows is_pending t') \<le> limit"
  shows "(\<exists>es. list_pending None limit t' = Inr es \<and> e\<lparr>de_created_at_utc := Some clock\<rparr> \<in> set es)
    \<and> (has_tz c2 \<longrightarrow> de_event_id e2 = de_event_id e \<longrightarrow>
       insert_event None c2 e2 t' = (Inl (RepositoryExn DetectionEventAlreadyExistsError), t'))"
proof -
  have wf: "event_table_wf t'" using insert_event_wf [OF assms(1,2), of None clock] assms(3) by simp
  obtain n m where c: "clock = Aware n" "de_detected_at_utc e = Aware m"
    and t': "t' = t @ [new_event_row (IsoUtc m) (IsoUtc n) e]"
    using assms(3) by (auto simp: insert_event_Inr)
  let ?r = "new_event_row (IsoUtc m) (IsoUtc n) e"
  have r: "?r \<in> set t'" "is_pending ?r" using t' by (simp_all add: is_pending_def new_event_row_def)
  then have "0 < count_rows is_pending t'" using count_rows_0 [of is_pending t'] by auto
  then have pos: "0 < limit" using assms(4) by simp
  have "set (select_pending (nat limit) t') = {r \<in> set t'. is_pending r}"
    by (rule select_pending_all) (use assms(4) in simp)
  then have "stored_event ?r \<in> set (map stored_event (select_pending (nat limit) t'))"
    using r by simp
  moreover have "stored_event ?r = e\<lparr>de_created_at_utc := Some clock\<rparr>"
    by (simp add: stored_event_def new_event_row_def c)
  moreover have "find_row (\<lambda>r. er_event_id r = str_uuid (de_event_id e)) t' \<noteq> None"
    using r(1) unfolding find_row_None
    by (metis new_event_row_id)
  ultimately show ?thesis
    using list_pending_wf [OF wf pos] by (auto simp: insert_event_def transaction_def)
qed

lemma demo_insert: "insert_event None (Aware 9) demo_event [] = (Inr (), [demo_row DS_PENDING])"
  by (simp add: insert_event_Inr demo_row_def)
     (simp add: bind_columns_def raise_if_def sqlite_int_def demo_event_def new_event_row_def)

theorem insert_then_list_pending_witness:
  "\<exists>es. list_pending None 10 [demo_row DS_PENDING] = Inr es
     \<and> demo_event\<lparr>de_created_at_utc := Some (Aware 9)\<rparr> \<in> set es"
  by (rule insert_then_list_pending [OF _ demo_event_ok demo_insert, THEN conjunct1])
     (simp_all add: event_table_wf_def count_rows_def)

end
