(* ===== verification/SnapshotStore.thy ===== *)
theory SnapshotStore
  imports EventStore
begin

text \<open>
  \<^verbatim>\<open>persistence/snapshot_models.py\<close> and \<^verbatim>\<open>persistence/snapshot_outbox_repository.py\<close>: the
  SnapshotOutbox table.  EventId is its primary key and a foreign key to DetectionEvent
  (\<^verbatim>\<open>PRAGMA foreign_keys = ON\<close>), so creating a row takes the stored events as an argument.
\<close>

datatype capture_status = CAPTURED | CAPTURE_FAILED

datatype upload_status = US_PENDING | US_UPLOADED | US_SUPPRESSED_BY_QUOTA

record snapshot_record =
  so_event_id :: uuid
  so_local_path :: string
  so_capture_status :: capture_status
  so_upload_status :: upload_status
  so_backend_alert_id :: "string option"
  so_content_type :: string
  so_size_bytes :: int
  so_sha256 :: string
  so_captured_at_utc :: datetime
  so_uploaded_at_utc :: "datetime option"
  so_attempt_count :: int
  so_last_attempt_at_utc :: "datetime option"
  so_last_error_category :: "string option"

definition opt_has_tz :: "datetime option \<Rightarrow> bool" where
  "opt_has_tz d = (case d of None \<Rightarrow> True | Some x \<Rightarrow> has_tz x)"

definition snapshot_record_ok :: "snapshot_record \<Rightarrow> bool" where
  "snapshot_record_ok r \<longleftrightarrow>
     has_tz (so_captured_at_utc r) \<and> opt_has_tz (so_uploaded_at_utc r)
     \<and> opt_has_tz (so_last_attempt_at_utc r) \<and> 0 \<le> so_size_bytes r \<and> 0 \<le> so_attempt_count r"

definition mk_snapshot_record :: "snapshot_record \<Rightarrow> exn + snapshot_record" where
  "mk_snapshot_record r = (if snapshot_record_ok r then Inr r else Inl ValueError)"

record snapshot_row =
  sr_event_id :: string
  sr_local_path :: string
  sr_capture_status :: capture_status
  sr_upload_status :: upload_status
  sr_backend_alert_id :: "string option"
  sr_content_type :: string
  sr_size_bytes :: int
  sr_sha256 :: string
  sr_captured_at_utc :: iso_text
  sr_uploaded_at_utc :: "iso_text option"
  sr_attempt_count :: int
  sr_last_attempt_at_utc :: "iso_text option"
  sr_last_error_category :: "string option"

type_synonym snapshot_table = "snapshot_row list"

definition parse_opt_iso :: "iso_text option \<Rightarrow> exn + datetime option" where
  "parse_opt_iso t =
     (case t of None \<Rightarrow> Inr None | Some x \<Rightarrow> bind_result (parse_iso_utc x) (\<lambda>d. Inr (Some d)))"

definition row_to_record :: "snapshot_row \<Rightarrow> exn + snapshot_record" where
  "row_to_record row =
     bind_result (parse_uuid (sr_event_id row)) (\<lambda>event_id.
     bind_result (parse_iso_utc (sr_captured_at_utc row)) (\<lambda>captured.
     bind_result (parse_opt_iso (sr_uploaded_at_utc row)) (\<lambda>uploaded.
     bind_result (parse_opt_iso (sr_last_attempt_at_utc row)) (\<lambda>attempted.
     mk_snapshot_record
       \<lparr>so_event_id = event_id, so_local_path = sr_local_path row,
        so_capture_status = sr_capture_status row, so_upload_status = sr_upload_status row,
        so_backend_alert_id = sr_backend_alert_id row, so_content_type = sr_content_type row,
        so_size_bytes = sr_size_bytes row, so_sha256 = sr_sha256 row,
        so_captured_at_utc = captured, so_uploaded_at_utc = uploaded,
        so_attempt_count = sr_attempt_count row, so_last_attempt_at_utc = attempted,
        so_last_error_category = sr_last_error_category row\<rparr>))))"

definition has_id :: "uuid \<Rightarrow> snapshot_row \<Rightarrow> bool" where
  "has_id u r \<longleftrightarrow> sr_event_id r = str_uuid u"

definition get_snapshot :: "fault \<Rightarrow> uuid \<Rightarrow> snapshot_table \<Rightarrow> exn + snapshot_record option" where
  "get_snapshot fault u t =
     read_only fault
       (\<lambda>t. case find_row (has_id u) t of
              None \<Rightarrow> Inr None
            | Some row \<Rightarrow> bind_result (row_to_record row) (\<lambda>r. Inr (Some r))) t"

definition new_snapshot_row :: "uuid \<Rightarrow> string \<Rightarrow> string \<Rightarrow> int \<Rightarrow> string \<Rightarrow> iso_text \<Rightarrow> snapshot_row" where
  "new_snapshot_row u local_path content_type nbytes sha captured =
     \<lparr>sr_event_id = str_uuid u, sr_local_path = local_path, sr_capture_status = CAPTURED,
      sr_upload_status = US_PENDING, sr_backend_alert_id = None, sr_content_type = content_type,
      sr_size_bytes = nbytes, sr_sha256 = sha, sr_captured_at_utc = captured,
      sr_uploaded_at_utc = None, sr_attempt_count = 0, sr_last_attempt_at_utc = None,
      sr_last_error_category = None\<rparr>"

definition SNAPSHOT_UNIQUENESS_VIOLATION :: string where
  "SNAPSHOT_UNIQUENESS_VIOLATION = ''SnapshotOutbox.EventId''"

text \<open>The write is one call, the read-back of the record (with its assertion) a second one.\<close>

definition create_captured ::
  "fault \<Rightarrow> fault \<Rightarrow> datetime \<Rightarrow> event_table \<Rightarrow> uuid \<Rightarrow> string \<Rightarrow> string \<Rightarrow> int \<Rightarrow> string
   \<Rightarrow> snapshot_table \<Rightarrow> (exn + snapshot_record) \<times> snapshot_table" where
  "create_captured fault fault2 clock events u local_path content_type nbytes sha t =
     (if \<not> has_tz clock then (Inl ValueError, t)
      else
        let (r, t') =
          transaction
            (map_option (translate_duplicate SNAPSHOT_UNIQUENESS_VIOLATION
                           (RepositoryExn SnapshotOutboxAlreadyExistsError)) fault)
            (\<lambda>t. if find_row (has_id u) t \<noteq> None
                 then Inl (RepositoryExn SnapshotOutboxAlreadyExistsError)
                 else bind_result (to_iso_utc clock) (\<lambda>captured.
                      bind_result (raise_if (\<not> sqlite_int nbytes) OverflowError) (\<lambda>_.
                      if find_row (\<lambda>e. er_event_id e = str_uuid u) events = None
                      then Inl (SqliteIntegrityError ''FOREIGN KEY constraint failed'')
                      else Inr ((), t @ [new_snapshot_row u local_path content_type nbytes sha captured]))))
            t
        in (bind_result r (\<lambda>_. bind_result (get_snapshot fault2 u t') (\<lambda>rec.
              case rec of None \<Rightarrow> Inl AssertionError | Some x \<Rightarrow> Inr x)), t'))"

definition associate_alert_id :: "fault \<Rightarrow> uuid \<Rightarrow> string \<Rightarrow> snapshot_table \<Rightarrow> (exn + bool) \<times> snapshot_table" where
  "associate_alert_id fault u alert_id t =
     transaction fault
       (\<lambda>t. case find_row (has_id u) t of
              None \<Rightarrow> Inr (False, t)
            | Some row \<Rightarrow>
                (if sr_backend_alert_id row = Some alert_id then Inr (True, t)
                 else if sr_backend_alert_id row \<noteq> None
                 then Inl (RepositoryExn SnapshotOutboxAlertConflictError)
                 else Inr (True, update_rows (has_id u) (\<lambda>r. r\<lparr>sr_backend_alert_id := Some alert_id\<rparr>) t)))
       t"

definition upload_ready :: "snapshot_row \<Rightarrow> bool" where
  "upload_ready r \<longleftrightarrow> sr_capture_status r = CAPTURED \<and> sr_upload_status r = US_PENDING
     \<and> sr_backend_alert_id r \<noteq> None"

definition capture_order :: "snapshot_row \<Rightarrow> iso_text \<times> string" where
  "capture_order r = (sr_captured_at_utc r, sr_event_id r)"

definition select_upload_ready :: "nat \<Rightarrow> snapshot_table \<Rightarrow> snapshot_row list" where
  "select_upload_ready limit t = take limit (sort_key capture_order (filter upload_ready t))"

definition list_upload_ready :: "fault \<Rightarrow> int \<Rightarrow> snapshot_table \<Rightarrow> exn + snapshot_record list" where
  "list_upload_ready fault limit t =
     (if limit \<le> 0 then Inl ValueError
      else read_only fault (\<lambda>t. map_result row_to_record (select_upload_ready (nat limit) t)) t)"

text \<open>\<open>guarded_update\<close> is \<^verbatim>\<open>UPDATE ... WHERE EventId = ? AND <guard>\<close> with its row count.\<close>

definition guarded_update ::
  "fault \<Rightarrow> (snapshot_row \<Rightarrow> bool) \<Rightarrow> (snapshot_row \<Rightarrow> snapshot_row) \<Rightarrow> snapshot_table \<Rightarrow> (exn + bool) \<times> snapshot_table"
where
  "guarded_update fault p f t = transaction fault (\<lambda>t. Inr (count_rows p t \<noteq> 0, update_rows p f t)) t"

definition mark_uploaded :: "fault \<Rightarrow> uuid \<Rightarrow> datetime \<Rightarrow> snapshot_table \<Rightarrow> (exn + bool) \<times> snapshot_table" where
  "mark_uploaded fault u when t =
     (case to_iso_utc when of
        Inl e \<Rightarrow> (Inl e, t)
      | Inr w \<Rightarrow> guarded_update fault (\<lambda>r. has_id u r \<and> sr_upload_status r = US_PENDING)
                  (\<lambda>r. r\<lparr>sr_upload_status := US_UPLOADED, sr_uploaded_at_utc := Some w\<rparr>) t)"

definition record_attempt_failure ::
  "fault \<Rightarrow> uuid \<Rightarrow> datetime \<Rightarrow> string \<Rightarrow> snapshot_table \<Rightarrow> (exn + unit) \<times> snapshot_table" where
  "record_attempt_failure fault u attempt_at category t =
     (case to_iso_utc attempt_at of
        Inl e \<Rightarrow> (Inl e, t)
      | Inr w \<Rightarrow>
          transaction fault
            (\<lambda>t. Inr ((), update_rows (has_id u)
                   (\<lambda>r. r\<lparr>sr_attempt_count := sr_attempt_count r + 1,
                           sr_last_attempt_at_utc := Some w, sr_last_error_category := Some category\<rparr>) t)) t)"

definition mark_capture_failed :: "fault \<Rightarrow> uuid \<Rightarrow> snapshot_table \<Rightarrow> (exn + bool) \<times> snapshot_table" where
  "mark_capture_failed fault u t =
     guarded_update fault (\<lambda>r. has_id u r \<and> sr_capture_status r = CAPTURED)
       (\<lambda>r. r\<lparr>sr_capture_status := CAPTURE_FAILED\<rparr>) t"

definition cancel_for_quota :: "fault \<Rightarrow> uuid \<Rightarrow> snapshot_table \<Rightarrow> (exn + bool) \<times> snapshot_table" where
  "cancel_for_quota fault u t =
     guarded_update fault (\<lambda>r. has_id u r \<and> sr_upload_status r = US_PENDING)
       (\<lambda>r. r\<lparr>sr_upload_status := US_SUPPRESSED_BY_QUOTA\<rparr>) t"

definition list_all_event_ids :: "fault \<Rightarrow> snapshot_table \<Rightarrow> exn + uuid list" where
  "list_all_event_ids fault t = read_only fault (\<lambda>t. map_result (\<lambda>r. parse_uuid (sr_event_id r)) t) t"

section \<open>Well-formed tables\<close>

definition opt_iso_utc :: "iso_text option \<Rightarrow> bool" where
  "opt_iso_utc t \<longleftrightarrow> (\<forall>x. t = Some x \<longrightarrow> (\<exists>n. x = IsoUtc n))"

definition snapshot_row_wf :: "snapshot_row \<Rightarrow> bool" where
  "snapshot_row_wf r \<longleftrightarrow>
     (\<exists>u. sr_event_id r = str_uuid u) \<and> (\<exists>n. sr_captured_at_utc r = IsoUtc n)
     \<and> opt_iso_utc (sr_uploaded_at_utc r) \<and> opt_iso_utc (sr_last_attempt_at_utc r)
     \<and> 0 \<le> sr_size_bytes r \<and> 0 \<le> sr_attempt_count r
     \<and> (sr_uploaded_at_utc r \<noteq> None \<longleftrightarrow> sr_upload_status r = US_UPLOADED)"

definition snapshot_table_wf :: "snapshot_table \<Rightarrow> bool" where
  "snapshot_table_wf t \<longleftrightarrow> distinct (map sr_event_id t) \<and> list_all snapshot_row_wf t"

lemma row_to_record_wf:
  assumes "snapshot_row_wf r"
  obtains x where "row_to_record r = Inr x" "sr_event_id r = str_uuid (so_event_id x)"
    "so_local_path x = sr_local_path r" "so_capture_status x = sr_capture_status r"
    "so_upload_status x = sr_upload_status r" "so_backend_alert_id x = sr_backend_alert_id r"
    "so_size_bytes x = sr_size_bytes r" "so_sha256 x = sr_sha256 r"
proof -
  from assms obtain u n where u: "sr_event_id r = str_uuid u" and n: "sr_captured_at_utc r = IsoUtc n"
    by (auto simp: snapshot_row_wf_def)
  have opt: "\<exists>d. parse_opt_iso t = Inr d \<and> opt_has_tz d" if "opt_iso_utc t" for t
    using that by (cases t) (auto simp: opt_iso_utc_def parse_opt_iso_def opt_has_tz_def)
  obtain a b where "parse_opt_iso (sr_uploaded_at_utc r) = Inr a" "opt_has_tz a"
    "parse_opt_iso (sr_last_attempt_at_utc r) = Inr b" "opt_has_tz b"
    using assms opt by (metis snapshot_row_wf_def)
  then show ?thesis
    using assms u n that
    by (auto simp: row_to_record_def parse_str_uuid mk_snapshot_record_def snapshot_record_ok_def
        snapshot_row_wf_def)
qed

lemma update_snapshot_wf:
  assumes "snapshot_table_wf t"
    and "\<And>r. p r \<Longrightarrow> snapshot_row_wf r \<Longrightarrow> snapshot_row_wf (f r)"
    and "\<And>r. sr_event_id (f r) = sr_event_id r"
  shows "snapshot_table_wf (update_rows p f t)"
  using assms by (auto simp: snapshot_table_wf_def list_all_iff set_update_rows map_update_rows)

lemma guarded_update_wf:
  assumes "snapshot_table_wf t"
    and "\<And>r. p r \<Longrightarrow> snapshot_row_wf r \<Longrightarrow> snapshot_row_wf (f r)"
    and "\<And>r. sr_event_id (f r) = sr_event_id r"
  shows "snapshot_table_wf (snd (guarded_update fault p f t))"
  unfolding guarded_update_def
  by (rule transaction_preserves [where P = snapshot_table_wf])
     (use assms in \<open>auto intro: update_snapshot_wf\<close>)

lemma transaction_wf:
  "snapshot_table_wf t \<Longrightarrow> (\<And>a t'. body t = Inr (a, t') \<Longrightarrow> snapshot_table_wf t') \<Longrightarrow>
   snapshot_table_wf (snd (transaction fault body t))"
  by (rule transaction_preserves [where P = snapshot_table_wf])

lemma associate_alert_id_wf:
  "snapshot_table_wf t \<Longrightarrow> snapshot_table_wf (snd (associate_alert_id fault u a t))"
  unfolding associate_alert_id_def
  by (rule transaction_wf)
     (auto simp: snapshot_row_wf_def intro!: update_snapshot_wf split: option.splits if_splits)

lemma mark_uploaded_wf:
  "snapshot_table_wf t \<Longrightarrow> snapshot_table_wf (snd (mark_uploaded fault u when t))"
  by (auto simp: mark_uploaded_def outcome_simps snapshot_row_wf_def opt_iso_utc_def
      intro!: guarded_update_wf split: sum.splits)

lemma mark_capture_failed_wf:
  "snapshot_table_wf t \<Longrightarrow> snapshot_table_wf (snd (mark_capture_failed fault u t))"
  by (auto simp: mark_capture_failed_def snapshot_row_wf_def intro!: guarded_update_wf)

lemma cancel_for_quota_wf:
  "snapshot_table_wf t \<Longrightarrow> snapshot_table_wf (snd (cancel_for_quota fault u t))"
  by (auto simp: cancel_for_quota_def snapshot_row_wf_def intro!: guarded_update_wf)

lemma record_attempt_failure_wf:
  assumes "snapshot_table_wf t"
  shows "snapshot_table_wf (snd (record_attempt_failure fault u w c t))"
proof (cases "to_iso_utc w")
  case (Inl e)
  with assms show ?thesis by (simp add: record_attempt_failure_def)
next
  case (Inr x)
  then have "opt_iso_utc (Some x)" by (auto simp: outcome_simps opt_iso_utc_def)
  then show ?thesis
    unfolding record_attempt_failure_def Inr sum.case
    using assms
    by (intro transaction_wf) (auto simp: snapshot_row_wf_def intro!: update_snapshot_wf)
qed

lemma create_captured_snd:
  "snd (create_captured fault fault2 clock events u path ct n sha t) =
     (if \<not> has_tz clock then t
      else if fault = None \<and> (\<forall>r \<in> set t. \<not> has_id u r) \<and> sqlite_int n
              \<and> (\<exists>e \<in> set events. er_event_id e = str_uuid u)
      then t @ [new_snapshot_row u path ct n sha (case clock of Aware k \<Rightarrow> IsoUtc k | Naive k \<Rightarrow> IsoNaive k)]
      else t)"
  by (cases fault; cases clock)
     (auto simp: create_captured_def transaction_def raise_if_def find_row_None Let_def
        split: option.splits)

lemma create_captured_wf:
  "snapshot_table_wf t \<Longrightarrow> 0 \<le> n \<Longrightarrow>
   snapshot_table_wf (snd (create_captured fault fault2 clock events u path ct n sha t))"
  unfolding create_captured_snd
  by (auto simp: snapshot_table_wf_def new_snapshot_row_def snapshot_row_wf_def opt_iso_utc_def
      has_id_def split: datetime.splits)

lemma list_upload_ready_Inr:
  assumes "snapshot_table_wf t" and "0 < limit"
  shows "\<exists>xs. list_upload_ready None limit t = Inr xs"
proof -
  have "\<exists>x. row_to_record r = Inr x" if "r \<in> set (select_upload_ready (nat limit) t)" for r
  proof -
    have "snapshot_row_wf r"
      using that assms(1)
      by (auto simp: select_upload_ready_def snapshot_table_wf_def list_all_iff dest!: in_set_takeD)
    then show ?thesis by (rule row_to_record_wf) blast
  qed
  then obtain g where "\<And>r. r \<in> set (select_upload_ready (nat limit) t) \<Longrightarrow> row_to_record r = Inr (g r)"
    by metis
  then show ?thesis using assms(2) by (auto simp: list_upload_ready_def map_result_Inr_map)
qed

section \<open>The abstract outbox\<close>

text \<open>
  A client sees, per event id, the capture status, the upload status and the alert id.  Each
  writer refines one transition of that view; \<open>snapshot_outbox\<close> collects the laws.
\<close>

type_synonym snapshot_view = "capture_status \<times> upload_status \<times> string option"

definition row_view :: "snapshot_row \<Rightarrow> snapshot_view" where
  "row_view r = (sr_capture_status r, sr_upload_status r, sr_backend_alert_id r)"

definition snapshot_view :: "snapshot_table \<Rightarrow> uuid \<Rightarrow> snapshot_view option" where
  "snapshot_view t u = map_option row_view (find_row (has_id u) t)"

definition view_ready :: "snapshot_view option \<Rightarrow> bool" where
  "view_ready v = (case v of Some (CAPTURED, US_PENDING, Some _) \<Rightarrow> True | _ \<Rightarrow> False)"

fun view_uploaded :: "snapshot_view \<Rightarrow> snapshot_view" where
  "view_uploaded (c, u, a) = (c, if u = US_PENDING then US_UPLOADED else u, a)"

fun view_cancelled :: "snapshot_view \<Rightarrow> snapshot_view" where
  "view_cancelled (c, u, a) = (c, if u = US_PENDING then US_SUPPRESSED_BY_QUOTA else u, a)"

fun view_capture_failed :: "snapshot_view \<Rightarrow> snapshot_view" where
  "view_capture_failed (c, u, a) = (CAPTURE_FAILED, u, a)"

fun view_alert :: "string \<Rightarrow> snapshot_view \<Rightarrow> snapshot_view" where
  "view_alert x (c, u, a) = (c, u, Some x)"

lemma has_id_same: "has_id u r \<Longrightarrow> has_id v r \<longleftrightarrow> v = u"
  by (auto simp: has_id_def str_uuid_inj)

lemma snapshot_view_update:
  assumes "\<And>r. sr_event_id (f r) = sr_event_id r" and "\<And>r. p r \<Longrightarrow> has_id u r"
    and "\<And>r. has_id u r \<Longrightarrow> row_view (if p r then f r else r) = g (row_view r)"
  shows "snapshot_view (update_rows p f t) v
       = (if v = u then map_option g (snapshot_view t v) else snapshot_view t v)"
proof -
  have eq: "find_row (has_id v) (update_rows p f t)
      = map_option (\<lambda>r. if p r then f r else r) (find_row (has_id v) t)"
    unfolding has_id_def [abs_def] by (rule find_row_update_rows) (rule assms(1))
  show ?thesis
  proof (cases "find_row (has_id v) t")
    case None
    then show ?thesis by (auto simp: snapshot_view_def eq)
  next
    case (Some r)
    then have r: "has_id v r" by (auto dest: find_row_SomeD)
    show ?thesis
    proof (cases "v = u")
      case True
      with assms(3) [of r] r show ?thesis unfolding snapshot_view_def eq Some by simp
    next
      case False
      with assms(2) r has_id_same have "\<not> p r" by blast
      with False show ?thesis unfolding snapshot_view_def eq Some by simp
    qed
  qed
qed

lemma guarded_update_Inr:
  "guarded_update fault p f t = (Inr b, t') \<longleftrightarrow> fault = None \<and> b = (count_rows p t \<noteq> 0) \<and> t' = update_rows p f t"
  by (auto simp: guarded_update_def outcome_simps)

lemma guarded_update_fails: "guarded_update fault p f t = (Inl e, t') \<Longrightarrow> t' = t"
  by (auto simp: guarded_update_def outcome_simps)

lemma mark_uploaded_view:
  assumes "mark_uploaded fault u when t = (Inr b, t')"
  shows "snapshot_view t' = (\<lambda>v. if v = u then map_option view_uploaded (snapshot_view t v) else snapshot_view t v)"
proof -
  from assms obtain w where t': "t' = update_rows (\<lambda>r. has_id u r \<and> sr_upload_status r = US_PENDING)
      (\<lambda>r. r\<lparr>sr_upload_status := US_UPLOADED, sr_uploaded_at_utc := Some w\<rparr>) t"
    by (auto simp: mark_uploaded_def guarded_update_Inr split: sum.splits)
  show ?thesis
    unfolding t' by (rule ext, rule snapshot_view_update) (simp_all add: row_view_def)
qed

lemma cancel_for_quota_view:
  assumes "cancel_for_quota fault u t = (Inr b, t')"
  shows "snapshot_view t' = (\<lambda>v. if v = u then map_option view_cancelled (snapshot_view t v) else snapshot_view t v)"
proof -
  have t': "t' = update_rows (\<lambda>r. has_id u r \<and> sr_upload_status r = US_PENDING)
      (\<lambda>r. r\<lparr>sr_upload_status := US_SUPPRESSED_BY_QUOTA\<rparr>) t"
    using assms by (simp add: cancel_for_quota_def guarded_update_Inr)
  show ?thesis
    unfolding t' by (rule ext, rule snapshot_view_update) (simp_all add: row_view_def)
qed

lemma mark_capture_failed_view:
  assumes "mark_capture_failed fault u t = (Inr b, t')"
  shows "snapshot_view t' = (\<lambda>v. if v = u then map_option view_capture_failed (snapshot_view t v) else snapshot_view t v)"
proof -
  have t': "t' = update_rows (\<lambda>r. has_id u r \<and> sr_capture_status r = CAPTURED)
      (\<lambda>r. r\<lparr>sr_capture_status := CAPTURE_FAILED\<rparr>) t"
    using assms by (simp add: mark_capture_failed_def guarded_update_Inr)
  show ?thesis
    unfolding t'
    by (rule ext, rule snapshot_view_update) (auto simp: row_view_def intro: capture_status.exhaust)
qed

lemma record_attempt_failure_view:
  "snapshot_view (snd (record_attempt_failure fault u w c t)) = snapshot_view t"
proof (cases "record_attempt_failure fault u w c t")
  case (Pair r t')
  show ?thesis
  proof (cases "t' = t")
    case True
    with Pair show ?thesis by simp
  next
    case False
    with Pair obtain x where t': "t' = update_rows (has_id u)
       (\<lambda>r. r\<lparr>sr_attempt_count := sr_attempt_count r + 1, sr_last_attempt_at_utc := Some x,
               sr_last_error_category := Some c\<rparr>) t"
      by (cases r) (auto simp: record_attempt_failure_def outcome_simps split: sum.splits)
    have "snapshot_view t' v = (if v = u then map_option id (snapshot_view t v) else snapshot_view t v)" for v
      unfolding t' by (rule snapshot_view_update) (simp_all add: row_view_def)
    with Pair show ?thesis by (auto simp: fun_eq_iff option.map_id)
  qed
qed

lemma associate_alert_id_cases:
  "associate_alert_id None u a t =
     (case snapshot_view t u of
        None \<Rightarrow> (Inr False, t)
      | Some (_, _, Some a') \<Rightarrow>
          (if a' = a then Inr True else Inl (RepositoryExn SnapshotOutboxAlertConflictError), t)
      | Some (_, _, None) \<Rightarrow>
          (Inr True, update_rows (has_id u) (\<lambda>r. r\<lparr>sr_backend_alert_id := Some a\<rparr>) t))"
  by (auto simp: associate_alert_id_def transaction_def snapshot_view_def row_view_def
      split: option.splits)

lemma associate_alert_id_view:
  assumes "associate_alert_id fault u a t = (Inr b, t')"
  shows "b = (snapshot_view t u \<noteq> None)
    \<and> snapshot_view t' = (\<lambda>v. if v = u then map_option (view_alert a) (snapshot_view t v) else snapshot_view t v)
    \<and> (\<forall>c s a'. snapshot_view t u = Some (c, s, Some a') \<longrightarrow> a' = a)"
proof -
  have f: "fault = None" using assms by (simp add: associate_alert_id_def outcome_simps)
  note A = assms[unfolded f associate_alert_id_cases]
  have upd: "snapshot_view (update_rows (has_id u) (\<lambda>r. r\<lparr>sr_backend_alert_id := Some a\<rparr>) t) v
      = (if v = u then map_option (view_alert a) (snapshot_view t v) else snapshot_view t v)" for v
    by (rule snapshot_view_update) (simp_all add: row_view_def)
  show ?thesis
  proof (cases "snapshot_view t u")
    case None
    with A show ?thesis by (auto simp: fun_eq_iff)
  next
    case (Some x)
    obtain c s y where x: "x = (c, s, y)" by (cases x)
    show ?thesis
    proof (cases y)
      case None
      with A Some x have "b" "t' = update_rows (has_id u) (\<lambda>r. r\<lparr>sr_backend_alert_id := Some a\<rparr>) t"
        by simp_all
      with upd Some x None show ?thesis by (simp add: fun_eq_iff)
    next
      case (Some a')
      with A x \<open>snapshot_view t u = Some x\<close> show ?thesis
        by (auto simp: fun_eq_iff split: if_splits)
    qed
  qed
qed

lemma create_captured_view:
  assumes "create_captured fault fault2 clock events u path ct n sha t = (r, t')" and "t' \<noteq> t"
  shows "snapshot_view t u = None \<and> snapshot_view t' = (snapshot_view t)(u \<mapsto> (CAPTURED, US_PENDING, None))"
proof -
  have none: "\<forall>r \<in> set t. \<not> has_id u r"
    and t': "\<exists>k. t' = t @ [new_snapshot_row u path ct n sha k]"
    using assms create_captured_snd [of fault fault2 clock events u path ct n sha t]
    by (auto split: if_splits)
  then have "find_row (has_id u) t = None" by (simp add: find_row_None)
  with t' show ?thesis
    by (auto simp: snapshot_view_def find_row_snoc new_snapshot_row_def has_id_def str_uuid_inj
        row_view_def fun_eq_iff split: option.splits)
qed

text \<open>The order the lifecycle of a row respects: nothing is undone.\<close>

definition view_le :: "snapshot_view option \<Rightarrow> snapshot_view option \<Rightarrow> bool" where
  "view_le v w \<longleftrightarrow> (case v of None \<Rightarrow> True | Some (c, s, a) \<Rightarrow>
     (\<exists>c' s' a'. w = Some (c', s', a') \<and> (c = CAPTURE_FAILED \<longrightarrow> c' = CAPTURE_FAILED)
       \<and> (s \<noteq> US_PENDING \<longrightarrow> s' = s) \<and> (a \<noteq> None \<longrightarrow> a' = a)))"

lemma view_le_refl: "view_le v v"
  by (auto simp: view_le_def split: option.splits)

lemma view_le_trans: "view_le u v \<Longrightarrow> view_le v w \<Longrightarrow> view_le u w"
  by (auto simp: view_le_def split: option.splits)

lemma view_le_map:
  "view_le v (map_option view_uploaded v)" "view_le v (map_option view_cancelled v)"
  "view_le v (map_option view_capture_failed v)"
  "(\<And>c s a'. v = Some (c, s, Some a') \<Longrightarrow> a' = a) \<Longrightarrow> view_le v (map_option (view_alert a) v)"
  by (cases v; force simp: view_le_def)+

locale snapshot_outbox =
  fixes view :: "'t \<Rightarrow> uuid \<Rightarrow> snapshot_view option"
    and create :: "fault \<Rightarrow> fault \<Rightarrow> datetime \<Rightarrow> event_table \<Rightarrow> uuid \<Rightarrow> string \<Rightarrow> string \<Rightarrow> int \<Rightarrow> string
                   \<Rightarrow> 't \<Rightarrow> (exn + snapshot_record) \<times> 't"
    and associate :: "fault \<Rightarrow> uuid \<Rightarrow> string \<Rightarrow> 't \<Rightarrow> (exn + bool) \<times> 't"
    and uploaded :: "fault \<Rightarrow> uuid \<Rightarrow> datetime \<Rightarrow> 't \<Rightarrow> (exn + bool) \<times> 't"
    and attempt :: "fault \<Rightarrow> uuid \<Rightarrow> datetime \<Rightarrow> string \<Rightarrow> 't \<Rightarrow> (exn + unit) \<times> 't"
    and failed :: "fault \<Rightarrow> uuid \<Rightarrow> 't \<Rightarrow> (exn + bool) \<times> 't"
    and cancel :: "fault \<Rightarrow> uuid \<Rightarrow> 't \<Rightarrow> (exn + bool) \<times> 't"
  assumes create_law: "create f f2 c evs u p ct n sha t = (rc, t') \<Longrightarrow> t' = t \<or>
      (view t u = None \<and> view t' = (view t)(u \<mapsto> (CAPTURED, US_PENDING, None)))"
    and associate_law: "associate f u a t = (rb, t') \<Longrightarrow> t' = t \<or>
      (view t' = (\<lambda>v. if v = u then map_option (view_alert a) (view t v) else view t v)
       \<and> (\<forall>x s a'. view t u = Some (x, s, Some a') \<longrightarrow> a' = a))"
    and uploaded_law: "uploaded f u w t = (rb, t') \<Longrightarrow> t' = t \<or>
      view t' = (\<lambda>v. if v = u then map_option view_uploaded (view t v) else view t v)"
    and attempt_law: "view (snd (attempt f u w k t)) = view t"
    and failed_law: "failed f u t = (rb, t') \<Longrightarrow> t' = t \<or>
      view t' = (\<lambda>v. if v = u then map_option view_capture_failed (view t v) else view t v)"
    and cancel_law: "cancel f u t = (rb, t') \<Longrightarrow> t' = t \<or>
      view t' = (\<lambda>v. if v = u then map_option view_cancelled (view t v) else view t v)"
begin

text \<open>One call of any writer.\<close>

inductive writes :: "'t \<Rightarrow> 't \<Rightarrow> bool" where
  w_create: "writes t (snd (create f f2 c evs u p ct n sha t))"
| w_associate: "writes t (snd (associate f u a t))"
| w_uploaded: "writes t (snd (uploaded f u w t))"
| w_attempt: "writes t (snd (attempt f u w k t))"
| w_failed: "writes t (snd (failed f u t))"
| w_cancel: "writes t (snd (cancel f u t))"

lemma create_monotone: "view_le (view t v) (view (snd (create f f2 c evs u p ct n sha t)) v)"
  using create_law [of f f2 c evs u p ct n sha t _ "snd (create f f2 c evs u p ct n sha t)"]
  by (cases "create f f2 c evs u p ct n sha t") (auto simp: view_le_def split: option.splits)

lemma associate_monotone: "view_le (view t v) (view (snd (associate f u a t)) v)"
  using associate_law [of f u a t "fst (associate f u a t)" "snd (associate f u a t)"]
  by (auto simp: view_le_refl view_le_map)

lemma uploaded_monotone: "view_le (view t v) (view (snd (uploaded f u w t)) v)"
  using uploaded_law [of f u w t "fst (uploaded f u w t)" "snd (uploaded f u w t)"]
  by (auto simp: view_le_refl view_le_map)

lemma failed_monotone: "view_le (view t v) (view (snd (failed f u t)) v)"
  using failed_law [of f u t "fst (failed f u t)" "snd (failed f u t)"]
  by (auto simp: view_le_refl view_le_map)

lemma cancel_monotone: "view_le (view t v) (view (snd (cancel f u t)) v)"
  using cancel_law [of f u t "fst (cancel f u t)" "snd (cancel f u t)"]
  by (auto simp: view_le_refl view_le_map)

lemma writes_monotone: "writes t t' \<Longrightarrow> view_le (view t v) (view t' v)"
  by (erule writes.cases)
     (simp_all add: create_monotone associate_monotone uploaded_monotone failed_monotone
        cancel_monotone attempt_law view_le_refl)

lemma writes_star_monotone: "writes\<^sup>*\<^sup>* t t' \<Longrightarrow> view_le (view t v) (view t' v)"
  by (induction rule: rtranclp_induct) (auto intro: view_le_refl view_le_trans writes_monotone)

end

interpretation sqlite_snapshots: snapshot_outbox snapshot_view create_captured associate_alert_id
  mark_uploaded record_attempt_failure mark_capture_failed cancel_for_quota
proof (unfold_locales, goal_cases)
  case (1 f f2 c evs u p ct n sha t r t')
  then show ?case using create_captured_view by blast
next
  case (2 f u a t r t')
  show ?case
  proof (cases r)
    case (Inl e)
    with 2 show ?thesis by (simp add: associate_alert_id_def outcome_simps)
  next
    case (Inr b)
    with 2 associate_alert_id_view show ?thesis by blast
  qed
next
  case (3 f u w t r t')
  show ?case
  proof (cases r)
    case (Inl e)
    with 3 show ?thesis by (auto simp: mark_uploaded_def dest: guarded_update_fails split: sum.splits)
  next
    case (Inr b)
    with 3 mark_uploaded_view show ?thesis by blast
  qed
next
  case (4 f u w c t)
  then show ?case by (rule record_attempt_failure_view)
next
  case (5 f u t r t')
  show ?case
  proof (cases r)
    case (Inl e)
    with 5 show ?thesis by (auto simp: mark_capture_failed_def dest: guarded_update_fails split: sum.splits)
  next
    case (Inr b)
    with 5 mark_capture_failed_view show ?thesis by blast
  qed
next
  case (6 f u t r t')
  show ?case
  proof (cases r)
    case (Inl e)
    with 6 show ?thesis by (auto simp: cancel_for_quota_def dest: guarded_update_fails split: sum.splits)
  next
    case (Inr b)
    with 6 cancel_for_quota_view show ?thesis by blast
  qed
qed

section \<open>Calls of the repository as a step relation\<close>

inductive snapshot_call :: "snapshot_table \<Rightarrow> snapshot_table \<Rightarrow> bool" where
  call_create: "0 \<le> n \<Longrightarrow> snapshot_call t (snd (create_captured f f2 clock events u path ct n sha t))"
| call_associate: "snapshot_call t (snd (associate_alert_id f u a t))"
| call_uploaded: "snapshot_call t (snd (mark_uploaded f u when t))"
| call_attempt: "snapshot_call t (snd (record_attempt_failure f u when category t))"
| call_capture_failed: "snapshot_call t (snd (mark_capture_failed f u t))"
| call_cancel: "snapshot_call t (snd (cancel_for_quota f u t))"

inductive_cases snapshot_callE: "snapshot_call t t'"

lemma snapshot_call_writes: "snapshot_call t t' \<Longrightarrow> sqlite_snapshots.writes t t'"
  by (elim snapshot_callE) (simp_all add: sqlite_snapshots.writes.intros)

lemma snapshot_calls_writes: "snapshot_call\<^sup>*\<^sup>* t t' \<Longrightarrow> sqlite_snapshots.writes\<^sup>*\<^sup>* t t'"
  by (rule mono_rtranclp [rule_format, of snapshot_call]) (auto intro: snapshot_call_writes)

lemma snapshot_call_wf: "snapshot_call t t' \<Longrightarrow> snapshot_table_wf t \<Longrightarrow> snapshot_table_wf t'"
  by (elim snapshot_callE)
     (simp_all add: create_captured_wf associate_alert_id_wf mark_uploaded_wf
        record_attempt_failure_wf mark_capture_failed_wf cancel_for_quota_wf)

lemma snapshot_calls_wf: "snapshot_call\<^sup>*\<^sup>* t t' \<Longrightarrow> snapshot_table_wf t \<Longrightarrow> snapshot_table_wf t'"
  by (induction rule: rtranclp_induct) (auto intro: snapshot_call_wf)

section \<open>Properties\<close>

text \<open>
  C35.  The lifecycle of a snapshot row never goes back, over any sequence of repository calls: a
  row is never deleted, \<^verbatim>\<open>capture_failed\<close> stays, \<^verbatim>\<open>uploaded\<close> and \<^verbatim>\<open>suppressed_by_quota\<close> stay, and an
  alert id once set is never overwritten; the table keeps its key and its column invariants.
\<close>

theorem snapshot_lifecycle_monotone:
  assumes "snapshot_call\<^sup>*\<^sup>* t t'"
  shows "view_le (snapshot_view t u) (snapshot_view t' u)
    \<and> (snapshot_table_wf t \<longrightarrow> snapshot_table_wf t')"
  using sqlite_snapshots.writes_star_monotone [OF snapshot_calls_writes [OF assms]]
    snapshot_calls_wf [OF assms] by blast

definition demo_snapshot :: snapshot_row where
  "demo_snapshot = (new_snapshot_row 5 ''/spool/5.jpg'' ''image/jpeg'' 100 ''ab'' (IsoUtc 3))
     \<lparr>sr_upload_status := US_UPLOADED, sr_uploaded_at_utc := Some (IsoUtc 4),
      sr_backend_alert_id := Some ''A''\<rparr>"

theorem snapshot_lifecycle_monotone_witness:
  "view_le (snapshot_view [demo_snapshot] 5) (snapshot_view (snd (cancel_for_quota None 5 [demo_snapshot])) 5)"
  by (rule snapshot_lifecycle_monotone [THEN conjunct1]) (rule r_into_rtranclp, rule call_cancel)

text \<open>
  When the Backend's answer reaches the Agent before the capture, what it said is lost for
  good: \<^verbatim>\<open>associate_alert_id\<close> and \<^verbatim>\<open>cancel_for_quota\<close> find no row, report \<^verbatim>\<open>False\<close> and change
  nothing, and the row the capture creates afterwards is pending with no alert id.  It is neither
  cancelled nor ready for upload, although the event itself has by then left the outbox and its
  answer will not come again.
\<close>

theorem answer_before_capture_is_lost:
  assumes "snapshot_view t u = None" and "has_tz clock" and "sqlite_int n"
    and "\<exists>e \<in> set events. er_event_id e = str_uuid u"
  shows "associate_alert_id None u a t = (Inr False, t) \<and> cancel_for_quota None u t = (Inr False, t)
    \<and> snapshot_view (snd (create_captured None f2 clock events u path ct n sha t)) u
        = Some (CAPTURED, US_PENDING, None)
    \<and> \<not> view_ready (snapshot_view (snd (create_captured None f2 clock events u path ct n sha t)) u)"
proof -
  have none: "\<forall>r \<in> set t. \<not> has_id u r"
    using assms(1) by (simp add: snapshot_view_def find_row_None)
  then have "count_rows (\<lambda>r. has_id u r \<and> sr_upload_status r = US_PENDING) t = 0"
    "update_rows (\<lambda>r. has_id u r \<and> sr_upload_status r = US_PENDING) g t = t" for g
    by (auto simp: count_rows_0 update_rows_none)
  then have cancel: "cancel_for_quota None u t = (Inr False, t)"
    by (simp add: cancel_for_quota_def guarded_update_Inr)
  let ?t = "snd (create_captured None f2 clock events u path ct n sha t)"
  have "?t \<noteq> t" using assms(2-4) none by (simp add: create_captured_snd)
  then have "snapshot_view ?t = (snapshot_view t)(u \<mapsto> (CAPTURED, US_PENDING, None))"
    using create_captured_view [of None f2 clock events u path ct n sha t _ ?t] by (metis prod.collapse)
  then show ?thesis
    using assms(1) cancel by (simp add: associate_alert_id_cases view_ready_def)
qed

theorem answer_before_capture_is_lost_witness:
  "associate_alert_id None 5 ''A'' [] = (Inr False, []) \<and>
   \<not> view_ready (snapshot_view (snd (create_captured None None (Aware 3) [demo_row DS_DELIVERED] 5
       ''/spool/5.jpg'' ''image/jpeg'' 100 ''ab'' [])) 5)"
  using answer_before_capture_is_lost [of "[]" 5 "Aware 3" 100 "[demo_row DS_DELIVERED]" "''A''" None
      "''/spool/5.jpg''" "''image/jpeg''" "''ab''"]
  by (simp add: snapshot_view_def find_row_def sqlite_int_def demo_row_def new_event_row_def demo_event_def)

text \<open>
  Only complete rows are uploaded: on a well-formed table \<^verbatim>\<open>list_upload_ready(limit)\<close> succeeds,
  and every record it returns belongs to a row that is captured, still pending and carries an
  alert id, the one the record shows.
\<close>

theorem upload_ready_rows_complete:
  assumes "snapshot_table_wf t" and "0 < limit"
  shows "\<exists>xs. list_upload_ready None limit t = Inr xs \<and> length xs \<le> nat limit
    \<and> (\<forall>x \<in> set xs. view_ready (snapshot_view t (so_event_id x))
         \<and> snapshot_view t (so_event_id x) = Some (so_capture_status x, so_upload_status x, so_backend_alert_id x))"
proof -
  obtain xs where xs: "list_upload_ready None limit t = Inr xs"
    using list_upload_ready_Inr [OF assms] by blast
  then have all2: "list_all2 (\<lambda>r x. row_to_record r = Inr x) (select_upload_ready (nat limit) t) xs"
    using assms(2) by (simp add: list_upload_ready_def map_result_all2)
  have good: "view_ready (snapshot_view t (so_event_id x)) \<and>
      snapshot_view t (so_event_id x) = Some (so_capture_status x, so_upload_status x, so_backend_alert_id x)"
    if "x \<in> set xs" for x
  proof -
    obtain r where r: "r \<in> set (select_upload_ready (nat limit) t)" "row_to_record r = Inr x"
      using list_all2_source [OF all2 \<open>x \<in> set xs\<close>] by blast
    then have rt: "r \<in> set t" "upload_ready r"
      by (auto simp: select_upload_ready_def dest!: in_set_takeD)
    then have wf: "snapshot_row_wf r" using assms(1) by (auto simp: snapshot_table_wf_def list_all_iff)
    obtain y where "row_to_record r = Inr y" "sr_event_id r = str_uuid (so_event_id y)"
      "so_capture_status y = sr_capture_status r" "so_upload_status y = sr_upload_status r"
      "so_backend_alert_id y = sr_backend_alert_id r"
      using row_to_record_wf [OF wf] by metis
    with r(2) have y: "has_id (so_event_id x) r" "row_view r = (so_capture_status x, so_upload_status x, so_backend_alert_id x)"
      by (simp_all add: has_id_def row_view_def)
    have "find_row (has_id (so_event_id x)) t = Some r"
      unfolding has_id_def [abs_def]
      by (rule find_row_unique) (use assms(1) rt(1) y(1) in \<open>auto simp: snapshot_table_wf_def has_id_def\<close>)
    with y(2) have v: "snapshot_view t (so_event_id x) = Some (so_capture_status x, so_upload_status x, so_backend_alert_id x)"
      by (simp add: snapshot_view_def)
    from rt(2) y(2) v show ?thesis by (auto simp: upload_ready_def view_ready_def row_view_def)
  qed
  have "length xs \<le> nat limit"
    using list_all2_lengthD [OF all2] by (simp add: select_upload_ready_def)
  with xs good show ?thesis by blast
qed

definition demo_ready :: snapshot_row where
  "demo_ready = (new_snapshot_row 5 ''/spool/5.jpg'' ''image/jpeg'' 100 ''ab'' (IsoUtc 3))
     \<lparr>sr_backend_alert_id := Some ''A''\<rparr>"

lemma demo_ready_wf: "snapshot_table_wf [demo_ready]"
  by (auto simp: snapshot_table_wf_def snapshot_row_wf_def demo_ready_def new_snapshot_row_def opt_iso_utc_def)

theorem upload_ready_rows_complete_witness:
  "\<exists>xs. list_upload_ready None 5 [demo_ready] = Inr xs \<and> length xs \<le> 5"
  using upload_ready_rows_complete [OF demo_ready_wf, of 5] by auto

end
