(* ===== verification/SnapshotCapture.thy ===== *)
theory SnapshotCapture
  imports SnapshotStore
begin

text \<open>
  \<^verbatim>\<open>detection/snapshot_capture.py\<close>: validation of a captured JPEG, the size of the spool, the atomic
  write of a snapshot file and the reconciliation of the spool at startup.  SHA-256 is an argument
  of its users.
\<close>

section \<open>The JPEG scanner\<close>

definition JPEG_MAGIC :: bytes where "JPEG_MAGIC = [0xFF, 0xD8, 0xFF]"
definition CONTENT_TYPE_JPEG :: string where "CONTENT_TYPE_JPEG = ''image/jpeg''"

definition SOF_MARKERS :: bytes where
  "SOF_MARKERS = [0xC0, 0xC1, 0xC2, 0xC3, 0xC5, 0xC6, 0xC7, 0xC9, 0xCA, 0xCB, 0xCD, 0xCE, 0xCF]"

definition MARKERS_WITHOUT_LENGTH :: bytes where
  "MARKERS_WITHOUT_LENGTH = [0xD8, 0xD9, 0xD0, 0xD1, 0xD2, 0xD3, 0xD4, 0xD5, 0xD6, 0xD7]"

text \<open>\<open>py_slice a b xs\<close> is \<^verbatim>\<open>xs[a:b]\<close> for indices that are not negative.\<close>

definition py_slice :: "nat \<Rightarrow> nat \<Rightarrow> 'a list \<Rightarrow> 'a list" where
  "py_slice a b xs = take (b - a) (drop a xs)"

text \<open>The \<^verbatim>\<open>while\<close> loop from position \<open>i\<close>; the result is (width, height).\<close>

function jpeg_scan :: "bytes \<Rightarrow> nat \<Rightarrow> (nat \<times> nat) option" where
  "jpeg_scan data i =
     (if length data \<le> i + 1 then None
      else if data ! i \<noteq> 0xFF then jpeg_scan data (i + 1)
      else if data ! (i + 1) = 0xFF then jpeg_scan data (i + 1)
      else if data ! (i + 1) \<in> set MARKERS_WITHOUT_LENGTH then jpeg_scan data (i + 2)
      else if length data < i + 4 then None
      else let seg_len = from_bytes (py_slice (i + 2) (i + 4) data)
           in if seg_len < 2 then None
              else if data ! (i + 1) \<in> set SOF_MARKERS
              then (if length data < i + 2 + 2 + 1 + 4 then None
                    else Some (from_bytes (py_slice (i + 7) (i + 9) data),
                               from_bytes (py_slice (i + 5) (i + 7) data)))
              else jpeg_scan data (i + 2 + seg_len))"
  by pat_completeness auto
termination by (relation "measure (\<lambda>(data, i). length data - i)") auto

declare jpeg_scan.simps [simp del]

definition parse_jpeg_dimensions :: "bytes \<Rightarrow> (nat \<times> nat) option" where
  "parse_jpeg_dimensions data =
     (if length data < 4 \<or> take 2 data \<noteq> [0xFF, 0xD8] then None else jpeg_scan data 2)"

definition validate_snapshot_bytes :: "bytes \<Rightarrow> int \<Rightarrow> exn + (nat \<times> nat)" where
  "validate_snapshot_bytes data max_file_bytes =
     bind_result (raise_if (data = []) (SnapshotValidationError ''empty_payload'')) (\<lambda>_.
     bind_result (raise_if (int (length data) > max_file_bytes) (SnapshotValidationError ''oversized_file'')) (\<lambda>_.
     bind_result (raise_if (take 3 data \<noteq> JPEG_MAGIC) (SnapshotValidationError ''invalid_jpeg_magic'')) (\<lambda>_.
     case parse_jpeg_dimensions data of
       None \<Rightarrow> Inl (SnapshotValidationError ''undecodable_dimensions'')
     | Some (w, h) \<Rightarrow>
         if w \<le> 0 \<or> h \<le> 0 then Inl (SnapshotValidationError ''undecodable_dimensions'') else Inr (w, h))))"

section \<open>The spool\<close>

text \<open>
  The entries \<^verbatim>\<open>glob("*.jpg")\<close> yields are an argument (names in the order the directory has them),
  as is \<^verbatim>\<open>is_dir()\<close>.  \<open>faults\<close> says which \<^verbatim>\<open>stat()\<close> calls fail; an entry that has vanished fails.
\<close>

definition spool_entry :: "string \<Rightarrow> string \<Rightarrow> string" where
  "spool_entry spool name = spool @ ''/'' @ name"

definition snapshot_name :: "uuid \<Rightarrow> string" where
  "snapshot_name u = str_uuid u @ ''.jpg''"

definition spool_usage_bytes :: "string \<Rightarrow> bool \<Rightarrow> string list \<Rightarrow> (string \<Rightarrow> bool) \<Rightarrow> files \<Rightarrow> int" where
  "spool_usage_bytes spool is_dir entries stat_fails fs =
     (if \<not> is_dir then 0
      else fold (\<lambda>name total. case fs (spool_entry spool name) of
                   None \<Rightarrow> total
                 | Some content \<Rightarrow> if stat_fails name then total else total + int (length content)) entries 0)"

text \<open>
  The faults of one atomic write: at \<^verbatim>\<open>mkdir\<close> or the directory's \<^verbatim>\<open>chmod\<close>, at opening the temporary
  file, after some of the data was written (or at \<^verbatim>\<open>flush\<close> or \<^verbatim>\<open>fsync\<close>), at the file's \<^verbatim>\<open>chmod\<close> or
  \<^verbatim>\<open>os.replace\<close>, and at the clean-up.  \<open>wf_chunks\<close> are the lengths of the prefixes that reach the
  temporary file, one after the other.
\<close>

record write_faults =
  wf_directory :: fault
  wf_open :: fault
  wf_write :: fault
  wf_replace :: fault
  wf_cleanup :: fault
  wf_chunks :: "nat list"

text \<open>
  The result together with the file system after every step, newest first: what a crash at that
  point would leave, and what a concurrent reader would see.
\<close>

definition cleanup_temp :: "fault \<Rightarrow> string \<Rightarrow> exn \<Rightarrow> files list \<Rightarrow> (exn + string) \<times> files list" where
  "cleanup_temp fault temp e steps =
     (if hd steps temp = None then (Inl e, steps)
      else case fault of
             Some e' \<Rightarrow> (Inl e', steps)
           | None \<Rightarrow> (Inl e, (hd steps)(temp := None) # steps))"

definition write_snapshot_atomic ::
  "write_faults \<Rightarrow> string \<Rightarrow> string \<Rightarrow> uuid \<Rightarrow> bytes \<Rightarrow> files \<Rightarrow> (exn + string) \<times> files list" where
  "write_snapshot_atomic f spool fresh_hex event_id data fs =
     (let final = spool_entry spool (snapshot_name event_id);
          temp = spool_entry spool (''.'' @ str_uuid event_id @ ''.'' @ fresh_hex @ ''.tmp'')
      in case wf_directory f of
           Some e \<Rightarrow> (Inl e, [fs])
         | None \<Rightarrow>
             (case wf_open f of
                Some e \<Rightarrow> cleanup_temp (wf_cleanup f) temp e [fs]
              | None \<Rightarrow>
                  let written = rev (map (\<lambda>k. fs(temp \<mapsto> take k data)) (0 # wf_chunks f)) @ [fs]
                  in case wf_write f of
                       Some e \<Rightarrow> cleanup_temp (wf_cleanup f) temp e written
                     | None \<Rightarrow>
                         let complete = fs(temp \<mapsto> data) # written
                         in case wf_replace f of
                              Some e \<Rightarrow> cleanup_temp (wf_cleanup f) temp e complete
                            | None \<Rightarrow> (Inr final, fs(temp := None, final \<mapsto> data) # complete)))"

section \<open>Reconciliation\<close>

record reconcile_input =
  rc_ids_fault :: fault
  rc_get_fault :: "uuid \<Rightarrow> fault"
  rc_mark_fault :: "uuid \<Rightarrow> fault"
  rc_is_dir :: bool
  rc_entries :: "string list"
  rc_unlink_fails :: "string \<Rightarrow> bool"

text \<open>The loop over the known ids swallows what \<^verbatim>\<open>get\<close> and \<^verbatim>\<open>mark_capture_failed\<close> raise.\<close>

definition reconcile_row :: "reconcile_input \<Rightarrow> files \<Rightarrow> uuid \<Rightarrow> snapshot_table \<Rightarrow> snapshot_table" where
  "reconcile_row inp fs u t =
     (case get_snapshot (rc_get_fault inp u) u t of
        Inr (Some rec) \<Rightarrow>
          if so_capture_status rec \<noteq> CAPTURED then t
          else if fs (so_local_path rec) \<noteq> None then t
          else snd (mark_capture_failed (rc_mark_fault inp u) u t)
      | _ \<Rightarrow> t)"

definition entry_stem :: "string \<Rightarrow> string" where
  "entry_stem name = take (length name - 4) name"

definition reconcile_entry :: "reconcile_input \<Rightarrow> string \<Rightarrow> uuid list \<Rightarrow> string \<Rightarrow> files \<Rightarrow> files" where
  "reconcile_entry inp spool known name fs =
     (if entry_stem name \<in> str_uuid ` set known then fs
      else if rc_unlink_fails inp name then fs
      else fs(spool_entry spool name := None))"

definition reconcile_snapshot_spool ::
  "reconcile_input \<Rightarrow> string \<Rightarrow> snapshot_table \<Rightarrow> files \<Rightarrow> snapshot_table \<times> files" where
  "reconcile_snapshot_spool inp spool t fs =
     (case list_all_event_ids (rc_ids_fault inp) t of
        Inl _ \<Rightarrow> (t, fs)
      | Inr ids \<Rightarrow>
          let known = remdups ids
          in (fold (reconcile_row inp fs) known t,
              if rc_is_dir inp then fold (reconcile_entry inp spool known) (rc_entries inp) fs else fs))"

section \<open>The scanner finds the frame header\<close>

text \<open>
  What may precede the frame header of a JPEG file: marker segments with their length, markers
  without one, fill bytes, and stray bytes the scanner skips.
\<close>

datatype jpeg_part = Segment "8 word" bytes | Standalone "8 word" | Fill | Stray "8 word"

fun jpeg_bytes :: "jpeg_part \<Rightarrow> bytes" where
  "jpeg_bytes (Segment m body) = [0xFF, m] @ be_bytes 2 (length body + 2) @ body"
| "jpeg_bytes (Standalone m) = [0xFF, m]"
| "jpeg_bytes Fill = [0xFF]"
| "jpeg_bytes (Stray b) = [b]"

fun part_ok :: "jpeg_part \<Rightarrow> bool" where
  "part_ok (Segment m body) \<longleftrightarrow> m \<noteq> 0xFF \<and> m \<notin> set MARKERS_WITHOUT_LENGTH \<and> m \<notin> set SOF_MARKERS
     \<and> length body + 2 < 65536"
| "part_ok (Standalone m) \<longleftrightarrow> m \<in> set MARKERS_WITHOUT_LENGTH"
| "part_ok Fill \<longleftrightarrow> True"
| "part_ok (Stray b) \<longleftrightarrow> b \<noteq> 0xFF"

definition frame_header :: "8 word \<Rightarrow> nat \<Rightarrow> 8 word \<Rightarrow> nat \<Rightarrow> nat \<Rightarrow> bytes" where
  "frame_header m seg_len precision height width =
     [0xFF, m] @ be_bytes 2 seg_len @ [precision] @ be_bytes 2 height @ be_bytes 2 width"

lemma markers_not_fill: "(0xFF :: 8 word) \<notin> set MARKERS_WITHOUT_LENGTH" "(0xFF :: 8 word) \<notin> set SOF_MARKERS"
  by (simp_all add: MARKERS_WITHOUT_LENGTH_def SOF_MARKERS_def)

lemma markers_disjoint: "m \<in> set SOF_MARKERS \<Longrightarrow> m \<notin> set MARKERS_WITHOUT_LENGTH"
  by (auto simp: MARKERS_WITHOUT_LENGTH_def SOF_MARKERS_def)

lemma py_slice_at: "length pre = a \<Longrightarrow> length xs = n \<Longrightarrow> b = a + n \<Longrightarrow> py_slice a b (pre @ xs @ rest) = xs"
  by (simp add: py_slice_def)

lemma nth_at: "length pre = a \<Longrightarrow> (pre @ x # rest) ! a = x"
  by (metis nth_append_length)

lemma nth_after: "length pre = a \<Longrightarrow> (pre @ x # y # rest) ! Suc a = y"
  using nth_at [of "pre @ [x]" "Suc a" y rest] by simp

lemma jpeg_scan_part:
  assumes "part_ok p" and "rest \<noteq> []" and "p = Fill \<longrightarrow> hd rest = 0xFF"
  shows "jpeg_scan (pre @ jpeg_bytes p @ rest) (length pre) = jpeg_scan (pre @ jpeg_bytes p @ rest) (length pre + length (jpeg_bytes p))"
proof (cases p)
  case (Segment m body)
  let ?d = "pre @ [0xFF, m] @ be_bytes 2 (length body + 2) @ body @ rest"
  have m: "?d ! length pre = 0xFF" "?d ! Suc (length pre) = m" by (simp_all add: nth_at nth_after)
  have "py_slice (length pre + 2) (length pre + 4) ((pre @ [0xFF, m]) @ be_bytes 2 (length body + 2) @ (body @ rest))
      = be_bytes 2 (length body + 2)"
    by (rule py_slice_at [where n = 2]) simp_all
  then have s: "from_bytes (py_slice (length pre + 2) (length pre + 4) ?d) = length body + 2"
    using assms(1) Segment by (simp add: from_bytes_be_bytes del: be_bytes.simps)
  have l: "length ?d = length pre + 4 + length body + length rest" by simp
  have "jpeg_scan ?d (length pre) = jpeg_scan ?d (length pre + 2 + (length body + 2))"
    using assms(1) Segment m s l by (subst jpeg_scan.simps) (simp add: Let_def del: be_bytes.simps)
  then show ?thesis using Segment by (simp add: ac_simps del: be_bytes.simps)
next
  case (Standalone m)
  then have "m \<noteq> 0xFF" using assms(1) markers_not_fill(1) by auto
  then show ?thesis
    using assms Standalone nth_at [of pre "length pre" "0xFF" "m # rest"] nth_after [of pre "length pre" "0xFF" m rest]
    by (subst jpeg_scan.simps) simp
next
  case Fill
  then obtain r where "rest = 0xFF # r" using assms(2,3) by (cases rest) auto
  then show ?thesis
    using Fill nth_at [of pre "length pre" "0xFF" "0xFF # r"] nth_after [of pre "length pre" "0xFF" "0xFF" r]
    by (subst jpeg_scan.simps) simp
next
  case (Stray b)
  then show ?thesis
    using assms nth_at [of pre "length pre" b rest] by (subst jpeg_scan.simps) simp
qed

lemma jpeg_scan_frame:
  assumes "m \<in> set SOF_MARKERS" and "2 \<le> seg_len" "seg_len < 65536" and "height < 65536" and "width < 65536"
  shows "jpeg_scan (pre @ frame_header m seg_len precision height width @ rest) (length pre) = Some (width, height)"
proof -
  let ?d = "pre @ [0xFF, m] @ be_bytes 2 seg_len @ [precision] @ be_bytes 2 height @ be_bytes 2 width @ rest"
  have m: "?d ! length pre = 0xFF" "?d ! Suc (length pre) = m" by (simp_all add: nth_at nth_after)
  have "m \<noteq> 0xFF" using assms(1) markers_not_fill(2) by auto
  have "py_slice (length pre + 2) (length pre + 4) ((pre @ [0xFF, m]) @ be_bytes 2 seg_len
      @ ([precision] @ be_bytes 2 height @ be_bytes 2 width @ rest)) = be_bytes 2 seg_len"
    by (rule py_slice_at [where n = 2]) simp_all
  then have s: "from_bytes (py_slice (length pre + 2) (length pre + 4) ?d) = seg_len"
    using assms by (simp add: from_bytes_be_bytes del: be_bytes.simps)
  have "py_slice (length pre + 5) (length pre + 7) ((pre @ [0xFF, m] @ be_bytes 2 seg_len @ [precision])
      @ be_bytes 2 height @ (be_bytes 2 width @ rest)) = be_bytes 2 height"
    by (rule py_slice_at [where n = 2]) simp_all
  then have h: "from_bytes (py_slice (length pre + 5) (length pre + 7) ?d) = height"
    using assms by (simp add: from_bytes_be_bytes del: be_bytes.simps)
  have "py_slice (length pre + 7) (length pre + 9) ((pre @ [0xFF, m] @ be_bytes 2 seg_len @ [precision] @ be_bytes 2 height)
      @ be_bytes 2 width @ rest) = be_bytes 2 width"
    by (rule py_slice_at [where n = 2]) simp_all
  then have w: "from_bytes (py_slice (length pre + 7) (length pre + 9) ?d) = width"
    using assms by (simp add: from_bytes_be_bytes del: be_bytes.simps)
  have l: "length pre + 9 \<le> length ?d" by simp
  have "jpeg_scan ?d (length pre) = Some (width, height)"
    using assms(1,2) \<open>m \<noteq> 0xFF\<close> markers_disjoint [OF assms(1)] m s h w l
    by (subst jpeg_scan.simps) (simp add: Let_def del: be_bytes.simps)
  then show ?thesis by (simp add: frame_header_def del: be_bytes.simps)
qed

text \<open>A fill byte is one only when another \<open>0xFF\<close> follows.\<close>

fun parts_ok :: "jpeg_part list \<Rightarrow> bool" where
  "parts_ok [] = True"
| "parts_ok [p] = part_ok p"
| "parts_ok (p # q # ps) = (part_ok p \<and> (p = Fill \<longrightarrow> hd (jpeg_bytes q) = 0xFF) \<and> parts_ok (q # ps))"

lemma jpeg_bytes_nonempty [simp]: "jpeg_bytes p \<noteq> []"
  by (cases p) simp_all

lemma jpeg_scan_parts:
  assumes "parts_ok ps" and "rest = 0xFF # rest'"
  shows "jpeg_scan (pre @ concat (map jpeg_bytes ps) @ rest) (length pre)
       = jpeg_scan (pre @ concat (map jpeg_bytes ps) @ rest) (length pre + length (concat (map jpeg_bytes ps)))"
  using assms(1)
proof (induction ps arbitrary: pre)
  case Nil
  then show ?case by simp
next
  case (Cons p ps)
  let ?r = "concat (map jpeg_bytes ps) @ rest"
  have ok: "part_ok p" "parts_ok ps" "p = Fill \<longrightarrow> hd ?r = 0xFF"
    using Cons.prems assms(2) by (cases ps; auto)+
  have "jpeg_scan (pre @ jpeg_bytes p @ ?r) (length pre) = jpeg_scan (pre @ jpeg_bytes p @ ?r) (length pre + length (jpeg_bytes p))"
    by (rule jpeg_scan_part) (use ok assms(2) in auto)
  also have "\<dots> = jpeg_scan ((pre @ jpeg_bytes p) @ ?r) (length (pre @ jpeg_bytes p))" by simp
  also have "\<dots> = jpeg_scan ((pre @ jpeg_bytes p) @ ?r) (length (pre @ jpeg_bytes p) + length (concat (map jpeg_bytes ps)))"
    by (rule Cons.IH [OF ok(2)])
  finally show ?case by (simp add: ac_simps)
qed

text \<open>
  The JPEG scanner finds the dimensions of every well-formed file: after the start marker, any
  sequence of marker segments, standalone markers and fill bytes, and then a start-of-frame
  segment, it returns exactly the width and the height stored there, whatever follows.
\<close>

theorem jpeg_dimensions_found:
  assumes "parts_ok parts" and "m \<in> set SOF_MARKERS" and "2 \<le> seg_len" and "seg_len < 65536"
    and "height < 65536" and "width < 65536"
  shows "parse_jpeg_dimensions
      ([0xFF, 0xD8] @ concat (map jpeg_bytes parts) @ frame_header m seg_len precision height width @ rest)
    = Some (width, height)"
proof -
  let ?c = "concat (map jpeg_bytes parts)"
  let ?f = "frame_header m seg_len precision height width @ rest"
  have f: "?f = 0xFF # tl ?f" "length ?f \<ge> 9" by (simp_all add: frame_header_def)
  have "jpeg_scan ([0xFF, 0xD8] @ ?c @ ?f) (length [0xFF, 0xD8 :: 8 word])
      = jpeg_scan ([0xFF, 0xD8] @ ?c @ ?f) (length [0xFF, 0xD8 :: 8 word] + length ?c)"
    by (rule jpeg_scan_parts [OF assms(1) f(1)])
  also have "\<dots> = jpeg_scan (([0xFF, 0xD8] @ ?c) @ ?f) (length ([0xFF, 0xD8] @ ?c))" by simp
  also have "\<dots> = Some (width, height)" by (rule jpeg_scan_frame [OF assms(2-6)])
  finally show ?thesis using f(2) by (simp add: parse_jpeg_dimensions_def numeral_2_eq_2)
qed

theorem jpeg_dimensions_found_witness:
  "parse_jpeg_dimensions ([0xFF, 0xD8] @ concat (map jpeg_bytes [Segment 0xE0 [74, 70], Fill, Standalone 0xD0])
     @ frame_header 0xC0 11 8 720 1280 @ [1, 2, 3]) = Some (1280, 720)"
  by (rule jpeg_dimensions_found) (simp_all add: SOF_MARKERS_def MARKERS_WITHOUT_LENGTH_def)

section \<open>The atomic write\<close>

lemma spool_entry_inj [simp]: "spool_entry spool a = spool_entry spool b \<longleftrightarrow> a = b"
  by (simp add: spool_entry_def)

lemma hd_str_uuid: "str_uuid u \<noteq> []" "is_hex_digit (hd (str_uuid u))"
proof -
  define h where "h = hex_fixed 32 (unat u)"
  have h: "length h = 32" "\<forall>c \<in> set h. is_hex_digit c" by (auto simp: h_def hex_fixed_digits)
  then obtain c cs where c: "h = c # cs" by (cases h) auto
  have "str_uuid u = c # drop 1 (str_uuid u)"
    unfolding str_uuid_def Let_def h_def [symmetric] c by simp
  moreover have "is_hex_digit c" using h(2) c by simp
  ultimately show "str_uuid u \<noteq> []" "is_hex_digit (hd (str_uuid u))" by (metis list.distinct(1), metis list.sel(1))
qed

lemma temp_not_final: "''.'' @ x \<noteq> snapshot_name u"
proof
  assume eq: "''.'' @ x = snapshot_name u"
  have "hd (snapshot_name u) = hd (str_uuid u)" using hd_str_uuid(1) [of u] by (simp add: snapshot_name_def)
  with hd_str_uuid(2) [of u] have "is_hex_digit (hd (snapshot_name u))" by simp
  then show False unfolding eq [symmetric] by (simp add: is_hex_digit_def)
qed

lemma cleanup_temp_cases:
  assumes "cleanup_temp fault temp e steps = (r, steps')"
  shows "\<exists>e'. r = Inl e' \<and> (steps' = steps \<or> steps' = (hd steps)(temp := None) # steps)"
  using assms by (auto simp: cleanup_temp_def split: if_split_asm option.split_asm)

lemma write_snapshot_effect:
  assumes "write_snapshot_atomic f spool fresh u data fs = (r, steps)"
  defines "final \<equiv> spool_entry spool (snapshot_name u)"
    and "temp \<equiv> spool_entry spool (''.'' @ str_uuid u @ ''.'' @ fresh @ ''.tmp'')"
  shows "(\<forall>g \<in> set steps. g final \<in> {fs final, Some data} \<and> (\<forall>p. p = final \<or> p = temp \<or> g p = fs p))
    \<and> (case r of Inl _ \<Rightarrow> hd steps final = fs final
       | Inr p \<Rightarrow> p = final \<and> hd steps = fs(temp := None, final \<mapsto> data))"
proof -
  have tf: "final \<noteq> temp" "temp \<noteq> final"
    using temp_not_final [of _ u] by (metis final_def temp_def spool_entry_inj)+
  define good where "good g \<longleftrightarrow> g final \<in> {fs final, Some data} \<and> (\<forall>p. p = final \<or> p = temp \<or> g p = fs p)" for g
  let ?ok = "\<lambda>steps. steps \<noteq> [] \<and> hd steps final = fs final \<and> (\<forall>g \<in> set steps. good g)"
  have temp_good: "good (g(temp := v))" if "good g" for g v using that tf by (auto simp: good_def)
  have fs_good: "good fs" by (simp add: good_def)
  have goal: ?thesis
    if "\<forall>g \<in> set steps. good g" and "case r of Inl _ \<Rightarrow> hd steps final = fs final
       | Inr p \<Rightarrow> p = final \<and> hd steps = fs(temp := None, final \<mapsto> data)"
    using that unfolding good_def by blast
  have cleaned: ?thesis if cl: "cleanup_temp fault temp e ss = (r, steps)" and ok: "?ok ss" for fault e ss
  proof -
    obtain e' where r: "r = Inl e'" and s: "steps = ss \<or> steps = (hd ss)(temp := None) # ss"
      using cleanup_temp_cases [OF cl] by blast
    have "good ((hd ss)(temp := None))" using ok by (intro temp_good) (metis hd_in_set)
    with r s ok tf show ?thesis by (intro goal) auto
  qed
  let ?written = "rev (map (\<lambda>k. fs(temp \<mapsto> take k data)) (0 # wf_chunks f)) @ [fs]"
  have written: "?ok ?written"
  proof -
    have all: "\<forall>g \<in> set ?written. good g \<and> g final = fs final"
      using tf temp_good [OF fs_good] fs_good by auto
    moreover have "hd ?written \<in> set ?written" by (rule hd_in_set) simp
    ultimately have "hd ?written final = fs final" by blast
    with all show ?thesis by blast
  qed
  have complete: "?ok (fs(temp \<mapsto> data) # ?written)" using written tf temp_good [OF fs_good] by simp
  note def = write_snapshot_atomic_def Let_def final_def [symmetric] temp_def [symmetric]
  consider e where "wf_directory f = Some e"
    | e where "wf_directory f = None" "wf_open f = Some e"
    | e where "wf_directory f = None" "wf_open f = None" "wf_write f = Some e"
    | e where "wf_directory f = None" "wf_open f = None" "wf_write f = None" "wf_replace f = Some e"
    | "wf_directory f = None" "wf_open f = None" "wf_write f = None" "wf_replace f = None"
    by fastforce
  then show ?thesis
  proof cases
    case (1 e)
    then have "r = Inl e" "steps = [fs]" using assms(1) by (simp_all add: write_snapshot_atomic_def)
    then show ?thesis using fs_good by (intro goal) simp_all
  next
    case (2 e)
    then have "cleanup_temp (wf_cleanup f) temp e [fs] = (r, steps)"
      using assms(1) unfolding def by simp
    then show ?thesis by (rule cleaned) (simp add: fs_good)
  next
    case (3 e)
    then have "cleanup_temp (wf_cleanup f) temp e ?written = (r, steps)"
      using assms(1) unfolding def by simp
    then show ?thesis by (rule cleaned) (rule written)
  next
    case (4 e)
    then have "cleanup_temp (wf_cleanup f) temp e (fs(temp \<mapsto> data) # ?written) = (r, steps)"
      using assms(1) unfolding def by simp
    then show ?thesis by (rule cleaned) (rule complete)
  next
    case 5
    then have "r = Inr final" "steps = fs(temp := None, final \<mapsto> data) # fs(temp \<mapsto> data) # ?written"
      using assms(1) unfolding def by simp_all
    moreover have "good (fs(temp := None, final \<mapsto> data))" using tf by (auto simp: good_def)
    ultimately show ?thesis using complete by (intro goal) auto
  qed
qed

text \<open>
  C37.  The snapshot write is atomic: whatever fails, and after every single step, the file under
  the final name is either what it was or the complete snapshot, and no path but that one and the
  temporary file has changed; when the call raises the final name is untouched at the end, and when
  it returns, it returns that name, the complete snapshot is there and the temporary file is gone.
\<close>

theorem snapshot_write_atomic:
  assumes "write_snapshot_atomic f spool fresh u data fs = (r, steps)"
  defines "final \<equiv> spool_entry spool (snapshot_name u)"
    and "temp \<equiv> spool_entry spool (''.'' @ str_uuid u @ ''.'' @ fresh @ ''.tmp'')"
  shows "(\<forall>g \<in> set steps. g final \<in> {fs final, Some data} \<and> (\<forall>p. p = final \<or> p = temp \<or> g p = fs p))
    \<and> (case r of Inl _ \<Rightarrow> hd steps final = fs final
       | Inr p \<Rightarrow> p = final \<and> hd steps = fs(temp := None, final \<mapsto> data))"
  unfolding final_def temp_def by (rule write_snapshot_effect [OF assms(1)])

definition demo_write_faults :: write_faults where
  "demo_write_faults = \<lparr>wf_directory = None, wf_open = None, wf_write = Some OSError, wf_replace = None,
     wf_cleanup = None, wf_chunks = [1, 2]\<rparr>"

theorem snapshot_write_atomic_witness:
  "(\<lambda>g. g (spool_entry ''/s'' (snapshot_name 5)))
     ` set (snd (write_snapshot_atomic demo_write_faults ''/s'' ''ab'' 5 [7, 8, 9] (\<lambda>_. None)))
   \<subseteq> {None, Some [7, 8, 9]}"
proof -
  obtain r steps where w: "write_snapshot_atomic demo_write_faults ''/s'' ''ab'' 5 [7, 8, 9] (\<lambda>_. None) = (r, steps)"
    by (cases "write_snapshot_atomic demo_write_faults ''/s'' ''ab'' 5 [7, 8, 9] (\<lambda>_. None)")
  show ?thesis using snapshot_write_atomic [OF w] unfolding w by auto
qed

section \<open>The spool at startup\<close>

definition path_of :: "snapshot_table \<Rightarrow> uuid \<Rightarrow> string option" where
  "path_of t u = map_option sr_local_path (find_row (has_id u) t)"

lemma mark_capture_failed_table:
  "snd (mark_capture_failed fault u t) \<in> {t, update_rows (\<lambda>r. has_id u r \<and> sr_capture_status r = CAPTURED)
       (\<lambda>r. r\<lparr>sr_capture_status := CAPTURE_FAILED\<rparr>) t}"
  by (cases fault) (simp_all add: mark_capture_failed_def guarded_update_def transaction_def)

lemma path_of_mark: "path_of (snd (mark_capture_failed fault u t)) v = path_of t v"
proof -
  have "find_row (has_id v) (update_rows p (\<lambda>r. r\<lparr>sr_capture_status := CAPTURE_FAILED\<rparr>) t)
      = map_option (\<lambda>r. if p r then r\<lparr>sr_capture_status := CAPTURE_FAILED\<rparr> else r) (find_row (has_id v) t)" for p
    unfolding has_id_def [abs_def] by (rule find_row_update_rows) simp
  then show ?thesis
    using mark_capture_failed_table [of fault u t] by (cases "find_row (has_id v) t") (auto simp: path_of_def)
qed

lemma get_snapshot_wf:
  assumes "snapshot_table_wf t"
  shows "case find_row (has_id u) t of None \<Rightarrow> get_snapshot None u t = Inr None
    | Some r \<Rightarrow> \<exists>x. get_snapshot None u t = Inr (Some x) \<and> so_capture_status x = sr_capture_status r
        \<and> so_local_path x = sr_local_path r"
proof (cases "find_row (has_id u) t")
  case None
  then show ?thesis by (simp add: get_snapshot_def)
next
  case (Some r)
  then have "snapshot_row_wf r" using assms find_row_SomeD [OF Some] by (simp add: snapshot_table_wf_def list_all_iff)
  then show ?thesis by (rule row_to_record_wf) (simp add: get_snapshot_def Some)
qed

definition reconcile_quiet :: "reconcile_input \<Rightarrow> bool" where
  "reconcile_quiet inp \<longleftrightarrow> rc_ids_fault inp = None \<and> (\<forall>u. rc_get_fault inp u = None \<and> rc_mark_fault inp u = None)"

definition reconciled :: "files \<Rightarrow> snapshot_table \<Rightarrow> uuid \<Rightarrow> snapshot_view option" where
  "reconciled fs t u =
     (case path_of t u of None \<Rightarrow> None
      | Some p \<Rightarrow> if fs p = None then map_option view_capture_failed (snapshot_view t u) else snapshot_view t u)"

lemma view_capture_failed_already: "row_view r = (CAPTURE_FAILED, x) \<Longrightarrow> view_capture_failed (row_view r) = row_view r"
  by (cases x) simp

lemma reconcile_row_spec:
  assumes "snapshot_table_wf t" and "reconcile_quiet inp"
  shows "snapshot_table_wf (reconcile_row inp fs u t)"
    and "path_of (reconcile_row inp fs u t) v = path_of t v"
    and "snapshot_view (reconcile_row inp fs u t) v = (if v = u then reconciled fs t u else snapshot_view t v)"
proof -
  have f: "rc_get_fault inp u = None" "rc_mark_fault inp u = None" using assms(2) by (simp_all add: reconcile_quiet_def)
  show "snapshot_table_wf (reconcile_row inp fs u t)"
    using assms(1) by (auto simp: reconcile_row_def mark_capture_failed_wf split: sum.split option.split)
  show "path_of (reconcile_row inp fs u t) v = path_of t v"
    by (auto simp: reconcile_row_def path_of_mark split: sum.split option.split)
  show "snapshot_view (reconcile_row inp fs u t) v = (if v = u then reconciled fs t u else snapshot_view t v)"
  proof (cases "find_row (has_id u) t")
    case None
    with get_snapshot_wf [OF assms(1), of u] f show ?thesis
      by (simp add: reconcile_row_def reconciled_def path_of_def snapshot_view_def)
  next
    case (Some r)
    then obtain x where x: "get_snapshot None u t = Inr (Some x)" "so_capture_status x = sr_capture_status r"
      "so_local_path x = sr_local_path r" using get_snapshot_wf [OF assms(1), of u] by auto
    have view: "snapshot_view t u = Some (row_view r)" "path_of t u = Some (sr_local_path r)"
      using Some by (simp_all add: snapshot_view_def path_of_def)
    show ?thesis
    proof (cases "sr_capture_status r = CAPTURED \<and> fs (sr_local_path r) = None")
      case True
      obtain b t' where m: "mark_capture_failed None u t = (Inr b, t')"
        by (auto simp: mark_capture_failed_def guarded_update_def transaction_def)
      with mark_capture_failed_view [OF m] True x f view show ?thesis
        by (simp add: reconcile_row_def reconciled_def)
    next
      case False
      then have same: "reconcile_row inp fs u t = t" using x f by (auto simp: reconcile_row_def)
      have "sr_capture_status r = CAPTURE_FAILED \<or> fs (sr_local_path r) \<noteq> None"
        using False by (cases "sr_capture_status r") auto
      then have "reconciled fs t u = snapshot_view t u"
        using view by (auto simp: reconciled_def row_view_def)
      with same show ?thesis by simp
    qed
  qed
qed

lemma reconcile_rows_spec:
  assumes "snapshot_table_wf t" and "reconcile_quiet inp" and "distinct us"
  shows "snapshot_view (fold (reconcile_row inp fs) us t) v
    = (if v \<in> set us then reconciled fs t v else snapshot_view t v)"
  using assms(1,3)
proof (induction us arbitrary: t)
  case Nil
  then show ?case by simp
next
  case (Cons u us)
  note spec = reconcile_row_spec [OF Cons.prems(1) assms(2), of fs u]
  have "snapshot_view (fold (reconcile_row inp fs) us (reconcile_row inp fs u t)) v
      = (if v \<in> set us then reconciled fs (reconcile_row inp fs u t) v else snapshot_view (reconcile_row inp fs u t) v)"
    using Cons.IH [OF spec(1)] Cons.prems(2) by simp
  moreover have "reconciled fs (reconcile_row inp fs u t) v = reconciled fs t v" if "v \<in> set us"
  proof -
    have "v \<noteq> u" using that Cons.prems(2) by auto
    then have "snapshot_view (reconcile_row inp fs u t) v = snapshot_view t v" using spec(3) by simp
    then show ?thesis by (simp add: reconciled_def spec(2) split: option.split)
  qed
  ultimately show ?case using spec(3) Cons.prems(2) by auto
qed

lemma reconcile_entries_spec:
  "fold (reconcile_entry inp spool known) names fs p =
     (if \<exists>name \<in> set names. p = spool_entry spool name \<and> entry_stem name \<notin> str_uuid ` set known
           \<and> \<not> rc_unlink_fails inp name
      then None else fs p)"
  by (induction names arbitrary: fs) (auto simp: reconcile_entry_def)

lemma list_all_event_ids_wf:
  assumes "snapshot_table_wf t"
  shows "\<exists>ids. list_all_event_ids None t = Inr ids \<and> str_uuid ` set ids = sr_event_id ` set t"
proof -
  have rows: "\<exists>u. sr_event_id r = str_uuid u" if "r \<in> set t" for r
    using that assms by (auto simp: snapshot_table_wf_def list_all_iff snapshot_row_wf_def)
  define g where "g r = (case parse_uuid (sr_event_id r) of Inr u \<Rightarrow> u | Inl _ \<Rightarrow> 0)" for r :: snapshot_row
  have g: "sr_event_id r = str_uuid (g r)" if "r \<in> set t" for r
    using rows [OF that] by (auto simp: g_def parse_str_uuid)
  have "map_result (\<lambda>r. parse_uuid (sr_event_id r)) t = Inr (map g t)"
    by (rule map_result_Inr_map) (simp add: g parse_str_uuid)
  moreover have "str_uuid ` set (map g t) = sr_event_id ` set t" using g by force
  ultimately show ?thesis by (auto simp: list_all_event_ids_def)
qed

text \<open>
  The reconciliation of the spool at startup: when no storage call fails, a row becomes
  \<^verbatim>\<open>capture_failed\<close> exactly when its file is missing, no other column of any row changes as a client
  sees it, and a file disappears exactly when it is a \<^verbatim>\<open>*.jpg\<close> entry of the spool whose stem is no
  row's event id and the file system lets it be removed: no row loses its file.
\<close>

theorem spool_reconciled:
  assumes "snapshot_table_wf t" and "reconcile_quiet inp"
    and "reconcile_snapshot_spool inp spool t fs = (t', fs')"
  shows "snapshot_view t' u =
      (case path_of t u of None \<Rightarrow> None
       | Some p \<Rightarrow> if fs p = None then map_option view_capture_failed (snapshot_view t u) else snapshot_view t u)
    \<and> fs' p = (if rc_is_dir inp \<and> (\<exists>name \<in> set (rc_entries inp). p = spool_entry spool name
             \<and> entry_stem name \<notin> sr_event_id ` set t \<and> \<not> rc_unlink_fails inp name)
           then None else fs p)"
proof -
  obtain ids where ids: "list_all_event_ids None t = Inr ids" "str_uuid ` set ids = sr_event_id ` set t"
    using list_all_event_ids_wf [OF assms(1)] by blast
  have t': "t' = fold (reconcile_row inp fs) (remdups ids) t"
    and fs': "fs' = (if rc_is_dir inp then fold (reconcile_entry inp spool (remdups ids)) (rc_entries inp) fs else fs)"
    using assms(2,3) ids(1) by (simp_all add: reconcile_snapshot_spool_def reconcile_quiet_def Let_def)
  have "snapshot_view t u = None \<and> path_of t u = None" if "u \<notin> set ids"
  proof -
    have "find_row (has_id u) t = None"
      using that ids(2) by (auto simp: find_row_None has_id_def image_iff str_uuid_inj) (metis imageE image_eqI str_uuid_inj)
    then show ?thesis by (simp add: snapshot_view_def path_of_def)
  qed
  then have "snapshot_view t' u =
      (case path_of t u of None \<Rightarrow> None
       | Some p \<Rightarrow> if fs p = None then map_option view_capture_failed (snapshot_view t u) else snapshot_view t u)"
    using reconcile_rows_spec [OF assms(1,2), of "remdups ids" fs u] by (auto simp: t' reconciled_def)
  moreover have "fs' p = (if rc_is_dir inp \<and> (\<exists>name \<in> set (rc_entries inp). p = spool_entry spool name
             \<and> entry_stem name \<notin> sr_event_id ` set t \<and> \<not> rc_unlink_fails inp name)
           then None else fs p)"
    by (cases "rc_is_dir inp") (simp_all only: fs' reconcile_entries_spec ids(2) set_remdups if_True if_False simp_thms)
  ultimately show ?thesis by blast
qed

definition demo_reconcile_input :: reconcile_input where
  "demo_reconcile_input = \<lparr>rc_ids_fault = None, rc_get_fault = (\<lambda>_. None), rc_mark_fault = (\<lambda>_. None),
     rc_is_dir = True, rc_entries = [''stray.jpg''], rc_unlink_fails = (\<lambda>_. False)\<rparr>"

theorem spool_reconciled_witness:
  "\<exists>t' fs'. reconcile_snapshot_spool demo_reconcile_input ''/spool'' [demo_ready] (\<lambda>p. if p = ''/spool/stray.jpg'' then Some [1] else None) = (t', fs')
     \<and> snapshot_view t' 5 = Some (CAPTURE_FAILED, US_PENDING, Some ''A'') \<and> fs' ''/spool/stray.jpg'' = None"
proof -
  let ?fs = "\<lambda>p. if p = ''/spool/stray.jpg'' then Some [1 :: 8 word] else None"
  obtain t' fs' where r: "reconcile_snapshot_spool demo_reconcile_input ''/spool'' [demo_ready] ?fs = (t', fs')"
    by (cases "reconcile_snapshot_spool demo_reconcile_input ''/spool'' [demo_ready] ?fs")
  have q: "reconcile_quiet demo_reconcile_input" by (simp add: reconcile_quiet_def demo_reconcile_input_def)
  have e: "''stray'' \<noteq> str_uuid 5" by code_simp
  have d: "path_of [demo_ready] 5 = Some ''/spool/5.jpg''"
    "snapshot_view [demo_ready] 5 = Some (CAPTURED, US_PENDING, Some ''A'')" "sr_event_id demo_ready = str_uuid 5"
    by (simp_all add: path_of_def snapshot_view_def find_row_def has_id_def row_view_def demo_ready_def new_snapshot_row_def)
  show ?thesis
    using spool_reconciled [OF demo_ready_wf q r, of 5 "''/spool/stray.jpg''"] r d e
    by (simp add: demo_reconcile_input_def spool_entry_def entry_stem_def)
qed

end
