(* ===== verification/Http.thy ===== *)
theory Http
  imports PyData
begin

text \<open>
  What a call of the HTTPX client gives, as far as the four clients of the Agent tell outcomes
  apart: a timeout (a subclass of the transport errors, caught first), another transport error, an
  exception they do not catch (a cancellation), or a response with its status and what
  \<^verbatim>\<open>response.json()\<close> returns or raises.
\<close>

datatype http_outcome =
    HttpTimeout
  | HttpTransportError
  | HttpRaised exn
  | HttpResponse int "exn + json"

text \<open>\<^verbatim>\<open>_safe_json\<close>: a body that is not JSON counts as \<^verbatim>\<open>None\<close>; other exceptions escape.\<close>

definition safe_json :: "exn + json \<Rightarrow> exn + json" where
  "safe_json body =
     (case body of
        Inl e \<Rightarrow> if e = JSONDecodeError \<or> e = UnicodeDecodeError then Inr JNull else Inl e
      | Inr v \<Rightarrow> Inr v)"

text \<open>\<^verbatim>\<open>base_url.rstrip("/") + path\<close>\<close>

definition rstrip_slash :: "string \<Rightarrow> string" where
  "rstrip_slash s = rev (dropWhile (\<lambda>c. c = CHR ''/'') (rev s))"

definition join_url :: "string \<Rightarrow> string \<Rightarrow> string" where
  "join_url base path = rstrip_slash base @ path"

lemma rstrip_slash_idem [simp]: "rstrip_slash (rstrip_slash s) = rstrip_slash s"
  by (simp add: rstrip_slash_def dropWhile_idem)

lemma join_url_trailing: "join_url (s @ ''/'') path = join_url s path"
  by (simp add: join_url_def rstrip_slash_def)

end
