(* ===== verification/SyncClient.thy ===== *)
theory SyncClient
  imports Http EventStore
begin

text \<open>
  \<^verbatim>\<open>sync/models.py\<close> and \<^verbatim>\<open>sync/client.py\<close>: the request the Agent sends for a batch, and how the
  Backend's answer is turned into per-event outcomes.  Sets and dictionaries keyed by event id are
  lists in insertion order.
\<close>

datatype sync_failure_reason =
    TIMEOUT | TRANSPORT_FAILURE | SERVER_FAILURE | UNAUTHORIZED | INVALID_RESPONSE | UNEXPECTED_STATUS

record quota_info =
  qi_maximum :: int
  qi_local_date :: string

record sync_result =
  sy_accepted :: "uuid list"
  sy_duplicate :: "uuid list"
  sy_rejected :: "(uuid \<times> string) list"
  sy_quota_exceeded :: "(uuid \<times> quota_info) list"
  sy_alert_ids :: "(uuid \<times> string) list"

datatype sync_outcome = SyncBatchResult sync_result | SyncBatchFailure sync_failure_reason "int option"

section \<open>The request\<close>

definition SYNC_EVENTS_PATH :: string where
  "SYNC_EVENTS_PATH = ''/api/v1/sync/events''"

definition build_sync_events_url :: "string \<Rightarrow> string" where
  "build_sync_events_url base_url = join_url base_url SYNC_EVENTS_PATH"

record wire_event =
  we_event_id :: string
  we_camera_id :: string
  we_detected_at_utc :: iso_text
  we_created_at_utc :: iso_text
  we_class_id :: int
  we_class_name :: string
  we_confidence :: pyfloat
  we_source_id :: int
  we_frame_number :: int
  we_frame_width :: int
  we_frame_height :: int
  we_bounding_box :: "pyfloat \<times> pyfloat \<times> pyfloat \<times> pyfloat"

definition serialize_event :: "detection_event \<Rightarrow> exn + wire_event" where
  "serialize_event e =
     (case de_created_at_utc e of
        None \<Rightarrow> Inl ValueError
      | Some created \<Rightarrow>
          bind_result (to_iso_utc (de_detected_at_utc e)) (\<lambda>det.
          bind_result (to_iso_utc created) (\<lambda>cre.
          Inr \<lparr>we_event_id = str_uuid (de_event_id e), we_camera_id = de_camera_id e,
               we_detected_at_utc = det, we_created_at_utc = cre, we_class_id = de_class_id e,
               we_class_name = de_class_name e, we_confidence = de_confidence e,
               we_source_id = de_source_id e, we_frame_number = de_frame_number e,
               we_frame_width = de_frame_width e, we_frame_height = de_frame_height e,
               we_bounding_box = (de_bbox_left e, de_bbox_top e, de_bbox_width e, de_bbox_height e)\<rparr>)))"

record sync_request =
  rq_url :: string
  rq_device_id_header :: string
  rq_device_secret_header :: string
  rq_events :: "wire_event list"

definition build_request ::
  "string \<Rightarrow> string \<Rightarrow> string \<Rightarrow> detection_event list \<Rightarrow> exn + sync_request" where
  "build_request base_url device_id secret events =
     bind_result (map_result serialize_event events) (\<lambda>ws.
     Inr \<lparr>rq_url = build_sync_events_url base_url, rq_device_id_header = device_id,
          rq_device_secret_header = secret, rq_events = ws\<rparr>)"

section \<open>The answer\<close>

definition parse_quota_info :: "json \<Rightarrow> quota_info" where
  "parse_quota_info raw =
     (case raw of
        JObj q \<Rightarrow>
          \<lparr>qi_maximum = (case jget_none q ''maximum'' of
                           JInt n \<Rightarrow> n | JBool b \<Rightarrow> (if b then 1 else 0) | _ \<Rightarrow> 0),
           qi_local_date = (case jget_none q ''localDate'' of JStr s \<Rightarrow> s | _ \<Rightarrow> [])\<rparr>
      | _ \<Rightarrow> \<lparr>qi_maximum = 0, qi_local_date = []\<rparr>)"

text \<open>The event id an item names: a string that parses as a UUID.\<close>

definition item_event_id :: "json \<Rightarrow> uuid option" where
  "item_event_id item =
     (case item of
        JObj d \<Rightarrow>
          (case jget_none d ''eventId'' of
             JStr s \<Rightarrow> (case parse_uuid s of Inr u \<Rightarrow> Some u | Inl _ \<Rightarrow> None)
           | _ \<Rightarrow> None)
      | _ \<Rightarrow> None)"

definition item_field :: "json \<Rightarrow> string \<Rightarrow> json" where
  "item_field item k = (case item of JObj d \<Rightarrow> jget_none d k | _ \<Rightarrow> JNull)"

record parse_state =
  ps_result :: sync_result
  ps_seen :: "uuid list"
  ps_ambiguous :: "uuid list"

text \<open>What one item with a fresh id adds to the collections: its outcome, then its alert id.\<close>

definition record_outcome :: "json \<Rightarrow> uuid \<Rightarrow> sync_result \<Rightarrow> sync_result" where
  "record_outcome item u r =
     (let outcome = item_field item ''outcome''
      in if outcome = JStr ''accepted'' then r\<lparr>sy_accepted := sy_accepted r @ [u]\<rparr>
         else if outcome = JStr ''duplicate'' then r\<lparr>sy_duplicate := sy_duplicate r @ [u]\<rparr>
         else if outcome = JStr ''rejected''
         then r\<lparr>sy_rejected := dict_put u
                 (case item_field item ''errorCode'' of JStr c \<Rightarrow> c | _ \<Rightarrow> ''UNKNOWN'') (sy_rejected r)\<rparr>
         else if outcome = JStr ''quota_exceeded''
         then r\<lparr>sy_quota_exceeded := dict_put u
                 (parse_quota_info (item_field item ''quota'')) (sy_quota_exceeded r)\<rparr>
         else r)"

definition item_alert :: "json \<Rightarrow> string option" where
  "item_alert item =
     (if item_field item ''outcome'' \<in> {JStr ''accepted'', JStr ''duplicate''}
      then (case item_field item ''alertId'' of JStr a \<Rightarrow> if a \<noteq> [] then Some a else None | _ \<Rightarrow> None)
      else None)"

definition record_alert :: "json \<Rightarrow> uuid \<Rightarrow> sync_result \<Rightarrow> sync_result" where
  "record_alert item u r =
     (case item_alert item of
        Some a \<Rightarrow> r\<lparr>sy_alert_ids := dict_put u a (sy_alert_ids r)\<rparr>
      | None \<Rightarrow> r)"

definition classify_item :: "json \<Rightarrow> uuid \<Rightarrow> sync_result \<Rightarrow> sync_result" where
  "classify_item item u r = record_alert item u (record_outcome item u r)"

definition parse_item :: "json \<Rightarrow> parse_state \<Rightarrow> parse_state" where
  "parse_item item s =
     (case item_event_id item of
        None \<Rightarrow> s
      | Some u \<Rightarrow>
          if u \<in> set (ps_seen s) then s\<lparr>ps_ambiguous := u # ps_ambiguous s\<rparr>
          else s\<lparr>ps_seen := u # ps_seen s, ps_result := classify_item item u (ps_result s)\<rparr>)"

definition discard_id :: "uuid \<Rightarrow> sync_result \<Rightarrow> sync_result" where
  "discard_id u r =
     r\<lparr>sy_accepted := filter (\<lambda>x. x \<noteq> u) (sy_accepted r),
       sy_duplicate := filter (\<lambda>x. x \<noteq> u) (sy_duplicate r),
       sy_rejected := dict_del u (sy_rejected r),
       sy_quota_exceeded := dict_del u (sy_quota_exceeded r),
       sy_alert_ids := dict_del u (sy_alert_ids r)\<rparr>"

definition empty_result :: sync_result where
  "empty_result = \<lparr>sy_accepted = [], sy_duplicate = [], sy_rejected = [], sy_quota_exceeded = [],
     sy_alert_ids = []\<rparr>"

definition parse_results :: "json list \<Rightarrow> sync_result" where
  "parse_results results =
     (let s = fold parse_item results \<lparr>ps_result = empty_result, ps_seen = [], ps_ambiguous = []\<rparr>
      in fold discard_id (ps_ambiguous s) (ps_result s))"

definition parse_success :: "int \<Rightarrow> exn + json \<Rightarrow> exn + sync_outcome" where
  "parse_success status body =
     bind_result (safe_json body) (\<lambda>payload.
     let invalid = Inr (SyncBatchFailure INVALID_RESPONSE (Some status))
     in (case as_obj payload of
           None \<Rightarrow> invalid
         | Some p \<Rightarrow>
             if jget p ''success'' \<noteq> Some (JBool True) then invalid
             else (case as_obj (jget_none p ''data'') of
                     None \<Rightarrow> invalid
                   | Some d \<Rightarrow>
                       (case as_arr (jget_none d ''results'') of
                          None \<Rightarrow> invalid
                        | Some rs \<Rightarrow> Inr (SyncBatchResult (parse_results rs))))))"

definition classify_response :: "int \<Rightarrow> exn + json \<Rightarrow> exn + sync_outcome" where
  "classify_response status body =
     (if status = 200 then parse_success status body
      else if status = 401 then Inr (SyncBatchFailure UNAUTHORIZED (Some status))
      else Inr (SyncBatchFailure (if 500 \<le> status \<and> status < 600 then SERVER_FAILURE else UNEXPECTED_STATUS)
                  (Some status)))"

text \<open>The Backend is a function from the request to what the HTTP call gives.\<close>

definition send_batch ::
  "string \<Rightarrow> (sync_request \<Rightarrow> http_outcome) \<Rightarrow> string \<Rightarrow> string \<Rightarrow> detection_event list \<Rightarrow> exn + sync_outcome"
where
  "send_batch base_url post device_id secret events =
     bind_result (build_request base_url device_id secret events) (\<lambda>req.
     (case post req of
        HttpTimeout \<Rightarrow> Inr (SyncBatchFailure TIMEOUT None)
      | HttpTransportError \<Rightarrow> Inr (SyncBatchFailure TRANSPORT_FAILURE None)
      | HttpRaised e \<Rightarrow> Inl e
      | HttpResponse status body \<Rightarrow> classify_response status body))"

section \<open>Lemmas\<close>

definition result_ids :: "sync_result \<Rightarrow> uuid set" where
  "result_ids r = set (sy_accepted r) \<union> set (sy_duplicate r) \<union> fst ` set (sy_rejected r)
     \<union> fst ` set (sy_quota_exceeded r) \<union> fst ` set (sy_alert_ids r)"

lemma dict_del_keys: "fst ` set (dict_del k d) = fst ` set d - {k}"
  by (auto simp: dict_del_def)

lemma discard_id_sets:
  "set (sy_accepted (discard_id u r)) = set (sy_accepted r) - {u}"
  "set (sy_duplicate (discard_id u r)) = set (sy_duplicate r) - {u}"
  "map_of (sy_rejected (discard_id u r)) = (map_of (sy_rejected r))(u := None)"
  "map_of (sy_quota_exceeded (discard_id u r)) = (map_of (sy_quota_exceeded r))(u := None)"
  "map_of (sy_alert_ids (discard_id u r)) = (map_of (sy_alert_ids r))(u := None)"
  by (auto simp: discard_id_def)

text \<open>The outcome a result records for one id, and the one an item gives.\<close>

datatype verdict = Accepted | Duplicate | RejectedWith string | QuotaExceeded quota_info

definition verdicts :: "sync_result \<Rightarrow> uuid \<Rightarrow> verdict set" where
  "verdicts r u =
     (if u \<in> set (sy_accepted r) then {Accepted} else {})
     \<union> (if u \<in> set (sy_duplicate r) then {Duplicate} else {})
     \<union> (case map_of (sy_rejected r) u of Some c \<Rightarrow> {RejectedWith c} | None \<Rightarrow> {})
     \<union> (case map_of (sy_quota_exceeded r) u of Some q \<Rightarrow> {QuotaExceeded q} | None \<Rightarrow> {})"

definition item_verdicts :: "json \<Rightarrow> verdict set" where
  "item_verdicts item =
     (let outcome = item_field item ''outcome''
      in if outcome = JStr ''accepted'' then {Accepted}
         else if outcome = JStr ''duplicate'' then {Duplicate}
         else if outcome = JStr ''rejected''
         then {RejectedWith (case item_field item ''errorCode'' of JStr c \<Rightarrow> c | _ \<Rightarrow> ''UNKNOWN'')}
         else if outcome = JStr ''quota_exceeded'' then {QuotaExceeded (parse_quota_info (item_field item ''quota''))}
         else {})"

lemma record_alert_verdicts [simp]: "verdicts (record_alert item u r) = verdicts r"
  by (simp add: record_alert_def verdicts_def fun_eq_iff split: option.split)

lemma record_outcome_alerts [simp]: "sy_alert_ids (record_outcome item u r) = sy_alert_ids r"
  by (simp add: record_outcome_def Let_def)

lemma record_outcome_verdicts:
  assumes "verdicts r u = {}"
  shows "verdicts (record_outcome item u r) v = (if v = u then item_verdicts item else verdicts r v)"
proof -
  have e: "u \<notin> set (sy_accepted r)" "u \<notin> set (sy_duplicate r)" "map_of (sy_rejected r) u = None"
    "map_of (sy_quota_exceeded r) u = None"
    using assms by (auto simp: verdicts_def split: if_splits option.splits)
  let ?o = "item_field item ''outcome''"
  consider "?o = JStr ''accepted''" | "?o = JStr ''duplicate''" | "?o = JStr ''rejected''"
    | "?o = JStr ''quota_exceeded''"
    | "?o \<notin> {JStr ''accepted'', JStr ''duplicate'', JStr ''rejected'', JStr ''quota_exceeded''}" by blast
  then show ?thesis
    by cases (use e in \<open>simp_all add: record_outcome_def verdicts_def item_verdicts_def\<close>)
qed

lemma classify_item_verdicts:
  assumes "verdicts r u = {}" and "map_of (sy_alert_ids r) u = None"
  shows "verdicts (classify_item item u r) v = (if v = u then item_verdicts item else verdicts r v)"
    and "map_of (sy_alert_ids (classify_item item u r)) v
       = (if v = u then item_alert item else map_of (sy_alert_ids r) v)"
proof -
  show "verdicts (classify_item item u r) v = (if v = u then item_verdicts item else verdicts r v)"
    by (simp add: classify_item_def record_outcome_verdicts assms(1))
  show "map_of (sy_alert_ids (classify_item item u r)) v
       = (if v = u then item_alert item else map_of (sy_alert_ids r) v)"
    using assms(2) by (auto simp: classify_item_def record_alert_def split: option.splits)
qed

section \<open>The answer against its specification\<close>

text \<open>The items of an answer that name one event, in order.\<close>

definition items_of :: "uuid \<Rightarrow> json list \<Rightarrow> json list" where
  "items_of u items = filter (\<lambda>i. item_event_id i = Some u) items"

definition first_verdicts :: "json list \<Rightarrow> verdict set" where
  "first_verdicts is = (case is of [] \<Rightarrow> {} | i # _ \<Rightarrow> item_verdicts i)"

definition first_alert :: "json list \<Rightarrow> string option" where
  "first_alert is = (case is of [] \<Rightarrow> None | i # _ \<Rightarrow> item_alert i)"

definition start_state :: parse_state where
  "start_state = \<lparr>ps_result = empty_result, ps_seen = [], ps_ambiguous = []\<rparr>"

lemma first_snoc:
  "first_verdicts (is @ [i]) = (if is = [] then item_verdicts i else first_verdicts is)"
  "first_alert (is @ [i]) = (if is = [] then item_alert i else first_alert is)"
  by (cases "is"; simp add: first_verdicts_def first_alert_def)+

lemma parse_items_invariant:
  "(u \<in> set (ps_seen (fold parse_item items start_state)) \<longleftrightarrow> items_of u items \<noteq> [])
   \<and> (u \<in> set (ps_ambiguous (fold parse_item items start_state)) \<longleftrightarrow> 2 \<le> length (items_of u items))
   \<and> verdicts (ps_result (fold parse_item items start_state)) u = first_verdicts (items_of u items)
   \<and> map_of (sy_alert_ids (ps_result (fold parse_item items start_state))) u = first_alert (items_of u items)"
proof (induction items arbitrary: u rule: rev_induct)
  case Nil
  then show ?case
    by (simp add: start_state_def empty_result_def items_of_def verdicts_def first_verdicts_def first_alert_def)
next
  case (snoc i items)
  define s where "s = fold parse_item items start_state"
  note IH = snoc.IH [folded s_def]
  have step: "fold parse_item (items @ [i]) start_state = parse_item i s" by (simp add: s_def)
  show ?case
  proof (cases "item_event_id i")
    case None
    then have "items_of u (items @ [i]) = items_of u items" by (simp add: items_of_def)
    with IH [of u] None show ?thesis unfolding step by (simp add: parse_item_def)
  next
    case (Some w)
    have of_u: "items_of u (items @ [i]) = items_of u items @ (if u = w then [i] else [])"
      using Some by (simp add: items_of_def)
    show ?thesis
    proof (cases "w \<in> set (ps_seen s)")
      case True
      then have eq: "parse_item i s = s\<lparr>ps_ambiguous := w # ps_ambiguous s\<rparr>"
        using Some by (simp add: parse_item_def)
      show ?thesis
      proof (cases "u = w")
        case True
        with \<open>w \<in> set (ps_seen s)\<close> IH [of w] have "items_of u items \<noteq> []" by simp
        then have "2 \<le> length (items_of u items @ [i])" by (cases "items_of u items") simp_all
        with True IH [of u] \<open>items_of u items \<noteq> []\<close> show ?thesis
          unfolding step eq of_u by (simp add: first_snoc)
      next
        case False
        with IH [of u] show ?thesis unfolding step eq of_u by simp
      qed
    next
      case False
      then have eq: "parse_item i s = s\<lparr>ps_seen := w # ps_seen s, ps_result := classify_item i w (ps_result s)\<rparr>"
        using Some by (simp add: parse_item_def)
      from False IH [of w] have w: "items_of w items = []" by simp
      then have "verdicts (ps_result s) w = {}" "map_of (sy_alert_ids (ps_result s)) w = None"
        using IH [of w] by (simp_all add: first_verdicts_def first_alert_def)
      note cl = classify_item_verdicts [OF this, of i u]
      show ?thesis
      proof (cases "u = w")
        case True
        with IH [of u] w cl show ?thesis
          unfolding step eq of_u by (simp add: first_verdicts_def first_alert_def)
      next
        case False
        with IH [of u] cl show ?thesis unfolding step eq of_u by simp
      qed
    qed
  qed
qed

lemma fold_discard:
  "verdicts (fold discard_id us r) u = (if u \<in> set us then {} else verdicts r u)"
  "map_of (sy_alert_ids (fold discard_id us r)) u = (if u \<in> set us then None else map_of (sy_alert_ids r) u)"
  by (induction us arbitrary: r) (auto simp: verdicts_def discard_id_sets split: if_splits)

lemma parse_results_both:
  "verdicts (parse_results items) u
     = (case items_of u items of [i] \<Rightarrow> item_verdicts i | _ \<Rightarrow> {})
   \<and> map_of (sy_alert_ids (parse_results items)) u
     = (case items_of u items of [i] \<Rightarrow> item_alert i | _ \<Rightarrow> None)"
proof -
  note inv = parse_items_invariant [of u items, unfolded start_state_def]
  show ?thesis
    unfolding parse_results_def Let_def fold_discard
    using inv by (auto simp: first_verdicts_def first_alert_def split: list.splits)
qed

lemmas parse_results_verdicts = parse_results_both [THEN conjunct1]
lemmas parse_results_alerts = parse_results_both [THEN conjunct2]

lemma item_verdicts_card: "card (item_verdicts i) \<le> 1"
  by (simp add: item_verdicts_def Let_def)

text \<open>
  The Agent reads exactly what the Backend said about each event, and nothing when it is
  unclear: an event gets a verdict when exactly one item of the answer names it, and then the
  verdict of that item's outcome (an unknown outcome gives none); an event named by no item, only by
  malformed ones, or by several gets none.  The same holds for the alert id, which only an accepted
  or duplicate item can carry.
\<close>

theorem parse_results_spec:
  "verdicts (parse_results items) u
     = (case items_of u items of [i] \<Rightarrow> item_verdicts i | _ \<Rightarrow> {})
   \<and> card (verdicts (parse_results items) u) \<le> 1
   \<and> map_of (sy_alert_ids (parse_results items)) u
     = (case items_of u items of [i] \<Rightarrow> item_alert i | _ \<Rightarrow> None)"
  using parse_results_verdicts [of items u] parse_results_alerts [of items u] item_verdicts_card
  by (simp split: list.split)

section \<open>Outcomes of a batch\<close>

lemma send_batch_result:
  assumes "send_batch base post dev secret events = Inr (SyncBatchResult r)"
  shows "\<exists>req p d rs. build_request base dev secret events = Inr req
    \<and> post req = HttpResponse 200 (Inr (JObj p)) \<and> jget p ''success'' = Some (JBool True)
    \<and> jget p ''data'' = Some (JObj d) \<and> jget d ''results'' = Some (JArr rs) \<and> r = parse_results rs"
proof -
  from assms obtain req status body where req: "build_request base dev secret events = Inr req"
    and post: "post req = HttpResponse status body"
    and cl: "classify_response status body = Inr (SyncBatchResult r)"
  proof -
    from assms obtain req where r: "build_request base dev secret events = Inr req"
      by (auto simp: send_batch_def outcome_simps)
    with assms that show ?thesis
      by (cases "post req") (auto simp: send_batch_def)
  qed
  from cl have "status = 200" and ps: "parse_success 200 body = Inr (SyncBatchResult r)"
    by (auto simp: classify_response_def split: if_splits)
  have "\<exists>p d rs. safe_json body = Inr (JObj p) \<and> jget p ''success'' = Some (JBool True)
    \<and> jget_none p ''data'' = JObj d \<and> jget_none d ''results'' = JArr rs \<and> r = parse_results rs"
    using ps
    by (cases "safe_json body")
       (auto simp: parse_success_def Let_def split: option.split_asm if_split_asm)
  then obtain p d rs where "safe_json body = Inr (JObj p)" "jget p ''success'' = Some (JBool True)"
    "jget_none p ''data'' = JObj d" "jget_none d ''results'' = JArr rs" "r = parse_results rs" by blast
  moreover from \<open>safe_json body = Inr (JObj p)\<close> have "body = Inr (JObj p)"
    by (auto simp: safe_json_def split: sum.splits if_splits)
  moreover from calculation have "jget p ''data'' = Some (JObj d)" "jget d ''results'' = Some (JArr rs)"
    by (auto simp: jget_none_def split: option.splits)
  ultimately show ?thesis using req post \<open>status = 200\<close> by blast
qed

end
