(* ===== verification/Backoff.thy ===== *)
theory Backoff
  imports PyData
begin

text \<open>
  The retry discipline that \<^verbatim>\<open>sync/worker.py\<close>, \<^verbatim>\<open>snapshot/worker.py\<close> and
  \<^verbatim>\<open>configuration/coordinator.py\<close> share line by line: the bounded exponential backoff with jitter
  and the background loop that drains, idles, or backs off after an exception.

  A worker's state is its attempt counter, the waits it has asked for (\<open>wk_slept\<close>, newest first)
  and the world it works on.  The task is running, or has ended with an exception that left
  \<^verbatim>\<open>_run\<close>: nothing restarts it then.
\<close>

record tuning =
  tn_batch_size :: int
  tn_idle_interval :: pyfloat
  tn_initial_backoff :: pyfloat
  tn_max_backoff :: pyfloat

text \<open>The checks of the two workers' constructors.\<close>

definition mk_tuning :: "tuning \<Rightarrow> exn + tuning" where
  "mk_tuning t =
     (if tn_batch_size t \<le> 0 \<or> fl_le (tn_idle_interval t) (Fin 0) \<or> fl_le (tn_initial_backoff t) (Fin 0)
         \<or> fl_less (tn_max_backoff t) (tn_initial_backoff t)
      then Inl ValueError else Inr t)"

record 'w worker =
  wk_attempt :: nat
  wk_slept :: "pyfloat list"
  wk_world :: 'w

datatype 'w task = Running "'w worker" | Ended exn

definition sleep_for :: "pyfloat \<Rightarrow> 'w worker \<Rightarrow> 'w worker" where
  "sleep_for d w = w\<lparr>wk_slept := d # wk_slept w\<rparr>"

definition reset_backoff :: "'w worker \<Rightarrow> 'w worker" where
  "reset_backoff w = w\<lparr>wk_attempt := 0\<rparr>"

text \<open>
  \<open>initial * (2 ** attempt)\<close>: the power is an exact int, and multiplying it with a float converts
  it first, which raises \<^verbatim>\<open>OverflowError\<close> from \<open>2 ** 1024\<close> on.  The counter is increased only after
  that.
\<close>

definition backoff_delay :: "tuning \<Rightarrow> nat \<Rightarrow> exn + pyfloat" where
  "backoff_delay t attempt =
     bind_result (float_of_int (2 ^ attempt)) (\<lambda>p.
       Inr (fl_min (fl_mul (tn_initial_backoff t) p) (tn_max_backoff t)))"

definition jittered :: "pyfloat \<Rightarrow> pyfloat \<Rightarrow> pyfloat" where
  "jittered delay jitter = fl_mul delay (fl_add (Fin (1/2)) (fl_mul jitter (Fin (1/2))))"

definition sleep_backoff :: "tuning \<Rightarrow> pyfloat \<Rightarrow> 'w worker \<Rightarrow> (exn + unit) \<times> 'w worker" where
  "sleep_backoff t jitter w =
     (case backoff_delay t (wk_attempt w) of
        Inl e \<Rightarrow> (Inl e, w)
      | Inr delay \<Rightarrow>
          (Inr (), sleep_for (jittered delay jitter) (w\<lparr>wk_attempt := Suc (wk_attempt w)\<rparr>)))"

text \<open>
  One turn of \<^verbatim>\<open>_run\<close>.  The backoff runs inside the \<^verbatim>\<open>except\<close> clause, outside the \<^verbatim>\<open>try\<close>: what it
  raises ends the task.
\<close>

definition run_iteration ::
  "tuning \<Rightarrow> pyfloat \<Rightarrow> ('w worker \<Rightarrow> (exn + bool) \<times> 'w worker) \<Rightarrow> 'w worker \<Rightarrow> 'w task" where
  "run_iteration t jitter drain w =
     (case drain w of
        (Inr idle, w') \<Rightarrow> Running (if idle then sleep_for (tn_idle_interval t) w' else w')
      | (Inl e, w') \<Rightarrow>
          if \<not> is_exception e then Ended e
          else (case sleep_backoff t jitter w' of
                  (Inl e', w'') \<Rightarrow> Ended e'
                | (Inr _, w'') \<Rightarrow> Running w''))"

text \<open>The loop over the inputs its iterations meet (each with its jitter reading).\<close>

fun run_loop ::
  "tuning \<Rightarrow> ('i \<Rightarrow> 'w worker \<Rightarrow> (exn + bool) \<times> 'w worker) \<Rightarrow> (pyfloat \<times> 'i) list \<Rightarrow> 'w worker \<Rightarrow> 'w task"
where
  "run_loop t drain [] w = Running w"
| "run_loop t drain ((j, i) # is) w =
     (case run_iteration t j (drain i) w of
        Running w' \<Rightarrow> run_loop t drain is w'
      | Ended e \<Rightarrow> Ended e)"

section \<open>The delay\<close>

lemma backoff_delay_cases:
  "backoff_delay t n =
     (if n < 1024 then Inr (fl_min (fl_mul (tn_initial_backoff t) (Fin (2 ^ n))) (tn_max_backoff t))
      else Inl OverflowError)"
  by (simp add: backoff_delay_def float_of_int_pow2)

lemma sleep_backoff_cases:
  "sleep_backoff t j w =
     (if wk_attempt w < 1024
      then (Inr (), sleep_for (jittered (fl_min (fl_mul (tn_initial_backoff t) (Fin (2 ^ wk_attempt w)))
                                           (tn_max_backoff t)) j)
                      (w\<lparr>wk_attempt := Suc (wk_attempt w)\<rparr>))
      else (Inl OverflowError, w))"
  by (simp add: sleep_backoff_def backoff_delay_cases)

lemma backoff_delay_le_max:
  assumes "backoff_delay t n = Inr d" and "tn_initial_backoff t = Fin a" and "tn_max_backoff t = Fin b"
    and "0 < a" and "a \<le> b" and "fl_ok (Fin a)" and "fl_ok (Fin b)"
  shows "\<exists>x. d = Fin x \<and> a \<le> x \<and> x \<le> b \<and> is_double x"
proof -
  have d: "d = fl_min (fl_round (a * 2 ^ n)) (Fin b)"
    using assms by (simp add: backoff_delay_cases split: if_splits)
  have "a * 1 \<le> a * 2 ^ n" using assms(4) by (intro mult_left_mono) simp_all
  then have "rnd a \<le> rnd (a * 2 ^ n)" by (intro rnd_mono) simp
  then have ge: "a \<le> rnd (a * 2 ^ n)" using assms(6) by (simp add: is_double_def)
  show ?thesis
  proof (cases "fl_round (a * 2 ^ n)")
    case (Fin r)
    then have "r = rnd (a * 2 ^ n)" by (simp add: fl_round_Fin_iff)
    with Fin d ge assms(5,7) show ?thesis by (auto simp: min_def)
  qed (use d ge assms max_double_pos in \<open>auto simp: fl_min_def fl_round_def Let_def split: if_splits\<close>)
qed

lemma jittered_bounds:
  assumes "is_double d" and "0 \<le> d" and "d \<le> max_double" and "0 \<le> j" and "j \<le> 1"
  shows "\<exists>x. jittered (Fin d) (Fin j) = Fin x \<and> rnd (d / 2) \<le> x \<and> x \<le> d"
proof -
  have half: "rnd (1/2) = 1/2" "rnd 1 = (1 :: rat)"
    using is_double_pow2 [of "- 1"] is_double_pow2 [of 0] by (simp_all add: is_double_def pow2_def)
  have md: "1 \<le> max_double" using int_in_range [of 1] by simp
  have m: "0 \<le> rnd (j / 2)" "rnd (j / 2) \<le> 1/2"
    using rnd_ge0 [of "j / 2"] rnd_mono [of "j / 2" "1/2"] half assms by simp_all
  then have m': "fl_round (j / 2) = Fin (rnd (j / 2))" using md by (simp add: fl_round_Fin_iff)
  let ?k = "rnd (1/2 + rnd (j / 2))"
  have k: "1/2 \<le> ?k" "?k \<le> 1"
    using rnd_mono [of "1/2" "1/2 + rnd (j / 2)"] rnd_mono [of "1/2 + rnd (j / 2)" 1] half m by simp_all
  then have k': "fl_round (1/2 + rnd (j / 2)) = Fin ?k" using md by (simp add: fl_round_Fin_iff)
  have "d * (1/2) \<le> d * ?k" "d * ?k \<le> d * 1"
    by (rule mult_left_mono [OF k(1) assms(2)], rule mult_left_mono [OF k(2) assms(2)])
  then have b: "rnd (d / 2) \<le> rnd (d * ?k)" "rnd (d * ?k) \<le> d"
    using rnd_mono [of "d * (1/2)" "d * ?k"] rnd_mono [of "d * ?k" d] assms(1) by (simp_all add: is_double_def)
  have "0 \<le> rnd (d * ?k)" using assms(2) k by (intro rnd_ge0) simp
  with b(2) assms(3) have "fl_round (d * ?k) = Fin (rnd (d * ?k))" by (simp add: fl_round_Fin_iff)
  with b m' k' show ?thesis by (simp add: jittered_def)
qed

section \<open>Workers that drain\<close>

text \<open>
  What a worker promises of one drain: it moves the counter as a success (reset), as a failure it
  backed off from itself (one more) or not at all, and an exception leaves the counter as it was.
  \<open>down i\<close> marks the inputs under which nothing can be delivered, \<open>blocked\<close> the worlds in which
  there is something to deliver: then a drain fails and there still is.
\<close>

locale background_worker =
  fixes tune :: tuning
    and drain :: "'i \<Rightarrow> 'w worker \<Rightarrow> (exn + bool) \<times> 'w worker"
    and down :: "'i \<Rightarrow> bool"
    and blocked :: "'w \<Rightarrow> bool"
    and input_ok :: "'i \<Rightarrow> bool"
  assumes drain_counts: "input_ok i \<Longrightarrow> drain i w = (Inr idle, w') \<Longrightarrow> wk_attempt w' \<le> Suc (wk_attempt w)"
    and drain_raises: "input_ok i \<Longrightarrow> drain i w = (Inl e, w') \<Longrightarrow> is_exception e \<and> wk_attempt w' = wk_attempt w"
    and drain_down: "input_ok i \<Longrightarrow> down i \<Longrightarrow> blocked (wk_world w) \<Longrightarrow> drain i w = (r, w') \<Longrightarrow>
      blocked (wk_world w') \<and>
      (if wk_attempt w < 1024 then r = Inr False \<and> wk_attempt w' = Suc (wk_attempt w)
       else r = Inl OverflowError)"
begin

lemma iteration_counts:
  assumes "input_ok i" and "wk_attempt w < 1024"
  shows "\<exists>w'. run_iteration tune j (drain i) w = Running w' \<and> wk_attempt w' \<le> Suc (wk_attempt w)"
proof (cases "drain i w")
  case (Pair r w')
  show ?thesis
  proof (cases r)
    case (Inl e)
    with Pair drain_raises [OF assms(1)] have "is_exception e" "wk_attempt w' = wk_attempt w" by blast+
    with Pair Inl assms(2) show ?thesis
      by (simp add: run_iteration_def sleep_backoff_cases sleep_for_def)
  next
    case (Inr idle)
    with Pair drain_counts [OF assms(1)] show ?thesis
      by (simp add: run_iteration_def sleep_for_def)
  qed
qed

lemma survives:
  assumes "\<forall>x \<in> set is. input_ok (snd x)" and "wk_attempt w + length is \<le> 1024"
  shows "\<exists>w'. run_loop tune drain is w = Running w'"
  using assms
proof (induction "is" arbitrary: w)
  case Nil
  then show ?case by simp
next
  case (Cons x xs)
  obtain j i where x: "x = (j, i)" by (cases x)
  with Cons.prems obtain w' where "run_iteration tune j (drain i) w = Running w'"
    "wk_attempt w' \<le> Suc (wk_attempt w)"
    using iteration_counts [of i w j] by auto
  with Cons x show ?case by (simp add: Cons.IH)
qed

lemma iteration_down:
  assumes "input_ok i" and "down i" and "blocked (wk_world w)"
  shows "if wk_attempt w < 1024
         then \<exists>w'. run_iteration tune j (drain i) w = Running w'
                 \<and> wk_attempt w' = Suc (wk_attempt w) \<and> blocked (wk_world w')
         else run_iteration tune j (drain i) w = Ended OverflowError"
proof (cases "drain i w")
  case (Pair r w')
  show ?thesis
  proof (cases "wk_attempt w < 1024")
    case True
    with drain_down [OF assms Pair] Pair show ?thesis by (simp add: run_iteration_def)
  next
    case False
    with drain_down [OF assms Pair] have "r = Inl OverflowError" by simp
    with Pair drain_raises [OF assms(1)] have "wk_attempt w' = wk_attempt w" by blast
    with False Pair \<open>r = Inl OverflowError\<close> show ?thesis
      by (simp add: run_iteration_def sleep_backoff_cases)
  qed
qed

lemma dies:
  assumes "\<forall>x \<in> set is. input_ok (snd x) \<and> down (snd x)" and "blocked (wk_world w)"
    and "1024 < wk_attempt w + length is" and "wk_attempt w \<le> 1024"
  shows "run_loop tune drain is w = Ended OverflowError"
  using assms
proof (induction "is" arbitrary: w)
  case Nil
  then show ?case by simp
next
  case (Cons x xs)
  obtain j i where x: "x = (j, i)" by (cases x)
  with Cons.prems have i: "input_ok i" "down i" "blocked (wk_world w)" by auto
  show ?case
  proof (cases "wk_attempt w < 1024")
    case True
    with iteration_down [OF i, of j] obtain w' where
      "run_iteration tune j (drain i) w = Running w'" "wk_attempt w' = Suc (wk_attempt w)"
      "blocked (wk_world w')" by auto
    with Cons x True show ?thesis by (simp add: Cons.IH)
  next
    case False
    with iteration_down [OF i, of j] x show ?thesis by simp
  qed
qed

end

text \<open>
  C40.  A backoff wait is bounded: with positive finite delays and a jitter in [0, 1], each of the
  first 1024 failures in a row adds exactly one wait, at least half the initial delay (as a double)
  and at most the maximal delay, and moves the counter by one.
\<close>

theorem backoff_wait_bounded:
  assumes "tn_initial_backoff t = Fin a" and "tn_max_backoff t = Fin b" and "0 < a" and "a \<le> b"
    and "fl_ok (Fin a)" and "fl_ok (Fin b)" and "0 \<le> j" and "j \<le> 1" and "wk_attempt w < 1024"
  shows "\<exists>x. sleep_backoff t (Fin j) w
      = (Inr (), w\<lparr>wk_attempt := Suc (wk_attempt w), wk_slept := Fin x # wk_slept w\<rparr>)
    \<and> rnd (a / 2) \<le> x \<and> x \<le> b"
proof -
  have "backoff_delay t (wk_attempt w)
      = Inr (fl_min (fl_mul (tn_initial_backoff t) (Fin (2 ^ wk_attempt w))) (tn_max_backoff t))"
    using assms(9) by (simp add: backoff_delay_cases)
  from backoff_delay_le_max [OF this assms(1-6)] obtain d where
    d: "fl_min (fl_mul (tn_initial_backoff t) (Fin (2 ^ wk_attempt w))) (tn_max_backoff t) = Fin d"
    "a \<le> d" "d \<le> b" "is_double d" by blast
  have "d \<le> max_double" using d(3) assms(6) by (simp add: abs_le_iff)
  then obtain x where x: "jittered (Fin d) (Fin j) = Fin x" "rnd (d / 2) \<le> x" "x \<le> d"
    using jittered_bounds [OF d(4) _ _ assms(7,8)] d(2) assms(3) by auto
  have "rnd (a / 2) \<le> rnd (d / 2)" using d(2) by (intro rnd_mono) simp
  with x d assms(9) show ?thesis by (intro exI [of _ x]) (simp add: sleep_backoff_cases sleep_for_def)
qed

theorem backoff_wait_bounded_witness:
  "\<exists>x. sleep_backoff \<lparr>tn_batch_size = 1, tn_idle_interval = Fin 5, tn_initial_backoff = Fin 1, tn_max_backoff = Fin 60\<rparr> (Fin 0)
      \<lparr>wk_attempt = 1000, wk_slept = [], wk_world = ()\<rparr>
      = (Inr (), \<lparr>wk_attempt = 1001, wk_slept = [Fin x], wk_world = ()\<rparr>) \<and> rnd (1 / 2) \<le> x \<and> x \<le> 60"
proof -
  have "fl_ok (Fin 1)" "fl_ok (Fin 60)"
    using fl_round_int [of 1 1] fl_round_int [of 60 60] fl_round_ok [of 1] fl_round_ok [of 60] by simp_all
  then show ?thesis
    using backoff_wait_bounded [of "\<lparr>tn_batch_size = 1, tn_idle_interval = Fin 5, tn_initial_backoff = Fin 1, tn_max_backoff = Fin 60\<rparr>"
        1 60 0 "\<lparr>wk_attempt = 1000, wk_slept = [], wk_world = ()\<rparr>"] by simp
qed

end
