(* ===== verification/SyncWorker.thy ===== *)
theory SyncWorker
  imports SyncClient SnapshotStore IdentityStore Backoff
begin

text \<open>
  \<^verbatim>\<open>sync/worker.py\<close>: the background task that drains pending events to the Backend.  The world of
  the worker is the Agent's store: the identity, the event and the snapshot tables, and the local
  files.  What one drain meets from outside (clock readings, storage faults, the answer of the
  Backend, the jitter) is its input record.
\<close>

section \<open>The store and the inputs\<close>

record store =
  st_identity :: identity_table
  st_events :: event_table
  st_snapshots :: snapshot_table
  st_files :: files

record sync_config =
  sc_tuning :: tuning
  sc_base_url :: string
  sc_snapshot_sinks :: bool

record sync_input =
  si_identity_fault :: fault
  si_list_fault :: fault
  si_post :: "sync_request \<Rightarrow> http_outcome"
  si_delivered_at :: datetime
  si_mark_fault :: fault
  si_alert_fault :: "uuid \<Rightarrow> fault"
  si_finalized_at :: datetime
  si_suppress_fault :: fault
  si_get_fault :: "uuid \<Rightarrow> fault"
  si_cancel_fault :: "uuid \<Rightarrow> fault"
  si_unlink_fault :: "uuid \<Rightarrow> fault"
  si_jitter :: pyfloat

text \<open>
  \<^verbatim>\<open>path.unlink()\<close> under \<^verbatim>\<open>suppress(FileNotFoundError)\<close>: a missing file is fine, another error
  raises.
\<close>

definition unlink_quietly :: "fault \<Rightarrow> string \<Rightarrow> files \<Rightarrow> (exn + unit) \<times> files" where
  "unlink_quietly fault path fs =
     (case fault of
        Some e \<Rightarrow> (if e = FileNotFoundError then Inr () else Inl e, fs)
      | None \<Rightarrow> (Inr (), fs(path := None)))"

section \<open>The sinks\<close>

text \<open>
  Both sinks are called in a loop that swallows what they raise, so only their effect on the store
  remains.
\<close>

definition alert_id_sink :: "sync_input \<Rightarrow> uuid \<Rightarrow> string \<Rightarrow> store \<Rightarrow> store" where
  "alert_id_sink inp u alert s =
     s\<lparr>st_snapshots := snd (associate_alert_id (si_alert_fault inp u) u alert (st_snapshots s))\<rparr>"

definition associate_alert_ids :: "sync_config \<Rightarrow> sync_input \<Rightarrow> sync_result \<Rightarrow> store \<Rightarrow> store" where
  "associate_alert_ids cfg inp r s =
     (if \<not> sc_snapshot_sinks cfg then s
      else fold (\<lambda>(u, alert). alert_id_sink inp u alert) (sy_alert_ids r) s)"

definition quota_suppression_sink :: "sync_input \<Rightarrow> uuid \<Rightarrow> store \<Rightarrow> store" where
  "quota_suppression_sink inp u s =
     (case get_snapshot (si_get_fault inp u) u (st_snapshots s) of
        Inl _ \<Rightarrow> s
      | Inr rec \<Rightarrow>
          (case cancel_for_quota (si_cancel_fault inp u) u (st_snapshots s) of
             (Inl _, t) \<Rightarrow> s\<lparr>st_snapshots := t\<rparr>
           | (Inr updated, t) \<Rightarrow>
               (case rec of
                  Some x \<Rightarrow>
                    if updated
                    then s\<lparr>st_snapshots := t,
                           st_files := snd (unlink_quietly (si_unlink_fault inp u) (so_local_path x) (st_files s))\<rparr>
                    else s\<lparr>st_snapshots := t\<rparr>
                | None \<Rightarrow> s\<lparr>st_snapshots := t\<rparr>)))"

definition cancel_snapshots_for_quota :: "sync_config \<Rightarrow> sync_input \<Rightarrow> uuid list \<Rightarrow> store \<Rightarrow> store" where
  "cancel_snapshots_for_quota cfg inp ids s =
     (if sc_snapshot_sinks cfg then fold (quota_suppression_sink inp) ids s else s)"

section \<open>Marking\<close>

definition mark_delivered :: "sync_config \<Rightarrow> sync_input \<Rightarrow> sync_result \<Rightarrow> store \<Rightarrow> (exn + unit) \<times> store" where
  "mark_delivered cfg inp r s =
     (let to_mark = remdups (sy_accepted r @ sy_duplicate r)
      in if to_mark = [] then (Inr (), s)
         else case mark_delivered_many (si_mark_fault inp) to_mark (si_delivered_at inp) (st_events s) of
                (Inl e, t) \<Rightarrow> (Inl e, s\<lparr>st_events := t\<rparr>)
              | (Inr _, t) \<Rightarrow> (Inr (), associate_alert_ids cfg inp r (s\<lparr>st_events := t\<rparr>)))"

definition mark_suppressed_by_quota :: "sync_config \<Rightarrow> sync_input \<Rightarrow> sync_result \<Rightarrow> store \<Rightarrow> (exn + unit) \<times> store"
where
  "mark_suppressed_by_quota cfg inp r s =
     (let to_mark = map fst (sy_quota_exceeded r)
      in if to_mark = [] then (Inr (), s)
         else case mark_suppressed_by_quota_many (si_suppress_fault inp) to_mark (si_finalized_at inp) (st_events s) of
                (Inl e, t) \<Rightarrow> (Inl e, s\<lparr>st_events := t\<rparr>)
              | (Inr _, t) \<Rightarrow> (Inr (), cancel_snapshots_for_quota cfg inp to_mark (s\<lparr>st_events := t\<rparr>)))"

section \<open>One drain\<close>

text \<open>What a drain is about to send: nothing to do, or the identity, the secret and the rows.\<close>

definition plan_drain ::
  "sync_config \<Rightarrow> sync_input \<Rightarrow> store \<Rightarrow> exn + (string \<times> string \<times> detection_event list \<times> detection_event list) option"
where
  "plan_drain cfg inp s =
     bind_result (load_identity (si_identity_fault inp) (st_identity s)) (\<lambda>identity.
     (case identity of
        None \<Rightarrow> Inr None
      | Some i \<Rightarrow>
          if di_operational_state i \<noteq> OPERATIONAL then Inr None
          else
            bind_result (list_pending (si_list_fault inp) (tn_batch_size (sc_tuning cfg)) (st_events s)) (\<lambda>pending.
            let sendable = filter (\<lambda>e. de_device_id e = di_device_id i) pending
            in if pending = [] \<or> sendable = [] then Inr None
               else (case di_shared_secret i of
                       None \<Rightarrow> Inl AssertionError
                     | Some secret \<Rightarrow> Inr (Some (di_device_id i, secret, pending, sendable))))))"

text \<open>
  A batch with a mismatched row, or shorter than the batch size, is followed by the idle wait; a
  full batch is followed by the next one at once.
\<close>

definition drain_once :: "sync_config \<Rightarrow> sync_input \<Rightarrow> store worker \<Rightarrow> (exn + bool) \<times> store worker" where
  "drain_once cfg inp w =
     (case plan_drain cfg inp (wk_world w) of
        Inl e \<Rightarrow> (Inl e, w)
      | Inr None \<Rightarrow> (Inr True, w)
      | Inr (Some (device_id, secret, pending, sendable)) \<Rightarrow>
          (case send_batch (sc_base_url cfg) (si_post inp) device_id secret sendable of
             Inl e \<Rightarrow> (Inl e, w)
           | Inr (SyncBatchFailure _ _) \<Rightarrow>
               (case sleep_backoff (sc_tuning cfg) (si_jitter inp) w of
                  (Inl e, w') \<Rightarrow> (Inl e, w')
                | (Inr _, w') \<Rightarrow> (Inr False, w'))
           | Inr (SyncBatchResult r) \<Rightarrow>
               (case mark_delivered cfg inp r (wk_world w) of
                  (Inl e, s) \<Rightarrow> (Inl e, w\<lparr>wk_world := s\<rparr>)
                | (Inr _, s) \<Rightarrow>
                    (case mark_suppressed_by_quota cfg inp r s of
                       (Inl e, s') \<Rightarrow> (Inl e, w\<lparr>wk_world := s'\<rparr>)
                     | (Inr _, s') \<Rightarrow>
                         (Inr (length sendable < length pending
                               \<or> int (length pending) < tn_batch_size (sc_tuning cfg)),
                          reset_backoff (w\<lparr>wk_world := s'\<rparr>))))))"

section \<open>What the sinks leave alone\<close>

lemma fold_sink_events:
  "(\<And>x s. st_events (f x s) = st_events s) \<Longrightarrow> st_events (fold f xs s) = st_events s"
  by (induction xs arbitrary: s) simp_all

lemma alert_sinks_events [simp]: "st_events (associate_alert_ids cfg inp r s) = st_events s"
  by (simp add: associate_alert_ids_def fold_sink_events alert_id_sink_def split: prod.splits)

lemma quota_sink_events [simp]: "st_events (cancel_snapshots_for_quota cfg inp ids s) = st_events s"
  by (simp add: cancel_snapshots_for_quota_def fold_sink_events quota_suppression_sink_def
      split: sum.splits prod.splits option.splits)

lemma mark_delivered_status:
  assumes "mark_delivered cfg inp r s = (x, s')"
  shows "event_status (st_events s') =
    (if is_ok x then finalize DS_DELIVERED (sy_accepted r @ sy_duplicate r) (event_status (st_events s))
     else event_status (st_events s))"
proof (cases "sy_accepted r @ sy_duplicate r = []")
  case True
  with assms show ?thesis by (auto simp: mark_delivered_def)
next
  case False
  let ?ids = "remdups (sy_accepted r @ sy_duplicate r)"
  from False have ne: "?ids \<noteq> []" by (metis remdups_eq_nil_iff)
  have fin: "finalize DS_DELIVERED ?ids = finalize DS_DELIVERED (sy_accepted r @ sy_duplicate r)"
    by (simp add: finalize_def fun_eq_iff)
  obtain y t where y: "mark_delivered_many (si_mark_fault inp) ?ids (si_delivered_at inp) (st_events s) = (y, t)"
    by (cases "mark_delivered_many (si_mark_fault inp) ?ids (si_delivered_at inp) (st_events s)")
  show ?thesis
  proof (cases y)
    case (Inl e)
    with assms y ne mark_fails(1) [OF y [unfolded Inl]] show ?thesis by (auto simp: mark_delivered_def Let_def)
  next
    case (Inr n)
    with assms y ne event_status_mark(1) [OF y [unfolded Inr]] fin show ?thesis
      by (auto simp: mark_delivered_def Let_def)
  qed
qed

lemma mark_suppressed_status:
  assumes "mark_suppressed_by_quota cfg inp r s = (x, s')"
  shows "event_status (st_events s') =
    (if is_ok x then finalize DS_SUPPRESSED_BY_QUOTA (map fst (sy_quota_exceeded r)) (event_status (st_events s))
     else event_status (st_events s))"
proof (cases "sy_quota_exceeded r = []")
  case True
  with assms show ?thesis by (auto simp: mark_suppressed_by_quota_def)
next
  case False
  let ?ids = "map fst (sy_quota_exceeded r)"
  obtain y t where y: "mark_suppressed_by_quota_many (si_suppress_fault inp) ?ids (si_finalized_at inp) (st_events s) = (y, t)"
    by (cases "mark_suppressed_by_quota_many (si_suppress_fault inp) ?ids (si_finalized_at inp) (st_events s)")
  show ?thesis
  proof (cases y)
    case (Inl e)
    with assms y False mark_fails(2) [OF y [unfolded Inl]] show ?thesis
      by (auto simp: mark_suppressed_by_quota_def Let_def)
  next
    case (Inr n)
    with assms y False event_status_mark(2) [OF y [unfolded Inr]] show ?thesis
      by (auto simp: mark_suppressed_by_quota_def Let_def)
  qed
qed

section \<open>The outcome of a drain\<close>

lemma plan_drain_Some:
  "plan_drain cfg inp s = Inr (Some (dev, secret, pending, sendable)) \<longleftrightarrow>
     (\<exists>i. load_identity (si_identity_fault inp) (st_identity s) = Inr (Some i)
        \<and> di_operational_state i = OPERATIONAL \<and> di_device_id i = dev \<and> di_shared_secret i = Some secret
        \<and> list_pending (si_list_fault inp) (tn_batch_size (sc_tuning cfg)) (st_events s) = Inr pending
        \<and> sendable = filter (\<lambda>e. de_device_id e = dev) pending \<and> sendable \<noteq> [])"
proof (cases "load_identity (si_identity_fault inp) (st_identity s)")
  case (Inl e)
  then show ?thesis by (simp add: plan_drain_def)
next
  case id: (Inr io)
  show ?thesis
  proof (cases io)
    case None
    with id show ?thesis by (simp add: plan_drain_def)
  next
    case (Some i)
    show ?thesis
    proof (cases "list_pending (si_list_fault inp) (tn_batch_size (sc_tuning cfg)) (st_events s)")
      case (Inl e)
      with id Some show ?thesis by (simp add: plan_drain_def)
    next
      case (Inr ps)
      with id Some show ?thesis
        by (cases "di_shared_secret i") (auto simp: plan_drain_def Let_def)
    qed
  qed
qed

text \<open>The ways a drain can end, as one case rule for the proofs below.\<close>

lemma drain_once_cases:
  assumes "drain_once cfg inp w = (r, w')"
  obtains (idle) "plan_drain cfg inp (wk_world w) = Inr None" "w' = w" "r = Inr True"
  | (plan_raises) e where "plan_drain cfg inp (wk_world w) = Inl e" "w' = w" "r = Inl e"
  | (send_raises) dev secret pending sendable e
    where "plan_drain cfg inp (wk_world w) = Inr (Some (dev, secret, pending, sendable))"
      "send_batch (sc_base_url cfg) (si_post inp) dev secret sendable = Inl e" "w' = w" "r = Inl e"
  | (backoff) dev secret pending sendable reason status
    where "plan_drain cfg inp (wk_world w) = Inr (Some (dev, secret, pending, sendable))"
      "send_batch (sc_base_url cfg) (si_post inp) dev secret sendable = Inr (SyncBatchFailure reason status)"
      "sleep_backoff (sc_tuning cfg) (si_jitter inp) w = (map_sum id (\<lambda>_. ()) r, w')"
      "r = Inr False \<or> (\<exists>e. r = Inl e)"
  | (mark_failed) dev secret pending sendable res e s
    where "plan_drain cfg inp (wk_world w) = Inr (Some (dev, secret, pending, sendable))"
      "send_batch (sc_base_url cfg) (si_post inp) dev secret sendable = Inr (SyncBatchResult res)"
      "mark_delivered cfg inp res (wk_world w) = (Inl e, s)" "w' = w\<lparr>wk_world := s\<rparr>" "r = Inl e"
  | (marked) dev secret pending sendable res u s x s'
    where "plan_drain cfg inp (wk_world w) = Inr (Some (dev, secret, pending, sendable))"
      "send_batch (sc_base_url cfg) (si_post inp) dev secret sendable = Inr (SyncBatchResult res)"
      "mark_delivered cfg inp res (wk_world w) = (Inr u, s)"
      "mark_suppressed_by_quota cfg inp res s = (x, s')"
      "w' = (if is_ok x then reset_backoff (w\<lparr>wk_world := s'\<rparr>) else w\<lparr>wk_world := s'\<rparr>)"
      "r = map_sum id (\<lambda>_. length sendable < length pending
              \<or> int (length pending) < tn_batch_size (sc_tuning cfg)) x"
proof (cases "plan_drain cfg inp (wk_world w)")
  case (Inl e)
  show ?thesis by (rule plan_raises [OF Inl]) (use assms Inl in \<open>simp_all add: drain_once_def\<close>)
next
  case (Inr plan)
  show ?thesis
  proof (cases plan)
    case None
    show ?thesis by (rule idle) (use assms Inr None in \<open>simp_all add: drain_once_def\<close>)
  next
    case (Some q)
    obtain dev secret pending sendable where q: "q = (dev, secret, pending, sendable)" by (cases q)
    note plan = Inr [unfolded Some q]
    show ?thesis
    proof (cases "send_batch (sc_base_url cfg) (si_post inp) dev secret sendable")
      case (Inl e)
      show ?thesis by (rule send_raises [OF plan Inl]) (use assms plan Inl in \<open>simp_all add: drain_once_def\<close>)
    next
      case send: (Inr out)
      show ?thesis
      proof (cases out)
        case (SyncBatchFailure reason status)
        note send' = send [unfolded SyncBatchFailure]
        show ?thesis
        proof (cases "sleep_backoff (sc_tuning cfg) (si_jitter inp) w")
          case (Pair y v)
          show ?thesis
            by (rule backoff [OF plan send'])
               (use assms plan send' Pair in \<open>cases y; auto simp: drain_once_def\<close>)+
        qed
      next
        case (SyncBatchResult res)
        note send' = send [unfolded SyncBatchResult]
        show ?thesis
        proof (cases "mark_delivered cfg inp res (wk_world w)")
          case md: (Pair y s)
          show ?thesis
          proof (cases y)
            case (Inl e)
            show ?thesis
              by (rule mark_failed [OF plan send' md [unfolded Inl]])
                 (use assms plan send' md Inl in \<open>simp_all add: drain_once_def\<close>)
          next
            case (Inr u)
            show ?thesis
            proof (cases "mark_suppressed_by_quota cfg inp res s")
              case (Pair x s')
              show ?thesis
                by (rule marked [OF plan send' md [unfolded Inr] Pair])
                   (use assms plan send' md Inr Pair in \<open>cases x; auto simp: drain_once_def\<close>)+
            qed
          qed
        qed
      qed
    qed
  qed
qed

lemma drain_failed_send_world:
  assumes "drain_once cfg inp w = (r, w')"
    and "\<And>dev secret es res. send_batch (sc_base_url cfg) (si_post inp) dev secret es \<noteq> Inr (SyncBatchResult res)"
  shows "wk_world w' = wk_world w"
  using assms(1)
proof (cases rule: drain_once_cases)
  case (backoff dev secret pending sendable reason status)
  then show ?thesis by (auto simp: sleep_backoff_cases sleep_for_def split: if_splits)
qed (use assms(2) in auto)

section \<open>The loop\<close>

definition fault_ok :: "fault \<Rightarrow> bool" where
  "fault_ok f \<longleftrightarrow> (\<forall>e. f = Some e \<longrightarrow> is_exception e)"

text \<open>
  Storage faults are ordinary exceptions, and the HTTP call is not cancelled; \<open>sync_down\<close> says that
  the store answers and the Backend cannot be reached.
\<close>

definition sync_input_ok :: "sync_input \<Rightarrow> bool" where
  "sync_input_ok inp \<longleftrightarrow>
     fault_ok (si_identity_fault inp) \<and> fault_ok (si_list_fault inp) \<and> fault_ok (si_mark_fault inp)
     \<and> fault_ok (si_suppress_fault inp)
     \<and> (\<forall>req e. si_post inp req = HttpRaised e \<longrightarrow> is_exception e)
     \<and> (\<forall>req n e. si_post inp req = HttpResponse n (Inl e) \<longrightarrow> is_exception e)"

definition sync_down :: "sync_input \<Rightarrow> bool" where
  "sync_down inp \<longleftrightarrow> si_identity_fault inp = None \<and> si_list_fault inp = None
     \<and> (\<forall>req. si_post inp req = HttpTransportError)"

definition sync_blocked :: "sync_config \<Rightarrow> store \<Rightarrow> bool" where
  "sync_blocked cfg s \<longleftrightarrow>
     (\<exists>i es. load_identity None (st_identity s) = Inr (Some i) \<and> di_operational_state i = OPERATIONAL
        \<and> list_pending None (tn_batch_size (sc_tuning cfg)) (st_events s) = Inr es
        \<and> (\<exists>e \<in> set es. de_device_id e = di_device_id i))"

lemma load_identity_exception: "load_identity f t = Inl e \<Longrightarrow> fault_ok f \<Longrightarrow> is_exception e"
  by (auto simp: load_identity_def read_only_def load_rows_def row_to_identity_def fault_ok_def outcome_simps
      split: option.splits list.splits sum.splits)

lemma row_to_event_Inl: "row_to_event b r = Inl e \<Longrightarrow> e = RepositoryExn InvalidDetectionEventStateError"
  by (auto simp: row_to_event_def split: sum.splits)

lemma map_result_Inl: "map_result f xs = Inl e \<Longrightarrow> \<exists>x \<in> set xs. f x = Inl e"
  by (induction xs) (auto simp: outcome_simps)

lemma list_pending_exception: "list_pending f n t = Inl e \<Longrightarrow> fault_ok f \<Longrightarrow> is_exception e"
  by (auto simp: list_pending_def read_only_def fault_ok_def dest!: map_result_Inl row_to_event_Inl
      split: if_splits option.splits)

lemma plan_drain_exception: "plan_drain cfg inp s = Inl e \<Longrightarrow> sync_input_ok inp \<Longrightarrow> is_exception e"
  by (auto simp: plan_drain_def outcome_simps Let_def sync_input_ok_def
      dest: load_identity_exception list_pending_exception split: option.split_asm if_split_asm)

lemma build_request_Inl: "build_request b d s es = Inl e \<Longrightarrow> e = ValueError"
  by (auto simp: build_request_def serialize_event_def outcome_simps dest!: map_result_Inl
      split: option.split_asm)

lemma send_batch_exception:
  assumes "send_batch base (si_post inp) dev secret es = Inl e" and "sync_input_ok inp"
  shows "is_exception e"
proof (cases "build_request base dev secret es")
  case (Inl x)
  with assms(1) build_request_Inl [OF Inl] show ?thesis by (simp add: send_batch_def)
next
  case (Inr req)
  show ?thesis
  proof (cases "si_post inp req")
    case (HttpRaised x)
    with assms Inr show ?thesis by (auto simp: send_batch_def sync_input_ok_def)
  next
    case (HttpResponse n body)
    with assms(1) Inr have "safe_json body = Inl e"
      by (auto simp: send_batch_def classify_response_def parse_success_def outcome_simps Let_def
          split: if_split_asm option.split_asm)
    then have "body = Inl e" by (auto simp: safe_json_def split: sum.split_asm if_split_asm)
    with HttpResponse assms(2) show ?thesis by (auto simp: sync_input_ok_def)
  qed (use assms Inr in \<open>auto simp: send_batch_def\<close>)
qed

lemma mark_exception:
  assumes "fault_ok f"
  shows "mark_delivered_many f ids w t = (Inl e, t') \<Longrightarrow> is_exception e"
    and "mark_suppressed_by_quota_many f ids w t = (Inl e, t') \<Longrightarrow> is_exception e"
  using assms
  by (auto simp: mark_delivered_many_def mark_suppressed_by_quota_many_def outcome_simps fault_ok_def
      split: sum.split_asm if_split_asm)

lemma drain_once_raises:
  assumes "sync_input_ok inp" and "drain_once cfg inp w = (Inl e, w')"
  shows "is_exception e \<and> wk_attempt w' = wk_attempt w"
  using assms(2)
proof (cases rule: drain_once_cases)
  case idle
  then show ?thesis by simp
next
  case (plan_raises x)
  then show ?thesis using plan_drain_exception assms(1) by auto
next
  case (send_raises dev secret pending sendable x)
  then show ?thesis using send_batch_exception assms(1) by auto
next
  case (backoff dev secret pending sendable reason status)
  then show ?thesis by (auto simp: sleep_backoff_cases split: if_split_asm)
next
  case (mark_failed dev secret pending sendable res x s)
  then show ?thesis
    using assms(1) mark_exception(1)
    by (auto simp: mark_delivered_def Let_def sync_input_ok_def split: if_split_asm sum.split_asm prod.split_asm)
next
  case (marked dev secret pending sendable res u s x s')
  then have "x = Inl e" by (cases x) simp_all
  with marked show ?thesis
    using assms(1) mark_exception(2)
    by (auto simp: mark_suppressed_by_quota_def Let_def sync_input_ok_def split: if_split_asm sum.split_asm prod.split_asm)
qed

lemma drain_once_counts:
  assumes "drain_once cfg inp w = (Inr idle, w')"
  shows "wk_attempt w' \<le> Suc (wk_attempt w)"
  using assms
proof (cases rule: drain_once_cases)
  case (backoff dev secret pending sendable reason status)
  then show ?thesis by (auto simp: sleep_backoff_cases sleep_for_def split: if_split_asm)
next
  case (marked dev secret pending sendable res u s x s')
  then show ?thesis by (cases x) (auto simp: reset_backoff_def)
qed auto

text \<open>Rows that \<^verbatim>\<open>list_pending\<close> returns can always be serialised.\<close>

lemma row_to_event_serialises:
  assumes "row_to_event True r = Inr e"
  shows "\<exists>w. serialize_event e = Inr w"
proof -
  obtain c where "parse_iso_utc (er_created_at_utc r) = Inr c" "de_created_at_utc e = Some c"
    "detection_event_ok e"
    using assms by (auto simp: row_to_event_def outcome_simps split: sum.split_asm)
  moreover obtain n where "de_detected_at_utc e = Aware n"
    using \<open>detection_event_ok e\<close> by (cases "de_detected_at_utc e") (auto simp: detection_event_ok_def)
  ultimately show ?thesis by (auto simp: serialize_event_def outcome_simps)
qed

lemma list_pending_serialises:
  assumes "list_pending f n t = Inr es" and "e \<in> set es"
  shows "\<exists>w. serialize_event e = Inr w"
proof -
  have "list_all2 (\<lambda>r e. row_to_event True r = Inr e) (select_pending (nat n) t) es"
    using assms(1) by (auto simp: list_pending_def read_only_def map_result_all2 split: if_split_asm option.split_asm)
  from list_all2_source [OF this assms(2)] show ?thesis using row_to_event_serialises by blast
qed

lemma build_request_ok:
  assumes "list_pending f n t = Inr es"
  shows "\<exists>req. build_request base dev secret (filter p es) = Inr req"
proof -
  obtain g where "\<And>e. e \<in> set es \<Longrightarrow> serialize_event e = Inr (g e)"
    using list_pending_serialises [OF assms] by metis
  then have "map_result serialize_event (filter p es) = Inr (map g (filter p es))"
    by (intro map_result_Inr_map) simp
  then show ?thesis by (simp add: build_request_def)
qed

lemma drain_once_down:
  assumes "sync_down inp" and "sync_blocked cfg (wk_world w)" and "drain_once cfg inp w = (r, w')"
  shows "sync_blocked cfg (wk_world w') \<and>
    (if wk_attempt w < 1024 then r = Inr False \<and> wk_attempt w' = Suc (wk_attempt w) else r = Inl OverflowError)"
proof -
  obtain i es where i: "load_identity None (st_identity (wk_world w)) = Inr (Some i)"
    "di_operational_state i = OPERATIONAL"
    "list_pending None (tn_batch_size (sc_tuning cfg)) (st_events (wk_world w)) = Inr es"
    "\<exists>e \<in> set es. de_device_id e = di_device_id i"
    using assms(2) by (auto simp: sync_blocked_def)
  let ?send = "filter (\<lambda>e. de_device_id e = di_device_id i) es"
  obtain secret where "di_shared_secret i = Some secret"
    using load_identity_ok [OF i(1)] i(2) by (auto simp: identity_ok_def)
  with assms(1) i have plan: "plan_drain cfg inp (wk_world w) = Inr (Some (di_device_id i, secret, es, ?send))"
    by (auto simp: plan_drain_Some sync_down_def filter_empty_conv)
  obtain req where "build_request (sc_base_url cfg) (di_device_id i) secret ?send = Inr req"
    using build_request_ok [OF i(3)] by blast
  with assms(1) have send: "send_batch (sc_base_url cfg) (si_post inp) (di_device_id i) secret ?send
      = Inr (SyncBatchFailure TRANSPORT_FAILURE None)"
    by (simp add: send_batch_def sync_down_def)
  show ?thesis
    using assms(2,3) plan send
    by (auto simp: drain_once_def sleep_backoff_cases sleep_for_def split: if_split_asm)
qed

interpretation sync_loop: background_worker "sc_tuning cfg" "drain_once cfg" sync_down "sync_blocked cfg" sync_input_ok
  for cfg
  by unfold_locales (blast intro: drain_once_counts, rule drain_once_raises, assumption+, rule drain_once_down)

section \<open>Properties\<close>

lemma finalize_twice:
  assumes "(if c then finalize DS_SUPPRESSED_BY_QUOTA qs (finalize DS_DELIVERED ids m)
            else finalize DS_DELIVERED ids m) u \<noteq> m u"
  shows "m u = Some DS_PENDING
    \<and> ((if c then finalize DS_SUPPRESSED_BY_QUOTA qs (finalize DS_DELIVERED ids m)
         else finalize DS_DELIVERED ids m) u = Some DS_DELIVERED \<and> u \<in> set ids
      \<or> (if c then finalize DS_SUPPRESSED_BY_QUOTA qs (finalize DS_DELIVERED ids m)
         else finalize DS_DELIVERED ids m) u = Some DS_SUPPRESSED_BY_QUOTA \<and> u \<in> set qs)"
  using assms by (cases c; cases "u \<in> set ids"; cases "u \<in> set qs"; cases "m u = Some DS_PENDING")
    (simp_all add: finalize_def)

lemma result_sets:
  "u \<in> set (sy_accepted r @ sy_duplicate r) \<longleftrightarrow> Accepted \<in> verdicts r u \<or> Duplicate \<in> verdicts r u"
  "u \<in> set (map fst (sy_quota_exceeded r)) \<longleftrightarrow> (\<exists>q. QuotaExceeded q \<in> verdicts r u)"
proof -
  show "u \<in> set (sy_accepted r @ sy_duplicate r) \<longleftrightarrow> Accepted \<in> verdicts r u \<or> Duplicate \<in> verdicts r u"
    by (auto simp: verdicts_def split: option.splits)
  have "u \<in> set (map fst (sy_quota_exceeded r)) \<longleftrightarrow> (\<exists>q. map_of (sy_quota_exceeded r) u = Some q)"
    by (metis (no_types) list.set_map map_of_eq_None_iff not_None_eq)
  then show "u \<in> set (map fst (sy_quota_exceeded r)) \<longleftrightarrow> (\<exists>q. QuotaExceeded q \<in> verdicts r u)"
    by (auto simp: verdicts_def split: option.splits)
qed

text \<open>An event with a verdict has exactly one item in the answer that was parsed.\<close>

lemma send_batch_item:
  assumes "send_batch url post dev secret es = Inr (SyncBatchResult res)" and ne: "verdicts res u \<noteq> {}"
  obtains req p d items item where "post req = HttpResponse 200 (Inr (JObj p))"
    and "jget p ''success'' = Some (JBool True)" and "jget p ''data'' = Some (JObj d)"
    and "jget d ''results'' = Some (JArr items)" and "items_of u items = [item]" and "verdicts res u = item_verdicts item"
proof -
  obtain req p d items where ans: "post req = HttpResponse 200 (Inr (JObj p))"
    "jget p ''success'' = Some (JBool True)" "jget p ''data'' = Some (JObj d)"
    "jget d ''results'' = Some (JArr items)" "res = parse_results items"
    using send_batch_result [OF assms(1)] by blast
  have v: "verdicts res u = (case items_of u items of [i] \<Rightarrow> item_verdicts i | _ \<Rightarrow> {})"
    unfolding ans(5) by (rule parse_results_verdicts)
  obtain item where item: "items_of u items = [item]"
  proof (cases "items_of u items")
    case Nil
    with v ne show ?thesis by simp
  next
    case (Cons i rest)
    with v ne that show ?thesis by (cases rest) simp_all
  qed
  with v have "verdicts res u = item_verdicts item" by simp
  with ans item that show ?thesis by blast
qed

text \<open>
  C2.  No event is lost by the sync worker: whatever a drain meets (faults, an unreachable or
  confused Backend), an event whose status it changes was pending, and the Backend's answer to this
  very request was a well-formed success that named the event in exactly one item: accepted or
  duplicate for an event now delivered, quota exceeded for one now suppressed.
\<close>

theorem drain_only_finalises_acknowledged:
  assumes "drain_once cfg inp w = (r, w')"
    and "event_status (st_events (wk_world w')) u \<noteq> event_status (st_events (wk_world w)) u"
  shows "event_status (st_events (wk_world w)) u = Some DS_PENDING \<and>
    (\<exists>req p d items item. si_post inp req = HttpResponse 200 (Inr (JObj p))
       \<and> jget p ''success'' = Some (JBool True) \<and> jget p ''data'' = Some (JObj d)
       \<and> jget d ''results'' = Some (JArr items) \<and> items_of u items = [item]
       \<and> (event_status (st_events (wk_world w')) u = Some DS_DELIVERED
            \<and> (Accepted \<in> item_verdicts item \<or> Duplicate \<in> item_verdicts item)
          \<or> event_status (st_events (wk_world w')) u = Some DS_SUPPRESSED_BY_QUOTA
            \<and> (\<exists>q. QuotaExceeded q \<in> item_verdicts item)))"
proof -
  have from_answer: ?thesis
    if send: "send_batch (sc_base_url cfg) (si_post inp) dev secret es = Inr (SyncBatchResult res)"
      and step: "event_status (st_events (wk_world w)) u = Some DS_PENDING
        \<and> (event_status (st_events (wk_world w')) u = Some DS_DELIVERED
             \<and> (Accepted \<in> verdicts res u \<or> Duplicate \<in> verdicts res u)
           \<or> event_status (st_events (wk_world w')) u = Some DS_SUPPRESSED_BY_QUOTA
             \<and> (\<exists>q. QuotaExceeded q \<in> verdicts res u))" for dev secret es res
  proof -
    have "verdicts res u \<noteq> {}" using step by blast
    then obtain req p d items item where "si_post inp req = HttpResponse 200 (Inr (JObj p))"
      "jget p ''success'' = Some (JBool True)" "jget p ''data'' = Some (JObj d)"
      "jget d ''results'' = Some (JArr items)" "items_of u items = [item]" "verdicts res u = item_verdicts item"
      using send_batch_item [OF send] by blast
    with step show ?thesis by metis
  qed
  from assms(1) show ?thesis
  proof (cases rule: drain_once_cases)
    case (mark_failed dev secret pending sendable res e s)
    then show ?thesis using assms(2) mark_delivered_status [of cfg inp res "wk_world w" "Inl e" s] by simp
  next
    case (marked dev secret pending sendable res x s y s')
    have a: "event_status (st_events s)
        = finalize DS_DELIVERED (sy_accepted res @ sy_duplicate res) (event_status (st_events (wk_world w)))"
      using mark_delivered_status [OF marked(3)] by simp
    have b: "event_status (st_events s') = (if is_ok y
        then finalize DS_SUPPRESSED_BY_QUOTA (map fst (sy_quota_exceeded res)) (event_status (st_events s))
        else event_status (st_events s))"
      by (rule mark_suppressed_status [OF marked(4)])
    have w': "st_events (wk_world w') = st_events s'"
      using marked(5) by (simp add: reset_backoff_def)
    have "event_status (st_events (wk_world w)) u = Some DS_PENDING
        \<and> (event_status (st_events s') u = Some DS_DELIVERED
             \<and> u \<in> set (sy_accepted res @ sy_duplicate res)
           \<or> event_status (st_events s') u = Some DS_SUPPRESSED_BY_QUOTA
             \<and> u \<in> set (map fst (sy_quota_exceeded res)))"
      using assms(2) unfolding w' a b by (rule finalize_twice)
    then show ?thesis by (intro from_answer [OF marked(2)]) (simp only: w' result_sets)
  next
    case (backoff dev secret pending sendable reason status)
    then have "wk_world w' = wk_world w" by (auto simp: sleep_backoff_cases sleep_for_def split: if_split_asm)
    then show ?thesis using assms(2) by simp
  qed (use assms(2) in simp_all)
qed

section \<open>A Backend that gives every event the same outcome\<close>

definition success_answer :: "json list \<Rightarrow> http_outcome" where
  "success_answer items =
     HttpResponse 200 (Inr (JObj [(''success'', JBool True), (''data'', JObj [(''results'', JArr items)])]))"

definition outcome_item :: "string \<Rightarrow> string \<Rightarrow> json" where
  "outcome_item outcome eid = JObj [(''eventId'', JStr eid), (''outcome'', JStr outcome)]"

definition uniform_backend :: "string \<Rightarrow> sync_request \<Rightarrow> http_outcome" where
  "uniform_backend outcome req = success_answer (map (\<lambda>e. outcome_item outcome (we_event_id e)) (rq_events req))"

lemma filter_key_unique:
  "distinct (map k xs) \<Longrightarrow> filter (\<lambda>y. k y = v) xs = (case List.find (\<lambda>y. k y = v) xs of Some x \<Rightarrow> [x] | None \<Rightarrow> [])"
proof (induction xs)
  case (Cons x xs)
  show ?case
  proof (cases "k x = v")
    case True
    with Cons.prems have "\<forall>y \<in> set xs. k y \<noteq> v" by (auto simp: image_iff)
    with True show ?thesis by (simp add: filter_empty_conv)
  next
    case False
    with Cons show ?thesis by simp
  qed
qed simp

lemma build_request_ids:
  assumes "build_request base dev secret es = Inr req"
  shows "map we_event_id (rq_events req) = map (\<lambda>e. str_uuid (de_event_id e)) es"
proof -
  have "list_all2 (\<lambda>e w. serialize_event e = Inr w) es (rq_events req)"
    using assms by (auto simp: build_request_def outcome_simps map_result_all2)
  then have "list_all2 (\<lambda>e w. we_event_id w = str_uuid (de_event_id e)) es (rq_events req)"
    by (rule list_all2_mono) (auto simp: serialize_event_def outcome_simps split: option.split_asm)
  then show ?thesis by (induction rule: list_all2_induct) simp_all
qed

lemma outcome_item_simps [simp]:
  "item_event_id (outcome_item out (str_uuid u)) = Some u"
  "item_field (outcome_item out eid) ''outcome'' = JStr out"
  "item_field (outcome_item out eid) ''alertId'' = JNull"
  by (simp_all add: outcome_item_def item_event_id_def item_field_def jget_none_def parse_str_uuid)

lemma uniform_verdicts:
  assumes "distinct us"
  shows "verdicts (parse_results (map (\<lambda>u. outcome_item out (str_uuid u)) us)) u
       = (if u \<in> set us then item_verdicts (outcome_item out (str_uuid u)) else {})"
proof -
  have "items_of u (map (\<lambda>u. outcome_item out (str_uuid u)) us)
      = map (\<lambda>u. outcome_item out (str_uuid u)) (filter (\<lambda>v. v = u) us)"
    by (simp add: items_of_def filter_map comp_def)
  also have "filter (\<lambda>v. v = u) us = (if u \<in> set us then [u] else [])"
    using assms by (induction us) auto
  finally show ?thesis by (simp add: parse_results_verdicts)
qed

lemma uniform_send:
  assumes "si_post inp = uniform_backend out" and "list_pending f n t = Inr es"
  shows "send_batch base (si_post inp) dev secret (filter p es)
       = Inr (SyncBatchResult (parse_results
           (map (\<lambda>u. outcome_item out (str_uuid u)) (map de_event_id (filter p es)))))"
proof -
  obtain req where req: "build_request base dev secret (filter p es) = Inr req"
    using build_request_ok [OF assms(2)] by blast
  have "map (\<lambda>e. outcome_item out (we_event_id e)) (rq_events req)
      = map (outcome_item out) (map we_event_id (rq_events req))" by simp
  also have "\<dots> = map (\<lambda>u. outcome_item out (str_uuid u)) (map de_event_id (filter p es))"
    unfolding build_request_ids [OF req] by simp
  finally show ?thesis
    using req assms(1)
    by (simp add: send_batch_def uniform_backend_def success_answer_def classify_response_def
        parse_success_def safe_json_def jget_none_def)
qed

text \<open>The situation both properties below start from.\<close>

definition steady :: "device_identity \<Rightarrow> store \<Rightarrow> bool" where
  "steady i s \<longleftrightarrow>
     load_identity None (st_identity s) = Inr (Some i) \<and> di_operational_state i = OPERATIONAL
     \<and> event_table_wf (st_events s)
     \<and> list_all (\<lambda>r. is_pending r \<longrightarrow> de_device_id (er_event r) = di_device_id i) (st_events s)"

definition sync_fault_free :: "sync_input \<Rightarrow> bool" where
  "sync_fault_free inp \<longleftrightarrow> si_identity_fault inp = None \<and> si_list_fault inp = None \<and> si_mark_fault inp = None
     \<and> has_tz (si_delivered_at inp)"

lemma steady_plan:
  assumes "steady i (wk_world w)" and "sync_fault_free inp" and "0 < tn_batch_size (sc_tuning cfg)"
    and "select_pending (nat (tn_batch_size (sc_tuning cfg))) (st_events (wk_world w)) \<noteq> []"
  shows "\<exists>secret. plan_drain cfg inp (wk_world w) =
    Inr (Some (di_device_id i, secret,
      map stored_event (select_pending (nat (tn_batch_size (sc_tuning cfg))) (st_events (wk_world w))),
      map stored_event (select_pending (nat (tn_batch_size (sc_tuning cfg))) (st_events (wk_world w)))))"
proof -
  let ?rows = "select_pending (nat (tn_batch_size (sc_tuning cfg))) (st_events (wk_world w))"
  have i: "load_identity None (st_identity (wk_world w)) = Inr (Some i)" "di_operational_state i = OPERATIONAL"
    and wf: "event_table_wf (st_events (wk_world w))"
    using assms(1) by (simp_all add: steady_def)
  obtain secret where "di_shared_secret i = Some secret"
    using load_identity_ok [OF i(1)] i(2) by (auto simp: identity_ok_def)
  moreover have "\<forall>e \<in> set (map stored_event ?rows). de_device_id e = di_device_id i"
    using assms(1) select_pending_subset [of "nat (tn_batch_size (sc_tuning cfg))" "st_events (wk_world w)"]
    by (auto simp: steady_def list_all_iff stored_event_def)
  then have "filter (\<lambda>e. de_device_id e = di_device_id i) (map stored_event ?rows) = map stored_event ?rows"
    by (simp add: filter_id_conv)
  ultimately show ?thesis
    using i list_pending_wf [OF wf assms(3)] assms(2,4)
    by (intro exI [of _ secret]) (simp add: plan_drain_Some sync_fault_free_def)
qed

lemma select_pending_distinct_ids:
  assumes "event_table_wf t"
  shows "distinct (map (\<lambda>r. de_event_id (er_event r)) (select_pending n t))"
proof (cases "n = 0")
  case True
  then show ?thesis by (simp add: select_pending_def)
next
  case False
  then have "list_pending None (int n) t = Inr (map stored_event (select_pending n t))"
    using list_pending_wf [OF assms, of "int n"] by simp
  from sqlite_outbox.listing_distinct [OF assms this] show ?thesis by (simp add: comp_def)
qed

lemma filter_pending_in:
  assumes "event_table_wf t" and "rows = select_pending n t"
  shows "count_rows (pending_in (map (\<lambda>r. de_event_id (er_event r)) rows)) t = length rows"
proof -
  let ?ids = "map (\<lambda>r. de_event_id (er_event r)) rows"
  have dt: "distinct t" using assms(1) by (auto simp: event_table_wf_def distinct_map)
  have dr: "distinct rows"
    using select_pending_distinct_ids [OF assms(1), of n] unfolding assms(2) by (simp add: distinct_map)
  have sub: "set rows \<subseteq> {r \<in> set t. is_pending r}" unfolding assms(2) by (rule select_pending_subset)
  have "set (filter (pending_in ?ids) t) = set rows"
  proof (intro equalityI subsetI)
    fix r assume "r \<in> set (filter (pending_in ?ids) t)"
    then have r: "r \<in> set t" "is_pending r" and "\<exists>x \<in> set rows. er_event_id r = str_uuid (de_event_id (er_event x))"
      by (auto simp: pending_in_def)
    then obtain x where x: "x \<in> set rows" "er_event_id r = str_uuid (de_event_id (er_event x))" by blast
    then have "er_event_id x = er_event_id r"
      using sub assms(1) by (auto simp: event_table_wf_def list_all_iff event_row_wf_def)
    then have "x = r"
      using distinct_key_inj [of er_event_id t x r] assms(1) sub x(1) r(1) by (auto simp: event_table_wf_def)
    with x show "r \<in> set rows" by simp
  next
    fix r assume "r \<in> set rows"
    with sub assms(1) show "r \<in> set (filter (pending_in ?ids) t)"
      by (auto simp: pending_in_def event_table_wf_def list_all_iff event_row_wf_def)
  qed
  then show ?thesis
    unfolding count_rows_def using dt dr by (metis distinct_card distinct_filter)
qed

lemma count_after_marking:
  assumes "\<And>r. p r \<Longrightarrow> is_pending r" and "\<And>r. \<not> is_pending (f r)"
  shows "count_rows is_pending (update_rows p f t) + count_rows p t = count_rows is_pending t"
  using assms by (induction t) (auto simp: count_rows_def update_rows_Cons)

lemma associate_sinks_identity [simp]: "st_identity (associate_alert_ids cfg inp r s) = st_identity s"
proof -
  have "st_identity (fold (\<lambda>(u, a). alert_id_sink inp u a) xs s) = st_identity s" for xs
    by (induction xs arbitrary: s) (auto simp: alert_id_sink_def)
  then show ?thesis by (simp add: associate_alert_ids_def)
qed

lemma drain_accepting:
  assumes st: "steady i (wk_world w)" and ff: "sync_fault_free inp" and b: "0 < tn_batch_size (sc_tuning cfg)"
    and backend: "si_post inp = uniform_backend ''accepted''"
  defines "n \<equiv> nat (tn_batch_size (sc_tuning cfg))"
  shows "\<exists>idle w'. drain_once cfg inp w = (Inr idle, w') \<and> steady i (wk_world w')
    \<and> count_rows is_pending (st_events (wk_world w')) = count_rows is_pending (st_events (wk_world w)) - n"
proof (cases "select_pending n (st_events (wk_world w)) = []")
  case True
  have wf: "event_table_wf (st_events (wk_world w))" and
    i: "load_identity None (st_identity (wk_world w)) = Inr (Some i)" "di_operational_state i = OPERATIONAL"
    using st by (simp_all add: steady_def)
  have "plan_drain cfg inp (wk_world w) = Inr None"
    using i ff b True list_pending_wf [OF wf b] by (simp add: plan_drain_def sync_fault_free_def n_def)
  moreover have "filter is_pending (st_events (wk_world w)) = []"
    using True b by (simp add: select_pending_def n_def)
      (metis length_0_conv length_sort)
  ultimately show ?thesis
    using st by (intro exI [of _ True] exI [of _ w]) (simp add: drain_once_def count_rows_def)
next
  case False
  let ?t = "st_events (wk_world w)"
  let ?rows = "select_pending n ?t"
  let ?es = "map stored_event ?rows"
  let ?ids = "map (\<lambda>r. de_event_id (er_event r)) ?rows"
  have wf: "event_table_wf ?t" using st by (simp add: steady_def)
  obtain secret where plan: "plan_drain cfg inp (wk_world w) = Inr (Some (di_device_id i, secret, ?es, ?es))"
    using steady_plan [OF st ff b] False by (auto simp: n_def)
  define res where "res = parse_results (map (\<lambda>u. outcome_item ''accepted'' (str_uuid u)) ?ids)"
  have send: "send_batch (sc_base_url cfg) (si_post inp) (di_device_id i) secret ?es = Inr (SyncBatchResult res)"
    using uniform_send [OF backend list_pending_wf [OF wf b], of "sc_base_url cfg" "di_device_id i" secret "\<lambda>_. True"]
    by (simp add: comp_def n_def res_def)
  have verd: "verdicts res u = (if u \<in> set ?ids then {Accepted} else {})" for u
    using uniform_verdicts [OF select_pending_distinct_ids [OF wf, of n], of "''accepted''" u]
    unfolding res_def by (simp add: item_verdicts_def)
  have ids: "set (sy_accepted res @ sy_duplicate res) = set ?ids" and q: "sy_quota_exceeded res = []"
  proof -
    show "set (sy_accepted res @ sy_duplicate res) = set ?ids"
      using verd by (auto simp: result_sets(1) set_eq_iff simp del: set_append)
    have "u \<notin> set (map fst (sy_quota_exceeded res))" for u
      unfolding result_sets(2) verd by simp
    then show "sy_quota_exceeded res = []" by (cases "sy_quota_exceeded res") force+
  qed
  let ?marked = "remdups (sy_accepted res @ sy_duplicate res)"
  have ne: "?marked \<noteq> []"
  proof
    assume "?marked = []"
    then have "set ?ids = {}" unfolding ids [symmetric] by (metis set_remdups list.set(1))
    with False show False by simp
  qed
  have same: "pending_in ?marked = pending_in ?ids" using ids by (simp add: pending_in_def fun_eq_iff)
  obtain k where k: "si_delivered_at inp = Aware k" using ff by (cases "si_delivered_at inp") (auto simp: sync_fault_free_def)
  let ?f = "\<lambda>r. r\<lparr>er_delivery_status := DS_DELIVERED, er_delivered_at_utc := Some (IsoUtc k)\<rparr>"
  let ?t' = "update_rows (pending_in ?ids) ?f ?t"
  have mk: "mark_delivered_many None ?marked (si_delivered_at inp) ?t = (Inr (count_rows (pending_in ?ids) ?t), ?t')"
    unfolding mark_delivered_many_def k to_iso_utc.simps sum.case if_not_P [OF ne] same
    by (simp add: transaction_def)
  let ?s = "associate_alert_ids cfg inp res ((wk_world w)\<lparr>st_events := ?t'\<rparr>)"
  have md: "mark_delivered cfg inp res (wk_world w) = (Inr (), ?s)"
    using mk ff unfolding mark_delivered_def Let_def if_not_P [OF ne] sync_fault_free_def by simp
  have ms: "mark_suppressed_by_quota cfg inp res ?s = (Inr (), ?s)"
    by (simp add: mark_suppressed_by_quota_def q)
  have "drain_once cfg inp w = (Inr (int (length ?es) < tn_batch_size (sc_tuning cfg)), reset_backoff (w\<lparr>wk_world := ?s\<rparr>))"
    using plan send md ms by (simp add: drain_once_def)
  moreover have "steady i ?s"
  proof -
    have "event_table_wf ?t'" by (rule mark_update_wf(1) [OF wf])
    moreover have "\<forall>r \<in> set ?t'. is_pending r \<longrightarrow> de_device_id (er_event r) = di_device_id i"
      using st by (auto simp: steady_def list_all_iff set_update_rows is_pending_def)
    ultimately show ?thesis using st by (simp add: steady_def list_all_iff)
  qed
  moreover have "count_rows is_pending ?t' = count_rows is_pending ?t - n"
  proof -
    have "count_rows is_pending ?t' + count_rows (pending_in ?ids) ?t = count_rows is_pending ?t"
      by (rule count_after_marking) (simp_all add: pending_in_def is_pending_def)
    moreover have "count_rows (pending_in ?ids) ?t = length ?rows" by (rule filter_pending_in [OF wf refl])
    moreover have "length ?rows = min (count_rows is_pending ?t) n"
      by (simp add: select_pending_def count_rows_def)
    ultimately show ?thesis by simp
  qed
  ultimately show ?thesis by (simp add: reset_backoff_def)
qed

lemma run_accepting:
  assumes "steady i (wk_world w)" and "sync_fault_free inp" and "0 < tn_batch_size (sc_tuning cfg)"
    and "si_post inp = uniform_backend ''accepted''"
    and "count_rows is_pending (st_events (wk_world w)) \<le> n * nat (tn_batch_size (sc_tuning cfg))"
  shows "\<exists>w'. run_loop (sc_tuning cfg) (drain_once cfg) (replicate n (j, inp)) w = Running w'
    \<and> count_rows is_pending (st_events (wk_world w')) = 0"
  using assms(1,5)
proof (induction n arbitrary: w)
  case 0
  then show ?case by simp
next
  case (Suc n)
  obtain idle w' where d: "drain_once cfg inp w = (Inr idle, w')" "steady i (wk_world w')"
    "count_rows is_pending (st_events (wk_world w'))
      = count_rows is_pending (st_events (wk_world w)) - nat (tn_batch_size (sc_tuning cfg))"
    using drain_accepting [OF Suc.prems(1) assms(2,3,4)] by blast
  let ?v = "if idle then sleep_for (tn_idle_interval (sc_tuning cfg)) w' else w'"
  have "run_iteration (sc_tuning cfg) j (drain_once cfg inp) w = Running ?v"
    using d(1) by (simp add: run_iteration_def)
  moreover have "steady i (wk_world ?v)" "wk_world ?v = wk_world w'" using d(2) by (simp_all add: sleep_for_def)
  moreover have "count_rows is_pending (st_events (wk_world ?v)) \<le> n * nat (tn_batch_size (sc_tuning cfg))"
    using d(3) Suc.prems(2) \<open>wk_world ?v = wk_world w'\<close> by simp
  ultimately show ?case using Suc.IH [of ?v] by simp
qed

text \<open>
  C31.  The outbox drains: when the store answers, the identity is operational, every pending event
  belongs to it and the Backend accepts what it is sent, the loop keeps running and after
  \<open>n\<close> iterations with \<open>n * batch_size\<close> at least the number of pending events none is pending,
  whatever the size of the outbox and of the batch.
\<close>

theorem outbox_drains_completely:
  assumes "steady i (wk_world w)" and "sync_fault_free inp" and "0 < tn_batch_size (sc_tuning cfg)"
    and "si_post inp = uniform_backend ''accepted''"
    and "count_rows is_pending (st_events (wk_world w)) \<le> n * nat (tn_batch_size (sc_tuning cfg))"
  shows "\<exists>w'. run_loop (sc_tuning cfg) (drain_once cfg) (replicate n (jitter, inp)) w = Running w'
    \<and> (\<forall>r \<in> set (st_events (wk_world w')). \<not> is_pending r)"
  using run_accepting [OF assms, of jitter] by (simp add: count_rows_0)

definition demo_tuning :: tuning where
  "demo_tuning = \<lparr>tn_batch_size = 1, tn_idle_interval = Fin 5, tn_initial_backoff = Fin 1, tn_max_backoff = Fin 60\<rparr>"

definition demo_sync_config :: sync_config where
  "demo_sync_config = \<lparr>sc_tuning = demo_tuning, sc_base_url = ''https://b'', sc_snapshot_sinks = True\<rparr>"

definition demo_store :: store where
  "demo_store =
     \<lparr>st_identity = [\<lparr>ir_device_id = ''dev'', ir_protected_secret = Some ''s'', ir_activated_at = IsoUtc 1,
                       ir_last_activated_at = IsoUtc 1, ir_operational_state = ''Operational''\<rparr>],
      st_events = [demo_row DS_PENDING], st_snapshots = [], st_files = (\<lambda>_. None)\<rparr>"

definition demo_identity :: device_identity where
  "demo_identity = \<lparr>di_device_id = ''dev'', di_shared_secret = Some ''s'', di_activated_at = Aware 1,
     di_last_activated_at = Aware 1, di_operational_state = OPERATIONAL\<rparr>"

definition demo_worker :: "store worker" where
  "demo_worker = \<lparr>wk_attempt = 0, wk_slept = [], wk_world = demo_store\<rparr>"

definition demo_sync_input :: "(sync_request \<Rightarrow> http_outcome) \<Rightarrow> sync_input" where
  "demo_sync_input post =
     \<lparr>si_identity_fault = None, si_list_fault = None, si_post = post, si_delivered_at = Aware 20,
      si_mark_fault = None, si_alert_fault = (\<lambda>_. None), si_finalized_at = Aware 21,
      si_suppress_fault = None, si_get_fault = (\<lambda>_. None), si_cancel_fault = (\<lambda>_. None),
      si_unlink_fault = (\<lambda>_. None), si_jitter = Fin 0\<rparr>"

lemma demo_load: "load_identity None (st_identity demo_store) = Inr (Some demo_identity)"
  by (simp add: load_identity_def load_rows_def row_to_identity_def parse_operational_state_def
      mk_device_identity_def demo_store_def demo_identity_def)

lemma demo_steady: "steady demo_identity (wk_world demo_worker)"
proof -
  have "er_event (demo_row DS_PENDING) = demo_event" by (simp add: demo_row_def new_event_row_def)
  then show ?thesis
    using demo_load demo_row_wf
    by (simp add: steady_def demo_worker_def demo_identity_def)
       (simp add: demo_store_def demo_event_def)
qed

theorem outbox_drains_completely_witness:
  "\<exists>w'. run_loop demo_tuning (drain_once demo_sync_config)
      (replicate 1 (Fin 0, demo_sync_input (uniform_backend ''accepted''))) demo_worker = Running w'
    \<and> (\<forall>r \<in> set (st_events (wk_world w')). \<not> is_pending r)"
  using outbox_drains_completely [OF demo_steady, of "demo_sync_input (uniform_backend ''accepted'')"
      demo_sync_config 1 "Fin 0"]
  by (simp add: sync_fault_free_def demo_sync_input_def demo_sync_config_def demo_tuning_def
      demo_worker_def demo_store_def count_rows_def)

text \<open>
  The task survives any trouble for 1024 iterations: whatever each drain meets, storage faults
  and lost connections in any order, no 1024 consecutive iterations from a fresh start end it.
\<close>

theorem sync_task_survives:
  assumes "\<forall>x \<in> set inputs. sync_input_ok (snd x)" and "wk_attempt w + length inputs \<le> 1024"
  shows "\<exists>w'. run_loop (sc_tuning cfg) (drain_once cfg) inputs w = Running w'"
  by (rule sync_loop.survives [OF assms])

theorem sync_task_survives_witness:
  "\<exists>w'. run_loop demo_tuning (drain_once demo_sync_config)
      [(Fin 0, demo_sync_input (\<lambda>_. HttpTimeout))] demo_worker = Running w'"
  using sync_task_survives [of "[(Fin 0, demo_sync_input (\<lambda>_. HttpTimeout))]" demo_worker demo_sync_config]
  by (simp add: sync_input_ok_def fault_ok_def demo_sync_input_def demo_worker_def demo_sync_config_def)

text \<open>
  But an outage ends it for good: while the Backend stays unreachable and there is something
  to send, the 1025th failure in a row computes \<open>2 ** 1024\<close>, whose conversion to a float raises
  \<^verbatim>\<open>OverflowError\<close>, once inside the drain and again inside the handler of \<^verbatim>\<open>_run\<close>.  The exception
  leaves \<^verbatim>\<open>_run\<close> and the task is over, although "nothing here may kill this task".
\<close>

theorem outage_kills_sync_task:
  assumes "\<forall>x \<in> set inputs. sync_input_ok (snd x) \<and> sync_down (snd x)"
    and "sync_blocked cfg (wk_world w)" and "wk_attempt w \<le> 1024" and "1024 < wk_attempt w + length inputs"
  shows "run_loop (sc_tuning cfg) (drain_once cfg) inputs w = Ended OverflowError"
  by (rule sync_loop.dies [OF assms(1,2,4,3)])

lemma demo_blocked: "sync_blocked demo_sync_config (wk_world demo_worker)"
proof -
  have "select_pending 1 [demo_row DS_PENDING] = [demo_row DS_PENDING]"
    by (simp add: select_pending_def is_pending_def demo_row_def)
  then have "list_pending None 1 [demo_row DS_PENDING] = Inr [stored_event (demo_row DS_PENDING)]"
    using list_pending_wf [OF demo_row_wf, of 1] by simp
  moreover have "de_device_id (stored_event (demo_row DS_PENDING)) = ''dev''"
    by (simp add: stored_event_def demo_row_def new_event_row_def demo_event_def)
  moreover have "st_events (wk_world demo_worker) = [demo_row DS_PENDING]"
    "st_identity (wk_world demo_worker) = st_identity demo_store"
    by (simp_all add: demo_worker_def demo_store_def)
  ultimately show ?thesis
    using demo_load unfolding sync_blocked_def
    by (intro exI [of _ demo_identity] exI [of _ "[stored_event (demo_row DS_PENDING)]"])
       (simp add: demo_sync_config_def demo_tuning_def demo_identity_def)
qed

theorem outage_kills_sync_task_witness:
  "run_loop demo_tuning (drain_once demo_sync_config)
     (replicate 1025 (Fin 0, demo_sync_input (\<lambda>_. HttpTransportError))) demo_worker = Ended OverflowError"
proof -
  have "\<forall>x \<in> set (replicate 1025 (Fin 0, demo_sync_input (\<lambda>_. HttpTransportError))).
      sync_input_ok (snd x) \<and> sync_down (snd x)"
    unfolding Ball_set_replicate
    by (simp add: sync_input_ok_def sync_down_def fault_ok_def demo_sync_input_def)
  then have "run_loop (sc_tuning demo_sync_config) (drain_once demo_sync_config)
      (replicate 1025 (Fin 0, demo_sync_input (\<lambda>_. HttpTransportError))) demo_worker = Ended OverflowError"
    by (rule outage_kills_sync_task [OF _ demo_blocked]) (simp_all add: demo_worker_def)
  then show ?thesis by (simp add: demo_sync_config_def)
qed

lemma drain_rejecting:
  assumes st: "steady i (wk_world w)" and ff: "sync_fault_free inp" and b: "0 < tn_batch_size (sc_tuning cfg)"
    and backend: "si_post inp = uniform_backend ''rejected''"
    and full: "tn_batch_size (sc_tuning cfg) \<le> int (count_rows is_pending (st_events (wk_world w)))"
  shows "drain_once cfg inp w = (Inr False, reset_backoff w)"
proof -
  define n where "n = nat (tn_batch_size (sc_tuning cfg))"
  let ?t = "st_events (wk_world w)"
  let ?rows = "select_pending n ?t"
  let ?es = "map stored_event ?rows"
  let ?ids = "map (\<lambda>r. de_event_id (er_event r)) ?rows"
  have wf: "event_table_wf ?t" using st by (simp add: steady_def)
  have "n \<le> count_rows is_pending ?t" using full by (simp add: n_def)
  then have len: "length ?rows = n" by (simp add: select_pending_def count_rows_def)
  then have ne: "?rows \<noteq> []" using b by (auto simp: n_def)
  then obtain secret where plan: "plan_drain cfg inp (wk_world w) = Inr (Some (di_device_id i, secret, ?es, ?es))"
    using steady_plan [OF st ff b] by (auto simp: n_def)
  define res where "res = parse_results (map (\<lambda>u. outcome_item ''rejected'' (str_uuid u)) ?ids)"
  have send: "send_batch (sc_base_url cfg) (si_post inp) (di_device_id i) secret ?es = Inr (SyncBatchResult res)"
    using uniform_send [OF backend list_pending_wf [OF wf b], of "sc_base_url cfg" "di_device_id i" secret "\<lambda>_. True"]
    by (simp add: comp_def n_def res_def)
  have verd: "verdicts res u \<subseteq> {RejectedWith ''UNKNOWN''}" for u
    using uniform_verdicts [OF select_pending_distinct_ids [OF wf, of n], of "''rejected''" u]
    unfolding res_def by (auto simp: item_verdicts_def item_field_def outcome_item_def jget_none_def)
  have "u \<notin> set (sy_accepted res @ sy_duplicate res)" "u \<notin> set (map fst (sy_quota_exceeded res))" for u
    unfolding result_sets using verd by blast+
  then have "sy_accepted res @ sy_duplicate res = []" "map fst (sy_quota_exceeded res) = []"
    by (metis last_in_set)+
  then have "mark_delivered cfg inp res (wk_world w) = (Inr (), wk_world w)"
    "mark_suppressed_by_quota cfg inp res (wk_world w) = (Inr (), wk_world w)"
    by (simp_all add: mark_delivered_def mark_suppressed_by_quota_def)
  moreover have "int n = tn_batch_size (sc_tuning cfg)" using b by (simp add: n_def)
  ultimately show ?thesis
    using plan send len by (simp add: drain_once_def reset_backoff_def)
qed

text \<open>
  A full batch of rejected events makes the worker spin: as long as the Backend rejects the
  oldest \<open>batch_size\<close> events, every iteration sends the same batch again at once.  After any number
  of iterations the store is as it was and the worker has not slept once, neither idling nor
  backing off, and the events behind that batch are never tried.
\<close>

theorem rejected_batch_spins:
  assumes "steady i (wk_world w)" and "sync_fault_free inp" and "0 < tn_batch_size (sc_tuning cfg)"
    and "si_post inp = uniform_backend ''rejected''"
    and "tn_batch_size (sc_tuning cfg) \<le> int (count_rows is_pending (st_events (wk_world w)))"
  shows "\<exists>w'. run_loop (sc_tuning cfg) (drain_once cfg) (replicate n (jitter, inp)) w = Running w'
    \<and> wk_world w' = wk_world w \<and> wk_slept w' = wk_slept w"
  using assms(1,5)
proof (induction n arbitrary: w)
  case 0
  then show ?case by simp
next
  case (Suc n)
  have "drain_once cfg inp w = (Inr False, reset_backoff w)"
    by (rule drain_rejecting [OF Suc.prems(1) assms(2-4) Suc.prems(2)])
  then have "run_iteration (sc_tuning cfg) jitter (drain_once cfg inp) w = Running (reset_backoff w)"
    by (simp add: run_iteration_def)
  moreover have "wk_world (reset_backoff w) = wk_world w" "wk_slept (reset_backoff w) = wk_slept w"
    by (simp_all add: reset_backoff_def)
  ultimately show ?case using Suc.IH [of "reset_backoff w"] Suc.prems by simp
qed

theorem rejected_batch_spins_witness:
  "\<exists>w'. run_loop demo_tuning (drain_once demo_sync_config)
      (replicate 7 (Fin 0, demo_sync_input (uniform_backend ''rejected''))) demo_worker = Running w'
    \<and> wk_world w' = demo_store \<and> wk_slept w' = []"
proof -
  have "is_pending (demo_row DS_PENDING)" by (simp add: demo_row_def is_pending_def)
  then have "count_rows is_pending (st_events (wk_world demo_worker)) = 1"
    by (simp add: demo_worker_def demo_store_def count_rows_def)
  then show ?thesis
    using rejected_batch_spins [OF demo_steady, of "demo_sync_input (uniform_backend ''rejected'')"
        demo_sync_config 7 "Fin 0"]
    by (simp add: sync_fault_free_def demo_sync_input_def demo_sync_config_def demo_tuning_def)
       (simp add: demo_worker_def)
qed

theorem drain_only_finalises_acknowledged_witness:
  "\<exists>idle w'. drain_once demo_sync_config (demo_sync_input (uniform_backend ''accepted'')) demo_worker = (Inr idle, w')
     \<and> (\<exists>req p d items item. uniform_backend ''accepted'' req = HttpResponse 200 (Inr (JObj p))
       \<and> jget p ''data'' = Some (JObj d) \<and> jget d ''results'' = Some (JArr items) \<and> items_of 5 items = [item])"
proof -
  let ?inp = "demo_sync_input (uniform_backend ''accepted'')"
  have ff: "sync_fault_free ?inp" "0 < tn_batch_size (sc_tuning demo_sync_config)" "si_post ?inp = uniform_backend ''accepted''"
    by (simp_all add: sync_fault_free_def demo_sync_input_def demo_sync_config_def demo_tuning_def)
  obtain idle w' where d: "drain_once demo_sync_config ?inp demo_worker = (Inr idle, w')"
    and c: "count_rows is_pending (st_events (wk_world w'))
      = count_rows is_pending (st_events (wk_world demo_worker)) - nat (tn_batch_size (sc_tuning demo_sync_config))"
    using drain_accepting [OF demo_steady ff] by blast
  have "count_rows is_pending (st_events (wk_world w')) = 0"
    using c by (simp add: demo_worker_def demo_store_def demo_sync_config_def demo_tuning_def count_rows_def)
  then have none: "\<forall>r \<in> set (st_events (wk_world w')). \<not> is_pending r" by (simp add: count_rows_0)
  have before: "event_status (st_events (wk_world demo_worker)) 5 = Some DS_PENDING"
    by (simp add: event_status_def find_row_def demo_worker_def demo_store_def demo_row_def new_event_row_def demo_event_def)
  have "event_status (st_events (wk_world w')) 5 \<noteq> Some DS_PENDING"
    using none by (auto simp: event_status_def is_pending_def dest: find_row_SomeD)
  with before have "event_status (st_events (wk_world w')) 5 \<noteq> event_status (st_events (wk_world demo_worker)) 5" by simp
  from drain_only_finalises_acknowledged [OF d this] ff(3) d show ?thesis by metis
qed

end
