(* ===== verification/Ingest.thy ===== *)
theory Ingest
  imports Wire Cooldown Validation SnapshotCapture SyncWorker
begin

text \<open>
  \<^verbatim>\<open>detection/ingest_handler.py\<close>: the handler between the Bridge's socket and the store.  Its state is
  a record of the attributes the code keeps on \<^verbatim>\<open>self\<close>, the socket path, the frames written back to
  clients and the store.  A connection contributes items by \<open>enqueue\<close> (\<open>Wire\<close> says which), the
  consumer task takes them by \<open>consume_one\<close>; both run without an \<^verbatim>\<open>await\<close> in between, so each is one
  step.  What a step meets from outside is its input record.
\<close>

section \<open>Configuration, state and inputs\<close>

record ingest_config =
  ic_queue_capacity :: nat
  ic_camera_id :: string
  ic_camera_id_resolver :: "(int \<Rightarrow> uuid option) option"
  ic_class_names :: "int \<Rightarrow> string option"
  ic_min_confidence :: pyfloat
  ic_snapshot_capture_enabled :: bool
  ic_spool_path :: string
  ic_max_file_bytes :: int
  ic_max_spool_bytes :: int
  ic_dumps :: "json \<Rightarrow> bytes"
  ic_wide_uuid :: "utext \<Rightarrow> exn + uuid"
  ic_sha256 :: "bytes \<Rightarrow> string"

text \<open>What is at the socket path: nothing, a socket, or something else.\<close>

datatype socket_path = Absent | SocketFile | OtherFile

record ingest =
  ih_device_id :: "string option"
  ih_running :: bool
  ih_queue :: "queue_item list option"
  ih_consuming :: bool
  ih_dropped :: nat
  ih_skipped :: nat
  ih_tracker :: tracker
  ih_socket :: socket_path
  ih_sent :: "(nat \<times> bytes) list"
  ih_store :: store

record consume_input =
  ci_wall_clock :: datetime
  ci_event_id :: uuid
  ci_decide_at :: pyfloat
  ci_commit_at :: pyfloat
  ci_identity_fault :: fault
  ci_created_at :: datetime
  ci_insert_fault :: fault
  ci_closing :: bool
  ci_write_fault :: fault
  ci_is_dir :: bool
  ci_entries :: "string list"
  ci_stat_fails :: "string \<Rightarrow> bool"
  ci_write :: write_faults
  ci_fresh_hex :: string
  ci_read_fault :: fault

text \<open>The checks of the constructor: \<open>has_outbox\<close> says whether a snapshot repository and a spool path were given.\<close>

definition mk_ingest_handler :: "int \<Rightarrow> bool \<Rightarrow> bool \<Rightarrow> tracker \<Rightarrow> store \<Rightarrow> socket_path \<Rightarrow> exn + ingest" where
  "mk_ingest_handler queue_capacity snapshot_enabled has_outbox tracker store socket =
     (if queue_capacity \<le> 0 then Inl ValueError
      else if snapshot_enabled \<and> \<not> has_outbox then Inl ValueError
      else Inr \<lparr>ih_device_id = None, ih_running = False, ih_queue = None, ih_consuming = False,
                ih_dropped = 0, ih_skipped = 0, ih_tracker = tracker, ih_socket = socket,
                ih_sent = [], ih_store = store\<rparr>)"

section \<open>The queue\<close>

definition enqueue :: "ingest_config \<Rightarrow> queue_item \<Rightarrow> ingest \<Rightarrow> ingest" where
  "enqueue cfg item s =
     (case ih_queue s of
        None \<Rightarrow> s
      | Some q \<Rightarrow>
          if length q < ic_queue_capacity cfg then s\<lparr>ih_queue := Some (q @ [item])\<rparr>
          else s\<lparr>ih_dropped := Suc (ih_dropped s)\<rparr>)"

section \<open>The device identity\<close>

definition default_device_identity_provider :: "fault \<Rightarrow> identity_table \<Rightarrow> exn + string" where
  "default_device_identity_provider fault t =
     bind_result (load_identity fault t) (\<lambda>identity.
     case identity of
       None \<Rightarrow> Inl (DetectionExn DetectionDeviceIdentityUnavailableError)
     | Some i \<Rightarrow> if di_device_id i = [] then Inl (DetectionExn DetectionDeviceIdentityUnavailableError)
                 else Inr (di_device_id i))"

definition resolve_device_id :: "fault \<Rightarrow> ingest \<Rightarrow> (exn + string) \<times> ingest" where
  "resolve_device_id fault s =
     (case ih_device_id s of
        Some d \<Rightarrow> (Inr d, s)
      | None \<Rightarrow>
          (case default_device_identity_provider fault (st_identity (ih_store s)) of
             Inl e \<Rightarrow> (Inl e, s)
           | Inr d \<Rightarrow> (Inr d, s\<lparr>ih_device_id := Some d\<rparr>)))"

section \<open>Acknowledgements\<close>

definition ack_body :: "string \<Rightarrow> string \<Rightarrow> uuid option \<Rightarrow> bool \<Rightarrow> string option \<Rightarrow> json" where
  "ack_body message_id outcome event_id snapshot_required error_code =
     JObj ([(''messageId'', JStr message_id), (''outcome'', JStr outcome),
            (''snapshotRequired'', JBool snapshot_required)]
           @ (case event_id of Some u \<Rightarrow> [(''eventId'', JStr (str_uuid u))] | None \<Rightarrow> [])
           @ (case error_code of Some c \<Rightarrow> [(''errorCode'', JStr c)] | None \<Rightarrow> []))"

text \<open>A send that fails is swallowed.\<close>

definition send_ack ::
  "ingest_config \<Rightarrow> consume_input \<Rightarrow> (nat \<times> string) option \<Rightarrow> string \<Rightarrow> uuid option \<Rightarrow> bool \<Rightarrow> string option
   \<Rightarrow> ingest \<Rightarrow> ingest" where
  "send_ack cfg inp target outcome event_id snapshot_required error_code s =
     (case target of
        None \<Rightarrow> s
      | Some (conn, message_id) \<Rightarrow>
          if ci_closing inp then s
          else (case encode_frame (ic_dumps cfg (ack_body message_id outcome event_id snapshot_required error_code))
                       FRAME_KIND_ACKNOWLEDGEMENT of
                  Inl _ \<Rightarrow> s
                | Inr frame \<Rightarrow>
                    if ci_write_fault inp \<noteq> None then s else s\<lparr>ih_sent := ih_sent s @ [(conn, frame)]\<rparr>))"

section \<open>A detection\<close>

definition ack_target :: "json_obj \<Rightarrow> nat option \<Rightarrow> (nat \<times> string) option" where
  "ack_target payload writer =
     (case (writer, as_str (jget_none payload ''messageId'')) of
        (Some conn, Some message_id) \<Rightarrow>
          if py_eq_int (schema_version_of payload) SNAPSHOT_PROTOCOL_SCHEMA_VERSION
          then Some (conn, message_id) else None
      | _ \<Rightarrow> None)"

definition normalized_payload :: "json_obj \<Rightarrow> json_obj" where
  "normalized_payload payload =
     (if py_eq_int (schema_version_of payload) SNAPSHOT_PROTOCOL_SCHEMA_VERSION
      then normalize_v2_payload payload else payload)"

text \<open>The camera of a detection; \<open>None\<close> is an unresolved source.\<close>

definition camera_of :: "ingest_config \<Rightarrow> json_obj \<Rightarrow> string option" where
  "camera_of cfg payload =
     (case ic_camera_id_resolver cfg of
        None \<Rightarrow> Some (ic_camera_id cfg)
      | Some resolver \<Rightarrow>
          (case jget_none payload ''source_id'' of
             JInt n \<Rightarrow> map_option str_uuid (resolver n)
           | _ \<Rightarrow> None))"

text \<open>\<open>persist\<close> is the part of \<^verbatim>\<open>_process\<close> after the cooldown has accepted.\<close>

definition persist ::
  "ingest_config \<Rightarrow> consume_input \<Rightarrow> (nat \<times> string) option \<Rightarrow> detection_event \<Rightarrow> ingest \<Rightarrow> (exn + unit) \<times> ingest" where
  "persist cfg inp target event s =
     (case insert_event (ci_insert_fault inp) (ci_created_at inp) event (st_events (ih_store s)) of
        (Inl e, _) \<Rightarrow> (if is_exception e then Inr () else Inl e, s)
      | (Inr _, t) \<Rightarrow>
          let s' = s\<lparr>ih_store := (ih_store s)\<lparr>st_events := t\<rparr>\<rparr>
          in case commit (ih_tracker s') (ci_commit_at inp) (de_device_id event) (de_camera_id event)
                    (de_class_name event) of
               Inl e \<Rightarrow> (Inl e, s')
             | Inr tr \<Rightarrow>
                 (Inr (), send_ack cfg inp target ''accepted'' (Some (de_event_id event))
                            (ic_snapshot_capture_enabled cfg) None (s'\<lparr>ih_tracker := tr\<rparr>)))"

definition process ::
  "ingest_config \<Rightarrow> consume_input \<Rightarrow> json_obj \<Rightarrow> nat option \<Rightarrow> ingest \<Rightarrow> (exn + unit) \<times> ingest" where
  "process cfg inp payload writer s =
     (let target = ack_target payload writer;
          body = normalized_payload payload
      in case camera_of cfg body of
           None \<Rightarrow> (Inr (), send_ack cfg inp target ''rejected'' None False
                              (Some (reason_value UNRESOLVED_CAMERA_SOURCE)) s)
         | Some camera_id \<Rightarrow>
             (case resolve_device_id (ci_identity_fault inp) s of
                (Inl e, s) \<Rightarrow> (Inl e, s)
              | (Inr device_id, s) \<Rightarrow>
                  (case validate_detection body device_id camera_id (ic_class_names cfg)
                          (ic_min_confidence cfg) (ci_wall_clock inp) (ci_event_id inp) of
                     Inl e \<Rightarrow> (Inl e, s)
                   | Inr (Inl rj) \<Rightarrow>
                       (Inr (), send_ack cfg inp target ''rejected'' None False
                                  (Some (reason_value (dr_reason rj))) s)
                   | Inr (Inr event) \<Rightarrow>
                       (case decide (ih_tracker s) (ci_decide_at inp) (de_device_id event)
                               (de_camera_id event) (de_class_name event) of
                          Inl e \<Rightarrow> (Inl e, s)
                        | Inr SUPPRESS \<Rightarrow>
                            (Inr (), send_ack cfg inp target ''suppressed'' None False None s)
                        | Inr ACCEPT \<Rightarrow> persist cfg inp target event s))))"

section \<open>A snapshot\<close>

text \<open>
  \<^verbatim>\<open>UUID(text)\<close> for the event id of a snapshot frame; beyond Latin-1 what \<^verbatim>\<open>int(s, 16)\<close> makes of a
  character depends on the Unicode tables, the argument \<open>ic_wide_uuid\<close>.
\<close>

definition uuid_of_text :: "ingest_config \<Rightarrow> utext \<Rightarrow> exn + uuid" where
  "uuid_of_text cfg t =
     (if list_all (\<lambda>c. c < 256) t then parse_uuid (map char_of t) else ic_wide_uuid cfg t)"

definition process_snapshot ::
  "ingest_config \<Rightarrow> consume_input \<Rightarrow> utext \<Rightarrow> bytes \<Rightarrow> ingest \<Rightarrow> (exn + unit) \<times> ingest" where
  "process_snapshot cfg inp event_text data s =
     (if \<not> ic_snapshot_capture_enabled cfg then (Inr (), s)
      else case uuid_of_text cfg event_text of
        Inl e \<Rightarrow> (if is_value_error e then Inr () else Inl e, s)
      | Inr event_id \<Rightarrow>
          let fs = st_files (ih_store s);
              usage = spool_usage_bytes (ic_spool_path cfg) (ci_is_dir inp) (ci_entries inp) (ci_stat_fails inp) fs
          in if usage + int (length data) > ic_max_spool_bytes cfg
             then (Inr (), s\<lparr>ih_skipped := Suc (ih_skipped s)\<rparr>)
             else case validate_snapshot_bytes data (ic_max_file_bytes cfg) of
               Inl (SnapshotValidationError _) \<Rightarrow> (Inr (), s)
             | Inl e \<Rightarrow> (Inl e, s)
             | Inr _ \<Rightarrow>
                 (case write_snapshot_atomic (ci_write inp) (ic_spool_path cfg) (ci_fresh_hex inp) event_id data fs of
                    (Inl e, steps) \<Rightarrow>
                      (if is_os_error e then Inr () else Inl e,
                       s\<lparr>ih_store := (ih_store s)\<lparr>st_files := hd steps\<rparr>\<rparr>)
                  | (Inr local_path, steps) \<Rightarrow>
                      (case create_captured (ci_insert_fault inp) (ci_read_fault inp) (ci_created_at inp)
                              (st_events (ih_store s)) event_id local_path CONTENT_TYPE_JPEG
                              (int (length data)) (ic_sha256 cfg data) (st_snapshots (ih_store s)) of
                         (r, t) \<Rightarrow>
                           (case r of Inl e \<Rightarrow> if is_exception e then Inr () else Inl e | Inr _ \<Rightarrow> Inr (),
                            s\<lparr>ih_store := (ih_store s)\<lparr>st_files := hd steps, st_snapshots := t\<rparr>\<rparr>))))"

section \<open>The consumer\<close>

definition process_item :: "ingest_config \<Rightarrow> consume_input \<Rightarrow> queue_item \<Rightarrow> ingest \<Rightarrow> (exn + unit) \<times> ingest" where
  "process_item cfg inp item s =
     (case item of
        SnapshotItem event_text data \<Rightarrow> process_snapshot cfg inp event_text data s
      | DetectionItem payload conn \<Rightarrow> process cfg inp payload (Some conn) s)"

text \<open>
  One turn of \<^verbatim>\<open>_consume\<close>: \<open>None\<close> while it waits.  An ordinary exception is logged and the loop goes
  on; \<^verbatim>\<open>CancelledError\<close> ends it.
\<close>

definition consume_one :: "ingest_config \<Rightarrow> consume_input \<Rightarrow> ingest \<Rightarrow> (queue_item \<times> ingest) option" where
  "consume_one cfg inp s =
     (case ih_queue s of
        Some (item # q) \<Rightarrow>
          if \<not> ih_consuming s then None
          else (case process_item cfg inp item (s\<lparr>ih_queue := Some q\<rparr>) of
                  (Inr _, s') \<Rightarrow> Some (item, s')
                | (Inl e, s') \<Rightarrow>
                    Some (item, if is_exception e then s' else s'\<lparr>ih_consuming := False\<rparr>))
      | _ \<Rightarrow> None)"

section \<open>Start and stop\<close>

record start_input =
  sa_identity_fault :: fault
  sa_parent_exists :: bool
  sa_lstat_fault :: fault
  sa_unlink_fault :: fault
  sa_reconcile :: reconcile_input
  sa_bind_fault :: fault
  sa_chmod_fault :: fault

text \<open>A \<^verbatim>\<open>FileNotFoundError\<close> of \<^verbatim>\<open>lstat\<close> means that nothing is in the way; every other fault is raised.\<close>

definition ensure_socket_path_ready :: "start_input \<Rightarrow> ingest \<Rightarrow> (exn + unit) \<times> ingest" where
  "ensure_socket_path_ready inp s =
     (if \<not> sa_parent_exists inp then (Inl (DetectionExn DetectionRuntimeDirectoryMissingError), s)
      else case sa_lstat_fault inp of
        Some e \<Rightarrow> (if e = FileNotFoundError then Inr () else Inl e, s)
      | None \<Rightarrow>
          (case ih_socket s of
             Absent \<Rightarrow> (Inr (), s)
           | SocketFile \<Rightarrow>
               (case sa_unlink_fault inp of Some e \<Rightarrow> (Inl e, s) | None \<Rightarrow> (Inr (), s\<lparr>ih_socket := Absent\<rparr>))
           | OtherFile \<Rightarrow> (Inl (DetectionExn DetectionSocketPathConflictError), s)))"

definition reconciled_store :: "ingest_config \<Rightarrow> reconcile_input \<Rightarrow> store \<Rightarrow> store" where
  "reconciled_store cfg inp st =
     (if ic_snapshot_capture_enabled cfg
      then (case reconcile_snapshot_spool inp (ic_spool_path cfg) (st_snapshots st) (st_files st) of
              (t, fs) \<Rightarrow> st\<lparr>st_snapshots := t, st_files := fs\<rparr>)
      else st)"

definition start_handler :: "ingest_config \<Rightarrow> start_input \<Rightarrow> ingest \<Rightarrow> (exn + unit) \<times> ingest" where
  "start_handler cfg inp s =
     (if ih_running s then (Inl (DetectionExn DetectionIngestHandlerAlreadyRunningError), s)
      else case resolve_device_id (sa_identity_fault inp) s of
        (Inl e, s) \<Rightarrow> (Inl e, s)
      | (Inr _, s) \<Rightarrow>
          (case ensure_socket_path_ready inp s of
             (Inl e, s) \<Rightarrow> (Inl e, s)
           | (Inr _, s) \<Rightarrow>
               let s1 = s\<lparr>ih_store := reconciled_store cfg (sa_reconcile inp) (ih_store s),
                          ih_dropped := 0, ih_queue := Some []\<rparr>
               in case sa_bind_fault inp of
                    Some e \<Rightarrow> (Inl e, s1)
                  | None \<Rightarrow>
                      (case sa_chmod_fault inp of
                         Some e \<Rightarrow> (Inl e, s1\<lparr>ih_socket := SocketFile\<rparr>)
                       | None \<Rightarrow> (Inr (), s1\<lparr>ih_socket := SocketFile, ih_running := True,
                                              ih_consuming := True\<rparr>))))"

text \<open>The removal of the socket comes last; only \<^verbatim>\<open>FileNotFoundError\<close> is suppressed there.\<close>

definition stop_handler :: "fault \<Rightarrow> ingest \<Rightarrow> (exn + unit) \<times> ingest" where
  "stop_handler unlink_fault s =
     (if \<not> ih_running s then (Inr (), s)
      else let s = s\<lparr>ih_running := False, ih_consuming := False, ih_queue := None\<rparr>
           in case unlink_fault of
                Some e \<Rightarrow> if e = FileNotFoundError then (Inr (), s\<lparr>ih_socket := Absent\<rparr>) else (Inl e, s)
              | None \<Rightarrow> (Inr (), s\<lparr>ih_socket := Absent\<rparr>))"

end
