(* ===== verification/IngestFlow.thy ===== *)
theory IngestFlow
  imports Ingest
begin

text \<open>
  The properties of the ingest handler (\<open>Ingest\<close>): what one message may change, the bounded queue
  between the connections and the consumer (a \<open>bounded_queue\<close>), and the invariant of the running
  handler among the other users of the store.
\<close>

section \<open>Acknowledgements\<close>

lemma send_ack_fields [simp]:
  "ih_store (send_ack cfg inp tg out u req code s) = ih_store s"
  "ih_tracker (send_ack cfg inp tg out u req code s) = ih_tracker s"
  "ih_queue (send_ack cfg inp tg out u req code s) = ih_queue s"
  "ih_dropped (send_ack cfg inp tg out u req code s) = ih_dropped s"
  "ih_skipped (send_ack cfg inp tg out u req code s) = ih_skipped s"
  "ih_running (send_ack cfg inp tg out u req code s) = ih_running s"
  "ih_consuming (send_ack cfg inp tg out u req code s) = ih_consuming s"
  "ih_device_id (send_ack cfg inp tg out u req code s) = ih_device_id s"
  by (simp_all add: send_ack_def split: option.split sum.split)

text \<open>\<open>ack_frame\<close>: the frame of an acknowledgement.\<close>

definition ack_frame :: "ingest_config \<Rightarrow> string \<Rightarrow> string \<Rightarrow> uuid option \<Rightarrow> bool \<Rightarrow> string option \<Rightarrow> exn + bytes" where
  "ack_frame cfg message_id outcome u req code =
     encode_frame (ic_dumps cfg (ack_body message_id outcome u req code)) FRAME_KIND_ACKNOWLEDGEMENT"

lemma send_ack_sent:
  "ih_sent (send_ack cfg inp tg out u req code s) = ih_sent s
   \<or> (\<exists>conn mid frame. tg = Some (conn, mid) \<and> ack_frame cfg mid out u req code = Inr frame
        \<and> ih_sent (send_ack cfg inp tg out u req code s) = ih_sent s @ [(conn, frame)])"
  by (auto simp: send_ack_def ack_frame_def split: option.split sum.split)

section \<open>One message\<close>

lemma resolve_device_id_cases:
  assumes "resolve_device_id fault s = (r, s')"
  obtains (kept) "s' = s" | (cached) d where "r = Inr d" "s' = s\<lparr>ih_device_id := Some d\<rparr>"
proof (cases "ih_device_id s")
  case None
  show ?thesis
  proof (cases "default_device_identity_provider fault (st_identity (ih_store s))")
    case (Inl e)
    with None assms show ?thesis by (intro kept) (simp add: resolve_device_id_def)
  next
    case (Inr d)
    with None assms have "r = Inr d" "s' = s\<lparr>ih_device_id := Some d\<rparr>" by (simp_all add: resolve_device_id_def)
    then show ?thesis by (rule cached)
  qed
next
  case (Some d)
  with assms show ?thesis by (intro kept) (simp add: resolve_device_id_def)
qed

lemma resolve_device_id_fields:
  assumes "resolve_device_id fault s = (r, s')"
  shows "ih_store s' = ih_store s \<and> ih_tracker s' = ih_tracker s \<and> ih_queue s' = ih_queue s \<and> ih_dropped s' = ih_dropped s
    \<and> ih_running s' = ih_running s \<and> ih_consuming s' = ih_consuming s \<and> ih_sent s' = ih_sent s"
  using assms by (cases rule: resolve_device_id_cases) simp_all

text \<open>The ways one detection message ends; \<open>s0\<close> is the state with the device id resolved.\<close>

lemma process_cases:
  assumes "process cfg inp payload writer s = (r, s')"
  obtains
    (unresolved) "camera_of cfg (normalized_payload payload) = None" "r = Inr ()"
      "s' = send_ack cfg inp (ack_target payload writer) ''rejected'' None False
              (Some (reason_value UNRESOLVED_CAMERA_SOURCE)) s"
  | (no_identity) e where "resolve_device_id (ci_identity_fault inp) s = (Inl e, s')" "r = Inl e"
  | (raised) d s0 e where "resolve_device_id (ci_identity_fault inp) s = (Inr d, s0)" "r = Inl e" "s' = s0"
  | (rejected) d s0 and rj :: detection_rejection where "resolve_device_id (ci_identity_fault inp) s = (Inr d, s0)" "r = Inr ()"
      "s' = send_ack cfg inp (ack_target payload writer) ''rejected'' None False (Some (reason_value (dr_reason rj))) s0"
  | (suppressed) d s0 where "resolve_device_id (ci_identity_fault inp) s = (Inr d, s0)" "r = Inr ()"
      "s' = send_ack cfg inp (ack_target payload writer) ''suppressed'' None False None s0"
  | (accepted) d s0 cam e where "resolve_device_id (ci_identity_fault inp) s = (Inr d, s0)"
      "camera_of cfg (normalized_payload payload) = Some cam"
      "validate_detection (normalized_payload payload) d cam (ic_class_names cfg) (ic_min_confidence cfg)
         (ci_wall_clock inp) (ci_event_id inp) = Inr (Inr e)"
      "decide (ih_tracker s0) (ci_decide_at inp) (de_device_id e) (de_camera_id e) (de_class_name e) = Inr ACCEPT"
      "persist cfg inp (ack_target payload writer) e s0 = (r, s')"
proof (cases "camera_of cfg (normalized_payload payload)")
  case None
  with assms show ?thesis by (intro unresolved) (simp_all add: process_def Let_def)
next
  case (Some cam)
  obtain x s0 where res: "resolve_device_id (ci_identity_fault inp) s = (x, s0)"
    by (cases "resolve_device_id (ci_identity_fault inp) s")
  show ?thesis
  proof (cases x)
    case (Inl e)
    then have "r = Inl e" "s' = s0" using assms Some res by (simp_all add: process_def Let_def)
    with res Inl show ?thesis by (intro no_identity) simp_all
  next
    case (Inr d)
    note res' = res [unfolded Inr]
    let ?v = "validate_detection (normalized_payload payload) d cam (ic_class_names cfg) (ic_min_confidence cfg)
         (ci_wall_clock inp) (ci_event_id inp)"
    show ?thesis
    proof (cases ?v)
      case (Inl e)
      then have "r = Inl e" "s' = s0" using assms Some res' by (simp_all add: process_def Let_def)
      with res' show ?thesis by (rule raised)
    next
      case v: (Inr w)
      show ?thesis
      proof (cases w)
        case (Inl rj)
        then have "r = Inr ()" "s' = send_ack cfg inp (ack_target payload writer) ''rejected'' None False
            (Some (reason_value (dr_reason rj))) s0"
          using assms Some res' v by (simp_all add: process_def Let_def)
        with res' show ?thesis by (rule rejected)
      next
        case (Inr e)
        let ?d = "decide (ih_tracker s0) (ci_decide_at inp) (de_device_id e) (de_camera_id e) (de_class_name e)"
        show ?thesis
        proof (cases ?d)
          case (Inl y)
          then have "r = Inl y" "s' = s0" using assms Some res' v \<open>w = Inr e\<close> by (simp_all add: process_def Let_def)
          with res' show ?thesis by (rule raised)
        next
          case dec: (Inr y)
          show ?thesis
          proof (cases y)
            case ACCEPT
            then have "persist cfg inp (ack_target payload writer) e s0 = (r, s')"
              using assms Some res' v Inr dec by (simp add: process_def Let_def)
            with res' Some v Inr dec ACCEPT show ?thesis by (intro accepted) simp_all
          next
            case SUPPRESS
            then have "r = Inr ()" "s' = send_ack cfg inp (ack_target payload writer) ''suppressed'' None False None s0"
              using assms Some res' v Inr dec by (simp_all add: process_def Let_def)
            with res' show ?thesis by (rule suppressed)
          qed
        qed
      qed
    qed
  qed
qed

lemma persist_cases:
  assumes "persist cfg inp tg e s = (r, s')"
    and "decide (ih_tracker s) now (de_device_id e) (de_camera_id e) (de_class_name e) = Inr dec"
  obtains (failed) x where "insert_event (ci_insert_fault inp) (ci_created_at inp) e (st_events (ih_store s)) = (Inl x, st_events (ih_store s))"
      "r = (if is_exception x then Inr () else Inl x)" "s' = s"
  | (stored) t where "insert_event (ci_insert_fault inp) (ci_created_at inp) e (st_events (ih_store s)) = (Inr (), t)"
      "r = Inr ()"
      "s' = send_ack cfg inp tg ''accepted'' (Some (de_event_id e)) (ic_snapshot_capture_enabled cfg) None
        (s\<lparr>ih_store := (ih_store s)\<lparr>st_events := t\<rparr>,
           ih_tracker := (ih_tracker s)\<lparr>ct_last_accepted_at := (ct_last_accepted_at (ih_tracker s))
             ((de_device_id e, de_camera_id e, de_class_name e) \<mapsto> ci_commit_at inp)\<rparr>\<rparr>)"
proof (cases "insert_event (ci_insert_fault inp) (ci_created_at inp) e (st_events (ih_store s))")
  case (Pair y t)
  show ?thesis
  proof (cases y)
    case (Inl x)
    then have "t = st_events (ih_store s)" using Pair insert_event_fails by blast
    moreover have "r = (if is_exception x then Inr () else Inl x)" "s' = s"
      using assms(1) Pair Inl by (simp_all add: persist_def)
    ultimately show ?thesis using Pair Inl by (intro failed) simp_all
  next
    case (Inr u)
    note p = assms(1) [unfolded persist_def Pair Inr, simplified Let_def, simplified,
        unfolded decide_commit [OF assms(2), of "ci_commit_at inp"], simplified]
    have ins: "insert_event (ci_insert_fault inp) (ci_created_at inp) e (st_events (ih_store s)) = (Inr (), t)"
      using Pair Inr by simp
    show ?thesis by (rule stored [OF ins]) (use p in simp_all)
  qed
qed

text \<open>
  \<open>acknowledged\<close>: what one message may have written back, given the event table before and after.
\<close>

definition stored_by :: "detection_event \<Rightarrow> event_table \<Rightarrow> event_table \<Rightarrow> bool" where
  "stored_by e t t' \<longleftrightarrow> event_status t (de_event_id e) = None
     \<and> event_status t' = (event_status t)(de_event_id e \<mapsto> DS_PENDING)
     \<and> (\<exists>det created. t' = t @ [new_event_row det created e])"

definition acknowledged ::
  "ingest_config \<Rightarrow> (nat \<times> string) option \<Rightarrow> ingest \<Rightarrow> ingest \<Rightarrow> bool" where
  "acknowledged cfg target s s' \<longleftrightarrow>
     ih_sent s' = ih_sent s
     \<or> (\<exists>conn mid frame. target = Some (conn, mid) \<and> ih_sent s' = ih_sent s @ [(conn, frame)]
          \<and> ((\<exists>e. stored_by e (st_events (ih_store s)) (st_events (ih_store s'))
                \<and> ack_frame cfg mid ''accepted'' (Some (de_event_id e)) (ic_snapshot_capture_enabled cfg) None = Inr frame)
             \<or> (ih_store s' = ih_store s \<and> ih_tracker s' = ih_tracker s
                \<and> (\<exists>out code. out \<in> {''rejected'', ''suppressed''} \<and> ack_frame cfg mid out None False code = Inr frame))))"

lemma stored_by_insert:
  assumes "insert_event fault clock e t = (Inr (), t')"
  shows "stored_by e t t'"
  using assms event_status_insert [OF assms] unfolding insert_event_Inr stored_by_def by blast

lemma acknowledged_reply:
  assumes "ih_store s0 = ih_store s" and "ih_tracker s0 = ih_tracker s" and "ih_sent s0 = ih_sent s"
    and "out = ''rejected'' \<or> out = ''suppressed''"
  shows "acknowledged cfg tg s (send_ack cfg inp tg out None False code s0)"
  using send_ack_sent [of cfg inp tg out None False code s0]
proof
  assume "ih_sent (send_ack cfg inp tg out None False code s0) = ih_sent s0"
  then show ?thesis using assms(3) by (simp add: acknowledged_def)
next
  assume "\<exists>conn mid frame. tg = Some (conn, mid) \<and> ack_frame cfg mid out None False code = Inr frame
    \<and> ih_sent (send_ack cfg inp tg out None False code s0) = ih_sent s0 @ [(conn, frame)]"
  then obtain conn mid frame where f: "tg = Some (conn, mid)" "ack_frame cfg mid out None False code = Inr frame"
    "ih_sent (send_ack cfg inp tg out None False code s0) = ih_sent s0 @ [(conn, frame)]" by blast
  have "\<exists>o' c. o' \<in> {''rejected'', ''suppressed''} \<and> ack_frame cfg mid o' None False c = Inr frame"
    using f(2) assms(4) by blast
  with f assms(1-3) show ?thesis
    unfolding acknowledged_def by (intro disjI2 exI [of _ conn] exI [of _ mid] exI [of _ frame]) simp
qed

lemma acknowledged_stored:
  assumes "stored_by e (st_events (ih_store s)) (st_events (ih_store s0))" and "ih_sent s0 = ih_sent s"
  shows "acknowledged cfg tg s
    (send_ack cfg inp tg ''accepted'' (Some (de_event_id e)) (ic_snapshot_capture_enabled cfg) None s0)"
  using send_ack_sent [of cfg inp tg "''accepted''" "Some (de_event_id e)" "ic_snapshot_capture_enabled cfg" None s0]
proof
  assume "ih_sent (send_ack cfg inp tg ''accepted'' (Some (de_event_id e)) (ic_snapshot_capture_enabled cfg) None s0)
    = ih_sent s0"
  then show ?thesis using assms(2) by (simp add: acknowledged_def)
next
  let ?s = "send_ack cfg inp tg ''accepted'' (Some (de_event_id e)) (ic_snapshot_capture_enabled cfg) None s0"
  assume "\<exists>conn mid frame. tg = Some (conn, mid)
    \<and> ack_frame cfg mid ''accepted'' (Some (de_event_id e)) (ic_snapshot_capture_enabled cfg) None = Inr frame
    \<and> ih_sent ?s = ih_sent s0 @ [(conn, frame)]"
  then obtain conn mid frame where f: "tg = Some (conn, mid)"
    "ack_frame cfg mid ''accepted'' (Some (de_event_id e)) (ic_snapshot_capture_enabled cfg) None = Inr frame"
    "ih_sent ?s = ih_sent s0 @ [(conn, frame)]" by blast
  then have "\<exists>e. stored_by e (st_events (ih_store s)) (st_events (ih_store ?s))
      \<and> ack_frame cfg mid ''accepted'' (Some (de_event_id e)) (ic_snapshot_capture_enabled cfg) None = Inr frame"
    using assms(1) by auto
  with f assms(2) show ?thesis
    unfolding acknowledged_def by (intro disjI2 exI [of _ conn] exI [of _ mid] exI [of _ frame]) simp
qed

lemma process_effect:
  assumes "process cfg inp payload writer s = (r, s')"
  shows "acknowledged cfg (ack_target payload writer) s s'
    \<and> ((ih_store s' = ih_store s \<and> ih_tracker s' = ih_tracker s)
      \<or> (\<exists>e t. stored_by e (st_events (ih_store s)) t \<and> ih_store s' = (ih_store s)\<lparr>st_events := t\<rparr>
          \<and> ih_tracker s' = (ih_tracker s)\<lparr>ct_last_accepted_at := (ct_last_accepted_at (ih_tracker s))
               ((de_device_id e, de_camera_id e, de_class_name e) \<mapsto> ci_commit_at inp)\<rparr>))
    \<and> ih_queue s' = ih_queue s \<and> ih_dropped s' = ih_dropped s \<and> ih_consuming s' = ih_consuming s
    \<and> ih_running s' = ih_running s"
  using assms
proof (cases rule: process_cases)
  case unresolved
  then show ?thesis by (simp add: acknowledged_reply)
next
  case (no_identity e)
  then show ?thesis using resolve_device_id_fields [OF no_identity(1)] by (simp add: acknowledged_def)
next
  case (raised d s0 e)
  then show ?thesis using resolve_device_id_fields [OF raised(1)] by (simp add: acknowledged_def)
next
  case (rejected d s0 rj)
  then show ?thesis using resolve_device_id_fields [OF rejected(1)] by (simp add: acknowledged_reply)
next
  case (suppressed d s0)
  then show ?thesis using resolve_device_id_fields [OF suppressed(1)] by (simp add: acknowledged_reply)
next
  case (accepted d s0 cam e)
  note f = resolve_device_id_fields [OF accepted(1)]
  from accepted(5,4) show ?thesis
  proof (cases rule: persist_cases)
    case (failed x)
    with f show ?thesis by (simp add: acknowledged_def)
  next
    case (stored t)
    from stored_by_insert [OF stored(1)] f have st: "stored_by e (st_events (ih_store s)) t" by simp
    have "acknowledged cfg (ack_target payload writer) s s'"
      unfolding stored(3) by (rule acknowledged_stored) (use st f in simp_all)
    with f st show ?thesis unfolding stored(3) by auto
  qed
qed

text \<open>
  C1.  An acknowledgement is sent only after the fact.  Processing a message writes at most one
  frame, to the connection and with the message id of a version-2 message; an accepted one names an
  event that was not stored before and is now stored as pending, and with a rejected or suppressed
  one neither the store nor the cooldown has changed.
\<close>

theorem acknowledged_after_persistence:
  assumes "process cfg inp payload writer s = (r, s')"
  shows "acknowledged cfg (ack_target payload writer) s s'"
  using process_effect [OF assms] by blast

text \<open>
  C38.  A cooldown window starts exactly with a stored event: after any message either the store and
  the tracker are as before, or exactly one pending event was appended and the window of its
  (device, camera, class) was set to the commit time.  In particular a failed insert never
  suppresses the next detection.
\<close>

theorem cooldown_only_after_insert:
  assumes "process cfg inp payload writer s = (r, s')"
  shows "(ih_store s' = ih_store s \<and> ih_tracker s' = ih_tracker s)
    \<or> (\<exists>e t. stored_by e (st_events (ih_store s)) t \<and> ih_store s' = (ih_store s)\<lparr>st_events := t\<rparr>
        \<and> ih_tracker s' = (ih_tracker s)\<lparr>ct_last_accepted_at := (ct_last_accepted_at (ih_tracker s))
             ((de_device_id e, de_camera_id e, de_class_name e) \<mapsto> ci_commit_at inp)\<rparr>)"
  using process_effect [OF assms] by blast

text \<open>The scene of the witnesses: a fresh handler, a Bridge that sends the demo payload as version 2.\<close>

definition demo_ingest_config :: "string \<Rightarrow> ingest_config" where
  "demo_ingest_config cls =
     \<lparr>ic_queue_capacity = 2, ic_camera_id = ''cam'', ic_camera_id_resolver = None,
      ic_class_names = (\<lambda>_. Some cls), ic_min_confidence = Fin 0, ic_snapshot_capture_enabled = True,
      ic_spool_path = ''/spool'', ic_max_file_bytes = 100, ic_max_spool_bytes = 1000,
      ic_dumps = (\<lambda>_. []), ic_wide_uuid = (\<lambda>_. Inl ValueError),
      ic_sha256 = (\<lambda>c. if c = [1, 2] then ''ab'' else ''cd'')\<rparr>"

definition demo_ingest :: ingest where
  "demo_ingest = \<lparr>ih_device_id = Some ''dev'', ih_running = True, ih_queue = Some [], ih_consuming = True,
     ih_dropped = 0, ih_skipped = 0, ih_tracker = demo_tracker, ih_socket = SocketFile, ih_sent = [],
     ih_store = demo_store\<lparr>st_events := []\<rparr>\<rparr>"

definition demo_consume_input :: consume_input where
  "demo_consume_input = \<lparr>ci_wall_clock = Aware 7, ci_event_id = 5, ci_decide_at = Fin 1, ci_commit_at = Fin 1,
     ci_identity_fault = None, ci_created_at = Aware 9, ci_insert_fault = None, ci_closing = False,
     ci_write_fault = None, ci_is_dir = True, ci_entries = [], ci_stat_fails = (\<lambda>_. False),
     ci_write = \<lparr>wf_directory = None, wf_open = None, wf_write = None, wf_replace = None, wf_cleanup = None,
       wf_chunks = []\<rparr>, ci_fresh_hex = ''ff'', ci_read_fault = None\<rparr>"

definition demo_message :: json_obj where
  "demo_message = (''schema_version'', JInt 2) # (''messageId'', JStr ''m'') # demo_payload"

lemma demo_normalized: "normalized_payload demo_message = demo_message"
  by (simp add: normalized_payload_def normalize_v2_payload_def schema_version_of_def demo_message_def
      demo_payload_def SNAPSHOT_PROTOCOL_SCHEMA_VERSION_def jget_none_def copy_key_def put_unless_none_def Let_def)

lemma demo_message_validates:
  "validate_detection demo_message ''dev'' ''cam'' (\<lambda>_. Some cls) (Fin 0) (Aware 7) 5
   = Inr (Inr (demo_event\<lparr>de_class_name := cls\<rparr>))"
proof -
  have "validate_detection demo_message ''dev'' ''cam'' (\<lambda>_. Some cls) (Fin 0) (Aware 7) 5
      = validate_detection demo_payload ''dev'' ''cam'' (\<lambda>_. Some cls) (Fin 0) (Aware 7) 5"
    by (rule validate_keys_cong) (auto simp: wire_keys_def demo_message_def)
  then show ?thesis by (simp add: demo_validates_as demo_event_def)
qed

lemma demo_process:
  "process (demo_ingest_config ''gun'') demo_consume_input demo_message (Some 3) demo_ingest =
     (Inr (), snd (persist (demo_ingest_config ''gun'') demo_consume_input (Some (3, ''m'')) demo_event demo_ingest))"
proof -
  have b: "blank ''dev'' = False" "blank ''cam'' = False" "blank ''gun'' = False" by code_simp+
  have e: "demo_event\<lparr>de_class_name := ''gun''\<rparr> = demo_event" by (simp add: demo_event_def)
  have t: "ack_target demo_message (Some 3) = Some (3, ''m'')"
    by (simp add: ack_target_def demo_message_def jget_none_def schema_version_of_def SNAPSHOT_PROTOCOL_SCHEMA_VERSION_def)
  have d: "decide demo_tracker now ''dev'' ''cam'' ''gun'' = Inr ACCEPT" for now
    by (simp add: decide_def identity_key_def b demo_tracker_def)
  have k: "de_device_id demo_event = ''dev''" "de_camera_id demo_event = ''cam''" "de_class_name demo_event = ''gun''"
    by (simp_all add: demo_event_def)
  have c: "commit demo_tracker (Fin 1) ''dev'' ''cam'' ''gun'' = Inr (demo_tracker\<lparr>ct_last_accepted_at := [(''dev'', ''cam'', ''gun'') \<mapsto> Fin 1]\<rparr>)"
    by (simp add: commit_def identity_key_def b demo_tracker_def)
  show ?thesis
    using demo_message_validates [of "''gun''"] demo_insert
    by (simp add: process_def t demo_normalized camera_of_def resolve_device_id_def demo_ingest_config_def
        demo_ingest_def demo_consume_input_def e d k persist_def c Let_def)
qed

theorem acknowledged_after_persistence_witness:
  "acknowledged (demo_ingest_config ''gun'') (ack_target demo_message (Some 3)) demo_ingest
     (snd (persist (demo_ingest_config ''gun'') demo_consume_input (Some (3, ''m'')) demo_event demo_ingest))"
  by (rule acknowledged_after_persistence [OF demo_process])

theorem cooldown_only_after_insert_witness:
  "\<exists>e t. stored_by e [] t
     \<and> ih_store (snd (persist (demo_ingest_config ''gun'') demo_consume_input (Some (3, ''m'')) demo_event demo_ingest))
         = (ih_store demo_ingest)\<lparr>st_events := t\<rparr>"
proof -
  have "ih_tracker (snd (persist (demo_ingest_config ''gun'') demo_consume_input (Some (3, ''m'')) demo_event demo_ingest))
      \<noteq> ih_tracker demo_ingest"
  proof -
    have b: "blank ''dev'' = False" "blank ''cam'' = False" "blank ''gun'' = False" by code_simp+
    have k: "de_device_id demo_event = ''dev''" "de_camera_id demo_event = ''cam''" "de_class_name demo_event = ''gun''"
      by (simp_all add: demo_event_def)
    have "commit demo_tracker (Fin 1) ''dev'' ''cam'' ''gun''
        = Inr (demo_tracker\<lparr>ct_last_accepted_at := [(''dev'', ''cam'', ''gun'') \<mapsto> Fin 1]\<rparr>)"
      by (simp add: commit_def identity_key_def b demo_tracker_def)
    then show ?thesis
      using demo_insert
      by (simp add: persist_def demo_consume_input_def demo_ingest_def k Let_def)
         (simp add: demo_tracker_def fun_eq_iff)
  qed
  with cooldown_only_after_insert [OF demo_process] have
    "\<exists>e t. stored_by e (st_events (ih_store demo_ingest)) t
       \<and> ih_store (snd (persist (demo_ingest_config ''gun'') demo_consume_input (Some (3, ''m'')) demo_event demo_ingest))
           = (ih_store demo_ingest)\<lparr>st_events := t\<rparr>" by blast
  then show ?thesis by (simp add: demo_ingest_def)
qed

text \<open>
  A blank label is not caught at the wire, as \<^verbatim>\<open>profile_preflight.py\<close> has it ("rejected by the
  wire-side validator as unresolvable"): a detection of a class whose label is blank passes
  validation, and then \<^verbatim>\<open>decide\<close> raises \<^verbatim>\<open>ValueError\<close>.  No row is stored and no acknowledgement is
  sent, not even a rejection.
\<close>

theorem blank_label_never_acknowledged:
  assumes "camera_of cfg (normalized_payload payload) = Some cam"
    and "resolve_device_id (ci_identity_fault inp) s = (Inr d, s0)"
    and "validate_detection (normalized_payload payload) d cam (ic_class_names cfg) (ic_min_confidence cfg)
         (ci_wall_clock inp) (ci_event_id inp) = Inr (Inr e)"
    and "blank (de_class_name e)"
  shows "process cfg inp payload writer s = (Inl ValueError, s0)
    \<and> ih_sent s0 = ih_sent s \<and> ih_store s0 = ih_store s"
  using assms resolve_device_id_fields [OF assms(2)]
  by (simp add: process_def Let_def decide_def identity_key_def)

theorem blank_label_never_acknowledged_witness:
  "process (demo_ingest_config ''  '') demo_consume_input demo_message (Some 3) demo_ingest = (Inl ValueError, demo_ingest)"
proof -
  have b: "blank ''  ''" by code_simp
  have r: "resolve_device_id (ci_identity_fault demo_consume_input) demo_ingest = (Inr ''dev'', demo_ingest)"
    by (simp add: resolve_device_id_def demo_ingest_def)
  have c: "camera_of (demo_ingest_config ''  '') (normalized_payload demo_message) = Some ''cam''"
    by (simp add: camera_of_def demo_ingest_config_def)
  have v: "validate_detection (normalized_payload demo_message) ''dev'' ''cam''
      (ic_class_names (demo_ingest_config ''  '')) (ic_min_confidence (demo_ingest_config ''  ''))
      (ci_wall_clock demo_consume_input) (ci_event_id demo_consume_input) = Inr (Inr (demo_event\<lparr>de_class_name := ''  ''\<rparr>))"
    using demo_message_validates [of "''  ''"] by (simp add: demo_normalized demo_ingest_config_def demo_consume_input_def)
  show ?thesis using blank_label_never_acknowledged [OF c r v] b by simp
qed

section \<open>The bounded queue\<close>

text \<open>
  What connections and consumer rely on: a put appends when there is room and is counted as lost
  otherwise, a take removes the oldest item or waits.  \<open>run\<close> performs a sequence of both
  (\<open>Inl\<close> a put, \<open>Inr\<close> a take with what it meets) and returns what was put with room, what was
  taken, and the final state.
\<close>

locale bounded_queue =
  fixes put :: "'x \<Rightarrow> 's \<Rightarrow> 's"
    and take1 :: "'i \<Rightarrow> 's \<Rightarrow> ('x \<times> 's) option"
    and contents :: "'s \<Rightarrow> 'x list option"
    and lost :: "'s \<Rightarrow> nat"
    and capacity :: nat
  assumes put_law: "contents s = Some q \<Longrightarrow>
      (if length q < capacity then contents (put x s) = Some (q @ [x]) \<and> lost (put x s) = lost s
       else contents (put x s) = Some q \<and> lost (put x s) = Suc (lost s))"
    and take_law: "contents s = Some q \<Longrightarrow> take1 i s = Some (x, s') \<Longrightarrow>
      q \<noteq> [] \<and> x = hd q \<and> contents s' = Some (tl q) \<and> lost s' = lost s"
begin

primrec run :: "('x + 'i) list \<Rightarrow> 's \<Rightarrow> 'x list \<times> 'x list \<times> 's" where
  "run [] s = ([], [], s)"
| "run (op # ops) s =
     (case op of
        Inl x \<Rightarrow>
          (let (ins, outs, s') = run ops (put x s)
           in (if lost (put x s) = lost s then x # ins else ins, outs, s'))
      | Inr i \<Rightarrow>
          (case take1 i s of
             None \<Rightarrow> run ops s
           | Some (x, s1) \<Rightarrow> (let (ins, outs, s') = run ops s1 in (ins, x # outs, s'))))"

lemma run_fifo:
  assumes "contents s = Some q" and "length q \<le> capacity" and "run ops s = (ins, outs, s')"
  shows "\<exists>q'. contents s' = Some q' \<and> length q' \<le> capacity \<and> q @ ins = outs @ q'
    \<and> lost s' + length ins = lost s + length (filter isl ops)"
  using assms
proof (induction ops arbitrary: s q ins outs)
  case Nil
  then show ?case by simp
next
  case (Cons op ops)
  show ?case
  proof (cases op)
    case (Inl x)
    obtain ins1 outs1 where r: "run ops (put x s) = (ins1, outs1, s')"
      and e: "ins = (if lost (put x s) = lost s then x # ins1 else ins1)" "outs = outs1"
      using Cons.prems(3) Inl by (auto split: prod.splits)
    show ?thesis
    proof (cases "length q < capacity")
      case True
      then have "contents (put x s) = Some (q @ [x])" "lost (put x s) = lost s"
        using put_law [OF Cons.prems(1), of x] by simp_all
      with Cons.IH [OF _ _ r, of "q @ [x]"] True Inl e show ?thesis by auto
    next
      case False
      then have "contents (put x s) = Some q" "lost (put x s) = Suc (lost s)"
        using put_law [OF Cons.prems(1), of x] by simp_all
      with Cons.IH [OF _ Cons.prems(2) r] Inl e show ?thesis by auto
    qed
  next
    case (Inr i)
    show ?thesis
    proof (cases "take1 i s")
      case None
      with Cons Inr show ?thesis by simp
    next
      case (Some y)
      obtain x s1 where y: "y = (x, s1)" by (cases y)
      note t = take_law [OF Cons.prems(1) Some [unfolded y]]
      obtain outs1 where r: "run ops s1 = (ins, outs1, s')" and e: "outs = x # outs1"
        using Cons.prems(3) Inr Some y by (auto split: prod.splits)
      have "length (tl q) \<le> capacity" using Cons.prems(2) by simp
      from Cons.IH [OF _ this r] t obtain q' where q': "contents s' = Some q'" "length q' \<le> capacity"
        "tl q @ ins = outs1 @ q'" "lost s' + length ins = lost s1 + length (filter isl ops)" by blast
      have "q @ ins = outs @ q'" using t q'(3) e by (cases q) auto
      with q' t Inr show ?thesis by auto
    qed
  qed
qed

end

lemma process_snapshot_fields:
  assumes "process_snapshot cfg inp event_text data s = (r, s')"
  shows "ih_queue s' = ih_queue s \<and> ih_dropped s' = ih_dropped s \<and> ih_consuming s' = ih_consuming s
    \<and> ih_running s' = ih_running s \<and> ih_tracker s' = ih_tracker s \<and> ih_sent s' = ih_sent s
    \<and> st_events (ih_store s') = st_events (ih_store s)"
  using assms
  by (auto simp: process_snapshot_def Let_def split: if_split_asm sum.split_asm prod.split_asm exn.split_asm)

lemma process_item_fields:
  assumes "process_item cfg inp item s = (r, s')"
  shows "ih_queue s' = ih_queue s \<and> ih_dropped s' = ih_dropped s \<and> ih_consuming s' = ih_consuming s
    \<and> ih_running s' = ih_running s"
proof (cases item)
  case (DetectionItem payload conn)
  with assms process_effect show ?thesis by (simp add: process_item_def)
next
  case (SnapshotItem event_text data)
  with assms process_snapshot_fields show ?thesis by (simp add: process_item_def)
qed

lemma consume_one_queue:
  assumes "consume_one cfg inp s = Some (item, s')"
  shows "\<exists>q. ih_queue s = Some (item # q) \<and> ih_queue s' = Some q \<and> ih_dropped s' = ih_dropped s"
proof -
  obtain q where q: "ih_queue s = Some (item # q)"
    using assms by (auto simp: consume_one_def split: option.split_asm list.split_asm if_split_asm sum.split_asm prod.split_asm)
  obtain r s1 where p: "process_item cfg inp item (s\<lparr>ih_queue := Some q\<rparr>) = (r, s1)"
    by (cases "process_item cfg inp item (s\<lparr>ih_queue := Some q\<rparr>)")
  have "s' = s1 \<or> s' = s1\<lparr>ih_consuming := False\<rparr>"
    using assms q p by (auto simp: consume_one_def split: if_split_asm sum.split_asm)
  with q process_item_fields [OF p] show ?thesis by auto
qed

interpretation ingest_queue: bounded_queue "enqueue cfg" "consume_one cfg" ih_queue ih_dropped "ic_queue_capacity cfg"
  for cfg
proof (unfold_locales, goal_cases)
  case (1 s q x)
  then show ?case by (simp add: enqueue_def)
next
  case (2 s q i x s')
  from consume_one_queue [OF 2(2)] 2(1) show ?case by auto
qed

text \<open>
  The queue is bounded, loses only by counting, and keeps the order: from a started handler,
  over any interleaving of received items and consumer turns, what is taken followed by what still
  waits is exactly what found room, in order of arrival, never more than the capacity waits, and
  the drop counter counts exactly the items that found no room.
\<close>

theorem ingest_queue_fifo:
  assumes "ih_queue s = Some []" and "ih_dropped s = 0" and "ingest_queue.run cfg ops s = (received, taken, s')"
  shows "\<exists>waiting. ih_queue s' = Some waiting \<and> length waiting \<le> ic_queue_capacity cfg
    \<and> received = taken @ waiting \<and> ih_dropped s' + length received = length (filter isl ops)"
  using ingest_queue.run_fifo [OF assms(1) _ assms(3)] assms(2) by simp

theorem ingest_queue_fifo_witness:
  "ingest_queue.run (demo_ingest_config ''gun'') [Inl (SnapshotItem [1] []), Inl (SnapshotItem [2] []), Inl (SnapshotItem [3] [])]
     demo_ingest = ([SnapshotItem [1] [], SnapshotItem [2] []], [],
       demo_ingest\<lparr>ih_queue := Some [SnapshotItem [1] [], SnapshotItem [2] []], ih_dropped := 1\<rparr>)
   \<and> (\<exists>waiting. [SnapshotItem [1] [], SnapshotItem [2] []] = [] @ waiting)"
proof -
  have r: "ingest_queue.run (demo_ingest_config ''gun'') [Inl (SnapshotItem [1] []), Inl (SnapshotItem [2] []), Inl (SnapshotItem [3] [])]
     demo_ingest = ([SnapshotItem [1] [], SnapshotItem [2] []], [],
       demo_ingest\<lparr>ih_queue := Some [SnapshotItem [1] [], SnapshotItem [2] []], ih_dropped := 1\<rparr>)"
    by (simp add: enqueue_def demo_ingest_def demo_ingest_config_def)
  have q: "ih_queue demo_ingest = Some []" "ih_dropped demo_ingest = 0" by (simp_all add: demo_ingest_def)
  from ingest_queue_fifo [OF q r] r show ?thesis by blast
qed

section \<open>The handler among the other users of the store\<close>

text \<open>
  What the other tasks do to the store between two steps of the handler: the sync worker finalises
  events, the snapshot repository is called, the upload worker deletes files, and activation and
  the credential monitor rewrite the identity.
\<close>

inductive store_call :: "store \<Rightarrow> store \<Rightarrow> bool" where
  others_deliver: "store_call st (st\<lparr>st_events := snd (mark_delivered_many f ids w (st_events st))\<rparr>)"
| others_suppress: "store_call st (st\<lparr>st_events := snd (mark_suppressed_by_quota_many f ids w (st_events st))\<rparr>)"
| others_snapshot: "snapshot_call (st_snapshots st) t \<Longrightarrow> store_call st (st\<lparr>st_snapshots := t\<rparr>)"
| others_delete: "store_call st (st\<lparr>st_files := (st_files st)(p := None)\<rparr>)"
| others_identity: "store_call st (st\<lparr>st_identity := t\<rparr>)"

inductive_cases store_callE: "store_call st st'"

inductive ingest_step :: "ingest_config \<Rightarrow> ingest \<Rightarrow> ingest \<Rightarrow> bool" for cfg where
  step_receive: "ingest_step cfg s (enqueue cfg item s)"
| step_consume: "consume_one cfg inp s = Some (item, s') \<Longrightarrow> ingest_step cfg s s'"
| step_start: "start_handler cfg inp s = (r, s') \<Longrightarrow> ingest_step cfg s s'"
| step_stop: "stop_handler fault s = (r, s') \<Longrightarrow> ingest_step cfg s s'"
| step_others: "store_call (ih_store s) st \<Longrightarrow> ingest_step cfg s (s\<lparr>ih_store := st\<rparr>)"

inductive_cases ingest_stepE: "ingest_step cfg s s'"

lemma mark_keeps_rows:
  assumes "event_status t u \<noteq> None"
  shows "event_status (snd (mark_delivered_many f ids w t)) u \<noteq> None"
    and "event_status (snd (mark_suppressed_by_quota_many f ids w t)) u \<noteq> None"
proof -
  obtain r t' where d: "mark_delivered_many f ids w t = (r, t')" by (cases "mark_delivered_many f ids w t")
  show "event_status (snd (mark_delivered_many f ids w t)) u \<noteq> None"
  proof (cases r)
    case (Inl e)
    with mark_fails(1) d have "t' = t" by blast
    with d assms show ?thesis by simp
  next
    case (Inr n)
    with event_status_mark(1) d have "event_status t' = finalize DS_DELIVERED ids (event_status t)" by blast
    with d assms show ?thesis by (simp add: finalize_def)
  qed
  obtain r t' where d: "mark_suppressed_by_quota_many f ids w t = (r, t')" by (cases "mark_suppressed_by_quota_many f ids w t")
  show "event_status (snd (mark_suppressed_by_quota_many f ids w t)) u \<noteq> None"
  proof (cases r)
    case (Inl e)
    with mark_fails(2) d have "t' = t" by blast
    with d assms show ?thesis by simp
  next
    case (Inr n)
    with event_status_mark(2) d have "event_status t' = finalize DS_SUPPRESSED_BY_QUOTA ids (event_status t)" by blast
    with d assms show ?thesis by (simp add: finalize_def)
  qed
qed

lemma store_call_status:
  assumes "store_call st st'" and "event_status (st_events st) u \<noteq> None"
  shows "event_status (st_events st') u \<noteq> None"
  using assms(1)
proof (cases rule: store_call.cases)
  case (others_deliver f ids w)
  from mark_keeps_rows(1) [OF assms(2)] show ?thesis unfolding others_deliver by simp
next
  case (others_suppress f ids w)
  from mark_keeps_rows(2) [OF assms(2)] show ?thesis unfolding others_suppress by simp
qed (use assms(2) in simp_all)

definition ack_backed :: "ingest_config \<Rightarrow> event_table \<Rightarrow> bytes \<Rightarrow> bool" where
  "ack_backed cfg t frame \<longleftrightarrow>
     (\<exists>mid u req. ack_frame cfg mid ''accepted'' (Some u) req None = Inr frame \<and> event_status t u \<noteq> None)
     \<or> (\<exists>mid out code. out \<in> {''rejected'', ''suppressed''} \<and> ack_frame cfg mid out None False code = Inr frame)"

lemma ack_backed_mono:
  "ack_backed cfg t frame \<Longrightarrow> (\<And>u. event_status t u \<noteq> None \<Longrightarrow> event_status t' u \<noteq> None) \<Longrightarrow> ack_backed cfg t' frame"
  unfolding ack_backed_def by (elim disjE exE conjE) (intro disjI1 exI conjI, assumption, simp, intro disjI2, blast)

definition acks_backed :: "ingest_config \<Rightarrow> ingest \<Rightarrow> bool" where
  "acks_backed cfg s \<longleftrightarrow> (\<forall>x \<in> set (ih_sent s). ack_backed cfg (st_events (ih_store s)) (snd x))"

lemma acks_backed_cong:
  "ih_sent s' = ih_sent s \<Longrightarrow> st_events (ih_store s') = st_events (ih_store s) \<Longrightarrow> acks_backed cfg s' = acks_backed cfg s"
  by (simp add: acks_backed_def)

definition ingest_inv :: "ingest_config \<Rightarrow> ingest \<Rightarrow> bool" where
  "ingest_inv cfg s \<longleftrightarrow>
     acks_backed cfg s
     \<and> (\<forall>q. ih_queue s = Some q \<longrightarrow> length q \<le> ic_queue_capacity cfg)
     \<and> (ih_running s \<longrightarrow> ih_queue s \<noteq> None)
     \<and> (ih_consuming s \<longrightarrow> ih_running s)"

lemma process_item_acks:
  assumes "process_item cfg inp item s = (r, s')" and "acks_backed cfg s"
  shows "acks_backed cfg s'"
proof (cases item)
  case (SnapshotItem event_text data)
  then have "process_snapshot cfg inp event_text data s = (r, s')" using assms(1) by (simp add: process_item_def)
  from process_snapshot_fields [OF this] assms(2) acks_backed_cong [of s' s] show ?thesis by simp
next
  case (DetectionItem payload conn)
  then have p: "process cfg inp payload (Some conn) s = (r, s')" using assms(1) by (simp add: process_item_def)
  let ?t = "st_events (ih_store s)"
  let ?t' = "st_events (ih_store s')"
  have grow: "event_status ?t u \<noteq> None \<Longrightarrow> event_status ?t' u \<noteq> None" for u
    using process_effect [OF p] by (auto simp: stored_by_def)
  have old: "\<forall>x \<in> set (ih_sent s). ack_backed cfg ?t' (snd x)"
    using assms(2) ack_backed_mono grow unfolding acks_backed_def by blast
  have "acknowledged cfg (ack_target payload (Some conn)) s s'" using process_effect [OF p] by blast
  then consider "ih_sent s' = ih_sent s"
    | c mid frame e where "ih_sent s' = ih_sent s @ [(c, frame)]" "stored_by e ?t ?t'"
        "ack_frame cfg mid ''accepted'' (Some (de_event_id e)) (ic_snapshot_capture_enabled cfg) None = Inr frame"
    | c mid frame out code where "ih_sent s' = ih_sent s @ [(c, frame)]"
        "out \<in> {''rejected'', ''suppressed''}" "ack_frame cfg mid out None False code = Inr frame"
    unfolding acknowledged_def by blast
  then show ?thesis
  proof cases
    case 1
    with old show ?thesis by (simp add: acks_backed_def)
  next
    case (2 c mid frame e)
    then have "event_status ?t' (de_event_id e) \<noteq> None" by (simp add: stored_by_def)
    with 2(3) have "ack_backed cfg ?t' frame" unfolding ack_backed_def by blast
    with 2(1) old show ?thesis by (simp add: acks_backed_def)
  next
    case (3 c mid frame out code)
    then have "ack_backed cfg ?t' frame" unfolding ack_backed_def by blast
    with 3(1) old show ?thesis by (simp add: acks_backed_def)
  qed
qed

lemma consume_one_inv:
  assumes "ingest_inv cfg s" and "consume_one cfg inp s = Some (item, s')"
  shows "ingest_inv cfg s'"
proof -
  obtain q where q: "ih_queue s = Some (item # q)" "ih_queue s' = Some q"
    using consume_one_queue [OF assms(2)] by blast
  obtain r s1 where p: "process_item cfg inp item (s\<lparr>ih_queue := Some q\<rparr>) = (r, s1)"
    by (cases "process_item cfg inp item (s\<lparr>ih_queue := Some q\<rparr>)")
  have s': "s' = s1 \<or> s' = s1\<lparr>ih_consuming := False\<rparr>"
    using assms(2) q(1) p by (auto simp: consume_one_def split: if_split_asm sum.split_asm)
  have "acks_backed cfg s1"
    by (rule process_item_acks [OF p]) (use assms(1) in \<open>simp add: ingest_inv_def acks_backed_def\<close>)
  moreover have "acks_backed cfg s' = acks_backed cfg s1" using s' by (elim disjE) (simp_all add: acks_backed_def)
  ultimately show ?thesis using s' q process_item_fields [OF p] assms(1) by (auto simp: ingest_inv_def)
qed

lemma start_handler_fields:
  assumes "start_handler cfg inp s = (r, s')"
  shows "ih_sent s' = ih_sent s \<and> st_events (ih_store s') = st_events (ih_store s)
    \<and> (ih_queue s' = ih_queue s \<or> ih_queue s' = Some [])
    \<and> (ih_running s' \<longrightarrow> ih_running s \<or> ih_queue s' = Some []) \<and> (ih_running s \<longrightarrow> s' = s)
    \<and> (ih_consuming s' \<longrightarrow> ih_consuming s \<or> ih_running s')"
proof (cases "ih_running s")
  case True
  with assms show ?thesis by (simp add: start_handler_def)
next
  case False
  obtain x s0 where res: "resolve_device_id (sa_identity_fault inp) s = (x, s0)"
    by (cases "resolve_device_id (sa_identity_fault inp) s")
  note f = resolve_device_id_fields [OF res]
  show ?thesis
  proof (cases x)
    case (Inl e)
    with assms False res f show ?thesis by (simp add: start_handler_def)
  next
    case (Inr d)
    obtain y s1 where ready: "ensure_socket_path_ready inp s0 = (y, s1)"
      by (cases "ensure_socket_path_ready inp s0")
    then have s1: "ih_store s1 = ih_store s0" "ih_sent s1 = ih_sent s0" "ih_queue s1 = ih_queue s0"
      "ih_running s1 = ih_running s0" "ih_consuming s1 = ih_consuming s0"
      by (auto simp: ensure_socket_path_ready_def split: if_split_asm socket_path.split_asm option.split_asm)
    have events: "st_events (reconciled_store cfg i st) = st_events st" for i st
      by (simp add: reconciled_store_def split: prod.split)
    show ?thesis
      using assms False res Inr ready f s1 events
      by (auto simp: start_handler_def Let_def split: sum.split_asm option.split_asm)
  qed
qed

lemma stop_handler_fields:
  assumes "stop_handler fault s = (r, s')"
  shows "ih_sent s' = ih_sent s \<and> ih_store s' = ih_store s \<and> (s' = s \<or> ih_queue s' = None) \<and> \<not> ih_running s'
    \<and> (ih_consuming s' \<longrightarrow> s' = s)"
  using assms by (auto simp: stop_handler_def Let_def split: if_split_asm option.split_asm)

lemma ingest_step_inv:
  assumes "ingest_step cfg s s'" and "ingest_inv cfg s"
  shows "ingest_inv cfg s'"
  using assms(1)
proof (cases rule: ingest_step.cases)
  case (step_receive item)
  have "acks_backed cfg s' = acks_backed cfg s"
    unfolding step_receive by (rule acks_backed_cong) (simp_all add: enqueue_def split: option.split)
  with step_receive assms(2) show ?thesis by (auto simp: ingest_inv_def enqueue_def split: option.splits)
next
  case (step_consume inp item)
  with assms(2) consume_one_inv show ?thesis by blast
next
  case (step_start inp r)
  note f = start_handler_fields [OF step_start]
  have "acks_backed cfg s' = acks_backed cfg s" using f by (intro acks_backed_cong) simp_all
  with f assms(2) show ?thesis by (auto simp: ingest_inv_def)
next
  case (step_stop fault r)
  note f = stop_handler_fields [OF step_stop]
  have "acks_backed cfg s' = acks_backed cfg s" using f by (intro acks_backed_cong) simp_all
  with f assms(2) show ?thesis by (auto simp: ingest_inv_def)
next
  case (step_others st)
  have "acks_backed cfg s'"
    using assms(2) step_others ack_backed_mono store_call_status unfolding ingest_inv_def acks_backed_def
    by fastforce
  with step_others assms(2) show ?thesis by (simp add: ingest_inv_def)
qed

text \<open>
  C4.  The invariant of the handler.  From construction on, over any interleaving of received items,
  consumer turns, starts, stops and the other tasks' writes to the store: every accepted
  acknowledgement that was ever written names an event that is (still) stored, every other frame
  written is a rejection or a suppression, the queue never exceeds its capacity, and there is a
  queue whenever the handler runs.
\<close>

theorem handler_invariant:
  assumes "mk_ingest_handler capacity enabled has_outbox tracker store socket = Inr s0"
    and "(ingest_step cfg)\<^sup>*\<^sup>* s0 s"
  shows "(\<forall>x \<in> set (ih_sent s). ack_backed cfg (st_events (ih_store s)) (snd x))
    \<and> (case ih_queue s of None \<Rightarrow> \<not> ih_running s | Some q \<Rightarrow> length q \<le> ic_queue_capacity cfg)"
proof -
  have "ingest_inv cfg s0" using assms(1) by (auto simp: mk_ingest_handler_def ingest_inv_def acks_backed_def split: if_split_asm)
  with assms(2) have "ingest_inv cfg s"
    by (induction rule: rtranclp_induct) (auto intro: ingest_step_inv)
  then show ?thesis unfolding ingest_inv_def acks_backed_def by (cases "ih_queue s") simp_all
qed

definition demo_start_input :: start_input where
  "demo_start_input = \<lparr>sa_identity_fault = None, sa_parent_exists = True, sa_lstat_fault = None,
     sa_unlink_fault = None, sa_reconcile = demo_reconcile_input,
     sa_bind_fault = None, sa_chmod_fault = None\<rparr>"

theorem handler_invariant_witness:
  "\<exists>s0 s. mk_ingest_handler 2 True True demo_tracker demo_store Absent = Inr s0
     \<and> (ingest_step (demo_ingest_config ''gun''))\<^sup>*\<^sup>* s0 s \<and> ih_queue s = Some [SnapshotItem [1] []]
     \<and> (\<forall>x \<in> set (ih_sent s). ack_backed (demo_ingest_config ''gun'') (st_events (ih_store s)) (snd x))"
proof -
  let ?cfg = "demo_ingest_config ''gun''"
  obtain s0 where s0: "mk_ingest_handler 2 True True demo_tracker demo_store Absent = Inr s0"
    by (simp add: mk_ingest_handler_def)
  obtain r s1 where st: "start_handler ?cfg demo_start_input s0 = (r, s1)"
    by (cases "start_handler ?cfg demo_start_input s0")
  have "ih_queue s1 = Some []"
    using s0 st demo_load
    by (auto simp: mk_ingest_handler_def start_handler_def resolve_device_id_def demo_start_input_def
        default_device_identity_provider_def demo_identity_def ensure_socket_path_ready_def)
  then have q: "ih_queue (enqueue ?cfg (SnapshotItem [1] []) s1) = Some [SnapshotItem [1] []]"
    by (simp add: enqueue_def demo_ingest_config_def)
  have steps: "(ingest_step ?cfg)\<^sup>*\<^sup>* s0 (enqueue ?cfg (SnapshotItem [1] []) s1)"
    using step_start [OF st] step_receive by (meson converse_rtranclp_into_rtranclp r_into_rtranclp)
  from handler_invariant [OF s0 steps] q s0 steps show ?thesis by blast
qed

end
