(* ===== verification/UploadWorker.thy ===== *)
theory UploadWorker
  imports SyncWorker
begin

text \<open>
  \<^verbatim>\<open>snapshot/models.py\<close>, \<^verbatim>\<open>snapshot/client.py\<close> and \<^verbatim>\<open>snapshot/worker.py\<close>: the background task that
  uploads captured snapshots.  SHA-256 is an argument (\<open>ui_sha256\<close>): the code only compares its
  values.
\<close>

section \<open>The client\<close>

datatype upload_failure_reason =
    UF_TIMEOUT | UF_TRANSPORT_FAILURE | UF_SERVER_FAILURE | UF_UNAUTHORIZED | UF_INVALID_RESPONSE
  | UF_UNEXPECTED_STATUS | UF_CONFLICT | UF_LOCAL_FILE_MISSING | UF_LOCAL_FILE_MODIFIED

fun upload_reason_value :: "upload_failure_reason \<Rightarrow> string" where
  "upload_reason_value UF_TIMEOUT = ''timeout''"
| "upload_reason_value UF_TRANSPORT_FAILURE = ''transport_failure''"
| "upload_reason_value UF_SERVER_FAILURE = ''server_failure''"
| "upload_reason_value UF_UNAUTHORIZED = ''unauthorized''"
| "upload_reason_value UF_INVALID_RESPONSE = ''invalid_response''"
| "upload_reason_value UF_UNEXPECTED_STATUS = ''unexpected_status''"
| "upload_reason_value UF_CONFLICT = ''conflict''"
| "upload_reason_value UF_LOCAL_FILE_MISSING = ''local_file_missing''"
| "upload_reason_value UF_LOCAL_FILE_MODIFIED = ''local_file_modified''"

datatype upload_verdict = UO_ACCEPTED | UO_DUPLICATE

datatype upload_outcome =
    SnapshotUploadResult upload_verdict
  | SnapshotUploadFailure upload_failure_reason "int option"

definition build_snapshot_upload_url :: "string \<Rightarrow> string \<Rightarrow> string" where
  "build_snapshot_upload_url base_url alert_id =
     join_url base_url (''/api/v1/alerts/'' @ alert_id @ ''/snapshot'')"

record upload_request =
  ur_url :: string
  ur_event_id :: string
  ur_sha256 :: string
  ur_file_name :: string
  ur_file :: bytes
  ur_content_type :: string
  ur_device_id_header :: string
  ur_device_secret_header :: string

definition parse_upload_success :: "int \<Rightarrow> exn + json \<Rightarrow> exn + upload_outcome" where
  "parse_upload_success status body =
     bind_result (safe_json body) (\<lambda>payload.
     let invalid = Inr (SnapshotUploadFailure UF_INVALID_RESPONSE (Some status))
     in (case as_obj payload of
           None \<Rightarrow> invalid
         | Some p \<Rightarrow>
             if jget p ''success'' \<noteq> Some (JBool True) then invalid
             else
               let outcome = (case as_obj (jget_none p ''data'') of
                                Some d \<Rightarrow> jget_none d ''outcome'' | None \<Rightarrow> JNull)
               in if outcome = JStr ''accepted'' then Inr (SnapshotUploadResult UO_ACCEPTED)
                  else if outcome = JStr ''duplicate'' then Inr (SnapshotUploadResult UO_DUPLICATE)
                  else invalid))"

definition classify_upload :: "int \<Rightarrow> exn + json \<Rightarrow> exn + upload_outcome" where
  "classify_upload status body =
     (if status = 201 \<or> status = 200 then parse_upload_success status body
      else Inr (SnapshotUploadFailure
             (if status = 401 then UF_UNAUTHORIZED
              else if status = 409 then UF_CONFLICT
              else if 500 \<le> status \<and> status < 600 then UF_SERVER_FAILURE
              else UF_UNEXPECTED_STATUS) (Some status)))"

text \<open>Opening the file is outside the \<^verbatim>\<open>try\<close>: a file that has vanished raises.\<close>

definition upload ::
  "string \<Rightarrow> (upload_request \<Rightarrow> http_outcome) \<Rightarrow> files \<Rightarrow> string \<Rightarrow> string \<Rightarrow> string \<Rightarrow> uuid \<Rightarrow> string
   \<Rightarrow> string \<Rightarrow> string \<Rightarrow> exn + upload_outcome"
where
  "upload base_url post fs device_id secret alert_id event_id local_path content_type sha =
     (case fs local_path of
        None \<Rightarrow> Inl FileNotFoundError
      | Some content \<Rightarrow>
          (case post \<lparr>ur_url = build_snapshot_upload_url base_url alert_id, ur_event_id = str_uuid event_id,
                      ur_sha256 = sha, ur_file_name = str_uuid event_id @ ''.jpg'', ur_file = content,
                      ur_content_type = content_type, ur_device_id_header = device_id,
                      ur_device_secret_header = secret\<rparr> of
             HttpTimeout \<Rightarrow> Inr (SnapshotUploadFailure UF_TIMEOUT None)
           | HttpTransportError \<Rightarrow> Inr (SnapshotUploadFailure UF_TRANSPORT_FAILURE None)
           | HttpRaised e \<Rightarrow> Inl e
           | HttpResponse status body \<Rightarrow> classify_upload status body))"

section \<open>The worker\<close>

record upload_config =
  uc_tuning :: tuning
  uc_base_url :: string

record upload_input =
  ui_identity_fault :: fault
  ui_list_fault :: fault
  ui_read_fault :: "uuid \<Rightarrow> fault"
  ui_sha256 :: "bytes \<Rightarrow> string"
  ui_clock :: "uuid \<Rightarrow> datetime"
  ui_attempt_fault :: "uuid \<Rightarrow> fault"
  ui_post :: "upload_request \<Rightarrow> http_outcome"
  ui_mark_fault :: "uuid \<Rightarrow> fault"
  ui_unlink_fault :: "uuid \<Rightarrow> fault"
  ui_jitter :: pyfloat

text \<open>Reading in chunks: the digest and the size of the whole file, \<open>None\<close> when it is missing.\<close>

definition local_file_hash_and_size ::
  "fault \<Rightarrow> (bytes \<Rightarrow> string) \<Rightarrow> string \<Rightarrow> files \<Rightarrow> exn + (string \<times> int) option" where
  "local_file_hash_and_size fault sha256 path fs =
     (case fs path of
        None \<Rightarrow> Inr None
      | Some content \<Rightarrow>
          (case fault of
             Some e \<Rightarrow> Inl e
           | None \<Rightarrow> Inr (Some (sha256 content, int (length content)))))"

text \<open>\<open>attempt_failed\<close> records the failure of one row and returns \<open>go_on\<close>.\<close>

definition attempt_failed ::
  "upload_input \<Rightarrow> uuid \<Rightarrow> upload_failure_reason \<Rightarrow> bool \<Rightarrow> store \<Rightarrow> (exn + bool) \<times> store" where
  "attempt_failed inp u reason go_on s =
     (case record_attempt_failure (ui_attempt_fault inp u) u (ui_clock inp u) (upload_reason_value reason)
             (st_snapshots s) of
        (Inl e, t) \<Rightarrow> (Inl e, s\<lparr>st_snapshots := t\<rparr>)
      | (Inr _, t) \<Rightarrow> (Inr go_on, s\<lparr>st_snapshots := t\<rparr>))"

definition finish_upload :: "upload_input \<Rightarrow> snapshot_record \<Rightarrow> store \<Rightarrow> (exn + bool) \<times> store" where
  "finish_upload inp rec s =
     (let u = so_event_id rec
      in case mark_uploaded (ui_mark_fault inp u) u (ui_clock inp u) (st_snapshots s) of
           (Inl e, t) \<Rightarrow> (Inl e, s\<lparr>st_snapshots := t\<rparr>)
         | (Inr _, t) \<Rightarrow>
             (case unlink_quietly (ui_unlink_fault inp u) (so_local_path rec) (st_files s) of
                (Inl e, fs) \<Rightarrow> (Inl e, s\<lparr>st_snapshots := t, st_files := fs\<rparr>)
              | (Inr _, fs) \<Rightarrow> (Inr True, s\<lparr>st_snapshots := t, st_files := fs\<rparr>)))"

definition upload_one ::
  "upload_config \<Rightarrow> upload_input \<Rightarrow> string \<Rightarrow> string \<Rightarrow> snapshot_record \<Rightarrow> store \<Rightarrow> (exn + bool) \<times> store" where
  "upload_one cfg inp device_id secret rec s =
     (let u = so_event_id rec
      in case local_file_hash_and_size (ui_read_fault inp u) (ui_sha256 inp) (so_local_path rec) (st_files s) of
           Inl e \<Rightarrow> (Inl e, s)
         | Inr None \<Rightarrow> attempt_failed inp u UF_LOCAL_FILE_MISSING True s
         | Inr (Some (sha, n)) \<Rightarrow>
             if sha \<noteq> so_sha256 rec \<or> n \<noteq> so_size_bytes rec
             then attempt_failed inp u UF_LOCAL_FILE_MODIFIED True s
             else (case so_backend_alert_id rec of
                     None \<Rightarrow> (Inl AssertionError, s)
                   | Some alert \<Rightarrow>
                       (case upload (uc_base_url cfg) (ui_post inp) (st_files s) device_id secret alert u
                               (so_local_path rec) (so_content_type rec) (so_sha256 rec) of
                          Inl e \<Rightarrow> (Inl e, s)
                        | Inr (SnapshotUploadFailure reason _) \<Rightarrow> attempt_failed inp u reason False s
                        | Inr (SnapshotUploadResult _) \<Rightarrow> finish_upload inp rec s)))"

fun upload_rows ::
  "upload_config \<Rightarrow> upload_input \<Rightarrow> string \<Rightarrow> string \<Rightarrow> snapshot_record list \<Rightarrow> store \<Rightarrow> (exn + bool) \<times> store" where
  "upload_rows cfg inp dev secret [] s = (Inr True, s)"
| "upload_rows cfg inp dev secret (rec # recs) s =
     (case upload_one cfg inp dev secret rec s of
        (Inr True, s') \<Rightarrow> upload_rows cfg inp dev secret recs s'
      | stop \<Rightarrow> stop)"

definition plan_upload ::
  "upload_config \<Rightarrow> upload_input \<Rightarrow> store \<Rightarrow> exn + (string \<times> string \<times> snapshot_record list) option" where
  "plan_upload cfg inp s =
     bind_result (load_identity (ui_identity_fault inp) (st_identity s)) (\<lambda>identity.
     (case identity of
        None \<Rightarrow> Inr None
      | Some i \<Rightarrow>
          if di_operational_state i \<noteq> OPERATIONAL then Inr None
          else
            bind_result (list_upload_ready (ui_list_fault inp) (tn_batch_size (uc_tuning cfg)) (st_snapshots s))
              (\<lambda>pending.
                if pending = [] then Inr None
                else (case di_shared_secret i of
                        None \<Rightarrow> Inl AssertionError
                      | Some secret \<Rightarrow> Inr (Some (di_device_id i, secret, pending))))))"

definition drain_uploads :: "upload_config \<Rightarrow> upload_input \<Rightarrow> store worker \<Rightarrow> (exn + bool) \<times> store worker" where
  "drain_uploads cfg inp w =
     (case plan_upload cfg inp (wk_world w) of
        Inl e \<Rightarrow> (Inl e, w)
      | Inr None \<Rightarrow> (Inr True, w)
      | Inr (Some (dev, secret, pending)) \<Rightarrow>
          (case upload_rows cfg inp dev secret pending (wk_world w) of
             (Inl e, s) \<Rightarrow> (Inl e, w\<lparr>wk_world := s\<rparr>)
           | (Inr go_on, s) \<Rightarrow>
               if go_on
               then (Inr (int (length pending) < tn_batch_size (uc_tuning cfg)),
                     reset_backoff (w\<lparr>wk_world := s\<rparr>))
               else (case sleep_backoff (uc_tuning cfg) (ui_jitter inp) (w\<lparr>wk_world := s\<rparr>) of
                       (Inl e, w') \<Rightarrow> (Inl e, w')
                     | (Inr _, w') \<Rightarrow> (Inr False, w'))))"

section \<open>What one upload does\<close>

lemma attempt_failed_view:
  "snapshot_view (st_snapshots (snd (attempt_failed inp u reason b s))) = snapshot_view (st_snapshots s)"
  "st_files (snd (attempt_failed inp u reason b s)) = st_files s"
  "st_identity (snd (attempt_failed inp u reason b s)) = st_identity s"
  using record_attempt_failure_view [of "ui_attempt_fault inp u" u "ui_clock inp u" "upload_reason_value reason" "st_snapshots s"]
  by (auto simp: attempt_failed_def split: prod.splits sum.splits)

lemma attempt_failed_result: "attempt_failed inp u reason b s = (Inr x, s') \<Longrightarrow> x = b"
  by (auto simp: attempt_failed_def split: prod.splits sum.splits)

text \<open>What the Backend must have said for a row to count as uploaded.\<close>

definition upload_confirmed :: "upload_config \<Rightarrow> upload_input \<Rightarrow> uuid \<Rightarrow> string \<Rightarrow> string \<Rightarrow> bytes \<Rightarrow> bool" where
  "upload_confirmed cfg inp u alert sha content \<longleftrightarrow>
     (\<exists>req status p d. ui_post inp req = HttpResponse status (Inr (JObj p)) \<and> status \<in> {200, 201}
        \<and> jget p ''success'' = Some (JBool True) \<and> jget p ''data'' = Some (JObj d)
        \<and> jget d ''outcome'' \<in> {Some (JStr ''accepted''), Some (JStr ''duplicate'')}
        \<and> ur_event_id req = str_uuid u \<and> ur_url req = build_snapshot_upload_url (uc_base_url cfg) alert
        \<and> ur_sha256 req = sha \<and> ur_file req = content)"

lemma parse_upload_success_Result:
  assumes "parse_upload_success status body = Inr (SnapshotUploadResult v)"
  shows "\<exists>p d. body = Inr (JObj p) \<and> jget p ''success'' = Some (JBool True) \<and> jget p ''data'' = Some (JObj d)
    \<and> jget d ''outcome'' \<in> {Some (JStr ''accepted''), Some (JStr ''duplicate'')}"
proof -
  obtain v where v: "safe_json body = Inr v"
    using assms by (auto simp: parse_upload_success_def outcome_simps)
  obtain p where p: "v = JObj p" "jget p ''success'' = Some (JBool True)"
    using assms v by (cases "as_obj v") (auto simp: parse_upload_success_def Let_def split: if_split_asm)
  obtain d where d: "jget_none p ''data'' = JObj d" "jget_none d ''outcome'' \<in> {JStr ''accepted'', JStr ''duplicate''}"
    using assms v p
    by (cases "as_obj (jget_none p ''data'')") (auto simp: parse_upload_success_def Let_def split: if_split_asm)
  have "body = Inr (JObj p)" using v p by (auto simp: safe_json_def split: sum.split_asm if_split_asm)
  moreover have "jget p ''data'' = Some (JObj d)" using d(1) by (auto simp: jget_none_def split: option.split_asm)
  moreover have "jget d ''outcome'' \<in> {Some (JStr ''accepted''), Some (JStr ''duplicate'')}"
    using d(2) by (auto simp: jget_none_def split: option.split_asm)
  ultimately show ?thesis using p(2) by blast
qed

lemma upload_Result:
  assumes "upload (uc_base_url cfg) (ui_post inp) fs dev secret alert u path ct sha = Inr (SnapshotUploadResult v)"
  shows "\<exists>content. fs path = Some content \<and> upload_confirmed cfg inp u alert sha content"
proof -
  obtain content where c: "fs path = Some content"
    using assms by (cases "fs path") (simp_all add: upload_def)
  define req where "req = \<lparr>ur_url = build_snapshot_upload_url (uc_base_url cfg) alert, ur_event_id = str_uuid u,
      ur_sha256 = sha, ur_file_name = str_uuid u @ ''.jpg'', ur_file = content, ur_content_type = ct,
      ur_device_id_header = dev, ur_device_secret_header = secret\<rparr>"
  obtain status body where r: "ui_post inp req = HttpResponse status body"
    "classify_upload status body = Inr (SnapshotUploadResult v)"
    using assms c by (cases "ui_post inp req") (simp_all add: upload_def req_def)
  then have "status \<in> {200, 201}" "parse_upload_success status body = Inr (SnapshotUploadResult v)"
    by (auto simp: classify_upload_def split: if_split_asm)
  with r(1) c parse_upload_success_Result show ?thesis
    unfolding upload_confirmed_def by (fastforce simp: req_def)
qed

definition upload_justified :: "upload_config \<Rightarrow> upload_input \<Rightarrow> store \<Rightarrow> snapshot_record \<Rightarrow> bool" where
  "upload_justified cfg inp s rec \<longleftrightarrow>
     (\<exists>alert content. so_backend_alert_id rec = Some alert
        \<and> st_files s (so_local_path rec) = Some content
        \<and> ui_sha256 inp content = so_sha256 rec \<and> int (length content) = so_size_bytes rec
        \<and> upload_confirmed cfg inp (so_event_id rec) alert (so_sha256 rec) content)"

lemma finish_upload_effect:
  assumes "finish_upload inp rec s = (r, s')"
  shows "(snapshot_view (st_snapshots s') = snapshot_view (st_snapshots s) \<and> st_files s' = st_files s)
    \<or> (snapshot_view (st_snapshots s') = (\<lambda>v. if v = so_event_id rec
            then map_option view_uploaded (snapshot_view (st_snapshots s) v) else snapshot_view (st_snapshots s) v)
       \<and> st_files s' \<in> {st_files s, (st_files s)(so_local_path rec := None)})"
proof (cases "mark_uploaded (ui_mark_fault inp (so_event_id rec)) (so_event_id rec)
    (ui_clock inp (so_event_id rec)) (st_snapshots s)")
  case (Pair y t)
  show ?thesis
  proof (cases y)
    case (Inl e)
    then have "t = st_snapshots s"
      using Pair by (auto simp: mark_uploaded_def dest: guarded_update_fails split: sum.splits)
    with Inl Pair assms show ?thesis by (auto simp: finish_upload_def Let_def)
  next
    case (Inr b)
    with Pair have v: "snapshot_view t = (\<lambda>v. if v = so_event_id rec
        then map_option view_uploaded (snapshot_view (st_snapshots s) v) else snapshot_view (st_snapshots s) v)"
      using mark_uploaded_view by blast
    obtain z fs where z: "unlink_quietly (ui_unlink_fault inp (so_event_id rec)) (so_local_path rec) (st_files s) = (z, fs)"
      by (cases "unlink_quietly (ui_unlink_fault inp (so_event_id rec)) (so_local_path rec) (st_files s)")
    then have fs: "fs \<in> {st_files s, (st_files s)(so_local_path rec := None)}"
      by (auto simp: unlink_quietly_def split: option.splits)
    have "st_snapshots s' = t" "st_files s' = fs"
      using assms Pair Inr z by (cases z; auto simp: finish_upload_def Let_def)+
    with v fs show ?thesis by simp
  qed
qed

text \<open>One row either changes nothing a client can see, or is justified and becomes uploaded.\<close>

lemma upload_one_effect:
  assumes "upload_one cfg inp dev secret rec s = (r, s')"
  shows "(snapshot_view (st_snapshots s') = snapshot_view (st_snapshots s) \<and> st_files s' = st_files s)
    \<or> (upload_justified cfg inp s rec
       \<and> snapshot_view (st_snapshots s') = (\<lambda>v. if v = so_event_id rec
            then map_option view_uploaded (snapshot_view (st_snapshots s) v) else snapshot_view (st_snapshots s) v)
       \<and> st_files s' \<in> {st_files s, (st_files s)(so_local_path rec := None)})"
proof -
  let ?u = "so_event_id rec"
  have failed: ?thesis if "attempt_failed inp ?u reason b s = (r, s')" for reason b
    using attempt_failed_view [of inp ?u reason b s] that by simp
  show ?thesis
  proof (cases "local_file_hash_and_size (ui_read_fault inp ?u) (ui_sha256 inp) (so_local_path rec) (st_files s)")
    case (Inl e)
    with assms show ?thesis by (simp add: upload_one_def Let_def)
  next
    case hash: (Inr h)
    show ?thesis
    proof (cases h)
      case None
      with assms hash failed show ?thesis by (simp add: upload_one_def Let_def)
    next
      case (Some q)
      obtain sha n where q: "q = (sha, n)" by (cases q)
      show ?thesis
      proof (cases "sha \<noteq> so_sha256 rec \<or> n \<noteq> so_size_bytes rec")
        case True
        with assms hash Some q failed show ?thesis by (simp add: upload_one_def Let_def)
      next
        case ok: False
        then obtain content where content: "st_files s (so_local_path rec) = Some content"
          "ui_sha256 inp content = so_sha256 rec" "int (length content) = so_size_bytes rec"
          using hash Some q by (auto simp: local_file_hash_and_size_def split: option.splits)
        show ?thesis
        proof (cases "so_backend_alert_id rec")
          case None
          with assms hash Some q ok show ?thesis by (simp add: upload_one_def Let_def)
        next
          case alert: (Some alert)
          let ?up = "upload (uc_base_url cfg) (ui_post inp) (st_files s) dev secret alert ?u
              (so_local_path rec) (so_content_type rec) (so_sha256 rec)"
          have eq: "upload_one cfg inp dev secret rec s =
              (case ?up of Inl e \<Rightarrow> (Inl e, s)
               | Inr (SnapshotUploadFailure reason _) \<Rightarrow> attempt_failed inp ?u reason False s
               | Inr (SnapshotUploadResult _) \<Rightarrow> finish_upload inp rec s)"
            using hash Some q ok alert by (simp add: upload_one_def Let_def)
          show ?thesis
          proof (cases ?up)
            case (Inl e)
            with assms eq show ?thesis by simp
          next
            case (Inr out)
            show ?thesis
            proof (cases out)
              case (SnapshotUploadFailure reason st)
              with assms eq Inr failed show ?thesis by simp
            next
              case (SnapshotUploadResult v)
              note up = Inr [unfolded SnapshotUploadResult]
              from upload_Result [OF up] content(1)
              have "upload_confirmed cfg inp ?u alert (so_sha256 rec) content" by auto
              with content alert have "upload_justified cfg inp s rec" by (auto simp: upload_justified_def)
              moreover have "finish_upload inp rec s = (r, s')" using assms eq up by simp
              ultimately show ?thesis using finish_upload_effect by blast
            qed
          qed
        qed
      qed
    qed
  qed
qed

lemma view_uploaded_idem: "map_option view_uploaded (map_option view_uploaded v) = map_option view_uploaded v"
  by (cases v) auto

lemma upload_justified_earlier:
  assumes "upload_justified cfg inp s rec" and "\<And>p c. st_files s p = Some c \<Longrightarrow> st_files s0 p = Some c"
  shows "upload_justified cfg inp s0 rec"
  using assms unfolding upload_justified_def by blast

text \<open>
  What a sequence of uploads may do: \<open>J\<close> holds the (event id, path) pairs of the justified ones.
\<close>

definition upload_effect :: "store \<Rightarrow> (uuid \<times> string) set \<Rightarrow> store \<Rightarrow> bool" where
  "upload_effect s J s' \<longleftrightarrow>
     (\<forall>u. snapshot_view (st_snapshots s') u = snapshot_view (st_snapshots s) u
        \<or> (snapshot_view (st_snapshots s') u = map_option view_uploaded (snapshot_view (st_snapshots s) u)
           \<and> u \<in> fst ` J))
     \<and> (\<forall>p. st_files s' p = st_files s p
        \<or> (st_files s' p = None \<and> (\<exists>u. (u, p) \<in> J
             \<and> snapshot_view (st_snapshots s') u = map_option view_uploaded (snapshot_view (st_snapshots s) u))))"

lemma upload_effect_refl:
  "snapshot_view (st_snapshots s') = snapshot_view (st_snapshots s) \<Longrightarrow> st_files s' = st_files s \<Longrightarrow>
   upload_effect s J s'"
  by (simp add: upload_effect_def)

lemma upload_effect_mono: "upload_effect s J s' \<Longrightarrow> J \<subseteq> K \<Longrightarrow> upload_effect s K s'"
  unfolding upload_effect_def by blast

lemma upload_effect_trans:
  assumes st: "upload_effect s J t" and ts: "upload_effect t J s'"
  shows "upload_effect s J s'"
  unfolding upload_effect_def
proof (intro conjI allI)
  fix u
  show "snapshot_view (st_snapshots s') u = snapshot_view (st_snapshots s) u
      \<or> (snapshot_view (st_snapshots s') u = map_option view_uploaded (snapshot_view (st_snapshots s) u)
         \<and> u \<in> fst ` J)"
    using st ts unfolding upload_effect_def by (metis view_uploaded_idem)
next
  fix p
  have up: "snapshot_view (st_snapshots s') u = map_option view_uploaded (snapshot_view (st_snapshots s) u)"
    if "snapshot_view (st_snapshots t) u = map_option view_uploaded (snapshot_view (st_snapshots s) u)
      \<or> snapshot_view (st_snapshots s') u = map_option view_uploaded (snapshot_view (st_snapshots t) u)" for u
    using st ts that unfolding upload_effect_def by (metis view_uploaded_idem)
  from ts have "st_files s' p = st_files t p \<or> (st_files s' p = None \<and> (\<exists>u. (u, p) \<in> J
      \<and> snapshot_view (st_snapshots s') u = map_option view_uploaded (snapshot_view (st_snapshots t) u)))"
    unfolding upload_effect_def by blast
  moreover from st have "st_files t p = st_files s p \<or> (st_files t p = None \<and> (\<exists>u. (u, p) \<in> J
      \<and> snapshot_view (st_snapshots t) u = map_option view_uploaded (snapshot_view (st_snapshots s) u)))"
    unfolding upload_effect_def by blast
  ultimately show "st_files s' p = st_files s p \<or> (st_files s' p = None \<and> (\<exists>u. (u, p) \<in> J
      \<and> snapshot_view (st_snapshots s') u = map_option view_uploaded (snapshot_view (st_snapshots s) u)))"
    using up by metis
qed

definition justified_pairs ::
  "upload_config \<Rightarrow> upload_input \<Rightarrow> store \<Rightarrow> snapshot_record list \<Rightarrow> (uuid \<times> string) set" where
  "justified_pairs cfg inp s recs =
     (\<lambda>rec. (so_event_id rec, so_local_path rec)) ` {rec \<in> set recs. upload_justified cfg inp s rec}"

lemma upload_one_allowed:
  assumes "upload_one cfg inp dev secret rec s = (r, s')" and "rec \<in> set recs"
  shows "upload_effect s (justified_pairs cfg inp s recs) s'"
  using upload_one_effect [OF assms(1)]
proof
  assume "upload_justified cfg inp s rec
     \<and> snapshot_view (st_snapshots s') = (\<lambda>v. if v = so_event_id rec
          then map_option view_uploaded (snapshot_view (st_snapshots s) v) else snapshot_view (st_snapshots s) v)
     \<and> st_files s' \<in> {st_files s, (st_files s)(so_local_path rec := None)}"
  then have j: "(so_event_id rec, so_local_path rec) \<in> justified_pairs cfg inp s recs"
    and v: "snapshot_view (st_snapshots s') = (\<lambda>v. if v = so_event_id rec
          then map_option view_uploaded (snapshot_view (st_snapshots s) v) else snapshot_view (st_snapshots s) v)"
    and f: "st_files s' = st_files s \<or> st_files s' = (st_files s)(so_local_path rec := None)"
    using assms(2) by (auto simp: justified_pairs_def)
  from j have "so_event_id rec \<in> fst ` justified_pairs cfg inp s recs" by force
  then have "\<forall>u. snapshot_view (st_snapshots s') u = snapshot_view (st_snapshots s) u
        \<or> (snapshot_view (st_snapshots s') u = map_option view_uploaded (snapshot_view (st_snapshots s) u)
           \<and> u \<in> fst ` justified_pairs cfg inp s recs)"
    unfolding v by simp
  moreover have "st_files s' p = st_files s p \<or> (st_files s' p = None
      \<and> (\<exists>u. (u, p) \<in> justified_pairs cfg inp s recs
          \<and> snapshot_view (st_snapshots s') u = map_option view_uploaded (snapshot_view (st_snapshots s) u)))"
    for p
    using f j by (cases "p = so_local_path rec") (auto simp: v)
  ultimately show ?thesis unfolding upload_effect_def by simp
qed (simp add: upload_effect_refl)

lemma upload_rows_effect:
  "upload_rows cfg inp dev secret recs s = (r, s') \<Longrightarrow>
   upload_effect s (justified_pairs cfg inp s recs) s'"
proof (induction recs arbitrary: s)
  case Nil
  then show ?case by (simp add: upload_effect_refl)
next
  case (Cons rec recs)
  obtain y t where one: "upload_one cfg inp dev secret rec s = (y, t)"
    by (cases "upload_one cfg inp dev secret rec s")
  have st: "upload_effect s (justified_pairs cfg inp s (rec # recs)) t"
    by (rule upload_one_allowed [OF one]) simp
  show ?case
  proof (cases "y = Inr True")
    case False
    then have "t = s'" using Cons.prems one by (auto split: sum.splits bool.splits)
    with st show ?thesis by simp
  next
    case True
    then have rest: "upload_rows cfg inp dev secret recs t = (r, s')" using Cons.prems one by simp
    have files: "st_files t p = Some c \<Longrightarrow> st_files s p = Some c" for p c
      using upload_one_effect [OF one] by (auto split: if_split_asm)
    then have "justified_pairs cfg inp t recs \<subseteq> justified_pairs cfg inp s (rec # recs)"
      using upload_justified_earlier [of cfg inp t _ s] unfolding justified_pairs_def by auto
    with Cons.IH [OF rest] have "upload_effect t (justified_pairs cfg inp s (rec # recs)) s'"
      by (rule upload_effect_mono)
    with st show ?thesis by (rule upload_effect_trans)
  qed
qed

end
