(* ===== verification/UploadLoop.thy ===== *)
theory UploadLoop
  imports UploadWorker
begin

text \<open>
  The properties of the snapshot upload task of \<^verbatim>\<open>snapshot/worker.py\<close>: what a drain may change, how
  long the task lives, and when it stops making progress.
\<close>

section \<open>What a drain changes\<close>

lemma plan_upload_Some:
  "plan_upload cfg inp s = Inr (Some (dev, secret, recs)) \<longleftrightarrow>
     (\<exists>i. load_identity (ui_identity_fault inp) (st_identity s) = Inr (Some i) \<and> di_operational_state i = OPERATIONAL
        \<and> list_upload_ready (ui_list_fault inp) (tn_batch_size (uc_tuning cfg)) (st_snapshots s) = Inr recs
        \<and> recs \<noteq> [] \<and> di_device_id i = dev \<and> di_shared_secret i = Some secret)"
proof (cases "load_identity (ui_identity_fault inp) (st_identity s)")
  case (Inr x)
  show ?thesis
  proof (cases x)
    case (Some i)
    show ?thesis
      by (cases "list_upload_ready (ui_list_fault inp) (tn_batch_size (uc_tuning cfg)) (st_snapshots s)")
         (auto simp: plan_upload_def Inr Some split: option.splits)
  qed (simp add: plan_upload_def Inr)
qed (simp add: plan_upload_def)

lemma drain_uploads_cases:
  assumes "drain_uploads cfg inp w = (r, w')"
  obtains (plan_raises) e where "plan_upload cfg inp (wk_world w) = Inl e" "r = Inl e" "w' = w"
  | (idle) "plan_upload cfg inp (wk_world w) = Inr None" "r = Inr True" "w' = w"
  | (raised) dev secret recs e s where "plan_upload cfg inp (wk_world w) = Inr (Some (dev, secret, recs))"
      "upload_rows cfg inp dev secret recs (wk_world w) = (Inl e, s)" "r = Inl e" "w' = w\<lparr>wk_world := s\<rparr>"
  | (finished) dev secret recs s where "plan_upload cfg inp (wk_world w) = Inr (Some (dev, secret, recs))"
      "upload_rows cfg inp dev secret recs (wk_world w) = (Inr True, s)"
      "r = Inr (int (length recs) < tn_batch_size (uc_tuning cfg))" "w' = reset_backoff (w\<lparr>wk_world := s\<rparr>)"
  | (backoff) dev secret recs s x where "plan_upload cfg inp (wk_world w) = Inr (Some (dev, secret, recs))"
      "upload_rows cfg inp dev secret recs (wk_world w) = (Inr False, s)"
      "sleep_backoff (uc_tuning cfg) (ui_jitter inp) (w\<lparr>wk_world := s\<rparr>) = (x, w')"
      "r = bind_result x (\<lambda>_. Inr False)"
proof (cases "plan_upload cfg inp (wk_world w)")
  case (Inl e)
  with assms have "r = Inl e" "w' = w" by (simp_all add: drain_uploads_def)
  with Inl show ?thesis by (rule plan_raises)
next
  case (Inr p)
  show ?thesis
  proof (cases p)
    case None
    with Inr assms show ?thesis by (intro idle) (simp_all add: drain_uploads_def)
  next
    case (Some q)
    obtain dev secret recs where q: "q = (dev, secret, recs)" by (cases q)
    note plan = Inr [unfolded Some q]
    obtain y s where rows: "upload_rows cfg inp dev secret recs (wk_world w) = (y, s)"
      by (cases "upload_rows cfg inp dev secret recs (wk_world w)")
    show ?thesis
    proof (cases y)
      case (Inl e)
      then have "r = Inl e" "w' = w\<lparr>wk_world := s\<rparr>" using plan rows assms by (simp_all add: drain_uploads_def)
      with rows Inl show ?thesis by (intro raised [OF plan]) simp_all
    next
      case y: (Inr go_on)
      show ?thesis
      proof (cases go_on)
        case True
        then have "r = Inr (int (length recs) < tn_batch_size (uc_tuning cfg))"
          "w' = reset_backoff (w\<lparr>wk_world := s\<rparr>)"
          using plan rows y assms by (simp_all add: drain_uploads_def)
        with rows y True show ?thesis by (intro finished [OF plan]) simp_all
      next
        case False
        obtain x v where x: "sleep_backoff (uc_tuning cfg) (ui_jitter inp) (w\<lparr>wk_world := s\<rparr>) = (x, v)"
          by (cases "sleep_backoff (uc_tuning cfg) (ui_jitter inp) (w\<lparr>wk_world := s\<rparr>)")
        have "v = w'" "r = bind_result x (\<lambda>_. Inr False)"
          using plan rows y False assms x by (cases x; simp add: drain_uploads_def)+
        with plan rows y False x show ?thesis by (intro backoff [OF plan]) simp_all
      qed
    qed
  qed
qed

lemma sleep_backoff_world: "sleep_backoff t j w = (r, w') \<Longrightarrow> wk_world w' = wk_world w"
  by (auto simp: sleep_backoff_cases sleep_for_def split: if_split_asm)

lemma drain_uploads_world:
  assumes "drain_uploads cfg inp w = (r, w')"
  shows "wk_world w' = wk_world w \<or> (\<exists>dev secret recs y. plan_upload cfg inp (wk_world w) = Inr (Some (dev, secret, recs))
    \<and> upload_rows cfg inp dev secret recs (wk_world w) = (y, wk_world w'))"
  using assms
proof (cases rule: drain_uploads_cases)
  case (backoff dev secret recs s x)
  from sleep_backoff_world [OF backoff(3)] have "wk_world w' = s" by simp
  with backoff show ?thesis by blast
qed (auto simp: reset_backoff_def)

text \<open>
  The records a drain may finish: those \<^verbatim>\<open>list_upload_ready\<close> returned, whose file still is what was
  captured, and which the Backend confirmed.
\<close>

definition confirmed_snapshot :: "upload_config \<Rightarrow> upload_input \<Rightarrow> store \<Rightarrow> snapshot_record \<Rightarrow> bool" where
  "confirmed_snapshot cfg inp s rec \<longleftrightarrow>
     (\<exists>recs. list_upload_ready None (tn_batch_size (uc_tuning cfg)) (st_snapshots s) = Inr recs \<and> rec \<in> set recs)
     \<and> upload_justified cfg inp s rec"

text \<open>
  C3.  A snapshot is marked uploaded, and its file deleted, only when it may be: after a drain every
  row looks as before, or it was upload-ready, its file was present with the recorded size and
  digest, the Backend answered that upload (this event id, this alert, this content) with success
  and an accepted or duplicate outcome, and the row is the same but uploaded; and every file is as
  before, or it is the file of such a row and that row is marked uploaded.
\<close>

theorem uploads_only_confirmed:
  assumes "drain_uploads cfg inp w = (r, w')"
  shows "(\<forall>u. snapshot_view (st_snapshots (wk_world w')) u = snapshot_view (st_snapshots (wk_world w)) u
      \<or> (\<exists>rec. confirmed_snapshot cfg inp (wk_world w) rec \<and> so_event_id rec = u
          \<and> snapshot_view (st_snapshots (wk_world w')) u
              = map_option view_uploaded (snapshot_view (st_snapshots (wk_world w)) u)))
    \<and> (\<forall>p. st_files (wk_world w') p = st_files (wk_world w) p
      \<or> (st_files (wk_world w') p = None
         \<and> (\<exists>rec. confirmed_snapshot cfg inp (wk_world w) rec \<and> so_local_path rec = p
              \<and> snapshot_view (st_snapshots (wk_world w')) (so_event_id rec)
                  = map_option view_uploaded (snapshot_view (st_snapshots (wk_world w)) (so_event_id rec)))))"
  using drain_uploads_world [OF assms]
proof
  assume "wk_world w' = wk_world w"
  then show ?thesis by simp
next
  assume "\<exists>dev secret recs y. plan_upload cfg inp (wk_world w) = Inr (Some (dev, secret, recs))
    \<and> upload_rows cfg inp dev secret recs (wk_world w) = (y, wk_world w')"
  then obtain dev secret recs y where plan: "plan_upload cfg inp (wk_world w) = Inr (Some (dev, secret, recs))"
    and rows: "upload_rows cfg inp dev secret recs (wk_world w) = (y, wk_world w')" by blast
  from plan have "list_upload_ready (ui_list_fault inp) (tn_batch_size (uc_tuning cfg)) (st_snapshots (wk_world w)) = Inr recs"
    by (auto simp: plan_upload_Some)
  then have "list_upload_ready None (tn_batch_size (uc_tuning cfg)) (st_snapshots (wk_world w)) = Inr recs"
    by (auto simp: list_upload_ready_def read_only_def split: if_split_asm option.split_asm)
  then have J: "(u, p) \<in> justified_pairs cfg inp (wk_world w) recs \<Longrightarrow>
      \<exists>rec. confirmed_snapshot cfg inp (wk_world w) rec \<and> so_event_id rec = u \<and> so_local_path rec = p" for u p
    unfolding justified_pairs_def confirmed_snapshot_def by auto
  from upload_rows_effect [OF rows] J show ?thesis unfolding upload_effect_def by fastforce
qed

definition demo_upload_config :: upload_config where
  "demo_upload_config = \<lparr>uc_tuning = demo_tuning, uc_base_url = ''https://b''\<rparr>"

definition demo_upload_input :: "http_outcome \<Rightarrow> upload_input" where
  "demo_upload_input answer =
     \<lparr>ui_identity_fault = None, ui_list_fault = None, ui_read_fault = (\<lambda>_. None),
      ui_sha256 = (\<lambda>c. if c = [1, 2] then ''ab'' else ''cd''), ui_clock = (\<lambda>_. Aware 30), ui_attempt_fault = (\<lambda>_. None),
      ui_post = (\<lambda>_. answer), ui_mark_fault = (\<lambda>_. None), ui_unlink_fault = (\<lambda>_. None), ui_jitter = Fin 0\<rparr>"

definition demo_small :: snapshot_row where
  "demo_small = demo_ready\<lparr>sr_size_bytes := 2\<rparr>"

definition demo_upload_store :: "bytes option \<Rightarrow> store" where
  "demo_upload_store content =
     demo_store\<lparr>st_snapshots := [demo_small], st_files := (\<lambda>p. if p = ''/spool/5.jpg'' then content else None)\<rparr>"

definition demo_uploader :: "bytes option \<Rightarrow> store worker" where
  "demo_uploader content = \<lparr>wk_attempt = 0, wk_slept = [], wk_world = demo_upload_store content\<rparr>"

definition demo_accepted :: http_outcome where
  "demo_accepted = HttpResponse 201
     (Inr (JObj [(''success'', JBool True), (''data'', JObj [(''outcome'', JStr ''accepted'')])]))"

lemma demo_small_wf: "snapshot_table_wf [demo_small]"
  by (auto simp: demo_small_def snapshot_table_wf_def snapshot_row_wf_def demo_ready_def new_snapshot_row_def opt_iso_utc_def)

lemma demo_select_small: "select_upload_ready 1 [demo_small] = [demo_small]"
  by (simp add: select_upload_ready_def upload_ready_def demo_small_def demo_ready_def new_snapshot_row_def)


lemma demo_record:
  "\<exists>rec. row_to_record demo_small = Inr rec \<and> so_event_id rec = 5 \<and> so_local_path rec = ''/spool/5.jpg''
     \<and> so_sha256 rec = ''ab'' \<and> so_size_bytes rec = 2 \<and> so_backend_alert_id rec = Some ''A''"
  by (simp add: row_to_record_def demo_small_def demo_ready_def new_snapshot_row_def parse_str_uuid
      parse_opt_iso_def mk_snapshot_record_def snapshot_record_ok_def opt_has_tz_def)

lemma demo_plan:
  "row_to_record demo_small = Inr rec \<Longrightarrow>
   plan_upload demo_upload_config (demo_upload_input a) (demo_upload_store c) = Inr (Some (''dev'', ''s'', [rec]))"
  using demo_load demo_select_small
  by (simp add: plan_upload_Some demo_upload_store_def demo_upload_input_def demo_upload_config_def
      demo_tuning_def list_upload_ready_def demo_identity_def read_only_def)

lemma demo_drain_uploads:
  "\<exists>w'. drain_uploads demo_upload_config (demo_upload_input demo_accepted) (demo_uploader (Some [1, 2])) = (Inr False, w')
     \<and> st_files (wk_world w') ''/spool/5.jpg'' = None
     \<and> snapshot_view (st_snapshots (wk_world w')) 5 = Some (CAPTURED, US_UPLOADED, Some ''A'')"
proof -
  obtain rec where r: "row_to_record demo_small = Inr rec" "so_event_id rec = 5" "so_local_path rec = ''/spool/5.jpg''"
    "so_sha256 rec = ''ab''" "so_size_bytes rec = 2" "so_backend_alert_id rec = Some ''A''"
    using demo_record by blast
  have "upload ''https://b'' (\<lambda>_. demo_accepted) (\<lambda>p. if p = ''/spool/5.jpg'' then Some [1, 2] else None)
      ''dev'' ''s'' ''A'' 5 ''/spool/5.jpg'' (so_content_type rec) ''ab'' = Inr (SnapshotUploadResult UO_ACCEPTED)"
    by (simp add: upload_def demo_accepted_def classify_upload_def parse_upload_success_def safe_json_def
        jget_none_def Let_def)
  then have "upload_one demo_upload_config (demo_upload_input demo_accepted) ''dev'' ''s'' rec
      (demo_upload_store (Some [1, 2]))
    = finish_upload (demo_upload_input demo_accepted) rec (demo_upload_store (Some [1, 2]))"
    using r by (simp add: upload_one_def local_file_hash_and_size_def demo_upload_input_def
        demo_upload_config_def demo_upload_store_def)
  moreover have "\<exists>s. finish_upload (demo_upload_input demo_accepted) rec (demo_upload_store (Some [1, 2])) = (Inr True, s)
      \<and> st_files s ''/spool/5.jpg'' = None
      \<and> snapshot_view (st_snapshots s) 5 = Some (CAPTURED, US_UPLOADED, Some ''A'')"
    using r
    by (simp add: finish_upload_def mark_uploaded_def guarded_update_def transaction_def unlink_quietly_def
        demo_upload_input_def demo_upload_store_def demo_small_def demo_ready_def new_snapshot_row_def
        has_id_def update_rows_def count_rows_def snapshot_view_def find_row_def row_view_def)
  ultimately obtain s where
    "upload_rows demo_upload_config (demo_upload_input demo_accepted) ''dev'' ''s'' [rec] (demo_upload_store (Some [1, 2])) = (Inr True, s)"
    and s: "st_files s ''/spool/5.jpg'' = None" "snapshot_view (st_snapshots s) 5 = Some (CAPTURED, US_UPLOADED, Some ''A'')"
    by auto
  then have "drain_uploads demo_upload_config (demo_upload_input demo_accepted) (demo_uploader (Some [1, 2]))
      = (Inr False, reset_backoff ((demo_uploader (Some [1, 2]))\<lparr>wk_world := s\<rparr>))"
    using demo_plan [OF r(1)]
    by (simp add: drain_uploads_def demo_uploader_def demo_upload_config_def demo_tuning_def)
  with s show ?thesis by (simp add: reset_backoff_def)
qed

theorem uploads_only_confirmed_witness:
  "\<exists>rec. confirmed_snapshot demo_upload_config (demo_upload_input demo_accepted) (demo_upload_store (Some [1, 2])) rec
     \<and> so_event_id rec = 5"
proof -
  obtain w' where d: "drain_uploads demo_upload_config (demo_upload_input demo_accepted) (demo_uploader (Some [1, 2]))
      = (Inr False, w')" and v: "snapshot_view (st_snapshots (wk_world w')) 5 = Some (CAPTURED, US_UPLOADED, Some ''A'')"
    using demo_drain_uploads by blast
  have "snapshot_view (st_snapshots (demo_upload_store (Some [1, 2]))) 5 = Some (CAPTURED, US_PENDING, Some ''A'')"
    by (simp add: demo_upload_store_def snapshot_view_def find_row_def row_view_def has_id_def demo_small_def
        demo_ready_def new_snapshot_row_def)
  then have "snapshot_view (st_snapshots (wk_world w')) 5
      \<noteq> snapshot_view (st_snapshots (wk_world (demo_uploader (Some [1, 2])))) 5"
    using v by (simp add: demo_uploader_def)
  with uploads_only_confirmed [OF d] have
    "\<exists>rec. confirmed_snapshot demo_upload_config (demo_upload_input demo_accepted)
       (wk_world (demo_uploader (Some [1, 2]))) rec \<and> so_event_id rec = 5" by blast
  then show ?thesis by (simp add: demo_uploader_def)
qed

section \<open>Failed attempts leave the selection as it was\<close>

definition failed_row :: "iso_text \<Rightarrow> string \<Rightarrow> snapshot_row \<Rightarrow> snapshot_row" where
  "failed_row when category r =
     r\<lparr>sr_attempt_count := sr_attempt_count r + 1, sr_last_attempt_at_utc := Some when,
       sr_last_error_category := Some category\<rparr>"

lemma failed_row_simps [simp]:
  "sr_event_id (failed_row x c r) = sr_event_id r" "sr_local_path (failed_row x c r) = sr_local_path r"
  "sr_sha256 (failed_row x c r) = sr_sha256 r" "sr_size_bytes (failed_row x c r) = sr_size_bytes r"
  "sr_backend_alert_id (failed_row x c r) = sr_backend_alert_id r"
  "upload_ready (failed_row x c r) = upload_ready r" "capture_order (failed_row x c r) = capture_order r"
  by (simp_all add: failed_row_def upload_ready_def capture_order_def)

lemma insort_key_map: "(\<And>x. k (f x) = k x) \<Longrightarrow> insort_key k (f x) (map f xs) = map f (insort_key k x xs)"
  by (induction xs) auto

lemma sort_key_map: "(\<And>x. k (f x) = k x) \<Longrightarrow> sort_key k (map f xs) = map f (sort_key k xs)"
  by (induction xs) (simp_all add: insort_key_map)

lemma select_upload_ready_failed:
  "select_upload_ready n (update_rows p (failed_row x c) t) = update_rows p (failed_row x c) (select_upload_ready n t)"
proof -
  have "filter upload_ready (update_rows p (failed_row x c) t) = update_rows p (failed_row x c) (filter upload_ready t)"
    by (simp add: update_rows_def filter_map comp_def)
  then show ?thesis
    by (simp add: select_upload_ready_def update_rows_def take_map sort_key_map)
qed

lemma attempt_failed_Inr:
  assumes "ui_attempt_fault inp u = None" and "ui_clock inp u = Aware k"
  shows "attempt_failed inp u reason b s =
    (Inr b, s\<lparr>st_snapshots := update_rows (has_id u) (failed_row (IsoUtc k) (upload_reason_value reason)) (st_snapshots s)\<rparr>)"
  using assms by (simp add: attempt_failed_def record_attempt_failure_def transaction_def failed_row_def [abs_def])

lemma failed_rows_wf:
  "snapshot_table_wf t \<Longrightarrow> snapshot_table_wf (update_rows p (failed_row (IsoUtc k) c) t)"
  by (rule update_snapshot_wf) (auto simp: snapshot_row_wf_def failed_row_def opt_iso_utc_def)

section \<open>The task\<close>

definition upload_input_ok :: "upload_input \<Rightarrow> bool" where
  "upload_input_ok inp \<longleftrightarrow>
     fault_ok (ui_identity_fault inp) \<and> fault_ok (ui_list_fault inp)
     \<and> (\<forall>u. fault_ok (ui_read_fault inp u) \<and> fault_ok (ui_attempt_fault inp u)
          \<and> fault_ok (ui_mark_fault inp u) \<and> fault_ok (ui_unlink_fault inp u))
     \<and> (\<forall>req e. ui_post inp req = HttpRaised e \<longrightarrow> is_exception e)
     \<and> (\<forall>req n e. ui_post inp req = HttpResponse n (Inl e) \<longrightarrow> is_exception e)"

lemma parse_iso_utc_Inl: "parse_iso_utc x = Inl e \<Longrightarrow> is_exception e"
  by (cases x) auto

lemma parse_uuid_Inl: "parse_uuid x = Inl e \<Longrightarrow> is_exception e"
  by (auto simp: parse_uuid_def Let_def split: if_split_asm option.split_asm)

lemma row_to_record_Inl: "row_to_record r = Inl e \<Longrightarrow> is_exception e"
  by (auto simp: row_to_record_def bind_result_eq_Inl parse_opt_iso_def mk_snapshot_record_def
      dest: parse_iso_utc_Inl parse_uuid_Inl split: option.split_asm if_split_asm)

lemma list_upload_ready_exception: "list_upload_ready f n t = Inl e \<Longrightarrow> fault_ok f \<Longrightarrow> is_exception e"
  by (auto simp: list_upload_ready_def read_only_def fault_ok_def dest!: map_result_Inl row_to_record_Inl
      split: if_splits option.splits)

lemma plan_upload_exception: "plan_upload cfg inp s = Inl e \<Longrightarrow> upload_input_ok inp \<Longrightarrow> is_exception e"
  by (auto simp: plan_upload_def outcome_simps upload_input_ok_def
      dest: load_identity_exception list_upload_ready_exception split: option.split_asm if_split_asm)

lemma attempt_failed_exception:
  "attempt_failed inp u reason b s = (Inl e, s') \<Longrightarrow> upload_input_ok inp \<Longrightarrow> is_exception e"
  by (cases "ui_clock inp u")
     (auto simp: attempt_failed_def record_attempt_failure_def transaction_def upload_input_ok_def fault_ok_def
       split: option.split_asm sum.split_asm prod.split_asm)

lemma finish_upload_exception:
  "finish_upload inp rec s = (Inl e, s') \<Longrightarrow> upload_input_ok inp \<Longrightarrow> is_exception e"
  by (cases "ui_clock inp (so_event_id rec)")
     (auto simp: finish_upload_def mark_uploaded_def guarded_update_def transaction_def unlink_quietly_def
       upload_input_ok_def fault_ok_def Let_def split: option.split_asm sum.split_asm prod.split_asm if_split_asm)

lemma upload_exception:
  assumes "upload base (ui_post inp) fs dev secret alert u path ct sha = Inl e" and "upload_input_ok inp"
  shows "is_exception e"
  using assms
  by (auto simp: upload_def classify_upload_def parse_upload_success_def safe_json_def outcome_simps
      upload_input_ok_def Let_def split: option.split_asm http_outcome.split_asm if_split_asm sum.split_asm)

lemma upload_one_exception:
  assumes "upload_one cfg inp dev secret rec s = (Inl e, s')" and "upload_input_ok inp"
  shows "is_exception e"
  using assms attempt_failed_exception finish_upload_exception upload_exception
  by (auto simp: upload_one_def local_file_hash_and_size_def upload_input_ok_def fault_ok_def Let_def
      split: sum.split_asm option.split_asm prod.split_asm if_split_asm upload_outcome.split_asm)

lemma upload_rows_exception:
  "upload_rows cfg inp dev secret recs s = (Inl e, s') \<Longrightarrow> upload_input_ok inp \<Longrightarrow> is_exception e"
proof (induction recs arbitrary: s)
  case (Cons rec recs)
  show ?case
  proof (cases "upload_one cfg inp dev secret rec s")
    case (Pair y t)
    show ?thesis
    proof (cases y)
      case (Inl x)
      with Cons.prems Pair upload_one_exception [of cfg inp dev secret rec s x t] show ?thesis by simp
    next
      case (Inr go_on)
      with Cons Pair show ?thesis by (cases go_on) auto
    qed
  qed
qed simp

lemma drain_uploads_raises:
  assumes "upload_input_ok inp" and "drain_uploads cfg inp w = (Inl e, w')"
  shows "is_exception e \<and> wk_attempt w' = wk_attempt w"
  using assms(2)
proof (cases rule: drain_uploads_cases)
  case (plan_raises x)
  then show ?thesis using plan_upload_exception assms(1) by auto
next
  case (raised dev secret recs x s)
  then show ?thesis using upload_rows_exception assms(1) by auto
next
  case (backoff dev secret recs s x)
  then show ?thesis by (auto simp: sleep_backoff_cases split: if_split_asm)
qed auto

lemma drain_uploads_counts:
  assumes "drain_uploads cfg inp w = (Inr idle, w')"
  shows "wk_attempt w' \<le> Suc (wk_attempt w)"
  using assms
proof (cases rule: drain_uploads_cases)
  case (backoff dev secret recs s x)
  then show ?thesis by (auto simp: sleep_backoff_cases sleep_for_def split: if_split_asm)
qed (auto simp: reset_backoff_def)

text \<open>
  \<open>upload_refused\<close>: a fault-free pass that the Backend refuses, or that does not reach it.
  \<open>head_intact\<close>: there is a ready row, and the file of the oldest one is what was captured.
\<close>

definition refusing :: "http_outcome \<Rightarrow> bool" where
  "refusing o' = (case o' of HttpTimeout \<Rightarrow> True | HttpTransportError \<Rightarrow> True | HttpRaised _ \<Rightarrow> False
                  | HttpResponse status _ \<Rightarrow> status \<noteq> 200 \<and> status \<noteq> 201)"

definition upload_quiet :: "(bytes \<Rightarrow> string) \<Rightarrow> upload_input \<Rightarrow> bool" where
  "upload_quiet sha inp \<longleftrightarrow> ui_identity_fault inp = None \<and> ui_list_fault inp = None \<and> ui_sha256 inp = sha
     \<and> (\<forall>u. ui_read_fault inp u = None \<and> ui_attempt_fault inp u = None \<and> (\<exists>k. ui_clock inp u = Aware k))"

definition upload_refused :: "(bytes \<Rightarrow> string) \<Rightarrow> upload_input \<Rightarrow> bool" where
  "upload_refused sha inp \<longleftrightarrow> upload_quiet sha inp \<and> (\<forall>req. refusing (ui_post inp req))"

definition row_intact :: "(bytes \<Rightarrow> string) \<Rightarrow> files \<Rightarrow> snapshot_row \<Rightarrow> bool" where
  "row_intact sha fs r = (case fs (sr_local_path r) of None \<Rightarrow> False
     | Some c \<Rightarrow> sha c = sr_sha256 r \<and> int (length c) = sr_size_bytes r)"

definition uploader_ready :: "upload_config \<Rightarrow> store \<Rightarrow> bool" where
  "uploader_ready cfg s \<longleftrightarrow> (\<exists>i. load_identity None (st_identity s) = Inr (Some i) \<and> di_operational_state i = OPERATIONAL)
     \<and> snapshot_table_wf (st_snapshots s) \<and> 0 < tn_batch_size (uc_tuning cfg)"

definition batch_rows :: "upload_config \<Rightarrow> store \<Rightarrow> snapshot_row list" where
  "batch_rows cfg s = select_upload_ready (nat (tn_batch_size (uc_tuning cfg))) (st_snapshots s)"

definition head_intact :: "upload_config \<Rightarrow> (bytes \<Rightarrow> string) \<Rightarrow> store \<Rightarrow> bool" where
  "head_intact cfg sha s \<longleftrightarrow> uploader_ready cfg s
     \<and> (case batch_rows cfg s of [] \<Rightarrow> False | row # _ \<Rightarrow> row_intact sha (st_files s) row)"

lemma row_intact_failed [simp]: "row_intact sha fs (failed_row x c r) = row_intact sha fs r"
  by (simp add: row_intact_def split: option.split)

lemma batch_rows_D:
  assumes "uploader_ready cfg s" and "row \<in> set (batch_rows cfg s)"
  shows "snapshot_row_wf row \<and> upload_ready row"
  using assms
  by (auto simp: uploader_ready_def batch_rows_def select_upload_ready_def snapshot_table_wf_def list_all_iff
      dest!: in_set_takeD)

definition same_row :: "snapshot_row \<Rightarrow> snapshot_record \<Rightarrow> bool" where
  "same_row r x \<longleftrightarrow> sr_event_id r = str_uuid (so_event_id x) \<and> so_local_path x = sr_local_path r
     \<and> so_size_bytes x = sr_size_bytes r \<and> so_sha256 x = sr_sha256 r
     \<and> so_backend_alert_id x = sr_backend_alert_id r \<and> sr_backend_alert_id r \<noteq> None"

lemma uploader_plan:
  assumes "uploader_ready cfg s" and "upload_quiet sha inp" and "batch_rows cfg s \<noteq> []"
  obtains dev secret recs where "plan_upload cfg inp s = Inr (Some (dev, secret, recs))"
    "list_all2 same_row (batch_rows cfg s) recs"
proof -
  obtain i where i: "load_identity None (st_identity s) = Inr (Some i)" "di_operational_state i = OPERATIONAL"
    and wf: "snapshot_table_wf (st_snapshots s)" and b: "0 < tn_batch_size (uc_tuning cfg)"
    using assms(1) by (auto simp: uploader_ready_def)
  obtain secret where secret: "di_shared_secret i = Some secret"
    using load_identity_ok [OF i(1)] i(2) by (auto simp: identity_ok_def)
  obtain recs where recs: "list_upload_ready None (tn_batch_size (uc_tuning cfg)) (st_snapshots s) = Inr recs"
    using list_upload_ready_Inr [OF wf b] by blast
  then have all2: "list_all2 (\<lambda>r x. row_to_record r = Inr x) (batch_rows cfg s) recs"
    using b by (simp add: list_upload_ready_def batch_rows_def map_result_all2)
  have same: "list_all2 same_row (batch_rows cfg s) recs"
    unfolding list_all2_conv_all_nth
  proof (intro conjI allI impI)
    show len: "length (batch_rows cfg s) = length recs" by (rule list_all2_lengthD [OF all2])
    fix n assume n: "n < length (batch_rows cfg s)"
    then have "row_to_record (batch_rows cfg s ! n) = Inr (recs ! n)" by (rule list_all2_nthD [OF all2])
    moreover have "snapshot_row_wf (batch_rows cfg s ! n)" "upload_ready (batch_rows cfg s ! n)"
      using batch_rows_D [OF assms(1) nth_mem [OF n]] by simp_all
    ultimately show "same_row (batch_rows cfg s ! n) (recs ! n)"
      using row_to_record_wf [of "batch_rows cfg s ! n"]
      by (metis (no_types, lifting) Inr_inject same_row_def upload_ready_def)
  qed
  have "plan_upload cfg inp s = Inr (Some (di_device_id i, secret, recs))"
    using i secret recs assms(2,3) list_all2_lengthD [OF same]
    by (auto simp: plan_upload_Some upload_quiet_def)
  with same that show ?thesis by blast
qed

lemma upload_one_refused:
  assumes "upload_refused sha inp" and "same_row row x" and "row_intact sha (st_files s) row"
  shows "\<exists>reason. upload_one cfg inp dev secret x s = attempt_failed inp (so_event_id x) reason False s"
proof -
  obtain c where c: "st_files s (sr_local_path row) = Some c" "sha c = sr_sha256 row" "int (length c) = sr_size_bytes row"
    using assms(3) by (auto simp: row_intact_def split: option.splits)
  obtain alert where alert: "so_backend_alert_id x = Some alert" using assms(2) by (auto simp: same_row_def)
  have "\<exists>reason n. upload (uc_base_url cfg) (ui_post inp) (st_files s) dev secret alert (so_event_id x)
      (so_local_path x) (so_content_type x) (so_sha256 x) = Inr (SnapshotUploadFailure reason n)"
  proof -
    have r: "refusing (ui_post inp req)" for req using assms(1) by (simp add: upload_refused_def)
    show ?thesis
      using c(1) assms(2) r [of "\<lparr>ur_url = build_snapshot_upload_url (uc_base_url cfg) alert,
          ur_event_id = str_uuid (so_event_id x), ur_sha256 = so_sha256 x,
          ur_file_name = str_uuid (so_event_id x) @ ''.jpg'', ur_file = c,
          ur_content_type = so_content_type x, ur_device_id_header = dev, ur_device_secret_header = secret\<rparr>"]
      by (auto simp: upload_def same_row_def refusing_def classify_upload_def split: http_outcome.splits)
  qed
  then show ?thesis
    using assms(1,2) c alert
    by (auto simp: upload_one_def local_file_hash_and_size_def upload_refused_def upload_quiet_def same_row_def Let_def)
qed

lemma failed_keeps_ready:
  assumes "uploader_ready cfg s"
  shows "uploader_ready cfg (s\<lparr>st_snapshots := update_rows p (failed_row (IsoUtc k) c) (st_snapshots s)\<rparr>)"
    and "batch_rows cfg (s\<lparr>st_snapshots := update_rows p (failed_row (IsoUtc k) c) (st_snapshots s)\<rparr>)
      = update_rows p (failed_row (IsoUtc k) c) (batch_rows cfg s)"
  using assms by (simp_all add: uploader_ready_def failed_rows_wf batch_rows_def select_upload_ready_failed)

lemma drain_uploads_down:
  assumes "upload_refused sha inp" and "head_intact cfg sha (wk_world w)" and "drain_uploads cfg inp w = (r, w')"
  shows "head_intact cfg sha (wk_world w') \<and>
    (if wk_attempt w < 1024 then r = Inr False \<and> wk_attempt w' = Suc (wk_attempt w) else r = Inl OverflowError)"
proof -
  let ?s = "wk_world w"
  obtain row rows where rows: "batch_rows cfg ?s = row # rows" and row: "row_intact sha (st_files ?s) row"
    and ready: "uploader_ready cfg ?s"
    using assms(2) by (auto simp: head_intact_def split: list.splits)
  have quiet: "upload_quiet sha inp" using assms(1) by (simp add: upload_refused_def)
  obtain dev secret recs where plan: "plan_upload cfg inp ?s = Inr (Some (dev, secret, recs))"
    and same: "list_all2 same_row (batch_rows cfg ?s) recs"
    using uploader_plan [OF ready quiet] rows by auto
  then obtain x xs where recs: "recs = x # xs" "same_row row x" using rows by (auto simp: list_all2_Cons1)
  obtain reason where one: "upload_one cfg inp dev secret x ?s = attempt_failed inp (so_event_id x) reason False ?s"
    using upload_one_refused [OF assms(1) recs(2) row] by blast
  obtain k where k: "ui_clock inp (so_event_id x) = Aware k" using quiet by (auto simp: upload_quiet_def)
  let ?f = "failed_row (IsoUtc k) (upload_reason_value reason)"
  define s' where "s' = ?s\<lparr>st_snapshots := update_rows (has_id (so_event_id x)) ?f (st_snapshots ?s)\<rparr>"
  have "upload_rows cfg inp dev secret recs ?s = (Inr False, s')"
    using one recs(1) attempt_failed_Inr [OF _ k, of reason False ?s] quiet
    by (simp add: s'_def upload_quiet_def)
  then have d: "drain_uploads cfg inp w = (case sleep_backoff (uc_tuning cfg) (ui_jitter inp) (w\<lparr>wk_world := s'\<rparr>) of
      (Inl e, w') \<Rightarrow> (Inl e, w') | (Inr _, w') \<Rightarrow> (Inr False, w'))"
    using plan by (simp add: drain_uploads_def)
  have "head_intact cfg sha s'"
    using failed_keeps_ready [OF ready] rows row
    by (simp add: head_intact_def s'_def update_rows_Cons)
  with d assms(3) show ?thesis by (auto simp: sleep_backoff_cases sleep_for_def split: if_split_asm)
qed

interpretation upload_loop: background_worker "uc_tuning cfg" "drain_uploads cfg" "upload_refused sha"
    "head_intact cfg sha" upload_input_ok for cfg sha
  by unfold_locales (rule drain_uploads_counts, assumption, rule drain_uploads_raises, assumption+, rule drain_uploads_down)

section \<open>The life of the task\<close>

text \<open>
  Like the sync task, the upload task survives 1024 iterations from a fresh start, whatever
  storage faults and answers they meet.
\<close>

theorem upload_task_survives:
  assumes "\<forall>x \<in> set inputs. upload_input_ok (snd x)" and "wk_attempt w + length inputs \<le> 1024"
  shows "\<exists>w'. run_loop (uc_tuning cfg) (drain_uploads cfg) inputs w = Running w'"
  by (rule upload_loop.survives [OF assms])

theorem upload_task_survives_witness:
  "\<exists>w'. run_loop demo_tuning (drain_uploads demo_upload_config)
      [(Fin 0, demo_upload_input demo_accepted)] (demo_uploader None) = Running w'"
  using upload_task_survives [of "[(Fin 0, demo_upload_input demo_accepted)]" "demo_uploader None" demo_upload_config]
  by (simp add: upload_input_ok_def fault_ok_def demo_upload_input_def demo_uploader_def demo_upload_config_def
      demo_accepted_def)

text \<open>
  One row the Backend keeps refusing ends the task: while the oldest ready row has its file and
  every upload is refused (a conflict, say) or does not get through, no later row is tried, and the
  1025th failure in a row raises \<^verbatim>\<open>OverflowError\<close> out of \<^verbatim>\<open>_run\<close>, after which no snapshot is uploaded
  any more.
\<close>

theorem refused_head_kills_upload_task:
  assumes "\<forall>x \<in> set inputs. upload_input_ok (snd x) \<and> upload_refused sha (snd x)"
    and "head_intact cfg sha (wk_world w)" and "wk_attempt w \<le> 1024" and "1024 < wk_attempt w + length inputs"
  shows "run_loop (uc_tuning cfg) (drain_uploads cfg) inputs w = Ended OverflowError"
  by (rule upload_loop.dies [OF assms(1,2,4,3)])

lemma demo_uploader_ready: "uploader_ready demo_upload_config (demo_upload_store c)"
  using demo_load demo_small_wf
  by (simp add: uploader_ready_def demo_upload_store_def demo_upload_config_def demo_tuning_def demo_identity_def)

lemma demo_batch_rows: "batch_rows demo_upload_config (demo_upload_store c) = [demo_small]"
  using demo_select_small by (simp add: batch_rows_def demo_upload_store_def demo_upload_config_def demo_tuning_def)

theorem refused_head_kills_upload_task_witness:
  "run_loop demo_tuning (drain_uploads demo_upload_config)
     (replicate 1025 (Fin 0, demo_upload_input (HttpResponse 409 (Inr JNull)))) (demo_uploader (Some [1, 2]))
   = Ended OverflowError"
proof -
  have "\<forall>x \<in> set (replicate 1025 (Fin 0, demo_upload_input (HttpResponse 409 (Inr JNull)))).
      upload_input_ok (snd x) \<and> upload_refused (\<lambda>c. if c = [1, 2] then ''ab'' else ''cd'') (snd x)"
    unfolding Ball_set_replicate
    by (simp add: upload_input_ok_def upload_refused_def upload_quiet_def refusing_def fault_ok_def demo_upload_input_def)
  moreover have "head_intact demo_upload_config (\<lambda>c. if c = [1, 2] then ''ab'' else ''cd'')
      (wk_world (demo_uploader (Some [1, 2])))"
    using demo_uploader_ready demo_batch_rows
    by (simp add: head_intact_def row_intact_def demo_uploader_def)
       (simp add: demo_upload_store_def demo_small_def demo_ready_def new_snapshot_row_def)
  ultimately have "run_loop (uc_tuning demo_upload_config) (drain_uploads demo_upload_config)
      (replicate 1025 (Fin 0, demo_upload_input (HttpResponse 409 (Inr JNull)))) (demo_uploader (Some [1, 2]))
      = Ended OverflowError"
    by (rule refused_head_kills_upload_task) (simp_all add: demo_uploader_def)
  then show ?thesis by (simp add: demo_upload_config_def)
qed

section \<open>A batch of lost files\<close>

definition lost_batch :: "upload_config \<Rightarrow> (bytes \<Rightarrow> string) \<Rightarrow> store \<Rightarrow> bool" where
  "lost_batch cfg sha s \<longleftrightarrow> uploader_ready cfg s
     \<and> int (length (batch_rows cfg s)) = tn_batch_size (uc_tuning cfg)
     \<and> list_all (\<lambda>r. \<not> row_intact sha (st_files s) r) (batch_rows cfg s)"

definition lost_effect :: "upload_config \<Rightarrow> store \<Rightarrow> store \<Rightarrow> bool" where
  "lost_effect cfg s s' \<longleftrightarrow> st_files s' = st_files s \<and> st_identity s' = st_identity s
     \<and> snapshot_view (st_snapshots s') = snapshot_view (st_snapshots s)
     \<and> map sr_event_id (batch_rows cfg s') = map sr_event_id (batch_rows cfg s)"

lemma upload_one_lost:
  assumes "upload_quiet sha inp" and "same_row row x" and "\<not> row_intact sha (st_files s) row"
  shows "\<exists>reason. upload_one cfg inp dev secret x s = attempt_failed inp (so_event_id x) reason True s"
proof (cases "st_files s (sr_local_path row)")
  case None
  with assms show ?thesis
    by (auto simp: upload_one_def local_file_hash_and_size_def upload_quiet_def same_row_def Let_def)
next
  case (Some c)
  with assms(3) have "sha c \<noteq> sr_sha256 row \<or> int (length c) \<noteq> sr_size_bytes row"
    by (simp add: row_intact_def)
  with assms(1,2) Some show ?thesis
    by (auto simp: upload_one_def local_file_hash_and_size_def upload_quiet_def same_row_def Let_def)
qed

lemma upload_rows_lost:
  assumes "upload_quiet sha inp" and "list_all2 same_row rows recs"
    and "list_all (\<lambda>r. \<not> row_intact sha (st_files s) r) rows"
    and "uploader_ready cfg s" and "list_all (\<lambda>r. \<not> row_intact sha (st_files s) r) (batch_rows cfg s)"
  shows "\<exists>s'. upload_rows cfg inp dev secret recs s = (Inr True, s') \<and> lost_effect cfg s s' \<and> uploader_ready cfg s'
    \<and> list_all (\<lambda>r. \<not> row_intact sha (st_files s') r) (batch_rows cfg s')"
  using assms(2-5)
proof (induction rows recs arbitrary: s rule: list_all2_induct)
  case Nil
  then show ?case by (simp add: lost_effect_def)
next
  case (Cons row rows x xs)
  have row: "\<not> row_intact sha (st_files s) row" using Cons.prems(1) by simp
  obtain reason where one: "upload_one cfg inp dev secret x s = attempt_failed inp (so_event_id x) reason True s"
    using upload_one_lost [where cfg = cfg and dev = dev and secret = secret, OF assms(1) Cons.hyps(1) row] by blast
  obtain k where k: "ui_clock inp (so_event_id x) = Aware k" using assms(1) by (auto simp: upload_quiet_def)
  let ?f = "failed_row (IsoUtc k) (upload_reason_value reason)"
  define t where "t = s\<lparr>st_snapshots := update_rows (has_id (so_event_id x)) ?f (st_snapshots s)\<rparr>"
  have one': "upload_one cfg inp dev secret x s = (Inr True, t)"
    using one attempt_failed_Inr [OF _ k, of reason True s] assms(1) by (simp add: t_def upload_quiet_def)
  have rows_t: "batch_rows cfg t = update_rows (has_id (so_event_id x)) ?f (batch_rows cfg s)"
    and ready: "uploader_ready cfg t"
    using failed_keeps_ready [OF Cons.prems(2)] by (simp_all add: t_def)
  have st: "lost_effect cfg s t"
    using attempt_failed_view [of inp "so_event_id x" reason True s] rows_t
    unfolding one [symmetric] one' by (simp add: lost_effect_def map_update_rows)
  have lost: "list_all (\<lambda>r. \<not> row_intact sha (st_files t) r) (batch_rows cfg t)"
    using Cons.prems(3) st by (auto simp: rows_t lost_effect_def list_all_iff set_update_rows)
  have "list_all (\<lambda>r. \<not> row_intact sha (st_files t) r) rows"
    using Cons.prems(1) st by (simp add: lost_effect_def)
  from Cons.IH [OF this ready lost] obtain s' where s':
    "upload_rows cfg inp dev secret xs t = (Inr True, s')" "lost_effect cfg t s'" "uploader_ready cfg s'"
    "list_all (\<lambda>r. \<not> row_intact sha (st_files s') r) (batch_rows cfg s')" by blast
  moreover have "lost_effect cfg s s'" using st s'(2) by (simp add: lost_effect_def)
  ultimately show ?case using one' by simp
qed

lemma drain_lost:
  assumes "upload_quiet sha inp" and "lost_batch cfg sha (wk_world w)"
  shows "\<exists>s'. drain_uploads cfg inp w = (Inr False, reset_backoff (w\<lparr>wk_world := s'\<rparr>))
    \<and> lost_effect cfg (wk_world w) s' \<and> lost_batch cfg sha s'"
proof -
  let ?s = "wk_world w"
  have ready: "uploader_ready cfg ?s" and len: "int (length (batch_rows cfg ?s)) = tn_batch_size (uc_tuning cfg)"
    and lost: "list_all (\<lambda>r. \<not> row_intact sha (st_files ?s) r) (batch_rows cfg ?s)"
    using assms(2) by (simp_all add: lost_batch_def)
  have "batch_rows cfg ?s \<noteq> []" using len ready by (auto simp: uploader_ready_def)
  then obtain dev secret recs where plan: "plan_upload cfg inp ?s = Inr (Some (dev, secret, recs))"
    and same: "list_all2 same_row (batch_rows cfg ?s) recs"
    by (rule uploader_plan [OF ready assms(1)])
  obtain s' where s': "upload_rows cfg inp dev secret recs ?s = (Inr True, s')" "lost_effect cfg ?s s'"
    "uploader_ready cfg s'" "list_all (\<lambda>r. \<not> row_intact sha (st_files s') r) (batch_rows cfg s')"
    using upload_rows_lost [OF assms(1) same lost ready lost] by blast
  have "length (batch_rows cfg s') = length (batch_rows cfg ?s)"
    using s'(2) by (metis lost_effect_def length_map)
  with s' len plan list_all2_lengthD [OF same] show ?thesis
    by (intro exI [of _ s']) (simp add: drain_uploads_def lost_batch_def)
qed

text \<open>
  A full batch of lost files stops all uploads: when the \<open>batch_size\<close> oldest ready rows have a
  missing or altered file, every iteration records the same failed attempts again and starts over
  at once.  After any number of iterations the worker has not slept, no row has changed its
  capture, upload or alert column, no file was touched, and the next batch is the same rows, so
  the rows behind them are never tried.  The docstring has it that a local storage problem never
  blocks a later row.
\<close>

theorem lost_files_spin:
  assumes "upload_quiet sha inp" and "lost_batch cfg sha (wk_world w)"
  shows "\<exists>w'. run_loop (uc_tuning cfg) (drain_uploads cfg) (replicate n (jitter, inp)) w = Running w'
    \<and> wk_slept w' = wk_slept w \<and> st_files (wk_world w') = st_files (wk_world w)
    \<and> snapshot_view (st_snapshots (wk_world w')) = snapshot_view (st_snapshots (wk_world w))
    \<and> map sr_event_id (batch_rows cfg (wk_world w')) = map sr_event_id (batch_rows cfg (wk_world w))"
  using assms(2)
proof (induction n arbitrary: w)
  case 0
  then show ?case by simp
next
  case (Suc n)
  obtain s' where d: "drain_uploads cfg inp w = (Inr False, reset_backoff (w\<lparr>wk_world := s'\<rparr>))"
    "lost_effect cfg (wk_world w) s'" "lost_batch cfg sha s'"
    using drain_lost [OF assms(1) Suc.prems] by blast
  let ?v = "reset_backoff (w\<lparr>wk_world := s'\<rparr>)"
  have v: "wk_world ?v = s'" "wk_slept ?v = wk_slept w" by (simp_all add: reset_backoff_def)
  have "run_iteration (uc_tuning cfg) jitter (drain_uploads cfg inp) w = Running ?v"
    using d(1) by (simp add: run_iteration_def)
  then show ?case using Suc.IH [of ?v] d(2,3) v by (auto simp: lost_effect_def)
qed

theorem lost_files_spin_witness:
  "\<exists>w'. run_loop demo_tuning (drain_uploads demo_upload_config)
      (replicate 9 (Fin 0, demo_upload_input demo_accepted)) (demo_uploader None) = Running w' \<and> wk_slept w' = []"
proof -
  have "upload_quiet (\<lambda>c. if c = [1, 2] then ''ab'' else ''cd'') (demo_upload_input demo_accepted)"
    by (simp add: upload_quiet_def demo_upload_input_def)
  moreover have "lost_batch demo_upload_config (\<lambda>c. if c = [1, 2] then ''ab'' else ''cd'') (wk_world (demo_uploader None))"
    using demo_uploader_ready [of None] demo_batch_rows [of None]
    by (simp add: lost_batch_def demo_uploader_def)
       (simp add: row_intact_def demo_upload_store_def demo_upload_config_def demo_tuning_def)
  ultimately have "\<exists>w'. run_loop (uc_tuning demo_upload_config) (drain_uploads demo_upload_config)
      (replicate 9 (Fin 0, demo_upload_input demo_accepted)) (demo_uploader None) = Running w'
      \<and> wk_slept w' = wk_slept (demo_uploader None)"
    using lost_files_spin by blast
  then show ?thesis by (simp add: demo_upload_config_def demo_uploader_def)
qed

end
