(* ===== verification/Evidence.thy ===== *)
theory Evidence
  imports IngestFlow UploadLoop
begin

text \<open>
  The life of a snapshot across the components: captured by the ingest handler, matched with the
  Backend's alert by the sync worker, uploaded by the upload worker.
\<close>

section \<open>Capture\<close>

definition snapshot_path :: "ingest_config \<Rightarrow> uuid \<Rightarrow> string" where
  "snapshot_path cfg u = spool_entry (ic_spool_path cfg) (snapshot_name u)"

definition over_quota :: "ingest_config \<Rightarrow> consume_input \<Rightarrow> bytes \<Rightarrow> ingest \<Rightarrow> bool" where
  "over_quota cfg inp data s \<longleftrightarrow>
     spool_usage_bytes (ic_spool_path cfg) (ci_is_dir inp) (ci_entries inp) (ci_stat_fails inp) (st_files (ih_store s))
       + int (length data) > ic_max_spool_bytes cfg"

lemma validate_snapshot_Inr:
  "validate_snapshot_bytes data m = Inr (w, h) \<longleftrightarrow>
     data \<noteq> [] \<and> int (length data) \<le> m \<and> take 3 data = JPEG_MAGIC \<and> parse_jpeg_dimensions data = Some (w, h)
     \<and> 0 < w \<and> 0 < h"
  by (auto simp: validate_snapshot_bytes_def outcome_simps split: option.splits prod.splits if_splits)

lemma validate_snapshot_Inl: "validate_snapshot_bytes data m = Inl e \<Longrightarrow> \<exists>x. e = SnapshotValidationError x"
  by (auto simp: validate_snapshot_bytes_def outcome_simps split: option.split_asm prod.split_asm if_split_asm)

text \<open>The path on which the snapshot is written: everything before the write has succeeded.\<close>

lemma process_snapshot_writes:
  assumes "ic_snapshot_capture_enabled cfg" and "uuid_of_text cfg content = Inr u"
    and "\<not> over_quota cfg inp data s" and "validate_snapshot_bytes data (ic_max_file_bytes cfg) = Inr wh"
    and "write_snapshot_atomic (ci_write inp) (ic_spool_path cfg) (ci_fresh_hex inp) u data (st_files (ih_store s))
         = (Inr path, steps)"
  shows "\<exists>r. process_snapshot cfg inp content data s
    = (r, s\<lparr>ih_store := (ih_store s)\<lparr>st_files := hd steps,
          st_snapshots := snd (create_captured (ci_insert_fault inp) (ci_read_fault inp) (ci_created_at inp)
              (st_events (ih_store s)) u path CONTENT_TYPE_JPEG (int (length data)) (ic_sha256 cfg data)
              (st_snapshots (ih_store s)))\<rparr>\<rparr>)"
  using assms by (simp add: process_snapshot_def over_quota_def Let_def split: prod.split)

lemma process_snapshot_cases:
  assumes "process_snapshot cfg inp content data s = (r, s')"
  obtains (skipped) "st_snapshots (ih_store s') = st_snapshots (ih_store s)" "st_files (ih_store s') = st_files (ih_store s)"
  | (not_written) u e steps where "st_snapshots (ih_store s') = st_snapshots (ih_store s)"
      "write_snapshot_atomic (ci_write inp) (ic_spool_path cfg) (ci_fresh_hex inp) u data (st_files (ih_store s)) = (Inl e, steps)"
      "st_files (ih_store s') = hd steps"
  | (written) u wh path steps where "uuid_of_text cfg content = Inr u" "\<not> over_quota cfg inp data s"
      "validate_snapshot_bytes data (ic_max_file_bytes cfg) = Inr wh"
      "write_snapshot_atomic (ci_write inp) (ic_spool_path cfg) (ci_fresh_hex inp) u data (st_files (ih_store s)) = (Inr path, steps)"
      "st_files (ih_store s') = hd steps"
      "st_snapshots (ih_store s') = snd (create_captured (ci_insert_fault inp) (ci_read_fault inp) (ci_created_at inp)
              (st_events (ih_store s)) u path CONTENT_TYPE_JPEG (int (length data)) (ic_sha256 cfg data)
              (st_snapshots (ih_store s)))"
proof (cases "ic_snapshot_capture_enabled cfg")
  case False
  then have "s' = s" using assms by (simp add: process_snapshot_def)
  then show ?thesis by (intro skipped) simp_all
next
  case enabled: True
  show ?thesis
  proof (cases "uuid_of_text cfg content")
    case (Inl e)
    then have "s' = s" using assms enabled by (simp add: process_snapshot_def)
    then show ?thesis by (intro skipped) simp_all
  next
    case (Inr u)
    show ?thesis
    proof (cases "over_quota cfg inp data s")
      case True
      then have "s' = s\<lparr>ih_skipped := Suc (ih_skipped s)\<rparr>"
        using assms enabled Inr by (simp add: process_snapshot_def over_quota_def Let_def)
      then show ?thesis by (intro skipped) simp_all
    next
      case quota: False
      show ?thesis
      proof (cases "validate_snapshot_bytes data (ic_max_file_bytes cfg)")
        case (Inl e)
        then obtain x where "e = SnapshotValidationError x" using validate_snapshot_Inl by blast
        then have "s' = s"
          using assms enabled Inr quota Inl by (simp add: process_snapshot_def over_quota_def Let_def)
        then show ?thesis by (intro skipped) simp_all
      next
        case valid: (Inr wh)
        obtain x steps where w: "write_snapshot_atomic (ci_write inp) (ic_spool_path cfg) (ci_fresh_hex inp) u data
            (st_files (ih_store s)) = (x, steps)"
          by (cases "write_snapshot_atomic (ci_write inp) (ic_spool_path cfg) (ci_fresh_hex inp) u data (st_files (ih_store s))")
        show ?thesis
        proof (cases x)
          case (Inl e)
          then have "s' = s\<lparr>ih_store := (ih_store s)\<lparr>st_files := hd steps\<rparr>\<rparr>"
            using assms enabled Inr quota valid w by (simp add: process_snapshot_def over_quota_def Let_def)
          with w Inl show ?thesis by (intro not_written [of u e steps]) simp_all
        next
          case ok: (Inr path)
          from process_snapshot_writes [OF enabled Inr quota valid w [unfolded ok]] assms
          have "s' = s\<lparr>ih_store := (ih_store s)\<lparr>st_files := hd steps,
              st_snapshots := snd (create_captured (ci_insert_fault inp) (ci_read_fault inp) (ci_created_at inp)
                (st_events (ih_store s)) u path CONTENT_TYPE_JPEG (int (length data)) (ic_sha256 cfg data)
                (st_snapshots (ih_store s)))\<rparr>\<rparr>" by auto
          with Inr quota valid w ok show ?thesis by (intro written [of u wh path steps]) simp_all
        qed
      qed
    qed
  qed
qed

text \<open>
  C36.  A captured snapshot is intact evidence: when processing a snapshot adds a row to the outbox,
  the event it names is stored, the bytes are a JPEG of positive dimensions within the size limit,
  and the row's path holds exactly those bytes, with the size and the digest the row records, so
  the upload worker's check of the file succeeds.
\<close>

theorem captured_snapshot_intact:
  assumes "process_snapshot cfg inp content data s = (r, s')"
    and "st_snapshots (ih_store s') \<noteq> st_snapshots (ih_store s)"
  shows "\<exists>u w h captured. uuid_of_text cfg content = Inr u
    \<and> validate_snapshot_bytes data (ic_max_file_bytes cfg) = Inr (w, h) \<and> 0 < w \<and> 0 < h
    \<and> event_status (st_events (ih_store s')) u \<noteq> None
    \<and> st_snapshots (ih_store s') = st_snapshots (ih_store s)
        @ [new_snapshot_row u (snapshot_path cfg u) CONTENT_TYPE_JPEG (int (length data)) (ic_sha256 cfg data) captured]
    \<and> row_intact (ic_sha256 cfg) (st_files (ih_store s'))
        (new_snapshot_row u (snapshot_path cfg u) CONTENT_TYPE_JPEG (int (length data)) (ic_sha256 cfg data) captured)"
  using assms(1)
proof (cases rule: process_snapshot_cases)
  case (written u wh path steps)
  obtain w h where wh: "wh = (w, h)" by (cases wh)
  have p: "path = snapshot_path cfg u" "hd steps (snapshot_path cfg u) = Some data"
    using write_snapshot_effect [OF written(4)] by (auto simp: snapshot_path_def)
  obtain captured where row: "st_snapshots (ih_store s') = st_snapshots (ih_store s)
        @ [new_snapshot_row u path CONTENT_TYPE_JPEG (int (length data)) (ic_sha256 cfg data) captured]"
    and e: "\<exists>e \<in> set (st_events (ih_store s)). er_event_id e = str_uuid u"
    using assms(2) written(6) unfolding create_captured_snd by (auto split: if_split_asm)
  have "event_status (st_events (ih_store s')) u \<noteq> None"
    using e process_snapshot_fields [OF assms(1)] by (auto simp: event_status_def find_row_None)
  moreover have "row_intact (ic_sha256 cfg) (st_files (ih_store s'))
      (new_snapshot_row u path CONTENT_TYPE_JPEG (int (length data)) (ic_sha256 cfg data) captured)"
    using p written(5) by (simp add: row_intact_def new_snapshot_row_def)
  ultimately show ?thesis
    using written(1,3) row p(1) wh by (auto simp: validate_snapshot_Inr)
qed (use assms(2) in simp_all)

text \<open>The demo snapshot: an 8 by 16 image for the demo event.\<close>

definition demo_jpeg :: bytes where
  "demo_jpeg = [0xFF, 0xD8, 0xFF, 0xC0, 0, 11, 8, 0, 16, 0, 8, 1]"

definition demo_event_text :: utext where
  "demo_event_text = map of_char (str_uuid 5)"

lemma demo_jpeg_valid: "validate_snapshot_bytes demo_jpeg 100 = Inr (8, 16)"
proof -
  have "parse_jpeg_dimensions ([0xFF, 0xD8] @ concat (map jpeg_bytes []) @ frame_header 0xC0 11 8 16 8 @ [1]) = Some (8, 16)"
  proof -
    have "jpeg_scan ([0xFF, 0xD8] @ frame_header 0xC0 11 8 16 8 @ [1]) (length [0xFF, 0xD8 :: 8 word]) = Some (8, 16)"
      by (rule jpeg_scan_frame) (simp_all add: SOF_MARKERS_def)
    then show ?thesis by (simp add: parse_jpeg_dimensions_def numeral_2_eq_2 frame_header_def)
  qed
  moreover have "[0xFF, 0xD8] @ concat (map jpeg_bytes []) @ frame_header 0xC0 11 8 16 8 @ [1] = demo_jpeg" by code_simp
  moreover have "take 3 demo_jpeg = JPEG_MAGIC" by code_simp
  ultimately show ?thesis by (simp add: validate_snapshot_Inr) (simp add: demo_jpeg_def)
qed

lemma demo_uuid_text: "uuid_of_text (demo_ingest_config cls) demo_event_text = Inr 5"
proof -
  have "list_all (\<lambda>c. c < 256) demo_event_text"
    by (auto simp: demo_event_text_def list_all_iff)
  moreover have "map char_of demo_event_text = str_uuid 5" by (simp add: demo_event_text_def comp_def)
  ultimately show ?thesis by (simp add: uuid_of_text_def parse_str_uuid)
qed

definition demo_ingest_stored :: "snapshot_row list \<Rightarrow> ingest" where
  "demo_ingest_stored rows = demo_ingest\<lparr>ih_store := (ih_store demo_ingest)\<lparr>st_events := [demo_row DS_DELIVERED], st_snapshots := rows\<rparr>\<rparr>"

lemma demo_write:
  "write_snapshot_atomic (ci_write demo_consume_input) (ic_spool_path (demo_ingest_config cls)) (ci_fresh_hex demo_consume_input) 5
     demo_jpeg (st_files (ih_store (demo_ingest_stored rows)))
   = (Inr (snapshot_path (demo_ingest_config cls) 5),
      snd (write_snapshot_atomic (ci_write demo_consume_input) (ic_spool_path (demo_ingest_config cls)) (ci_fresh_hex demo_consume_input) 5
        demo_jpeg (st_files (ih_store (demo_ingest_stored rows)))))"
  by (simp add: write_snapshot_atomic_def demo_consume_input_def snapshot_path_def Let_def)

lemma demo_under_quota: "\<not> over_quota (demo_ingest_config cls) demo_consume_input demo_jpeg s"
  by (simp add: over_quota_def spool_usage_bytes_def demo_consume_input_def demo_ingest_config_def demo_jpeg_def)

lemma demo_enabled: "ic_snapshot_capture_enabled (demo_ingest_config cls)" "ic_max_file_bytes (demo_ingest_config cls) = 100"
  by (simp_all add: demo_ingest_config_def)

lemma demo_stored_tables:
  "st_snapshots (ih_store (demo_ingest_stored rows)) = rows" "st_events (ih_store (demo_ingest_stored rows)) = [demo_row DS_DELIVERED]"
  "er_event_id (demo_row DS_DELIVERED) = str_uuid 5"
  by (simp_all add: demo_ingest_stored_def demo_row_def demo_event_def)

theorem captured_snapshot_intact_witness:
  "\<exists>s' captured. snd (process_snapshot (demo_ingest_config ''gun'') demo_consume_input demo_event_text demo_jpeg
       (demo_ingest_stored [])) = s'
     \<and> row_intact (ic_sha256 (demo_ingest_config ''gun'')) (st_files (ih_store s'))
        (new_snapshot_row 5 (snapshot_path (demo_ingest_config ''gun'') 5) CONTENT_TYPE_JPEG (int (length demo_jpeg))
          (ic_sha256 (demo_ingest_config ''gun'') demo_jpeg) captured)"
proof -
  let ?cfg = "demo_ingest_config ''gun''"
  have v: "validate_snapshot_bytes demo_jpeg (ic_max_file_bytes ?cfg) = Inr (8, 16)"
    using demo_jpeg_valid by (simp add: demo_enabled)
  obtain r s' where p: "process_snapshot ?cfg demo_consume_input demo_event_text demo_jpeg (demo_ingest_stored []) = (r, s')"
    by (cases "process_snapshot ?cfg demo_consume_input demo_event_text demo_jpeg (demo_ingest_stored [])")
  have "st_snapshots (ih_store s') = snd (create_captured (ci_insert_fault demo_consume_input)
      (ci_read_fault demo_consume_input) (ci_created_at demo_consume_input) [demo_row DS_DELIVERED] 5
      (snapshot_path ?cfg 5) CONTENT_TYPE_JPEG (int (length demo_jpeg)) (ic_sha256 ?cfg demo_jpeg) [])"
    using process_snapshot_writes [OF demo_enabled(1) demo_uuid_text demo_under_quota v demo_write [of "''gun''" "[]"]] p
    by (auto simp: demo_stored_tables)
  moreover have "ci_insert_fault demo_consume_input = None" "ci_created_at demo_consume_input = Aware 9"
    "sqlite_int (int (length demo_jpeg))"
    by (simp_all add: demo_consume_input_def sqlite_int_def demo_jpeg_def)
  ultimately have "st_snapshots (ih_store s') \<noteq> []"
    by (simp add: create_captured_snd demo_stored_tables)
  then have ne: "st_snapshots (ih_store s') \<noteq> st_snapshots (ih_store (demo_ingest_stored []))"
    by (simp add: demo_stored_tables)
  from captured_snapshot_intact [OF p ne] p demo_uuid_text [of "''gun''"] show ?thesis by auto
qed

section \<open>A second snapshot for the same event\<close>

text \<open>
  A second snapshot frame for an event destroys its evidence: the file is overwritten before
  the outbox refuses the duplicate row, so when the bytes differ the row keeps the digest of the
  first image over the content of the second.  The comment calls this harmless because the bytes
  were identical, which nothing checks; the upload worker then finds \<^verbatim>\<open>local_file_modified\<close> for good.
\<close>

theorem second_snapshot_breaks_evidence:
  assumes "ic_snapshot_capture_enabled cfg" and "uuid_of_text cfg content = Inr u"
    and "\<not> over_quota cfg inp data s" and "validate_snapshot_bytes data (ic_max_file_bytes cfg) = Inr wh"
    and "write_snapshot_atomic (ci_write inp) (ic_spool_path cfg) (ci_fresh_hex inp) u data (st_files (ih_store s))
         = (Inr path, steps)"
    and "find_row (has_id u) (st_snapshots (ih_store s)) = Some row"
    and "sr_local_path row = snapshot_path cfg u" and "ic_sha256 cfg data \<noteq> sr_sha256 row"
  shows "\<exists>r s'. process_snapshot cfg inp content data s = (r, s')
    \<and> st_snapshots (ih_store s') = st_snapshots (ih_store s)
    \<and> st_files (ih_store s') (sr_local_path row) = Some data
    \<and> \<not> row_intact (ic_sha256 cfg) (st_files (ih_store s')) row"
proof -
  have p: "path = snapshot_path cfg u" "hd steps (snapshot_path cfg u) = Some data"
    using write_snapshot_effect [OF assms(5)] by (auto simp: snapshot_path_def)
  have "\<not> (\<forall>r \<in> set (st_snapshots (ih_store s)). \<not> has_id u r)"
    using find_row_SomeD [OF assms(6)] by blast
  then have "snd (create_captured (ci_insert_fault inp) (ci_read_fault inp) (ci_created_at inp)
      (st_events (ih_store s)) u path CONTENT_TYPE_JPEG (int (length data)) (ic_sha256 cfg data)
      (st_snapshots (ih_store s))) = st_snapshots (ih_store s)"
    unfolding create_captured_snd by auto
  with process_snapshot_writes [OF assms(1-5)] p assms(7,8) show ?thesis
    by (fastforce simp: row_intact_def)
qed

definition demo_first :: snapshot_row where
  "demo_first = new_snapshot_row 5 (snapshot_path (demo_ingest_config ''gun'') 5) ''image/jpeg'' 2 ''ab'' (IsoUtc 3)"

theorem second_snapshot_breaks_evidence_witness:
  "\<exists>r s'. process_snapshot (demo_ingest_config ''gun'') demo_consume_input demo_event_text demo_jpeg
      (demo_ingest_stored [demo_first]) = (r, s')
    \<and> \<not> row_intact (ic_sha256 (demo_ingest_config ''gun'')) (st_files (ih_store s')) demo_first"
proof -
  let ?cfg = "demo_ingest_config ''gun''"
  have v: "validate_snapshot_bytes demo_jpeg (ic_max_file_bytes ?cfg) = Inr (8, 16)"
    using demo_jpeg_valid by (simp add: demo_enabled)
  have f: "find_row (has_id 5) (st_snapshots (ih_store (demo_ingest_stored [demo_first]))) = Some demo_first"
    by (simp add: demo_stored_tables find_row_def has_id_def demo_first_def new_snapshot_row_def)
  have l: "sr_local_path demo_first = snapshot_path ?cfg 5" "ic_sha256 ?cfg demo_jpeg \<noteq> sr_sha256 demo_first"
    by (simp_all add: demo_first_def new_snapshot_row_def) (simp add: demo_ingest_config_def demo_jpeg_def)
  from second_snapshot_breaks_evidence [OF demo_enabled(1) demo_uuid_text demo_under_quota v demo_write f l]
  show ?thesis by blast
qed

end
