(* ===== verification/DeviceConfig.thy ===== *)
theory DeviceConfig
  imports Models
begin

text \<open>
  \<^verbatim>\<open>configuration/models.py\<close>, \<^verbatim>\<open>configuration/validation.py\<close>, \<^verbatim>\<open>configuration/serialization.py\<close> and
  \<^verbatim>\<open>configuration/source_mapping.py\<close>: the camera configuration of a device, the rules it must
  satisfy, its cached form and the mapping from source ids to cameras.

  The dataclasses do not check their fields, and a cached configuration is built from whatever the
  cache holds, so a field that no code checks is a JSON value here, and an operation on it raises
  what Python raises for a value of another type.
\<close>

abbreviation KeyError :: exn where "KeyError \<equiv> OtherException ''KeyError''"
abbreviation AttributeError :: exn where "AttributeError \<equiv> OtherException ''AttributeError''"

section \<open>Values of an unknown type\<close>

text \<open>\<^verbatim>\<open>d[key]\<close>, \<^verbatim>\<open>UUID(v)\<close> and the numeric value of an int, bool or float.\<close>

definition jitem :: "json_obj \<Rightarrow> string \<Rightarrow> exn + json" where
  "jitem d k = (case jget d k of None \<Rightarrow> Inl KeyError | Some v \<Rightarrow> Inr v)"

definition uuid_of_json :: "json \<Rightarrow> exn + uuid" where
  "uuid_of_json v =
     (case v of JStr s \<Rightarrow> parse_uuid s | JNull \<Rightarrow> Inl TypeError | _ \<Rightarrow> Inl AttributeError)"

fun number_of :: "json \<Rightarrow> pyfloat option" where
  "number_of (JInt n) = Some (fl_exact n)"
| "number_of (JBool b) = Some (fl_exact (if b then 1 else 0))"
| "number_of (JFloat x) = Some x"
| "number_of _ = None"

definition number_eq :: "pyfloat \<Rightarrow> pyfloat \<Rightarrow> bool" where
  "number_eq x y \<longleftrightarrow> x \<noteq> NaN \<and> x = y"

section \<open>configuration/models.py\<close>

record device_camera =
  dc_camera_id :: uuid
  dc_camera_key :: string
  dc_name :: json
  dc_stream_url :: json
  dc_enabled :: json
  dc_source_order :: json
  dc_output_path :: json

record device_configuration =
  cf_schema_version :: json
  cf_configuration_version :: json
  cf_device_id :: uuid
  cf_branch_id :: uuid
  cf_generated_at_utc :: datetime
  cf_cameras :: "device_camera list"

section \<open>configuration/validation.py\<close>

text \<open>
  \<^verbatim>\<open>re.match(r"^[a-z0-9](?:[a-z0-9-]{1,62}[a-z0-9])$", s)\<close>: the final \<^verbatim>\<open>$\<close> also matches before a
  newline at the very end.
\<close>

definition key_char :: "char \<Rightarrow> bool" where
  "key_char c \<longleftrightarrow> c \<in> set ''abcdefghijklmnopqrstuvwxyz0123456789''"

definition key_body :: "string \<Rightarrow> bool" where
  "key_body s \<longleftrightarrow> 3 \<le> length s \<and> length s \<le> 64 \<and> key_char (hd s) \<and> key_char (last s)
     \<and> list_all (\<lambda>c. key_char c \<or> c = CHR ''-'') s"

definition match_camera_key :: "string \<Rightarrow> bool" where
  "match_camera_key s \<longleftrightarrow> key_body s \<or> (s \<noteq> [] \<and> last s = CHR 0x0A \<and> key_body (butlast s))"

definition validate_camera_key :: "device_camera \<Rightarrow> exn + unit" where
  "validate_camera_key c =
     (if dc_camera_key c = [] then Inl (ConfigurationValidationError ''empty_camera_key'')
      else if \<not> match_camera_key (dc_camera_key c) then Inl (ConfigurationValidationError ''invalid_camera_key'')
      else Inr ())"

text \<open>
  The part of \<^verbatim>\<open>urllib.parse.urlsplit\<close> that decides the scheme and the authority.  \<open>bad_netloc\<close>
  stands for the checks of the authority that depend on the version of the interpreter (bracketed
  hosts, Unicode normalisation), which raise \<^verbatim>\<open>ValueError\<close>.
\<close>

definition ascii_lower :: "char \<Rightarrow> char" where
  "ascii_lower c = (let n = of_char c :: nat in if 65 \<le> n \<and> n \<le> 90 then char_of (n + 32) else c)"

definition ascii_letter :: "char \<Rightarrow> bool" where
  "ascii_letter c \<longleftrightarrow> ascii_lower c \<in> set ''abcdefghijklmnopqrstuvwxyz''"

definition scheme_char :: "char \<Rightarrow> bool" where
  "scheme_char c \<longleftrightarrow> ascii_letter c \<or> c \<in> set ''0123456789+-.''"

definition split_scheme :: "string \<Rightarrow> string \<times> string" where
  "split_scheme u =
     (let s = takeWhile (\<lambda>c. c \<noteq> CHR '':'') u
      in if s \<noteq> [] \<and> length s < length u \<and> ascii_letter (hd s) \<and> list_all scheme_char s
         then (map ascii_lower s, drop (Suc (length s)) u) else ([], u))"

definition urlsplit :: "(string \<Rightarrow> bool) \<Rightarrow> string \<Rightarrow> exn + string \<times> string" where
  "urlsplit bad_netloc url =
     (let u = filter (\<lambda>c. c \<noteq> CHR 0x09 \<and> c \<noteq> CHR 0x0D \<and> c \<noteq> CHR 0x0A)
                (dropWhile (\<lambda>c. of_char c \<le> (32 :: nat)) url);
          (scheme, rest) = split_scheme u;
          netloc = (if starts_with ''//'' rest
                    then takeWhile (\<lambda>c. c \<notin> set ''/?#'') (drop 2 rest) else [])
      in if (CHR ''['' \<in> set netloc) \<noteq> (CHR '']'' \<in> set netloc) \<or> bad_netloc netloc then Inl ValueError
         else Inr (scheme, netloc))"

definition validate_stream_url :: "(string \<Rightarrow> bool) \<Rightarrow> device_camera \<Rightarrow> exn + unit" where
  "validate_stream_url bad_netloc c =
     (if \<not> truthy (dc_stream_url c) then Inl (ConfigurationValidationError ''empty_stream_url'')
      else case as_str (dc_stream_url c) of
        None \<Rightarrow> Inl AttributeError
      | Some url \<Rightarrow>
          bind_result (urlsplit bad_netloc url) (\<lambda>(scheme, netloc).
            if scheme \<notin> {''rtsp'', ''rtsps''} then Inl (ConfigurationValidationError ''unapproved_url_scheme'')
            else if netloc = [] then Inl (ConfigurationValidationError ''stream_url_not_absolute'')
            else Inr ()))"

definition contains :: "string \<Rightarrow> string \<Rightarrow> bool" where
  "contains pat s \<longleftrightarrow> list_ex (\<lambda>k. starts_with pat (drop k s)) [0..<Suc (length s)]"

definition FORBIDDEN_OUTPUT_PATH_SUBSTRINGS :: "string list" where
  "FORBIDDEN_OUTPUT_PATH_SUBSTRINGS = [''..'', ''://'', [CHR 0x5C], ''?'', ''#'', ''//'']"

definition control_char :: "char \<Rightarrow> bool" where
  "control_char c \<longleftrightarrow> of_char c < (32 :: nat) \<or> c = CHR 0x7F"

text \<open>\<^verbatim>\<open>len(v)\<close> and \<^verbatim>\<open>v.startswith\<close> of a truthy value that is not a string raise.\<close>

definition not_a_path :: "json \<Rightarrow> exn" where
  "not_a_path v =
     (case v of
        JArr xs \<Rightarrow> if 512 < length xs then ConfigurationValidationError ''output_path_too_long'' else AttributeError
      | JObj d \<Rightarrow> if 512 < length d then ConfigurationValidationError ''output_path_too_long'' else AttributeError
      | _ \<Rightarrow> TypeError)"

definition OUTPUT_PATH_PREFIX :: string where
  "OUTPUT_PATH_PREFIX = ''cameras/''"

definition validate_output_path :: "device_camera \<Rightarrow> exn + unit" where
  "validate_output_path c =
     (if \<not> truthy (dc_output_path c) then Inl (ConfigurationValidationError ''empty_output_path'')
      else case as_str (dc_output_path c) of
        None \<Rightarrow> Inl (not_a_path (dc_output_path c))
      | Some p \<Rightarrow>
          if 512 < length p then Inl (ConfigurationValidationError ''output_path_too_long'')
          else if starts_with ''/'' p then Inl (ConfigurationValidationError ''output_path_not_relative'')
          else if list_ex (\<lambda>t. contains t p) FORBIDDEN_OUTPUT_PATH_SUBSTRINGS
          then Inl (ConfigurationValidationError ''unsafe_output_path'')
          else if list_ex control_char p
          then Inl (ConfigurationValidationError ''unsafe_output_path'')
          else if p \<noteq> OUTPUT_PATH_PREFIX @ dc_camera_key c
          then Inl (ConfigurationValidationError ''output_path_camera_key_mismatch'')
          else Inr ())"

text \<open>\<^verbatim>\<open>camera.source_order < 0\<close> and the membership test in the set of orders seen.\<close>

definition check_source_order :: "pyfloat list \<Rightarrow> json \<Rightarrow> exn + pyfloat" where
  "check_source_order seen v =
     (case number_of v of
        None \<Rightarrow> Inl TypeError
      | Some x \<Rightarrow>
          if fl_less x (Fin 0) then Inl (ConfigurationValidationError ''negative_source_order'')
          else if list_ex (number_eq x) seen then Inl (ConfigurationValidationError ''duplicate_source_order'')
          else Inr x)"

fun validate_cameras :: "(string \<Rightarrow> bool) \<Rightarrow> uuid list \<Rightarrow> string list \<Rightarrow> pyfloat list \<Rightarrow> json list
    \<Rightarrow> device_camera list \<Rightarrow> exn + unit" where
  "validate_cameras bad ids keys orders paths [] = Inr ()"
| "validate_cameras bad ids keys orders paths (c # cs) =
     (if dc_camera_id c \<in> set ids then Inl (ConfigurationValidationError ''duplicate_camera_id'')
      else bind_result (validate_camera_key c) (\<lambda>_.
        if dc_camera_key c \<in> set keys then Inl (ConfigurationValidationError ''duplicate_camera_key'')
        else bind_result (check_source_order orders (dc_source_order c)) (\<lambda>x.
          bind_result (validate_stream_url bad c) (\<lambda>_.
          bind_result (validate_output_path c) (\<lambda>_.
            if dc_output_path c \<in> set paths then Inl (ConfigurationValidationError ''duplicate_output_path'')
            else validate_cameras bad (dc_camera_id c # ids) (dc_camera_key c # keys) (x # orders)
                   (dc_output_path c # paths) cs)))))"

definition validate_configuration :: "(string \<Rightarrow> bool) \<Rightarrow> uuid \<Rightarrow> int \<Rightarrow> device_configuration \<Rightarrow> exn + unit" where
  "validate_configuration bad_netloc expected_device_id max_cameras cf =
     (if \<not> py_eq_int (cf_schema_version cf) 1
      then Inl (ConfigurationValidationError ''unsupported_schema_version'')
      else if cf_device_id cf \<noteq> expected_device_id then Inl (ConfigurationValidationError ''device_id_mismatch'')
      else if cf_branch_id cf = 0 then Inl (ConfigurationValidationError ''missing_branch_id'')
      else if \<not> truthy (cf_configuration_version cf)
      then Inl (ConfigurationValidationError ''missing_configuration_version'')
      else if int (length (cf_cameras cf)) > max_cameras
      then Inl (ConfigurationValidationError ''too_many_cameras'')
      else validate_cameras bad_netloc [] [] [] [] (cf_cameras cf))"

section \<open>configuration/serialization.py\<close>

text \<open>
  \<open>tl_text n\<close> is \<^verbatim>\<open>isoformat()\<close> of the instant \<open>n\<close> in UTC and \<open>tl_parse s\<close> the instant of
  \<^verbatim>\<open>datetime.fromisoformat(s.replace("Z", "+00:00")).astimezone(timezone.utc)\<close>, or the exception.
\<close>

record time_library =
  tl_text :: "int \<Rightarrow> string"
  tl_parse :: "string \<Rightarrow> exn + int"

definition camera_document :: "device_camera \<Rightarrow> json" where
  "camera_document c = JObj
     [(''cameraId'', JStr (str_uuid (dc_camera_id c))), (''cameraKey'', JStr (dc_camera_key c)),
      (''name'', dc_name c), (''streamUrl'', dc_stream_url c), (''enabled'', dc_enabled c),
      (''sourceOrder'', dc_source_order c), (''outputPath'', dc_output_path c)]"

definition serialize_configuration :: "time_library \<Rightarrow> device_configuration \<Rightarrow> exn + json_text" where
  "serialize_configuration lib cf =
     (case cf_generated_at_utc cf of
        Naive _ \<Rightarrow> Inl ValueError
      | Aware n \<Rightarrow> Inr (json_dumps (JObj
          [(''schemaVersion'', cf_schema_version cf),
           (''configurationVersion'', cf_configuration_version cf),
           (''deviceId'', JStr (str_uuid (cf_device_id cf))),
           (''branchId'', JStr (str_uuid (cf_branch_id cf))),
           (''generatedAtUtc'', JStr (tl_text lib n)),
           (''cameras'', JArr (map camera_document (cf_cameras cf))),
           (''pipelineHash'', cf_configuration_version cf)])))"

definition parse_generated_at :: "time_library \<Rightarrow> json \<Rightarrow> exn + datetime" where
  "parse_generated_at lib v =
     (case as_str v of
        None \<Rightarrow> Inl ValueError
      | Some s \<Rightarrow> bind_result (tl_parse lib s) (\<lambda>n. Inr (Aware n)))"

definition cached_camera_key :: "json_obj \<Rightarrow> exn + string" where
  "cached_camera_key d =
     (case as_str (jget_none d ''cameraKey'') of
        Some (c # cs) \<Rightarrow> Inr (c # cs)
      | _ \<Rightarrow>
          bind_result (jitem d ''outputPath'') (\<lambda>v.
          case as_str v of
            None \<Rightarrow> Inl ValueError
          | Some p \<Rightarrow>
              if \<not> starts_with ''cameras/'' p then Inl ValueError
              else if drop 8 p = [] then Inl ValueError else Inr (drop 8 p)))"

definition cached_camera :: "json \<Rightarrow> exn + device_camera" where
  "cached_camera raw =
     (case as_obj raw of
        None \<Rightarrow> Inl ValueError
      | Some d \<Rightarrow>
          bind_result (bind_result (jitem d ''cameraId'') uuid_of_json) (\<lambda>cid.
          bind_result (cached_camera_key d) (\<lambda>key.
          bind_result (jitem d ''name'') (\<lambda>name.
          bind_result (jitem d ''streamUrl'') (\<lambda>url.
          bind_result (jitem d ''enabled'') (\<lambda>enabled.
          bind_result (jitem d ''sourceOrder'') (\<lambda>order.
          bind_result (jitem d ''outputPath'') (\<lambda>path.
            Inr \<lparr>dc_camera_id = cid, dc_camera_key = key, dc_name = name, dc_stream_url = url,
                 dc_enabled = enabled, dc_source_order = order, dc_output_path = path\<rparr>))))))))"

text \<open>Iterating over a JSON value.\<close>

definition iterate :: "json \<Rightarrow> exn + json list" where
  "iterate v =
     (case v of
        JArr xs \<Rightarrow> Inr xs
      | JObj d \<Rightarrow> Inr (map (\<lambda>(k, _). JStr k) d)
      | JStr s \<Rightarrow> Inr (map (\<lambda>c. JStr [c]) s)
      | _ \<Rightarrow> Inl TypeError)"

definition cached_shape :: "time_library \<Rightarrow> json_obj \<Rightarrow> exn + device_configuration" where
  "cached_shape lib d =
     bind_result (jitem d ''schemaVersion'') (\<lambda>schema.
     bind_result (jitem d ''configurationVersion'') (\<lambda>version.
     bind_result (bind_result (jitem d ''deviceId'') uuid_of_json) (\<lambda>dev.
     bind_result (bind_result (jitem d ''branchId'') uuid_of_json) (\<lambda>branch.
     bind_result (bind_result (jitem d ''generatedAtUtc'') (parse_generated_at lib)) (\<lambda>generated.
     bind_result (bind_result (bind_result (jitem d ''cameras'') iterate) (map_result cached_camera)) (\<lambda>cams.
       Inr \<lparr>cf_schema_version = schema, cf_configuration_version = version, cf_device_id = dev,
            cf_branch_id = branch, cf_generated_at_utc = generated, cf_cameras = cams\<rparr>))))))"

text \<open>\<^verbatim>\<open>except (KeyError, TypeError, ValueError)\<close>\<close>

definition is_shape_error :: "exn \<Rightarrow> bool" where
  "is_shape_error e \<longleftrightarrow> e = KeyError \<or> e = TypeError \<or> is_value_error e"

definition deserialize_configuration :: "time_library \<Rightarrow> json_text \<Rightarrow> exn + device_configuration" where
  "deserialize_configuration lib doc =
     (case json_loads doc of
        Inl e \<Rightarrow> Inl (if e = JSONDecodeError then ValueError else e)
      | Inr v \<Rightarrow>
          (case as_obj v of
             None \<Rightarrow> Inl ValueError
           | Some d \<Rightarrow>
               (case cached_shape lib d of
                  Inl e \<Rightarrow> Inl (if is_shape_error e then ValueError else e)
                | Inr cf \<Rightarrow> Inr cf)))"

section \<open>configuration/source_mapping.py\<close>

record source_generation =
  sg_generation :: nat
  sg_source_to_camera_id :: "(json \<times> uuid) list"

text \<open>A later entry of the dictionary comprehension replaces an earlier one with an equal key.\<close>

definition resolve_source :: "source_generation \<Rightarrow> int \<Rightarrow> uuid option" where
  "resolve_source g source_id =
     map_option snd (List.find (\<lambda>(k, _). py_eq_int k source_id) (rev (sg_source_to_camera_id g)))"

record source_tracker =
  st_next_generation :: nat
  st_current :: "source_generation option"

definition new_tracker :: source_tracker where
  "new_tracker = \<lparr>st_next_generation = 1, st_current = None\<rparr>"

definition install_generation :: "device_configuration \<Rightarrow> source_tracker \<Rightarrow> source_generation \<times> source_tracker" where
  "install_generation cf t =
     (let g = \<lparr>sg_generation = st_next_generation t,
               sg_source_to_camera_id = map (\<lambda>c. (dc_source_order c, dc_camera_id c))
                 (filter (\<lambda>c. truthy (dc_enabled c)) (cf_cameras cf))\<rparr>
      in (g, t\<lparr>st_next_generation := Suc (st_next_generation t), st_current := Some g\<rparr>))"

definition resolve_camera_id :: "source_tracker \<Rightarrow> int \<Rightarrow> uuid option" where
  "resolve_camera_id t source_id =
     (case st_current t of None \<Rightarrow> None | Some g \<Rightarrow> resolve_source g source_id)"

section \<open>A validated configuration\<close>

lemma key_body_no_newline: "key_body s \<Longrightarrow> CHR 0x0A \<notin> set s"
proof
  assume k: "key_body s" and "CHR 0x0A \<in> set s"
  then have "key_char (CHR 0x0A) \<or> CHR 0x0A = CHR ''-''" unfolding key_body_def list_all_iff by blast
  then show False by (simp add: key_char_def)
qed

lemma validate_output_path_str:
  assumes "validate_output_path c = Inr ()"
  obtains p where "dc_output_path c = JStr p" "\<not> list_ex control_char p" "p = OUTPUT_PATH_PREFIX @ dc_camera_key c"
proof (cases "as_str (dc_output_path c)")
  case None
  show ?thesis
    using assms unfolding validate_output_path_def None option.case by (simp split: if_split_asm)
next
  case (Some p)
  have "\<not> list_ex control_char p \<and> p = OUTPUT_PATH_PREFIX @ dc_camera_key c"
    using assms unfolding validate_output_path_def Some option.case by (simp only: split: if_split_asm) simp_all
  moreover have "dc_output_path c = JStr p" using Some by (simp only: as_Some)
  ultimately show ?thesis by (intro that [of p]) blast+
qed

lemma validate_output_path_Inr:
  assumes "validate_output_path c = Inr ()" and "validate_camera_key c = Inr ()"
  shows "dc_output_path c = JStr (OUTPUT_PATH_PREFIX @ dc_camera_key c)" "key_body (dc_camera_key c)"
proof -
  from assms(1) obtain p where p: "dc_output_path c = JStr p" "\<not> list_ex control_char p"
    "p = OUTPUT_PATH_PREFIX @ dc_camera_key c" by (rule validate_output_path_str)
  then show "dc_output_path c = JStr (OUTPUT_PATH_PREFIX @ dc_camera_key c)" by simp
  have "control_char (CHR 0x0A)" by (simp add: control_char_def)
  with p(2,3) have nl: "CHR 0x0A \<notin> set (dc_camera_key c)" by (auto simp: list_ex_iff)
  from assms(2) have "match_camera_key (dc_camera_key c)"
    by (simp add: validate_camera_key_def split: if_split_asm)
  with nl show "key_body (dc_camera_key c)"
    unfolding match_camera_key_def by (metis last_in_set)
qed

definition stream_url_ok :: "(string \<Rightarrow> bool) \<Rightarrow> json \<Rightarrow> bool" where
  "stream_url_ok bad v \<longleftrightarrow> (\<exists>url scheme netloc. v = JStr url \<and> urlsplit bad url = Inr (scheme, netloc)
     \<and> scheme \<in> {''rtsp'', ''rtsps''} \<and> netloc \<noteq> [])"

definition camera_ok :: "(string \<Rightarrow> bool) \<Rightarrow> device_camera \<Rightarrow> bool" where
  "camera_ok bad c \<longleftrightarrow> key_body (dc_camera_key c) \<and> dc_output_path c = JStr (OUTPUT_PATH_PREFIX @ dc_camera_key c)
     \<and> stream_url_ok bad (dc_stream_url c)
     \<and> (\<exists>x. number_of (dc_source_order c) = Some x \<and> \<not> fl_less x (Fin 0))"

lemma validate_stream_url_Inr: "validate_stream_url bad c = Inr () \<Longrightarrow> stream_url_ok bad (dc_stream_url c)"
  by (auto simp: validate_stream_url_def stream_url_ok_def outcome_simps split: if_split_asm option.split_asm)

lemma check_source_order_Inr [outcome_simps]:
  "check_source_order seen v = Inr x \<longleftrightarrow>
     number_of v = Some x \<and> \<not> fl_less x (Fin 0) \<and> \<not> list_ex (number_eq x) seen"
  by (auto simp: check_source_order_def split: option.splits)

lemma validate_cameras_Inr:
  assumes "validate_cameras bad ids keys orders paths cs = Inr ()"
  shows "(\<forall>c \<in> set cs. camera_ok bad c \<and> dc_camera_id c \<notin> set ids \<and> dc_camera_key c \<notin> set keys
        \<and> (\<forall>x. number_of (dc_source_order c) = Some x \<longrightarrow> \<not> list_ex (number_eq x) orders))
    \<and> distinct (map dc_camera_id cs) \<and> distinct (map dc_camera_key cs)
    \<and> sorted_wrt (\<lambda>c d. \<forall>x y. number_of (dc_source_order c) = Some x \<longrightarrow> number_of (dc_source_order d) = Some y
        \<longrightarrow> \<not> number_eq y x) cs"
  using assms
proof (induction cs arbitrary: ids keys orders paths)
  case Nil
  then show ?case by simp
next
  case (Cons c cs)
  from Cons.prems obtain x where c: "dc_camera_id c \<notin> set ids" "validate_camera_key c = Inr ()"
    "dc_camera_key c \<notin> set keys" "number_of (dc_source_order c) = Some x" "\<not> fl_less x (Fin 0)"
    "\<not> list_ex (number_eq x) orders" "validate_stream_url bad c = Inr ()" "validate_output_path c = Inr ()"
    and rest: "validate_cameras bad (dc_camera_id c # ids) (dc_camera_key c # keys) (x # orders) (dc_output_path c # paths) cs = Inr ()"
    by (auto simp: outcome_simps split: if_split_asm)
  have "camera_ok bad c"
    using c validate_output_path_Inr [OF c(8,2)] validate_stream_url_Inr [OF c(7)] by (simp add: camera_ok_def)
  with c Cons.IH [OF rest] show ?case by (auto simp: list_ex_iff)
qed

lemma validated_configuration_cameras:
  assumes "validate_configuration bad dev max_cameras cf = Inr ()"
  shows "cf_device_id cf = dev \<and> int (length (cf_cameras cf)) \<le> max_cameras
    \<and> list_all (camera_ok bad) (cf_cameras cf)
    \<and> distinct (map dc_camera_id (cf_cameras cf)) \<and> distinct (map dc_camera_key (cf_cameras cf))
    \<and> distinct (map dc_output_path (cf_cameras cf))
    \<and> sorted_wrt (\<lambda>c d. \<not> number_eq (the (number_of (dc_source_order d))) (the (number_of (dc_source_order c))))
        (cf_cameras cf)"
proof -
  let ?cs = "cf_cameras cf"
  have v: "validate_cameras bad [] [] [] [] ?cs = Inr ()"
    and d: "cf_device_id cf = dev" "int (length ?cs) \<le> max_cameras"
    using assms by (auto simp: validate_configuration_def split: if_split_asm)
  note props = validate_cameras_Inr [OF v]
  have "distinct (map dc_output_path ?cs)"
    using props unfolding distinct_map by (auto simp: inj_on_def camera_ok_def)
  moreover have "sorted_wrt (\<lambda>c d. \<not> number_eq (the (number_of (dc_source_order d))) (the (number_of (dc_source_order c)))) ?cs"
  proof (rule sorted_wrt_mono_rel)
    show "sorted_wrt (\<lambda>c d. \<forall>x y. number_of (dc_source_order c) = Some x \<longrightarrow>
        number_of (dc_source_order d) = Some y \<longrightarrow> \<not> number_eq y x) ?cs" using props by blast
    fix c d assume "c \<in> set ?cs" "d \<in> set ?cs"
    then obtain x y where "number_of (dc_source_order c) = Some x" "number_of (dc_source_order d) = Some y"
      using props unfolding camera_ok_def by metis
    then show "\<not> number_eq (the (number_of (dc_source_order d))) (the (number_of (dc_source_order c)))"
      if "\<forall>x y. number_of (dc_source_order c) = Some x \<longrightarrow> number_of (dc_source_order d) = Some y \<longrightarrow> \<not> number_eq y x"
      using that by simp
  qed
  ultimately show ?thesis using d props by (simp add: list_all_iff)
qed

text \<open>
  C21.  A configuration that passes validation is safe to apply as a whole: it is for this device and
  within the limit; every camera has a well-formed key, publishes on exactly the mount of that key,
  reads from an absolute RTSP URL and has a source order that is a number not below zero; and no two
  cameras share an id, a key, a mount or a source order.
\<close>

theorem validated_configuration_safe:
  assumes "validate_configuration bad dev max_cameras cf = Inr ()"
  shows "cf_device_id cf = dev \<and> int (length (cf_cameras cf)) \<le> max_cameras
    \<and> list_all (camera_ok bad) (cf_cameras cf)
    \<and> distinct (map dc_camera_id (cf_cameras cf)) \<and> distinct (map dc_camera_key (cf_cameras cf))
    \<and> distinct (map dc_output_path (cf_cameras cf))
    \<and> sorted_wrt (\<lambda>c d. \<not> number_eq (the (number_of (dc_source_order d))) (the (number_of (dc_source_order c))))
        (cf_cameras cf)"
  using validated_configuration_cameras [OF assms] by blast

definition demo_camera :: device_camera where
  "demo_camera = \<lparr>dc_camera_id = 7, dc_camera_key = ''cam'', dc_name = JStr ''Door'', dc_stream_url = JStr ''rtsp://h/1'',
     dc_enabled = JBool True, dc_source_order = JInt 0, dc_output_path = JStr ''cameras/cam''\<rparr>"

definition demo_configuration :: device_configuration where
  "demo_configuration = \<lparr>cf_schema_version = JInt 1, cf_configuration_version = JStr ''v1'', cf_device_id = 3,
     cf_branch_id = 4, cf_generated_at_utc = Aware 5, cf_cameras = [demo_camera]\<rparr>"

lemma demo_urlsplit: "urlsplit (\<lambda>_. False) ''rtsp://h/1'' = Inr (''rtsp'', ''h'')"
  by code_simp

lemma demo_output_path: "validate_output_path demo_camera = Inr ()"
  by code_simp

lemma demo_camera_key: "validate_camera_key demo_camera = Inr ()"
  by code_simp

lemma demo_validates: "validate_configuration (\<lambda>_. False) 3 4 demo_configuration = Inr ()"
proof -
  have "validate_stream_url (\<lambda>_. False) demo_camera = Inr ()"
    by (simp add: validate_stream_url_def demo_camera_def demo_urlsplit)
  moreover have "check_source_order [] (dc_source_order demo_camera) = Inr (Fin 0)"
    by (simp add: check_source_order_def demo_camera_def fl_exact_def)
  ultimately show ?thesis
    using demo_output_path demo_camera_key
    by (simp add: validate_configuration_def demo_configuration_def)
qed

theorem validated_configuration_safe_witness:
  "list_all (camera_ok (\<lambda>_. False)) (cf_cameras demo_configuration) \<and> cf_device_id demo_configuration = 3"
  using validated_configuration_safe [OF demo_validates] by blast

section \<open>The cached form\<close>

lemma uuid_of_json_text [simp]: "uuid_of_json (JStr (str_uuid u)) = Inr u"
  by (simp add: uuid_of_json_def parse_str_uuid)

lemma map_result_map: "map_result f (map g xs) = map_result (\<lambda>x. f (g x)) xs"
  by (induction xs) simp_all

lemma cached_camera_document: "dc_camera_key c \<noteq> [] \<Longrightarrow> cached_camera (camera_document c) = Inr c"
  by (cases "dc_camera_key c")
     (simp_all add: cached_camera_def camera_document_def jitem_def cached_camera_key_def jget_none_def)

lemma configuration_roundtrip:
  assumes "cf_generated_at_utc cf = Aware n" and "tl_parse lib (tl_text lib n) = Inr n"
    and "list_all (\<lambda>c. dc_camera_key c \<noteq> []) (cf_cameras cf)"
  shows "\<exists>doc. serialize_configuration lib cf = Inr doc \<and> deserialize_configuration lib doc = Inr cf"
proof -
  have "map_result cached_camera (map camera_document (cf_cameras cf)) = Inr (map id (cf_cameras cf))"
    using assms(3)
    by (simp only: map_result_map list_all_iff) (rule map_result_Inr_map, simp add: cached_camera_document)
  then show ?thesis
    using assms(1,2)
    by (simp add: serialize_configuration_def deserialize_configuration_def cached_shape_def jitem_def
        parse_generated_at_def iterate_def)
qed

text \<open>
  C20.  A configuration read back from the cache is the configuration that was saved, field by field,
  whatever its fields hold, as long as its timestamp has a zone and parses back from its ISO text and
  its camera keys are not empty.
\<close>

theorem configuration_cache_roundtrip:
  assumes "cf_generated_at_utc cf = Aware n" and "tl_parse lib (tl_text lib n) = Inr n"
    and "list_all (\<lambda>c. dc_camera_key c \<noteq> []) (cf_cameras cf)"
  shows "\<exists>doc. serialize_configuration lib cf = Inr doc \<and> deserialize_configuration lib doc = Inr cf"
  using configuration_roundtrip [OF assms] .

definition demo_time :: time_library where
  "demo_time = \<lparr>tl_text = (\<lambda>n. replicate (nat n) CHR ''x''), tl_parse = (\<lambda>s. Inr (int (length s)))\<rparr>"

theorem configuration_cache_roundtrip_witness:
  "\<exists>doc. serialize_configuration demo_time demo_configuration = Inr doc
     \<and> deserialize_configuration demo_time doc = Inr demo_configuration"
  by (rule configuration_cache_roundtrip [of _ 5])
     (simp_all add: demo_configuration_def demo_time_def demo_camera_def)

section \<open>The source mapping\<close>

lemma py_eq_int_number: "py_eq_int v n \<longleftrightarrow> number_of v = Some (fl_exact n)"
  by (cases v) (auto simp: fl_exact_def)

lemma sorted_wrt_either: "sorted_wrt R xs \<Longrightarrow> x \<in> set xs \<Longrightarrow> y \<in> set xs \<Longrightarrow> x = y \<or> R x y \<or> R y x"
  by (induction xs) auto

lemma find_unique_value:
  assumes "\<And>y z. y \<in> set xs \<Longrightarrow> z \<in> set xs \<Longrightarrow> p y \<Longrightarrow> p z \<Longrightarrow> f y = f z"
  shows "map_option f (List.find p xs) = Some v \<longleftrightarrow> (\<exists>y \<in> set xs. p y \<and> f y = v)"
proof (cases "List.find p xs")
  case None
  then have "\<not> (\<exists>y. y \<in> set xs \<and> p y)" by (simp only: find_None_iff simp_thms)
  with None show ?thesis by auto
next
  case (Some y)
  then obtain k where "k < length xs" "p (xs ! k)" "y = xs ! k" using find_Some_iff by metis
  then have y: "y \<in> set xs" "p y" by simp_all
  have "(\<exists>z \<in> set xs. p z \<and> f z = v) \<longleftrightarrow> f y = v"
  proof
    assume "\<exists>z \<in> set xs. p z \<and> f z = v"
    then obtain z where z: "z \<in> set xs" "p z" "f z = v" by blast
    show "f y = v" using assms [OF y(1) z(1) y(2) z(2)] z(3) by (rule trans)
  next
    assume "f y = v"
    with y show "\<exists>z \<in> set xs. p z \<and> f z = v" by blast
  qed
  with Some show ?thesis by simp
qed

text \<open>
  The source mapping is exact: after a validated configuration is installed, a source id resolves to
  a camera if and only if that camera is enabled and has that source order.
\<close>

theorem source_mapping_exact:
  assumes "validate_configuration bad dev max_cameras cf = Inr ()"
  shows "resolve_camera_id (snd (install_generation cf t)) n = Some u \<longleftrightarrow>
    (\<exists>c \<in> set (cf_cameras cf). truthy (dc_enabled c) \<and> py_eq_int (dc_source_order c) n \<and> dc_camera_id c = u)"
proof -
  let ?cs = "cf_cameras cf"
  have sorted: "sorted_wrt (\<lambda>c d. \<not> number_eq (the (number_of (dc_source_order d))) (the (number_of (dc_source_order c)))) ?cs"
    using validated_configuration_cameras [OF assms] by blast
  have uniq: "c = d" if "c \<in> set ?cs" "d \<in> set ?cs" "py_eq_int (dc_source_order c) n" "py_eq_int (dc_source_order d) n" for c d
    using sorted_wrt_either [OF sorted that(1,2)] that(3,4) by (auto simp: py_eq_int_number number_eq_def fl_exact_def)
  let ?m = "map (\<lambda>c. (dc_source_order c, dc_camera_id c)) (filter (\<lambda>c. truthy (dc_enabled c)) ?cs)"
  have "resolve_camera_id (snd (install_generation cf t)) n
      = map_option snd (List.find (\<lambda>(k, _). py_eq_int k n) (rev ?m))"
    by (simp add: resolve_camera_id_def install_generation_def resolve_source_def Let_def)
  also have "\<dots> = Some u \<longleftrightarrow> (\<exists>y \<in> set (rev ?m). (\<lambda>(k, _). py_eq_int k n) y \<and> snd y = u)"
    by (rule find_unique_value) (use uniq in auto)
  finally show ?thesis by auto
qed

theorem source_mapping_exact_witness:
  "resolve_camera_id (snd (install_generation demo_configuration new_tracker)) 0 = Some 7
   \<and> resolve_camera_id (snd (install_generation demo_configuration new_tracker)) 1 \<noteq> Some 7"
  unfolding source_mapping_exact [OF demo_validates] by (simp add: demo_configuration_def demo_camera_def)

end
