(* ===== verification/ConfigClient.thy ===== *)
theory ConfigClient
  imports DeviceConfig Http
begin

text \<open>
  \<^verbatim>\<open>configuration/client.py\<close>: one GET of the device configuration and the strict parsing of its answer.
\<close>

definition CONFIGURATION_PATH :: string where
  "CONFIGURATION_PATH = ''/api/v1/device/configuration''"

definition MAX_RESPONSE_BYTES :: nat where
  "MAX_RESPONSE_BYTES = 1048576"

definition build_configuration_url :: "string \<Rightarrow> string" where
  "build_configuration_url base_url = join_url base_url CONFIGURATION_PATH"

datatype configuration_failure_reason =
  CF_UNAUTHORIZED | CF_UNAVAILABLE | CF_INVALID_RESPONSE | CF_TIMEOUT | CF_TRANSPORT_FAILURE

datatype config_fetch =
    Fetched device_configuration
  | ConfigurationFetchFailure configuration_failure_reason "int option"

record config_request =
  gq_url :: string
  gq_device_id_header :: string
  gq_device_secret_header :: string

section \<open>Parsing\<close>

text \<open>A \<^verbatim>\<open>try\<close> block whose listed exceptions make the function return \<^verbatim>\<open>None\<close>.\<close>

definition none_if_shape_error :: "exn + 'a \<Rightarrow> exn + 'a option" where
  "none_if_shape_error r =
     (case r of Inl e \<Rightarrow> if is_shape_error e then Inr None else Inl e | Inr x \<Rightarrow> Inr (Some x))"

definition camera_fields :: "json_obj \<Rightarrow> exn + uuid \<times> json \<times> json \<times> json \<times> json \<times> json \<times> json" where
  "camera_fields d =
     bind_result (bind_result (jitem d ''cameraId'') uuid_of_json) (\<lambda>cid.
     bind_result (jitem d ''cameraKey'') (\<lambda>key.
     bind_result (jitem d ''name'') (\<lambda>name.
     bind_result (jitem d ''streamUrl'') (\<lambda>url.
     bind_result (jitem d ''enabled'') (\<lambda>enabled.
     bind_result (jitem d ''sourceOrder'') (\<lambda>order.
     bind_result (jitem d ''outputPath'') (\<lambda>path. Inr (cid, key, name, url, enabled, order, path))))))))"

definition camera_of_fields :: "uuid \<times> json \<times> json \<times> json \<times> json \<times> json \<times> json \<Rightarrow> device_camera option" where
  "camera_of_fields fs =
     (case fs of
        (cid, JStr key, JStr name, JStr url, JBool enabled, JInt order, JStr path) \<Rightarrow>
          Some \<lparr>dc_camera_id = cid, dc_camera_key = key, dc_name = JStr name, dc_stream_url = JStr url,
                dc_enabled = JBool enabled, dc_source_order = JInt order, dc_output_path = JStr path\<rparr>
      | _ \<Rightarrow> None)"

definition wire_camera :: "json \<Rightarrow> exn + device_camera option" where
  "wire_camera raw =
     (case as_obj raw of
        None \<Rightarrow> Inr None
      | Some d \<Rightarrow>
          bind_result (none_if_shape_error (camera_fields d)) (\<lambda>r.
            Inr (case r of None \<Rightarrow> None | Some fs \<Rightarrow> camera_of_fields fs)))"

fun wire_cameras :: "json list \<Rightarrow> exn + device_camera list option" where
  "wire_cameras [] = Inr (Some [])"
| "wire_cameras (raw # raws) =
     bind_result (wire_camera raw) (\<lambda>r.
     case r of
       None \<Rightarrow> Inr None
     | Some c \<Rightarrow> bind_result (wire_cameras raws) (\<lambda>rs. Inr (map_option ((#) c) rs)))"

definition configuration_fields :: "time_library \<Rightarrow> json_obj \<Rightarrow> exn + json \<times> json \<times> uuid \<times> uuid \<times> datetime \<times> json" where
  "configuration_fields lib d =
     bind_result (jitem d ''schemaVersion'') (\<lambda>schema.
     bind_result (jitem d ''configurationVersion'') (\<lambda>version.
     bind_result (bind_result (jitem d ''deviceId'') uuid_of_json) (\<lambda>dev.
     bind_result (bind_result (jitem d ''branchId'') uuid_of_json) (\<lambda>branch.
     bind_result (bind_result (jitem d ''generatedAtUtc'') (parse_generated_at lib)) (\<lambda>generated.
     bind_result (jitem d ''cameras'') (\<lambda>cams. Inr (schema, version, dev, branch, generated, cams)))))))"

text \<open>\<^verbatim>\<open>isinstance(v, int)\<close> holds of a bool too.\<close>

definition is_int_instance :: "json \<Rightarrow> bool" where
  "is_int_instance v = (case v of JInt _ \<Rightarrow> True | JBool _ \<Rightarrow> True | _ \<Rightarrow> False)"

definition parse_configuration :: "time_library \<Rightarrow> int \<Rightarrow> json \<Rightarrow> exn + device_configuration option" where
  "parse_configuration lib max_cameras data =
     (case as_obj data of
        None \<Rightarrow> Inr None
      | Some d \<Rightarrow>
          bind_result (none_if_shape_error (configuration_fields lib d)) (\<lambda>r.
          case r of
            None \<Rightarrow> Inr None
          | Some (schema, version, dev, branch, generated, raw) \<Rightarrow>
              if \<not> is_int_instance schema \<or> as_str version = None then Inr None
              else (case as_arr raw of
                      None \<Rightarrow> Inr None
                    | Some raws \<Rightarrow>
                        if int (length raws) > max_cameras then Inr None
                        else bind_result (wire_cameras raws) (\<lambda>cams.
                          Inr (map_option (\<lambda>cs. \<lparr>cf_schema_version = schema, cf_configuration_version = version,
                                 cf_device_id = dev, cf_branch_id = branch, cf_generated_at_utc = generated,
                                 cf_cameras = cs\<rparr>) cams)))))"

section \<open>The request\<close>

definition parse_fetch_success :: "time_library \<Rightarrow> int \<Rightarrow> nat \<Rightarrow> int \<Rightarrow> exn + json \<Rightarrow> exn + config_fetch" where
  "parse_fetch_success lib max_cameras nbytes status body =
     (let invalid = ConfigurationFetchFailure CF_INVALID_RESPONSE (Some status)
      in if nbytes > MAX_RESPONSE_BYTES then Inr invalid
         else bind_result (safe_json body) (\<lambda>v.
           case as_obj v of
             None \<Rightarrow> Inr invalid
           | Some p \<Rightarrow>
               if jget p ''success'' \<noteq> Some (JBool True) then Inr invalid
               else bind_result (parse_configuration lib max_cameras (jget_none p ''data'')) (\<lambda>r.
                 Inr (case r of None \<Rightarrow> invalid | Some cf \<Rightarrow> Fetched cf))))"

definition classify_fetch :: "time_library \<Rightarrow> int \<Rightarrow> nat \<Rightarrow> int \<Rightarrow> exn + json \<Rightarrow> exn + config_fetch" where
  "classify_fetch lib max_cameras nbytes status body =
     (if status = 200 then parse_fetch_success lib max_cameras nbytes status body
      else if status = 401 then Inr (ConfigurationFetchFailure CF_UNAUTHORIZED (Some status))
      else if status = 503 then Inr (ConfigurationFetchFailure CF_UNAVAILABLE (Some status))
      else Inr (ConfigurationFetchFailure CF_INVALID_RESPONSE (Some status)))"

text \<open>\<open>nbytes\<close> is the length of the body of the answer, if there is one.\<close>

definition fetch_configuration ::
  "string \<Rightarrow> time_library \<Rightarrow> int \<Rightarrow> (config_request \<Rightarrow> http_outcome) \<Rightarrow> nat \<Rightarrow> string \<Rightarrow> string \<Rightarrow> exn + config_fetch" where
  "fetch_configuration base_url lib max_cameras get nbytes device_id secret =
     (case get \<lparr>gq_url = build_configuration_url base_url, gq_device_id_header = device_id,
               gq_device_secret_header = secret\<rparr> of
        HttpTimeout \<Rightarrow> Inr (ConfigurationFetchFailure CF_TIMEOUT None)
      | HttpTransportError \<Rightarrow> Inr (ConfigurationFetchFailure CF_TRANSPORT_FAILURE None)
      | HttpRaised e \<Rightarrow> Inl e
      | HttpResponse status body \<Rightarrow> classify_fetch lib max_cameras nbytes status body)"

section \<open>What a parsed configuration is\<close>

definition typed_camera :: "device_camera \<Rightarrow> bool" where
  "typed_camera c \<longleftrightarrow> (\<exists>name url enabled order path. dc_name c = JStr name \<and> dc_stream_url c = JStr url
     \<and> dc_enabled c = JBool enabled \<and> dc_source_order c = JInt order \<and> dc_output_path c = JStr path)"

lemma camera_of_fields_Some:
  assumes "camera_of_fields fs = Some c"
  shows "typed_camera c"
  using assms
  by (auto simp: camera_of_fields_def typed_camera_def split: prod.split_asm json.split_asm)

lemma wire_camera_typed: "wire_camera raw = Inr (Some c) \<Longrightarrow> typed_camera c"
  by (auto simp: wire_camera_def outcome_simps camera_of_fields_Some split: option.split_asm)

lemma wire_cameras_typed: "wire_cameras raws = Inr (Some cs) \<Longrightarrow> list_all typed_camera cs \<and> length cs = length raws"
  by (induction raws arbitrary: cs) (auto simp: outcome_simps wire_camera_typed split: option.split_asm)

lemma parse_configuration_Some:
  assumes "parse_configuration lib max_cameras data = Inr (Some cf)"
  shows "list_all typed_camera (cf_cameras cf) \<and> int (length (cf_cameras cf)) \<le> max_cameras"
proof -
  from assms obtain d where "as_obj data = Some d" by (auto simp: parse_configuration_def split: option.split_asm)
  with assms obtain r where r: "none_if_shape_error (configuration_fields lib d) = Inr r"
    by (auto simp: parse_configuration_def outcome_simps)
  show ?thesis
  proof (cases r)
    case None
    with assms r \<open>as_obj data = Some d\<close> show ?thesis by (simp add: parse_configuration_def)
  next
    case (Some fs)
    obtain schema version dev branch generated raw where fs: "fs = (schema, version, dev, branch, generated, raw)"
      by (cases fs)
    with assms r Some \<open>as_obj data = Some d\<close> obtain raws cams where raws: "as_arr raw = Some raws"
      "\<not> int (length raws) > max_cameras" "wire_cameras raws = Inr (Some cams)" "cf_cameras cf = cams"
      by (auto simp: parse_configuration_def outcome_simps split: if_split_asm option.split_asm)
    from wire_cameras_typed [OF raws(3)] raws show ?thesis by simp
  qed
qed

text \<open>A fetched configuration is typed, no larger than allowed, and never a truncated list.\<close>

lemma fetched_configuration_typed:
  assumes "fetch_configuration base_url lib max_cameras get nbytes dev secret = Inr (Fetched cf)"
  shows "list_all typed_camera (cf_cameras cf) \<and> int (length (cf_cameras cf)) \<le> max_cameras
    \<and> nbytes \<le> MAX_RESPONSE_BYTES"
proof -
  obtain status body where "classify_fetch lib max_cameras nbytes status body = Inr (Fetched cf)"
    using assms by (auto simp: fetch_configuration_def split: http_outcome.split_asm)
  then have p: "parse_fetch_success lib max_cameras nbytes status body = Inr (Fetched cf)"
    by (auto simp: classify_fetch_def split: if_split_asm)
  then have nb: "nbytes \<le> MAX_RESPONSE_BYTES" by (simp add: parse_fetch_success_def Let_def split: if_split_asm)
  with p obtain v where "safe_json body = Inr v" by (auto simp: parse_fetch_success_def Let_def outcome_simps)
  with p nb obtain q r where "parse_configuration lib max_cameras (jget_none q ''data'') = Inr r"
    "(case r of None \<Rightarrow> ConfigurationFetchFailure CF_INVALID_RESPONSE (Some status) | Some cf \<Rightarrow> Fetched cf) = Fetched cf"
    by (auto simp: parse_fetch_success_def Let_def outcome_simps split: option.split_asm if_split_asm)
  then have "parse_configuration lib max_cameras (jget_none q ''data'') = Inr (Some cf)" by (cases r) simp_all
  from parse_configuration_Some [OF this] nb show ?thesis by simp
qed

text \<open>
  A \<^verbatim>\<open>deviceId\<close> that is a number, a list or an object is not a \<^verbatim>\<open>None\<close> result: \<^verbatim>\<open>UUID\<close> raises
  \<^verbatim>\<open>AttributeError\<close> on it, which the parser does not catch.
\<close>

lemma numeric_device_id_raises:
  assumes "jget d ''schemaVersion'' = Some a" and "jget d ''configurationVersion'' = Some b"
    and "jget d ''deviceId'' = Some (JInt n)"
  shows "parse_configuration lib max_cameras (JObj d) = Inl AttributeError"
  using assms
  by (simp add: parse_configuration_def configuration_fields_def jitem_def uuid_of_json_def none_if_shape_error_def
      is_shape_error_def)

end
