(* ===== verification/DeepStream.thy ===== *)
theory DeepStream
  imports DeviceConfig
begin

text \<open>
  \<^verbatim>\<open>deepstream/config_generator.py\<close> and \<^verbatim>\<open>deepstream/process_manager.py\<close>: the runtime configuration
  file of the Bridge and the one child process that reads it.

  An INI document is what \<^verbatim>\<open>configparser\<close> holds of it: the defaults and the sections in order, each
  a dictionary in order.  The parts of \<^verbatim>\<open>configparser\<close> the generator uses (interpolation on reading
  and on setting a value, adding and removing sections, writing) are written out.
\<close>

section \<open>configparser\<close>

abbreviation InterpolationError :: exn where "InterpolationError \<equiv> OtherException ''InterpolationError''"
abbreviation DuplicateSectionError :: exn where "DuplicateSectionError \<equiv> OtherException ''DuplicateSectionError''"
abbreviation RuntimeError :: exn where "RuntimeError \<equiv> OtherException ''RuntimeError''"

type_synonym options = "(string \<times> string) list"

record ini =
  ini_defaults :: options
  ini_sections :: "(string \<times> options) list"

text \<open>
  \<^verbatim>\<open>BasicInterpolation._interpolate_some\<close>: \<^verbatim>\<open>%%\<close> is a percent sign, \<^verbatim>\<open>%(name)s\<close> the value of another
  option (interpolated itself, to a depth of ten), any other percent sign is an error.  The first
  argument counts the levels that are left.
\<close>

definition reference_name :: "string \<Rightarrow> (string \<times> string) option" where
  "reference_name s =
     (let name = takeWhile (\<lambda>c. c \<noteq> CHR '')'') s; rest = dropWhile (\<lambda>c. c \<noteq> CHR '')'') s
      in if name \<noteq> [] \<and> starts_with '')s'' rest then Some (name, drop 2 rest) else None)"

lemma reference_name_shorter: "reference_name s = Some (name, rest) \<Longrightarrow> length rest \<le> length s"
  using length_dropWhile_le [of "\<lambda>c. c \<noteq> CHR '')''" s]
  by (auto simp: reference_name_def Let_def split: if_split_asm)

function (sequential) interpolate :: "nat \<Rightarrow> options \<Rightarrow> string \<Rightarrow> exn + string" where
  "interpolate 0 m s = Inl InterpolationError"
| "interpolate (Suc n) m [] = Inr []"
| "interpolate (Suc n) m (c # s) =
     (if c \<noteq> CHR ''%'' then bind_result (interpolate (Suc n) m s) (\<lambda>t. Inr (c # t))
      else case s of
        [] \<Rightarrow> Inl InterpolationError
      | d # ds \<Rightarrow>
          if d = CHR ''%'' then bind_result (interpolate (Suc n) m ds) (\<lambda>t. Inr (CHR ''%'' # t))
          else if d = CHR ''('' then
            (case reference_name ds of
               None \<Rightarrow> Inl InterpolationError
             | Some (name, rest) \<Rightarrow>
                 (case map_of m name of
                    None \<Rightarrow> Inl InterpolationError
                  | Some v \<Rightarrow>
                      bind_result (if CHR ''%'' \<in> set v then interpolate n m v else Inr v) (\<lambda>a.
                      bind_result (interpolate (Suc n) m rest) (\<lambda>t. Inr (a @ t)))))
          else Inl InterpolationError)"
  by pat_completeness auto

termination
  by (relation "inv_image (less_than <*lex*> less_than) (\<lambda>(n, m, s). (n, length s))")
     (auto dest: reference_name_shorter)

text \<open>\<^verbatim>\<open>before_set\<close>: what is left of a value without \<^verbatim>\<open>%%\<close> and without references must have no percent sign.\<close>

function (sequential) remove_references :: "string \<Rightarrow> string" where
  "remove_references [] = []"
| "remove_references (c # s) =
     (case s of
        [] \<Rightarrow> [c]
      | d # ds \<Rightarrow>
          if c = CHR ''%'' \<and> d = CHR ''(''
          then (case reference_name ds of
                  None \<Rightarrow> c # remove_references s
                | Some (_, rest) \<Rightarrow> remove_references rest)
          else c # remove_references s)"
  by pat_completeness auto

termination
  by (relation "measure length") (auto dest: reference_name_shorter)

definition settable :: "string \<Rightarrow> bool" where
  "settable value \<longleftrightarrow> CHR ''%'' \<notin> set (remove_references (remove_all ''%%'' value))"

definition section_items :: "ini \<Rightarrow> options \<Rightarrow> exn + options" where
  "section_items doc opts =
     (let d = foldl (\<lambda>d (k, v). dict_put k v d) (ini_defaults doc) opts
      in map_result (\<lambda>(k, v). bind_result (interpolate 10 d v) (\<lambda>w. Inr (k, w))) d)"

text \<open>\<^verbatim>\<open>parser.set(section, option, value)\<close> for a section that exists.\<close>

definition set_option :: "string \<Rightarrow> string \<Rightarrow> options \<Rightarrow> exn + options" where
  "set_option k v opts = (if settable v then Inr (dict_put k v opts) else Inl ValueError)"

text \<open>\<^verbatim>\<open>parser.write\<close>\<close>

definition value_text :: "string \<Rightarrow> string" where
  "value_text v = concat (map (\<lambda>c. if c = CHR 0x0A then [CHR 0x0A, CHR 0x09] else [c]) v)"

definition section_text :: "string \<times> options \<Rightarrow> string" where
  "section_text sec =
     ''['' @ fst sec @ '']'' @ [CHR 0x0A]
     @ concat (map (\<lambda>(k, v). k @ '' = '' @ value_text v @ [CHR 0x0A]) (snd sec)) @ [CHR 0x0A]"

definition ini_text :: "ini \<Rightarrow> string" where
  "ini_text doc =
     concat (map section_text
       ((if ini_defaults doc = [] then [] else [(''DEFAULT'', ini_defaults doc)]) @ ini_sections doc))"

section \<open>deepstream/config_generator.py\<close>

fun nat_text :: "nat \<Rightarrow> string" where
  "nat_text n = (if n < 10 then [''0123456789'' ! n] else nat_text (n div 10) @ [''0123456789'' ! (n mod 10)])"

declare nat_text.simps [simp del]

definition int_text :: "int \<Rightarrow> string" where
  "int_text n = (if n < 0 then CHR ''-'' # nat_text (nat (- n)) else nat_text (nat n))"

text \<open>The text of a source order, a number in every validated configuration; \<open>show_float\<close> is \<^verbatim>\<open>float.__str__\<close>.\<close>

definition order_text :: "(pyfloat \<Rightarrow> string) \<Rightarrow> json \<Rightarrow> string" where
  "order_text show_float v =
     (case v of JInt n \<Rightarrow> int_text n | JBool b \<Rightarrow> if b then ''True'' else ''False''
      | JFloat x \<Rightarrow> show_float x | _ \<Rightarrow> [])"

definition is_source_section :: "string \<Rightarrow> bool" where
  "is_source_section s = starts_with ''source'' s"

definition all_source_sections :: "ini \<Rightarrow> string list" where
  "all_source_sections doc = sort (filter is_source_section (map fst (ini_sections doc)))"

definition first_source_section :: "ini \<Rightarrow> exn + string" where
  "first_source_section doc =
     (case all_source_sections doc of [] \<Rightarrow> Inl RuntimeError | s # _ \<Rightarrow> Inr s)"

definition CARRIED_SOURCE_KEYS_EXCLUDE :: "string list" where
  "CARRIED_SOURCE_KEYS_EXCLUDE = [''enable'', ''type'', ''uri'', ''camera-id'', ''camera-key'', ''output-path'']"

fun set_options :: "options \<Rightarrow> options \<Rightarrow> exn + options" where
  "set_options [] opts = Inr opts"
| "set_options ((k, v) # kvs) opts = bind_result (set_option k v opts) (set_options kvs)"

definition source_section :: "options \<Rightarrow> device_camera \<Rightarrow> exn + options" where
  "source_section carried c =
     (case (as_str (dc_stream_url c), as_str (dc_output_path c)) of
        (Some url, Some path) \<Rightarrow>
          set_options ([(''enable'', ''1''), (''type'', ''4''), (''uri'', url),
            (''camera-id'', str_uuid (dc_camera_id c)), (''camera-key'', dc_camera_key c), (''output-path'', path)]
            @ carried) []
      | _ \<Rightarrow> Inl TypeError)"

fun add_sources :: "(pyfloat \<Rightarrow> string) \<Rightarrow> options \<Rightarrow> device_camera list \<Rightarrow> (string \<times> options) list
    \<Rightarrow> exn + (string \<times> options) list" where
  "add_sources show_float carried [] secs = Inr secs"
| "add_sources show_float carried (c # cs) secs =
     (let name = ''source'' @ order_text show_float (dc_source_order c)
      in if name \<in> fst ` set secs then Inl DuplicateSectionError
         else bind_result (source_section carried c) (\<lambda>opts.
           add_sources show_float carried cs (secs @ [(name, opts)])))"

definition set_batch_size :: "nat \<Rightarrow> (string \<times> options) list \<Rightarrow> (string \<times> options) list" where
  "set_batch_size n secs =
     (case map_of secs ''streammux'' of
        None \<Rightarrow> secs @ [(''streammux'', [(''batch-size'', nat_text n)])]
      | Some opts \<Rightarrow> dict_put ''streammux'' (dict_put ''batch-size'' (nat_text n) opts) secs)"

text \<open>\<open>template\<close> is the parsed template, or what reading it raises.\<close>

definition runtime_ini :: "(pyfloat \<Rightarrow> string) \<Rightarrow> exn + ini \<Rightarrow> device_camera list \<Rightarrow> exn + ini" where
  "runtime_ini show_float template cameras =
     (case template of
        Inl e \<Rightarrow> Inl (if is_os_error e then RuntimeError else e)
      | Inr doc \<Rightarrow>
          bind_result (first_source_section doc) (\<lambda>first.
          bind_result (section_items doc (the (map_of (ini_sections doc) first))) (\<lambda>items.
            let carried = filter (\<lambda>(k, _). k \<notin> set CARRIED_SOURCE_KEYS_EXCLUDE) items;
                kept = filter (\<lambda>(s, _). \<not> is_source_section s) (ini_sections doc)
            in bind_result (add_sources show_float carried cameras kept) (\<lambda>secs.
                 Inr (doc\<lparr>ini_sections := set_batch_size (length cameras) secs\<rparr>)))))"

text \<open>
  The file appears under its final name with \<^verbatim>\<open>os.replace\<close> only; \<open>write_fault\<close> is what any step up to
  that raises.
\<close>

definition generate_runtime_config :: "(pyfloat \<Rightarrow> string) \<Rightarrow> exn + ini \<Rightarrow> exn option \<Rightarrow> device_camera list
    \<Rightarrow> string option \<Rightarrow> (exn + unit) \<times> string option" where
  "generate_runtime_config show_float template write_fault cameras file =
     (case runtime_ini show_float template cameras of
        Inl e \<Rightarrow> (Inl e, file)
      | Inr doc \<Rightarrow>
          (case write_fault of Some e \<Rightarrow> (Inl e, file) | None \<Rightarrow> (Inr (), Some (ini_text doc))))"

section \<open>deepstream/process_manager.py\<close>

text \<open>
  \<open>pm_live\<close> lists the child processes that are alive, each with the configuration file it was started
  on; \<open>pm_process\<close> is the one the manager tracks.
\<close>

record process_manager =
  pm_process :: "nat option"
  pm_stopping :: bool
  pm_live :: "(nat \<times> string option) list"
  pm_next :: nat

definition start_process :: "exn option \<Rightarrow> string option \<Rightarrow> process_manager \<Rightarrow> (exn + unit) \<times> process_manager" where
  "start_process fault config m =
     (if pm_process m \<noteq> None then (Inl DeepStreamAlreadyRunningError, m)
      else case fault of
        Some e \<Rightarrow> (Inl e, m)
      | None \<Rightarrow>
          (Inr (), m\<lparr>pm_process := Some (pm_next m), pm_stopping := False,
             pm_live := (pm_next m, config) # pm_live m, pm_next := Suc (pm_next m)\<rparr>))"

text \<open>
  \<^verbatim>\<open>stop\<close> returns only after the process is reaped, whether it obeys the signal or is killed; \<open>fault\<close>
  is a cancellation while it waits, which leaves the process tracked.
\<close>

definition stop_process :: "exn option \<Rightarrow> process_manager \<Rightarrow> (exn + unit) \<times> process_manager" where
  "stop_process fault m =
     (case pm_process m of
        None \<Rightarrow> (Inr (), m)
      | Some p \<Rightarrow>
          (case fault of
             Some e \<Rightarrow> (Inl e, m\<lparr>pm_stopping := True\<rparr>)
           | None \<Rightarrow> (Inr (), m\<lparr>pm_process := None, pm_stopping := False,
                        pm_live := filter (\<lambda>(q, _). q \<noteq> p) (pm_live m)\<rparr>)))"

text \<open>The tracked process ends on its own; the watcher cleans up unless \<^verbatim>\<open>stop\<close> is at work.\<close>

definition process_exit :: "process_manager \<Rightarrow> process_manager" where
  "process_exit m =
     (case pm_process m of
        None \<Rightarrow> m
      | Some p \<Rightarrow>
          let m' = m\<lparr>pm_live := filter (\<lambda>(q, _). q \<noteq> p) (pm_live m)\<rparr>
          in if pm_stopping m then m' else m'\<lparr>pm_process := None\<rparr>)"

definition one_process :: "process_manager \<Rightarrow> bool" where
  "one_process m \<longleftrightarrow> (\<forall>x \<in> set (pm_live m). pm_process m = Some (fst x)) \<and> length (pm_live m) \<le> 1"

lemma one_process_steps:
  assumes "one_process m"
  shows "one_process (snd (start_process f c m))" "one_process (snd (stop_process f m))" "one_process (process_exit m)"
proof -
  have none: "pm_live m = []" if "pm_process m = None"
    using assms that by (cases "pm_live m") (auto simp: one_process_def)
  have gone: "filter (\<lambda>(q, _). q \<noteq> p) (pm_live m) = []" if "pm_process m = Some p" for p
    using assms that by (auto simp: one_process_def filter_empty_conv)
  show "one_process (snd (start_process f c m))"
    using assms none by (cases f) (auto simp: start_process_def one_process_def)
  show "one_process (snd (stop_process f m))"
    using assms gone by (cases f; cases "pm_process m") (auto simp: stop_process_def one_process_def)
  show "one_process (process_exit m)"
    using assms gone by (cases "pm_process m") (auto simp: process_exit_def one_process_def Let_def)
qed

section \<open>What the generated configuration says\<close>

lemma set_options_keep: "set_options kvs opts = Inr r \<Longrightarrow> k \<notin> fst ` set kvs \<Longrightarrow> map_of r k = map_of opts k"
  by (induction kvs arbitrary: opts) (auto simp: set_option_def outcome_simps split: if_split_asm)

lemma set_options_append:
  "set_options (xs @ ys) opts = bind_result (set_options xs opts) (set_options ys)"
  by (induction xs arbitrary: opts) (auto simp: bind_result_def split: sum.splits)

lemma source_section_Inr:
  assumes "source_section carried c = Inr opts" and "fst ` set carried \<inter> set CARRIED_SOURCE_KEYS_EXCLUDE = {}"
  shows "map_of opts ''enable'' = Some ''1'' \<and> map_of opts ''camera-id'' = Some (str_uuid (dc_camera_id c))
    \<and> map_option JStr (map_of opts ''uri'') = Some (dc_stream_url c)
    \<and> map_option JStr (map_of opts ''output-path'') = Some (dc_output_path c)"
proof -
  obtain url path where u: "dc_stream_url c = JStr url" "dc_output_path c = JStr path"
    using assms(1) by (auto simp: source_section_def split: option.split_asm)
  then obtain d where d: "set_options [(''enable'', ''1''), (''type'', ''4''), (''uri'', url),
      (''camera-id'', str_uuid (dc_camera_id c)), (''camera-key'', dc_camera_key c), (''output-path'', path)] [] = Inr d"
    and o: "set_options carried d = Inr opts"
    using assms(1) by (auto simp: source_section_def set_options_append outcome_simps)
  have "map_of d ''enable'' = Some ''1''" "map_of d ''camera-id'' = Some (str_uuid (dc_camera_id c))"
    "map_of d ''uri'' = Some url" "map_of d ''output-path'' = Some path"
    using d by (auto simp: outcome_simps set_option_def split: if_split_asm)
  moreover have "map_of opts k = map_of d k" if "k \<in> set CARRIED_SOURCE_KEYS_EXCLUDE" for k
    by (rule set_options_keep [OF o]) (use assms(2) that in blast)
  ultimately show ?thesis using u by (simp add: CARRIED_SOURCE_KEYS_EXCLUDE_def)
qed

definition source_name :: "(pyfloat \<Rightarrow> string) \<Rightarrow> device_camera \<Rightarrow> string" where
  "source_name show_float c = ''source'' @ order_text show_float (dc_source_order c)"

lemma source_name_is_source [simp]: "is_source_section (source_name show_float c)"
  by (simp add: source_name_def is_source_section_def)

lemma add_sources_Inr:
  assumes "add_sources show_float carried cs secs = Inr out"
  shows "\<exists>new. out = secs @ new \<and> map fst new = map (source_name show_float) cs
    \<and> (\<forall>c \<in> set cs. \<exists>opts. source_section carried c = Inr opts \<and> (source_name show_float c, opts) \<in> set new)
    \<and> (distinct (map fst secs) \<longrightarrow> distinct (map fst out))"
  using assms
proof (induction cs arbitrary: secs)
  case Nil
  then show ?case by simp
next
  case (Cons c cs)
  from Cons.prems obtain opts where c: "source_name show_float c \<notin> fst ` set secs" "source_section carried c = Inr opts"
    and rest: "add_sources show_float carried cs (secs @ [(source_name show_float c, opts)]) = Inr out"
    by (auto simp: source_name_def Let_def outcome_simps split: if_split_asm)
  from Cons.IH [OF rest] obtain new where "out = (secs @ [(source_name show_float c, opts)]) @ new"
    "map fst new = map (source_name show_float) cs"
    "\<forall>c \<in> set cs. \<exists>opts. source_section carried c = Inr opts \<and> (source_name show_float c, opts) \<in> set new"
    "distinct (map fst (secs @ [(source_name show_float c, opts)])) \<longrightarrow> distinct (map fst out)" by blast
  with c show ?case
    by (intro exI [of _ "(source_name show_float c, opts) # new"]) auto
qed

lemma streammux_not_source: "\<not> is_source_section ''streammux''"
  by (simp add: is_source_section_def)

lemma map_fst_dict_put: "k \<in> fst ` set d \<Longrightarrow> map fst (dict_put k v d) = map fst d"
  by (induction k v d rule: dict_put.induct) auto

lemma set_batch_size_sources:
  "filter is_source_section (map fst (set_batch_size n secs)) = filter is_source_section (map fst secs)
   \<and> (\<forall>k. is_source_section k \<longrightarrow> map_of (set_batch_size n secs) k = map_of secs k)
   \<and> (\<exists>opts. map_of (set_batch_size n secs) ''streammux'' = Some opts \<and> map_of opts ''batch-size'' = Some (nat_text n))"
proof (cases "map_of secs ''streammux''")
  case None
  then show ?thesis using streammux_not_source by (auto simp: set_batch_size_def map_add_def split: option.split)
next
  case (Some opts)
  have "''streammux'' \<in> fst ` set secs" using Some by (metis map_of_eq_None_iff option.distinct(1))
  then show ?thesis using Some streammux_not_source by (auto simp: set_batch_size_def map_fst_dict_put)
qed

text \<open>
  C22.  The generated configuration has one source section per camera, in the order of the cameras and no
  other, each with the camera's own URL, id and mount and with \<^verbatim>\<open>enable = 1\<close> whether or not the camera
  is enabled, and the batch size is the number of cameras.
\<close>

theorem runtime_config_sources:
  assumes "runtime_ini show_float (Inr doc) cameras = Inr doc'" and "distinct (map fst (ini_sections doc))"
  shows "filter is_source_section (map fst (ini_sections doc')) = map (source_name show_float) cameras
    \<and> (\<forall>c \<in> set cameras. \<exists>opts. map_of (ini_sections doc') (source_name show_float c) = Some opts
         \<and> map_of opts ''enable'' = Some ''1'' \<and> map_of opts ''camera-id'' = Some (str_uuid (dc_camera_id c))
         \<and> map_option JStr (map_of opts ''uri'') = Some (dc_stream_url c)
         \<and> map_option JStr (map_of opts ''output-path'') = Some (dc_output_path c))
    \<and> (\<exists>opts. map_of (ini_sections doc') ''streammux'' = Some opts
         \<and> map_of opts ''batch-size'' = Some (nat_text (length cameras)))"
proof -
  let ?kept = "filter (\<lambda>(s, _). \<not> is_source_section s) (ini_sections doc)"
  from assms(1) obtain items secs where
    add: "add_sources show_float (filter (\<lambda>(k, _). k \<notin> set CARRIED_SOURCE_KEYS_EXCLUDE) items) cameras ?kept = Inr secs"
    and doc': "ini_sections doc' = set_batch_size (length cameras) secs"
    by (auto simp: runtime_ini_def outcome_simps Let_def)
  let ?carried = "filter (\<lambda>(k, _). k \<notin> set CARRIED_SOURCE_KEYS_EXCLUDE) items"
  have disj: "fst ` set ?carried \<inter> set CARRIED_SOURCE_KEYS_EXCLUDE = {}" by auto
  from add_sources_Inr [OF add] obtain new where new: "secs = ?kept @ new" "map fst new = map (source_name show_float) cameras"
    "\<forall>c \<in> set cameras. \<exists>opts. source_section ?carried c = Inr opts \<and> (source_name show_float c, opts) \<in> set new"
    and dist: "distinct (map fst ?kept) \<longrightarrow> distinct (map fst secs)" by blast
  have "distinct (map fst ?kept)" using assms(2) by (simp add: distinct_map_filter)
  with dist have secs: "distinct (map fst secs)" by blast
  have none: "filter is_source_section (map fst ?kept) = []" by (auto simp: filter_empty_conv)
  have "filter is_source_section (map (source_name show_float) cameras) = map (source_name show_float) cameras"
    by (simp add: filter_id_conv)
  then have names: "filter is_source_section (map fst secs) = map (source_name show_float) cameras"
    using new none by simp
  have "\<exists>opts. map_of (set_batch_size (length cameras) secs) (source_name show_float c) = Some opts
         \<and> map_of opts ''enable'' = Some ''1'' \<and> map_of opts ''camera-id'' = Some (str_uuid (dc_camera_id c))
         \<and> map_option JStr (map_of opts ''uri'') = Some (dc_stream_url c)
         \<and> map_option JStr (map_of opts ''output-path'') = Some (dc_output_path c)" if c: "c \<in> set cameras" for c
  proof -
    obtain opts where o: "source_section ?carried c = Inr opts" "(source_name show_float c, opts) \<in> set secs"
      using new c by auto
    have "map_of secs (source_name show_float c) = Some opts" using secs o(2) by (rule map_of_is_SomeI)
    then have "map_of (set_batch_size (length cameras) secs) (source_name show_float c) = Some opts"
      using set_batch_size_sources by simp
    with source_section_Inr [OF o(1) disj] show ?thesis by blast
  qed
  with names doc' set_batch_size_sources [of "length cameras" secs] show ?thesis by simp
qed

definition demo_template :: ini where
  "demo_template = \<lparr>ini_defaults = [], ini_sections =
     [(''source0'', [(''enable'', ''1''), (''gpu-id'', ''0'')]), (''streammux'', [(''batch-size'', ''1'')])]\<rparr>"

definition demo_disabled_camera :: device_camera where
  "demo_disabled_camera = demo_camera\<lparr>dc_enabled := JBool False\<rparr>"

lemma demo_runtime_ini:
  "is_ok (runtime_ini (\<lambda>_. []) (Inr demo_template) [demo_camera])"
  "is_ok (runtime_ini (\<lambda>_. []) (Inr demo_template) [demo_disabled_camera])"
  by code_simp+

theorem runtime_config_sources_witness:
  "\<exists>doc' opts. runtime_ini (\<lambda>_. []) (Inr demo_template) [demo_disabled_camera] = Inr doc'
     \<and> map_of (ini_sections doc') ''source0'' = Some opts \<and> map_of opts ''enable'' = Some ''1''"
proof -
  obtain doc' where d: "runtime_ini (\<lambda>_. []) (Inr demo_template) [demo_disabled_camera] = Inr doc'"
    using demo_runtime_ini(2) by (auto simp: is_ok_iff)
  have "distinct (map fst (ini_sections demo_template))" by (simp add: demo_template_def)
  from runtime_config_sources [OF d this]
  obtain opts where "map_of (ini_sections doc') (source_name (\<lambda>_. []) demo_disabled_camera) = Some opts"
    "map_of opts ''enable'' = Some ''1''" by auto
  moreover have "source_name (\<lambda>_. []) demo_disabled_camera = ''source0''"
    by (simp add: source_name_def demo_disabled_camera_def demo_camera_def order_text_def int_text_def nat_text.simps)
  ultimately show ?thesis using d by auto
qed

text \<open>A URL with a percent sign that does not belong to an interpolation cannot be set.\<close>

lemma unsettable_url_raises:
  assumes "c \<in> set cameras" and "dc_stream_url c = JStr url" and "\<not> settable url"
  shows "\<exists>e. add_sources show_float carried cameras secs = Inl e
    \<and> e \<in> {DuplicateSectionError, TypeError, ValueError}"
  using assms(1)
proof (induction cameras arbitrary: secs)
  case Nil
  then show ?case by simp
next
  case (Cons d cs)
  have err: "e \<in> {TypeError, ValueError}" if "source_section carried d = Inl e" for e
  proof -
    have "set_options kvs opts = Inl x \<Longrightarrow> x = ValueError" for kvs opts x
      by (induction kvs arbitrary: opts) (auto simp: set_option_def outcome_simps split: if_split_asm)
    with that show ?thesis unfolding source_section_def by (auto split: option.split_asm simp del: set_options.simps)
  qed
  have bad: "source_section carried d = Inl TypeError \<or> source_section carried d = Inl ValueError" if "d = c"
    using assms(2,3) that by (auto simp: source_section_def set_option_def outcome_simps split: option.split)
  show ?case
  proof (cases "source_section carried d")
    case (Inl e)
    with err [OF Inl] show ?thesis by (auto simp: Let_def)
  next
    case (Inr opts)
    with bad have "c \<in> set cs" using Cons.prems by auto
    with Cons.IH Inr show ?thesis by (auto simp: Let_def)
  qed
qed

end
