(* ===== verification/ConfigCoordinator.thy ===== *)
theory ConfigCoordinator
  imports ConfigClient DeepStream IdentityStore Backoff
begin

text \<open>
  \<^verbatim>\<open>configuration/coordinator.py\<close>: the component that fetches, validates, caches and applies the camera
  configuration and runs the Bridge on it.

  The world of the coordinator is the identity and cache tables, the generated configuration file,
  the process manager and the coordinator's own fields.  What one start or one poll meets (faults,
  the answer of the Backend, the parsed template) is its input.
\<close>

record config_settings =
  cs_base_url :: string
  cs_time :: time_library
  cs_bad_netloc :: "string \<Rightarrow> bool"
  cs_show_float :: "pyfloat \<Rightarrow> string"
  cs_max_cameras :: int
  cs_tuning :: tuning

text \<open>The checks of the constructor; the idle interval is the refresh interval.\<close>

definition mk_coordinator_tuning :: "tuning \<Rightarrow> exn + tuning" where
  "mk_coordinator_tuning t =
     (if fl_le (tn_idle_interval t) (Fin 0) \<or> fl_le (tn_initial_backoff t) (Fin 0)
         \<or> fl_less (tn_max_backoff t) (tn_initial_backoff t)
      then Inl ValueError else Inr t)"

text \<open>The background task of a component: none, running, or ended by an exception.\<close>

datatype worker_task = NoTask | TaskRunning | TaskDead exn

record config_world =
  cw_identity :: identity_table
  cw_cache :: cache_table
  cw_generated :: "string option"
  cw_manager :: process_manager
  cw_tracker :: source_tracker
  cw_applied :: "device_configuration option"
  cw_bridge_running :: bool
  cw_task :: worker_task
  cw_client_closed :: bool

record config_input =
  pl_load_fault :: fault
  pl_cache_fault :: fault
  pl_get :: "config_request \<Rightarrow> http_outcome"
  pl_response_bytes :: nat
  pl_save_fault :: fault
  pl_stop_fault :: "exn option"
  pl_template :: "exn + ini"
  pl_write_fault :: "exn option"
  pl_start_fault :: "exn option"
  pl_close_fault :: "exn option"

fun is_configuration_error :: "exn \<Rightarrow> bool" where
  "is_configuration_error (ConfigurationValidationError _) = True"
| "is_configuration_error _ = False"

section \<open>Applying a configuration\<close>

definition stop_bridge :: "config_input \<Rightarrow> config_world \<Rightarrow> (exn + unit) \<times> config_world" where
  "stop_bridge inp w =
     (if cw_bridge_running w
      then (case stop_process (pl_stop_fault inp) (cw_manager w) of
              (Inl e, m) \<Rightarrow> (Inl e, w\<lparr>cw_manager := m\<rparr>)
            | (Inr _, m) \<Rightarrow> (Inr (), w\<lparr>cw_manager := m, cw_bridge_running := False\<rparr>))
      else (Inr (), w))"

definition start_bridge :: "config_input \<Rightarrow> config_world \<Rightarrow> (exn + unit) \<times> config_world" where
  "start_bridge inp w =
     (case start_process (pl_start_fault inp) (cw_generated w) (cw_manager w) of
        (Inl e, m) \<Rightarrow> (Inl e, w\<lparr>cw_manager := m\<rparr>)
      | (Inr _, m) \<Rightarrow> (Inr (), w\<lparr>cw_manager := m, cw_bridge_running := True\<rparr>))"

definition apply_sync :: "config_settings \<Rightarrow> config_input \<Rightarrow> device_configuration \<Rightarrow> config_world
    \<Rightarrow> (exn + unit) \<times> config_world" where
  "apply_sync cfg inp cf w =
     (case generate_runtime_config (cs_show_float cfg) (pl_template inp) (pl_write_fault inp) (cf_cameras cf)
             (cw_generated w) of
        (Inl e, f) \<Rightarrow> (Inl e, w\<lparr>cw_generated := f\<rparr>)
      | (Inr _, f) \<Rightarrow>
          (Inr (), w\<lparr>cw_generated := f, cw_tracker := snd (install_generation cf (cw_tracker w)),
             cw_applied := Some cf\<rparr>))"

text \<open>The second half, shared by the start and the poll: start the Bridge unless there is no camera.\<close>

definition apply_and_start :: "config_settings \<Rightarrow> config_input \<Rightarrow> device_configuration \<Rightarrow> config_world
    \<Rightarrow> (exn + unit) \<times> config_world" where
  "apply_and_start cfg inp cf w =
     (case apply_sync cfg inp cf w of
        (Inl e, w) \<Rightarrow> (Inl e, w)
      | (Inr _, w) \<Rightarrow> if cf_cameras cf = [] then (Inr (), w) else start_bridge inp w)"

definition apply_async :: "config_settings \<Rightarrow> config_input \<Rightarrow> device_configuration \<Rightarrow> config_world
    \<Rightarrow> (exn + unit) \<times> config_world" where
  "apply_async cfg inp cf w =
     (case stop_bridge inp w of
        (Inl e, w) \<Rightarrow> (Inl e, w)
      | (Inr _, w) \<Rightarrow> apply_and_start cfg inp cf w)"

section \<open>Start and stop\<close>

definition load_and_apply_cache :: "config_settings \<Rightarrow> config_input \<Rightarrow> uuid \<Rightarrow> config_world
    \<Rightarrow> (exn + bool) \<times> config_world" where
  "load_and_apply_cache cfg inp expected w =
     (case load_cache (pl_cache_fault inp) (cw_cache w) of
        Inl e \<Rightarrow> (Inl e, w)
      | Inr None \<Rightarrow> (Inr False, w)
      | Inr (Some cached) \<Rightarrow>
          (case bind_result (deserialize_configuration (cs_time cfg) (cc_config_json cached)) (\<lambda>cf.
                  bind_result (validate_configuration (cs_bad_netloc cfg) expected (cs_max_cameras cfg) cf)
                    (\<lambda>_. Inr cf)) of
             Inl e \<Rightarrow> (if is_configuration_error e \<or> is_value_error e then Inr False else Inl e, w)
           | Inr cf \<Rightarrow>
               (case apply_and_start cfg inp cf w of (Inl e, w) \<Rightarrow> (Inl e, w) | (Inr _, w) \<Rightarrow> (Inr True, w))))"

definition start_coordinator :: "config_settings \<Rightarrow> config_input \<Rightarrow> config_world worker
    \<Rightarrow> (exn + unit) \<times> config_world worker" where
  "start_coordinator cfg inp s =
     (let w = wk_world s
      in if cw_task w \<noteq> NoTask then (Inr (), s)
         else case load_identity (pl_load_fault inp) (cw_identity w) of
           Inl e \<Rightarrow> (Inl e, s)
         | Inr identity \<Rightarrow>
             (case (case identity of
                      Some i \<Rightarrow>
                        if di_operational_state i = OPERATIONAL
                        then (case parse_uuid (di_device_id i) of
                                Inl e \<Rightarrow> (Inl e, w)
                              | Inr u \<Rightarrow> load_and_apply_cache cfg inp u w)
                        else (Inr False, w)
                    | None \<Rightarrow> (Inr False, w)) of
                (Inl e, w) \<Rightarrow> (Inl e, s\<lparr>wk_world := w\<rparr>)
              | (Inr _, w) \<Rightarrow> (Inr (), s\<lparr>wk_attempt := 0, wk_world := w\<lparr>cw_task := TaskRunning\<rparr>\<rparr>)))"

text \<open>
  The poll task is cancelled first; where it then was is an input of the poll it was in.  Awaiting a task that an
  exception has ended raises that exception before the Bridge is stopped.
\<close>

definition stop_coordinator :: "config_input \<Rightarrow> config_world worker \<Rightarrow> (exn + unit) \<times> config_world worker" where
  "stop_coordinator inp s =
     (let w = (wk_world s)\<lparr>cw_task := NoTask\<rparr>
      in case (case cw_task (wk_world s) of
                 TaskDead e \<Rightarrow> if e = CancelledError then (Inr (), w) else (Inl e, w)
               | _ \<Rightarrow> (Inr (), w)) of
           (Inl e, w) \<Rightarrow> (Inl e, s\<lparr>wk_world := w\<rparr>)
         | (Inr _, w) \<Rightarrow>
             (case stop_bridge inp w of
                (Inl e, w) \<Rightarrow> (Inl e, s\<lparr>wk_world := w\<rparr>)
              | (Inr _, w) \<Rightarrow>
                  (case pl_close_fault inp of
                     Some e \<Rightarrow> (Inl e, s\<lparr>wk_world := w\<rparr>)
                   | None \<Rightarrow> (Inr (), s\<lparr>wk_world := w\<lparr>cw_client_closed := True\<rparr>\<rparr>))))"

text \<open>
  After the poll task has died, stopping the coordinator raises with the Bridge as it was and the client open; only
  a second stop, which finds no task, gets to them.
\<close>

lemma dead_poll_keeps_bridge:
  assumes "cw_task (wk_world s) = TaskDead e" and "e \<noteq> CancelledError"
  shows "stop_coordinator inp s = (Inl e, s\<lparr>wk_world := (wk_world s)\<lparr>cw_task := NoTask\<rparr>\<rparr>)"
  using assms by (simp add: stop_coordinator_def Let_def)

section \<open>The poll loop\<close>

definition poll_once :: "config_settings \<Rightarrow> config_input \<Rightarrow> config_world \<Rightarrow> (exn + bool) \<times> config_world" where
  "poll_once cfg inp w =
     (case load_identity (pl_load_fault inp) (cw_identity w) of
        Inl e \<Rightarrow> (Inl e, w)
      | Inr None \<Rightarrow> (Inr True, w)
      | Inr (Some i) \<Rightarrow>
          if di_operational_state i \<noteq> OPERATIONAL then (Inr True, w)
          else (case di_shared_secret i of
            None \<Rightarrow> (Inl AssertionError, w)
          | Some secret \<Rightarrow>
              (case fetch_configuration (cs_base_url cfg) (cs_time cfg) (cs_max_cameras cfg) (pl_get inp)
                      (pl_response_bytes inp) (di_device_id i) secret of
                 Inl e \<Rightarrow> (Inl e, w)
               | Inr (ConfigurationFetchFailure _ _) \<Rightarrow> (Inr False, w)
               | Inr (Fetched cf) \<Rightarrow>
                   (case bind_result (parse_uuid (di_device_id i)) (\<lambda>u.
                           validate_configuration (cs_bad_netloc cfg) u (cs_max_cameras cfg) cf) of
                      Inl e \<Rightarrow> (if is_configuration_error e then Inr False else Inl e, w)
                    | Inr _ \<Rightarrow>
                        if map_option cf_configuration_version (cw_applied w) = Some (cf_configuration_version cf)
                        then (Inr True, w)
                        else (case serialize_configuration (cs_time cfg) cf of
                                Inl e \<Rightarrow> (Inl e, w)
                              | Inr doc \<Rightarrow>
                                  (case save_cache (pl_save_fault inp) doc (cf_generated_at_utc cf) (cw_cache w) of
                                     (Inl e, t) \<Rightarrow> (Inl e, w\<lparr>cw_cache := t\<rparr>)
                                   | (Inr _, t) \<Rightarrow>
                                       (case apply_async cfg inp cf (w\<lparr>cw_cache := t\<rparr>) of
                                          (Inl e, w) \<Rightarrow> (Inl e, w)
                                        | (Inr _, w) \<Rightarrow> (Inr True, w))))))))"

text \<open>One turn of \<^verbatim>\<open>_run\<close>; both backoffs are outside the \<^verbatim>\<open>try\<close>.\<close>

definition backoff_iteration :: "config_settings \<Rightarrow> pyfloat \<Rightarrow> config_world worker \<Rightarrow> config_world task" where
  "backoff_iteration cfg jitter s =
     (case sleep_backoff (cs_tuning cfg) jitter s of (Inl e, s) \<Rightarrow> Ended e | (Inr _, s) \<Rightarrow> Running s)"

definition poll_iteration :: "config_settings \<Rightarrow> pyfloat \<Rightarrow> config_input \<Rightarrow> config_world worker \<Rightarrow> config_world task" where
  "poll_iteration cfg jitter inp s =
     (case poll_once cfg inp (wk_world s) of
        (Inr True, w) \<Rightarrow> Running (sleep_for (tn_idle_interval (cs_tuning cfg)) (reset_backoff (s\<lparr>wk_world := w\<rparr>)))
      | (Inl e, w) \<Rightarrow>
          if \<not> is_exception e then Ended e else backoff_iteration cfg jitter (s\<lparr>wk_world := w\<rparr>)
      | (Inr False, w) \<Rightarrow> backoff_iteration cfg jitter (s\<lparr>wk_world := w\<rparr>))"

fun poll_loop :: "config_settings \<Rightarrow> (pyfloat \<times> config_input) list \<Rightarrow> config_world worker \<Rightarrow> config_world task" where
  "poll_loop cfg [] s = Running s"
| "poll_loop cfg ((j, inp) # inps) s =
     (case poll_iteration cfg j inp s of Running s' \<Rightarrow> poll_loop cfg inps s' | Ended e \<Rightarrow> Ended e)"

section \<open>What a poll can do\<close>

definition fetched_valid :: "config_settings \<Rightarrow> config_input \<Rightarrow> config_world \<Rightarrow> device_configuration \<Rightarrow> bool" where
  "fetched_valid cfg inp w cf \<longleftrightarrow>
     (\<exists>i secret u. load_identity (pl_load_fault inp) (cw_identity w) = Inr (Some i)
        \<and> di_operational_state i = OPERATIONAL \<and> di_shared_secret i = Some secret
        \<and> fetch_configuration (cs_base_url cfg) (cs_time cfg) (cs_max_cameras cfg) (pl_get inp)
            (pl_response_bytes inp) (di_device_id i) secret = Inr (Fetched cf)
        \<and> parse_uuid (di_device_id i) = Inr u
        \<and> validate_configuration (cs_bad_netloc cfg) u (cs_max_cameras cfg) cf = Inr ())"

lemma fetched_valid_unique: "fetched_valid cfg inp w cf \<Longrightarrow> fetched_valid cfg inp w cf' \<Longrightarrow> cf' = cf"
  by (auto simp: fetched_valid_def)

lemma poll_once_cases:
  obtains (quiet) r where "poll_once cfg inp w = (r, w)" "\<nexists>cf. fetched_valid cfg inp w cf"
  | (valid) cf where "fetched_valid cfg inp w cf"
      "poll_once cfg inp w =
        (if map_option cf_configuration_version (cw_applied w) = Some (cf_configuration_version cf)
         then (Inr True, w)
         else (case serialize_configuration (cs_time cfg) cf of
                 Inl e \<Rightarrow> (Inl e, w)
               | Inr doc \<Rightarrow>
                   (case save_cache (pl_save_fault inp) doc (cf_generated_at_utc cf) (cw_cache w) of
                      (Inl e, t) \<Rightarrow> (Inl e, w\<lparr>cw_cache := t\<rparr>)
                    | (Inr _, t) \<Rightarrow>
                        (case apply_async cfg inp cf (w\<lparr>cw_cache := t\<rparr>) of
                           (Inl e, w) \<Rightarrow> (Inl e, w)
                         | (Inr _, w) \<Rightarrow> (Inr True, w)))))"
proof (cases "\<exists>cf. fetched_valid cfg inp w cf")
  case True
  then obtain cf where cf: "fetched_valid cfg inp w cf" by blast
  show ?thesis
    by (rule valid [OF cf]) (use cf in \<open>auto simp: fetched_valid_def poll_once_def\<close>)
next
  case False
  have "\<exists>r. poll_once cfg inp w = (r, w)"
  proof (cases "load_identity (pl_load_fault inp) (cw_identity w)")
    case (Inl e)
    then show ?thesis by (simp add: poll_once_def)
  next
    case id: (Inr x)
    show ?thesis
    proof (cases x)
      case None
      with id show ?thesis by (simp add: poll_once_def)
    next
      case i: (Some i)
      show ?thesis
      proof (cases "di_operational_state i = OPERATIONAL \<and> di_shared_secret i \<noteq> None")
        case False
        with id i show ?thesis by (cases "di_shared_secret i") (auto simp: poll_once_def)
      next
        case True
        then obtain secret where st: "di_operational_state i = OPERATIONAL" "di_shared_secret i = Some secret" by auto
        let ?f = "fetch_configuration (cs_base_url cfg) (cs_time cfg) (cs_max_cameras cfg) (pl_get inp)
            (pl_response_bytes inp) (di_device_id i) secret"
        show ?thesis
        proof (cases ?f)
          case (Inl e)
          with id i st show ?thesis by (simp add: poll_once_def)
        next
          case f: (Inr y)
          show ?thesis
          proof (cases y)
            case (ConfigurationFetchFailure a b)
            with id i st f show ?thesis by (simp add: poll_once_def)
          next
            case (Fetched cf)
            obtain z where z: "bind_result (parse_uuid (di_device_id i)) (\<lambda>u.
                validate_configuration (cs_bad_netloc cfg) u (cs_max_cameras cfg) cf) = z" by simp
            show ?thesis
            proof (cases z)
              case (Inl e)
              with id i st f Fetched z show ?thesis by (simp add: poll_once_def)
            next
              case (Inr v)
              with z id i st f Fetched have "fetched_valid cfg inp w cf"
                by (auto simp: fetched_valid_def outcome_simps)
              with \<open>\<not> (\<exists>cf. fetched_valid cfg inp w cf)\<close> show ?thesis by blast
            qed
          qed
        qed
      qed
    qed
  qed
  with False quiet show ?thesis by blast
qed

section \<open>The Bridge and the mapping\<close>

text \<open>
  What ties the running Bridge to the Agent's view of it: there is at most one child process, and a
  live one reads the file generated from the applied configuration, whose mapping is the current
  one.
\<close>

definition bridge_consistent :: "config_settings \<Rightarrow> config_world \<Rightarrow> bool" where
  "bridge_consistent cfg w \<longleftrightarrow>
     one_process (cw_manager w)
     \<and> (pm_process (cw_manager w) \<noteq> None \<longrightarrow> cw_bridge_running w)
     \<and> (\<forall>x \<in> set (pm_live (cw_manager w)).
          \<exists>cf template doc n. cw_applied w = Some cf
            \<and> runtime_ini (cs_show_float cfg) template (cf_cameras cf) = Inr doc
            \<and> snd x = Some (ini_text doc)
            \<and> st_current (cw_tracker w) = Some (fst (install_generation cf \<lparr>st_next_generation = n, st_current = None\<rparr>)))"

lemma bridge_consistent_frame:
  "cw_manager w' = cw_manager w \<Longrightarrow> cw_tracker w' = cw_tracker w \<Longrightarrow> cw_applied w' = cw_applied w
   \<Longrightarrow> cw_bridge_running w' = cw_bridge_running w \<Longrightarrow> bridge_consistent cfg w' = bridge_consistent cfg w"
  by (simp add: bridge_consistent_def)

lemma one_process_idle: "one_process m \<Longrightarrow> pm_process m = None \<Longrightarrow> pm_live m = []"
  by (cases "pm_live m") (auto simp: one_process_def)

lemma stop_bridge_consistent:
  assumes "bridge_consistent cfg w" and "stop_bridge inp w = (r, w')"
  shows "bridge_consistent cfg w' \<and> (r = Inr () \<longrightarrow> \<not> cw_bridge_running w')
    \<and> cw_applied w' = cw_applied w \<and> cw_generated w' = cw_generated w \<and> cw_cache w' = cw_cache w
    \<and> cw_identity w' = cw_identity w \<and> cw_tracker w' = cw_tracker w \<and> cw_task w' = cw_task w"
proof (cases "cw_bridge_running w")
  case False
  with assms show ?thesis by (simp add: stop_bridge_def)
next
  case True
  obtain q m where q: "stop_process (pl_stop_fault inp) (cw_manager w) = (q, m)"
    by (cases "stop_process (pl_stop_fault inp) (cw_manager w)")
  have one: "one_process m"
    using one_process_steps(2) [of "cw_manager w" "pl_stop_fault inp"] assms(1) q by (simp add: bridge_consistent_def)
  have m: "(q = Inr () \<longrightarrow> pm_process m = None) \<and> set (pm_live m) \<subseteq> set (pm_live (cw_manager w))"
    using q by (auto simp: stop_process_def split: option.split_asm)
  show ?thesis
  proof (cases q)
    case (Inl e)
    then have "w' = w\<lparr>cw_manager := m\<rparr>" "r = Inl e" using assms(2) True q by (simp_all add: stop_bridge_def)
    with assms(1) one m True show ?thesis by (auto simp: bridge_consistent_def)
  next
    case (Inr u)
    then have w': "w' = w\<lparr>cw_manager := m, cw_bridge_running := False\<rparr>" using assms(2) True q by (simp add: stop_bridge_def)
    have "pm_process m = None" "pm_live m = []" using m Inr one_process_idle [OF one] by simp_all
    with w' one show ?thesis by (simp add: bridge_consistent_def)
  qed
qed

lemma generate_runtime_config_cases:
  assumes "generate_runtime_config sf template wr cams f = (r, f')"
  obtains (failed) e where "r = Inl e" "f' = f"
  | (written) doc where "r = Inr ()" "runtime_ini sf template cams = Inr doc" "f' = Some (ini_text doc)"
  using assms by (auto simp: generate_runtime_config_def split: sum.split_asm option.split_asm)

lemma apply_and_start_consistent:
  assumes "bridge_consistent cfg w" and "\<not> cw_bridge_running w" and "apply_and_start cfg inp cf w = (r, w')"
  shows "bridge_consistent cfg w' \<and> cw_cache w' = cw_cache w \<and> cw_identity w' = cw_identity w \<and> cw_task w' = cw_task w"
proof -
  have idle: "pm_process (cw_manager w) = None" using assms(1,2) by (auto simp: bridge_consistent_def)
  then have live: "pm_live (cw_manager w) = []"
    using assms(1) one_process_idle by (simp add: bridge_consistent_def)
  obtain q f where g: "generate_runtime_config (cs_show_float cfg) (pl_template inp) (pl_write_fault inp) (cf_cameras cf)
      (cw_generated w) = (q, f)" by (cases "generate_runtime_config (cs_show_float cfg) (pl_template inp) (pl_write_fault inp)
        (cf_cameras cf) (cw_generated w)")
  from g show ?thesis
  proof (cases rule: generate_runtime_config_cases)
    case (failed e)
    then have "w' = w" using assms(3) g by (simp add: apply_and_start_def apply_sync_def)
    with assms(1) show ?thesis by simp
  next
    case (written doc)
    let ?w = "w\<lparr>cw_generated := f, cw_tracker := snd (install_generation cf (cw_tracker w)), cw_applied := Some cf\<rparr>"
    have a: "apply_sync cfg inp cf w = (Inr (), ?w)" using g written by (simp add: apply_sync_def)
    have c: "bridge_consistent cfg ?w" using assms(1) live by (simp add: bridge_consistent_def)
    show ?thesis
    proof (cases "cf_cameras cf = [] \<or> pl_start_fault inp \<noteq> None")
      case True
      then have "w' = ?w"
        using assms(3) a idle by (auto simp: apply_and_start_def start_bridge_def start_process_def split: if_split_asm)
      with c show ?thesis by simp
    next
      case False
      then obtain m where m: "start_process None f (cw_manager w) = (Inr (), m)" and w': "w' = ?w\<lparr>cw_manager := m, cw_bridge_running := True\<rparr>"
        using assms(3) a idle by (auto simp: apply_and_start_def start_bridge_def start_process_def)
      have one: "one_process m"
        using one_process_steps(1) [of "cw_manager w" None f] assms(1) m by (simp add: bridge_consistent_def)
      have "pm_live m = [(pm_next (cw_manager w), f)]" using m idle live by (auto simp: start_process_def)
      moreover have "st_current (cw_tracker w')
          = Some (fst (install_generation cf \<lparr>st_next_generation = st_next_generation (cw_tracker w), st_current = None\<rparr>))"
        by (simp add: w' install_generation_def Let_def)
      ultimately show ?thesis using one written w' by (auto simp: bridge_consistent_def)
    qed
  qed
qed

text \<open>
  The work of the coordinator and of its surroundings between a start and a stop: a turn of the poll loop with
  anything it may meet (a turn that ends the loop leaves a dead task), the end of the child process, a change of
  the stored identity by another component.
\<close>

inductive config_work :: "config_settings \<Rightarrow> config_world worker \<Rightarrow> config_world worker \<Rightarrow> bool" for cfg where
  poll: "cw_task (wk_world s) = TaskRunning \<Longrightarrow> poll_iteration cfg jitter inp s = Running s' \<Longrightarrow> config_work cfg s s'"
| dies: "cw_task (wk_world s) = TaskRunning \<Longrightarrow> poll_iteration cfg jitter inp s = Ended e
    \<Longrightarrow> poll_once cfg inp (wk_world s) = (r, w') \<Longrightarrow> config_work cfg s (s\<lparr>wk_world := w'\<lparr>cw_task := TaskDead e\<rparr>\<rparr>)"
| exit: "config_work cfg s (s\<lparr>wk_world := (wk_world s)\<lparr>cw_manager := process_exit (cw_manager (wk_world s))\<rparr>\<rparr>)"
| other: "config_work cfg s (s\<lparr>wk_world := (wk_world s)\<lparr>cw_identity := t\<rparr>\<rparr>)"

inductive_cases config_workE: "config_work cfg s s'"

definition new_coordinator :: "identity_table \<Rightarrow> cache_table \<Rightarrow> string option \<Rightarrow> config_world worker" where
  "new_coordinator ids cache generated = \<lparr>wk_attempt = 0, wk_slept = [], wk_world =
     \<lparr>cw_identity = ids, cw_cache = cache, cw_generated = generated,
      cw_manager = \<lparr>pm_process = None, pm_stopping = False, pm_live = [], pm_next = 0\<rparr>,
      cw_tracker = new_tracker, cw_applied = None, cw_bridge_running = False, cw_task = NoTask,
      cw_client_closed = False\<rparr>\<rparr>"

lemma load_and_apply_cache_consistent:
  assumes "bridge_consistent cfg w" and "\<not> cw_bridge_running w" and "load_and_apply_cache cfg inp u w = (r, w')"
  shows "bridge_consistent cfg w'"
proof -
  have "w' = w \<or> (\<exists>cf q. apply_and_start cfg inp cf w = (q, w'))"
    using assms(3) unfolding load_and_apply_cache_def
    by (auto split: sum.split_asm option.split_asm prod.split_asm)
  then show ?thesis using assms(1,2) apply_and_start_consistent by blast
qed

lemma poll_once_consistent:
  assumes "bridge_consistent cfg w" and "poll_once cfg inp w = (r, w')"
  shows "bridge_consistent cfg w'"
proof (cases rule: poll_once_cases [of cfg inp w])
  case (quiet q)
  with assms show ?thesis by simp
next
  case (valid cf)
  have cache: "bridge_consistent cfg (w\<lparr>cw_cache := t\<rparr>)" for t
    using assms(1) by (simp add: bridge_consistent_def)
  have async: "bridge_consistent cfg x" if "apply_async cfg inp cf (w\<lparr>cw_cache := t\<rparr>) = (q, x)" for t q x
  proof -
    obtain y v where s: "stop_bridge inp (w\<lparr>cw_cache := t\<rparr>) = (y, v)" by (cases "stop_bridge inp (w\<lparr>cw_cache := t\<rparr>)")
    note v = stop_bridge_consistent [OF cache s]
    show ?thesis
    proof (cases y)
      case (Inl e)
      with that s v show ?thesis by (simp add: apply_async_def)
    next
      case (Inr a)
      with that s v apply_and_start_consistent [of cfg v inp cf q x] show ?thesis by (simp add: apply_async_def)
    qed
  qed
  show ?thesis
    using assms valid(2) cache async
    by (auto split: if_split_asm sum.split_asm prod.split_asm)
qed

lemma bridge_consistent_task [simp]:
  "bridge_consistent cfg (w\<lparr>cw_task := b\<rparr>) = bridge_consistent cfg w"
  "bridge_consistent cfg (w\<lparr>cw_client_closed := c\<rparr>) = bridge_consistent cfg w"
  by (simp_all add: bridge_consistent_def)

lemma start_coordinator_consistent:
  assumes "start_coordinator cfg inp s = (r, s')" and "bridge_consistent cfg (wk_world s)" and "\<not> cw_bridge_running (wk_world s)"
  shows "bridge_consistent cfg (wk_world s')"
proof -
  have "wk_world s' = wk_world s \<or> (\<exists>u q w. load_and_apply_cache cfg inp u (wk_world s) = (q, w) \<and>
      (wk_world s' = w \<or> wk_world s' = w\<lparr>cw_task := TaskRunning\<rparr>)) \<or> wk_world s' = (wk_world s)\<lparr>cw_task := TaskRunning\<rparr>"
    using assms(1) unfolding start_coordinator_def Let_def
    by (auto split: if_split_asm sum.split_asm option.split_asm prod.split_asm) blast+
  then show ?thesis using assms(2,3) load_and_apply_cache_consistent by (metis bridge_consistent_task(1))
qed

lemma stop_coordinator_consistent:
  assumes "stop_coordinator inp s = (r, s')" and "bridge_consistent cfg (wk_world s)"
  shows "bridge_consistent cfg (wk_world s')"
proof -
  let ?w = "(wk_world s)\<lparr>cw_task := NoTask\<rparr>"
  obtain q w where q: "stop_bridge inp ?w = (q, w)" by (cases "stop_bridge inp ?w")
  have "wk_world s' \<in> {?w, w, w\<lparr>cw_client_closed := True\<rparr>}"
    using assms(1) q
    by (auto simp: stop_coordinator_def Let_def split: worker_task.split_asm if_split_asm sum.split_asm option.split_asm)
  then show ?thesis using stop_bridge_consistent [OF _ q, of cfg] assms(2) by auto
qed

lemma poll_iteration_world:
  "poll_iteration cfg j inp s = Running s' \<Longrightarrow> wk_world s' = snd (poll_once cfg inp (wk_world s))"
  by (auto simp: poll_iteration_def backoff_iteration_def sleep_backoff_cases sleep_for_def reset_backoff_def
      split: prod.split_asm sum.split_asm bool.split_asm if_split_asm)

lemma config_work_consistent:
  assumes "config_work cfg s s'" and "bridge_consistent cfg (wk_world s)"
  shows "bridge_consistent cfg (wk_world s')"
  using assms(1)
proof cases
  case (poll jitter inp)
  then show ?thesis using poll_once_consistent [OF assms(2)] poll_iteration_world by (metis surjective_pairing)
next
  case (dies jitter inp e r w')
  then show ?thesis using poll_once_consistent [OF assms(2) dies(4)] by simp
next
  case exit
  let ?m = "cw_manager (wk_world s)"
  have "set (pm_live (process_exit ?m)) \<subseteq> set (pm_live ?m)" "pm_process (process_exit ?m) \<noteq> None \<longrightarrow> pm_process ?m \<noteq> None"
    by (auto simp: process_exit_def Let_def split: option.split_asm if_split_asm)
  moreover have "one_process (process_exit ?m)" using assms(2) one_process_steps(3) by (simp add: bridge_consistent_def)
  ultimately show ?thesis using assms(2) exit by (auto simp: bridge_consistent_def)
next
  case (other t)
  with assms(2) show ?thesis by (simp add: bridge_consistent_def)
qed

text \<open>The demonstration run: an operational device, one poll that applies one camera.\<close>

definition demo_config_row :: identity_row where
  "demo_config_row = demo_identity_row\<lparr>ir_device_id := str_uuid 3\<rparr>"

definition demo_wire_camera :: "string \<Rightarrow> json" where
  "demo_wire_camera url = JObj [(''cameraId'', JStr (str_uuid 7)), (''cameraKey'', JStr ''cam''), (''name'', JStr ''Door''),
     (''streamUrl'', JStr url), (''enabled'', JBool True), (''sourceOrder'', JInt 0), (''outputPath'', JStr ''cameras/cam'')]"

definition demo_config_answer :: "string \<Rightarrow> http_outcome" where
  "demo_config_answer url = HttpResponse 200 (Inr (JObj [(''success'', JBool True), (''data'', JObj
     [(''schemaVersion'', JInt 1), (''configurationVersion'', JStr ''v1''), (''deviceId'', JStr (str_uuid 3)),
      (''branchId'', JStr (str_uuid 4)), (''generatedAtUtc'', JStr ''xxxxx''), (''cameras'', JArr [demo_wire_camera url])])]))"

definition demo_config_settings :: config_settings where
  "demo_config_settings = \<lparr>cs_base_url = ''h'', cs_time = demo_time, cs_bad_netloc = (\<lambda>_. False), cs_show_float = (\<lambda>_. []),
     cs_max_cameras = 4, cs_tuning = \<lparr>tn_batch_size = 1, tn_idle_interval = Fin 60, tn_initial_backoff = Fin 1,
       tn_max_backoff = Fin 60\<rparr>\<rparr>"

definition demo_config_input :: "string \<Rightarrow> exn option \<Rightarrow> config_input" where
  "demo_config_input url fault = \<lparr>pl_load_fault = None, pl_cache_fault = None, pl_get = (\<lambda>_. demo_config_answer url),
     pl_response_bytes = 500, pl_save_fault = None, pl_stop_fault = None, pl_template = Inr demo_template,
     pl_write_fault = None, pl_start_fault = fault, pl_close_fault = None\<rparr>"

definition demo_url_configuration :: "string \<Rightarrow> device_configuration" where
  "demo_url_configuration url = demo_configuration\<lparr>cf_cameras := [demo_camera\<lparr>dc_stream_url := JStr url\<rparr>]\<rparr>"

lemma demo_url_same: "demo_url_configuration ''rtsp://h/1'' = demo_configuration"
  by (simp add: demo_url_configuration_def demo_configuration_def demo_camera_def)

lemma demo_fetch:
  "fetch_configuration ''h'' demo_time 4 (\<lambda>_. demo_config_answer url) 500 dev secret = Inr (Fetched (demo_url_configuration url))"
proof -
  have "wire_camera (demo_wire_camera url) = Inr (Some (demo_camera\<lparr>dc_stream_url := JStr url\<rparr>))"
    by (simp add: wire_camera_def demo_wire_camera_def camera_fields_def jitem_def none_if_shape_error_def
        camera_of_fields_def demo_camera_def)
  then show ?thesis
    by (simp add: fetch_configuration_def demo_config_answer_def classify_fetch_def parse_fetch_success_def Let_def
        MAX_RESPONSE_BYTES_def safe_json_def jget_none_def parse_configuration_def configuration_fields_def jitem_def
        parse_generated_at_def demo_time_def none_if_shape_error_def is_int_instance_def
        demo_url_configuration_def demo_configuration_def)
qed

lemma demo_config_load:
  "\<exists>i. load_identity None [demo_config_row] = Inr (Some i) \<and> di_operational_state i = OPERATIONAL
     \<and> di_shared_secret i = Some ''s'' \<and> di_device_id i = str_uuid 3"
  by (simp add: demo_config_row_def demo_identity_row_def load_identity_def load_rows_def row_to_identity_def
      parse_operational_state_def mk_device_identity_def)

lemma demo_fetched_valid:
  assumes "validate_configuration (\<lambda>_. False) 3 4 (demo_url_configuration url) = Inr ()"
    and "cw_identity w = [demo_config_row]"
  shows "fetched_valid demo_config_settings (demo_config_input url fault) w (demo_url_configuration url)"
  using demo_config_load demo_fetch assms
  by (auto simp: fetched_valid_def demo_config_settings_def demo_config_input_def parse_str_uuid)

section \<open>When applying fails\<close>

lemma interpolate_error: "interpolate n m v = Inl e \<Longrightarrow> e = InterpolationError"
proof (induction n m v arbitrary: e rule: interpolate.induct)
  case (3 n m c s)
  show ?case
  proof (cases "c = CHR ''%''")
    case False
    with 3 show ?thesis by (auto simp: outcome_simps)
  next
    case True
    with 3 show ?thesis
      by (auto simp: outcome_simps split: list.split_asm if_split_asm option.split_asm)
  qed
qed simp_all

lemma map_result_error: "map_result f xs = Inl e \<Longrightarrow> \<exists>x \<in> set xs. f x = Inl e"
  by (induction xs) (auto simp: outcome_simps)

lemma unsettable_runtime_ini:
  assumes "c \<in> set cameras" and "dc_stream_url c = JStr url" and "\<not> settable url"
  shows "\<exists>e. runtime_ini sf (Inr doc) cameras = Inl e \<and> is_exception e"
proof (cases "first_source_section doc")
  case (Inl e)
  then have "is_exception e" by (auto simp: first_source_section_def split: list.split_asm)
  with Inl show ?thesis by (simp add: runtime_ini_def)
next
  case (Inr first)
  show ?thesis
  proof (cases "section_items doc (the (map_of (ini_sections doc) first))")
    case (Inl e)
    then have "is_exception e"
      by (auto simp: section_items_def Let_def outcome_simps dest!: map_result_error interpolate_error)
    with Inl Inr show ?thesis by (simp add: runtime_ini_def)
  next
    case items: (Inr items)
    obtain e where "add_sources sf (filter (\<lambda>(k, _). k \<notin> set CARRIED_SOURCE_KEYS_EXCLUDE) items) cameras
        (filter (\<lambda>(s, _). \<not> is_source_section s) (ini_sections doc)) = Inl e"
      "e \<in> {DuplicateSectionError, TypeError, ValueError}"
      using unsettable_url_raises [OF assms] by blast
    with Inr items show ?thesis by (auto simp: runtime_ini_def Let_def)
  qed
qed

lemma poll_once_apply:
  assumes "fetched_valid cfg inp w cf" and "cf_generated_at_utc cf = Aware n" and "pl_save_fault inp = None"
    and "map_option cf_configuration_version (cw_applied w) \<noteq> Some (cf_configuration_version cf)"
  obtains doc where "serialize_configuration (cs_time cfg) cf = Inr doc"
    "poll_once cfg inp w = (case apply_async cfg inp cf
        (w\<lparr>cw_cache := [\<lparr>cr_config_json = doc, cr_updated_at = IsoUtc n\<rparr>]\<rparr>) of
      (Inl e, w) \<Rightarrow> (Inl e, w) | (Inr _, w) \<Rightarrow> (Inr True, w))"
proof (cases rule: poll_once_cases [of cfg inp w])
  case (quiet r)
  with assms(1) show ?thesis by blast
next
  case (valid cf')
  then have "cf' = cf" using fetched_valid_unique assms(1) by blast
  obtain doc where doc: "serialize_configuration (cs_time cfg) cf = Inr doc"
    using assms(2) by (simp add: serialize_configuration_def)
  show ?thesis
    by (rule that [OF doc], unfold valid(2) \<open>cf' = cf\<close> if_not_P [OF assms(4)])
       (simp add: doc assms(2,3) save_cache_def transaction_def)
qed

lemma stop_bridge_ok:
  assumes "bridge_consistent cfg w" and "pl_stop_fault inp = None"
  obtains w' where "stop_bridge inp w = (Inr (), w')" "bridge_consistent cfg w'" "\<not> cw_bridge_running w'"
    "pm_process (cw_manager w') = None" "pm_live (cw_manager w') = []" "cw_applied w' = cw_applied w"
    "cw_cache w' = cw_cache w" "cw_identity w' = cw_identity w"
proof -
  obtain r w' where r: "stop_bridge inp w = (r, w')" by (cases "stop_bridge inp w")
  have "r = Inr ()"
    using r assms(2) by (auto simp: stop_bridge_def stop_process_def split: if_split_asm option.split_asm)
  note c = stop_bridge_consistent [OF assms(1) r]
  have "pm_process (cw_manager w') = None" using c \<open>r = Inr ()\<close> by (auto simp: bridge_consistent_def)
  moreover from this have "pm_live (cw_manager w') = []" using c one_process_idle by (simp add: bridge_consistent_def)
  ultimately show ?thesis using that r c \<open>r = Inr ()\<close> by blast
qed

lemma validated_keys_nonempty:
  assumes "validate_configuration bad dev m cf = Inr ()"
  shows "list_all (\<lambda>c. dc_camera_key c \<noteq> []) (cf_cameras cf)"
  using validated_configuration_cameras [OF assms] by (auto simp: list_all_iff camera_ok_def key_body_def)

text \<open>
  C23.  A percent sign stops the pipeline for good.  When a valid new configuration has a camera whose URL
  holds a percent sign that is not an interpolation (a percent-encoded password), the poll caches
  the configuration and stops the running Bridge, and then raises; nothing is applied.  The cached
  configuration is poisoned: every later start of the component raises too, before any poll.
\<close>

theorem percent_url_poisons_cache:
  assumes "fetched_valid cfg inp w cf" and "bridge_consistent cfg w"
    and "map_option cf_configuration_version (cw_applied w) \<noteq> Some (cf_configuration_version cf)"
    and "c \<in> set (cf_cameras cf)" and "dc_stream_url c = JStr url" and "\<not> settable url"
    and "cf_generated_at_utc cf = Aware n" and "tl_parse (cs_time cfg) (tl_text (cs_time cfg) n) = Inr n"
    and "pl_save_fault inp = None" and "pl_stop_fault inp = None" and "pl_template inp = Inr template"
    and "pl_load_fault inp' = None" and "pl_cache_fault inp' = None" and "pl_template inp' = Inr template'"
  shows "\<exists>e w' e'. poll_once cfg inp w = (Inl e, w') \<and> is_exception e
    \<and> pm_live (cw_manager w') = [] \<and> \<not> cw_bridge_running w' \<and> cw_applied w' = cw_applied w
    \<and> start_coordinator cfg inp' \<lparr>wk_attempt = 0, wk_slept = [], wk_world = w'\<lparr>cw_task := NoTask\<rparr>\<rparr>
        = (Inl e', \<lparr>wk_attempt = 0, wk_slept = [], wk_world = w'\<lparr>cw_task := NoTask\<rparr>\<rparr>)"
proof -
  obtain doc where ser: "serialize_configuration (cs_time cfg) cf = Inr doc"
    and poll: "poll_once cfg inp w = (case apply_async cfg inp cf
        (w\<lparr>cw_cache := [\<lparr>cr_config_json = doc, cr_updated_at = IsoUtc n\<rparr>]\<rparr>) of
      (Inl e, w) \<Rightarrow> (Inl e, w) | (Inr _, w) \<Rightarrow> (Inr True, w))"
    using poll_once_apply [OF assms(1,7,9,3)] by blast
  let ?w = "w\<lparr>cw_cache := [\<lparr>cr_config_json = doc, cr_updated_at = IsoUtc n\<rparr>]\<rparr>"
  have "bridge_consistent cfg ?w" using assms(2) by (simp add: bridge_consistent_def)
  then obtain w' where s: "stop_bridge inp ?w = (Inr (), w')" "\<not> cw_bridge_running w'" "pm_live (cw_manager w') = []"
    "cw_applied w' = cw_applied w" "cw_cache w' = cw_cache ?w" "cw_identity w' = cw_identity w"
    using stop_bridge_ok [of cfg ?w inp] assms(10) by auto
  obtain e where e: "runtime_ini (cs_show_float cfg) (Inr template) (cf_cameras cf) = Inl e" "is_exception e"
    using unsettable_runtime_ini [OF assms(4-6)] by blast
  obtain e' where e': "runtime_ini (cs_show_float cfg) (Inr template') (cf_cameras cf) = Inl e'" "is_exception e'"
    using unsettable_runtime_ini [OF assms(4-6)] by blast
  have p: "poll_once cfg inp w = (Inl e, w')"
    using poll s(1) e assms(11) by (simp add: apply_async_def apply_and_start_def apply_sync_def generate_runtime_config_def)
  from assms(1) obtain i u where id: "load_identity (pl_load_fault inp) (cw_identity w) = Inr (Some i)"
    "di_operational_state i = OPERATIONAL" "parse_uuid (di_device_id i) = Inr u"
    and v: "validate_configuration (cs_bad_netloc cfg) u (cs_max_cameras cfg) cf = Inr ()"
    unfolding fetched_valid_def by blast
  have id': "load_identity None (cw_identity w) = Inr (Some i)"
    using id(1) by (cases "pl_load_fault inp") (simp_all add: load_identity_def)
  have "deserialize_configuration (cs_time cfg) doc = Inr cf"
    using configuration_roundtrip [OF assms(7,8) validated_keys_nonempty [OF v]] ser by auto
  then have st: "start_coordinator cfg inp' \<lparr>wk_attempt = 0, wk_slept = [], wk_world = w'\<lparr>cw_task := NoTask\<rparr>\<rparr>
      = (Inl e', \<lparr>wk_attempt = 0, wk_slept = [], wk_world = w'\<lparr>cw_task := NoTask\<rparr>\<rparr>)"
    using id' id(2,3) v s(5,6) e' assms(12-14)
    by (simp add: start_coordinator_def load_and_apply_cache_def load_cache_def load_cache_rows_def
        apply_and_start_def apply_sync_def generate_runtime_config_def)
  from p e(2) s(2-4) st show ?thesis by blast
qed

lemma demo_url_validates:
  assumes "urlsplit (\<lambda>_. False) url = Inr (''rtsp'', h # hs)" and "url \<noteq> []"
  shows "validate_configuration (\<lambda>_. False) 3 4 (demo_url_configuration url) = Inr ()"
proof -
  let ?c = "demo_camera\<lparr>dc_stream_url := JStr url\<rparr>"
  have "validate_stream_url (\<lambda>_. False) ?c = Inr ()" using assms by (simp add: validate_stream_url_def)
  moreover have "check_source_order [] (dc_source_order ?c) = Inr (Fin 0)"
    by (simp add: check_source_order_def demo_camera_def fl_exact_def)
  moreover have sel: "dc_output_path ?c = dc_output_path demo_camera" "dc_camera_key ?c = dc_camera_key demo_camera"
    by simp_all
  moreover have "validate_output_path ?c = validate_output_path demo_camera"
    "validate_camera_key ?c = validate_camera_key demo_camera"
    by (simp_all only: validate_output_path_def validate_camera_key_def sel)
  ultimately show ?thesis using demo_output_path demo_camera_key
    by (simp add: validate_configuration_def demo_url_configuration_def demo_configuration_def)
qed

lemma new_coordinator_consistent: "bridge_consistent cfg (wk_world (new_coordinator ids cache g))"
  by (simp add: new_coordinator_def bridge_consistent_def one_process_def)

definition demo_percent_url :: string where
  "demo_percent_url = ''rtsp://u:p%40w@h/1''"

lemma demo_percent_url_facts:
  "urlsplit (\<lambda>_. False) demo_percent_url = Inr (''rtsp'', ''u:p%40w@h'')" "\<not> settable demo_percent_url" "demo_percent_url \<noteq> []"
  by code_simp+

definition demo_config_world :: config_world where
  "demo_config_world = wk_world (new_coordinator [demo_config_row] [] None)"

lemma demo_config_world_simps:
  "cw_identity demo_config_world = [demo_config_row]" "cw_applied demo_config_world = None"
  "bridge_consistent cfg demo_config_world"
  using new_coordinator_consistent [of cfg "[demo_config_row]" "[]" None]
  by (simp_all add: demo_config_world_def new_coordinator_def)

theorem percent_url_poisons_cache_witness:
  "\<exists>e w' e' s. poll_once demo_config_settings (demo_config_input demo_percent_url None) demo_config_world = (Inl e, w')
    \<and> is_exception e \<and> cw_applied w' = None
    \<and> start_coordinator demo_config_settings (demo_config_input ''rtsp://h/1'' None)
        \<lparr>wk_attempt = 0, wk_slept = [], wk_world = w'\<lparr>cw_task := NoTask\<rparr>\<rparr> = (Inl e', s)"
proof -
  let ?cf = "demo_url_configuration demo_percent_url"
  have valid: "fetched_valid demo_config_settings (demo_config_input demo_percent_url None) demo_config_world ?cf"
    by (rule demo_fetched_valid, rule demo_url_validates [OF demo_percent_url_facts(1,3)], rule demo_config_world_simps(1))
  have "demo_camera\<lparr>dc_stream_url := JStr demo_percent_url\<rparr> \<in> set (cf_cameras ?cf)" "cf_generated_at_utc ?cf = Aware 5"
    by (simp_all add: demo_url_configuration_def demo_configuration_def)
  from percent_url_poisons_cache [OF valid demo_config_world_simps(3) _ this(1) _ demo_percent_url_facts(2) this(2), of demo_template
      "demo_config_input ''rtsp://h/1'' None" demo_template]
  show ?thesis
    by (simp add: demo_config_world_simps demo_config_settings_def demo_time_def demo_config_input_def) blast
qed

lemma unchanged_poll_idles:
  assumes "fetched_valid cfg inp w cf" and "map_option cf_configuration_version (cw_applied w) = Some (cf_configuration_version cf)"
  shows "poll_once cfg inp w = (Inr True, w)"
proof (cases rule: poll_once_cases [of cfg inp w])
  case (quiet r)
  with assms(1) show ?thesis by blast
next
  case (valid cf')
  then have "cf' = cf" using fetched_valid_unique assms(1) by blast
  show ?thesis unfolding valid(2) \<open>cf' = cf\<close> if_P [OF assms(2)] ..
qed

lemma unchanged_loop_idles:
  assumes "\<forall>x \<in> set inps. \<exists>cf. fetched_valid cfg (snd x) (wk_world s) cf
      \<and> map_option cf_configuration_version (cw_applied (wk_world s)) = Some (cf_configuration_version cf)"
  shows "\<exists>s'. poll_loop cfg inps s = Running s' \<and> wk_world s' = wk_world s
    \<and> wk_slept s' = replicate (length inps) (tn_idle_interval (cs_tuning cfg)) @ wk_slept s"
  using assms
proof (induction inps arbitrary: s)
  case Nil
  then show ?case by simp
next
  case (Cons x inps)
  obtain j inp where x: "x = (j, inp)" by (cases x)
  with Cons.prems obtain cf where "fetched_valid cfg inp (wk_world s) cf"
    "map_option cf_configuration_version (cw_applied (wk_world s)) = Some (cf_configuration_version cf)" by auto
  then have "poll_once cfg inp (wk_world s) = (Inr True, wk_world s)" by (rule unchanged_poll_idles)
  then have "poll_iteration cfg j inp s = Running (sleep_for (tn_idle_interval (cs_tuning cfg)) (reset_backoff s))"
    by (simp add: poll_iteration_def)
  moreover have "\<exists>s'. poll_loop cfg inps (sleep_for (tn_idle_interval (cs_tuning cfg)) (reset_backoff s)) = Running s'
      \<and> wk_world s' = wk_world s
      \<and> wk_slept s' = replicate (length inps) (tn_idle_interval (cs_tuning cfg)) @ tn_idle_interval (cs_tuning cfg) # wk_slept s"
    using Cons.IH [of "sleep_for (tn_idle_interval (cs_tuning cfg)) (reset_backoff s)"] Cons.prems
    by (simp add: sleep_for_def reset_backoff_def)
  ultimately show ?case using x by (simp add: replicate_app_Cons_same)
qed

lemma fetched_valid_identity: "cw_identity w' = cw_identity w \<Longrightarrow> fetched_valid cfg inp w' cf = fetched_valid cfg inp w cf"
  by (simp add: fetched_valid_def)

lemma failed_start_poll:
  assumes "fetched_valid cfg inp w cf" and "bridge_consistent cfg w"
    and "map_option cf_configuration_version (cw_applied w) \<noteq> Some (cf_configuration_version cf)"
    and "cf_generated_at_utc cf = Aware n" and "cf_cameras cf \<noteq> []"
    and "pl_save_fault inp = None" and "pl_stop_fault inp = None" and "pl_write_fault inp = None"
    and "runtime_ini (cs_show_float cfg) (pl_template inp) (cf_cameras cf) = Inr doc" and "pl_start_fault inp = Some e"
  obtains w' where "poll_once cfg inp w = (Inl e, w')" "cw_applied w' = Some cf" "cw_identity w' = cw_identity w"
    "pm_process (cw_manager w') = None" "pm_live (cw_manager w') = []" "\<not> cw_bridge_running w'"
proof -
  obtain d where poll: "poll_once cfg inp w = (case apply_async cfg inp cf
        (w\<lparr>cw_cache := [\<lparr>cr_config_json = d, cr_updated_at = IsoUtc n\<rparr>]\<rparr>) of
      (Inl e, w) \<Rightarrow> (Inl e, w) | (Inr _, w) \<Rightarrow> (Inr True, w))"
    using poll_once_apply [OF assms(1,4,6,3)] by blast
  let ?w = "w\<lparr>cw_cache := [\<lparr>cr_config_json = d, cr_updated_at = IsoUtc n\<rparr>]\<rparr>"
  have "bridge_consistent cfg ?w" using assms(2) by (simp add: bridge_consistent_def)
  then obtain v where s: "stop_bridge inp ?w = (Inr (), v)" "\<not> cw_bridge_running v" "pm_live (cw_manager v) = []"
    "pm_process (cw_manager v) = None" "cw_identity v = cw_identity w"
    using stop_bridge_ok [of cfg ?w inp] assms(7) by auto
  let ?v = "v\<lparr>cw_generated := Some (ini_text doc), cw_tracker := snd (install_generation cf (cw_tracker v)), cw_applied := Some cf\<rparr>"
  have "poll_once cfg inp w = (Inl e, ?v)"
    using poll s assms(5,8-10)
    by (simp add: apply_async_def apply_and_start_def apply_sync_def generate_runtime_config_def start_bridge_def
        start_process_def)
  then show ?thesis by (rule that) (use s in simp_all)
qed

text \<open>
  A Bridge that fails to start once is not started again.  The configuration counts as applied before
  the Bridge is started, so when the start fails, however many later polls return the same version:
  each is taken for unchanged and idles, and no process runs.
\<close>

theorem failed_bridge_start_is_final:
  assumes "fetched_valid cfg inp (wk_world s) cf" and "bridge_consistent cfg (wk_world s)"
    and "map_option cf_configuration_version (cw_applied (wk_world s)) \<noteq> Some (cf_configuration_version cf)"
    and "cf_generated_at_utc cf = Aware n" and "cf_cameras cf \<noteq> []"
    and "pl_save_fault inp = None" and "pl_stop_fault inp = None" and "pl_write_fault inp = None"
    and "runtime_ini (cs_show_float cfg) (pl_template inp) (cf_cameras cf) = Inr doc"
    and "pl_start_fault inp = Some e" and "is_exception e" and "wk_attempt s < 1024"
    and "\<forall>x \<in> set inps. \<exists>cf'. fetched_valid cfg (snd x) (wk_world s) cf'
      \<and> cf_configuration_version cf' = cf_configuration_version cf"
  shows "\<exists>s' d. poll_loop cfg ((j, inp) # inps) s = Running s'
    \<and> pm_process (cw_manager (wk_world s')) = None \<and> pm_live (cw_manager (wk_world s')) = []
    \<and> wk_slept s' = replicate (length inps) (tn_idle_interval (cs_tuning cfg)) @ d # wk_slept s"
proof -
  obtain w' where w': "poll_once cfg inp (wk_world s) = (Inl e, w')" "cw_applied w' = Some cf"
    "cw_identity w' = cw_identity (wk_world s)" "pm_process (cw_manager w') = None" "pm_live (cw_manager w') = []"
    using failed_start_poll [OF assms(1-10)] by blast
  obtain d where "sleep_backoff (cs_tuning cfg) j (s\<lparr>wk_world := w'\<rparr>)
      = (Inr (), sleep_for d (s\<lparr>wk_world := w', wk_attempt := Suc (wk_attempt s)\<rparr>))"
    using assms(12) by (simp add: sleep_backoff_cases)
  then have it: "poll_iteration cfg j inp s = Running (sleep_for d (s\<lparr>wk_world := w', wk_attempt := Suc (wk_attempt s)\<rparr>))"
    using w'(1) assms(11) by (simp add: poll_iteration_def backoff_iteration_def)
  let ?s = "sleep_for d (s\<lparr>wk_world := w', wk_attempt := Suc (wk_attempt s)\<rparr>)"
  have "\<forall>x \<in> set inps. \<exists>cf. fetched_valid cfg (snd x) (wk_world ?s) cf
      \<and> map_option cf_configuration_version (cw_applied (wk_world ?s)) = Some (cf_configuration_version cf)"
    using assms(13) w'(2) fetched_valid_identity [OF w'(3)] by (fastforce simp: sleep_for_def)
  from unchanged_loop_idles [OF this] it w' show ?thesis by (auto simp: sleep_for_def)
qed

theorem failed_bridge_start_is_final_witness:
  "\<exists>s'. poll_loop demo_config_settings
      ((Fin 0, demo_config_input ''rtsp://h/1'' (Some OSError)) # replicate 100 (Fin 0, demo_config_input ''rtsp://h/1'' None))
      (new_coordinator [demo_config_row] [] None) = Running s'
    \<and> pm_live (cw_manager (wk_world s')) = []"
proof -
  let ?s = "new_coordinator [demo_config_row] [] None"
  have w: "wk_world ?s = demo_config_world" by (simp add: demo_config_world_def)
  have valid: "fetched_valid demo_config_settings (demo_config_input ''rtsp://h/1'' f) (wk_world ?s) demo_configuration" for f
    unfolding demo_url_same [symmetric] w
    by (rule demo_fetched_valid) (simp_all add: demo_url_same demo_validates demo_config_world_simps)
  obtain doc where doc: "runtime_ini (\<lambda>_. []) (Inr demo_template) [demo_camera] = Inr doc"
    using demo_runtime_ini(1) by (auto simp: is_ok_iff)
  have "\<exists>s' d. poll_loop demo_config_settings
      ((Fin 0, demo_config_input ''rtsp://h/1'' (Some OSError)) # replicate 100 (Fin 0, demo_config_input ''rtsp://h/1'' None)) ?s
      = Running s' \<and> pm_process (cw_manager (wk_world s')) = None \<and> pm_live (cw_manager (wk_world s')) = []
      \<and> wk_slept s' = replicate (length (replicate 100 (Fin 0, demo_config_input ''rtsp://h/1'' None)))
          (tn_idle_interval (cs_tuning demo_config_settings)) @ d # wk_slept ?s"
  proof (rule failed_bridge_start_is_final [where e = OSError, OF valid])
    show "bridge_consistent demo_config_settings (wk_world ?s)" by (rule new_coordinator_consistent)
    show "runtime_ini (cs_show_float demo_config_settings) (pl_template (demo_config_input ''rtsp://h/1'' (Some OSError)))
        (cf_cameras demo_configuration) = Inr doc"
      using doc by (simp add: demo_config_settings_def demo_config_input_def demo_configuration_def)
    show "\<forall>x \<in> set (replicate 100 (Fin 0, demo_config_input ''rtsp://h/1'' None)).
        \<exists>cf'. fetched_valid demo_config_settings (snd x) (wk_world ?s) cf'
          \<and> cf_configuration_version cf' = cf_configuration_version demo_configuration"
      using valid by auto
  qed (simp_all add: demo_config_input_def demo_configuration_def new_coordinator_def)
  then show ?thesis by blast
qed

text \<open>One poll of the demonstration device starts the Bridge.\<close>

lemma demo_poll_starts_bridge:
  "\<exists>s x. config_work demo_config_settings
       ((new_coordinator [demo_config_row] [] None)\<lparr>wk_world := demo_config_world\<lparr>cw_task := TaskRunning\<rparr>\<rparr>) s
     \<and> x \<in> set (pm_live (cw_manager (wk_world s)))"
proof -
  let ?i = "demo_config_input ''rtsp://h/1'' None" and ?w = "demo_config_world\<lparr>cw_task := TaskRunning\<rparr>"
  let ?s = "(new_coordinator [demo_config_row] [] None)\<lparr>wk_world := ?w\<rparr>"
  have valid: "fetched_valid demo_config_settings ?i ?w demo_configuration"
    unfolding demo_url_same [symmetric]
    by (rule demo_fetched_valid) (simp_all add: demo_url_same demo_validates demo_config_world_simps)
  obtain doc where doc: "runtime_ini (\<lambda>_. []) (Inr demo_template) [demo_camera] = Inr doc"
    using demo_runtime_ini(1) by (auto simp: is_ok_iff)
  have ne: "map_option cf_configuration_version (cw_applied ?w) \<noteq> Some (cf_configuration_version demo_configuration)"
    by (simp add: demo_config_world_simps)
  have g: "cf_generated_at_utc demo_configuration = Aware 5" "pl_save_fault ?i = None"
    by (simp_all add: demo_configuration_def demo_config_input_def)
  from poll_once_apply [OF valid g ne] obtain d where
    "poll_once demo_config_settings ?i ?w = (case apply_async demo_config_settings ?i demo_configuration
        (?w\<lparr>cw_cache := [\<lparr>cr_config_json = d, cr_updated_at = IsoUtc 5\<rparr>]\<rparr>) of
      (Inl e, w) \<Rightarrow> (Inl e, w) | (Inr _, w) \<Rightarrow> (Inr True, w))" by blast
  with doc obtain w' where p: "poll_once demo_config_settings ?i ?w = (Inr True, w')"
    "pm_live (cw_manager w') = [(0, Some (ini_text doc))]"
    by (auto simp: demo_config_world_def new_coordinator_def apply_async_def stop_bridge_def apply_and_start_def apply_sync_def
        generate_runtime_config_def start_bridge_def start_process_def demo_config_settings_def demo_config_input_def
        demo_configuration_def)
  then obtain s where s: "poll_iteration demo_config_settings (Fin 0) ?i ?s = Running s" "wk_world s = w'"
    by (simp add: poll_iteration_def sleep_for_def reset_backoff_def)
  have "config_work demo_config_settings ?s s" by (rule config_work.poll [OF _ s(1)]) simp
  then show ?thesis using p(2) s(2) by (intro exI conjI) (assumption, simp)
qed

end
