(* ===== verification/AgentComponents.thy ===== *)
theory AgentComponents
  imports OperationalGate Evidence ConfigCoordinator
begin

text \<open>
  \<^verbatim>\<open>main.py\<close>: the components of the real entry point behind the gate of \<open>OperationalGate\<close>, with the
  start and stop of the two delivery workers (\<^verbatim>\<open>sync/worker.py\<close>, \<^verbatim>\<open>snapshot/worker.py\<close>), and what the whole
  keeps of the Bridge: the file it reads is the one of the current source mapping.
\<close>

section \<open>Start and stop of the delivery workers\<close>

record worker_life =
  wl_task :: worker_task
  wl_attempt :: nat
  wl_client_closed :: bool

definition start_worker :: "worker_life \<Rightarrow> (exn + unit) \<times> worker_life" where
  "start_worker s =
     (if wl_task s \<noteq> NoTask then (Inr (), s)
      else (Inr (), s\<lparr>wl_attempt := 0, wl_task := TaskRunning\<rparr>))"

text \<open>
  \<^verbatim>\<open>await task\<close> raises what ended the task; only a cancellation is suppressed, and the client is
  closed after that, which may raise too.
\<close>

definition stop_worker :: "fault \<Rightarrow> worker_life \<Rightarrow> (exn + unit) \<times> worker_life" where
  "stop_worker close_fault s =
     (case (case wl_task s of
              TaskDead e \<Rightarrow> if e = CancelledError then Inr () else Inl e
            | _ \<Rightarrow> Inr ()) of
        Inl e \<Rightarrow> (Inl e, s\<lparr>wl_task := NoTask\<rparr>)
      | Inr _ \<Rightarrow>
          (case close_fault of
             Some e \<Rightarrow> (Inl e, s\<lparr>wl_task := NoTask\<rparr>)
           | None \<Rightarrow> (Inr (), s\<lparr>wl_task := NoTask, wl_client_closed := True\<rparr>)))"

definition start_upload_worker :: "worker_life \<Rightarrow> (exn + unit) \<times> worker_life" where
  "start_upload_worker = start_worker"

definition stop_upload_worker :: "fault \<Rightarrow> worker_life \<Rightarrow> (exn + unit) \<times> worker_life" where
  "stop_upload_worker = stop_worker"

text \<open>The life of a task as its loop leaves it.\<close>

definition after_loop :: "'w task \<Rightarrow> worker_life \<Rightarrow> worker_life" where
  "after_loop t s = (case t of Running _ \<Rightarrow> s | Ended e \<Rightarrow> s\<lparr>wl_task := TaskDead e\<rparr>)"

section \<open>The composition\<close>

record agent_world =
  aw_ingest :: ingest
  aw_manager :: process_manager
  aw_config :: "config_world worker"
  aw_sync :: worker_life
  aw_upload :: worker_life

record agent_input =
  an_ingest :: start_input
  an_process_fault :: "exn option"
  an_config :: config_input
  an_unlink_fault :: fault
  an_sync_close_fault :: fault
  an_upload_close_fault :: fault

record agent_settings =
  ag_deepstream_enabled :: bool
  ag_detection_events_enabled :: bool
  ag_device_config_enabled :: bool
  ag_detection_sync_enabled :: bool
  ag_snapshot_upload_enabled :: bool
  ag_ingest_config :: ingest_config
  ag_config_settings :: config_settings
  ag_deepstream_config :: "string option"

datatype component_kind = DetectionIngest | DeepStreamProcess | DeviceConfigurationKind | DetectionSync | SnapshotUpload

definition enabled_kinds :: "agent_settings \<Rightarrow> component_kind list" where
  "enabled_kinds a =
     (if ag_deepstream_enabled a \<and> ag_detection_events_enabled a then [DetectionIngest] else [])
     @ (if ag_deepstream_enabled a \<and> \<not> ag_device_config_enabled a then [DeepStreamProcess] else [])
     @ (if ag_device_config_enabled a then [DeviceConfigurationKind] else [])
     @ (if ag_detection_sync_enabled a then [DetectionSync] else [])
     @ (if ag_snapshot_upload_enabled a then [SnapshotUpload] else [])"

fun component_of :: "agent_settings \<Rightarrow> component_kind \<Rightarrow> (agent_input, agent_world) component" where
  "component_of a DetectionIngest = \<lparr>cp_name = ''detection-ingest'',
     cp_start = (\<lambda>i w. case start_handler (ag_ingest_config a) (an_ingest i) (aw_ingest w) of (r, s) \<Rightarrow> (r, w\<lparr>aw_ingest := s\<rparr>)),
     cp_stop = (\<lambda>i w. case stop_handler (an_unlink_fault i) (aw_ingest w) of (r, s) \<Rightarrow> (r, w\<lparr>aw_ingest := s\<rparr>))\<rparr>"
| "component_of a DeepStreamProcess = \<lparr>cp_name = ''deepstream'',
     cp_start = (\<lambda>i w. case start_process (an_process_fault i) (ag_deepstream_config a) (aw_manager w) of
                   (r, m) \<Rightarrow> (r, w\<lparr>aw_manager := m\<rparr>)),
     cp_stop = (\<lambda>i w. case stop_process (an_process_fault i) (aw_manager w) of (r, m) \<Rightarrow> (r, w\<lparr>aw_manager := m\<rparr>))\<rparr>"
| "component_of a DeviceConfigurationKind = \<lparr>cp_name = ''device-configuration'',
     cp_start = (\<lambda>i w. case start_coordinator (ag_config_settings a) (an_config i) (aw_config w) of
                   (r, s) \<Rightarrow> (r, w\<lparr>aw_config := s\<rparr>)),
     cp_stop = (\<lambda>i w. case stop_coordinator (an_config i) (aw_config w) of (r, s) \<Rightarrow> (r, w\<lparr>aw_config := s\<rparr>))\<rparr>"
| "component_of a DetectionSync = \<lparr>cp_name = ''detection-event-sync'',
     cp_start = (\<lambda>i w. case start_worker (aw_sync w) of (r, s) \<Rightarrow> (r, w\<lparr>aw_sync := s\<rparr>)),
     cp_stop = (\<lambda>i w. case stop_worker (an_sync_close_fault i) (aw_sync w) of (r, s) \<Rightarrow> (r, w\<lparr>aw_sync := s\<rparr>))\<rparr>"
| "component_of a SnapshotUpload = \<lparr>cp_name = ''snapshot-upload'',
     cp_start = (\<lambda>i w. case start_upload_worker (aw_upload w) of (r, s) \<Rightarrow> (r, w\<lparr>aw_upload := s\<rparr>)),
     cp_stop = (\<lambda>i w. case stop_upload_worker (an_upload_close_fault i) (aw_upload w) of (r, s) \<Rightarrow> (r, w\<lparr>aw_upload := s\<rparr>))\<rparr>"

definition agent_components :: "agent_settings \<Rightarrow> (agent_input, agent_world) component list" where
  "agent_components a = map (component_of a) (enabled_kinds a)"

text \<open>What it means for a component to operate.\<close>

fun kind_active :: "component_kind \<Rightarrow> agent_world \<Rightarrow> bool" where
  "kind_active DetectionIngest w = ih_running (aw_ingest w)"
| "kind_active DeepStreamProcess w = (pm_process (aw_manager w) \<noteq> None)"
| "kind_active DeviceConfigurationKind w = (cw_task (wk_world (aw_config w)) = TaskRunning \<or> cw_bridge_running (wk_world (aw_config w)))"
| "kind_active DetectionSync w = (wl_task (aw_sync w) = TaskRunning)"
| "kind_active SnapshotUpload w = (wl_task (aw_upload w) = TaskRunning)"

definition component_active :: "agent_settings \<Rightarrow> nat \<Rightarrow> agent_world \<Rightarrow> bool" where
  "component_active a k w = kind_active (enabled_kinds a ! k) w"

section \<open>The components keep the contract of the gate\<close>

lemma enabled_kinds_distinct: "distinct (enabled_kinds a)"
  by (simp add: enabled_kinds_def)

lemma component_frame:
  assumes "cp_start (component_of a x) i w = (r, w') \<or> cp_stop (component_of a x) i w = (r, w')" and "x \<noteq> y"
  shows "kind_active y w' = kind_active y w"
  using assms by (cases x; cases y) (auto split: prod.split_asm)

lemma start_coordinator_failed:
  assumes "start_coordinator cfg inp s = (Inl e, s')" and "\<not> cw_bridge_running (wk_world s)"
  shows "cw_task (wk_world s') = cw_task (wk_world s) \<and> \<not> cw_bridge_running (wk_world s')"
proof -
  have failed: "cw_task w' = cw_task w \<and> \<not> cw_bridge_running w'"
    if "load_and_apply_cache cfg inp u w = (Inl e, w')" "\<not> cw_bridge_running w" for u w w'
    using that
    by (auto simp: load_and_apply_cache_def apply_and_start_def apply_sync_def start_bridge_def
        split: sum.split_asm option.split_asm prod.split_asm if_split_asm)
  show ?thesis
    using assms failed [of _ "wk_world s"]
    by (auto simp: start_coordinator_def Let_def split: sum.split_asm option.split_asm prod.split_asm if_split_asm)
qed

lemma component_start_failed:
  assumes "cp_start (component_of a x) i w = (Inl e, w')" and "\<not> kind_active x w"
  shows "\<not> kind_active x w'"
proof (cases x)
  case DetectionIngest
  with assms show ?thesis
    by (auto simp: start_handler_def Let_def resolve_device_id_def ensure_socket_path_ready_def
        split: prod.split_asm sum.split_asm option.split_asm if_split_asm socket_path.split_asm)
next
  case DeepStreamProcess
  with assms show ?thesis by (auto simp: start_process_def split: prod.split_asm option.split_asm if_split_asm)
next
  case DeviceConfigurationKind
  with assms show ?thesis by (auto split: prod.split_asm dest!: start_coordinator_failed)
next
  case DetectionSync
  with assms show ?thesis by (auto simp: start_worker_def split: prod.split_asm if_split_asm)
next
  case SnapshotUpload
  with assms show ?thesis by (auto simp: start_upload_worker_def start_worker_def split: prod.split_asm if_split_asm)
qed

lemma component_stop:
  assumes "cp_stop (component_of a x) i w = (r, w')"
  shows "\<not> kind_active x w' \<or> (kind_active x w \<and> (\<exists>e. r = Inl e))"
proof (cases x)
  case DetectionIngest
  with assms show ?thesis by (auto simp: stop_handler_def Let_def split: if_split_asm prod.split_asm option.split_asm)
next
  case DeepStreamProcess
  with assms show ?thesis by (auto simp: stop_process_def split: prod.split_asm option.split_asm)
next
  case DeviceConfigurationKind
  with assms show ?thesis
    by (auto simp: stop_coordinator_def stop_bridge_def Let_def
        split: prod.split_asm sum.split_asm if_split_asm worker_task.split_asm option.split_asm)
next
  case DetectionSync
  with assms show ?thesis by (auto simp: stop_worker_def split: prod.split_asm worker_task.split_asm if_split_asm option.split_asm)
next
  case SnapshotUpload
  with assms show ?thesis
    by (auto simp: stop_upload_worker_def stop_worker_def split: prod.split_asm worker_task.split_asm if_split_asm option.split_asm)
qed

interpretation agent_gate: gated_components "agent_components a" "component_active a" "\<lambda>_. True" for a
proof (unfold_locales, goal_cases)
  case (1 i k j w r w')
  then show ?case
    using component_frame [of a "enabled_kinds a ! k" i w r w' "enabled_kinds a ! j"] enabled_kinds_distinct [of a]
    by (auto simp: agent_components_def component_active_def nth_eq_iff_index_eq)
next
  case (2 i k j w r w')
  then show ?case
    using component_frame [of a "enabled_kinds a ! k" i w r w' "enabled_kinds a ! j"] enabled_kinds_distinct [of a]
    by (auto simp: agent_components_def component_active_def nth_eq_iff_index_eq)
next
  case (3 i k w e w')
  then show ?case
    using component_start_failed [of a "enabled_kinds a ! k"] by (auto simp: agent_components_def component_active_def)
next
  case (4 i k w e w')
  then show ?case
    using component_stop [of a "enabled_kinds a ! k"] by (fastforce simp: agent_components_def component_active_def)
next
  case (5 i k w u w')
  then show ?case
    using component_stop [of a "enabled_kinds a ! k"] by (fastforce simp: agent_components_def component_active_def)
qed

section \<open>Properties\<close>

definition fresh_gate :: "agent_settings \<Rightarrow> agent_world gate \<Rightarrow> bool" where
  "fresh_gate a g \<longleftrightarrow> gt_running g = [] \<and> list_all (\<lambda>x. \<not> kind_active x (gt_world g)) (enabled_kinds a)"

lemma fresh_gate_tracked: "fresh_gate a g \<Longrightarrow> agent_gate.tracked a g"
  by (rule agent_gate.new_gate_tracked)
     (auto simp: fresh_gate_def component_active_def agent_components_def list_all_length)

text \<open>
  C11.  Locking silences the Agent.  From a fresh gate, after any sequence of starts, locks, unlocks and work
  of the components, a lock leaves the state locked whatever it meets; if it returns, nothing is
  running and none of the components operates, except one whose stop had already failed while a
  failed start was rolled back; and no later start gets past the lock.
\<close>

theorem lock_silences_agent:
  assumes "fresh_gate a g0" and "(gate_step (agent_components a) (component_active a))\<^sup>*\<^sup>* g0 g"
    and "enter_reactivation_required (agent_components a) i g = (r, g')"
  shows "gt_state g' = REACTIVATION_REQUIRED
    \<and> (r = Inr () \<longrightarrow> gt_running g' = []
         \<and> (\<forall>k < length (enabled_kinds a). kind_active (enabled_kinds a ! k) (gt_world g') \<longrightarrow> k \<in> set (gt_abandoned g')))
    \<and> start_operational_components (agent_components a) j g'
        = (Inl (OperationalExn OperationalComponentsLockedError), g')"
proof -
  have "agent_gate.tracked a g"
    using agent_gate.steps_tracked [OF assms(2) _ fresh_gate_tracked [OF assms(1)]] by simp
  from agent_gate.lock_stops_all [OF _ this assms(3)]
  show ?thesis by (auto simp: component_active_def agent_components_def start_operational_components_def)
qed

text \<open>
  \<open>kind_dead\<close>: the task of the component has died, so that a start finds a task and does nothing.
\<close>

fun kind_dead :: "component_kind \<Rightarrow> agent_world \<Rightarrow> bool" where
  "kind_dead DeviceConfigurationKind w = (\<exists>e. cw_task (wk_world (aw_config w)) = TaskDead e)"
| "kind_dead DetectionSync w = (\<exists>e. wl_task (aw_sync w) = TaskDead e)"
| "kind_dead SnapshotUpload w = (\<exists>e. wl_task (aw_upload w) = TaskDead e)"
| "kind_dead _ w = False"

lemma component_frame_dead:
  assumes "cp_start (component_of a x) i w = (r, w')" and "x \<noteq> y"
  shows "kind_dead y w' = kind_dead y w"
  using assms by (cases x; cases y) (auto split: prod.split_asm)

lemma component_start_done:
  assumes "cp_start (component_of a x) i w = (Inr u, w')"
  shows "kind_active x w' \<or> kind_dead x w \<and> kind_dead x w'"
proof (cases x)
  case DetectionIngest
  with assms show ?thesis
    by (auto simp: start_handler_def Let_def split: prod.split_asm sum.split_asm option.split_asm if_split_asm)
next
  case DeepStreamProcess
  with assms show ?thesis by (auto simp: start_process_def Let_def split: prod.split_asm option.split_asm if_split_asm)
next
  case DeviceConfigurationKind
  with assms show ?thesis
    by (cases "cw_task (wk_world (aw_config w))")
       (auto simp: start_coordinator_def Let_def split: prod.split_asm sum.split_asm option.split_asm if_split_asm)
next
  case DetectionSync
  with assms show ?thesis by (cases "wl_task (aw_sync w)") (auto simp: start_worker_def)
next
  case SnapshotUpload
  with assms show ?thesis by (cases "wl_task (aw_upload w)") (auto simp: start_upload_worker_def start_worker_def)
qed

lemma started_by_kinds:
  assumes "started_by (agent_components a) i ks w = Some w'" and "distinct ks" and "set ks \<subseteq> {..<length (enabled_kinds a)}"
  shows "(\<forall>k \<in> set ks. kind_active (enabled_kinds a ! k) w' \<or> kind_dead (enabled_kinds a ! k) w)
    \<and> (\<forall>k < length (enabled_kinds a). k \<notin> set ks \<longrightarrow> kind_active (enabled_kinds a ! k) w' = kind_active (enabled_kinds a ! k) w)"
  using assms
proof (induction ks arbitrary: w)
  case (Cons k ks)
  have k: "k < length (enabled_kinds a)" "k \<notin> set ks" using Cons.prems by auto
  then obtain u v where v: "cp_start (component_of a (enabled_kinds a ! k)) i w = (Inr u, v)"
    and rest: "started_by (agent_components a) i ks v = Some w'"
    using Cons.prems(1) by (auto simp: agent_components_def split: prod.split_asm sum.split_asm)
  have ne: "enabled_kinds a ! k \<noteq> enabled_kinds a ! j" if "j < length (enabled_kinds a)" "j \<noteq> k" for j
    using that k(1) enabled_kinds_distinct [of a] by (simp add: nth_eq_iff_index_eq)
  have frame: "kind_active (enabled_kinds a ! j) v = kind_active (enabled_kinds a ! j) w"
    "kind_dead (enabled_kinds a ! j) v = kind_dead (enabled_kinds a ! j) w"
    if "j < length (enabled_kinds a)" "j \<noteq> k" for j
    using component_frame [of a _ i w "Inr u" v] component_frame_dead [of a _ i w "Inr u" v] v ne [OF that] by blast+
  from Cons.IH [OF rest] Cons.prems have ih:
    "\<forall>j \<in> set ks. kind_active (enabled_kinds a ! j) w' \<or> kind_dead (enabled_kinds a ! j) v"
    "\<forall>j < length (enabled_kinds a). j \<notin> set ks \<longrightarrow> kind_active (enabled_kinds a ! j) w' = kind_active (enabled_kinds a ! j) v" by auto
  have "kind_active (enabled_kinds a ! k) w' \<or> kind_dead (enabled_kinds a ! k) w"
    using component_start_done [OF v] ih(2) k by auto
  moreover have "kind_active (enabled_kinds a ! j) w' \<or> kind_dead (enabled_kinds a ! j) w" if "j \<in> set ks" for j
    using ih(1) frame(2) [of j] that k Cons.prems(3) by (metis lessThan_iff list.set_intros(2) subset_iff)
  ultimately show ?case using ih(2) frame(1) k by auto
qed simp

text \<open>
  C19.  A start is all or nothing.  From any history of the gate: when a start returns, it has called the start of
  every enabled component that was not counted as running, in the order of the composition, each has returned, every
  one of them operates (unless its task had died before and was never stopped), and all enabled components count
  as running.  When it raises (and is not cancelled) at the first start that raises, every component started
  before in this call has been stopped, in the reverse order, and the same components count as running as before.
  The lock is never touched.
\<close>

theorem start_is_all_or_nothing:
  assumes "fresh_gate a g0" and "(gate_step (agent_components a) (component_active a))\<^sup>*\<^sup>* g0 g"
    and "start_operational_components (agent_components a) i g = (r, g')"
    and "pending = filter (\<lambda>k. k \<notin> set (gt_running g)) [0..<length (enabled_kinds a)]"
  shows "gt_state g' = gt_state g
    \<and> (case r of
         Inr _ \<Rightarrow> gt_state g = OPERATIONAL \<and> started_by (agent_components a) i pending (gt_world g) = Some (gt_world g')
           \<and> (\<forall>k \<in> set pending. kind_active (enabled_kinds a ! k) (gt_world g') \<or> kind_dead (enabled_kinds a ! k) (gt_world g))
           \<and> gt_running g' = gt_running g @ pending \<and> set (gt_running g') = {..<length (enabled_kinds a)}
       | Inl e \<Rightarrow> e = CancelledError
           \<or> e = OperationalExn OperationalComponentsLockedError \<and> g' = g \<and> gt_state g \<noteq> OPERATIONAL
           \<or> set (gt_running g') = set (gt_running g)
             \<and> (\<exists>us k vs w x w'. pending = us @ k # vs \<and> started_by (agent_components a) i us (gt_world g) = Some w
                  \<and> cp_start (agent_components a ! k) i w = (Inl x, w')
                  \<and> gt_world g' = stop_each (agent_components a) i (rev us) w'))"
proof -
  have "agent_gate.tracked a g"
    using agent_gate.steps_tracked [OF assms(2) _ fresh_gate_tracked [OF assms(1)]] by simp
  note whole = agent_gate.start_all_or_nothing [OF _ this assms(3)]
  have exn: "\<not> is_exception e \<longleftrightarrow> e = CancelledError" for e by (cases e) simp_all
  show ?thesis
  proof (cases "gt_state g = OPERATIONAL")
    case False
    with assms(3) show ?thesis by (auto simp: start_operational_components_def)
  next
    case True
    have "start_pending (agent_components a) i pending [] g = (r, g')"
      using assms(3,4) True by (simp add: start_operational_components_def agent_components_def)
    note calls = start_pending_calls [OF this]
    show ?thesis
    proof (cases r)
      case (Inl e)
      show ?thesis
      proof (cases "is_exception e")
        case False
        with whole Inl exn [of e] show ?thesis by simp
      next
        case exc: True
        with calls Inl obtain us k vs w x w' where c: "pending = us @ k # vs" "started_by (agent_components a) i us (gt_world g) = Some w"
          "cp_start (agent_components a ! k) i w = (Inl x, w')" "gt_world g' = stop_each (agent_components a) i (rev us @ []) w'"
          by auto
        moreover have "gt_state g' = gt_state g" "set (gt_running g') = set (gt_running g)" using whole Inl exc by simp_all
        ultimately show ?thesis unfolding Inl sum.case append_Nil2 by blast
      qed
    next
      case (Inr u)
      have "started_by (agent_components a) i pending (gt_world g) = Some (gt_world g')" using calls Inr by simp
      from started_by_kinds [OF this] assms(4) have
        "\<forall>k \<in> set pending. kind_active (enabled_kinds a ! k) (gt_world g') \<or> kind_dead (enabled_kinds a ! k) (gt_world g)" by auto
      with whole calls Inr show ?thesis by (simp add: agent_components_def)
    qed
  qed
qed

section \<open>The mapping and the Bridge behind the gate\<close>

text \<open>
  The steps of an agent: starts, locks and unlocks of the gate, work of the coordinator of the configuration, and
  any work of the other components.  The gate is what calls the start and the stop of the coordinator.
\<close>

inductive agent_step :: "agent_settings \<Rightarrow> agent_world gate \<Rightarrow> agent_world gate \<Rightarrow> bool" for a where
  agent_start: "start_operational_components (agent_components a) i g = (r, g') \<Longrightarrow> agent_step a g g'"
| agent_lock: "enter_reactivation_required (agent_components a) i g = (r, g') \<Longrightarrow> agent_step a g g'"
| agent_unlock: "mark_operational_after_reactivation loaded g = (r, g') \<Longrightarrow> agent_step a g g'"
| agent_config: "config_work (ag_config_settings a) (aw_config (gt_world g)) c \<Longrightarrow>
    agent_step a g (g\<lparr>gt_world := (gt_world g)\<lparr>aw_config := c\<rparr>\<rparr>)"
| agent_other: "aw_config w = aw_config (gt_world g) \<Longrightarrow> (\<And>x. kind_active x w \<Longrightarrow> kind_active x (gt_world g)) \<Longrightarrow>
    agent_step a g (g\<lparr>gt_world := w\<rparr>)"

lemma config_work_active:
  assumes "config_work cfg s s'" and "cw_task (wk_world s') = TaskRunning \<or> cw_bridge_running (wk_world s')"
  shows "cw_task (wk_world s) = TaskRunning \<or> cw_bridge_running (wk_world s)"
  using assms by (cases rule: config_work.cases) simp_all

lemma agent_step_gate_step:
  assumes "agent_step a g g'"
  shows "gate_step (agent_components a) (component_active a) g g'"
  using assms
proof cases
  case (agent_config c)
  have "kind_active x ((gt_world g)\<lparr>aw_config := c\<rparr>) \<Longrightarrow> kind_active x (gt_world g)" for x
    using config_work_active [OF agent_config(2)] by (cases x) simp_all
  then show ?thesis unfolding agent_config(1) by (intro gate_step.work) (simp add: component_active_def)
qed (auto intro: gate_step.intros simp: component_active_def)

text \<open>
  \<open>config_sound\<close>: the Bridge and the mapping agree, and the coordinator was never given up by a rollback, since no start
  after its own can fail.
\<close>

definition config_sound :: "agent_settings \<Rightarrow> agent_world gate \<Rightarrow> bool" where
  "config_sound a g \<longleftrightarrow> bridge_consistent (ag_config_settings a) (wk_world (aw_config (gt_world g)))
     \<and> (\<forall>k \<in> set (gt_abandoned g). enabled_kinds a ! k \<noteq> DeviceConfigurationKind)"

lemma later_starts_return:
  assumes "j < k" and "k < length (enabled_kinds a)" and "enabled_kinds a ! j = DeviceConfigurationKind"
  shows "\<exists>w'. cp_start (agent_components a ! k) i w = (Inr (), w')"
proof -
  have "DeviceConfigurationKind \<in> set (enabled_kinds a)" using assms by (metis less_trans nth_mem)
  then have dc: "ag_device_config_enabled a" by (auto simp: enabled_kinds_def split: if_split_asm)
  define xs where "xs = (if ag_deepstream_enabled a \<and> ag_detection_events_enabled a then [DetectionIngest] else [])"
  define ys where "ys = (if ag_detection_sync_enabled a then [DetectionSync] else []) @ (if ag_snapshot_upload_enabled a then [SnapshotUpload] else [])"
  have e: "enabled_kinds a = xs @ DeviceConfigurationKind # ys" using dc by (simp add: enabled_kinds_def xs_def ys_def)
  have "DeviceConfigurationKind \<notin> set xs" by (simp add: xs_def)
  then have "length xs \<le> j" using assms(3) unfolding e nth_append by (metis not_le nth_mem)
  then obtain m where m: "k = length xs + Suc m" using assms(1) by (metis add_Suc_right le_less_trans less_imp_Suc_add)
  then have "enabled_kinds a ! k = ys ! m" "m < length ys" using assms(2) by (simp_all add: e nth_append)
  then have "enabled_kinds a ! k \<in> set ys" by simp
  then have "enabled_kinds a ! k = DetectionSync \<or> enabled_kinds a ! k = SnapshotUpload" by (auto simp: ys_def split: if_split_asm)
  then show ?thesis
    using assms(2) by (auto simp: agent_components_def start_upload_worker_def start_worker_def)
qed

lemma component_start_config:
  assumes "cp_start (component_of a x) i w = (r, w')" and "bridge_consistent (ag_config_settings a) (wk_world (aw_config w))"
    and "x = DeviceConfigurationKind \<Longrightarrow> \<not> kind_active x w"
  shows "bridge_consistent (ag_config_settings a) (wk_world (aw_config w'))"
  using assms by (cases x) (auto split: prod.split_asm dest: start_coordinator_consistent)

lemma component_stop_config:
  assumes "cp_stop (component_of a x) i w = (r, w')" and "bridge_consistent (ag_config_settings a) (wk_world (aw_config w))"
  shows "bridge_consistent (ag_config_settings a) (wk_world (aw_config w'))"
  using assms by (cases x) (auto split: prod.split_asm dest: stop_coordinator_consistent)

lemma rollback_config:
  assumes "config_sound a g" and "set ks \<subseteq> {..<length (enabled_kinds a)}" and "\<forall>k \<in> set ks. enabled_kinds a ! k \<noteq> DeviceConfigurationKind"
    and "rollback_started (agent_components a) i ks g = (r, g')"
  shows "config_sound a g'"
  using assms
proof (induction ks arbitrary: g)
  case (Cons k ks)
  obtain q w where q: "cp_stop (agent_components a ! k) i (gt_world g) = (q, w)" by (cases "cp_stop (agent_components a ! k) i (gt_world g)")
  have "bridge_consistent (ag_config_settings a) (wk_world (aw_config w))"
    using component_stop_config [of a _ i "gt_world g" q w] q Cons.prems by (auto simp: agent_components_def config_sound_def)
  then have next_sound: "config_sound a (g\<lparr>gt_world := w\<rparr>)" "config_sound a (g\<lparr>gt_world := w, gt_running := x\<rparr>)"
    "config_sound a (g\<lparr>gt_world := w, gt_abandoned := k # gt_abandoned g, gt_running := x\<rparr>)" for x
    using Cons.prems by (simp_all add: config_sound_def)
  show ?case
    using Cons.prems q Cons.IH [OF next_sound(2)] Cons.IH [OF next_sound(3)] next_sound(1)
    by (auto split: sum.split_asm if_split_asm)
qed simp

lemma stop_running_config:
  assumes "config_sound a g" and "set ks \<subseteq> {..<length (enabled_kinds a)}" and "stop_running (agent_components a) i ks fs g = (r, g')"
  shows "config_sound a g'"
  using assms
proof (induction ks arbitrary: g fs)
  case (Cons k ks)
  obtain q w where q: "cp_stop (agent_components a ! k) i (gt_world g) = (q, w)" by (cases "cp_stop (agent_components a ! k) i (gt_world g)")
  have "bridge_consistent (ag_config_settings a) (wk_world (aw_config w))"
    using component_stop_config [of a _ i "gt_world g" q w] q Cons.prems by (auto simp: agent_components_def config_sound_def)
  then have next_sound: "config_sound a (g\<lparr>gt_world := w\<rparr>)" "config_sound a (g\<lparr>gt_world := w, gt_running := x\<rparr>)" for x
    using Cons.prems by (simp_all add: config_sound_def)
  show ?case
    using Cons.prems q Cons.IH [OF next_sound(1)] Cons.IH [OF next_sound(2)] next_sound(1)
    by (auto split: sum.split_asm if_split_asm)
qed simp

lemma start_pending_config:
  assumes "config_sound a g" and "sorted_wrt (<) ks" and "set ks \<subseteq> {..<length (enabled_kinds a)}"
    and "set started \<subseteq> {..<length (enabled_kinds a)}" and "\<forall>j \<in> set started. \<forall>k \<in> set ks. j < k"
    and "\<forall>k \<in> set ks. enabled_kinds a ! k = DeviceConfigurationKind \<longrightarrow> \<not> kind_active DeviceConfigurationKind (gt_world g)"
    and "start_pending (agent_components a) i ks started g = (r, g')"
  shows "config_sound a g'"
  using assms
proof (induction ks arbitrary: g started)
  case (Cons k ks)
  obtain q w where q: "cp_start (agent_components a ! k) i (gt_world g) = (q, w)" by (cases "cp_start (agent_components a ! k) i (gt_world g)")
  have k: "k < length (enabled_kinds a)" "\<forall>j \<in> set ks. k < j" using Cons.prems by auto
  have c: "cp_start (component_of a (enabled_kinds a ! k)) i (gt_world g) = (q, w)" using q k(1) by (simp add: agent_components_def)
  have "bridge_consistent (ag_config_settings a) (wk_world (aw_config w))"
    using component_start_config [OF c] Cons.prems(1,6) by (auto simp: config_sound_def)
  then have next_sound: "config_sound a (g\<lparr>gt_world := w\<rparr>)" "config_sound a (g\<lparr>gt_world := w, gt_running := x\<rparr>)" for x
    using Cons.prems(1) by (simp_all add: config_sound_def)
  show ?case
  proof (cases q)
    case (Inr u)
    have "kind_active DeviceConfigurationKind w = kind_active DeviceConfigurationKind (gt_world g)"
      if "j \<in> set ks" "enabled_kinds a ! j = DeviceConfigurationKind" for j
    proof -
      have "k < j" "j < length (enabled_kinds a)" using k(2) that(1) Cons.prems(3) by auto
      then have "enabled_kinds a ! k \<noteq> enabled_kinds a ! j"
        using k(1) nth_eq_iff_index_eq [OF enabled_kinds_distinct, of k a j] by simp
      then have "enabled_kinds a ! k \<noteq> DeviceConfigurationKind" by (simp add: that(2))
      then show ?thesis by (rule component_frame [OF disjI1 [OF c]])
    qed
    then have "\<forall>j \<in> set ks. enabled_kinds a ! j = DeviceConfigurationKind \<longrightarrow> \<not> kind_active DeviceConfigurationKind w"
      using Cons.prems(6) by simp
    moreover have "start_pending (agent_components a) i ks (k # started) (g\<lparr>gt_world := w, gt_running := gt_running g @ [k]\<rparr>) = (r, g')"
      using Cons.prems(7) q Inr by simp
    ultimately show ?thesis
      using Cons.IH [OF next_sound(2), of "k # started" "gt_running g @ [k]"] Cons.prems(2-5) k by simp
  next
    case (Inl x)
    have "enabled_kinds a ! j \<noteq> DeviceConfigurationKind" if "j \<in> set started" for j
      using later_starts_return [of j k a i "gt_world g"] that Cons.prems(5) k(1) q Inl by auto
    then have "config_sound a h" if "rollback_started (agent_components a) i started (g\<lparr>gt_world := w\<rparr>) = (y, h)" for y h
      using rollback_config [OF next_sound(1) Cons.prems(4) _ that] by blast
    then show ?thesis
      using Cons.prems(7) q Inl next_sound(1) by (auto split: if_split_asm prod.split_asm sum.split_asm)
  qed
qed simp

lemma agent_step_config_sound:
  assumes "agent_step a g g'" and "config_sound a g" and "agent_gate.tracked a g"
  shows "config_sound a g'"
  using assms(1)
proof cases
  case (agent_start i r)
  let ?ks = "filter (\<lambda>k. k \<notin> set (gt_running g)) [0..<length (enabled_kinds a)]"
  have idle: "\<not> kind_active DeviceConfigurationKind (gt_world g)"
    if "k \<in> set ?ks" "enabled_kinds a ! k = DeviceConfigurationKind" for k
  proof -
    have "k < length (agent_components a)" "k \<notin> set (gt_running g)" using that(1) by (simp_all add: agent_components_def)
    moreover have "k \<notin> set (gt_abandoned g)" using assms(2) that(2) by (auto simp: config_sound_def)
    ultimately have "\<not> component_active a k (gt_world g)" using assms(3) unfolding agent_gate.tracked_def by blast
    then show ?thesis by (simp add: component_active_def that(2))
  qed
  have "sorted_wrt (<) ?ks" by (simp add: sorted_wrt_filter)
  from start_pending_config [OF assms(2) this _ _ _ _ , of "[]"] idle
  have "start_pending (agent_components a) i ?ks [] g = (r, g') \<Longrightarrow> config_sound a g'" by auto
  with agent_start assms(2) show ?thesis
    by (auto simp: start_operational_components_def agent_components_def split: if_split_asm)
next
  case (agent_lock i r)
  have len: "length (agent_components a) = length (enabled_kinds a)" by (simp add: agent_components_def)
  have "config_sound a (g\<lparr>gt_state := REACTIVATION_REQUIRED\<rparr>)" "set (rev (gt_running g)) \<subseteq> {..<length (enabled_kinds a)}"
    using assms(2,3) unfolding agent_gate.tracked_def len by (auto simp: config_sound_def)
  from stop_running_config [OF this] agent_lock show ?thesis
    by (auto simp: enter_reactivation_required_def split: prod.split_asm sum.split_asm)
next
  case (agent_unlock loaded r)
  with assms(2) show ?thesis
    by (auto simp: mark_operational_after_reactivation_def config_sound_def split: sum.split_asm option.split_asm if_split_asm)
next
  case (agent_config c)
  with assms(2) config_work_consistent show ?thesis by (auto simp: config_sound_def)
next
  case (agent_other w)
  with assms(2) show ?thesis by (simp add: config_sound_def)
qed

text \<open>
  C16.  A running Bridge reads what the mapping says.  Take an agent with any of its components enabled, from a
  fresh gate and a new coordinator, and any sequence of starts, locks and unlocks, turns of the poll loop (one of
  which may end it), ends of the child process, and work of the other components: there is never more than one
  Bridge process of the coordinator, and a live one reads the file that was generated from the configuration whose
  source mapping is the current one, so no detection is ever resolved with the mapping of another configuration.
\<close>

theorem bridge_runs_what_is_mapped:
  assumes "fresh_gate a g0" and "aw_config (gt_world g0) = new_coordinator ids cache generated" and "gt_abandoned g0 = []"
    and "(agent_step a)\<^sup>*\<^sup>* g0 g"
  shows "bridge_consistent (ag_config_settings a) (wk_world (aw_config (gt_world g)))"
proof -
  have "config_sound a g \<and> agent_gate.tracked a g"
    using assms(4)
  proof (induction rule: rtranclp_induct)
    case base
    then show ?case
      using fresh_gate_tracked [OF assms(1)] assms(2,3) new_coordinator_consistent by (simp add: config_sound_def)
  next
    case (step g g')
    then have "agent_gate.tracked a g'"
      using agent_gate.steps_tracked [OF r_into_rtranclp [of "gate_step _ _", OF agent_step_gate_step [OF step.hyps(2)]]] by blast
    with step agent_step_config_sound show ?case by blast
  qed
  then show ?thesis by (simp add: config_sound_def)
qed

definition demo_settings :: agent_settings where
  "demo_settings = \<lparr>ag_deepstream_enabled = False, ag_detection_events_enabled = False, ag_device_config_enabled = False,
     ag_detection_sync_enabled = True, ag_snapshot_upload_enabled = True, ag_ingest_config = demo_ingest_config ''gun'',
     ag_config_settings = demo_config_settings, ag_deepstream_config = None\<rparr>"

definition demo_agent_world :: agent_world where
  "demo_agent_world = \<lparr>aw_ingest = demo_ingest, aw_manager = \<lparr>pm_process = None, pm_stopping = False, pm_live = [], pm_next = 0\<rparr>,
     aw_config = new_coordinator [] [] None,
     aw_sync = \<lparr>wl_task = NoTask, wl_attempt = 0, wl_client_closed = False\<rparr>,
     aw_upload = \<lparr>wl_task = NoTask, wl_attempt = 0, wl_client_closed = False\<rparr>\<rparr>"

definition demo_gate :: "agent_world gate" where
  "demo_gate = \<lparr>gt_state = OPERATIONAL, gt_running = [], gt_abandoned = [], gt_world = demo_agent_world\<rparr>"

definition demo_mapped_settings :: agent_settings where
  "demo_mapped_settings = demo_settings\<lparr>ag_device_config_enabled := True, ag_detection_sync_enabled := False,
     ag_snapshot_upload_enabled := False\<rparr>"

definition demo_mapped_gate :: "agent_world gate" where
  "demo_mapped_gate = demo_gate\<lparr>gt_world := demo_agent_world\<lparr>aw_config := new_coordinator [demo_config_row] [] None\<rparr>\<rparr>"

lemma demo_kinds: "enabled_kinds demo_settings = [DetectionSync, SnapshotUpload]"
  by (simp add: enabled_kinds_def demo_settings_def)

lemma demo_fresh: "fresh_gate demo_settings demo_gate"
  by (simp add: fresh_gate_def demo_kinds demo_gate_def demo_agent_world_def)

lemma demo_gate_start:
  "start_operational_components (agent_components demo_settings) i demo_gate
   = (Inr (), demo_gate\<lparr>gt_running := [0, 1], gt_world := demo_agent_world\<lparr>
        aw_sync := \<lparr>wl_task = TaskRunning, wl_attempt = 0, wl_client_closed = False\<rparr>,
        aw_upload := \<lparr>wl_task = TaskRunning, wl_attempt = 0, wl_client_closed = False\<rparr>\<rparr>\<rparr>)"
proof -
  have "[0..<Suc (Suc 0)] = [0, 1]" by (simp add: upt_rec)
  then show ?thesis
    by (simp add: start_operational_components_def agent_components_def demo_kinds demo_gate_def demo_agent_world_def
        start_worker_def start_upload_worker_def)
qed

theorem start_is_all_or_nothing_witness:
  "\<exists>i g'. start_operational_components (agent_components demo_settings) i demo_gate = (Inr (), g')
     \<and> gt_running g' = [0, 1] \<and> wl_task (aw_sync (gt_world g')) = TaskRunning
     \<and> wl_task (aw_upload (gt_world g')) = TaskRunning \<and> gt_state g' = OPERATIONAL"
proof -
  obtain i g' where s: "start_operational_components (agent_components demo_settings) i demo_gate = (Inr (), g')"
    using demo_gate_start by blast
  have "[0..<Suc (Suc 0)] = [0, 1]" by (simp add: upt_rec)
  then have p: "[0, 1] = filter (\<lambda>k. k \<notin> set (gt_running demo_gate)) [0..<length (enabled_kinds demo_settings)]"
    by (simp add: demo_kinds demo_gate_def)
  from start_is_all_or_nothing [OF demo_fresh rtranclp.rtrancl_refl s p]
  have "gt_running g' = [0, 1]" "wl_task (aw_sync (gt_world g')) = TaskRunning" "wl_task (aw_upload (gt_world g')) = TaskRunning"
    "gt_state g' = OPERATIONAL"
    by (simp_all add: demo_kinds demo_gate_def demo_agent_world_def)
  with s show ?thesis by blast
qed

theorem lock_silences_agent_witness:
  "\<exists>i g g'. (gate_step (agent_components demo_settings) (component_active demo_settings))\<^sup>*\<^sup>* demo_gate g
     \<and> wl_task (aw_sync (gt_world g)) = TaskRunning
     \<and> enter_reactivation_required (agent_components demo_settings) i g = (Inr (), g')
     \<and> gt_running g' = [] \<and> gt_state g' = REACTIVATION_REQUIRED"
proof -
  fix any :: agent_input
  define i where "i = any\<lparr>an_sync_close_fault := None, an_upload_close_fault := None\<rparr>"
  define g where "g = demo_gate\<lparr>gt_running := [0, 1], gt_world := demo_agent_world\<lparr>
        aw_sync := \<lparr>wl_task = TaskRunning, wl_attempt = 0, wl_client_closed = False\<rparr>,
        aw_upload := \<lparr>wl_task = TaskRunning, wl_attempt = 0, wl_client_closed = False\<rparr>\<rparr>\<rparr>"
  have g: "start_operational_components (agent_components demo_settings) i demo_gate = (Inr (), g)"
    unfolding g_def by (rule demo_gate_start)
  have f: "gt_running g = [0, 1]" "wl_task (aw_sync (gt_world g)) = TaskRunning" "wl_task (aw_upload (gt_world g)) = TaskRunning"
    by (simp_all add: g_def)
  have reach: "(gate_step (agent_components demo_settings) (component_active demo_settings))\<^sup>*\<^sup>* demo_gate g"
    using gate_step.start [OF g] by blast
  obtain g' where l: "enter_reactivation_required (agent_components demo_settings) i g = (Inr (), g')"
    using f by (simp add: enter_reactivation_required_def agent_components_def demo_kinds stop_worker_def stop_upload_worker_def i_def)
  from lock_silences_agent [OF demo_fresh reach l] reach f l
  show "\<exists>i g g'. (gate_step (agent_components demo_settings) (component_active demo_settings))\<^sup>*\<^sup>* demo_gate g
     \<and> wl_task (aw_sync (gt_world g)) = TaskRunning
     \<and> enter_reactivation_required (agent_components demo_settings) i g = (Inr (), g')
     \<and> gt_running g' = [] \<and> gt_state g' = REACTIVATION_REQUIRED" by blast
qed

theorem bridge_runs_what_is_mapped_witness:
  "\<exists>g x. (agent_step demo_mapped_settings)\<^sup>*\<^sup>* demo_mapped_gate g \<and> x \<in> set (pm_live (cw_manager (wk_world (aw_config (gt_world g)))))
     \<and> bridge_consistent demo_config_settings (wk_world (aw_config (gt_world g)))"
proof -
  let ?a = demo_mapped_settings and ?s = "new_coordinator [demo_config_row] [] None"
  have kinds: "enabled_kinds ?a = [DeviceConfigurationKind]" by (simp add: enabled_kinds_def demo_mapped_settings_def demo_settings_def)
  have fresh: "fresh_gate ?a demo_mapped_gate" "aw_config (gt_world demo_mapped_gate) = ?s" "gt_abandoned demo_mapped_gate = []"
    by (simp_all add: fresh_gate_def kinds demo_mapped_gate_def demo_gate_def new_coordinator_def)
  have cs: "ag_config_settings ?a = demo_config_settings" by (simp add: demo_mapped_settings_def demo_settings_def)
  fix any :: agent_input
  let ?i = "any\<lparr>an_config := demo_config_input ''rtsp://h/1'' None\<rparr>"
  let ?s1 = "?s\<lparr>wk_world := demo_config_world\<lparr>cw_task := TaskRunning\<rparr>\<rparr>"
  have "start_coordinator demo_config_settings (an_config ?i) ?s = (Inr (), ?s1)"
    using demo_config_load
    by (auto simp: start_coordinator_def new_coordinator_def demo_config_input_def load_and_apply_cache_def
        load_cache_def load_cache_rows_def parse_str_uuid demo_config_world_def)
  then obtain g1 where g1: "start_operational_components (agent_components ?a) ?i demo_mapped_gate = (Inr (), g1)" "aw_config (gt_world g1) = ?s1"
    by (simp add: start_operational_components_def agent_components_def kinds cs demo_mapped_gate_def demo_gate_def)
  obtain s2 x where s2: "config_work demo_config_settings ?s1 s2" "x \<in> set (pm_live (cw_manager (wk_world s2)))"
    using demo_poll_starts_bridge by blast
  let ?g2 = "g1\<lparr>gt_world := (gt_world g1)\<lparr>aw_config := s2\<rparr>\<rparr>"
  have reach: "(agent_step ?a)\<^sup>*\<^sup>* demo_mapped_gate ?g2"
    using agent_start [OF g1(1)] agent_config [of ?a g1 s2] s2(1) g1(2) cs by (auto intro: converse_rtranclp_into_rtranclp)
  from bridge_runs_what_is_mapped [OF fresh reach] reach s2(2) cs
  show "\<exists>g x. (agent_step demo_mapped_settings)\<^sup>*\<^sup>* demo_mapped_gate g \<and> x \<in> set (pm_live (cw_manager (wk_world (aw_config (gt_world g)))))
     \<and> bridge_consistent demo_config_settings (wk_world (aw_config (gt_world g)))"
    by (intro exI [of _ ?g2] exI [of _ x]) simp
qed

text \<open>
  A delivery task that an exception ended is never replaced: a start of its component finds a task and
  does nothing, and the stop, which the lock and the shutdown call, raises the exception that ended the
  task and leaves the HTTP client open.
\<close>

theorem dead_worker_stays_dead:
  assumes "run_loop t drain is w = Ended e" and "e \<noteq> CancelledError" and "wl_task s = TaskRunning"
  shows "start_worker (after_loop (run_loop t drain is w) s) = (Inr (), after_loop (run_loop t drain is w) s)
    \<and> stop_worker f (after_loop (run_loop t drain is w) s) = (Inl e, s\<lparr>wl_task := NoTask\<rparr>)"
  using assms by (simp add: after_loop_def start_worker_def stop_worker_def)

definition demo_failing_drain :: "unit \<Rightarrow> unit worker \<Rightarrow> (exn + bool) \<times> unit worker" where
  "demo_failing_drain i w = (Inl SqliteError, w)"

definition demo_failed_worker :: "unit worker" where
  "demo_failed_worker = \<lparr>wk_attempt = 1024, wk_slept = [], wk_world = ()\<rparr>"

lemma demo_worker_dies:
  "run_loop (cs_tuning demo_config_settings) demo_failing_drain [(Fin 0, ())] demo_failed_worker = Ended OverflowError"
  by (simp add: run_iteration_def demo_failing_drain_def sleep_backoff_cases demo_failed_worker_def)

theorem dead_worker_stays_dead_witness:
  "stop_worker None (after_loop (run_loop (cs_tuning demo_config_settings) demo_failing_drain [(Fin 0, ())] demo_failed_worker)
      \<lparr>wl_task = TaskRunning, wl_attempt = 0, wl_client_closed = False\<rparr>)
   = (Inl OverflowError, \<lparr>wl_task = NoTask, wl_attempt = 0, wl_client_closed = False\<rparr>)"
  using dead_worker_stays_dead [OF demo_worker_dies, of "\<lparr>wl_task = TaskRunning, wl_attempt = 0, wl_client_closed = False\<rparr>"]
  by simp

text \<open>
  When the permission change fails after the socket was bound, the start raises with the socket in
  place, and a later stop finds nothing to stop.
\<close>

lemma chmod_failure_leaves_socket:
  assumes "start_handler cfg inp s = (Inl e, s')" and "sa_bind_fault inp = None" and "sa_chmod_fault inp = Some e"
    and "resolve_device_id (sa_identity_fault inp) s = (Inr u, s1)" and "ensure_socket_path_ready inp s1 = (Inr v, s2)"
    and "\<not> ih_running s" and "\<not> ih_running s2"
  shows "ih_socket s' = SocketFile \<and> stop_handler f s' = (Inr (), s')"
  using assms by (auto simp: start_handler_def stop_handler_def Let_def)

end
