(* ===== verification/Activation.thy ===== *)
theory Activation
  imports Http IdentityStore
begin

text \<open>
  \<^verbatim>\<open>activation/models.py\<close>, \<^verbatim>\<open>activation/key_resolver.py\<close>, \<^verbatim>\<open>activation/backend_client.py\<close> and
  \<^verbatim>\<open>activation/service.py\<close>: the exchange of a one-time Activation Key for a device identity.

  The state of a call is the identity table, the text of the key file (if there is one) and the
  requests sent so far, newest first.  Storage faults, the clock and the answer of the Backend are
  arguments.
\<close>

section \<open>The activation result\<close>

record activation_result =
  ar_device_id :: string
  ar_shared_secret :: string
  ar_branch_id :: string

definition mk_activation_result :: "string \<Rightarrow> string \<Rightarrow> string \<Rightarrow> exn + activation_result" where
  "mk_activation_result dev secret branch =
     (if dev = [] \<or> blank dev then Inl ValueError
      else if branch = [] \<or> blank branch then Inl ValueError
      else if blank secret then Inl ValueError
      else Inr \<lparr>ar_device_id = dev, ar_shared_secret = secret, ar_branch_id = branch\<rparr>)"

definition require_non_blank_str :: "json_obj \<Rightarrow> string \<Rightarrow> exn + string" where
  "require_non_blank_str d key =
     (case as_str (jget_none d key) of
        None \<Rightarrow> Inl ValueError
      | Some s \<Rightarrow> if blank s then Inl ValueError else Inr s)"

definition from_response_data :: "json \<Rightarrow> exn + activation_result" where
  "from_response_data data =
     (case as_obj data of
        None \<Rightarrow> Inl ValueError
      | Some d \<Rightarrow>
          bind_result (require_non_blank_str d ''deviceId'') (\<lambda>dev.
          bind_result (require_non_blank_str d ''sharedSecret'') (\<lambda>secret.
          bind_result (require_non_blank_str d ''branchId'') (\<lambda>branch.
            mk_activation_result dev secret branch))))"

section \<open>The client\<close>

definition ACTIVATE_PATH :: string where
  "ACTIVATE_PATH = ''/api/v1/activate''"

definition build_activate_url :: "string \<Rightarrow> string" where
  "build_activate_url base_url = join_url base_url ACTIVATE_PATH"

record activate_request =
  aq_url :: string
  aq_activation_key :: string

text \<open>Unlike the other clients, this one catches \<^verbatim>\<open>JSONDecodeError\<close> only.\<close>

definition safe_error_code :: "exn + json \<Rightarrow> exn + string option" where
  "safe_error_code body =
     (case body of
        Inl e \<Rightarrow> if e = JSONDecodeError then Inr None else Inl e
      | Inr v \<Rightarrow> Inr (case as_obj v of None \<Rightarrow> None | Some p \<Rightarrow> as_str (jget_none p ''errorCode'')))"

definition parse_activation_success :: "exn + json \<Rightarrow> exn + activation_result" where
  "parse_activation_success body =
     (case body of
        Inl e \<Rightarrow> Inl (if e = JSONDecodeError then ActivationExn InvalidActivationResponseError else e)
      | Inr v \<Rightarrow>
          (case as_obj v of
             None \<Rightarrow> Inl (ActivationExn InvalidActivationResponseError)
           | Some p \<Rightarrow>
               if jget p ''success'' \<noteq> Some (JBool True) then Inl (ActivationExn InvalidActivationResponseError)
               else (case from_response_data (jget_none p ''data'') of
                       Inl e \<Rightarrow> Inl (if is_value_error e then ActivationExn InvalidActivationResponseError else e)
                     | Inr r \<Rightarrow> Inr r)))"

definition handle_activation_response :: "int \<Rightarrow> exn + json \<Rightarrow> exn + activation_result" where
  "handle_activation_response status body =
     (if status = 200 then parse_activation_success body
      else if status = 401
      then bind_result (safe_error_code body) (\<lambda>code. Inl (ActivationExn (ActivationRejectedError status code)))
      else Inl (ActivationExn (ActivationServerError status)))"

definition send_activation :: "string \<Rightarrow> (activate_request \<Rightarrow> http_outcome) \<Rightarrow> string \<Rightarrow> exn + activation_result" where
  "send_activation base_url post key =
     (case post \<lparr>aq_url = build_activate_url base_url, aq_activation_key = key\<rparr> of
        HttpTimeout \<Rightarrow> Inl (ActivationExn ActivationTimeoutError)
      | HttpTransportError \<Rightarrow> Inl (ActivationExn ActivationTransportError)
      | HttpRaised e \<Rightarrow> Inl e
      | HttpResponse status body \<Rightarrow> handle_activation_response status body)"

section \<open>The key\<close>

datatype key_source = ENVIRONMENT | FILE

record resolved_key =
  rk_key :: string
  rk_source :: key_source

record activation_input =
  av_load_fault :: fault
  av_exists_fault :: fault
  av_read_fault :: fault
  av_post :: "activate_request \<Rightarrow> http_outcome"
  av_clock :: datetime
  av_store_fault :: fault
  av_unlink_fault :: fault

record agent_keys =
  ag_identity :: identity_table
  ag_key_file :: "string option"
  ag_requests :: "string list"

text \<open>
  \<open>av_exists_fault\<close> and \<open>av_read_fault\<close> are what \<^verbatim>\<open>Path.exists\<close> and \<^verbatim>\<open>read_text\<close> raise; only an
  \<^verbatim>\<open>OSError\<close> of the latter is translated.
\<close>

definition resolve_key :: "activation_input \<Rightarrow> string option \<Rightarrow> string option \<Rightarrow> exn + resolved_key option" where
  "resolve_key inp env file =
     (case env of
        Some k \<Rightarrow> Inr (Some \<lparr>rk_key = k, rk_source = ENVIRONMENT\<rparr>)
      | None \<Rightarrow>
          (case av_exists_fault inp of
             Some e \<Rightarrow> Inl e
           | None \<Rightarrow>
               (case file of
                  None \<Rightarrow> Inr None
                | Some raw \<Rightarrow>
                    (case av_read_fault inp of
                       Some e \<Rightarrow> Inl (if is_os_error e then ActivationExn ActivationKeyFileError else e)
                     | None \<Rightarrow>
                         let key = strip_by is_space raw
                         in if key = [] then Inl (ActivationExn ActivationKeyFileError)
                            else Inr (Some \<lparr>rk_key = key, rk_source = FILE\<rparr>)))))"

definition delete_key_file :: "activation_input \<Rightarrow> agent_keys \<Rightarrow> (exn + unit) \<times> agent_keys" where
  "delete_key_file inp s =
     (case av_unlink_fault inp of
        Some e \<Rightarrow> (Inl (if is_os_error e then ActivationExn ActivationKeyCleanupError else e), s)
      | None \<Rightarrow> (Inr (), s\<lparr>ag_key_file := None\<rparr>))"

section \<open>The service\<close>

datatype activation_outcome = FIRST_ACTIVATION | REACTIVATION | ALREADY_ACTIVATED

record activation_service_result =
  sv_outcome :: activation_outcome
  sv_device_id :: string
  sv_activated_at :: datetime
  sv_last_activated_at :: datetime
  sv_branch_id :: "string option"

definition now_utc :: "datetime \<Rightarrow> exn + datetime" where
  "now_utc now = (if has_tz now then Inr now else Inl ValueError)"

definition call_backend :: "string \<Rightarrow> activation_input \<Rightarrow> resolved_key \<Rightarrow> agent_keys
    \<Rightarrow> (exn + activation_result) \<times> agent_keys" where
  "call_backend base_url inp k s =
     (case send_activation base_url (av_post inp) (rk_key k) of
        Inl e \<Rightarrow> Inl (if e = ActivationExn ActivationTimeoutError then ActivationExn ActivationOutcomeAmbiguousError else e)
      | Inr r \<Rightarrow> Inr r,
      s\<lparr>ag_requests := rk_key k # ag_requests s\<rparr>)"

definition delete_file_key_if_needed :: "activation_input \<Rightarrow> resolved_key \<Rightarrow> agent_keys \<Rightarrow> (exn + unit) \<times> agent_keys" where
  "delete_file_key_if_needed inp k s = (if rk_source k \<noteq> FILE then (Inr (), s) else delete_key_file inp s)"

text \<open>\<^verbatim>\<open>except (RepositoryError, sqlite3.Error)\<close> around the two writes.\<close>

definition persistence_error :: "exn \<Rightarrow> exn" where
  "persistence_error e =
     (if is_repository_error e \<or> is_sqlite_error e then ActivationExn ActivationPersistenceError else e)"

definition first_activation :: "string \<Rightarrow> activation_input \<Rightarrow> resolved_key \<Rightarrow> agent_keys
    \<Rightarrow> (exn + activation_service_result) \<times> agent_keys" where
  "first_activation base_url inp k s =
     (case call_backend base_url inp k s of
        (Inl e, s) \<Rightarrow> (Inl e, s)
      | (Inr r, s) \<Rightarrow>
          (case bind_result (now_utc (av_clock inp)) (\<lambda>now.
                  mk_device_identity (ar_device_id r) (Some (ar_shared_secret r)) now now OPERATIONAL) of
             Inl e \<Rightarrow> (Inl e, s)
           | Inr identity \<Rightarrow>
               (case store_identity (av_store_fault inp) identity (ag_identity s) of
                  (Inl e, t) \<Rightarrow> (Inl (persistence_error e), s\<lparr>ag_identity := t\<rparr>)
                | (Inr _, t) \<Rightarrow>
                    (case delete_file_key_if_needed inp k (s\<lparr>ag_identity := t\<rparr>) of
                       (Inl e, s) \<Rightarrow> (Inl e, s)
                     | (Inr _, s) \<Rightarrow>
                         (Inr \<lparr>sv_outcome = FIRST_ACTIVATION, sv_device_id = ar_device_id r,
                               sv_activated_at = av_clock inp, sv_last_activated_at = av_clock inp,
                               sv_branch_id = Some (ar_branch_id r)\<rparr>, s)))))"

definition reactivation :: "string \<Rightarrow> activation_input \<Rightarrow> device_identity \<Rightarrow> resolved_key \<Rightarrow> agent_keys
    \<Rightarrow> (exn + activation_service_result) \<times> agent_keys" where
  "reactivation base_url inp existing k s =
     (case call_backend base_url inp k s of
        (Inl e, s) \<Rightarrow> (Inl e, s)
      | (Inr r, s) \<Rightarrow>
          if ar_device_id r \<noteq> di_device_id existing then (Inl (ActivationExn DeviceIdentityMismatchError), s)
          else (case now_utc (av_clock inp) of
                  Inl e \<Rightarrow> (Inl e, s)
                | Inr now \<Rightarrow>
                    (case replace_shared_secret (av_store_fault inp) (ar_shared_secret r) now (ag_identity s) of
                       (Inl e, t) \<Rightarrow> (Inl (persistence_error e), s\<lparr>ag_identity := t\<rparr>)
                     | (Inr _, t) \<Rightarrow>
                         (case delete_file_key_if_needed inp k (s\<lparr>ag_identity := t\<rparr>) of
                            (Inl e, s) \<Rightarrow> (Inl e, s)
                          | (Inr _, s) \<Rightarrow>
                              (Inr \<lparr>sv_outcome = REACTIVATION, sv_device_id = di_device_id existing,
                                    sv_activated_at = di_activated_at existing, sv_last_activated_at = now,
                                    sv_branch_id = Some (ar_branch_id r)\<rparr>, s)))))"

definition activate :: "string \<Rightarrow> string option \<Rightarrow> activation_input \<Rightarrow> agent_keys
    \<Rightarrow> (exn + activation_service_result) \<times> agent_keys" where
  "activate base_url env inp s =
     (case load_identity (av_load_fault inp) (ag_identity s) of
        Inl e \<Rightarrow> (Inl e, s)
      | Inr existing \<Rightarrow>
          (case resolve_key inp env (ag_key_file s) of
             Inl e \<Rightarrow> (Inl e, s)
           | Inr resolved \<Rightarrow>
               (case existing of
                  None \<Rightarrow>
                    (case resolved of
                       None \<Rightarrow> (Inl (ActivationExn ActivationKeyMissingError), s)
                     | Some k \<Rightarrow> first_activation base_url inp k s)
                | Some i \<Rightarrow>
                    (case resolved of
                       None \<Rightarrow> (Inr \<lparr>sv_outcome = ALREADY_ACTIVATED, sv_device_id = di_device_id i,
                                     sv_activated_at = di_activated_at i,
                                     sv_last_activated_at = di_last_activated_at i, sv_branch_id = None\<rparr>, s)
                     | Some k \<Rightarrow> reactivation base_url inp i k s))))"

section \<open>What a call leaves behind\<close>

text \<open>
  Either nothing was stored, or the identity of a trusted answer was; only after that is a key that
  came from the file removed, and only that can still fail.
\<close>

definition stored_answer :: "string \<Rightarrow> activation_input \<Rightarrow> resolved_key \<Rightarrow> agent_keys \<Rightarrow> agent_keys \<Rightarrow> bool" where
  "stored_answer base_url inp k s s' \<longleftrightarrow>
     (\<exists>res i. send_activation base_url (av_post inp) (rk_key k) = Inr res
        \<and> load_identity None (ag_identity s') = Inr (Some i) \<and> can_authenticate i
        \<and> di_device_id i = ar_device_id res \<and> di_shared_secret i = Some (ar_shared_secret res)
        \<and> (\<forall>j. load_identity None (ag_identity s) = Inr (Some j) \<longrightarrow>
             di_device_id i = di_device_id j \<and> di_activated_at i = di_activated_at j))"

lemma delete_file_key_cases:
  assumes "delete_file_key_if_needed inp k s = (r, s')"
  obtains (kept) e where "r = Inl e" "s' = s" "rk_source k = FILE"
  | (removed) "r = Inr ()" "s' = (if rk_source k = FILE then s\<lparr>ag_key_file := None\<rparr> else s)"
  using assms by (cases "av_unlink_fault inp")
    (auto simp: delete_file_key_if_needed_def delete_key_file_def split: if_split_asm)

lemma delete_file_key_file:
  assumes "delete_file_key_if_needed inp k u = (r, s')"
  shows "ag_key_file s' = ag_key_file u \<or> (rk_source k = FILE \<and> r = Inr () \<and> ag_key_file s' = None)"
  using assms by (cases rule: delete_file_key_cases) auto

lemma first_activation_cases:
  assumes "first_activation base_url inp k s = (r, s')" and "identity_table_wf (ag_identity s)"
  obtains (failed) e where "r = Inl e" "s' = s\<lparr>ag_requests := rk_key k # ag_requests s\<rparr>"
  | (stored) r' where "stored_answer base_url inp k s s'" "identity_table_wf (ag_identity s')"
      "ag_requests s' = rk_key k # ag_requests s"
      "delete_file_key_if_needed inp k (s\<lparr>ag_requests := rk_key k # ag_requests s, ag_identity := ag_identity s'\<rparr>) = (r', s')"
      "case r' of Inl e \<Rightarrow> r = Inl e | Inr _ \<Rightarrow> \<exists>x i. r = Inr x \<and> sv_outcome x = FIRST_ACTIVATION
         \<and> load_identity None (ag_identity s') = Inr (Some i) \<and> sv_device_id x = di_device_id i"
proof (cases "send_activation base_url (av_post inp) (rk_key k)")
  case (Inl e)
  with assms show ?thesis by (intro failed) (auto simp: first_activation_def call_backend_def)
next
  case (Inr res)
  let ?s = "s\<lparr>ag_requests := rk_key k # ag_requests s\<rparr>"
  show ?thesis
  proof (cases "has_tz (av_clock inp)")
    case False
    with assms Inr show ?thesis by (intro failed) (auto simp: first_activation_def call_backend_def now_utc_def)
  next
    case True
    let ?i = "\<lparr>di_device_id = ar_device_id res, di_shared_secret = Some (ar_shared_secret res),
      di_activated_at = av_clock inp, di_last_activated_at = av_clock inp, di_operational_state = OPERATIONAL\<rparr>"
    have mk: "bind_result (now_utc (av_clock inp)) (\<lambda>now.
        mk_device_identity (ar_device_id res) (Some (ar_shared_secret res)) now now OPERATIONAL) = Inr ?i"
      using True by (simp add: now_utc_def mk_device_identity_def)
    have ok: "identity_ok ?i" by (simp add: identity_ok_def)
    obtain y t where st: "store_identity (av_store_fault inp) ?i (ag_identity s) = (y, t)"
      by (cases "store_identity (av_store_fault inp) ?i (ag_identity s)")
    show ?thesis
    proof (cases y)
      case (Inl e)
      then have "t = ag_identity s" using st sqlite_identity.store_fails by blast
      with assms Inr mk st Inl show ?thesis
        by (intro failed) (auto simp: first_activation_def call_backend_def)
    next
      case y: (Inr u)
      obtain r' s2 where d: "delete_file_key_if_needed inp k (?s\<lparr>ag_identity := t\<rparr>) = (r', s2)"
        by (cases "delete_file_key_if_needed inp k (?s\<lparr>ag_identity := t\<rparr>)")
      have s2: "ag_identity s2 = t" "ag_requests s2 = rk_key k # ag_requests s"
        using d by (cases rule: delete_file_key_cases; simp)+
      have fresh: "load_identity None (ag_identity s) = Inr None" and ld: "load_identity None t = Inr (Some ?i)"
        using st y ok sqlite_identity.store_fresh sqlite_identity.store_done by (metis old.unit.exhaust)+
      have "s' = s2" and r: "r = (case r' of Inl e \<Rightarrow> Inl e | Inr _ \<Rightarrow> Inr \<lparr>sv_outcome = FIRST_ACTIVATION,
          sv_device_id = ar_device_id res, sv_activated_at = av_clock inp, sv_last_activated_at = av_clock inp,
          sv_branch_id = Some (ar_branch_id res)\<rparr>)"
        using assms(1) Inr mk st y d by (auto simp: first_activation_def call_backend_def split: sum.splits)
      moreover have "identity_table_wf t" using store_identity_wf [OF assms(2) ok, of "av_store_fault inp"] st by simp
      moreover have "stored_answer base_url inp k s s2"
        using Inr ld fresh s2 by (simp add: stored_answer_def can_authenticate_def)
      ultimately show ?thesis using d s2 ld by (intro stored) (auto split: sum.splits)
    qed
  qed
qed

lemma reactivation_cases:
  assumes "reactivation base_url inp old k s = (r, s')" and "identity_table_wf (ag_identity s)"
    and "load_identity None (ag_identity s) = Inr (Some old)"
  obtains (failed) e where "r = Inl e" "s' = s\<lparr>ag_requests := rk_key k # ag_requests s\<rparr>"
  | (stored) r' where "stored_answer base_url inp k s s'" "identity_table_wf (ag_identity s')"
      "ag_requests s' = rk_key k # ag_requests s"
      "delete_file_key_if_needed inp k (s\<lparr>ag_requests := rk_key k # ag_requests s, ag_identity := ag_identity s'\<rparr>) = (r', s')"
      "case r' of Inl e \<Rightarrow> r = Inl e | Inr _ \<Rightarrow> \<exists>x i. r = Inr x \<and> sv_outcome x = REACTIVATION
         \<and> load_identity None (ag_identity s') = Inr (Some i) \<and> sv_device_id x = di_device_id i"
proof (cases "send_activation base_url (av_post inp) (rk_key k)")
  case (Inl e)
  with assms show ?thesis by (intro failed) (auto simp: reactivation_def call_backend_def)
next
  case (Inr res)
  let ?s = "s\<lparr>ag_requests := rk_key k # ag_requests s\<rparr>"
  show ?thesis
  proof (cases "ar_device_id res = di_device_id old \<and> has_tz (av_clock inp)")
    case False
    then have "(r, s') = (Inl (if ar_device_id res \<noteq> di_device_id old
        then ActivationExn DeviceIdentityMismatchError else ValueError), ?s)"
      using assms(1) Inr by (auto simp: reactivation_def call_backend_def now_utc_def split: if_split_asm)
    then show ?thesis by (intro failed) blast+
  next
    case True
    obtain y t where st: "replace_shared_secret (av_store_fault inp) (ar_shared_secret res) (av_clock inp) (ag_identity s) = (y, t)"
      by (cases "replace_shared_secret (av_store_fault inp) (ar_shared_secret res) (av_clock inp) (ag_identity s)")
    show ?thesis
    proof (cases y)
      case (Inl e)
      then have "t = ag_identity s" using st sqlite_identity.replace_fails by blast
      with assms Inr True st Inl show ?thesis
        by (intro failed) (auto simp: reactivation_def call_backend_def now_utc_def)
    next
      case y: (Inr u)
      obtain r' s2 where d: "delete_file_key_if_needed inp k (?s\<lparr>ag_identity := t\<rparr>) = (r', s2)"
        by (cases "delete_file_key_if_needed inp k (?s\<lparr>ag_identity := t\<rparr>)")
      have s2: "ag_identity s2 = t" "ag_requests s2 = rk_key k # ag_requests s"
        using d by (cases rule: delete_file_key_cases; simp)+
      have ld: "load_identity None t = Inr (Some (old\<lparr>di_shared_secret := Some (ar_shared_secret res),
          di_last_activated_at := av_clock inp, di_operational_state := OPERATIONAL\<rparr>))"
        using st y sqlite_identity.replace_done [OF assms(2,3)] by (metis old.unit.exhaust)
      have "s' = s2" and r: "r = (case r' of Inl e \<Rightarrow> Inl e | Inr _ \<Rightarrow> Inr \<lparr>sv_outcome = REACTIVATION,
          sv_device_id = di_device_id old, sv_activated_at = di_activated_at old, sv_last_activated_at = av_clock inp,
          sv_branch_id = Some (ar_branch_id res)\<rparr>)"
        using assms(1) Inr True st y d by (auto simp: reactivation_def call_backend_def now_utc_def split: sum.splits)
      moreover have "identity_table_wf t"
        using replace_shared_secret_wf [OF assms(2), of "av_store_fault inp" "ar_shared_secret res" "av_clock inp"] st by simp
      moreover have "stored_answer base_url inp k s s2"
        using Inr True ld assms(3) s2 by (simp add: stored_answer_def can_authenticate_def)
      ultimately show ?thesis using d s2 ld by (intro stored) (auto split: sum.splits)
    qed
  qed
qed

lemma load_identity_quiet: "load_identity f t = Inr x \<Longrightarrow> load_identity None t = Inr x"
  by (cases f) (simp_all add: load_identity_def)

lemma activate_cases:
  assumes "activate base_url env inp s = (r, s')" and "identity_table_wf (ag_identity s)"
  obtains (quiet) "s' = s" "case r of Inl _ \<Rightarrow> True | Inr x \<Rightarrow> sv_outcome x = ALREADY_ACTIVATED \<and>
      (\<exists>i. load_identity None (ag_identity s) = Inr (Some i) \<and> sv_device_id x = di_device_id i)"
  | (failed) k e where "resolve_key inp env (ag_key_file s) = Inr (Some k)" "r = Inl e"
      "s' = s\<lparr>ag_requests := rk_key k # ag_requests s\<rparr>"
  | (stored) k r' where "resolve_key inp env (ag_key_file s) = Inr (Some k)" "stored_answer base_url inp k s s'"
      "identity_table_wf (ag_identity s')" "ag_requests s' = rk_key k # ag_requests s"
      "delete_file_key_if_needed inp k (s\<lparr>ag_requests := rk_key k # ag_requests s, ag_identity := ag_identity s'\<rparr>) = (r', s')"
      "case r' of Inl e \<Rightarrow> r = Inl e | Inr _ \<Rightarrow> \<exists>x i. r = Inr x \<and> sv_outcome x \<noteq> ALREADY_ACTIVATED
         \<and> load_identity None (ag_identity s') = Inr (Some i) \<and> sv_device_id x = di_device_id i"
proof (cases "load_identity (av_load_fault inp) (ag_identity s)")
  case (Inl e)
  with assms show ?thesis by (intro quiet) (auto simp: activate_def)
next
  case ex: (Inr existing)
  note ex' = load_identity_quiet [OF ex]
  show ?thesis
  proof (cases "resolve_key inp env (ag_key_file s)")
    case (Inl e)
    with assms ex show ?thesis by (intro quiet) (auto simp: activate_def)
  next
    case rs: (Inr resolved)
    show ?thesis
    proof (cases resolved)
      case None
      with assms ex ex' rs show ?thesis by (intro quiet) (auto simp: activate_def split: option.splits)
    next
      case (Some k)
      note rk = rs [unfolded Some]
      show ?thesis
      proof (cases existing)
        case None
        with assms ex rk have "first_activation base_url inp k s = (r, s')" by (simp add: activate_def)
        then show ?thesis using assms(2)
        proof (cases rule: first_activation_cases)
          case (failed e)
          then show ?thesis using that(2) rk by blast
        next
          case (stored r')
          show ?thesis
            by (rule that(3) [OF rk stored(1-4)]) (use stored(5) in \<open>cases r'; fastforce\<close>)
        qed
      next
        case (Some i)
        with assms ex rk have "reactivation base_url inp i k s = (r, s')" by (simp add: activate_def)
        then show ?thesis using assms(2) ex' [unfolded Some]
        proof (cases rule: reactivation_cases)
          case (failed e)
          then show ?thesis using that(2) rk by blast
        next
          case (stored r')
          show ?thesis
            by (rule that(3) [OF rk stored(1-4)]) (use stored(5) in \<open>cases r'; fastforce\<close>)
        qed
      qed
    qed
  qed
qed

section \<open>Properties\<close>

text \<open>
  C15.  Any activation, whatever faults and answers it meets, sends at most one request, and only with the
  resolved key.  The stored identity either stays as it was, or holds exactly the credentials of the
  answer the Backend gave to that request, and then the device id and activation time of an identity
  that existed before are kept.  A call that returns names the device id that is stored, and after
  an activation that identity can authenticate.
\<close>

theorem activation_contract:
  assumes "activate base_url env inp s = (r, s')" and "identity_table_wf (ag_identity s)"
  shows "identity_table_wf (ag_identity s')
    \<and> (ag_requests s' = ag_requests s \<or> (\<exists>k. resolve_key inp env (ag_key_file s) = Inr (Some k)
         \<and> ag_requests s' = rk_key k # ag_requests s))
    \<and> (ag_identity s' = ag_identity s \<or> (\<exists>k. resolve_key inp env (ag_key_file s) = Inr (Some k)
         \<and> ag_requests s' = rk_key k # ag_requests s \<and> stored_answer base_url inp k s s'))
    \<and> (case r of Inl _ \<Rightarrow> True
       | Inr x \<Rightarrow> \<exists>i. load_identity None (ag_identity s') = Inr (Some i) \<and> di_device_id i = sv_device_id x
           \<and> (sv_outcome x = ALREADY_ACTIVATED \<or> can_authenticate i))"
  using assms
proof (cases rule: activate_cases)
  case quiet
  with assms(2) show ?thesis by (cases r) auto
next
  case (failed k e)
  with assms(2) show ?thesis by auto
next
  case (stored k r')
  then obtain i where "load_identity None (ag_identity s') = Inr (Some i)" "can_authenticate i"
    unfolding stored_answer_def by blast
  with stored show ?thesis by (cases r') auto
qed

definition demo_activation_input :: "http_outcome \<Rightarrow> activation_input" where
  "demo_activation_input answer = \<lparr>av_load_fault = None, av_exists_fault = None, av_read_fault = None,
     av_post = (\<lambda>_. answer), av_clock = Aware 9, av_store_fault = None, av_unlink_fault = None\<rparr>"

definition demo_activation_answer :: http_outcome where
  "demo_activation_answer = HttpResponse 200 (Inr (JObj [(''success'', JBool True),
     (''data'', JObj [(''deviceId'', JStr ''dev''), (''sharedSecret'', JStr ''new''), (''branchId'', JStr ''b'')])]))"

definition demo_agent_keys :: agent_keys where
  "demo_agent_keys = \<lparr>ag_identity = [], ag_key_file = Some ''id.key '', ag_requests = []\<rparr>"

lemma demo_not_blank: "\<not> blank ''dev''" "\<not> blank ''new''" "\<not> blank ''b''"
  by (simp_all add: blank_def strip_by_def is_space_def)

lemma demo_strip: "strip_by is_space ''id.key '' = ''id.key''"
  by (simp add: strip_by_def is_space_def)

lemma demo_send_activation: "send_activation ''h'' (\<lambda>_. demo_activation_answer) k
    = Inr \<lparr>ar_device_id = ''dev'', ar_shared_secret = ''new'', ar_branch_id = ''b''\<rparr>"
  by (simp add: send_activation_def demo_activation_answer_def handle_activation_response_def
      parse_activation_success_def from_response_data_def require_non_blank_str_def jget_none_def
      mk_activation_result_def demo_not_blank)

lemma demo_activate:
  "activate ''h'' None ((demo_activation_input demo_activation_answer)\<lparr>av_unlink_fault := u\<rparr>) demo_agent_keys
   = (case u of Some e \<Rightarrow> Inl (if is_os_error e then ActivationExn ActivationKeyCleanupError else e)
      | None \<Rightarrow> Inr \<lparr>sv_outcome = FIRST_ACTIVATION, sv_device_id = ''dev'', sv_activated_at = Aware 9,
                  sv_last_activated_at = Aware 9, sv_branch_id = Some ''b''\<rparr>,
      \<lparr>ag_identity = [\<lparr>ir_device_id = ''dev'', ir_protected_secret = Some ''new'', ir_activated_at = IsoUtc 9,
          ir_last_activated_at = IsoUtc 9, ir_operational_state = ''Operational''\<rparr>],
       ag_key_file = (if u = None then None else Some ''id.key ''), ag_requests = [''id.key'']\<rparr>)"
  by (simp add: activate_def demo_activation_input_def demo_agent_keys_def load_identity_def load_rows_def
      resolve_key_def demo_strip first_activation_def call_backend_def demo_send_activation now_utc_def
      mk_device_identity_def store_identity_def transaction_def delete_file_key_if_needed_def delete_key_file_def
      split: option.split)

theorem activation_contract_witness:
  "\<exists>s' i. activate ''h'' None (demo_activation_input demo_activation_answer) demo_agent_keys
      = (Inr \<lparr>sv_outcome = FIRST_ACTIVATION, sv_device_id = ''dev'', sv_activated_at = Aware 9,
            sv_last_activated_at = Aware 9, sv_branch_id = Some ''b''\<rparr>, s')
    \<and> load_identity None (ag_identity s') = Inr (Some i) \<and> di_device_id i = ''dev'' \<and> can_authenticate i"
proof -
  obtain s' where s': "activate ''h'' None (demo_activation_input demo_activation_answer) demo_agent_keys
      = (Inr \<lparr>sv_outcome = FIRST_ACTIVATION, sv_device_id = ''dev'', sv_activated_at = Aware 9,
            sv_last_activated_at = Aware 9, sv_branch_id = Some ''b''\<rparr>, s')"
    using demo_activate [of None] by (simp add: demo_activation_input_def)
  have "identity_table_wf (ag_identity demo_agent_keys)" by (simp add: demo_agent_keys_def identity_table_wf_def)
  from activation_contract [OF s' this] s' show ?thesis by auto
qed

text \<open>
  The key file is the last thing to go: when a call of \<^verbatim>\<open>activate\<close> changes the key file at all, the
  key it held was sent, the credentials of the answer are stored, and the call returns normally.  So
  whenever the call fails the operator still has the file.
\<close>

theorem key_file_removed_last:
  assumes "activate base_url env inp s = (r, s')" and "identity_table_wf (ag_identity s)"
    and "ag_key_file s' \<noteq> ag_key_file s"
  shows "env = None \<and> ag_key_file s' = None
    \<and> (\<exists>raw x. ag_key_file s = Some raw \<and> r = Inr x \<and> sv_outcome x \<noteq> ALREADY_ACTIVATED
         \<and> ag_requests s' = strip_by is_space raw # ag_requests s
         \<and> stored_answer base_url inp \<lparr>rk_key = strip_by is_space raw, rk_source = FILE\<rparr> s s')"
  using assms(1,2)
proof (cases rule: activate_cases)
  case quiet
  with assms(3) show ?thesis by simp
next
  case (failed k e)
  with assms(3) show ?thesis by simp
next
  case (stored k r')
  from delete_file_key_file [OF stored(5)] assms(3)
  have src: "rk_source k = FILE" "r' = Inr ()" "ag_key_file s' = None" by simp_all
  with stored(1) obtain raw where "env = None" "ag_key_file s = Some raw"
    "k = \<lparr>rk_key = strip_by is_space raw, rk_source = FILE\<rparr>"
    by (auto simp: resolve_key_def Let_def split: option.split_asm if_split_asm)
  with src stored show ?thesis by auto
qed

theorem key_file_removed_last_witness:
  "\<exists>r s'. activate ''h'' None (demo_activation_input demo_activation_answer) demo_agent_keys = (r, s')
    \<and> ag_key_file s' = None
    \<and> stored_answer ''h'' (demo_activation_input demo_activation_answer)
        \<lparr>rk_key = ''id.key'', rk_source = FILE\<rparr> demo_agent_keys s'"
proof -
  obtain r s' where s': "activate ''h'' None (demo_activation_input demo_activation_answer) demo_agent_keys = (r, s')"
    and f: "ag_key_file s' = None"
    using demo_activate [of None] by (simp add: demo_activation_input_def)
  have wf: "identity_table_wf (ag_identity demo_agent_keys)" by (simp add: demo_agent_keys_def identity_table_wf_def)
  have "ag_key_file s' \<noteq> ag_key_file demo_agent_keys" using f by (simp add: demo_agent_keys_def)
  from key_file_removed_last [OF s' wf this] s' show ?thesis
    by (auto simp: demo_agent_keys_def demo_strip)
qed

text \<open>
  A key that stays behind blocks the next start.  After an activation that stored credentials, with
  the key in the environment or in a file that could not be removed, the next call sends the same,
  now consumed, key again; when the Backend rejects it the call fails, although the device holds an
  identity that can authenticate.
\<close>

theorem leftover_key_blocks_restart:
  assumes "activate base_url env inp s = (r, s')" and "identity_table_wf (ag_identity s)"
    and "ag_identity s' \<noteq> ag_identity s"
    and "env \<noteq> None \<or> r = Inl (ActivationExn ActivationKeyCleanupError) \<and> ag_key_file s' \<noteq> None"
    and "inp' = demo_activation_input (HttpResponse 401 (Inr body))"
  shows "\<exists>key code i. ag_requests s' = key # ag_requests s
    \<and> activate base_url env inp' s'
      = (Inl (ActivationExn (ActivationRejectedError 401 code)), s'\<lparr>ag_requests := key # ag_requests s'\<rparr>)
    \<and> load_identity None (ag_identity s') = Inr (Some i) \<and> can_authenticate i"
  using assms(1,2)
proof (cases rule: activate_cases)
  case quiet
  with assms(3) show ?thesis by simp
next
  case (failed k e)
  with assms(3) show ?thesis by simp
next
  case (stored k r')
  obtain i where i: "load_identity None (ag_identity s') = Inr (Some i)" "can_authenticate i"
    using stored(2) unfolding stored_answer_def by blast
  have kept: "env \<noteq> None \<or> ag_key_file s' = ag_key_file s"
  proof -
    have "ag_key_file s' = ag_key_file s \<or> ag_key_file s' = None"
      using delete_file_key_file [OF stored(5)] by auto
    with assms(4) show ?thesis by auto
  qed
  have key: "resolve_key inp' env (ag_key_file s') = Inr (Some k)"
    using kept stored(1) assms(5)
    by (auto simp: resolve_key_def demo_activation_input_def Let_def split: option.split_asm if_split_asm)
  obtain code where code: "safe_error_code (Inr body) = Inr code" by (simp add: safe_error_code_def)
  have "activate base_url env inp' s' = (Inl (ActivationExn (ActivationRejectedError 401 code)),
      s'\<lparr>ag_requests := rk_key k # ag_requests s'\<rparr>)"
    using i key assms(5) code
    by (simp add: activate_def demo_activation_input_def reactivation_def call_backend_def send_activation_def
        handle_activation_response_def)
  with i stored(4) show ?thesis by blast
qed

theorem leftover_key_blocks_restart_witness:
  "\<exists>s' code. activate ''h'' None ((demo_activation_input demo_activation_answer)\<lparr>av_unlink_fault := Some OSError\<rparr>) demo_agent_keys
      = (Inl (ActivationExn ActivationKeyCleanupError), s')
    \<and> activate ''h'' None (demo_activation_input (HttpResponse 401 (Inr JNull))) s'
      = (Inl (ActivationExn (ActivationRejectedError 401 code)), s'\<lparr>ag_requests := [''id.key'', ''id.key'']\<rparr>)"
proof -
  obtain s' where s': "activate ''h'' None ((demo_activation_input demo_activation_answer)\<lparr>av_unlink_fault := Some OSError\<rparr>) demo_agent_keys
      = (Inl (ActivationExn ActivationKeyCleanupError), s')"
    and f: "ag_key_file s' = Some ''id.key ''" "ag_identity s' \<noteq> []" "ag_requests s' = [''id.key'']"
    using demo_activate [of "Some OSError"] by simp
  have wf: "identity_table_wf (ag_identity demo_agent_keys)" by (simp add: demo_agent_keys_def identity_table_wf_def)
  have ne: "ag_identity s' \<noteq> ag_identity demo_agent_keys" using f by (simp add: demo_agent_keys_def)
  have "None \<noteq> (None :: string option) \<or> (Inl (ActivationExn ActivationKeyCleanupError) :: exn + activation_service_result)
      = Inl (ActivationExn ActivationKeyCleanupError) \<and> ag_key_file s' \<noteq> None" using f by simp
  from leftover_key_blocks_restart [OF s' wf ne this refl, of JNull] s' f show ?thesis by auto
qed

text \<open>
  A body that is not valid UTF-8 makes the client raise \<^verbatim>\<open>UnicodeDecodeError\<close>, which no typed
  activation error stands for, after the key was sent.
\<close>

lemma undecodable_answer_escapes:
  assumes "status = 200 \<or> status = 401"
  shows "handle_activation_response status (Inl UnicodeDecodeError) = Inl UnicodeDecodeError"
  using assms by (auto simp: handle_activation_response_def parse_activation_success_def safe_error_code_def)

end
