(* ===== verification/Credential.thy ===== *)
theory Credential
  imports Http IdentityStore
begin

text \<open>
  \<^verbatim>\<open>validation/models.py\<close>, \<^verbatim>\<open>validation/client.py\<close>, \<^verbatim>\<open>validation/loop.py\<close> and
  \<^verbatim>\<open>validation/monitor.py\<close>: the periodic validation of the stored credentials and the lock a
  confirmed rejection puts on them.
\<close>

section \<open>The result of one validation\<close>

datatype validation_outcome = VALID | CONFIRMED_REJECTED | INDETERMINATE

datatype indeterminate_reason =
  IR_TIMEOUT | IR_TRANSPORT_FAILURE | IR_SERVER_FAILURE | IR_UNEXPECTED_STATUS | IR_INVALID_RESPONSE

record validation_result =
  vr_outcome :: validation_outcome
  vr_status_code :: "int option"
  vr_reason :: "indeterminate_reason option"

definition mk_validation_result :: "validation_result \<Rightarrow> exn + validation_result" where
  "mk_validation_result r =
     (if vr_outcome r = INDETERMINATE \<and> vr_reason r = None then Inl ValueError
      else if vr_outcome r \<noteq> INDETERMINATE \<and> vr_reason r \<noteq> None then Inl ValueError
      else Inr r)"

definition valid_result :: "int \<Rightarrow> exn + validation_result" where
  "valid_result status =
     mk_validation_result \<lparr>vr_outcome = VALID, vr_status_code = Some status, vr_reason = None\<rparr>"

definition confirmed_rejected_result :: "int \<Rightarrow> exn + validation_result" where
  "confirmed_rejected_result status =
     mk_validation_result \<lparr>vr_outcome = CONFIRMED_REJECTED, vr_status_code = Some status, vr_reason = None\<rparr>"

definition indeterminate_result :: "indeterminate_reason \<Rightarrow> int option \<Rightarrow> exn + validation_result" where
  "indeterminate_result reason status =
     mk_validation_result \<lparr>vr_outcome = INDETERMINATE, vr_status_code = status, vr_reason = Some reason\<rparr>"

lemma result_simps [simp]:
  "valid_result n = Inr \<lparr>vr_outcome = VALID, vr_status_code = Some n, vr_reason = None\<rparr>"
  "confirmed_rejected_result n = Inr \<lparr>vr_outcome = CONFIRMED_REJECTED, vr_status_code = Some n, vr_reason = None\<rparr>"
  "indeterminate_result why st = Inr \<lparr>vr_outcome = INDETERMINATE, vr_status_code = st, vr_reason = Some why\<rparr>"
  by (simp_all add: valid_result_def confirmed_rejected_result_def indeterminate_result_def mk_validation_result_def)

section \<open>The client\<close>

definition VALIDATION_PATH :: string where
  "VALIDATION_PATH = ''/api/v1/device/credentials/validate''"

definition INVALID_DEVICE_CREDENTIALS_CODE :: string where
  "INVALID_DEVICE_CREDENTIALS_CODE = ''INVALID_DEVICE_CREDENTIALS''"

definition build_validation_url :: "string \<Rightarrow> string" where
  "build_validation_url base_url = join_url base_url VALIDATION_PATH"

record validation_request =
  vq_url :: string
  vq_device_id_header :: string
  vq_device_secret_header :: string

definition classify_validation_success :: "int \<Rightarrow> exn + json \<Rightarrow> exn + validation_result" where
  "classify_validation_success status body =
     bind_result (safe_json body) (\<lambda>payload.
     case as_obj payload of
       None \<Rightarrow> indeterminate_result IR_INVALID_RESPONSE (Some status)
     | Some p \<Rightarrow>
         if jget p ''success'' \<noteq> Some (JBool True) \<or> jget_none p ''errorCode'' \<noteq> JNull \<or> jget_none p ''data'' \<noteq> JNull
         then indeterminate_result IR_INVALID_RESPONSE (Some status)
         else valid_result status)"

definition classify_validation_rejection :: "int \<Rightarrow> exn + json \<Rightarrow> exn + validation_result" where
  "classify_validation_rejection status body =
     bind_result (safe_json body) (\<lambda>payload.
     case as_obj payload of
       None \<Rightarrow> indeterminate_result IR_INVALID_RESPONSE (Some status)
     | Some p \<Rightarrow>
         if jget p ''success'' \<noteq> Some (JBool False)
            \<or> jget_none p ''errorCode'' \<noteq> JStr INVALID_DEVICE_CREDENTIALS_CODE
         then indeterminate_result IR_INVALID_RESPONSE (Some status)
         else confirmed_rejected_result status)"

definition classify_validation :: "int \<Rightarrow> exn + json \<Rightarrow> exn + validation_result" where
  "classify_validation status body =
     (if status = 200 then classify_validation_success status body
      else if status = 401 then classify_validation_rejection status body
      else indeterminate_result
             (if 500 \<le> status \<and> status < 600 then IR_SERVER_FAILURE else IR_UNEXPECTED_STATUS) (Some status))"

definition validate_credentials ::
  "string \<Rightarrow> (validation_request \<Rightarrow> http_outcome) \<Rightarrow> string \<Rightarrow> string \<Rightarrow> exn + validation_result" where
  "validate_credentials base_url post device_id secret =
     (case post \<lparr>vq_url = build_validation_url base_url, vq_device_id_header = device_id,
                 vq_device_secret_header = secret\<rparr> of
        HttpTimeout \<Rightarrow> indeterminate_result IR_TIMEOUT None
      | HttpTransportError \<Rightarrow> indeterminate_result IR_TRANSPORT_FAILURE None
      | HttpRaised e \<Rightarrow> Inl e
      | HttpResponse status body \<Rightarrow> classify_validation status body)"

section \<open>The monitor\<close>

text \<open>
  The state of a run: the identity table, the waits it asked for and the requests it sent (both
  newest first).  One attempt meets the faults of its two storage calls and the answer of the
  Backend.
\<close>

record monitor =
  mo_identity :: identity_table
  mo_slept :: "pyfloat list"
  mo_requests :: "(string \<times> string) list"

record attempt_input =
  ai_load_fault :: fault
  ai_post :: "validation_request \<Rightarrow> http_outcome"
  ai_lock_fault :: fault

text \<open>Whether an attempt ended the loop with the terminal result (\<open>True\<close>) or asks for the next one.\<close>

definition load_authenticatable_identity :: "fault \<Rightarrow> identity_table \<Rightarrow> exn + device_identity option" where
  "load_authenticatable_identity fault t =
     bind_result (load_identity fault t) (\<lambda>identity.
     case identity of
       None \<Rightarrow> Inl (ValidationLoopExn DeviceIdentityUnavailableError)
     | Some i \<Rightarrow>
         if di_operational_state i = REACTIVATION_REQUIRED then Inr None
         else if \<not> can_authenticate i then Inl (ValidationLoopExn DeviceIdentityUnavailableError)
         else Inr (Some i))"

definition lock_on_confirmed_rejection :: "fault \<Rightarrow> monitor \<Rightarrow> (exn + bool) \<times> monitor" where
  "lock_on_confirmed_rejection fault m =
     (case mark_reactivation_required fault (mo_identity m) of
        (Inl e, t) \<Rightarrow>
          (Inl (if is_repository_error e \<or> is_sqlite_error e then ValidationLoopExn CredentialLockPersistenceError
                else e), m\<lparr>mo_identity := t\<rparr>)
      | (Inr _, t) \<Rightarrow> (Inr True, m\<lparr>mo_identity := t\<rparr>))"

definition handle_validation_result :: "fault \<Rightarrow> validation_result \<Rightarrow> monitor \<Rightarrow> (exn + bool) \<times> monitor" where
  "handle_validation_result fault r m =
     (if vr_outcome r = CONFIRMED_REJECTED then lock_on_confirmed_rejection fault m else (Inr False, m))"

definition attempt_once :: "string \<Rightarrow> attempt_input \<Rightarrow> monitor \<Rightarrow> (exn + bool) \<times> monitor" where
  "attempt_once base_url inp m =
     (case load_authenticatable_identity (ai_load_fault inp) (mo_identity m) of
        Inl e \<Rightarrow> (Inl e, m)
      | Inr None \<Rightarrow> (Inr True, m)
      | Inr (Some i) \<Rightarrow>
          (case di_shared_secret i of
             None \<Rightarrow> (Inl AssertionError, m)
           | Some secret \<Rightarrow>
               let m' = m\<lparr>mo_requests := (di_device_id i, secret) # mo_requests m\<rparr>
               in case validate_credentials base_url (ai_post inp) (di_device_id i) secret of
                    Inl e \<Rightarrow> (Inl e, m')
                  | Inr r \<Rightarrow> handle_validation_result (ai_lock_fault inp) r m'))"

datatype monitor_end = Polling | ReactivationRequired | Failed exn

fun run_monitor :: "string \<Rightarrow> pyfloat \<Rightarrow> attempt_input list \<Rightarrow> monitor \<Rightarrow> monitor_end \<times> monitor" where
  "run_monitor base_url interval [] m = (Polling, m)"
| "run_monitor base_url interval (inp # inps) m =
     (case attempt_once base_url inp m of
        (Inl e, m') \<Rightarrow> (Failed e, m')
      | (Inr True, m') \<Rightarrow> (ReactivationRequired, m')
      | (Inr False, m') \<Rightarrow> run_monitor base_url interval inps (m'\<lparr>mo_slept := interval # mo_slept m'\<rparr>))"

definition mk_monitor :: "pyfloat \<Rightarrow> identity_table \<Rightarrow> exn + monitor" where
  "mk_monitor interval t =
     (if fl_le interval (Fin 0) then Inl ValueError
      else Inr \<lparr>mo_identity = t, mo_slept = [], mo_requests = []\<rparr>)"

section \<open>When the identity may be locked\<close>

definition confirmed_rejection :: "http_outcome \<Rightarrow> bool" where
  "confirmed_rejection answer \<longleftrightarrow>
     (\<exists>p. answer = HttpResponse 401 (Inr (JObj p)) \<and> jget p ''success'' = Some (JBool False)
        \<and> jget p ''errorCode'' = Some (JStr INVALID_DEVICE_CREDENTIALS_CODE))"

lemma classify_confirmed:
  assumes "classify_validation status body = Inr r" and "vr_outcome r = CONFIRMED_REJECTED"
  shows "confirmed_rejection (HttpResponse status body)"
proof (cases "safe_json body")
  case (Inl e)
  with assms show ?thesis
    by (auto simp: classify_validation_def classify_validation_success_def classify_validation_rejection_def split: if_splits)
next
  case (Inr v)
  have "status = 401" using assms Inr
    by (auto simp: classify_validation_def classify_validation_success_def split: if_splits option.splits)
  with assms Inr obtain p where p: "v = JObj p" "jget p ''success'' = Some (JBool False)"
    "jget_none p ''errorCode'' = JStr INVALID_DEVICE_CREDENTIALS_CODE"
    by (auto simp: classify_validation_def classify_validation_rejection_def split: if_splits option.splits)
  then have "body = Inr (JObj p)" using Inr by (auto simp: safe_json_def split: sum.split_asm if_split_asm)
  with p \<open>status = 401\<close> show ?thesis
    by (auto simp: confirmed_rejection_def jget_none_def split: option.split_asm)
qed

lemma confirmed_classify:
  assumes "confirmed_rejection answer"
  shows "\<exists>p. answer = HttpResponse 401 (Inr (JObj p)) \<and> classify_validation 401 (Inr (JObj p)) = confirmed_rejected_result 401"
  using assms by (auto simp: confirmed_rejection_def classify_validation_def classify_validation_rejection_def
      safe_json_def jget_none_def)

lemma mark_reactivation_fails: "mark_reactivation_required f t = (Inl e, t') \<Longrightarrow> t' = t"
  by (auto simp: mark_reactivation_required_def outcome_simps)

lemma attempt_once_cases:
  assumes "attempt_once base inp m = (r, m')"
  obtains (kept) "mo_identity m' = mo_identity m" "r \<noteq> Inr True"
  | (already) "m' = m" "r = Inr True" "load_authenticatable_identity (ai_load_fault inp) (mo_identity m) = Inr None"
  | (locked) i secret where "load_authenticatable_identity (ai_load_fault inp) (mo_identity m) = Inr (Some i)"
      "di_shared_secret i = Some secret"
      "confirmed_rejection (ai_post inp \<lparr>vq_url = build_validation_url base, vq_device_id_header = di_device_id i,
          vq_device_secret_header = secret\<rparr>)"
      "mark_reactivation_required (ai_lock_fault inp) (mo_identity m) = (Inr (), mo_identity m')" "r = Inr True"
proof (cases "load_authenticatable_identity (ai_load_fault inp) (mo_identity m)")
  case (Inl e)
  with assms show ?thesis by (intro kept) (auto simp: attempt_once_def)
next
  case (Inr x)
  show ?thesis
  proof (cases x)
    case None
    with assms Inr have "m' = m" "r = Inr True" by (simp_all add: attempt_once_def)
    with Inr None show ?thesis by (intro already) simp_all
  next
    case (Some i)
    show ?thesis
    proof (cases "di_shared_secret i")
      case None
      with assms Inr Some show ?thesis by (intro kept) (auto simp: attempt_once_def)
    next
      case secret: (Some secret)
      let ?q = "\<lparr>vq_url = build_validation_url base, vq_device_id_header = di_device_id i, vq_device_secret_header = secret\<rparr>"
      let ?m = "m\<lparr>mo_requests := (di_device_id i, secret) # mo_requests m\<rparr>"
      show ?thesis
      proof (cases "validate_credentials base (ai_post inp) (di_device_id i) secret")
        case (Inl e)
        with assms Inr Some secret show ?thesis by (intro kept) (auto simp: attempt_once_def Let_def)
      next
        case v: (Inr v)
        with assms Inr Some secret have h: "handle_validation_result (ai_lock_fault inp) v ?m = (r, m')"
          by (simp add: attempt_once_def Let_def)
        show ?thesis
        proof (cases "vr_outcome v = CONFIRMED_REJECTED")
          case False
          with h show ?thesis by (intro kept) (auto simp: handle_validation_result_def)
        next
          case True
          have conf: "confirmed_rejection (ai_post inp ?q)"
          proof (cases "ai_post inp ?q")
            case (HttpResponse status body)
            with v True classify_confirmed [of status body v] show ?thesis by (simp add: validate_credentials_def)
          qed (use v True in \<open>auto simp: validate_credentials_def\<close>)
          obtain y t where mk: "mark_reactivation_required (ai_lock_fault inp) (mo_identity m) = (y, t)"
            by (cases "mark_reactivation_required (ai_lock_fault inp) (mo_identity m)")
          show ?thesis
          proof (cases y)
            case (Inl e)
            with mk have "t = mo_identity m" using mark_reactivation_fails by blast
            with h True mk Inl show ?thesis
              by (intro kept) (auto simp: handle_validation_result_def lock_on_confirmed_rejection_def)
          next
            case (Inr u)
            with h True mk have "r = Inr True" "mo_identity m' = t"
              by (auto simp: handle_validation_result_def lock_on_confirmed_rejection_def)
            with conf mk Inr secret \<open>load_authenticatable_identity _ _ = Inr x\<close> Some show ?thesis
              by (intro locked) simp_all
          qed
        qed
      qed
    qed
  qed
qed

section \<open>Properties of the loop\<close>

lemma load_locked: "load_authenticatable_identity f t = Inr None \<Longrightarrow>
   \<exists>i. load_identity None t = Inr (Some i) \<and> \<not> can_authenticate i"
proof (cases "load_identity f t")
  case (Inr x)
  assume none: "load_authenticatable_identity f t = Inr None"
  then obtain i where i: "x = Some i" "di_operational_state i = REACTIVATION_REQUIRED"
    using Inr by (auto simp: load_authenticatable_identity_def split: option.split_asm if_split_asm)
  have "load_identity None t = Inr x" using Inr by (cases f) (simp_all add: load_identity_def)
  with i show ?thesis by (auto simp: can_authenticate_def)
qed (simp add: load_authenticatable_identity_def)

text \<open>A run stops at its first terminal attempt; \<open>confirmed_in\<close> says one of its answers confirmed a rejection.\<close>

definition confirmed_in :: "attempt_input list \<Rightarrow> bool" where
  "confirmed_in inps \<longleftrightarrow> (\<exists>inp \<in> set inps. \<exists>q. confirmed_rejection (ai_post inp q))"

lemma run_monitor_identity:
  assumes "run_monitor base interval inps m = (stop, m')" and "identity_table_wf (mo_identity m)"
  shows "identity_table_wf (mo_identity m')
    \<and> (mo_identity m' = mo_identity m
       \<or> (stop = ReactivationRequired \<and> confirmed_in inps
          \<and> (\<exists>f. mark_reactivation_required f (mo_identity m) = (Inr (), mo_identity m'))))
    \<and> (stop = ReactivationRequired \<longrightarrow> (\<exists>i. load_identity None (mo_identity m') = Inr (Some i) \<and> \<not> can_authenticate i))"
  using assms
proof (induction inps arbitrary: m)
  case Nil
  then show ?case by simp
next
  case (Cons inp inps)
  obtain r m1 where a: "attempt_once base inp m = (r, m1)" by (cases "attempt_once base inp m")
  from a show ?case
  proof (cases rule: attempt_once_cases)
    case kept
    show ?thesis
    proof (cases r)
      case (Inl e)
      with Cons.prems a kept show ?thesis by auto
    next
      case (Inr b)
      then have "r = Inr False" using kept by (cases b) simp_all
      then have rest: "run_monitor base interval inps (m1\<lparr>mo_slept := interval # mo_slept m1\<rparr>) = (stop, m')"
        using Cons.prems(1) a by simp
      have wf: "identity_table_wf (mo_identity (m1\<lparr>mo_slept := interval # mo_slept m1\<rparr>))"
        using kept Cons.prems(2) by simp
      from Cons.IH [OF rest wf] kept show ?thesis by (auto simp: confirmed_in_def)
    qed
  next
    case already
    with Cons.prems a load_locked [OF already(3)] show ?thesis by auto
  next
    case (locked i secret)
    then have stop: "stop = ReactivationRequired" "m' = m1" using Cons.prems(1) a by simp_all
    have "identity_table_wf (mo_identity m1)"
      using mark_reactivation_required_wf [OF Cons.prems(2), of "ai_lock_fault inp"] locked(4) by simp
    moreover have "confirmed_in (inp # inps)" using locked(3) by (auto simp: confirmed_in_def)
    moreover have "\<exists>i. load_identity None (mo_identity m1) = Inr (Some i) \<and> \<not> can_authenticate i"
      by (rule sqlite_identity.lock_then_load [OF Cons.prems(2) locked(4)])
    ultimately show ?thesis using stop locked(4) by blast
  qed
qed

text \<open>
  C33.  Only a confirmed rejection locks the device: whatever storage faults and answers a run of the
  monitor meets, the stored identity is either untouched, or the run ended with the terminal result
  after an answer that was exactly a 401 with \<^verbatim>\<open>success: false\<close> and the one rejection code, and the
  one change is the lock; and whenever the terminal result is returned, the identity is locked.
\<close>

theorem only_confirmed_rejection_locks:
  assumes "run_monitor base interval inps m = (stop, m')" and "identity_table_wf (mo_identity m)"
  shows "(mo_identity m' = mo_identity m
       \<or> (stop = ReactivationRequired \<and> confirmed_in inps
          \<and> (\<exists>f. mark_reactivation_required f (mo_identity m) = (Inr (), mo_identity m'))))
    \<and> (stop = ReactivationRequired \<longrightarrow> (\<exists>i. load_identity None (mo_identity m') = Inr (Some i) \<and> \<not> can_authenticate i))"
  using run_monitor_identity [OF assms] by blast

definition demo_monitor :: monitor where
  "demo_monitor = \<lparr>mo_identity = [demo_identity_row], mo_slept = [], mo_requests = []\<rparr>"

definition demo_attempt :: "http_outcome \<Rightarrow> attempt_input" where
  "demo_attempt answer = \<lparr>ai_load_fault = None, ai_post = (\<lambda>_. answer), ai_lock_fault = None\<rparr>"

definition demo_rejection :: http_outcome where
  "demo_rejection = HttpResponse 401
     (Inr (JObj [(''success'', JBool False), (''errorCode'', JStr INVALID_DEVICE_CREDENTIALS_CODE)]))"

lemma demo_load_credentials:
  "\<exists>i. load_authenticatable_identity None [demo_identity_row] = Inr (Some i) \<and> di_shared_secret i = Some ''s''
     \<and> di_device_id i = ''dev''"
  by (simp add: load_authenticatable_identity_def load_identity_def load_rows_def row_to_identity_def
      parse_operational_state_def mk_device_identity_def demo_identity_row_def can_authenticate_def)

lemma demo_run_monitor:
  "\<exists>m'. run_monitor base (Fin 30) [demo_attempt HttpTimeout, demo_attempt demo_rejection] demo_monitor
     = (ReactivationRequired, m') \<and> mo_slept m' = [Fin 30] \<and> mo_requests m' = [(''dev'', ''s''), (''dev'', ''s'')]"
proof -
  obtain i where i: "load_authenticatable_identity None [demo_identity_row] = Inr (Some i)" "di_shared_secret i = Some ''s''"
    "di_device_id i = ''dev''" using demo_load_credentials by blast
  have c: "classify_validation 401 (Inr (JObj [(''success'', JBool False), (''errorCode'', JStr INVALID_DEVICE_CREDENTIALS_CODE)]))
      = confirmed_rejected_result 401"
    by (simp add: classify_validation_def classify_validation_rejection_def safe_json_def jget_none_def)
  show ?thesis
    using i c
    by (simp add: attempt_once_def demo_attempt_def demo_monitor_def validate_credentials_def handle_validation_result_def
        demo_rejection_def lock_on_confirmed_rejection_def mark_reactivation_required_def transaction_def Let_def)
qed

theorem only_confirmed_rejection_locks_witness:
  "\<exists>m' i. run_monitor ''b'' (Fin 30) [demo_attempt HttpTimeout, demo_attempt demo_rejection] demo_monitor
      = (ReactivationRequired, m') \<and> load_identity None (mo_identity m') = Inr (Some i) \<and> \<not> can_authenticate i"
proof -
  obtain m' where r: "run_monitor ''b'' (Fin 30) [demo_attempt HttpTimeout, demo_attempt demo_rejection] demo_monitor
     = (ReactivationRequired, m')" using demo_run_monitor [of "''b''"] by blast
  have wf: "identity_table_wf (mo_identity demo_monitor)" using demo_identity_wf by (simp add: demo_monitor_def)
  from only_confirmed_rejection_locks [OF r wf] r show ?thesis by blast
qed

text \<open>
  Backend trouble never revokes and never stops the monitor: as long as the identity loads and
  no answer confirms a rejection or raises, every attempt sends exactly one request with the stored
  credentials and is followed by exactly one wait of the interval, and the loop is still polling
  with the identity untouched after any number of attempts.
\<close>

theorem indeterminate_keeps_polling:
  assumes "load_authenticatable_identity None (mo_identity m) = Inr (Some i)" and "di_shared_secret i = Some secret"
    and "list_all (\<lambda>inp. ai_load_fault inp = None
      \<and> (\<forall>q. \<not> confirmed_rejection (ai_post inp q) \<and> (\<forall>e. ai_post inp q \<noteq> HttpRaised e)
           \<and> (\<forall>st e. ai_post inp q = HttpResponse st (Inl e) \<longrightarrow> e = JSONDecodeError \<or> e = UnicodeDecodeError))) inps"
  shows "run_monitor base interval inps m
    = (Polling, m\<lparr>mo_slept := replicate (length inps) interval @ mo_slept m,
                  mo_requests := replicate (length inps) (di_device_id i, secret) @ mo_requests m\<rparr>)"
  using assms(1,3)
proof (induction inps arbitrary: m)
  case Nil
  then show ?case by simp
next
  case (Cons inp inps)
  let ?m = "m\<lparr>mo_requests := (di_device_id i, secret) # mo_requests m\<rparr>"
  let ?q = "\<lparr>vq_url = build_validation_url base, vq_device_id_header = di_device_id i, vq_device_secret_header = secret\<rparr>"
  have quiet: "ai_load_fault inp = None" "\<not> confirmed_rejection (ai_post inp ?q)" "\<forall>e. ai_post inp ?q \<noteq> HttpRaised e"
    "\<forall>st e. ai_post inp ?q = HttpResponse st (Inl e) \<longrightarrow> e = JSONDecodeError \<or> e = UnicodeDecodeError"
    using Cons.prems(2) by simp_all
  have "\<exists>r. validate_credentials base (ai_post inp) (di_device_id i) secret = Inr r \<and> vr_outcome r \<noteq> CONFIRMED_REJECTED"
  proof (cases "ai_post inp ?q")
    case (HttpResponse st body)
    have "\<exists>v. safe_json body = Inr v" using quiet(4) HttpResponse by (cases body) (auto simp: safe_json_def)
    then have "\<exists>r. classify_validation st body = Inr r"
      by (auto simp: classify_validation_def classify_validation_success_def classify_validation_rejection_def split: option.split)
    then obtain r where r: "classify_validation st body = Inr r" by blast
    moreover have "vr_outcome r \<noteq> CONFIRMED_REJECTED"
      using classify_confirmed [OF r] quiet(2) HttpResponse by auto
    ultimately show ?thesis using HttpResponse by (simp add: validate_credentials_def)
  qed (use quiet in \<open>auto simp: validate_credentials_def\<close>)
  then have "attempt_once base inp m = (Inr False, ?m)"
    using Cons.prems(1) quiet(1) assms(2)
    by (auto simp: attempt_once_def handle_validation_result_def Let_def)
  moreover have "run_monitor base interval inps (?m\<lparr>mo_slept := interval # mo_slept m\<rparr>)
      = (Polling, m\<lparr>mo_slept := replicate (length inps) interval @ interval # mo_slept m,
          mo_requests := replicate (length inps) (di_device_id i, secret) @ (di_device_id i, secret) # mo_requests m\<rparr>)"
    using Cons.IH [of "?m\<lparr>mo_slept := interval # mo_slept m\<rparr>"] Cons.prems by simp
  ultimately show ?case by (simp add: replicate_app_Cons_same)
qed

theorem indeterminate_keeps_polling_witness:
  "run_monitor ''b'' (Fin 30) (replicate 4 (demo_attempt HttpTransportError)) demo_monitor
    = (Polling, demo_monitor\<lparr>mo_slept := replicate 4 (Fin 30), mo_requests := replicate 4 (''dev'', ''s'')\<rparr>)"
proof -
  obtain i where i: "load_authenticatable_identity None (mo_identity demo_monitor) = Inr (Some i)"
    "di_shared_secret i = Some ''s''" "di_device_id i = ''dev''"
    using demo_load_credentials by (auto simp: demo_monitor_def)
  from indeterminate_keeps_polling [OF i(1,2), of "replicate 4 (demo_attempt HttpTransportError)" "''b''" "Fin 30"] i(3)
  show ?thesis by (simp add: list_all_iff demo_attempt_def confirmed_rejection_def demo_monitor_def)
qed

end
