(* ===== verification/Supervisor.thy ===== *)
theory Supervisor
  imports Activation Credential OperationalGate
begin

text \<open>
  \<^verbatim>\<open>runtime/supervisor.py\<close>: the startup decision tree, the end of the validation monitor and the
  shutdown.  The supervisor works on the identity table and the key file (\<open>su_keys\<close>), on the gate of the
  operational components once it is built, and on the world \<open>su_world\<close> these components share.
\<close>

datatype startup_branch =
    SB_FIRST_ACTIVATION
  | SB_REACTIVATION
  | SB_LOCKED_REACTIVATION_REQUIRED
  | SB_OPERATIONAL_VALIDATED
  | SB_OPERATIONAL_OFFLINE
  | SB_STARTUP_CONFIRMED_REJECTED

datatype monitor_task = NoMonitor | MonitorRunning | MonitorDone

record 'w supervisor =
  su_keys :: agent_keys
  su_requests :: "(string \<times> string) list"
  su_world :: 'w
  su_gate :: "'w gate option"
  su_monitor :: monitor_task
  su_started :: bool
  su_shutdown_done :: bool
  su_client_closed :: bool
  su_branch :: "startup_branch option"
  su_activation :: "activation_service_result option"
  su_fatal :: bool

definition new_supervisor :: "agent_keys \<Rightarrow> 'w \<Rightarrow> 'w supervisor" where
  "new_supervisor keys w =
     \<lparr>su_keys = keys, su_requests = [], su_world = w, su_gate = None, su_monitor = NoMonitor, su_started = False,
      su_shutdown_done = False, su_client_closed = False, su_branch = None, su_activation = None, su_fatal = False\<rparr>"

record supervisor_settings =
  ss_base_url :: string
  ss_environment_key :: "string option"
  ss_interval :: pyfloat
  ss_owns_validation_client :: bool

record 'i startup_input =
  sp_load_fault :: fault
  sp_resolve :: activation_input
  sp_activate :: activation_input
  sp_reload_fault :: fault
  sp_post :: "validation_request \<Rightarrow> http_outcome"
  sp_lock_fault :: fault
  sp_components :: 'i

definition storage_error :: "exn \<Rightarrow> exn" where
  "storage_error e = (if is_repository_error e \<or> is_sqlite_error e then AgentStartupError else e)"

section \<open>The startup\<close>

definition locked_gate :: "'w \<Rightarrow> 'w gate" where
  "locked_gate w = \<lparr>gt_state = REACTIVATION_REQUIRED, gt_running = [], gt_abandoned = [], gt_world = w\<rparr>"

definition enter_locked :: "startup_branch \<Rightarrow> 'w supervisor \<Rightarrow> (exn + unit) \<times> 'w supervisor" where
  "enter_locked b s = (Inr (), s\<lparr>su_branch := Some b, su_gate := Some (locked_gate (su_world s))\<rparr>)"

text \<open>The monitor factory is the constructor of the monitor, which checks the interval.\<close>

definition start_monitor :: "supervisor_settings \<Rightarrow> 'w supervisor \<Rightarrow> (exn + unit) \<times> 'w supervisor" where
  "start_monitor cfg s =
     (if su_monitor s \<noteq> NoMonitor then (Inr (), s)
      else case mk_monitor (ss_interval cfg) (ag_identity (su_keys s)) of
             Inl e \<Rightarrow> (Inl e, s) | Inr _ \<Rightarrow> (Inr (), s\<lparr>su_monitor := MonitorRunning\<rparr>))"

definition enter_operational :: "supervisor_settings \<Rightarrow> ('i, 'w) component list \<Rightarrow> 'i \<Rightarrow> device_identity \<Rightarrow> 'w supervisor
    \<Rightarrow> (exn + unit) \<times> 'w supervisor" where
  "enter_operational cfg comps i identity s =
     (case gate_from_identity (Some identity) (su_world s) of
        Inl e \<Rightarrow> (Inl e, s)
      | Inr g \<Rightarrow>
          (case start_operational_components comps i g of
             (Inl e, g) \<Rightarrow> (Inl e, s\<lparr>su_gate := Some g\<rparr>)
           | (Inr _, g) \<Rightarrow> start_monitor cfg (s\<lparr>su_gate := Some g\<rparr>)))"

definition startup_with_key :: "supervisor_settings \<Rightarrow> ('i, 'w) component list \<Rightarrow> 'i startup_input
    \<Rightarrow> device_identity option \<Rightarrow> 'w supervisor \<Rightarrow> (exn + unit) \<times> 'w supervisor" where
  "startup_with_key cfg comps inp before s =
     (case activate (ss_base_url cfg) (ss_environment_key cfg) (sp_activate inp) (su_keys s) of
        (Inl e, keys) \<Rightarrow> (Inl e, s\<lparr>su_keys := keys\<rparr>)
      | (Inr result, keys) \<Rightarrow>
          let s = s\<lparr>su_keys := keys, su_activation := Some result,
                    su_branch := Some (if before = None then SB_FIRST_ACTIVATION else SB_REACTIVATION)\<rparr>
          in case load_identity (sp_reload_fault inp) (ag_identity keys) of
               Inl e \<Rightarrow> (Inl e, s)
             | Inr None \<Rightarrow> (Inl AgentStartupError, s)
             | Inr (Some i) \<Rightarrow>
                 if \<not> can_authenticate i then (Inl AgentStartupError, s)
                 else enter_operational cfg comps (sp_components inp) i s)"

definition startup_confirmed_rejected :: "fault \<Rightarrow> 'w supervisor \<Rightarrow> (exn + unit) \<times> 'w supervisor" where
  "startup_confirmed_rejected fault s =
     (let s = s\<lparr>su_branch := Some SB_STARTUP_CONFIRMED_REJECTED\<rparr>
      in case mark_reactivation_required fault (ag_identity (su_keys s)) of
           (Inl e, t) \<Rightarrow>
             let s = s\<lparr>su_keys := (su_keys s)\<lparr>ag_identity := t\<rparr>\<rparr>
             in if is_repository_error e \<or> is_sqlite_error e
                then (Inl AgentStartupError, s\<lparr>su_gate := Some (locked_gate (su_world s))\<rparr>)
                else (Inl e, s)
         | (Inr _, t) \<Rightarrow>
             (Inr (), s\<lparr>su_keys := (su_keys s)\<lparr>ag_identity := t\<rparr>, su_gate := Some (locked_gate (su_world s))\<rparr>))"

definition startup_validate_operational :: "supervisor_settings \<Rightarrow> ('i, 'w) component list \<Rightarrow> 'i startup_input
    \<Rightarrow> device_identity \<Rightarrow> 'w supervisor \<Rightarrow> (exn + unit) \<times> 'w supervisor" where
  "startup_validate_operational cfg comps inp i s =
     (case di_shared_secret i of
        None \<Rightarrow> (Inl AssertionError, s)
      | Some secret \<Rightarrow>
          let s = s\<lparr>su_requests := (di_device_id i, secret) # su_requests s\<rparr>
          in case validate_credentials (ss_base_url cfg) (sp_post inp) (di_device_id i) secret of
               Inl e \<Rightarrow> (Inl e, s)
             | Inr r \<Rightarrow>
                 if vr_outcome r = CONFIRMED_REJECTED then startup_confirmed_rejected (sp_lock_fault inp) s
                 else enter_operational cfg comps (sp_components inp) i
                        (s\<lparr>su_branch := Some (if vr_outcome r = VALID then SB_OPERATIONAL_VALIDATED
                                              else SB_OPERATIONAL_OFFLINE)\<rparr>))"

definition startup :: "supervisor_settings \<Rightarrow> ('i, 'w) component list \<Rightarrow> 'i startup_input \<Rightarrow> 'w supervisor
    \<Rightarrow> (exn + unit) \<times> 'w supervisor" where
  "startup cfg comps inp s =
     (if su_started s then (Inl AgentStartupError, s)
      else let s = s\<lparr>su_started := True\<rparr>
      in case load_identity (sp_load_fault inp) (ag_identity (su_keys s)) of
           Inl e \<Rightarrow> (Inl (storage_error e), s)
         | Inr identity \<Rightarrow>
             (case resolve_key (sp_resolve inp) (ss_environment_key cfg) (ag_key_file (su_keys s)) of
                Inl e \<Rightarrow> (Inl e, s)
              | Inr (Some _) \<Rightarrow> startup_with_key cfg comps inp identity s
              | Inr None \<Rightarrow>
                  (case identity of
                     None \<Rightarrow> (Inl (ActivationExn ActivationKeyMissingError), s)
                   | Some i \<Rightarrow>
                       if di_operational_state i = REACTIVATION_REQUIRED
                       then enter_locked SB_LOCKED_REACTIVATION_REQUIRED s
                       else if can_authenticate i then startup_validate_operational cfg comps inp i s
                       else (Inl AgentStartupError, s))))"

section \<open>The monitor task and the shutdown\<close>

definition on_monitor_fatal :: "('i, 'w) component list \<Rightarrow> 'i \<Rightarrow> 'w supervisor \<Rightarrow> 'w supervisor" where
  "on_monitor_fatal comps i s =
     (case su_gate s of
        None \<Rightarrow> s\<lparr>su_fatal := True\<rparr>
      | Some g \<Rightarrow> s\<lparr>su_fatal := True, su_gate := Some (snd (enter_reactivation_required comps i g))\<rparr>)"

text \<open>
  One run of \<^verbatim>\<open>_run_monitor\<close> over the attempts the loop makes: while it polls the task goes on; its
  result is handled by the gate; an exception other than a cancellation fails closed.
\<close>

definition run_monitor_task :: "supervisor_settings \<Rightarrow> ('i, 'w) component list \<Rightarrow> 'i \<Rightarrow> attempt_input list
    \<Rightarrow> 'w supervisor \<Rightarrow> 'w supervisor" where
  "run_monitor_task cfg comps i attempts s =
     (if su_monitor s \<noteq> MonitorRunning then s
      else case run_monitor (ss_base_url cfg) (ss_interval cfg) attempts
                  \<lparr>mo_identity = ag_identity (su_keys s), mo_slept = [], mo_requests = su_requests s\<rparr> of
        (stop, m) \<Rightarrow>
          let s = s\<lparr>su_keys := (su_keys s)\<lparr>ag_identity := mo_identity m\<rparr>, su_requests := mo_requests m\<rparr>
          in (case stop of
                Polling \<Rightarrow> s
              | ReactivationRequired \<Rightarrow>
                  (case su_gate s of
                     None \<Rightarrow> s\<lparr>su_monitor := MonitorDone\<rparr>
                   | Some g \<Rightarrow>
                       (case handle_validation_loop_result comps i True g of
                          (Inl e, g) \<Rightarrow>
                            if is_exception e then on_monitor_fatal comps i (s\<lparr>su_gate := Some g, su_monitor := MonitorDone\<rparr>)
                            else s\<lparr>su_gate := Some g, su_monitor := MonitorDone\<rparr>
                        | (Inr _, g) \<Rightarrow> s\<lparr>su_gate := Some g, su_monitor := MonitorDone\<rparr>))
              | Failed e \<Rightarrow>
                  if is_exception e then on_monitor_fatal comps i (s\<lparr>su_monitor := MonitorDone\<rparr>)
                  else s\<lparr>su_monitor := MonitorDone\<rparr>))"

text \<open>
  Of what the lock raises, only \<^verbatim>\<open>OperationalComponentShutdownError\<close> is caught; the owned client counts as closed
  before it is closed, which may raise.
\<close>

fun is_component_shutdown_error :: "exn \<Rightarrow> bool" where
  "is_component_shutdown_error (OperationalExn (OperationalComponentShutdownError _)) = True"
| "is_component_shutdown_error _ = False"

definition close_validation_client :: "supervisor_settings \<Rightarrow> fault \<Rightarrow> 'w supervisor \<Rightarrow> (exn + unit) \<times> 'w supervisor" where
  "close_validation_client cfg close_fault s =
     (if ss_owns_validation_client cfg \<and> \<not> su_client_closed s
      then (case close_fault of None \<Rightarrow> Inr () | Some e \<Rightarrow> Inl e, s\<lparr>su_client_closed := True\<rparr>)
      else (Inr (), s))"

definition shutdown :: "supervisor_settings \<Rightarrow> ('i, 'w) component list \<Rightarrow> 'i \<Rightarrow> fault \<Rightarrow> 'w supervisor
    \<Rightarrow> (exn + unit) \<times> 'w supervisor" where
  "shutdown cfg comps i close_fault s =
     (if su_shutdown_done s then (Inr (), s)
      else let s = s\<lparr>su_shutdown_done := True, su_monitor := NoMonitor\<rparr>
           in case su_gate s of
                None \<Rightarrow> close_validation_client cfg close_fault s
              | Some g \<Rightarrow>
                  (case enter_reactivation_required comps i g of
                     (Inl e, g) \<Rightarrow>
                       if is_component_shutdown_error e then close_validation_client cfg close_fault (s\<lparr>su_gate := Some g\<rparr>)
                       else (Inl e, s\<lparr>su_gate := Some g\<rparr>)
                   | (Inr _, g) \<Rightarrow> close_validation_client cfg close_fault (s\<lparr>su_gate := Some g\<rparr>)))"

section \<open>How a startup ends\<close>

definition operating :: "'w supervisor \<Rightarrow> bool" where
  "operating s \<longleftrightarrow> su_monitor s = MonitorRunning
     \<and> (\<exists>g. su_gate s = Some g \<and> gt_state g = OPERATIONAL)
     \<and> (\<exists>i. load_identity None (ag_identity (su_keys s)) = Inr (Some i) \<and> can_authenticate i)"

definition locked_idle :: "'w supervisor \<Rightarrow> bool" where
  "locked_idle s \<longleftrightarrow> su_monitor s = NoMonitor \<and> su_gate s = Some (locked_gate (su_world s))
     \<and> (\<exists>i. load_identity None (ag_identity (su_keys s)) = Inr (Some i) \<and> \<not> can_authenticate i)"

definition backend_requests :: "'w supervisor \<Rightarrow> nat" where
  "backend_requests s = length (ag_requests (su_keys s)) + length (su_requests s)"

lemma enter_operational_ends:
  assumes "enter_operational cfg comps i identity s = (r, s')" and "su_monitor s = NoMonitor"
    and "load_identity None (ag_identity (su_keys s)) = Inr (Some identity)" and "can_authenticate identity"
  shows "(if r = Inr () then operating s' else su_monitor s' = NoMonitor) \<and> su_keys s' = su_keys s
    \<and> su_requests s' = su_requests s \<and> su_world s' = su_world s"
proof -
  let ?g = "\<lparr>gt_state = di_operational_state identity, gt_running = [], gt_abandoned = [], gt_world = su_world s\<rparr>"
  obtain q g where q: "start_operational_components comps i ?g = (q, g)" by (cases "start_operational_components comps i ?g")
  have "gt_state g = OPERATIONAL"
    using start_state [of comps i ?g] q assms(4) by (simp add: can_authenticate_def)
  with assms q show ?thesis
    by (cases q) (auto simp: enter_operational_def gate_from_identity_def start_monitor_def operating_def split: sum.split_asm)
qed

lemma startup_with_key_ends:
  assumes "startup_with_key cfg comps inp before s = (r, s')" and "su_monitor s = NoMonitor"
    and "identity_table_wf (ag_identity (su_keys s))"
  shows "(if r = Inr () then operating s' else su_monitor s' = NoMonitor) \<and> backend_requests s' \<le> Suc (backend_requests s)
    \<and> su_world s' = su_world s"
proof -
  obtain q keys where a: "activate (ss_base_url cfg) (ss_environment_key cfg) (sp_activate inp) (su_keys s) = (q, keys)"
    by (cases "activate (ss_base_url cfg) (ss_environment_key cfg) (sp_activate inp) (su_keys s)")
  have len: "length (ag_requests keys) \<le> Suc (length (ag_requests (su_keys s)))"
    using a assms(3) by (cases rule: activate_cases) auto
  show ?thesis
  proof (cases q)
    case (Inl e)
    with assms(1,2) a len show ?thesis by (auto simp: startup_with_key_def backend_requests_def)
  next
    case (Inr result)
    let ?s = "s\<lparr>su_keys := keys, su_activation := Some result,
        su_branch := Some (if before = None then SB_FIRST_ACTIVATION else SB_REACTIVATION)\<rparr>"
    show ?thesis
    proof (cases "load_identity (sp_reload_fault inp) (ag_identity keys)")
      case (Inl e)
      with assms(1,2) a \<open>q = Inr result\<close> len show ?thesis by (auto simp: startup_with_key_def backend_requests_def Let_def)
    next
      case ld: (Inr x)
      show ?thesis
      proof (cases "\<exists>i. x = Some i \<and> can_authenticate i")
        case False
        with assms(1,2) a \<open>q = Inr result\<close> ld len show ?thesis
          by (cases x) (auto simp: startup_with_key_def backend_requests_def Let_def)
      next
        case True
        then obtain i where i: "x = Some i" "can_authenticate i" by blast
        with assms(1) a \<open>q = Inr result\<close> ld have e: "enter_operational cfg comps (sp_components inp) i ?s = (r, s')"
          by (simp add: startup_with_key_def Let_def)
        have "load_identity None (ag_identity (su_keys ?s)) = Inr (Some i)"
          using load_identity_quiet [OF ld] i(1) by simp
        from enter_operational_ends [OF e _ this i(2)] assms(2) len show ?thesis by (simp add: backend_requests_def)
      qed
    qed
  qed
qed

lemma startup_confirmed_rejected_ends:
  assumes "startup_confirmed_rejected fault s = (r, s')" and "su_monitor s = NoMonitor"
    and "identity_table_wf (ag_identity (su_keys s))"
  shows "(r = Inr () \<longrightarrow> locked_idle s') \<and> su_monitor s' = NoMonitor \<and> backend_requests s' = backend_requests s
    \<and> su_world s' = su_world s"
proof -
  obtain q t where q: "mark_reactivation_required fault (ag_identity (su_keys s)) = (q, t)"
    by (cases "mark_reactivation_required fault (ag_identity (su_keys s))")
  show ?thesis
  proof (cases q)
    case (Inl e)
    with assms q show ?thesis by (auto simp: startup_confirmed_rejected_def Let_def backend_requests_def split: if_split_asm)
  next
    case (Inr u)
    then have "\<exists>i. load_identity None t = Inr (Some i) \<and> \<not> can_authenticate i"
      using sqlite_identity.lock_then_load [OF assms(3)] q by simp
    with assms q Inr show ?thesis
      by (auto simp: startup_confirmed_rejected_def Let_def backend_requests_def locked_idle_def)
  qed
qed

lemma startup_validate_ends:
  assumes "startup_validate_operational cfg comps inp i s = (r, s')" and "su_monitor s = NoMonitor"
    and "identity_table_wf (ag_identity (su_keys s))"
    and "load_identity None (ag_identity (su_keys s)) = Inr (Some i)" and "can_authenticate i"
  shows "(if r = Inr () then operating s' \<or> locked_idle s' else su_monitor s' = NoMonitor)
    \<and> backend_requests s' \<le> Suc (backend_requests s) \<and> su_world s' = su_world s"
proof -
  from assms(5) obtain secret where secret: "di_shared_secret i = Some secret" by (auto simp: can_authenticate_def)
  let ?s = "s\<lparr>su_requests := (di_device_id i, secret) # su_requests s\<rparr>"
  show ?thesis
  proof (cases "validate_credentials (ss_base_url cfg) (sp_post inp) (di_device_id i) secret")
    case (Inl e)
    with assms(1,2) secret show ?thesis by (auto simp: startup_validate_operational_def backend_requests_def Let_def)
  next
    case (Inr v)
    show ?thesis
    proof (cases "vr_outcome v = CONFIRMED_REJECTED")
      case True
      with assms(1) Inr secret have "startup_confirmed_rejected (sp_lock_fault inp) ?s = (r, s')"
        by (simp add: startup_validate_operational_def Let_def)
      from startup_confirmed_rejected_ends [OF this] assms(2,3) show ?thesis by (simp add: backend_requests_def)
    next
      case False
      let ?t = "?s\<lparr>su_branch := Some (if vr_outcome v = VALID then SB_OPERATIONAL_VALIDATED else SB_OPERATIONAL_OFFLINE)\<rparr>"
      from False assms(1) Inr secret have e: "enter_operational cfg comps (sp_components inp) i ?t = (r, s')"
        by (simp add: startup_validate_operational_def Let_def)
      from enter_operational_ends [OF e] assms(2,4,5) show ?thesis by (simp add: backend_requests_def)
    qed
  qed
qed

lemma startup_ends:
  assumes "startup cfg comps inp (new_supervisor keys w) = (r, s')" and "identity_table_wf (ag_identity keys)"
  shows "(if r = Inr () then operating s' \<or> locked_idle s' else su_monitor s' = NoMonitor)
    \<and> backend_requests s' \<le> Suc (length (ag_requests keys)) \<and> su_world s' = w"
proof -
  let ?s = "(new_supervisor keys w)\<lparr>su_started := True\<rparr>"
  have s: "su_monitor ?s = NoMonitor" "su_keys ?s = keys" "su_world ?s = w" "backend_requests ?s = length (ag_requests keys)"
    by (simp_all add: new_supervisor_def backend_requests_def)
  have f: "su_started (new_supervisor keys w) = False" by (simp add: new_supervisor_def)
  show ?thesis
  proof (cases "load_identity (sp_load_fault inp) (ag_identity keys)")
    case (Inl e)
    with assms(1) f s have "r = Inl (storage_error e)" "s' = ?s" by (simp_all add: startup_def Let_def)
    with s show ?thesis by simp
  next
    case ld: (Inr identity)
    note ld' = load_identity_quiet [OF ld]
    show ?thesis
    proof (cases "resolve_key (sp_resolve inp) (ss_environment_key cfg) (ag_key_file keys)")
      case (Inl e)
      with assms(1) f s ld have "r = Inl e" "s' = ?s" by (simp_all add: startup_def Let_def)
      with s show ?thesis by simp
    next
      case rk: (Inr k)
      show ?thesis
      proof (cases k)
        case (Some key)
        with assms(1) f s ld rk have "startup_with_key cfg comps inp identity ?s = (r, s')"
          by (simp add: startup_def Let_def)
        from startup_with_key_ends [OF this] s assms(2) show ?thesis by simp
      next
        case None
        show ?thesis
        proof (cases identity)
          case None
          with assms(1) f s ld rk \<open>k = None\<close> have "r = Inl (ActivationExn ActivationKeyMissingError)" "s' = ?s"
            by (simp_all add: startup_def Let_def)
          with s show ?thesis by simp
        next
          case i: (Some i)
          consider (locked) "di_operational_state i = REACTIVATION_REQUIRED"
            | (auth) "can_authenticate i" | (bad) "di_operational_state i \<noteq> REACTIVATION_REQUIRED" "\<not> can_authenticate i"
            by blast
          then show ?thesis
          proof cases
            case locked
            with assms(1) f s ld rk \<open>k = None\<close> i have "r = Inr ()"
              and s': "s' = ?s\<lparr>su_branch := Some SB_LOCKED_REACTIVATION_REQUIRED, su_gate := Some (locked_gate w)\<rparr>"
              by (auto simp: startup_def Let_def enter_locked_def)
            moreover have "locked_idle s'" using s' s ld' i locked by (simp add: locked_idle_def can_authenticate_def)
            ultimately show ?thesis using s by (simp add: backend_requests_def)
          next
            case auth
            then have "di_operational_state i \<noteq> REACTIVATION_REQUIRED" by (simp add: can_authenticate_def)
            with assms(1) f s ld rk \<open>k = None\<close> i auth have "startup_validate_operational cfg comps inp i ?s = (r, s')"
              by (simp add: startup_def Let_def)
            from startup_validate_ends [OF this _ _ _ auth] s assms(2) ld' i show ?thesis by simp
          next
            case bad
            with assms(1) f s ld rk \<open>k = None\<close> i have "r = Inl AgentStartupError" "s' = ?s"
              by (simp_all add: startup_def Let_def)
            with s show ?thesis by simp
          qed
        qed
      qed
    qed
  qed
qed

section \<open>Properties\<close>

text \<open>
  C5.  A startup ends in exactly one of three ways.  It operates: the gate is open, the monitor runs, and the
  stored identity can authenticate.  It is locked: the gate is closed with nothing started, no monitor
  runs, and the stored identity cannot authenticate.  Or it raises, and no monitor runs.  In every
  case it made at most one request to the Backend.
\<close>

theorem startup_operates_or_locks:
  assumes "startup cfg comps inp (new_supervisor keys w) = (r, s')" and "identity_table_wf (ag_identity keys)"
  shows "(if r = Inr () then operating s' \<or> locked_idle s' else su_monitor s' = NoMonitor)
    \<and> backend_requests s' \<le> Suc (length (ag_requests keys)) \<and> su_world s' = w"
  using startup_ends [OF assms] .

definition demo_supervisor_settings :: supervisor_settings where
  "demo_supervisor_settings = \<lparr>ss_base_url = ''h'', ss_environment_key = None, ss_interval = Fin 30,
     ss_owns_validation_client = True\<rparr>"

definition demo_startup_input :: "http_outcome \<Rightarrow> unit startup_input" where
  "demo_startup_input answer = \<lparr>sp_load_fault = None, sp_resolve = demo_activation_input HttpTimeout,
     sp_activate = demo_activation_input HttpTimeout, sp_reload_fault = None, sp_post = (\<lambda>_. answer),
     sp_lock_fault = None, sp_components = ()\<rparr>"

definition demo_keys :: agent_keys where
  "demo_keys = \<lparr>ag_identity = [demo_identity_row], ag_key_file = None, ag_requests = []\<rparr>"

definition no_components :: "(unit, unit) component list" where
  "no_components = []"

lemma demo_load_identity:
  "\<exists>i. load_identity None [demo_identity_row] = Inr (Some i) \<and> di_operational_state i = OPERATIONAL
     \<and> di_shared_secret i = Some ''s'' \<and> di_device_id i = ''dev''"
  by (simp add: demo_identity_row_def load_identity_def load_rows_def row_to_identity_def
      parse_operational_state_def mk_device_identity_def)

lemma demo_startup_offline:
  "\<exists>s'. startup demo_supervisor_settings no_components (demo_startup_input HttpTimeout) (new_supervisor demo_keys ()) = (Inr (), s')
     \<and> su_branch s' = Some SB_OPERATIONAL_OFFLINE \<and> su_requests s' = [(''dev'', ''s'')]"
  using demo_load_identity
  by (auto simp: startup_def new_supervisor_def demo_keys_def demo_startup_input_def demo_activation_input_def
      demo_supervisor_settings_def resolve_key_def can_authenticate_def startup_validate_operational_def Let_def
      validate_credentials_def enter_operational_def gate_from_identity_def start_operational_components_def
      no_components_def start_monitor_def mk_monitor_def)

lemma demo_keys_wf: "identity_table_wf (ag_identity demo_keys)"
  using demo_identity_wf by (simp add: demo_keys_def)

theorem startup_operates_or_locks_witness:
  "\<exists>s'. startup demo_supervisor_settings no_components (demo_startup_input HttpTimeout) (new_supervisor demo_keys ()) = (Inr (), s')
     \<and> su_branch s' = Some SB_OPERATIONAL_OFFLINE \<and> (operating s' \<or> locked_idle s')"
proof -
  obtain s' where s': "startup demo_supervisor_settings no_components (demo_startup_input HttpTimeout) (new_supervisor demo_keys ())
      = (Inr (), s')" "su_branch s' = Some SB_OPERATIONAL_OFFLINE"
    using demo_startup_offline by blast
  from startup_operates_or_locks [OF s'(1) demo_keys_wf] s' show ?thesis by auto
qed

text \<open>
  The lock survives restarts.  While the stored identity is locked and no activation key is
  provisioned, every startup ends locked, without a request to the Backend, without starting a
  component, and without changing what is stored.
\<close>

theorem lock_survives_restart:
  assumes "load_identity None (ag_identity keys) = Inr (Some i)" and "\<not> can_authenticate i"
    and "ss_environment_key cfg = None" and "ag_key_file keys = None"
    and "sp_load_fault inp = None" and "av_exists_fault (sp_resolve inp) = None"
  shows "\<exists>s'. startup cfg comps inp (new_supervisor keys w) = (Inr (), s') \<and> locked_idle s'
    \<and> su_keys s' = keys \<and> su_requests s' = []"
proof -
  have "di_operational_state i = REACTIVATION_REQUIRED"
    using assms(2) can_authenticate_iff_operational [OF load_identity_ok [OF assms(1)]]
    by (cases "di_operational_state i") simp_all
  with assms show ?thesis
    by (auto simp: startup_def new_supervisor_def resolve_key_def enter_locked_def locked_idle_def)
qed

definition demo_locked_keys :: agent_keys where
  "demo_locked_keys = \<lparr>ag_identity = [demo_identity_row\<lparr>ir_protected_secret := None,
      ir_operational_state := ''ReactivationRequired''\<rparr>], ag_key_file = None, ag_requests = []\<rparr>"

theorem lock_survives_restart_witness:
  "\<exists>s'. startup demo_supervisor_settings no_components (demo_startup_input HttpTimeout) (new_supervisor demo_locked_keys ())
      = (Inr (), s') \<and> locked_idle s'"
proof -
  obtain i where i: "load_identity None (ag_identity demo_locked_keys) = Inr (Some i)" "\<not> can_authenticate i"
    by (simp add: demo_locked_keys_def demo_identity_row_def load_identity_def load_rows_def row_to_identity_def
        parse_operational_state_def mk_device_identity_def can_authenticate_def)
  have "ss_environment_key demo_supervisor_settings = None" "ag_key_file demo_locked_keys = None"
    "sp_load_fault (demo_startup_input HttpTimeout) = None" "av_exists_fault (sp_resolve (demo_startup_input HttpTimeout)) = None"
    by (simp_all add: demo_supervisor_settings_def demo_locked_keys_def demo_startup_input_def demo_activation_input_def)
  from lock_survives_restart [where comps = no_components and w = "()", OF i this] show ?thesis by blast
qed

lemma lock_raises:
  "enter_reactivation_required comps i g = (Inl e, g') \<Longrightarrow> is_component_shutdown_error e \<or> \<not> is_exception e"
proof -
  have "\<not> is_exception x" if "stop_running comps i ks fs h = (Inl x, h')" for x ks fs h h'
    using that by (induction ks arbitrary: fs h) (auto split: sum.split_asm prod.split_asm if_split_asm)
  then show "enter_reactivation_required comps i g = (Inl e, g') \<Longrightarrow> is_component_shutdown_error e \<or> \<not> is_exception e"
    by (auto simp: enter_reactivation_required_def split: prod.split_asm sum.split_asm if_split_asm)
qed

text \<open>
  A shutdown leaves nothing running and persists nothing, even if it raises: no monitor runs, the gate (if there
  is one) is closed, the stored identity and the key file are untouched; it raises only a cancellation or what
  closing the client raises, and else the owned client is closed; and a second call does nothing.
\<close>

lemma shutdown_ends:
  assumes "shutdown cfg comps i close_fault s = (r, s')" and "\<not> su_shutdown_done s"
  shows "su_monitor s' = NoMonitor \<and> su_keys s' = su_keys s
    \<and> (su_gate s \<noteq> None \<longrightarrow> su_gate s' \<noteq> None) \<and> (\<forall>g. su_gate s' = Some g \<longrightarrow> gt_state g = REACTIVATION_REQUIRED)
    \<and> (case r of Inr _ \<Rightarrow> ss_owns_validation_client cfg \<longrightarrow> su_client_closed s'
       | Inl e \<Rightarrow> close_fault = Some e \<or> \<not> is_exception e)
    \<and> shutdown cfg comps i' close_fault' s' = (Inr (), s')"
proof (cases "su_gate s")
  case None
  with assms show ?thesis by (auto simp: shutdown_def close_validation_client_def Let_def split: if_split_asm option.split_asm)
next
  case (Some g)
  obtain q h where q: "enter_reactivation_required comps i g = (q, h)" by (cases "enter_reactivation_required comps i g")
  have "gt_state h = REACTIVATION_REQUIRED" using lock_state [of comps i g] q by simp
  with assms q Some lock_raises [of comps i g _ h] show ?thesis
    by (cases q) (auto simp: shutdown_def close_validation_client_def Let_def split: if_split_asm option.split_asm)
qed

lemma run_monitor_task_flags:
  "su_shutdown_done (run_monitor_task cfg comps i inps s) = su_shutdown_done s
   \<and> su_client_closed (run_monitor_task cfg comps i inps s) = su_client_closed s"
  by (auto simp: run_monitor_task_def on_monitor_fatal_def Let_def split: prod.splits sum.splits option.splits monitor_end.splits)

text \<open>
  C14.  The monitor fails closed.  When the monitor task of an operating runtime has ended, with the
  terminal result or with an exception, the runtime is locked, and unless the fatal error is recorded, the
  stored identity cannot authenticate either.  The one other end is a cancellation: it leaves the gate as it was.
  It is the shutdown that cancels the task, and the gate is locked after a shutdown, however the monitor had ended.
\<close>

theorem monitor_fails_closed:
  assumes "operating s" and "identity_table_wf (ag_identity (su_keys s))" and "\<not> su_shutdown_done s"
    and "run_monitor_task cfg comps i attempts s = s'" and "su_monitor s' \<noteq> MonitorRunning"
  shows "((\<exists>g. su_gate s' = Some g \<and> gt_state g = REACTIVATION_REQUIRED)
        \<and> (su_fatal s' \<or> (\<exists>i. load_identity None (ag_identity (su_keys s')) = Inr (Some i) \<and> \<not> can_authenticate i))
      \<or> su_gate s' = su_gate s \<and> (\<exists>m. run_monitor (ss_base_url cfg) (ss_interval cfg) attempts
          \<lparr>mo_identity = ag_identity (su_keys s), mo_slept = [], mo_requests = su_requests s\<rparr> = (Failed CancelledError, m)))
    \<and> (\<exists>g. su_gate (snd (shutdown cfg comps j close_fault s')) = Some g \<and> gt_state g = REACTIVATION_REQUIRED)"
proof -
  from assms(1) obtain g where run: "su_monitor s = MonitorRunning" and g: "su_gate s = Some g"
    by (auto simp: operating_def)
  obtain stop m where m: "run_monitor (ss_base_url cfg) (ss_interval cfg) attempts
      \<lparr>mo_identity = ag_identity (su_keys s), mo_slept = [], mo_requests = su_requests s\<rparr> = (stop, m)"
    by (cases "run_monitor (ss_base_url cfg) (ss_interval cfg) attempts
      \<lparr>mo_identity = ag_identity (su_keys s), mo_slept = [], mo_requests = su_requests s\<rparr>")
  have wf: "identity_table_wf (mo_identity \<lparr>mo_identity = ag_identity (su_keys s), mo_slept = [], mo_requests = su_requests s\<rparr>)"
    using assms(2) by simp
  note mon = run_monitor_identity [OF m wf]
  have ended: "((\<exists>g. su_gate s' = Some g \<and> gt_state g = REACTIVATION_REQUIRED)
        \<and> (su_fatal s' \<or> (\<exists>i. load_identity None (ag_identity (su_keys s')) = Inr (Some i) \<and> \<not> can_authenticate i))
      \<or> su_gate s' = su_gate s \<and> stop = Failed CancelledError)"
  proof (cases stop)
    case Polling
    with assms(4,5) run m show ?thesis by (auto simp: run_monitor_task_def Let_def)
  next
    case ReactivationRequired
    obtain q h where q: "handle_validation_loop_result comps i True g = (q, h)"
      by (cases "handle_validation_loop_result comps i True g")
    then have h: "gt_state h = REACTIVATION_REQUIRED"
      using lock_state [of comps i g] by (simp add: handle_validation_loop_result_def)
    have ids: "\<exists>i. load_identity None (mo_identity m) = Inr (Some i) \<and> \<not> can_authenticate i"
      using mon ReactivationRequired by blast
    show ?thesis
      using assms(4) run m g q ReactivationRequired h ids lock_state [of comps i h]
      by (cases q) (auto simp: run_monitor_task_def Let_def on_monitor_fatal_def)
  next
    case (Failed e)
    show ?thesis
    proof (cases "e = CancelledError")
      case True
      with assms(4) run m g Failed show ?thesis by (auto simp: run_monitor_task_def Let_def)
    next
      case False
      then have "is_exception e" by (cases e) simp_all
      then show ?thesis
        using assms(4) run m g Failed lock_state [of comps i g]
        by (auto simp: run_monitor_task_def Let_def on_monitor_fatal_def)
    qed
  qed
  have "\<not> su_shutdown_done s'" using run_monitor_task_flags [of cfg comps i attempts s] assms(3,4) by simp
  moreover have "su_gate s' \<noteq> None" using ended g by auto
  ultimately have "\<exists>g. su_gate (snd (shutdown cfg comps j close_fault s')) = Some g \<and> gt_state g = REACTIVATION_REQUIRED"
  proof -
    obtain q s2 where q: "shutdown cfg comps j close_fault s' = (q, s2)" by (cases "shutdown cfg comps j close_fault s'")
    from shutdown_ends [OF q, of j None] \<open>\<not> su_shutdown_done s'\<close> \<open>su_gate s' \<noteq> None\<close> show ?thesis by (auto simp: q)
  qed
  with ended m show ?thesis by blast
qed

definition demo_operating :: "unit supervisor" where
  "demo_operating = (new_supervisor demo_keys ())\<lparr>su_monitor := MonitorRunning,
     su_gate := Some \<lparr>gt_state = OPERATIONAL, gt_running = [], gt_abandoned = [], gt_world = ()\<rparr>\<rparr>"

theorem monitor_fails_closed_witness:
  "\<exists>s'. run_monitor_task demo_supervisor_settings no_components () [demo_attempt HttpTimeout, demo_attempt demo_rejection]
      demo_operating = s' \<and> (\<exists>g. su_gate s' = Some g \<and> gt_state g = REACTIVATION_REQUIRED)
    \<and> (su_fatal s' \<or> (\<exists>i. load_identity None (ag_identity (su_keys s')) = Inr (Some i) \<and> \<not> can_authenticate i))"
proof -
  let ?inps = "[demo_attempt HttpTimeout, demo_attempt demo_rejection]"
  have m: "\<lparr>mo_identity = ag_identity (su_keys demo_operating), mo_slept = [], mo_requests = su_requests demo_operating\<rparr> = demo_monitor"
    by (simp add: demo_operating_def new_supervisor_def demo_keys_def demo_monitor_def)
  have c: "ss_interval demo_supervisor_settings = Fin 30" "ss_base_url demo_supervisor_settings = ''h''"
    by (simp_all add: demo_supervisor_settings_def)
  obtain m' where r: "run_monitor ''h'' (Fin 30) ?inps demo_monitor = (ReactivationRequired, m')"
    using demo_run_monitor [of "''h''"] by blast
  have op: "operating demo_operating"
    using demo_load_identity
    by (auto simp: operating_def demo_operating_def new_supervisor_def demo_keys_def can_authenticate_def)
  have wf: "identity_table_wf (ag_identity (su_keys demo_operating))"
    using demo_keys_wf by (simp add: demo_operating_def new_supervisor_def)
  have g: "su_monitor demo_operating = MonitorRunning"
    "su_gate demo_operating = Some \<lparr>gt_state = OPERATIONAL, gt_running = [], gt_abandoned = [], gt_world = ()\<rparr>"
    by (simp_all add: demo_operating_def)
  have fin: "su_monitor (run_monitor_task demo_supervisor_settings no_components () ?inps demo_operating) \<noteq> MonitorRunning"
    using r by (auto simp: run_monitor_task_def m c g Let_def on_monitor_fatal_def split: sum.split prod.split option.split)
  have "\<not> su_shutdown_done demo_operating" by (simp add: demo_operating_def new_supervisor_def)
  from monitor_fails_closed [OF op wf this refl fin] r show ?thesis by (auto simp: m c)
qed

end
