(* ===== verification/Rendezvous.thy ===== *)
theory Rendezvous
  imports PyData
begin

text \<open>
  \<^verbatim>\<open>deployment/jetson/deepstream/bridge/app/deepstream_bridge/snapshot.py\<close>: the meeting of a captured
  JPEG with the acknowledgement of its detection.  Every public method runs under the lock of the
  object, so each is one step; its reading of the clock is an argument.  A candidate of the
  dictionary \<^verbatim>\<open>_by_message\<close> is updated in place, which here is a \<open>dict_put\<close> that keeps its position.
\<close>

section \<open>The candidates\<close>

type_synonym frame_key = "int \<times> int"

record candidate =
  cd_source_id :: int
  cd_frame_number :: int
  cd_message_id :: string
  cd_expires_at :: pyfloat
  cd_valve_matched :: bool
  cd_jpeg_bytes :: "bytes option"
  cd_ack_outcome :: json
  cd_event_id :: json
  cd_snapshot_required :: bool
  cd_completed :: bool

definition new_candidate :: "int \<Rightarrow> int \<Rightarrow> string \<Rightarrow> pyfloat \<Rightarrow> candidate" where
  "new_candidate source_id frame_number message_id expires_at =
     \<lparr>cd_source_id = source_id, cd_frame_number = frame_number, cd_message_id = message_id,
      cd_expires_at = expires_at, cd_valve_matched = False, cd_jpeg_bytes = None, cd_ack_outcome = JNull,
      cd_event_id = JNull, cd_snapshot_required = False, cd_completed = False\<rparr>"

definition frame_of :: "candidate \<Rightarrow> frame_key" where
  "frame_of c = (cd_source_id c, cd_frame_number c)"

record rendezvous =
  rv_max_retained :: int
  rv_ttl_seconds :: pyfloat
  rv_by_message :: "(string \<times> candidate) list"
  rv_by_frame :: "(frame_key \<times> string) list"

definition mk_rendezvous :: "int \<Rightarrow> pyfloat \<Rightarrow> exn + rendezvous" where
  "mk_rendezvous max_retained ttl_seconds =
     (if max_retained \<le> 0 then Inl ValueError
      else if fl_le ttl_seconds (Fin 0) then Inl ValueError
      else Inr \<lparr>rv_max_retained = max_retained, rv_ttl_seconds = ttl_seconds, rv_by_message = [], rv_by_frame = []\<rparr>)"

section \<open>The operations\<close>

definition remove_locked :: "candidate \<Rightarrow> rendezvous \<Rightarrow> rendezvous" where
  "remove_locked c r =
     r\<lparr>rv_by_message := dict_del (cd_message_id c) (rv_by_message r),
       rv_by_frame := dict_del (frame_of c) (rv_by_frame r)\<rparr>"

definition has_expired :: "pyfloat \<Rightarrow> candidate \<Rightarrow> bool" where
  "has_expired now c \<longleftrightarrow> fl_le (cd_expires_at c) now \<and> \<not> cd_completed c"

definition expire_locked :: "pyfloat \<Rightarrow> rendezvous \<Rightarrow> rendezvous" where
  "expire_locked now r = fold remove_locked (filter (has_expired now) (map snd (rv_by_message r))) r"

definition move_to_end :: "'k \<Rightarrow> ('k \<times> 'v) list \<Rightarrow> ('k \<times> 'v) list" where
  "move_to_end k d = filter (\<lambda>kv. fst kv \<noteq> k) d @ filter (\<lambda>kv. fst kv = k) d"

text \<open>The two trimming loops: while a dictionary is too long its oldest entry is popped.\<close>

function trim_messages :: "rendezvous \<Rightarrow> rendezvous" where
  "trim_messages r =
     (case rv_by_message r of
        [] \<Rightarrow> r
      | (_, oldest) # rest \<Rightarrow>
          if int (length (rv_by_message r)) \<le> rv_max_retained r then r
          else trim_messages (r\<lparr>rv_by_message := rest, rv_by_frame := dict_del (frame_of oldest) (rv_by_frame r)\<rparr>))"
  by pat_completeness auto
termination by (relation "measure (\<lambda>r. length (rv_by_message r))") auto

declare trim_messages.simps [simp del]

definition trim_frames :: "rendezvous \<Rightarrow> rendezvous" where
  "trim_frames r = r\<lparr>rv_by_frame := drop (length (rv_by_frame r) - nat (rv_max_retained r)) (rv_by_frame r)\<rparr>"

definition record_detection :: "pyfloat \<Rightarrow> int \<Rightarrow> string \<Rightarrow> int \<Rightarrow> rendezvous \<Rightarrow> rendezvous" where
  "record_detection now source_id message_id frame_number r =
     (let r = expire_locked now r;
          c = new_candidate source_id frame_number message_id (fl_add now (rv_ttl_seconds r));
          r = r\<lparr>rv_by_message := move_to_end message_id (dict_put message_id c (rv_by_message r)),
                rv_by_frame := move_to_end (source_id, frame_number)
                                 (dict_put (source_id, frame_number) message_id (rv_by_frame r))\<rparr>
      in trim_frames (trim_messages r))"

definition put_candidate :: "candidate \<Rightarrow> rendezvous \<Rightarrow> rendezvous" where
  "put_candidate c r = r\<lparr>rv_by_message := dict_put (cd_message_id c) c (rv_by_message r)\<rparr>"

definition consume_candidate :: "pyfloat \<Rightarrow> int \<Rightarrow> int \<Rightarrow> rendezvous \<Rightarrow> bool \<times> rendezvous" where
  "consume_candidate now source_id frame_number r =
     (let r = expire_locked now r
      in case map_of (rv_by_frame r) (source_id, frame_number) of
           None \<Rightarrow> (False, r)
         | Some message_id \<Rightarrow>
             (case map_of (rv_by_message r) message_id of
                None \<Rightarrow> (False, r)
              | Some c \<Rightarrow>
                  if cd_valve_matched c then (False, r)
                  else (True, put_candidate (c\<lparr>cd_valve_matched := True\<rparr>) r)))"

type_synonym delivery = "string \<times> bytes"

definition try_complete_locked :: "candidate \<Rightarrow> rendezvous \<Rightarrow> delivery option \<times> rendezvous" where
  "try_complete_locked c r =
     (if cd_completed c then (None, r)
      else if cd_ack_outcome c \<noteq> JStr ''accepted'' \<or> \<not> cd_snapshot_required c then (None, r)
      else case (cd_event_id c, cd_jpeg_bytes c) of
             (JStr event_id, Some jpeg) \<Rightarrow> (Some (event_id, jpeg), remove_locked c r)
           | _ \<Rightarrow> (None, r))"

definition submit_jpeg :: "pyfloat \<Rightarrow> int \<Rightarrow> int \<Rightarrow> bytes \<Rightarrow> rendezvous \<Rightarrow> delivery option \<times> rendezvous" where
  "submit_jpeg now source_id frame_number jpeg r =
     (let r = expire_locked now r
      in case map_of (rv_by_frame r) (source_id, frame_number) of
           None \<Rightarrow> (None, r)
         | Some message_id \<Rightarrow>
             (case map_of (rv_by_message r) message_id of
                None \<Rightarrow> (None, r)
              | Some c \<Rightarrow>
                  if cd_completed c then (None, r)
                  else let c = c\<lparr>cd_jpeg_bytes := Some jpeg\<rparr>
                       in try_complete_locked c (put_candidate c r)))"

text \<open>
  The log record of an acknowledgement slices a truthy event id, which raises for a number, a boolean
  or an object; by then the lock is released and the state is updated.
\<close>

definition log_ack :: "json \<Rightarrow> exn + unit" where
  "log_ack event_id =
     (if \<not> truthy event_id then Inr ()
      else case event_id of JStr _ \<Rightarrow> Inr () | JArr _ \<Rightarrow> Inr () | _ \<Rightarrow> Inl TypeError)"

definition submit_ack :: "pyfloat \<Rightarrow> string \<Rightarrow> json \<Rightarrow> json \<Rightarrow> bool \<Rightarrow> rendezvous
    \<Rightarrow> (exn + delivery option) \<times> rendezvous" where
  "submit_ack now message_id outcome event_id snapshot_required r =
     (let r = expire_locked now r;
          (result, r) =
            (case map_of (rv_by_message r) message_id of
               None \<Rightarrow> (None, r)
             | Some c \<Rightarrow>
                 if cd_completed c then (None, r)
                 else if outcome \<noteq> JStr ''accepted'' \<or> \<not> snapshot_required then (None, remove_locked c r)
                 else let c = c\<lparr>cd_ack_outcome := outcome, cd_event_id := event_id,
                                cd_snapshot_required := snapshot_required\<rparr>
                      in try_complete_locked c (put_candidate c r))
      in (bind_result (log_ack event_id) (\<lambda>_. Inr result), r))"

definition clear :: "rendezvous \<Rightarrow> rendezvous" where
  "clear r = r\<lparr>rv_by_message := [], rv_by_frame := []\<rparr>"

text \<open>
  \<^verbatim>\<open>SnapshotAcknowledgementHandler.__call__\<close>: what the reader thread hands over is any JSON document; one
  that is not an object has no \<^verbatim>\<open>get\<close>.
\<close>

definition acknowledgement_received :: "pyfloat \<Rightarrow> json \<Rightarrow> rendezvous \<Rightarrow> (exn + delivery option) \<times> rendezvous" where
  "acknowledgement_received now message r =
     (case message of
        JObj d \<Rightarrow>
          (case jget_none d ''messageId'' of
             JStr message_id \<Rightarrow>
               submit_ack now message_id (jget_none d ''outcome'') (jget_none d ''eventId'')
                 (truthy (jget_none d ''snapshotRequired'')) r
           | _ \<Rightarrow> (Inr None, r))
      | _ \<Rightarrow> (Inl (OtherException ''AttributeError''), r))"

section \<open>Runs\<close>

text \<open>
  A run is a sequence of calls with their clock readings.  The reader thread swallows an exception of
  the acknowledgement handler.  Every call answers with the snapshot it releases for sending, if any.
\<close>

datatype rv_call =
    RecordDetection int string int
  | ConsumeCandidate int int
  | SubmitJpeg int int bytes
  | Acknowledge json
  | Clear

fun rv_step :: "pyfloat \<times> rv_call \<Rightarrow> rendezvous \<Rightarrow> delivery option \<times> rendezvous" where
  "rv_step (now, RecordDetection s m f) r = (None, record_detection now s m f r)"
| "rv_step (now, ConsumeCandidate s f) r = (None, snd (consume_candidate now s f r))"
| "rv_step (now, SubmitJpeg s f jpeg) r = submit_jpeg now s f jpeg r"
| "rv_step (now, Acknowledge d) r =
     (case acknowledgement_received now d r of (Inl _, r) \<Rightarrow> (None, r) | (Inr out, r) \<Rightarrow> (out, r))"
| "rv_step (now, Clear) r = (None, clear r)"

primrec rv_run :: "(pyfloat \<times> rv_call) list \<Rightarrow> rendezvous \<Rightarrow> delivery option list \<times> rendezvous" where
  "rv_run [] r = ([], r)"
| "rv_run (x # xs) r =
     (case rv_step x r of (out, r) \<Rightarrow> (case rv_run xs r of (outs, r) \<Rightarrow> (out # outs, r)))"

text \<open>What an acknowledgement says: the message it is for, and whether it asks for the snapshot of an event.\<close>

definition ack_for :: "json \<Rightarrow> string \<Rightarrow> bool" where
  "ack_for d m \<longleftrightarrow> (\<exists>ob. d = JObj ob \<and> jget_none ob ''messageId'' = JStr m)"

definition ack_requests :: "json \<Rightarrow> string \<Rightarrow> bool" where
  "ack_requests d e \<longleftrightarrow> (\<exists>ob. d = JObj ob \<and> jget_none ob ''outcome'' = JStr ''accepted''
     \<and> jget_none ob ''eventId'' = JStr e \<and> truthy (jget_none ob ''snapshotRequired''))"

section \<open>The tables stay keyed\<close>

definition keyed :: "rendezvous \<Rightarrow> bool" where
  "keyed r \<longleftrightarrow> distinct (map fst (rv_by_message r)) \<and> distinct (map fst (rv_by_frame r))
     \<and> (\<forall>(m, c) \<in> set (rv_by_message r). cd_message_id c = m \<and> \<not> cd_completed c)"

lemma dict_del_set [simp]: "set (dict_del k d) = {x \<in> set d. fst x \<noteq> k}"
  by (auto simp: dict_del_def)

lemma dict_del_distinct: "distinct (map fst d) \<Longrightarrow> distinct (map fst (dict_del k d))"
  by (simp add: dict_del_def distinct_map_filter)

lemma dict_put_absent: "k \<notin> fst ` set d \<Longrightarrow> dict_put k v d = d @ [(k, v)]"
  by (induction k v d rule: dict_put.induct) auto

lemma filter_dict_put: "filter (\<lambda>kv. fst kv \<noteq> k) (dict_put k v d) = dict_del k d"
  by (induction k v d rule: dict_put.induct) (auto simp: dict_del_def)

lemma filter_dict_put_key:
  "distinct (map fst d) \<Longrightarrow> filter (\<lambda>kv. fst kv = k) (dict_put k v d) = [(k, v)]"
  by (induction k v d rule: dict_put.induct) (auto simp: filter_empty_conv image_iff)

lemma move_to_end_put:
  "distinct (map fst d) \<Longrightarrow> move_to_end k (dict_put k v d) = dict_del k d @ [(k, v)]"
  by (simp add: move_to_end_def filter_dict_put filter_dict_put_key)

lemma set_dict_put: "distinct (map fst d) \<Longrightarrow> set (dict_put k v d) = {x \<in> set d. fst x \<noteq> k} \<union> {(k, v)}"
  by (induction k v d rule: dict_put.induct) (auto simp: image_iff)

text \<open>The position of a key counted from the young end; an entry of rank \<open>n\<close> survives trimming to \<open>n\<close>.\<close>

definition rank :: "'k \<Rightarrow> ('k \<times> 'v) list \<Rightarrow> nat" where
  "rank k d = length (dropWhile (\<lambda>kv. fst kv \<noteq> k) d)"

lemma rank_Cons: "rank k (x # d) = (if fst x = k then Suc (length d) else rank k d)"
  by (simp add: rank_def)

lemma rank_Nil [simp]: "rank k [] = 0"
  by (simp add: rank_def)

lemma rank_le: "rank k d \<le> length d"
  by (simp add: rank_def length_dropWhile_le)

lemma rank_filter: "rank k (filter p d) \<le> rank k d"
proof (induction d)
  case (Cons x d)
  have "length (filter p d) \<le> length d" by (rule length_filter_le)
  with rank_le [of k "filter p d"] have "rank k (filter p d) \<le> length d" by (rule order_trans)
  with Cons show ?case by (auto simp: rank_Cons)
qed simp

lemma rank_dict_del: "rank k (dict_del k' d) \<le> rank k d"
  by (simp add: dict_del_def rank_filter)

lemma rank_snoc: "rank k (d @ [x]) \<le> Suc (rank k d)"
  by (induction d) (auto simp: rank_Cons)

lemma rank_dict_put: "k' \<in> fst ` set d \<Longrightarrow> rank k (dict_put k' v d) = rank k d"
proof (induction k' v d rule: dict_put.induct)
  case (2 k' v k'' v' d)
  have "k' \<in> fst ` set d \<Longrightarrow> length (dict_put k' v d) = length d" for d
    by (induction k' v d rule: dict_put.induct) auto
  with 2 show ?case by (auto simp: rank_Cons)
qed simp

lemma rank_drop:
  assumes "rank k d \<le> length d - i"
  shows "rank k (drop i d) = rank k d \<and> (k \<in> fst ` set d \<longrightarrow> map_of (drop i d) k = map_of d k)"
  using assms
proof (induction i arbitrary: d)
  case (Suc i)
  show ?case
  proof (cases d)
    case (Cons x d')
    with Suc.prems rank_le [of k d'] have "fst x \<noteq> k" by (auto simp: rank_Cons)
    with Suc Cons show ?thesis by (cases x) (auto simp: rank_Cons)
  qed simp
qed simp

lemma keyed_del: "keyed r \<Longrightarrow> keyed (remove_locked c r)"
  by (auto simp: keyed_def remove_locked_def dict_del_distinct)

lemma keyed_expire: "keyed r \<Longrightarrow> keyed (expire_locked now r)"
proof -
  have "keyed r \<Longrightarrow> keyed (fold remove_locked cs r)" for cs
    by (induction cs arbitrary: r) (simp_all add: keyed_del)
  then show "keyed r \<Longrightarrow> keyed (expire_locked now r)" by (simp add: expire_locked_def)
qed

lemma keyed_put:
  "keyed r \<Longrightarrow> \<not> cd_completed c \<Longrightarrow> keyed (put_candidate c r)"
  by (auto simp: keyed_def put_candidate_def distinct_dict_put set_dict_put)

lemma keyed_complete: "keyed r \<Longrightarrow> keyed (snd (try_complete_locked c r))"
  by (auto simp: try_complete_locked_def keyed_del split: json.split option.split)

definition pop_oldest :: "rendezvous \<Rightarrow> rendezvous" where
  "pop_oldest r = r\<lparr>rv_by_message := tl (rv_by_message r),
     rv_by_frame := dict_del (frame_of (snd (hd (rv_by_message r)))) (rv_by_frame r)\<rparr>"

lemma trim_messages_invariant:
  assumes "P r"
    and "\<And>r. P r \<Longrightarrow> rv_by_message r \<noteq> [] \<Longrightarrow> rv_max_retained r < int (length (rv_by_message r)) \<Longrightarrow> P (pop_oldest r)"
  shows "P (trim_messages r)"
  using assms(1)
proof (induction r rule: trim_messages.induct)
  case (1 r)
  show ?case
  proof (cases "rv_by_message r")
    case Nil
    with 1(2) show ?thesis by (simp add: trim_messages.simps [of r])
  next
    case (Cons x rest)
    obtain m oldest where x: "x = (m, oldest)" by (cases x)
    show ?thesis
    proof (cases "int (length (rv_by_message r)) \<le> rv_max_retained r")
      case True
      with 1(2) Cons x show ?thesis by (simp add: trim_messages.simps [of r])
    next
      case False
      with 1(2) assms(2) [of r] Cons have "P (pop_oldest r)" by simp
      moreover have "pop_oldest r = r\<lparr>rv_by_message := rest, rv_by_frame := dict_del (frame_of oldest) (rv_by_frame r)\<rparr>"
        using Cons x by (simp add: pop_oldest_def)
      ultimately show ?thesis using 1(1) Cons x False by (simp add: trim_messages.simps [of r])
    qed
  qed
qed

lemma keyed_pop: "keyed r \<Longrightarrow> rv_by_message r \<noteq> [] \<Longrightarrow> keyed (pop_oldest r)"
  by (cases "rv_by_message r") (auto simp: keyed_def pop_oldest_def dict_del_distinct)

lemma keyed_trim: "keyed r \<Longrightarrow> keyed (trim_messages r)"
  using trim_messages_invariant [where P = keyed] keyed_pop by blast

lemma keyed_trim_frames: "keyed r \<Longrightarrow> keyed (trim_frames r)"
  by (auto simp: keyed_def trim_frames_def drop_map [symmetric] distinct_drop)

definition registered :: "pyfloat \<Rightarrow> int \<Rightarrow> string \<Rightarrow> int \<Rightarrow> rendezvous \<Rightarrow> rendezvous" where
  "registered now s m f r =
     r\<lparr>rv_by_message := dict_del m (rv_by_message r) @ [(m, new_candidate s f m (fl_add now (rv_ttl_seconds r)))],
       rv_by_frame := dict_del (s, f) (rv_by_frame r) @ [((s, f), m)]\<rparr>"

lemma record_detection_registered:
  "keyed r \<Longrightarrow> record_detection now s m f r = trim_frames (trim_messages (registered now s m f (expire_locked now r)))"
  using keyed_expire [of r now]
  by (simp add: record_detection_def Let_def registered_def keyed_def move_to_end_put)

lemma keyed_registered: "keyed r \<Longrightarrow> keyed (registered now s m f r)"
  by (auto simp: keyed_def registered_def dict_del_distinct new_candidate_def)

lemma keyed_record: "keyed r \<Longrightarrow> keyed (record_detection now s m f r)"
  by (simp add: record_detection_registered keyed_expire keyed_trim keyed_trim_frames keyed_registered)

lemma map_of_keyed: "keyed r \<Longrightarrow> map_of (rv_by_message r) m = Some c \<Longrightarrow> cd_message_id c = m \<and> \<not> cd_completed c"
  by (auto simp: keyed_def dest!: map_of_SomeD)

lemma keyed_consume: "keyed r \<Longrightarrow> keyed (snd (consume_candidate now s f r))"
  using map_of_keyed [OF keyed_expire [of r now]]
  by (auto simp: consume_candidate_def Let_def keyed_expire intro!: keyed_put split: option.split)

lemma keyed_jpeg: "keyed r \<Longrightarrow> keyed (snd (submit_jpeg now s f j r))"
  using map_of_keyed [OF keyed_expire [of r now]]
  by (auto simp: submit_jpeg_def Let_def keyed_expire intro!: keyed_put keyed_complete split: option.split)

lemma keyed_ack: "keyed r \<Longrightarrow> keyed (snd (submit_ack now m out e req r))"
  using map_of_keyed [OF keyed_expire [of r now]]
  by (auto simp: submit_ack_def Let_def keyed_expire keyed_del case_prod_beta
      intro!: keyed_put keyed_complete split: option.split)

lemma rv_step_ack: "snd (rv_step (now, Acknowledge d) r) = snd (acknowledgement_received now d r)"
  by (auto split: prod.split sum.split)

lemma keyed_received: "keyed r \<Longrightarrow> keyed (snd (acknowledgement_received now d r))"
  by (auto simp: acknowledgement_received_def keyed_ack split: json.split)

lemma keyed_step: "keyed r \<Longrightarrow> keyed (snd (rv_step x r))"
proof (induction x r rule: rv_step.induct)
  case (4 now d r)
  then show ?case by (simp only: rv_step_ack keyed_received)
qed (simp_all add: keyed_record keyed_consume keyed_jpeg, simp add: keyed_def clear_def)

section \<open>What is sent\<close>

text \<open>
  \<open>justified past m e j\<close>: among the calls made so far are the detection of message \<open>m\<close>, the JPEG \<open>j\<close>
  of the frame of that detection, and an acknowledgement of \<open>m\<close> that asks for the snapshot of event
  \<open>e\<close>.  \<open>backed\<close> is the invariant behind it: all that a candidate holds was delivered by a call.
\<close>

definition justified :: "rv_call set \<Rightarrow> string \<Rightarrow> string \<Rightarrow> bytes \<Rightarrow> bool" where
  "justified past m e j \<longleftrightarrow> (\<exists>s f d. RecordDetection s m f \<in> past \<and> SubmitJpeg s f j \<in> past
     \<and> Acknowledge d \<in> past \<and> ack_for d m \<and> ack_requests d e)"

definition single_frame :: "rv_call set \<Rightarrow> bool" where
  "single_frame past \<longleftrightarrow> (\<forall>m s f s' f'. RecordDetection s m f \<in> past \<and> RecordDetection s' m f' \<in> past \<longrightarrow> s = s' \<and> f = f')"

definition candidate_backed :: "rv_call set \<Rightarrow> candidate \<Rightarrow> bool" where
  "candidate_backed past c \<longleftrightarrow> RecordDetection (cd_source_id c) (cd_message_id c) (cd_frame_number c) \<in> past
     \<and> (\<forall>j. cd_jpeg_bytes c = Some j \<longrightarrow> SubmitJpeg (cd_source_id c) (cd_frame_number c) j \<in> past)
     \<and> (\<forall>e. cd_ack_outcome c = JStr ''accepted'' \<and> cd_snapshot_required c \<and> cd_event_id c = JStr e \<longrightarrow>
          (\<exists>d. Acknowledge d \<in> past \<and> ack_for d (cd_message_id c) \<and> ack_requests d e))"

definition backed :: "rv_call set \<Rightarrow> rendezvous \<Rightarrow> bool" where
  "backed past r \<longleftrightarrow> keyed r \<and> (\<forall>(m, c) \<in> set (rv_by_message r). candidate_backed past c)
     \<and> (\<forall>((s, f), m) \<in> set (rv_by_frame r). RecordDetection s m f \<in> past)"

definition pending_messages :: "rendezvous \<Rightarrow> string set" where
  "pending_messages r = fst ` set (rv_by_message r)"

lemma candidate_backed_mono: "candidate_backed past c \<Longrightarrow> past \<subseteq> past' \<Longrightarrow> candidate_backed past' c"
  by (auto simp: candidate_backed_def) blast

lemma backed_mono: "backed past r \<Longrightarrow> past \<subseteq> past' \<Longrightarrow> backed past' r"
  using candidate_backed_mono by (fastforce simp: backed_def)

lemma backed_del: "backed past r \<Longrightarrow> backed past (remove_locked c r)"
  by (auto simp: backed_def keyed_del) (auto simp: remove_locked_def)

lemma pending_del: "pending_messages (remove_locked c r) = pending_messages r - {cd_message_id c}"
  by (auto simp: pending_messages_def remove_locked_def image_iff)

lemma backed_expire: "backed past r \<Longrightarrow> backed past (expire_locked now r) \<and> pending_messages (expire_locked now r) \<subseteq> pending_messages r"
proof -
  have "backed past r \<Longrightarrow> backed past (fold remove_locked cs r) \<and> pending_messages (fold remove_locked cs r) \<subseteq> pending_messages r" for cs
  proof (induction cs arbitrary: r)
    case (Cons c cs)
    from Cons.IH [OF backed_del [OF Cons.prems]] show ?case using pending_del [of c r] by auto
  qed simp
  then show "backed past r \<Longrightarrow> ?thesis" by (simp add: expire_locked_def)
qed

lemma backed_put:
  "backed past r \<Longrightarrow> candidate_backed past c \<Longrightarrow> \<not> cd_completed c \<Longrightarrow> backed past (put_candidate c r)"
  by (auto simp: backed_def keyed_put) (auto simp: put_candidate_def set_dict_put keyed_def)

lemma pending_put: "cd_message_id c \<in> pending_messages r \<Longrightarrow> pending_messages (put_candidate c r) = pending_messages r"
  by (auto simp: pending_messages_def put_candidate_def fst_set_dict_put)

lemma backed_pop:
  assumes "backed past r" and "rv_by_message r \<noteq> []"
  shows "backed past (pop_oldest r) \<and> pending_messages (pop_oldest r) \<subseteq> pending_messages r"
  using assms keyed_pop [of r]
  by (cases "rv_by_message r") (auto simp: backed_def pop_oldest_def pending_messages_def)

lemma backed_trim: "backed past r \<Longrightarrow> backed past (trim_messages r) \<and> pending_messages (trim_messages r) \<subseteq> pending_messages r"
  using trim_messages_invariant [where P = "\<lambda>x. backed past x \<and> pending_messages x \<subseteq> pending_messages r" and r = r] backed_pop
  by blast

lemma backed_trim_frames: "backed past r \<Longrightarrow> backed past (trim_frames r)"
  by (auto simp: backed_def keyed_trim_frames) (auto simp: trim_frames_def dest!: in_set_dropD)

lemma pending_trim_frames: "pending_messages (trim_frames r) = pending_messages r"
  by (simp add: pending_messages_def trim_frames_def)

lemma backed_record:
  assumes "backed past r" and "RecordDetection s m f \<in> past"
  shows "backed past (record_detection now s m f r)
    \<and> pending_messages (record_detection now s m f r) \<subseteq> insert m (pending_messages r)"
proof -
  have k: "keyed r" using assms(1) by (simp add: backed_def)
  let ?e = "expire_locked now r"
  note e = backed_expire [OF assms(1), of now]
  have "backed past (registered now s m f ?e)"
    using e assms(2) keyed_registered [OF keyed_expire [OF k]]
    by (auto simp: backed_def) (auto simp: registered_def candidate_backed_def new_candidate_def)
  moreover have "pending_messages (registered now s m f ?e) \<subseteq> insert m (pending_messages r)"
    using e by (auto simp: registered_def pending_messages_def)
  ultimately show ?thesis
    using backed_trim [of past "registered now s m f ?e"]
    by (auto simp: record_detection_registered [OF k] backed_trim_frames pending_trim_frames)
qed

lemma try_complete_cases:
  assumes "try_complete_locked c r = (out, r')"
  obtains "out = None" "r' = r"
  | e j where "out = Some (e, j)" "r' = remove_locked c r" "cd_ack_outcome c = JStr ''accepted''"
      "cd_snapshot_required c" "cd_event_id c = JStr e" "cd_jpeg_bytes c = Some j"
  using assms by (auto simp: try_complete_locked_def split: if_split_asm json.split_asm option.split_asm)

text \<open>A completion after a candidate was updated: either it is stored, or it is sent and gone.\<close>

lemma complete_backed:
  assumes "backed past r" and "candidate_backed past c" and "single_frame past" and "\<not> cd_completed c"
    and "cd_message_id c \<in> pending_messages r" and "try_complete_locked c (put_candidate c r) = (out, r')"
  shows "backed past r' \<and> pending_messages r' \<subseteq> pending_messages r
    \<and> (\<forall>e j. out = Some (e, j) \<longrightarrow> (\<exists>m \<in> pending_messages r. m \<notin> pending_messages r' \<and> justified past m e j))"
  using assms(6)
proof (cases rule: try_complete_cases)
  case 1
  with backed_put [OF assms(1,2,4)] pending_put [OF assms(5)] show ?thesis by simp
next
  case (2 e j)
  then have "justified past (cd_message_id c) e j"
    using assms(2) by (auto simp: justified_def candidate_backed_def)
  with 2 backed_del [OF backed_put [OF assms(1,2,4)], of c] pending_put [OF assms(5)] assms(5) show ?thesis
    by (auto simp: pending_del)
qed

lemma candidate_of_pending:
  assumes "backed past r" and "map_of (rv_by_message r) m = Some c"
  shows "candidate_backed past c \<and> cd_message_id c = m \<and> \<not> cd_completed c \<and> m \<in> pending_messages r"
  using assms map_of_keyed [of r m c] by (force simp: backed_def pending_messages_def dest: map_of_SomeD)

definition step_sound :: "rv_call set \<Rightarrow> rendezvous \<Rightarrow> delivery option \<Rightarrow> rendezvous \<Rightarrow> bool" where
  "step_sound past r out r' \<longleftrightarrow> backed past r' \<and> pending_messages r' \<subseteq> pending_messages r
    \<and> (\<forall>e j. out = Some (e, j) \<longrightarrow> (\<exists>m \<in> pending_messages r. m \<notin> pending_messages r' \<and> justified past m e j))"

lemma step_sound_later: "step_sound past r out r' \<Longrightarrow> pending_messages r \<subseteq> pending_messages r0 \<Longrightarrow> step_sound past r0 out r'"
  unfolding step_sound_def by blast

lemma submit_jpeg_sound:
  assumes "backed past r" and "single_frame past" and "SubmitJpeg s f j \<in> past" and "submit_jpeg now s f j r = (out, r')"
  shows "step_sound past r out r'"
proof -
  let ?r = "expire_locked now r"
  have b: "backed past ?r" and sub: "pending_messages ?r \<subseteq> pending_messages r" using backed_expire [OF assms(1)] by auto
  have "step_sound past ?r out r'"
  proof (cases "map_of (rv_by_frame ?r) (s, f)")
    case None
    with assms(4) b show ?thesis by (simp add: submit_jpeg_def Let_def step_sound_def)
  next
    case m: (Some m)
    show ?thesis
    proof (cases "map_of (rv_by_message ?r) m")
      case None
      with m assms(4) b show ?thesis by (simp add: submit_jpeg_def Let_def step_sound_def)
    next
      case (Some c)
      note c = candidate_of_pending [OF b Some]
      have rec: "RecordDetection s m f \<in> past"
        using b m by (auto simp: backed_def dest!: map_of_SomeD)
      then have "cd_source_id c = s" "cd_frame_number c = f"
        using c assms(2) unfolding candidate_backed_def single_frame_def by blast+
      then have "candidate_backed past (c\<lparr>cd_jpeg_bytes := Some j\<rparr>)"
        using c assms(3) by (auto simp: candidate_backed_def)
      moreover have "try_complete_locked (c\<lparr>cd_jpeg_bytes := Some j\<rparr>) (put_candidate (c\<lparr>cd_jpeg_bytes := Some j\<rparr>) ?r) = (out, r')"
        using assms(4) m Some c by (simp add: submit_jpeg_def Let_def)
      ultimately show ?thesis
        unfolding step_sound_def using c by (intro complete_backed [OF b _ assms(2)]) simp_all
    qed
  qed
  then show ?thesis using sub by (rule step_sound_later)
qed

lemma submit_ack_sound:
  assumes "backed past r" and "single_frame past" and "Acknowledge d \<in> past" and "ack_for d m"
    and "out = JStr ''accepted'' \<and> req \<Longrightarrow> \<forall>e. ev = JStr e \<longrightarrow> ack_requests d e"
    and "submit_ack now m out ev req r = (res, r')"
  shows "step_sound past r (case res of Inl _ \<Rightarrow> None | Inr x \<Rightarrow> x) r'"
proof -
  let ?r = "expire_locked now r"
  have b: "backed past ?r" and sub: "pending_messages ?r \<subseteq> pending_messages r" using backed_expire [OF assms(1)] by auto
  have none: "step_sound past x None y" if "step_sound past x z y" for x y z using that by (simp add: step_sound_def)
  have "step_sound past ?r (case res of Inl _ \<Rightarrow> None | Inr x \<Rightarrow> x) r'"
  proof (cases "map_of (rv_by_message ?r) m")
    case None
    with assms(6) b show ?thesis
      by (auto simp: submit_ack_def Let_def step_sound_def bind_result_def split: sum.split sum.split_asm)
  next
    case (Some c)
    note c = candidate_of_pending [OF b Some]
    show ?thesis
    proof (cases "out = JStr ''accepted'' \<and> req")
      case False
      with assms(6) Some c have "r' = remove_locked c ?r" "res = bind_result (log_ack ev) (\<lambda>_. Inr None)"
        by (auto simp: submit_ack_def Let_def)
      then show ?thesis
        using backed_del [OF b, of c] pending_del [of c ?r] by (auto simp: step_sound_def bind_result_def split: sum.split)
    next
      case True
      let ?c = "c\<lparr>cd_ack_outcome := out, cd_event_id := ev, cd_snapshot_required := req\<rparr>"
      obtain o2 r2 where t: "try_complete_locked ?c (put_candidate ?c ?r) = (o2, r2)"
        by (cases "try_complete_locked ?c (put_candidate ?c ?r)")
      have "candidate_backed past ?c"
        using c assms(3,4) assms(5) [OF True] by (auto simp: candidate_backed_def)
      with t c have "step_sound past ?r o2 r2"
        unfolding step_sound_def by (intro complete_backed [OF b _ assms(2)]) simp_all
      moreover have "r' = r2" "res = bind_result (log_ack ev) (\<lambda>_. Inr o2)"
        using assms(6) Some c True t by (auto simp: submit_ack_def Let_def)
      ultimately show ?thesis using none by (auto simp: bind_result_def split: sum.split)
    qed
  qed
  then show ?thesis using sub by (rule step_sound_later)
qed

lemma received_sound:
  assumes "backed past r" and "single_frame past" and "Acknowledge d \<in> past"
    and "acknowledgement_received now d r = (res, r')"
  shows "step_sound past r (case res of Inl _ \<Rightarrow> None | Inr x \<Rightarrow> x) r'"
proof (cases "\<exists>m. ack_for d m")
  case False
  with assms(4,1) show ?thesis
    by (auto simp: acknowledgement_received_def ack_for_def step_sound_def split: json.split_asm)
next
  case True
  then obtain m ob where d: "d = JObj ob" "jget_none ob ''messageId'' = JStr m" by (auto simp: ack_for_def)
  show ?thesis
    using d assms(4)
    by (intro submit_ack_sound [OF assms(1-3), of m "jget_none ob ''outcome''" "truthy (jget_none ob ''snapshotRequired'')" "jget_none ob ''eventId''" now])
       (auto simp: acknowledgement_received_def ack_for_def ack_requests_def)
qed

definition messages_of :: "rv_call \<Rightarrow> string list" where
  "messages_of x = (case x of RecordDetection s m f \<Rightarrow> [m] | _ \<Rightarrow> [])"

lemma rv_step_sound:
  assumes "backed past r" and "single_frame past" and "x \<in> past" and "rv_step (now, x) r = (out, r')"
  shows "backed past r' \<and> pending_messages r' \<subseteq> pending_messages r \<union> set (messages_of x)
    \<and> (\<forall>e j. out = Some (e, j) \<longrightarrow> (\<exists>m \<in> pending_messages r. m \<notin> pending_messages r' \<and> justified past m e j))"
proof (cases x)
  case (RecordDetection s m f)
  with assms backed_record [of past r s m f now] show ?thesis by (auto simp: messages_of_def)
next
  case (ConsumeCandidate s f)
  let ?r = "expire_locked now r"
  have b: "backed past ?r" "pending_messages ?r \<subseteq> pending_messages r" using backed_expire [OF assms(1)] by auto
  have "backed past (put_candidate (c\<lparr>cd_valve_matched := True\<rparr>) ?r)
      \<and> pending_messages (put_candidate (c\<lparr>cd_valve_matched := True\<rparr>) ?r) = pending_messages ?r"
    if "map_of (rv_by_message ?r) m = Some c" for m c
    using candidate_of_pending [OF b(1) that]
    by (auto intro!: backed_put [OF b(1)] pending_put simp: candidate_backed_def)
  with b assms(4) ConsumeCandidate show ?thesis
    by (auto simp: consume_candidate_def Let_def messages_of_def split: option.splits if_splits)
next
  case (SubmitJpeg s f j)
  with assms submit_jpeg_sound [of past r s f j now out r'] show ?thesis by (auto simp: step_sound_def)
next
  case (Acknowledge d)
  obtain res r2 where t: "acknowledgement_received now d r = (res, r2)" by (cases "acknowledgement_received now d r")
  then have "out = (case res of Inl _ \<Rightarrow> None | Inr y \<Rightarrow> y)" "r' = r2"
    using assms(4) Acknowledge by (auto split: sum.split_asm)
  with received_sound [OF assms(1,2) _ t] assms(3) Acknowledge show ?thesis by (auto simp: step_sound_def)
next
  case Clear
  with assms show ?thesis by (auto simp: clear_def backed_def keyed_def pending_messages_def)
qed

definition sent_of :: "delivery option list \<Rightarrow> delivery list" where
  "sent_of outs = concat (map (case_option [] (\<lambda>x. [x])) outs)"

lemma rv_run_sound:
  assumes "rv_run xs r = (outs, r')" and "backed past r" and "single_frame past" and "snd ` set xs \<subseteq> past"
    and "distinct (concat (map (messages_of \<circ> snd) xs))"
    and "pending_messages r \<inter> set (concat (map (messages_of \<circ> snd) xs)) = {}"
  shows "\<exists>ms. distinct ms \<and> set ms \<subseteq> pending_messages r \<union> set (concat (map (messages_of \<circ> snd) xs))
    \<and> list_all2 (\<lambda>m (e, j). justified past m e j) ms (sent_of outs)"
  using assms
proof (induction xs arbitrary: r outs)
  case Nil
  then show ?case by (auto simp: sent_of_def)
next
  case (Cons x xs)
  obtain now c where x: "x = (now, c)" by (cases x)
  obtain out r1 where s: "rv_step x r = (out, r1)" by (cases "rv_step x r")
  obtain outs' where run: "rv_run xs r1 = (outs', r')" and outs: "outs = out # outs'"
    using Cons.prems(1) s by (auto split: prod.splits)
  let ?rest = "set (concat (map (messages_of \<circ> snd) xs))"
  have st: "backed past r1" "pending_messages r1 \<subseteq> pending_messages r \<union> set (messages_of c)"
    "\<And>e j. out = Some (e, j) \<Longrightarrow> \<exists>m \<in> pending_messages r. m \<notin> pending_messages r1 \<and> justified past m e j"
    using rv_step_sound [OF Cons.prems(2,3) _ s [unfolded x]] Cons.prems(4) x by auto
  have "pending_messages r1 \<inter> ?rest = {}" "distinct (concat (map (messages_of \<circ> snd) xs))"
    using st(2) Cons.prems(5,6) x by (auto simp: comp_def)
  from Cons.IH [OF run st(1) Cons.prems(3) _ this(2,1)] Cons.prems(4) obtain ms where ms: "distinct ms"
    "set ms \<subseteq> pending_messages r1 \<union> ?rest" "list_all2 (\<lambda>m (e, j). justified past m e j) ms (sent_of outs')"
    by auto
  show ?case
  proof (cases out)
    case None
    with ms st(2) outs x show ?thesis by (intro exI [of _ ms]) (auto simp: sent_of_def)
  next
    case (Some ej)
    obtain e j where ej: "ej = (e, j)" by (cases ej)
    with Some st(3) obtain m where m: "m \<in> pending_messages r" "m \<notin> pending_messages r1" "justified past m e j" by blast
    moreover have "m \<notin> ?rest" using m(1) Cons.prems(6) by auto
    ultimately show ?thesis
      using ms st(2) outs x Some ej by (intro exI [of _ "m # ms"]) (auto simp: sent_of_def)
  qed
qed

lemma distinct_single_frame:
  "distinct (concat (map messages_of cs)) \<Longrightarrow> single_frame (set cs)"
proof -
  assume d: "distinct (concat (map messages_of cs))"
  have *: "x = y" if "x \<in> set cs" "y \<in> set cs" "m \<in> set (messages_of x)" "m \<in> set (messages_of y)" for x y m
    using d that by (induction cs) auto
  have "s = s' \<and> f = f'" if "RecordDetection s m f \<in> set cs" "RecordDetection s' m f' \<in> set cs" for s f s' f' m
    using * [OF that, of m] by (simp add: messages_of_def)
  then show ?thesis unfolding single_frame_def by blast
qed

text \<open>
  C12.  Every snapshot that is sent is right, and is sent once.  Over any sequence of detections, JPEGs,
  acknowledgements and valve probes with fresh message ids, in whatever order and at whatever times,
  the snapshots sent belong to different messages; and each carries the JPEG that was captured for
  the frame of its own detection, under an event id that an accepting acknowledgement of that very
  message asked a snapshot for.  No JPEG is ever filed under the event of another detection.
\<close>

theorem sent_snapshots_justified:
  assumes "mk_rendezvous max_retained ttl = Inr r" and "rv_run xs r = (outs, r')"
    and "distinct (concat (map (messages_of \<circ> snd) xs))"
  shows "\<exists>ms. distinct ms \<and> list_all2 (\<lambda>m (e, j). justified (snd ` set xs) m e j) ms (sent_of outs)"
proof -
  have "backed (snd ` set xs) r" "pending_messages r = {}"
    using assms(1) by (auto simp: mk_rendezvous_def backed_def keyed_def pending_messages_def split: if_split_asm)
  moreover have "single_frame (snd ` set xs)"
    using distinct_single_frame [of "map snd xs"] assms(3) by (simp add: comp_def)
  ultimately show ?thesis using rv_run_sound [OF assms(2), of "snd ` set xs"] assms(3) by auto
qed

definition demo_ack :: "string \<Rightarrow> string \<Rightarrow> json" where
  "demo_ack m e = JObj [(''messageId'', JStr m), (''outcome'', JStr ''accepted''), (''eventId'', JStr e),
     (''snapshotRequired'', JBool True)]"

definition demo_rendezvous :: rendezvous where
  "demo_rendezvous = \<lparr>rv_max_retained = 4, rv_ttl_seconds = Fin 3, rv_by_message = [], rv_by_frame = []\<rparr>"

definition demo_calls :: "(pyfloat \<times> rv_call) list" where
  "demo_calls = [(Fin 0, RecordDetection 0 ''m'' 7), (Fin 1, Acknowledge (demo_ack ''m'' ''e'')), (Fin 2, SubmitJpeg 0 7 [1])]"

lemma demo_mk_rendezvous: "mk_rendezvous 4 (Fin 3) = Inr demo_rendezvous"
  by (simp add: mk_rendezvous_def demo_rendezvous_def)

lemma demo_ack_simps: "ack_for (demo_ack m e) m' \<longleftrightarrow> m' = m" "ack_requests (demo_ack m e) e' \<longleftrightarrow> e' = e"
  by (auto simp: demo_ack_def ack_for_def ack_requests_def jget_none_def)

lemma demo_sent: "sent_of (fst (rv_run demo_calls demo_rendezvous)) = [(''e'', [1])]"
  by code_simp

theorem sent_snapshots_justified_witness:
  "\<exists>m. justified (snd ` set demo_calls) m ''e'' [1] \<and> sent_of (fst (rv_run demo_calls demo_rendezvous)) = [(''e'', [1])]"
proof -
  obtain outs r' where run: "rv_run demo_calls demo_rendezvous = (outs, r')" by (cases "rv_run demo_calls demo_rendezvous")
  then have sent: "sent_of outs = [(''e'', [1])]" using demo_sent by simp
  have "distinct (concat (map (messages_of \<circ> snd) demo_calls))" by (simp add: demo_calls_def messages_of_def)
  from sent_snapshots_justified [OF demo_mk_rendezvous run this] sent demo_sent show ?thesis
    by (auto simp: list_all2_Cons2)
qed

section \<open>A candidate in flight\<close>

text \<open>
  \<open>in_flight m k x P n r\<close>: the candidate of message \<open>m\<close> and frame \<open>k\<close> is retained with expiry \<open>x\<close>, satisfies
  \<open>P\<close>, is the only one of its frame, and survives the registration of \<open>n\<close> further detections.
\<close>

definition in_flight :: "string \<Rightarrow> frame_key \<Rightarrow> pyfloat \<Rightarrow> (candidate \<Rightarrow> bool) \<Rightarrow> nat \<Rightarrow> rendezvous \<Rightarrow> bool" where
  "in_flight m k x P n r \<longleftrightarrow> keyed r
     \<and> (\<exists>c. map_of (rv_by_message r) m = Some c \<and> frame_of c = k \<and> cd_expires_at c = x \<and> P c)
     \<and> map_of (rv_by_frame r) k = Some m
     \<and> (\<forall>(m', c') \<in> set (rv_by_message r). frame_of c' = k \<longrightarrow> m' = m)
     \<and> (\<forall>(k', m') \<in> set (rv_by_frame r). m' = m \<longrightarrow> k' = k)
     \<and> int (rank m (rv_by_message r) + n) \<le> rv_max_retained r
     \<and> int (rank k (rv_by_frame r) + n) \<le> rv_max_retained r"

lemma int_rank_mono: "rank k d \<le> rank k d' \<Longrightarrow> int (rank k d' + n) \<le> b \<Longrightarrow> int (rank k d + n) \<le> b"
  by simp

lemma in_flight_remove:
  assumes "in_flight m k x P n r" and "cd_message_id c \<noteq> m" and "frame_of c \<noteq> k"
  shows "in_flight m k x P n (remove_locked c r)"
  using assms keyed_del [of r c]
    int_rank_mono [OF rank_dict_del [of m "cd_message_id c" "rv_by_message r"], of n "rv_max_retained r"]
    int_rank_mono [OF rank_dict_del [of k "frame_of c" "rv_by_frame r"], of n "rv_max_retained r"]
  by (simp add: in_flight_def remove_locked_def)

lemma in_flight_fold_remove:
  "in_flight m k x P n r \<Longrightarrow> \<forall>c \<in> set cs. cd_message_id c \<noteq> m \<and> frame_of c \<noteq> k
    \<Longrightarrow> in_flight m k x P n (fold remove_locked cs r)"
  by (induction cs arbitrary: r) (simp_all add: in_flight_remove)

lemma in_flight_other:
  assumes "in_flight m k x P n r" and "(m', c) \<in> set (rv_by_message r)" and "m' \<noteq> m"
  shows "cd_message_id c = m' \<and> frame_of c \<noteq> k"
  using assms by (auto simp: in_flight_def keyed_def)

lemma in_flight_expire:
  assumes "in_flight m k x P n r" and "\<not> fl_le x now"
  shows "in_flight m k x P n (expire_locked now r)"
proof -
  have *: "cd_message_id c \<noteq> m \<and> frame_of c \<noteq> k" if c: "(m', c) \<in> set (rv_by_message r)" "has_expired now c" for m' c
  proof (cases "m' = m")
    case True
    with assms(1) c(1) have "cd_expires_at c = x"
      by (auto simp: in_flight_def keyed_def)
    with c(2) assms(2) show ?thesis by (simp add: has_expired_def)
  next
    case False
    with in_flight_other [OF assms(1) c(1)] show ?thesis by simp
  qed
  have "\<forall>c \<in> set (filter (has_expired now) (map snd (rv_by_message r))). cd_message_id c \<noteq> m \<and> frame_of c \<noteq> k"
  proof
    fix c assume "c \<in> set (filter (has_expired now) (map snd (rv_by_message r)))"
    then obtain m' where "(m', c) \<in> set (rv_by_message r)" "has_expired now c" by auto
    then show "cd_message_id c \<noteq> m \<and> frame_of c \<noteq> k" by (rule *)
  qed
  then show ?thesis unfolding expire_locked_def by (rule in_flight_fold_remove [OF assms(1)])
qed

lemma in_flight_pop:
  assumes "in_flight m k x P n r" and "rv_by_message r \<noteq> []" and "rv_max_retained r < int (length (rv_by_message r))"
  shows "in_flight m k x P n (pop_oldest r)"
proof -
  obtain m0 c0 rest where b: "rv_by_message r = (m0, c0) # rest" using assms(2) by (cases "rv_by_message r") auto
  have "m0 \<noteq> m" using assms(1,3) b by (auto simp: in_flight_def rank_Cons)
  with in_flight_other [OF assms(1), of m0 c0] b have "frame_of c0 \<noteq> k" by simp
  then show ?thesis
    using assms(1) b \<open>m0 \<noteq> m\<close> keyed_pop [of r]
      int_rank_mono [OF rank_dict_del [of k "frame_of c0" "rv_by_frame r"], of n "rv_max_retained r"]
    by (simp add: in_flight_def pop_oldest_def rank_Cons)
qed

lemma in_flight_trim: "in_flight m k x P n r \<Longrightarrow> in_flight m k x P n (trim_messages r)"
  using trim_messages_invariant [where P = "in_flight m k x P n"] in_flight_pop by blast

lemma in_flight_trim_frames:
  assumes "in_flight m k x P n r"
  shows "in_flight m k x P n (trim_frames r)"
proof -
  let ?i = "length (rv_by_frame r) - nat (rv_max_retained r)"
  have "rank k (rv_by_frame r) \<le> length (rv_by_frame r) - ?i"
    using assms rank_le [of k "rv_by_frame r"] by (auto simp: in_flight_def)
  moreover have "k \<in> fst ` set (rv_by_frame r)"
    using assms by (force simp: in_flight_def dest: map_of_SomeD)
  ultimately have "rank k (drop ?i (rv_by_frame r)) = rank k (rv_by_frame r)"
    "map_of (drop ?i (rv_by_frame r)) k = map_of (rv_by_frame r) k"
    using rank_drop [of k "rv_by_frame r" ?i] by simp_all
  then show ?thesis
    using assms keyed_trim_frames [of r]
    by (auto simp: in_flight_def) (auto simp: trim_frames_def dest!: in_set_dropD)
qed

lemma in_flight_register:
  assumes "in_flight m k x P (Suc n) r" and "m' \<noteq> m" and "(s, f) \<noteq> k"
  shows "in_flight m k x P n (registered now s m' f r)"
proof -
  have "rank m (rv_by_message (registered now s m' f r)) \<le> Suc (rank m (dict_del m' (rv_by_message r)))"
    by (simp add: registered_def rank_snoc)
  then have "rank m (rv_by_message (registered now s m' f r)) \<le> Suc (rank m (rv_by_message r))"
    using rank_dict_del [of m m' "rv_by_message r"] by simp
  moreover have "rank k (rv_by_frame (registered now s m' f r)) \<le> Suc (rank k (dict_del (s, f) (rv_by_frame r)))"
    by (simp add: registered_def rank_snoc)
  then have "rank k (rv_by_frame (registered now s m' f r)) \<le> Suc (rank k (rv_by_frame r))"
    using rank_dict_del [of k "(s, f)" "rv_by_frame r"] by simp
  moreover have "map_of (rv_by_message (registered now s m' f r)) m = map_of (rv_by_message r) m"
    "map_of (rv_by_frame (registered now s m' f r)) k = map_of (rv_by_frame r) k"
    using assms(2,3) by (auto simp: registered_def map_add_def split: option.split)
  moreover have "rv_max_retained (registered now s m' f r) = rv_max_retained r" by (simp add: registered_def)
  moreover have "\<forall>(m'', c') \<in> set (rv_by_message (registered now s m' f r)). frame_of c' = k \<longrightarrow> m'' = m"
    using assms(1,3) by (auto simp: in_flight_def registered_def frame_of_def new_candidate_def)
  moreover have "\<forall>(k', m'') \<in> set (rv_by_frame (registered now s m' f r)). m'' = m \<longrightarrow> k' = k"
    using assms(1,2) by (auto simp: in_flight_def registered_def)
  moreover have "keyed (registered now s m' f r)" using assms(1) keyed_registered by (simp add: in_flight_def)
  ultimately show ?thesis using assms(1) unfolding in_flight_def by auto
qed

lemma in_flight_record:
  assumes "in_flight m k x P (Suc n) r" and "m' \<noteq> m" and "(s, f) \<noteq> k" and "\<not> fl_le x now"
  shows "in_flight m k x P n (record_detection now s m' f r)"
proof -
  have "keyed r" using assms(1) by (simp add: in_flight_def)
  then show ?thesis
    using in_flight_trim_frames [OF in_flight_trim [OF in_flight_register [OF in_flight_expire [OF assms(1,4)] assms(2,3)]]]
    by (simp add: record_detection_registered)
qed

lemma expire_subset:
  "set (rv_by_message (expire_locked now r)) \<subseteq> set (rv_by_message r) \<and> set (rv_by_frame (expire_locked now r)) \<subseteq> set (rv_by_frame r)
   \<and> rv_max_retained (expire_locked now r) = rv_max_retained r \<and> rv_ttl_seconds (expire_locked now r) = rv_ttl_seconds r"
proof -
  have "set (rv_by_message (fold remove_locked cs r)) \<subseteq> set (rv_by_message r) \<and> set (rv_by_frame (fold remove_locked cs r)) \<subseteq> set (rv_by_frame r)
     \<and> rv_max_retained (fold remove_locked cs r) = rv_max_retained r \<and> rv_ttl_seconds (fold remove_locked cs r) = rv_ttl_seconds r" for cs
  proof (induction cs arbitrary: r)
    case (Cons c cs)
    from Cons.IH [of "remove_locked c r"] show ?case by (auto simp: remove_locked_def)
  qed simp
  then show ?thesis by (simp add: expire_locked_def)
qed

definition waiting :: "candidate \<Rightarrow> bool" where
  "waiting c \<longleftrightarrow> cd_jpeg_bytes c = None \<and> cd_ack_outcome c = JNull"

definition has_jpeg :: "bytes \<Rightarrow> candidate \<Rightarrow> bool" where
  "has_jpeg j c \<longleftrightarrow> cd_jpeg_bytes c = Some j \<and> cd_ack_outcome c = JNull"

definition has_ack :: "string \<Rightarrow> candidate \<Rightarrow> bool" where
  "has_ack e c \<longleftrightarrow> cd_jpeg_bytes c = None \<and> cd_ack_outcome c = JStr ''accepted''
     \<and> cd_event_id c = JStr e \<and> cd_snapshot_required c"

lemma rank_last: "rank k (dict_del k d @ [(k, v)]) = 1"
  by (induction d) (auto simp: rank_Cons dict_del_def)

lemma in_flight_new:
  assumes "keyed r" and "\<forall>(m', c') \<in> set (rv_by_message r). frame_of c' \<noteq> (s, f)"
    and "\<forall>(k', m') \<in> set (rv_by_frame r). m' \<noteq> m" and "int (Suc n) \<le> rv_max_retained r"
  shows "in_flight m (s, f) (fl_add now (rv_ttl_seconds r)) waiting n (record_detection now s m f r)"
proof -
  let ?e = "expire_locked now r" and ?c = "new_candidate s f m (fl_add now (rv_ttl_seconds r))"
  let ?g = "registered now s m f ?e"
  note e = expire_subset [of now r]
  have bm: "rv_by_message ?g = dict_del m (rv_by_message ?e) @ [(m, ?c)]"
    and bf: "rv_by_frame ?g = dict_del (s, f) (rv_by_frame ?e) @ [((s, f), m)]"
    and mx: "rv_max_retained ?g = rv_max_retained r"
    using e by (simp_all add: registered_def)
  have "map_of (rv_by_message ?g) m = Some ?c" "map_of (rv_by_frame ?g) (s, f) = Some m"
    by (simp_all add: bm bf map_add_def)
  moreover have "frame_of ?c = (s, f)" "cd_expires_at ?c = fl_add now (rv_ttl_seconds r)" "waiting ?c"
    by (simp_all add: frame_of_def new_candidate_def waiting_def)
  moreover have "rank m (rv_by_message ?g) = 1" "rank (s, f) (rv_by_frame ?g) = 1"
    by (simp_all add: bm bf rank_last)
  moreover have "\<forall>(m', c') \<in> set (rv_by_message ?g). frame_of c' = (s, f) \<longrightarrow> m' = m"
    using assms(2) e by (auto simp: bm)
  moreover have "\<forall>(k', m') \<in> set (rv_by_frame ?g). m' = m \<longrightarrow> k' = (s, f)"
    using assms(3) e by (auto simp: bf)
  moreover have "keyed ?g" using keyed_registered [OF keyed_expire [OF assms(1)]] .
  ultimately have "in_flight m (s, f) (fl_add now (rv_ttl_seconds r)) waiting n ?g"
    using assms(4) mx by (simp add: in_flight_def)
  from in_flight_trim_frames [OF in_flight_trim [OF this]] show ?thesis
    by (simp add: record_detection_registered [OF assms(1)])
qed

lemma in_flight_found:
  assumes "in_flight m k x P n r"
  obtains c where "map_of (rv_by_frame r) k = Some m" "map_of (rv_by_message r) m = Some c" "frame_of c = k"
    "cd_expires_at c = x" "P c" "cd_message_id c = m" "\<not> cd_completed c"
  using assms map_of_keyed [of r m] by (auto simp: in_flight_def)

lemma in_flight_put_self:
  assumes "in_flight m k x P n r" and "cd_message_id c = m" "frame_of c = k" "cd_expires_at c = x" "\<not> cd_completed c" "Q c"
  shows "in_flight m k x Q n (put_candidate c r)"
proof -
  have "m \<in> fst ` set (rv_by_message r)" using assms(1) by (force simp: in_flight_def dest: map_of_SomeD)
  then have "rank m (rv_by_message (put_candidate c r)) = rank m (rv_by_message r)"
    using assms(2) by (simp add: put_candidate_def rank_dict_put)
  moreover have "keyed (put_candidate c r)" using assms(1,5) keyed_put by (simp add: in_flight_def)
  moreover have "\<forall>(m', c') \<in> set (rv_by_message (put_candidate c r)). frame_of c' = k \<longrightarrow> m' = m"
    using assms(1,2) by (auto simp: in_flight_def keyed_def put_candidate_def set_dict_put)
  ultimately show ?thesis using assms by (simp add: in_flight_def) (simp add: put_candidate_def)
qed

lemma in_flight_put_other:
  assumes "in_flight m k x P n r" and "map_of (rv_by_message r) m' = Some c0" and "m' \<noteq> m"
    and "cd_message_id c = m'" "frame_of c = frame_of c0" "\<not> cd_completed c"
  shows "in_flight m k x P n (put_candidate c r) \<and> cd_message_id c \<noteq> m \<and> frame_of c \<noteq> k"
proof -
  have c0: "frame_of c0 \<noteq> k" using in_flight_other [OF assms(1) map_of_SomeD [OF assms(2)] assms(3)] by simp
  have "m' \<in> fst ` set (rv_by_message r)" using assms(2) by (force dest: map_of_SomeD)
  then have "rank m (rv_by_message (put_candidate c r)) = rank m (rv_by_message r)"
    using assms(4) by (simp add: put_candidate_def rank_dict_put)
  moreover have "keyed (put_candidate c r)" using assms(1,6) keyed_put by (simp add: in_flight_def)
  moreover have "\<forall>(m', c') \<in> set (rv_by_message (put_candidate c r)). frame_of c' = k \<longrightarrow> m' = m"
    using assms(1,5) c0 by (auto simp: in_flight_def keyed_def put_candidate_def set_dict_put)
  ultimately have "in_flight m k x P n (put_candidate c r)"
    using assms(1,3,4) by (simp add: in_flight_def) (simp add: put_candidate_def)
  with assms(3-5) c0 show ?thesis by simp
qed

lemma in_flight_complete_other:
  assumes "in_flight m k x P n (put_candidate c r)" and "cd_message_id c \<noteq> m" and "frame_of c \<noteq> k"
  shows "in_flight m k x P n (snd (try_complete_locked c (put_candidate c r)))"
proof (cases "try_complete_locked c (put_candidate c r)")
  case (Pair out r')
  then have "r' = put_candidate c r \<or> r' = remove_locked c (put_candidate c r)" by (cases rule: try_complete_cases) simp_all
  with Pair assms(1) in_flight_remove [OF assms] show ?thesis by auto
qed

text \<open>A call that does not touch the candidate: another detection, JPEG or acknowledgement, or a valve probe.\<close>

definition unrelated :: "string \<Rightarrow> frame_key \<Rightarrow> rv_call \<Rightarrow> bool" where
  "unrelated m k x \<longleftrightarrow>
     (case x of
        RecordDetection s m' f \<Rightarrow> m' \<noteq> m \<and> (s, f) \<noteq> k
      | ConsumeCandidate _ _ \<Rightarrow> True
      | SubmitJpeg s f _ \<Rightarrow> (s, f) \<noteq> k
      | Acknowledge d \<Rightarrow> \<not> ack_for d m
      | Clear \<Rightarrow> False)"

lemma in_flight_frame_other:
  assumes "in_flight m k x P n r" and "map_of (rv_by_frame r) k' = Some m'" and "k' \<noteq> k"
  shows "m' \<noteq> m"
  using assms by (auto simp: in_flight_def dest!: map_of_SomeD)

lemma in_flight_jpeg_other:
  assumes "in_flight m k x P n r" and "(s, f) \<noteq> k" and "\<not> fl_le x now"
  shows "in_flight m k x P n (snd (submit_jpeg now s f j r))"
proof -
  note e = in_flight_expire [OF assms(1,3)]
  have "in_flight m k x P n (snd (try_complete_locked (c\<lparr>cd_jpeg_bytes := Some j\<rparr>)
      (put_candidate (c\<lparr>cd_jpeg_bytes := Some j\<rparr>) (expire_locked now r))))"
    if "map_of (rv_by_frame (expire_locked now r)) (s, f) = Some m'" "map_of (rv_by_message (expire_locked now r)) m' = Some c" for m' c
  proof -
    have "keyed (expire_locked now r)" using e by (simp add: in_flight_def)
    from map_of_keyed [OF this that(2)] in_flight_put_other [OF e that(2) in_flight_frame_other [OF e that(1) assms(2)],
        of "c\<lparr>cd_jpeg_bytes := Some j\<rparr>"]
    show ?thesis by (intro in_flight_complete_other) (simp_all add: frame_of_def)
  qed
  with e show ?thesis by (simp add: submit_jpeg_def Let_def split: option.split)
qed

lemma in_flight_ack_other:
  assumes "in_flight m k x P n r" and "m' \<noteq> m" and "\<not> fl_le x now"
  shows "in_flight m k x P n (snd (submit_ack now m' out ev req r))"
proof -
  note e = in_flight_expire [OF assms(1,3)]
  have ke: "keyed (expire_locked now r)" using e by (simp add: in_flight_def)
  have "in_flight m k x P n (snd (try_complete_locked
        (c\<lparr>cd_ack_outcome := out, cd_event_id := ev, cd_snapshot_required := req\<rparr>)
        (put_candidate (c\<lparr>cd_ack_outcome := out, cd_event_id := ev, cd_snapshot_required := req\<rparr>) (expire_locked now r))))"
    if "map_of (rv_by_message (expire_locked now r)) m' = Some c" for c
    using map_of_keyed [OF ke that]
      in_flight_put_other [OF e that assms(2), of "c\<lparr>cd_ack_outcome := out, cd_event_id := ev, cd_snapshot_required := req\<rparr>"]
    by (intro in_flight_complete_other) (simp_all add: frame_of_def)
  moreover have "in_flight m k x P n (remove_locked c (expire_locked now r))"
    if "map_of (rv_by_message (expire_locked now r)) m' = Some c" for c
    using in_flight_remove [OF e] in_flight_other [OF e map_of_SomeD [OF that] assms(2)] assms(2) by simp
  ultimately show ?thesis using e by (auto simp: submit_ack_def Let_def case_prod_beta split: option.split)
qed

lemma in_flight_consume:
  assumes "in_flight m k x P n r" and "\<not> fl_le x now" and "\<And>c. P c \<Longrightarrow> P (c\<lparr>cd_valve_matched := True\<rparr>)"
  shows "in_flight m k x P n (snd (consume_candidate now s f r))"
proof -
  note e = in_flight_expire [OF assms(1,2)]
  have ke: "keyed (expire_locked now r)" using e by (simp add: in_flight_def)
  have "in_flight m k x P n (put_candidate (c\<lparr>cd_valve_matched := True\<rparr>) (expire_locked now r))"
    if c: "map_of (rv_by_message (expire_locked now r)) m' = Some c" for m' c
  proof (cases "m' = m")
    case True
    obtain c0 where "map_of (rv_by_message (expire_locked now r)) m = Some c0" "frame_of c0 = k" "cd_expires_at c0 = x" "P c0"
      using in_flight_found [OF e] by blast
    with c True map_of_keyed [OF ke c] assms(3) show ?thesis
      by (intro in_flight_put_self [OF e]) (simp_all add: frame_of_def)
  next
    case False
    with map_of_keyed [OF ke c] in_flight_put_other [OF e c False, of "c\<lparr>cd_valve_matched := True\<rparr>"]
    show ?thesis by (simp add: frame_of_def)
  qed
  with e show ?thesis by (simp add: consume_candidate_def Let_def split: option.split)
qed

lemma in_flight_step:
  assumes "in_flight m k x P (length (messages_of y) + n) r" and "unrelated m k y" and "\<not> fl_le x now"
    and "\<And>c. P c \<Longrightarrow> P (c\<lparr>cd_valve_matched := True\<rparr>)"
  shows "in_flight m k x P n (snd (rv_step (now, y) r))"
proof (cases y)
  case (RecordDetection s m' f)
  with assms in_flight_record [of m k x P n r m' s f now] show ?thesis by (simp add: unrelated_def messages_of_def)
next
  case (Acknowledge d)
  have "in_flight m k x P n (snd (acknowledgement_received now d r))"
    using assms(1,2,3) Acknowledge
    by (auto simp: acknowledgement_received_def unrelated_def messages_of_def ack_for_def in_flight_ack_other split: json.split)
  with Acknowledge show ?thesis by (simp only: rv_step_ack)
qed (use assms in \<open>simp_all add: unrelated_def messages_of_def in_flight_consume in_flight_jpeg_other\<close>)

lemma in_flight_run:
  assumes "in_flight m k x P (length (concat (map (messages_of \<circ> snd) ys)) + n) r"
    and "list_all (\<lambda>(now, y). unrelated m k y \<and> \<not> fl_le x now) ys"
    and "\<And>c. P c \<Longrightarrow> P (c\<lparr>cd_valve_matched := True\<rparr>)"
  shows "in_flight m k x P n (snd (rv_run ys r))"
  using assms(1,2)
proof (induction ys arbitrary: r)
  case (Cons z ys)
  obtain now y where z: "z = (now, y)" by (cases z)
  have "in_flight m k x P (length (concat (map (messages_of \<circ> snd) ys)) + n) (snd (rv_step z r))"
    using Cons.prems z in_flight_step [where P = P, OF _ _ _ assms(3), of m k x y _ r now] by (simp add: add.assoc comp_def)
  from Cons.IH [OF this] Cons.prems(2) show ?case by (auto split: prod.split)
qed simp

text \<open>The two halves: the first one is stored, the second one completes.\<close>

lemma valve_insensitive:
  "waiting c \<Longrightarrow> waiting (c\<lparr>cd_valve_matched := True\<rparr>)"
  "has_jpeg j c \<Longrightarrow> has_jpeg j (c\<lparr>cd_valve_matched := True\<rparr>)"
  "has_ack e c \<Longrightarrow> has_ack e (c\<lparr>cd_valve_matched := True\<rparr>)"
  by (simp_all add: waiting_def has_jpeg_def has_ack_def)

lemma jpeg_first:
  assumes "in_flight m (s, f) x waiting n r" and "\<not> fl_le x now"
  shows "fst (submit_jpeg now s f j r) = None \<and> in_flight m (s, f) x (has_jpeg j) n (snd (submit_jpeg now s f j r))"
proof -
  note e = in_flight_expire [OF assms]
  obtain c where c: "map_of (rv_by_frame (expire_locked now r)) (s, f) = Some m"
    "map_of (rv_by_message (expire_locked now r)) m = Some c" "frame_of c = (s, f)" "cd_expires_at c = x" "waiting c"
    "cd_message_id c = m" "\<not> cd_completed c"
    using in_flight_found [OF e] by blast
  have "in_flight m (s, f) x (has_jpeg j) n (put_candidate (c\<lparr>cd_jpeg_bytes := Some j\<rparr>) (expire_locked now r))"
    using c by (intro in_flight_put_self [OF e]) (simp_all add: frame_of_def waiting_def has_jpeg_def)
  with c show ?thesis by (simp add: submit_jpeg_def Let_def try_complete_locked_def waiting_def)
qed

lemma ack_first:
  assumes "in_flight m k x waiting n r" and "\<not> fl_le x now" and "ack_for d m" and "ack_requests d ev"
  shows "fst (rv_step (now, Acknowledge d) r) = None \<and> in_flight m k x (has_ack ev) n (snd (rv_step (now, Acknowledge d) r))"
proof -
  note e = in_flight_expire [OF assms(1,2)]
  obtain c where c: "map_of (rv_by_message (expire_locked now r)) m = Some c" "frame_of c = k" "cd_expires_at c = x" "waiting c"
    "cd_message_id c = m" "\<not> cd_completed c"
    using in_flight_found [OF e] by blast
  let ?c = "c\<lparr>cd_ack_outcome := JStr ''accepted'', cd_event_id := JStr ev, cd_snapshot_required := True\<rparr>"
  have "in_flight m k x (has_ack ev) n (put_candidate ?c (expire_locked now r))"
    using c by (intro in_flight_put_self [OF e]) (simp_all add: frame_of_def waiting_def has_ack_def)
  with c assms(3,4) show ?thesis
    by (auto simp: acknowledgement_received_def submit_ack_def Let_def try_complete_locked_def waiting_def
        ack_for_def ack_requests_def log_ack_def)
qed

lemma jpeg_last:
  assumes "in_flight m (s, f) x (has_ack ev) n r" and "\<not> fl_le x now"
  shows "fst (submit_jpeg now s f j r) = Some (ev, j)"
proof -
  note e = in_flight_expire [OF assms]
  obtain c where c: "map_of (rv_by_frame (expire_locked now r)) (s, f) = Some m"
    "map_of (rv_by_message (expire_locked now r)) m = Some c" "has_ack ev c" "\<not> cd_completed c"
    using in_flight_found [OF e] by blast
  then show ?thesis by (simp add: submit_jpeg_def Let_def try_complete_locked_def has_ack_def)
qed

lemma ack_last:
  assumes "in_flight m k x (has_jpeg j) n r" and "\<not> fl_le x now" and "ack_for d m" and "ack_requests d ev"
  shows "fst (rv_step (now, Acknowledge d) r) = Some (ev, j)"
proof -
  note e = in_flight_expire [OF assms(1,2)]
  obtain c where c: "map_of (rv_by_message (expire_locked now r)) m = Some c" "has_jpeg j c" "\<not> cd_completed c"
    using in_flight_found [OF e] by blast
  with assms(3,4) show ?thesis
    by (auto simp: acknowledgement_received_def submit_ack_def Let_def try_complete_locked_def has_jpeg_def
        ack_for_def ack_requests_def log_ack_def)
qed

lemma rv_run_append:
  "rv_run (xs @ ys) r = (case rv_run xs r of (outs, r1) \<Rightarrow> (case rv_run ys r1 of (outs', r2) \<Rightarrow> (outs @ outs', r2)))"
  by (induction xs arbitrary: r) (auto split: prod.split)

lemma rv_run_length: "length (fst (rv_run xs r)) = length xs"
  by (induction xs arbitrary: r) (auto split: prod.split, metis fst_conv)

text \<open>The candidate state left by the first half, whichever it is, and what the second half does to it.\<close>

definition halves :: "string \<Rightarrow> int \<Rightarrow> int \<Rightarrow> string \<Rightarrow> bytes \<Rightarrow> rv_call \<Rightarrow> rv_call \<Rightarrow> bool" where
  "halves m s f e j x y \<longleftrightarrow>
     (\<exists>d. ack_for d m \<and> ack_requests d e
        \<and> (x = SubmitJpeg s f j \<and> y = Acknowledge d \<or> x = Acknowledge d \<and> y = SubmitJpeg s f j))"

lemma halves_complete:
  assumes "in_flight m (s, f) x waiting (length (concat (map (messages_of \<circ> snd) mid))) r"
    and "halves m s f e j h1 h2" and "\<not> fl_le x t1" and "\<not> fl_le x t2"
    and "list_all (\<lambda>(now, y). unrelated m (s, f) y \<and> \<not> fl_le x now) mid"
    and "rv_run ((t1, h1) # mid @ [(t2, h2)]) r = (outs, r')"
  shows "hd outs = None \<and> last outs = Some (e, j)"
proof -
  let ?r1 = "snd (rv_step (t1, h1) r)"
  let ?r2 = "snd (rv_run mid ?r1)"
  have outs: "outs = fst (rv_step (t1, h1) r) # fst (rv_run mid ?r1) @ [fst (rv_step (t2, h2) ?r2)]"
    using assms(6) by (auto simp: rv_run_append split: prod.splits)
  obtain d where d: "ack_for d m" "ack_requests d e"
    "h1 = SubmitJpeg s f j \<and> h2 = Acknowledge d \<or> h1 = Acknowledge d \<and> h2 = SubmitJpeg s f j"
    using assms(2) by (auto simp: halves_def)
  from d(3) show ?thesis
  proof
    assume h: "h1 = SubmitJpeg s f j \<and> h2 = Acknowledge d"
    with jpeg_first [OF assms(1,3), of j] have "fst (rv_step (t1, h1) r) = None"
      and fl: "in_flight m (s, f) x (has_jpeg j) (length (concat (map (messages_of \<circ> snd) mid)) + 0) ?r1" by simp_all
    moreover from in_flight_run [OF fl assms(5) valve_insensitive(2)] ack_last [OF _ assms(4) d(1,2)] h
    have "fst (rv_step (t2, h2) ?r2) = Some (e, j)" by blast
    ultimately show ?thesis using outs by simp
  next
    assume h: "h1 = Acknowledge d \<and> h2 = SubmitJpeg s f j"
    with ack_first [OF assms(1,3) d(1,2)] have "fst (rv_step (t1, h1) r) = None"
      and fl: "in_flight m (s, f) x (has_ack e) (length (concat (map (messages_of \<circ> snd) mid)) + 0) ?r1" by simp_all
    moreover from in_flight_run [OF fl assms(5) valve_insensitive(3)] jpeg_last [OF _ assms(4)] h
    have "fst (rv_step (t2, h2) ?r2) = Some (e, j)" by simp
    ultimately show ?thesis using outs by simp
  qed
qed

definition registers_other :: "string \<Rightarrow> frame_key \<Rightarrow> rv_call \<Rightarrow> bool" where
  "registers_other m k y \<longleftrightarrow> (\<forall>s' m' f'. y = RecordDetection s' m' f' \<longrightarrow> m' \<noteq> m \<and> (s', f') \<noteq> k)"

definition settings_of :: "rendezvous \<Rightarrow> int \<times> pyfloat" where
  "settings_of r = (rv_max_retained r, rv_ttl_seconds r)"

lemma settings_simps [simp]:
  "settings_of (remove_locked c r) = settings_of r"
  "settings_of (put_candidate c r) = settings_of r"
  "settings_of (expire_locked now r) = settings_of r"
  "settings_of (trim_frames r) = settings_of r"
  "settings_of (clear r) = settings_of r"
  "settings_of (trim_messages r) = settings_of r"
  using expire_subset [of now r] trim_messages_invariant [where P = "\<lambda>x. settings_of x = settings_of r" and r = r]
  by (simp_all add: settings_of_def remove_locked_def put_candidate_def trim_frames_def clear_def pop_oldest_def)

lemma settings_complete [simp]: "settings_of (snd (try_complete_locked c r)) = settings_of r"
  by (auto simp: try_complete_locked_def split: json.split option.split)

lemma settings_ack: "settings_of (snd (submit_ack now m out ev req r)) = settings_of r"
  by (auto simp: submit_ack_def Let_def case_prod_beta split: option.split)

lemma settings_step: "settings_of (snd (rv_step x r)) = settings_of r"
proof (induction x r rule: rv_step.induct)
  case (1 now s m f r)
  then show ?case
    using expire_subset [of now r] by (simp add: record_detection_def Let_def) (simp add: settings_of_def)
next
  case (4 now d r)
  then show ?case
    by (simp only: rv_step_ack) (auto simp: acknowledgement_received_def settings_ack split: json.split)
qed (auto simp: consume_candidate_def submit_jpeg_def Let_def split: option.split)

lemma rv_run_backed:
  assumes "rv_run xs r = (outs, r')" and "backed past r" and "single_frame past" and "snd ` set xs \<subseteq> past"
  shows "backed past r' \<and> settings_of r' = settings_of r"
  using assms
proof (induction xs arbitrary: r outs)
  case (Cons x xs)
  obtain now y where x: "x = (now, y)" by (cases x)
  obtain out r1 where s: "rv_step x r = (out, r1)" by (cases "rv_step x r")
  obtain outs' where run: "rv_run xs r1 = (outs', r')" using Cons.prems(1) s by (auto split: prod.splits)
  have "backed past r1"
    using rv_step_sound [OF Cons.prems(2,3) _ s [unfolded x]] Cons.prems(4) x by simp
  moreover have "settings_of r1 = settings_of r" using settings_step [of x r] s by simp
  ultimately show ?case using Cons.IH [OF run _ Cons.prems(3)] Cons.prems(4) by simp
qed simp

lemma mk_rendezvous_backed:
  "mk_rendezvous n ttl = Inr r \<Longrightarrow> backed past r \<and> settings_of r = (n, ttl) \<and> pending_messages r = {} \<and> rv_by_frame r = []"
  by (auto simp: mk_rendezvous_def backed_def keyed_def pending_messages_def settings_of_def split: if_split_asm)

text \<open>
  Either order works.  After any earlier history, let a detection be registered whose frame holds no
  other one.  If its JPEG and an acknowledgement that asks for the snapshot of event \<open>e\<close> both arrive
  before the detection expires, in either order, with any other traffic between them that registers
  fewer detections than are retained, then the first arrival sends nothing and the second one sends
  exactly that JPEG for exactly that event.
\<close>

theorem either_order_sends:
  assumes "mk_rendezvous max_retained ttl = Inr r0" and "rv_run before r0 = (outs0, r)"
    and "distinct (concat (map (messages_of \<circ> snd) before))" and "list_all (\<lambda>(t, y). registers_other m (s, f) y) before"
    and "halves m s f e j h1 h2"
    and "list_all (\<lambda>(t, y). unrelated m (s, f) y) (mid1 @ mid2)"
    and "int (length (concat (map (messages_of \<circ> snd) (mid1 @ mid2)))) < max_retained"
    and "list_all (\<lambda>t. \<not> fl_le (fl_add t0 ttl) t) (map fst (mid1 @ (t1, h1) # mid2 @ [(t2, h2)]))"
    and "rv_run ((t0, RecordDetection s m f) # mid1 @ (t1, h1) # mid2 @ [(t2, h2)]) r = (outs, r')"
  shows "outs ! Suc (length mid1) = None \<and> last outs = Some (e, j)"
proof -
  let ?past = "snd ` set before" and ?x = "fl_add t0 ttl"
  let ?n = "length (concat (map (messages_of \<circ> snd) mid2))"
  have "single_frame ?past" using distinct_single_frame [of "map snd before"] assms(3) by (simp add: comp_def)
  then have b: "backed ?past r" and st: "rv_max_retained r = max_retained" "rv_ttl_seconds r = ttl"
    using rv_run_backed [OF assms(2)] mk_rendezvous_backed [OF assms(1)] by (auto simp: settings_of_def)
  have other: "m' \<noteq> m \<and> (s', f') \<noteq> (s, f)" if "RecordDetection s' m' f' \<in> ?past" for s' m' f'
    using that assms(4) by (force simp: list_all_iff registers_other_def)
  have frames: "frame_of c' \<noteq> (s, f)" if c': "(m', c') \<in> set (rv_by_message r)" for m' c'
  proof -
    have "candidate_backed ?past c'" using b c' by (auto simp: backed_def)
    then have "RecordDetection (cd_source_id c') (cd_message_id c') (cd_frame_number c') \<in> ?past"
      by (simp add: candidate_backed_def)
    from other [OF this] show ?thesis by (simp add: frame_of_def)
  qed
  have names: "m' \<noteq> m" if c': "(k', m') \<in> set (rv_by_frame r)" for k' m'
  proof -
    obtain s' f' where k': "k' = (s', f')" by (cases k')
    have "RecordDetection s' m' f' \<in> ?past" using b c' k' by (auto simp: backed_def)
    from other [OF this] show ?thesis by simp
  qed
  have k: "keyed r" using b by (simp add: backed_def)
  have cap: "int (Suc (length (concat (map (messages_of \<circ> snd) mid1)) + ?n)) \<le> rv_max_retained r"
    using st assms(7) by simp
  have "in_flight m (s, f) (fl_add t0 (rv_ttl_seconds r)) waiting (length (concat (map (messages_of \<circ> snd) mid1)) + ?n)
      (record_detection t0 s m f r)"
    by (rule in_flight_new [OF k _ _ cap]) (use frames names in blast)+
  then have "in_flight m (s, f) ?x waiting (length (concat (map (messages_of \<circ> snd) mid1)) + ?n)
      (record_detection t0 s m f r)" by (simp add: st)
  moreover have u1: "list_all (\<lambda>(now, y). unrelated m (s, f) y \<and> \<not> fl_le ?x now) mid1"
    and u2: "list_all (\<lambda>(now, y). unrelated m (s, f) y \<and> \<not> fl_le ?x now) mid2"
    using assms(6,8) by (force simp: list_all_iff)+
  ultimately have fl: "in_flight m (s, f) ?x waiting ?n (snd (rv_run mid1 (record_detection t0 s m f r)))"
    by (intro in_flight_run) (simp_all add: valve_insensitive)
  obtain outs1 r1 where m1: "rv_run mid1 (record_detection t0 s m f r) = (outs1, r1)" by (metis surj_pair)
  obtain outs2 r2 where m2: "rv_run ((t1, h1) # mid2 @ [(t2, h2)]) r1 = (outs2, r2)" by (metis surj_pair)
  have "hd outs2 = None \<and> last outs2 = Some (e, j)"
    using fl assms(5,8) m1 u2 by (intro halves_complete [OF _ _ _ _ _ m2]) simp_all
  moreover have "rv_run (mid1 @ (t1, h1) # mid2 @ [(t2, h2)]) (record_detection t0 s m f r) = (outs1 @ outs2, r2)"
    by (simp only: rv_run_append m1 m2 prod.case)
  then have "outs = None # outs1 @ outs2"
    using assms(9) by (simp only: rv_run.simps rv_step.simps prod.case prod.inject)
  moreover have "length outs1 = length mid1" "length outs2 = Suc (Suc (length mid2))"
    using rv_run_length [of mid1 "record_detection t0 s m f r"] m1 rv_run_length [of "(t1, h1) # mid2 @ [(t2, h2)]" r1] m2
    by simp_all
  moreover from this have "outs2 \<noteq> []" by auto
  ultimately show ?thesis by (simp add: nth_append hd_conv_nth)
qed

theorem either_order_sends_witness:
  "\<exists>outs r'. rv_run demo_calls demo_rendezvous = (outs, r') \<and> outs ! 1 = None \<and> last outs = Some (''e'', [1])"
proof -
  obtain outs r' where run: "rv_run demo_calls demo_rendezvous = (outs, r')" by (cases "rv_run demo_calls demo_rendezvous")
  have h: "halves ''m'' 0 7 ''e'' [1] (Acknowledge (demo_ack ''m'' ''e'')) (SubmitJpeg 0 7 [1])"
    by (auto simp: halves_def demo_ack_simps)
  have t: "fl_add (Fin 0) (Fin 3) = Fin 3" by code_simp
  have "outs ! Suc (length ([] :: (pyfloat \<times> rv_call) list)) = None \<and> last outs = Some (''e'', [1])"
    by (rule either_order_sends [OF demo_mk_rendezvous, of "[]" "[]" demo_rendezvous "''m''" 0 7 "''e''" "[1]" _ _ "[]" "[]" "Fin 0", OF _ _ _ h])
       (use run t in \<open>simp_all add: demo_calls_def\<close>)
  with run show ?thesis by simp
qed

section \<open>Two detections in one frame\<close>

text \<open>
  \<open>silent ks m e r\<close>: message \<open>m\<close> is not the message of any frame outside \<open>ks\<close>, its candidate has no JPEG,
  and no other candidate waits for event \<open>e\<close>.
\<close>

definition silent :: "frame_key set \<Rightarrow> string \<Rightarrow> string \<Rightarrow> rendezvous \<Rightarrow> bool" where
  "silent ks m e r \<longleftrightarrow> keyed r
     \<and> (\<forall>(m', c) \<in> set (rv_by_message r). if m' = m then cd_jpeg_bytes c = None else cd_event_id c \<noteq> JStr e)
     \<and> (\<forall>(k, m') \<in> set (rv_by_frame r). m' = m \<longrightarrow> k \<in> ks)"

lemma silent_remove: "silent ks m e r \<Longrightarrow> silent ks m e (remove_locked c r)"
  using keyed_del [of r c] by (auto simp: silent_def) (auto simp: remove_locked_def)

lemma silent_expire: "silent ks m e r \<Longrightarrow> silent ks m e (expire_locked now r)"
  using expire_subset [of now r] keyed_expire [of r now] unfolding silent_def by blast

lemma silent_trim: "silent ks m e r \<Longrightarrow> silent ks m e (trim_frames (trim_messages r))"
proof -
  have "silent ks m e (pop_oldest r)" if "silent ks m e r" "rv_by_message r \<noteq> []" for r
    using that keyed_pop [of r] by (cases "rv_by_message r") (auto simp: silent_def pop_oldest_def)
  then have "silent ks m e r \<Longrightarrow> silent ks m e (trim_messages r)"
    using trim_messages_invariant [where P = "silent ks m e"] by blast
  moreover have "silent ks m e (trim_frames r)" if "silent ks m e r" for r
    using that keyed_trim_frames [of r] by (auto simp: silent_def) (auto simp: trim_frames_def dest!: in_set_dropD)
  ultimately show "silent ks m e r \<Longrightarrow> ?thesis" by blast
qed

lemma silent_put:
  assumes "silent ks m e r" and "\<not> cd_completed c"
    and "if cd_message_id c = m then cd_jpeg_bytes c = None else cd_event_id c \<noteq> JStr e"
  shows "silent ks m e (put_candidate c r)"
  using assms keyed_put [of r c] by (auto simp: silent_def) (auto simp: put_candidate_def set_dict_put keyed_def)

lemma silent_record_other:
  assumes "silent ks m e r" and "m' \<noteq> m"
  shows "silent (ks - {(s, f)}) m e (record_detection now s m' f r)"
proof -
  have k: "keyed r" using assms(1) by (simp add: silent_def)
  have "silent (ks - {(s, f)}) m e (registered now s m' f (expire_locked now r))"
    using silent_expire [OF assms(1), of now] assms(2) keyed_registered [OF keyed_expire [OF k], of now s m' f now]
    by (auto simp: silent_def) (auto simp: registered_def new_candidate_def)
  from silent_trim [OF this] show ?thesis by (simp add: record_detection_registered [OF k])
qed

lemma silent_record_self:
  assumes "silent ks m e r"
  shows "silent (insert (s, f) ks) m e (record_detection now s m f r)"
proof -
  have k: "keyed r" using assms(1) by (simp add: silent_def)
  have "silent (insert (s, f) ks) m e (registered now s m f (expire_locked now r))"
    using silent_expire [OF assms(1), of now] keyed_registered [OF keyed_expire [OF k], of now s m f now]
    by (auto simp: silent_def) (auto simp: registered_def new_candidate_def)
  from silent_trim [OF this] show ?thesis by (simp add: record_detection_registered [OF k])
qed

lemma silent_candidate:
  assumes "silent ks m e r" and "map_of (rv_by_message r) m' = Some c"
  shows "(if m' = m then cd_jpeg_bytes c = None else cd_event_id c \<noteq> JStr e) \<and> cd_message_id c = m' \<and> \<not> cd_completed c"
  using assms(1) map_of_SomeD [OF assms(2)] map_of_keyed [OF _ assms(2)] by (fastforce simp: silent_def)

lemma silent_complete:
  assumes "silent ks m e r" and "\<not> cd_completed c"
    and "if cd_message_id c = m then cd_jpeg_bytes c = None else cd_event_id c \<noteq> JStr e"
    and "try_complete_locked c (put_candidate c r) = (out, r')"
  shows "silent ks m e r' \<and> (\<forall>j. out \<noteq> Some (e, j))"
  using assms(4)
proof (cases rule: try_complete_cases)
  case 1
  with silent_put [OF assms(1-3)] show ?thesis by simp
next
  case (2 e' j)
  with silent_remove [OF silent_put [OF assms(1-3)], of c] assms(3) show ?thesis by (auto split: if_split_asm)
qed

definition quiet_for :: "string \<Rightarrow> string \<Rightarrow> rv_call \<Rightarrow> bool" where
  "quiet_for m e y \<longleftrightarrow> m \<notin> set (messages_of y) \<and> (\<forall>d. y = Acknowledge d \<longrightarrow> ack_requests d e \<longrightarrow> ack_for d m)"

lemma silent_ack:
  assumes "silent {} m e r" and "out = JStr ''accepted'' \<and> req \<and> ev = JStr e \<Longrightarrow> m' = m"
    and "submit_ack now m' out ev req r = (res, r')"
  shows "silent {} m e r' \<and> (\<forall>j. res \<noteq> Inr (Some (e, j)))"
proof -
  let ?r = "expire_locked now r"
  have sl: "silent {} m e ?r" by (rule silent_expire [OF assms(1)])
  have bind: "bind_result (log_ack ev) (\<lambda>_. Inr x) = Inr (Some y) \<Longrightarrow> x = Some y" for x :: "delivery option" and y
    by (simp add: outcome_simps)
  show ?thesis
  proof (cases "map_of (rv_by_message ?r) m'")
    case None
    with assms(3) sl bind show ?thesis by (auto simp: submit_ack_def Let_def)
  next
    case (Some c)
    note c = silent_candidate [OF sl Some]
    let ?c = "c\<lparr>cd_ack_outcome := out, cd_event_id := ev, cd_snapshot_required := req\<rparr>"
    show ?thesis
    proof (cases "out = JStr ''accepted'' \<and> req")
      case False
      with Some c assms(3) silent_remove [OF sl, of c] bind show ?thesis by (auto simp: submit_ack_def Let_def)
    next
      case True
      obtain o2 r2 where t: "try_complete_locked ?c (put_candidate ?c ?r) = (o2, r2)"
        by (cases "try_complete_locked ?c (put_candidate ?c ?r)")
      have "silent {} m e r2 \<and> (\<forall>j. o2 \<noteq> Some (e, j))"
        using c True assms(2) by (intro silent_complete [OF sl _ _ t]) auto
      moreover have "r' = r2" "res = bind_result (log_ack ev) (\<lambda>_. Inr o2)"
        using assms(3) Some c True t by (auto simp: submit_ack_def Let_def)
      ultimately show ?thesis using bind [of o2] by auto
    qed
  qed
qed

lemma silent_jpeg:
  assumes "silent {} m e r" and "submit_jpeg now s f jpeg r = (out, r')"
  shows "silent {} m e r' \<and> (\<forall>j. out \<noteq> Some (e, j))"
proof -
  let ?r = "expire_locked now r"
  have sl: "silent {} m e ?r" by (rule silent_expire [OF assms(1)])
  show ?thesis
  proof (cases "\<exists>m' c. map_of (rv_by_frame ?r) (s, f) = Some m' \<and> map_of (rv_by_message ?r) m' = Some c")
    case False
    with assms(2) sl show ?thesis by (auto simp: submit_jpeg_def Let_def split: option.split_asm)
  next
    case True
    then obtain m' c where mc: "map_of (rv_by_frame ?r) (s, f) = Some m'" "map_of (rv_by_message ?r) m' = Some c" by blast
    have "m' \<noteq> m" using sl mc(1) by (auto simp: silent_def dest!: map_of_SomeD)
    with silent_candidate [OF sl mc(2)] mc assms(2) show ?thesis
      by (intro silent_complete [OF sl, of "c\<lparr>cd_jpeg_bytes := Some jpeg\<rparr>"]) (simp_all add: submit_jpeg_def Let_def)
  qed
qed

lemma silent_step:
  assumes "silent {} m e r" and "quiet_for m e y" and "rv_step (now, y) r = (out, r')"
  shows "silent {} m e r' \<and> (\<forall>j. out \<noteq> Some (e, j))"
proof (cases y)
  case (RecordDetection s m' f)
  with assms silent_record_other [OF assms(1), of m' s f now] show ?thesis by (auto simp: quiet_for_def messages_of_def)
next
  case (ConsumeCandidate s f)
  have "silent {} m e (put_candidate (c\<lparr>cd_valve_matched := True\<rparr>) (expire_locked now r))"
    if "map_of (rv_by_message (expire_locked now r)) m' = Some c" for m' c
    using silent_candidate [OF silent_expire [OF assms(1)] that] by (intro silent_put [OF silent_expire [OF assms(1)]]) simp_all
  with assms silent_expire [OF assms(1), of now] ConsumeCandidate show ?thesis
    by (auto simp: consume_candidate_def Let_def split: option.splits if_splits)
next
  case (SubmitJpeg s f j)
  with assms silent_jpeg [OF assms(1)] show ?thesis by simp
next
  case (Acknowledge d)
  obtain res r2 where t: "acknowledgement_received now d r = (res, r2)" by (cases "acknowledgement_received now d r")
  have "silent {} m e r2 \<and> (\<forall>j. res \<noteq> Inr (Some (e, j)))"
  proof (cases "\<exists>m'. ack_for d m'")
    case False
    with t assms(1) show ?thesis by (auto simp: acknowledgement_received_def ack_for_def split: json.split_asm)
  next
    case True
    then obtain m' ob where d: "d = JObj ob" "jget_none ob ''messageId'' = JStr m'" by (auto simp: ack_for_def)
    with t have a: "submit_ack now m' (jget_none ob ''outcome'') (jget_none ob ''eventId'')
        (truthy (jget_none ob ''snapshotRequired'')) r = (res, r2)" by (simp add: acknowledgement_received_def)
    show ?thesis
      using assms(2) d Acknowledge
      by (intro silent_ack [OF assms(1) _ a]) (auto simp: quiet_for_def ack_for_def ack_requests_def)
  qed
  with t assms(3) Acknowledge show ?thesis by (auto split: sum.split_asm)
next
  case Clear
  with assms show ?thesis by (auto simp: silent_def clear_def keyed_def)
qed

lemma silent_run:
  assumes "silent {} m e r" and "list_all (\<lambda>(t, y). quiet_for m e y) xs" and "rv_run xs r = (outs, r')"
  shows "silent {} m e r' \<and> (\<forall>j. Some (e, j) \<notin> set outs)"
  using assms
proof (induction xs arbitrary: r outs)
  case (Cons x xs)
  obtain now y where x: "x = (now, y)" by (cases x)
  obtain out r1 where s: "rv_step x r = (out, r1)" by (cases "rv_step x r")
  obtain outs' where run: "rv_run xs r1 = (outs', r')" "outs = out # outs'"
    using Cons.prems(3) s by (auto split: prod.splits)
  have "quiet_for m e y" using Cons.prems(2) x by simp
  from silent_step [OF Cons.prems(1) this s [unfolded x]] Cons.IH [OF _ _ run(1)] Cons.prems(2) run(2)
  show ?case by auto
qed simp

text \<open>
  A frame with two detections loses the snapshot of the first.  When a second detection is registered
  for the same source and frame, the frame belongs to the second one only: whatever JPEGs and
  acknowledgements arrive afterwards, in whatever order, no snapshot is ever sent for the event the
  Agent accepted for the first detection.
\<close>

theorem shared_frame_loses_snapshot:
  assumes "mk_rendezvous max_retained ttl = Inr r0" and "m1 \<noteq> m2"
    and "list_all (\<lambda>(t, y). quiet_for m1 e y) (before @ rest)"
    and "rv_run (before @ (t1, RecordDetection s m1 f) # (t2, RecordDetection s m2 f) # rest) r0 = (outs, r')"
  shows "Some (e, j) \<notin> set outs"
proof -
  obtain o1 r1 where r1: "rv_run before r0 = (o1, r1)" by (metis surj_pair)
  have "silent {} m1 e r0" using assms(1) by (auto simp: mk_rendezvous_def silent_def keyed_def split: if_split_asm)
  from silent_run [OF this _ r1] assms(3) have s1: "silent {} m1 e r1" "\<forall>j. Some (e, j) \<notin> set o1" by simp_all
  let ?r2 = "record_detection t2 s m2 f (record_detection t1 s m1 f r1)"
  have s2: "silent {} m1 e ?r2"
    using silent_record_other [OF silent_record_self [OF s1(1), of s f t1], of m2 s f t2] assms(2) by simp
  obtain o2 where r2: "rv_run rest ?r2 = (o2, r')" "outs = o1 @ None # None # o2"
    using assms(4) r1 by (auto simp: rv_run_append split: prod.splits)
  from silent_run [OF s2 _ r2(1)] assms(3) s1(2) r2(2) show ?thesis by simp
qed

definition demo_shared_frame :: "(pyfloat \<times> rv_call) list" where
  "demo_shared_frame = [(Fin 0, RecordDetection 0 ''m'' 7), (Fin 0, RecordDetection 0 ''n'' 7), (Fin 1, SubmitJpeg 0 7 [1]),
     (Fin 2, Acknowledge (demo_ack ''m'' ''e''))]"

theorem shared_frame_loses_snapshot_witness:
  "\<exists>outs r'. rv_run demo_shared_frame demo_rendezvous = (outs, r') \<and> Some (''e'', [1]) \<notin> set outs"
proof -
  obtain outs r' where run: "rv_run demo_shared_frame demo_rendezvous = (outs, r')"
    by (cases "rv_run demo_shared_frame demo_rendezvous")
  have "Some (''e'', [1]) \<notin> set outs"
    by (rule shared_frame_loses_snapshot [OF demo_mk_rendezvous, of "''m''" "''n''" "''e''" "[]"
          "[(Fin 1, SubmitJpeg 0 7 [1]), (Fin 2, Acknowledge (demo_ack ''m'' ''e''))]" "Fin 0" 0 7 "Fin 0" outs r'])
       (use run in \<open>simp_all add: demo_shared_frame_def quiet_for_def messages_of_def demo_ack_simps\<close>)
  with run show ?thesis by blast
qed

end
