(* ===== verification/BridgeWire.thy ===== *)
theory BridgeWire
  imports Wire Validation
begin

text \<open>
  \<^verbatim>\<open>deepstream_bridge/protocol.py\<close> and \<^verbatim>\<open>deepstream_bridge/probe.py\<close>: what the Bridge makes of the
  metadata of a video buffer, and the frames it sends.  The Bridge may not import the Agent, so its
  framing code is a copy; here it is translated once more and proved equal to the Agent's.
  \<^verbatim>\<open>json.dumps\<close> is the argument \<open>dumps\<close>; the linked lists of \<^verbatim>\<open>pyds\<close> are lists.
\<close>

section \<open>protocol.py\<close>

definition BRIDGE_LENGTH_PREFIX_BYTES :: nat where "BRIDGE_LENGTH_PREFIX_BYTES = 4"
definition BRIDGE_KIND_PREFIX_BYTES :: nat where "BRIDGE_KIND_PREFIX_BYTES = 1"
definition BRIDGE_KIND_DETECTION :: nat where "BRIDGE_KIND_DETECTION = 1"
definition BRIDGE_KIND_SNAPSHOT :: nat where "BRIDGE_KIND_SNAPSHOT = 2"
definition BRIDGE_KIND_ACKNOWLEDGEMENT :: nat where "BRIDGE_KIND_ACKNOWLEDGEMENT = 3"
definition BRIDGE_HEADER_BYTES :: nat where
  "BRIDGE_HEADER_BYTES = BRIDGE_KIND_PREFIX_BYTES + BRIDGE_LENGTH_PREFIX_BYTES"
definition BRIDGE_MAX_FRAME_BYTES :: nat where "BRIDGE_MAX_FRAME_BYTES = 65536"
definition BRIDGE_MAX_SNAPSHOT_FRAME_BYTES :: nat where
  "BRIDGE_MAX_SNAPSHOT_FRAME_BYTES = 5 * 1024 * 1024 + 4096"
definition SCHEMA_VERSION :: int where "SCHEMA_VERSION = 2"
definition DEFAULT_QUEUE_CAPACITY :: int where "DEFAULT_QUEUE_CAPACITY = 1000"
definition EVENT_ID_LENGTH_PREFIX_BYTES :: nat where "EVENT_ID_LENGTH_PREFIX_BYTES = 2"

lemmas bridge_constants = BRIDGE_LENGTH_PREFIX_BYTES_def BRIDGE_KIND_PREFIX_BYTES_def BRIDGE_KIND_DETECTION_def
  BRIDGE_KIND_SNAPSHOT_def BRIDGE_KIND_ACKNOWLEDGEMENT_def BRIDGE_HEADER_BYTES_def BRIDGE_MAX_FRAME_BYTES_def
  BRIDGE_MAX_SNAPSHOT_FRAME_BYTES_def EVENT_ID_LENGTH_PREFIX_BYTES_def

definition bridge_encode_frame :: "bytes \<Rightarrow> nat \<Rightarrow> exn + bytes" where
  "bridge_encode_frame payload kind =
     bind_result (to_bytes BRIDGE_KIND_PREFIX_BYTES kind) (\<lambda>k.
     bind_result (to_bytes BRIDGE_LENGTH_PREFIX_BYTES (length payload)) (\<lambda>n.
     Inr (k @ n @ payload)))"

definition bridge_decode_frame_header :: "bytes \<Rightarrow> nat \<times> nat" where
  "bridge_decode_frame_header header =
     (from_bytes (take BRIDGE_KIND_PREFIX_BYTES header), from_bytes (drop BRIDGE_KIND_PREFIX_BYTES header))"

definition bridge_encode_message :: "(json \<Rightarrow> utext) \<Rightarrow> json_obj \<Rightarrow> exn + bytes" where
  "bridge_encode_message dumps payload =
     bind_result (utf8_encode (dumps (JObj payload))) (\<lambda>body. bridge_encode_frame body BRIDGE_KIND_DETECTION)"

definition decode_acknowledgement :: "(utext \<Rightarrow> exn + json) \<Rightarrow> bytes \<Rightarrow> exn + json" where
  "decode_acknowledgement loads body = bind_result (utf8_decode body) loads"

definition bridge_encode_snapshot_message :: "utext \<Rightarrow> bytes \<Rightarrow> exn + bytes" where
  "bridge_encode_snapshot_message event_id jpeg =
     bind_result (utf8_encode event_id) (\<lambda>eid.
     bind_result (to_bytes EVENT_ID_LENGTH_PREFIX_BYTES (length eid)) (\<lambda>n.
     bridge_encode_frame (n @ eid @ jpeg) BRIDGE_KIND_SNAPSHOT))"

definition bridge_decode_snapshot_message :: "bytes \<Rightarrow> exn + utext \<times> bytes" where
  "bridge_decode_snapshot_message body =
     (let n = from_bytes (take EVENT_ID_LENGTH_PREFIX_BYTES body);
          offset = EVENT_ID_LENGTH_PREFIX_BYTES
      in bind_result (utf8_decode (take n (drop offset body))) (\<lambda>event_id. Inr (event_id, drop (offset + n) body)))"

definition build_detection_message ::
  "string \<Rightarrow> int \<Rightarrow> int \<Rightarrow> int \<Rightarrow> pyfloat \<Rightarrow> pyfloat \<Rightarrow> pyfloat \<Rightarrow> pyfloat \<Rightarrow> pyfloat \<Rightarrow> json_obj"
where
  "build_detection_message message_id source_id frame_number class_id confidence bbox_left bbox_top bbox_width bbox_height =
     [(''schemaVersion'', JInt SCHEMA_VERSION), (''messageId'', JStr message_id), (''sourceId'', JInt source_id),
      (''frameNumber'', JInt frame_number), (''classId'', JInt class_id), (''confidence'', JFloat confidence),
      (''boundingBox'', JObj [(''left'', JFloat bbox_left), (''top'', JFloat bbox_top), (''width'', JFloat bbox_width),
                              (''height'', JFloat bbox_height)])]"

section \<open>probe.py\<close>

record rect_params =
  rp_left :: pyfloat
  rp_top :: pyfloat
  rp_width :: pyfloat
  rp_height :: pyfloat

record obj_meta =
  om_class_id :: int
  om_confidence :: pyfloat
  om_rect :: rect_params

record frame_meta =
  fm_source_id :: int
  fm_frame_num :: int
  fm_source_frame_width :: int
  fm_source_frame_height :: int
  fm_objects :: "obj_meta list"

record raw_detection =
  rd_schema_version :: int
  rd_message_id :: string
  rd_class_id :: int
  rd_confidence :: pyfloat
  rd_source_id :: int
  rd_frame_number :: int
  rd_frame_width :: int
  rd_frame_height :: int
  rd_bbox_left :: pyfloat
  rd_bbox_top :: pyfloat
  rd_bbox_width :: pyfloat
  rd_bbox_height :: pyfloat

definition to_wire_message :: "raw_detection \<Rightarrow> json_obj" where
  "to_wire_message d =
     build_detection_message (rd_message_id d) (rd_source_id d) (rd_frame_number d) (rd_class_id d) (rd_confidence d)
       (rd_bbox_left d) (rd_bbox_top d) (rd_bbox_width d) (rd_bbox_height d)"

text \<open>The \<open>n\<close>-th call of the message-id factory returns \<open>fresh n\<close>.\<close>

definition extract_object :: "frame_meta \<Rightarrow> string \<Rightarrow> obj_meta \<Rightarrow> raw_detection" where
  "extract_object fm message_id om =
     \<lparr>rd_schema_version = SCHEMA_VERSION, rd_message_id = message_id, rd_class_id = om_class_id om,
      rd_confidence = om_confidence om, rd_source_id = fm_source_id fm, rd_frame_number = fm_frame_num fm,
      rd_frame_width = fm_source_frame_width fm, rd_frame_height = fm_source_frame_height fm,
      rd_bbox_left = rp_left (om_rect om), rd_bbox_top = rp_top (om_rect om),
      rd_bbox_width = rp_width (om_rect om), rd_bbox_height = rp_height (om_rect om)\<rparr>"

fun extract_objects :: "(nat \<Rightarrow> string) \<Rightarrow> nat \<Rightarrow> frame_meta \<Rightarrow> obj_meta list \<Rightarrow> raw_detection list" where
  "extract_objects fresh n fm [] = []"
| "extract_objects fresh n fm (om # oms) = extract_object fm (fresh n) om # extract_objects fresh (Suc n) fm oms"

fun extract_frames :: "(nat \<Rightarrow> string) \<Rightarrow> nat \<Rightarrow> frame_meta list \<Rightarrow> raw_detection list" where
  "extract_frames fresh n [] = []"
| "extract_frames fresh n (fm # fms) =
     extract_objects fresh n fm (fm_objects fm) @ extract_frames fresh (n + length (fm_objects fm)) fms"

definition extract_detections :: "(nat \<Rightarrow> string) \<Rightarrow> frame_meta list \<Rightarrow> raw_detection list" where
  "extract_detections fresh batch = extract_frames fresh 0 batch"

text \<open>
  \<open>handle_buffer\<close> calls back into the state \<open>'s\<close> of the snapshot rendezvous and of the transport;
  \<open>None\<close> is a missing buffer or missing batch metadata.
\<close>

definition handle_buffer ::
  "(int \<Rightarrow> string \<Rightarrow> int \<Rightarrow> 's \<Rightarrow> 's) option \<Rightarrow> (json_obj \<Rightarrow> 's \<Rightarrow> 's) \<Rightarrow> (nat \<Rightarrow> string) \<Rightarrow> frame_meta list option \<Rightarrow> 's \<Rightarrow> 's"
where
  "handle_buffer on_candidate enqueue fresh batch s =
     (case batch of
        None \<Rightarrow> s
      | Some frames \<Rightarrow>
          fold (\<lambda>d s. enqueue (to_wire_message d)
                  (case on_candidate of
                     None \<Rightarrow> s
                   | Some f \<Rightarrow> f (rd_source_id d) (rd_message_id d) (rd_frame_number d) s))
            (extract_detections fresh frames) s)"

definition frame_number_from_buffer :: "frame_meta list option \<Rightarrow> int option" where
  "frame_number_from_buffer batch =
     (case batch of Some (fm # _) \<Rightarrow> Some (fm_frame_num fm) | _ \<Rightarrow> None)"

section \<open>The two copies of the protocol agree\<close>

lemma bridge_encode_frame_eq: "bridge_encode_frame = encode_frame"
  by (intro ext) (simp add: bridge_encode_frame_def encode_frame_def bridge_constants frame_constants)

lemma bridge_encode_snapshot_eq: "bridge_encode_snapshot_message = encode_snapshot_message"
  by (intro ext)
     (simp add: bridge_encode_snapshot_message_def encode_snapshot_message_def bridge_encode_frame_eq bridge_constants frame_constants)

lemma bridge_decode_snapshot_eq: "bridge_decode_snapshot_message = decode_snapshot_message"
  by (intro ext)
     (simp add: bridge_decode_snapshot_message_def decode_snapshot_message_def Let_def bridge_constants frame_constants)

text \<open>
  C32.  The Bridge and the Agent speak the same protocol, although each has its own copy of it: the frames,
  the header, the snapshot messages, the size limits and the emitted schema version agree exactly.
\<close>

theorem bridge_protocol_agrees:
  "bridge_encode_frame = encode_frame \<and> bridge_decode_frame_header = decode_frame_header
   \<and> bridge_encode_snapshot_message = encode_snapshot_message \<and> bridge_decode_snapshot_message = decode_snapshot_message
   \<and> (BRIDGE_HEADER_BYTES, BRIDGE_KIND_DETECTION, BRIDGE_KIND_SNAPSHOT, BRIDGE_KIND_ACKNOWLEDGEMENT,
      BRIDGE_MAX_FRAME_BYTES, BRIDGE_MAX_SNAPSHOT_FRAME_BYTES)
     = (FRAME_HEADER_BYTES, FRAME_KIND_DETECTION, FRAME_KIND_SNAPSHOT, FRAME_KIND_ACKNOWLEDGEMENT,
        MAX_FRAME_BYTES, MAX_SNAPSHOT_FRAME_BYTES)
   \<and> supported_version (JInt SCHEMA_VERSION) = Inr True"
  by (simp add: bridge_encode_frame_eq bridge_encode_snapshot_eq bridge_decode_snapshot_eq fun_eq_iff
      bridge_decode_frame_header_def decode_frame_header_def bridge_constants frame_constants MAX_FRAME_BYTES_def
      MAX_SNAPSHOT_FRAME_BYTES_def SCHEMA_VERSION_def supported_version_def SUPPORTED_SCHEMA_VERSIONS_def)

end
