(* ===== verification/BridgeContract.thy ===== *)
theory BridgeContract
  imports BridgeWire Ingest
begin

text \<open>
  The contract between the Bridge and the Agent: what the Agent makes of the messages of the Bridge.
\<close>

section \<open>Detections\<close>

text \<open>
  \<open>plausible minc d\<close>: the inference engine reports a confidence in range and not below the threshold, and
  a box with finite, non-negative sides whose far edges are floats too.
\<close>

definition plausible_axis :: "pyfloat \<Rightarrow> pyfloat \<Rightarrow> bool" where
  "plausible_axis start extent \<longleftrightarrow> fl_isfinite start \<and> fl_ok start \<and> \<not> fl_less start (Fin 0)
     \<and> fl_isfinite extent \<and> \<not> fl_less extent (Fin 0) \<and> fl_isfinite (fl_add start extent)"

definition plausible :: "pyfloat \<Rightarrow> raw_detection \<Rightarrow> bool" where
  "plausible minc d \<longleftrightarrow> 0 \<le> rd_source_id d \<and> 0 \<le> rd_frame_number d
     \<and> fl_isfinite (rd_confidence d) \<and> fl_le (Fin 0) (rd_confidence d) \<and> fl_le (rd_confidence d) (Fin 1)
     \<and> \<not> fl_less (rd_confidence d) minc
     \<and> plausible_axis (rd_bbox_left d) (rd_bbox_width d) \<and> plausible_axis (rd_bbox_top d) (rd_bbox_height d)"

definition flat_message :: "raw_detection \<Rightarrow> json_obj" where
  "flat_message d =
     [(''class_id'', JInt (rd_class_id d)), (''source_id'', JInt (rd_source_id d)), (''frame_number'', JInt (rd_frame_number d)),
      (''confidence'', JFloat (rd_confidence d)), (''bbox_left'', JFloat (rd_bbox_left d)), (''bbox_top'', JFloat (rd_bbox_top d)),
      (''bbox_width'', JFloat (rd_bbox_width d)), (''bbox_height'', JFloat (rd_bbox_height d))]"

lemma flat_message_equivalent:
  "validate_detection (normalized_payload (to_wire_message d)) dev cam names minc now fresh
   = validate_detection (flat_message d) dev cam names minc now fresh"
proof (rule validate_keys_cong)
  fix k assume k: "k \<in> set wire_keys"
  have "list_all (\<lambda>k. jget (normalized_payload (to_wire_message d)) k = jget (flat_message d) k) wire_keys"
    by (simp add: wire_keys_def normalized_payload_def schema_version_of_def to_wire_message_def build_detection_message_def
        flat_message_def SCHEMA_VERSION_def SNAPSHOT_PROTOCOL_SCHEMA_VERSION_def normalize_v2_payload_def jget_none_def
        jget_copy_key jget_put_unless_none Let_def)
  with k show "jget (normalized_payload (to_wire_message d)) k = jget (flat_message d) k" by (simp add: list_all_iff)
qed

lemma plausible_axis_derived:
  assumes "plausible_axis start extent"
  obtains n x where "derived_dim None start extent = Inr n" "0 < n" "clamp_start n start = Inr start"
    "clamp_extent n start extent = Inr x" "\<not> fl_less start (Fin 0)" "\<not> fl_less x (Fin 0)" "\<not> fl_less extent x"
    "\<not> fl_less (fl_exact n) (fl_add start x)"
proof -
  obtain u v where u: "start = Fin u" "0 \<le> u" "is_double u" "u \<le> max_double" and v: "extent = Fin v" "0 \<le> v"
    using assms by (auto simp: plausible_axis_def fl_isfinite_iff abs_le_iff)
  have "fl_isfinite (fl_add (Fin u) (Fin v))" using assms u(1) v(1) by (simp add: plausible_axis_def)
  then obtain n b where "derived_dim None (Fin u) (Fin v) = Inr n" "0 < n" "clamp_start n (Fin u) = Inr (Fin u)"
    "clamp_extent n (Fin u) (Fin v) = Inr (Fin b)" "0 \<le> b" "b \<le> v" "\<not> fl_less (fl_exact n) (fl_add (Fin u) (Fin b))"
    using axis_derived [OF u(2-4) v(2)] by blast
  then show ?thesis using that [of n "Fin b"] u v by simp
qed

text \<open>
  The box is clamped to the frame the Agent derives from it, which rounding may make a little smaller than the
  box.  When the extent and the far edge are floats nothing is cut off.
\<close>

definition exact_edge :: "pyfloat \<Rightarrow> pyfloat \<Rightarrow> bool" where
  "exact_edge start extent \<longleftrightarrow>
     (case (start, extent) of (Fin u, Fin v) \<Rightarrow> is_double v \<and> is_double (u + v) | _ \<Rightarrow> False)"

lemma exact_edge_extent:
  assumes "plausible_axis start extent" and "exact_edge start extent"
    and "derived_dim None start extent = Inr n" and "clamp_extent n start extent = Inr x"
  shows "x = extent"
proof -
  obtain u v where u: "start = Fin u" "0 \<le> u" and v: "extent = Fin v" "0 \<le> v"
    using assms(1) by (auto simp: plausible_axis_def fl_isfinite_iff)
  have d: "is_double v" "is_double (u + v)" using assms(2) by (simp_all add: exact_edge_def u v)
  have "fl_isfinite (fl_round (u + v))" using assms(1) by (simp add: plausible_axis_def u v)
  then have sum: "fl_round (u + v) = Fin (u + v)" and top: "u + v \<le> max_double"
    using d(2) by (auto simp: fl_isfinite_iff fl_round_Fin_iff is_double_def)
  have n: "n = max 1 \<lceil>u + v\<rceil>" using assms(3) by (simp add: derived_dim_def u v sum)
  have "float_of_int n = Inr (Fin (of_int n))"
    unfolding n by (rule float_of_ceiling) (use d(2) top u v in \<open>simp_all add: is_double_def\<close>)
  then have x: "x = fl_min (Fin v) (fl_round (of_int n - u))" using assms(4) by (simp add: clamp_extent_def u v fl_sub_def)
  have "v \<le> of_int n - u" unfolding n by linarith
  then have "v \<le> rnd (of_int n - u)" using rnd_mono [of v "of_int n - u"] d(1) by (simp add: is_double_def)
  then show ?thesis
    using v(2) max_double_pos unfolding x v(1) by (auto simp: fl_min_def fl_round_def Let_def)
qed

lemma plausible_validates:
  assumes "plausible minc d" and "names (rd_class_id d) = Some cls" and "has_tz now"
  obtains e where "validate_detection (flat_message d) dev cam names minc now fresh = Inr (Inr e)"
    "de_class_id e = rd_class_id d" "de_class_name e = cls" "de_source_id e = rd_source_id d"
    "de_frame_number e = rd_frame_number d" "de_confidence e = rd_confidence d"
    "de_bbox_left e = rd_bbox_left d" "de_bbox_top e = rd_bbox_top d"
    "\<not> fl_less (rd_bbox_width d) (de_bbox_width e)" "\<not> fl_less (rd_bbox_height d) (de_bbox_height e)"
    "derived_dim None (rd_bbox_left d) (rd_bbox_width d) = Inr (de_frame_width e)"
    "derived_dim None (rd_bbox_top d) (rd_bbox_height d) = Inr (de_frame_height e)"
    "clamp_extent (de_frame_width e) (rd_bbox_left d) (rd_bbox_width d) = Inr (de_bbox_width e)"
    "clamp_extent (de_frame_height e) (rd_bbox_top d) (rd_bbox_height d) = Inr (de_bbox_height e)"
    "de_device_id e = dev" "de_camera_id e = cam" "de_event_id e = fresh"
proof -
  have ax: "plausible_axis (rd_bbox_left d) (rd_bbox_width d)" "plausible_axis (rd_bbox_top d) (rd_bbox_height d)"
    using assms(1) by (simp_all add: plausible_def)
  obtain n x where n: "derived_dim None (rd_bbox_left d) (rd_bbox_width d) = Inr n" "0 < n"
    "clamp_start n (rd_bbox_left d) = Inr (rd_bbox_left d)" "clamp_extent n (rd_bbox_left d) (rd_bbox_width d) = Inr x"
    "\<not> fl_less (rd_bbox_left d) (Fin 0)" "\<not> fl_less x (Fin 0)" "\<not> fl_less (rd_bbox_width d) x"
    "\<not> fl_less (fl_exact n) (fl_add (rd_bbox_left d) x)"
    using plausible_axis_derived [OF ax(1)] by blast
  obtain m y where m: "derived_dim None (rd_bbox_top d) (rd_bbox_height d) = Inr m" "0 < m"
    "clamp_start m (rd_bbox_top d) = Inr (rd_bbox_top d)" "clamp_extent m (rd_bbox_top d) (rd_bbox_height d) = Inr y"
    "\<not> fl_less (rd_bbox_top d) (Fin 0)" "\<not> fl_less y (Fin 0)" "\<not> fl_less (rd_bbox_height d) y"
    "\<not> fl_less (fl_exact m) (fl_add (rd_bbox_top d) y)"
    using plausible_axis_derived [OF ax(2)] by blast
  let ?e = "\<lparr>de_event_id = fresh, de_device_id = dev, de_camera_id = cam, de_source_id = rd_source_id d,
     de_class_id = rd_class_id d, de_class_name = cls, de_confidence = rd_confidence d, de_frame_number = rd_frame_number d,
     de_detected_at_utc = now, de_frame_width = n, de_frame_height = m, de_bbox_left = rd_bbox_left d,
     de_bbox_top = rd_bbox_top d, de_bbox_width = x, de_bbox_height = y, de_created_at_utc = None\<rparr>"
  have f: "int_field (flat_message d) ''class_id'' = Inr (rd_class_id d)"
    "int_field (flat_message d) ''source_id'' = Inr (rd_source_id d)"
    "int_field (flat_message d) ''frame_number'' = Inr (rd_frame_number d)"
    "optional_int_field (flat_message d) ''frame_width'' = Inr None"
    "optional_int_field (flat_message d) ''frame_height'' = Inr None"
    "float_field (flat_message d) ''confidence'' = Inr (rd_confidence d)"
    "float_field (flat_message d) ''bbox_left'' = Inr (rd_bbox_left d)"
    "float_field (flat_message d) ''bbox_top'' = Inr (rd_bbox_top d)"
    "float_field (flat_message d) ''bbox_width'' = Inr (rd_bbox_width d)"
    "float_field (flat_message d) ''bbox_height'' = Inr (rd_bbox_height d)"
    using assms(1) by (simp_all add: flat_message_def outcome_simps float_field_Inr float_value_def plausible_def plausible_axis_def)
  have "detection_event_ok ?e" using n m assms(1,3) by (simp add: detection_event_ok_def plausible_def)
  then have mk: "mk_detection_event ?e = Inr ?e" by (simp add: mk_detection_event_cases)
  have "validate_body (flat_message d) dev cam names minc now fresh = Inr ?e"
    using assms n(1,3,4,5) m(1,3,4,5) unfolding validate_body_def f
    by (simp add: plausible_def plausible_axis_def reject_if_def not_less [symmetric] mk raising_def)
  then have "validate_detection (flat_message d) dev cam names minc now fresh = Inr (Inr ?e)"
    by (simp add: validate_detection_event)
  from that [OF this] n m show ?thesis by simp
qed

text \<open>
  C24.  What the Bridge reports the Agent accepts.  The wire message of every detection with plausible values
  and a known class validates, with the class, source, frame, confidence and position the inference
  engine reported and the identity the Agent supplied.  The message names no frame size the Agent reads, so the frame
  is the one that holds the box, and the box is the one reported, clamped to it: never larger, and the very
  same when its extents and its far edges are floats.
\<close>

theorem bridge_detection_accepted:
  assumes "plausible minc d" and "names (rd_class_id d) = Some cls" and "has_tz now"
  shows "\<exists>e. validate_detection (normalized_payload (to_wire_message d)) dev cam names minc now fresh = Inr (Inr e)
    \<and> (de_class_id e, de_class_name e, de_source_id e, de_frame_number e, de_confidence e)
        = (rd_class_id d, cls, rd_source_id d, rd_frame_number d, rd_confidence d)
    \<and> (de_bbox_left e, de_bbox_top e) = (rd_bbox_left d, rd_bbox_top d)
    \<and> derived_dim None (rd_bbox_left d) (rd_bbox_width d) = Inr (de_frame_width e)
    \<and> derived_dim None (rd_bbox_top d) (rd_bbox_height d) = Inr (de_frame_height e)
    \<and> clamp_extent (de_frame_width e) (rd_bbox_left d) (rd_bbox_width d) = Inr (de_bbox_width e)
    \<and> clamp_extent (de_frame_height e) (rd_bbox_top d) (rd_bbox_height d) = Inr (de_bbox_height e)
    \<and> \<not> fl_less (rd_bbox_width d) (de_bbox_width e) \<and> \<not> fl_less (rd_bbox_height d) (de_bbox_height e)
    \<and> (exact_edge (rd_bbox_left d) (rd_bbox_width d) \<longrightarrow> de_bbox_width e = rd_bbox_width d)
    \<and> (exact_edge (rd_bbox_top d) (rd_bbox_height d) \<longrightarrow> de_bbox_height e = rd_bbox_height d)
    \<and> (de_event_id e, de_device_id e, de_camera_id e) = (fresh, dev, cam)"
proof -
  have ax: "plausible_axis (rd_bbox_left d) (rd_bbox_width d)" "plausible_axis (rd_bbox_top d) (rd_bbox_height d)"
    using assms(1) by (simp_all add: plausible_def)
  obtain e where "validate_detection (flat_message d) dev cam names minc now fresh = Inr (Inr e)"
    "de_class_id e = rd_class_id d" "de_class_name e = cls" "de_source_id e = rd_source_id d"
    "de_frame_number e = rd_frame_number d" "de_confidence e = rd_confidence d"
    "de_bbox_left e = rd_bbox_left d" "de_bbox_top e = rd_bbox_top d"
    "\<not> fl_less (rd_bbox_width d) (de_bbox_width e)" "\<not> fl_less (rd_bbox_height d) (de_bbox_height e)"
    "derived_dim None (rd_bbox_left d) (rd_bbox_width d) = Inr (de_frame_width e)"
    "derived_dim None (rd_bbox_top d) (rd_bbox_height d) = Inr (de_frame_height e)"
    "clamp_extent (de_frame_width e) (rd_bbox_left d) (rd_bbox_width d) = Inr (de_bbox_width e)"
    "clamp_extent (de_frame_height e) (rd_bbox_top d) (rd_bbox_height d) = Inr (de_bbox_height e)"
    "de_device_id e = dev" "de_camera_id e = cam" "de_event_id e = fresh"
    using assms by (rule plausible_validates)
  then show ?thesis using exact_edge_extent [OF ax(1)] exact_edge_extent [OF ax(2)] by (auto simp: flat_message_equivalent)
qed

definition demo_raw_detection :: raw_detection where
  "demo_raw_detection = \<lparr>rd_schema_version = 2, rd_message_id = ''m'', rd_class_id = 0, rd_confidence = Fin 1,
     rd_source_id = 1, rd_frame_number = 42, rd_frame_width = 1920, rd_frame_height = 1080,
     rd_bbox_left = Fin 10, rd_bbox_top = Fin 20, rd_bbox_width = Fin 30, rd_bbox_height = Fin 40\<rparr>"

lemma demo_plausible: "plausible (Fin 0) demo_raw_detection"
proof -
  have small: "fl_round (of_int n) = Fin (of_int n) \<and> fl_ok (Fin (of_int n))" if "\<bar>n\<bar> \<le> 2 ^ 52" for n
    using float_of_int_small [of n] that float_of_int_ok [of n] by (simp add: float_of_int_Inr)
  have "fl_round 40 = Fin 40" "fl_round 60 = Fin 60" "fl_ok (Fin 10)" "fl_ok (Fin 20)"
    using small [of 40] small [of 60] small [of 10] small [of 20] by simp_all
  then show ?thesis by (simp add: plausible_def plausible_axis_def demo_raw_detection_def)
qed

theorem bridge_detection_accepted_witness:
  "\<exists>e. validate_detection (normalized_payload (to_wire_message demo_raw_detection)) ''dev'' ''cam'' (\<lambda>_. Some ''gun'') (Fin 0) (Aware 7) 5
     = Inr (Inr e) \<and> de_frame_number e = 42 \<and> de_bbox_width e = Fin 30 \<and> de_bbox_height e = Fin 40"
proof -
  have "exact_edge (rd_bbox_left demo_raw_detection) (rd_bbox_width demo_raw_detection)"
    "exact_edge (rd_bbox_top demo_raw_detection) (rd_bbox_height demo_raw_detection)"
    using is_double_int [of 30] is_double_int [of 40] is_double_int [of 60]
    by (simp_all add: exact_edge_def demo_raw_detection_def)
  note edges = this [unfolded demo_raw_detection_def]
  from bridge_detection_accepted [OF demo_plausible, of "\<lambda>_. Some ''gun''" "''gun''" "Aware 7" "''dev''" "''cam''" 5]
  show ?thesis using edges by (auto simp: demo_raw_detection_def)
qed

end
