(* ===== verification/Schema.thy ===== *)
theory Schema
  imports Database
begin

text \<open>
  \<^verbatim>\<open>persistence/schema.py\<close>: the versions of the database schema and the migrations between them.

  The statements the module executes are values of the datatype \<open>statement\<close>, transcribed from its SQL, and
  \<open>exec_statement\<close> is what SQLite does with them: tables with their column constraints, \<^verbatim>\<open>CHECK\<close>s in
  three-valued logic, primary keys, references and indexes.  Type affinity is left out, because the
  migrations copy a column only to a column of the same type.
\<close>

section \<open>The part of SQL the module uses\<close>

datatype cell = SqlNull | SqlInt int | SqlReal pyfloat | SqlText string

type_synonym row = "(string \<times> cell) list"

datatype check_expr =
    IsInt string int
  | OneOf string "string list"
  | IsNull string
  | IsNotNull string
  | AndExpr check_expr check_expr
  | OrExpr check_expr check_expr

record column =
  cd_name :: string
  cd_not_null :: bool
  cd_default :: cell

text \<open>\<open>td_key\<close> is the primary key; a reference names a column and the table and column it points at.\<close>

record table_def =
  td_columns :: "column list"
  td_key :: "string option"
  td_checks :: "check_expr list"
  td_references :: "(string \<times> string \<times> string) list"

record table =
  tb_def :: table_def
  tb_rows :: "row list"

record database =
  db_tables :: "(string \<times> table) list"
  db_indexes :: "(string \<times> string \<times> string list) list"

datatype select_item = Column string | Literal cell

datatype statement =
    CreateTable bool string table_def
  | InsertValues string "string list" "cell list"
  | InsertSelect string "string list" "select_item list" string
  | DropTable string
  | RenameTable string string
  | CreateIndex string string "string list"
  | UpdateAll string string cell

definition cell_of :: "row \<Rightarrow> string \<Rightarrow> cell" where
  "cell_of r c = (case map_of r c of Some v \<Rightarrow> v | None \<Rightarrow> SqlNull)"

text \<open>The value of an expression, \<open>None\<close> for \<^verbatim>\<open>NULL\<close>; a \<^verbatim>\<open>CHECK\<close> fails only on false.\<close>

fun and3 :: "bool option \<Rightarrow> bool option \<Rightarrow> bool option" where
  "and3 (Some False) _ = Some False"
| "and3 _ (Some False) = Some False"
| "and3 (Some True) (Some True) = Some True"
| "and3 _ _ = None"

fun or3 :: "bool option \<Rightarrow> bool option \<Rightarrow> bool option" where
  "or3 (Some True) _ = Some True"
| "or3 _ (Some True) = Some True"
| "or3 (Some False) (Some False) = Some False"
| "or3 _ _ = None"

fun check_value :: "check_expr \<Rightarrow> row \<Rightarrow> bool option" where
  "check_value (IsInt c n) r = (if cell_of r c = SqlNull then None else Some (cell_of r c = SqlInt n))"
| "check_value (OneOf c xs) r = (if cell_of r c = SqlNull then None else Some (cell_of r c \<in> SqlText ` set xs))"
| "check_value (IsNull c) r = Some (cell_of r c = SqlNull)"
| "check_value (IsNotNull c) r = Some (cell_of r c \<noteq> SqlNull)"
| "check_value (AndExpr x y) r = and3 (check_value x r) (check_value y r)"
| "check_value (OrExpr x y) r = or3 (check_value x r) (check_value y r)"

definition row_ok :: "table_def \<Rightarrow> row \<Rightarrow> bool" where
  "row_ok d r \<longleftrightarrow> list_all (\<lambda>c. cd_not_null c \<longrightarrow> cell_of r (cd_name c) \<noteq> SqlNull) (td_columns d)
     \<and> list_all (\<lambda>e. check_value e r \<noteq> Some False) (td_checks d)"

text \<open>A key may be \<^verbatim>\<open>NULL\<close> in any number of rows.\<close>

definition key_free :: "table_def \<Rightarrow> row \<Rightarrow> row list \<Rightarrow> bool" where
  "key_free d r rows \<longleftrightarrow>
     (case td_key d of
        None \<Rightarrow> True
      | Some k \<Rightarrow> cell_of r k = SqlNull \<or> list_all (\<lambda>r'. cell_of r' k \<noteq> cell_of r k) rows)"

definition references_ok :: "(string \<times> table) list \<Rightarrow> table_def \<Rightarrow> row \<Rightarrow> bool" where
  "references_ok tables d r \<longleftrightarrow>
     list_all (\<lambda>(c, parent, k). cell_of r c = SqlNull
         \<or> (case map_of tables parent of
              None \<Rightarrow> False
            | Some p \<Rightarrow> list_ex (\<lambda>r'. cell_of r' k = cell_of r c) (tb_rows p)))
       (td_references d)"

definition insert_row :: "bool \<Rightarrow> (string \<times> table) list \<Rightarrow> row \<Rightarrow> table \<Rightarrow> exn + table" where
  "insert_row foreign_keys tables r t =
     (if \<not> row_ok (tb_def t) r then Inl (SqliteIntegrityError ''constraint failed'')
      else if \<not> key_free (tb_def t) r (tb_rows t) then Inl (SqliteIntegrityError ''UNIQUE constraint failed'')
      else if foreign_keys \<and> \<not> references_ok tables (tb_def t) r
      then Inl (SqliteIntegrityError ''FOREIGN KEY constraint failed'')
      else Inr (t\<lparr>tb_rows := tb_rows t @ [r]\<rparr>))"

fun insert_rows :: "bool \<Rightarrow> (string \<times> table) list \<Rightarrow> row list \<Rightarrow> table \<Rightarrow> exn + table" where
  "insert_rows foreign_keys tables [] t = Inr t"
| "insert_rows foreign_keys tables (r # rs) t =
     bind_result (insert_row foreign_keys tables r t) (insert_rows foreign_keys tables rs)"

text \<open>The row stored for the named columns and their values: the other columns get their default.\<close>

definition complete_row :: "table_def \<Rightarrow> string list \<Rightarrow> cell list \<Rightarrow> row" where
  "complete_row d cols vs =
     map (\<lambda>c. (cd_name c, case map_of (zip cols vs) (cd_name c) of Some v \<Rightarrow> v | None \<Rightarrow> cd_default c)) (td_columns d)"

fun select_value :: "row \<Rightarrow> select_item \<Rightarrow> cell" where
  "select_value r (Column c) = cell_of r c"
| "select_value r (Literal v) = v"

text \<open>The columns a statement names must exist in the table.\<close>

definition has_columns :: "table_def \<Rightarrow> string list \<Rightarrow> bool" where
  "has_columns d cols \<longleftrightarrow> list_all (\<lambda>c. c \<in> cd_name ` set (td_columns d)) cols"

definition selected :: "select_item list \<Rightarrow> string list" where
  "selected items = concat (map (\<lambda>i. case i of Column c \<Rightarrow> [c] | Literal _ \<Rightarrow> []) items)"

fun replace_table :: "string \<Rightarrow> table \<Rightarrow> (string \<times> table) list \<Rightarrow> (string \<times> table) list" where
  "replace_table n t [] = []"
| "replace_table n t ((m, u) # ts) = (if m = n then (m, t) # ts else (m, u) # replace_table n t ts)"

text \<open>
  With foreign keys enforced, dropping a table first deletes its rows, which fails when a row of another
  table refers to one of them.  Renaming a table renames the references to it and keeps its indexes.
\<close>

definition still_referenced :: "string \<Rightarrow> table \<Rightarrow> (string \<times> table) list \<Rightarrow> bool" where
  "still_referenced n t tables \<longleftrightarrow>
     list_ex (\<lambda>(m, child). m \<noteq> n \<and>
       list_ex (\<lambda>(c, parent, k). parent = n \<and>
         list_ex (\<lambda>r. cell_of r c \<noteq> SqlNull \<and> list_ex (\<lambda>r'. cell_of r' k = cell_of r c) (tb_rows t)) (tb_rows child))
       (td_references (tb_def child))) tables"

definition retarget :: "string \<Rightarrow> string \<Rightarrow> table \<Rightarrow> table" where
  "retarget old new t = t\<lparr>tb_def := (tb_def t)\<lparr>td_references :=
     map (\<lambda>(c, parent, k). (c, if parent = old then new else parent, k)) (td_references (tb_def t))\<rparr>\<rparr>"

fun set_cell :: "string \<Rightarrow> cell \<Rightarrow> row \<Rightarrow> row" where
  "set_cell c v [] = []"
| "set_cell c v ((d, u) # r) = (if d = c then (d, v) # r else (d, u) # set_cell c v r)"

definition with_table :: "string \<Rightarrow> database \<Rightarrow> (table \<Rightarrow> exn + 'a) \<Rightarrow> exn + 'a" where
  "with_table n db f = (case map_of (db_tables db) n of None \<Rightarrow> Inl SqliteError | Some t \<Rightarrow> f t)"

fun exec_statement :: "bool \<Rightarrow> statement \<Rightarrow> database \<Rightarrow> exn + database" where
  "exec_statement fk (CreateTable if_not_exists n d) db =
     (if n \<in> fst ` set (db_tables db) then if if_not_exists then Inr db else Inl SqliteError
      else Inr (db\<lparr>db_tables := db_tables db @ [(n, \<lparr>tb_def = d, tb_rows = []\<rparr>)]\<rparr>))"
| "exec_statement fk (InsertValues n cols vs) db =
     with_table n db (\<lambda>t.
       if \<not> has_columns (tb_def t) cols then Inl SqliteError
       else bind_result (insert_rows fk (db_tables db) [complete_row (tb_def t) cols vs] t)
              (\<lambda>t. Inr (db\<lparr>db_tables := replace_table n t (db_tables db)\<rparr>)))"
| "exec_statement fk (InsertSelect n cols items source) db =
     with_table source db (\<lambda>s. with_table n db (\<lambda>t.
       if \<not> has_columns (tb_def t) cols \<or> \<not> has_columns (tb_def s) (selected items) then Inl SqliteError
       else bind_result
              (insert_rows fk (db_tables db)
                (map (\<lambda>r. complete_row (tb_def t) cols (map (select_value r) items)) (tb_rows s)) t)
              (\<lambda>t. Inr (db\<lparr>db_tables := replace_table n t (db_tables db)\<rparr>))))"
| "exec_statement fk (DropTable n) db =
     with_table n db (\<lambda>t.
       if fk \<and> still_referenced n t (db_tables db) then Inl (SqliteIntegrityError ''FOREIGN KEY constraint failed'')
       else Inr (db\<lparr>db_tables := filter (\<lambda>(m, _). m \<noteq> n) (db_tables db),
                    db_indexes := filter (\<lambda>(_, m, _). m \<noteq> n) (db_indexes db)\<rparr>))"
| "exec_statement fk (RenameTable n m) db =
     with_table n db (\<lambda>t.
       if m \<in> fst ` set (db_tables db) then Inl SqliteError
       else Inr (db\<lparr>db_tables := map (\<lambda>(k, t). (if k = n then m else k, retarget n m t)) (db_tables db),
                    db_indexes := map (\<lambda>(i, k, cols). (i, if k = n then m else k, cols)) (db_indexes db)\<rparr>))"
| "exec_statement fk (CreateIndex i n cols) db =
     (if i \<in> fst ` set (db_indexes db) then Inr db
      else with_table n db (\<lambda>t.
        if has_columns (tb_def t) cols then Inr (db\<lparr>db_indexes := db_indexes db @ [(i, n, cols)]\<rparr>)
        else Inl SqliteError))"
| "exec_statement fk (UpdateAll n c v) db =
     with_table n db (\<lambda>t.
       if \<not> has_columns (tb_def t) [c] then Inl SqliteError
       else if list_all (row_ok (tb_def t)) (map (set_cell c v) (tb_rows t))
       then Inr (db\<lparr>db_tables := replace_table n (t\<lparr>tb_rows := map (set_cell c v) (tb_rows t)\<rparr>) (db_tables db)\<rparr>)
       else Inl (SqliteIntegrityError ''constraint failed''))"

fun exec_statements :: "bool \<Rightarrow> statement list \<Rightarrow> database \<Rightarrow> exn + database" where
  "exec_statements fk [] db = Inr db"
| "exec_statements fk (s # ss) db = bind_result (exec_statement fk s db) (exec_statements fk ss)"

section \<open>The tables\<close>

definition required :: "string \<Rightarrow> column" where
  "required n = \<lparr>cd_name = n, cd_not_null = True, cd_default = SqlNull\<rparr>"

definition nullable :: "string \<Rightarrow> column" where
  "nullable n = \<lparr>cd_name = n, cd_not_null = False, cd_default = SqlNull\<rparr>"

definition defaulted :: "string \<Rightarrow> cell \<Rightarrow> column" where
  "defaulted n v = \<lparr>cd_name = n, cd_not_null = True, cd_default = v\<rparr>"

definition plain_table :: "column list \<Rightarrow> table_def" where
  "plain_table cols = \<lparr>td_columns = cols, td_key = None, td_checks = [], td_references = []\<rparr>"

definition schema_version_ddl :: table_def where
  "schema_version_ddl = plain_table [required ''Version'']"

text \<open>An \<^verbatim>\<open>INTEGER PRIMARY KEY\<close> is never \<^verbatim>\<open>NULL\<close>.\<close>

definition device_identity_v1_ddl :: table_def where
  "device_identity_v1_ddl =
     \<lparr>td_columns = [required ''SingletonGuard'', required ''DeviceId'', required ''ProtectedSharedSecret'',
        required ''ActivatedAt'', required ''LastActivatedAt''],
      td_key = Some ''SingletonGuard'', td_checks = [IsInt ''SingletonGuard'' 1], td_references = []\<rparr>"

definition config_cache_ddl :: table_def where
  "config_cache_ddl =
     \<lparr>td_columns = [required ''SingletonGuard'', required ''ConfigJson'', required ''UpdatedAt''],
      td_key = Some ''SingletonGuard'', td_checks = [IsInt ''SingletonGuard'' 1], td_references = []\<rparr>"

definition device_identity_v2_ddl :: table_def where
  "device_identity_v2_ddl =
     \<lparr>td_columns = [required ''SingletonGuard'', required ''DeviceId'', nullable ''ProtectedSharedSecret'',
        required ''ActivatedAt'', required ''LastActivatedAt'', required ''OperationalState''],
      td_key = Some ''SingletonGuard'',
      td_checks = [IsInt ''SingletonGuard'' 1, OneOf ''OperationalState'' [''Operational'', ''ReactivationRequired''],
        OrExpr (AndExpr (OneOf ''OperationalState'' [''Operational'']) (IsNotNull ''ProtectedSharedSecret''))
               (AndExpr (OneOf ''OperationalState'' [''ReactivationRequired'']) (IsNull ''ProtectedSharedSecret''))],
      td_references = []\<rparr>"

definition event_columns :: "string list" where
  "event_columns =
     [''EventId'', ''DeviceId'', ''CameraId'', ''SourceId'', ''ClassId'', ''ClassName'', ''Confidence'', ''FrameNumber'',
      ''DetectedAtUtc'', ''FrameWidth'', ''FrameHeight'', ''BboxLeft'', ''BboxTop'', ''BboxWidth'', ''BboxHeight'',
      ''DeliveryStatus'']"

definition detection_event_table :: "column list \<Rightarrow> string list \<Rightarrow> table_def" where
  "detection_event_table extra statuses =
     \<lparr>td_columns =
        [nullable ''EventId'', required ''DeviceId'', required ''CameraId'', required ''SourceId'', required ''ClassId'',
         required ''ClassName'', required ''Confidence'', required ''FrameNumber'', required ''DetectedAtUtc'',
         required ''FrameWidth'', required ''FrameHeight'', required ''BboxLeft'', required ''BboxTop'',
         required ''BboxWidth'', required ''BboxHeight'', defaulted ''DeliveryStatus'' (SqlText ''pending'')]
        @ extra @ [required ''CreatedAtUtc''],
      td_key = Some ''EventId'', td_checks = [OneOf ''DeliveryStatus'' statuses], td_references = []\<rparr>"

definition detection_event_v3_ddl :: table_def where
  "detection_event_v3_ddl = detection_event_table [] [''pending'', ''delivered'']"

definition detection_event_v4_ddl :: table_def where
  "detection_event_v4_ddl = detection_event_table [nullable ''DeliveredAtUtc''] [''pending'', ''delivered'']"

definition detection_event_v6_ddl :: table_def where
  "detection_event_v6_ddl =
     detection_event_table [nullable ''DeliveredAtUtc'', nullable ''FinalizedAtUtc''] [''pending'', ''delivered'', ''suppressed_by_quota'']"

definition outbox_columns :: "string list" where
  "outbox_columns =
     [''EventId'', ''LocalPath'', ''CaptureStatus'', ''UploadStatus'', ''BackendAlertId'', ''ContentType'', ''SizeBytes'',
      ''Sha256'', ''CapturedAtUtc'', ''UploadedAtUtc'', ''AttemptCount'', ''LastAttemptAtUtc'', ''LastErrorCategory'']"

definition outbox_table :: "string list \<Rightarrow> table_def" where
  "outbox_table statuses =
     \<lparr>td_columns =
        [nullable ''EventId'', required ''LocalPath'', required ''CaptureStatus'',
         defaulted ''UploadStatus'' (SqlText ''pending''), nullable ''BackendAlertId'', required ''ContentType'',
         required ''SizeBytes'', required ''Sha256'', required ''CapturedAtUtc'', nullable ''UploadedAtUtc'',
         defaulted ''AttemptCount'' (SqlInt 0), nullable ''LastAttemptAtUtc'', nullable ''LastErrorCategory''],
      td_key = Some ''EventId'',
      td_checks = [OneOf ''CaptureStatus'' [''captured'', ''capture_failed''], OneOf ''UploadStatus'' statuses],
      td_references = [(''EventId'', ''DetectionEvent'', ''EventId'')]\<rparr>"

definition snapshot_outbox_v5_ddl :: table_def where
  "snapshot_outbox_v5_ddl = outbox_table [''pending'', ''uploaded'']"

definition snapshot_outbox_v6_ddl :: table_def where
  "snapshot_outbox_v6_ddl = outbox_table [''pending'', ''uploaded'', ''suppressed_by_quota'']"

definition create_event_index :: statement where
  "create_event_index =
     CreateIndex ''idx_detection_event_delivery_status_created_at_utc'' ''DetectionEvent'' [''DeliveryStatus'', ''CreatedAtUtc'']"

definition create_outbox_index :: statement where
  "create_outbox_index =
     CreateIndex ''idx_snapshot_outbox_upload_status_captured_at_utc'' ''SnapshotOutbox'' [''UploadStatus'', ''CapturedAtUtc'']"

section \<open>The statements\<close>

definition SCHEMA_V1_STATEMENTS :: "statement list" where
  "SCHEMA_V1_STATEMENTS =
     [CreateTable True ''SchemaVersion'' schema_version_ddl, CreateTable True ''DeviceIdentity'' device_identity_v1_ddl,
      CreateTable True ''ConfigCache'' config_cache_ddl]"

definition MIGRATION_V1_TO_V2_STATEMENTS :: "statement list" where
  "MIGRATION_V1_TO_V2_STATEMENTS =
     [CreateTable False ''DeviceIdentity_v2'' device_identity_v2_ddl,
      InsertSelect ''DeviceIdentity_v2''
        [''SingletonGuard'', ''DeviceId'', ''ProtectedSharedSecret'', ''ActivatedAt'', ''LastActivatedAt'', ''OperationalState'']
        [Column ''SingletonGuard'', Column ''DeviceId'', Column ''ProtectedSharedSecret'', Column ''ActivatedAt'',
         Column ''LastActivatedAt'', Literal (SqlText ''Operational'')]
        ''DeviceIdentity'',
      DropTable ''DeviceIdentity'', RenameTable ''DeviceIdentity_v2'' ''DeviceIdentity'',
      UpdateAll ''SchemaVersion'' ''Version'' (SqlInt 2)]"

definition DETECTION_EVENT_V3_STATEMENTS :: "statement list" where
  "DETECTION_EVENT_V3_STATEMENTS = [CreateTable True ''DetectionEvent'' detection_event_v3_ddl, create_event_index]"

definition MIGRATION_V2_TO_V3_STATEMENTS :: "statement list" where
  "MIGRATION_V2_TO_V3_STATEMENTS =
     DETECTION_EVENT_V3_STATEMENTS @ [UpdateAll ''SchemaVersion'' ''Version'' (SqlInt 3)]"

definition MIGRATION_V3_TO_V4_STATEMENTS :: "statement list" where
  "MIGRATION_V3_TO_V4_STATEMENTS =
     [CreateTable False ''DetectionEvent_v4'' detection_event_v4_ddl,
      InsertSelect ''DetectionEvent_v4'' (event_columns @ [''DeliveredAtUtc'', ''CreatedAtUtc''])
        (map Column event_columns @ [Literal SqlNull, Column ''CreatedAtUtc'']) ''DetectionEvent'',
      DropTable ''DetectionEvent'', RenameTable ''DetectionEvent_v4'' ''DetectionEvent'', create_event_index,
      UpdateAll ''SchemaVersion'' ''Version'' (SqlInt 4)]"

definition SNAPSHOT_OUTBOX_V5_STATEMENTS :: "statement list" where
  "SNAPSHOT_OUTBOX_V5_STATEMENTS = [CreateTable True ''SnapshotOutbox'' snapshot_outbox_v5_ddl, create_outbox_index]"

definition MIGRATION_V4_TO_V5_STATEMENTS :: "statement list" where
  "MIGRATION_V4_TO_V5_STATEMENTS =
     SNAPSHOT_OUTBOX_V5_STATEMENTS @ [UpdateAll ''SchemaVersion'' ''Version'' (SqlInt 5)]"

definition MIGRATION_V5_TO_V6_STATEMENTS :: "statement list" where
  "MIGRATION_V5_TO_V6_STATEMENTS =
     [CreateTable False ''DetectionEvent_v6'' detection_event_v6_ddl,
      InsertSelect ''DetectionEvent_v6'' (event_columns @ [''DeliveredAtUtc'', ''FinalizedAtUtc'', ''CreatedAtUtc''])
        (map Column event_columns @ [Column ''DeliveredAtUtc'', Literal SqlNull, Column ''CreatedAtUtc'']) ''DetectionEvent'',
      DropTable ''DetectionEvent'', RenameTable ''DetectionEvent_v6'' ''DetectionEvent'', create_event_index,
      CreateTable False ''SnapshotOutbox_v6'' snapshot_outbox_v6_ddl,
      InsertSelect ''SnapshotOutbox_v6'' outbox_columns (map Column outbox_columns) ''SnapshotOutbox'',
      DropTable ''SnapshotOutbox'', RenameTable ''SnapshotOutbox_v6'' ''SnapshotOutbox'', create_outbox_index,
      UpdateAll ''SchemaVersion'' ''Version'' (SqlInt 6)]"

section \<open>Initialisation\<close>

text \<open>An open connection: the database, and whether foreign keys are enforced.\<close>

record connection =
  cn_database :: database
  cn_foreign_keys :: bool

definition CURRENT_SCHEMA_VERSION :: int where "CURRENT_SCHEMA_VERSION = 6"

definition read_schema_version :: "fault \<Rightarrow> connection \<Rightarrow> exn + int option" where
  "read_schema_version fault c =
     read_only fault (\<lambda>c.
       case map_of (db_tables (cn_database c)) ''SchemaVersion'' of
         None \<Rightarrow> Inr None
       | Some t \<Rightarrow>
           (case tb_rows t of
              [r] \<Rightarrow>
                (case cell_of r ''Version'' of
                   SqlInt n \<Rightarrow> if n < 1 then Inl InvalidSchemaStateError else Inr (Some n)
                 | _ \<Rightarrow> Inl InvalidSchemaStateError)
            | _ \<Rightarrow> Inl InvalidSchemaStateError)) c"

definition run_statements :: "fault \<Rightarrow> statement list \<Rightarrow> connection \<Rightarrow> (exn + unit) \<times> connection" where
  "run_statements fault ss =
     transaction fault (\<lambda>c.
       bind_result (exec_statements (cn_foreign_keys c) ss (cn_database c)) (\<lambda>db. Inr ((), c\<lparr>cn_database := db\<rparr>)))"

definition apply_version_1 :: "fault \<Rightarrow> connection \<Rightarrow> (exn + unit) \<times> connection" where
  "apply_version_1 fault =
     run_statements fault (SCHEMA_V1_STATEMENTS @ [InsertValues ''SchemaVersion'' [''Version''] [SqlInt 1]])"

definition migrate_v1_to_v2 :: "fault \<Rightarrow> connection \<Rightarrow> (exn + unit) \<times> connection" where
  "migrate_v1_to_v2 fault = run_statements fault MIGRATION_V1_TO_V2_STATEMENTS"

definition migrate_v2_to_v3 :: "fault \<Rightarrow> connection \<Rightarrow> (exn + unit) \<times> connection" where
  "migrate_v2_to_v3 fault = run_statements fault MIGRATION_V2_TO_V3_STATEMENTS"

definition migrate_v3_to_v4 :: "fault \<Rightarrow> connection \<Rightarrow> (exn + unit) \<times> connection" where
  "migrate_v3_to_v4 fault = run_statements fault MIGRATION_V3_TO_V4_STATEMENTS"

definition migrate_v4_to_v5 :: "fault \<Rightarrow> connection \<Rightarrow> (exn + unit) \<times> connection" where
  "migrate_v4_to_v5 fault = run_statements fault MIGRATION_V4_TO_V5_STATEMENTS"

definition migrate_v5_to_v6 :: "fault \<Rightarrow> connection \<Rightarrow> (exn + unit) \<times> connection" where
  "migrate_v5_to_v6 fault c =
     (let (r, c) = run_statements fault MIGRATION_V5_TO_V6_STATEMENTS (c\<lparr>cn_foreign_keys := False\<rparr>)
      in (r, c\<lparr>cn_foreign_keys := True\<rparr>))"

text \<open>One \<^verbatim>\<open>if version == v\<close> of \<^verbatim>\<open>initialize_schema\<close>, on the version and the connection so far.\<close>

definition upgrade ::
  "int \<Rightarrow> (connection \<Rightarrow> (exn + unit) \<times> connection) \<Rightarrow> (exn + int) \<times> connection \<Rightarrow> (exn + int) \<times> connection"
where
  "upgrade v migrate x =
     (case x of
        (Inr w, c) \<Rightarrow>
          if w = v then (case migrate c of (Inl e, c) \<Rightarrow> (Inl e, c) | (Inr _, c) \<Rightarrow> (Inr (v + 1), c)) else (Inr w, c)
      | (Inl e, c) \<Rightarrow> (Inl e, c))"

text \<open>\<open>faults v\<close> is what happens to the migration that leaves version \<open>v\<close>.\<close>

definition initialize_schema :: "fault \<Rightarrow> (nat \<Rightarrow> fault) \<Rightarrow> connection \<Rightarrow> (exn + int) \<times> connection" where
  "initialize_schema read_fault faults c =
     (case read_schema_version read_fault c of
        Inl e \<Rightarrow> (Inl e, c)
      | Inr recorded \<Rightarrow>
          (case upgrade 5 (migrate_v5_to_v6 (faults 5))
                 (upgrade 4 (migrate_v4_to_v5 (faults 4))
                   (upgrade 3 (migrate_v3_to_v4 (faults 3))
                     (upgrade 2 (migrate_v2_to_v3 (faults 2))
                       (upgrade 1 (migrate_v1_to_v2 (faults 1))
                         (case recorded of
                            None \<Rightarrow> upgrade 0 (apply_version_1 (faults 0)) (Inr 0, c)
                          | Some v \<Rightarrow> (Inr v, c)))))) of
             (Inl e, c) \<Rightarrow> (Inl e, c)
           | (Inr version, c) \<Rightarrow>
               if version = CURRENT_SCHEMA_VERSION then (Inr version, c)
               else if version > CURRENT_SCHEMA_VERSION then (Inl UnsupportedSchemaVersionError, c)
               else (Inl InvalidSchemaStateError, c)))"

text \<open>A new connection enforces foreign keys.\<close>

definition initialize_database :: "fault \<Rightarrow> fault \<Rightarrow> (nat \<Rightarrow> fault) \<Rightarrow> database \<Rightarrow> (exn + int) \<times> database" where
  "initialize_database open_fault read_fault faults db =
     (case open_fault of
        Some e \<Rightarrow> (Inl e, db)
      | None \<Rightarrow>
          (let (r, c) = initialize_schema read_fault faults \<lparr>cn_database = db, cn_foreign_keys = True\<rparr>
           in (r, cn_database c)))"

section \<open>A migration is recorded if and only if it happened\<close>

definition no_faults :: "nat \<Rightarrow> fault" where
  "no_faults v = None"

definition migration :: "nat \<Rightarrow> fault \<Rightarrow> connection \<Rightarrow> (exn + unit) \<times> connection" where
  "migration v =
     [apply_version_1, migrate_v1_to_v2, migrate_v2_to_v3, migrate_v3_to_v4, migrate_v4_to_v5, migrate_v5_to_v6] ! v"

definition climb :: "(nat \<Rightarrow> fault) \<Rightarrow> nat \<Rightarrow> (exn + int) \<times> connection \<Rightarrow> (exn + int) \<times> connection" where
  "climb faults k x = fold (\<lambda>v. upgrade (int v) (migration v (faults v))) [k..<6] x"

lemma climb_unfold: "k < 6 \<Longrightarrow> climb faults k x = climb faults (Suc k) (upgrade (int k) (migration k (faults k)) x)"
  by (simp add: climb_def upt_conv_Cons)

lemma climb_6: "climb faults 6 x = x"
  by (simp add: climb_def)

lemma upgrade_skip: "w \<noteq> v \<Longrightarrow> upgrade v m (Inr w, c) = (Inr w, c)" "upgrade v m (Inl e, c) = (Inl e, c)"
  by (simp_all add: upgrade_def)

lemma climb_Inl: "climb faults k (Inl e, c) = (Inl e, c)"
proof (cases "k \<le> 6")
  case True
  then show ?thesis by (induction rule: inc_induct) (simp_all add: climb_6 climb_unfold upgrade_skip)
qed (simp add: climb_def)

lemma climb_from:
  assumes "k \<le> m" and "m \<le> 6 \<or> w = int m"
  shows "int m \<le> w \<Longrightarrow> climb faults k (Inr w, c) = climb faults m (Inr w, c)"
proof (cases "m \<le> 6")
  case True
  then show "int m \<le> w \<Longrightarrow> ?thesis"
    using assms(1) by (induction rule: inc_induct [OF assms(1)]) (simp_all add: climb_unfold upgrade_skip)
next
  case False
  assume w: "int m \<le> w"
  have "climb faults k (Inr w, c) = (Inr w, c)"
  proof (cases "k \<le> 6")
    case True
    then show ?thesis using w False
      by (induction rule: inc_induct) (simp_all add: climb_6 climb_unfold upgrade_skip)
  qed (simp add: climb_def)
  then show ?thesis using False by (simp add: climb_def)
qed

definition finish :: "(exn + int) \<times> connection \<Rightarrow> (exn + int) \<times> connection" where
  "finish x =
     (case x of
        (Inl e, c) \<Rightarrow> (Inl e, c)
      | (Inr version, c) \<Rightarrow>
          if version = CURRENT_SCHEMA_VERSION then (Inr version, c)
          else if version > CURRENT_SCHEMA_VERSION then (Inl UnsupportedSchemaVersionError, c)
          else (Inl InvalidSchemaStateError, c))"

definition recorded_version :: "int option \<Rightarrow> int" where
  "recorded_version r = (case r of None \<Rightarrow> 0 | Some v \<Rightarrow> v)"

lemma read_positive: "read_schema_version fault c = Inr (Some v) \<Longrightarrow> 1 \<le> v"
  by (auto simp: read_schema_version_def read_only_def split: option.split_asm list.split_asm cell.split_asm if_split_asm)

lemma initialize_schema_climb:
  "initialize_schema read_fault faults c =
     (case read_schema_version read_fault c of
        Inl e \<Rightarrow> (Inl e, c)
      | Inr r \<Rightarrow> finish (climb faults 0 (Inr (recorded_version r), c)))"
proof (cases "read_schema_version read_fault c")
  case (Inr r)
  have "[0..<6] = [0, 1, 2, 3, 4, 5]" by (simp add: upt_rec)
  then show ?thesis
    using Inr read_positive [of read_fault c]
    by (cases r) (auto simp: initialize_schema_def climb_def migration_def finish_def recorded_version_def upgrade_skip
        split: prod.split sum.split)
qed (simp add: initialize_schema_def)

subsection \<open>The version table\<close>

definition version_rows :: "database \<Rightarrow> row list option" where
  "version_rows db = map_option tb_rows (map_of (db_tables db) ''SchemaVersion'')"

fun targets :: "statement \<Rightarrow> string list" where
  "targets (CreateTable b n d) = [n]"
| "targets (InsertValues n cols vs) = [n]"
| "targets (InsertSelect n cols items source) = [n]"
| "targets (DropTable n) = [n]"
| "targets (RenameTable n m) = [n, m]"
| "targets (CreateIndex i n cols) = []"
| "targets (UpdateAll n c v) = [n]"

lemma map_of_replace_table: "map_of (replace_table n t ts) m = (if m = n \<and> n \<in> fst ` set ts then Some t else map_of ts m)"
  by (induction ts) force+

lemma map_of_filter_other: "m \<noteq> n \<Longrightarrow> map_of (filter (\<lambda>(k, _). k \<noteq> n) ts) m = map_of ts m"
  by (induction ts) auto

lemma map_of_rename:
  "m \<noteq> n \<Longrightarrow> m \<noteq> k \<Longrightarrow> map_of (map (\<lambda>(j, t). (if j = n then k else j, f t)) ts) m = map_option f (map_of ts m)"
  by (induction ts) auto

lemma with_table_Inr: "with_table n db f = Inr x \<longleftrightarrow> (\<exists>t. map_of (db_tables db) n = Some t \<and> f t = Inr x)"
  by (auto simp: with_table_def split: option.split)

lemma exec_keeps_version:
  assumes "exec_statement fk s db = Inr db'" and "''SchemaVersion'' \<notin> set (targets s)"
  shows "version_rows db' = version_rows db"
  using assms
  by (cases s) (auto simp: version_rows_def with_table_Inr map_of_replace_table bind_result_eq_Inr map_of_filter_other
      map_of_rename retarget_def option.map_comp comp_def map_add_def split: if_split_asm option.split)

lemma execs_keep_version:
  "exec_statements fk ss db = Inr db' \<Longrightarrow> list_all (\<lambda>s. ''SchemaVersion'' \<notin> set (targets s)) ss \<Longrightarrow> version_rows db' = version_rows db"
  by (induction ss arbitrary: db) (auto simp: bind_result_eq_Inr dest: exec_keeps_version)

lemma exec_statements_append:
  "exec_statements fk (xs @ ys) db = bind_result (exec_statements fk xs db) (exec_statements fk ys)"
  by (induction xs arbitrary: db) (simp_all add: bind_result_def split: sum.split)

definition version_read :: "row list option \<Rightarrow> exn + int option" where
  "version_read rows =
     (case rows of
        None \<Rightarrow> Inr None
      | Some rs \<Rightarrow>
          (case rs of
             [r] \<Rightarrow>
               (case cell_of r ''Version'' of
                  SqlInt n \<Rightarrow> if n < 1 then Inl InvalidSchemaStateError else Inr (Some n)
                | _ \<Rightarrow> Inl InvalidSchemaStateError)
           | _ \<Rightarrow> Inl InvalidSchemaStateError))"

lemma read_schema_version_rows: "read_schema_version None c = version_read (version_rows (cn_database c))"
  by (simp add: read_schema_version_def version_read_def version_rows_def split: option.split)

lemma set_cell_cell_of: "cell_of r c \<noteq> SqlNull \<Longrightarrow> cell_of (set_cell c v r) c = v"
  by (induction r) (auto simp: cell_of_def split: if_split_asm)

lemma update_records:
  assumes "exec_statements fk (ss @ [UpdateAll ''SchemaVersion'' ''Version'' (SqlInt n)]) db = Inr db'" and "1 \<le> n"
    and "list_all (\<lambda>s. ''SchemaVersion'' \<notin> set (targets s)) ss" and "version_read (version_rows db) = Inr (Some m)"
  shows "version_read (version_rows db') = Inr (Some n)"
proof -
  obtain d where d: "exec_statements fk ss db = Inr d" "exec_statement fk (UpdateAll ''SchemaVersion'' ''Version'' (SqlInt n)) d = Inr db'"
    using assms(1) by (auto simp: exec_statements_append bind_result_eq_Inr)
  have v: "version_rows d = version_rows db" by (rule execs_keep_version [OF d(1) assms(3)])
  obtain t where t: "map_of (db_tables d) ''SchemaVersion'' = Some t"
    "db' = d\<lparr>db_tables := replace_table ''SchemaVersion'' (t\<lparr>tb_rows := map (set_cell ''Version'' (SqlInt n)) (tb_rows t)\<rparr>) (db_tables d)\<rparr>"
    using d(2) by (auto simp: with_table_Inr split: if_split_asm)
  obtain r where r: "tb_rows t = [r]" "cell_of r ''Version'' \<noteq> SqlNull"
    using assms(4) [folded v] t(1) by (auto simp: version_rows_def version_read_def split: list.split_asm cell.split_asm)
  have "''SchemaVersion'' \<in> fst ` set (db_tables d)" using t(1) by (metis domI dom_map_of_conv_image_fst)
  then have "version_rows db' = Some [set_cell ''Version'' (SqlInt n) r]"
    using t r by (simp add: version_rows_def map_of_replace_table)
  then show ?thesis using r(2) assms(2) by (simp add: version_read_def set_cell_cell_of)
qed

lemma first_version_recorded:
  assumes "exec_statements fk (SCHEMA_V1_STATEMENTS @ [InsertValues ''SchemaVersion'' [''Version''] [SqlInt 1]]) db = Inr db'"
    and "version_read (version_rows db) = Inr None"
  shows "version_read (version_rows db') = Inr (Some 1)"
proof -
  have n: "map_of (db_tables db) ''SchemaVersion'' = None"
    using assms(2) by (auto simp: version_read_def version_rows_def split: option.split_asm list.split_asm cell.split_asm if_split_asm)
  then have "''SchemaVersion'' \<notin> fst ` set (db_tables db)" by (simp add: map_of_eq_None_iff)
  then show ?thesis
    using assms(1) n
    by (auto simp: SCHEMA_V1_STATEMENTS_def exec_statements_append bind_result_eq_Inr with_table_Inr map_add_def version_rows_def
        version_read_def map_of_replace_table insert_row_def complete_row_def schema_version_ddl_def plain_table_def required_def
        cell_of_def split: if_split_asm)
qed

definition recorded :: "nat \<Rightarrow> connection \<Rightarrow> bool" where
  "recorded v c \<longleftrightarrow> version_read (version_rows (cn_database c)) = Inr (if v = 0 then None else Some (int v))"

lemma migration_cases: "(k::nat) < 6 \<Longrightarrow> (k = 0 \<Longrightarrow> P) \<Longrightarrow> (k = 1 \<Longrightarrow> P) \<Longrightarrow> (k = 2 \<Longrightarrow> P) \<Longrightarrow> (k = 3 \<Longrightarrow> P) \<Longrightarrow> (k = 4 \<Longrightarrow> P)
    \<Longrightarrow> (k = 5 \<Longrightarrow> P) \<Longrightarrow> P"
  by linarith

lemmas statement_lists = SCHEMA_V1_STATEMENTS_def MIGRATION_V1_TO_V2_STATEMENTS_def MIGRATION_V2_TO_V3_STATEMENTS_def
  DETECTION_EVENT_V3_STATEMENTS_def MIGRATION_V3_TO_V4_STATEMENTS_def MIGRATION_V4_TO_V5_STATEMENTS_def
  SNAPSHOT_OUTBOX_V5_STATEMENTS_def MIGRATION_V5_TO_V6_STATEMENTS_def create_event_index_def create_outbox_index_def

lemma statements_end:
  "MIGRATION_V1_TO_V2_STATEMENTS = butlast MIGRATION_V1_TO_V2_STATEMENTS @ [UpdateAll ''SchemaVersion'' ''Version'' (SqlInt 2)]"
  "MIGRATION_V2_TO_V3_STATEMENTS = butlast MIGRATION_V2_TO_V3_STATEMENTS @ [UpdateAll ''SchemaVersion'' ''Version'' (SqlInt 3)]"
  "MIGRATION_V3_TO_V4_STATEMENTS = butlast MIGRATION_V3_TO_V4_STATEMENTS @ [UpdateAll ''SchemaVersion'' ''Version'' (SqlInt 4)]"
  "MIGRATION_V4_TO_V5_STATEMENTS = butlast MIGRATION_V4_TO_V5_STATEMENTS @ [UpdateAll ''SchemaVersion'' ''Version'' (SqlInt 5)]"
  "MIGRATION_V5_TO_V6_STATEMENTS = butlast MIGRATION_V5_TO_V6_STATEMENTS @ [UpdateAll ''SchemaVersion'' ''Version'' (SqlInt 6)]"
  by (simp_all add: statement_lists)

lemma other_targets:
  "list_all (\<lambda>s. ''SchemaVersion'' \<notin> set (targets s)) (butlast MIGRATION_V1_TO_V2_STATEMENTS)"
  "list_all (\<lambda>s. ''SchemaVersion'' \<notin> set (targets s)) (butlast MIGRATION_V2_TO_V3_STATEMENTS)"
  "list_all (\<lambda>s. ''SchemaVersion'' \<notin> set (targets s)) (butlast MIGRATION_V3_TO_V4_STATEMENTS)"
  "list_all (\<lambda>s. ''SchemaVersion'' \<notin> set (targets s)) (butlast MIGRATION_V4_TO_V5_STATEMENTS)"
  "list_all (\<lambda>s. ''SchemaVersion'' \<notin> set (targets s)) (butlast MIGRATION_V5_TO_V6_STATEMENTS)"
  by (simp_all add: statement_lists)

lemma run_statements_outcome:
  assumes "run_statements fault ss c = (r, c')"
  shows "(\<exists>e. r = Inl e) \<and> c' = c
    \<or> r = Inr () \<and> fault = None \<and> (\<exists>db. exec_statements (cn_foreign_keys c) ss (cn_database c) = Inr db \<and> c' = c\<lparr>cn_database := db\<rparr>)"
  using assms by (auto simp: run_statements_def transaction_def bind_result_def split: option.split_asm sum.split_asm)

lemma migration_outcome:
  assumes "k < 6" and "migration k fault c = (r, c')" and "cn_foreign_keys c" and "recorded k c"
  shows "(\<exists>e. r = Inl e) \<and> c' = c \<or> r = Inr () \<and> fault = None \<and> cn_foreign_keys c' \<and> recorded (Suc k) c'"
proof (cases "k = 5")
  case True
  let ?c = "c\<lparr>cn_foreign_keys := False\<rparr>"
  obtain d where d: "run_statements fault MIGRATION_V5_TO_V6_STATEMENTS ?c = (r, d)" "c' = d\<lparr>cn_foreign_keys := True\<rparr>"
    using assms(2) True by (auto simp: migration_def migrate_v5_to_v6_def Let_def split: prod.split_asm)
  from run_statements_outcome [OF d(1)] show ?thesis
  proof
    assume "(\<exists>e. r = Inl e) \<and> d = ?c"
    then show ?thesis using d(2) assms(3) by auto
  next
    assume "r = Inr () \<and> fault = None \<and> (\<exists>db. exec_statements (cn_foreign_keys ?c) MIGRATION_V5_TO_V6_STATEMENTS (cn_database ?c) = Inr db
      \<and> d = ?c\<lparr>cn_database := db\<rparr>)"
    then show ?thesis
      using d(2) assms(4) True update_records [OF _ _ other_targets(5), of _ 6] statements_end(5)
      by (auto simp: recorded_def)
  qed
next
  case False
  obtain ss where ss: "migration k = (\<lambda>fault. run_statements fault ss)"
    and rec: "\<And>fk db. exec_statements fk ss (cn_database c) = Inr db \<Longrightarrow> recorded (Suc k) (c\<lparr>cn_database := db\<rparr>)"
  proof (rule migration_cases [OF assms(1)])
    assume "k = 0"
    then show thesis
      using that [OF _ , of "SCHEMA_V1_STATEMENTS @ [InsertValues ''SchemaVersion'' [''Version''] [SqlInt 1]]"] assms(4) first_version_recorded
      by (auto simp: migration_def apply_version_1_def fun_eq_iff recorded_def)
  next
    assume "k = 1"
    then show thesis
      using that [OF _ , of MIGRATION_V1_TO_V2_STATEMENTS] assms(4) update_records [OF _ _ other_targets(1), of _ 2] statements_end(1)
      by (auto simp: migration_def migrate_v1_to_v2_def fun_eq_iff recorded_def)
  next
    assume "k = 2"
    then show thesis
      using that [OF _ , of MIGRATION_V2_TO_V3_STATEMENTS] assms(4) update_records [OF _ _ other_targets(2), of _ 3] statements_end(2)
      by (auto simp: migration_def migrate_v2_to_v3_def fun_eq_iff recorded_def)
  next
    assume "k = 3"
    then show thesis
      using that [OF _ , of MIGRATION_V3_TO_V4_STATEMENTS] assms(4) update_records [OF _ _ other_targets(3), of _ 4] statements_end(3)
      by (auto simp: migration_def migrate_v3_to_v4_def fun_eq_iff recorded_def)
  next
    assume "k = 4"
    then show thesis
      using that [OF _ , of MIGRATION_V4_TO_V5_STATEMENTS] assms(4) update_records [OF _ _ other_targets(4), of _ 5] statements_end(4)
      by (auto simp: migration_def migrate_v4_to_v5_def fun_eq_iff recorded_def)
  next
    assume "k = 5"
    then show thesis using False by simp
  qed
  have "run_statements fault ss c = (r, c')" using assms(2) ss by simp
  from run_statements_outcome [OF this] show ?thesis using assms(3) rec by auto
qed

text \<open>Where a run with faults stops, a run without faults goes on.\<close>

lemma climb_resumes:
  assumes "k \<le> 6" and "cn_foreign_keys c" and "recorded k c"
  shows "\<exists>m. k \<le> m \<and> m \<le> 6 \<and> recorded m (snd (climb faults k (Inr (int k), c))) \<and> cn_foreign_keys (snd (climb faults k (Inr (int k), c)))
    \<and> climb no_faults m (Inr (int m), snd (climb faults k (Inr (int k), c))) = climb no_faults k (Inr (int k), c)
    \<and> (fst (climb faults k (Inr (int k), c)) = Inr 6 \<and> m = 6 \<or> (\<exists>e. fst (climb faults k (Inr (int k), c)) = Inl e))"
  using assms
proof (induction arbitrary: c rule: inc_induct)
  case base
  then show ?case by (auto simp: climb_6)
next
  case (step k)
  obtain r c' where m: "migration k (faults k) c = (r, c')" by (cases "migration k (faults k) c")
  from migration_outcome [OF step.hyps(2) m step.prems] show ?case
  proof
    assume "(\<exists>e. r = Inl e) \<and> c' = c"
    then obtain e where e: "r = Inl e" "c' = c" by blast
    then have "climb faults k (Inr (int k), c) = (Inl e, c)"
      using m step.hyps(2) by (auto simp: climb_unfold upgrade_def climb_Inl)
    then show ?thesis using e step.hyps step.prems by (intro exI [of _ k]) auto
  next
    assume ok: "r = Inr () \<and> faults k = None \<and> cn_foreign_keys c' \<and> recorded (Suc k) c'"
    have u: "climb fs k (Inr (int k), c) = climb fs (Suc k) (Inr (int (Suc k)), c')" if "fs k = None" for fs
      using m step.hyps(2) that ok by (simp add: climb_unfold upgrade_def add.commute)
    from step.IH [of c'] ok obtain m where "Suc k \<le> m \<and> m \<le> 6 \<and> recorded m (snd (climb faults (Suc k) (Inr (int (Suc k)), c')))
        \<and> cn_foreign_keys (snd (climb faults (Suc k) (Inr (int (Suc k)), c')))
        \<and> climb no_faults m (Inr (int m), snd (climb faults (Suc k) (Inr (int (Suc k)), c')))
          = climb no_faults (Suc k) (Inr (int (Suc k)), c')
        \<and> (fst (climb faults (Suc k) (Inr (int (Suc k)), c')) = Inr 6 \<and> m = 6
           \<or> (\<exists>e. fst (climb faults (Suc k) (Inr (int (Suc k)), c')) = Inl e))" by blast
    then show ?thesis
      unfolding u [of faults, OF conjunct1 [OF conjunct2 [OF ok]]] u [of no_faults, OF no_faults_def]
      by (intro exI [of _ m]) simp
  qed
qed

lemma read_faultless: "read_schema_version fault c = Inr r \<Longrightarrow> read_schema_version None c = Inr r"
  by (auto simp: read_schema_version_def read_only_def split: option.split_asm)

lemma read_recorded: "read_schema_version None c = Inr r \<Longrightarrow> recorded (nat (recorded_version r)) c \<and> int (nat (recorded_version r)) = recorded_version r"
  using read_positive [of None c] by (cases r) (force simp: recorded_def recorded_version_def read_schema_version_rows)+

lemma recorded_read: "recorded v c \<Longrightarrow> read_schema_version None c = Inr (if v = 0 then None else Some (int v))"
  by (simp add: recorded_def read_schema_version_rows)

lemma initialize_recorded: "recorded m c \<Longrightarrow> m \<le> 6 \<Longrightarrow> initialize_schema None faults c = finish (climb faults m (Inr (int m), c))"
  using climb_from [of 0 m "int m" faults c]
  by (simp add: initialize_schema_climb recorded_read recorded_version_def split: if_split)

lemma finish_climb_fst:
  assumes "climb faults k (Inr (int k), c) = (x, c')" and "x = Inr 6 \<or> (\<exists>e. x = Inl e)"
  shows "finish (climb faults k (Inr (int k), c)) = (x, c')"
  using assms by (auto simp: finish_def CURRENT_SCHEMA_VERSION_def)

lemma initialize_too_new:
  assumes "read_schema_version read_fault c = Inr (Some v)" and "6 < v"
  shows "initialize_schema read_fault faults c = (Inl UnsupportedSchemaVersionError, c)"
  using assms climb_from [of 0 "nat v" v faults c]
  by (simp add: initialize_schema_climb recorded_version_def finish_def CURRENT_SCHEMA_VERSION_def climb_def)

text \<open>
  C13.  Initialising the schema can be interrupted anywhere.  Whatever the database holds and whatever fails during
  the first attempt, the attempt leaves a database from which a later one ends exactly as if there had been no
  failure; and an attempt that reports success has done all of it.
\<close>

theorem interrupted_migration_resumes:
  assumes "cn_foreign_keys c" and "initialize_schema read_fault faults c = (r, c')"
  shows "initialize_schema None no_faults c' = initialize_schema None no_faults c
    \<and> ((\<exists>e. r = Inl e) \<or> initialize_schema None no_faults c = (r, c') \<and> recorded 6 c') \<and> cn_foreign_keys c'"
proof (cases "read_schema_version read_fault c")
  case (Inl e)
  then show ?thesis using assms by (auto simp: initialize_schema_def)
next
  case (Inr v)
  let ?k = "nat (recorded_version v)"
  have rec: "recorded ?k c" "int ?k = recorded_version v" using read_recorded [OF read_faultless [OF Inr]] by auto
  show ?thesis
  proof (cases "?k \<le> 6")
    case False
    then obtain n where "v = Some n" "6 < n" by (cases v) (auto simp: recorded_version_def)
    then show ?thesis using initialize_too_new [of read_fault c n faults] Inr assms by auto
  next
    case True
    obtain x d where x: "climb faults ?k (Inr (int ?k), c) = (x, d)" by (cases "climb faults ?k (Inr (int ?k), c)")
    obtain m where m: "?k \<le> m" "m \<le> 6" "recorded m d" "cn_foreign_keys d"
      "climb no_faults m (Inr (int m), d) = climb no_faults ?k (Inr (int ?k), c)"
      "x = Inr 6 \<and> m = 6 \<or> (\<exists>e. x = Inl e)"
      using climb_resumes [OF True assms(1) rec(1), of faults] x by auto
    have "initialize_schema read_fault faults c = finish (climb faults ?k (Inr (int ?k), c))"
      using Inr climb_from [of 0 ?k "int ?k" faults c] True rec(2) by (simp add: initialize_schema_climb)
    then have rd: "r = x" "c' = d" using assms(2) finish_climb_fst [OF x] m(6) by auto
    have "initialize_schema None no_faults d = initialize_schema None no_faults c"
      using initialize_recorded [OF m(3,2)] initialize_recorded [OF rec(1) True] m(5) by simp
    moreover have "initialize_schema None no_faults d = (x, d)" if "x = Inr 6" "m = 6"
      using initialize_recorded [OF m(3,2)] that by (simp add: climb_6 finish_def CURRENT_SCHEMA_VERSION_def)
    ultimately show ?thesis using m(3,4,6) rd by auto
  qed
qed

end
