(* ===== verification/SchemaMigration.thy ===== *)
theory SchemaMigration
  imports Schema
begin

text \<open>
  What the migrations of \<^verbatim>\<open>persistence/schema.py\<close> do to the data: the databases of each version, and
  that every row survives with every column it had.
\<close>

section \<open>The databases of each version\<close>

definition identity_ddl :: "nat \<Rightarrow> table_def" where
  "identity_ddl v = (if v = 1 then device_identity_v1_ddl else device_identity_v2_ddl)"

definition event_ddl :: "nat \<Rightarrow> table_def" where
  "event_ddl v =
     (if v \<le> 3 then detection_event_v3_ddl else if v \<le> 5 then detection_event_v4_ddl else detection_event_v6_ddl)"

definition outbox_ddl :: "nat \<Rightarrow> table_def" where
  "outbox_ddl v = (if v \<le> 5 then snapshot_outbox_v5_ddl else snapshot_outbox_v6_ddl)"

definition mk_table :: "table_def \<Rightarrow> row list \<Rightarrow> table" where
  "mk_table d rows = \<lparr>tb_def = d, tb_rows = rows\<rparr>"

definition store :: "nat \<Rightarrow> row list \<Rightarrow> row list \<Rightarrow> row list \<Rightarrow> row list \<Rightarrow> database" where
  "store v identity config events outbox =
     \<lparr>db_tables =
        [(''SchemaVersion'', mk_table schema_version_ddl [[(''Version'', SqlInt (int v))]])]
        @ (if v = 1
           then [(''DeviceIdentity'', mk_table (identity_ddl v) identity), (''ConfigCache'', mk_table config_cache_ddl config)]
           else [(''ConfigCache'', mk_table config_cache_ddl config), (''DeviceIdentity'', mk_table (identity_ddl v) identity)])
        @ (if 3 \<le> v then [(''DetectionEvent'', mk_table (event_ddl v) events)] else [])
        @ (if 5 \<le> v then [(''SnapshotOutbox'', mk_table (outbox_ddl v) outbox)] else []),
      db_indexes =
        (if 3 \<le> v then [(''idx_detection_event_delivery_status_created_at_utc'', ''DetectionEvent'', [''DeliveryStatus'', ''CreatedAtUtc''])] else [])
        @ (if 5 \<le> v then [(''idx_snapshot_outbox_upload_status_captured_at_utc'', ''SnapshotOutbox'', [''UploadStatus'', ''CapturedAtUtc''])] else [])\<rparr>"

lemma mk_table_simps [simp]: "tb_def (mk_table d rows) = d" "tb_rows (mk_table d rows) = rows"
  by (simp_all add: mk_table_def)

text \<open>Rows a table may hold: each satisfies the constraints, and no key occurs twice.\<close>

definition rows_fit :: "table_def \<Rightarrow> row list \<Rightarrow> bool" where
  "rows_fit d rows \<longleftrightarrow> list_all (row_ok d) rows
     \<and> (case td_key d of None \<Rightarrow> True | Some k \<Rightarrow> distinct (filter (\<lambda>v. v \<noteq> SqlNull) (map (\<lambda>r. cell_of r k) rows)))"

text \<open>\<open>carried d rows rows'\<close>: row by row, \<open>rows'\<close> has the values of \<open>rows\<close> in all columns of \<open>d\<close>.\<close>

definition carried :: "table_def \<Rightarrow> row list \<Rightarrow> row list \<Rightarrow> bool" where
  "carried d rows rows' \<longleftrightarrow>
     list_all2 (\<lambda>r r'. list_all (\<lambda>c. cell_of r' (cd_name c) = cell_of r (cd_name c)) (td_columns d)) rows rows'"

lemma rows_fit_snoc:
  "rows_fit d (rows @ [r]) \<longleftrightarrow> rows_fit d rows \<and> row_ok d r \<and> key_free d r rows"
  by (auto simp: rows_fit_def key_free_def list_all_iff image_iff split: option.split)

lemma rows_fit_append: "rows_fit d (xs @ ys) \<Longrightarrow> rows_fit d xs"
  by (auto simp: rows_fit_def split: option.split_asm)

lemma insert_rows_fit:
  assumes "rows_fit (tb_def t) (tb_rows t @ rs)" and "fk \<longrightarrow> td_references (tb_def t) = []"
  shows "insert_rows fk tables rs t = Inr (t\<lparr>tb_rows := tb_rows t @ rs\<rparr>)"
  using assms
proof (induction rs arbitrary: t)
  case (Cons r rs)
  have "rows_fit (tb_def t) (tb_rows t @ [r])" using rows_fit_append [of _ "tb_rows t @ [r]" rs] Cons.prems(1) by simp
  then have "insert_row fk tables r t = Inr (t\<lparr>tb_rows := tb_rows t @ [r]\<rparr>)"
    using Cons.prems(2) by (auto simp: insert_row_def rows_fit_snoc references_ok_def)
  then show ?case using Cons.IH [of "t\<lparr>tb_rows := tb_rows t @ [r]\<rparr>"] Cons.prems by simp
qed simp

text \<open>A copy that keeps the key fits its new table when each row does.\<close>

lemma rows_fit_copy:
  assumes "rows_fit d rows" and "td_key d' = td_key d" and "\<And>k r. td_key d = Some k \<Longrightarrow> cell_of (f r) k = cell_of r k"
    and "\<And>r. row_ok d r \<Longrightarrow> row_ok d' (f r)"
  shows "rows_fit d' (map f rows)"
  using assms by (auto simp: rows_fit_def list_all_iff comp_def split: option.split_asm option.split)

lemma carried_copy:
  assumes "\<And>r c. c \<in> set (td_columns d) \<Longrightarrow> cell_of (f r) (cd_name c) = cell_of r (cd_name c)"
  shows "carried d rows (map f rows)"
  using assms by (induction rows) (auto simp: carried_def list_all_iff)

lemma carried_refl: "carried d rows rows"
  using carried_copy [of d id rows] by simp

lemma carried_trans:
  assumes "carried d xs ys" and "carried d' ys zs" and "cd_name ` set (td_columns d) \<subseteq> cd_name ` set (td_columns d')"
  shows "carried d xs zs"
  unfolding carried_def
proof (rule list_all2_trans)
  show "list_all2 (\<lambda>r r'. list_all (\<lambda>c. cell_of r' (cd_name c) = cell_of r (cd_name c)) (td_columns d)) xs ys"
    "list_all2 (\<lambda>r r'. list_all (\<lambda>c. cell_of r' (cd_name c) = cell_of r (cd_name c)) (td_columns d')) ys zs"
    using assms(1,2) by (simp_all add: carried_def)
  fix x y z
  assume y: "list_all (\<lambda>c. cell_of y (cd_name c) = cell_of x (cd_name c)) (td_columns d)"
    and z: "list_all (\<lambda>c. cell_of z (cd_name c) = cell_of y (cd_name c)) (td_columns d')"
  have "cell_of z (cd_name c) = cell_of x (cd_name c)" if c: "c \<in> set (td_columns d)" for c
  proof -
    obtain c' where "c' \<in> set (td_columns d')" "cd_name c = cd_name c'" using c assms(3) by blast
    then show ?thesis using y z c by (auto simp: list_all_iff)
  qed
  then show "list_all (\<lambda>c. cell_of z (cd_name c) = cell_of x (cd_name c)) (td_columns d)" by (simp add: list_all_iff)
qed

section \<open>The copies\<close>

definition copy_cells :: "string list \<Rightarrow> row \<Rightarrow> row" where
  "copy_cells cols r = map (\<lambda>c. (c, cell_of r c)) cols"

definition upgrade_identity :: "row \<Rightarrow> row" where
  "upgrade_identity r =
     copy_cells [''SingletonGuard'', ''DeviceId'', ''ProtectedSharedSecret'', ''ActivatedAt'', ''LastActivatedAt''] r
     @ [(''OperationalState'', SqlText ''Operational'')]"

definition upgrade_event_v4 :: "row \<Rightarrow> row" where
  "upgrade_event_v4 r = copy_cells event_columns r @ [(''DeliveredAtUtc'', SqlNull)] @ copy_cells [''CreatedAtUtc''] r"

definition upgrade_event_v6 :: "row \<Rightarrow> row" where
  "upgrade_event_v6 r =
     copy_cells event_columns r @ [(''DeliveredAtUtc'', cell_of r ''DeliveredAtUtc''), (''FinalizedAtUtc'', SqlNull)]
     @ copy_cells [''CreatedAtUtc''] r"

definition upgrade_outbox :: "row \<Rightarrow> row" where
  "upgrade_outbox r = copy_cells outbox_columns r"

lemmas ddl_defs = device_identity_v1_ddl_def device_identity_v2_ddl_def detection_event_table_def detection_event_v3_ddl_def
  detection_event_v4_ddl_def detection_event_v6_ddl_def outbox_table_def snapshot_outbox_v5_ddl_def
  snapshot_outbox_v6_ddl_def required_def nullable_def defaulted_def event_columns_def outbox_columns_def

lemma cell_of_copy: "cell_of (map (\<lambda>c. (c, cell_of r c)) cols @ rest) c = (if c \<in> set cols then cell_of r c else cell_of rest c)"
  by (induction cols) (auto simp: cell_of_def split: option.split)

lemma cell_of_Cons: "cell_of ((d, v) # r) c = (if c = d then v else cell_of r c)"
  by (simp add: cell_of_def)

lemma complete_identity:
  "complete_row device_identity_v2_ddl
     [''SingletonGuard'', ''DeviceId'', ''ProtectedSharedSecret'', ''ActivatedAt'', ''LastActivatedAt'', ''OperationalState'']
     (map (select_value r) [Column ''SingletonGuard'', Column ''DeviceId'', Column ''ProtectedSharedSecret'', Column ''ActivatedAt'',
         Column ''LastActivatedAt'', Literal (SqlText ''Operational'')]) = upgrade_identity r"
  by (simp add: complete_row_def upgrade_identity_def copy_cells_def ddl_defs)

lemma complete_event_v4:
  "complete_row detection_event_v4_ddl (event_columns @ [''DeliveredAtUtc'', ''CreatedAtUtc''])
     (map (select_value r) (map Column event_columns @ [Literal SqlNull, Column ''CreatedAtUtc''])) = upgrade_event_v4 r"
  by (simp add: complete_row_def upgrade_event_v4_def copy_cells_def ddl_defs)

lemma complete_event_v6:
  "complete_row detection_event_v6_ddl (event_columns @ [''DeliveredAtUtc'', ''FinalizedAtUtc'', ''CreatedAtUtc''])
     (map (select_value r) (map Column event_columns @ [Column ''DeliveredAtUtc'', Literal SqlNull, Column ''CreatedAtUtc'']))
   = upgrade_event_v6 r"
  by (simp add: complete_row_def upgrade_event_v6_def copy_cells_def ddl_defs)

lemma complete_outbox:
  "complete_row snapshot_outbox_v6_ddl outbox_columns (map (select_value r) (map Column outbox_columns)) = upgrade_outbox r"
  by (simp add: complete_row_def upgrade_outbox_def copy_cells_def ddl_defs)

section \<open>Each migration on the database of its version\<close>

lemmas copy_defs = upgrade_identity_def upgrade_event_v4_def upgrade_event_v6_def upgrade_outbox_def copy_cells_def

lemma row_ok_identity: "row_ok device_identity_v1_ddl r \<Longrightarrow> row_ok device_identity_v2_ddl (upgrade_identity r)"
  by (auto simp: row_ok_def ddl_defs copy_defs cell_of_Cons split: if_split_asm)

lemma row_ok_event_v4: "row_ok detection_event_v3_ddl r \<Longrightarrow> row_ok detection_event_v4_ddl (upgrade_event_v4 r)"
  by (auto simp: row_ok_def ddl_defs copy_defs cell_of_Cons)

lemma row_ok_event_v6: "row_ok detection_event_v4_ddl r \<Longrightarrow> row_ok detection_event_v6_ddl (upgrade_event_v6 r)"
  by (auto simp: row_ok_def ddl_defs copy_defs cell_of_Cons)

lemma row_ok_outbox: "row_ok snapshot_outbox_v5_ddl r \<Longrightarrow> row_ok snapshot_outbox_v6_ddl (upgrade_outbox r)"
  by (auto simp: row_ok_def ddl_defs copy_defs cell_of_Cons)

lemma carried_identity: "carried device_identity_v1_ddl rows (map upgrade_identity rows)"
  by (rule carried_copy) (auto simp: ddl_defs copy_defs cell_of_Cons)

lemma carried_event_v4: "carried detection_event_v3_ddl rows (map upgrade_event_v4 rows)"
  by (rule carried_copy) (auto simp: ddl_defs copy_defs cell_of_Cons)

lemma carried_event_v6: "carried detection_event_v4_ddl rows (map upgrade_event_v6 rows)"
  by (rule carried_copy) (auto simp: ddl_defs copy_defs cell_of_Cons)

lemma carried_outbox: "carried snapshot_outbox_v5_ddl rows (map upgrade_outbox rows)"
  by (rule carried_copy) (auto simp: ddl_defs copy_defs cell_of_Cons)

lemma fit_identity: "rows_fit device_identity_v1_ddl rows \<Longrightarrow> rows_fit device_identity_v2_ddl (map upgrade_identity rows)"
  by (erule rows_fit_copy) (auto simp: row_ok_identity, auto simp: ddl_defs copy_defs cell_of_Cons)

lemma fit_event_v4: "rows_fit detection_event_v3_ddl rows \<Longrightarrow> rows_fit detection_event_v4_ddl (map upgrade_event_v4 rows)"
  by (erule rows_fit_copy) (auto simp: row_ok_event_v4, auto simp: ddl_defs copy_defs cell_of_Cons)

lemma fit_event_v6: "rows_fit detection_event_v4_ddl rows \<Longrightarrow> rows_fit detection_event_v6_ddl (map upgrade_event_v6 rows)"
  by (erule rows_fit_copy) (auto simp: row_ok_event_v6, auto simp: ddl_defs copy_defs cell_of_Cons)

lemma fit_outbox: "rows_fit snapshot_outbox_v5_ddl rows \<Longrightarrow> rows_fit snapshot_outbox_v6_ddl (map upgrade_outbox rows)"
  by (erule rows_fit_copy) (auto simp: row_ok_outbox, auto simp: ddl_defs copy_defs cell_of_Cons)

lemma exec_copy:
  assumes "map_of (db_tables db) source = Some s" and "map_of (db_tables db) n = Some (mk_table d [])"
    and "has_columns d cols" and "has_columns (tb_def s) (selected items)"
    and "\<And>r. complete_row d cols (map (select_value r) items) = f r"
    and "rows_fit d (map f (tb_rows s))" and "fk \<longrightarrow> td_references d = []"
  shows "exec_statement fk (InsertSelect n cols items source) db
    = Inr (db\<lparr>db_tables := replace_table n (mk_table d (map f (tb_rows s))) (db_tables db)\<rparr>)"
  using assms insert_rows_fit [of "mk_table d []" "map f (tb_rows s)" fk "db_tables db"]
  by (simp add: with_table_def mk_table_def)

lemmas exec_simps = with_table_def still_referenced_def retarget_def has_columns_def selected_def

text \<open>The columns the copies name exist.\<close>

lemma copy_columns:
  "has_columns device_identity_v2_ddl
     [''SingletonGuard'', ''DeviceId'', ''ProtectedSharedSecret'', ''ActivatedAt'', ''LastActivatedAt'', ''OperationalState'']"
  "has_columns device_identity_v1_ddl (selected [Column ''SingletonGuard'', Column ''DeviceId'', Column ''ProtectedSharedSecret'',
     Column ''ActivatedAt'', Column ''LastActivatedAt'', Literal (SqlText ''Operational'')])"
  "has_columns detection_event_v4_ddl (event_columns @ [''DeliveredAtUtc'', ''CreatedAtUtc''])"
  "has_columns detection_event_v3_ddl (selected (map Column event_columns @ [Literal SqlNull, Column ''CreatedAtUtc'']))"
  "has_columns detection_event_v6_ddl (event_columns @ [''DeliveredAtUtc'', ''FinalizedAtUtc'', ''CreatedAtUtc''])"
  "has_columns detection_event_v4_ddl (selected (map Column event_columns @ [Column ''DeliveredAtUtc'', Literal SqlNull, Column ''CreatedAtUtc'']))"
  "has_columns snapshot_outbox_v6_ddl outbox_columns"
  "has_columns snapshot_outbox_v5_ddl (selected (map Column outbox_columns))"
  by (simp_all add: has_columns_def selected_def ddl_defs)

lemma index_columns:
  "has_columns detection_event_v3_ddl [''DeliveryStatus'', ''CreatedAtUtc'']"
  "has_columns detection_event_v4_ddl [''DeliveryStatus'', ''CreatedAtUtc'']"
  "has_columns detection_event_v6_ddl [''DeliveryStatus'', ''CreatedAtUtc'']"
  "has_columns snapshot_outbox_v5_ddl [''UploadStatus'', ''CapturedAtUtc'']"
  "has_columns snapshot_outbox_v6_ddl [''UploadStatus'', ''CapturedAtUtc'']"
  "has_columns schema_version_ddl [''Version'']"
  by (simp_all add: has_columns_def ddl_defs schema_version_ddl_def plain_table_def)

lemma no_references: "td_references device_identity_v1_ddl = []" "td_references device_identity_v2_ddl = []"
  "td_references config_cache_ddl = []" "td_references schema_version_ddl = []" "td_references detection_event_v3_ddl = []"
  "td_references detection_event_v4_ddl = []" "td_references detection_event_v6_ddl = []"
  by (simp_all add: ddl_defs config_cache_ddl_def schema_version_ddl_def plain_table_def)

lemma retarget_same: "td_references (tb_def t) = [] \<Longrightarrow> retarget old new t = t"
  by (simp add: retarget_def)

lemma version_row_ok: "row_ok schema_version_ddl [(''Version'', SqlInt n)]"
  by (simp add: row_ok_def schema_version_ddl_def plain_table_def required_def cell_of_Cons)

lemma exec_v1_to_v2:
  assumes "rows_fit (identity_ddl 1) identity"
  shows "exec_statements fk MIGRATION_V1_TO_V2_STATEMENTS (store 1 identity config [] [])
    = Inr (store 2 (map upgrade_identity identity) config [] [])"
proof -
  let ?copy = "InsertSelect ''DeviceIdentity_v2''
    [''SingletonGuard'', ''DeviceId'', ''ProtectedSharedSecret'', ''ActivatedAt'', ''LastActivatedAt'', ''OperationalState'']
    [Column ''SingletonGuard'', Column ''DeviceId'', Column ''ProtectedSharedSecret'', Column ''ActivatedAt'',
     Column ''LastActivatedAt'', Literal (SqlText ''Operational'')] ''DeviceIdentity''"
  let ?v = "(''SchemaVersion'', mk_table schema_version_ddl [[(''Version'', SqlInt 1)]])"
  let ?i = "(''DeviceIdentity'', mk_table device_identity_v1_ddl identity)"
  let ?c = "(''ConfigCache'', mk_table config_cache_ddl config)"
  have fit: "rows_fit device_identity_v2_ddl (map upgrade_identity identity)"
    using assms by (intro fit_identity) (simp add: identity_ddl_def)
  have copy: "exec_statement fk ?copy \<lparr>db_tables = [?v, ?i, ?c, (''DeviceIdentity_v2'', mk_table device_identity_v2_ddl [])], db_indexes = []\<rparr>
    = Inr \<lparr>db_tables = [?v, ?i, ?c, (''DeviceIdentity_v2'', mk_table device_identity_v2_ddl (map upgrade_identity identity))], db_indexes = []\<rparr>"
    by (subst exec_copy [OF _ _ copy_columns(1) _ complete_identity, where s = "mk_table device_identity_v1_ddl identity"]) (simp_all add: copy_columns fit no_references)
  show ?thesis
    using copy
    by (simp add: MIGRATION_V1_TO_V2_STATEMENTS_def store_def identity_ddl_def mk_table_def [symmetric] with_table_def still_referenced_def
        no_references retarget_same index_columns version_row_ok)
qed

lemma exec_v2_to_v3:
  "exec_statements fk MIGRATION_V2_TO_V3_STATEMENTS (store 2 identity config [] []) = Inr (store 3 identity config [] [])"
  by (simp add: MIGRATION_V2_TO_V3_STATEMENTS_def DETECTION_EVENT_V3_STATEMENTS_def create_event_index_def store_def
      identity_ddl_def event_ddl_def mk_table_def [symmetric] with_table_def index_columns version_row_ok)

lemma exec_v4_to_v5:
  "exec_statements fk MIGRATION_V4_TO_V5_STATEMENTS (store 4 identity config events [])
   = Inr (store 5 identity config events [])"
  by (simp add: MIGRATION_V4_TO_V5_STATEMENTS_def SNAPSHOT_OUTBOX_V5_STATEMENTS_def create_outbox_index_def store_def
      identity_ddl_def event_ddl_def outbox_ddl_def mk_table_def [symmetric] with_table_def index_columns version_row_ok)

lemma exec_v3_to_v4:
  assumes "rows_fit (event_ddl 3) events"
  shows "exec_statements fk MIGRATION_V3_TO_V4_STATEMENTS (store 3 identity config events [])
    = Inr (store 4 identity config (map upgrade_event_v4 events) [])"
proof -
  let ?copy = "InsertSelect ''DetectionEvent_v4'' (event_columns @ [''DeliveredAtUtc'', ''CreatedAtUtc''])
        (map Column event_columns @ [Literal SqlNull, Column ''CreatedAtUtc'']) ''DetectionEvent''"
  let ?v = "(''SchemaVersion'', mk_table schema_version_ddl [[(''Version'', SqlInt 3)]])"
  let ?i = "(''DeviceIdentity'', mk_table device_identity_v2_ddl identity)"
  let ?c = "(''ConfigCache'', mk_table config_cache_ddl config)"
  let ?e = "(''DetectionEvent'', mk_table detection_event_v3_ddl events)"
  let ?x = "[(''idx_detection_event_delivery_status_created_at_utc'', ''DetectionEvent'', [''DeliveryStatus'', ''CreatedAtUtc''])]"
  have fit: "rows_fit detection_event_v4_ddl (map upgrade_event_v4 events)"
    using assms by (intro fit_event_v4) (simp add: event_ddl_def)
  have copy: "exec_statement fk ?copy \<lparr>db_tables = [?v, ?c, ?i, ?e, (''DetectionEvent_v4'', mk_table detection_event_v4_ddl [])], db_indexes = ?x\<rparr>
    = Inr \<lparr>db_tables = [?v, ?c, ?i, ?e, (''DetectionEvent_v4'', mk_table detection_event_v4_ddl (map upgrade_event_v4 events))], db_indexes = ?x\<rparr>"
    by (subst exec_copy [OF _ _ copy_columns(3) _ complete_event_v4, where s = "mk_table detection_event_v3_ddl events"])
       (simp_all add: copy_columns fit no_references)
  show ?thesis
    using copy
    by (simp add: MIGRATION_V3_TO_V4_STATEMENTS_def create_event_index_def store_def identity_ddl_def event_ddl_def
        mk_table_def [symmetric] with_table_def still_referenced_def no_references retarget_same index_columns version_row_ok)
qed

lemma exec_v5_to_v6:
  assumes "rows_fit (event_ddl 5) events" and "rows_fit (outbox_ddl 5) outbox"
  shows "exec_statements False MIGRATION_V5_TO_V6_STATEMENTS (store 5 identity config events outbox)
    = Inr (store 6 identity config (map upgrade_event_v6 events) (map upgrade_outbox outbox))"
proof -
  let ?copy = "InsertSelect ''DetectionEvent_v6'' (event_columns @ [''DeliveredAtUtc'', ''FinalizedAtUtc'', ''CreatedAtUtc''])
        (map Column event_columns @ [Column ''DeliveredAtUtc'', Literal SqlNull, Column ''CreatedAtUtc'']) ''DetectionEvent''"
  let ?copy2 = "InsertSelect ''SnapshotOutbox_v6'' outbox_columns (map Column outbox_columns) ''SnapshotOutbox''"
  let ?v = "(''SchemaVersion'', mk_table schema_version_ddl [[(''Version'', SqlInt 5)]])"
  let ?i = "(''DeviceIdentity'', mk_table device_identity_v2_ddl identity)"
  let ?c = "(''ConfigCache'', mk_table config_cache_ddl config)"
  let ?e = "(''DetectionEvent'', mk_table detection_event_v4_ddl events)"
  let ?f = "(''DetectionEvent'', mk_table detection_event_v6_ddl (map upgrade_event_v6 events))"
  let ?o = "(''SnapshotOutbox'', mk_table snapshot_outbox_v5_ddl outbox)"
  let ?x = "(''idx_detection_event_delivery_status_created_at_utc'', ''DetectionEvent'', [''DeliveryStatus'', ''CreatedAtUtc''])"
  let ?y = "(''idx_snapshot_outbox_upload_status_captured_at_utc'', ''SnapshotOutbox'', [''UploadStatus'', ''CapturedAtUtc''])"
  have fit: "rows_fit detection_event_v6_ddl (map upgrade_event_v6 events)" "rows_fit snapshot_outbox_v6_ddl (map upgrade_outbox outbox)"
    using assms by (auto intro: fit_event_v6 fit_outbox simp: event_ddl_def outbox_ddl_def)
  have copy: "exec_statement False ?copy \<lparr>db_tables = [?v, ?c, ?i, ?e, ?o, (''DetectionEvent_v6'', mk_table detection_event_v6_ddl [])], db_indexes = [?x, ?y]\<rparr>
    = Inr \<lparr>db_tables = [?v, ?c, ?i, ?e, ?o, (''DetectionEvent_v6'', mk_table detection_event_v6_ddl (map upgrade_event_v6 events))], db_indexes = [?x, ?y]\<rparr>"
    by (subst exec_copy [OF _ _ copy_columns(5) _ complete_event_v6, where s = "mk_table detection_event_v4_ddl events"])
       (simp_all add: copy_columns fit no_references)
  have copy2: "exec_statement False ?copy2 \<lparr>db_tables = [?v, ?c, ?i, ?o, ?f, (''SnapshotOutbox_v6'', mk_table snapshot_outbox_v6_ddl [])], db_indexes = [?y, ?x]\<rparr>
    = Inr \<lparr>db_tables = [?v, ?c, ?i, ?o, ?f, (''SnapshotOutbox_v6'', mk_table snapshot_outbox_v6_ddl (map upgrade_outbox outbox))], db_indexes = [?y, ?x]\<rparr>"
    by (subst exec_copy [OF _ _ copy_columns(7) _ complete_outbox, where s = "mk_table snapshot_outbox_v5_ddl outbox"])
       (simp_all add: copy_columns fit no_references)
  have o: "retarget ''DetectionEvent_v6'' ''DetectionEvent'' (mk_table snapshot_outbox_v5_ddl outbox) = mk_table snapshot_outbox_v5_ddl outbox"
    "retarget ''SnapshotOutbox_v6'' ''SnapshotOutbox'' (mk_table snapshot_outbox_v6_ddl rows) = mk_table snapshot_outbox_v6_ddl rows" for rows
    by (simp_all add: retarget_def mk_table_def snapshot_outbox_v5_ddl_def snapshot_outbox_v6_ddl_def outbox_table_def)
  show ?thesis
    using copy copy2
    by (simp add: MIGRATION_V5_TO_V6_STATEMENTS_def create_event_index_def create_outbox_index_def store_def identity_ddl_def
        event_ddl_def outbox_ddl_def mk_table_def [symmetric] with_table_def no_references retarget_same o index_columns version_row_ok)
qed

section \<open>The whole upgrade\<close>

definition opened :: "database \<Rightarrow> connection" where
  "opened db = \<lparr>cn_database = db, cn_foreign_keys = True\<rparr>"

lemma climb_statements:
  assumes "k < 5" and "migration k = (\<lambda>fault. run_statements fault ss)" and "exec_statements True ss db = Inr db'"
  shows "climb no_faults k (Inr (int k), opened db) = climb no_faults (Suc k) (Inr (int (Suc k)), opened db')"
  using assms by (simp add: climb_unfold upgrade_def run_statements_def transaction_def no_faults_def opened_def add.commute)

lemma climb_5:
  assumes "exec_statements False MIGRATION_V5_TO_V6_STATEMENTS db = Inr db'"
  shows "climb no_faults 5 (Inr 5, opened db) = (Inr 6, opened db')"
  using assms climb_unfold [of 5 no_faults "(Inr 5, opened db)"]
  by (simp add: climb_6 upgrade_def migration_def migrate_v5_to_v6_def run_statements_def transaction_def no_faults_def opened_def)

lemma migration_nth: "migration 1 = (\<lambda>fault. run_statements fault MIGRATION_V1_TO_V2_STATEMENTS)"
  "migration 2 = (\<lambda>fault. run_statements fault MIGRATION_V2_TO_V3_STATEMENTS)"
  "migration 3 = (\<lambda>fault. run_statements fault MIGRATION_V3_TO_V4_STATEMENTS)"
  "migration 4 = (\<lambda>fault. run_statements fault MIGRATION_V4_TO_V5_STATEMENTS)"
  by (simp_all add: migration_def fun_eq_iff migrate_v1_to_v2_def migrate_v2_to_v3_def migrate_v3_to_v4_def migrate_v4_to_v5_def)

lemma upgrade_from_5:
  assumes "rows_fit (event_ddl 5) events" and "rows_fit (outbox_ddl 5) outbox"
  shows "climb no_faults 5 (Inr 5, opened (store 5 identity config events outbox))
    = (Inr 6, opened (store 6 identity config (map upgrade_event_v6 events) (map upgrade_outbox outbox)))"
  by (rule climb_5) (rule exec_v5_to_v6 [OF assms])

lemma rows_fit_nil: "rows_fit d []"
  by (simp add: rows_fit_def split: option.split)

lemma upgrade_from_4:
  assumes "rows_fit (event_ddl 4) events"
  shows "climb no_faults 4 (Inr 4, opened (store 4 identity config events []))
    = (Inr 6, opened (store 6 identity config (map upgrade_event_v6 events) []))"
  using climb_statements [OF _ migration_nth(4) exec_v4_to_v5, of identity config events] upgrade_from_5 [of events "[]"] assms
  by (simp add: event_ddl_def rows_fit_nil)

lemma upgrade_from_3:
  assumes "rows_fit (event_ddl 3) events"
  shows "climb no_faults 3 (Inr 3, opened (store 3 identity config events []))
    = (Inr 6, opened (store 6 identity config (map upgrade_event_v6 (map upgrade_event_v4 events)) []))"
  using climb_statements [OF _ migration_nth(3) exec_v3_to_v4 [OF assms], of identity config]
    upgrade_from_4 [of "map upgrade_event_v4 events"] assms fit_event_v4 [of events]
  by (simp add: event_ddl_def del: map_map)

lemma upgrade_from_2:
  "climb no_faults 2 (Inr 2, opened (store 2 identity config [] [])) = (Inr 6, opened (store 6 identity config [] []))"
  using climb_statements [OF _ migration_nth(2) exec_v2_to_v3, of identity config] upgrade_from_3 [of "[]"]
  by (simp add: rows_fit_nil)

lemma upgrade_from_1:
  assumes "rows_fit (identity_ddl 1) identity"
  shows "climb no_faults 1 (Inr 1, opened (store 1 identity config [] []))
    = (Inr 6, opened (store 6 (map upgrade_identity identity) config [] []))"
  using climb_statements [OF _ migration_nth(1) exec_v1_to_v2 [OF assms], of config] upgrade_from_2
  by (simp add: numeral_2_eq_2)

lemma store_recorded: "1 \<le> v \<Longrightarrow> recorded v (opened (store v identity config events outbox))"
  by (simp add: recorded_def opened_def store_def version_rows_def version_read_def cell_of_def)

lemma carried_events_v3: "carried detection_event_v3_ddl rows (map upgrade_event_v6 (map upgrade_event_v4 rows))"
  by (rule carried_trans [OF carried_event_v4 carried_event_v6]) (auto simp: ddl_defs)

lemma version_cases: "(1::nat) \<le> v \<Longrightarrow> v \<le> 6 \<Longrightarrow> (v = 1 \<Longrightarrow> P) \<Longrightarrow> (v = 2 \<Longrightarrow> P) \<Longrightarrow> (v = 3 \<Longrightarrow> P) \<Longrightarrow> (v = 4 \<Longrightarrow> P)
    \<Longrightarrow> (v = 5 \<Longrightarrow> P) \<Longrightarrow> (v = 6 \<Longrightarrow> P) \<Longrightarrow> P"
  by linarith

lemma upgrade_from:
  assumes "1 \<le> v" and "v \<le> 6" and "rows_fit (identity_ddl v) identity" and "rows_fit (event_ddl v) events"
    and "rows_fit (outbox_ddl v) outbox" and "v < 3 \<longrightarrow> events = []" and "v < 5 \<longrightarrow> outbox = []"
  obtains identity' events' outbox' where
    "climb no_faults v (Inr (int v), opened (store v identity config events outbox))
     = (Inr 6, opened (store 6 identity' config events' outbox'))"
    "carried (identity_ddl v) identity identity'" "carried (event_ddl v) events events'" "carried (outbox_ddl v) outbox outbox'"
    "rows_fit (identity_ddl 6) identity'" "rows_fit (event_ddl 6) events'" "rows_fit (outbox_ddl 6) outbox'"
proof (rule version_cases [OF assms(1,2)])
  assume v: "v = 1"
  show thesis
    by (rule that [of "map upgrade_identity identity" "[]" "[]"])
       (use assms v upgrade_from_1 [of identity config] carried_identity [of identity] fit_identity [of identity] in
         \<open>simp_all add: identity_ddl_def event_ddl_def outbox_ddl_def carried_refl rows_fit_nil\<close>)
next
  assume v: "v = 2"
  show thesis
    by (rule that [of identity "[]" "[]"])
       (use assms v upgrade_from_2 [of identity config] in
         \<open>simp_all add: identity_ddl_def event_ddl_def outbox_ddl_def carried_refl rows_fit_nil\<close>)
next
  assume v: "v = 3"
  have "rows_fit detection_event_v6_ddl (map upgrade_event_v6 (map upgrade_event_v4 events))"
    using assms(4) v by (intro fit_event_v6 fit_event_v4) (simp add: event_ddl_def)
  then show thesis
    by (intro that [of identity "map upgrade_event_v6 (map upgrade_event_v4 events)" "[]"])
       (use assms v upgrade_from_3 [of events identity config] carried_events_v3 [of events] in
         \<open>simp_all add: identity_ddl_def event_ddl_def outbox_ddl_def carried_refl rows_fit_nil del: map_map\<close>)
next
  assume v: "v = 4"
  show thesis
    by (rule that [of identity "map upgrade_event_v6 events" "[]"])
       (use assms v upgrade_from_4 [of events identity config] carried_event_v6 [of events] fit_event_v6 [of events] in
         \<open>simp_all add: identity_ddl_def event_ddl_def outbox_ddl_def carried_refl rows_fit_nil\<close>)
next
  assume v: "v = 5"
  show thesis
    by (rule that [of identity "map upgrade_event_v6 events" "map upgrade_outbox outbox"])
       (use assms v upgrade_from_5 [of events outbox identity config] carried_event_v6 [of events] fit_event_v6 [of events]
          carried_outbox [of outbox] fit_outbox [of outbox] in
         \<open>simp_all add: identity_ddl_def event_ddl_def outbox_ddl_def carried_refl\<close>)
next
  assume v: "v = 6"
  show thesis
    by (rule that [of identity events outbox])
       (use assms v in \<open>simp_all add: identity_ddl_def event_ddl_def outbox_ddl_def carried_refl climb_6\<close>)
qed

text \<open>
  C10.  Upgrading loses nothing.  A database of any version from 1 to 6, with any rows its constraints allow, is
  brought to version 6: it has exactly the tables and indexes of that version, the cached configuration is
  untouched, every row of the identity, the events and the outbox is there, in its place, with the value it
  had in each of its columns, and the new constraints hold.
\<close>

theorem migration_preserves_data:
  assumes "1 \<le> v" and "v \<le> 6" and "rows_fit (identity_ddl v) identity" and "rows_fit (event_ddl v) events"
    and "rows_fit (outbox_ddl v) outbox" and "v < 3 \<longrightarrow> events = []" and "v < 5 \<longrightarrow> outbox = []"
  shows "\<exists>identity' events' outbox'.
    initialize_database None None no_faults (store v identity config events outbox) = (Inr 6, store 6 identity' config events' outbox')
    \<and> carried (identity_ddl v) identity identity' \<and> carried (event_ddl v) events events' \<and> carried (outbox_ddl v) outbox outbox'
    \<and> rows_fit (identity_ddl 6) identity' \<and> rows_fit (event_ddl 6) events' \<and> rows_fit (outbox_ddl 6) outbox'"
proof -
  obtain identity' events' outbox' where u:
    "climb no_faults v (Inr (int v), opened (store v identity config events outbox))
     = (Inr 6, opened (store 6 identity' config events' outbox'))"
    "carried (identity_ddl v) identity identity'" "carried (event_ddl v) events events'" "carried (outbox_ddl v) outbox outbox'"
    "rows_fit (identity_ddl 6) identity'" "rows_fit (event_ddl 6) events'" "rows_fit (outbox_ddl 6) outbox'"
    using assms by (rule upgrade_from [where config = config])
  have "initialize_schema None no_faults (opened (store v identity config events outbox))
      = (Inr 6, opened (store 6 identity' config events' outbox'))"
    using initialize_recorded [OF store_recorded [OF assms(1)] assms(2), of no_faults] u(1)
    by (simp add: finish_def CURRENT_SCHEMA_VERSION_def)
  then have "initialize_database None None no_faults (store v identity config events outbox)
      = (Inr 6, store 6 identity' config events' outbox')"
    by (simp add: initialize_database_def opened_def)
  with u(2-7) show ?thesis by blast
qed

text \<open>A fresh database gets the same tables, empty.\<close>

theorem fresh_database:
  "initialize_database None None no_faults \<lparr>db_tables = [], db_indexes = []\<rparr> = (Inr 6, store 6 [] [] [] [])"
proof -
  have "climb no_faults 0 (Inr 0, opened \<lparr>db_tables = [], db_indexes = []\<rparr>)
      = climb no_faults 1 (Inr 1, opened (store 1 [] [] [] []))"
    by (simp add: climb_unfold [of 0] migration_def apply_version_1_def upgrade_def run_statements_def transaction_def no_faults_def
        SCHEMA_V1_STATEMENTS_def opened_def store_def identity_ddl_def mk_table_def with_table_def index_columns insert_row_def
        complete_row_def version_row_ok key_free_def no_references)
       (simp add: schema_version_ddl_def plain_table_def required_def row_ok_def key_free_def cell_of_def references_ok_def)
  then show ?thesis
    using upgrade_from_1 [of "[]" "[]"]
    by (simp add: initialize_database_def initialize_schema_climb read_schema_version_def recorded_version_def opened_def
        finish_def CURRENT_SCHEMA_VERSION_def rows_fit_nil)
qed

definition demo_identity :: row where
  "demo_identity =
     [(''SingletonGuard'', SqlInt 1), (''DeviceId'', SqlText ''d''), (''ProtectedSharedSecret'', SqlText ''s''),
      (''ActivatedAt'', SqlText ''t''), (''LastActivatedAt'', SqlText ''t'')]"

lemma demo_identity_fits: "rows_fit (identity_ddl 1) [demo_identity]"
  by (simp add: rows_fit_def row_ok_def identity_ddl_def ddl_defs demo_identity_def cell_of_def)

theorem migration_preserves_data_witness:
  "\<exists>identity' events' outbox'.
     initialize_database None None no_faults (store 1 [demo_identity] [] [] []) = (Inr 6, store 6 identity' [] events' outbox')
     \<and> carried (identity_ddl 1) [demo_identity] identity'"
  using migration_preserves_data [of 1 "[demo_identity]" "[]" "[]" "[]"] demo_identity_fits
  by (auto simp: rows_fit_nil)

text \<open>An interruption: the third migration fails, and the second attempt completes the upgrade.\<close>

theorem interrupted_migration_resumes_witness:
  "initialize_schema None no_faults
     (snd (initialize_schema None (\<lambda>v. if v = 3 then Some SqliteError else None) (opened (store 1 [demo_identity] [] [] []))))
   = initialize_schema None no_faults (opened (store 1 [demo_identity] [] [] []))"
proof -
  let ?faults = "\<lambda>v. if v = 3 then Some SqliteError else None"
  obtain r c' where "initialize_schema None ?faults (opened (store 1 [demo_identity] [] [] [])) = (r, c')" by fastforce
  with interrupted_migration_resumes [OF _ this] show ?thesis by (simp add: opened_def)
qed

text \<open>
  The version-3 table already allows the status \<^verbatim>\<open>delivered\<close>, though the comment on the fourth migration says
  it widens the check from \<^verbatim>\<open>pending\<close> alone: a delivered row passes through with no delivery time.
\<close>

lemma v3_accepts_delivered:
  "td_checks detection_event_v3_ddl = td_checks detection_event_v4_ddl"
  by (simp add: ddl_defs)

text \<open>
  A database written by a newer build is refused without a change, and a current one is left as it is.
\<close>

lemma newer_database_untouched:
  "read_schema_version None c = Inr (Some v) \<Longrightarrow> 6 < v \<Longrightarrow> initialize_schema None faults c = (Inl UnsupportedSchemaVersionError, c)"
  by (rule initialize_too_new)

lemma current_database_untouched:
  "recorded 6 c \<Longrightarrow> initialize_schema None faults c = (Inr 6, c)"
  by (simp add: initialize_recorded climb_6 finish_def CURRENT_SCHEMA_VERSION_def)

end
