(* ===== verification/IniReader.thy ===== *)
theory IniReader
  imports DeepStream
begin

text \<open>
  The reading side of \<^verbatim>\<open>configparser\<close>: \<^verbatim>\<open>RawConfigParser._read\<close> with the default settings (delimiters
  \<^verbatim>\<open>=\<close> and \<^verbatim>\<open>:\<close>, whole-line comments with \<^verbatim>\<open>#\<close> and \<^verbatim>\<open>;\<close>, empty lines in values, strict), the typed getters of a section,
  and that a document written by the generator is read back.
\<close>

abbreviation DuplicateOptionError :: exn where "DuplicateOptionError \<equiv> OtherException ''DuplicateOptionError''"
abbreviation MissingSectionHeaderError :: exn where "MissingSectionHeaderError \<equiv> OtherException ''MissingSectionHeaderError''"
abbreviation ParsingError :: exn where "ParsingError \<equiv> OtherException ''ParsingError''"

section \<open>Lines\<close>

text \<open>A text file is read with universal newlines.\<close>

fun universal_newlines :: "string \<Rightarrow> string" where
  "universal_newlines [] = []"
| "universal_newlines [c] = [if c = CHR 0x0D then CHR 0x0A else c]"
| "universal_newlines (c # d # s) =
     (if c = CHR 0x0D
      then CHR 0x0A # (if d = CHR 0x0A then universal_newlines s else universal_newlines (d # s))
      else c # universal_newlines (d # s))"

fun split_lines :: "string \<Rightarrow> string list" where
  "split_lines [] = []"
| "split_lines (c # s) =
     (if c = CHR 0x0A then [] # split_lines s
      else case split_lines s of [] \<Rightarrow> [[c]] | l # ls \<Rightarrow> (c # l) # ls)"

lemma split_lines_line: "CHR 0x0A \<notin> set l \<Longrightarrow> split_lines (l @ CHR 0x0A # rest) = l # split_lines rest"
  by (induction l) (auto split: list.split)

lemma universal_newlines_id: "CHR 0x0D \<notin> set s \<Longrightarrow> universal_newlines s = s"
  by (induction s rule: universal_newlines.induct) auto

section \<open>The state of the reader\<close>

text \<open>
  Values are lists of lines until the end.  \<open>rd_section\<close> is the current section (\<^verbatim>\<open>DEFAULT\<close> for the
  defaults), \<open>rd_seen\<close> the sections and options added, and \<open>rd_error\<close> records a line that could not be parsed.
\<close>

record reader =
  rd_defaults :: "(string \<times> string list) list"
  rd_sections :: "(string \<times> (string \<times> string list) list) list"
  rd_section :: "string option"
  rd_option :: "string option"
  rd_indent :: nat
  rd_seen :: "(string \<times> string option) list"
  rd_error :: bool

definition new_reader :: reader where
  "new_reader = \<lparr>rd_defaults = [], rd_sections = [], rd_section = None, rd_option = None, rd_indent = 0,
     rd_seen = [], rd_error = False\<rparr>"

definition strip :: "string \<Rightarrow> string" where
  "strip s = strip_by is_space s"

definition rstrip :: "string \<Rightarrow> string" where
  "rstrip s = rev (dropWhile is_space (rev s))"

definition is_comment :: "string \<Rightarrow> bool" where
  "is_comment line \<longleftrightarrow> starts_with ''#'' (strip line) \<or> starts_with '';'' (strip line)"

text \<open>\<^verbatim>\<open>SECTCRE\<close>: a bracket, at least one character, a closing bracket; anything may follow.\<close>

definition section_header :: "string \<Rightarrow> string option" where
  "section_header s =
     (case s of
        c # r \<Rightarrow>
          let name = takeWhile (\<lambda>c. c \<noteq> CHR '']'') r
          in if c = CHR ''['' \<and> name \<noteq> [] \<and> length name < length r then Some name else None
      | [] \<Rightarrow> None)"

text \<open>\<^verbatim>\<open>OPTCRE\<close>: the text before the first delimiter and the text after it, both stripped.\<close>

definition split_option :: "string \<Rightarrow> (string \<times> string) option" where
  "split_option s =
     (let k = takeWhile (\<lambda>c. c \<noteq> CHR ''='' \<and> c \<noteq> CHR '':'') s
      in if length k < length s then Some (rstrip k, strip (drop (Suc (length k)) s)) else None)"

definition update_options :: "string \<Rightarrow> ((string \<times> string list) list \<Rightarrow> (string \<times> string list) list) \<Rightarrow> reader \<Rightarrow> reader" where
  "update_options sec f st =
     (if sec = ''DEFAULT'' then st\<lparr>rd_defaults := f (rd_defaults st)\<rparr>
      else st\<lparr>rd_sections := map (\<lambda>(n, opts). (n, if n = sec then f opts else opts)) (rd_sections st)\<rparr>)"

definition append_line :: "string \<Rightarrow> reader \<Rightarrow> reader" where
  "append_line l st =
     (case (rd_section st, rd_option st) of
        (Some sec, Some k) \<Rightarrow> update_options sec (map (\<lambda>(k', ls). (k', if k' = k then ls @ [l] else ls))) st
      | _ \<Rightarrow> st)"

definition continuing :: "reader \<Rightarrow> bool" where
  "continuing st \<longleftrightarrow> rd_section st \<noteq> None \<and> rd_option st \<noteq> None \<and> rd_option st \<noteq> Some []"

definition read_header :: "string \<Rightarrow> reader \<Rightarrow> exn + reader" where
  "read_header name st =
     (if name \<in> fst ` set (rd_sections st)
      then if (name, None) \<in> set (rd_seen st) then Inl DuplicateSectionError
           else Inr (st\<lparr>rd_section := Some name, rd_option := None, rd_seen := (name, None) # rd_seen st\<rparr>)
      else if name = ''DEFAULT'' then Inr (st\<lparr>rd_section := Some name, rd_option := None\<rparr>)
      else Inr (st\<lparr>rd_sections := rd_sections st @ [(name, [])], rd_section := Some name, rd_option := None,
                  rd_seen := (name, None) # rd_seen st\<rparr>))"

definition read_option :: "(string \<Rightarrow> string) \<Rightarrow> string \<Rightarrow> string \<Rightarrow> reader \<Rightarrow> exn + reader" where
  "read_option optionxform sec value st =
     (case split_option value of
        None \<Rightarrow> Inr (st\<lparr>rd_error := True\<rparr>)
      | Some (k, v) \<Rightarrow>
          let st = (if k = [] then st\<lparr>rd_error := True\<rparr> else st); k = optionxform k
          in if (sec, Some k) \<in> set (rd_seen st) then Inl DuplicateOptionError
             else Inr (update_options sec (dict_put k [v]) (st\<lparr>rd_option := Some k, rd_seen := (sec, Some k) # rd_seen st\<rparr>)))"

definition read_line :: "(string \<Rightarrow> string) \<Rightarrow> string \<Rightarrow> reader \<Rightarrow> exn + reader" where
  "read_line optionxform line st =
     (let comment = is_comment line; value = (if comment then [] else strip line);
          indent = length (takeWhile is_space line)
      in if value = [] then Inr (if \<not> comment \<and> continuing st then append_line [] st else st)
         else if continuing st \<and> rd_indent st < indent then Inr (append_line value st)
         else let st = st\<lparr>rd_indent := indent\<rparr>
              in case section_header value of
                   Some name \<Rightarrow> read_header name st
                 | None \<Rightarrow>
                     (case rd_section st of
                        None \<Rightarrow> Inl MissingSectionHeaderError
                      | Some sec \<Rightarrow> read_option optionxform sec value st))"

fun read_lines :: "(string \<Rightarrow> string) \<Rightarrow> string list \<Rightarrow> reader \<Rightarrow> exn + reader" where
  "read_lines optionxform [] st = Inr st"
| "read_lines optionxform (l # ls) st = bind_result (read_line optionxform l st) (read_lines optionxform ls)"

fun join_lines :: "string list \<Rightarrow> string" where
  "join_lines [] = []"
| "join_lines [l] = l"
| "join_lines (l # ls) = l @ CHR 0x0A # join_lines ls"

definition joined :: "(string \<times> string list) list \<Rightarrow> options" where
  "joined opts = map (\<lambda>(k, ls). (k, rstrip (join_lines ls))) opts"

definition ini_read :: "(string \<Rightarrow> string) \<Rightarrow> string \<Rightarrow> exn + ini" where
  "ini_read optionxform s =
     bind_result (read_lines optionxform (split_lines (universal_newlines s)) new_reader) (\<lambda>st.
       if rd_error st then Inl ParsingError
       else Inr \<lparr>ini_defaults = joined (rd_defaults st), ini_sections = map (\<lambda>(n, opts). (n, joined opts)) (rd_sections st)\<rparr>)"

section \<open>The getters\<close>

definition lower :: "string \<Rightarrow> string" where
  "lower = map ascii_lower"

text \<open>\<^verbatim>\<open>section.get(key)\<close>, interpolated: \<open>None\<close> when the option is missing.\<close>

definition get_option :: "ini \<Rightarrow> options \<Rightarrow> string \<Rightarrow> exn + string option" where
  "get_option doc opts k =
     (let d = foldl (\<lambda>d (k, v). dict_put k v d) (ini_defaults doc) opts
      in case map_of d (lower k) of
           None \<Rightarrow> Inr None
         | Some v \<Rightarrow> map_sum id Some (interpolate 10 d v))"

definition is_digit :: "char \<Rightarrow> bool" where
  "is_digit c \<longleftrightarrow> c \<in> set ''0123456789''"

fun decimal_digits :: "string \<Rightarrow> nat \<Rightarrow> nat option" where
  "decimal_digits [] acc = Some acc"
| "decimal_digits (c # cs) acc =
     (if c = CHR ''_''
      then (case cs of
              d # ds \<Rightarrow> if is_digit d then decimal_digits ds (acc * 10 + (of_char d - 48)) else None
            | [] \<Rightarrow> None)
      else if is_digit c then decimal_digits cs (acc * 10 + (of_char c - 48)) else None)"

definition decimal_body :: "string \<Rightarrow> nat option" where
  "decimal_body s = (case s of c # _ \<Rightarrow> if c = CHR ''_'' then None else decimal_digits s 0 | [] \<Rightarrow> None)"

text \<open>\<^verbatim>\<open>int(s)\<close>\<close>

definition int_of_text :: "string \<Rightarrow> exn + int" where
  "int_of_text s =
     (let r = (case strip s of
                 [] \<Rightarrow> None
               | c # cs \<Rightarrow>
                   if c = CHR ''-'' then map_option (\<lambda>n. - int n) (decimal_body cs)
                   else if c = CHR ''+'' then map_option int (decimal_body cs)
                   else map_option int (decimal_body (c # cs)))
      in case r of None \<Rightarrow> Inl ValueError | Some n \<Rightarrow> Inr n)"

definition bool_of_text :: "string \<Rightarrow> exn + bool" where
  "bool_of_text s =
     (if lower s \<in> {''1'', ''yes'', ''true'', ''on''} then Inr True
      else if lower s \<in> {''0'', ''no'', ''false'', ''off''} then Inr False else Inl ValueError)"

definition get_text :: "ini \<Rightarrow> options \<Rightarrow> string \<Rightarrow> string \<Rightarrow> exn + string" where
  "get_text doc opts k fallback =
     bind_result (get_option doc opts k) (\<lambda>v. Inr (case v of None \<Rightarrow> fallback | Some s \<Rightarrow> s))"

definition get_int :: "ini \<Rightarrow> options \<Rightarrow> string \<Rightarrow> int \<Rightarrow> exn + int" where
  "get_int doc opts k fallback =
     bind_result (get_option doc opts k) (\<lambda>v. case v of None \<Rightarrow> Inr fallback | Some s \<Rightarrow> int_of_text s)"

definition get_boolean :: "ini \<Rightarrow> options \<Rightarrow> string \<Rightarrow> bool \<Rightarrow> exn + bool" where
  "get_boolean doc opts k fallback =
     bind_result (get_option doc opts k) (\<lambda>v. case v of None \<Rightarrow> Inr fallback | Some s \<Rightarrow> bool_of_text s)"

lemma read_lines_append: "read_lines f (xs @ ys) st = bind_result (read_lines f xs st) (read_lines f ys)"
  by (induction xs arbitrary: st) (simp_all add: bind_result_def split: sum.split)

section \<open>What is written is read back\<close>

text \<open>
  Plain documents: no line breaks, no white space at the ends of keys and values, keys without delimiters
  that cannot be taken for a section or a comment and are not changed by \<^verbatim>\<open>optionxform\<close>.
\<close>

definition one_line :: "string \<Rightarrow> bool" where
  "one_line s \<longleftrightarrow> CHR 0x0A \<notin> set s \<and> CHR 0x0D \<notin> set s"

definition trimmed :: "string \<Rightarrow> bool" where
  "trimmed s \<longleftrightarrow> s = [] \<or> \<not> is_space (hd s) \<and> \<not> is_space (last s)"

definition plain_name :: "string \<Rightarrow> bool" where
  "plain_name n \<longleftrightarrow> n \<noteq> [] \<and> n \<noteq> ''DEFAULT'' \<and> one_line n \<and> CHR '']'' \<notin> set n"

definition plain_key :: "(string \<Rightarrow> string) \<Rightarrow> string \<Rightarrow> bool" where
  "plain_key optionxform k \<longleftrightarrow> k \<noteq> [] \<and> trimmed k \<and> one_line k \<and> CHR ''='' \<notin> set k \<and> CHR '':'' \<notin> set k
     \<and> hd k \<noteq> CHR ''['' \<and> hd k \<noteq> CHR ''#'' \<and> hd k \<noteq> CHR '';'' \<and> optionxform k = k"

definition plain_value :: "string \<Rightarrow> bool" where
  "plain_value v \<longleftrightarrow> trimmed v \<and> one_line v"

definition plain_options :: "(string \<Rightarrow> string) \<Rightarrow> options \<Rightarrow> bool" where
  "plain_options optionxform opts \<longleftrightarrow>
     distinct (map fst opts) \<and> list_all (\<lambda>(k, v). plain_key optionxform k \<and> plain_value v) opts"

definition plain_document :: "(string \<Rightarrow> string) \<Rightarrow> ini \<Rightarrow> bool" where
  "plain_document optionxform doc \<longleftrightarrow> ini_defaults doc = [] \<and> distinct (map fst (ini_sections doc))
     \<and> list_all (\<lambda>(n, opts). plain_name n \<and> plain_options optionxform opts) (ini_sections doc)"

definition option_line :: "string \<times> string \<Rightarrow> string" where
  "option_line kv = fst kv @ '' = '' @ snd kv"

definition header_line :: "string \<Rightarrow> string" where
  "header_line n = ''['' @ n @ '']''"

definition document_lines :: "(string \<times> options) list \<Rightarrow> string list" where
  "document_lines secs = concat (map (\<lambda>(n, opts). header_line n # map option_line opts @ [[]]) secs)"

lemma dropWhile_head: "s = [] \<or> \<not> p (hd s) \<Longrightarrow> dropWhile p s = s"
  by (cases s) auto

lemma rstrip_trimmed: "trimmed s \<Longrightarrow> rstrip s = s"
  by (cases "s = []") (simp_all add: rstrip_def trimmed_def dropWhile_head hd_rev)

lemma strip_trimmed: "trimmed s \<Longrightarrow> strip s = s"
  unfolding strip_def strip_by_def by (auto simp: trimmed_def dropWhile_head hd_rev)

lemma rstrip_space: "is_space c \<Longrightarrow> rstrip (s @ [c]) = rstrip s"
  by (simp add: rstrip_def)

lemma strip_space: "is_space c \<Longrightarrow> strip (c # s) = strip s"
  by (simp add: strip_def strip_by_def)

lemma spaces: "is_space CHR '' ''" "is_space CHR 0x0A" "\<not> is_space CHR ''=''" "\<not> is_space CHR ''[''" "\<not> is_space CHR '']''"
  by (simp_all add: is_space_def)

lemma strip_option_line:
  assumes "k \<noteq> []" and "trimmed k" and "trimmed v"
  shows "strip (k @ '' = '' @ v) = (if v = [] then k @ '' ='' else k @ '' = '' @ v)"
proof (cases "v = []")
  case True
  have "strip (k @ '' = '') = rev (dropWhile is_space (rev (k @ '' = '')))"
    using assms(1,2) by (simp add: strip_def strip_by_def trimmed_def dropWhile_head)
  also have "\<dots> = k @ '' =''" using spaces by simp
  finally show ?thesis using True by simp
next
  case False
  have "trimmed (k @ '' = '' @ v)" using assms False by (simp add: trimmed_def)
  then show ?thesis using False by (simp add: strip_trimmed)
qed

lemma takeWhile_key:
  assumes "CHR ''='' \<notin> set k" and "CHR '':'' \<notin> set k"
  shows "takeWhile (\<lambda>c. c \<noteq> CHR ''='' \<and> c \<noteq> CHR '':'') (k @ CHR '' '' # CHR ''='' # s) = k @ '' ''"
  using assms by (induction k) auto

lemma split_option_line:
  assumes "plain_key f k" and "plain_value v"
  shows "split_option (strip (option_line (k, v))) = Some (k, v)"
proof -
  have k: "k \<noteq> []" "trimmed k" "CHR ''='' \<notin> set k" "CHR '':'' \<notin> set k" using assms(1) by (simp_all add: plain_key_def)
  have v: "trimmed v" using assms(2) by (simp add: plain_value_def)
  obtain t where t: "strip (option_line (k, v)) = k @ CHR '' '' # CHR ''='' # t" "strip t = v"
  proof (cases "v = []")
    case True
    then show ?thesis using that [of "[]"] strip_option_line [OF k(1,2) v]
      by (simp add: option_line_def strip_def strip_by_def)
  next
    case False
    then show ?thesis using that [of "CHR '' '' # v"] strip_option_line [OF k(1,2) v] strip_trimmed [OF v] spaces
      by (simp add: option_line_def strip_space)
  qed
  have "rstrip (k @ '' '') = k" using rstrip_space [of "CHR '' ''" k] rstrip_trimmed [OF k(2)] spaces by simp
  then show ?thesis
    unfolding t(1) split_option_def using t(2) by (simp add: takeWhile_key [OF k(3,4)] Let_def)
qed

text \<open>A reader between two lines of a document.\<close>

definition at_section :: "string \<Rightarrow> options \<Rightarrow> (string \<times> (string \<times> string list) list) list \<Rightarrow> reader \<Rightarrow> bool" where
  "at_section n opts secs st \<longleftrightarrow> rd_defaults st = [] \<and> rd_sections st = secs @ [(n, map (\<lambda>(k, v). (k, [v])) opts)]
     \<and> n \<notin> fst ` set secs \<and> n \<noteq> ''DEFAULT'' \<and> rd_section st = Some n
     \<and> rd_option st = (if opts = [] then None else Some (fst (last opts)))
     \<and> (\<forall>k. (n, Some k) \<in> set (rd_seen st) \<longrightarrow> k \<in> fst ` set opts)
     \<and> (\<forall>m k. (m, k) \<in> set (rd_seen st) \<longrightarrow> m = n \<or> m \<in> fst ` set secs) \<and> rd_indent st = 0 \<and> \<not> rd_error st"

lemma dict_put_new: "k \<notin> fst ` set d \<Longrightarrow> dict_put k v d = d @ [(k, v)]"
  by (induction k v d rule: dict_put.induct) auto

lemma update_last:
  "n \<notin> fst ` set secs \<Longrightarrow> map (\<lambda>(m, opts). (m, if m = n then f opts else opts)) secs = secs"
  by (induction secs) auto

lemma line_indent: "s \<noteq> [] \<Longrightarrow> \<not> is_space (hd s) \<Longrightarrow> takeWhile is_space (s @ t) = []"
  by (cases s) auto

lemma read_option_line:
  assumes s: "at_section n opts secs st" and kv: "plain_key f k" "plain_value v" and "k \<notin> fst ` set opts"
  shows "\<exists>st'. read_line f (option_line (k, v)) st = Inr st' \<and> at_section n (opts @ [(k, v)]) secs st'"
proof -
  have k: "k \<noteq> []" "trimmed k" "f k = k" "hd k \<noteq> CHR ''[''" "hd k \<noteq> CHR ''#''" "hd k \<noteq> CHR '';''"
    using kv(1) by (simp_all add: plain_key_def)
  have v: "trimmed v" using kv(2) by (simp add: plain_value_def)
  have val: "strip (option_line (k, v)) \<noteq> []" "hd (strip (option_line (k, v))) = hd k"
    using strip_option_line [OF k(1,2) v] k(1) by (simp_all add: option_line_def)
  have nc: "\<not> is_comment (option_line (k, v))"
    using val k by (cases "strip (option_line (k, v))") (auto simp: is_comment_def)
  have nh: "section_header (strip (option_line (k, v))) = None"
    using val k by (cases "strip (option_line (k, v))") (auto simp: section_header_def Let_def)
  have ind: "takeWhile is_space (option_line (k, v)) = []"
    unfolding option_line_def fst_conv snd_conv using k(1,2) by (intro line_indent) (simp_all add: trimmed_def)
  have new: "(n, Some k) \<notin> set (rd_seen st)" using s assms(4) by (auto simp: at_section_def)
  have keys: "k \<notin> fst ` set (map (\<lambda>(k, v). (k, [v])) opts)" using assms(4) by force
  let ?st = "update_options n (dict_put k [v]) (st\<lparr>rd_indent := 0, rd_option := Some k, rd_seen := (n, Some k) # rd_seen st\<rparr>)"
  have "read_line f (option_line (k, v)) st = Inr ?st"
    using s val nc nh ind new k(1,3) split_option_line [OF kv]
    by (simp add: read_line_def read_option_def at_section_def Let_def)
  moreover have "at_section n (opts @ [(k, v)]) secs ?st"
    using s by (auto simp: at_section_def update_options_def update_last dict_put_new [OF keys])
  ultimately show ?thesis by blast
qed

lemma read_option_lines:
  assumes "at_section n opts secs st" and "plain_options f (opts @ later)"
  shows "\<exists>st'. read_lines f (map option_line later) st = Inr st' \<and> at_section n (opts @ later) secs st'"
  using assms
proof (induction later arbitrary: opts st)
  case (Cons kv later)
  obtain k v where kv: "kv = (k, v)" by (cases kv)
  have "plain_key f k" "plain_value v" "k \<notin> fst ` set opts" using Cons.prems(2) kv by (auto simp: plain_options_def)
  from read_option_line [OF Cons.prems(1) this] obtain st' where st': "read_line f (option_line (k, v)) st = Inr st'"
    "at_section n (opts @ [(k, v)]) secs st'" by blast
  from Cons.IH [OF st'(2)] Cons.prems(2) kv st'(1) show ?case by simp
qed simp

lemma read_header_line:
  assumes "plain_name n"
  shows "read_line f (header_line n) st
    = (if continuing st \<and> rd_indent st < 0 then read_line f (header_line n) st else read_header n (st\<lparr>rd_indent := 0\<rparr>))"
proof -
  have t: "trimmed (header_line n)" using spaces by (simp add: trimmed_def header_line_def)
  have n: "n \<noteq> []" "CHR '']'' \<notin> set n" using assms by (simp_all add: plain_name_def)
  have "takeWhile (\<lambda>c. c \<noteq> CHR '']'') (n @ '']'') = n" using n(2) by (induction n) auto
  then have "section_header (header_line n) = Some n" using n(1) by (simp add: section_header_def header_line_def)
  moreover have "\<not> is_comment (header_line n)" by (simp add: is_comment_def strip_trimmed [OF t]) (simp add: header_line_def)
  moreover have "takeWhile is_space (header_line n) = []" using spaces by (simp add: header_line_def)
  moreover have "header_line n \<noteq> []" by (simp add: header_line_def)
  ultimately show ?thesis by (simp add: read_line_def strip_trimmed [OF t] Let_def)
qed

text \<open>The reader after whole sections: what it holds joins to them.\<close>

definition after_sections :: "(string \<times> options) list \<Rightarrow> reader \<Rightarrow> bool" where
  "after_sections secs st \<longleftrightarrow> rd_defaults st = [] \<and> map (\<lambda>(n, opts). (n, joined opts)) (rd_sections st) = secs
     \<and> (\<forall>m k. (m, k) \<in> set (rd_seen st) \<longrightarrow> m \<in> fst ` set secs) \<and> rd_indent st = 0 \<and> \<not> rd_error st"

lemma joined_nil: "joined [] = []"
  by (simp add: joined_def)

lemma joined_plain: "list_all (\<lambda>(k, v). plain_value v) opts \<Longrightarrow> joined (map (\<lambda>(k, v). (k, [v])) opts) = opts"
  by (induction opts) (auto simp: joined_def plain_value_def rstrip_trimmed)

lemma joined_blank:
  assumes "list_all (\<lambda>(k, v). plain_value v) opts"
  shows "joined (map (\<lambda>(k', ls). (k', if k' = k then ls @ [[]] else ls)) (map (\<lambda>(k, v). (k, [v])) opts)) = opts"
proof -
  have "rstrip (v @ [CHR 0x0A]) = v" if "plain_value v" for v
    using that rstrip_space [of "CHR 0x0A" v] spaces rstrip_trimmed by (simp add: plain_value_def)
  then show ?thesis using assms by (induction opts) (auto simp: joined_def plain_value_def rstrip_trimmed)
qed

lemma read_section:
  assumes a: "after_sections secs st" and n: "plain_name n" "n \<notin> fst ` set secs" and o: "plain_options f opts"
  shows "\<exists>st'. read_lines f (header_line n # map option_line opts @ [[]]) st = Inr st' \<and> after_sections (secs @ [(n, opts)]) st'"
proof -
  have names: "fst ` set (rd_sections st) = fst ` set secs"
    using a by (force simp: after_sections_def)
  let ?st = "st\<lparr>rd_indent := 0, rd_sections := rd_sections st @ [(n, [])], rd_section := Some n, rd_option := None,
      rd_seen := (n, None) # rd_seen st\<rparr>"
  have h: "read_line f (header_line n) st = Inr ?st"
    using read_header_line [OF n(1), of f st] n names by (simp add: read_header_def plain_name_def)
  have "at_section n [] (rd_sections st) ?st"
    using a n names by (auto simp: at_section_def after_sections_def plain_name_def)
  from read_option_lines [OF this, of f opts] o obtain st1 where st1: "read_lines f (map option_line opts) ?st = Inr st1"
    "at_section n opts (rd_sections st) st1" by auto
  let ?st2 = "if continuing st1 then append_line [] st1 else st1"
  have blank: "read_lines f [[]] st1 = Inr ?st2"
    by (simp add: read_line_def is_comment_def strip_def strip_by_def Let_def)
  have v: "list_all (\<lambda>(k, v). plain_value v) opts" using o by (auto simp: plain_options_def list_all_iff)
  have "after_sections (secs @ [(n, opts)]) ?st2"
    using st1(2) a names joined_plain [OF v] joined_blank [OF v]
    by (auto simp: after_sections_def at_section_def append_line_def update_options_def update_last)
  moreover have "read_lines f (header_line n # map option_line opts @ [[]]) st = Inr ?st2"
    using h st1(1) blank by (simp add: read_lines_append)
  ultimately show ?thesis by blast
qed

lemma read_sections:
  assumes "after_sections secs st" and "list_all (\<lambda>(n, opts). plain_name n \<and> plain_options f opts) later"
    and "distinct (map fst (secs @ later))"
  shows "\<exists>st'. read_lines f (document_lines later) st = Inr st' \<and> after_sections (secs @ later) st'"
  using assms
proof (induction later arbitrary: secs st)
  case (Cons x later)
  obtain n opts where x: "x = (n, opts)" by (cases x)
  have "plain_name n" "n \<notin> fst ` set secs" "plain_options f opts" using Cons.prems x by auto
  from read_section [OF Cons.prems(1) this] obtain st1 where st1: "read_lines f (header_line n # map option_line opts @ [[]]) st = Inr st1"
    "after_sections (secs @ [(n, opts)]) st1" by blast
  from Cons.IH [OF st1(2)] Cons.prems(2,3) x obtain st' where "read_lines f (document_lines later) st1 = Inr st'"
    "after_sections ((secs @ [(n, opts)]) @ later) st'" by auto
  moreover have "document_lines (x # later) = (header_line n # map option_line opts @ [[]]) @ document_lines later"
    by (simp add: document_lines_def x)
  ultimately show ?case using st1(1) x by (simp only: read_lines_append) simp
qed (simp add: document_lines_def)

definition unlines :: "string list \<Rightarrow> string" where
  "unlines ls = concat (map (\<lambda>l. l @ [CHR 0x0A]) ls)"

lemma split_unlines: "list_all one_line ls \<Longrightarrow> split_lines (unlines ls) = ls"
  by (induction ls) (auto simp: unlines_def one_line_def split_lines_line)

lemma unlines_no_return: "list_all one_line ls \<Longrightarrow> CHR 0x0D \<notin> set (unlines ls)"
  by (induction ls) (auto simp: unlines_def one_line_def)

lemma value_text_one_line: "one_line v \<Longrightarrow> value_text v = v"
  by (induction v) (auto simp: value_text_def one_line_def)

lemma section_text_lines:
  assumes "plain_options f opts"
  shows "section_text (n, opts) = unlines (header_line n # map option_line opts @ [[]])"
proof -
  have "list_all (\<lambda>(k, v). one_line v) opts" using assms by (auto simp: plain_options_def plain_value_def list_all_iff)
  then have "concat (map (\<lambda>(k, v). k @ '' = '' @ value_text v @ [CHR 0x0A]) opts) = unlines (map option_line opts)"
    by (induction opts) (auto simp: unlines_def option_line_def value_text_one_line)
  then show ?thesis by (simp add: section_text_def unlines_def header_line_def)
qed

lemma document_text_lines:
  assumes "list_all (\<lambda>(n, opts). plain_name n \<and> plain_options f opts) secs"
  shows "concat (map section_text secs) = unlines (document_lines secs)" and "list_all one_line (document_lines secs)"
  using assms
proof (induction secs)
  case (Cons x secs)
  obtain n opts where x: "x = (n, opts)" by (cases x)
  {
    case 1
    then show ?case using Cons.IH(1) x section_text_lines [of f opts n]
      by (simp add: document_lines_def unlines_def)
  next
    case 2
    then have "list_all one_line (header_line n # map option_line opts @ [[]])"
      using x by (auto simp: one_line_def header_line_def option_line_def plain_name_def plain_options_def plain_key_def
          plain_value_def list_all_iff)
    with 2 Cons.IH(2) x show ?case by (simp add: document_lines_def)
  }
qed (simp_all add: document_lines_def unlines_def)

text \<open>A plain document survives \<^verbatim>\<open>write\<close> and \<^verbatim>\<open>read\<close>.\<close>

lemma ini_read_text:
  assumes "plain_document f doc"
  shows "ini_read f (ini_text doc) = Inr doc"
proof -
  have p: "list_all (\<lambda>(n, opts). plain_name n \<and> plain_options f opts) (ini_sections doc)" "ini_defaults doc = []"
    "distinct (map fst (ini_sections doc))" using assms by (simp_all add: plain_document_def)
  have "ini_text doc = unlines (document_lines (ini_sections doc))"
    using document_text_lines(1) [OF p(1)] p(2) by (simp add: ini_text_def)
  then have t: "split_lines (universal_newlines (ini_text doc)) = document_lines (ini_sections doc)"
    using document_text_lines(2) [OF p(1)] by (simp add: universal_newlines_id unlines_no_return split_unlines)
  have "after_sections [] new_reader" by (simp add: after_sections_def new_reader_def)
  from read_sections [OF this p(1)] p(3) obtain st where st: "read_lines f (document_lines (ini_sections doc)) new_reader = Inr st"
    "after_sections (ini_sections doc) st" by auto
  then have "ini_read f (ini_text doc) = Inr \<lparr>ini_defaults = [], ini_sections = ini_sections doc\<rparr>"
    by (simp add: ini_read_def t after_sections_def joined_nil)
  then show ?thesis using p(2) by simp
qed

end
