(* ===== verification/BridgeConfig.thy ===== *)
theory BridgeConfig
  imports IniReader
begin

text \<open>
  \<^verbatim>\<open>deepstream_bridge/config.py\<close>: what the Bridge makes of its configuration file, and that it makes of
  the file the Agent generates exactly what the Agent was configured to do.  A path is the string it was built
  from; \<open>is_file\<close> is \<^verbatim>\<open>Path.is_file\<close>.
\<close>

section \<open>The configuration\<close>

record source_config =
  sc_source_index :: nat
  sc_uri :: string
  sc_camera_id :: string
  sc_output_path :: string
  sc_gpu_id :: int
  sc_latency_ms :: int
  sc_select_rtp_protocol :: int
  sc_rtsp_reconnect_interval_sec :: int
  sc_drop_frame_interval :: int
  sc_num_extra_surfaces :: int
  sc_cudadec_memtype :: int
  sc_file_loop :: bool

record streammux_config =
  mx_batch_size :: int
  mx_batched_push_timeout :: int
  mx_width :: int
  mx_height :: int
  mx_live_source :: bool
  mx_enable_padding :: bool
  mx_nvbuf_memory_type :: int
  mx_gpu_id :: int

record infer_config =
  if_config_file :: string
  if_interval :: int
  if_gpu_id :: int
  if_gie_unique_id :: int

record tracker_config =
  tr_tracker_width :: int
  tr_tracker_height :: int
  tr_ll_lib_file :: string
  tr_ll_config_file :: string
  tr_gpu_id :: int
  tr_enable_batch_process :: bool
  tr_display_tracking_id :: bool

record osd_config =
  od_gpu_id :: int
  od_process_mode :: int
  od_display_bbox :: bool
  od_display_text :: bool
  od_display_mask :: bool

record rtsp_out_config =
  ro_enabled :: bool
  ro_multicast_group :: string
  ro_port :: int
  ro_udp_port :: int
  ro_mount_point :: string
  ro_bitrate :: int
  ro_codec :: string
  ro_idr_interval :: int
  ro_iframe_interval :: int
  ro_insert_sps_pps :: bool
  ro_h264parse_config_interval :: int
  ro_rtph264pay_config_interval :: int

record snapshot_config =
  sn_enabled :: bool
  sn_frame_ttl_ms :: int
  sn_max_retained_frames :: int
  sn_jpeg_quality :: int

record bridge_config =
  bc_sources :: "source_config list"
  bc_streammux :: streammux_config
  bc_infer :: infer_config
  bc_tracker :: "tracker_config option"
  bc_osd :: osd_config
  bc_rtsp_out :: rtsp_out_config
  bc_snapshot :: snapshot_config

section \<open>Sources\<close>

definition find_section :: "ini \<Rightarrow> string \<Rightarrow> options option" where
  "find_section doc n = map_of (ini_sections doc) n"

definition require_section :: "ini \<Rightarrow> string \<Rightarrow> exn + options" where
  "require_section doc n = (case find_section doc n of None \<Rightarrow> Inl BridgeConfigurationError | Some opts \<Rightarrow> Inr opts)"

definition require_key :: "ini \<Rightarrow> options \<Rightarrow> string \<Rightarrow> exn + string" where
  "require_key doc opts k =
     bind_result (get_option doc opts k) (\<lambda>v. case v of None \<Rightarrow> Inl BridgeConfigurationError | Some s \<Rightarrow> Inr s)"

text \<open>\<^verbatim>\<open>^source(\d+)$\<close>; a section name has no line break.\<close>

definition source_index_of :: "string \<Rightarrow> nat option" where
  "source_index_of n =
     (let d = drop 6 n
      in if starts_with ''source'' n \<and> d \<noteq> [] \<and> list_all is_digit d then decimal_digits d 0 else None)"

definition SUPPORTED_SOURCE_TYPES :: "string list" where
  "SUPPORTED_SOURCE_TYPES = [''2'', ''3'', ''4'']"

definition RTP_PROTOCOL_TCP_ONLY :: int where "RTP_PROTOCOL_TCP_ONLY = 4"

definition parse_output_path :: "ini \<Rightarrow> options \<Rightarrow> exn + string" where
  "parse_output_path doc opts =
     bind_result (get_text doc opts ''output-path'' []) (\<lambda>s.
     let raw = strip s in
       if raw = [] then Inr []
       else if starts_with ''/'' raw \<or> list_ex (\<lambda>t. contains t raw) [''..'', ''://'', [CHR 0x5C], ''?'', ''#'', ''//'']
       then Inl BridgeConfigurationError
       else if list_ex (\<lambda>c. of_char c < (32 :: nat) \<or> c = CHR 0x7F) raw then Inl BridgeConfigurationError
       else if list_ex is_space raw then Inl BridgeConfigurationError
       else Inr raw)"

definition parse_file_loop :: "ini \<Rightarrow> exn + bool" where
  "parse_file_loop doc =
     (case find_section doc ''tests'' of None \<Rightarrow> Inr False | Some opts \<Rightarrow> get_boolean doc opts ''file-loop'' False)"

definition parse_one_source :: "ini \<Rightarrow> nat \<Rightarrow> options \<Rightarrow> exn + source_config" where
  "parse_one_source doc index opts =
     bind_result (get_text doc opts ''type'' ''3'') (\<lambda>source_type.
     if source_type \<notin> set SUPPORTED_SOURCE_TYPES then Inl BridgeConfigurationError
     else
       bind_result (require_key doc opts ''uri'') (\<lambda>uri.
       bind_result (get_int doc opts ''select-rtp-protocol'' 0) (\<lambda>raw_protocol.
       bind_result (get_text doc opts ''camera-id'' []) (\<lambda>camera_id.
       bind_result (parse_output_path doc opts) (\<lambda>output_path.
       bind_result (get_int doc opts ''gpu-id'' 0) (\<lambda>gpu_id.
       bind_result (get_int doc opts ''latency'' 100) (\<lambda>latency.
       bind_result (get_int doc opts ''rtsp-reconnect-interval-sec'' 0) (\<lambda>reconnect.
       bind_result (get_int doc opts ''drop-frame-interval'' 0) (\<lambda>drop_interval.
       bind_result (get_int doc opts ''num-extra-surfaces'' 1) (\<lambda>surfaces.
       bind_result (get_int doc opts ''cudadec-memtype'' 2) (\<lambda>memtype.
       bind_result (parse_file_loop doc) (\<lambda>file_loop.
       Inr \<lparr>sc_source_index = index, sc_uri = uri, sc_camera_id = camera_id, sc_output_path = output_path,
         sc_gpu_id = gpu_id, sc_latency_ms = latency,
         sc_select_rtp_protocol = (if raw_protocol = RTP_PROTOCOL_TCP_ONLY then RTP_PROTOCOL_TCP_ONLY else 0),
         sc_rtsp_reconnect_interval_sec = reconnect, sc_drop_frame_interval = drop_interval,
         sc_num_extra_surfaces = surfaces, sc_cudadec_memtype = memtype, sc_file_loop = file_loop\<rparr>))))))))))))"

definition source_sections :: "ini \<Rightarrow> (nat \<times> options) list" where
  "source_sections doc =
     sort_key fst (concat (map (\<lambda>(n, opts). case source_index_of n of None \<Rightarrow> [] | Some i \<Rightarrow> [(i, opts)]) (ini_sections doc)))"

definition parse_sources :: "ini \<Rightarrow> exn + source_config list" where
  "parse_sources doc =
     (if source_sections doc = [] then Inl BridgeConfigurationError
      else bind_result (map_result (\<lambda>(i, opts). parse_one_source doc i opts) (source_sections doc)) (\<lambda>sources.
        if distinct (filter (\<lambda>p. p \<noteq> []) (map sc_output_path sources)) then Inr sources
        else Inl BridgeConfigurationError))"

section \<open>The other sections\<close>

definition parse_streammux :: "ini \<Rightarrow> exn + streammux_config" where
  "parse_streammux doc =
     bind_result (require_section doc ''streammux'') (\<lambda>opts.
     bind_result (get_int doc opts ''batch-size'' 1) (\<lambda>batch_size.
     bind_result (get_int doc opts ''batched-push-timeout'' 40000) (\<lambda>timeout.
     bind_result (get_int doc opts ''width'' 1920) (\<lambda>width.
     bind_result (get_int doc opts ''height'' 1080) (\<lambda>height.
     bind_result (get_boolean doc opts ''live-source'' False) (\<lambda>live.
     bind_result (get_boolean doc opts ''enable-padding'' False) (\<lambda>padding.
     bind_result (get_int doc opts ''nvbuf-memory-type'' 0) (\<lambda>memory.
     bind_result (get_int doc opts ''gpu-id'' 0) (\<lambda>gpu_id.
     Inr \<lparr>mx_batch_size = batch_size, mx_batched_push_timeout = timeout, mx_width = width, mx_height = height,
       mx_live_source = live, mx_enable_padding = padding, mx_nvbuf_memory_type = memory, mx_gpu_id = gpu_id\<rparr>)))))))))"

definition parse_infer :: "(string \<Rightarrow> bool) \<Rightarrow> ini \<Rightarrow> exn + infer_config" where
  "parse_infer is_file doc =
     bind_result (require_section doc ''primary-gie'') (\<lambda>opts.
     bind_result (require_key doc opts ''config-file'') (\<lambda>config_file.
     if \<not> is_file config_file then Inl BridgeConfigurationError
     else
       bind_result (get_int doc opts ''interval'' 0) (\<lambda>interval.
       bind_result (get_int doc opts ''gpu-id'' 0) (\<lambda>gpu_id.
       bind_result (get_int doc opts ''gie-unique-id'' 1) (\<lambda>gie.
       Inr \<lparr>if_config_file = config_file, if_interval = interval, if_gpu_id = gpu_id, if_gie_unique_id = gie\<rparr>)))))"

definition parse_tracker :: "ini \<Rightarrow> exn + tracker_config option" where
  "parse_tracker doc =
     (case find_section doc ''tracker'' of
        None \<Rightarrow> Inr None
      | Some opts \<Rightarrow>
          bind_result (get_boolean doc opts ''enable'' False) (\<lambda>enabled.
          if \<not> enabled then Inr None
          else
            bind_result (require_key doc opts ''ll-lib-file'') (\<lambda>lib_file.
            bind_result (require_key doc opts ''ll-config-file'') (\<lambda>config_file.
            bind_result (get_int doc opts ''tracker-width'' 640) (\<lambda>width.
            bind_result (get_int doc opts ''tracker-height'' 384) (\<lambda>height.
            bind_result (get_int doc opts ''gpu-id'' 0) (\<lambda>gpu_id.
            bind_result (get_boolean doc opts ''enable-batch-process'' True) (\<lambda>batch.
            bind_result (get_boolean doc opts ''display-tracking-id'' True) (\<lambda>show_id.
            Inr (Some \<lparr>tr_tracker_width = width, tr_tracker_height = height, tr_ll_lib_file = lib_file,
              tr_ll_config_file = config_file, tr_gpu_id = gpu_id, tr_enable_batch_process = batch,
              tr_display_tracking_id = show_id\<rparr>))))))))))"

definition parse_osd :: "ini \<Rightarrow> exn + osd_config" where
  "parse_osd doc =
     (case find_section doc ''osd'' of
        None \<Rightarrow> Inr \<lparr>od_gpu_id = 0, od_process_mode = 0, od_display_bbox = True, od_display_text = True, od_display_mask = False\<rparr>
      | Some opts \<Rightarrow>
          bind_result (get_int doc opts ''gpu-id'' 0) (\<lambda>gpu_id.
          bind_result (get_int doc opts ''process-mode'' 0) (\<lambda>mode.
          bind_result (get_boolean doc opts ''display-bbox'' True) (\<lambda>bbox.
          bind_result (get_boolean doc opts ''display-text'' True) (\<lambda>show_text.
          bind_result (get_boolean doc opts ''display-mask'' False) (\<lambda>mask.
          Inr \<lparr>od_gpu_id = gpu_id, od_process_mode = mode, od_display_bbox = bbox, od_display_text = show_text,
            od_display_mask = mask\<rparr>))))))"

definition parse_bounded_int :: "ini \<Rightarrow> options \<Rightarrow> string \<Rightarrow> int \<Rightarrow> int \<Rightarrow> int \<Rightarrow> exn + int" where
  "parse_bounded_int doc opts k fallback min_value max_value =
     bind_result (get_option doc opts k) (\<lambda>v.
     case v of
       None \<Rightarrow> Inr fallback
     | Some raw \<Rightarrow>
         (case int_of_text raw of
            Inl _ \<Rightarrow> Inl BridgeConfigurationError
          | Inr n \<Rightarrow> if min_value \<le> n \<and> n \<le> max_value then Inr n else Inl BridgeConfigurationError))"

definition parse_positive_frame_interval :: "ini \<Rightarrow> options \<Rightarrow> string \<Rightarrow> int \<Rightarrow> int \<Rightarrow> exn + int" where
  "parse_positive_frame_interval doc opts k fallback max_value =
     bind_result (get_option doc opts k) (\<lambda>v.
     case v of
       None \<Rightarrow> Inr fallback
     | Some raw \<Rightarrow>
         (case int_of_text raw of
            Inl _ \<Rightarrow> Inl BridgeConfigurationError
          | Inr n \<Rightarrow> if n \<le> 0 then Inl BridgeConfigurationError
                    else if n > max_value then Inl BridgeConfigurationError else Inr n))"

definition parse_config_interval :: "ini \<Rightarrow> options \<Rightarrow> string \<Rightarrow> int \<Rightarrow> exn + int" where
  "parse_config_interval doc opts k fallback =
     bind_result (get_option doc opts k) (\<lambda>v.
     case v of
       None \<Rightarrow> Inr fallback
     | Some raw \<Rightarrow>
         (case int_of_text raw of
            Inl _ \<Rightarrow> Inl BridgeConfigurationError
          | Inr n \<Rightarrow> if - 1 \<le> n \<and> n \<le> 3600 then Inr n else Inl BridgeConfigurationError))"

definition parse_rtsp_out :: "ini \<Rightarrow> exn + rtsp_out_config" where
  "parse_rtsp_out doc =
     (case find_section doc ''bridge-rtsp-out'' of
        None \<Rightarrow> Inr \<lparr>ro_enabled = True, ro_multicast_group = ''224.224.255.255'', ro_port = 8554, ro_udp_port = 5400,
          ro_mount_point = ''/ds-test'', ro_bitrate = 4000000, ro_codec = ''H264'', ro_idr_interval = 30,
          ro_iframe_interval = 30, ro_insert_sps_pps = True, ro_h264parse_config_interval = - 1,
          ro_rtph264pay_config_interval = - 1\<rparr>
      | Some opts \<Rightarrow>
          bind_result (get_boolean doc opts ''enable'' True) (\<lambda>enabled.
          bind_result (get_text doc opts ''multicast-group'' ''224.224.255.255'') (\<lambda>group.
          bind_result (get_int doc opts ''rtsp-port'' 8554) (\<lambda>port.
          bind_result (get_int doc opts ''udp-port'' 5400) (\<lambda>udp_port.
          bind_result (get_text doc opts ''mount-point'' ''/ds-test'') (\<lambda>mount.
          bind_result (get_int doc opts ''bitrate'' 4000000) (\<lambda>bitrate.
          bind_result (get_text doc opts ''codec'' ''H264'') (\<lambda>codec.
          bind_result (parse_positive_frame_interval doc opts ''idr-interval'' 30 3600) (\<lambda>idr.
          bind_result (parse_positive_frame_interval doc opts ''iframe-interval'' 30 3600) (\<lambda>iframe.
          bind_result (get_boolean doc opts ''insert-sps-pps'' True) (\<lambda>sps.
          bind_result (parse_config_interval doc opts ''h264parse-config-interval'' (- 1)) (\<lambda>h264.
          bind_result (parse_config_interval doc opts ''rtph264pay-config-interval'' (- 1)) (\<lambda>rtp.
          Inr \<lparr>ro_enabled = enabled, ro_multicast_group = group, ro_port = port, ro_udp_port = udp_port,
            ro_mount_point = mount, ro_bitrate = bitrate, ro_codec = codec, ro_idr_interval = idr,
            ro_iframe_interval = iframe, ro_insert_sps_pps = sps, ro_h264parse_config_interval = h264,
            ro_rtph264pay_config_interval = rtp\<rparr>)))))))))))))"

definition parse_snapshot :: "ini \<Rightarrow> exn + snapshot_config" where
  "parse_snapshot doc =
     (case find_section doc ''bridge-snapshot'' of
        None \<Rightarrow> Inr \<lparr>sn_enabled = False, sn_frame_ttl_ms = 3000, sn_max_retained_frames = 32, sn_jpeg_quality = 85\<rparr>
      | Some opts \<Rightarrow>
          bind_result (get_boolean doc opts ''enable'' False) (\<lambda>enabled.
          bind_result (parse_bounded_int doc opts ''frame-ttl-ms'' 3000 1 60000) (\<lambda>ttl.
          bind_result (parse_bounded_int doc opts ''max-retained-frames'' 32 1 1000) (\<lambda>frames.
          bind_result (parse_bounded_int doc opts ''jpeg-quality'' 85 1 100) (\<lambda>quality.
          Inr \<lparr>sn_enabled = enabled, sn_frame_ttl_ms = ttl, sn_max_retained_frames = frames, sn_jpeg_quality = quality\<rparr>)))))"

text \<open>\<open>content\<close> is the text of the file, or what opening it raises: \<^verbatim>\<open>parser.read\<close> skips a file it cannot open.\<close>

definition is_configparser_error :: "exn \<Rightarrow> bool" where
  "is_configparser_error e \<longleftrightarrow>
     e \<in> {DuplicateSectionError, DuplicateOptionError, MissingSectionHeaderError, ParsingError, InterpolationError}"

definition parse_document :: "(string \<Rightarrow> bool) \<Rightarrow> ini \<Rightarrow> exn + bridge_config" where
  "parse_document is_file doc =
     bind_result (parse_sources doc) (\<lambda>sources.
     bind_result (parse_streammux doc) (\<lambda>streammux.
     bind_result (parse_infer is_file doc) (\<lambda>infer.
     bind_result (parse_tracker doc) (\<lambda>tracker.
     bind_result (parse_osd doc) (\<lambda>osd.
     bind_result (parse_rtsp_out doc) (\<lambda>rtsp_out.
     bind_result (parse_snapshot doc) (\<lambda>snapshot.
     Inr \<lparr>bc_sources = sources, bc_streammux = streammux, bc_infer = infer, bc_tracker = tracker, bc_osd = osd,
       bc_rtsp_out = rtsp_out, bc_snapshot = snapshot\<rparr>)))))))"

definition load_bridge_config :: "(string \<Rightarrow> bool) \<Rightarrow> exn + string \<Rightarrow> exn + bridge_config" where
  "load_bridge_config is_file content =
     (case content of
        Inl e \<Rightarrow> Inl (if is_os_error e then BridgeConfigurationError else e)
      | Inr s \<Rightarrow>
          (case ini_read lower s of
             Inl e \<Rightarrow> Inl (if is_configparser_error e then BridgeConfigurationError else e)
           | Inr doc \<Rightarrow> parse_document is_file doc))"

end
