(* ===== verification/BridgeConfigContract.thy ===== *)
theory BridgeConfigContract
  imports BridgeConfig
begin

text \<open>
  The contract on the configuration file: the Agent's \<^verbatim>\<open>generate_runtime_config\<close> writes it and the Bridge's
  \<^verbatim>\<open>load_bridge_config\<close> reads it.
\<close>

section \<open>Values without percent signs\<close>

definition no_percent :: "string \<Rightarrow> bool" where
  "no_percent v \<longleftrightarrow> CHR ''%'' \<notin> set v"

definition literal_options :: "options \<Rightarrow> bool" where
  "literal_options opts \<longleftrightarrow> distinct (map fst opts) \<and> list_all (\<lambda>(k, v). no_percent v) opts"

lemma interpolate_literal: "no_percent v \<Longrightarrow> interpolate (Suc n) m v = Inr v"
proof (induction v)
  case (Cons c v)
  then have "c \<noteq> CHR ''%''" "no_percent v" by (auto simp: no_percent_def)
  then show ?case using Cons.IH by simp
qed simp

lemma remove_references_literal: "no_percent v \<Longrightarrow> remove_references v = v"
proof (induction v)
  case (Cons c v)
  then have "c \<noteq> CHR ''%''" "no_percent v" by (auto simp: no_percent_def)
  then show ?case using Cons.IH by (cases v) simp_all
qed simp

lemma settable_literal: "no_percent v \<Longrightarrow> settable v"
  by (auto simp: settable_def remove_all_none remove_references_literal) (auto simp: no_percent_def remove_all_none remove_references_literal)

lemma foldl_dict_put_distinct:
  "distinct (map fst (d @ opts)) \<Longrightarrow> foldl (\<lambda>d (k, v). dict_put k v d) d opts = d @ opts"
  by (induction opts arbitrary: d) (auto simp: dict_put_new)

lemma section_items_literal:
  assumes "ini_defaults doc = []" and "literal_options opts"
  shows "section_items doc opts = Inr opts"
proof -
  have "foldl (\<lambda>d (k, v). dict_put k v d) [] opts = opts"
    using foldl_dict_put_distinct [of "[]" opts] assms(2) by (simp add: literal_options_def)
  moreover have "map_result (\<lambda>(k, v). bind_result (interpolate 10 opts v) (\<lambda>w. Inr (k, w))) opts = Inr (map (\<lambda>x. x) opts)"
    using assms(2) interpolate_literal [of _ 9]
    by (intro map_result_Inr_map) (auto simp: literal_options_def list_all_iff)
  ultimately show ?thesis using assms(1) by (simp add: section_items_def)
qed

lemma set_options_literal:
  "literal_options (opts @ kvs) \<Longrightarrow> set_options kvs opts = Inr (opts @ kvs)"
proof (induction kvs arbitrary: opts)
  case (Cons kv kvs)
  obtain k v where kv: "kv = (k, v)" by (cases kv)
  have "k \<notin> fst ` set opts" "settable v" using Cons.prems kv by (auto simp: literal_options_def settable_literal)
  then show ?case using Cons.IH [of "opts @ [(k, v)]"] Cons.prems kv by (simp add: set_option_def dict_put_new)
qed simp

lemma get_option_literal:
  assumes "ini_defaults doc = []" and "literal_options opts"
  shows "get_option doc opts k = Inr (map_of opts (lower k))"
proof -
  have f: "foldl (\<lambda>d (k, v). dict_put k v d) [] opts = opts"
    using foldl_dict_put_distinct [of "[]" opts] assms(2) by (simp add: literal_options_def)
  have "no_percent v" if "map_of opts k = Some v" for k v
    using that assms(2) by (auto simp: literal_options_def list_all_iff dest!: map_of_SomeD)
  then show ?thesis
    using interpolate_literal [of _ 9] assms(1) by (auto simp: get_option_def f split: option.split)
qed

text \<open>A document's literals matter only through the values of the options.\<close>

lemma get_option_defaults: "ini_defaults doc' = ini_defaults doc \<Longrightarrow> get_option doc' = get_option doc"
  by (intro ext) (simp add: get_option_def)

lemma getters_defaults:
  assumes "ini_defaults doc' = ini_defaults doc"
  shows "get_text doc' = get_text doc" "get_int doc' = get_int doc" "get_boolean doc' = get_boolean doc"
    "require_key doc' = require_key doc" "parse_bounded_int doc' = parse_bounded_int doc"
    "parse_positive_frame_interval doc' = parse_positive_frame_interval doc"
    "parse_config_interval doc' = parse_config_interval doc"
  by (intro ext, simp add: get_text_def get_int_def get_boolean_def require_key_def parse_bounded_int_def
      parse_positive_frame_interval_def parse_config_interval_def get_option_defaults [OF assms])+

lemma other_sections_same:
  assumes "ini_defaults doc' = ini_defaults doc"
    and "\<And>n. n \<in> {''primary-gie'', ''tracker'', ''osd'', ''bridge-rtsp-out'', ''bridge-snapshot'', ''tests''}
      \<Longrightarrow> find_section doc' n = find_section doc n"
  shows "parse_infer f doc' = parse_infer f doc" "parse_tracker doc' = parse_tracker doc" "parse_osd doc' = parse_osd doc"
    "parse_rtsp_out doc' = parse_rtsp_out doc" "parse_snapshot doc' = parse_snapshot doc" "parse_file_loop doc' = parse_file_loop doc"
  unfolding parse_infer_def parse_tracker_def parse_osd_def parse_rtsp_out_def parse_snapshot_def parse_file_loop_def
    require_section_def getters_defaults [OF assms(1)]
  by (simp_all add: assms(2))

section \<open>Numbers\<close>

lemma not_digit [simp]: "\<not> is_digit (CHR ''_'')"
  by (simp add: is_digit_def)

lemma decimal_digits_append:
  "list_all is_digit xs \<Longrightarrow> decimal_digits (xs @ ys) acc = Option.bind (decimal_digits xs acc) (decimal_digits ys)"
  by (induction xs arbitrary: acc) auto

lemma digit_table: "list_all (\<lambda>d. is_digit (''0123456789'' ! d) \<and> of_char (''0123456789'' ! d) = d + 48
    \<and> ''0123456789'' ! d \<noteq> CHR ''_'' \<and> \<not> is_space (''0123456789'' ! d)) [0..<10]"
  by code_simp

lemma digit_char:
  assumes "d < 10"
  shows "is_digit (''0123456789'' ! d)" "of_char (''0123456789'' ! d) = d + 48" "\<not> is_space (''0123456789'' ! d)"
    "''0123456789'' ! d \<noteq> CHR ''_''"
  using digit_table assms unfolding list_all_iff by auto

lemma nat_text_digits: "list_all is_digit (nat_text n)" "nat_text n \<noteq> []"
proof -
  have "list_all is_digit (nat_text n) \<and> nat_text n \<noteq> []"
  proof (induction n rule: nat_text.induct)
    case (1 n)
    show ?case
    proof (cases "n < 10")
      case True
      then have "nat_text n = [''0123456789'' ! n]" by (simp add: nat_text.simps)
      then show ?thesis using digit_char(1) [OF True] by simp
    next
      case False
      then have "nat_text n = nat_text (n div 10) @ [''0123456789'' ! (n mod 10)]" by (simp add: nat_text.simps [of n])
      then show ?thesis using 1 [OF False] digit_char(1) [of "n mod 10"] by simp
    qed
  qed
  then show "list_all is_digit (nat_text n)" "nat_text n \<noteq> []" by simp_all
qed

lemma decimal_digits_nat_text: "decimal_digits (nat_text n) 0 = Some n"
proof (induction n rule: nat_text.induct)
  case (1 n)
  show ?case
  proof (cases "n < 10")
    case True
    then show ?thesis using digit_char [of n] by (subst nat_text.simps) simp
  next
    case False
    have "decimal_digits (nat_text (n div 10) @ [''0123456789'' ! (n mod 10)]) 0 = Some n"
      using 1 False digit_char [of "n mod 10"] nat_text_digits(1) [of "n div 10"]
      by (simp add: decimal_digits_append)
    then show ?thesis using False by (subst nat_text.simps) simp
  qed
qed

lemma source_index_nat: "source_index_of (''source'' @ nat_text n) = Some n"
  by (simp add: source_index_of_def Let_def nat_text_digits decimal_digits_nat_text)

lemma source_index_source: "source_index_of n = Some i \<Longrightarrow> is_source_section n"
  by (auto simp: source_index_of_def is_source_section_def Let_def split: if_split_asm)

lemma int_of_nat_text: "int_of_text (nat_text n) = Inr (int n)"
proof -
  have d: "list_all is_digit (nat_text n)" by (rule nat_text_digits)
  have digit: "\<not> is_space c \<and> c \<noteq> CHR ''-'' \<and> c \<noteq> CHR ''+'' \<and> c \<noteq> CHR ''_''" if "is_digit c" for c
    using that by (auto simp: is_digit_def is_space_def)
  with d have "strip (nat_text n) = nat_text n"
    unfolding strip_def by (intro strip_by_none) (auto simp: list_all_iff)
  moreover obtain c cs where c: "nat_text n = c # cs" using nat_text_digits(2) by (cases "nat_text n") auto
  moreover have "c \<noteq> CHR ''-''" "c \<noteq> CHR ''+''" "c \<noteq> CHR ''_''" using d c digit by auto
  ultimately show ?thesis
    using decimal_digits_nat_text [of n] by (simp add: int_of_text_def decimal_body_def Let_def)
qed

lemma key_char_neq:
  assumes "key_char c \<or> c = CHR ''-''"
  shows "c \<noteq> CHR ''%'' \<and> c \<noteq> CHR ''/'' \<and> c \<noteq> CHR ''.'' \<and> c \<noteq> CHR '':'' \<and> c \<noteq> CHR 0x5C \<and> c \<noteq> CHR ''?'' \<and> c \<noteq> CHR ''#''
    \<and> \<not> is_space c \<and> \<not> control_char c"
  using assms by (auto simp: key_char_def is_space_def control_char_def)

lemma key_body_chars: "key_body k \<Longrightarrow> c \<in> set k \<Longrightarrow> c \<noteq> CHR ''%'' \<and> c \<noteq> CHR ''/'' \<and> c \<noteq> CHR ''.'' \<and> c \<noteq> CHR '':''
    \<and> c \<noteq> CHR 0x5C \<and> c \<noteq> CHR ''?'' \<and> c \<noteq> CHR ''#'' \<and> \<not> is_space c \<and> \<not> control_char c"
  by (rule key_char_neq) (auto simp: key_body_def list_all_iff)

lemma str_uuid_chars: "c \<in> set (str_uuid u) \<Longrightarrow> is_hex_digit c \<or> c = CHR ''-''"
  using hex_fixed_digits [of c 32 "unat u"]
  by (auto simp: str_uuid_def Let_def dest!: in_set_takeD in_set_dropD)

section \<open>The generated document\<close>

text \<open>
  The cameras the contract is about: validated, with a whole number as source order and a URL that is a
  plain value without percent signs.
\<close>

definition camera_order :: "device_camera \<Rightarrow> nat" where
  "camera_order c = (case dc_source_order c of JInt n \<Rightarrow> nat n | _ \<Rightarrow> 0)"

definition camera_url :: "device_camera \<Rightarrow> string" where
  "camera_url c = (case dc_stream_url c of JStr u \<Rightarrow> u | _ \<Rightarrow> [])"

definition plain_camera :: "device_camera \<Rightarrow> bool" where
  "plain_camera c \<longleftrightarrow>
     (case dc_source_order c of JInt n \<Rightarrow> True | _ \<Rightarrow> False)
     \<and> (case dc_stream_url c of JStr u \<Rightarrow> plain_value u \<and> no_percent u | _ \<Rightarrow> False)"

definition camera_path :: "device_camera \<Rightarrow> string" where
  "camera_path c = OUTPUT_PATH_PREFIX @ dc_camera_key c"

definition camera_options :: "options \<Rightarrow> device_camera \<Rightarrow> options" where
  "camera_options carried c =
     [(''enable'', ''1''), (''type'', ''4''), (''uri'', camera_url c), (''camera-id'', str_uuid (dc_camera_id c)),
      (''camera-key'', dc_camera_key c), (''output-path'', camera_path c)] @ carried"

definition camera_name :: "device_camera \<Rightarrow> string" where
  "camera_name c = ''source'' @ nat_text (camera_order c)"

lemma plain_camera_order:
  assumes "plain_camera c" and "camera_ok bad c"
  shows "dc_source_order c = JInt (int (camera_order c))" "dc_stream_url c = JStr (camera_url c)"
    "dc_output_path c = JStr (camera_path c)" "key_body (dc_camera_key c)"
proof -
  show "dc_stream_url c = JStr (camera_url c)"
    using assms(1) by (auto simp: plain_camera_def camera_url_def split: json.split_asm)
  show "dc_output_path c = JStr (camera_path c)" "key_body (dc_camera_key c)"
    using assms(2) by (simp_all add: camera_ok_def camera_path_def)
  obtain n where n: "dc_source_order c = JInt n" using assms(1) by (auto simp: plain_camera_def split: json.split_asm)
  then have "\<not> fl_less (fl_exact n) (Fin 0)" using assms(2) by (auto simp: camera_ok_def)
  then have "0 \<le> n" by (simp add: fl_exact_def)
  then show "dc_source_order c = JInt (int (camera_order c))" using n by (simp add: camera_order_def)
qed

lemma plain_camera_name:
  assumes "plain_camera c" and "camera_ok bad c"
  shows "source_name show_float c = camera_name c"
  by (simp add: source_name_def camera_name_def plain_camera_order(1) [OF assms] order_text_def int_text_def)

lemma source_section_plain:
  assumes "plain_camera c" and "camera_ok bad c" and "literal_options (camera_options carried c)"
  shows "source_section carried c = Inr (camera_options carried c)"
proof -
  have "source_section carried c = set_options (camera_options carried c) []"
    by (simp add: source_section_def plain_camera_order [OF assms(1,2)] camera_options_def del: set_options.simps)
  then show ?thesis using set_options_literal [of "[]" "camera_options carried c"] assms(3) by simp
qed

lemma add_sources_plain:
  assumes "list_all (\<lambda>c. plain_camera c \<and> camera_ok bad c \<and> literal_options (camera_options carried c)) cs"
    and "distinct (map fst secs @ map camera_name cs)"
  shows "add_sources show_float carried cs secs = Inr (secs @ map (\<lambda>c. (camera_name c, camera_options carried c)) cs)"
  using assms
proof (induction cs arbitrary: secs)
  case (Cons c cs)
  have c: "plain_camera c" "camera_ok bad c" "literal_options (camera_options carried c)" using Cons.prems(1) by simp_all
  have n: "camera_name c \<notin> fst ` set secs" using Cons.prems(2) by auto
  have "add_sources show_float carried cs (secs @ [(camera_name c, camera_options carried c)])
      = Inr ((secs @ [(camera_name c, camera_options carried c)]) @ map (\<lambda>c. (camera_name c, camera_options carried c)) cs)"
    using Cons.prems by (intro Cons.IH) simp_all
  then show ?case
    using n source_section_plain [OF c] plain_camera_name [OF c(1,2), of show_float, unfolded source_name_def, simplified]
    by (simp add: Let_def)
qed simp

definition generated :: "ini \<Rightarrow> device_camera list \<Rightarrow> options \<Rightarrow> ini" where
  "generated doc cameras carried =
     doc\<lparr>ini_sections := set_batch_size (length cameras)
       (filter (\<lambda>(s, _). \<not> is_source_section s) (ini_sections doc) @ map (\<lambda>c. (camera_name c, camera_options carried c)) cameras)\<rparr>"

definition carried_options :: "options \<Rightarrow> options" where
  "carried_options opts = filter (\<lambda>(k, _). k \<notin> set CARRIED_SOURCE_KEYS_EXCLUDE) opts"

text \<open>A template: plain, without percent signs, with the one source section \<^verbatim>\<open>source0\<close>.\<close>

definition plain_template :: "ini \<Rightarrow> options \<Rightarrow> bool" where
  "plain_template doc opts \<longleftrightarrow> plain_document lower doc \<and> list_all (\<lambda>(n, opts). literal_options opts) (ini_sections doc)
     \<and> filter is_source_section (map fst (ini_sections doc)) = [''source0''] \<and> map_of (ini_sections doc) ''source0'' = Some opts"

lemma template_first:
  assumes "plain_template doc opts"
  shows "first_source_section doc = Inr ''source0''"
  using assms by (simp add: first_source_section_def all_source_sections_def plain_template_def)

lemma camera_name_inj:
  assumes "distinct (map camera_order cs)"
  shows "distinct (map camera_name cs)"
proof -
  have "camera_order c = camera_order d" if "camera_name c = camera_name d" for c d
  proof -
    have "nat_text (camera_order c) = nat_text (camera_order d)" using that by (simp add: camera_name_def)
    then show ?thesis by (metis decimal_digits_nat_text option.inject)
  qed
  then show ?thesis using assms unfolding distinct_map inj_on_def by blast
qed

lemma literal_camera_options:
  assumes "plain_camera c" and "camera_ok bad c" and "literal_options opts"
  shows "literal_options (camera_options (carried_options opts) c)"
proof -
  have u: "no_percent (camera_url c)" using assms(1) by (auto simp: plain_camera_def camera_url_def split: json.split_asm)
  have k: "no_percent (dc_camera_key c)" using key_body_chars [OF plain_camera_order(4) [OF assms(1,2)]]
    by (auto simp: no_percent_def)
  then have p: "no_percent (camera_path c)" by (simp add: no_percent_def camera_path_def OUTPUT_PATH_PREFIX_def)
  have i: "no_percent (str_uuid (dc_camera_id c))"
    using str_uuid_chars [of "CHR ''%''" "dc_camera_id c"] by (auto simp: no_percent_def is_hex_digit_def)
  have l: "no_percent ''1''" "no_percent ''4''" by (simp_all add: no_percent_def)
  have "distinct (map fst (carried_options opts))" "list_all (\<lambda>(k, v). no_percent v) (carried_options opts)"
    using assms(3) by (auto simp: literal_options_def carried_options_def distinct_map_filter list_all_iff)
  moreover have n: "k \<notin> fst ` set (carried_options opts)" if "k \<in> set CARRIED_SOURCE_KEYS_EXCLUDE" for k
    using that by (auto simp: carried_options_def)
  have "''enable'' \<notin> fst ` set (carried_options opts)" "''type'' \<notin> fst ` set (carried_options opts)"
    "''uri'' \<notin> fst ` set (carried_options opts)" "''camera-id'' \<notin> fst ` set (carried_options opts)"
    "''camera-key'' \<notin> fst ` set (carried_options opts)" "''output-path'' \<notin> fst ` set (carried_options opts)"
    by (rule n, simp add: CARRIED_SOURCE_KEYS_EXCLUDE_def)+
  ultimately show ?thesis
    using u k i l p by (simp add: literal_options_def camera_options_def)
qed

lemma runtime_ini_generated:
  assumes t: "plain_template doc opts" and cs: "list_all (\<lambda>c. plain_camera c \<and> camera_ok bad c) cameras"
    and d: "distinct (map camera_order cameras)"
  shows "runtime_ini show_float (Inr doc) cameras = Inr (generated doc cameras (carried_options opts))"
proof -
  have lit: "literal_options opts" and dist: "distinct (map fst (ini_sections doc))" and def: "ini_defaults doc = []"
    using t by (auto simp: plain_template_def plain_document_def list_all_iff dest!: map_of_SomeD)
  let ?kept = "filter (\<lambda>(s, _). \<not> is_source_section s) (ini_sections doc)"
  have "is_source_section (camera_name c)" for c by (simp add: camera_name_def is_source_section_def)
  then have "distinct (map fst ?kept @ map camera_name cameras)"
    using dist camera_name_inj [OF d] by (auto simp: distinct_map_filter)
  moreover have "list_all (\<lambda>c. plain_camera c \<and> camera_ok bad c \<and> literal_options (camera_options (carried_options opts) c)) cameras"
    using cs literal_camera_options [OF _ _ lit] by (auto simp: list_all_iff)
  ultimately have "add_sources show_float (carried_options opts) cameras ?kept
      = Inr (?kept @ map (\<lambda>c. (camera_name c, camera_options (carried_options opts) c)) cameras)"
    by (intro add_sources_plain) simp_all
  then show ?thesis
    using t section_items_literal [OF def lit]
    by (simp add: runtime_ini_def template_first [OF t] plain_template_def generated_def carried_options_def Let_def)
qed

section \<open>The generated document is plain\<close>

lemma plain_keys:
  "list_all (plain_key lower) [''enable'', ''type'', ''uri'', ''camera-id'', ''camera-key'', ''output-path'', ''batch-size'']"
  by code_simp

lemma plain_chars: "list_all (\<lambda>c. \<not> is_space c \<and> c \<noteq> CHR 0x0A \<and> c \<noteq> CHR 0x0D) v \<Longrightarrow> plain_value v"
  by (cases "v = []") (auto simp: plain_value_def trimmed_def one_line_def list_all_iff)

lemma not_space_chars: "\<not> is_space c \<Longrightarrow> c \<noteq> CHR 0x0A \<and> c \<noteq> CHR 0x0D"
  by (auto simp: is_space_def)

lemma plain_no_space: "(\<And>c. c \<in> set v \<Longrightarrow> \<not> is_space c) \<Longrightarrow> plain_value v"
  using not_space_chars by (intro plain_chars) (auto simp: list_all_iff)

lemma digit_not_space: "is_digit c \<Longrightarrow> \<not> is_space c \<and> c \<noteq> CHR '']''"
  by (auto simp: is_digit_def is_space_def)

lemma plain_nat_text: "plain_value (nat_text n)"
  using nat_text_digits(1) [of n] digit_not_space by (intro plain_no_space) (auto simp: list_all_iff)

lemma plain_camera_name_name: "plain_name (camera_name c)"
proof -
  have "CHR '']'' \<notin> set (nat_text (camera_order c))" "one_line (nat_text (camera_order c))"
    using nat_text_digits(1) [of "camera_order c"] digit_not_space plain_nat_text [of "camera_order c"]
    by (auto simp: list_all_iff plain_value_def)
  then show ?thesis by (simp add: plain_name_def camera_name_def one_line_def)
qed

lemma camera_path_chars:
  assumes "key_body (dc_camera_key c)" and "x \<in> set (camera_path c)"
  shows "\<not> is_space x \<and> \<not> control_char x \<and> x \<noteq> CHR ''.'' \<and> x \<noteq> CHR '':'' \<and> x \<noteq> CHR 0x5C \<and> x \<noteq> CHR ''?'' \<and> x \<noteq> CHR ''#''"
proof -
  have "x \<in> set OUTPUT_PATH_PREFIX \<or> x \<in> set (dc_camera_key c)" using assms(2) by (auto simp: camera_path_def)
  then show ?thesis
  proof
    assume "x \<in> set OUTPUT_PATH_PREFIX"
    then show ?thesis by (auto simp: OUTPUT_PATH_PREFIX_def is_space_def control_char_def)
  next
    assume "x \<in> set (dc_camera_key c)"
    then show ?thesis using key_body_chars [OF assms(1)] by blast
  qed
qed

lemma plain_camera_options:
  assumes "plain_camera c" and "camera_ok bad c" and "literal_options opts" and "plain_options lower opts"
  shows "plain_options lower (camera_options (carried_options opts) c)"
proof -
  have k: "key_body (dc_camera_key c)" by (rule plain_camera_order(4) [OF assms(1,2)])
  have "plain_value (camera_url c)" using assms(1) by (auto simp: plain_camera_def camera_url_def split: json.split_asm)
  moreover have "plain_value (dc_camera_key c)" using key_body_chars [OF k] by (intro plain_no_space) blast
  moreover have "plain_value (camera_path c)" using camera_path_chars [OF k] by (intro plain_no_space) blast
  moreover have "plain_value (str_uuid (dc_camera_id c))"
  proof (rule plain_no_space)
    fix x assume "x \<in> set (str_uuid (dc_camera_id c))"
    then show "\<not> is_space x" using str_uuid_chars [of x "dc_camera_id c"] is_hex_digit_neq by (auto simp: is_space_def)
  qed
  moreover have "plain_value ''1''" "plain_value ''4''" by (auto intro!: plain_no_space simp: is_space_def)
  moreover have "list_all (\<lambda>(k, v). plain_key lower k \<and> plain_value v) (carried_options opts)"
    using assms(4) by (auto simp: plain_options_def carried_options_def list_all_iff)
  moreover have "distinct (map fst (camera_options (carried_options opts) c))"
    using literal_camera_options [OF assms(1-3)] by (simp add: literal_options_def)
  ultimately show ?thesis using plain_keys by (simp add: plain_options_def camera_options_def)
qed

lemma list_all_dict_put: "list_all P d \<Longrightarrow> P (k, v) \<Longrightarrow> list_all P (dict_put k v d)"
  by (induction k v d rule: dict_put.induct) auto

lemma plain_batch_size: "plain_options lower opts \<Longrightarrow> plain_options lower (dict_put ''batch-size'' (nat_text n) opts)"
  using plain_keys plain_nat_text by (auto simp: plain_options_def distinct_dict_put intro: list_all_dict_put)

lemma plain_generated:
  assumes t: "plain_template doc opts" and cs: "list_all (\<lambda>c. plain_camera c \<and> camera_ok bad c) cameras"
    and d: "distinct (map camera_order cameras)" and mux: "map_of (ini_sections doc) ''streammux'' = Some mux"
  shows "plain_document lower (generated doc cameras (carried_options opts))"
proof -
  let ?kept = "filter (\<lambda>(s, _). \<not> is_source_section s) (ini_sections doc)"
  let ?new = "map (\<lambda>c. (camera_name c, camera_options (carried_options opts) c)) cameras"
  have lit: "literal_options opts" and pl: "plain_options lower opts" and dist: "distinct (map fst (ini_sections doc))"
    and def: "ini_defaults doc = []" and plain: "list_all (\<lambda>(n, opts). plain_name n \<and> plain_options lower opts) (ini_sections doc)"
    using t by (auto simp: plain_template_def plain_document_def list_all_iff dest!: map_of_SomeD)
  have name: "is_source_section (camera_name c)" for c by (simp add: camera_name_def is_source_section_def)
  then have dn: "distinct (map fst (?kept @ ?new))"
    using dist camera_name_inj [OF d] by (auto simp: distinct_map_filter comp_def)
  have m: "(''streammux'', mux) \<in> set (ini_sections doc)" using mux by (rule map_of_SomeD)
  then have m': "(''streammux'', mux) \<in> set (?kept @ ?new)" using streammux_not_source by auto
  have mo: "map_of (?kept @ ?new) ''streammux'' = Some mux" by (rule map_of_is_SomeI [OF dn m'])
  have all: "list_all (\<lambda>(n, opts). plain_name n \<and> plain_options lower opts) (?kept @ ?new)"
    using plain cs plain_camera_options [OF _ _ lit pl] plain_camera_name_name by (auto simp: list_all_iff)
  have "plain_options lower mux" using plain m by (auto simp: list_all_iff)
  moreover have "plain_name ''streammux''" using plain m by (auto simp: list_all_iff)
  moreover have b: "set_batch_size (length cameras) (?kept @ ?new)
      = dict_put ''streammux'' (dict_put ''batch-size'' (nat_text (length cameras)) mux) (?kept @ ?new)"
    by (simp only: set_batch_size_def mo option.case)
  ultimately have "list_all (\<lambda>(n, opts). plain_name n \<and> plain_options lower opts) (set_batch_size (length cameras) (?kept @ ?new))"
    using list_all_dict_put [OF all] plain_batch_size by simp
  moreover have "distinct (map fst (set_batch_size (length cameras) (?kept @ ?new)))"
    unfolding b by (rule distinct_dict_put [OF dn])
  ultimately show ?thesis using def by (simp add: plain_document_def generated_def)
qed

section \<open>Reading the generated document\<close>

lemma contains_chars: "contains (p # ps) s \<Longrightarrow> p \<in> set s"
  using starts_with_hd in_set_dropD by (force simp: contains_def list_ex_iff)

lemma double_slash: "contains ''//'' s \<Longrightarrow> \<exists>i. Suc i < length s \<and> s ! i = CHR ''/'' \<and> s ! Suc i = CHR ''/''"
proof -
  assume "contains ''//'' s"
  then obtain i where i: "starts_with ''//'' (drop i s)" by (auto simp: contains_def list_ex_iff)
  then obtain t where "drop i s = CHR ''/'' # CHR ''/'' # t"
    by (cases "drop i s" rule: remdups_adj.cases) auto
  then have "Suc i < length s" "s ! i = CHR ''/''" "s ! Suc i = CHR ''/''"
    by (metis drop_all list.distinct(1) not_less Suc_le_eq drop_Suc tl_drop list.sel(3),
        metis nth_via_drop, metis nth_via_drop drop_Suc tl_drop list.sel(3))
  then show ?thesis by blast
qed

lemma camera_path_no_double_slash:
  assumes "key_body (dc_camera_key c)"
  shows "\<not> contains ''//'' (camera_path c)"
proof
  assume "contains ''//'' (camera_path c)"
  then obtain i where i: "Suc i < length (camera_path c)" "camera_path c ! i = CHR ''/''" "camera_path c ! Suc i = CHR ''/''"
    using double_slash by blast
  have len: "length OUTPUT_PATH_PREFIX = 8" by (simp add: OUTPUT_PATH_PREFIX_def)
  have at7: "j = 7" if "j < length (camera_path c)" "camera_path c ! j = CHR ''/''" for j
  proof (cases "j < 8")
    case True
    then have "OUTPUT_PATH_PREFIX ! j = CHR ''/''" using that by (simp add: camera_path_def nth_append len)
    moreover have "list_all (\<lambda>j. OUTPUT_PATH_PREFIX ! j = CHR ''/'' \<longrightarrow> j = 7) [0..<8]" by code_simp
    ultimately show ?thesis using True by (auto simp: list_all_iff)
  next
    case False
    then have "camera_path c ! j = dc_camera_key c ! (j - 8)" "j - 8 < length (dc_camera_key c)"
      using that(1) by (simp_all add: camera_path_def nth_append len)
    then have "CHR ''/'' \<in> set (dc_camera_key c)" using that(2) by (metis nth_mem)
    then show ?thesis using key_body_chars [OF assms] by blast
  qed
  show False using at7 [of i] at7 [of "Suc i"] i by simp
qed

lemma parse_output_path_camera:
  assumes "key_body (dc_camera_key c)" and "get_text doc opts ''output-path'' [] = Inr (camera_path c)"
  shows "parse_output_path doc opts = Inr (camera_path c)"
proof -
  note ch = camera_path_chars [OF assms(1)]
  have st: "strip (camera_path c) = camera_path c" unfolding strip_def using ch by (intro strip_by_none) blast
  have "\<not> contains ''..'' (camera_path c)" using ch contains_chars by blast
  moreover have "\<not> contains ''://'' (camera_path c)" using ch contains_chars by blast
  moreover have "\<not> contains [CHR 0x5C] (camera_path c)" using ch contains_chars by blast
  moreover have "\<not> contains ''?'' (camera_path c)" "\<not> contains ''#'' (camera_path c)" using ch contains_chars by blast+
  moreover have "\<not> contains ''//'' (camera_path c)" by (rule camera_path_no_double_slash [OF assms(1)])
  ultimately have "\<not> list_ex (\<lambda>t. contains t (camera_path c)) [''..'', ''://'', [CHR 0x5C], ''?'', ''#'', ''//'']" by simp
  moreover have "\<not> starts_with ''/'' (camera_path c)" "camera_path c \<noteq> []" by (simp_all add: camera_path_def OUTPUT_PATH_PREFIX_def)
  moreover have "\<not> list_ex (\<lambda>c. of_char c < (32 :: nat) \<or> c = CHR 0x7F) (camera_path c)" "\<not> list_ex is_space (camera_path c)"
    using ch by (auto simp: list_ex_iff control_char_def)
  ultimately show ?thesis unfolding parse_output_path_def assms(2) bind_result_Inr Let_def st by (simp only: if_False simp_thms)
qed

lemma lower_keys:
  "list_all (\<lambda>k. lower k = k) [''enable'', ''type'', ''uri'', ''camera-id'', ''camera-key'', ''output-path'', ''select-rtp-protocol'',
     ''gpu-id'', ''latency'', ''rtsp-reconnect-interval-sec'', ''drop-frame-interval'', ''num-extra-surfaces'', ''cudadec-memtype'',
     ''batch-size'', ''batched-push-timeout'', ''width'', ''height'', ''live-source'', ''enable-padding'', ''nvbuf-memory-type'']"
  by code_simp

lemma map_of_carried: "k \<notin> set CARRIED_SOURCE_KEYS_EXCLUDE \<Longrightarrow> map_of (carried_options opts) k = map_of opts k"
  by (induction opts) (auto simp: carried_options_def)

lemma map_of_camera_options:
  "map_of (camera_options (carried_options opts) c) k =
     (if k = ''enable'' then Some ''1'' else if k = ''type'' then Some ''4'' else if k = ''uri'' then Some (camera_url c)
      else if k = ''camera-id'' then Some (str_uuid (dc_camera_id c)) else if k = ''camera-key'' then Some (dc_camera_key c)
      else if k = ''output-path'' then Some (camera_path c) else map_of opts k)"
  using map_of_carried [of k opts] by (auto simp: camera_options_def CARRIED_SOURCE_KEYS_EXCLUDE_def)

definition source_for :: "source_config \<Rightarrow> device_camera \<Rightarrow> source_config" where
  "source_for s c = s\<lparr>sc_source_index := camera_order c, sc_uri := camera_url c, sc_camera_id := str_uuid (dc_camera_id c),
     sc_output_path := camera_path c\<rparr>"

lemma parse_camera_source:
  assumes src: "parse_one_source doc i opts = Inr src" and def: "ini_defaults doc = []" "ini_defaults doc' = []"
    and lit: "literal_options opts" "literal_options (camera_options (carried_options opts) c)"
    and k: "key_body (dc_camera_key c)" and loop: "parse_file_loop doc' = parse_file_loop doc"
  shows "parse_one_source doc' (camera_order c) (camera_options (carried_options opts) c) = Inr (source_for src c)"
proof -
  let ?o = "camera_options (carried_options opts) c"
  have g: "get_option doc' ?o k = Inr (map_of ?o (lower k))" "get_option doc opts k = Inr (map_of opts (lower k))" for k
    using get_option_literal def lit by auto
  have same: "get_int doc' ?o k v = get_int doc opts k v"
    if "k \<in> {''select-rtp-protocol'', ''gpu-id'', ''latency'', ''rtsp-reconnect-interval-sec'', ''drop-frame-interval'',
      ''num-extra-surfaces'', ''cudadec-memtype''}" for k v
  proof -
    have "lower k = k" using that lower_keys by auto
    then show ?thesis using that by (auto simp: get_int_def g map_of_camera_options)
  qed
  have own: "get_text doc' ?o ''type'' ''3'' = Inr ''4''" "require_key doc' ?o ''uri'' = Inr (camera_url c)"
    "get_text doc' ?o ''camera-id'' [] = Inr (str_uuid (dc_camera_id c))" "get_text doc' ?o ''output-path'' [] = Inr (camera_path c)"
    using lower_keys by (simp_all add: get_text_def require_key_def g map_of_camera_options)
  note out = parse_output_path_camera [OF k own(4)]
  show ?thesis
    using src
    by (auto simp: parse_one_source_def same own out loop outcome_simps SUPPORTED_SOURCE_TYPES_def source_for_def
        split: if_split_asm)
qed

lemma concat_map_dict_put:
  "k \<in> fst ` set d \<Longrightarrow> (\<And>v. f (k, v) = []) \<Longrightarrow> concat (map f (dict_put k v d)) = concat (map f d)"
  by (induction k v d rule: dict_put.induct) auto

lemma source_index_camera: "source_index_of (camera_name c) = Some (camera_order c)"
  by (simp only: camera_name_def source_index_nat)

lemma map_of_filter_key: "P m \<Longrightarrow> map_of (filter (\<lambda>(k, _). P k) xs) m = map_of xs m"
  by (induction xs) auto

lemma generated_sources:
  assumes t: "plain_template doc opts" and mux: "map_of (ini_sections doc) ''streammux'' = Some mux"
  shows "source_sections (generated doc cameras carried)
    = sort_key fst (map (\<lambda>c. (camera_order c, camera_options carried c)) cameras)"
proof -
  let ?f = "\<lambda>(n, opts). case source_index_of n of None \<Rightarrow> [] | Some i \<Rightarrow> [(i, opts)]"
  let ?kept = "filter (\<lambda>(s, _). \<not> is_source_section s) (ini_sections doc)"
  let ?new = "map (\<lambda>c. (camera_name c, camera_options carried c)) cameras"
  have none: "source_index_of n = None" if "\<not> is_source_section n" for n
    using source_index_source that by (cases "source_index_of n") auto
  have kept: "concat (map ?f ?kept) = []" using none by auto
  have new: "concat (map ?f ?new) = map (\<lambda>c. (camera_order c, camera_options carried c)) cameras"
    by (induction cameras) (simp_all add: source_index_camera)
  have "(''streammux'', mux) \<in> set ?kept" using map_of_SomeD [OF mux] streammux_not_source by simp
  then have s: "''streammux'' \<in> fst ` set (?kept @ ?new)" by force
  then have "map_of (?kept @ ?new) ''streammux'' \<noteq> None" unfolding map_of_eq_None_iff by blast
  then obtain m where "map_of (?kept @ ?new) ''streammux'' = Some m" by blast
  then have b: "set_batch_size (length cameras) (?kept @ ?new)
      = dict_put ''streammux'' (dict_put ''batch-size'' (nat_text (length cameras)) m) (?kept @ ?new)"
    by (simp only: set_batch_size_def option.case)
  have c: "concat (map ?f (dict_put ''streammux'' w (?kept @ ?new))) = concat (map ?f (?kept @ ?new))" for w
    by (rule concat_map_dict_put [OF s]) (simp add: none [OF streammux_not_source])
  have "ini_sections (generated doc cameras carried)
      = dict_put ''streammux'' (dict_put ''batch-size'' (nat_text (length cameras)) m) (?kept @ ?new)"
    by (simp only: generated_def b) simp
  then show ?thesis
    unfolding source_sections_def by (simp only: c map_append concat_append kept new append_Nil)
qed

lemma generated_find:
  assumes "plain_template doc opts" and mux: "map_of (ini_sections doc) ''streammux'' = Some mux" and n: "\<not> is_source_section n"
  shows "find_section (generated doc cameras carried) n
    = (if n = ''streammux'' then Some (dict_put ''batch-size'' (nat_text (length cameras)) mux) else find_section doc n)"
proof -
  let ?kept = "filter (\<lambda>(s, _). \<not> is_source_section s) (ini_sections doc)"
  let ?new = "map (\<lambda>c. (camera_name c, camera_options carried c)) cameras"
  have kept: "map_of ?kept m = map_of (ini_sections doc) m" if "\<not> is_source_section m" for m
    using map_of_filter_key [of "\<lambda>k. \<not> is_source_section k" m] that by simp
  have new: "map_of ?new m = None" if "\<not> is_source_section m" for m
    using that by (induction cameras) (auto simp: camera_name_def is_source_section_def)
  have all: "map_of (?kept @ ?new) m = map_of (ini_sections doc) m" if "\<not> is_source_section m" for m
    using kept [OF that] new [OF that] by (simp add: map_add_def split: option.split)
  have mo: "map_of (?kept @ ?new) ''streammux'' = Some mux" using all [OF streammux_not_source] mux by simp
  have b: "set_batch_size (length cameras) (?kept @ ?new)
      = dict_put ''streammux'' (dict_put ''batch-size'' (nat_text (length cameras)) mux) (?kept @ ?new)"
    by (simp only: set_batch_size_def mo option.case)
  show ?thesis
    unfolding find_section_def generated_def ini.simps b map_of_dict_put using all [OF n] by simp
qed

lemma generated_streammux:
  assumes t: "plain_template doc opts" and mux: "map_of (ini_sections doc) ''streammux'' = Some mux"
    and p: "parse_streammux doc = Inr x"
  shows "parse_streammux (generated doc cameras carried) = Inr (x\<lparr>mx_batch_size := int (length cameras)\<rparr>)"
proof -
  let ?doc = "generated doc cameras carried" and ?o = "dict_put ''batch-size'' (nat_text (length cameras)) mux"
  have def: "ini_defaults doc = []" "ini_defaults ?doc = []" and lit: "literal_options mux"
    using t mux by (auto simp: plain_template_def plain_document_def generated_def list_all_iff dest!: map_of_SomeD)
  have np: "no_percent (nat_text n)" for n
  proof -
    have "\<not> is_digit (CHR ''%'')" by (simp add: is_digit_def)
    then show ?thesis using nat_text_digits(1) [of n] unfolding no_percent_def list_all_iff by blast
  qed
  have lit': "literal_options ?o"
    using lit np by (auto simp: literal_options_def distinct_dict_put intro: list_all_dict_put)
  have g: "get_option ?doc ?o k = Inr (map_of ?o (lower k))" "get_option doc mux k = Inr (map_of mux (lower k))" for k
    using get_option_literal def lit lit' by auto
  have same: "get_int ?doc ?o k v = get_int doc mux k v"
    if "k \<in> {''batched-push-timeout'', ''width'', ''height'', ''nvbuf-memory-type'', ''gpu-id''}" for k v
  proof -
    have "lower k = k" using that lower_keys by auto
    then show ?thesis using that by (auto simp: get_int_def g)
  qed
  have sameb: "get_boolean ?doc ?o k v = get_boolean doc mux k v" if "k \<in> {''live-source'', ''enable-padding''}" for k v
  proof -
    have "lower k = k" using that lower_keys by auto
    then show ?thesis using that by (auto simp: get_boolean_def g)
  qed
  have own: "get_int ?doc ?o ''batch-size'' 1 = Inr (int (length cameras))"
    using lower_keys by (simp add: get_int_def g int_of_nat_text)
  have sec: "require_section doc ''streammux'' = Inr mux" "require_section ?doc ''streammux'' = Inr ?o"
    using mux generated_find [OF t mux streammux_not_source] by (simp_all add: require_section_def find_section_def)
  show ?thesis using p by (auto simp: parse_streammux_def sec same sameb own outcome_simps)
qed

section \<open>The contract\<close>

lemma insort_key_map_fst: "insort_key fst (f c, g c) (map (\<lambda>c. (f c, g c)) xs) = map (\<lambda>c. (f c, g c)) (insort_key f c xs)"
  by (induction xs) auto

lemma sort_key_map_fst: "sort_key fst (map (\<lambda>c. (f c, g c)) xs) = map (\<lambda>c. (f c, g c)) (sort_key f xs)"
  by (induction xs) (simp_all add: insort_key_map_fst)

lemma template_source:
  assumes t: "plain_template doc opts" and p: "parse_sources doc = Inr ss" and ss: "ss = [src]"
  obtains i where "parse_one_source doc i opts = Inr src"
proof -
  obtain ii os where s: "source_sections doc = [(ii, os)]" "parse_one_source doc ii os = Inr src"
    using p ss by (auto simp: parse_sources_def outcome_simps map_result_all2 list_all2_Cons2 split: if_split_asm)
  then have "(ii, os) \<in> set (source_sections doc)" by simp
  then obtain n where n: "(n, os) \<in> set (ini_sections doc)" "source_index_of n = Some ii"
    by (auto simp: source_sections_def split: option.split_asm)
  then have "n \<in> set (filter is_source_section (map fst (ini_sections doc)))" using source_index_source by force
  then have "n \<in> set [''source0'']" using t by (simp only: plain_template_def)
  then have "n = ''source0''" by simp
  then have "os = opts" using n(1) t by (auto simp: plain_template_def plain_document_def dest: map_of_is_SomeI)
  then show ?thesis using that s(2) by blast
qed

lemma parse_generated_sources:
  assumes t: "plain_template doc opts" and mux: "map_of (ini_sections doc) ''streammux'' = Some mux" and ne: "cs \<noteq> []"
    and each: "\<And>c. c \<in> set cs \<Longrightarrow> parse_one_source (generated doc cs carried) (camera_order c) (camera_options carried c) = Inr (source_for src c)"
    and ok: "list_all (\<lambda>c. plain_camera c \<and> camera_ok bad c) cs" and paths: "distinct (map dc_output_path cs)"
  shows "parse_sources (generated doc cs carried) = Inr (map (source_for src) (sort_key camera_order cs))"
proof -
  have s: "source_sections (generated doc cs carried) = map (\<lambda>c. (camera_order c, camera_options carried c)) (sort_key camera_order cs)"
    by (simp add: generated_sources [OF t mux] sort_key_map_fst)
  have "map_result (\<lambda>(i, opts). parse_one_source (generated doc cs carried) i opts) (map (\<lambda>c. (camera_order c, camera_options carried c)) ds)
      = Inr (map (source_for src) ds)" if "set ds \<subseteq> set cs" for ds
    using that each by (induction ds) auto
  then have m: "map_result (\<lambda>(i, opts). parse_one_source (generated doc cs carried) i opts) (source_sections (generated doc cs carried))
      = Inr (map (source_for src) (sort_key camera_order cs))" unfolding s by simp
  have "distinct (map camera_path cs)"
    using paths plain_camera_order(3) ok unfolding distinct_map inj_on_def list_all_iff by metis
  then have "distinct (map camera_path (sort_key camera_order cs))" by (auto simp: distinct_map)
  then have "distinct (filter (\<lambda>p. p \<noteq> []) (map sc_output_path (map (source_for src) (sort_key camera_order cs))))"
    by (simp add: source_for_def comp_def distinct_filter)
  moreover have "source_sections (generated doc cs carried) \<noteq> []" using ne by (simp add: s) (metis length_0_conv length_sort)
  ultimately show ?thesis by (simp only: parse_sources_def m if_False bind_result_Inr if_True)
qed

lemma validated_plain_cameras:
  assumes v: "validate_configuration bad dev max_cameras cf = Inr ()" and plain: "list_all plain_camera (cf_cameras cf)"
  shows "list_all (\<lambda>c. plain_camera c \<and> camera_ok bad c) (cf_cameras cf) \<and> distinct (map dc_output_path (cf_cameras cf))
    \<and> distinct (map camera_order (cf_cameras cf))"
proof -
  let ?cs = "cf_cameras cf"
  have ok: "list_all (camera_ok bad) ?cs" and paths: "distinct (map dc_output_path ?cs)"
    and orders: "sorted_wrt (\<lambda>c d. \<not> number_eq (the (number_of (dc_source_order d))) (the (number_of (dc_source_order c)))) ?cs"
    using validated_configuration_cameras [OF v] by auto
  have cs: "list_all (\<lambda>c. plain_camera c \<and> camera_ok bad c) ?cs" using ok plain by (simp add: list_all_iff)
  have "sorted_wrt (\<lambda>c d. camera_order c \<noteq> camera_order d) ?cs"
  proof (rule sorted_wrt_mono_rel [OF _ orders])
    fix c d assume cd: "c \<in> set ?cs" "d \<in> set ?cs"
      "\<not> number_eq (the (number_of (dc_source_order d))) (the (number_of (dc_source_order c)))"
    show "camera_order c \<noteq> camera_order d"
    proof
      assume "camera_order c = camera_order d"
      then have "dc_source_order c = dc_source_order d"
        using cd(1,2) cs plain_camera_order(1) unfolding list_all_iff by metis
      moreover obtain n where "dc_source_order d = JInt n" using cd(2) cs plain_camera_order(1) unfolding list_all_iff by metis
      ultimately show False using cd(3) by (simp add: number_eq_def fl_exact_def)
    qed
  qed
  then have "distinct (map camera_order ?cs)" by (simp add: distinct_conv_nth sorted_wrt_iff_nth_less nat_neq_iff) metis
  with cs paths show ?thesis by blast
qed

text \<open>
  C8.  The Bridge does what the Agent was told.  From a validated configuration of at least one camera, with whole
  source orders and plain URLs, and a plain template that the Bridge itself accepts, the Agent's generator
  succeeds, and the Bridge reads the generated text as exactly one source per camera, in the order of the
  source orders, each with its camera's URL, id and mount and the template's source settings, a batch size of
  one frame per camera, and everything else as in the template.
\<close>

theorem bridge_reads_generated_config:
  assumes t: "plain_template doc opts" and v: "validate_configuration bad dev max_cameras cf = Inr ()"
    and plain: "list_all plain_camera (cf_cameras cf)" and ne: "cf_cameras cf \<noteq> []"
    and template: "load_bridge_config is_file (Inr (ini_text doc)) = Inr b" and src: "bc_sources b = [src]"
  shows "\<exists>text. generate_runtime_config show_float (Inr doc) None (cf_cameras cf) file = (Inr (), Some text)
    \<and> load_bridge_config is_file (Inr text)
      = Inr (b\<lparr>bc_sources := map (source_for src) (sort_key camera_order (cf_cameras cf)),
               bc_streammux := (bc_streammux b)\<lparr>mx_batch_size := int (length (cf_cameras cf))\<rparr>\<rparr>)"
proof -
  let ?cs = "cf_cameras cf" and ?carried = "carried_options opts"
  let ?doc = "generated doc ?cs ?carried"
  have cs: "list_all (\<lambda>c. plain_camera c \<and> camera_ok bad c) ?cs" and paths: "distinct (map dc_output_path ?cs)"
    and od: "distinct (map camera_order ?cs)"
    using validated_plain_cameras [OF v plain] by simp_all
  have def: "ini_defaults doc = []" "ini_defaults ?doc = []" and pd: "plain_document lower doc"
    and first: "map_of (ini_sections doc) ''source0'' = Some opts" and lit: "literal_options opts"
    using t by (auto simp: plain_template_def plain_document_def generated_def list_all_iff dest!: map_of_SomeD)
  have pt: "parse_document is_file doc = Inr b" using template ini_read_text [OF pd] by (simp add: load_bridge_config_def)
  obtain mux where mux: "map_of (ini_sections doc) ''streammux'' = Some mux"
    using pt by (auto simp: parse_document_def parse_streammux_def require_section_def find_section_def outcome_simps
        split: option.split_asm)
  have gen: "runtime_ini show_float (Inr doc) ?cs = Inr ?doc" by (rule runtime_ini_generated [OF t cs od])
  have read: "ini_read lower (ini_text ?doc) = Inr ?doc" by (rule ini_read_text [OF plain_generated [OF t cs od mux]])
  have same: "find_section ?doc n = find_section doc n"
    if "n \<in> {''primary-gie'', ''tracker'', ''osd'', ''bridge-rtsp-out'', ''bridge-snapshot'', ''tests''}" for n
  proof -
    have "\<not> is_source_section n" "n \<noteq> ''streammux''" using that by (auto simp: is_source_section_def)
    then show ?thesis using generated_find [OF t mux] by simp
  qed
  have defs: "ini_defaults ?doc = ini_defaults doc" using def by simp
  have others: "parse_infer f ?doc = parse_infer f doc" "parse_tracker ?doc = parse_tracker doc" "parse_osd ?doc = parse_osd doc"
    "parse_rtsp_out ?doc = parse_rtsp_out doc" "parse_snapshot ?doc = parse_snapshot doc"
    "parse_file_loop ?doc = parse_file_loop doc" for f
    by (rule other_sections_same [OF defs], erule same)+
  have mx: "parse_streammux ?doc = Inr ((bc_streammux b)\<lparr>mx_batch_size := int (length ?cs)\<rparr>)"
    by (rule generated_streammux [OF t mux]) (use pt in \<open>auto simp: parse_document_def outcome_simps\<close>)
  obtain i where one: "parse_one_source doc i opts = Inr src"
    by (rule template_source [OF t _ src]) (use pt in \<open>auto simp: parse_document_def outcome_simps\<close>)
  have each: "parse_one_source ?doc (camera_order c) (camera_options ?carried c) = Inr (source_for src c)" if "c \<in> set ?cs" for c
  proof -
    have c: "plain_camera c" "camera_ok bad c" using cs that by (simp_all add: list_all_iff)
    show ?thesis
      by (rule parse_camera_source [OF one def lit literal_camera_options [OF c lit] plain_camera_order(4) [OF c] others(6)])
  qed
  have "parse_sources ?doc = Inr (map (source_for src) (sort_key camera_order ?cs))"
    by (rule parse_generated_sources [OF t mux ne]) (use each cs paths in auto)
  then have "parse_document is_file ?doc = Inr (b\<lparr>bc_sources := map (source_for src) (sort_key camera_order ?cs),
      bc_streammux := (bc_streammux b)\<lparr>mx_batch_size := int (length ?cs)\<rparr>\<rparr>)"
    using pt by (auto simp: parse_document_def mx others outcome_simps)
  then show ?thesis using gen read by (simp add: generate_runtime_config_def load_bridge_config_def)
qed

definition demo_bridge_options :: options where
  "demo_bridge_options = [(''type'', ''3''), (''uri'', ''file:///v''), (''gpu-id'', ''0'')]"

definition demo_bridge_template :: ini where
  "demo_bridge_template = \<lparr>ini_defaults = [], ini_sections =
     [(''source0'', demo_bridge_options), (''streammux'', [(''batch-size'', ''1''), (''width'', ''1280'')]),
      (''primary-gie'', [(''config-file'', ''/i'')])]\<rparr>"

definition demo_bridge_config :: bridge_config where
  "demo_bridge_config = (case parse_document (\<lambda>_. True) demo_bridge_template of Inr b \<Rightarrow> b)"

lemma demo_bridge_template_plain: "plain_template demo_bridge_template demo_bridge_options"
  by code_simp

lemma demo_bridge_template_loads:
  "load_bridge_config (\<lambda>_. True) (Inr (ini_text demo_bridge_template)) = Inr demo_bridge_config"
proof -
  have "plain_document lower demo_bridge_template" using demo_bridge_template_plain by (simp add: plain_template_def)
  moreover have "is_ok (parse_document (\<lambda>_. True) demo_bridge_template)" by code_simp
  ultimately show ?thesis by (auto simp: load_bridge_config_def ini_read_text demo_bridge_config_def is_ok_iff)
qed

theorem bridge_reads_generated_config_witness:
  "\<exists>text b'. generate_runtime_config (\<lambda>_. []) (Inr demo_bridge_template) None (cf_cameras demo_configuration) None = (Inr (), Some text)
     \<and> load_bridge_config (\<lambda>_. True) (Inr text) = Inr b' \<and> map sc_uri (bc_sources b') = [''rtsp://h/1'']"
proof -
  obtain src where src: "bc_sources demo_bridge_config = [src]"
  proof -
    have "length (bc_sources demo_bridge_config) = 1" by code_simp
    then show ?thesis using that by (auto simp: length_Suc_conv)
  qed
  have v: "validate_configuration (\<lambda>_. False) 3 4 demo_configuration = Inr ()" by code_simp
  have p: "list_all plain_camera (cf_cameras demo_configuration)" by code_simp
  have ne: "cf_cameras demo_configuration \<noteq> []" by (simp add: demo_configuration_def)
  from bridge_reads_generated_config [OF demo_bridge_template_plain v p ne demo_bridge_template_loads src, of "\<lambda>_. []" None]
  show ?thesis by (auto simp: demo_configuration_def source_for_def camera_url_def demo_camera_def)
qed

section \<open>Where the two sides disagree\<close>

text \<open>
  A source order that is a float passes the Agent's validation, but its section is none of the Bridge's: the
  camera is left out without an error.
\<close>

lemma float_order_ignored:
  assumes "dc_source_order c = JFloat x" and "list_ex (\<lambda>ch. \<not> is_digit ch) (show_float x)"
  shows "source_index_of (source_name show_float c) = None"
  using assms by (auto simp: Let_def source_index_of_def source_name_def order_text_def list_all_iff list_ex_iff)

text \<open>A setting that is not a number is a \<^verbatim>\<open>ValueError\<close>, not the configuration error the loader is documented to raise.\<close>

definition demo_bad_width :: ini where
  "demo_bad_width = demo_bridge_template\<lparr>ini_sections :=
     [(''source0'', demo_bridge_options), (''streammux'', [(''width'', ''wide'')]), (''primary-gie'', [(''config-file'', ''/i'')])]\<rparr>"

lemma bad_width_escapes:
  "load_bridge_config (\<lambda>_. True) (Inr (ini_text demo_bad_width)) = Inl ValueError"
proof -
  have "plain_document lower demo_bad_width" by code_simp
  moreover have "parse_document (\<lambda>_. True) demo_bad_width = Inl ValueError" by code_simp
  ultimately show ?thesis by (simp add: load_bridge_config_def ini_read_text)
qed

end
