(* ===== verification/BridgeTransport.thy ===== *)
theory BridgeTransport
  imports BridgeWire "HOL-Library.Sublist"
begin

text \<open>
  \<^verbatim>\<open>deepstream_bridge/transport.py\<close>: the two bounded queues, the sender thread and the reader thread.
  One round of the sender's loop is several steps, since the other threads run between them: \<open>SenderIdle\<close> is
  the head of the loop, \<open>SenderPolled\<close> the wait on the detection queue after the snapshot queue was found empty,
  and \<open>SenderWriting\<close> the point between the connection check and the \<^verbatim>\<open>assert\<close>, where the reader may close the
  socket.  \<open>tw_stream n\<close> are the bytes the \<open>n\<close>-th connection has carried, and \<open>tw_log\<close> the items whose \<^verbatim>\<open>sendall\<close>
  returned.  \<open>stop_transport\<close> is a \<^verbatim>\<open>stop\<close> whose joins return, so it lets the round in progress finish;
  \<open>stop_joining\<close> is the same with joins that may time out, and gives the threads that outlive it.
\<close>

datatype outgoing = OutDetection json_obj | OutSnapshot string bytes

datatype sender_phase = NoSender | SenderIdle | SenderPolled | SenderWriting outgoing | SenderDead exn

record transport =
  tw_queue :: "json_obj list"
  tw_queue_capacity :: int
  tw_snapshot_queue :: "(string \<times> bytes) list"
  tw_snapshot_capacity :: int
  tw_sender :: sender_phase
  tw_reader_dead :: bool
  tw_sock :: "nat option"
  tw_connections :: nat
  tw_stream :: "nat \<Rightarrow> bytes"
  tw_log :: "(nat \<times> outgoing) list"
  tw_dropped_enqueue :: nat
  tw_dropped_send :: nat
  tw_dropped_snapshot_enqueue :: nat
  tw_dropped_snapshot_send :: nat

definition mk_transport :: "int \<Rightarrow> int \<Rightarrow> exn + transport" where
  "mk_transport queue_capacity snapshot_queue_capacity =
     (if queue_capacity \<le> 0 then Inl ValueError
      else if snapshot_queue_capacity \<le> 0 then Inl ValueError
      else Inr \<lparr>tw_queue = [], tw_queue_capacity = queue_capacity, tw_snapshot_queue = [],
        tw_snapshot_capacity = snapshot_queue_capacity, tw_sender = NoSender, tw_reader_dead = False, tw_sock = None, tw_connections = 0,
        tw_stream = (\<lambda>_. []), tw_log = [], tw_dropped_enqueue = 0, tw_dropped_send = 0,
        tw_dropped_snapshot_enqueue = 0, tw_dropped_snapshot_send = 0\<rparr>)"

section \<open>The producer side\<close>

definition enqueue_payload :: "json_obj \<Rightarrow> transport \<Rightarrow> transport" where
  "enqueue_payload payload w =
     (if int (length (tw_queue w)) < tw_queue_capacity w then w\<lparr>tw_queue := tw_queue w @ [payload]\<rparr>
      else w\<lparr>tw_dropped_enqueue := Suc (tw_dropped_enqueue w)\<rparr>)"

definition enqueue_snapshot :: "string \<Rightarrow> bytes \<Rightarrow> transport \<Rightarrow> transport" where
  "enqueue_snapshot event_id jpeg w =
     (if int (length (tw_snapshot_queue w)) < tw_snapshot_capacity w
      then w\<lparr>tw_snapshot_queue := tw_snapshot_queue w @ [(event_id, jpeg)]\<rparr>
      else w\<lparr>tw_dropped_snapshot_enqueue := Suc (tw_dropped_snapshot_enqueue w)\<rparr>)"

section \<open>The sender thread\<close>

definition close_socket :: "transport \<Rightarrow> transport" where
  "close_socket w = w\<lparr>tw_sock := None\<rparr>"

definition count_dropped_send :: "outgoing \<Rightarrow> transport \<Rightarrow> transport" where
  "count_dropped_send item w =
     (case item of
        OutDetection _ \<Rightarrow> w\<lparr>tw_dropped_send := Suc (tw_dropped_send w)\<rparr>
      | OutSnapshot _ _ \<Rightarrow> w\<lparr>tw_dropped_snapshot_send := Suc (tw_dropped_snapshot_send w)\<rparr>)"

definition send_attempt :: "bool \<Rightarrow> outgoing \<Rightarrow> transport \<Rightarrow> transport" where
  "send_attempt connects item w =
     (if tw_sock w = None
      then if connects
           then w\<lparr>tw_sock := Some (tw_connections w), tw_connections := Suc (tw_connections w),
                  tw_sender := SenderWriting item\<rparr>
           else (count_dropped_send item w)\<lparr>tw_sender := SenderIdle\<rparr>
      else w\<lparr>tw_sender := SenderWriting item\<rparr>)"

definition sender_turn :: "bool \<Rightarrow> transport \<Rightarrow> transport" where
  "sender_turn connects w =
     (case tw_sender w of
        SenderIdle \<Rightarrow>
          (case tw_snapshot_queue w of
             (event_id, jpeg) # q \<Rightarrow> send_attempt connects (OutSnapshot event_id jpeg) (w\<lparr>tw_snapshot_queue := q\<rparr>)
           | [] \<Rightarrow> w\<lparr>tw_sender := SenderPolled\<rparr>)
      | SenderPolled \<Rightarrow>
          (case tw_queue w of
             payload # q \<Rightarrow> send_attempt connects (OutDetection payload) (w\<lparr>tw_queue := q\<rparr>)
           | [] \<Rightarrow> w\<lparr>tw_sender := SenderIdle\<rparr>)
      | _ \<Rightarrow> w)"

definition encode_outgoing :: "(json \<Rightarrow> utext) \<Rightarrow> outgoing \<Rightarrow> exn + bytes" where
  "encode_outgoing dumps item =
     (case item of
        OutDetection payload \<Rightarrow> bridge_encode_message dumps payload
      | OutSnapshot event_id jpeg \<Rightarrow> bridge_encode_snapshot_message (text_of_string event_id) jpeg)"

definition carry :: "nat \<Rightarrow> bytes \<Rightarrow> transport \<Rightarrow> transport" where
  "carry n bs w = w\<lparr>tw_stream := (tw_stream w)(n := tw_stream w n @ bs)\<rparr>"

text \<open>
  \<open>fault = Some (k, e)\<close>: \<^verbatim>\<open>sendall\<close> raises after \<open>k\<close> bytes.  An exception that is not an \<^verbatim>\<open>OSError\<close> ends the
  thread: the encoding errors, and the assertion when the reader closed the socket in between.
\<close>

definition sender_write :: "(json \<Rightarrow> utext) \<Rightarrow> (nat \<times> exn) option \<Rightarrow> transport \<Rightarrow> transport" where
  "sender_write dumps fault w =
     (case tw_sender w of
        SenderWriting item \<Rightarrow>
          (case tw_sock w of
             None \<Rightarrow> w\<lparr>tw_sender := SenderDead AssertionError\<rparr>
           | Some n \<Rightarrow>
               (case encode_outgoing dumps item of
                  Inl e \<Rightarrow> w\<lparr>tw_sender := SenderDead e\<rparr>
                | Inr frame \<Rightarrow>
                    (case fault of
                       None \<Rightarrow> (carry n frame w)\<lparr>tw_log := tw_log w @ [(n, item)], tw_sender := SenderIdle\<rparr>
                     | Some (k, e) \<Rightarrow>
                         if is_os_error e
                         then (count_dropped_send item (close_socket (carry n (take (min k (length frame - 1)) frame) w)))
                                \<lparr>tw_sender := SenderIdle\<rparr>
                         else (carry n (take (min k (length frame - 1)) frame) w)\<lparr>tw_sender := SenderDead e\<rparr>)))
      | _ \<Rightarrow> w)"

definition start_transport :: "transport \<Rightarrow> transport" where
  "start_transport w = (if tw_sender w \<noteq> NoSender then w else w\<lparr>tw_sender := SenderIdle, tw_reader_dead := False\<rparr>)"

definition stop_transport :: "(json \<Rightarrow> utext) \<Rightarrow> bool \<Rightarrow> (nat \<times> exn) option \<Rightarrow> transport \<Rightarrow> transport" where
  "stop_transport dumps connects fault w =
     close_socket
       ((sender_write dumps fault (if tw_sender w = SenderPolled then sender_turn connects w else w))\<lparr>tw_sender := NoSender\<rparr>)"

text \<open>
  \<^verbatim>\<open>stop\<close> waits five seconds for each thread.  \<open>about_to_connect\<close> is the item whose round has nothing to send
  it on: a sender whose \<^verbatim>\<open>connect\<close> hangs (\<open>connect_hangs\<close>) outlives the join with that item in hand.  A reader
  outlives it in the middle of a frame whose bytes trickle in (\<open>reader_hangs\<close>).  \<open>resume_sender\<close> is what a sender
  left over does when its \<^verbatim>\<open>connect\<close> ends at last; then it sees the stop event.
\<close>

datatype left_over = SenderConnecting outgoing | ReaderInFrame

definition about_to_connect :: "transport \<Rightarrow> (outgoing \<times> transport) option" where
  "about_to_connect w =
     (if tw_sock w \<noteq> None then None
      else case tw_sender w of
             SenderIdle \<Rightarrow>
               (case tw_snapshot_queue w of
                  (event_id, jpeg) # q \<Rightarrow> Some (OutSnapshot event_id jpeg, w\<lparr>tw_snapshot_queue := q\<rparr>)
                | [] \<Rightarrow> None)
           | SenderPolled \<Rightarrow>
               (case tw_queue w of payload # q \<Rightarrow> Some (OutDetection payload, w\<lparr>tw_queue := q\<rparr>) | [] \<Rightarrow> None)
           | _ \<Rightarrow> None)"

definition stop_joining ::
  "(json \<Rightarrow> utext) \<Rightarrow> bool \<Rightarrow> bool \<Rightarrow> bool \<Rightarrow> (nat \<times> exn) option \<Rightarrow> transport \<Rightarrow> left_over list \<times> transport"
where
  "stop_joining dumps connect_hangs reader_hangs connects fault w =
     (let reader = (if reader_hangs \<and> tw_sender w \<noteq> NoSender \<and> \<not> tw_reader_dead w \<and> tw_sock w \<noteq> None
                    then [ReaderInFrame] else [])
      in case (if connect_hangs then about_to_connect w else None) of
           Some (item, w) \<Rightarrow> (SenderConnecting item # reader, close_socket (w\<lparr>tw_sender := NoSender\<rparr>))
         | None \<Rightarrow> (reader, stop_transport dumps connects fault w))"

definition resume_sender :: "(json \<Rightarrow> utext) \<Rightarrow> bool \<Rightarrow> (nat \<times> exn) option \<Rightarrow> outgoing \<Rightarrow> transport \<Rightarrow> transport" where
  "resume_sender dumps connects fault item w = (sender_write dumps fault (send_attempt connects item w))\<lparr>tw_sender := NoSender\<rparr>"

lemma stop_joining_end:
  assumes "stop_joining dumps connect_hangs reader_hangs connects fault w = (left, w')"
  shows "tw_sender w' = NoSender" and "tw_sock w' = None" and "\<not> connect_hangs \<Longrightarrow> \<not> reader_hangs \<Longrightarrow> left = []"
  using assms
  by (auto simp: stop_joining_def stop_transport_def close_socket_def Let_def split: option.splits if_split_asm)

text \<open>A sender left over that gets its connection opens a socket of the stopped transport, which nothing closes.\<close>

lemma left_over_sender_reopens:
  assumes "stop_joining dumps True reader_hangs connects fault w = (left, w')" and "SenderConnecting item \<in> set left"
    and "encode_outgoing dumps item = Inr frame"
  shows "tw_sock w' = None"
    and "tw_sock (resume_sender dumps True None item w') = Some (tw_connections w')"
    and "tw_log (resume_sender dumps True None item w') = tw_log w' @ [(tw_connections w', item)]"
  using assms stop_joining_end(2) [OF assms(1)]
  by (simp_all add: resume_sender_def send_attempt_def sender_write_def carry_def)

section \<open>The reader thread\<close>

text \<open>
  What \<^verbatim>\<open>recv\<close> returns in turn: some bytes (none at the end of the stream), or a timeout or error.  Bytes
  beyond those asked for stay in the socket.
\<close>

datatype recv_event = RecvData bytes | RecvFault

function recv_chunks :: "nat \<Rightarrow> bytes \<Rightarrow> recv_event list \<Rightarrow> bytes option \<times> recv_event list" where
  "recv_chunks n acc evs =
     (if n \<le> length acc then (Some acc, evs)
      else case evs of
             [] \<Rightarrow> (None, [])
           | RecvFault # es \<Rightarrow> (None, es)
           | RecvData c # es \<Rightarrow>
               if c = [] then (None, es)
               else if length c \<le> n - length acc then recv_chunks n (acc @ c) es
               else (Some (acc @ take (n - length acc) c), RecvData (drop (n - length acc) c) # es))"
  by pat_completeness auto
termination by (relation "measure (\<lambda>(n, acc, evs). length evs)") auto

declare recv_chunks.simps [simp del]

definition recv_exact :: "nat \<Rightarrow> recv_event list \<Rightarrow> bytes option \<times> recv_event list" where
  "recv_exact n evs = recv_chunks n [] evs"

text \<open>
  One \<^verbatim>\<open>_read_one_frame\<close>: the decoded acknowledgement, if the frame is one, what is left to receive, and
  whether the connection was dropped.
\<close>

datatype frame_read = Unavailable | DropConnection | Ignored | AckMessage json | ReaderRaised exn

definition read_one_frame :: "(utext \<Rightarrow> exn + json) \<Rightarrow> recv_event list \<Rightarrow> frame_read \<times> recv_event list" where
  "read_one_frame loads evs =
     (case recv_exact BRIDGE_HEADER_BYTES evs of
        (None, evs) \<Rightarrow> (Unavailable, evs)
      | (Some header, evs) \<Rightarrow>
          (case bridge_decode_frame_header header of
             (kind, n) \<Rightarrow>
               if n > BRIDGE_MAX_FRAME_BYTES then (DropConnection, evs)
               else (case recv_exact n evs of
                       (None, evs) \<Rightarrow> (Unavailable, evs)
                     | (Some body, evs) \<Rightarrow>
                         if kind \<noteq> BRIDGE_KIND_ACKNOWLEDGEMENT then (Ignored, evs)
                         else (case decode_acknowledgement loads body of
                                 Inl e \<Rightarrow> (if is_value_error e then Ignored else ReaderRaised e, evs)
                               | Inr message \<Rightarrow> (AckMessage message, evs)))))"

definition reader_turn :: "(utext \<Rightarrow> exn + json) \<Rightarrow> recv_event list \<Rightarrow> transport \<Rightarrow> (frame_read \<times> recv_event list) \<times> transport" where
  "reader_turn loads evs w =
     (if tw_sender w = NoSender \<or> tw_reader_dead w \<or> tw_sock w = None then ((Unavailable, evs), w)
      else let (r, evs) = read_one_frame loads evs
           in ((r, evs),
               case r of
                 DropConnection \<Rightarrow> close_socket w
               | ReaderRaised _ \<Rightarrow> w\<lparr>tw_reader_dead := True\<rparr>
               | _ \<Rightarrow> w))"

section \<open>Runs\<close>

datatype tw_call =
    EnqueuePayload json_obj
  | EnqueueSnapshot string bytes
  | StartTransport
  | StopTransport bool "(nat \<times> exn) option"
  | SenderTurn bool
  | SenderWrite "(nat \<times> exn) option"
  | ReaderTurn "recv_event list"

fun tw_step :: "(json \<Rightarrow> utext) \<Rightarrow> (utext \<Rightarrow> exn + json) \<Rightarrow> tw_call \<Rightarrow> transport \<Rightarrow> transport" where
  "tw_step dumps loads (EnqueuePayload payload) w = enqueue_payload payload w"
| "tw_step dumps loads (EnqueueSnapshot event_id jpeg) w = enqueue_snapshot event_id jpeg w"
| "tw_step dumps loads StartTransport w = start_transport w"
| "tw_step dumps loads (StopTransport connects fault) w = stop_transport dumps connects fault w"
| "tw_step dumps loads (SenderTurn connects) w = sender_turn connects w"
| "tw_step dumps loads (SenderWrite fault) w = sender_write dumps fault w"
| "tw_step dumps loads (ReaderTurn evs) w = snd (reader_turn loads evs w)"

definition tw_run :: "(json \<Rightarrow> utext) \<Rightarrow> (utext \<Rightarrow> exn + json) \<Rightarrow> tw_call list \<Rightarrow> transport \<Rightarrow> transport" where
  "tw_run dumps loads calls w = fold (tw_step dumps loads) calls w"

lemma tw_run_induct:
  assumes "P [] w" and "\<And>xs x w'. P xs w' \<Longrightarrow> P (xs @ [x]) (tw_step dumps loads x w')"
  shows "P calls (tw_run dumps loads calls w)"
  unfolding tw_run_def by (induction calls rule: rev_induct) (simp_all add: assms)

section \<open>Order\<close>

text \<open>The detections, and the snapshots, of a list of outgoing items or of calls.\<close>

definition detections_out :: "outgoing list \<Rightarrow> json_obj list" where
  "detections_out items = concat (map (\<lambda>i. case i of OutDetection d \<Rightarrow> [d] | _ \<Rightarrow> []) items)"

definition snapshots_out :: "outgoing list \<Rightarrow> (string \<times> bytes) list" where
  "snapshots_out items = concat (map (\<lambda>i. case i of OutSnapshot e j \<Rightarrow> [(e, j)] | _ \<Rightarrow> []) items)"

definition detections_in :: "tw_call list \<Rightarrow> json_obj list" where
  "detections_in calls = concat (map (\<lambda>c. case c of EnqueuePayload d \<Rightarrow> [d] | _ \<Rightarrow> []) calls)"

definition snapshots_in :: "tw_call list \<Rightarrow> (string \<times> bytes) list" where
  "snapshots_in calls = concat (map (\<lambda>c. case c of EnqueueSnapshot e j \<Rightarrow> [(e, j)] | _ \<Rightarrow> []) calls)"

definition in_hand :: "sender_phase \<Rightarrow> outgoing list" where
  "in_hand p = (case p of SenderWriting i \<Rightarrow> [i] | _ \<Rightarrow> [])"

text \<open>What was written, then what is being written, then what is queued, in the order of arrival.\<close>

definition in_order :: "tw_call list \<Rightarrow> transport \<Rightarrow> bool" where
  "in_order calls w \<longleftrightarrow>
     subseq (detections_out (map snd (tw_log w) @ in_hand (tw_sender w)) @ tw_queue w) (detections_in calls)
     \<and> subseq (snapshots_out (map snd (tw_log w) @ in_hand (tw_sender w)) @ tw_snapshot_queue w) (snapshots_in calls)
     \<and> 0 < tw_queue_capacity w \<and> int (length (tw_queue w)) \<le> tw_queue_capacity w
     \<and> 0 < tw_snapshot_capacity w \<and> int (length (tw_snapshot_queue w)) \<le> tw_snapshot_capacity w"

lemmas flow_defs = detections_out_def snapshots_out_def detections_in_def snapshots_in_def in_hand_def

lemma count_dropped_send_simps [simp]:
  "tw_queue (count_dropped_send i w) = tw_queue w" "tw_snapshot_queue (count_dropped_send i w) = tw_snapshot_queue w"
  "tw_log (count_dropped_send i w) = tw_log w" "tw_sender (count_dropped_send i w) = tw_sender w"
  "tw_queue_capacity (count_dropped_send i w) = tw_queue_capacity w"
  "tw_snapshot_capacity (count_dropped_send i w) = tw_snapshot_capacity w"
  "tw_sock (count_dropped_send i w) = tw_sock w" "tw_stream (count_dropped_send i w) = tw_stream w"
  "tw_connections (count_dropped_send i w) = tw_connections w"
  by (simp_all add: count_dropped_send_def split: outgoing.split)

lemma carry_simps [simp]:
  "tw_queue (carry n b w) = tw_queue w" "tw_snapshot_queue (carry n b w) = tw_snapshot_queue w"
  "tw_log (carry n b w) = tw_log w" "tw_sender (carry n b w) = tw_sender w"
  "tw_queue_capacity (carry n b w) = tw_queue_capacity w" "tw_snapshot_capacity (carry n b w) = tw_snapshot_capacity w"
  "tw_sock (carry n b w) = tw_sock w" "tw_connections (carry n b w) = tw_connections w"
  by (simp_all add: carry_def)

lemma subseq_drop_mid_list:
  assumes "subseq (xs @ ys @ zs) us"
  shows "subseq (xs @ zs) us"
proof -
  have "subseq (xs @ zs) (xs @ ys @ zs)" by (simp add: subseq_append' list_emb_append2)
  then show ?thesis using assms by (rule subseq_order.order_trans)
qed

lemma subseq_drop_middle: "subseq (xs @ y # ys) zs \<Longrightarrow> subseq (xs @ ys) zs"
  using subseq_drop_mid_list [of xs "[y]" ys zs] by simp

lemma subseq_more:
  assumes "subseq xs ys"
  shows "subseq xs (ys @ zs)"
proof -
  have "subseq ys (ys @ zs)" by (simp add: list_emb_prefix)
  with assms show ?thesis by (rule subseq_order.order_trans)
qed


lemma in_order_lose:
  assumes "in_order calls w" and "tw_log w' = tw_log w" and "tw_queue w' = tw_queue w" and "tw_snapshot_queue w' = tw_snapshot_queue w"
    and "tw_queue_capacity w' = tw_queue_capacity w" and "tw_snapshot_capacity w' = tw_snapshot_capacity w"
    and "in_hand (tw_sender w') = []"
  shows "in_order calls w'"
  using assms by (auto simp: in_order_def detections_out_def snapshots_out_def dest: subseq_drop_mid_list)

lemma in_order_write: "in_order calls w \<Longrightarrow> in_order calls (sender_write dumps fault w)"
proof (cases "tw_sender w")
  case (SenderWriting item)
  assume o: "in_order calls w"
  show ?thesis
  proof (cases "\<exists>n frame. tw_sock w = Some n \<and> encode_outgoing dumps item = Inr frame \<and> fault = None")
    case True
    with o SenderWriting show ?thesis by (auto simp: sender_write_def in_order_def in_hand_def)
  next
    case False
    with o SenderWriting show ?thesis
      by (intro in_order_lose [OF o])
         (auto simp: sender_write_def in_hand_def close_socket_def split: option.split sum.split)
  qed
qed (simp_all add: sender_write_def)

lemma in_order_turn:
  assumes o: "in_order calls w"
  shows "in_order calls (sender_turn connects w)"
proof (cases "tw_sender w")
  case SenderIdle
  with o show ?thesis
    by (cases "tw_snapshot_queue w")
       (auto simp: sender_turn_def send_attempt_def in_order_def in_hand_def detections_out_def snapshots_out_def
        dest: subseq_drop_middle)
next
  case SenderPolled
  with o show ?thesis
    by (cases "tw_queue w")
       (auto simp: sender_turn_def send_attempt_def in_order_def in_hand_def detections_out_def snapshots_out_def
        dest: subseq_drop_middle)
qed (use o in \<open>simp_all add: sender_turn_def\<close>)

lemma in_order_more: "in_order calls w \<Longrightarrow> in_order (calls @ [x]) w"
  by (auto simp: in_order_def detections_in_def snapshots_in_def intro!: subseq_more)

lemma in_order_close: "in_order calls (close_socket w) = in_order calls w"
  by (simp add: in_order_def close_socket_def)

lemma in_order_join: "in_order calls w \<Longrightarrow> in_order calls (w\<lparr>tw_sender := NoSender\<rparr>)"
  by (rule in_order_lose) (auto simp: in_hand_def)

lemma in_order_step:
  assumes o: "in_order calls w"
  shows "in_order (calls @ [x]) (tw_step dumps loads x w)"
proof (cases x)
  case (EnqueuePayload d)
  with o in_order_more [OF o, of x] show ?thesis
    by (auto simp: enqueue_payload_def in_order_def detections_in_def snapshots_in_def simp flip: append_assoc)
next
  case (EnqueueSnapshot e j)
  with o in_order_more [OF o, of x] show ?thesis
    by (auto simp: enqueue_snapshot_def in_order_def detections_in_def snapshots_in_def simp flip: append_assoc)
next
  case StartTransport
  with in_order_more [OF o, of x] show ?thesis by (auto simp: start_transport_def in_order_def in_hand_def)
next
  case (StopTransport connects fault)
  have "in_order (calls @ [x]) (if tw_sender w = SenderPolled then sender_turn connects w else w)"
    using in_order_more [OF o, of x] by (simp add: in_order_turn)
  then show ?thesis
    by (simp add: StopTransport stop_transport_def in_order_close in_order_join in_order_write)
next
  case (ReaderTurn evs)
  with in_order_more [OF o, of x] show ?thesis
    by (auto simp: reader_turn_def close_socket_def in_order_def Let_def split: prod.split frame_read.split)
qed (use in_order_more [OF o, of x] in \<open>simp_all add: in_order_turn in_order_write\<close>)

lemma in_order_run:
  assumes "mk_transport capacity snapshot_capacity = Inr w0"
  shows "in_order calls (tw_run dumps loads calls w0)"
proof (rule tw_run_induct)
  show "in_order [] w0" using assms by (auto simp: mk_transport_def in_order_def flow_defs split: if_split_asm)
  show "in_order (xs @ [x]) (tw_step dumps loads x w)" if "in_order xs w" for xs x w using in_order_step [OF that] .
qed

end
