(* ===== verification/BridgeDelivery.thy ===== *)
theory BridgeDelivery
  imports BridgeTransport
begin

text \<open>
  What arrives at the other end of the Bridge's transport: the bytes each connection has carried, the items
  the Agent's \<^verbatim>\<open>_handle_connection\<close> makes of them, and the acknowledgements the reader makes of what it receives.
\<close>

section \<open>What a connection has carried\<close>

definition message_of :: "(json \<Rightarrow> utext) \<Rightarrow> outgoing \<Rightarrow> message" where
  "message_of dumps item =
     (case item of
        OutDetection payload \<Rightarrow> DetectionText (dumps (JObj payload))
      | OutSnapshot event_id jpeg \<Rightarrow> Snapshot (text_of_string event_id) jpeg)"

definition sent_on :: "nat \<Rightarrow> transport \<Rightarrow> outgoing list" where
  "sent_on n w = map snd (filter (\<lambda>(k, _). k = n) (tw_log w))"

lemma encode_outgoing_message: "encode_outgoing dumps item = encode_message (message_of dumps item)"
  by (cases item) (simp_all add: encode_outgoing_def message_of_def bridge_encode_message_def bridge_encode_frame_eq
      bridge_encode_snapshot_eq bridge_constants frame_constants)

text \<open>
  A connection's bytes are the frames of the items sent on it, and after them at most the beginning of one
  more frame; a connection that ends in such a fragment is never written to again.
\<close>

definition is_fragment :: "(json \<Rightarrow> utext) \<Rightarrow> bytes \<Rightarrow> bool" where
  "is_fragment dumps t \<longleftrightarrow> (\<exists>item frame. encode_outgoing dumps item = Inr frame \<and> strict_prefix t frame)"

definition unused :: "nat \<Rightarrow> transport \<Rightarrow> bool" where
  "unused n w \<longleftrightarrow> tw_sock w \<noteq> Some n \<or> (\<exists>e. tw_sender w = SenderDead e)"

definition whole_frames :: "(json \<Rightarrow> utext) \<Rightarrow> nat \<Rightarrow> transport \<Rightarrow> bytes list \<Rightarrow> bytes \<Rightarrow> bool" where
  "whole_frames dumps n w frames t \<longleftrightarrow>
     list_all2 (\<lambda>item frame. encode_outgoing dumps item = Inr frame) (sent_on n w) frames
     \<and> tw_stream w n = concat frames @ t \<and> (t = [] \<or> is_fragment dumps t \<and> unused n w)"

definition framed :: "(json \<Rightarrow> utext) \<Rightarrow> transport \<Rightarrow> bool" where
  "framed dumps w \<longleftrightarrow> (\<forall>n. (\<exists>frames t. whole_frames dumps n w frames t)
     \<and> (tw_connections w \<le> n \<longrightarrow> tw_stream w n = [] \<and> tw_sock w \<noteq> Some n))"

lemma framedD: "framed dumps w \<Longrightarrow> \<exists>frames t. whole_frames dumps n w frames t"
  by (simp add: framed_def)

text \<open>Steps that carry nothing keep the frames, as long as they do not bring a socket back into use.\<close>

lemma framed_same_stream:
  assumes f: "framed dumps w" and "tw_stream w' = tw_stream w" and "tw_log w' = tw_log w"
    and "tw_connections w' = tw_connections w"
    and "tw_sock w' = None \<or> tw_sock w' = tw_sock w \<and> (tw_sender w' = tw_sender w \<or> (\<forall>e. tw_sender w \<noteq> SenderDead e))"
  shows "framed dumps w'"
proof -
  have u: "unused n w'" if "unused n w" for n using that assms(5) by (auto simp: unused_def)
  have "\<exists>frames t. whole_frames dumps n w' frames t" for n
  proof -
    obtain frames t where "whole_frames dumps n w frames t" using framedD [OF f] by blast
    then have "whole_frames dumps n w' frames t" using u assms(2,3) by (auto simp: whole_frames_def sent_on_def)
    then show ?thesis by blast
  qed
  then show ?thesis using f assms(2,4,5) by (auto simp: framed_def)
qed

lemma sender_write_connections: "tw_connections (sender_write dumps fault w) = tw_connections w"
  by (auto simp: sender_write_def close_socket_def split: sender_phase.split option.split sum.split)

lemma sender_write_sock: "tw_sock (sender_write dumps fault w) = tw_sock w \<or> tw_sock (sender_write dumps fault w) = None"
  by (auto simp: sender_write_def close_socket_def split: sender_phase.split option.split sum.split)

lemma sender_write_stream: "tw_sock w = Some n \<Longrightarrow> k \<noteq> n \<Longrightarrow> tw_stream (sender_write dumps fault w) k = tw_stream w k"
  by (auto simp: sender_write_def close_socket_def carry_def split: sender_phase.split option.split sum.split)

lemma framed_write:
  assumes f: "framed dumps w"
  shows "framed dumps (sender_write dumps fault w)"
proof (cases "tw_sender w")
  case (SenderWriting item)
  note sw = SenderWriting
  show ?thesis
  proof (cases "tw_sock w")
    case None
    show ?thesis by (rule framed_same_stream [OF f]) (simp_all add: sender_write_def SenderWriting None)
  next
    case (Some n)
    show ?thesis
    proof (cases "encode_outgoing dumps item")
      case (Inl e)
      show ?thesis by (rule framed_same_stream [OF f]) (simp_all add: sender_write_def SenderWriting Some Inl)
    next
      case (Inr frame)
      obtain frames t where w: "whole_frames dumps n w frames t" using framedD [OF f] by blast
      have s: "tw_stream w n = concat frames"
        using w SenderWriting Some by (auto simp: whole_frames_def unused_def)
      have other: "\<exists>fs u. whole_frames dumps k w' fs u"
        if "k \<noteq> n" "tw_stream w' k = tw_stream w k" "sent_on k w' = sent_on k w" "tw_sock w' = Some n \<or> tw_sock w' = None"
        for k w'
      proof -
        obtain fs u where "whole_frames dumps k w fs u" using framedD [OF f] by blast
        then have "whole_frames dumps k w' fs u" using that by (auto simp: whole_frames_def unused_def)
        then show ?thesis by blast
      qed
      let ?w = "sender_write dumps fault w"
      have n: "n < tw_connections w" using f Some by (auto simp: framed_def not_less [symmetric])
      have "\<exists>fs u. whole_frames dumps n ?w fs u"
      proof (cases fault)
        case None
        have "whole_frames dumps n ?w (frames @ [frame]) []"
          using w s by (auto simp: sender_write_def sw Some Inr None whole_frames_def sent_on_def carry_def
              intro!: list_all2_appendI)
        then show ?thesis by blast
      next
        case (Some q)
        then obtain k e where q: "fault = Some (k, e)" by (cases q) auto
        have "length frame \<noteq> 0"
          using Inr by (auto simp: encode_outgoing_def bridge_encode_message_def bridge_encode_snapshot_message_def
              bridge_encode_frame_def bind_result_eq_Inr to_bytes_def bridge_constants split: outgoing.split_asm if_split_asm)
        then have "length (take (min k (length frame - 1)) frame) < length frame" by (cases frame) (simp_all add: min_def)
        then have "strict_prefix (take (min k (length frame - 1)) frame) frame"
          unfolding strict_prefix_def using take_is_prefix by (metis less_irrefl)
        then have "is_fragment dumps (take (min k (length frame - 1)) frame)" using Inr by (auto simp: is_fragment_def)
        then have "whole_frames dumps n ?w frames (take (min k (length frame - 1)) frame)"
          using w s \<open>tw_sock w = Some n\<close>
          by (auto simp: sender_write_def sw Inr q whole_frames_def sent_on_def carry_def close_socket_def unused_def)
        then show ?thesis by blast
      qed
      moreover have "\<exists>fs u. whole_frames dumps k ?w fs u" if "k \<noteq> n" for k
        using that by (intro other) (auto simp: sender_write_def sw Some Inr carry_def close_socket_def sent_on_def
            split: option.split)
      ultimately have "\<exists>fs u. whole_frames dumps k ?w fs u" for k by (cases "k = n") auto
      moreover have "tw_stream ?w k = [] \<and> tw_sock ?w \<noteq> Some k" if "tw_connections ?w \<le> k" for k
      proof -
        have "tw_connections w \<le> k" using that by (simp add: sender_write_connections)
        then have "k \<noteq> n" "tw_stream w k = []" using f n by (auto simp: framed_def)
        then show ?thesis using Some sender_write_sock [of dumps fault w] sender_write_stream [OF Some] by auto
      qed
      ultimately show ?thesis by (auto simp: framed_def)
    qed
  qed
qed (use f in \<open>simp_all add: sender_write_def\<close>)

lemma framed_attempt:
  assumes f: "framed dumps w" and "\<forall>e. tw_sender w \<noteq> SenderDead e"
  shows "framed dumps (send_attempt connects item w)"
proof (cases "tw_sock w = None \<and> connects")
  case False
  then show ?thesis using assms(2) by (intro framed_same_stream [OF f]) (auto simp: send_attempt_def)
next
  case True
  let ?w = "send_attempt connects item w"
  have "\<exists>frames t. whole_frames dumps n ?w frames t" for n
  proof -
    obtain frames t where w: "whole_frames dumps n w frames t" using framedD [OF f] by blast
    then have "whole_frames dumps n ?w frames t"
      using True f by (auto simp: whole_frames_def sent_on_def send_attempt_def unused_def framed_def)
    then show ?thesis by blast
  qed
  moreover have "tw_stream ?w n = [] \<and> tw_sock ?w \<noteq> Some n" if "tw_connections ?w \<le> n" for n
    using that True f by (auto simp: send_attempt_def framed_def)
  ultimately show ?thesis by (auto simp: framed_def)
qed

lemma framed_queues: "framed dumps (w\<lparr>tw_queue := q\<rparr>) = framed dumps w" "framed dumps (w\<lparr>tw_snapshot_queue := s\<rparr>) = framed dumps w"
  by (simp_all add: framed_def whole_frames_def sent_on_def unused_def)

lemma framed_phase: "framed dumps w \<Longrightarrow> \<forall>e. tw_sender w \<noteq> SenderDead e \<Longrightarrow> framed dumps (w\<lparr>tw_sender := p\<rparr>)"
  by (erule framed_same_stream) simp_all

lemma framed_close: "framed dumps w \<Longrightarrow> framed dumps (close_socket (w\<lparr>tw_sender := p\<rparr>))"
  "framed dumps w \<Longrightarrow> framed dumps (close_socket w)"
  by (erule framed_same_stream, simp_all add: close_socket_def)+

lemma framed_turn: "framed dumps w \<Longrightarrow> framed dumps (sender_turn connects w)"
  by (auto simp: sender_turn_def framed_queues intro!: framed_attempt framed_phase split: sender_phase.split list.split)

lemma framed_step: "framed dumps w \<Longrightarrow> framed dumps (tw_step dumps loads x w)"
proof (cases x)
  case (StopTransport connects fault)
  assume f: "framed dumps w"
  have "framed dumps (sender_write dumps fault (if tw_sender w = SenderPolled then sender_turn connects w else w))"
    using f by (simp add: framed_write framed_turn)
  then have "framed dumps (close_socket ((sender_write dumps fault (if tw_sender w = SenderPolled then sender_turn connects w else w))
      \<lparr>tw_sender := NoSender\<rparr>))" by (rule framed_close)
  then show ?thesis by (simp only: StopTransport stop_transport_def tw_step.simps)
next
  case (ReaderTurn evs)
  assume f: "framed dumps w"
  have "framed dumps (w\<lparr>tw_reader_dead := True\<rparr>)" by (rule framed_same_stream [OF f]) simp_all
  then show ?thesis using f
    by (auto simp: ReaderTurn reader_turn_def framed_close Let_def split: prod.split frame_read.split)
next
  case StartTransport
  assume f: "framed dumps w"
  show ?thesis by (rule framed_same_stream [OF f]) (auto simp: StartTransport start_transport_def)
next
  case (EnqueuePayload p)
  assume f: "framed dumps w"
  show ?thesis by (rule framed_same_stream [OF f]) (auto simp: EnqueuePayload enqueue_payload_def)
next
  case (EnqueueSnapshot e j)
  assume f: "framed dumps w"
  show ?thesis by (rule framed_same_stream [OF f]) (auto simp: EnqueueSnapshot enqueue_snapshot_def)
qed (simp_all add: framed_turn framed_write)

lemma framed_run:
  assumes "mk_transport capacity snapshot_capacity = Inr w0"
  shows "framed dumps (tw_run dumps loads calls w0)"
proof (rule tw_run_induct)
  have "whole_frames dumps n w0 [] []" for n
    using assms by (auto simp: mk_transport_def whole_frames_def sent_on_def split: if_split_asm)
  moreover have "tw_stream w0 n = [] \<and> tw_sock w0 \<noteq> Some n" for n
    using assms by (auto simp: mk_transport_def split: if_split_asm)
  ultimately show "framed dumps w0" by (auto simp: framed_def)
qed (rule framed_step)

section \<open>What the Agent makes of it\<close>

lemma fragment_no_item:
  assumes "is_fragment dumps t"
  shows "\<exists>r. next_item loads conn t = Inl r"
proof -
  obtain item f where m: "encode_outgoing dumps item = Inr f" and t: "strict_prefix t f"
    using assms by (auto simp: is_fragment_def)
  obtain body kind where f: "encode_frame body kind = Inr f"
    using m by (cases item) (auto simp: encode_outgoing_def bridge_encode_message_def bridge_encode_snapshot_message_def
        bridge_encode_frame_eq bind_result_eq_Inr)
  obtain u where u: "f = t @ u" "u \<noteq> []" using t by (auto simp: strict_prefix_def prefix_def)
  show ?thesis
  proof (cases "FRAME_HEADER_BYTES \<le> length t")
    case True
    then have "decode_frame_header (take FRAME_HEADER_BYTES t) = (kind, length body)"
      using frame_split(1) [OF f] u by simp
    moreover have "length t - FRAME_HEADER_BYTES < length body"
      using frame_header_length [OF f] u True by (cases u) auto
    ultimately show ?thesis using True by (auto simp: next_item_def read_frame_def readexactly_def)
  next
    case False
    then show ?thesis by (auto simp: next_item_def read_frame_def readexactly_def)
  qed
qed

lemma next_item_nil: "next_item loads conn [] = Inl CleanEof"
  by (simp add: next_item_def read_frame_def readexactly_def frame_constants)

lemma connection_delivers_prefix:
  assumes "list_all2 (\<lambda>m f. encode_message m = Inr f \<and> frame_fits m f) msgs frames"
    and "map (item_of loads conn) msgs = map Some items" and "\<exists>r. next_item loads conn t = Inl r"
  shows "fst (handle_connection loads conn (concat frames @ t)) = items"
  using assms
proof (induction msgs frames arbitrary: items rule: list_all2_induct)
  case Nil
  then show ?case by (auto simp: handle_connection.simps)
next
  case (Cons m ms f fs)
  then obtain item items' where items: "items = item # items'" "item_of loads conn m = Some item"
    "map (item_of loads conn) ms = map Some items'" by (cases items) auto
  have "next_item loads conn (f @ concat fs @ t) = Inr (item, concat fs @ t)"
    using Cons.hyps(1) items(2) by (intro next_item_message) simp_all
  moreover have "fst (handle_connection loads conn (concat fs @ t)) = items'"
    by (rule Cons.IH [OF items(3) Cons.prems(2)])
  ultimately show ?case using items(1)
    by (cases "handle_connection loads conn (concat fs @ t)")
       (simp add: handle_connection.simps [of _ _ "f @ concat fs @ t"])
qed

definition queue_of :: "nat \<Rightarrow> outgoing \<Rightarrow> queue_item" where
  "queue_of conn item =
     (case item of
        OutDetection payload \<Rightarrow> DetectionItem payload conn
      | OutSnapshot event_id jpeg \<Rightarrow> SnapshotItem (text_of_string event_id) jpeg)"

definition enqueued :: "tw_call list \<Rightarrow> outgoing list" where
  "enqueued calls = map OutDetection (detections_in calls) @ map (\<lambda>(e, j). OutSnapshot e j) (snapshots_in calls)"

text \<open>
  \<open>deliverable\<close>: if the item can be encoded at all, its frame respects the Agent's size limit, and a detection's
  JSON text is parsed back to the detection, in a supported version.
\<close>

definition deliverable :: "(json \<Rightarrow> utext) \<Rightarrow> (utext \<Rightarrow> exn + json) \<Rightarrow> outgoing \<Rightarrow> bool" where
  "deliverable dumps loads item \<longleftrightarrow>
     (case encode_outgoing dumps item of Inl _ \<Rightarrow> True | Inr frame \<Rightarrow> frame_fits (message_of dumps item) frame)
     \<and> (case item of
          OutDetection p \<Rightarrow> loads (dumps (JObj p)) = Inr (JObj p) \<and> supported_version (schema_version_of p) = Inr True
        | OutSnapshot _ _ \<Rightarrow> True)"

lemma item_of_deliverable: "deliverable dumps loads item \<Longrightarrow> item_of loads conn (message_of dumps item) = Some (queue_of conn item)"
  by (cases item) (simp_all add: deliverable_def message_of_def queue_of_def accepted_payload_def)

lemma frames_fit:
  assumes "list_all2 (\<lambda>item frame. encode_outgoing dumps item = Inr frame) items frames"
    and "list_all (deliverable dumps loads) items"
  shows "list_all2 (\<lambda>m f. encode_message m = Inr f \<and> frame_fits m f) (map (message_of dumps) items) frames"
  using assms by (induction rule: list_all2_induct) (simp_all add: encode_outgoing_message [symmetric] deliverable_def)

lemma set_subseq: "subseq xs ys \<Longrightarrow> set xs \<subseteq> set ys"
  by (induction rule: list_emb.induct) auto

lemma subseq_filter_map: "subseq (concat (map f (map snd (filter p xs)))) (concat (map f (map snd xs)))"
  by (induction xs) (auto simp: subseq_append' list_emb_append2)

lemma sent_on_in_order:
  assumes "in_order calls w"
  shows "subseq (detections_out (sent_on n w)) (detections_in calls)"
    and "subseq (snapshots_out (sent_on n w)) (snapshots_in calls)"
proof -
  have "subseq (detections_out (map snd (tw_log w))) (detections_in calls)"
    "subseq (snapshots_out (map snd (tw_log w))) (snapshots_in calls)"
    using assms subseq_drop_mid_list [of "detections_out (map snd (tw_log w))" _ "[]"]
      subseq_drop_mid_list [of "snapshots_out (map snd (tw_log w))" _ "[]"]
    by (auto simp: in_order_def detections_out_def snapshots_out_def)
  then show "subseq (detections_out (sent_on n w)) (detections_in calls)"
    "subseq (snapshots_out (sent_on n w)) (snapshots_in calls)"
    unfolding sent_on_def detections_out_def snapshots_out_def by (blast intro: subseq_order.order_trans [OF subseq_filter_map])+
qed

lemma mem_detections_out: "OutDetection d \<in> set items \<Longrightarrow> d \<in> set (detections_out items)"
  and mem_snapshots_out: "OutSnapshot e j \<in> set items \<Longrightarrow> (e, j) \<in> set (snapshots_out items)"
  by (force simp: detections_out_def snapshots_out_def)+

lemma sent_on_enqueued:
  assumes "in_order calls w"
  shows "set (sent_on n w) \<subseteq> set (enqueued calls)"
proof
  fix item assume i: "item \<in> set (sent_on n w)"
  show "item \<in> set (enqueued calls)"
  proof (cases item)
    case (OutDetection d)
    with i have "d \<in> set (detections_out (sent_on n w))" by (simp add: mem_detections_out)
    with set_subseq [OF sent_on_in_order(1) [OF assms]] show ?thesis by (auto simp: enqueued_def OutDetection)
  next
    case (OutSnapshot e j)
    with i have "(e, j) \<in> set (snapshots_out (sent_on n w))" by (simp add: mem_snapshots_out)
    with set_subseq [OF sent_on_in_order(2) [OF assms]] show ?thesis by (auto simp: enqueued_def OutSnapshot)
  qed
qed

lemma delivers_sent:
  assumes "framed dumps w" and d: "list_all (deliverable dumps loads) (sent_on n w)"
  shows "fst (handle_connection loads conn (tw_stream w n)) = map (queue_of conn) (sent_on n w)"
proof -
  obtain frames t where w: "whole_frames dumps n w frames t" using framedD [OF assms(1)] by blast
  have "list_all2 (\<lambda>m f. encode_message m = Inr f \<and> frame_fits m f) (map (message_of dumps) (sent_on n w)) frames"
    using w d by (auto simp: whole_frames_def intro: frames_fit)
  moreover have "map (item_of loads conn) (map (message_of dumps) (sent_on n w)) = map Some (map (queue_of conn) (sent_on n w))"
    using d by (simp add: item_of_deliverable list_all_iff)
  moreover have "\<exists>r. next_item loads conn t = Inl r"
    using w by (auto simp: whole_frames_def fragment_no_item next_item_nil)
  ultimately have "fst (handle_connection loads conn (concat frames @ t)) = map (queue_of conn) (sent_on n w)"
    by (rule connection_delivers_prefix)
  then show ?thesis using w by (simp add: whole_frames_def)
qed

text \<open>
  C7.  The Bridge's transport and the Agent's connection handler, end to end.  After any interleaving of enqueueing,
  sending, receiving, starting and stopping, with any faults, the Agent queues from the bytes of each
  connection exactly the items the transport counts as sent on it, in that order and unchanged, and these are
  a subsequence of the detections, and of the snapshots, that were enqueued: nothing is invented, altered,
  repeated or reordered, and a frame cut off by a fault yields nothing.
\<close>

theorem transport_delivers:
  assumes "mk_transport capacity snapshot_capacity = Inr w0"
    and "list_all (deliverable dumps loads) (enqueued calls)"
    and "w = tw_run dumps loads calls w0"
  shows "fst (handle_connection loads conn (tw_stream w n)) = map (queue_of conn) (sent_on n w)
    \<and> subseq (detections_out (sent_on n w)) (detections_in calls)
    \<and> subseq (snapshots_out (sent_on n w)) (snapshots_in calls)"
proof -
  have o: "in_order calls w" unfolding assms(3) by (rule in_order_run [OF assms(1)])
  have "framed dumps w" unfolding assms(3) by (rule framed_run [OF assms(1)])
  moreover have "list_all (deliverable dumps loads) (sent_on n w)"
    using sent_on_enqueued [OF o] assms(2) by (auto simp: list_all_iff)
  ultimately show ?thesis using sent_on_in_order [OF o] by (simp add: delivers_sent)
qed

definition demo_dumps :: "json \<Rightarrow> utext" where
  "demo_dumps v = [50]"

definition demo_transport :: transport where
  "demo_transport = (case mk_transport 5 5 of Inr w \<Rightarrow> w)"

definition demo_tw_calls :: "tw_call list" where
  "demo_tw_calls =
     [StartTransport, EnqueuePayload [(''schema_version'', JInt 2)], EnqueueSnapshot ''a'' [255],
      SenderTurn True, SenderWrite None, SenderTurn True, SenderTurn True, SenderWrite None]"

lemma demo_encodes:
  "encode_outgoing demo_dumps (OutDetection p) = Inr [1, 0, 0, 0, 1, 50]"
  "encode_outgoing demo_dumps (OutSnapshot ''a'' [255]) = Inr [2, 0, 0, 0, 4, 0, 1, 97, 255]"
  using demo_frames by (simp_all add: encode_outgoing_message message_of_def demo_dumps_def text_of_string_def)

lemma demo_delivered: "sent_on 0 (tw_run demo_dumps demo_loads demo_tw_calls demo_transport)
  = [OutSnapshot ''a'' [255], OutDetection [(''schema_version'', JInt 2)]]"
  by (simp add: demo_tw_calls_def demo_transport_def mk_transport_def tw_run_def start_transport_def enqueue_payload_def
      enqueue_snapshot_def sender_turn_def send_attempt_def sender_write_def demo_encodes sent_on_def)

theorem transport_delivers_witness:
  "fst (handle_connection demo_loads 7 (tw_stream (tw_run demo_dumps demo_loads demo_tw_calls demo_transport) 0))
   = [SnapshotItem [97] [255], DetectionItem [(''schema_version'', JInt 2)] 7]"
proof -
  have "mk_transport 5 5 = Inr demo_transport" by (simp add: demo_transport_def mk_transport_def)
  moreover have "list_all (deliverable demo_dumps demo_loads) (enqueued demo_tw_calls)"
    using demo_frames_fit(1,3)
    by (simp add: enqueued_def demo_tw_calls_def detections_in_def snapshots_in_def deliverable_def demo_encodes message_of_def
        demo_dumps_def demo_loads_def supported_version_def schema_version_of_def SUPPORTED_SCHEMA_VERSIONS_def text_of_string_def)
  ultimately show ?thesis
    using transport_delivers [OF _ _ refl, of 5 5 demo_transport demo_dumps demo_loads demo_tw_calls 7 0]
    by (simp add: demo_delivered queue_of_def text_of_string_def)
qed

section \<open>Draining the queues\<close>

definition sender_rounds :: "nat \<Rightarrow> tw_call list" where
  "sender_rounds k = concat (replicate k [SenderTurn True, SenderWrite None])"

lemma sender_rounds_Suc: "tw_run dumps loads (sender_rounds (Suc k)) w
  = tw_run dumps loads (sender_rounds k) (sender_write dumps None (sender_turn True w))"
  by (simp add: sender_rounds_def tw_run_def)

lemma send_attempt_write:
  assumes "encode_outgoing dumps item = Inr frame" and "tw_sender w = SenderIdle \<or> tw_sender w = SenderPolled"
  defines "w' \<equiv> sender_write dumps None (send_attempt True item w)"
  shows "map snd (tw_log w') = map snd (tw_log w) @ [item] \<and> tw_queue w' = tw_queue w
    \<and> tw_snapshot_queue w' = tw_snapshot_queue w \<and> tw_sender w' = SenderIdle"
  using assms by (auto simp: send_attempt_def sender_write_def)

lemma drain_snapshots:
  assumes "tw_sender w = SenderIdle" and "list_all (\<lambda>i. \<not> isl (encode_outgoing dumps i)) (map (\<lambda>(e, j). OutSnapshot e j) (tw_snapshot_queue w))"
  shows "\<exists>w'. tw_run dumps loads (sender_rounds (length (tw_snapshot_queue w) + k)) w = tw_run dumps loads (sender_rounds k) w'
    \<and> tw_sender w' = SenderIdle \<and> tw_snapshot_queue w' = [] \<and> tw_queue w' = tw_queue w
    \<and> map snd (tw_log w') = map snd (tw_log w) @ map (\<lambda>(e, j). OutSnapshot e j) (tw_snapshot_queue w)"
  using assms
proof (induction "tw_snapshot_queue w" arbitrary: w)
  case Nil
  then show ?case by auto
next
  case (Cons x q)
  obtain e j where x: "x = (e, j)" by (cases x)
  obtain frame where f: "encode_outgoing dumps (OutSnapshot e j) = Inr frame"
    using Cons.prems(2) Cons.hyps(2) [symmetric] x by (cases "encode_outgoing dumps (OutSnapshot e j)") auto
  let ?w = "sender_write dumps None (sender_turn True w)"
  have "sender_turn True w = send_attempt True (OutSnapshot e j) (w\<lparr>tw_snapshot_queue := q\<rparr>)"
    using Cons.prems(1) Cons.hyps(2) [symmetric] x by (simp add: sender_turn_def)
  then have w: "map snd (tw_log ?w) = map snd (tw_log w) @ [OutSnapshot e j]" "tw_queue ?w = tw_queue w"
    "tw_snapshot_queue ?w = q" "tw_sender ?w = SenderIdle"
    using send_attempt_write [OF f, of "w\<lparr>tw_snapshot_queue := q\<rparr>"] Cons.prems(1) by simp_all
  have "list_all (\<lambda>i. \<not> isl (encode_outgoing dumps i)) (map (\<lambda>(e, j). OutSnapshot e j) (tw_snapshot_queue ?w))"
    using Cons.prems(2) Cons.hyps(2) [symmetric] w(3) by simp
  from Cons.hyps(1) [OF w(3) [symmetric] w(4) this] show ?case
    using Cons.hyps(2) [symmetric] w x by (simp add: sender_rounds_Suc)
qed

lemma drain_detections:
  assumes "tw_sender w = SenderIdle" and "tw_snapshot_queue w = []"
    and "list_all (\<lambda>i. \<not> isl (encode_outgoing dumps i)) (map OutDetection (tw_queue w))"
  shows "let w' = tw_run dumps loads (sender_rounds (2 * length (tw_queue w))) w
    in tw_snapshot_queue w' = [] \<and> tw_queue w' = [] \<and> map snd (tw_log w') = map snd (tw_log w) @ map OutDetection (tw_queue w)"
  using assms
proof (induction "tw_queue w" arbitrary: w)
  case Nil
  then show ?case by (simp add: sender_rounds_def tw_run_def)
next
  case (Cons p q)
  obtain frame where f: "encode_outgoing dumps (OutDetection p) = Inr frame"
    using Cons.prems(3) Cons.hyps(2) [symmetric] by (cases "encode_outgoing dumps (OutDetection p)") auto
  let ?v = "w\<lparr>tw_sender := SenderPolled\<rparr>"
  let ?w = "sender_write dumps None (sender_turn True ?v)"
  have v: "sender_write dumps None (sender_turn True w) = ?v"
    using Cons.prems(1,2) by (simp add: sender_turn_def sender_write_def)
  have "sender_turn True ?v = send_attempt True (OutDetection p) (?v\<lparr>tw_queue := q\<rparr>)"
    using Cons.hyps(2) [symmetric] by (simp add: sender_turn_def)
  then have w: "map snd (tw_log ?w) = map snd (tw_log w) @ [OutDetection p]" "tw_queue ?w = q"
    "tw_snapshot_queue ?w = []" "tw_sender ?w = SenderIdle"
    using send_attempt_write [OF f, of "?v\<lparr>tw_queue := q\<rparr>"] Cons.prems(2) by simp_all
  have "list_all (\<lambda>i. \<not> isl (encode_outgoing dumps i)) (map OutDetection (tw_queue ?w))"
    using Cons.prems(3) Cons.hyps(2) [symmetric] w(2) by simp
  from Cons.hyps(1) [OF w(2) [symmetric] w(4,3) this] show ?case
    using Cons.hyps(2) [symmetric] w by (simp add: sender_rounds_Suc v Let_def)
qed

text \<open>
  C25.  The sender is live.  While the Agent accepts connections and writes succeed, an idle sender whose queued items
  can be encoded empties both queues in at most one round for each snapshot and two for each detection, and
  sends every queued item exactly once: the snapshots first, each queue in its order.
\<close>

theorem sender_drains_queues:
  assumes "tw_sender w = SenderIdle"
    and "list_all (\<lambda>i. \<not> isl (encode_outgoing dumps i))
           (map (\<lambda>(e, j). OutSnapshot e j) (tw_snapshot_queue w) @ map OutDetection (tw_queue w))"
    and "w' = tw_run dumps loads (sender_rounds (length (tw_snapshot_queue w) + 2 * length (tw_queue w))) w"
  shows "tw_snapshot_queue w' = [] \<and> tw_queue w' = []
    \<and> map snd (tw_log w') = map snd (tw_log w) @ map (\<lambda>(e, j). OutSnapshot e j) (tw_snapshot_queue w) @ map OutDetection (tw_queue w)"
proof -
  obtain v where v: "w' = tw_run dumps loads (sender_rounds (2 * length (tw_queue w))) v" "tw_sender v = SenderIdle"
    "tw_snapshot_queue v = []" "tw_queue v = tw_queue w"
    "map snd (tw_log v) = map snd (tw_log w) @ map (\<lambda>(e, j). OutSnapshot e j) (tw_snapshot_queue w)"
    using drain_snapshots [OF assms(1), of dumps loads "2 * length (tw_queue w)"] assms(2,3) by auto
  have "list_all (\<lambda>i. \<not> isl (encode_outgoing dumps i)) (map OutDetection (tw_queue v))" using assms(2) v(4) by simp
  from drain_detections [OF v(2,3) this, of loads] show ?thesis using v(1,4,5) by (simp add: Let_def)
qed

theorem sender_drains_queues_witness:
  "map snd (tw_log (tw_run demo_dumps demo_loads (sender_rounds 3)
     (demo_transport\<lparr>tw_sender := SenderIdle, tw_queue := [[]], tw_snapshot_queue := [(''a'', [255])]\<rparr>)))
   = [OutSnapshot ''a'' [255], OutDetection []]"
  using sender_drains_queues [OF _ _ refl, of "demo_transport\<lparr>tw_sender := SenderIdle, tw_queue := [[]], tw_snapshot_queue := [(''a'', [255])]\<rparr>"
      demo_dumps demo_loads]
  by (simp add: demo_encodes numeral_3_eq_3) (simp add: demo_transport_def mk_transport_def)

section \<open>Reading acknowledgements\<close>

lemma recv_chunks_data:
  assumes "length acc \<le> n" and "n \<le> length acc + length (concat cs)" and "[] \<notin> set cs"
  shows "\<exists>cs'. recv_chunks n acc (map RecvData cs @ evs) = (Some (acc @ take (n - length acc) (concat cs)), map RecvData cs' @ evs)
    \<and> concat cs' = drop (n - length acc) (concat cs) \<and> [] \<notin> set cs'"
  using assms
proof (induction cs arbitrary: acc)
  case Nil
  then have "recv_chunks n acc (map RecvData [] @ evs) = (Some acc, map RecvData [] @ evs)" by (subst recv_chunks.simps) simp
  then show ?case by (intro exI [of _ "[]"]) simp
next
  case (Cons c cs)
  consider "n = length acc" | "n > length acc" "length c \<le> n - length acc" | "length c > n - length acc" "n > length acc"
    using Cons.prems(1) by linarith
  then show ?case
  proof cases
    case 1
    then have "recv_chunks n acc (map RecvData (c # cs) @ evs) = (Some acc, map RecvData (c # cs) @ evs)"
      by (subst recv_chunks.simps) simp
    then show ?thesis using 1 Cons.prems(3) by (intro exI [of _ "c # cs"]) simp
  next
    case 2
    then have "recv_chunks n acc (map RecvData (c # cs) @ evs) = recv_chunks n (acc @ c) (map RecvData cs @ evs)"
      using Cons.prems(3) by (subst recv_chunks.simps) auto
    moreover have "n - length (acc @ c) = n - length acc - length c" by simp
    ultimately show ?thesis using Cons.IH [of "acc @ c"] Cons.prems 2 by simp
  next
    case 3
    then have "recv_chunks n acc (map RecvData (c # cs) @ evs)
        = (Some (acc @ take (n - length acc) c), map RecvData (drop (n - length acc) c # cs) @ evs)"
      by (subst recv_chunks.simps) auto
    then show ?thesis using 3 Cons.prems(3) by (intro exI [of _ "drop (n - length acc) c # cs"]) auto
  qed
qed

lemma recv_exact_data:
  assumes "n \<le> length (concat cs)" and "[] \<notin> set cs"
  obtains cs' where "recv_exact n (map RecvData cs @ evs) = (Some (take n (concat cs)), map RecvData cs' @ evs)"
    "concat cs' = drop n (concat cs)" "[] \<notin> set cs'"
  using recv_chunks_data [of "[]" n cs evs] assms by (auto simp: recv_exact_def)

lemma bridge_header: "bridge_decode_frame_header = decode_frame_header" "BRIDGE_HEADER_BYTES = FRAME_HEADER_BYTES"
  "BRIDGE_KIND_ACKNOWLEDGEMENT = FRAME_KIND_ACKNOWLEDGEMENT"
  by (simp_all add: fun_eq_iff bridge_decode_frame_header_def decode_frame_header_def bridge_constants frame_constants)

text \<open>
  Acknowledgements survive the socket.  However the bytes of an acknowledgement frame arrive, in pieces of any
  sizes and followed by anything, the reader hands on exactly the message the frame holds and leaves
  exactly the bytes behind the frame to be read next.
\<close>

theorem acknowledgement_reassembled:
  assumes "encode_frame body FRAME_KIND_ACKNOWLEDGEMENT = Inr frame" and "length body \<le> BRIDGE_MAX_FRAME_BYTES"
    and "decode_acknowledgement loads body = Inr message"
    and "concat chunks = frame @ rest" and "[] \<notin> set chunks"
  shows "\<exists>chunks'. read_one_frame loads (map RecvData chunks @ evs) = (AckMessage message, map RecvData chunks' @ evs)
    \<and> concat chunks' = rest \<and> [] \<notin> set chunks'"
proof -
  have len: "length frame = FRAME_HEADER_BYTES + length body" by (rule frame_header_length [OF assms(1)])
  obtain c1 where c1: "recv_exact FRAME_HEADER_BYTES (map RecvData chunks @ evs) = (Some (take FRAME_HEADER_BYTES frame), map RecvData c1 @ evs)"
    "concat c1 = body @ rest" "[] \<notin> set c1"
  proof (rule recv_exact_data [of FRAME_HEADER_BYTES chunks evs])
    show "FRAME_HEADER_BYTES \<le> length (concat chunks)" using assms(4) len by simp
    show "[] \<notin> set chunks" by (rule assms(5))
  next
    fix cs' assume "recv_exact FRAME_HEADER_BYTES (map RecvData chunks @ evs)
        = (Some (take FRAME_HEADER_BYTES (concat chunks)), map RecvData cs' @ evs)"
      "concat cs' = drop FRAME_HEADER_BYTES (concat chunks)" "[] \<notin> set cs'"
    then show thesis using that assms(4) len frame_split(2) [OF assms(1)] by simp
  qed
  obtain c2 where c2: "recv_exact (length body) (map RecvData c1 @ evs) = (Some body, map RecvData c2 @ evs)"
    "concat c2 = rest" "[] \<notin> set c2"
    using recv_exact_data [of "length body" c1 evs] c1 by auto
  show ?thesis
    using c1(1) c2 frame_split(1) [OF assms(1)] assms(2,3)
    by (intro exI [of _ c2]) (simp add: read_one_frame_def bridge_header)
qed

lemma demo_ack_frame: "encode_frame [50] FRAME_KIND_ACKNOWLEDGEMENT = Inr [3, 0, 0, 0, 1, 50]"
  by (simp add: demo_be_bytes encode_frame_Inr frame_constants to_bytes_def del: be_bytes.simps) code_simp

theorem acknowledgement_reassembled_witness:
  "fst (read_one_frame demo_loads (map RecvData [[3, 0], [0, 0, 1, 50, 3]] @ []))
   = AckMessage (JObj [(''schema_version'', JInt 2)])"
proof -
  have "decode_acknowledgement demo_loads [50] = Inr (JObj [(''schema_version'', JInt 2)])"
    by (simp add: decode_acknowledgement_def demo_loads_def utf8_decode_encode [OF demo_utf8(1)])
  then show ?thesis
    using acknowledgement_reassembled [OF demo_ack_frame, of demo_loads _ "[[3, 0], [0, 0, 1, 50, 3]]" "[3]" "[]"]
    by (auto simp: bridge_constants)
qed

text \<open>
  A timeout inside a frame loses the bytes already received: the reader gives up and starts the next frame in
  the middle of this one, whose bytes it takes for a header.
\<close>

theorem timeout_loses_frame_boundary:
  assumes "0 < k" and "k < BRIDGE_HEADER_BYTES" and "BRIDGE_HEADER_BYTES \<le> length frame"
  shows "read_one_frame loads (RecvData (take k frame) # RecvFault # RecvData (drop k frame) # evs)
    = (Unavailable, RecvData (drop k frame) # evs)"
proof -
  have "k < 5" "5 \<le> length frame" using assms by (simp_all add: bridge_constants)
  then have "recv_exact 5 (RecvData (take k frame) # RecvFault # RecvData (drop k frame) # evs)
      = (None, RecvData (drop k frame) # evs)"
    using assms(1) by (auto simp: recv_exact_def recv_chunks.simps min_def)
  then show ?thesis by (simp add: read_one_frame_def bridge_constants)
qed

theorem timeout_loses_frame_boundary_witness:
  "read_one_frame demo_loads (RecvData (take 1 [3, 0, 0, 0, 1, 50]) # RecvFault # RecvData (drop 1 [3, 0, 0, 0, 1, 50]) # [])
   = (Unavailable, [RecvData [0, 0, 0, 1, 50]])"
  using timeout_loses_frame_boundary [of 1 "[3, 0, 0, 0, 1, 50]" demo_loads "[]"] by (simp add: bridge_constants)

section \<open>The reader can kill the sender\<close>

lemma dead_sender_stays:
  assumes "tw_sender w = SenderDead e" and "list_all (\<lambda>c. case c of StopTransport _ _ \<Rightarrow> False | _ \<Rightarrow> True) calls"
  shows "tw_sender (tw_run dumps loads calls w) = SenderDead e \<and> tw_log (tw_run dumps loads calls w) = tw_log w
    \<and> tw_stream (tw_run dumps loads calls w) = tw_stream w"
  using assms
proof (induction calls arbitrary: w)
  case (Cons c cs)
  have c: "tw_sender (tw_step dumps loads c w) = SenderDead e \<and> tw_log (tw_step dumps loads c w) = tw_log w
      \<and> tw_stream (tw_step dumps loads c w) = tw_stream w"
    using Cons.prems
    by (cases c) (auto simp: enqueue_payload_def enqueue_snapshot_def start_transport_def sender_turn_def sender_write_def
        reader_turn_def close_socket_def Let_def split: prod.split frame_read.split)
  show ?case using Cons.IH [of "tw_step dumps loads c w"] Cons.prems(2) c by (simp add: tw_run_def)
qed (simp add: tw_run_def)

text \<open>
  When the reader drops the connection for an oversized frame while the sender is about to write, the sender
  dies of its own assertion, which no handler catches.  From then on nothing is sent, whatever is enqueued and
  however often \<^verbatim>\<open>start\<close> is called, until the transport is stopped.
\<close>

theorem reader_kills_sender:
  assumes "tw_sender w = SenderWriting item" and "tw_sock w = Some n" and "\<not> tw_reader_dead w"
    and "length header = BRIDGE_HEADER_BYTES" and "BRIDGE_MAX_FRAME_BYTES < snd (bridge_decode_frame_header header)"
    and "list_all (\<lambda>c. case c of StopTransport _ _ \<Rightarrow> False | _ \<Rightarrow> True) calls"
    and "w' = tw_run dumps loads (ReaderTurn (RecvData header # evs) # SenderWrite fault # calls) w"
  shows "tw_sender w' = SenderDead AssertionError \<and> tw_log w' = tw_log w \<and> tw_stream w' = tw_stream w"
proof -
  have "recv_exact BRIDGE_HEADER_BYTES (RecvData header # evs) = (Some header, evs)"
    using assms(4) by (auto simp: recv_exact_def recv_chunks.simps bridge_constants)
  then have "fst (read_one_frame loads (RecvData header # evs)) = DropConnection"
    using assms(5) by (auto simp: read_one_frame_def split: prod.split)
  then have "snd (reader_turn loads (RecvData header # evs) w) = close_socket w"
    using assms(1-3) by (auto simp: reader_turn_def Let_def split: prod.split)
  moreover have "sender_write dumps fault (close_socket w) = (close_socket w)\<lparr>tw_sender := SenderDead AssertionError\<rparr>"
    using assms(1) by (simp add: sender_write_def close_socket_def)
  ultimately have "w' = tw_run dumps loads calls ((close_socket w)\<lparr>tw_sender := SenderDead AssertionError\<rparr>)"
    using assms(7) by (simp add: tw_run_def)
  then show ?thesis
    using dead_sender_stays [OF _ assms(6), of "(close_socket w)\<lparr>tw_sender := SenderDead AssertionError\<rparr>" AssertionError dumps loads]
    by (simp add: close_socket_def)
qed

theorem reader_kills_sender_witness:
  "tw_sender (tw_run demo_dumps demo_loads
      (ReaderTurn (RecvData [3, 0, 2, 0, 0] # []) # SenderWrite None # [StartTransport, EnqueuePayload [], SenderTurn True])
      (demo_transport\<lparr>tw_sender := SenderWriting (OutDetection []), tw_sock := Some 0\<rparr>)) = SenderDead AssertionError"
  using reader_kills_sender [OF _ _ _ _ _ _ refl, of "demo_transport\<lparr>tw_sender := SenderWriting (OutDetection []), tw_sock := Some 0\<rparr>"
      "OutDetection []" 0 "[3, 0, 2, 0, 0]" "[StartTransport, EnqueuePayload [], SenderTurn True]" demo_dumps demo_loads "[]" None]
  by (simp add: demo_transport_def mk_transport_def bridge_constants bridge_decode_frame_header_def from_bytes_def)

end
