(* ===== verification/BridgePipeline.thy ===== *)
theory BridgePipeline
  imports BridgeDelivery Rendezvous
begin

text \<open>
  The callbacks of \<^verbatim>\<open>deepstream_bridge/pipeline.py\<close>, and the Bridge they make together with the rendezvous and
  the transport: the metadata probe, the probe that lets a frame through a valve into the JPEG encoder, the
  sample callback that takes an image out of it, and the reader thread of the transport, which hands an
  acknowledgement to the handler of \<^verbatim>\<open>snapshot.py\<close>.  As in \<^verbatim>\<open>main.py\<close>, the rendezvous and \<^verbatim>\<open>send_snapshot\<close> are
  present together.  The rewriting of the on-screen text is left out.
\<close>

section \<open>State\<close>

text \<open>
  \<open>br_pending s\<close> are the frames let through the valve of source \<open>s\<close> whose images have not been taken yet, and
  \<open>br_reads\<close> counts the readings of the clock: \<open>clock n\<close> is the \<open>n\<close>-th.
\<close>

record bridge =
  br_rendezvous :: "rendezvous option"
  br_pending :: "int \<Rightarrow> int list option"
  br_valve_open :: "int \<Rightarrow> bool"
  br_transport :: transport
  br_reads :: nat

definition new_bridge :: "rendezvous option \<Rightarrow> transport \<Rightarrow> bridge" where
  "new_bridge r w = \<lparr>br_rendezvous = r, br_pending = (\<lambda>_. None), br_valve_open = (\<lambda>_. False), br_transport = w, br_reads = 0\<rparr>"

text \<open>What \<^verbatim>\<open>pull-sample\<close> and the mapping of its buffer give.\<close>

datatype sample = NoSample | SampleRaises | SampleUnmapped | SampleBytes bytes

section \<open>The callbacks\<close>

definition on_candidate :: "(nat \<Rightarrow> pyfloat) \<Rightarrow> int \<Rightarrow> string \<Rightarrow> int \<Rightarrow> bridge \<Rightarrow> bridge" where
  "on_candidate clock source_id message_id frame_number b =
     (case br_rendezvous b of
        None \<Rightarrow> b
      | Some r \<Rightarrow> b\<lparr>br_rendezvous := Some (record_detection (clock (br_reads b)) source_id message_id frame_number r),
                     br_reads := Suc (br_reads b)\<rparr>)"

definition send_payload :: "json_obj \<Rightarrow> bridge \<Rightarrow> bridge" where
  "send_payload payload b = b\<lparr>br_transport := enqueue_payload payload (br_transport b)\<rparr>"

definition send_snapshot :: "delivery option \<Rightarrow> bridge \<Rightarrow> bridge" where
  "send_snapshot out b =
     (case out of
        None \<Rightarrow> b
      | Some (event_id, jpeg) \<Rightarrow> b\<lparr>br_transport := enqueue_snapshot event_id jpeg (br_transport b)\<rparr>)"

definition on_buffer_probe :: "(nat \<Rightarrow> pyfloat) \<Rightarrow> (nat \<Rightarrow> string) \<Rightarrow> frame_meta list option \<Rightarrow> bridge \<Rightarrow> bridge" where
  "on_buffer_probe clock fresh batch b =
     handle_buffer (if br_rendezvous b = None then None else Some (on_candidate clock)) send_payload fresh batch b"

definition on_snapshot_valve_probe :: "(nat \<Rightarrow> pyfloat) \<Rightarrow> int \<Rightarrow> frame_meta list option \<Rightarrow> bridge \<Rightarrow> bridge" where
  "on_snapshot_valve_probe clock source_index batch b =
     (case (frame_number_from_buffer batch, br_rendezvous b) of
        (Some frame_number, Some r) \<Rightarrow>
          (case consume_candidate (clock (br_reads b)) source_index frame_number r of
             (is_candidate, r) \<Rightarrow>
               b\<lparr>br_rendezvous := Some r, br_reads := Suc (br_reads b),
                 br_pending :=
                   (if is_candidate
                    then (br_pending b)(source_index \<mapsto> (case br_pending b source_index of None \<Rightarrow> [] | Some fs \<Rightarrow> fs) @ [frame_number])
                    else br_pending b),
                 br_valve_open := (br_valve_open b)(source_index := is_candidate)\<rparr>)
      | _ \<Rightarrow> b\<lparr>br_valve_open := (br_valve_open b)(source_index := False)\<rparr>)"

definition on_snapshot_new_sample :: "(nat \<Rightarrow> pyfloat) \<Rightarrow> int \<Rightarrow> sample \<Rightarrow> bridge \<Rightarrow> bridge" where
  "on_snapshot_new_sample clock source_index x b =
     (if x = NoSample \<or> x = SampleRaises then b
      else case br_pending b source_index of
             Some (frame_number # fs) \<Rightarrow>
               let b = b\<lparr>br_pending := (br_pending b)(source_index \<mapsto> fs)\<rparr>
               in (case (br_rendezvous b, x) of
                     (Some r, SampleBytes jpeg) \<Rightarrow>
                       (case submit_jpeg (clock (br_reads b)) source_index frame_number jpeg r of
                          (completed, r) \<Rightarrow>
                            send_snapshot completed (b\<lparr>br_rendezvous := Some r, br_reads := Suc (br_reads b)\<rparr>))
                   | _ \<Rightarrow> b)
           | _ \<Rightarrow> b)"

text \<open>
  The reader thread calls the acknowledgement handler with what it decoded, and swallows what the handler raises.
\<close>

definition on_acknowledgement :: "(nat \<Rightarrow> pyfloat) \<Rightarrow> json \<Rightarrow> bridge \<Rightarrow> bridge" where
  "on_acknowledgement clock message b =
     (case br_rendezvous b of
        None \<Rightarrow> b
      | Some r \<Rightarrow>
          (case acknowledgement_received (clock (br_reads b)) message r of
             (res, r) \<Rightarrow> send_snapshot (case res of Inl _ \<Rightarrow> None | Inr completed \<Rightarrow> completed) 
                     (b\<lparr>br_rendezvous := Some r, br_reads := Suc (br_reads b)\<rparr>)))"

definition on_frame_read :: "(nat \<Rightarrow> pyfloat) \<Rightarrow> (utext \<Rightarrow> exn + json) \<Rightarrow> recv_event list \<Rightarrow> bridge \<Rightarrow> bridge" where
  "on_frame_read clock loads evs b =
     (case reader_turn loads evs (br_transport b) of
        ((read, _), w) \<Rightarrow>
          let b = b\<lparr>br_transport := w\<rparr>
          in (case read of AckMessage message \<Rightarrow> on_acknowledgement clock message b | _ \<Rightarrow> b))"

definition shutdown_pipeline :: "bridge \<Rightarrow> bridge" where
  "shutdown_pipeline b = b\<lparr>br_rendezvous := map_option clear (br_rendezvous b), br_pending := (\<lambda>_. None)\<rparr>"

section \<open>Runs\<close>

datatype bridge_call =
    BufferProbe "nat \<Rightarrow> string" "frame_meta list option"
  | ValveProbe int "frame_meta list option"
  | NewSample int sample
  | FrameRead "recv_event list"
  | SenderTakes bool
  | SenderWrites "(nat \<times> exn) option"
  | TransportStarts
  | TransportStops bool "(nat \<times> exn) option"
  | ShutdownPipeline

definition on_transport :: "(transport \<Rightarrow> transport) \<Rightarrow> bridge \<Rightarrow> bridge" where
  "on_transport g b = b\<lparr>br_transport := g (br_transport b)\<rparr>"

fun bridge_step :: "(nat \<Rightarrow> pyfloat) \<Rightarrow> (json \<Rightarrow> utext) \<Rightarrow> (utext \<Rightarrow> exn + json) \<Rightarrow> bridge_call \<Rightarrow> bridge \<Rightarrow> bridge" where
  "bridge_step clock dumps loads (BufferProbe fresh batch) = on_buffer_probe clock fresh batch"
| "bridge_step clock dumps loads (ValveProbe s batch) = on_snapshot_valve_probe clock s batch"
| "bridge_step clock dumps loads (NewSample s x) = on_snapshot_new_sample clock s x"
| "bridge_step clock dumps loads (FrameRead evs) = on_frame_read clock loads evs"
| "bridge_step clock dumps loads (SenderTakes connects) = on_transport (sender_turn connects)"
| "bridge_step clock dumps loads (SenderWrites fault) = on_transport (sender_write dumps fault)"
| "bridge_step clock dumps loads TransportStarts = on_transport start_transport"
| "bridge_step clock dumps loads (TransportStops connects fault) = on_transport (stop_transport dumps connects fault)"
| "bridge_step clock dumps loads ShutdownPipeline = shutdown_pipeline"

definition bridge_run :: "(nat \<Rightarrow> pyfloat) \<Rightarrow> (json \<Rightarrow> utext) \<Rightarrow> (utext \<Rightarrow> exn + json) \<Rightarrow> bridge_call list \<Rightarrow> bridge \<Rightarrow> bridge" where
  "bridge_run clock dumps loads calls b = fold (bridge_step clock dumps loads) calls b"

lemma bridge_run_simps [simp]:
  "bridge_run clock dumps loads [] b = b"
  "bridge_run clock dumps loads (c # cs) b = bridge_run clock dumps loads cs (bridge_step clock dumps loads c b)"
  "bridge_run clock dumps loads (cs @ cs') b = bridge_run clock dumps loads cs' (bridge_run clock dumps loads cs b)"
  by (simp_all add: bridge_run_def)

section \<open>A run of the Bridge is a run of its parts\<close>

text \<open>
  \<open>causes loads b c x\<close>: in state \<open>b\<close> the call \<open>c\<close> of the Bridge makes the call \<open>x\<close> of the rendezvous.
  \<open>splits\<close>: the rendezvous makes the calls \<open>rcs\<close> and the transport the calls \<open>tcs\<close>, and the snapshots the
  rendezvous releases are those the transport is told to enqueue.
\<close>

definition found :: "(nat \<Rightarrow> string) \<Rightarrow> frame_meta list option \<Rightarrow> raw_detection list" where
  "found fresh batch = (case batch of None \<Rightarrow> [] | Some frames \<Rightarrow> extract_detections fresh frames)"

definition recording :: "raw_detection \<Rightarrow> rv_call" where
  "recording d = RecordDetection (rd_source_id d) (rd_message_id d) (rd_frame_number d)"

fun causes :: "(utext \<Rightarrow> exn + json) \<Rightarrow> bridge \<Rightarrow> bridge_call \<Rightarrow> rv_call \<Rightarrow> bool" where
  "causes loads b (BufferProbe fresh batch) x = (x \<in> recording ` set (found fresh batch))"
| "causes loads b (ValveProbe s batch) x = (\<exists>f. x = ConsumeCandidate s f)"
| "causes loads b (NewSample s y) x = (\<exists>f fs j. y = SampleBytes j \<and> br_pending b s = Some (f # fs) \<and> x = SubmitJpeg s f j)"
| "causes loads b (FrameRead evs) x = (\<exists>m. fst (read_one_frame loads evs) = AckMessage m \<and> x = Acknowledge m)"
| "causes loads b ShutdownPipeline x = (x = Clear)"
| "causes loads b _ x = False"

definition detections_of :: "bridge_call \<Rightarrow> raw_detection list" where
  "detections_of c = (case c of BufferProbe fresh batch \<Rightarrow> found fresh batch | _ \<Rightarrow> [])"

definition splits ::
  "(json \<Rightarrow> utext) \<Rightarrow> (utext \<Rightarrow> exn + json) \<Rightarrow> bridge \<Rightarrow> (pyfloat \<times> rv_call) list \<Rightarrow> tw_call list \<Rightarrow> bridge \<Rightarrow> bool"
where
  "splits dumps loads b rcs tcs b' \<longleftrightarrow>
     (\<exists>r outs r'. br_rendezvous b = Some r \<and> rv_run rcs r = (outs, r') \<and> br_rendezvous b' = Some r'
        \<and> snapshots_in tcs = sent_of outs)
     \<and> br_transport b' = tw_run dumps loads tcs (br_transport b)"

lemma splits_append:
  assumes "splits dumps loads b rcs tcs b'" and "splits dumps loads b' rcs' tcs' b''"
  shows "splits dumps loads b (rcs @ rcs') (tcs @ tcs') b''"
  using assms by (auto simp: splits_def rv_run_append tw_run_def snapshots_in_def sent_of_def)

lemma splits_none:
  assumes "br_rendezvous b = Some r" and "br_rendezvous b' = Some r" and "br_transport b' = tw_run dumps loads tcs (br_transport b)"
    and "snapshots_in tcs = []"
  shows "splits dumps loads b [] tcs b'"
  using assms by (simp add: splits_def sent_of_def)

lemma splits_one:
  assumes "br_rendezvous b = Some r" and "rv_step (t, x) r = (out, r')" and "br_rendezvous b' = Some r'"
    and "br_transport b' = (case out of None \<Rightarrow> br_transport b | Some (e, j) \<Rightarrow> enqueue_snapshot e j (br_transport b))"
  shows "splits dumps loads b [(t, x)] (case out of None \<Rightarrow> [] | Some (e, j) \<Rightarrow> [EnqueueSnapshot e j]) b'"
  using assms by (auto simp: splits_def sent_of_def snapshots_in_def tw_run_def split: option.split)

definition explains :: "(json \<Rightarrow> utext) \<Rightarrow> (utext \<Rightarrow> exn + json) \<Rightarrow> bridge \<Rightarrow> (rv_call \<Rightarrow> bool) \<Rightarrow> raw_detection list \<Rightarrow> bridge \<Rightarrow> bool" where
  "explains dumps loads b P ds b' \<longleftrightarrow>
     (\<exists>rcs tcs. splits dumps loads b rcs tcs b' \<and> (\<forall>x \<in> snd ` set rcs. P x)
        \<and> concat (map (messages_of \<circ> snd) rcs) = map rd_message_id ds)"

lemma explains_append:
  assumes "explains dumps loads b P ds b'" and "explains dumps loads b' Q ds' b''"
  shows "explains dumps loads b (\<lambda>x. P x \<or> Q x) (ds @ ds') b''"
proof -
  obtain rcs tcs rcs' tcs' where
    "splits dumps loads b rcs tcs b'" "\<forall>x \<in> snd ` set rcs. P x" "concat (map (messages_of \<circ> snd) rcs) = map rd_message_id ds"
    "splits dumps loads b' rcs' tcs' b''" "\<forall>x \<in> snd ` set rcs'. Q x" "concat (map (messages_of \<circ> snd) rcs') = map rd_message_id ds'"
    using assms unfolding explains_def by blast
  then show ?thesis
    unfolding explains_def by (intro exI [of _ "rcs @ rcs'"] exI [of _ "tcs @ tcs'"]) (auto intro: splits_append)
qed

lemma explains_mono: "explains dumps loads b P ds b' \<Longrightarrow> (\<And>x. P x \<Longrightarrow> Q x) \<Longrightarrow> explains dumps loads b Q ds b'"
  unfolding explains_def by blast

lemma explains_none:
  "br_rendezvous b = Some r \<Longrightarrow> br_rendezvous b' = Some r \<Longrightarrow> br_transport b' = tw_run dumps loads tcs (br_transport b) \<Longrightarrow>
   snapshots_in tcs = [] \<Longrightarrow> explains dumps loads b P [] b'"
  unfolding explains_def by (intro exI [of _ "[]"] exI [of _ tcs]) (simp add: splits_none)

lemma explains_one:
  "br_rendezvous b = Some r \<Longrightarrow> rv_step (t, x) r = (out, r') \<Longrightarrow> br_rendezvous b' = Some r' \<Longrightarrow>
   br_transport b' = (case out of None \<Rightarrow> br_transport b | Some (e, j) \<Rightarrow> enqueue_snapshot e j (br_transport b)) \<Longrightarrow>
   P x \<Longrightarrow> messages_of x = map rd_message_id ds \<Longrightarrow> explains dumps loads b P ds b'"
  unfolding explains_def
  by (intro exI [of _ "[(t, x)]"] exI [of _ "case out of None \<Rightarrow> [] | Some (e, j) \<Rightarrow> [EnqueueSnapshot e j]"])
     (simp add: splits_one)

lemma send_snapshot_simps [simp]:
  "br_rendezvous (send_snapshot out b) = br_rendezvous b" "br_pending (send_snapshot out b) = br_pending b"
  "br_valve_open (send_snapshot out b) = br_valve_open b"
  "br_transport (send_snapshot out b)
     = (case out of None \<Rightarrow> br_transport b | Some (e, j) \<Rightarrow> enqueue_snapshot e j (br_transport b))"
  by (simp_all add: send_snapshot_def split: option.split)

lemma buffer_probe_explained:
  assumes "br_rendezvous b = Some r"
  shows "explains dumps loads b (\<lambda>x. x \<in> recording ` set (found fresh batch)) (found fresh batch) (on_buffer_probe clock fresh batch b)"
proof -
  let ?f = "\<lambda>d s. send_payload (to_wire_message d) (on_candidate clock (rd_source_id d) (rd_message_id d) (rd_frame_number d) s)"
  have "explains dumps loads b (\<lambda>x. x \<in> recording ` set ds) ds (fold ?f ds b)" if "br_rendezvous b = Some r" for ds b r
    using that
  proof (induction ds arbitrary: b r)
    case Nil
    then show ?case by (auto intro: explains_none [where tcs = "[]"] simp: tw_run_def snapshots_in_def)
  next
    case (Cons d ds)
    let ?c = "on_candidate clock (rd_source_id d) (rd_message_id d) (rd_frame_number d) b"
    have c: "explains dumps loads b (\<lambda>x. x = recording d) [d] ?c"
      by (rule explains_one [OF Cons.prems, of "clock (br_reads b)" "recording d" None])
         (simp_all add: on_candidate_def Cons.prems recording_def messages_of_def)
    have s: "explains dumps loads ?c (\<lambda>_. False) [] (?f d b)"
      by (rule explains_none [where tcs = "[EnqueuePayload (to_wire_message d)]"])
         (simp_all add: send_payload_def on_candidate_def Cons.prems tw_run_def snapshots_in_def)
    have "br_rendezvous (?f d b) = Some (record_detection (clock (br_reads b)) (rd_source_id d) (rd_message_id d) (rd_frame_number d) r)"
      by (simp add: send_payload_def on_candidate_def Cons.prems)
    from explains_append [OF explains_append [OF c s] Cons.IH [OF this]] show ?case
      by (auto elim: explains_mono)
  qed
  from this [OF assms, of "found fresh batch"] show ?thesis
    using assms by (cases batch) (simp_all add: on_buffer_probe_def handle_buffer_def found_def)
qed

lemma valve_probe_explained:
  assumes "br_rendezvous b = Some r"
  shows "explains dumps loads b (causes loads b (ValveProbe s batch)) [] (on_snapshot_valve_probe clock s batch b)"
proof (cases "frame_number_from_buffer batch")
  case None
  with assms show ?thesis
    by (intro explains_none [where tcs = "[]"]) (simp_all add: on_snapshot_valve_probe_def tw_run_def snapshots_in_def)
next
  case (Some f)
  obtain c r' where c: "consume_candidate (clock (br_reads b)) s f r = (c, r')" by fastforce
  show ?thesis
    by (rule explains_one [OF assms, of "clock (br_reads b)" "ConsumeCandidate s f" None r'])
       (simp_all add: on_snapshot_valve_probe_def Some assms c messages_of_def)
qed

lemma new_sample_explained:
  assumes "br_rendezvous b = Some r"
  shows "explains dumps loads b (causes loads b (NewSample s x)) [] (on_snapshot_new_sample clock s x b)"
proof (cases "\<exists>f fs j. br_pending b s = Some (f # fs) \<and> x = SampleBytes j")
  case False
  then have "br_rendezvous (on_snapshot_new_sample clock s x b) = br_rendezvous b
      \<and> br_transport (on_snapshot_new_sample clock s x b) = br_transport b"
    by (auto simp: on_snapshot_new_sample_def Let_def split: option.split list.split sample.split)
  with assms show ?thesis
    by (intro explains_none [where tcs = "[]"]) (simp_all add: tw_run_def snapshots_in_def)
next
  case True
  then obtain f fs j where x: "br_pending b s = Some (f # fs)" "x = SampleBytes j" by blast
  obtain out r' where o: "submit_jpeg (clock (br_reads b)) s f j r = (out, r')" by fastforce
  show ?thesis
    by (rule explains_one [OF assms, of "clock (br_reads b)" "SubmitJpeg s f j" out r'])
       (simp_all add: on_snapshot_new_sample_def x assms o messages_of_def split: option.split)
qed

lemma reader_turn_ack:
  assumes "reader_turn loads evs w = ((AckMessage m, evs'), w')"
  shows "fst (read_one_frame loads evs) = AckMessage m" and "w' = w"
  using assms by (auto simp: reader_turn_def Let_def split: if_split_asm prod.splits)

lemma frame_read_explained:
  assumes "br_rendezvous b = Some r"
  shows "explains dumps loads b (causes loads b (FrameRead evs)) [] (on_frame_read clock loads evs b)"
proof -
  obtain read evs' w where t: "reader_turn loads evs (br_transport b) = ((read, evs'), w)" by (metis surj_pair)
  show ?thesis
  proof (cases "\<exists>m. read = AckMessage m")
    case False
    then have "br_rendezvous (on_frame_read clock loads evs b) = br_rendezvous b" "br_transport (on_frame_read clock loads evs b) = w"
      by (auto simp: on_frame_read_def t Let_def split: frame_read.split)
    with assms show ?thesis
      by (intro explains_none [where tcs = "[ReaderTurn evs]"]) (simp_all add: tw_run_def snapshots_in_def t)
  next
    case True
    then obtain m where m: "read = AckMessage m" ..
    note ack = reader_turn_ack [OF t [unfolded m]]
    obtain res r' where a: "acknowledgement_received (clock (br_reads b)) m r = (res, r')" by fastforce
    show ?thesis
      by (rule explains_one [OF assms, of "clock (br_reads b)" "Acknowledge m" "case res of Inl _ \<Rightarrow> None | Inr y \<Rightarrow> y" r'])
         (use ack in \<open>simp_all add: on_frame_read_def t m Let_def on_acknowledgement_def assms a messages_of_def split: sum.split option.split\<close>)
  qed
qed

lemma bridge_step_explained:
  assumes "br_rendezvous b = Some r"
  shows "explains dumps loads b (causes loads b c) (detections_of c) (bridge_step clock dumps loads c b)"
proof -
  have t: "explains dumps loads b P [] (on_transport g b)"
    if "g (br_transport b) = tw_step dumps loads x (br_transport b)" "snapshots_in [x] = []" for x g P
    by (rule explains_none [OF assms, where tcs = "[x]"]) (simp_all add: assms on_transport_def tw_run_def that)
  show ?thesis
  proof (cases c)
    case (BufferProbe fresh batch)
    show ?thesis
      using explains_mono [OF buffer_probe_explained [OF assms, of dumps loads fresh batch clock], of "causes loads b c"]
      by (simp add: BufferProbe detections_of_def)
  next
    case ShutdownPipeline
    have "explains dumps loads b (\<lambda>x. x = Clear) [] (shutdown_pipeline b)"
      by (rule explains_one [OF assms, of undefined Clear None "clear r"]) (simp_all add: shutdown_pipeline_def assms messages_of_def)
    from explains_mono [OF this, of "causes loads b c"] show ?thesis by (simp add: ShutdownPipeline detections_of_def)
  next
    case (SenderTakes connects)
    then show ?thesis by (simp add: detections_of_def t [of _ "SenderTurn connects"] snapshots_in_def)
  next
    case (SenderWrites fault)
    then show ?thesis by (simp add: detections_of_def t [of _ "SenderWrite fault"] snapshots_in_def)
  next
    case TransportStarts
    then show ?thesis by (simp add: detections_of_def t [of _ StartTransport] snapshots_in_def)
  next
    case (TransportStops connects fault)
    then show ?thesis by (simp add: detections_of_def t [of _ "StopTransport connects fault"] snapshots_in_def)
  qed (use assms valve_probe_explained new_sample_explained frame_read_explained in \<open>simp_all add: detections_of_def\<close>)
qed

lemma explains_rendezvous: "explains dumps loads b P ds b' \<Longrightarrow> \<exists>r. br_rendezvous b' = Some r"
  by (auto simp: explains_def splits_def)

text \<open>\<open>caused\<close>: some call of the run causes \<open>x\<close>, in the state it finds.\<close>

definition caused :: "(nat \<Rightarrow> pyfloat) \<Rightarrow> (json \<Rightarrow> utext) \<Rightarrow> (utext \<Rightarrow> exn + json) \<Rightarrow> bridge_call list \<Rightarrow> bridge \<Rightarrow> rv_call \<Rightarrow> bool" where
  "caused clock dumps loads calls b x \<longleftrightarrow>
     (\<exists>before c after. calls = before @ c # after \<and> causes loads (bridge_run clock dumps loads before b) c x)"

lemma bridge_run_explained:
  assumes "br_rendezvous b = Some r"
  shows "explains dumps loads b (caused clock dumps loads calls b) (concat (map detections_of calls)) (bridge_run clock dumps loads calls b)"
proof (induction calls rule: rev_induct)
  case Nil
  show ?case using explains_none [OF assms assms, where tcs = "[]"] by (simp add: tw_run_def snapshots_in_def)
next
  case (snoc c calls)
  let ?b = "bridge_run clock dumps loads calls b"
  obtain r' where "br_rendezvous ?b = Some r'" using explains_rendezvous [OF snoc.IH] ..
  note explains_append [OF snoc.IH bridge_step_explained [OF this, of dumps loads c clock]]
  moreover have "caused clock dumps loads (calls @ [c]) b x" if "caused clock dumps loads calls b x \<or> causes loads ?b c x" for x
    using that unfolding caused_def
  proof (elim disjE exE conjE)
    fix before c' after assume "calls = before @ c' # after" "causes loads (bridge_run clock dumps loads before b) c' x"
    then show "\<exists>before c' after. calls @ [c] = before @ c' # after \<and> causes loads (bridge_run clock dumps loads before b) c' x"
      by (intro exI [of _ before] exI [of _ c'] exI [of _ "after @ [c]"]) simp
  qed blast
  ultimately show ?case by (auto elim: explains_mono)
qed

section \<open>The evidence is that of the detection\<close>

text \<open>
  \<open>picture s f\<close> is what the encoder makes of frame \<open>f\<close> of source \<open>s\<close>, and \<open>inside s\<close> are the frames that are in
  the encoder of source \<open>s\<close>: those that found the valve open.  \<open>lossless\<close>: every sample that comes out is the
  image of the frame that went in first.
\<close>

definition let_in :: "bridge_call \<Rightarrow> bridge \<Rightarrow> (int \<Rightarrow> int list) \<Rightarrow> int \<Rightarrow> int list" where
  "let_in c b' inside =
     (case c of
        ValveProbe s batch \<Rightarrow>
          (case frame_number_from_buffer batch of
             Some f \<Rightarrow> if br_valve_open b' s then inside(s := inside s @ [f]) else inside
           | None \<Rightarrow> inside)
      | NewSample s x \<Rightarrow> if x = NoSample \<or> x = SampleRaises then inside else inside(s := tl (inside s))
      | ShutdownPipeline \<Rightarrow> (\<lambda>_. [])
      | _ \<Rightarrow> inside)"

definition comes_out :: "(int \<Rightarrow> int \<Rightarrow> bytes) \<Rightarrow> (int \<Rightarrow> int list) \<Rightarrow> bridge_call \<Rightarrow> bool" where
  "comes_out picture inside c \<longleftrightarrow>
     (case c of
        NewSample s x \<Rightarrow>
          (case x of SampleBytes j \<Rightarrow> inside s \<noteq> [] \<and> j = picture s (hd (inside s)) | SampleUnmapped \<Rightarrow> inside s \<noteq> [] | _ \<Rightarrow> True)
      | _ \<Rightarrow> True)"

fun lossless_from :: "(int \<Rightarrow> int \<Rightarrow> bytes) \<Rightarrow> (nat \<Rightarrow> pyfloat) \<Rightarrow> (json \<Rightarrow> utext) \<Rightarrow> (utext \<Rightarrow> exn + json) \<Rightarrow> bridge_call list
    \<Rightarrow> bridge \<Rightarrow> (int \<Rightarrow> int list) \<Rightarrow> bool"
where
  "lossless_from picture clock dumps loads [] b inside = True"
| "lossless_from picture clock dumps loads (c # cs) b inside =
     (comes_out picture inside c
      \<and> (let b' = bridge_step clock dumps loads c b in lossless_from picture clock dumps loads cs b' (let_in c b' inside)))"

definition lossless :: "(int \<Rightarrow> int \<Rightarrow> bytes) \<Rightarrow> (nat \<Rightarrow> pyfloat) \<Rightarrow> (json \<Rightarrow> utext) \<Rightarrow> (utext \<Rightarrow> exn + json) \<Rightarrow> bridge_call list \<Rightarrow> bridge \<Rightarrow> bool"
where
  "lossless picture clock dumps loads calls b = lossless_from picture clock dumps loads calls b (\<lambda>_. [])"

lemma buffer_probe_unchanged:
  "br_pending (on_buffer_probe clock fresh batch b) = br_pending b \<and> br_valve_open (on_buffer_probe clock fresh batch b) = br_valve_open b"
proof -
  have "br_pending (fold (\<lambda>d s. send_payload (to_wire_message d) (g d s)) ds b) = br_pending b
      \<and> br_valve_open (fold (\<lambda>d s. send_payload (to_wire_message d) (g d s)) ds b) = br_valve_open b"
    if "\<And>d s. br_pending (g d s) = br_pending s \<and> br_valve_open (g d s) = br_valve_open s" for ds b g
    using that by (induction ds arbitrary: b) (simp_all add: send_payload_def)
  note this [where g = "\<lambda>d. on_candidate clock (rd_source_id d) (rd_message_id d) (rd_frame_number d)"] this [where g = "\<lambda>d s. s"]
  then show ?thesis by (auto simp: on_buffer_probe_def handle_buffer_def on_candidate_def split: option.split)
qed

lemma frame_read_unchanged:
  "br_pending (on_frame_read clock loads evs b) = br_pending b \<and> br_valve_open (on_frame_read clock loads evs b) = br_valve_open b"
  by (auto simp: on_frame_read_def Let_def on_acknowledgement_def split: prod.split frame_read.split option.split)

definition pending_of :: "bridge \<Rightarrow> int \<Rightarrow> int list" where
  "pending_of b s = (case br_pending b s of None \<Rightarrow> [] | Some fs \<Rightarrow> fs)"

lemma pending_inside:
  assumes "inside = pending_of b"
  shows "let_in c (bridge_step clock dumps loads c b) inside = pending_of (bridge_step clock dumps loads c b)"
proof (cases c)
  case (ValveProbe s batch)
  with assms show ?thesis
    by (auto simp: fun_eq_iff let_in_def pending_of_def on_snapshot_valve_probe_def split: option.split prod.split)
next
  case (NewSample s x)
  with assms show ?thesis
    by (auto simp: fun_eq_iff let_in_def pending_of_def on_snapshot_new_sample_def Let_def
        split: option.split prod.split list.split sample.split)
qed (use assms buffer_probe_unchanged frame_read_unchanged in
    \<open>simp_all add: let_in_def pending_of_def fun_eq_iff on_transport_def shutdown_pipeline_def\<close>)

lemma lossless_from_at:
  "lossless_from picture clock dumps loads (before @ NewSample s (SampleBytes j) # after) b (pending_of b) \<Longrightarrow>
   br_pending (bridge_run clock dumps loads before b) s = Some (f # fs) \<Longrightarrow> j = picture s f"
  by (induction before arbitrary: b)
     (auto simp: comes_out_def pending_of_def [of b s for b] Let_def pending_inside [OF refl])

lemma lossless_at:
  assumes "lossless picture clock dumps loads (before @ NewSample s (SampleBytes j) # after) b" and "br_pending b = Map.empty"
    and "br_pending (bridge_run clock dumps loads before b) s = Some (f # fs)"
  shows "j = picture s f"
proof -
  have "pending_of b = (\<lambda>_. [])" by (simp add: fun_eq_iff pending_of_def assms(2))
  with lossless_from_at [OF _ assms(3), of picture j after] assms(1) show ?thesis by (simp add: lossless_def)
qed

lemma caused_cases:
  assumes "caused clock dumps loads calls b x" and "br_pending b = Map.empty"
  shows "case x of
      RecordDetection s m f \<Rightarrow> \<exists>d \<in> set (concat (map detections_of calls)). x = recording d
    | SubmitJpeg s f j \<Rightarrow> lossless picture clock dumps loads calls b \<longrightarrow> j = picture s f
    | Acknowledge m \<Rightarrow> \<exists>evs. FrameRead evs \<in> set calls \<and> fst (read_one_frame loads evs) = AckMessage m
    | _ \<Rightarrow> True"
proof -
  obtain before c after where c: "calls = before @ c # after" "causes loads (bridge_run clock dumps loads before b) c x"
    using assms unfolding caused_def by blast
  show ?thesis
  proof (cases c)
    case (BufferProbe fresh batch)
    with c show ?thesis by (auto simp: recording_def detections_of_def)
  next
    case (NewSample s y)
    with c lossless_at [OF _ assms(2)] show ?thesis by fastforce
  next
    case (FrameRead evs)
    with c show ?thesis by auto
  qed (use c in auto)
qed

lemma list_all2_witness: "list_all2 P xs ys \<Longrightarrow> y \<in> set ys \<Longrightarrow> \<exists>x \<in> set xs. P x y"
  by (induction rule: list_all2_induct) auto

text \<open>The snapshots enqueued in a run, and why.\<close>

lemma bridge_snapshots_justified:
  assumes "mk_transport capacity snapshot_capacity = Inr w0" and "mk_rendezvous max_retained ttl = Inr r0"
    and "b = bridge_run clock dumps loads calls (new_bridge (Some r0) w0)"
    and "distinct (map rd_message_id (concat (map detections_of calls)))"
  shows "\<exists>tcs. br_transport b = tw_run dumps loads tcs w0
    \<and> (\<forall>e j. (e, j) \<in> set (snapshots_in tcs) \<longrightarrow> (\<exists>past m. justified past m e j
         \<and> (\<forall>x \<in> past. caused clock dumps loads calls (new_bridge (Some r0) w0) x)))"
proof -
  let ?b0 = "new_bridge (Some r0) w0"
  have "explains dumps loads ?b0 (caused clock dumps loads calls ?b0) (concat (map detections_of calls)) b"
    unfolding assms(3) by (rule bridge_run_explained) (simp add: new_bridge_def)
  then obtain rcs tcs outs r where *: "rv_run rcs r0 = (outs, r)" "snapshots_in tcs = sent_of outs"
    "br_transport b = tw_run dumps loads tcs w0" "\<forall>x \<in> snd ` set rcs. caused clock dumps loads calls ?b0 x"
    "concat (map (messages_of \<circ> snd) rcs) = map rd_message_id (concat (map detections_of calls))"
    unfolding explains_def splits_def by (auto simp: new_bridge_def)
  have d: "distinct (concat (map (messages_of \<circ> snd) rcs))" unfolding *(5) by (rule assms(4))
  have r0: "backed (snd ` set rcs) r0" "pending_messages r0 = {}"
    using assms(2) by (auto simp: mk_rendezvous_def backed_def keyed_def pending_messages_def split: if_split_asm)
  have "single_frame (snd ` set rcs)"
    using distinct_single_frame [of "map snd rcs"] d by (simp add: comp_def)
  from rv_run_sound [OF *(1) r0(1) this order_refl d] r0(2)
  obtain ms where ms: "list_all2 (\<lambda>m (e, j). justified (snd ` set rcs) m e j) ms (sent_of outs)" by blast
  have j: "\<exists>m. justified (snd ` set rcs) m e j" if "(e, j) \<in> set (snapshots_in tcs)" for e j
    using list_all2_witness [OF ms, of "(e, j)"] that *(2) by auto
  show ?thesis
  proof (rule exI [of _ tcs], intro conjI allI impI)
    show "br_transport b = tw_run dumps loads tcs w0" by (rule *(3))
    show "\<exists>past m. justified past m e j \<and> (\<forall>x \<in> past. caused clock dumps loads calls ?b0 x)"
      if "(e, j) \<in> set (snapshots_in tcs)" for e j
      using j [OF that] *(4) by (intro exI [of _ "snd ` set rcs"]) simp
  qed
qed

text \<open>
  C6.  Evidence, end to end.  Let the Bridge run over any interleaving of its threads and callbacks, with any faults
  of the socket and whatever the Agent answers, and let the encoder lose no frame.  Then every snapshot the
  Agent queues from a connection of the Bridge carries the image of the very frame, of the very source, in
  which a detection was found whose message an acknowledgement had accepted under that very event.
\<close>

theorem agent_queues_right_evidence:
  assumes "mk_transport capacity snapshot_capacity = Inr w0" and "mk_rendezvous max_retained ttl = Inr r0"
    and "b = bridge_run clock dumps loads calls (new_bridge (Some r0) w0)"
    and "distinct (map rd_message_id (concat (map detections_of calls)))"
    and "lossless picture clock dumps loads calls (new_bridge (Some r0) w0)"
    and "list_all (deliverable dumps loads) (sent_on n (br_transport b))"
    and "SnapshotItem event_id j \<in> set (fst (handle_connection loads conn (tw_stream (br_transport b) n)))"
  shows "\<exists>d evs ack e. d \<in> set (concat (map detections_of calls)) \<and> j = picture (rd_source_id d) (rd_frame_number d)
    \<and> FrameRead evs \<in> set calls \<and> fst (read_one_frame loads evs) = AckMessage ack
    \<and> ack_for ack (rd_message_id d) \<and> ack_requests ack e \<and> event_id = text_of_string e"
proof -
  obtain tcs where t: "br_transport b = tw_run dumps loads tcs w0"
    "\<And>e j. (e, j) \<in> set (snapshots_in tcs) \<Longrightarrow> \<exists>past m. justified past m e j
       \<and> (\<forall>x \<in> past. caused clock dumps loads calls (new_bridge (Some r0) w0) x)"
    using bridge_snapshots_justified [OF assms(1-4)] by blast
  have "fst (handle_connection loads conn (tw_stream (br_transport b) n)) = map (queue_of conn) (sent_on n (br_transport b))"
    using t(1) framed_run [OF assms(1)] assms(6) by (simp add: delivers_sent [of dumps])
  then obtain e where e: "OutSnapshot e j \<in> set (sent_on n (br_transport b))" "event_id = text_of_string e"
    using assms(7) by (auto simp: queue_of_def split: outgoing.splits)
  have "OutSnapshot e j \<in> set (enqueued tcs)"
    using subsetD [OF sent_on_enqueued [OF in_order_run [OF assms(1)]], of _ n dumps loads tcs] e(1) t(1) by simp
  then have "(e, j) \<in> set (snapshots_in tcs)" by (auto simp: enqueued_def)
  from t(2) [OF this] obtain past m where j: "justified past m e j"
    and p: "\<forall>x \<in> past. caused clock dumps loads calls (new_bridge (Some r0) w0) x" by (elim exE conjE)
  from j obtain s f ack where past: "RecordDetection s m f \<in> past" "SubmitJpeg s f j \<in> past" "Acknowledge ack \<in> past"
    and ack: "ack_for ack m" "ack_requests ack e"
    unfolding justified_def by (elim exE conjE)
  have "br_pending (new_bridge (Some r0) w0) = Map.empty" by (simp add: new_bridge_def)
  note c = caused_cases [OF bspec [OF p] this, where picture = picture]
  obtain d where "d \<in> set (concat (map detections_of calls))" "RecordDetection s m f = recording d" using c [OF past(1)] by auto
  moreover obtain evs where "FrameRead evs \<in> set calls" "fst (read_one_frame loads evs) = AckMessage ack" using c [OF past(3)] by auto
  moreover have "j = picture s f" using c [OF past(2)] assms(5) by simp
  ultimately show ?thesis using ack e(2) by (intro exI [of _ d] exI [of _ evs]) (auto simp: recording_def)
qed

definition demo_frame :: "int \<Rightarrow> frame_meta" where
  "demo_frame f = \<lparr>fm_source_id = 0, fm_frame_num = f, fm_source_frame_width = 1920, fm_source_frame_height = 1080,
     fm_objects = [\<lparr>om_class_id = 0, om_confidence = Fin 1,
       om_rect = \<lparr>rp_left = Fin 1, rp_top = Fin 1, rp_width = Fin 1, rp_height = Fin 1\<rparr>\<rparr>]\<rparr>"

definition demo_wire :: json_obj where
  "demo_wire = to_wire_message (extract_object (demo_frame 7) ''m'' (hd (fm_objects (demo_frame 7))))"

definition demo_bridge_loads :: "utext \<Rightarrow> exn + json" where
  "demo_bridge_loads content = Inr (if content = [50] then JObj demo_wire else demo_ack ''m'' ''a'')"

definition demo_bridge :: bridge where
  "demo_bridge = new_bridge (Some demo_rendezvous) demo_transport"

definition demo_bridge_calls :: "bridge_call list" where
  "demo_bridge_calls =
     [TransportStarts, BufferProbe (\<lambda>_. ''m'') (Some [demo_frame 7]), ValveProbe 0 (Some [demo_frame 7]),
      NewSample 0 (SampleBytes [255]), SenderTakes True, SenderTakes True, SenderWrites None,
      FrameRead [RecvData [3, 0, 0, 0, 1, 51]], SenderTakes True, SenderWrites None]"

definition demo_r1 :: rendezvous where "demo_r1 = record_detection (Fin 0) 0 ''m'' 7 demo_rendezvous"
definition demo_r2 :: rendezvous where "demo_r2 = snd (consume_candidate (Fin 0) 0 7 demo_r1)"
definition demo_r3 :: rendezvous where "demo_r3 = snd (submit_jpeg (Fin 0) 0 7 [255] demo_r2)"
definition demo_r4 :: rendezvous where "demo_r4 = snd (acknowledgement_received (Fin 0) (demo_ack ''m'' ''a'') demo_r3)"

lemma demo_rendezvous_answers:
  "record_detection (Fin 0) 0 ''m'' 7 demo_rendezvous = demo_r1"
  "consume_candidate (Fin 0) 0 7 demo_r1 = (True, demo_r2)"
  "submit_jpeg (Fin 0) 0 7 [255] demo_r2 = (None, demo_r3)"
  "acknowledgement_received (Fin 0) (demo_ack ''m'' ''a'') demo_r3 = (Inr (Some (''a'', [255])), demo_r4)"
proof -
  have 1: "fst (consume_candidate (Fin 0) 0 7 demo_r1)" by code_simp
  have 2: "fst (submit_jpeg (Fin 0) 0 7 [255] demo_r2) = None" by code_simp
  have 3: "fst (acknowledgement_received (Fin 0) (demo_ack ''m'' ''a'') demo_r3) = Inr (Some (''a'', [255]))" by code_simp
  show "record_detection (Fin 0) 0 ''m'' 7 demo_rendezvous = demo_r1" "consume_candidate (Fin 0) 0 7 demo_r1 = (True, demo_r2)"
    "submit_jpeg (Fin 0) 0 7 [255] demo_r2 = (None, demo_r3)"
    "acknowledgement_received (Fin 0) (demo_ack ''m'' ''a'') demo_r3 = (Inr (Some (''a'', [255])), demo_r4)"
    using 1 2 3 by (simp_all add: demo_r1_def demo_r2_def demo_r3_def demo_r4_def prod_eq_iff)
qed

lemma demo_ack_read: "read_one_frame demo_bridge_loads [RecvData [3, 0, 0, 0, 1, 51]] = (AckMessage (demo_ack ''m'' ''a''), [])"
proof -
  have "utf8_decode [51] = Inr [51]" by (rule utf8_decode_encode [OF demo_utf8(2)])
  then show ?thesis
    by (simp add: read_one_frame_def recv_exact_def recv_chunks.simps bridge_decode_frame_header_def bridge_constants
        decode_acknowledgement_def demo_bridge_loads_def from_bytes_def)
qed

definition demo_b1 :: bridge where
  "demo_b1 = \<lparr>br_rendezvous = Some demo_r1, br_pending = Map.empty, br_valve_open = (\<lambda>_. False),
     br_transport = enqueue_payload demo_wire (start_transport demo_transport), br_reads = 1\<rparr>"

lemma demo_probe: "on_buffer_probe (\<lambda>_. Fin 0) (\<lambda>_. ''m'') (Some [demo_frame 7]) (on_transport start_transport demo_bridge) = demo_b1"
  using demo_rendezvous_answers(1)
  by (simp add: on_buffer_probe_def handle_buffer_def extract_detections_def on_candidate_def send_payload_def demo_b1_def
      on_transport_def demo_bridge_def new_bridge_def demo_wire_def)
     (simp add: demo_frame_def extract_object_def)

definition demo_b2 :: bridge where
  "demo_b2 = demo_b1\<lparr>br_rendezvous := Some demo_r3, br_pending := [0 \<mapsto> []], br_valve_open := (\<lambda>_. False)(0 := True),
     br_reads := Suc (Suc (br_reads demo_b1))\<rparr>"

lemma demo_capture:
  "on_snapshot_new_sample (\<lambda>_. Fin 0) 0 (SampleBytes [255])
     (on_snapshot_valve_probe (\<lambda>_. Fin 0) 0 (Some [demo_frame 7]) demo_b1) = demo_b2"
  "br_pending (on_snapshot_valve_probe (\<lambda>_. Fin 0) 0 (Some [demo_frame 7]) demo_b1) 0 = Some [7]"
  "br_valve_open (on_snapshot_valve_probe (\<lambda>_. Fin 0) 0 (Some [demo_frame 7]) demo_b1) 0"
  "frame_number_from_buffer (Some [demo_frame 7]) = Some 7"
  using demo_rendezvous_answers(2,3)
  by (simp_all add: on_snapshot_valve_probe_def frame_number_from_buffer_def demo_frame_def demo_b1_def demo_b2_def
      on_snapshot_new_sample_def send_snapshot_def)

definition demo_w1 :: transport where
  "demo_w1 = sender_write demo_dumps None (sender_turn True (sender_turn True (enqueue_payload demo_wire (start_transport demo_transport))))"

lemma demo_w1_simps:
  "tw_sock demo_w1 = Some 0" "tw_sender demo_w1 = SenderIdle" "tw_log demo_w1 = [(0, OutDetection demo_wire)]"
  "tw_snapshot_queue demo_w1 = []" "tw_snapshot_capacity demo_w1 = 5" "\<not> tw_reader_dead demo_w1"
  by (simp_all add: demo_w1_def demo_transport_def mk_transport_def start_transport_def enqueue_payload_def sender_turn_def
      send_attempt_def sender_write_def demo_encodes carry_def)

lemma demo_acknowledged:
  "br_transport (on_frame_read (\<lambda>_. Fin 0) demo_bridge_loads [RecvData [3, 0, 0, 0, 1, 51]] (demo_b2\<lparr>br_transport := demo_w1\<rparr>))
   = enqueue_snapshot ''a'' [255] demo_w1"
  by (simp add: on_frame_read_def reader_turn_def demo_ack_read demo_w1_simps on_acknowledgement_def demo_b2_def
      demo_rendezvous_answers(4))

lemma demo_sent_on: "sent_on 0 (br_transport (bridge_run (\<lambda>_. Fin 0) demo_dumps demo_bridge_loads demo_bridge_calls demo_bridge))
    = [OutDetection demo_wire, OutSnapshot ''a'' [255]]"
proof -
  have t: "on_transport (sender_write demo_dumps None) (on_transport (sender_turn True) (on_transport (sender_turn True) demo_b2))
      = demo_b2\<lparr>br_transport := demo_w1\<rparr>"
    by (simp add: on_transport_def demo_w1_def demo_b2_def demo_b1_def)
  have "br_transport (bridge_run (\<lambda>_. Fin 0) demo_dumps demo_bridge_loads demo_bridge_calls demo_bridge)
      = sender_write demo_dumps None (sender_turn True (enqueue_snapshot ''a'' [255] demo_w1))"
    using demo_acknowledged by (simp add: demo_bridge_calls_def demo_probe demo_capture t) (simp add: on_transport_def)
  then show ?thesis
    by (simp add: enqueue_snapshot_def demo_w1_simps sender_turn_def send_attempt_def sender_write_def demo_encodes sent_on_def)
qed

lemma demo_lossless: "lossless (\<lambda>_ _. [255]) (\<lambda>_. Fin 0) demo_dumps demo_bridge_loads demo_bridge_calls demo_bridge"
  by (simp add: lossless_def demo_bridge_calls_def demo_probe demo_capture comes_out_def let_in_def)

theorem agent_queues_right_evidence_witness:
  "\<exists>d \<in> set (concat (map detections_of demo_bridge_calls)). \<exists>evs ack e. FrameRead evs \<in> set demo_bridge_calls
     \<and> ack_for ack (rd_message_id d) \<and> ack_requests ack e \<and> [97] = text_of_string e"
proof -
  let ?b = "bridge_run (\<lambda>_. Fin 0) demo_dumps demo_bridge_loads demo_bridge_calls demo_bridge"
  have w: "mk_transport 5 5 = Inr demo_transport" by (simp add: demo_transport_def mk_transport_def)
  have ids: "distinct (map rd_message_id (concat (map detections_of demo_bridge_calls)))"
    by (simp add: demo_bridge_calls_def detections_of_def found_def extract_detections_def demo_frame_def)
  have d: "list_all (deliverable demo_dumps demo_bridge_loads) (sent_on 0 (br_transport ?b))"
    using demo_frames_fit(1,3)
    by (simp add: demo_sent_on deliverable_def demo_encodes message_of_def demo_dumps_def demo_bridge_loads_def text_of_string_def
        demo_wire_def to_wire_message_def build_detection_message_def supported_version_def schema_version_of_def
        SUPPORTED_SCHEMA_VERSIONS_def SCHEMA_VERSION_def jget_none_def)
  have "framed demo_dumps (br_transport ?b)"
    using bridge_snapshots_justified [OF w demo_mk_rendezvous refl ids, of "\<lambda>_. Fin 0" demo_dumps demo_bridge_loads]
      framed_run [OF w] by (auto simp: demo_bridge_def)
  from delivers_sent [OF this d, of 7]
  have "SnapshotItem [97] [255] \<in> set (fst (handle_connection demo_bridge_loads 7 (tw_stream (br_transport ?b) 0)))"
    by (simp add: demo_sent_on queue_of_def text_of_string_def)
  from agent_queues_right_evidence [OF w demo_mk_rendezvous refl ids, folded demo_bridge_def, OF demo_lossless d this]
  show ?thesis by blast
qed

section \<open>With one shared output nothing is captured\<close>

text \<open>
  With a single shared output the snapshot branch is built with the source index \<open>-1\<close>
  (\<^verbatim>\<open>_SHARED_OUTPUT_SOURCE_INDEX\<close>), while detections are recorded under the source of their frame.
\<close>

definition SHARED_OUTPUT_SOURCE_INDEX :: int where "SHARED_OUTPUT_SOURCE_INDEX = - 1"

definition shared_output :: "bridge_call \<Rightarrow> bool" where
  "shared_output c \<longleftrightarrow>
     (case c of
        BufferProbe fresh batch \<Rightarrow> list_all (\<lambda>d. 0 \<le> rd_source_id d) (found fresh batch)
      | ValveProbe s _ \<Rightarrow> s = SHARED_OUTPUT_SOURCE_INDEX
      | NewSample s _ \<Rightarrow> s = SHARED_OUTPUT_SOURCE_INDEX
      | _ \<Rightarrow> True)"

lemma bridge_run_backed:
  assumes "mk_rendezvous max_retained ttl = Inr r0" and "distinct (map rd_message_id (concat (map detections_of calls)))"
  shows "\<exists>past r. br_rendezvous (bridge_run clock dumps loads calls (new_bridge (Some r0) w0)) = Some r
    \<and> backed past r \<and> (\<forall>x \<in> past. caused clock dumps loads calls (new_bridge (Some r0) w0) x)"
proof -
  let ?b0 = "new_bridge (Some r0) w0"
  have "explains dumps loads ?b0 (caused clock dumps loads calls ?b0) (concat (map detections_of calls))
      (bridge_run clock dumps loads calls ?b0)"
    by (rule bridge_run_explained) (simp add: new_bridge_def)
  then obtain rcs outs r where *: "rv_run rcs r0 = (outs, r)" "br_rendezvous (bridge_run clock dumps loads calls ?b0) = Some r"
    "\<forall>x \<in> snd ` set rcs. caused clock dumps loads calls ?b0 x"
    "concat (map (messages_of \<circ> snd) rcs) = map rd_message_id (concat (map detections_of calls))"
    unfolding explains_def splits_def by (auto simp: new_bridge_def)
  have "single_frame (snd ` set rcs)"
    using distinct_single_frame [of "map snd rcs"] assms(2) *(4) by (simp add: comp_def)
  then have "backed (snd ` set rcs) r"
    using rv_run_backed [OF *(1), of "snd ` set rcs"] mk_rendezvous_backed [OF assms(1)] by simp
  then show ?thesis using *(2,3) by (intro exI [of _ "snd ` set rcs"] exI [of _ r]) simp
qed

lemma shared_output_closed:
  assumes "mk_rendezvous max_retained ttl = Inr r0" and "list_all shared_output calls"
    and "distinct (map rd_message_id (concat (map detections_of calls)))"
  shows "br_pending (bridge_run clock dumps loads calls (new_bridge (Some r0) w0)) = Map.empty
    \<and> br_valve_open (bridge_run clock dumps loads calls (new_bridge (Some r0) w0)) = (\<lambda>_. False)"
  using assms(2,3)
proof (induction calls rule: rev_induct)
  case Nil
  then show ?case by (simp add: new_bridge_def)
next
  case (snoc c calls)
  let ?b = "bridge_run clock dumps loads calls (new_bridge (Some r0) w0)"
  have IH: "br_pending ?b = Map.empty" "br_valve_open ?b = (\<lambda>_. False)" using snoc by auto
  show ?case
  proof (cases c)
    case (BufferProbe fresh batch)
    with IH show ?thesis by (simp add: buffer_probe_unchanged)
  next
    case (ValveProbe s batch)
    obtain past r where r: "br_rendezvous ?b = Some r" "backed past r"
      "\<forall>x \<in> past. caused clock dumps loads calls (new_bridge (Some r0) w0) x"
      using bridge_run_backed [OF assms(1), of calls clock dumps loads w0] snoc.prems(2) by auto
    have "map_of (rv_by_frame (expire_locked t r)) (s, f) = None" for t f
    proof (rule ccontr)
      assume "map_of (rv_by_frame (expire_locked t r)) (s, f) \<noteq> None"
      then obtain m where "((s, f), m) \<in> set (rv_by_frame (expire_locked t r))" by (auto dest: map_of_SomeD)
      then have "RecordDetection s m f \<in> past" using backed_expire [OF r(2), of t] by (auto simp: backed_def)
      with r(3) have "caused clock dumps loads calls (new_bridge (Some r0) w0) (RecordDetection s m f)" by blast
      moreover have "br_pending (new_bridge (Some r0) w0) = Map.empty" by (simp add: new_bridge_def)
      ultimately have "case RecordDetection s m f of RecordDetection s m f \<Rightarrow>
          \<exists>d \<in> set (concat (map detections_of calls)). RecordDetection s m f = recording d | _ \<Rightarrow> True"
        using caused_cases by fastforce
      with snoc.prems(1) have "0 \<le> s"
        by (fastforce simp: recording_def detections_of_def shared_output_def list_all_iff split: bridge_call.splits)
      then show False using snoc.prems(1) by (simp add: ValveProbe shared_output_def SHARED_OUTPUT_SOURCE_INDEX_def)
    qed
    then have "consume_candidate t s f r \<noteq> (True, r')" for t f r' by (simp add: consume_candidate_def Let_def)
    then show ?thesis
      using IH r(1) by (auto simp: ValveProbe on_snapshot_valve_probe_def split: option.split prod.split)
  next
    case (NewSample s x)
    with IH show ?thesis by (simp add: on_snapshot_new_sample_def)
  next
    case (FrameRead evs)
    with IH show ?thesis by (simp add: frame_read_unchanged)
  qed (use IH in \<open>simp_all add: on_transport_def shutdown_pipeline_def\<close>)
qed

text \<open>
  With a single shared output snapshots never work.  Whatever is detected and acknowledged, in whatever order,
  the valve of the snapshot branch never opens, and no snapshot is ever queued or sent.
\<close>

theorem shared_output_never_captures:
  assumes "mk_transport capacity snapshot_capacity = Inr w" and "mk_rendezvous max_retained ttl = Inr r0"
    and "list_all shared_output calls" and "distinct (map rd_message_id (concat (map detections_of calls)))"
    and "b = bridge_run clock dumps loads calls (new_bridge (Some r0) w)"
  shows "\<not> br_valve_open b s \<and> tw_snapshot_queue (br_transport b) = [] \<and> snapshots_out (sent_on n (br_transport b)) = []"
proof -
  obtain tcs where t: "br_transport b = tw_run dumps loads tcs w"
    "\<And>e j. (e, j) \<in> set (snapshots_in tcs) \<Longrightarrow> \<exists>past m. justified past m e j
       \<and> (\<forall>x \<in> past. caused clock dumps loads calls (new_bridge (Some r0) w) x)"
    using bridge_snapshots_justified [OF assms(1,2,5,4)] by blast
  have "\<not> caused clock dumps loads calls (new_bridge (Some r0) w) (SubmitJpeg s f j)" for s f j
  proof
    assume "caused clock dumps loads calls (new_bridge (Some r0) w) (SubmitJpeg s f j)"
    then obtain before c after where c: "calls = before @ c # after"
      "causes loads (bridge_run clock dumps loads before (new_bridge (Some r0) w)) c (SubmitJpeg s f j)"
      unfolding caused_def by blast
    have "br_pending (bridge_run clock dumps loads before (new_bridge (Some r0) w)) = Map.empty"
      using shared_output_closed [OF assms(2), of before clock dumps loads w] assms(3,4) c(1) by auto
    then show False using c(2) by (cases c) (auto simp: recording_def)
  qed
  then have "snapshots_in tcs = []"
    using t(2) by (cases "snapshots_in tcs") (auto simp: justified_def, blast)
  then show ?thesis
    using in_order_run [OF assms(1), of tcs dumps loads] sent_on_in_order(2) [OF in_order_run [OF assms(1), of tcs dumps loads], of n]
      shared_output_closed [OF assms(2-4), of clock dumps loads w]
    by (auto simp: assms(5) [symmetric] t(1) [symmetric] in_order_def dest: list_emb_Nil2)
qed

theorem shared_output_never_captures_witness:
  "tw_snapshot_queue (br_transport (bridge_run (\<lambda>_. Fin 0) demo_dumps demo_bridge_loads
     [BufferProbe (\<lambda>_. ''m'') (Some [demo_frame 7]), ValveProbe (- 1) (Some [demo_frame 7]), NewSample (- 1) (SampleBytes [255])]
     demo_bridge)) = []"
  using shared_output_never_captures [OF _ demo_mk_rendezvous _ _ refl, where w = demo_transport and capacity = 5
      and snapshot_capacity = 5 and calls = "[BufferProbe (\<lambda>_. ''m'') (Some [demo_frame 7]), ValveProbe (- 1) (Some [demo_frame 7]),
        NewSample (- 1) (SampleBytes [255])]"
      and clock = "\<lambda>_. Fin 0" and dumps = demo_dumps and loads = demo_bridge_loads]
  by (simp add: demo_transport_def mk_transport_def shared_output_def SHARED_OUTPUT_SOURCE_INDEX_def detections_of_def found_def
      extract_detections_def extract_object_def demo_frame_def demo_bridge_def)

section \<open>A lost image\<close>

text \<open>
  The branch is assumed to give an image for every frame it is let: the sample callback takes the oldest pending
  frame number for the frame of the image.  When the encoder drops one frame, the next image is filed under it.
\<close>

definition holding :: "int \<Rightarrow> pyfloat \<Rightarrow> (string \<times> candidate) list \<Rightarrow> (frame_key \<times> string) list \<Rightarrow> rendezvous" where
  "holding k ttl ms fs = \<lparr>rv_max_retained = k, rv_ttl_seconds = ttl, rv_by_message = ms, rv_by_frame = fs\<rparr>"

lemma rendezvous_two_frames:
  fixes t ttl s m1 m2 f1 f2 k j
  defines "c1 \<equiv> new_candidate s f1 m1 (fl_add t ttl)" and "c2 \<equiv> new_candidate s f2 m2 (fl_add t ttl)"
  defines "c1' \<equiv> c1\<lparr>cd_valve_matched := True\<rparr>" and "c2' \<equiv> c2\<lparr>cd_valve_matched := True\<rparr>"
  assumes k: "1 < k" and t: "\<not> fl_le (fl_add t ttl) t" and ne: "m1 \<noteq> m2" "f1 \<noteq> f2"
  shows "record_detection t s m1 f1 (holding k ttl [] []) = holding k ttl [(m1, c1)] [((s, f1), m1)]"
    and "consume_candidate t s f1 (holding k ttl [(m1, c1)] [((s, f1), m1)])
      = (True, holding k ttl [(m1, c1')] [((s, f1), m1)])"
    and "record_detection t s m2 f2 (holding k ttl [(m1, c1')] [((s, f1), m1)])
      = holding k ttl [(m1, c1'), (m2, c2)] [((s, f1), m1), ((s, f2), m2)]"
    and "consume_candidate t s f2 (holding k ttl [(m1, c1'), (m2, c2)] [((s, f1), m1), ((s, f2), m2)])
      = (True, holding k ttl [(m1, c1'), (m2, c2')] [((s, f1), m1), ((s, f2), m2)])"
    and "submit_jpeg t s f1 j (holding k ttl [(m1, c1'), (m2, c2')] [((s, f1), m1), ((s, f2), m2)])
      = (None, holding k ttl [(m1, c1'\<lparr>cd_jpeg_bytes := Some j\<rparr>), (m2, c2')] [((s, f1), m1), ((s, f2), m2)])"
    and "ack_for ack m1 \<Longrightarrow> ack_requests ack e \<Longrightarrow>
      acknowledgement_received t ack (holding k ttl [(m1, c1'\<lparr>cd_jpeg_bytes := Some j\<rparr>), (m2, c2')] [((s, f1), m1), ((s, f2), m2)])
      = (Inr (Some (e, j)), holding k ttl [(m2, c2')] [((s, f2), m2)])"
proof -
  have e: "expire_locked t (holding k ttl ms fs) = holding k ttl ms fs" if "\<forall>c \<in> snd ` set ms. cd_expires_at c = fl_add t ttl" for ms fs
    using that t by (auto simp: expire_locked_def has_expired_def holding_def filter_empty_conv)
  have c: "cd_expires_at c1 = fl_add t ttl" "cd_expires_at c2 = fl_add t ttl" "cd_message_id c1 = m1" "cd_message_id c2 = m2"
    "cd_completed c1 = False" "cd_ack_outcome c1 = JNull" "cd_source_id c1 = s" "cd_frame_number c1 = f1" "cd_valve_matched c1 = False" "cd_valve_matched c2 = False"
    by (simp_all add: c1_def c2_def new_candidate_def)
  note [simp] = e c c1'_def c2'_def
  show "record_detection t s m1 f1 (holding k ttl [] []) = holding k ttl [(m1, c1)] [((s, f1), m1)]"
    using k by (simp add: record_detection_def Let_def) (simp add: holding_def c1_def trim_messages.simps trim_frames_def move_to_end_def)
  show "consume_candidate t s f1 (holding k ttl [(m1, c1)] [((s, f1), m1)]) = (True, holding k ttl [(m1, c1')] [((s, f1), m1)])"
    by (simp add: consume_candidate_def Let_def) (simp add: holding_def put_candidate_def)
  show "record_detection t s m2 f2 (holding k ttl [(m1, c1')] [((s, f1), m1)])
      = holding k ttl [(m1, c1'), (m2, c2)] [((s, f1), m1), ((s, f2), m2)]"
    using k ne by (simp add: record_detection_def Let_def) (simp add: holding_def c2_def trim_messages.simps trim_frames_def move_to_end_def)
  show "consume_candidate t s f2 (holding k ttl [(m1, c1'), (m2, c2)] [((s, f1), m1), ((s, f2), m2)])
      = (True, holding k ttl [(m1, c1'), (m2, c2')] [((s, f1), m1), ((s, f2), m2)])"
    using ne by (simp add: consume_candidate_def Let_def) (simp add: holding_def put_candidate_def)
  show "submit_jpeg t s f1 j (holding k ttl [(m1, c1'), (m2, c2')] [((s, f1), m1), ((s, f2), m2)])
      = (None, holding k ttl [(m1, c1'\<lparr>cd_jpeg_bytes := Some j\<rparr>), (m2, c2')] [((s, f1), m1), ((s, f2), m2)])"
    by (simp add: submit_jpeg_def Let_def) (simp add: holding_def put_candidate_def try_complete_locked_def)
  show "acknowledgement_received t ack (holding k ttl [(m1, c1'\<lparr>cd_jpeg_bytes := Some j\<rparr>), (m2, c2')] [((s, f1), m1), ((s, f2), m2)])
      = (Inr (Some (e, j)), holding k ttl [(m2, c2')] [((s, f2), m2)])" if ack: "ack_for ack m1" "ack_requests ack e"
  proof -
    obtain ob where ob: "ack = JObj ob" "jget_none ob ''messageId'' = JStr m1" "jget_none ob ''outcome'' = JStr ''accepted''"
      "jget_none ob ''eventId'' = JStr e" "truthy (jget_none ob ''snapshotRequired'')"
      using ack by (auto simp: ack_for_def ack_requests_def)
    have log: "log_ack (JStr e) = Inr ()" by (simp add: log_ack_def)
    define c where "c = c1'\<lparr>cd_jpeg_bytes := Some j\<rparr>"
    define h where "h = holding k ttl [(m1, c), (m2, c2')] [((s, f1), m1), ((s, f2), m2)]"
    define d where "d = c\<lparr>cd_ack_outcome := JStr ''accepted'', cd_event_id := JStr e, cd_snapshot_required := True\<rparr>"
    have h: "expire_locked t h = h" "map_of (rv_by_message h) m1 = Some c" "cd_completed c = False"
      by (simp_all add: h_def c_def) (simp add: holding_def)
    have "try_complete_locked d (put_candidate d h) = (Some (e, j), holding k ttl [(m2, c2')] [((s, f2), m2)])"
      using ne by (simp add: try_complete_locked_def d_def c_def h_def) (simp add: holding_def remove_locked_def put_candidate_def frame_of_def dict_del_def)
    then show ?thesis
      unfolding c_def [symmetric] h_def [symmetric] acknowledgement_received_def ob(1) json.case ob(2) ob(3-5)
      by (simp add: submit_ack_def Let_def h log ob(5) d_def)
  qed
qed

text \<open>
  One lost image makes wrong evidence.  Two frames of one camera are let into the encoder, each with a detection;
  the encoder loses the first; the image of the second frame comes out, and the first detection is accepted.
  Then the snapshot queued for the event of the first detection is the image of the second frame.
\<close>

theorem lost_image_misfiled:
  assumes "mk_rendezvous max_retained ttl = Inr r0" and "1 < max_retained" and "\<not> fl_le (fl_add t ttl) t"
    and "found (\<lambda>_. m1) (Some [fm1]) = [d1]" and "found (\<lambda>_. m2) (Some [fm2]) = [d2]" and "m1 \<noteq> m2"
    and "fm_source_id fm1 = s" and "fm_source_id fm2 = s" and "fm_frame_num fm1 \<noteq> fm_frame_num fm2"
    and "ack_for ack m1" and "ack_requests ack e" and "fst (read_one_frame loads evs) = AckMessage ack"
    and "tw_sender w \<noteq> NoSender" and "\<not> tw_reader_dead w" and "tw_sock w \<noteq> None"
    and "int (length (tw_snapshot_queue w)) < tw_snapshot_capacity w"
    and "b = bridge_run (\<lambda>_. t) dumps loads
      [BufferProbe (\<lambda>_. m1) (Some [fm1]), ValveProbe s (Some [fm1]), BufferProbe (\<lambda>_. m2) (Some [fm2]), ValveProbe s (Some [fm2]),
       NewSample s (SampleBytes (picture s (fm_frame_num fm2))), FrameRead evs] (new_bridge (Some r0) w)"
  shows "tw_snapshot_queue (br_transport b) = tw_snapshot_queue w @ [(e, picture s (fm_frame_num fm2))]"
proof -
  let ?f1 = "fm_frame_num fm1" and ?f2 = "fm_frame_num fm2"
  have r0: "r0 = holding max_retained ttl [] []"
    using assms(1) by (auto simp: mk_rendezvous_def holding_def split: if_split_asm)
  note steps = rendezvous_two_frames [OF assms(2,3,6,9), where s = s, folded r0]
  have d: "rd_source_id d1 = s" "rd_message_id d1 = m1" "rd_frame_number d1 = ?f1"
    "rd_source_id d2 = s" "rd_message_id d2 = m2" "rd_frame_number d2 = ?f2"
    using assms(4,5,7,8)
    by (cases "fm_objects fm1"; cases "fm_objects fm2"; force simp: found_def extract_detections_def extract_object_def)+
  have probe: "on_buffer_probe (\<lambda>_. t) fresh (Some [fm]) x
      = send_payload (to_wire_message d) (on_candidate (\<lambda>_. t) (rd_source_id d) (rd_message_id d) (rd_frame_number d) x)"
    if "found fresh (Some [fm]) = [d]" "br_rendezvous x \<noteq> None" for fresh fm d x
    using that by (auto simp: on_buffer_probe_def handle_buffer_def found_def)
  obtain evs' where read: "reader_turn loads evs w' = ((AckMessage ack, evs'), w')"
    if "tw_sender w' \<noteq> NoSender" "\<not> tw_reader_dead w'" "tw_sock w' \<noteq> None" for w'
    using assms(12) by (cases "read_one_frame loads evs") (auto simp: reader_turn_def)
  define w' where "w' = enqueue_payload (to_wire_message d2) (enqueue_payload (to_wire_message d1) w)"
  have w': "tw_sender w' \<noteq> NoSender" "\<not> tw_reader_dead w'" "tw_sock w' \<noteq> None" "tw_snapshot_queue w' = tw_snapshot_queue w"
    "int (length (tw_snapshot_queue w')) < tw_snapshot_capacity w'"
    using assms(13-16) by (simp_all add: w'_def enqueue_payload_def)
  obtain p v n r5 where b5: "bridge_run (\<lambda>_. t) dumps loads
      [BufferProbe (\<lambda>_. m1) (Some [fm1]), ValveProbe s (Some [fm1]), BufferProbe (\<lambda>_. m2) (Some [fm2]), ValveProbe s (Some [fm2]),
       NewSample s (SampleBytes (picture s ?f2))] (new_bridge (Some r0) w)
      = \<lparr>br_rendezvous = Some r5, br_pending = p, br_valve_open = v, br_transport = w', br_reads = n\<rparr>"
    and r5: "\<exists>r6. acknowledgement_received t ack r5 = (Inr (Some (e, picture s ?f2)), r6)"
    using steps(6) [OF assms(10,11)]
    by (simp add: new_bridge_def probe [OF assms(4)] probe [OF assms(5)] d on_candidate_def send_payload_def steps(1-5)
        on_snapshot_valve_probe_def frame_number_from_buffer_def on_snapshot_new_sample_def send_snapshot_def w'_def)
  from r5 obtain r6 where "acknowledgement_received t ack r5 = (Inr (Some (e, picture s ?f2)), r6)" ..
  then have "tw_snapshot_queue (br_transport (on_frame_read (\<lambda>_. t) loads evs
      \<lparr>br_rendezvous = Some r5, br_pending = p, br_valve_open = v, br_transport = w', br_reads = n\<rparr>))
      = tw_snapshot_queue w @ [(e, picture s ?f2)]"
    using w' by (simp add: on_frame_read_def read on_acknowledgement_def enqueue_snapshot_def)
  moreover have "b = on_frame_read (\<lambda>_. t) loads evs
      \<lparr>br_rendezvous = Some r5, br_pending = p, br_valve_open = v, br_transport = w', br_reads = n\<rparr>"
    unfolding assms(17) b5 [symmetric] by (simp add: bridge_run_def)
  ultimately show ?thesis by simp
qed

theorem lost_image_misfiled_witness:
  "tw_snapshot_queue (br_transport (bridge_run (\<lambda>_. Fin 0) demo_dumps demo_bridge_loads
     [BufferProbe (\<lambda>_. ''m'') (Some [demo_frame 7]), ValveProbe 0 (Some [demo_frame 7]),
      BufferProbe (\<lambda>_. ''n'') (Some [demo_frame 8]), ValveProbe 0 (Some [demo_frame 8]),
      NewSample 0 (SampleBytes [of_int 8]), FrameRead [RecvData [3, 0, 0, 0, 1, 51]]] (new_bridge (Some demo_rendezvous) demo_w1)))
   = [(''a'', [of_int 8])]"
proof -
  have f: "found (\<lambda>_. m) (Some [demo_frame n]) = [extract_object (demo_frame n) m (hd (fm_objects (demo_frame 0)))]" for m n
    by (simp add: found_def extract_detections_def demo_frame_def extract_object_def)
  have t: "\<not> fl_le (fl_add (Fin 0) (Fin 3)) (Fin 0)" by code_simp
  have ack: "ack_for (demo_ack ''m'' ''a'') ''m''" "ack_requests (demo_ack ''m'' ''a'') ''a''"
    by (auto simp: demo_ack_def ack_for_def ack_requests_def jget_none_def)
  have frame: "fm_source_id (demo_frame n) = 0" "fm_frame_num (demo_frame n) = n" for n by (simp_all add: demo_frame_def)
  have read: "fst (read_one_frame demo_bridge_loads [RecvData [3, 0, 0, 0, 1, 51]]) = AckMessage (demo_ack ''m'' ''a'')"
    by (simp add: demo_ack_read)
  show ?thesis
    by (rule lost_image_misfiled [OF demo_mk_rendezvous _ t f f _ frame(1) frame(1) _ ack read _ _ _ _ refl,
          where picture = "\<lambda>_ n. [of_int n]" and w = demo_w1, unfolded demo_w1_simps frame append_Nil])
      (simp_all add: frame demo_w1_simps)
qed

end
