(* ===== verification/BridgeGraph.thy ===== *)
theory BridgeGraph
  imports BridgeConfigContract BridgePipeline
begin

text \<open>
  \<^verbatim>\<open>deepstream_bridge/pipeline.py\<close>, the construction and the life of the pipeline, and \<^verbatim>\<open>main.py\<close> around them.
  GStreamer is a library: what the code asks of it is recorded as a list of calls, and its answer to a call
  may depend on all the calls before.  An element is known by its name.  The theorems follow the links the code
  makes: every camera has a branch of its own from the demultiplexer to its mount, and the callbacks of a
  branch carry the index of its camera.
\<close>

section \<open>The library\<close>

datatype property_value = PInt int | PBool bool | PText string | PCaps string

datatype handler =
    OnSourcePadAdded string nat
  | OnBufferProbe
  | OnSnapshotValveProbe string int
  | OnSnapshotNewSample int
  | OnBusMessage
  | OnShutdownSignal

text \<open>
  \<open>AddFactory m l\<close> puts a new shared media factory with launch line \<open>l\<close> on the mount \<open>m\<close>; a pad is given by its
  element and its name.
\<close>

datatype gst_call =
    ImportGst | ImportPyds | ImportRtspServer | GstInit
  | NewPipeline string
  | Make string string
  | SetProperty string string property_value
  | Add string
  | Link string string
  | Connect string string handler
  | RequestPad string string
  | StaticPad string string
  | LinkPads "string \<times> string" "string \<times> string"
  | AddProbe string string handler
  | NewRtspServer | SetService string | GetMountPoints | AddFactory string string | RemoveFactory string | AttachServer
  | NewMainLoop | AddSignalWatch | AddUnixSignal int | SetPlaying | SetNull

text \<open>\<open>Refused\<close> is \<^verbatim>\<open>None\<close>, \<^verbatim>\<open>False\<close>, a failed link or a failed import.\<close>

datatype reply = Accepted | Refused | Raised exn

type_synonym library = "gst_call list \<Rightarrow> gst_call \<Rightarrow> reply"

text \<open>\<^verbatim>\<open>errors.py\<close>; \<open>LibraryError\<close> is what the library itself raises.\<close>

datatype pipeline_error =
    MissingGStreamerBindingsError | MissingPydsError | MissingGstRtspServerBindingsError
  | PipelineElementCreationError | PipelineLinkError | PipelineBusError | PipelineValueError
  | LibraryError exn

record gst_pipeline =
  gp_calls :: "gst_call list"
  gp_pipeline :: bool
  gp_rtsp_server :: bool
  gp_bus_error :: bool
  gp_mount_points_added :: "string list"

text \<open>
  One step of a method: a call whose answer is not looked at, a call that raises when it is refused, or an
  assignment to an attribute.
\<close>

datatype step =
    Do gst_call
  | Check gst_call pipeline_error
  | KeepPipeline
  | KeepServer
  | AppendMount string

definition call :: "library \<Rightarrow> gst_call \<Rightarrow> gst_pipeline \<Rightarrow> reply \<times> gst_pipeline" where
  "call lib c p = (lib (gp_calls p) c, p\<lparr>gp_calls := gp_calls p @ [c]\<rparr>)"

fun do_step :: "library \<Rightarrow> step \<Rightarrow> gst_pipeline \<Rightarrow> (pipeline_error + unit) \<times> gst_pipeline" where
  "do_step lib (Do c) p =
     (case call lib c p of (Raised e, p) \<Rightarrow> (Inl (LibraryError e), p) | (_, p) \<Rightarrow> (Inr (), p))"
| "do_step lib (Check c e) p =
     (case call lib c p of
        (Raised x, p) \<Rightarrow> (Inl (LibraryError x), p) | (Refused, p) \<Rightarrow> (Inl e, p) | (Accepted, p) \<Rightarrow> (Inr (), p))"
| "do_step lib KeepPipeline p = (Inr (), p\<lparr>gp_pipeline := True\<rparr>)"
| "do_step lib KeepServer p = (Inr (), p\<lparr>gp_rtsp_server := True\<rparr>)"
| "do_step lib (AppendMount m) p = (Inr (), p\<lparr>gp_mount_points_added := gp_mount_points_added p @ [m]\<rparr>)"

primrec perform :: "library \<Rightarrow> step list \<Rightarrow> gst_pipeline \<Rightarrow> (pipeline_error + unit) \<times> gst_pipeline" where
  "perform lib [] p = (Inr (), p)"
| "perform lib (s # ss) p = (case do_step lib s p of (Inl e, p) \<Rightarrow> (Inl e, p) | (Inr _, p) \<Rightarrow> perform lib ss p)"

section \<open>The elements\<close>

definition make_element :: "string \<Rightarrow> string \<Rightarrow> step" where
  "make_element factory_name element_name = Check (Make factory_name element_name) PipelineElementCreationError"

text \<open>\<^verbatim>\<open>for upstream, downstream in zip(chain, chain[1:])\<close>.\<close>

fun link_chain :: "string list \<Rightarrow> step list" where
  "link_chain (upstream # downstream # rest) =
     Check (Link upstream downstream) PipelineLinkError # link_chain (downstream # rest)"
| "link_chain _ = []"

definition source_bin :: "nat \<Rightarrow> string" where "source_bin i = ''uri-source-bin-'' @ nat_text i"

definition create_source_element :: "source_config \<Rightarrow> step list" where
  "create_source_element src =
     (let n = source_bin (sc_source_index src) in
      [make_element ''nvurisrcbin'' n,
       Do (SetProperty n ''uri'' (PText (sc_uri src))),
       Do (SetProperty n ''gpu-id'' (PInt (sc_gpu_id src))),
       Do (SetProperty n ''latency'' (PInt (sc_latency_ms src))),
       Do (SetProperty n ''select-rtp-protocol'' (PInt (sc_select_rtp_protocol src))),
       Do (SetProperty n ''rtsp-reconnect-interval'' (PInt (sc_rtsp_reconnect_interval_sec src))),
       Do (SetProperty n ''drop-frame-interval'' (PInt (sc_drop_frame_interval src))),
       Do (SetProperty n ''num-extra-surfaces'' (PInt (sc_num_extra_surfaces src))),
       Do (SetProperty n ''cudadec-memtype'' (PInt (sc_cudadec_memtype src))),
       Do (SetProperty n ''file-loop'' (PBool (sc_file_loop src)))])"

definition configure_streammux :: "streammux_config \<Rightarrow> string \<Rightarrow> step list" where
  "configure_streammux cfg n =
     [Do (SetProperty n ''batch-size'' (PInt (mx_batch_size cfg))),
      Do (SetProperty n ''batched-push-timeout'' (PInt (mx_batched_push_timeout cfg))),
      Do (SetProperty n ''width'' (PInt (mx_width cfg))),
      Do (SetProperty n ''height'' (PInt (mx_height cfg))),
      Do (SetProperty n ''live-source'' (PBool (mx_live_source cfg))),
      Do (SetProperty n ''enable-padding'' (PBool (mx_enable_padding cfg))),
      Do (SetProperty n ''nvbuf-memory-type'' (PInt (mx_nvbuf_memory_type cfg))),
      Do (SetProperty n ''gpu-id'' (PInt (mx_gpu_id cfg)))]"

definition configure_pgie :: "infer_config \<Rightarrow> string \<Rightarrow> step list" where
  "configure_pgie cfg n =
     [Do (SetProperty n ''config-file-path'' (PText (if_config_file cfg))),
      Do (SetProperty n ''gpu-id'' (PInt (if_gpu_id cfg))),
      Do (SetProperty n ''unique-id'' (PInt (if_gie_unique_id cfg)))]"

definition configure_tracker :: "tracker_config \<Rightarrow> string \<Rightarrow> step list" where
  "configure_tracker cfg n =
     [Do (SetProperty n ''tracker-width'' (PInt (tr_tracker_width cfg))),
      Do (SetProperty n ''tracker-height'' (PInt (tr_tracker_height cfg))),
      Do (SetProperty n ''ll-lib-file'' (PText (tr_ll_lib_file cfg))),
      Do (SetProperty n ''ll-config-file'' (PText (tr_ll_config_file cfg))),
      Do (SetProperty n ''gpu-id'' (PInt (tr_gpu_id cfg))),
      Do (SetProperty n ''enable-batch-process'' (PBool (tr_enable_batch_process cfg))),
      Do (SetProperty n ''display-tracking-id'' (PBool (tr_display_tracking_id cfg)))]"

definition configure_osd :: "osd_config \<Rightarrow> string \<Rightarrow> step list" where
  "configure_osd cfg n =
     [Do (SetProperty n ''gpu-id'' (PInt (od_gpu_id cfg))),
      Do (SetProperty n ''process-mode'' (PInt (od_process_mode cfg))),
      Do (SetProperty n ''display-bbox'' (PBool (od_display_bbox cfg))),
      Do (SetProperty n ''display-text'' (PBool (od_display_text cfg))),
      Do (SetProperty n ''display-mask'' (PBool (od_display_mask cfg)))]"

definition attach_probe :: "string \<Rightarrow> step list" where
  "attach_probe n = [Check (StaticPad n ''sink'') PipelineLinkError, Do (AddProbe n ''sink'' OnBufferProbe)]"

definition attach_fakesink :: "string \<Rightarrow> step list" where
  "attach_fakesink tail_element =
     [make_element ''fakesink'' ''fake-sink'', Do (SetProperty ''fake-sink'' ''sync'' (PBool False)), Do (Add ''fake-sink''),
      Check (Link tail_element ''fake-sink'') PipelineLinkError]"

section \<open>The snapshot branch\<close>

definition QUEUE_LEAK_DOWNSTREAM :: int where "QUEUE_LEAK_DOWNSTREAM = 2"

definition SNAPSHOT_QUEUE_MAX_SIZE_BUFFERS :: int where "SNAPSHOT_QUEUE_MAX_SIZE_BUFFERS = 4"

definition suffixed :: "string \<Rightarrow> int \<Rightarrow> string" where "suffixed base i = base @ ''-'' @ int_text i"

definition attach_snapshot_branch :: "string \<Rightarrow> snapshot_config \<Rightarrow> int \<Rightarrow> step list" where
  "attach_snapshot_branch tee cfg source_index =
     (let queue = suffixed ''snapshot-queue'' source_index;
          valve = suffixed ''snapshot-valve'' source_index;
          preconv = suffixed ''snapshot-preconv'' source_index;
          capsfilter = suffixed ''snapshot-caps'' source_index;
          jpegenc = suffixed ''snapshot-jpeg-encoder'' source_index;
          appsink = suffixed ''snapshot-appsink'' source_index
      in [make_element ''queue'' queue,
          Do (SetProperty queue ''leaky'' (PInt QUEUE_LEAK_DOWNSTREAM)),
          Do (SetProperty queue ''max-size-buffers'' (PInt SNAPSHOT_QUEUE_MAX_SIZE_BUFFERS)),
          Do (SetProperty queue ''max-size-bytes'' (PInt 0)),
          Do (SetProperty queue ''max-size-time'' (PInt 0)),
          make_element ''valve'' valve,
          Do (SetProperty valve ''drop'' (PBool True)),
          make_element ''nvvideoconvert'' preconv,
          make_element ''capsfilter'' capsfilter,
          Do (SetProperty capsfilter ''caps'' (PCaps ''video/x-raw(memory:NVMM), format=NV12'')),
          make_element ''nvjpegenc'' jpegenc,
          Do (SetProperty jpegenc ''quality'' (PInt (sn_jpeg_quality cfg))),
          make_element ''appsink'' appsink,
          Do (SetProperty appsink ''emit-signals'' (PBool True)),
          Do (SetProperty appsink ''max-buffers'' (PInt 1)),
          Do (SetProperty appsink ''drop'' (PBool True)),
          Do (SetProperty appsink ''sync'' (PBool False)),
          Do (SetProperty appsink ''async'' (PBool False)),
          Do (Connect appsink ''new-sample'' (OnSnapshotNewSample source_index))]
         @ map (\<lambda>n. Do (Add n)) [queue, valve, preconv, capsfilter, jpegenc, appsink]
         @ link_chain [tee, queue, valve, preconv, capsfilter, jpegenc, appsink]
         @ [Check (StaticPad queue ''src'') PipelineLinkError,
            Do (AddProbe queue ''src'' (OnSnapshotValveProbe valve source_index))])"

section \<open>The outputs\<close>

definition media_launch :: "int \<Rightarrow> string \<Rightarrow> string" where
  "media_launch udp_port codec =
     ''( udpsrc name=pay0 port='' @ int_text udp_port @ '' buffer-size=524288 caps='' @ [CHR 0x22]
     @ ''application/x-rtp, media=video, clock-rate=90000, encoding-name='' @ codec @ '', payload=96'' @ [CHR 0x22] @ '' )''"

definition attach_rtsp_out :: "string \<Rightarrow> rtsp_out_config \<Rightarrow> step list" where
  "attach_rtsp_out nvosd cfg =
     [Check ImportRtspServer MissingGstRtspServerBindingsError,
      make_element ''nvvideoconvert'' ''convertor-postosd'',
      make_element ''nvv4l2h264enc'' ''encoder'',
      Do (SetProperty ''encoder'' ''bitrate'' (PInt (ro_bitrate cfg))),
      Do (SetProperty ''encoder'' ''idrinterval'' (PInt (ro_idr_interval cfg))),
      Do (SetProperty ''encoder'' ''iframeinterval'' (PInt (ro_iframe_interval cfg))),
      Do (SetProperty ''encoder'' ''insert-sps-pps'' (PBool (ro_insert_sps_pps cfg))),
      make_element ''h264parse'' ''h264-parse'',
      Do (SetProperty ''h264-parse'' ''config-interval'' (PInt (ro_h264parse_config_interval cfg))),
      make_element ''rtph264pay'' ''rtp-payloader'',
      Do (SetProperty ''rtp-payloader'' ''config-interval'' (PInt (ro_rtph264pay_config_interval cfg))),
      make_element ''udpsink'' ''udp-sink'',
      Do (SetProperty ''udp-sink'' ''host'' (PText (ro_multicast_group cfg))),
      Do (SetProperty ''udp-sink'' ''port'' (PInt (ro_udp_port cfg))),
      Do (SetProperty ''udp-sink'' ''async'' (PBool False)),
      Do (SetProperty ''udp-sink'' ''sync'' (PBool True))]
     @ map (\<lambda>n. Do (Add n)) [''convertor-postosd'', ''encoder'', ''h264-parse'', ''rtp-payloader'', ''udp-sink'']
     @ link_chain [nvosd, ''convertor-postosd'', ''encoder'', ''h264-parse'', ''rtp-payloader'', ''udp-sink'']
     @ [Do NewRtspServer, Do (SetService (int_text (ro_port cfg))), Do GetMountPoints,
        Do (AddFactory (ro_mount_point cfg) (media_launch (ro_udp_port cfg) (ro_codec cfg))),
        Do AttachServer, KeepServer]"

definition mount_point_of :: "source_config \<Rightarrow> string" where
  "mount_point_of src = CHR ''/'' # strip_by (\<lambda>c. c = CHR ''/'') (sc_output_path src)"

definition attach_one_camera_output :: "bridge_config \<Rightarrow> string \<Rightarrow> source_config \<Rightarrow> int \<Rightarrow> step list" where
  "attach_one_camera_output cfg demux src udp_port =
     (let i = int (sc_source_index src); out = bc_rtsp_out cfg; capture = sn_enabled (bc_snapshot cfg);
          queue = suffixed ''out-queue'' i; preconv = suffixed ''out-preconv'' i; osd = suffixed ''out-osd'' i;
          postconv = suffixed ''out-postconv'' i; capsfilter = suffixed ''out-caps'' i;
          encoder = suffixed ''out-encoder'' i; h264parse = suffixed ''out-h264parse'' i;
          rtppay = suffixed ''out-rtppay'' i; udpsink = suffixed ''out-udpsink'' i;
          tee = suffixed ''snapshot-tee'' i; src_pad = ''src_'' @ nat_text (sc_source_index src);
          branch = [queue, preconv, osd] @ (if capture then [tee] else [])
            @ [postconv, capsfilter, encoder, h264parse, rtppay, udpsink]
      in [make_element ''queue'' queue, make_element ''nvvideoconvert'' preconv, make_element ''nvdsosd'' osd, make_element ''nvvideoconvert'' postconv,
          make_element ''capsfilter'' capsfilter, make_element ''nvv4l2h264enc'' encoder, make_element ''h264parse'' h264parse,
          make_element ''rtph264pay'' rtppay, make_element ''udpsink'' udpsink]
         @ configure_osd (bc_osd cfg) osd
         @ [Do (SetProperty capsfilter ''caps'' (PCaps ''video/x-raw(memory:NVMM), format=I420'')),
            Do (SetProperty encoder ''bitrate'' (PInt (ro_bitrate out))),
            Do (SetProperty encoder ''idrinterval'' (PInt (ro_idr_interval out))),
            Do (SetProperty encoder ''iframeinterval'' (PInt (ro_iframe_interval out))),
            Do (SetProperty encoder ''insert-sps-pps'' (PBool (ro_insert_sps_pps out))),
            Do (SetProperty h264parse ''config-interval'' (PInt (ro_h264parse_config_interval out))),
            Do (SetProperty rtppay ''config-interval'' (PInt (ro_rtph264pay_config_interval out))),
            Do (SetProperty udpsink ''host'' (PText (ro_multicast_group out))),
            Do (SetProperty udpsink ''port'' (PInt udp_port)),
            Do (SetProperty udpsink ''async'' (PBool False)),
            Do (SetProperty udpsink ''sync'' (PBool True))]
         @ (if capture then [make_element ''tee'' tee] else [])
         @ map (\<lambda>n. Do (Add n)) branch
         @ link_chain branch
         @ (if capture then attach_snapshot_branch tee (bc_snapshot cfg) i else [])
         @ [Check (RequestPad demux src_pad) PipelineLinkError,
            Do (StaticPad queue ''sink''),
            Check (LinkPads (demux, src_pad) (queue, ''sink'')) PipelineLinkError,
            Do (AddFactory (mount_point_of src) (media_launch udp_port (ro_codec out))),
            AppendMount (mount_point_of src)])"

fun attach_cameras :: "bridge_config \<Rightarrow> string \<Rightarrow> nat \<Rightarrow> source_config list \<Rightarrow> step list" where
  "attach_cameras cfg demux offset [] = []"
| "attach_cameras cfg demux offset (src # srcs) =
     attach_one_camera_output cfg demux src (ro_udp_port (bc_rtsp_out cfg) + int offset * 2)
     @ attach_cameras cfg demux (Suc offset) srcs"

definition attach_per_camera_outputs :: "bridge_config \<Rightarrow> string \<Rightarrow> source_config list \<Rightarrow> step list" where
  "attach_per_camera_outputs cfg batched_source sources =
     [Check ImportRtspServer MissingGstRtspServerBindingsError,
      make_element ''nvstreamdemux'' ''stream-demuxer'', Do (Add ''stream-demuxer''),
      Check (Link batched_source ''stream-demuxer'') PipelineLinkError]
     @ attach_probe ''stream-demuxer''
     @ [Do NewRtspServer, Do (SetService (int_text (ro_port (bc_rtsp_out cfg)))), Do GetMountPoints]
     @ attach_cameras cfg ''stream-demuxer'' 0 sources
     @ [Do AttachServer, KeepServer]"

section \<open>The pipeline\<close>

definition construct :: "library \<Rightarrow> bool \<Rightarrow> bridge_config \<Rightarrow> (pipeline_error + unit) \<times> gst_pipeline" where
  "construct lib snapshots_wired cfg =
     (let p = \<lparr>gp_calls = [], gp_pipeline = False, gp_rtsp_server = False, gp_bus_error = False, gp_mount_points_added = []\<rparr>
      in if sn_enabled (bc_snapshot cfg) \<and> \<not> snapshots_wired then (Inl PipelineValueError, p)
         else perform lib [Check ImportGst MissingGStreamerBindingsError, Check ImportPyds MissingPydsError, Do GstInit] p)"

definition per_camera_sources :: "bridge_config \<Rightarrow> source_config list" where
  "per_camera_sources cfg = filter (\<lambda>s. sc_output_path s \<noteq> []) (bc_sources cfg)"

definition dynamic_outputs :: "bridge_config \<Rightarrow> bool" where
  "dynamic_outputs cfg \<longleftrightarrow> ro_enabled (bc_rtsp_out cfg) \<and> per_camera_sources cfg \<noteq> []"

definition trunk :: "bridge_config \<Rightarrow> string list" where
  "trunk cfg =
     [''stream-muxer'', ''primary-inference''] @ (case bc_tracker cfg of None \<Rightarrow> [] | Some _ \<Rightarrow> [''tracker''])
     @ [''convertor''] @ (if dynamic_outputs cfg then [] else [''onscreendisplay''])"

definition build_steps :: "bridge_config \<Rightarrow> step list" where
  "build_steps cfg =
     (let dynamic = dynamic_outputs cfg; tapped = sn_enabled (bc_snapshot cfg) \<and> \<not> dynamic;
          tail_element = last (trunk cfg)
      in [Do (NewPipeline ''deepstream-bridge-pipeline''), KeepPipeline]
         @ concat (map create_source_element (bc_sources cfg))
         @ [make_element ''nvstreammux'' ''stream-muxer'', make_element ''nvinfer'' ''primary-inference'']
         @ (case bc_tracker cfg of None \<Rightarrow> [] | Some _ \<Rightarrow> [make_element ''nvtracker'' ''tracker''])
         @ [make_element ''nvvideoconvert'' ''convertor'']
         @ (if dynamic then [] else [make_element ''nvdsosd'' ''onscreendisplay''])
         @ map (\<lambda>n. Do (Add n)) (map (\<lambda>s. source_bin (sc_source_index s)) (bc_sources cfg) @ trunk cfg)
         @ configure_streammux (bc_streammux cfg) ''stream-muxer''
         @ configure_pgie (bc_infer cfg) ''primary-inference''
         @ (case bc_tracker cfg of None \<Rightarrow> [] | Some t \<Rightarrow> configure_tracker t ''tracker'')
         @ (if dynamic then [] else configure_osd (bc_osd cfg) ''onscreendisplay'')
         @ map (\<lambda>s. Do (Connect (source_bin (sc_source_index s)) ''pad-added''
                          (OnSourcePadAdded ''stream-muxer'' (sc_source_index s)))) (bc_sources cfg)
         @ link_chain (trunk cfg)
         @ (if tapped
            then [make_element ''tee'' ''osd-tee'', Do (Add ''osd-tee''), Check (Link tail_element ''osd-tee'') PipelineLinkError]
                 @ attach_snapshot_branch ''osd-tee'' (bc_snapshot cfg) SHARED_OUTPUT_SOURCE_INDEX
            else [])
         @ (let branch_source = (if tapped then ''osd-tee'' else tail_element)
            in if dynamic then attach_per_camera_outputs cfg branch_source (per_camera_sources cfg)
               else attach_probe ''onscreendisplay''
                    @ (if ro_enabled (bc_rtsp_out cfg) then attach_rtsp_out branch_source (bc_rtsp_out cfg)
                       else attach_fakesink branch_source)))"

definition build :: "library \<Rightarrow> bridge_config \<Rightarrow> gst_pipeline \<Rightarrow> (pipeline_error + unit) \<times> gst_pipeline" where
  "build lib cfg p = perform lib (build_steps cfg) p"

text \<open>
  A source element announces a pad with the caps of its stream: its callback asks the muxer for the pad of its own
  index.  Nothing is raised; a refused link is logged.
\<close>

definition on_source_pad_added :: "library \<Rightarrow> string \<Rightarrow> string \<Rightarrow> string \<Rightarrow> string \<Rightarrow> nat \<Rightarrow> gst_pipeline \<Rightarrow> gst_pipeline" where
  "on_source_pad_added lib element pad caps_name streammux sink_pad_index p =
     (if \<not> starts_with ''video/'' caps_name then p
      else let sink_pad = ''sink_'' @ nat_text sink_pad_index
           in case call lib (RequestPad streammux sink_pad) p of
                (Accepted, p) \<Rightarrow> snd (call lib (LinkPads (element, pad) (streammux, sink_pad)) p)
              | (_, p) \<Rightarrow> p)"

definition announce :: "library \<Rightarrow> string \<times> string \<times> string \<Rightarrow> gst_pipeline \<Rightarrow> gst_pipeline" where
  "announce lib ev p =
     (case ev of (element, pad, caps_name) \<Rightarrow>
        fold (\<lambda>c p. case c of
                Connect n ''pad-added'' (OnSourcePadAdded mux i) \<Rightarrow>
                  if n = element then on_source_pad_added lib element pad caps_name mux i p else p
              | _ \<Rightarrow> p) (gp_calls p) p)"

section \<open>Running and shutting down\<close>

text \<open>What the main loop dispatches; \<open>Nothing\<close> is returned by a loop that still runs.\<close>

datatype loop_event = Eos | ErrorMessage string | OtherMessage | ShutdownSignal

fun main_loop :: "loop_event list \<Rightarrow> gst_pipeline \<Rightarrow> gst_pipeline option" where
  "main_loop [] p = None"
| "main_loop (OtherMessage # evs) p = main_loop evs p"
| "main_loop (ErrorMessage _ # evs) p = Some (p\<lparr>gp_bus_error := True\<rparr>)"
| "main_loop (Eos # evs) p = Some p"
| "main_loop (ShutdownSignal # evs) p = Some p"

definition run_pipeline :: "library \<Rightarrow> int list \<Rightarrow> loop_event list \<Rightarrow> gst_pipeline \<Rightarrow> (pipeline_error + unit) option \<times> gst_pipeline" where
  "run_pipeline lib signals evs p =
     (case perform lib ([Do NewMainLoop, Do AddSignalWatch, Do (Connect ''bus'' ''message'' OnBusMessage)]
             @ map (\<lambda>s. Do (AddUnixSignal s)) signals @ [Do SetPlaying]) p of
        (Inl e, p) \<Rightarrow> (Some (Inl e), p)
      | (Inr _, p) \<Rightarrow>
          (case main_loop evs p of
             None \<Rightarrow> (None, p)
           | Some p \<Rightarrow>
               (case perform lib [Do SetNull] p of
                  (Inl e, p) \<Rightarrow> (Some (Inl e), p)
                | (Inr _, p) \<Rightarrow>
                    if gp_bus_error p then (Some (Inl PipelineBusError), p\<lparr>gp_bus_error := False\<rparr>)
                    else (Some (Inr ()), p))))"

text \<open>
  \<^verbatim>\<open>shutdown\<close> on the elements; \<open>shutdown_pipeline\<close> is what it does with the state of the callbacks when this
  returns.  Whatever the removal of a mount raises is swallowed.
\<close>

definition shutdown_graph :: "library \<Rightarrow> gst_pipeline \<Rightarrow> (pipeline_error + unit) \<times> gst_pipeline" where
  "shutdown_graph lib p =
     (case (if gp_pipeline p then perform lib [Do SetNull] p else (Inr (), p)) of
        (Inl e, p) \<Rightarrow> (Inl e, p)
      | (Inr _, p) \<Rightarrow>
          let p = (if gp_rtsp_server p \<and> gp_mount_points_added p \<noteq> []
                   then snd (perform lib (Do GetMountPoints # map (\<lambda>m. Do (RemoveFactory m)) (gp_mount_points_added p)) p)
                   else p)
          in (Inr (), p\<lparr>gp_pipeline := False, gp_mount_points_added := [], gp_rtsp_server := False\<rparr>))"

section \<open>What a completed method has done\<close>

fun calls_in :: "step \<Rightarrow> gst_call list" where
  "calls_in (Do c) = [c]"
| "calls_in (Check c _) = [c]"
| "calls_in _ = []"

definition calls_of :: "step list \<Rightarrow> gst_call list" where "calls_of steps = concat (map calls_in steps)"

lemma calls_of_simps [simp]:
  "calls_of [] = []" "calls_of (s # ss) = calls_in s @ calls_of ss" "calls_of (xs @ ys) = calls_of xs @ calls_of ys"
  by (simp_all add: calls_of_def)

lemma calls_of_concat [simp]: "calls_of (concat xss) = concat (map calls_of xss)"
  by (induction xss) simp_all

lemma calls_of_map [simp]: "calls_of (map (\<lambda>x. Do (f x)) zs) = map f zs"
  by (induction zs) simp_all

lemma calls_in_make_element [simp]: "calls_in (make_element f n) = [Make f n]"
  by (simp add: make_element_def)

lemma do_step_calls: "do_step lib s p = (Inr u, q) \<Longrightarrow> gp_calls q = gp_calls p @ calls_in s"
  by (cases s) (auto simp: call_def split: reply.splits)

lemma perform_calls: "perform lib ss p = (Inr u, q) \<Longrightarrow> gp_calls q = gp_calls p @ calls_of ss"
  by (induction ss arbitrary: p) (auto dest!: do_step_calls split: prod.splits sum.splits)

lemma perform_accepted: "perform (\<lambda>_ _. Accepted) ss p = (Inr (), snd (perform (\<lambda>_ _. Accepted) ss p))"
proof (induction ss arbitrary: p)
  case (Cons s ss)
  then show ?case by (cases s) (simp_all add: call_def)
qed simp

section \<open>Following the links\<close>

definition flows :: "gst_call list \<Rightarrow> (string \<times> string) set" where
  "flows calls = {(a, b). Link a b \<in> set calls \<or> (\<exists>pa pb. LinkPads (a, pa) (b, pb) \<in> set calls)}"

text \<open>\<open>reaches calls a b\<close>: what leaves the element \<open>a\<close> can get to \<open>b\<close>.\<close>

definition reaches :: "gst_call list \<Rightarrow> string \<Rightarrow> string \<Rightarrow> bool" where
  "reaches calls a b \<longleftrightarrow> (a, b) \<in> (flows calls)\<^sup>*"

lemma link_chain_reaches:
  "set (calls_of (link_chain (a # xs))) \<subseteq> set calls \<Longrightarrow> x \<in> set xs \<Longrightarrow> reaches calls a x"
proof (induction xs arbitrary: a)
  case (Cons b xs)
  have e: "(a, b) \<in> flows calls" using Cons.prems(1) by (simp add: flows_def)
  show ?case
  proof (cases "x = b")
    case False
    then have "reaches calls b x" using Cons.IH [of b] Cons.prems by simp
    then show ?thesis using e by (auto simp: reaches_def intro: converse_rtrancl_into_rtrancl)
  qed (use e in \<open>auto simp: reaches_def\<close>)
qed simp

lemma reaches_trans: "reaches calls a b \<Longrightarrow> reaches calls b c \<Longrightarrow> reaches calls a c"
  by (simp add: reaches_def)

text \<open>The camera of an element of an output or snapshot branch is the text after the last hyphen of its name.\<close>

definition branch_of :: "string \<Rightarrow> string option" where
  "branch_of n =
     (if starts_with ''out-'' n \<or> starts_with ''snapshot-'' n
      then Some (rev (takeWhile (\<lambda>c. c \<noteq> CHR ''-'') (rev n))) else None)"

lemma nat_text_inj [simp]: "nat_text i = nat_text j \<longleftrightarrow> i = j"
proof
  assume "nat_text i = nat_text j"
  then have "decimal_digits (nat_text i) 0 = decimal_digits (nat_text j) 0" by simp
  then show "i = j" by (simp add: decimal_digits_nat_text)
qed simp

lemma nat_text_no_hyphen: "c \<in> set (nat_text i) \<Longrightarrow> c \<noteq> CHR ''-''"
proof
  assume "c \<in> set (nat_text i)" "c = CHR ''-''"
  then have "is_digit (CHR ''-'')" using nat_text_digits(1) [of i] unfolding list_all_iff by blast
  then show False by (simp add: is_digit_def)
qed

lemma int_text_nat [simp]: "int_text (int i) = nat_text i"
  by (simp add: int_text_def)

lemma int_text_eq_nat: "nat_text i = int_text k \<longleftrightarrow> k = int i"
proof (cases "k < 0")
  case True
  then have "CHR ''-'' \<in> set (int_text k)" by (simp add: int_text_def)
  then show ?thesis using nat_text_no_hyphen [of "CHR ''-''" i] True by fastforce
next
  case False
  then show ?thesis by (auto simp: int_text_def)
qed

lemma branch_of_suffixed [simp]:
  assumes "starts_with ''out-'' base \<or> starts_with ''snapshot-'' base"
  shows "branch_of (suffixed base (int i)) = Some (nat_text i)"
proof -
  have "takeWhile (\<lambda>c. c \<noteq> CHR ''-'') (rev (nat_text i) @ CHR ''-'' # rev base) = rev (nat_text i)"
    using nat_text_no_hyphen by (simp add: takeWhile_append)
  moreover have "starts_with p (suffixed base (int i))" if "starts_with p base" for p
    using that unfolding suffixed_def by (induction p base rule: starts_with.induct) simp_all
  ultimately show ?thesis using assms by (auto simp: branch_of_def suffixed_def)
qed

lemma suffixed_same_base [simp]: "suffixed base (int i) = suffixed base (int j) \<longleftrightarrow> i = j"
  by (simp add: suffixed_def)

lemma branch_of_source [simp]: "branch_of (source_bin i) = None"
  by (simp add: branch_of_def source_bin_def)

section \<open>The graph of the cameras\<close>

definition camera_element_names :: "bool \<Rightarrow> string list" where
  "camera_element_names capture =
     [''out-queue'', ''out-preconv'', ''out-osd'', ''out-postconv'', ''out-caps'', ''out-encoder'', ''out-h264parse'',
      ''out-rtppay'', ''out-udpsink'']
     @ (if capture then [''snapshot-tee'', ''snapshot-queue'', ''snapshot-valve'', ''snapshot-preconv'', ''snapshot-caps'',
                         ''snapshot-jpeg-encoder'', ''snapshot-appsink''] else [])"

definition camera_element :: "string \<Rightarrow> bool" where
  "camera_element n \<longleftrightarrow> (\<exists>i. n \<in> (\<lambda>base. suffixed base (int i)) ` set (camera_element_names True))"

lemma camera_element_names_members [simp]:
  "''out-queue'' \<in> set (camera_element_names True)" "''out-preconv'' \<in> set (camera_element_names True)"
  "''out-osd'' \<in> set (camera_element_names True)" "''out-postconv'' \<in> set (camera_element_names True)"
  "''out-caps'' \<in> set (camera_element_names True)" "''out-encoder'' \<in> set (camera_element_names True)"
  "''out-h264parse'' \<in> set (camera_element_names True)" "''out-rtppay'' \<in> set (camera_element_names True)"
  "''out-udpsink'' \<in> set (camera_element_names True)" "''snapshot-tee'' \<in> set (camera_element_names True)"
  "''snapshot-queue'' \<in> set (camera_element_names True)" "''snapshot-valve'' \<in> set (camera_element_names True)"
  "''snapshot-preconv'' \<in> set (camera_element_names True)" "''snapshot-caps'' \<in> set (camera_element_names True)"
  "''snapshot-jpeg-encoder'' \<in> set (camera_element_names True)" "''snapshot-appsink'' \<in> set (camera_element_names True)"
  by (simp_all add: camera_element_names_def)

lemma camera_element_suffixed [simp]: "base \<in> set (camera_element_names True) \<Longrightarrow> camera_element (suffixed base (int i))"
  by (auto simp: camera_element_def)

text \<open>
  What holds of every call of a pipeline with an output per camera: a link stays in its branch, and only the pad of
  its own index leads from the demultiplexer into a branch, to the queue at its head.
\<close>

fun wired :: "gst_call \<Rightarrow> bool" where
  "wired (Link a b) \<longleftrightarrow>
     branch_of b = branch_of a \<and> (branch_of a \<noteq> None \<longrightarrow> camera_element a) \<and> \<not> starts_with ''out-queue-'' b
     \<and> b \<noteq> ''stream-muxer''"
| "wired (LinkPads (a, pa) (b, pb)) \<longleftrightarrow>
     (branch_of a = None \<and> branch_of b = None \<and> a \<noteq> ''stream-demuxer''
      \<or> (\<exists>i. a = ''stream-demuxer'' \<and> pa = ''src_'' @ nat_text i \<and> b = suffixed ''out-queue'' (int i)))
     \<and> (b = ''stream-muxer'' \<longrightarrow> (\<exists>i. a = source_bin i \<and> pb = ''sink_'' @ nat_text i))"
| "wired (Connect n s (OnSourcePadAdded m i)) \<longleftrightarrow> n = source_bin i \<and> m = ''stream-muxer''"
| "wired (Connect n s (OnSnapshotNewSample k)) \<longleftrightarrow> branch_of n = Some (int_text k)"
| "wired (AddProbe n s (OnSnapshotValveProbe v k)) \<longleftrightarrow> branch_of n = Some (int_text k) \<and> v = suffixed ''snapshot-valve'' k"
| "wired _ \<longleftrightarrow> True"

lemma wired_map [simp]: "list_all wired (map f xs) \<longleftrightarrow> (\<forall>x \<in> set xs. wired (f x))"
  by (simp add: list_all_iff)

lemma suffixed_not_muxer [simp]:
  "starts_with ''out-'' base \<or> starts_with ''snapshot-'' base \<Longrightarrow> suffixed base (int i) \<noteq> ''stream-muxer''"
proof
  assume "starts_with ''out-'' base \<or> starts_with ''snapshot-'' base" and e: "suffixed base (int i) = ''stream-muxer''"
  then have "branch_of (suffixed base (int i)) = Some (nat_text i)" by (intro branch_of_suffixed)
  then show False unfolding e by (simp add: branch_of_def)
qed

lemma out_queue_prefix [simp]:
  "base \<in> set (camera_element_names True) \<Longrightarrow> starts_with ''out-queue-'' (suffixed base i) \<longleftrightarrow> base = ''out-queue''"
  by (auto simp: camera_element_names_def suffixed_def)

lemma wired_snapshot_branch:
  "list_all wired (calls_of (attach_snapshot_branch (suffixed ''snapshot-tee'' (int i)) cfg (int i)))"
  by (simp add: attach_snapshot_branch_def Let_def)

lemma wired_osd [simp]: "list_all wired (calls_of (configure_osd cfg n))"
  by (simp add: configure_osd_def)

lemma branch_of_demuxer [simp]: "branch_of ''stream-demuxer'' = None"
  by (simp add: branch_of_def)

lemma wired_camera_output:
  "list_all wired (calls_of (attach_one_camera_output cfg ''stream-demuxer'' src udp_port))"
  by (cases "sn_enabled (bc_snapshot cfg)") (simp_all add: attach_one_camera_output_def Let_def wired_snapshot_branch)

lemma wired_cameras: "list_all wired (calls_of (attach_cameras cfg ''stream-demuxer'' k srcs))"
  by (induction srcs arbitrary: k) (simp_all add: wired_camera_output)

lemma wired_trunk: "dynamic_outputs cfg \<Longrightarrow> list_all wired (calls_of (link_chain (trunk cfg)))"
  by (cases "bc_tracker cfg") (simp_all add: trunk_def branch_of_def)

lemma last_trunk: "dynamic_outputs cfg \<Longrightarrow> last (trunk cfg) = ''convertor''"
  by (simp add: trunk_def)

lemma wired_source: "list_all wired (calls_of (create_source_element src))"
  by (simp add: create_source_element_def Let_def)

lemma build_wired:
  assumes "dynamic_outputs cfg"
  shows "list_all wired (calls_of (build_steps cfg))"
proof -
  have "list_all wired (concat (map (calls_of \<circ> create_source_element) srcs))" for srcs
    by (induction srcs) (simp_all add: wired_source)
  moreover have "list_all wired (calls_of (case bc_tracker cfg of None \<Rightarrow> [] | Some t \<Rightarrow> configure_tracker t ''tracker''))"
    "list_all wired (calls_of (case bc_tracker cfg of None \<Rightarrow> [] | Some _ \<Rightarrow> [make_element ''nvtracker'' ''tracker'']))"
    by (simp_all add: configure_tracker_def split: option.split)
  moreover have "list_all wired (calls_of (attach_per_camera_outputs cfg ''convertor'' srcs))" for srcs
    by (simp add: attach_per_camera_outputs_def attach_probe_def wired_cameras) (simp add: branch_of_def)
  ultimately show ?thesis
    using assms wired_trunk [OF assms] last_trunk [OF assms]
    by (simp add: build_steps_def Let_def configure_streammux_def configure_pgie_def comp_def)
qed

lemma branch_of_muxer [simp]: "branch_of ''stream-muxer'' = None"
  by (simp add: branch_of_def)

lemma source_bin_not_demuxer [simp]: "source_bin i \<noteq> ''stream-demuxer''"
  by (simp add: source_bin_def)

lemma pad_added_calls:
  "\<exists>cs. gp_calls (on_source_pad_added lib (source_bin i) pad caps_name ''stream-muxer'' i p) = gp_calls p @ cs \<and> list_all wired cs"
  by (auto simp: on_source_pad_added_def call_def Let_def split: reply.split)

lemma announce_calls:
  assumes "list_all wired (gp_calls p)"
  shows "\<exists>cs. gp_calls (announce lib ev p) = gp_calls p @ cs \<and> list_all wired cs"
proof -
  obtain element pad caps_name where ev: "ev = (element, pad, caps_name)" by (cases ev)
  let ?f = "\<lambda>c p. case c of
                Connect n ''pad-added'' (OnSourcePadAdded mux i) \<Rightarrow>
                  if n = element then on_source_pad_added lib element pad caps_name mux i p else p
              | _ \<Rightarrow> p"
  have one: "\<exists>cs. gp_calls (?f c q) = gp_calls q @ cs \<and> list_all wired cs" if "wired c" for c q
    using that pad_added_calls [of lib _ pad caps_name] by (auto split: gst_call.split list.split char.split bool.split handler.split)
  have "list_all wired ds \<Longrightarrow> \<exists>cs. gp_calls (fold ?f ds q) = gp_calls q @ cs \<and> list_all wired cs" for ds q
  proof (induction ds arbitrary: q)
    case (Cons d ds)
    from one [of d q] Cons.prems obtain cs where cs: "gp_calls (?f d q) = gp_calls q @ cs" "list_all wired cs" by auto
    from Cons.IH [of "?f d q"] Cons.prems obtain cs' where
      "gp_calls (fold ?f ds (?f d q)) = gp_calls (?f d q) @ cs'" "list_all wired cs'" by auto
    then show ?case using cs by (intro exI [of _ "cs @ cs'"]) simp
  qed simp
  from this [OF assms, of p] show ?thesis by (simp only: announce_def ev prod.case)
qed

lemma announced_calls:
  assumes "list_all wired (gp_calls p)"
  shows "\<exists>cs. gp_calls (fold (announce lib) evs p) = gp_calls p @ cs \<and> list_all wired cs"
  using assms
proof (induction evs arbitrary: p)
  case (Cons ev evs)
  from announce_calls [OF Cons.prems, of lib ev] obtain cs where
    cs: "gp_calls (announce lib ev p) = gp_calls p @ cs" "list_all wired cs" by blast
  from Cons.IH [of "announce lib ev p"] Cons.prems cs obtain ds where
    "gp_calls (fold (announce lib) evs (announce lib ev p)) = gp_calls (announce lib ev p) @ ds" "list_all wired ds" by auto
  then show ?case using cs by (intro exI [of _ "cs @ ds"]) simp
qed simp

lemma wired_reaches:
  assumes "list_all wired calls" and "reaches calls a b" and "branch_of a = Some t"
  shows "branch_of b = Some t"
  using assms(2,3) unfolding reaches_def
proof (induction rule: rtrancl_induct)
  case (step b c)
  then have "wired (Link b c) \<or> (\<exists>pa pb. wired (LinkPads (b, pa) (c, pb)))"
    using assms(1) by (auto simp: flows_def list_all_iff)
  then show ?case using step by auto
qed

section \<open>What a branch consists of\<close>

lemma camera_steps_in_build:
  assumes "dynamic_outputs cfg" and "k < length (per_camera_sources cfg)"
  shows "set (calls_of (attach_one_camera_output cfg ''stream-demuxer'' (per_camera_sources cfg ! k)
      (ro_udp_port (bc_rtsp_out cfg) + int k * 2))) \<subseteq> set (calls_of (build_steps cfg))"
proof -
  have "set (calls_of (attach_one_camera_output cfg d (srcs ! k) (ro_udp_port (bc_rtsp_out cfg) + int (j + k) * 2)))
      \<subseteq> set (calls_of (attach_cameras cfg d j srcs))" if "k < length srcs" for d j k srcs
    using that
  proof (induction srcs arbitrary: j k)
    case (Cons src srcs)
    then show ?case using Cons.IH [of "k - 1" "Suc j"] by (cases k) auto
  qed simp
  from this [of k "per_camera_sources cfg" "''stream-demuxer''" 0]
  show ?thesis using assms last_trunk [OF assms(1)] by (auto simp: build_steps_def Let_def attach_per_camera_outputs_def)
qed

lemma camera_branch:
  fixes i :: nat
  assumes "set (calls_of (attach_one_camera_output cfg demux src udp_port)) \<subseteq> set calls" and "i = sc_source_index src"
  shows "LinkPads (demux, ''src_'' @ nat_text i) (suffixed ''out-queue'' (int i), ''sink'') \<in> set calls"
    and "reaches calls (suffixed ''out-queue'' (int i)) (suffixed ''out-osd'' (int i))"
    and "reaches calls (suffixed ''out-osd'' (int i)) (suffixed ''out-udpsink'' (int i))"
    and "SetProperty (suffixed ''out-udpsink'' (int i)) ''port'' (PInt udp_port) \<in> set calls"
    and "AddFactory (mount_point_of src) (media_launch udp_port (ro_codec (bc_rtsp_out cfg))) \<in> set calls"
    and "sn_enabled (bc_snapshot cfg) \<Longrightarrow>
      reaches calls (suffixed ''out-osd'' (int i)) (suffixed ''snapshot-valve'' (int i))
      \<and> reaches calls (suffixed ''snapshot-valve'' (int i)) (suffixed ''snapshot-appsink'' (int i))
      \<and> Connect (suffixed ''snapshot-appsink'' (int i)) ''new-sample'' (OnSnapshotNewSample (int i)) \<in> set calls
      \<and> AddProbe (suffixed ''snapshot-queue'' (int i)) ''src'' (OnSnapshotValveProbe (suffixed ''snapshot-valve'' (int i)) (int i)) \<in> set calls"
proof -
  let ?n = "\<lambda>base. suffixed base (int i)"
  show "LinkPads (demux, ''src_'' @ nat_text i) (?n ''out-queue'', ''sink'') \<in> set calls"
    and "SetProperty (?n ''out-udpsink'') ''port'' (PInt udp_port) \<in> set calls"
    and "AddFactory (mount_point_of src) (media_launch udp_port (ro_codec (bc_rtsp_out cfg))) \<in> set calls"
    using assms by (simp_all add: attach_one_camera_output_def Let_def)
  have "set (calls_of (link_chain [?n ''out-queue'', ?n ''out-preconv'', ?n ''out-osd''])) \<subseteq> set calls"
    using assms by (cases "sn_enabled (bc_snapshot cfg)") (simp_all add: attach_one_camera_output_def Let_def)
  from link_chain_reaches [OF this] show "reaches calls (?n ''out-queue'') (?n ''out-osd'')" by simp
  let ?output = "[?n ''out-postconv'', ?n ''out-caps'', ?n ''out-encoder'', ?n ''out-h264parse'', ?n ''out-rtppay'', ?n ''out-udpsink'']"
  have "set (calls_of (link_chain (?n ''out-osd'' # (if sn_enabled (bc_snapshot cfg) then [?n ''snapshot-tee''] else []) @ ?output)))
      \<subseteq> set calls"
    using assms by (cases "sn_enabled (bc_snapshot cfg)") (simp_all add: attach_one_camera_output_def Let_def)
  from link_chain_reaches [OF this] show "reaches calls (?n ''out-osd'') (?n ''out-udpsink'')" by simp
  assume capture: "sn_enabled (bc_snapshot cfg)"
  let ?encode = "[?n ''snapshot-preconv'', ?n ''snapshot-caps'', ?n ''snapshot-jpeg-encoder'', ?n ''snapshot-appsink'']"
  have "set (calls_of (link_chain ([?n ''out-osd'', ?n ''snapshot-tee'', ?n ''snapshot-queue'', ?n ''snapshot-valve'']))) \<subseteq> set calls"
    using assms capture by (simp add: attach_one_camera_output_def attach_snapshot_branch_def Let_def)
  from link_chain_reaches [OF this] have 1: "reaches calls (?n ''out-osd'') (?n ''snapshot-valve'')" by simp
  have "set (calls_of (link_chain (?n ''snapshot-valve'' # ?encode))) \<subseteq> set calls"
    using assms capture by (simp add: attach_one_camera_output_def attach_snapshot_branch_def Let_def)
  from link_chain_reaches [OF this] have 2: "reaches calls (?n ''snapshot-valve'') (?n ''snapshot-appsink'')" by simp
  have "Connect (?n ''snapshot-appsink'') ''new-sample'' (OnSnapshotNewSample (int i)) \<in> set calls
      \<and> AddProbe (?n ''snapshot-queue'') ''src'' (OnSnapshotValveProbe (?n ''snapshot-valve'') (int i)) \<in> set calls"
    using assms capture by (simp add: attach_one_camera_output_def attach_snapshot_branch_def Let_def)
  with 1 2 show "reaches calls (?n ''out-osd'') (?n ''snapshot-valve'')
      \<and> reaches calls (?n ''snapshot-valve'') (?n ''snapshot-appsink'')
      \<and> Connect (?n ''snapshot-appsink'') ''new-sample'' (OnSnapshotNewSample (int i)) \<in> set calls
      \<and> AddProbe (?n ''snapshot-queue'') ''src'' (OnSnapshotValveProbe (?n ''snapshot-valve'') (int i)) \<in> set calls" by blast
qed

lemma camera_branch_members:
  fixes i :: nat
  assumes "set (calls_of (attach_one_camera_output cfg demux src udp_port)) \<subseteq> set calls" and "i = sc_source_index src"
    and "sn_enabled (bc_snapshot cfg)" and "base \<in> set (camera_element_names True)"
  shows "reaches calls (suffixed ''out-queue'' (int i)) (suffixed base (int i))"
proof -
  let ?n = "\<lambda>base. suffixed base (int i)"
  let ?output = "[?n ''out-preconv'', ?n ''out-osd'', ?n ''snapshot-tee'', ?n ''out-postconv'', ?n ''out-caps'', ?n ''out-encoder'',
    ?n ''out-h264parse'', ?n ''out-rtppay'', ?n ''out-udpsink'']"
  let ?capture = "[?n ''snapshot-queue'', ?n ''snapshot-valve'', ?n ''snapshot-preconv'', ?n ''snapshot-caps'',
    ?n ''snapshot-jpeg-encoder'', ?n ''snapshot-appsink'']"
  have "set (calls_of (link_chain (?n ''out-queue'' # ?output))) \<subseteq> set calls"
    and "set (calls_of (link_chain (?n ''snapshot-tee'' # ?capture))) \<subseteq> set calls"
    using assms(1-3) by (simp_all add: attach_one_camera_output_def attach_snapshot_branch_def Let_def)
  note out = link_chain_reaches [OF this(1)] and capture = link_chain_reaches [OF this(2)]
  have "reaches calls (?n ''out-queue'') x" if "x \<in> set ?capture" for x
    using reaches_trans [OF out capture [OF that]] by simp
  moreover have "reaches calls (?n ''out-queue'') (?n ''out-queue'')" by (simp add: reaches_def)
  moreover have "base = ''out-queue'' \<or> ?n base \<in> set ?output \<or> ?n base \<in> set ?capture"
    using assms(4) unfolding camera_element_names_def by (simp, elim disjE) simp_all
  ultimately show ?thesis using out by blast
qed

lemma wired_queue_feed:
  assumes "list_all wired calls"
  shows "LinkPads (x, s) (suffixed ''out-queue'' (int i), t) \<in> set calls \<Longrightarrow> x = ''stream-demuxer'' \<and> s = ''src_'' @ nat_text i"
    and "Link x (suffixed ''out-queue'' (int i)) \<notin> set calls"
    and "LinkPads (''stream-demuxer'', ''src_'' @ nat_text i) (n, t) \<in> set calls \<Longrightarrow> n = suffixed ''out-queue'' (int i)"
proof -
  have wd: "wired c" if "c \<in> set calls" for c using assms that by (simp add: list_all_iff)
  show "x = ''stream-demuxer'' \<and> s = ''src_'' @ nat_text i" if "LinkPads (x, s) (suffixed ''out-queue'' (int i), t) \<in> set calls"
    using wd [OF that] by auto
  show "Link x (suffixed ''out-queue'' (int i)) \<notin> set calls" using wd by fastforce
  show "n = suffixed ''out-queue'' (int i)" if "LinkPads (''stream-demuxer'', ''src_'' @ nat_text i) (n, t) \<in> set calls"
    using wd [OF that] by auto
qed

lemma wired_branch_feed:
  assumes "list_all wired calls" and "(x, n) \<in> flows calls" and "branch_of n = Some (nat_text i)"
    and "\<And>base. base \<in> set (camera_element_names True) \<Longrightarrow> reaches calls q (suffixed base (int i))"
  shows "n = suffixed ''out-queue'' (int i) \<or> reaches calls q x"
proof -
  have b: "branch_of (suffixed base (int k)) = Some (nat_text k)" if "base \<in> set (camera_element_names True)" for base k
    using that by (auto simp: camera_element_names_def)
  have "wired (Link x n) \<or> (\<exists>pa pb. wired (LinkPads (x, pa) (n, pb)))"
    using assms(1,2) by (auto simp: flows_def list_all_iff)
  then show ?thesis
  proof
    assume "wired (Link x n)"
    then have "branch_of x = Some (nat_text i)" "camera_element x" using assms(3) by auto
    then show ?thesis using assms(4) b by (auto simp: camera_element_def)
  next
    assume "\<exists>pa pb. wired (LinkPads (x, pa) (n, pb))"
    then show ?thesis using assms(3) by auto
  qed
qed

lemma construct_calls:
  assumes "construct lib snapshots_wired cfg = (Inr u, p)"
  shows "gp_calls p = [ImportGst, ImportPyds, GstInit]"
proof -
  have "perform lib [Check ImportGst MissingGStreamerBindingsError, Check ImportPyds MissingPydsError, Do GstInit]
      \<lparr>gp_calls = [], gp_pipeline = False, gp_rtsp_server = False, gp_bus_error = False, gp_mount_points_added = []\<rparr> = (Inr u, p)"
    using assms unfolding construct_def Let_def by (simp only: split: if_split_asm) simp
  from perform_calls [OF this] show ?thesis by simp
qed

lemma built_calls:
  assumes "construct lib snapshots_wired cfg = (Inr (), p0)" and "build lib cfg p0 = (Inr (), p)"
  shows "gp_calls p = [ImportGst, ImportPyds, GstInit] @ calls_of (build_steps cfg)"
  using construct_calls [OF assms(1)] perform_calls [OF assms(2) [unfolded build_def]] by simp

text \<open>
  C9.  Every camera has a branch of its own.  When the pipeline of a configuration with an output per camera and
  with snapshots enabled has been built, then after any announcements of source pads: the queue of camera i is fed
  by pad i of the demultiplexer and by nothing else, and that pad feeds nothing else; every further element that
  the pictures of the queue reach is fed from within the branch alone; the pictures pass the on-screen display
  of camera i and reach its network sink and, through its valve, its JPEG encoder; no element gets pictures of two
  cameras; the muxer pad i is fed only by the source of camera i; and every valve probe and sample callback on the
  way carries the index i, so an image is filed under the camera that took it.
\<close>

theorem camera_branches_isolated:
  assumes "construct lib True cfg = (Inr (), p0)" and "build lib cfg p0 = (Inr (), p)"
    and "dynamic_outputs cfg" and "sn_enabled (bc_snapshot cfg)"
    and "src \<in> set (per_camera_sources cfg)" and "i = sc_source_index src"
    and "calls = gp_calls (fold (announce lib) evs p)"
  shows "LinkPads (''stream-demuxer'', ''src_'' @ nat_text i) (suffixed ''out-queue'' (int i), ''sink'') \<in> set calls
    \<and> (\<forall>x s t. LinkPads (x, s) (suffixed ''out-queue'' (int i), t) \<in> set calls \<longrightarrow> x = ''stream-demuxer'' \<and> s = ''src_'' @ nat_text i)
    \<and> (\<forall>x. Link x (suffixed ''out-queue'' (int i)) \<notin> set calls)
    \<and> (\<forall>x t. LinkPads (''stream-demuxer'', ''src_'' @ nat_text i) (x, t) \<in> set calls \<longrightarrow> x = suffixed ''out-queue'' (int i))
    \<and> (\<forall>n x. reaches calls (suffixed ''out-queue'' (int i)) n \<and> (x, n) \<in> flows calls
         \<longrightarrow> n = suffixed ''out-queue'' (int i) \<or> reaches calls (suffixed ''out-queue'' (int i)) x)
    \<and> reaches calls (suffixed ''out-queue'' (int i)) (suffixed ''out-osd'' (int i))
    \<and> reaches calls (suffixed ''out-osd'' (int i)) (suffixed ''out-udpsink'' (int i))
    \<and> reaches calls (suffixed ''out-osd'' (int i)) (suffixed ''snapshot-valve'' (int i))
    \<and> reaches calls (suffixed ''snapshot-valve'' (int i)) (suffixed ''snapshot-appsink'' (int i))
    \<and> Connect (suffixed ''snapshot-appsink'' (int i)) ''new-sample'' (OnSnapshotNewSample (int i)) \<in> set calls
    \<and> AddProbe (suffixed ''snapshot-queue'' (int i)) ''src'' (OnSnapshotValveProbe (suffixed ''snapshot-valve'' (int i)) (int i)) \<in> set calls
    \<and> (\<forall>j x. reaches calls (suffixed ''out-queue'' (int i)) x \<and> reaches calls (suffixed ''out-queue'' (int j)) x \<longrightarrow> i = j)
    \<and> (\<forall>n s k. reaches calls (suffixed ''out-queue'' (int i)) n \<and> Connect n s (OnSnapshotNewSample k) \<in> set calls \<longrightarrow> k = int i)
    \<and> (\<forall>n s v k. reaches calls (suffixed ''out-queue'' (int i)) n \<and> AddProbe n s (OnSnapshotValveProbe v k) \<in> set calls
         \<longrightarrow> k = int i \<and> v = suffixed ''snapshot-valve'' (int i))
    \<and> (\<forall>x s. LinkPads (x, s) (''stream-muxer'', ''sink_'' @ nat_text i) \<in> set calls \<longrightarrow> x = source_bin i)"
proof -
  have w0: "list_all wired (gp_calls p)" using build_wired [OF assms(3)] by (simp add: built_calls [OF assms(1,2)])
  from announced_calls [OF this] obtain cs where cs: "calls = gp_calls p @ cs" "list_all wired cs" using assms(7) by blast
  have w: "list_all wired calls" using w0 cs by simp
  have wd: "wired c" if "c \<in> set calls" for c using w that by (simp add: list_all_iff)
  obtain k where k: "k < length (per_camera_sources cfg)" "src = per_camera_sources cfg ! k"
    using assms(5) by (auto simp: in_set_conv_nth)
  have "set (calls_of (attach_one_camera_output cfg ''stream-demuxer'' src (ro_udp_port (bc_rtsp_out cfg) + int k * 2))) \<subseteq> set calls"
    using camera_steps_in_build [OF assms(3) k(1)] by (auto simp: cs(1) built_calls [OF assms(1,2)] k(2))
  note b = camera_branch [OF this assms(6)] and members = camera_branch_members [OF this assms(6,4)]
  let ?q = "\<lambda>j. suffixed ''out-queue'' (int j)"
  have reach: "branch_of x = Some (nat_text j)" if "reaches calls (?q j) x" for j x
    using wired_reaches [OF w that] by simp
  have feed: "n = ?q i \<or> reaches calls (?q i) x" if "reaches calls (?q i) n" "(x, n) \<in> flows calls" for n x
    using wired_branch_feed [OF w that(2) reach [OF that(1)]] members by blast
  have same: "i = j" if "reaches calls (?q i) x" "reaches calls (?q j) x" for j x
    using reach [OF that(1)] reach [OF that(2)] by simp
  have sample: "m = int i" if "reaches calls (?q i) n" "Connect n s (OnSnapshotNewSample m) \<in> set calls" for n s m
    using reach [OF that(1)] wd [OF that(2)] by (simp add: int_text_eq_nat)
  have probe: "m = int i \<and> v = suffixed ''snapshot-valve'' (int i)"
    if "reaches calls (?q i) n" "AddProbe n s (OnSnapshotValveProbe v m) \<in> set calls" for n s v m
    using reach [OF that(1)] wd [OF that(2)] by (auto simp: int_text_eq_nat)
  have muxer: "x = source_bin i" if "LinkPads (x, s) (''stream-muxer'', ''sink_'' @ nat_text i) \<in> set calls" for x s
    using wd [OF that] by auto
  have old: "(\<forall>j x. reaches calls (?q i) x \<and> reaches calls (?q j) x \<longrightarrow> i = j)
    \<and> (\<forall>n s k. reaches calls (?q i) n \<and> Connect n s (OnSnapshotNewSample k) \<in> set calls \<longrightarrow> k = int i)
    \<and> (\<forall>n s v k. reaches calls (?q i) n \<and> AddProbe n s (OnSnapshotValveProbe v k) \<in> set calls
         \<longrightarrow> k = int i \<and> v = suffixed ''snapshot-valve'' (int i))
    \<and> (\<forall>x s. LinkPads (x, s) (''stream-muxer'', ''sink_'' @ nat_text i) \<in> set calls \<longrightarrow> x = source_bin i)"
    using same sample probe muxer by blast
  have new: "(\<forall>x s t. LinkPads (x, s) (?q i, t) \<in> set calls \<longrightarrow> x = ''stream-demuxer'' \<and> s = ''src_'' @ nat_text i)
    \<and> (\<forall>x. Link x (?q i) \<notin> set calls)
    \<and> (\<forall>x t. LinkPads (''stream-demuxer'', ''src_'' @ nat_text i) (x, t) \<in> set calls \<longrightarrow> x = ?q i)
    \<and> (\<forall>n x. reaches calls (?q i) n \<and> (x, n) \<in> flows calls \<longrightarrow> n = ?q i \<or> reaches calls (?q i) x)"
    using wired_queue_feed [OF w] feed by blast
  show ?thesis using old new b(1-5) b(6) [OF assms(4)] by argo
qed

definition demo_source :: "nat \<Rightarrow> string \<Rightarrow> source_config" where
  "demo_source i path =
     \<lparr>sc_source_index = i, sc_uri = ''rtsp://h/s'', sc_camera_id = ''c'', sc_output_path = path, sc_gpu_id = 0,
      sc_latency_ms = 100, sc_select_rtp_protocol = 4, sc_rtsp_reconnect_interval_sec = 10, sc_drop_frame_interval = 0,
      sc_num_extra_surfaces = 1, sc_cudadec_memtype = 2, sc_file_loop = False\<rparr>"

definition demo_graph_config :: "source_config list \<Rightarrow> bridge_config" where
  "demo_graph_config sources =
     \<lparr>bc_sources = sources,
      bc_streammux = \<lparr>mx_batch_size = 2, mx_batched_push_timeout = 40000, mx_width = 1920, mx_height = 1080,
        mx_live_source = True, mx_enable_padding = False, mx_nvbuf_memory_type = 0, mx_gpu_id = 0\<rparr>,
      bc_infer = \<lparr>if_config_file = ''/i'', if_interval = 0, if_gpu_id = 0, if_gie_unique_id = 1\<rparr>,
      bc_tracker = None,
      bc_osd = \<lparr>od_gpu_id = 0, od_process_mode = 0, od_display_bbox = True, od_display_text = True, od_display_mask = False\<rparr>,
      bc_rtsp_out = \<lparr>ro_enabled = True, ro_multicast_group = ''224.224.255.255'', ro_port = 8554, ro_udp_port = 5400,
        ro_mount_point = ''/ds-test'', ro_bitrate = 4000000, ro_codec = ''H264'', ro_idr_interval = 30,
        ro_iframe_interval = 30, ro_insert_sps_pps = True, ro_h264parse_config_interval = - 1,
        ro_rtph264pay_config_interval = - 1\<rparr>,
      bc_snapshot = \<lparr>sn_enabled = True, sn_frame_ttl_ms = 3000, sn_max_retained_frames = 32, sn_jpeg_quality = 85\<rparr>\<rparr>"

definition demo_two_cameras :: bridge_config where
  "demo_two_cameras = demo_graph_config [demo_source 0 ''cameras/a'', demo_source 1 ''cameras/b'']"

definition accepting :: library where "accepting calls c = Accepted"

lemma accepting_library: "accepting = (\<lambda>_ _. Accepted)"
  by (intro ext) (simp add: accepting_def)

definition demo_graph :: "bridge_config \<Rightarrow> gst_pipeline" where
  "demo_graph cfg = snd (build accepting cfg (snd (construct accepting True cfg)))"

lemma demo_construct: "construct accepting True cfg = (Inr (), snd (construct accepting True cfg))"
  by (simp add: construct_def accepting_def call_def)

lemma demo_build: "build accepting cfg (snd (construct accepting True cfg)) = (Inr (), demo_graph cfg)"
  using perform_accepted by (simp add: build_def demo_graph_def accepting_library)

definition demo_graph_calls :: "gst_call list" where
  "demo_graph_calls =
     gp_calls (fold (announce accepting) [(''uri-source-bin-1'', ''vsrc_0'', ''video/x-raw'')] (demo_graph demo_two_cameras))"

lemma demo_two_cameras_facts:
  "dynamic_outputs demo_two_cameras" "sn_enabled (bc_snapshot demo_two_cameras)"
  "per_camera_sources demo_two_cameras = [demo_source 0 ''cameras/a'', demo_source 1 ''cameras/b'']"
  by (simp_all add: dynamic_outputs_def per_camera_sources_def demo_two_cameras_def demo_graph_config_def demo_source_def)

theorem camera_branches_isolated_witness:
  "reaches demo_graph_calls ''out-osd-1'' ''out-udpsink-1'' \<and> reaches demo_graph_calls ''snapshot-valve-1'' ''snapshot-appsink-1''
   \<and> \<not> reaches demo_graph_calls ''out-queue-0'' ''out-osd-1''"
proof -
  have one: "demo_source 1 ''cameras/b'' \<in> set (per_camera_sources demo_two_cameras)" "1 = sc_source_index (demo_source 1 ''cameras/b'')"
    by (simp_all add: demo_two_cameras_facts demo_source_def)
  have n: "suffixed base (int 1) = base @ ''-1''" "suffixed base (int 0) = base @ ''-0''" for base
    by (simp_all add: suffixed_def nat_text.simps int_text_def)
  note c = camera_branches_isolated [OF demo_construct demo_build demo_two_cameras_facts(1,2) one demo_graph_calls_def, unfolded n append.simps]
  have "reaches demo_graph_calls ''out-queue-1'' ''out-osd-1''" "reaches demo_graph_calls ''out-osd-1'' ''out-udpsink-1''"
    "reaches demo_graph_calls ''snapshot-valve-1'' ''snapshot-appsink-1''" using c by blast+
  moreover have "\<not> reaches demo_graph_calls (suffixed ''out-queue'' (int 0)) ''out-osd-1''"
    using c calculation(1) by (metis zero_neq_one)
  then have "\<not> reaches demo_graph_calls ''out-queue-0'' ''out-osd-1''" unfolding n by simp
  ultimately show ?thesis by blast
qed

section \<open>Names and mounts\<close>

definition made :: "gst_call list \<Rightarrow> string list" where
  "made calls = concat (map (\<lambda>c. case c of Make f n \<Rightarrow> [n] | _ \<Rightarrow> []) calls)"

lemma made_simps [simp]:
  "made [] = []" "made (c # cs) = (case c of Make f n \<Rightarrow> [n] | _ \<Rightarrow> []) @ made cs" "made (xs @ ys) = made xs @ made ys"
  by (simp_all add: made_def)

lemma made_link_chain [simp]: "made (calls_of (link_chain xs)) = []"
  by (induction xs rule: link_chain.induct) simp_all

lemma made_add [simp]: "made (map Add ns) = []"
  by (induction ns) simp_all

lemma made_camera:
  "made (calls_of (attach_one_camera_output cfg demux src port))
   = map (\<lambda>base. suffixed base (int (sc_source_index src))) (camera_element_names (sn_enabled (bc_snapshot cfg)))"
  by (simp add: attach_one_camera_output_def attach_snapshot_branch_def camera_element_names_def configure_osd_def Let_def)

lemma made_cameras:
  "made (calls_of (attach_cameras cfg demux k srcs))
   = map (\<lambda>(i, base). suffixed base (int i))
       (List.product (map sc_source_index srcs) (camera_element_names (sn_enabled (bc_snapshot cfg))))"
  by (induction srcs arbitrary: k) (simp_all add: made_camera)

lemma camera_names_distinct:
  assumes "distinct is"
  shows "distinct (map (\<lambda>(i, base). suffixed base (int i)) (List.product is (camera_element_names capture)))"
proof -
  have b: "starts_with ''out-'' base \<or> starts_with ''snapshot-'' base" if "base \<in> set (camera_element_names capture)" for base
    using that by (auto simp: camera_element_names_def split: if_split_asm)
  have "inj_on (\<lambda>(i, base). suffixed base (int i)) (set is \<times> set (camera_element_names capture))"
  proof (rule inj_onI; clarify)
    fix i j base base'
    assume m: "base \<in> set (camera_element_names capture)" "base' \<in> set (camera_element_names capture)"
      and e: "suffixed base (int i) = suffixed base' (int j)"
    have "i = j" using branch_of_suffixed [OF b [OF m(1)], of i] branch_of_suffixed [OF b [OF m(2)], of j] e by simp
    then show "i = j \<and> base = base'" using e by (simp add: suffixed_def)
  qed
  moreover have "distinct (camera_element_names capture)" by (cases capture) (simp_all add: camera_element_names_def)
  ultimately show ?thesis using assms by (simp add: distinct_map distinct_product)
qed

lemma made_sources: "made (concat (map (\<lambda>x. calls_of (create_source_element x)) srcs)) = map (\<lambda>s. source_bin (sc_source_index s)) srcs"
  by (induction srcs) (simp_all add: create_source_element_def Let_def)

lemma made_map_connect [simp]: "made (map (\<lambda>x. Connect (f x) (g x) (h x)) xs) = []"
  by (induction xs) simp_all

lemma made_map_add [simp]: "made (map (\<lambda>x. Add (f x)) xs) = []"
  by (induction xs) simp_all

lemma made_build:
  assumes "dynamic_outputs cfg"
  shows "made (calls_of (build_steps cfg))
    = map (\<lambda>s. source_bin (sc_source_index s)) (bc_sources cfg) @ trunk cfg @ ''stream-demuxer''
      # map (\<lambda>(i, base). suffixed base (int i))
          (List.product (map sc_source_index (per_camera_sources cfg)) (camera_element_names (sn_enabled (bc_snapshot cfg))))"
  using assms last_trunk [OF assms]
  by (cases "bc_tracker cfg")
     (simp_all add: build_steps_def Let_def comp_def made_sources made_cameras attach_per_camera_outputs_def attach_probe_def
       configure_streammux_def configure_pgie_def configure_tracker_def trunk_def)

text \<open>
  The elements have names of their own, as a GStreamer pipeline needs them: when the sources have distinct
  indices, no two elements that building the pipeline with an output per camera creates are given the same name,
  so an element is known by its name.
\<close>

theorem element_names_distinct:
  assumes "construct lib snapshots_wired cfg = (Inr (), p0)" and "build lib cfg p0 = (Inr (), p)"
    and "dynamic_outputs cfg" and "distinct (map sc_source_index (bc_sources cfg))"
  shows "distinct (made (gp_calls p))"
proof -
  let ?cams = "map (\<lambda>(i, base). suffixed base (int i))
      (List.product (map sc_source_index (per_camera_sources cfg)) (camera_element_names (sn_enabled (bc_snapshot cfg))))"
  have "distinct (map sc_source_index (per_camera_sources cfg))"
    using assms(4) unfolding per_camera_sources_def by (rule distinct_map_filter)
  then have cams: "distinct ?cams" by (rule camera_names_distinct)
  have in_branch: "branch_of n \<noteq> None" if "n \<in> set ?cams" for n
    using that by (auto simp: camera_element_names_def split: if_split_asm)
  have sources: "distinct (map (\<lambda>s. source_bin (sc_source_index s)) (bc_sources cfg))"
    using assms(4) by (simp add: distinct_map inj_on_def source_bin_def)
  have trunk: "distinct (trunk cfg @ [''stream-demuxer''])" "n \<in> set (trunk cfg @ [''stream-demuxer'']) \<Longrightarrow> branch_of n = None"
    "n \<in> set (trunk cfg @ [''stream-demuxer'']) \<Longrightarrow> n \<noteq> source_bin i" for n i
    using assms(3) by (auto simp: trunk_def branch_of_def source_bin_def split: option.splits)
  define S T where "S = map (\<lambda>s. source_bin (sc_source_index s)) (bc_sources cfg)" and "T = trunk cfg @ [''stream-demuxer'']"
  have "\<forall>n \<in> set S. branch_of n = None \<and> (\<exists>i. n = source_bin i)" by (auto simp: S_def)
  then have "set S \<inter> set T = {}" "set S \<inter> set ?cams = {}"
    using trunk(3) in_branch unfolding T_def disjoint_iff by metis+
  moreover have "set T \<inter> set ?cams = {}" using trunk(2) in_branch unfolding T_def by blast
  ultimately have "distinct (S @ T @ ?cams)"
    using sources trunk(1) cams unfolding S_def [symmetric] T_def [symmetric] distinct_append set_append by blast
  then have "distinct (made (calls_of (build_steps cfg)))" unfolding made_build [OF assms(3)] S_def T_def append_assoc append.simps .
  then show ?thesis by (simp add: built_calls [OF assms(1,2)])
qed

theorem element_names_distinct_witness: "distinct (made (gp_calls (demo_graph demo_two_cameras)))"
proof -
  have "distinct (map sc_source_index (bc_sources demo_two_cameras))"
    by (simp add: demo_two_cameras_def demo_graph_config_def demo_source_def)
  from element_names_distinct [OF demo_construct demo_build demo_two_cameras_facts(1) this] show ?thesis .
qed

text \<open>The network sinks with their ports, and the mounts with the launch line of their media.\<close>

definition sinks :: "gst_call list \<Rightarrow> (string \<times> int) list" where
  "sinks calls = concat (map (\<lambda>c. case c of SetProperty n k (PInt v) \<Rightarrow> if k = ''port'' then [(n, v)] else [] | _ \<Rightarrow> []) calls)"

definition mounts :: "gst_call list \<Rightarrow> (string \<times> string) list" where
  "mounts calls = concat (map (\<lambda>c. case c of AddFactory m l \<Rightarrow> [(m, l)] | _ \<Rightarrow> []) calls)"

lemma sinks_simps [simp]:
  "sinks [] = []"
  "sinks (c # cs) = (case c of SetProperty n k (PInt v) \<Rightarrow> if k = ''port'' then [(n, v)] else [] | _ \<Rightarrow> []) @ sinks cs"
  "sinks (xs @ ys) = sinks xs @ sinks ys"
  by (simp_all add: sinks_def)

lemma mounts_simps [simp]:
  "mounts [] = []" "mounts (c # cs) = (case c of AddFactory m l \<Rightarrow> [(m, l)] | _ \<Rightarrow> []) @ mounts cs"
  "mounts (xs @ ys) = mounts xs @ mounts ys"
  by (simp_all add: mounts_def)

lemma outputs_of_map [simp]:
  "sinks (map (\<lambda>x. Add (f x)) xs) = []" "sinks (map (\<lambda>x. Connect (f x) (g x) (h x)) xs) = []"
  "mounts (map (\<lambda>x. Add (f x)) xs) = []" "mounts (map (\<lambda>x. Connect (f x) (g x) (h x)) xs) = []"
  by (induction xs) simp_all

lemma outputs_of_add [simp]: "sinks (map Add xs) = []" "mounts (map Add xs) = []"
  by (induction xs) simp_all

lemma outputs_of_link_chain [simp]: "sinks (calls_of (link_chain xs)) = []" "mounts (calls_of (link_chain xs)) = []"
  by (induction xs rule: link_chain.induct) simp_all

lemma outputs_of_sources [simp]:
  "sinks (concat (map (\<lambda>x. calls_of (create_source_element x)) srcs)) = []"
  "mounts (concat (map (\<lambda>x. calls_of (create_source_element x)) srcs)) = []"
  by (induction srcs) (simp_all add: create_source_element_def Let_def)

lemma outputs_of_camera:
  "sinks (calls_of (attach_one_camera_output cfg demux src port)) = [(suffixed ''out-udpsink'' (int (sc_source_index src)), port)]"
  "mounts (calls_of (attach_one_camera_output cfg demux src port))
   = [(mount_point_of src, media_launch port (ro_codec (bc_rtsp_out cfg)))]"
  by (simp_all add: attach_one_camera_output_def attach_snapshot_branch_def configure_osd_def Let_def)

definition camera_port :: "bridge_config \<Rightarrow> nat \<Rightarrow> int" where
  "camera_port cfg k = ro_udp_port (bc_rtsp_out cfg) + int k * 2"

lemma outputs_of_cameras:
  "sinks (calls_of (attach_cameras cfg demux j srcs))
   = map (\<lambda>k. (suffixed ''out-udpsink'' (int (sc_source_index (srcs ! k))), camera_port cfg (j + k))) [0..<length srcs]
   \<and> mounts (calls_of (attach_cameras cfg demux j srcs))
   = map (\<lambda>k. (mount_point_of (srcs ! k), media_launch (camera_port cfg (j + k)) (ro_codec (bc_rtsp_out cfg)))) [0..<length srcs]"
proof (induction srcs arbitrary: j)
  case (Cons src srcs)
  have upt: "[0..<length (src # srcs)] = 0 # map Suc [0..<length srcs]" by (simp add: map_Suc_upt upt_conv_Cons del: upt_Suc)
  show ?case unfolding upt by (simp add: outputs_of_camera Cons.IH camera_port_def [symmetric] comp_def)
qed simp

lemma outputs_of_build:
  assumes "dynamic_outputs cfg"
  shows "sinks (calls_of (build_steps cfg))
    = map (\<lambda>k. (suffixed ''out-udpsink'' (int (sc_source_index (per_camera_sources cfg ! k))), camera_port cfg k))
        [0..<length (per_camera_sources cfg)]"
    and "mounts (calls_of (build_steps cfg))
    = map (\<lambda>k. (mount_point_of (per_camera_sources cfg ! k), media_launch (camera_port cfg k) (ro_codec (bc_rtsp_out cfg))))
        [0..<length (per_camera_sources cfg)]"
  using assms last_trunk [OF assms]
  by (cases "bc_tracker cfg";
      simp add: build_steps_def Let_def comp_def outputs_of_cameras attach_per_camera_outputs_def attach_probe_def
        configure_streammux_def configure_pgie_def configure_tracker_def)+

lemma in_sinks: "SetProperty n ''port'' (PInt v) \<in> set calls \<longleftrightarrow> (n, v) \<in> set (sinks calls)"
proof (induction calls)
  case (Cons c calls)
  have "(n, v) \<in> set (case c of SetProperty n k (PInt v) \<Rightarrow> if k = ''port'' then [(n, v)] else [] | _ \<Rightarrow> [])
      \<longleftrightarrow> c = SetProperty n ''port'' (PInt v)"
    by (cases c) (auto split: property_value.split)
  with Cons.IH show ?case unfolding sinks_simps set_append by auto
qed simp

lemma in_mounts: "AddFactory m l \<in> set calls \<longleftrightarrow> (m, l) \<in> set (mounts calls)"
proof (induction calls)
  case (Cons c calls)
  then show ?case by (cases c) auto
qed simp

text \<open>
  C28.  A mount shows one camera.  When the pipeline has been built and no two cameras have the same mount point,
  then whatever is published on a mount reads the port that the network sink of one camera, the one whose
  path the mount is, sends to, and that no other sink sends to.
\<close>

theorem mount_shows_one_camera:
  assumes "construct lib snapshots_wired cfg = (Inr (), p0)" and "build lib cfg p0 = (Inr (), p)"
    and "dynamic_outputs cfg" and "distinct (map mount_point_of (per_camera_sources cfg))"
    and "AddFactory m l \<in> set (gp_calls p)"
  shows "\<exists>src \<in> set (per_camera_sources cfg). \<exists>port. mount_point_of src = m
    \<and> l = media_launch port (ro_codec (bc_rtsp_out cfg))
    \<and> (\<forall>n. SetProperty n ''port'' (PInt port) \<in> set (gp_calls p) \<longleftrightarrow> n = suffixed ''out-udpsink'' (int (sc_source_index src)))
    \<and> (\<forall>l'. AddFactory m l' \<in> set (gp_calls p) \<longrightarrow> l' = l)"
proof -
  let ?srcs = "per_camera_sources cfg"
  have calls: "sinks (gp_calls p) = sinks (calls_of (build_steps cfg))" "mounts (gp_calls p) = mounts (calls_of (build_steps cfg))"
    by (simp_all add: built_calls [OF assms(1,2)])
  obtain k where k: "k < length ?srcs" "m = mount_point_of (?srcs ! k)" "l = media_launch (camera_port cfg k) (ro_codec (bc_rtsp_out cfg))"
    using assms(5) unfolding in_mounts calls outputs_of_build [OF assms(3)] by auto
  have "SetProperty n ''port'' (PInt (camera_port cfg k)) \<in> set (gp_calls p)
      \<longleftrightarrow> n = suffixed ''out-udpsink'' (int (sc_source_index (?srcs ! k)))" for n
    using k(1) unfolding in_sinks calls outputs_of_build [OF assms(3)] by (auto simp: camera_port_def)
  moreover have "l' = l" if l': "AddFactory m l' \<in> set (gp_calls p)" for l'
  proof -
    obtain j where j: "j < length ?srcs" "m = mount_point_of (?srcs ! j)" "l' = media_launch (camera_port cfg j) (ro_codec (bc_rtsp_out cfg))"
      using l' unfolding in_mounts calls outputs_of_build [OF assms(3)] by auto
    have "j = k" using assms(4) j(1,2) k(1,2) nth_eq_iff_index_eq [of "map mount_point_of ?srcs" j k] by simp
    then show ?thesis using j(3) k(3) by simp
  qed
  ultimately show ?thesis using k nth_mem by blast
qed

theorem mount_shows_one_camera_witness:
  "\<exists>src \<in> set (per_camera_sources demo_two_cameras). \<exists>port. mount_point_of src = ''/cameras/b''
     \<and> media_launch 5402 ''H264'' = media_launch port (ro_codec (bc_rtsp_out demo_two_cameras))
     \<and> SetProperty (suffixed ''out-udpsink'' (int (sc_source_index src))) ''port'' (PInt port) \<in> set (gp_calls (demo_graph demo_two_cameras))"
proof -
  let ?calls = "gp_calls (demo_graph demo_two_cameras)"
  have paths: "map mount_point_of (per_camera_sources demo_two_cameras) = [''/cameras/a'', ''/cameras/b'']"
    by (simp add: demo_two_cameras_facts mount_point_of_def demo_source_def strip_by_def)
  then have d: "distinct (map mount_point_of (per_camera_sources demo_two_cameras))" by simp
  have m: "AddFactory ''/cameras/b'' (media_launch 5402 ''H264'') \<in> set ?calls"
    using paths unfolding in_mounts built_calls [OF demo_construct demo_build] mounts_simps outputs_of_build [OF demo_two_cameras_facts(1)]
    by (simp add: camera_port_def demo_two_cameras_facts mount_point_of_def demo_source_def strip_by_def)
       (simp add: demo_two_cameras_def demo_graph_config_def)
  from mount_shows_one_camera [OF demo_construct demo_build demo_two_cameras_facts(1) d m] show ?thesis by blast
qed

section \<open>Where the loader lets two cameras collide\<close>

text \<open>
  The loader compares the output paths as they are written, the pipeline strips their slashes: two paths that
  differ in a slash at the end are accepted and share a mount.  And two section names with the same number are
  two sources with the same index, whose elements have the same names.
\<close>

definition demo_source_options :: "string \<Rightarrow> options" where
  "demo_source_options path = [(''uri'', ''rtsp://h/s''), (''output-path'', path)]"

definition demo_slash_document :: ini where
  "demo_slash_document = \<lparr>ini_defaults = [], ini_sections =
     [(''source0'', demo_source_options ''cam/a''), (''source1'', demo_source_options ''cam/a/'')]\<rparr>"

definition demo_same_index_document :: ini where
  "demo_same_index_document = \<lparr>ini_defaults = [], ini_sections =
     [(''source1'', demo_source_options ''cam/a''), (''source01'', demo_source_options ''cam/b'')]\<rparr>"

lemma trailing_slash_shares_mount:
  "case parse_sources demo_slash_document of
     Inr [a, b] \<Rightarrow> sc_output_path a \<noteq> sc_output_path b \<and> mount_point_of a = mount_point_of b
   | _ \<Rightarrow> False"
  by code_simp

lemma same_index_same_names:
  "case parse_sources demo_same_index_document of
     Inr [a, b] \<Rightarrow> source_bin (sc_source_index a) = source_bin (sc_source_index b)
   | _ \<Rightarrow> False"
  by code_simp

end
