(* ===== verification/BridgeMain.thy ===== *)
theory BridgeMain
  imports BridgeGraph
begin

text \<open>
  \<^verbatim>\<open>deepstream_bridge/cli.py\<close> and \<^verbatim>\<open>main.py\<close>: from the arguments to the exit code, and that nothing of a Bridge
  that has exited still runs.
\<close>

section \<open>The arguments\<close>

text \<open>
  What \<^verbatim>\<open>argparse\<close> makes of the command line: it exits with a code, or gives the two paths.  \<open>parent_is_dir\<close> says
  of a path whether its parent is a directory.
\<close>

datatype command_line = ArgparseExit "int option" | Arguments string string

definition validate_arguments :: "(string \<Rightarrow> bool) \<Rightarrow> (string \<Rightarrow> bool) \<Rightarrow> string \<Rightarrow> string \<Rightarrow> (string \<times> string) option" where
  "validate_arguments parent_is_dir is_file socket_path config_path =
     (if \<not> parent_is_dir socket_path then None
      else if \<not> is_file config_path then None
      else Some (socket_path, config_path))"

section \<open>main.py\<close>

definition EXIT_OK :: int where "EXIT_OK = 0"
definition EXIT_ARGUMENT_ERROR :: int where "EXIT_ARGUMENT_ERROR = 2"
definition EXIT_CONFIGURATION_ERROR :: int where "EXIT_CONFIGURATION_ERROR = 3"
definition EXIT_MISSING_DEPENDENCY :: int where "EXIT_MISSING_DEPENDENCY = 4"
definition EXIT_PIPELINE_ERROR :: int where "EXIT_PIPELINE_ERROR = 5"

definition SHUTDOWN_SIGNALS :: "int list" where "SHUTDOWN_SIGNALS = [15, 2]"

text \<open>
  What a run meets: the command line, the files, GStreamer, what the main loop dispatches, the calls of the
  callbacks and threads while it runs, and what the last round of the sender meets when the transport is stopped:
  whether a thread is then stuck in \<^verbatim>\<open>connect\<close> or in a frame, and otherwise how the round ends.
\<close>

record main_input =
  mi_command_line :: command_line
  mi_parent_is_dir :: "string \<Rightarrow> bool"
  mi_is_file :: "string \<Rightarrow> bool"
  mi_content :: "string \<Rightarrow> exn + string"
  mi_library :: library
  mi_events :: "loop_event list"
  mi_clock :: "nat \<Rightarrow> pyfloat"
  mi_dumps :: "json \<Rightarrow> utext"
  mi_loads :: "utext \<Rightarrow> exn + json"
  mi_calls :: "bridge_call list"
  mi_connect_hangs :: bool
  mi_reader_hangs :: bool
  mi_last_connects :: bool
  mi_last_fault :: "(nat \<times> exn) option"

text \<open>
  The outcome: an exit code, what escapes, or nothing while the main loop runs; with the pipeline, the state of the
  callbacks and the threads that outlive the stop of the transport, if the pipeline was made.
\<close>

type_synonym main_outcome = "(pipeline_error + int) option \<times> (gst_pipeline \<times> bridge \<times> left_over list) option"

definition build_exit :: "pipeline_error \<Rightarrow> pipeline_error + int" where
  "build_exit e =
     (if e \<in> {MissingGStreamerBindingsError, MissingPydsError, MissingGstRtspServerBindingsError} then Inr EXIT_MISSING_DEPENDENCY
      else if e \<in> {PipelineElementCreationError, PipelineLinkError} then Inr EXIT_PIPELINE_ERROR
      else Inl e)"

definition run_exit :: "pipeline_error + unit \<Rightarrow> pipeline_error + int" where
  "run_exit r = (case r of Inr _ \<Rightarrow> Inr EXIT_OK | Inl e \<Rightarrow> if e = PipelineBusError then Inr EXIT_PIPELINE_ERROR else Inl e)"

definition make_rendezvous :: "snapshot_config \<Rightarrow> exn + rendezvous option" where
  "make_rendezvous cfg =
     (if sn_enabled cfg
      then bind_result (mk_rendezvous (sn_max_retained_frames cfg) (fl_round (of_int (sn_frame_ttl_ms cfg) / 1000))) (\<lambda>r. Inr (Some r))
      else Inr None)"

text \<open>\<^verbatim>\<open>run\<close>, from the call of \<^verbatim>\<open>transport.start\<close> on.\<close>

definition stop_after_pipeline :: "main_input \<Rightarrow> bridge \<Rightarrow> bridge \<times> left_over list" where
  "stop_after_pipeline inp b =
     (case stop_joining (mi_dumps inp) (mi_connect_hangs inp) (mi_reader_hangs inp) (mi_last_connects inp) (mi_last_fault inp)
             (br_transport b) of
        (left_over, w) \<Rightarrow> (b\<lparr>br_transport := w\<rparr>, left_over))"

definition operate :: "main_input \<Rightarrow> gst_pipeline \<Rightarrow> bridge \<Rightarrow> main_outcome" where
  "operate inp p b =
     (let b = bridge_run (mi_clock inp) (mi_dumps inp) (mi_loads inp) (mi_calls inp) (on_transport start_transport b)
      in case run_pipeline (mi_library inp) SHUTDOWN_SIGNALS (mi_events inp) p of
           (None, p) \<Rightarrow> (None, Some (p, b, []))
         | (Some r, p) \<Rightarrow>
             (case shutdown_graph (mi_library inp) p of
                (Inl e, p) \<Rightarrow> (Some (Inl e), Some (p, b, []))
              | (Inr _, p) \<Rightarrow> (Some (run_exit r), Some (p, stop_after_pipeline inp (shutdown_pipeline b)))))"

definition run_bridge :: "main_input \<Rightarrow> bridge_config \<Rightarrow> main_outcome" where
  "run_bridge inp cfg =
     (case mk_transport DEFAULT_QUEUE_CAPACITY 16 of
        Inl e \<Rightarrow> (Some (Inl (LibraryError e)), None)
      | Inr w \<Rightarrow>
          (case make_rendezvous (bc_snapshot cfg) of
             Inl e \<Rightarrow> (Some (Inl (LibraryError e)), None)
           | Inr r \<Rightarrow>
               (case construct (mi_library inp) (r \<noteq> None) cfg of
                  (Inl e, p) \<Rightarrow> (Some (build_exit e), Some (p, new_bridge r w, []))
                | (Inr _, p) \<Rightarrow>
                    (case build (mi_library inp) cfg p of
                       (Inl e, p) \<Rightarrow> (Some (build_exit e), Some (p, new_bridge r w, []))
                     | (Inr _, p) \<Rightarrow> operate inp p (new_bridge r w)))))"

definition bridge_main :: "main_input \<Rightarrow> main_outcome" where
  "bridge_main inp =
     (case mi_command_line inp of
        ArgparseExit code \<Rightarrow>
          (Some (Inr (case code of None \<Rightarrow> EXIT_ARGUMENT_ERROR | Some c \<Rightarrow> if c = 0 then EXIT_ARGUMENT_ERROR else c)), None)
      | Arguments socket_path config_path \<Rightarrow>
          (case validate_arguments (mi_parent_is_dir inp) (mi_is_file inp) socket_path config_path of
             None \<Rightarrow> (Some (Inr EXIT_ARGUMENT_ERROR), None)
           | Some _ \<Rightarrow>
               (case load_bridge_config (mi_is_file inp) (mi_content inp config_path) of
                  Inl e \<Rightarrow> (Some (if e = BridgeConfigurationError then Inr EXIT_CONFIGURATION_ERROR else Inl (LibraryError e)), None)
                | Inr cfg \<Rightarrow> run_bridge inp cfg)))"

section \<open>What a run has asked of GStreamer\<close>

lemma perform_prefix: "\<exists>n. gp_calls (snd (perform lib ss p)) = gp_calls p @ take n (calls_of ss)"
proof (induction ss arbitrary: p)
  case (Cons s ss)
  obtain r q where d: "do_step lib s p = (r, q)" by (cases "do_step lib s p")
  have q: "gp_calls q = gp_calls p @ calls_in s"
    using d by (cases s) (auto simp: call_def split: reply.splits)
  show ?case
  proof (cases r)
    case (Inl e)
    then show ?thesis using d q by (intro exI [of _ "length (calls_in s)"]) simp
  next
    case (Inr u)
    from Cons.IH [of q] obtain n where "gp_calls (snd (perform lib ss q)) = gp_calls q @ take n (calls_of ss)" by blast
    then show ?thesis using d q Inr by (intro exI [of _ "length (calls_in s) + n"]) simp
  qed
qed simp

lemma perform_bus_error: "gp_bus_error (snd (perform lib ss p)) = gp_bus_error p"
proof (induction ss arbitrary: p)
  case (Cons s ss)
  then show ?case by (cases s) (auto simp: call_def split: reply.splits)
qed simp

lemma perform_fails_prefix:
  assumes "perform lib ss p = (r, q)"
  shows "\<exists>n. gp_calls q = gp_calls p @ take n (calls_of ss)" and "gp_bus_error q = gp_bus_error p"
  using perform_prefix [of lib ss p] perform_bus_error [of lib ss p] assms by simp_all

definition dormant :: "gst_call list \<Rightarrow> bool" where "dormant calls = list_all (\<lambda>c. c \<noteq> SetPlaying) calls"

lemma dormant_simps [simp]:
  "dormant []" "dormant (c # cs) \<longleftrightarrow> c \<noteq> SetPlaying \<and> dormant cs" "dormant (xs @ ys) \<longleftrightarrow> dormant xs \<and> dormant ys"
  "dormant (map f zs) \<longleftrightarrow> (\<forall>z \<in> set zs. f z \<noteq> SetPlaying)"
  by (auto simp: dormant_def list_all_iff)

lemma dormant_take: "dormant cs \<Longrightarrow> dormant (take n cs)"
  by (auto simp: dormant_def list_all_iff dest: in_set_takeD)

lemma dormant_concat [simp]: "dormant (concat xss) \<longleftrightarrow> (\<forall>xs \<in> set xss. dormant xs)"
  by (auto simp: dormant_def list_all_iff)

lemma dormant_link_chain [simp]: "dormant (calls_of (link_chain xs))"
  by (induction xs rule: link_chain.induct) simp_all

lemma dormant_cameras [simp]: "dormant (calls_of (attach_cameras cfg demux k srcs))"
  by (induction srcs arbitrary: k)
     (simp_all add: attach_one_camera_output_def attach_snapshot_branch_def configure_osd_def Let_def)

lemma build_dormant: "dormant (calls_of (build_steps cfg))"
  by (cases "bc_tracker cfg")
     (simp_all add: build_steps_def Let_def create_source_element_def configure_streammux_def configure_pgie_def
       configure_tracker_def configure_osd_def attach_probe_def attach_fakesink_def attach_rtsp_out_def
       attach_snapshot_branch_def attach_per_camera_outputs_def comp_def)

section \<open>The end of a run\<close>

text \<open>\<open>ends_by_error evs\<close>: an error message is the first thing that stops the main loop.\<close>

definition ends_by_error :: "loop_event list \<Rightarrow> bool" where
  "ends_by_error evs = (case dropWhile (\<lambda>e. e = OtherMessage) evs of ErrorMessage _ # _ \<Rightarrow> True | _ \<Rightarrow> False)"

lemma main_loop_end:
  "main_loop evs p = Some q \<Longrightarrow> \<not> gp_bus_error p \<Longrightarrow> gp_calls q = gp_calls p \<and> (gp_bus_error q \<longleftrightarrow> ends_by_error evs)"
  by (induction evs p rule: main_loop.induct) (auto simp: ends_by_error_def)

text \<open>\<open>halted calls\<close>: GStreamer was told to stop after it was last told to play.\<close>

definition halted :: "gst_call list \<Rightarrow> bool" where
  "halted calls \<longleftrightarrow> SetPlaying \<notin> set (takeWhile (\<lambda>c. c \<noteq> SetNull) (rev calls))"

lemma halted_append: "halted calls \<Longrightarrow> dormant cs \<Longrightarrow> halted (calls @ cs)"
  by (auto simp: halted_def dormant_def list_all_iff takeWhile_append dest!: set_takeWhileD split: if_split_asm)

lemma halted_snoc: "halted (calls @ [SetNull])"
  by (simp add: halted_def)

lemma dormant_halted: "dormant cs \<Longrightarrow> halted cs"
  by (auto simp: halted_def dormant_def list_all_iff dest!: set_takeWhileD)

lemma do_fails: "perform lib (map Do cs) p = (Inl e, q) \<Longrightarrow> e \<noteq> PipelineBusError"
  by (induction cs arbitrary: p) (auto simp: call_def split: reply.splits)

lemma run_pipeline_end:
  assumes "run_pipeline lib signals evs p = (Some r, q)" and "\<not> gp_bus_error p" and "r = Inr () \<or> r = Inl PipelineBusError"
  shows "halted (gp_calls q) \<and> (r = Inl PipelineBusError \<longleftrightarrow> ends_by_error evs)"
proof -
  let ?begin_steps = "[Do NewMainLoop, Do AddSignalWatch, Do (Connect ''bus'' ''message'' OnBusMessage)]
             @ map (\<lambda>s. Do (AddUnixSignal s)) signals @ [Do SetPlaying]"
  have begin_steps: "?begin_steps = map Do ([NewMainLoop, AddSignalWatch, Connect ''bus'' ''message'' OnBusMessage] @ map AddUnixSignal signals @ [SetPlaying])"
    by simp
  obtain r1 p1 where p1: "perform lib ?begin_steps p = (r1, p1)" by (cases "perform lib ?begin_steps p")
  have "r1 = Inr ()"
  proof (cases r1)
    case (Inl e)
    then have "r = Inl e" using assms(1) p1 by (simp add: run_pipeline_def)
    moreover have "e \<noteq> PipelineBusError" using do_fails p1 Inl unfolding begin_steps by blast
    ultimately show ?thesis using assms(3) by simp
  qed simp
  then obtain p2 where p2: "main_loop evs p1 = Some p2"
    using assms(1) p1 by (auto simp: run_pipeline_def simp del: perform.simps split: option.splits)
  have flag: "\<not> gp_bus_error p1" using perform_fails_prefix(2) [OF p1] assms(2) by simp
  obtain r3 p3 where p3: "perform lib (map Do [SetNull]) p2 = (r3, p3)" by (cases "perform lib (map Do [SetNull]) p2")
  have "r3 = Inr ()"
  proof (cases r3)
    case (Inl e)
    then have "r = Inl e" using assms(1) p1 p2 p3 \<open>r1 = Inr ()\<close> by (simp add: run_pipeline_def del: perform.simps)
    moreover have "e \<noteq> PipelineBusError" using do_fails p3 Inl by blast
    ultimately show ?thesis using assms(3) by simp
  qed simp
  then have calls: "gp_calls p3 = gp_calls p2 @ [SetNull]" using perform_calls [of lib "map Do [SetNull]" p2 "()" p3] p3 by simp
  have bus: "gp_bus_error p3 \<longleftrightarrow> ends_by_error evs"
    using perform_fails_prefix(2) [OF p3] main_loop_end [OF p2 flag] by simp
  have "(if gp_bus_error p3 then (Some (Inl PipelineBusError), p3\<lparr>gp_bus_error := False\<rparr>) else (Some (Inr ()), p3)) = (Some r, q)"
    using assms(1) p1 p2 p3 \<open>r1 = Inr ()\<close> \<open>r3 = Inr ()\<close> by (simp add: run_pipeline_def del: perform.simps)
  then show ?thesis using bus calls halted_snoc by (auto split: if_split_asm)
qed

lemma perform_pipeline: "gp_pipeline p \<Longrightarrow> gp_pipeline (snd (perform lib ss p))"
proof (induction ss arbitrary: p)
  case (Cons s ss)
  then show ?case by (cases s) (auto simp: call_def split: reply.splits)
qed simp

lemma build_pipeline:
  assumes "build lib cfg p = (Inr (), q)"
  shows "gp_pipeline q"
proof -
  obtain steps where steps: "build_steps cfg = Do (NewPipeline ''deepstream-bridge-pipeline'') # KeepPipeline # steps"
    by (simp add: build_steps_def Let_def)
  let ?p' = "p\<lparr>gp_calls := gp_calls p @ [NewPipeline ''deepstream-bridge-pipeline''], gp_pipeline := True\<rparr>"
  have "perform lib steps ?p' = (Inr (), q)"
    using assms by (auto simp: build_def steps call_def split: reply.splits)
  then show ?thesis using perform_pipeline [of ?p' lib steps] by simp
qed

lemma run_pipeline_keeps:
  assumes "run_pipeline lib signals evs p = (r, q)" and "gp_pipeline p"
  shows "gp_pipeline q"
proof -
  have loop: "main_loop evs p1 = Some p2 \<Longrightarrow> gp_pipeline p2 = gp_pipeline p1" for p1 p2
    by (induction evs p1 rule: main_loop.induct) auto
  have keep: "perform lib ss p1 = (u, p2) \<Longrightarrow> gp_pipeline p1 \<Longrightarrow> gp_pipeline p2" for ss p1 u p2
    using perform_pipeline [of p1 lib ss] by simp
  show ?thesis
    using assms unfolding run_pipeline_def
    by (auto simp del: perform.simps dest!: keep loop split: prod.splits sum.splits option.splits if_split_asm)
qed

text \<open>
  The shutdown of a pipeline that was built tells GStreamer to stop, whatever happened before; the only thing that
  can escape it is what this call raises.
\<close>

lemma shutdown_graph_end:
  assumes "shutdown_graph lib p = (r, q)" and "gp_pipeline p"
  shows "case r of
      Inl e \<Rightarrow> gp_calls q = gp_calls p @ [SetNull] \<and> (\<exists>x. e = LibraryError x \<and> lib (gp_calls p) SetNull = Raised x)
    | Inr _ \<Rightarrow> halted (gp_calls q) \<and> \<not> gp_pipeline q \<and> \<not> gp_rtsp_server q \<and> gp_mount_points_added q = []"
proof -
  have keep: "halted (gp_calls (snd (perform lib ss p')))" if "halted (gp_calls p')" "dormant (calls_of ss)" for ss p'
    using perform_prefix [of lib ss p'] halted_append [OF that(1) dormant_take [OF that(2)]] by auto
  show ?thesis
  proof (cases "\<exists>x. lib (gp_calls p) SetNull = Raised x")
    case True
    then show ?thesis using assms by (auto simp: shutdown_graph_def call_def)
  next
    case False
    let ?p1 = "p\<lparr>gp_calls := gp_calls p @ [SetNull]\<rparr>"
    let ?removal = "Do GetMountPoints # map (\<lambda>m. Do (RemoveFactory m)) (gp_mount_points_added p)"
    have "halted (gp_calls ?p1)" "halted (gp_calls (snd (perform lib ?removal ?p1)))"
      using keep [of ?p1 ?removal] by (simp_all add: halted_snoc del: perform.simps)
    moreover have "perform lib [Do SetNull] p = (Inr (), ?p1)" using False by (simp add: call_def split: reply.split)
    ultimately show ?thesis
      using assms unfolding shutdown_graph_def by (auto simp: Let_def simp del: perform.simps split: if_split_asm)
  qed
qed

lemma stop_after_pipeline_end:
  assumes "stop_after_pipeline inp b = (b', left_over)"
  shows "tw_sender (br_transport b') = NoSender" and "tw_sock (br_transport b') = None" and "br_pending b' = br_pending b"
    and "\<not> mi_connect_hangs inp \<Longrightarrow> \<not> mi_reader_hangs inp \<Longrightarrow> left_over = []"
  using assms stop_joining_end by (fastforce simp: stop_after_pipeline_def split: prod.splits)+

lemma operate_end:
  assumes "operate inp p b = (Some res, Some (q, b', left_over))" and "\<not> gp_bus_error p" and "gp_pipeline p"
  shows "tw_sender (br_transport b') = NoSender \<and> tw_sock (br_transport b') = None
      \<and> (\<not> mi_connect_hangs inp \<and> \<not> mi_reader_hangs inp \<longrightarrow> left_over = [])
      \<and> (\<forall>s. br_pending b' s = None) \<and> \<not> gp_pipeline q \<and> gp_mount_points_added q = [] \<and> halted (gp_calls q)
      \<and> (\<forall>code. res = Inr code \<longrightarrow> code = (if ends_by_error (mi_events inp) then EXIT_PIPELINE_ERROR else EXIT_OK))
    \<or> (\<exists>cs x. res = Inl (LibraryError x) \<and> gp_calls q = cs @ [SetNull] \<and> mi_library inp cs SetNull = Raised x)"
proof -
  let ?b = "bridge_run (mi_clock inp) (mi_dumps inp) (mi_loads inp) (mi_calls inp) (on_transport start_transport b)"
  obtain r p1 where run: "run_pipeline (mi_library inp) SHUTDOWN_SIGNALS (mi_events inp) p = (Some r, p1)"
    using assms(1) by (auto simp: operate_def Let_def split: prod.splits option.splits)
  obtain u p2 where down: "shutdown_graph (mi_library inp) p1 = (u, p2)" by (cases "shutdown_graph (mi_library inp) p1")
  note d = shutdown_graph_end [OF down run_pipeline_keeps [OF run assms(3)]]
  show ?thesis
  proof (cases u)
    case (Inl e)
    then show ?thesis using assms(1) run down d by (auto simp: operate_def Let_def)
  next
    case (Inr v)
    then have e: "res = run_exit r" "q = p2" "stop_after_pipeline inp (shutdown_pipeline ?b) = (b', left_over)"
      using assms(1) run down by (simp_all add: operate_def Let_def)
    have "code = (if ends_by_error (mi_events inp) then EXIT_PIPELINE_ERROR else EXIT_OK)" if "res = Inr code" for code
    proof -
      have "r = Inr () \<or> r = Inl PipelineBusError"
        using e(1) that by (cases r) (auto simp: run_exit_def split: if_split_asm)
      from run_pipeline_end [OF run assms(2) this] show ?thesis
        using e(1) that by (auto simp: run_exit_def split: sum.splits if_split_asm)
    qed
    then show ?thesis
      using d Inr e(2) stop_after_pipeline_end [OF e(3)] by (simp add: shutdown_pipeline_def)
  qed
qed

lemma construct_dormant:
  assumes "construct lib snapshots_wired cfg = (r, p)"
  shows "dormant (gp_calls p) \<and> \<not> gp_bus_error p"
proof -
  let ?ss = "[Check ImportGst MissingGStreamerBindingsError, Check ImportPyds MissingPydsError, Do GstInit]"
  have d: "dormant (take n (calls_of ?ss))" for n by (rule dormant_take) simp
  show ?thesis
  proof (cases "sn_enabled (bc_snapshot cfg) \<and> \<not> snapshots_wired")
    case True
    then show ?thesis using assms by (auto simp: construct_def Let_def)
  next
    case False
    then have "perform lib ?ss \<lparr>gp_calls = [], gp_pipeline = False, gp_rtsp_server = False, gp_bus_error = False,
        gp_mount_points_added = []\<rparr> = (r, p)"
      using assms by (simp only: construct_def Let_def if_False)
    from perform_fails_prefix [OF this] d show ?thesis by auto
  qed
qed

text \<open>
  C27.  A Bridge that has exited leaves nothing running.  When \<^verbatim>\<open>main.run\<close> returns an exit code or raises after it has
  made its pipeline, whatever the callbacks, the threads, GStreamer and the main loop did: the transport is stopped
  and its socket is closed, and no thread outlives it unless a \<^verbatim>\<open>connect\<close> or a frame kept it beyond the five seconds
  of its join; either GStreamer was never told to play and the code is not that of success, or it was told to
  stop after that, the pipeline is released, no mount and no waiting frame remains, and an exit code is
  that of a pipeline error exactly when an error message ended the main loop, and success otherwise.  The one
  exception is a library that raises when the shutdown tells it to stop: this escapes before the transport is stopped.
\<close>

theorem bridge_leaves_nothing_running:
  assumes "bridge_main inp = (Some res, Some (p, b, left_over))"
  shows "tw_sender (br_transport b) = NoSender \<and> tw_sock (br_transport b) = None
      \<and> (\<not> mi_connect_hangs inp \<and> \<not> mi_reader_hangs inp \<longrightarrow> left_over = [])
      \<and> (dormant (gp_calls p) \<and> res \<noteq> Inr EXIT_OK
         \<or> halted (gp_calls p) \<and> \<not> gp_pipeline p \<and> gp_mount_points_added p = [] \<and> (\<forall>s. br_pending b s = None)
           \<and> (\<forall>code. res = Inr code \<longrightarrow> code = (if ends_by_error (mi_events inp) then EXIT_PIPELINE_ERROR else EXIT_OK)))
    \<or> (\<exists>cs x. res = Inl (LibraryError x) \<and> gp_calls p = cs @ [SetNull] \<and> mi_library inp cs SetNull = Raised x)"
proof -
  obtain cfg where "run_bridge inp cfg = (Some res, Some (p, b, left_over))"
    using assms by (auto simp: bridge_main_def split: command_line.splits option.splits sum.splits)
  then obtain w r where w: "mk_transport DEFAULT_QUEUE_CAPACITY 16 = Inr w"
    and run: "(case construct (mi_library inp) (r \<noteq> None) cfg of
                  (Inl e, p) \<Rightarrow> (Some (build_exit e), Some (p, new_bridge r w, []))
                | (Inr _, p) \<Rightarrow>
                    (case build (mi_library inp) cfg p of
                       (Inl e, p) \<Rightarrow> (Some (build_exit e), Some (p, new_bridge r w, []))
                     | (Inr _, p) \<Rightarrow> operate inp p (new_bridge r w))) = (Some res, Some (p, b, left_over))"
    by (auto simp: run_bridge_def split: sum.splits)
  have idle: "tw_sender w = NoSender \<and> tw_sock w = None" using w by (auto simp: mk_transport_def split: if_split_asm)
  have failed: "build_exit e \<noteq> Inr EXIT_OK" for e
    by (auto simp: build_exit_def EXIT_OK_def EXIT_MISSING_DEPENDENCY_def EXIT_PIPELINE_ERROR_def)
  obtain r0 p0 where c: "construct (mi_library inp) (r \<noteq> None) cfg = (r0, p0)" by (cases "construct (mi_library inp) (r \<noteq> None) cfg")
  obtain r1 p1 where bd: "build (mi_library inp) cfg p0 = (r1, p1)" by (cases "build (mi_library inp) cfg p0")
  note d0 = construct_dormant [OF c]
  have d1: "dormant (gp_calls p1)" "\<not> gp_bus_error p1"
    using perform_fails_prefix [OF bd [unfolded build_def]] d0 dormant_take [OF build_dormant] by auto
  show ?thesis
  proof (cases "is_ok r0 \<and> is_ok r1")
    case True
    then have "operate inp p1 (new_bridge r w) = (Some res, Some (p, b, left_over))" and "r1 = Inr ()"
      using run c bd by (auto simp: is_ok_iff)
    from operate_end [OF this(1) d1(2) build_pipeline] show ?thesis using bd \<open>r1 = Inr ()\<close> by blast
  next
    case False
    then have "(\<exists>e. res = build_exit e) \<and> b = new_bridge r w \<and> left_over = [] \<and> (p = p0 \<or> p = p1)"
      using run c bd by (cases r0; cases r1) auto
    then show ?thesis using d0 d1 idle failed by (auto simp: new_bridge_def)
  qed
qed

definition demo_main_input :: "loop_event list \<Rightarrow> main_input" where
  "demo_main_input evs =
     \<lparr>mi_command_line = Arguments ''/run/s'' ''/etc/c'', mi_parent_is_dir = (\<lambda>_. True), mi_is_file = (\<lambda>_. True),
      mi_content = (\<lambda>_. Inr (ini_text demo_bridge_template)), mi_library = accepting, mi_events = evs,
      mi_clock = (\<lambda>_. Fin 0), mi_dumps = (\<lambda>_. []), mi_loads = (\<lambda>_. Inl JSONDecodeError), mi_calls = [],
      mi_connect_hangs = False, mi_reader_hangs = False, mi_last_connects = False, mi_last_fault = None\<rparr>"

lemma perform_accepting: "fst (perform accepting ss p) = Inr ()"
  using perform_accepted [of ss p, folded accepting_library] by (simp add: prod_eq_iff)

lemma demo_operate:
  "\<exists>p' b' l. operate (demo_main_input [OtherMessage, ErrorMessage ''e'']) p b = (Some (Inr EXIT_PIPELINE_ERROR), Some (p', b', l))"
  by (simp add: operate_def run_pipeline_def shutdown_graph_def run_exit_def demo_main_input_def split_beta perform_accepting
      perform_bus_error stop_after_pipeline_def Let_def del: perform.simps)

theorem bridge_leaves_nothing_running_witness:
  "\<exists>p b. bridge_main (demo_main_input [OtherMessage, ErrorMessage ''e'']) = (Some (Inr EXIT_PIPELINE_ERROR), Some (p, b, []))
     \<and> tw_sender (br_transport b) = NoSender \<and> (dormant (gp_calls p) \<or> \<not> gp_pipeline p)"
proof -
  let ?inp = "demo_main_input [OtherMessage, ErrorMessage ''e'']"
  have off: "\<not> sn_enabled (bc_snapshot demo_bridge_config)" by code_simp
  have "bridge_main ?inp = run_bridge ?inp demo_bridge_config"
    using demo_bridge_template_loads by (simp add: bridge_main_def demo_main_input_def validate_arguments_def)
  also have "\<exists>p b. run_bridge ?inp demo_bridge_config = operate ?inp p b"
    using off by (simp add: run_bridge_def make_rendezvous_def mk_transport_def DEFAULT_QUEUE_CAPACITY_def construct_def build_def
        demo_main_input_def split_beta perform_accepting Let_def del: perform.simps) blast
  finally obtain p b l where ended: "bridge_main ?inp = (Some (Inr EXIT_PIPELINE_ERROR), Some (p, b, l))" using demo_operate by metis
  have "\<not> mi_connect_hangs ?inp" "\<not> mi_reader_hangs ?inp" by (simp_all add: demo_main_input_def)
  with ended bridge_leaves_nothing_running [OF ended] show ?thesis by blast
qed

text \<open>\<^verbatim>\<open>--help\<close> makes argparse exit with code 0, which becomes the code of an argument error.\<close>

lemma help_exits_with_error: "mi_command_line inp = ArgparseExit (Some 0) \<Longrightarrow> bridge_main inp = (Some (Inr EXIT_ARGUMENT_ERROR), None)"
  by (simp add: bridge_main_def)

end
