(* ===== verification/Settings.thy ===== *)
theory Settings
  imports AgentComponents IniReader
begin

text \<open>
  \<^verbatim>\<open>config/settings.py\<close>: the rules a settings object has to pass, and the components \<^verbatim>\<open>main.py\<close> builds from one
  that passes.  A raw object holds the values after Pydantic has converted the texts of the environment to their
  types; its own message for a broken bound is \<open>limit_message\<close>, and \<open>nan_passes\<close> says whether a bound lets NaN
  through.  The dash of one message, a character beyond 255, is written as a hyphen.
\<close>

section \<open>The settings\<close>

record settings =
  st_backend_base_url :: string
  st_activation_key :: "string option"
  st_root_path :: string
  st_http_timeout_seconds :: pyfloat
  st_credential_validation_interval_seconds :: int
  st_log_level :: string
  st_deepstream_enabled :: bool
  st_deepstream_executable_path :: string
  st_deepstream_config_path :: string
  st_deepstream_working_directory :: string
  st_deepstream_stop_timeout_seconds :: pyfloat
  st_deepstream_restart_policy :: string
  st_deepstream_log_path :: string
  st_deepstream_model_profile :: string
  st_detection_events_enabled :: bool
  st_detection_min_confidence :: pyfloat
  st_detection_cooldown_seconds :: pyfloat
  st_detection_queue_capacity :: int
  st_detection_camera_id :: string
  st_detection_socket_path :: string
  st_detection_sync_enabled :: bool
  st_detection_sync_interval_seconds :: pyfloat
  st_detection_sync_batch_size :: int
  st_detection_sync_initial_backoff_seconds :: pyfloat
  st_detection_sync_max_backoff_seconds :: pyfloat
  st_device_config_enabled :: bool
  st_device_config_refresh_seconds :: pyfloat
  st_device_config_max_cameras :: int
  st_device_config_cache_max_age_seconds :: int
  st_snapshot_capture_enabled :: bool
  st_snapshot_upload_enabled :: bool
  st_snapshot_spool_path :: string
  st_snapshot_jpeg_quality :: int
  st_snapshot_max_file_bytes :: int
  st_snapshot_max_spool_bytes :: int
  st_snapshot_upload_batch_size :: int
  st_snapshot_upload_interval_seconds :: pyfloat
  st_snapshot_upload_initial_backoff_seconds :: pyfloat
  st_snapshot_upload_max_backoff_seconds :: pyfloat
  st_snapshot_frame_ttl_milliseconds :: int
  st_snapshot_max_retained_frames :: int

definition ENV_PREFIX :: string where "ENV_PREFIX = ''WDA_''"

definition ALLOWED_URL_SCHEMES :: "string list" where "ALLOWED_URL_SCHEMES = [''http'', ''https'']"

definition VALID_LOG_LEVELS :: "string list" where
  "VALID_LOG_LEVELS = [''CRITICAL'', ''DEBUG'', ''ERROR'', ''INFO'', ''WARNING'']"

definition VALID_DEEPSTREAM_RESTART_POLICIES :: "string list" where "VALID_DEEPSTREAM_RESTART_POLICIES = [''none'']"

definition DEFAULT_DEEPSTREAM_EXECUTABLE_PATH :: string where
  "DEFAULT_DEEPSTREAM_EXECUTABLE_PATH = ''/usr/bin/deepstream-app''"

section \<open>The rules of the fields\<close>

datatype limit = GreaterThan int | AtLeast int | AtMost int

definition value_error :: "string \<Rightarrow> string" where "value_error m = ''Value error, '' @ m"

definition above :: "(limit \<Rightarrow> string) \<Rightarrow> int \<Rightarrow> int \<Rightarrow> string option" where
  "above limit_message b n = (if b < n then None else Some (limit_message (GreaterThan b)))"

definition between :: "(limit \<Rightarrow> string) \<Rightarrow> int \<Rightarrow> int \<Rightarrow> int \<Rightarrow> string option" where
  "between limit_message l u n =
     (if n < l then Some (limit_message (AtLeast l)) else if u < n then Some (limit_message (AtMost u)) else None)"

definition positive_float :: "(limit \<Rightarrow> string) \<Rightarrow> bool \<Rightarrow> pyfloat \<Rightarrow> string option" where
  "positive_float limit_message nan_passes x =
     (if x = NaN \<and> nan_passes \<or> fl_less (Fin 0) x then None else Some (limit_message (GreaterThan 0)))"

definition probability :: "(limit \<Rightarrow> string) \<Rightarrow> bool \<Rightarrow> pyfloat \<Rightarrow> string option" where
  "probability limit_message nan_passes x =
     (if x = NaN then (if nan_passes then None else Some (limit_message (AtLeast 0)))
      else if fl_less x (Fin 0) then Some (limit_message (AtLeast 0))
      else if fl_less (Fin 1) x then Some (limit_message (AtMost 1)) else None)"

text \<open>\<^verbatim>\<open>SplitResult.hostname\<close>, empty for \<^verbatim>\<open>None\<close>.\<close>

definition hostname :: "string \<Rightarrow> string" where
  "hostname netloc =
     (let hostinfo = rev (takeWhile (\<lambda>c. c \<noteq> CHR ''@'') (rev netloc))
      in if CHR ''['' \<in> set hostinfo
         then takeWhile (\<lambda>c. c \<noteq> CHR '']'') (tl (dropWhile (\<lambda>c. c \<noteq> CHR ''['') hostinfo))
         else takeWhile (\<lambda>c. c \<noteq> CHR '':'') hostinfo)"

text \<open>\<open>netloc_message\<close> is the text of the \<^verbatim>\<open>ValueError\<close> of \<^verbatim>\<open>urlsplit\<close> on a value; it may quote the value.\<close>

definition validate_backend_base_url :: "(string \<Rightarrow> bool) \<Rightarrow> (string \<Rightarrow> string) \<Rightarrow> string \<Rightarrow> string option" where
  "validate_backend_base_url bad_netloc netloc_message value =
     (let stripped = strip value
      in if stripped = [] then Some (value_error ''must not be blank'')
         else case urlsplit bad_netloc stripped of
                Inl _ \<Rightarrow> Some (value_error (netloc_message stripped))
              | Inr (scheme, netloc) \<Rightarrow>
                  if scheme \<notin> set ALLOWED_URL_SCHEMES then Some (value_error ''must use one of the http, https schemes'')
                  else if hostname netloc = [] then Some (value_error ''must include a host'')
                  else None)"

definition ascii_upper :: "char \<Rightarrow> char" where
  "ascii_upper c = (let n = of_char c :: nat in if 97 \<le> n \<and> n \<le> 122 then char_of (n - 32) else c)"

text \<open>No other character becomes a letter of a level name in upper case.\<close>

definition normalize_log_level :: "string \<Rightarrow> string + string" where
  "normalize_log_level value =
     (let normalized = map ascii_upper (strip value)
      in if normalized \<in> set VALID_LOG_LEVELS then Inr normalized
         else Inl ''must be one of CRITICAL, DEBUG, ERROR, INFO, WARNING'')"

definition validate_restart_policy :: "string \<Rightarrow> string option" where
  "validate_restart_policy value =
     (if value \<in> set VALID_DEEPSTREAM_RESTART_POLICIES then None else Some (value_error ''must be one of none''))"

text \<open>\<^verbatim>\<open>^[a-z0-9][a-z0-9-]*$\<close>, where \<^verbatim>\<open>$\<close> also matches before a line break at the end.\<close>

definition profile_body :: "string \<Rightarrow> bool" where
  "profile_body s \<longleftrightarrow> s \<noteq> [] \<and> key_char (hd s) \<and> list_all (\<lambda>c. key_char c \<or> c = CHR ''-'') s"

definition match_profile_name :: "string \<Rightarrow> bool" where
  "match_profile_name s \<longleftrightarrow> profile_body s \<or> s \<noteq> [] \<and> last s = CHR 0x0A \<and> profile_body (butlast s)"

definition validate_model_profile :: "string \<Rightarrow> string option" where
  "validate_model_profile value =
     (if match_profile_name value then None
      else Some (value_error (''must be lowercase alphanumeric, optionally hyphenated (e.g. '' @ [CHR 0x27] @ ''yolov4-fp16'' @ [CHR 0x27] @ '')'')))"

definition validate_camera_id :: "string \<Rightarrow> string option" where
  "validate_camera_id value = (if strip value = [] then Some (value_error ''must not be blank'') else None)"

text \<open>All fields are checked, in the order of their declaration.\<close>

definition field_checks :: "(limit \<Rightarrow> string) \<Rightarrow> bool \<Rightarrow> (string \<Rightarrow> bool) \<Rightarrow> (string \<Rightarrow> string) \<Rightarrow> settings \<Rightarrow> (string \<times> string option) list" where
  "field_checks limit_message nan_passes bad_netloc netloc_message s =
     (let positive = positive_float limit_message nan_passes in
      [(''backend_base_url'', validate_backend_base_url bad_netloc netloc_message (st_backend_base_url s)),
       (''http_timeout_seconds'', positive (st_http_timeout_seconds s)),
       (''credential_validation_interval_seconds'', above limit_message 0 (st_credential_validation_interval_seconds s)),
       (''log_level'', (case normalize_log_level (st_log_level s) of Inl m \<Rightarrow> Some (value_error m) | Inr _ \<Rightarrow> None)),
       (''deepstream_stop_timeout_seconds'', positive (st_deepstream_stop_timeout_seconds s)),
       (''deepstream_restart_policy'', validate_restart_policy (st_deepstream_restart_policy s)),
       (''deepstream_model_profile'', validate_model_profile (st_deepstream_model_profile s)),
       (''detection_min_confidence'', probability limit_message nan_passes (st_detection_min_confidence s)),
       (''detection_cooldown_seconds'', positive (st_detection_cooldown_seconds s)),
       (''detection_queue_capacity'', above limit_message 0 (st_detection_queue_capacity s)),
       (''detection_camera_id'', validate_camera_id (st_detection_camera_id s)),
       (''detection_sync_interval_seconds'', positive (st_detection_sync_interval_seconds s)),
       (''detection_sync_batch_size'', between limit_message 1 100 (st_detection_sync_batch_size s)),
       (''detection_sync_initial_backoff_seconds'', positive (st_detection_sync_initial_backoff_seconds s)),
       (''detection_sync_max_backoff_seconds'', positive (st_detection_sync_max_backoff_seconds s)),
       (''device_config_refresh_seconds'', positive (st_device_config_refresh_seconds s)),
       (''device_config_max_cameras'',
          (if st_device_config_max_cameras s < 1 then Some (limit_message (AtLeast 1)) else None)),
       (''device_config_cache_max_age_seconds'',
          (if st_device_config_cache_max_age_seconds s < 0 then Some (limit_message (AtLeast 0)) else None)),
       (''snapshot_jpeg_quality'', between limit_message 1 100 (st_snapshot_jpeg_quality s)),
       (''snapshot_max_file_bytes'', above limit_message 0 (st_snapshot_max_file_bytes s)),
       (''snapshot_max_spool_bytes'', above limit_message 0 (st_snapshot_max_spool_bytes s)),
       (''snapshot_upload_batch_size'', above limit_message 0 (st_snapshot_upload_batch_size s)),
       (''snapshot_upload_interval_seconds'', positive (st_snapshot_upload_interval_seconds s)),
       (''snapshot_upload_initial_backoff_seconds'', positive (st_snapshot_upload_initial_backoff_seconds s)),
       (''snapshot_upload_max_backoff_seconds'', positive (st_snapshot_upload_max_backoff_seconds s)),
       (''snapshot_frame_ttl_milliseconds'', above limit_message 0 (st_snapshot_frame_ttl_milliseconds s)),
       (''snapshot_max_retained_frames'', above limit_message 0 (st_snapshot_max_retained_frames s))])"

section \<open>The rules across fields\<close>

text \<open>\<^verbatim>\<open>"; ".join\<close>.\<close>

fun join_semicolon :: "string list \<Rightarrow> string" where
  "join_semicolon [] = []"
| "join_semicolon [p] = p"
| "join_semicolon (p # ps) = p @ ''; '' @ join_semicolon ps"

definition EVENTS_NEED_DEEPSTREAM :: string where
  "EVENTS_NEED_DEEPSTREAM = ''WDA_DETECTION_EVENTS_ENABLED=true requires WDA_DEEPSTREAM_ENABLED=true (a detection pipeline needs a supervised DeepStream/Bridge process to read from)''"

definition EVENTS_NEED_BRIDGE :: string where
  "EVENTS_NEED_BRIDGE = ''WDA_DETECTION_EVENTS_ENABLED=true requires WDA_DEEPSTREAM_EXECUTABLE_PATH to be repointed away from the reference binary default ('' @ DEFAULT_DEEPSTREAM_EXECUTABLE_PATH @ '') at a Bridge-compatible launcher (e.g. .../deepstream-bridge/run.sh) - the reference binary cannot publish the detection-event Unix-socket protocol''"

definition events_require_pipeline :: "settings \<Rightarrow> string option" where
  "events_require_pipeline s =
     (if \<not> st_detection_events_enabled s then None
      else let problems = (if st_deepstream_enabled s then [] else [EVENTS_NEED_DEEPSTREAM])
                 @ (if st_deepstream_executable_path s = DEFAULT_DEEPSTREAM_EXECUTABLE_PATH then [EVENTS_NEED_BRIDGE] else [])
           in if problems \<noteq> [] then Some (join_semicolon problems) else None)"

definition sync_backoff_bounds :: "settings \<Rightarrow> string option" where
  "sync_backoff_bounds s =
     (if fl_less (st_detection_sync_max_backoff_seconds s) (st_detection_sync_initial_backoff_seconds s)
      then Some ''WDA_DETECTION_SYNC_MAX_BACKOFF_SECONDS must be greater than or equal to WDA_DETECTION_SYNC_INITIAL_BACKOFF_SECONDS''
      else None)"

definition upload_backoff_bounds :: "settings \<Rightarrow> string option" where
  "upload_backoff_bounds s =
     (if fl_less (st_snapshot_upload_max_backoff_seconds s) (st_snapshot_upload_initial_backoff_seconds s)
      then Some ''WDA_SNAPSHOT_UPLOAD_MAX_BACKOFF_SECONDS must be greater than or equal to WDA_SNAPSHOT_UPLOAD_INITIAL_BACKOFF_SECONDS''
      else None)"

definition spool_fits_one_file :: "settings \<Rightarrow> string option" where
  "spool_fits_one_file s =
     (if st_snapshot_max_spool_bytes s < st_snapshot_max_file_bytes s
      then Some ''WDA_SNAPSHOT_MAX_SPOOL_BYTES must be greater than or equal to WDA_SNAPSHOT_MAX_FILE_BYTES'' else None)"

definition capture_requires_events :: "settings \<Rightarrow> string option" where
  "capture_requires_events s =
     (if st_snapshot_capture_enabled s \<and> \<not> st_detection_events_enabled s
      then Some ''WDA_SNAPSHOT_CAPTURE_ENABLED=true requires WDA_DETECTION_EVENTS_ENABLED=true (snapshot capture rides on the detection ingest connection)''
      else None)"

text \<open>The rules across fields are checked in their order when every field is fine, and the first that is broken ends the check.\<close>

definition model_problem :: "settings \<Rightarrow> string option" where
  "model_problem s =
     (case events_require_pipeline s of Some m \<Rightarrow> Some m | None \<Rightarrow>
      case sync_backoff_bounds s of Some m \<Rightarrow> Some m | None \<Rightarrow>
      case upload_backoff_bounds s of Some m \<Rightarrow> Some m | None \<Rightarrow>
      case spool_fits_one_file s of Some m \<Rightarrow> Some m | None \<Rightarrow> capture_requires_events s)"

definition normalized :: "settings \<Rightarrow> settings" where
  "normalized s =
     s\<lparr>st_backend_base_url := strip (st_backend_base_url s),
       st_log_level := (case normalize_log_level (st_log_level s) of Inl _ \<Rightarrow> st_log_level s | Inr l \<Rightarrow> l)\<rparr>"

definition new_settings :: "(limit \<Rightarrow> string) \<Rightarrow> bool \<Rightarrow> (string \<Rightarrow> bool) \<Rightarrow> (string \<Rightarrow> string) \<Rightarrow> settings \<Rightarrow> (string \<times> string) list + settings" where
  "new_settings limit_message nan_passes bad_netloc netloc_message s =
     (let broken = concat (map (\<lambda>(f, p). case p of None \<Rightarrow> [] | Some m \<Rightarrow> [(f, m)])
            (field_checks limit_message nan_passes bad_netloc netloc_message s))
      in if broken \<noteq> [] then Inl broken
         else case model_problem (normalized s) of
                Some m \<Rightarrow> Inl [([], value_error m)]
              | None \<Rightarrow> Inr (normalized s))"

definition describe_problem :: "string \<times> string \<Rightarrow> string" where
  "describe_problem p =
     (case p of (field, message) \<Rightarrow>
        (if field = [] then ''configuration'' else ENV_PREFIX @ map ascii_upper field) @ '' ''
        @ (if starts_with ''Value error, '' message then drop (length ''Value error, '') message else message))"

definition describe :: "(string \<times> string) list \<Rightarrow> string" where
  "describe problems = ''Invalid Agent configuration: '' @ join_semicolon (map describe_problem problems) @ ''.''"

text \<open>\<^verbatim>\<open>load_settings\<close>: the settings, or the message of the \<^verbatim>\<open>ConfigurationError\<close>.\<close>

definition load_settings :: "(limit \<Rightarrow> string) \<Rightarrow> bool \<Rightarrow> (string \<Rightarrow> bool) \<Rightarrow> (string \<Rightarrow> string) \<Rightarrow> settings \<Rightarrow> string + settings" where
  "load_settings limit_message nan_passes bad_netloc netloc_message s =
     (case new_settings limit_message nan_passes bad_netloc netloc_message s of
        Inl problems \<Rightarrow> Inl (describe problems) | Inr st \<Rightarrow> Inr st)"

section \<open>The components of an agent\<close>

text \<open>
  What the factories use that is not theirs: the constructor of the HTTP client on a URL, the label file of a
  path, the libraries, and \<open>resolver\<close>, the lookup of a camera by its source.
\<close>

record factory_input =
  fi_new_client :: "string \<Rightarrow> exn + unit"
  fi_read_labels :: "string \<Rightarrow> exn + string"
  fi_dumps :: "json \<Rightarrow> bytes"
  fi_wide_uuid :: "utext \<Rightarrow> exn + uuid"
  fi_sha256 :: "bytes \<Rightarrow> string"
  fi_time :: time_library
  fi_bad_netloc :: "string \<Rightarrow> bool"
  fi_show_float :: "pyfloat \<Rightarrow> string"
  fi_resolver :: "int \<Rightarrow> uuid option"
  fi_template :: "string option"

definition resolve_class_labels_path :: "settings \<Rightarrow> string" where
  "resolve_class_labels_path st =
     st_root_path st @ ''/config/deepstream/profiles/'' @ st_deepstream_model_profile st @ ''/labels.txt''"

definition sync_tuning :: "settings \<Rightarrow> tuning" where
  "sync_tuning st =
     \<lparr>tn_batch_size = st_detection_sync_batch_size st, tn_idle_interval = st_detection_sync_interval_seconds st,
      tn_initial_backoff = st_detection_sync_initial_backoff_seconds st, tn_max_backoff = st_detection_sync_max_backoff_seconds st\<rparr>"

definition upload_tuning :: "settings \<Rightarrow> tuning" where
  "upload_tuning st =
     \<lparr>tn_batch_size = st_snapshot_upload_batch_size st, tn_idle_interval = st_snapshot_upload_interval_seconds st,
      tn_initial_backoff = st_snapshot_upload_initial_backoff_seconds st, tn_max_backoff = st_snapshot_upload_max_backoff_seconds st\<rparr>"

text \<open>The coordinator has no batches; its backoff has the defaults of its constructor.\<close>

definition coordinator_tuning :: "settings \<Rightarrow> tuning" where
  "coordinator_tuning st =
     \<lparr>tn_batch_size = 1, tn_idle_interval = st_device_config_refresh_seconds st, tn_initial_backoff = Fin 1, tn_max_backoff = Fin 60\<rparr>"

definition build_sync :: "factory_input \<Rightarrow> settings \<Rightarrow> exn + tuning option" where
  "build_sync fi st =
     (if \<not> st_detection_sync_enabled st then Inr None
      else bind_result (fi_new_client fi (st_backend_base_url st)) (\<lambda>_.
           bind_result (mk_tuning (sync_tuning st)) (\<lambda>t. Inr (Some t))))"

definition build_upload :: "factory_input \<Rightarrow> settings \<Rightarrow> exn + tuning option" where
  "build_upload fi st =
     (if \<not> st_snapshot_upload_enabled st then Inr None
      else bind_result (fi_new_client fi (st_backend_base_url st)) (\<lambda>_.
           bind_result (mk_tuning (upload_tuning st)) (\<lambda>t. Inr (Some t))))"

definition build_coordinator :: "factory_input \<Rightarrow> settings \<Rightarrow> exn + tuning option" where
  "build_coordinator fi st =
     (if \<not> st_device_config_enabled st then Inr None
      else bind_result (fi_new_client fi (st_backend_base_url st)) (\<lambda>_.
           bind_result (mk_coordinator_tuning (coordinator_tuning st)) (\<lambda>t. Inr (Some t))))"

definition build_detection :: "factory_input \<Rightarrow> settings \<Rightarrow> store \<Rightarrow> socket_path \<Rightarrow> exn + ((int \<times> string) list \<times> ingest) option" where
  "build_detection fi st store socket =
     (if \<not> st_deepstream_enabled st \<or> \<not> st_detection_events_enabled st then Inr None
      else bind_result (load_class_names (fi_read_labels fi (resolve_class_labels_path st))) (\<lambda>names.
           bind_result (mk_tracker (st_detection_cooldown_seconds st)) (\<lambda>tracker.
           bind_result (mk_ingest_handler (st_detection_queue_capacity st) (st_snapshot_capture_enabled st)
                          (st_snapshot_capture_enabled st) tracker store socket) (\<lambda>handler.
           Inr (Some (names, handler))))))"

definition ingest_config_of :: "factory_input \<Rightarrow> settings \<Rightarrow> (int \<times> string) list \<Rightarrow> ingest_config" where
  "ingest_config_of fi st names =
     \<lparr>ic_queue_capacity = nat (st_detection_queue_capacity st), ic_camera_id = st_detection_camera_id st,
      ic_camera_id_resolver = (if st_device_config_enabled st then Some (fi_resolver fi) else None),
      ic_class_names = map_of names, ic_min_confidence = st_detection_min_confidence st,
      ic_snapshot_capture_enabled = st_snapshot_capture_enabled st, ic_spool_path = st_snapshot_spool_path st,
      ic_max_file_bytes = st_snapshot_max_file_bytes st, ic_max_spool_bytes = st_snapshot_max_spool_bytes st,
      ic_dumps = fi_dumps fi, ic_wide_uuid = fi_wide_uuid fi, ic_sha256 = fi_sha256 fi\<rparr>"

definition config_settings_of :: "factory_input \<Rightarrow> settings \<Rightarrow> config_settings" where
  "config_settings_of fi st =
     \<lparr>cs_base_url = st_backend_base_url st, cs_time = fi_time fi, cs_bad_netloc = fi_bad_netloc fi,
      cs_show_float = fi_show_float fi, cs_max_cameras = st_device_config_max_cameras st, cs_tuning = coordinator_tuning st\<rparr>"

text \<open>\<^verbatim>\<open>_components_factory\<close> of \<^verbatim>\<open>main.py\<close>: the coordinator is built first, and the order is that of \<open>enabled_kinds\<close>.\<close>

definition components_factory :: "factory_input \<Rightarrow> settings \<Rightarrow> store \<Rightarrow> socket_path \<Rightarrow> exn + agent_settings" where
  "components_factory fi st store socket =
     bind_result (build_coordinator fi st) (\<lambda>_.
     bind_result (build_detection fi st store socket) (\<lambda>detection.
     bind_result (build_sync fi st) (\<lambda>_.
     bind_result (build_upload fi st) (\<lambda>_.
     Inr \<lparr>ag_deepstream_enabled = st_deepstream_enabled st, ag_detection_events_enabled = st_detection_events_enabled st,
       ag_device_config_enabled = st_device_config_enabled st, ag_detection_sync_enabled = st_detection_sync_enabled st,
       ag_snapshot_upload_enabled = st_snapshot_upload_enabled st,
       ag_ingest_config = ingest_config_of fi st (case detection of None \<Rightarrow> [] | Some (names, _) \<Rightarrow> names),
       ag_config_settings = config_settings_of fi st, ag_deepstream_config = fi_template fi\<rparr>))))"

section \<open>Settings that load build an agent\<close>

lemma field_check_passes:
  assumes "new_settings lm np bad nm s = Inr st"
  shows "list_all (\<lambda>(f, p). p = None) (field_checks lm np bad nm s)" and "model_problem st = None" and "st = normalized s"
proof -
  let ?broken = "concat (map (\<lambda>(f, p). case p of None \<Rightarrow> [] | Some m \<Rightarrow> [(f, m)]) (field_checks lm np bad nm s))"
  have b: "?broken = []" and m: "model_problem (normalized s) = None" and "st = normalized s"
    using assms by (auto simp: new_settings_def Let_def split: if_split_asm option.splits)
  show "list_all (\<lambda>(f, p). p = None) (field_checks lm np bad nm s)"
    using b by (fastforce simp: list_all_iff split: option.splits)
  show "st = normalized s" by fact
  then show "model_problem st = None" using m by simp
qed

lemma load_settings_Inr: "load_settings lm np bad nm s = Inr st \<longleftrightarrow> new_settings lm np bad nm s = Inr st"
  by (simp add: load_settings_def split: sum.split)

lemma not_le_not_less: "\<not> fl_le x (Fin 0) \<Longrightarrow> \<not> fl_less x (Fin 0)"
  by (cases x) auto

lemma positive_float_None: "positive_float lm np x = None \<Longrightarrow> \<not> fl_le x (Fin 0)"
  by (cases x) (auto simp: positive_float_def split: if_split_asm)

lemma loaded_fields:
  assumes "load_settings lm np bad nm s = Inr st"
  shows "\<forall>x \<in> {st_http_timeout_seconds st, st_deepstream_stop_timeout_seconds st, st_detection_cooldown_seconds st,
      st_detection_sync_interval_seconds st, st_detection_sync_initial_backoff_seconds st, st_device_config_refresh_seconds st,
      st_snapshot_upload_interval_seconds st, st_snapshot_upload_initial_backoff_seconds st}. \<not> fl_le x (Fin 0)"
    and "0 < st_detection_queue_capacity st" and "1 \<le> st_detection_sync_batch_size st \<and> st_detection_sync_batch_size st \<le> 100"
    and "0 < st_snapshot_upload_batch_size st" and "0 < st_credential_validation_interval_seconds st"
    and "1 \<le> st_device_config_max_cameras st" and "0 < st_snapshot_max_file_bytes st"
    and "\<not> fl_less (st_detection_min_confidence st) (Fin 0) \<and> \<not> fl_less (Fin 1) (st_detection_min_confidence st)"
    and "strip (st_detection_camera_id st) \<noteq> []"
proof -
  note f = field_check_passes [OF assms [unfolded load_settings_Inr]]
  have st: "st = normalized s" by (fact f(3))
  note c = f(1) [unfolded field_checks_def Let_def list.pred_inject prod.case]
  show "\<forall>x \<in> {st_http_timeout_seconds st, st_deepstream_stop_timeout_seconds st, st_detection_cooldown_seconds st,
      st_detection_sync_interval_seconds st, st_detection_sync_initial_backoff_seconds st, st_device_config_refresh_seconds st,
      st_snapshot_upload_interval_seconds st, st_snapshot_upload_initial_backoff_seconds st}. \<not> fl_le x (Fin 0)"
    using c by (simp add: st normalized_def positive_float_None [of lm np])
  show "0 < st_detection_queue_capacity st" "0 < st_snapshot_upload_batch_size st" "0 < st_credential_validation_interval_seconds st"
    "0 < st_snapshot_max_file_bytes st"
    using c by (simp_all add: st normalized_def above_def split: if_split_asm)
  show "1 \<le> st_detection_sync_batch_size st \<and> st_detection_sync_batch_size st \<le> 100" "1 \<le> st_device_config_max_cameras st"
    using c by (simp_all add: st normalized_def between_def split: if_split_asm)
  show "\<not> fl_less (st_detection_min_confidence st) (Fin 0) \<and> \<not> fl_less (Fin 1) (st_detection_min_confidence st)"
    using c by (cases "st_detection_min_confidence st") (auto simp: st normalized_def probability_def split: if_split_asm)
  show "strip (st_detection_camera_id st) \<noteq> []"
    using c by (simp add: st normalized_def validate_camera_id_def split: if_split_asm)
qed

lemma loaded_bounds:
  assumes "load_settings lm np bad nm s = Inr st"
  shows "\<not> fl_less (st_detection_sync_max_backoff_seconds st) (st_detection_sync_initial_backoff_seconds st)"
    and "\<not> fl_less (st_snapshot_upload_max_backoff_seconds st) (st_snapshot_upload_initial_backoff_seconds st)"
    and "st_snapshot_max_file_bytes st \<le> st_snapshot_max_spool_bytes st"
    and "st_snapshot_capture_enabled st \<Longrightarrow> st_detection_events_enabled st"
    and "st_detection_events_enabled st \<Longrightarrow>
      st_deepstream_enabled st \<and> st_deepstream_executable_path st \<noteq> DEFAULT_DEEPSTREAM_EXECUTABLE_PATH"
  using field_check_passes(2) [OF assms [unfolded load_settings_Inr]]
  by (auto simp: model_problem_def events_require_pipeline_def sync_backoff_bounds_def upload_backoff_bounds_def
      spool_fits_one_file_def capture_requires_events_def Let_def split: option.splits if_split_asm)

text \<open>
  C18.  Settings that load build an agent.  When the settings load, the HTTP client
  accepts the URL and the labels can be read if detection is on, then the factories of all enabled components
  succeed, whatever the values; the agent has exactly the components that the switches enable, detection
  only with DeepStream; and the ingest handler gets a positive capacity, a threshold between 0 and 1, a camera
  name that is not blank, and a quota that holds at least one file of the largest size.
\<close>

theorem loaded_settings_build_agent:
  assumes "load_settings lm np bad nm s = Inr st"
    and "fi_new_client fi (st_backend_base_url st) = Inr ()"
    and "st_detection_events_enabled st \<longrightarrow> is_ok (load_class_names (fi_read_labels fi (resolve_class_labels_path st)))"
  shows "\<exists>a. components_factory fi st store socket = Inr a
    \<and> enabled_kinds a = (if st_detection_events_enabled st then [DetectionIngest] else [])
        @ (if st_deepstream_enabled st \<and> \<not> st_device_config_enabled st then [DeepStreamProcess] else [])
        @ (if st_device_config_enabled st then [DeviceConfigurationKind] else [])
        @ (if st_detection_sync_enabled st then [DetectionSync] else [])
        @ (if st_snapshot_upload_enabled st then [SnapshotUpload] else [])
    \<and> 0 < ic_queue_capacity (ag_ingest_config a)
    \<and> \<not> fl_less (ic_min_confidence (ag_ingest_config a)) (Fin 0) \<and> \<not> fl_less (Fin 1) (ic_min_confidence (ag_ingest_config a))
    \<and> \<not> blank (ic_camera_id (ag_ingest_config a))
    \<and> 0 < ic_max_file_bytes (ag_ingest_config a) \<and> ic_max_file_bytes (ag_ingest_config a) \<le> ic_max_spool_bytes (ag_ingest_config a)"
proof -
  note f = loaded_fields [OF assms(1)] and b = loaded_bounds [OF assms(1)]
  have sync: "is_ok (build_sync fi st)" and upload: "is_ok (build_upload fi st)" and coord: "is_ok (build_coordinator fi st)"
    using f(1-4) b(1,2) assms(2)
    by (simp_all add: build_sync_def build_upload_def build_coordinator_def mk_tuning_def mk_coordinator_tuning_def sync_tuning_def
        upload_tuning_def coordinator_tuning_def)
  have detection: "is_ok (build_detection fi st store socket)"
    using f(1,2) assms(3) by (auto simp: build_detection_def mk_tracker_def mk_ingest_handler_def not_le_not_less is_ok_iff)
  obtain d a where a: "components_factory fi st store socket = Inr a"
    and e: "ag_deepstream_enabled a = st_deepstream_enabled st" "ag_detection_events_enabled a = st_detection_events_enabled st"
      "ag_device_config_enabled a = st_device_config_enabled st" "ag_detection_sync_enabled a = st_detection_sync_enabled st"
      "ag_snapshot_upload_enabled a = st_snapshot_upload_enabled st" "ag_ingest_config a = ingest_config_of fi st d"
    using sync upload coord detection by (auto simp: components_factory_def is_ok_iff)
  have "enabled_kinds a = (if st_detection_events_enabled st then [DetectionIngest] else [])
        @ (if st_deepstream_enabled st \<and> \<not> st_device_config_enabled st then [DeepStreamProcess] else [])
        @ (if st_device_config_enabled st then [DeviceConfigurationKind] else [])
        @ (if st_detection_sync_enabled st then [DetectionSync] else [])
        @ (if st_snapshot_upload_enabled st then [SnapshotUpload] else [])"
    using b(5) by (auto simp: enabled_kinds_def e)
  then show ?thesis using a f(2,7-9) b(3) by (simp add: e ingest_config_of_def blank_def strip_def)
qed

text \<open>The defaults of the declaration, and the settings of an agent with every switch on.\<close>

definition default_settings :: "string \<Rightarrow> settings" where
  "default_settings backend_base_url =
     \<lparr>st_backend_base_url = backend_base_url, st_activation_key = None, st_root_path = ''/opt/weapon-detection'',
      st_http_timeout_seconds = Fin 10, st_credential_validation_interval_seconds = 30, st_log_level = ''INFO'',
      st_deepstream_enabled = False, st_deepstream_executable_path = DEFAULT_DEEPSTREAM_EXECUTABLE_PATH,
      st_deepstream_config_path = ''/opt/weapon-detection/config/deepstream/deepstream-app.txt'',
      st_deepstream_working_directory = ''/opt/weapon-detection'', st_deepstream_stop_timeout_seconds = Fin 10,
      st_deepstream_restart_policy = ''none'',
      st_deepstream_log_path = ''/opt/weapon-detection/logs/deepstream/deepstream.log'',
      st_deepstream_model_profile = ''yolo26-fp16'', st_detection_events_enabled = False,
      st_detection_min_confidence = Fin (1 / 2), st_detection_cooldown_seconds = Fin 5, st_detection_queue_capacity = 1000,
      st_detection_camera_id = ''camera1'', st_detection_socket_path = ''/opt/weapon-detection/runtime/detection.sock'',
      st_detection_sync_enabled = False, st_detection_sync_interval_seconds = Fin 1, st_detection_sync_batch_size = 25,
      st_detection_sync_initial_backoff_seconds = Fin 1, st_detection_sync_max_backoff_seconds = Fin 60,
      st_device_config_enabled = False, st_device_config_refresh_seconds = Fin 30, st_device_config_max_cameras = 8,
      st_device_config_cache_max_age_seconds = 0, st_snapshot_capture_enabled = False, st_snapshot_upload_enabled = False,
      st_snapshot_spool_path = ''/opt/weapon-detection/snapshots'', st_snapshot_jpeg_quality = 85,
      st_snapshot_max_file_bytes = 5242880, st_snapshot_max_spool_bytes = 1073741824, st_snapshot_upload_batch_size = 5,
      st_snapshot_upload_interval_seconds = Fin 2, st_snapshot_upload_initial_backoff_seconds = Fin 1,
      st_snapshot_upload_max_backoff_seconds = Fin 60, st_snapshot_frame_ttl_milliseconds = 750,
      st_snapshot_max_retained_frames = 4\<rparr>"

definition demo_full_settings :: settings where
  "demo_full_settings = (default_settings ''http://h:1'')\<lparr>st_deepstream_enabled := True, st_detection_events_enabled := True,
     st_deepstream_executable_path := ''/b/run.sh'', st_device_config_enabled := True, st_detection_sync_enabled := True,
     st_snapshot_capture_enabled := True, st_snapshot_upload_enabled := True\<rparr>"

definition demo_factory_input :: factory_input where
  "demo_factory_input = \<lparr>fi_new_client = (\<lambda>_. Inr ()), fi_read_labels = (\<lambda>_. Inr ''gun''), fi_dumps = (\<lambda>_. []),
     fi_wide_uuid = (\<lambda>_. Inl ValueError), fi_sha256 = (\<lambda>_. []), fi_time = demo_time, fi_bad_netloc = (\<lambda>_. False),
     fi_show_float = (\<lambda>_. []), fi_resolver = (\<lambda>_. None), fi_template = None\<rparr>"

lemma default_field_checks:
  assumes "validate_backend_base_url bad nm url = None"
  shows "list_all (\<lambda>(f, p). p = None) (field_checks lm np bad nm (default_settings url))"
proof -
  have "normalize_log_level ''INFO'' = Inr ''INFO''" "match_profile_name ''yolo26-fp16''" "strip ''camera1'' \<noteq> []"
    by (code_simp, code_simp, code_simp)
  then show ?thesis
    using assms by (simp add: field_checks_def default_settings_def Let_def above_def between_def positive_float_def probability_def
        validate_restart_policy_def VALID_DEEPSTREAM_RESTART_POLICIES_def validate_model_profile_def validate_camera_id_def)
qed

lemma new_settings_loads:
  assumes "list_all (\<lambda>(f, p). p = None) (field_checks lm np bad nm s)" and "model_problem (normalized s) = None"
  shows "load_settings lm np bad nm s = Inr (normalized s)"
proof -
  have "concat (map (\<lambda>(f, p). case p of None \<Rightarrow> [] | Some m \<Rightarrow> [(f, m)]) (field_checks lm np bad nm s)) = []"
    using assms(1) by (auto simp: list_all_iff)
  then show ?thesis using assms(2) by (simp add: load_settings_Inr new_settings_def Let_def)
qed

lemma demo_url_ok: "validate_backend_base_url (\<lambda>_. False) (\<lambda>_. []) ''http://h:1'' = None"
  by code_simp

lemma demo_full_loads: "load_settings (\<lambda>_. []) False (\<lambda>_. False) (\<lambda>_. []) demo_full_settings = Inr (normalized demo_full_settings)"
proof (rule new_settings_loads)
  have "field_checks (\<lambda>_. []) False (\<lambda>_. False) (\<lambda>_. []) demo_full_settings
      = field_checks (\<lambda>_. []) False (\<lambda>_. False) (\<lambda>_. []) (default_settings ''http://h:1'')"
    by (simp add: field_checks_def demo_full_settings_def default_settings_def Let_def)
  then show "list_all (\<lambda>(f, p). p = None) (field_checks (\<lambda>_. []) False (\<lambda>_. False) (\<lambda>_. []) demo_full_settings)"
    using default_field_checks [OF demo_url_ok] by simp
  show "model_problem (normalized demo_full_settings) = None"
    by (simp add: model_problem_def events_require_pipeline_def sync_backoff_bounds_def upload_backoff_bounds_def
        spool_fits_one_file_def capture_requires_events_def normalized_def demo_full_settings_def default_settings_def
        DEFAULT_DEEPSTREAM_EXECUTABLE_PATH_def Let_def)
qed

theorem loaded_settings_build_agent_witness:
  "\<exists>a. components_factory demo_factory_input (normalized demo_full_settings) demo_store Absent = Inr a
     \<and> enabled_kinds a = [DetectionIngest, DeviceConfigurationKind, DetectionSync, SnapshotUpload]
     \<and> 0 < ic_queue_capacity (ag_ingest_config a)"
proof -
  let ?st = "normalized demo_full_settings"
  have client: "fi_new_client demo_factory_input (st_backend_base_url ?st) = Inr ()" by (simp add: demo_factory_input_def)
  have "is_ok (load_class_names (Inr ''gun''))" by code_simp
  then have labels: "st_detection_events_enabled ?st
      \<longrightarrow> is_ok (load_class_names (fi_read_labels demo_factory_input (resolve_class_labels_path ?st)))"
    by (simp add: demo_factory_input_def)
  from loaded_settings_build_agent [OF demo_full_loads client labels, of demo_store Absent]
  show ?thesis by (auto simp: normalized_def demo_full_settings_def default_settings_def)
qed

section \<open>What a failure says\<close>

text \<open>
  Every problem a failure can report: the name of a field, or none, with the text of a rule.  The lists do not
  depend on the values of the settings.
\<close>

definition rule_texts :: "(limit \<Rightarrow> string) \<Rightarrow> string \<Rightarrow> string list" where
  "rule_texts lm nm =
     [lm (GreaterThan 0), lm (AtLeast 0), lm (AtLeast 1), lm (AtMost 1), lm (AtMost 100), value_error ''must not be blank'',
      value_error nm, value_error ''must use one of the http, https schemes'', value_error ''must include a host'',
      value_error ''must be one of CRITICAL, DEBUG, ERROR, INFO, WARNING'', value_error ''must be one of none'',
      value_error (''must be lowercase alphanumeric, optionally hyphenated (e.g. '' @ [CHR 0x27] @ ''yolov4-fp16'' @ [CHR 0x27] @ '')'')]"

definition cross_field_texts :: "string list" where
  "cross_field_texts =
     [EVENTS_NEED_DEEPSTREAM, EVENTS_NEED_BRIDGE, EVENTS_NEED_DEEPSTREAM @ ''; '' @ EVENTS_NEED_BRIDGE,
      ''WDA_DETECTION_SYNC_MAX_BACKOFF_SECONDS must be greater than or equal to WDA_DETECTION_SYNC_INITIAL_BACKOFF_SECONDS'',
      ''WDA_SNAPSHOT_UPLOAD_MAX_BACKOFF_SECONDS must be greater than or equal to WDA_SNAPSHOT_UPLOAD_INITIAL_BACKOFF_SECONDS'',
      ''WDA_SNAPSHOT_MAX_SPOOL_BYTES must be greater than or equal to WDA_SNAPSHOT_MAX_FILE_BYTES'',
      ''WDA_SNAPSHOT_CAPTURE_ENABLED=true requires WDA_DETECTION_EVENTS_ENABLED=true (snapshot capture rides on the detection ingest connection)'']"

definition field_names :: "string list" where
  "field_names = map fst (field_checks (\<lambda>_. []) False (\<lambda>_. False) (\<lambda>_. []) (default_settings []))"

definition known_problems :: "(limit \<Rightarrow> string) \<Rightarrow> string \<Rightarrow> (string \<times> string) list" where
  "known_problems lm nm =
     List.product field_names (rule_texts lm nm) @ map (\<lambda>m. ([], value_error m)) cross_field_texts"

lemma field_names_fixed: "map fst (field_checks lm np bad nm s) = field_names"
  by (simp add: field_names_def field_checks_def Let_def)

lemma normalize_log_level_text: "normalize_log_level l = Inl m \<Longrightarrow> m = ''must be one of CRITICAL, DEBUG, ERROR, INFO, WARNING''"
  by (auto simp: normalize_log_level_def Let_def split: if_split_asm)

lemma check_texts:
  "above lm 0 n = Some m \<Longrightarrow> m \<in> set (rule_texts lm nm)"
  "between lm 1 100 n = Some m \<Longrightarrow> m \<in> set (rule_texts lm nm)"
  "positive_float lm np x = Some m \<Longrightarrow> m \<in> set (rule_texts lm nm)"
  "probability lm np x = Some m \<Longrightarrow> m \<in> set (rule_texts lm nm)"
  "validate_backend_base_url bad netloc_text url = Some m \<Longrightarrow> nm = netloc_text (strip url) \<Longrightarrow> m \<in> set (rule_texts lm nm)"
  "validate_restart_policy v = Some m \<Longrightarrow> m \<in> set (rule_texts lm nm)"
  "validate_model_profile v = Some m \<Longrightarrow> m \<in> set (rule_texts lm nm)"
  "validate_camera_id v = Some m \<Longrightarrow> m \<in> set (rule_texts lm nm)"
  "(case normalize_log_level l of Inl e \<Rightarrow> Some (value_error e) | Inr _ \<Rightarrow> None) = Some m \<Longrightarrow> m \<in> set (rule_texts lm nm)"
  "(if c then Some (lm (AtLeast 1)) else None) = Some m \<Longrightarrow> m \<in> set (rule_texts lm nm)"
  "(if c then Some (lm (AtLeast 0)) else None) = Some m \<Longrightarrow> m \<in> set (rule_texts lm nm)"
  by (auto simp: above_def between_def positive_float_def probability_def validate_backend_base_url_def validate_restart_policy_def
      validate_model_profile_def validate_camera_id_def rule_texts_def Let_def
      split: if_split_asm sum.splits dest: normalize_log_level_text)

lemma field_check_texts:
  assumes "(f, Some m) \<in> set (field_checks lm np bad nm s)"
  shows "m \<in> set (rule_texts lm (nm (strip (st_backend_base_url s))))"
  using assms unfolding field_checks_def Let_def list.set insert_iff empty_iff prod.inject
  by (elim disjE conjE FalseE) (erule check_texts [OF sym]; (rule refl)?)+

lemma model_problem_text: "model_problem s = Some m \<Longrightarrow> m \<in> set cross_field_texts"
  by (auto simp: model_problem_def events_require_pipeline_def sync_backoff_bounds_def upload_backoff_bounds_def
      spool_fits_one_file_def capture_requires_events_def cross_field_texts_def Let_def split: option.splits if_split_asm)

text \<open>
  C29.  A configuration error shows no value but the URL.  Whatever the settings hold, the message of a failed load is
  put together from the names of the fields, the texts of the rules, and at most what \<^verbatim>\<open>urlsplit\<close> says of the
  Backend URL; so nothing of the activation key or of any other field than that URL gets into it.
\<close>

theorem configuration_error_shows_rules:
  assumes "load_settings lm np bad nm s = Inl shown"
  shows "\<exists>problems. set problems \<subseteq> set (known_problems lm (nm (strip (st_backend_base_url s)))) \<and> shown = describe problems"
proof -
  let ?n = "nm (strip (st_backend_base_url s))"
  obtain problems where p: "new_settings lm np bad nm s = Inl problems" "shown = describe problems"
    using assms by (auto simp: load_settings_def split: sum.splits)
  let ?broken = "concat (map (\<lambda>(f, p). case p of None \<Rightarrow> [] | Some m \<Rightarrow> [(f, m)]) (field_checks lm np bad nm s))"
  have "(f, m) \<in> set (known_problems lm ?n)" if "(f, m) \<in> set ?broken" for f m
  proof -
    have c: "(f, Some m) \<in> set (field_checks lm np bad nm s)" using that by (auto split: option.splits)
    then have "f \<in> set (map fst (field_checks lm np bad nm s))" by force
    then have "f \<in> set field_names" unfolding field_names_fixed .
    then show ?thesis using field_check_texts [OF c] by (simp add: known_problems_def)
  qed
  then have "set ?broken \<subseteq> set (known_problems lm ?n)" by (intro subsetI) (metis surj_pair)
  moreover have "problems = ?broken \<or> (\<exists>m. model_problem (normalized s) = Some m \<and> problems = [([], value_error m)])"
    using p(1) by (auto simp: new_settings_def Let_def split: if_split_asm option.splits)
  ultimately have "set problems \<subseteq> set (known_problems lm ?n)"
  proof (elim disjE exE conjE)
    fix m assume "model_problem (normalized s) = Some m" "problems = [([], value_error m)]"
    then show ?thesis using model_problem_text [of "normalized s" m] by (simp add: known_problems_def)
  qed (simp only:)
  then show ?thesis using p(2) by blast
qed

theorem configuration_error_shows_rules_witness:
  "\<exists>shown problems. load_settings (\<lambda>_. []) False (\<lambda>_. False) (\<lambda>_. []) ((default_settings [])\<lparr>st_activation_key := Some ''k1.secret''\<rparr>) = Inl shown
     \<and> set problems \<subseteq> set (known_problems (\<lambda>_. []) []) \<and> shown = describe problems"
proof -
  let ?s = "(default_settings [])\<lparr>st_activation_key := Some ''k1.secret''\<rparr>"
  have "validate_backend_base_url (\<lambda>_. False) (\<lambda>_. []) [] \<noteq> None" by code_simp
  then have "\<not> list_all (\<lambda>(f, p). p = None) (field_checks (\<lambda>_. []) False (\<lambda>_. False) (\<lambda>_. []) ?s)"
    by (simp add: field_checks_def default_settings_def Let_def)
  then obtain shown where t: "load_settings (\<lambda>_. []) False (\<lambda>_. False) (\<lambda>_. []) ?s = Inl shown"
    using field_check_passes(1) load_settings_Inr by (cases "load_settings (\<lambda>_. []) False (\<lambda>_. False) (\<lambda>_. []) ?s") blast+
  from t configuration_error_shows_rules [OF t] show ?thesis by blast
qed

section \<open>Three gaps\<close>

text \<open>
  The switch of DeepStream does not stop the coordinator of the configuration, which starts DeepStream itself:
  with \<^verbatim>\<open>device_config_enabled\<close> alone the settings load and the coordinator is built.  And the pattern of the profile
  name lets a line break at the end pass.
\<close>

definition demo_config_only :: settings where
  "demo_config_only = (default_settings ''http://h:1'')\<lparr>st_device_config_enabled := True\<rparr>"

lemma deepstream_switch_bypassed:
  "\<exists>st a. load_settings (\<lambda>_. []) False (\<lambda>_. False) (\<lambda>_. []) demo_config_only = Inr st \<and> \<not> st_deepstream_enabled st
     \<and> components_factory demo_factory_input st demo_store Absent = Inr a \<and> enabled_kinds a = [DeviceConfigurationKind]"
proof -
  have "load_settings (\<lambda>_. []) False (\<lambda>_. False) (\<lambda>_. []) demo_config_only = Inr (normalized demo_config_only)"
  proof (rule new_settings_loads)
    have "field_checks (\<lambda>_. []) False (\<lambda>_. False) (\<lambda>_. []) demo_config_only
        = field_checks (\<lambda>_. []) False (\<lambda>_. False) (\<lambda>_. []) (default_settings ''http://h:1'')"
      by (simp add: field_checks_def demo_config_only_def default_settings_def Let_def)
    then show "list_all (\<lambda>(f, p). p = None) (field_checks (\<lambda>_. []) False (\<lambda>_. False) (\<lambda>_. []) demo_config_only)"
      using default_field_checks [OF demo_url_ok] by simp
    show "model_problem (normalized demo_config_only) = None"
      by (simp add: model_problem_def events_require_pipeline_def sync_backoff_bounds_def upload_backoff_bounds_def
          spool_fits_one_file_def capture_requires_events_def normalized_def demo_config_only_def default_settings_def)
  qed
  moreover have "\<exists>a. components_factory demo_factory_input (normalized demo_config_only) demo_store Absent = Inr a
      \<and> enabled_kinds a = [DeviceConfigurationKind]"
    by (simp add: components_factory_def build_coordinator_def build_detection_def build_sync_def build_upload_def enabled_kinds_def
        mk_coordinator_tuning_def coordinator_tuning_def normalized_def demo_config_only_def default_settings_def demo_factory_input_def)
  ultimately show ?thesis by (auto simp: normalized_def demo_config_only_def default_settings_def)
qed

lemma profile_name_with_line_break: "match_profile_name (''yolo'' @ [CHR 0x0A])"
  by code_simp

text \<open>
  The message of a configuration error is said never to hold a provided value.  What \<^verbatim>\<open>urlsplit\<close> raises on a URL
  is passed on word for word, and the library quotes the part of the URL it rejects.
\<close>

lemma url_error_is_shown:
  assumes "urlsplit bad (strip (st_backend_base_url s)) = Inl e" and "strip (st_backend_base_url s) \<noteq> []"
  shows "\<exists>u v. load_settings lm np bad nm s = Inl (u @ nm (strip (st_backend_base_url s)) @ v)"
proof -
  let ?m = "nm (strip (st_backend_base_url s))"
  have "validate_backend_base_url bad nm (st_backend_base_url s) = Some (value_error ?m)"
    using assms by (simp add: validate_backend_base_url_def)
  then obtain rest where c: "field_checks lm np bad nm s = (''backend_base_url'', Some (value_error ?m)) # rest"
    by (simp add: field_checks_def Let_def)
  have "load_settings lm np bad nm s = Inl (describe ((''backend_base_url'', value_error ?m)
      # concat (map (\<lambda>(f, p). case p of None \<Rightarrow> [] | Some m \<Rightarrow> [(f, m)]) rest)))"
    by (simp add: load_settings_def new_settings_def c)
  moreover have "\<exists>u v. describe ((f, value_error m) # ps) = u @ m @ v" for f m ps
  proof -
    have "\<exists>u. describe_problem (f, value_error m) = u @ m"
      by (auto simp: describe_problem_def value_error_def)
    then obtain u where "describe_problem (f, value_error m) = u @ m" ..
    moreover have "\<exists>v. join_semicolon (x # xs) = x @ v" for x xs by (cases xs) auto
    then obtain v where "join_semicolon (map describe_problem ((f, value_error m) # ps)) = describe_problem (f, value_error m) @ v" by auto
    ultimately have "describe ((f, value_error m) # ps) = (''Invalid Agent configuration: '' @ u) @ m @ (v @ ''.'')"
      by (simp add: describe_def)
    then show ?thesis by blast
  qed
  ultimately show ?thesis by metis
qed

end
