(* ===== verification/Redaction.thy ===== *)
theory Redaction
  imports DeviceConfig "HOL-Library.Sublist"
begin

text \<open>
  \<^verbatim>\<open>logging/redaction.py\<close> and \<^verbatim>\<open>logging/formatter.py\<close>: what is taken out of a log record before it is written, and
  that no registered secret is left in any text of the line.  Characters are code points below 256; a mapping
  key is represented by its text (\<^verbatim>\<open>str(key)\<close>).
\<close>

section \<open>redaction.py\<close>

definition REDACTED :: string where "REDACTED = ''[REDACTED]''"

definition SENSITIVE_KEY_TERMS :: "string list" where
  "SENSITIVE_KEY_TERMS =
     [''activationkey'', ''sharedsecret'', ''authorization'', ''proxyauthorization'', ''password'', ''passwd'', ''secret'',
      ''token'', ''accesstoken'', ''refreshtoken'', ''jwt'', ''apikey'', ''credential'', ''cookie'', ''setcookie'']"

definition HARMLESS_KEY_ALLOWLIST :: "string list" where
  "HARMLESS_KEY_ALLOWLIST = [''secretstatus'', ''tokencount'', ''credentialidentifier'']"

definition normalize_key :: "string \<Rightarrow> string" where
  "normalize_key k = filter (\<lambda>c. c \<in> set ''abcdefghijklmnopqrstuvwxyz0123456789'') (map ascii_lower k)"

definition is_sensitive_key :: "string \<Rightarrow> bool" where
  "is_sensitive_key k =
     (let n = normalize_key k
      in if n \<in> set HARMLESS_KEY_ALLOWLIST then False
         else if n \<in> set SENSITIVE_KEY_TERMS then True
         else list_ex (\<lambda>term. contains term n) SENSITIVE_KEY_TERMS)"

text \<open>
  What a record can hold.  \<open>LSet True\<close> is a frozenset, \<open>LSequence\<close> any other sequence or set, \<open>LJson\<close> a number,
  a boolean or \<^verbatim>\<open>None\<close>, and \<open>LObject\<close> any other object, by its \<^verbatim>\<open>repr\<close>.
\<close>

datatype log_value =
    LSecret string
  | LMap "(string \<times> log_value) list"
  | LStr string
  | LBytes bytes
  | LTuple "log_value list"
  | LList "log_value list"
  | LSet bool "log_value list"
  | LSequence "log_value list"
  | LJson json
  | LObject string

text \<open>The constructor of \<^verbatim>\<open>Redactor\<close>: blanks are dropped, longer literals come first.\<close>

definition mk_redactor :: "string list \<Rightarrow> string list" where
  "mk_redactor sensitive_values = sort_key (\<lambda>s. - int (length s)) (filter (\<lambda>s. s \<noteq> []) sensitive_values)"

text \<open>\<^verbatim>\<open>str.replace\<close>, for a non-empty pattern.\<close>

function (sequential) replace_all :: "string \<Rightarrow> string \<Rightarrow> string \<Rightarrow> string" where
  "replace_all old new [] = []"
| "replace_all old new (c # cs) =
     (if starts_with old (c # cs) then new @ replace_all old new (drop (length old - 1) cs)
      else c # replace_all old new cs)"
  by pat_completeness auto
termination by (relation "measure (\<lambda>(old, new, s). length s)") auto

text \<open>
  \<^verbatim>\<open>_BEARER_RE\<close>: a word boundary, \<^verbatim>\<open>bearer\<close> in any case, white space and the characters of a token.  The
  argument is the character before the text, if there is one.
\<close>

definition word_char :: "char \<Rightarrow> bool" where
  "word_char c \<longleftrightarrow>
     (let n = of_char c :: nat
      in 48 \<le> n \<and> n \<le> 57 \<or> 65 \<le> n \<and> n \<le> 90 \<or> n = 95 \<or> 97 \<le> n \<and> n \<le> 122
         \<or> n \<in> {170, 178, 179, 181, 185, 186, 188, 189, 190} \<or> 192 \<le> n \<and> n \<noteq> 215 \<and> n \<noteq> 247)"

definition token_char :: "char \<Rightarrow> bool" where
  "token_char c \<longleftrightarrow>
     c \<in> set ''ABCDEFGHIJKLMNOPQRSTUVWXYZabcdefghijklmnopqrstuvwxyz0123456789._~+/=-''"

definition match_bearer :: "string \<Rightarrow> (string \<times> string \<times> string) option" where
  "match_bearer s =
     (let word = take 6 s; after = drop 6 s;
          rest = dropWhile is_space after; token = takeWhile token_char rest
      in if map ascii_lower word = ''bearer'' \<and> rest \<noteq> after \<and> token \<noteq> []
         then Some (word, token, dropWhile token_char rest) else None)"

lemma match_bearer_split:
  assumes "match_bearer s = Some (word, token, rest)"
  shows "\<exists>spaces. s = word @ spaces @ token @ rest" and "word \<noteq> []" and "token \<noteq> []" and "length rest < length s"
proof -
  let ?after = "drop 6 s"
  have m: "word = take 6 s" "token = takeWhile token_char (dropWhile is_space ?after)"
    "rest = dropWhile token_char (dropWhile is_space ?after)" "word \<noteq> []" "token \<noteq> []"
    using assms by (auto simp: match_bearer_def Let_def split: if_split_asm)
  have *: "s = word @ takeWhile is_space ?after @ token @ rest"
    unfolding m(1-3) by (simp add: append_take_drop_id)
  then show "\<exists>spaces. s = word @ spaces @ token @ rest" by blast
  show "word \<noteq> []" "token \<noteq> []" by (fact m(4), fact m(5))
  have "length s = length (word @ takeWhile is_space ?after @ token @ rest)" using * by (rule arg_cong)
  then show "length rest < length s" using m(4) by (cases word) simp_all
qed

function (sequential) bearer_sub :: "char option \<Rightarrow> string \<Rightarrow> string" where
  "bearer_sub prev [] = []"
| "bearer_sub prev (c # cs) =
     (case (case prev of Some p \<Rightarrow> if word_char p then None else match_bearer (c # cs) | None \<Rightarrow> match_bearer (c # cs)) of
        Some (word, token, rest) \<Rightarrow> word @ '' '' @ REDACTED @ bearer_sub (Some (last token)) rest
      | None \<Rightarrow> c # bearer_sub (Some c) cs)"
  by pat_completeness auto
termination
  by (relation "measure (\<lambda>(prev, s). length s)")
     (auto dest: match_bearer_split(4) split: option.splits if_splits)

definition redact_string :: "string list \<Rightarrow> string \<Rightarrow> string" where
  "redact_string secrets s =
     bearer_sub None (fold (\<lambda>literal s. if contains literal s then replace_all literal REDACTED s else s) secrets s)"

text \<open>
  \<^verbatim>\<open>Redactor.redact\<close>.  The elements of a set have to be can_hash again: a frozenset becomes a set, another
  sequence a list, and \<^verbatim>\<open>TypeError\<close> leaves the redactor.
\<close>

fun can_hash :: "log_value \<Rightarrow> bool" where
  "can_hash (LTuple xs) = list_all can_hash xs"
| "can_hash (LMap _) = False"
| "can_hash (LList _) = False"
| "can_hash (LSet frozen _) = frozen"
| "can_hash _ = True"

fun redact :: "string list \<Rightarrow> log_value \<Rightarrow> exn + log_value"
  and redact_items :: "string list \<Rightarrow> (string \<times> log_value) list \<Rightarrow> exn + (string \<times> log_value) list"
  and redact_list :: "string list \<Rightarrow> log_value list \<Rightarrow> exn + log_value list"
where
  "redact secrets (LSecret _) = Inr (LStr REDACTED)"
| "redact secrets (LMap kvs) = bind_result (redact_items secrets kvs) (\<lambda>kvs. Inr (LMap kvs))"
| "redact secrets (LStr s) = Inr (LStr (redact_string secrets s))"
| "redact secrets (LBytes bs) = Inr (LBytes bs)"
| "redact secrets (LTuple xs) = bind_result (redact_list secrets xs) (\<lambda>ys. Inr (LTuple ys))"
| "redact secrets (LList xs) = bind_result (redact_list secrets xs) (\<lambda>ys. Inr (LList ys))"
| "redact secrets (LSet frozen xs) =
     bind_result (redact_list secrets xs) (\<lambda>ys. if list_all can_hash ys then Inr (LSet False (remdups ys)) else Inl TypeError)"
| "redact secrets (LSequence xs) = bind_result (redact_list secrets xs) (\<lambda>ys. Inr (LList ys))"
| "redact secrets (LJson v) = Inr (LJson v)"
| "redact secrets (LObject r) = Inr (LObject r)"
| "redact_items secrets [] = Inr []"
| "redact_items secrets ((k, x) # kvs) =
     bind_result (if is_sensitive_key k then Inr (LStr REDACTED) else redact secrets x) (\<lambda>y.
     bind_result (redact_items secrets kvs) (\<lambda>ys. Inr ((k, y) # ys)))"
| "redact_list secrets [] = Inr []"
| "redact_list secrets (x # xs) =
     bind_result (redact secrets x) (\<lambda>y. bind_result (redact_list secrets xs) (\<lambda>ys. Inr (y # ys)))"

section \<open>formatter.py\<close>

text \<open>
  A log record: the attributes every record has, those of its \<^verbatim>\<open>__dict__\<close>, and the exception with the name of
  its class, its text and its traceback.  \<open>reserved\<close> are the attribute names of the running Python, \<open>show\<close> is
  \<^verbatim>\<open>repr\<close>, and the result is the document \<^verbatim>\<open>json.dumps\<close> writes.
\<close>

record log_exception =
  le_type :: "string option"
  le_message :: "string option"
  le_traceback :: string

record log_record =
  lr_timestamp :: string
  lr_level :: string
  lr_name :: string
  lr_message :: string
  lr_attributes :: "(string \<times> log_value) list"
  lr_exception :: "log_exception option"

definition optional_text :: "string option \<Rightarrow> log_value" where
  "optional_text t = (case t of None \<Rightarrow> LJson JNull | Some s \<Rightarrow> LStr s)"

definition format_exception :: "string list \<Rightarrow> log_exception \<Rightarrow> log_value" where
  "format_exception secrets e =
     LMap [(''type'', optional_text (le_type e)),
           (''message'', optional_text (map_option (redact_string secrets) (le_message e))),
           (''traceback'', LStr (redact_string secrets (le_traceback e)))]"

definition log_payload :: "(string \<Rightarrow> bool) \<Rightarrow> log_record \<Rightarrow> (string \<times> log_value) list" where
  "log_payload reserved r =
     fold (\<lambda>(k, v) d. if reserved k \<or> starts_with ''_'' k then d else dict_put k v d) (lr_attributes r)
       [(''timestamp'', LStr (lr_timestamp r)), (''level'', LStr (lr_level r)), (''logger'', LStr (lr_name r)),
        (''message'', LStr (lr_message r))]"

text \<open>\<^verbatim>\<open>json.dumps\<close> asks \<^verbatim>\<open>_safe_default\<close> for what it cannot write.\<close>

fun jsonable :: "string list \<Rightarrow> (log_value \<Rightarrow> string) \<Rightarrow> log_value \<Rightarrow> log_value" where
  "jsonable secrets show (LStr s) = LStr s"
| "jsonable secrets show (LJson v) = LJson v"
| "jsonable secrets show (LMap kvs) = LMap (map (\<lambda>(k, x). (k, jsonable secrets show x)) kvs)"
| "jsonable secrets show (LList xs) = LList (map (jsonable secrets show) xs)"
| "jsonable secrets show (LTuple xs) = LList (map (jsonable secrets show) xs)"
| "jsonable secrets show (LObject r) = LStr (redact_string secrets r)"
| "jsonable secrets show x = LStr (redact_string secrets (show x))"

definition format_record :: "string list \<Rightarrow> (string \<Rightarrow> bool) \<Rightarrow> (log_value \<Rightarrow> string) \<Rightarrow> log_record \<Rightarrow> exn + log_value" where
  "format_record secrets reserved show r =
     bind_result (redact_items secrets (log_payload reserved r)) (\<lambda>payload.
     let payload = (case lr_exception r of None \<Rightarrow> payload
                    | Some e \<Rightarrow> dict_put ''exception'' (format_exception secrets e) payload)
     in Inr (jsonable secrets show (LMap payload)))"

section \<open>Replacing a literal\<close>

lemma starts_with_prefix: "starts_with p s \<longleftrightarrow> prefix p s"
  by (induction p s rule: starts_with.induct) auto

lemma contains_sublist: "contains p s \<longleftrightarrow> sublist p s"
proof
  assume "contains p s"
  then obtain k zs where "drop k s = p @ zs" by (auto simp: contains_def list_ex_iff starts_with_prefix prefix_def)
  then have "s = take k s @ p @ zs" by (metis append_take_drop_id)
  then show "sublist p s" unfolding sublist_def by blast
next
  assume "sublist p s"
  then obtain us vs where s: "s = us @ p @ vs" by (auto simp: sublist_def)
  have "prefix p (drop (length us) s)" by (simp add: s)
  moreover have "length us \<in> set [0..<Suc (length s)]" by (simp add: s)
  ultimately show "contains p s" unfolding contains_def list_ex_iff starts_with_prefix by blast
qed

text \<open>A secret the marker cannot be confused with: no bracket, no white space, and not a piece of the marker.\<close>

definition plain_secret :: "string \<Rightarrow> bool" where
  "plain_secret s \<longleftrightarrow> s \<noteq> [] \<and> CHR ''['' \<notin> set s \<and> CHR '']'' \<notin> set s \<and> list_all (\<lambda>c. \<not> is_space c) s \<and> \<not> contains s ''REDACTED''"

lemma sublist_around:
  assumes "sublist q (xs @ b # ys)" and "b \<notin> set q"
  shows "sublist q xs \<or> sublist q ys"
proof -
  consider "sublist q xs" | "sublist q (b # ys)" | u v where "q = u @ v" "suffix u xs" "prefix v (b # ys)"
    using assms(1) unfolding sublist_append by blast
  then show ?thesis
  proof cases
    case 2
    then show ?thesis using assms(2) by (cases q) (auto simp: sublist_Cons_right)
  next
    case 3
    then have "v = []" using assms(2) by (cases v) auto
    then show ?thesis using 3(1,2) by (simp add: suffix_imp_sublist)
  qed blast
qed

lemma marker_hides:
  assumes "plain_secret q" and "sublist q (REDACTED @ r)"
  shows "sublist q r"
proof -
  have "sublist q ([] @ CHR ''['' # (''REDACTED'' @ CHR '']'' # r))" using assms(2) by (simp add: REDACTED_def)
  from sublist_around [OF this] assms(1) have "sublist q (''REDACTED'' @ CHR '']'' # r)" by (auto simp: plain_secret_def)
  from sublist_around [OF this] assms(1) show ?thesis by (auto simp: plain_secret_def contains_sublist)
qed

lemma marker_prefix: "plain_secret q \<Longrightarrow> \<not> prefix q (REDACTED @ r)"
  by (cases q) (auto simp: plain_secret_def REDACTED_def)

text \<open>A piece of the result that has no bracket begins where it began in the text.\<close>

lemma replace_prefix: "CHR ''['' \<notin> set q \<Longrightarrow> prefix q (replace_all old REDACTED s) \<Longrightarrow> prefix q s"
proof (induction old REDACTED s arbitrary: q rule: replace_all.induct)
  case (2 old c cs)
  then show ?case by (cases q) (auto simp: REDACTED_def split: if_split_asm)
qed simp

lemma replace_scan:
  "plain_secret q \<Longrightarrow> sublist q (replace_all old REDACTED s) \<Longrightarrow> \<exists>us t. s = us @ t \<and> prefix q (replace_all old REDACTED t)"
proof (induction old REDACTED s rule: replace_all.induct)
  case (1 old)
  then show ?case by simp
next
  case (2 old c cs)
  show ?case
  proof (cases "starts_with old (c # cs)")
    case True
    with 2(4) have "sublist q (replace_all old REDACTED (drop (length old - 1) cs))" by (simp add: marker_hides [OF 2(3)])
    from 2(1) [OF True 2(3) this] obtain us t where
      t: "drop (length old - 1) cs = us @ t" "prefix q (replace_all old REDACTED t)" by blast
    have "cs = take (length old - 1) cs @ us @ t" by (metis append_take_drop_id t(1))
    then have "c # cs = (c # take (length old - 1) cs @ us) @ t" by simp
    then show ?thesis using t(2) by blast
  next
    case False
    with 2(4) consider (here) "prefix q (replace_all old REDACTED (c # cs))" | (later) "sublist q (replace_all old REDACTED cs)"
      by (auto simp: sublist_Cons_right)
    then show ?thesis
    proof cases
      case here
      then show ?thesis by (intro exI [of _ "[]"] exI [of _ "c # cs"]) simp
    next
      case later
      from 2(2) [OF False 2(3) this] obtain us t where "cs = us @ t" "prefix q (replace_all old REDACTED t)" by blast
      then show ?thesis by (intro exI [of _ "c # us"] exI [of _ t]) simp
    qed
  qed
qed

lemma replace_no_new: "plain_secret q \<Longrightarrow> sublist q (replace_all old REDACTED s) \<Longrightarrow> sublist q s"
  using replace_scan [of q old s] replace_prefix [of q old]
  by (fastforce simp: plain_secret_def sublist_append dest: prefix_imp_sublist)

lemma replace_removes:
  assumes "plain_secret q"
  shows "\<not> sublist q (replace_all q REDACTED s)"
proof
  assume "sublist q (replace_all q REDACTED s)"
  from replace_scan [OF assms this] obtain us t where t: "prefix q (replace_all q REDACTED t)" by blast
  have "prefix q t" using replace_prefix [OF _ t] assms by (simp add: plain_secret_def)
  with t marker_prefix [OF assms] show False
    using assms by (cases t) (auto simp: starts_with_prefix plain_secret_def)
qed

section \<open>Replacing a bearer token\<close>

lemma bearer_prefix:
  "CHR ''['' \<notin> set q \<Longrightarrow> CHR '' '' \<notin> set q \<Longrightarrow> prefix q (bearer_sub prev s) \<Longrightarrow> prefix q s"
proof (induction prev s arbitrary: q rule: bearer_sub.induct)
  case (2 prev c cs)
  let ?m = "case prev of Some p \<Rightarrow> if word_char p then None else match_bearer (c # cs) | None \<Rightarrow> match_bearer (c # cs)"
  show ?case
  proof (cases ?m)
    case None
    with 2 show ?thesis by (cases q) auto
  next
    case (Some x)
    then obtain word token rest where x: "?m = Some (word, token, rest)" "match_bearer (c # cs) = Some (word, token, rest)"
      by (cases x) (auto split: option.splits if_splits)
    then have "prefix q (word @ '' '' @ REDACTED @ bearer_sub (Some (last token)) rest)" using 2(5) by simp
    then have "prefix q word" using 2(4) by (auto simp: prefix_append prefix_Cons)
    then show ?thesis using match_bearer_split(1) [OF x(2)] by auto
  qed
qed simp

lemma bearer_no_new: "plain_secret q \<Longrightarrow> sublist q (bearer_sub prev s) \<Longrightarrow> sublist q s"
proof (induction prev s rule: bearer_sub.induct)
  case (2 prev c cs)
  have q: "CHR ''['' \<notin> set q" "CHR '' '' \<notin> set q" "q \<noteq> []"
    using 2(3) by (auto simp: plain_secret_def list_all_iff is_space_def)
  let ?m = "case prev of Some p \<Rightarrow> if word_char p then None else match_bearer (c # cs) | None \<Rightarrow> match_bearer (c # cs)"
  show ?case
  proof (cases ?m)
    case None
    with 2(4) consider (here) "prefix q (bearer_sub prev (c # cs))" | (later) "sublist q (bearer_sub (Some c) cs)"
      by (auto simp: sublist_Cons_right)
    then show ?thesis
    proof cases
      case here
      from bearer_prefix [OF q(1,2) this] show ?thesis by (rule prefix_imp_sublist)
    next
      case later
      from 2(1) [OF None 2(3) this] show ?thesis by (simp add: sublist_Cons_right)
    qed
  next
    case (Some x)
    then obtain word token rest where x: "?m = Some (word, token, rest)" "match_bearer (c # cs) = Some (word, token, rest)"
      by (cases x) (auto split: option.splits if_splits)
    obtain spaces where s: "c # cs = word @ spaces @ token @ rest" using match_bearer_split(1) [OF x(2)] by blast
    have "sublist q (word @ CHR '' '' # (REDACTED @ bearer_sub (Some (last token)) rest))" using 2(4) x(1) by simp
    from sublist_around [OF this q(2)] have "sublist q word \<or> sublist q (bearer_sub (Some (last token)) rest)"
      using marker_hides [OF 2(3)] by blast
    then have "sublist q word \<or> sublist q rest" using 2(2) [OF x(1) refl refl 2(3)] by blast
    then show ?thesis unfolding s by (auto simp: sublist_append)
  qed
qed simp

lemma redact_string_hides:
  assumes "list_all plain_secret secrets"
  shows "\<forall>s \<in> set secrets. \<not> sublist s (redact_string secrets t)"
proof -
  let ?f = "\<lambda>literal s. if contains literal s then replace_all literal REDACTED s else s"
  have keep: "\<not> sublist q (fold ?f ls t)" if "plain_secret q" "\<not> sublist q t" for q ls t
    using that by (induction ls arbitrary: t) (auto dest: replace_no_new)
  have "\<forall>s \<in> set ls. \<not> sublist s (fold ?f ls t)" if "list_all plain_secret ls" for ls t
    using that
  proof (induction ls arbitrary: t)
    case (Cons l ls)
    have "\<not> sublist l (?f l t)" using Cons.prems replace_removes by (auto simp: contains_sublist)
    with keep [of l "?f l t" ls] Cons show ?case by auto
  qed simp
  from this [OF assms] show ?thesis
    unfolding redact_string_def using bearer_no_new assms unfolding list_all_iff by blast
qed

section \<open>A log line\<close>

text \<open>
  \<open>protected secrets doc\<close>: a document of texts, numbers, objects and arrays in which no text holds a secret and
  under a sensitive key there is nothing but the marker.  \<open>cleaned\<close> is the same before \<^verbatim>\<open>json.dumps\<close>.
\<close>

fun protected :: "string list \<Rightarrow> log_value \<Rightarrow> bool" where
  "protected secrets (LStr t) = list_all (\<lambda>s. \<not> contains s t) secrets"
| "protected secrets (LJson v) = True"
| "protected secrets (LMap kvs) = list_all (\<lambda>(k, x). (is_sensitive_key k \<longrightarrow> x = LStr REDACTED) \<and> protected secrets x) kvs"
| "protected secrets (LList xs) = list_all (protected secrets) xs"
| "protected secrets _ = False"

fun cleaned :: "string list \<Rightarrow> log_value \<Rightarrow> bool" where
  "cleaned secrets (LStr t) = list_all (\<lambda>s. \<not> contains s t) secrets"
| "cleaned secrets (LMap kvs) = list_all (\<lambda>(k, x). (is_sensitive_key k \<longrightarrow> x = LStr REDACTED) \<and> cleaned secrets x) kvs"
| "cleaned secrets (LList xs) = list_all (cleaned secrets) xs"
| "cleaned secrets (LTuple xs) = list_all (cleaned secrets) xs"
| "cleaned secrets _ = True"

lemma redact_string_clean: "list_all plain_secret secrets \<Longrightarrow> list_all (\<lambda>s. \<not> contains s (redact_string secrets t)) secrets"
  using redact_string_hides [of secrets t] by (simp add: list_all_iff contains_sublist)

lemma marker_clean: "list_all plain_secret secrets \<Longrightarrow> list_all (\<lambda>s. \<not> contains s REDACTED) secrets"
  using marker_hides [where r = "[]"] by (fastforce simp: list_all_iff contains_sublist plain_secret_def)

lemma redact_cleaned:
  assumes "list_all plain_secret secrets"
  shows "redact secrets v = Inr w \<Longrightarrow> cleaned secrets w"
    and "redact_items secrets kvs = Inr kvs' \<Longrightarrow> cleaned secrets (LMap kvs')"
    and "redact_list secrets xs = Inr ys \<Longrightarrow> list_all (cleaned secrets) ys"
  using assms
proof (induction secrets v and secrets kvs and secrets xs arbitrary: w and kvs' and ys rule: redact_redact_items_redact_list.induct)
  case (7 secrets frozen xs)
  then show ?case by (auto simp: bind_result_eq_Inr split: if_split_asm)
next
  case (12 secrets k x kvs)
  from 12(3) obtain y zs where
    y: "(if is_sensitive_key k then Inr (LStr REDACTED) else redact secrets x) = Inr y"
    and zs: "redact_items secrets kvs = Inr zs" "kvs' = (k, y) # zs"
    by (auto simp: bind_result_eq_Inr)
  have "cleaned secrets y" using y 12(1) 12(4) by (cases "is_sensitive_key k") (auto simp: marker_clean)
  moreover have "is_sensitive_key k \<longrightarrow> y = LStr REDACTED" using y by auto
  moreover have "cleaned secrets (LMap zs)" using 12(2) 12(4) zs(1) by blast
  ultimately show ?case by (simp add: zs(2))
qed (auto simp: bind_result_eq_Inr marker_clean redact_string_clean)

lemma jsonable_protected:
  assumes "list_all plain_secret secrets"
  shows "cleaned secrets w \<Longrightarrow> protected secrets (jsonable secrets show w)"
  using assms
  by (induction secrets w rule: cleaned.induct) (auto simp: list_all_iff redact_string_clean [unfolded list_all_iff])

lemma exception_keys_harmless [simp]:
  "\<not> is_sensitive_key ''exception''" "\<not> is_sensitive_key ''type''" "\<not> is_sensitive_key ''message''" "\<not> is_sensitive_key ''traceback''"
  by (code_simp, code_simp, code_simp, code_simp)

text \<open>
  The entry of the exception: the name of its class as it is, and its text and traceback without secrets.
  \<open>protected_line\<close>: every other entry of the document is protected.
\<close>

fun exception_entry :: "string list \<Rightarrow> log_exception option \<Rightarrow> string \<Rightarrow> log_value \<Rightarrow> bool" where
  "exception_entry secrets (Some e) k (LMap [(k1, name), (k2, message), (k3, trace)]) \<longleftrightarrow>
     k = ''exception'' \<and> (k1, k2, k3) = (''type'', ''message'', ''traceback'') \<and> name = optional_text (le_type e)
     \<and> protected secrets message \<and> protected secrets trace"
| "exception_entry secrets _ k _ \<longleftrightarrow> False"

fun protected_line :: "string list \<Rightarrow> log_exception option \<Rightarrow> log_value \<Rightarrow> bool" where
  "protected_line secrets failure (LMap kvs) \<longleftrightarrow>
     list_all (\<lambda>(k, x). (is_sensitive_key k \<longrightarrow> x = LStr REDACTED)
       \<and> (protected secrets x \<or> exception_entry secrets failure k x)) kvs"
| "protected_line secrets failure _ \<longleftrightarrow> False"

lemma jsonable_optional_text [simp]: "jsonable secrets show (optional_text t) = optional_text t"
  by (simp add: optional_text_def split: option.split)

lemma optional_text_protected:
  "list_all plain_secret secrets \<Longrightarrow> protected secrets (optional_text (map_option (redact_string secrets) t))"
  by (simp add: optional_text_def redact_string_clean split: option.split)

lemma format_exception_entry:
  "list_all plain_secret secrets
   \<Longrightarrow> exception_entry secrets (Some e) ''exception'' (jsonable secrets show (format_exception secrets e))"
  by (simp add: format_exception_def optional_text_protected redact_string_clean)

lemma protected_line_payload:
  "protected secrets (LMap kvs) \<Longrightarrow> protected_line secrets failure (LMap kvs)"
  by (auto simp: list_all_iff)

lemma protected_line_put:
  assumes "list_all plain_secret secrets"
  shows "protected_line secrets (Some e) (jsonable secrets show (LMap d))
    \<Longrightarrow> protected_line secrets (Some e) (jsonable secrets show (LMap (dict_put ''exception'' (format_exception secrets e) d)))"
  using format_exception_entry [OF assms, of e "show"]
  by (induction "''exception''" "format_exception secrets e" d rule: dict_put.induct) auto

text \<open>
  C26.  A log line shows no registered secret.  For secrets that have no bracket and no white space and are not a
  piece of the marker: in the document the formatter writes, no text holds a secret and under a sensitive key
  there is nothing but the marker, whatever the message, the nested extra fields, the exception text, the traceback
  and the \<^verbatim>\<open>repr\<close> of foreign objects hold.  The name of the class of the exception is the one text that is not
  redacted, and the keys of mappings are not texts in this sense: they are written as they are.
\<close>

theorem log_line_hides_secrets:
  assumes "list_all plain_secret secrets" and "format_record secrets reserved show r = Inr doc"
  shows "protected_line secrets (lr_exception r) doc"
proof -
  obtain payload where p: "redact_items secrets (log_payload reserved r) = Inr payload"
    and doc: "doc = jsonable secrets show (LMap (case lr_exception r of None \<Rightarrow> payload
                | Some e \<Rightarrow> dict_put ''exception'' (format_exception secrets e) payload))"
    using assms(2) by (auto simp: format_record_def bind_result_eq_Inr Let_def)
  have "protected secrets (jsonable secrets show (LMap payload))"
    by (rule jsonable_protected [OF assms(1) redact_cleaned(2) [OF assms(1) p]])
  then have payload: "protected_line secrets failure (jsonable secrets show (LMap payload))" for failure
    using protected_line_payload by simp
  show ?thesis
    using payload protected_line_put [OF assms(1) payload] by (simp only: doc split: option.split) simp
qed

definition demo_log_record :: log_record where
  "demo_log_record =
     \<lparr>lr_timestamp = ''1970-01-01T00:00:00+00:00'', lr_level = ''ERROR'', lr_name = ''agent'', lr_message = ''sent k1x to host'',
      lr_attributes = [(''context'', LMap [(''Activation-Key'', LJson JNull), (''urls'', LList [LStr ''rtsp://k1x@cam''])])],
      lr_exception = Some \<lparr>le_type = Some ''ValueError'', le_message = Some ''bad k1x'', le_traceback = ''File a''\<rparr>\<rparr>"

definition demo_log_document :: log_value where
  "demo_log_document =
     LMap [(''timestamp'', LStr ''1970-01-01T00:00:00+00:00''), (''level'', LStr ''ERROR''), (''logger'', LStr ''agent''),
           (''message'', LStr ''sent [REDACTED] to host''),
           (''context'', LMap [(''Activation-Key'', LStr ''[REDACTED]''), (''urls'', LList [LStr ''rtsp://[REDACTED]@cam''])]),
           (''exception'', LMap [(''type'', LStr ''ValueError''), (''message'', LStr ''bad [REDACTED]''), (''traceback'', LStr ''File a'')])]"

theorem log_line_hides_secrets_witness:
  "format_record [''k1x''] (\<lambda>_. False) (\<lambda>_. []) demo_log_record = Inr demo_log_document
   \<and> protected_line [''k1x''] (lr_exception demo_log_record) demo_log_document"
proof -
  have secrets: "list_all plain_secret [''k1x'']" by code_simp
  have run: "format_record [''k1x''] (\<lambda>_. False) (\<lambda>_. []) demo_log_record = Inr demo_log_document" by code_simp
  show ?thesis using run log_line_hides_secrets [OF secrets run] by blast
qed

section \<open>Two gaps\<close>

text \<open>A frozenset inside a set raises out of the formatter, and the keys of a mapping are left as they are.\<close>

lemma redact_list_member: "redact_list secrets xs = Inr ys \<Longrightarrow> x \<in> set xs \<Longrightarrow> \<exists>y \<in> set ys. redact secrets x = Inr y"
  by (induction xs arbitrary: ys) (auto simp: bind_result_eq_Inr)

lemma redact_frozenset_unhashable: "redact secrets (LSet frozen xs) = Inr y \<Longrightarrow> \<not> can_hash y"
  by (auto simp: bind_result_eq_Inr split: if_split_asm)

lemma frozenset_in_set_raises:
  assumes "LSet True ys \<in> set xs"
  shows "redact secrets (LSet frozen xs) \<noteq> Inr y"
proof
  assume "redact secrets (LSet frozen xs) = Inr y"
  then obtain zs where zs: "redact_list secrets xs = Inr zs" "list_all can_hash zs"
    by (auto simp: bind_result_eq_Inr split: if_split_asm)
  from redact_list_member [OF zs(1) assms] zs(2) redact_frozenset_unhashable show False
    unfolding list_all_iff by blast
qed

lemma secret_keys_remain: "redact_items secrets kvs = Inr out \<Longrightarrow> map fst out = map fst kvs"
  by (induction kvs arbitrary: out) (auto simp: bind_result_eq_Inr)

end
