(* ===== verification/Lifespan.thy ===== *)
theory Lifespan
  imports Settings Supervisor Redaction
begin

text \<open>
  \<^verbatim>\<open>config/paths.py\<close>, \<^verbatim>\<open>logging/configuration.py\<close> and \<^verbatim>\<open>runtime/startup.py\<close>: the directories and the log handlers of
  an agent, and its lifespan over the supervisor: what a failed startup and a shutdown release.
\<close>

section \<open>config/paths.py\<close>

definition ROOT_MODE :: nat where "ROOT_MODE = 488"
definition CONFIG_DIR_MODE :: nat where "CONFIG_DIR_MODE = 448"
definition DATABASE_DIR_MODE :: nat where "DATABASE_DIR_MODE = 448"
definition LOGS_DIR_MODE :: nat where "LOGS_DIR_MODE = 488"
definition RUNTIME_DIR_MODE :: nat where "RUNTIME_DIR_MODE = 448"
definition SNAPSHOTS_DIR_MODE :: nat where "SNAPSHOTS_DIR_MODE = 488"

text \<open>A path is its text, and \<open>base\<close>, the root, has no slash at its end.\<close>

definition config_dir :: "string \<Rightarrow> string" where "config_dir base = base @ ''/config''"
definition database_dir :: "string \<Rightarrow> string" where "database_dir base = base @ ''/database''"
definition logs_dir :: "string \<Rightarrow> string" where "logs_dir base = base @ ''/logs''"
definition runtime_dir :: "string \<Rightarrow> string" where "runtime_dir base = base @ ''/runtime''"
definition snapshots_dir :: "string \<Rightarrow> string" where "snapshots_dir base = base @ ''/snapshots''"
definition log_file :: "string \<Rightarrow> string" where "log_file base = logs_dir base @ ''/agent.log''"
definition database_file :: "string \<Rightarrow> string" where "database_file base = database_dir base @ ''/agent.db''"
definition activation_key_file :: "string \<Rightarrow> string" where "activation_key_file base = config_dir base @ ''/activation-key''"
definition detection_socket_file :: "string \<Rightarrow> string" where "detection_socket_file base = runtime_dir base @ ''/detection.sock''"

definition managed_directories :: "string \<Rightarrow> (string \<times> nat) list" where
  "managed_directories base =
     [(base, ROOT_MODE), (config_dir base, CONFIG_DIR_MODE), (database_dir base, DATABASE_DIR_MODE),
      (logs_dir base, LOGS_DIR_MODE), (runtime_dir base, RUNTIME_DIR_MODE), (snapshots_dir base, SNAPSHOTS_DIR_MODE)]"

text \<open>
  The directories with their modes.  What \<^verbatim>\<open>mkdir\<close> and \<^verbatim>\<open>chmod\<close> of a path raise are arguments, \<open>masked\<close> is the mode
  a new directory gets, and \<open>posix\<close> is \<^verbatim>\<open>modes_enforceable()\<close>.  The parents of the base are left out.
\<close>

type_synonym directories = "string \<Rightarrow> nat option"

record provision_input =
  pv_posix :: bool
  pv_masked :: nat
  pv_mkdir_fault :: "string \<Rightarrow> exn option"
  pv_chmod_fault :: "string \<Rightarrow> exn option"

definition ensure_directory :: "provision_input \<Rightarrow> string \<Rightarrow> nat \<Rightarrow> directories \<Rightarrow> (exn + unit) \<times> directories" where
  "ensure_directory inp d mode fs =
     (case pv_mkdir_fault inp d of
        Some e \<Rightarrow> (Inl e, fs)
      | None \<Rightarrow>
          let fs = (if fs d = None then fs(d \<mapsto> pv_masked inp) else fs)
          in if \<not> pv_posix inp then (Inr (), fs)
             else case pv_chmod_fault inp d of Some e \<Rightarrow> (Inl e, fs) | None \<Rightarrow> (Inr (), fs(d \<mapsto> mode)))"

fun ensure_all :: "provision_input \<Rightarrow> (string \<times> nat) list \<Rightarrow> directories \<Rightarrow> (exn + unit) \<times> directories" where
  "ensure_all inp [] fs = (Inr (), fs)"
| "ensure_all inp ((d, mode) # ds) fs =
     (case ensure_directory inp d mode fs of (Inl e, fs) \<Rightarrow> (Inl e, fs) | (Inr _, fs) \<Rightarrow> ensure_all inp ds fs)"

definition provision :: "provision_input \<Rightarrow> string \<Rightarrow> directories \<Rightarrow> (exn + unit) \<times> directories" where
  "provision inp base fs = ensure_all inp (managed_directories base) fs"

section \<open>logging/configuration.py\<close>

text \<open>A handler of the logger: whether this module installed it, its file, and the secrets of its redactor.\<close>

record log_handler =
  lh_managed :: bool
  lh_file :: "string option"
  lh_secrets :: "string list"

record logger =
  lg_handlers :: "log_handler list"
  lg_level :: string
  lg_propagate :: bool

definition build_file_handler :: "bool \<Rightarrow> exn option \<Rightarrow> exn + unit" where
  "build_file_handler parent_exists open_fault =
     (if \<not> parent_exists then Inl (OtherException ''LoggingConfigurationError'')
      else case open_fault of Some e \<Rightarrow> Inl e | None \<Rightarrow> Inr ())"

definition install :: "log_handler \<Rightarrow> logger \<Rightarrow> logger" where
  "install h lg = lg\<lparr>lg_handlers := lg_handlers lg @ [h]\<rparr>"

definition configure_logging :: "string \<Rightarrow> string \<Rightarrow> bool \<Rightarrow> exn option \<Rightarrow> string list \<Rightarrow> logger \<Rightarrow> (exn + unit) \<times> logger" where
  "configure_logging log_level path parent_exists open_fault sensitive_values lg =
     (case normalize_log_level log_level of
        Inl _ \<Rightarrow> (Inl ValueError, lg)
      | Inr level_name \<Rightarrow>
          let secrets = mk_redactor sensitive_values;
              lg = lg\<lparr>lg_handlers := filter (\<lambda>h. \<not> lh_managed h) (lg_handlers lg)\<rparr>;
              lg = install \<lparr>lh_managed = True, lh_file = None, lh_secrets = secrets\<rparr> lg
          in case build_file_handler parent_exists open_fault of
               Inl e \<Rightarrow> (Inl e, lg)
             | Inr _ \<Rightarrow>
                 (Inr (), (install \<lparr>lh_managed = True, lh_file = Some path, lh_secrets = secrets\<rparr> lg)
                            \<lparr>lg_level := level_name, lg_propagate := False\<rparr>))"

section \<open>runtime/startup.py\<close>

text \<open>
  What a lifespan meets, in the order it meets it.  \<open>li_settings\<close> is what the settings loader returns or the
  message of its error; \<open>li_database\<close> is how the initialisation of the database ends; the two clients may fail to
  be built and to be closed.
\<close>

record lifespan_input =
  li_settings :: "string + settings"
  li_provision :: provision_input
  li_log_parent_exists :: bool
  li_log_fault :: "exn option"
  li_database :: "exn + unit"
  li_backend_client :: "exn + unit"
  li_validation_client :: "exn + unit"
  li_factory :: factory_input
  li_store :: store
  li_socket :: socket_path
  li_keys :: agent_keys
  li_world :: agent_world
  li_startup :: "agent_input startup_input"
  li_cache_fault :: fault
  li_attempts :: "attempt_input list"
  li_fatal :: agent_input
  li_shutdown :: agent_input
  li_validation_close_fault :: "exn option"
  li_backend_close_fault :: "exn option"

datatype client = NotMade | OpenClient | ClosedClient

record app =
  ap_directories :: directories
  ap_logger :: logger
  ap_cache :: cache_table
  ap_agent :: "agent_settings option"
  ap_supervisor :: "agent_world supervisor option"
  ap_validation_client :: client
  ap_backend_client :: client
  ap_runtime :: bool

definition supervisor_settings_of :: "settings \<Rightarrow> supervisor_settings" where
  "supervisor_settings_of st =
     \<lparr>ss_base_url = st_backend_base_url st, ss_environment_key = st_activation_key st,
      ss_interval = fl_exact (st_credential_validation_interval_seconds st), ss_owns_validation_client = True\<rparr>"

definition sensitive_values :: "settings \<Rightarrow> string list" where
  "sensitive_values st = (case st_activation_key st of None \<Rightarrow> [] | Some k \<Rightarrow> [k])"

definition keep_supervisor :: "agent_world supervisor \<Rightarrow> app \<Rightarrow> app" where
  "keep_supervisor s a = a\<lparr>ap_supervisor := Some s\<rparr>"

definition close_backend :: "lifespan_input \<Rightarrow> app \<Rightarrow> (exn + unit) \<times> app" where
  "close_backend inp a =
     (case li_backend_close_fault inp of
        Some e \<Rightarrow> (Inl e, a) | None \<Rightarrow> (Inr (), a\<lparr>ap_backend_client := ClosedClient\<rparr>))"

text \<open>The supervisor owns the validation client: its shutdown closes the client, unless closing it raises.\<close>

definition shut_supervisor_down :: "lifespan_input \<Rightarrow> settings \<Rightarrow> agent_settings \<Rightarrow> agent_world supervisor \<Rightarrow> app \<Rightarrow> (exn + unit) \<times> app" where
  "shut_supervisor_down inp st ag s a =
     (case shutdown (supervisor_settings_of st) (agent_components ag) (li_shutdown inp) (li_validation_close_fault inp) s of
        (r, s') \<Rightarrow>
          (r, (keep_supervisor s' a)\<lparr>ap_validation_client :=
                (if r = Inr () \<and> su_client_closed s' \<and> \<not> su_client_closed s then ClosedClient else ap_validation_client a)\<rparr>))"

text \<open>The body of the \<^verbatim>\<open>try\<close> of \<^verbatim>\<open>_start\<close>.\<close>

definition start_runtime :: "lifespan_input \<Rightarrow> settings \<Rightarrow> app \<Rightarrow> (exn + unit) \<times> app" where
  "start_runtime inp st a =
     (case li_validation_client inp of
        Inl e \<Rightarrow> (Inl e, a)
      | Inr _ \<Rightarrow>
          let a = a\<lparr>ap_validation_client := OpenClient\<rparr>
          in case components_factory (li_factory inp) st (li_store inp) (li_socket inp) of
               Inl e \<Rightarrow> (Inl e, a)
             | Inr ag \<Rightarrow>
                 (case startup (supervisor_settings_of st) (agent_components ag) (li_startup inp)
                         (new_supervisor (li_keys inp) (li_world inp)) of
                    (r, s) \<Rightarrow>
                      let a = keep_supervisor s (a\<lparr>ap_agent := Some ag\<rparr>)
                      in case r of
                           Inl e \<Rightarrow> (Inl e, a)
                         | Inr _ \<Rightarrow>
                             (case load_cache (li_cache_fault inp) (ap_cache a) of Inl e \<Rightarrow> (Inl e, a) | Inr _ \<Rightarrow> (Inr (), a))))"

text \<open>The \<^verbatim>\<open>except\<close> clause of \<^verbatim>\<open>_start\<close>.\<close>

definition release :: "lifespan_input \<Rightarrow> settings \<Rightarrow> app \<Rightarrow> (exn + unit) \<times> app" where
  "release inp st a =
     (case (case (ap_supervisor a, ap_agent a) of
              (Some s, Some ag) \<Rightarrow> shut_supervisor_down inp st ag s a
            | _ \<Rightarrow> if ap_validation_client a = OpenClient
                   then (case li_validation_close_fault inp of
                           Some e \<Rightarrow> (Inl e, a) | None \<Rightarrow> (Inr (), a\<lparr>ap_validation_client := ClosedClient\<rparr>))
                   else (Inr (), a)) of
        (Inl e, a) \<Rightarrow> (Inl e, a)
      | (Inr _, a) \<Rightarrow> close_backend inp a)"

text \<open>The \<^verbatim>\<open>try\<close> statement of \<^verbatim>\<open>_start\<close> and the publication of the runtime after it, and then all of \<^verbatim>\<open>_start\<close>.\<close>

definition start_or_release :: "lifespan_input \<Rightarrow> settings \<Rightarrow> app \<Rightarrow> (exn + unit) \<times> app" where
  "start_or_release inp st a =
     (case start_runtime inp st a of
        (Inr _, a) \<Rightarrow> (Inr (), a\<lparr>ap_runtime := True\<rparr>)
      | (Inl e, a) \<Rightarrow> (case release inp st a of (Inl e', a) \<Rightarrow> (Inl e', a) | (Inr _, a) \<Rightarrow> (Inl e, a)))"

definition start_app :: "lifespan_input \<Rightarrow> app \<Rightarrow> (exn + unit) \<times> app" where
  "start_app inp a =
     (case li_settings inp of
        Inl m \<Rightarrow> (Inl (OtherException ''ConfigurationError''), a)
      | Inr st \<Rightarrow>
      case provision (li_provision inp) (st_root_path st) (ap_directories a) of
        (Inl e, fs) \<Rightarrow> (Inl e, a\<lparr>ap_directories := fs\<rparr>)
      | (Inr _, fs) \<Rightarrow>
      case configure_logging (st_log_level st) (log_file (st_root_path st)) (li_log_parent_exists inp) (li_log_fault inp)
             (sensitive_values st) (ap_logger a) of
        (Inl e, lg) \<Rightarrow> (Inl e, a\<lparr>ap_directories := fs, ap_logger := lg\<rparr>)
      | (Inr _, lg) \<Rightarrow>
      let a = a\<lparr>ap_directories := fs, ap_logger := lg\<rparr> in
      case li_database inp of
        Inl e \<Rightarrow> (Inl e, a)
      | Inr _ \<Rightarrow>
      case li_backend_client inp of
        Inl e \<Rightarrow> (Inl e, a)
      | Inr _ \<Rightarrow>
      start_or_release inp st (a\<lparr>ap_backend_client := OpenClient\<rparr>))"

text \<open>\<^verbatim>\<open>_shutdown\<close>, when serving ends: an \<^verbatim>\<open>Exception\<close> of a step is logged, and the next one follows.\<close>

definition uncaught :: "exn + unit \<Rightarrow> bool" where
  "uncaught r = (case r of Inl e \<Rightarrow> \<not> is_exception e | Inr _ \<Rightarrow> False)"

definition stop_app :: "lifespan_input \<Rightarrow> settings \<Rightarrow> app \<Rightarrow> (exn + unit) \<times> app" where
  "stop_app inp st a =
     (case (case (ap_supervisor a, ap_agent a) of
              (Some s, Some ag) \<Rightarrow> shut_supervisor_down inp st ag s a | _ \<Rightarrow> (Inr (), a)) of
        (r, a) \<Rightarrow>
          if uncaught r then (r, a)
          else (case close_backend inp a of
                  (r, a) \<Rightarrow> if uncaught r then (r, a) else (Inr (), a\<lparr>ap_runtime := False\<rparr>)))"

text \<open>
  The context manager of \<^verbatim>\<open>create_lifespan\<close>: start, serve, stop.  While the application serves, the monitor task of
  the supervisor makes its attempts.
\<close>

definition serve :: "lifespan_input \<Rightarrow> settings \<Rightarrow> app \<Rightarrow> app" where
  "serve inp st a =
     (case (ap_supervisor a, ap_agent a) of
        (Some s, Some ag) \<Rightarrow>
          keep_supervisor (run_monitor_task (supervisor_settings_of st) (agent_components ag) (li_fatal inp) (li_attempts inp) s) a
      | _ \<Rightarrow> a)"

definition lifespan :: "lifespan_input \<Rightarrow> app \<Rightarrow> (exn + unit) \<times> app" where
  "lifespan inp a =
     (case start_app inp a of
        (Inl e, a) \<Rightarrow> (Inl e, a)
      | (Inr _, a) \<Rightarrow>
          (case li_settings inp of Inl _ \<Rightarrow> (Inr (), a) | Inr st \<Rightarrow> stop_app inp st (serve inp st a)))"

section \<open>The directories\<close>

lemma ensure_directory_posix:
  "pv_posix inp \<Longrightarrow> ensure_directory inp d mode fs = (Inr u, fs') \<Longrightarrow> fs' = fs(d \<mapsto> mode)"
  by (auto simp: ensure_directory_def Let_def split: option.splits if_split_asm)

lemma ensure_all_modes:
  assumes "pv_posix inp" and "ensure_all inp ds fs = (Inr u, fs')" and "distinct (map fst ds)"
  shows "(\<forall>(d, mode) \<in> set ds. fs' d = Some mode) \<and> (\<forall>d. d \<notin> fst ` set ds \<longrightarrow> fs' d = fs d)"
  using assms(2,3)
proof (induction ds arbitrary: fs)
  case (Cons x ds)
  obtain d mode where x: "x = (d, mode)" by (cases x)
  obtain fs1 where e: "ensure_directory inp d mode fs = (Inr (), fs1)" "ensure_all inp ds fs1 = (Inr u, fs')"
    using Cons.prems(1) by (auto simp: x split: prod.splits sum.splits)
  from Cons.IH [OF e(2)] Cons.prems(2) ensure_directory_posix [OF assms(1) e(1)] show ?case by (auto simp: x)
qed simp

text \<open>
  A provisioning that returns leaves the directories of the credentials, the database and the socket open to
  their owner alone, whatever modes they had, and touches nothing outside the layout.
\<close>

lemma provision_restricts:
  assumes "pv_posix inp" and "provision inp base fs = (Inr u, fs')"
  shows "fs' (config_dir base) = Some 448 \<and> fs' (database_dir base) = Some 448 \<and> fs' (runtime_dir base) = Some 448
    \<and> (\<forall>d. d \<notin> fst ` set (managed_directories base) \<longrightarrow> fs' d = fs d)"
proof -
  have "distinct (map fst (managed_directories base))"
    by (simp add: managed_directories_def config_dir_def database_dir_def logs_dir_def runtime_dir_def snapshots_dir_def)
  from ensure_all_modes [OF assms(1) assms(2) [unfolded provision_def] this] show ?thesis
    by (simp add: managed_directories_def CONFIG_DIR_MODE_def DATABASE_DIR_MODE_def RUNTIME_DIR_MODE_def)
qed

text \<open>
  A configured logger writes through this module's handlers only to the standard output and the given file, each
  once and with the redactor of the sensitive values, however often it is configured.
\<close>

lemma configure_logging_handlers:
  assumes "configure_logging level path parent_exists open_fault sensitive lg = (Inr u, lg')"
  shows "filter lh_managed (lg_handlers lg')
      = [\<lparr>lh_managed = True, lh_file = None, lh_secrets = mk_redactor sensitive\<rparr>,
         \<lparr>lh_managed = True, lh_file = Some path, lh_secrets = mk_redactor sensitive\<rparr>]
    \<and> filter (\<lambda>h. \<not> lh_managed h) (lg_handlers lg') = filter (\<lambda>h. \<not> lh_managed h) (lg_handlers lg)
    \<and> lg_level lg' \<in> set VALID_LOG_LEVELS"
  using assms
  by (auto simp: configure_logging_def install_def normalize_log_level_def Let_def comp_def split: sum.splits if_split_asm)

section \<open>What a lifespan leaves\<close>

lemma enter_operational_flags:
  "enter_operational cfg comps i identity s = (r, s') \<Longrightarrow> su_shutdown_done s' = su_shutdown_done s \<and> su_client_closed s' = su_client_closed s"
  by (auto simp: enter_operational_def start_monitor_def split: sum.splits prod.splits if_split_asm)

lemma startup_with_key_flags:
  "startup_with_key cfg comps inp before s = (r, s') \<Longrightarrow> su_shutdown_done s' = su_shutdown_done s \<and> su_client_closed s' = su_client_closed s"
  by (auto simp: startup_with_key_def Let_def split: sum.splits prod.splits option.splits if_split_asm dest!: enter_operational_flags)

lemma startup_validate_flags:
  "startup_validate_operational cfg comps inp i s = (r, s')
   \<Longrightarrow> su_shutdown_done s' = su_shutdown_done s \<and> su_client_closed s' = su_client_closed s"
  by (auto simp: startup_validate_operational_def startup_confirmed_rejected_def Let_def
      split: sum.splits prod.splits option.splits if_split_asm dest!: enter_operational_flags)

lemma startup_flags:
  "startup cfg comps inp s = (r, s') \<Longrightarrow> su_shutdown_done s' = su_shutdown_done s \<and> su_client_closed s' = su_client_closed s"
  by (auto simp: startup_def enter_locked_def Let_def split: sum.splits option.splits if_split_asm
      dest!: startup_with_key_flags startup_validate_flags)

definition stopped :: "agent_world supervisor \<Rightarrow> bool" where
  "stopped s \<longleftrightarrow> su_monitor s = NoMonitor \<and> (case su_gate s of None \<Rightarrow> True | Some g \<Rightarrow> gt_state g = REACTIVATION_REQUIRED)"

text \<open>
  What is released when the lifespan ends with \<open>r\<close>: the validation client unless closing it raises; the Backend client
  unless closing it raises, or closing the validation client raises while a failed start is cleaned up.
\<close>

definition released :: "lifespan_input \<Rightarrow> exn + unit \<Rightarrow> app \<Rightarrow> bool" where
  "released inp r a \<longleftrightarrow> \<not> ap_runtime a
     \<and> (ap_validation_client a = OpenClient \<longrightarrow> li_validation_close_fault inp \<noteq> None)
     \<and> (ap_backend_client a = OpenClient \<longrightarrow> li_backend_close_fault inp \<noteq> None \<or> r \<noteq> Inr () \<and> li_validation_close_fault inp \<noteq> None)
     \<and> (case ap_supervisor a of None \<Rightarrow> True | Some s \<Rightarrow> stopped s)"

text \<open>\<open>supervised a\<close>: the application has a supervisor that has not been shut down.\<close>

definition supervised :: "app \<Rightarrow> bool" where
  "supervised a \<longleftrightarrow> (\<exists>s ag. ap_supervisor a = Some s \<and> ap_agent a = Some ag \<and> \<not> su_shutdown_done s \<and> \<not> su_client_closed s)"

lemma shut_supervisor_down_ends:
  assumes "shut_supervisor_down inp st ag s a = (r, a')" and "\<not> su_shutdown_done s" and "\<not> su_client_closed s" and "\<not> uncaught r"
  shows "(if r = Inr () then ap_validation_client a' = ClosedClient
          else li_validation_close_fault inp \<noteq> None \<and> ap_validation_client a' = ap_validation_client a)
    \<and> (\<exists>s'. ap_supervisor a' = Some s' \<and> stopped s')
    \<and> ap_runtime a' = ap_runtime a \<and> ap_backend_client a' = ap_backend_client a"
proof -
  let ?cfg = "supervisor_settings_of st"
  obtain q s' where q: "shutdown ?cfg (agent_components ag) (li_shutdown inp) (li_validation_close_fault inp) s = (q, s')"
    by (cases "shutdown ?cfg (agent_components ag) (li_shutdown inp) (li_validation_close_fault inp) s")
  note e = shutdown_ends [OF q assms(2), of undefined None]
  have "stopped s'" using e by (auto simp: stopped_def split: option.split)
  with e q assms(1,3,4) show ?thesis
    by (cases q) (auto simp: shut_supervisor_down_def keep_supervisor_def supervisor_settings_of_def uncaught_def)
qed

lemma start_runtime_ends:
  assumes "start_runtime inp st a = (r, a')" and "ap_supervisor a = None" and "ap_validation_client a = NotMade"
  shows "ap_runtime a' = ap_runtime a \<and> ap_backend_client a' = ap_backend_client a
    \<and> (supervised a' \<or> r \<noteq> Inr () \<and> ap_supervisor a' = None)"
  using assms
  by (auto simp: start_runtime_def Let_def keep_supervisor_def supervised_def new_supervisor_def
      split: sum.splits prod.splits if_split_asm dest!: startup_flags)

lemma release_releases:
  assumes "release inp st a = (r, a')" and "\<not> uncaught r" and "supervised a \<or> ap_supervisor a = None" and "\<not> ap_runtime a"
  shows "released inp (Inl e) a'"
proof (cases "supervised a")
  case True
  then obtain s ag where s: "ap_supervisor a = Some s" "ap_agent a = Some ag" "\<not> su_shutdown_done s" "\<not> su_client_closed s"
    by (auto simp: supervised_def)
  obtain q a1 where q: "shut_supervisor_down inp st ag s a = (q, a1)" by (cases "shut_supervisor_down inp st ag s a")
  have "\<not> uncaught q" using assms(1,2) s q by (auto simp: release_def uncaught_def split: sum.splits)
  from shut_supervisor_down_ends [OF q s(3,4) this] assms(1,4) s q show ?thesis
    by (cases q) (auto simp: release_def close_backend_def released_def split: option.splits)
next
  case False
  then show ?thesis using assms
    by (auto simp: release_def close_backend_def released_def split: if_split_asm option.splits)
qed

lemma stop_app_releases:
  assumes "stop_app inp st a = (r, a')" and "\<not> uncaught r" and "supervised a"
  shows "r = Inr () \<and> released inp (Inr ()) a'"
proof -
  obtain s ag where s: "ap_supervisor a = Some s" "ap_agent a = Some ag" "\<not> su_shutdown_done s" "\<not> su_client_closed s"
    using assms(3) by (auto simp: supervised_def)
  obtain q a1 where q: "shut_supervisor_down inp st ag s a = (q, a1)" by (cases "shut_supervisor_down inp st ag s a")
  have u: "\<not> uncaught q" using assms(1,2) s q by (auto simp: stop_app_def split: if_split_asm)
  from shut_supervisor_down_ends [OF q s(3,4) u] assms(1,2) s q u show ?thesis
    by (auto simp: stop_app_def close_backend_def released_def split: option.splits if_split_asm)
qed

lemma start_or_release_ends:
  assumes "start_or_release inp st a = (r, a')"
    and "ap_supervisor a = None" and "ap_validation_client a = NotMade" and "\<not> ap_runtime a"
  shows "if r = Inr () then supervised a' else uncaught r \<or> released inp r a'"
proof -
  obtain q a2 where q: "start_runtime inp st a = (q, a2)" by (cases "start_runtime inp st a")
  from start_runtime_ends [OF q] assms(2-4)
  have ends: "\<not> ap_runtime a2" "supervised a2 \<or> q \<noteq> Inr () \<and> ap_supervisor a2 = None" by simp_all
  show ?thesis
  proof (cases q)
    case (Inr u)
    with assms(1) q have "r = Inr ()" "a' = a2\<lparr>ap_runtime := True\<rparr>" by (simp_all add: start_or_release_def)
    with ends(2) Inr show ?thesis by (simp add: supervised_def)
  next
    case (Inl e)
    obtain p a3 where p: "release inp st a2 = (p, a3)" by (cases "release inp st a2")
    have "uncaught p \<or> released inp (Inl x) a3" for x using release_releases [OF p, of x] ends by argo
    with assms(1) q Inl p show ?thesis by (cases p) (auto simp: start_or_release_def uncaught_def)
  qed
qed

lemma start_app_ends:
  assumes "start_app inp a = (r, a')"
    and "ap_supervisor a = None" and "ap_validation_client a = NotMade" and "ap_backend_client a = NotMade" and "\<not> ap_runtime a"
  shows "if r = Inr () then supervised a' \<and> (\<exists>st. li_settings inp = Inr st) else uncaught r \<or> released inp r a'"
proof (cases "\<exists>st fs lg. li_settings inp = Inr st
    \<and> start_or_release inp st (a\<lparr>ap_directories := fs, ap_logger := lg, ap_backend_client := OpenClient\<rparr>) = (r, a')")
  case True
  then show ?thesis using start_or_release_ends assms(2,3,5) by fastforce
next
  case False
  with assms show ?thesis
    by (auto simp: start_app_def Let_def released_def split: sum.splits prod.splits)
qed

text \<open>
  C17.  A lifespan leaves nothing behind.  However far the start gets and whatever raises in it, and whatever the
  monitor does while the application serves: when the lifespan has ended (and not by a cancellation), no runtime is
  published, no monitor runs, the gate of the components is locked, and a client is open only if closing it raised;
  the Backend client also if the start failed and closing the validation client raised.
\<close>

theorem lifespan_releases_everything:
  assumes "lifespan inp a = (r, a')" and "\<not> uncaught r"
    and "ap_supervisor a = None" and "ap_validation_client a = NotMade" and "ap_backend_client a = NotMade" and "\<not> ap_runtime a"
  shows "\<not> ap_runtime a'
    \<and> (ap_validation_client a' = OpenClient \<longrightarrow> li_validation_close_fault inp \<noteq> None)
    \<and> (ap_backend_client a' = OpenClient \<longrightarrow>
         li_backend_close_fault inp \<noteq> None \<or> r \<noteq> Inr () \<and> li_validation_close_fault inp \<noteq> None)
    \<and> (\<forall>s. ap_supervisor a' = Some s \<longrightarrow>
          su_monitor s = NoMonitor \<and> (\<forall>g. su_gate s = Some g \<longrightarrow> gt_state g = REACTIVATION_REQUIRED))"
proof -
  obtain q a1 where q: "start_app inp a = (q, a1)" by (cases "start_app inp a")
  note start = start_app_ends [OF q assms(3-6)]
  have "released inp r a'"
  proof (cases q)
    case (Inl e)
    with start q assms(1,2) show ?thesis by (auto simp: lifespan_def)
  next
    case (Inr u)
    with start obtain st where st: "supervised a1" "li_settings inp = Inr st" by auto
    have "supervised (serve inp st a1)"
      using st(1) by (auto simp: serve_def supervised_def keep_supervisor_def run_monitor_task_flags)
    moreover have "stop_app inp st (serve inp st a1) = (r, a')" using assms(1) q Inr st(2) by (simp add: lifespan_def)
    ultimately show ?thesis using stop_app_releases assms(2) by blast
  qed
  then show ?thesis by (auto simp: released_def stopped_def)
qed

text \<open>An agent without optional components that starts while the Backend is away, serves, and stops.\<close>

definition demo_lifespan :: "agent_input \<Rightarrow> lifespan_input" where
  "demo_lifespan i =
     \<lparr>li_settings = Inr (default_settings ''http://h:1''),
      li_provision = \<lparr>pv_posix = True, pv_masked = 493, pv_mkdir_fault = (\<lambda>_. None), pv_chmod_fault = (\<lambda>_. None)\<rparr>,
      li_log_parent_exists = True, li_log_fault = None, li_database = Inr (), li_backend_client = Inr (),
      li_validation_client = Inr (), li_factory = demo_factory_input, li_store = demo_store, li_socket = Absent,
      li_keys = demo_keys, li_world = demo_agent_world,
      li_startup = \<lparr>sp_load_fault = None, sp_resolve = demo_activation_input HttpTimeout,
        sp_activate = demo_activation_input HttpTimeout, sp_reload_fault = None, sp_post = (\<lambda>_. HttpTimeout),
        sp_lock_fault = None, sp_components = i\<rparr>,
      li_cache_fault = None, li_attempts = [], li_fatal = i, li_shutdown = i,
      li_validation_close_fault = None, li_backend_close_fault = None\<rparr>"

definition demo_app :: app where
  "demo_app = \<lparr>ap_directories = Map.empty, ap_logger = \<lparr>lg_handlers = [], lg_level = ''WARNING'', lg_propagate = True\<rparr>,
     ap_cache = [], ap_agent = None, ap_supervisor = None, ap_validation_client = NotMade,
     ap_backend_client = NotMade, ap_runtime = False\<rparr>"

lemma demo_agent_built:
  obtains ag where "components_factory demo_factory_input (default_settings ''http://h:1'') demo_store Absent = Inr ag"
    and "agent_components ag = []"
  by (simp add: components_factory_def build_coordinator_def build_detection_def build_sync_def build_upload_def
      default_settings_def agent_components_def enabled_kinds_def)

lemma demo_lifespan_start:
  "\<exists>a s ag. start_app (demo_lifespan i) demo_app = (Inr (), a) \<and> ap_supervisor a = Some s \<and> ap_agent a = Some ag
     \<and> agent_components ag = [] \<and> su_monitor s = MonitorRunning \<and> ap_backend_client a = OpenClient
     \<and> (\<exists>g. su_gate s = Some g \<and> gt_running g = [])"
proof -
  let ?st = "default_settings ''http://h:1''" and ?inp = "demo_lifespan i"
  obtain ag where ag: "components_factory demo_factory_input ?st demo_store Absent = Inr ag" "agent_components ag = []"
    by (rule demo_agent_built)
  obtain s where s: "startup (supervisor_settings_of ?st) [] (li_startup ?inp) (new_supervisor demo_keys demo_agent_world) = (Inr (), s)"
    "su_monitor s = MonitorRunning" "\<exists>g. su_gate s = Some g \<and> gt_running g = []"
    using demo_load_identity
    by (auto simp: startup_def new_supervisor_def demo_keys_def demo_lifespan_def demo_activation_input_def
        supervisor_settings_of_def default_settings_def resolve_key_def can_authenticate_def startup_validate_operational_def
        Let_def validate_credentials_def enter_operational_def gate_from_identity_def start_operational_components_def start_monitor_def
        mk_monitor_def fl_exact_def)
  obtain fs where fs: "provision (li_provision ?inp) (st_root_path ?st) (ap_directories demo_app) = (Inr (), fs)"
    by (simp add: provision_def managed_directories_def ensure_directory_def demo_lifespan_def Let_def)
  have "normalize_log_level ''INFO'' = Inr ''INFO''" by code_simp
  then obtain lg where lg: "configure_logging (st_log_level ?st) (log_file (st_root_path ?st)) True None (sensitive_values ?st)
      (ap_logger demo_app) = (Inr (), lg)"
    by (simp add: configure_logging_def build_file_handler_def default_settings_def Let_def)
  have "start_runtime ?inp ?st a = (Inr (), keep_supervisor s (a\<lparr>ap_validation_client := OpenClient, ap_agent := Some ag\<rparr>))"
    if "ap_cache a = []" for a
    using ag s that by (simp add: start_runtime_def demo_lifespan_def load_cache_def load_cache_rows_def keep_supervisor_def Let_def)
  with fs lg s(2,3) ag(2) show ?thesis
    by (simp add: start_app_def start_or_release_def demo_lifespan_def demo_app_def keep_supervisor_def)
qed

lemma demo_lifespan_run: "\<exists>a. lifespan (demo_lifespan i) demo_app = (Inr (), a) \<and> ap_backend_client a = ClosedClient \<and> ap_supervisor a \<noteq> None"
proof -
  let ?inp = "demo_lifespan i" and ?st = "default_settings ''http://h:1''"
  obtain a s ag g where a: "start_app ?inp demo_app = (Inr (), a)" "ap_supervisor a = Some s" "ap_agent a = Some ag"
    "agent_components ag = []" "su_monitor s = MonitorRunning" "su_gate s = Some g" "gt_running g = []"
    using demo_lifespan_start by blast
  have none: "li_attempts ?inp = []" "li_settings ?inp = Inr ?st" "li_backend_close_fault ?inp = None"
    by (simp_all add: demo_lifespan_def)
  obtain s' where s': "serve ?inp ?st a = keep_supervisor s' a" "su_gate s' = Some g"
    using a none(1) by (simp add: serve_def run_monitor_task_def Let_def)
  have e: "enter_reactivation_required [] j g = (Inr (), g\<lparr>gt_state := REACTIVATION_REQUIRED\<rparr>)" for j
    using a(7) by (simp add: enter_reactivation_required_def)
  have "fst (shutdown (supervisor_settings_of ?st) [] (li_shutdown ?inp) (li_validation_close_fault ?inp) s') = Inr ()"
    by (simp add: shutdown_def close_validation_client_def Let_def s'(2) e demo_lifespan_def)
  then obtain s'' where s'': "shutdown (supervisor_settings_of ?st) [] (li_shutdown ?inp) (li_validation_close_fault ?inp) s' = (Inr (), s'')"
    by (cases "shutdown (supervisor_settings_of ?st) [] (li_shutdown ?inp) (li_validation_close_fault ?inp) s'") simp
  have k: "ap_supervisor (keep_supervisor s' a) = Some s'" "ap_agent (keep_supervisor s' a) = Some ag"
    using a(3) by (simp_all add: keep_supervisor_def)
  show ?thesis
    by (simp add: lifespan_def a(1) none(2,3) s'(1) stop_app_def k shut_supervisor_down_def a(4) s'' uncaught_def close_backend_def)
      (simp add: keep_supervisor_def)
qed

theorem lifespan_releases_everything_witness:
  "\<exists>i a s. lifespan (demo_lifespan i) demo_app = (Inr (), a) \<and> ap_backend_client a \<noteq> OpenClient \<and> ap_supervisor a = Some s
     \<and> su_monitor s = NoMonitor"
proof -
  fix i :: agent_input
  obtain a s where a: "lifespan (demo_lifespan i) demo_app = (Inr (), a)" "ap_supervisor a = Some s" using demo_lifespan_run by blast
  from lifespan_releases_everything [OF a(1)] a
  show "\<exists>i a s. lifespan (demo_lifespan i) demo_app = (Inr (), a) \<and> ap_backend_client a \<noteq> OpenClient \<and> ap_supervisor a = Some s
     \<and> su_monitor s = NoMonitor"
    by (auto simp: uncaught_def demo_app_def demo_lifespan_def)
qed

section \<open>A client left open\<close>

text \<open>
  When closing the validation client raises while a failed start is cleaned up, that error replaces the one the
  start failed with, and the Backend client stays open.
\<close>

lemma failed_close_leaks_client:
  assumes "start_runtime inp st a = (Inl e, a1)" and "ap_supervisor a1 = None" and "ap_validation_client a1 = OpenClient"
    and "li_validation_close_fault inp = Some f"
  shows "start_or_release inp st a = (Inl f, a1)"
  using assms by (simp add: start_or_release_def release_def)

end
