(* ===== verification/Spec2Isabelle.thy ===== *)
theory Spec2Isabelle
  imports AgentComponents Supervisor Rendezvous BridgeContract SchemaMigration BridgeMain Lifespan
begin

text \<open>
  A verification development for the edge side of the weapon detection platform: the device agent,
  \<^verbatim>\<open>src/agent/src/weapon_detection_agent/\<close>, to which paths below are relative, and the DeepStream Bridge,
  \<^verbatim>\<open>src/deployment/jetson/deepstream/bridge/app/deepstream_bridge/\<close>, whose paths begin with \<^verbatim>\<open>bridge/\<close>.

  The program.  The agent runs on a Jetson beside the Bridge, which it configures, starts and stops.  The
  Bridge runs the inference pipeline and sends detections and JPEG snapshots over a Unix socket.  The agent
  validates each detection, drops repeats within a cooldown window, stores the event in SQLite, and only then
  acknowledges it; the Bridge sends the snapshot of a detection whose acknowledgement asks for one.  Two
  background workers deliver what is stored: the sync worker posts batches of pending events to the Backend,
  and the upload worker sends the snapshot of each event the Backend turned into an alert.  The device
  identity is bought with an activation key.  A credential monitor asks the Backend whether the device secret
  is still good, and locks the identity and every component when the Backend says that it is not.

  The language and the shared data:

  \<^item> \<open>Prelude\<close>, \<open>Errors\<close>: sum-type results, list and map lemmas, the exceptions of the program and of
    Python as a datatype with the classes that \<^verbatim>\<open>except\<close> clauses name.
  \<^item> \<open>PyFloat\<close>, \<open>PyData\<close>: what the program uses of the language: binary64 floats with Python's
    rounding, int-to-float conversion with its overflow, comparison and arithmetic; JSON values,
    dictionaries with their order, UUID texts, datetimes, byte strings and files.
  \<^item> \<open>Models\<close>: the data classes of \<^verbatim>\<open>persistence/models.py\<close> and \<^verbatim>\<open>persistence/snapshot_models.py\<close>.

  Storage:

  \<^item> \<open>Database\<close>, \<open>IdentityStore\<close>, \<open>EventStore\<close>, \<open>SnapshotStore\<close>: \<^verbatim>\<open>persistence/database.py\<close> and the
    four repositories.  A table is the list of its rows; every call takes the storage fault it may
    meet as an argument, so the error branches are values and the rollback of a transaction is that
    the old table is returned.
  \<^item> \<open>Schema\<close>, \<open>SchemaMigration\<close>: \<^verbatim>\<open>persistence/schema.py\<close>.  The statements of the module are values of a
    small SQL with an interpreter; \<open>Schema\<close> shows that an interrupted initialisation can be resumed,
    \<open>SchemaMigration\<close> that the upgrade from every version keeps every row.

  From the camera to the event:

  \<^item> \<open>Protocol\<close>, \<open>Wire\<close>: \<^verbatim>\<open>detection/protocol.py\<close> and the connection half of
    \<^verbatim>\<open>detection/ingest_handler.py\<close>: frames, the snapshot sub-header, the reading of messages.
  \<^item> \<open>Cooldown\<close>, \<open>DetectionModel\<close>, \<open>Validation\<close>, \<open>SnapshotCapture\<close>: the modules of \<^verbatim>\<open>detection/\<close> of these
    names (class labels and the detection event are in \<open>DetectionModel\<close>).
  \<^item> \<open>Ingest\<close>, \<open>IngestFlow\<close>, \<open>Evidence\<close>: the consumer half of \<^verbatim>\<open>detection/ingest_handler.py\<close>: queue,
    validation, cooldown, persistence, acknowledgement, snapshot.  \<open>Ingest\<close> has the definitions,
    \<open>IngestFlow\<close> the step relation of the handler and its invariants, \<open>Evidence\<close> what the stored
    snapshot is worth.
  \<^item> \<open>BridgeWire\<close>, \<open>BridgeContract\<close>: \<^verbatim>\<open>bridge/protocol.py\<close> and \<^verbatim>\<open>bridge/probe.py\<close>: the Bridge's copy of the
    protocol is the agent's, and the agent accepts what the Bridge extracts from a video buffer.
  \<^item> \<open>Rendezvous\<close>: \<^verbatim>\<open>bridge/snapshot.py\<close>: detections, images and acknowledgements meet in any order; which
    snapshots are sent, and which never are.
  \<^item> \<open>BridgeTransport\<close>, \<open>BridgeDelivery\<close>: \<^verbatim>\<open>bridge/transport.py\<close>: the queues, the sender and the reader thread
    with their interleaving.  \<open>BridgeDelivery\<close> composes them with the agent's connection handler of \<open>Wire\<close>.
  \<^item> \<open>BridgePipeline\<close>: the callbacks of \<^verbatim>\<open>bridge/pipeline.py\<close> over the rendezvous and the transport, and the
    snapshots the agent gets from the whole Bridge.
  \<^item> \<open>BridgeGraph\<close>, \<open>BridgeMain\<close>: the construction, run and shutdown of \<^verbatim>\<open>bridge/pipeline.py\<close>, as the calls
    it makes of GStreamer, and \<^verbatim>\<open>bridge/main.py\<close>: which camera a picture, a mount and an image belong to, and what
    a Bridge that has exited leaves.

  To the Backend:

  \<^item> \<open>Backoff\<close>, \<open>Http\<close>, \<open>SyncClient\<close>, \<open>SyncWorker\<close>, \<open>UploadWorker\<close>, \<open>UploadLoop\<close>: \<^verbatim>\<open>sync/\<close> and
    \<^verbatim>\<open>snapshot/\<close>: the HTTP clients, the parsing of answers, the drain of a batch and the loops.
  \<^item> \<open>Credential\<close>: \<^verbatim>\<open>validation/\<close>: the classification of an answer and the monitor.
  \<^item> \<open>Activation\<close>: \<^verbatim>\<open>activation/\<close>: the key, the exchange, and what is stored.

  The configuration of the cameras:

  \<^item> \<open>DeviceConfig\<close>, \<open>ConfigClient\<close>: \<^verbatim>\<open>configuration/validation.py\<close>, \<^verbatim>\<open>serialization.py\<close>,
    \<^verbatim>\<open>source_mapping.py\<close> and \<^verbatim>\<open>client.py\<close>.
  \<^item> \<open>DeepStream\<close>: \<^verbatim>\<open>deepstream/\<close>: the generated configuration file and the process.
  \<^item> \<open>ConfigCoordinator\<close>: \<^verbatim>\<open>configuration/coordinator.py\<close>: cache, polling, and applying a configuration.
  \<^item> \<open>IniReader\<close>, \<open>BridgeConfig\<close>, \<open>BridgeConfigContract\<close>: the reader of \<^verbatim>\<open>configparser\<close>, \<^verbatim>\<open>bridge/config.py\<close>, and
    that the Bridge reads from a generated file what the agent was told.

  Running the whole:

  \<^item> \<open>OperationalGate\<close>, \<open>AgentComponents\<close>: \<^verbatim>\<open>runtime/operational_state_coordinator.py\<close> over any components, and
    its instance on the components of \<^verbatim>\<open>main.py\<close>.
  \<^item> \<open>Supervisor\<close>: \<^verbatim>\<open>runtime/supervisor.py\<close>: startup, the monitor task, shutdown.
  \<^item> \<open>Redaction\<close>: \<^verbatim>\<open>logging/redaction.py\<close> and \<^verbatim>\<open>logging/formatter.py\<close>: what is taken out of a log line.
  \<^item> \<open>Settings\<close>: \<^verbatim>\<open>config/settings.py\<close> and the factories of the components: settings that load build an agent.
  \<^item> \<open>Lifespan\<close>: \<^verbatim>\<open>config/paths.py\<close>, \<^verbatim>\<open>logging/configuration.py\<close> and \<^verbatim>\<open>runtime/startup.py\<close>: start, serving and
    shutdown of the application over \<open>Settings\<close> and \<open>Supervisor\<close>, and what is released.

  Conventions.  A call that may raise returns \<open>exn + 'a\<close>.  An operation of an object takes the state
  of the object and returns the new one.  Awaited operations of the environment (an HTTP exchange, a
  clock reading, a random number, the fault of a storage call) are arguments, one per use, so that
  every interleaving is a sequence of calls.  Two threads that share an object are interleaved at the calls
  under its lock, or at their accesses to the shared variable where there is none.  Loops over data are
  structural recursions; the tasks that run for ever are modelled over a list of what each iteration meets,
  whose length is the number of iterations, so nothing runs out of fuel and no bound is chosen.

  Parameters: SHA-256 (\<open>sha256\<close>), the text of a JSON value and its parsing (\<open>dumps\<close>, \<open>loads\<close>), the
  standard library's parsing of dates and of the authority of a URL (\<open>time_library\<close>, \<open>bad_netloc\<close>), the text of
  a float (\<open>show_float\<close>), the DeepStream template, whether a path is a file (\<open>is_file\<close>), the
  answers of GStreamer to the calls of the Bridge (\<open>library\<close>), the messages of Pydantic on a limit
  (\<open>limit_message\<close>), what \<^verbatim>\<open>urlsplit\<close> says of a URL it rejects (\<open>netloc_message\<close>), and what the constructor and the
  closing of the HTTP clients raise (\<open>factory_input\<close>, \<open>lifespan_input\<close>, and the close faults of the inputs).

  Limits of the statements: an exception means one that is no cancellation where a property says so, the transport of
  \<open>BridgeDelivery\<close> and \<open>BridgePipeline\<close> is stopped by joins that return (\<open>BridgeMain\<close> has the ones that time out), and
  an element of the pipeline is known by its name, as GStreamer requires it to be.

  Not modelled: the modes and pragmas of the database file, the requests of the HTTP client below its answer, the
  conversion of environment variables to typed settings by Pydantic, and the ASGI application object.
\<close>

end
